(* ===== verification/Prelude.thy ===== *)
theory Prelude
  imports Main "HOL-Library.Word" "HOL-Library.Monad_Syntax"
begin

unbundle bit_operations_syntax

text \<open>
  The vocabulary shared by every component of the development.

  \<^item> Machine types: the daemon is built for a 32-bit little-endian MIPS
    (\<open>PLATFORM = RT2880\<close> in \<open>802.1x/Makefile\<close>), so \<open>u8\<close>, \<open>u16\<close>, \<open>u32\<close> and
    \<open>size_t\<close> are words of 8, 16, 32 and 32 bits.
  \<^item> Outcomes: a C function that may touch memory outside an object, dereference a
    null pointer, use a freed object, or never return has the type \<open>'a run\<close>. Its
    three outcomes are \<open>None\<close> (it does not return), \<open>Some (Inl f)\<close> (it commits the
    fault \<open>f\<close>) and \<open>Some (Inr x)\<close> (it returns \<open>x\<close>). \<open>ProcessExit\<close> is the outcome of a function that ends
    the process with \<open>exit\<close>.
  \<^item> Memory: an allocated buffer is the list of its bytes. \<open>mem_read\<close> and
    \<open>mem_write\<close> are \<open>memcpy\<close> out of and into it, with the fault where the access
    leaves the buffer; \<open>store\<close> is the write itself.
  \<^item> Byte order: network order for the packet formats (\<open>htons\<close>, \<open>ntohl\<close>), host order
    for the word arrays of the hash.

  \<open>mem_simps\<close> collects the length and content laws of these functions.
\<close>

named_theorems mem_simps "lengths and contents of buffers and of encoded integers"
named_theorems run_simps "evaluation of the outcome monad"

type_synonym byte = "8 word"
type_synonym u16 = "16 word"
type_synonym u32 = "32 word"

text \<open>The value a signed 32-bit object holds after a store of \<open>x\<close>.\<close>

definition s32 :: "int \<Rightarrow> int" where
  "s32 x = signed_take_bit 31 x"

lemma s32_id [simp]: "- (2 ^ 31) \<le> x \<Longrightarrow> x < 2 ^ 31 \<Longrightarrow> s32 x = x"
  by (simp add: s32_def signed_take_bit_int_eq_self)

lemma s32_range: "- (2 ^ 31) \<le> s32 x" "s32 x < 2 ^ 31"
  unfolding s32_def using signed_take_bit_int_greater_eq_minus_exp [of 31 x] signed_take_bit_int_less_exp [of 31 x]
  by simp_all

text \<open>\<open>malloc\<close> and \<open>realloc\<close> succeed or fail by the size of the request.\<close>

type_synonym allocator = "nat \<Rightarrow> bool"

definition no_oom :: allocator where
  "no_oom n = True"

lemma no_oom [simp]: "\<not> no_oom n \<longleftrightarrow> False"
  by (simp add: no_oom_def)

lemma alloc_fails: "\<not> alloc n \<Longrightarrow> alloc \<noteq> no_oom"
  by (auto simp: no_oom_def)

section \<open>Outcomes\<close>

datatype fault = OutOfBounds | NullDeref | UseAfterFree | UninitRead | ProcessExit

type_synonym 'a run = "(fault + 'a) option"

definition ret :: "'a \<Rightarrow> 'a run" where
  "ret x = Some (Inr x)"

definition fail :: "fault \<Rightarrow> 'a run" where
  "fail f = Some (Inl f)"

definition run_bind :: "'a run \<Rightarrow> ('a \<Rightarrow> 'b run) \<Rightarrow> 'b run" where
  "run_bind m f =
     (case m of None \<Rightarrow> None | Some (Inl e) \<Rightarrow> Some (Inl e) | Some (Inr x) \<Rightarrow> f x)"

definition run_map :: "('a \<Rightarrow> 'b) \<Rightarrow> 'a run \<Rightarrow> 'b run" where
  "run_map f m = run_bind m (\<lambda>x. ret (f x))"

lemma run_bind_ret [simp, run_simps]: "run_bind (ret x) f = f x"
  by (simp add: run_bind_def ret_def)

lemma run_bind_fail [simp, run_simps]: "run_bind (fail e) f = fail e"
  by (simp add: run_bind_def fail_def)

lemma run_bind_None [simp, run_simps]: "run_bind None f = None"
  by (simp add: run_bind_def)

lemma ret_inject [simp, run_simps]: "ret x = ret y \<longleftrightarrow> x = y"
  by (simp add: ret_def)

lemma fail_inject [simp, run_simps]: "fail x = fail y \<longleftrightarrow> x = y"
  by (simp add: fail_def)

lemma ret_neq [simp, run_simps]: "ret x \<noteq> fail e" "fail e \<noteq> ret x" "ret x \<noteq> None" "None \<noteq> ret x"
    "fail e \<noteq> (None :: 'a run)" "None \<noteq> (fail e :: 'a run)"
  by (simp_all add: ret_def fail_def)

lemma run_cases [case_names hang fault ret]:
  obtains "m = None" | e where "m = fail e" | x where "m = ret x"
proof (cases m)
  case None
  then show ?thesis using that(1) by simp
next
  case (Some r)
  then show ?thesis using that(2,3) by (cases r) (auto simp: fail_def ret_def)
qed

lemma run_bind_eq_ret: "run_bind m f = ret y \<longleftrightarrow> (\<exists>x. m = ret x \<and> f x = ret y)"
  by (cases m rule: run_cases) auto

lemma run_bind_assoc [run_simps]: "run_bind (run_bind m f) g = run_bind m (\<lambda>x. run_bind (f x) g)"
  by (cases m rule: run_cases) auto

text \<open>Loops that may run forever are \<open>partial_function (option)\<close>s through \<open>run_bind\<close>.\<close>

lemma run_bind_mono [partial_function_mono]:
  fixes B :: "('a \<Rightarrow> 'b option) \<Rightarrow> 'c run" and C :: "'c \<Rightarrow> ('a \<Rightarrow> 'b option) \<Rightarrow> 'd run"
  assumes m: "mono_option B" and f: "\<And>x. mono_option (\<lambda>g. C x g)"
  shows "mono_option (\<lambda>g. run_bind (B g) (\<lambda>x. C x g))"
proof (rule monotoneI)
  fix g h :: "'a \<Rightarrow> 'b option"
  assume gh: "fun_ord option_ord g h"
  have b: "option_ord (B g) (B h)" using m gh by (simp add: monotone_on_def)
  have c: "option_ord (C x g) (C x h)" for x using f gh by (simp add: monotone_on_def)
  show "option_ord (run_bind (B g) (\<lambda>x. C x g)) (run_bind (B h) (\<lambda>x. C x h))"
  proof (cases "B g")
    case None
    then show ?thesis by (simp add: run_bind_def flat_ord_def)
  next
    case (Some r)
    with b have "B h = Some r" by (auto simp: flat_ord_def)
    with Some c show ?thesis by (auto simp: run_bind_def flat_ord_def split: sum.splits)
  qed
qed

lemma run_map_ret [simp, run_simps]: "run_map f (ret x) = ret (f x)"
  by (simp add: run_map_def)

text \<open>A computation that returns, and whose result satisfies \<open>P\<close>.\<close>

definition returns :: "'a run \<Rightarrow> ('a \<Rightarrow> bool) \<Rightarrow> bool" where
  "returns m P \<longleftrightarrow> (\<exists>x. m = ret x \<and> P x)"

lemma returns_ret [simp, run_simps]: "returns (ret x) P \<longleftrightarrow> P x"
  by (simp add: returns_def)

lemma returns_fail [simp, run_simps]: "\<not> returns (fail e) P"
  by (simp add: returns_def)

lemma returns_None [simp, run_simps]: "\<not> returns None P"
  by (simp add: returns_def)

lemma returns_bind [run_simps]: "returns (run_bind m f) P \<longleftrightarrow> returns m (\<lambda>x. returns (f x) P)"
  by (cases m rule: run_cases) auto

lemma returns_mono: "returns m P \<Longrightarrow> (\<And>x. P x \<Longrightarrow> Q x) \<Longrightarrow> returns m Q"
  by (auto simp: returns_def)

lemma returns_conj: "returns m P \<Longrightarrow> returns m Q \<Longrightarrow> returns m (\<lambda>x. P x \<and> Q x)"
  by (auto simp: returns_def)

text \<open>Partial correctness: whatever \<open>m\<close> returns satisfies \<open>P\<close>.\<close>

definition yields :: "'a run \<Rightarrow> ('a \<Rightarrow> bool) \<Rightarrow> bool" where
  "yields m P \<longleftrightarrow> (\<forall>x. m = ret x \<longrightarrow> P x)"

lemma yields_ret [simp, run_simps]: "yields (ret x) P \<longleftrightarrow> P x"
  by (simp add: yields_def)

lemma yields_fail [simp, run_simps]: "yields (fail e) P"
  by (simp add: yields_def)

lemma yields_None [simp, run_simps]: "yields None P"
  by (simp add: yields_def)

lemma yields_bind [run_simps]: "yields (run_bind m f) P \<longleftrightarrow> yields m (\<lambda>x. yields (f x) P)"
  by (cases m rule: run_cases) auto

lemma yields_mono: "yields m P \<Longrightarrow> (\<And>x. P x \<Longrightarrow> Q x) \<Longrightarrow> yields m Q"
  by (auto simp: yields_def)

lemma returns_yields: "returns m P \<Longrightarrow> yields m P"
  by (auto simp: returns_def yields_def)

lemma yields_map: "yields (run_map f m) P \<longleftrightarrow> yields m (\<lambda>x. P (f x))"
  by (simp add: run_map_def yields_bind)

lemma yields_then: "yields m P \<Longrightarrow> (\<And>w. P w \<Longrightarrow> yields (f w) Q) \<Longrightarrow> yields (run_bind m f) Q"
  unfolding yields_bind by (rule yields_mono)

lemma yields_then2:
  "yields m (\<lambda>(b, w). P w) \<Longrightarrow> (\<And>b w. P w \<Longrightarrow> yields (f (b, w)) Q) \<Longrightarrow> yields (run_bind m f) Q"
  unfolding yields_bind by (erule yields_mono) auto

lemma yields_run_any: "(\<And>x. m = ret x \<Longrightarrow> yields (f x) P) \<Longrightarrow> yields (run_bind m f) P"
  by (cases m rule: run_cases) auto

lemma yields_True: "yields m (\<lambda>x. True)"
  by (simp add: yields_def)

lemma yields_conj: "yields m P \<Longrightarrow> yields m Q \<Longrightarrow> yields m (\<lambda>x. P x \<and> Q x)"
  by (simp add: yields_def)

section \<open>Buffers\<close>

definition store :: "nat \<Rightarrow> 'a list \<Rightarrow> 'a list \<Rightarrow> 'a list" where
  "store off ds buf = take off buf @ ds @ drop (off + length ds) buf"

definition slice :: "nat \<Rightarrow> nat \<Rightarrow> 'a list \<Rightarrow> 'a list" where
  "slice off n buf = take n (drop off buf)"

definition mem_read :: "nat \<Rightarrow> nat \<Rightarrow> 'a list \<Rightarrow> 'a list run" where
  "mem_read off n buf = (if off + n \<le> length buf then ret (slice off n buf) else fail OutOfBounds)"

definition mem_write :: "nat \<Rightarrow> 'a list \<Rightarrow> 'a list \<Rightarrow> 'a list run" where
  "mem_write off ds buf =
     (if off + length ds \<le> length buf then ret (store off ds buf) else fail OutOfBounds)"

lemma length_store [simp, mem_simps]: "off + length ds \<le> length buf \<Longrightarrow> length (store off ds buf) = length buf"
  by (simp add: store_def)

lemma length_slice [simp, mem_simps]: "off + n \<le> length buf \<Longrightarrow> length (slice off n buf) = n"
  by (simp add: slice_def)

lemma nth_store:
  assumes "off + length ds \<le> length buf" "i < length buf"
  shows "store off ds buf ! i = (if off \<le> i \<and> i < off + length ds then ds ! (i - off) else buf ! i)"
  using assms by (auto simp: store_def nth_append min_def)

lemma nth_slice: "off + n \<le> length buf \<Longrightarrow> i < n \<Longrightarrow> slice off n buf ! i = buf ! (off + i)"
  by (simp add: slice_def)

lemma slice_store_same [simp]: "off + length ds \<le> length buf \<Longrightarrow> slice off (length ds) (store off ds buf) = ds"
  by (simp add: slice_def store_def min_def)

lemma slice_store_before [simp]:
  assumes "a + n \<le> off" "off + length ds \<le> length buf"
  shows "slice a n (store off ds buf) = slice a n buf"
  by (rule nth_equalityI) (use assms in \<open>auto simp: nth_slice nth_store\<close>)

lemma slice_store_after [simp]:
  assumes "off + length ds \<le> a" "a + n \<le> length buf"
  shows "slice a n (store off ds buf) = slice a n buf"
  by (rule nth_equalityI) (use assms in \<open>auto simp: nth_slice nth_store\<close>)

lemma slice_append: "slice off n (xs @ ys) = (if off + n \<le> length xs then slice off n xs
    else slice off n xs @ take (n - (length xs - off)) (drop (off - length xs) ys))"
  by (auto simp: slice_def)

lemma slice_append_front [simp, mem_simps]: "off + n \<le> length xs \<Longrightarrow> slice off n (xs @ ys) = slice off n xs"
  by (simp add: slice_append)

lemma slice_append_back [mem_simps]: "length xs \<le> off \<Longrightarrow> slice off n (xs @ ys) = slice (off - length xs) n ys"
  by (simp add: slice_def)

lemma slice_0_all [simp]: "length xs = n \<Longrightarrow> slice 0 n xs = xs"
  by (simp add: slice_def)

lemma slice_take [simp]: "off + n \<le> m \<Longrightarrow> slice off n (take m xs) = slice off n xs"
  by (simp add: slice_def drop_take min_def)

lemma store_0_append: "length ds = length xs \<Longrightarrow> store 0 ds (xs @ ys) = ds @ ys"
  by (simp add: store_def)

lemma mem_read_ret [simp, run_simps]: "off + n \<le> length buf \<Longrightarrow> mem_read off n buf = ret (slice off n buf)"
  by (simp add: mem_read_def)

lemma mem_write_ret [simp, run_simps]:
  "off + length ds \<le> length buf \<Longrightarrow> mem_write off ds buf = ret (store off ds buf)"
  by (simp add: mem_write_def)

text \<open>The characters of an array up to its terminator.\<close>

definition c_string :: "byte list \<Rightarrow> byte list run" where
  "c_string s = (if 0 \<in> set s then ret (takeWhile (\<lambda>c. c \<noteq> 0) s) else fail OutOfBounds)"

section \<open>Byte order\<close>

text \<open>\<open>htons\<close> / \<open>htonl\<close> followed by a copy of the object, and back.\<close>

definition be16 :: "u16 \<Rightarrow> byte list" where
  "be16 w = [ucast (drop_bit 8 w), ucast w]"

definition be32 :: "u32 \<Rightarrow> byte list" where
  "be32 w = [ucast (drop_bit 24 w), ucast (drop_bit 16 w), ucast (drop_bit 8 w), ucast w]"

definition rd_be16 :: "byte list \<Rightarrow> u16" where
  "rd_be16 bs = push_bit 8 (ucast (bs ! 0)) OR ucast (bs ! 1)"

definition rd_be32 :: "byte list \<Rightarrow> u32" where
  "rd_be32 bs = push_bit 24 (ucast (bs ! 0)) OR push_bit 16 (ucast (bs ! 1))
     OR push_bit 8 (ucast (bs ! 2)) OR ucast (bs ! 3)"

text \<open>The bytes of a host (little-endian) word, and back.\<close>

definition le32 :: "u32 \<Rightarrow> byte list" where
  "le32 w = [ucast w, ucast (drop_bit 8 w), ucast (drop_bit 16 w), ucast (drop_bit 24 w)]"

definition rd_le32 :: "byte list \<Rightarrow> u32" where
  "rd_le32 bs = ucast (bs ! 0) OR push_bit 8 (ucast (bs ! 1))
     OR push_bit 16 (ucast (bs ! 2)) OR push_bit 24 (ucast (bs ! 3))"

lemma length_be [simp, mem_simps]: "length (be16 w) = 2" "length (be32 v) = 4" "length (le32 v) = 4"
  by (simp_all add: be16_def be32_def le32_def)

lemma bit_add_diff_less: "bit w n \<Longrightarrow> \<not> bit w (k + (n - k)) \<Longrightarrow> n < k"
  by (cases "n < k") auto

lemma rd_be16_be16 [simp, mem_simps]: "rd_be16 (be16 w) = w"
  by (rule bit_word_eqI) (auto simp: rd_be16_def be16_def bit_simps)

lemma rd_be32_be32 [simp, mem_simps]: "rd_be32 (be32 w) = w"
  by (rule bit_word_eqI) (auto simp: rd_be32_def be32_def bit_simps dest: bit_add_diff_less)

lemma rd_le32_le32 [simp, mem_simps]: "rd_le32 (le32 w) = w"
  by (rule bit_word_eqI) (auto simp: rd_le32_def le32_def bit_simps dest: bit_add_diff_less)

end
