(* ===== verification/Md5.thy ===== *)
theory Md5
  imports Prelude "HOL-Library.Multiset"
begin

text \<open>
  \<open>802.1x/md5.c\<close>: the MD5 context and its three operations, the block transform, the
  two message authentication codes built on them and the RC4 stream cipher.

  A context keeps the chaining words \<open>Buf\<close>, the bit count as two 32-bit words and a
  64-byte input buffer. A data pointer with its length is the list of the bytes it
  designates; the length argument is the 32-bit word of that list's length. The target
  is little-endian, so \<open>byteReverse\<close> is empty and the cast of the input buffer to words
  is \<open>rd_le32\<close>.

  The lemmas relate a context to the bytes fed to it so far (\<open>md5_repr\<close>), show that
  splitting the data over several updates does not matter, and that the final digest is
  the one of the padded message; the locale \<open>chunked_hash\<close> states that contract, and the
  MACs are proved against it.
\<close>

section \<open>The block transform\<close>

type_synonym md5_regs = "u32 \<times> u32 \<times> u32 \<times> u32"

definition MD5_F1 :: "u32 \<Rightarrow> u32 \<Rightarrow> u32 \<Rightarrow> u32" where
  "MD5_F1 x y z = ((x AND y) OR (NOT x AND z))"

definition MD5_F2 :: "u32 \<Rightarrow> u32 \<Rightarrow> u32 \<Rightarrow> u32" where
  "MD5_F2 x y z = ((x AND z) OR (y AND NOT z))"

definition MD5_F3 :: "u32 \<Rightarrow> u32 \<Rightarrow> u32 \<Rightarrow> u32" where
  "MD5_F3 x y z = (x XOR y XOR z)"

definition MD5_F4 :: "u32 \<Rightarrow> u32 \<Rightarrow> u32 \<Rightarrow> u32" where
  "MD5_F4 x y z = (y XOR (x OR NOT z))"

definition CYCLIC_LEFT_SHIFT :: "u32 \<Rightarrow> nat \<Rightarrow> u32" where
  "CYCLIC_LEFT_SHIFT w s = (push_bit s w OR drop_bit (32 - s) w)"

definition MD5Step :: "(u32 \<Rightarrow> u32 \<Rightarrow> u32 \<Rightarrow> u32) \<Rightarrow> u32 \<Rightarrow> u32 \<Rightarrow> u32 \<Rightarrow> u32 \<Rightarrow> u32 \<Rightarrow> u32 \<Rightarrow> nat \<Rightarrow> u32" where
  "MD5Step f w x y z data t s =
     (let w = w + (f x y z + data + t);
          w = CYCLIC_LEFT_SHIFT w s AND 0xffffffff
      in w + x)"

definition LShiftVal :: "nat list" where
  "LShiftVal = [7, 12, 17, 22, 5, 9, 14, 20, 4, 11, 16, 23, 6, 10, 15, 21]"

definition MD5Table :: "u32 list" where
  "MD5Table = [
    0xd76aa478, 0xe8c7b756, 0x242070db, 0xc1bdceee,
    0xf57c0faf, 0x4787c62a, 0xa8304613, 0xfd469501,
    0x698098d8, 0x8b44f7af, 0xffff5bb1, 0x895cd7be,
    0x6b901122, 0xfd987193, 0xa679438e, 0x49b40821,
    0xf61e2562, 0xc040b340, 0x265e5a51, 0xe9b6c7aa,
    0xd62f105d, 0x02441453, 0xd8a1e681, 0xe7d3fbc8,
    0x21e1cde6, 0xc33707d6, 0xf4d50d87, 0x455a14ed,
    0xa9e3e905, 0xfcefa3f8, 0x676f02d9, 0x8d2a4c8a,
    0xfffa3942, 0x8771f681, 0x6d9d6122, 0xfde5380c,
    0xa4beea44, 0x4bdecfa9, 0xf6bb4b60, 0xbebfbc70,
    0x289b7ec6, 0xeaa127fa, 0xd4ef3085, 0x04881d05,
    0xd9d4d039, 0xe6db99e5, 0x1fa27cf8, 0xc4ac5665,
    0xf4292244, 0x432aff97, 0xab9423a7, 0xfc93a039,
    0x655b59c3, 0x8f0ccc92, 0xffeff47d, 0x85845dd1,
    0x6fa87e4f, 0xfe2ce6e0, 0xa3014314, 0x4e0811a1,
    0xf7537e82, 0xbd3af235, 0x2ad7d2bb, 0xeb86d391]"

text \<open>
  One pass of a loop body of \<open>MD5Transform\<close>: a step on \<open>Reg[0]\<close>, then the registers
  move one place to the right.
\<close>

definition md5_loop_body ::
    "(u32 \<Rightarrow> u32 \<Rightarrow> u32 \<Rightarrow> u32) \<Rightarrow> (nat \<Rightarrow> nat) \<Rightarrow> (nat \<Rightarrow> nat) \<Rightarrow> u32 list \<Rightarrow> nat \<Rightarrow> md5_regs \<Rightarrow> md5_regs" where
  "md5_loop_body f mi si Mes i Reg =
     (case Reg of (r0, r1, r2, r3) \<Rightarrow>
        let r0 = MD5Step f r0 r1 r2 r3 (Mes ! mi i) (MD5Table ! i) (LShiftVal ! si i)
        in (r3, r0, r1, r2))"

definition MD5Transform :: "md5_regs \<Rightarrow> u32 list \<Rightarrow> md5_regs" where
  "MD5Transform Buf Mes =
     (let Reg = Buf;
          Reg = fold (md5_loop_body MD5_F1 (\<lambda>i. i) (\<lambda>i. i AND 3) Mes) [0..<16] Reg;
          Reg = fold (md5_loop_body MD5_F2 (\<lambda>i. (5 * (i AND 0xf) + 1) AND 0xf) (\<lambda>i. 4 + (i AND 3)) Mes) [16..<32] Reg;
          Reg = fold (md5_loop_body MD5_F3 (\<lambda>i. (3 * (i AND 0xf) + 5) AND 0xf) (\<lambda>i. 8 + (i AND 3)) Mes) [32..<48] Reg;
          Reg = fold (md5_loop_body MD5_F4 (\<lambda>i. (7 * (i AND 0xf)) AND 0xf) (\<lambda>i. 12 + (i AND 3)) Mes) [48..<64] Reg
      in case Buf of (b0, b1, b2, b3) \<Rightarrow>
         case Reg of (r0, r1, r2, r3) \<Rightarrow> (b0 + r0, b1 + r1, b2 + r2, b3 + r3))"

section \<open>The context\<close>

record md5_ctx =
  Buf :: md5_regs
  LenInBitCount0 :: u32
  LenInBitCount1 :: u32
  Input :: "byte list"

definition MD5Init :: "md5_ctx \<Rightarrow> md5_ctx" where
  "MD5Init pCtx = pCtx\<lparr>
     Buf := (0x67452301, 0xefcdab89, 0x98badcfe, 0x10325476),
     LenInBitCount0 := 0, LenInBitCount1 := 0\<rparr>"

text \<open>\<open>MD5Transform(pCtx->Buf, (ULONG *)pCtx->Input)\<close>.\<close>

definition words_of :: "byte list \<Rightarrow> u32 list" where
  "words_of bs = map (\<lambda>i. rd_le32 (slice (4 * i) 4 bs)) [0..<16]"

definition md5_transform_input :: "md5_ctx \<Rightarrow> md5_ctx" where
  "md5_transform_input c = c\<lparr>Buf := MD5Transform (Buf c) (words_of (Input c))\<rparr>"

text \<open>The loop over the whole 64-byte blocks in \<open>MD5Update\<close>; \<open>i\<close> counts down from \<open>TfTimes\<close>.\<close>

fun md5_update_blocks :: "nat \<Rightarrow> md5_ctx \<Rightarrow> byte list \<Rightarrow> md5_ctx \<times> byte list" where
  "md5_update_blocks 0 c pData = (c, pData)"
| "md5_update_blocks (Suc i) c pData =
     (let c = c\<lparr>Input := store 0 (take 64 pData) (Input c)\<rparr>;
          c = md5_transform_input c
      in md5_update_blocks i c (drop 64 pData))"

text \<open>The part of \<open>MD5Update\<close> after the carried-over partial block.\<close>

definition md5_update_rest :: "md5_ctx \<Rightarrow> byte list \<Rightarrow> u32 \<Rightarrow> md5_ctx" where
  "md5_update_rest c pData LenInBytes =
     (let TfTimes = drop_bit 6 LenInBytes;
          (c, pData) = md5_update_blocks (unat TfTimes) c pData;
          LenInBytes = LenInBytes - 64 * TfTimes
      in if LenInBytes \<noteq> 0 then c\<lparr>Input := store 0 pData (Input c)\<rparr> else c)"

definition MD5Update :: "md5_ctx \<Rightarrow> byte list \<Rightarrow> md5_ctx" where
  "MD5Update pCtx pData =
     (let LenInBytes = of_nat (length pData) :: u32;
          temp = LenInBitCount0 pCtx;
          c = pCtx\<lparr>LenInBitCount0 := LenInBitCount0 pCtx + push_bit 3 LenInBytes\<rparr>;
          c = (if LenInBitCount0 c < temp then c\<lparr>LenInBitCount1 := LenInBitCount1 c + 1\<rparr> else c);
          c = c\<lparr>LenInBitCount1 := LenInBitCount1 c + drop_bit 29 LenInBytes\<rparr>;
          temp = drop_bit 3 temp AND 0x3f
      in if temp \<noteq> 0 then
           if temp + LenInBytes < 64
           then c\<lparr>Input := store (unat temp) pData (Input c)\<rparr>
           else
             (let c = c\<lparr>Input := store (unat temp) (take (64 - unat temp) pData) (Input c)\<rparr>;
                  c = md5_transform_input c
              in md5_update_rest c (drop (64 - unat temp) pData) (LenInBytes - (64 - temp)))
         else md5_update_rest c pData LenInBytes)"

text \<open>The eight bytes of the data-length field, written by both branches of \<open>MD5Final\<close>.\<close>

definition md5_put_length :: "md5_ctx \<Rightarrow> md5_ctx" where
  "md5_put_length c = c\<lparr>Input :=
     store 60 (le32 (LenInBitCount1 c)) (store 56 (le32 (LenInBitCount0 c)) (Input c))\<rparr>"

text \<open>
  \<open>NdisZeroMemory(pCtx, sizeof(pCtx))\<close> clears as many bytes as a pointer has, four on the
  target: the first word of \<open>Buf\<close>.
\<close>

definition md5_wipe :: "md5_ctx \<Rightarrow> md5_ctx" where
  "md5_wipe c = (case Buf c of (b0, b1, b2, b3) \<Rightarrow> c\<lparr>Buf := (0, b1, b2, b3)\<rparr>)"

definition md5_digest :: "md5_regs \<Rightarrow> byte list" where
  "md5_digest r = (case r of (b0, b1, b2, b3) \<Rightarrow> le32 b0 @ le32 b1 @ le32 b2 @ le32 b3)"

definition MD5Final :: "md5_ctx \<Rightarrow> byte list \<times> md5_ctx" where
  "MD5Final pCtx =
     (let Remainder = unat (drop_bit 3 (LenInBitCount0 pCtx) AND 0x3f);
          PadLenInBytes = (if Remainder < 56 then 56 - Remainder else 120 - Remainder);
          c = (if Remainder < 56 then
                 let c = pCtx\<lparr>Input := store Remainder [0x80] (Input pCtx)\<rparr>;
                     PadLenInBytes = PadLenInBytes - 1;
                     c = c\<lparr>Input := store (Remainder + 1) (replicate PadLenInBytes 0) (Input c)\<rparr>;
                     c = md5_put_length c
                 in md5_transform_input c
               else
                 let c = pCtx\<lparr>Input := store Remainder [0x80] (Input pCtx)\<rparr>;
                     PadLenInBytes = PadLenInBytes - 1;
                     c = c\<lparr>Input := store (Remainder + 1) (replicate (64 - Remainder - 1) 0) (Input c)\<rparr>;
                     PadLenInBytes = PadLenInBytes - (64 - Remainder - 1);
                     c = md5_transform_input c;
                     c = c\<lparr>Input := store 0 (replicate PadLenInBytes 0) (Input c)\<rparr>;
                     c = md5_put_length c
                 in md5_transform_input c)
      in (md5_digest (Buf c), md5_wipe c))"

text \<open>An uninitialised context on the stack of a caller: \<open>MD5Init\<close> leaves its buffer as it is.\<close>

definition md5_stack_ctx :: "md5_ctx" where
  "md5_stack_ctx = \<lparr>Buf = (0, 0, 0, 0), LenInBitCount0 = 0, LenInBitCount1 = 0, Input = replicate 64 0\<rparr>"

section \<open>The authentication codes\<close>

definition md5_mac :: "byte list \<Rightarrow> byte list \<Rightarrow> byte list" where
  "md5_mac key data =
     (let context = MD5Init md5_stack_ctx;
          context = MD5Update context key;
          context = MD5Update context data;
          context = MD5Update context key
      in fst (MD5Final context))"

definition hmac_md5 :: "byte list \<Rightarrow> byte list \<Rightarrow> byte list" where
  "hmac_md5 key data =
     (let key = (if 64 < length key then
                   (let ttcontext = MD5Init md5_stack_ctx;
                        ttcontext = MD5Update ttcontext key
                    in fst (MD5Final ttcontext))
                 else key);
          k_ipad = store 0 key (replicate 65 0);
          k_opad = store 0 key (replicate 65 0);
          k_ipad = map (\<lambda>b. b XOR 0x36) (take 64 k_ipad) @ drop 64 k_ipad;
          k_opad = map (\<lambda>b. b XOR 0x5c) (take 64 k_opad) @ drop 64 k_opad;
          context = MD5Init md5_stack_ctx;
          context = MD5Update context (take 64 k_ipad);
          context = MD5Update context data;
          (mac, context) = MD5Final context;
          context = MD5Init context;
          context = MD5Update context (take 64 k_opad);
          context = MD5Update context mac
      in fst (MD5Final context))"

section \<open>RC4\<close>

definition S_SWAP :: "byte list \<Rightarrow> nat \<Rightarrow> nat \<Rightarrow> byte list" where
  "S_SWAP S a b = (let t = S ! a; S' = S[a := S ! b] in S'[b := t])"

text \<open>One pass of the key schedule; the state is \<open>(S, j, kpos)\<close>.\<close>

definition rc4_ksa_step :: "byte list \<Rightarrow> nat \<Rightarrow> byte list \<times> nat \<times> byte \<Rightarrow> byte list \<times> nat \<times> byte" where
  "rc4_ksa_step key i st =
     (case st of (S, j, kpos) \<Rightarrow>
        let j = (j + unat (S ! i) + unat (key ! unat kpos)) AND 0xff;
            kpos = kpos + 1;
            kpos = (if unat kpos \<ge> length key then 0 else kpos)
        in (S_SWAP S i j, j, kpos))"

definition rc4_identity :: "byte list" where
  "rc4_identity = map of_nat [0..<256]"

definition rc4_setup :: "byte list \<Rightarrow> byte list" where
  "rc4_setup key = fst (fold (rc4_ksa_step key) [0..<256] (rc4_identity, 0, 0))"

text \<open>The data loop; each pass advances \<open>i\<close>, \<open>j\<close> and the permutation and masks one byte.\<close>

fun rc4_apply :: "byte list \<Rightarrow> nat \<Rightarrow> nat \<Rightarrow> byte list \<Rightarrow> byte list" where
  "rc4_apply S i j [] = []"
| "rc4_apply S i j (b # bs) =
     (let i = (i + 1) AND 0xff;
          j = (j + unat (S ! i)) AND 0xff;
          S = S_SWAP S i j
      in (b XOR S ! ((unat (S ! i) + unat (S ! j)) AND 0xff)) # rc4_apply S i j bs)"

definition rc4 :: "byte list \<Rightarrow> byte list \<Rightarrow> byte list" where
  "rc4 buf key = rc4_apply (rc4_setup key) 0 0 buf"

section \<open>What the contexts stand for\<close>

definition md5_block :: "md5_regs \<Rightarrow> byte list \<Rightarrow> md5_regs" where
  "md5_block h b = MD5Transform h (words_of b)"

function md5_chain :: "md5_regs \<Rightarrow> byte list \<Rightarrow> md5_regs" where
  "md5_chain h m = (if length m < 64 then h else md5_chain (md5_block h (take 64 m)) (drop 64 m))"
  by pat_completeness auto
termination
  by (relation "measure (\<lambda>(h, m). length m)") auto

declare md5_chain.simps [simp del]

definition md5_tail :: "byte list \<Rightarrow> byte list" where
  "md5_tail m = drop (64 * (length m div 64)) m"

definition md5_init_regs :: "md5_regs" where
  "md5_init_regs = (0x67452301, 0xefcdab89, 0x98badcfe, 0x10325476)"

definition md5_pad :: "nat \<Rightarrow> byte list" where
  "md5_pad n = 0x80 # replicate ((119 - n mod 64) mod 64) 0
     @ le32 (of_nat (8 * n)) @ le32 (of_nat (8 * n div 2 ^ 32))"

definition md5_spec :: "byte list \<Rightarrow> byte list" where
  "md5_spec m = md5_digest (md5_chain md5_init_regs (m @ md5_pad (length m)))"

definition md5_repr :: "byte list \<Rightarrow> md5_ctx \<Rightarrow> bool" where
  "md5_repr m c \<longleftrightarrow> Buf c = md5_chain md5_init_regs m \<and> length (Input c) = 64
     \<and> take (length m mod 64) (Input c) = md5_tail m
     \<and> LenInBitCount0 c = of_nat (8 * length m)
     \<and> LenInBitCount1 c = of_nat (8 * length m div 2 ^ 32)"

lemma length_md5_tail [simp]: "length (md5_tail m) = length m mod 64"
  by (simp add: md5_tail_def minus_mult_div_eq_mod)

lemma md5_chain_short [simp]: "length m < 64 \<Longrightarrow> md5_chain h m = h"
  by (simp add: md5_chain.simps)

lemma md5_chain_block: "length b = 64 \<Longrightarrow> md5_chain h (b @ m) = md5_chain (md5_block h b) m"
  by (simp add: md5_chain.simps [of h "b @ m"])

lemma md5_chain_append:
  "64 dvd length a \<Longrightarrow> md5_chain h (a @ m) = md5_chain (md5_chain h a) m"
proof (induction "length a div 64" arbitrary: h a)
  case 0
  then have "a = []" by (auto simp: div_eq_0_iff elim: dvdE)
  then show ?case by simp
next
  case (Suc n)
  then have l: "64 \<le> length a" by (metis One_nat_def Suc_leI div_less less_numeral_extra(3) not_le zero_less_Suc)
  then have split: "a = take 64 a @ drop 64 a" and t: "length (take 64 a) = 64" by simp_all
  have d: "64 dvd length (drop 64 a)" "n = length (drop 64 a) div 64"
    using Suc.prems Suc.hyps(2) l by (auto simp: le_div_geq dvd_minus_self)
  have "md5_chain h (a @ m) = md5_chain (md5_block h (take 64 a)) (drop 64 a @ m)"
    by (subst split) (simp only: append_assoc md5_chain_block [OF t])
  also have "\<dots> = md5_chain (md5_chain (md5_block h (take 64 a)) (drop 64 a)) m"
    using Suc.hyps(1) [OF d(2) d(1)] by simp
  also have "md5_chain (md5_block h (take 64 a)) (drop 64 a) = md5_chain h a"
    by (subst (3) split) (simp only: md5_chain_block [OF t])
  finally show ?case .
qed

lemma md5_split: "m = take (64 * (length m div 64)) m @ md5_tail m"
  by (simp add: md5_tail_def)

lemma md5_head_dvd: "64 dvd length (take (64 * (length m div 64)) m)"
  by (metis dvd_triv_left length_take min.absorb2 times_div_less_eq_dividend)

lemma md5_chain_tail:
  "md5_chain h (m @ d) = md5_chain (md5_chain h m) (md5_tail m @ d)"
proof -
  let ?a = "take (64 * (length m div 64)) m"
  have "md5_chain h (m @ d) = md5_chain h (?a @ (md5_tail m @ d))"
    using md5_split [of m] by (metis append_assoc)
  also have "\<dots> = md5_chain (md5_chain h ?a) (md5_tail m @ d)"
    by (rule md5_chain_append) (rule md5_head_dvd)
  also have "md5_chain h ?a = md5_chain h m"
    using md5_chain_append [OF md5_head_dvd, of h m "md5_tail m"] md5_split [of m]
    by simp
  finally show ?thesis .
qed

lemma md5_tail_append: "md5_tail (m @ d) = md5_tail (md5_tail m @ d)"
proof -
  define q where "q = length m div 64"
  define r where "r = length m mod 64"
  have l: "length m = 64 * q + r" "r < 64" by (simp_all add: q_def r_def)
  have e: "(64 * q + r + length d) div 64 = q + (r + length d) div 64"
    by (simp add: add.assoc)
  have "md5_tail (m @ d) = drop (64 * q + 64 * ((r + length d) div 64)) (m @ d)"
    unfolding md5_tail_def length_append l(1) e by (simp only: distrib_left)
  also have "\<dots> = drop (64 * ((r + length d) div 64)) (drop (64 * q) (m @ d))"
    by (simp only: drop_drop add.commute [of "64 * q"])
  also have "drop (64 * q) (m @ d) = md5_tail m @ d"
    using l by (simp add: md5_tail_def q_def)
  also have "drop (64 * ((r + length d) div 64)) (md5_tail m @ d) = md5_tail (md5_tail m @ d)"
    by (simp add: md5_tail_def [of "md5_tail m @ d"] r_def)
  finally show ?thesis .
qed

lemma md5_tail_short [simp]: "length m < 64 \<Longrightarrow> md5_tail m = m"
  by (simp add: md5_tail_def)

lemma md5_tail_block: "length b = 64 \<Longrightarrow> md5_tail (b @ m) = md5_tail m"
  by (simp add: md5_tail_append [of b m]) (simp add: md5_tail_def)

section \<open>Correctness of the updates\<close>

lemma md5_transform_input_simps [simp]:
  "Buf (md5_transform_input c) = md5_block (Buf c) (Input c)"
  "Input (md5_transform_input c) = Input c"
  "LenInBitCount0 (md5_transform_input c) = LenInBitCount0 c"
  "LenInBitCount1 (md5_transform_input c) = LenInBitCount1 c"
  by (simp_all add: md5_transform_input_def md5_block_def)

lemma md5_update_blocks_spec:
  assumes "length (Input c) = 64" "64 * n \<le> length d" "length d < 64 * n + 64"
  shows "\<exists>inp. length inp = 64 \<and> md5_update_blocks n c d
     = (c\<lparr>Buf := md5_chain (Buf c) d, Input := inp\<rparr>, md5_tail d)"
  using assms
proof (induction n arbitrary: c d)
  case 0
  then show ?case by (intro exI [of _ "Input c"]) simp
next
  case (Suc n)
  let ?b = "take 64 d"
  let ?c = "md5_transform_input (c\<lparr>Input := store 0 ?b (Input c)\<rparr>)"
  have b: "length ?b = 64" using Suc.prems by simp
  have i: "store 0 ?b (Input c) = ?b" using Suc.prems(1) b by (simp add: store_def)
  have d: "d = ?b @ drop 64 d" by simp
  obtain inp where inp: "length inp = 64"
    "md5_update_blocks n ?c (drop 64 d) = (?c\<lparr>Buf := md5_chain (Buf ?c) (drop 64 d), Input := inp\<rparr>, md5_tail (drop 64 d))"
    using Suc.IH [of ?c "drop 64 d"] Suc.prems b by (force simp: i)
  have "Buf ?c = md5_block (Buf c) ?b" by (simp add: i)
  moreover have "md5_chain (md5_block (Buf c) ?b) (drop 64 d) = md5_chain (Buf c) d"
    by (subst (3) d) (simp only: md5_chain_block [OF b])
  moreover have "md5_tail (drop 64 d) = md5_tail d"
    by (subst (2) d) (simp only: md5_tail_block [OF b])
  ultimately show ?case
    using inp by (intro exI [of _ inp]) (simp add: Let_def md5_transform_input_def)
qed

lemma unat_of_nat_u32: "n < 2 ^ 32 \<Longrightarrow> unat (of_nat n :: u32) = n"
  by (simp add: unat_of_nat take_bit_nat_eq_self)

lemma md5_update_rest_spec:
  assumes "length (Input c) = 64" "length d < 2 ^ 32"
  shows "\<exists>inp. length inp = 64 \<and> take (length d mod 64) inp = md5_tail d
     \<and> md5_update_rest c d (of_nat (length d)) = c\<lparr>Buf := md5_chain (Buf c) d, Input := inp\<rparr>"
proof -
  let ?L = "of_nat (length d) :: u32"
  let ?n = "length d div 64"
  have u: "unat (drop_bit 6 ?L) = ?n"
    unfolding unat_drop_bit_eq using assms(2) by (simp add: unat_of_nat_u32 drop_bit_eq_div)
  obtain inp where inp: "length inp = 64"
    "md5_update_blocks ?n c d = (c\<lparr>Buf := md5_chain (Buf c) d, Input := inp\<rparr>, md5_tail d)"
    using md5_update_blocks_spec [of c ?n d] assms(1) by fastforce
  have "drop_bit 6 ?L = of_nat ?n" by (metis u of_nat_unat ucast_id)
  moreover have "?L = 64 * of_nat ?n + of_nat (length d mod 64)"
    by (metis mult_div_mod_eq of_nat_add of_nat_mult of_nat_numeral)
  ultimately have r: "?L - 64 * drop_bit 6 ?L = of_nat (length d mod 64)" by simp
  have u64: "unat (of_nat (length d mod 64) :: u32) = length d mod 64"
    by (rule unat_of_nat_u32) (rule order_less_le_trans [OF mod_less_divisor], simp_all)
  have z: "(of_nat (length d mod 64) = (0::u32)) \<longleftrightarrow> length d mod 64 = 0"
  proof
    assume "of_nat (length d mod 64) = (0::u32)"
    then show "length d mod 64 = 0" using u64 by (simp only: unsigned_0)
  qed simp
  show ?thesis
  proof (cases "length d mod 64 = 0")
    case True
    then have "md5_tail d = []" by (metis length_md5_tail length_0_conv)
    then show ?thesis using inp True r z
      by (intro exI [of _ inp]) (simp add: md5_update_rest_def u)
  next
    case False
    have l: "length (md5_tail d) \<le> 64" by (simp add: mod_le_divisor)
    have ne: "?L \<noteq> 64 * drop_bit 6 ?L" using r z False by auto
    show ?thesis using inp ne l
      by (intro exI [of _ "store 0 (md5_tail d) inp"])
        (simp add: md5_update_rest_def u store_def)
  qed
qed

lemma md5_buffered:
  assumes "md5_repr m c"
  shows "drop_bit 3 (LenInBitCount0 c) AND 0x3f = of_nat (length m mod 64)"
    and "unat (drop_bit 3 (LenInBitCount0 c) AND 0x3f) = length m mod 64"
proof -
  have e: "drop_bit 3 (LenInBitCount0 c) AND 0x3f = take_bit 6 (drop_bit 3 (LenInBitCount0 c))"
    using take_bit_eq_mask [of 6 "drop_bit 3 (LenInBitCount0 c)"] by (simp add: mask_eq_decr_exp)
  have l: "LenInBitCount0 c = of_nat (8 * length m)" using assms by (simp add: md5_repr_def)
  have "unat (take_bit 6 (drop_bit 3 (LenInBitCount0 c))) = 8 * length m mod 2 ^ 32 div 8 mod 64"
    unfolding l unsigned_take_bit_eq unat_drop_bit_eq unat_of_nat
    by (simp only: take_bit_eq_mod drop_bit_eq_div len_num1 len_bit0) simp
  also have "8 * length m mod 2 ^ 32 div 8 = length m mod 2 ^ 29"
    using mult_mod_right [of 8 "length m" "2 ^ 29"] by simp
  also have "length m mod 2 ^ 29 mod 64 = length m mod 64"
    by (simp add: mod_mod_cancel)
  finally show u: "unat (drop_bit 3 (LenInBitCount0 c) AND 0x3f) = length m mod 64"
    by (simp add: e)
  show "drop_bit 3 (LenInBitCount0 c) AND 0x3f = of_nat (length m mod 64)"
    by (metis u of_nat_unat ucast_id)
qed

lemma md5_low_count:
  "(of_nat (8 * n) :: u32) + push_bit 3 (of_nat k) = of_nat (8 * (n + k))"
  by (simp add: push_bit_eq_mult algebra_simps)

lemma md5_high_count:
  assumes "k < 2 ^ 32"
  shows "(if (of_nat (8 * (n + k)) :: u32) < of_nat (8 * n) then of_nat (8 * n div 2 ^ 32) + 1
      else of_nat (8 * n div 2 ^ 32)) + drop_bit 29 (of_nat k :: u32)
    = (of_nat (8 * (n + k) div 2 ^ 32) :: u32)"
proof -
  let ?B = "2 ^ 32 :: nat"
  define a where "a = 8 * n mod ?B"
  define b where "b = 8 * k mod ?B"
  have ab: "a < ?B" "b < ?B" by (simp_all add: a_def b_def)
  define p where "p = 8 * n div ?B"
  define q where "q = 8 * k div ?B"
  have nk: "8 * n = p * ?B + a" "8 * k = q * ?B + b"
    unfolding p_def q_def a_def b_def by (rule div_mult_mod_eq [symmetric])+
  then have s: "8 * (n + k) = (a + b) + (p + q) * ?B"
    by (simp only: distrib_left distrib_right ac_simps)
  have m: "8 * (n + k) mod ?B = (a + b) mod ?B" unfolding s by (rule mod_mult_self1)
  have "(a + b) div ?B = (if a + b < ?B then 0 else 1)"
    using ab by (auto simp: div_eq_0_iff le_div_geq)
  then have d: "8 * (n + k) div ?B = p + q + (if a + b < ?B then 0 else 1)"
    unfolding s using div_mult_self1 [of ?B "a + b" "p + q"] by simp
  have carry: "(of_nat (8 * (n + k)) :: u32) < of_nat (8 * n) \<longleftrightarrow> \<not> a + b < ?B"
  proof -
    have u: "unat (of_nat x :: u32) = x mod ?B" for x
      by (simp only: unat_of_nat take_bit_eq_mod len_num1 len_bit0) simp
    have "(of_nat (8 * (n + k)) :: u32) < of_nat (8 * n) \<longleftrightarrow> (a + b) mod ?B < a"
      unfolding word_less_nat_alt u m a_def [symmetric] by (rule refl)
    also have "\<dots> \<longleftrightarrow> \<not> a + b < ?B"
      using ab by (auto simp: mod_if)
    finally show ?thesis .
  qed
  have k: "drop_bit 29 (of_nat k :: u32) = of_nat q"
  proof -
    have "unat (drop_bit 29 (of_nat k :: u32)) = k div 2 ^ 29"
      unfolding unat_drop_bit_eq using assms by (simp add: unat_of_nat_u32 drop_bit_eq_div)
    also have "k div 2 ^ 29 = q"
      unfolding q_def using div_mult_mult1 [of 8 k "2 ^ 29"] by simp
    finally show ?thesis by (metis of_nat_unat ucast_id)
  qed
  show ?thesis unfolding carry k d p_def [symmetric] by simp
qed

lemma md5_repr_init [simp]: "length (Input c) = 64 \<Longrightarrow> md5_repr [] (MD5Init c)"
  by (simp add: md5_repr_def MD5Init_def md5_init_regs_def)

lemma md5_repr_update:
  assumes m: "md5_repr m c" and d: "length d + 64 < 2 ^ 32"
  shows "md5_repr (m @ d) (MD5Update c d)"
proof -
  let ?L = "of_nat (length d) :: u32"
  let ?r = "length m mod 64"
  let ?t = "drop_bit 3 (LenInBitCount0 c) AND 0x3f"
  define lo where "lo = (of_nat (8 * (length m + length d)) :: u32)"
  define hi where "hi = (of_nat (8 * (length m + length d) div 2 ^ 32) :: u32)"
  define c1 where "c1 = c\<lparr>LenInBitCount0 := lo, LenInBitCount1 := hi\<rparr>"
  have c: "Buf c = md5_chain md5_init_regs m" "length (Input c) = 64" "take ?r (Input c) = md5_tail m"
      "LenInBitCount0 c = of_nat (8 * length m)" "LenInBitCount1 c = of_nat (8 * length m div 2 ^ 32)"
    using m by (simp_all only: md5_repr_def)
  have t: "?t = of_nat ?r" "unat ?t = ?r" using md5_buffered [OF m] by blast+
  have t0: "?t \<noteq> 0 \<longleftrightarrow> ?r \<noteq> 0" unfolding t(2) [symmetric] by (simp only: unsigned_eq_0_iff simp_thms)
  have r: "?r < 64" by simp
  have lt: "?t + ?L < 64 \<longleftrightarrow> ?r + length d < 64"
  proof -
    have "unat (?t + ?L) = ?r + length d"
      unfolding t(1) of_nat_add [symmetric] by (rule unat_of_nat_u32) (use d r in linarith)
    then show ?thesis by (simp add: word_less_nat_alt)
  qed
  have counts: "MD5Update c d =
      (if ?r \<noteq> 0 then
         if ?r + length d < 64 then c1\<lparr>Input := store ?r d (Input c)\<rparr>
         else md5_update_rest (md5_transform_input (c1\<lparr>Input := store ?r (take (64 - ?r) d) (Input c)\<rparr>))
               (drop (64 - ?r) d) (?L - (64 - ?t))
       else md5_update_rest c1 d ?L)"
  proof -
    have lo': "LenInBitCount0 c + push_bit 3 ?L = lo"
      unfolding c(4) lo_def by (rule md5_low_count)
    have hi': "(if lo < LenInBitCount0 c then LenInBitCount1 c + 1 else LenInBitCount1 c) + drop_bit 29 ?L = hi"
      unfolding c(4,5) lo_def hi_def using d by (intro md5_high_count) simp
    show ?thesis
      unfolding MD5Update_def Let_def lt t0 t(2) lo' c1_def
      using hi' by (auto split: if_splits)
  qed
  have rest: "md5_repr (m @ d) (md5_update_rest c' d' (of_nat (length d')))"
    if asm: "length (Input c') = 64" "LenInBitCount0 c' = lo" "LenInBitCount1 c' = hi" "length d' < 2 ^ 32"
      "md5_chain (Buf c') d' = md5_chain md5_init_regs (m @ d)" "md5_tail d' = md5_tail (m @ d)" for c' d'
  proof -
    obtain inp where "length inp = 64" "take (length d' mod 64) inp = md5_tail d'"
        "md5_update_rest c' d' (of_nat (length d')) = c'\<lparr>Buf := md5_chain (Buf c') d', Input := inp\<rparr>"
      using md5_update_rest_spec asm(1,4) by blast
    moreover have "length d' mod 64 = length (m @ d) mod 64"
      using asm(6) by (metis length_md5_tail)
    ultimately show ?thesis using asm by (simp add: md5_repr_def lo_def hi_def)
  qed
  consider "?r = 0" | "?r \<noteq> 0" "?r + length d < 64" | "?r \<noteq> 0" "\<not> ?r + length d < 64" by blast
  then show ?thesis
  proof cases
    case 1
    then have tl: "md5_tail m = []" by (metis length_md5_tail length_0_conv)
    show ?thesis
      unfolding counts using 1 d c md5_chain_tail [of md5_init_regs m d] md5_tail_append [of m d] tl
      by (auto intro!: rest simp: c1_def)
  next
    case 2
    have s: "take (?r + length d) (store ?r d (Input c)) = md5_tail m @ d"
      using c(2,3) 2 r by (simp add: store_def)
    have l: "length (m @ d) mod 64 = ?r + length d"
      using 2(2) by (simp add: mod_add_left_eq [symmetric, of "length m"])
    have "md5_tail (m @ d) = md5_tail m @ d"
      using 2 by (subst md5_tail_append) simp
    moreover have "md5_chain md5_init_regs (m @ d) = md5_chain md5_init_regs m"
      using 2 by (subst md5_chain_tail) simp
    ultimately show ?thesis
      unfolding counts md5_repr_def l using 2 c s r by (simp add: c1_def lo_def hi_def)
  next
    case 3
    let ?c = "md5_transform_input (c1\<lparr>Input := store ?r (take (64 - ?r) d) (Input c)\<rparr>)"
    let ?d = "drop (64 - ?r) d"
    let ?b = "md5_tail m @ take (64 - ?r) d"
    have b: "length ?b = 64" using 3 r by simp
    have i: "store ?r (take (64 - ?r) d) (Input c) = ?b"
      using c(2,3) 3 r by (simp add: store_def)
    have md: "md5_tail m @ d = ?b @ ?d" by simp
    have L: "?L - (64 - ?t) = of_nat (length ?d)"
      unfolding t(1) using 3 r by (simp add: of_nat_diff)
    have "md5_repr (m @ d) (md5_update_rest ?c ?d (of_nat (length ?d)))"
    proof (rule rest)
      show "md5_chain (Buf ?c) ?d = md5_chain md5_init_regs (m @ d)"
        unfolding md5_chain_tail [of _ m d] md md5_chain_block [OF b] by (simp add: i c1_def c(1))
      show "md5_tail ?d = md5_tail (m @ d)"
        unfolding md5_tail_append [of m d] md md5_tail_block [OF b] by (rule refl)
    qed (use d b i in \<open>simp_all add: c1_def\<close>)
    then show ?thesis unfolding counts L using 3 by simp
  qed
qed

lemma md5_pad_zeros:
  "r < 56 \<Longrightarrow> (119 - r) mod 64 = 55 - (r::nat)"
  "\<not> r < 56 \<Longrightarrow> r < 64 \<Longrightarrow> (119 - r) mod 64 = 119 - (r::nat)"
proof -
  assume "r < 56"
  then have e: "119 - r = 55 - r + 64" by simp
  show "(119 - r) mod 64 = 55 - r" unfolding e mod_add_self2 by (rule mod_less) simp
qed (rule mod_less, simp)

lemma md5_pad_sum:
  assumes "(r::nat) < 64"
  shows "r + (1 + (119 - r) mod 64 + 8) = (if r < 56 then 64 else 128)"
proof (cases "r < 56")
  case True
  then show ?thesis by (simp add: md5_pad_zeros(1) [OF True])
next
  case False
  then show ?thesis using assms by (simp add: md5_pad_zeros(2) [OF False assms])
qed

lemma md5_pad_total: "64 dvd length (m @ md5_pad (length m))"
proof -
  obtain q r where qr: "length m = 64 * q + r" "length m mod 64 = r" "r < 64"
    by (metis mod_less_divisor mult_div_mod_eq zero_less_numeral)
  have "length (m @ md5_pad (length m)) = length m + (1 + (119 - length m mod 64) mod 64 + 8)"
    by (simp add: md5_pad_def)
  also have "\<dots> = 64 * q + (if r < 56 then 64 else 128)"
    unfolding qr(2) unfolding qr(1) add.assoc [of "64 * q"] md5_pad_sum [OF qr(3)] ..
  also have "64 dvd \<dots>" by simp
  finally show ?thesis .
qed

lemma md5_repr_final:
  assumes "md5_repr m c"
  shows "fst (MD5Final c) = md5_spec m"
proof -
  let ?r = "length m mod 64"
  define lo where "lo = (of_nat (8 * length m) :: u32)"
  define hi where "hi = (of_nat (8 * length m div 2 ^ 32) :: u32)"
  let ?lenf = "le32 lo @ le32 hi"
  have c: "Buf c = md5_chain md5_init_regs m" "length (Input c) = 64" "take ?r (Input c) = md5_tail m"
      "LenInBitCount0 c = lo" "LenInBitCount1 c = hi"
    using assms by (simp_all only: md5_repr_def lo_def hi_def)
  have pad: "md5_pad (length m) = 0x80 # replicate ((119 - ?r) mod 64) 0 @ ?lenf"
    by (simp only: md5_pad_def lo_def hi_def)
  have r: "unat (drop_bit 3 (LenInBitCount0 c) AND 0x3f) = ?r" by (rule md5_buffered(2) [OF assms])
  have r64: "?r < 64" by simp
  have put: "Input (md5_put_length x) = take 56 (Input x) @ le32 (LenInBitCount0 x) @ le32 (LenInBitCount1 x)"
      "Buf (md5_put_length x) = Buf x" if "length (Input x) = 64" for x
    using that by (simp_all add: md5_put_length_def store_def)
  have spec: "md5_spec m = md5_digest (md5_chain (Buf c) (md5_tail m @ md5_pad (length m)))"
    unfolding md5_spec_def c(1) by (subst md5_chain_tail) (rule refl)
  have one: "length b = 64 \<Longrightarrow> md5_chain h b = md5_block h b" for h b
    using md5_chain_block [of b h "[]"] by simp
  have two: "length b = 64 \<Longrightarrow> length b' = 64 \<Longrightarrow> md5_chain h (b @ b') = md5_block (md5_block h b) b'" for h b b'
    by (simp add: md5_chain_block one)
  show ?thesis
  proof (cases "?r < 56")
    case True
    define blk where "blk = md5_tail m @ 0x80 # replicate (55 - ?r) 0 @ ?lenf"
    have p: "md5_tail m @ md5_pad (length m) = blk"
      using True by (simp only: pad md5_pad_zeros(1) blk_def append_Cons append_assoc)
    have l: "length blk = 64" using True by (simp add: blk_def)
    have i: "store (?r + 1) (replicate (56 - ?r - 1) 0) (store ?r [0x80] (Input c))
        = md5_tail m @ 0x80 # replicate (55 - ?r) 0 @ drop 56 (Input c)"
      using True c(2,3) by (simp add: store_def drop_Cons')
    define F where "F = md5_put_length (c\<lparr>Input := md5_tail m @ 0x80 # replicate (55 - ?r) 0 @ drop 56 (Input c)\<rparr>)"
    have F: "Buf F = Buf c" "Input F = blk"
      using True c(2) by (simp_all add: F_def put blk_def c(4,5) take_Cons')
    have "fst (MD5Final c) = md5_digest (Buf (md5_transform_input F))"
      using True unfolding MD5Final_def Let_def r F_def i [symmetric] by simp
    then show ?thesis unfolding spec p one [OF l] by (simp add: F)
  next
    case False
    define b1 where "b1 = md5_tail m @ 0x80 # replicate (63 - ?r) 0"
    define b2 where "b2 = replicate 56 0 @ ?lenf"
    have "119 - ?r = (63 - ?r) + 56" using False r64 by linarith
    with md5_pad_zeros(2) [OF False r64] have z: "(119 - ?r) mod 64 = (63 - ?r) + 56" by (rule trans)
    have p: "md5_tail m @ md5_pad (length m) = b1 @ b2"
      unfolding pad z b1_def b2_def replicate_add by simp
    have l: "length b1 = 64" "length b2 = 64" using False r64 by (simp_all add: b1_def b2_def)
    have i: "store (?r + 1) (replicate (64 - ?r - 1) 0) (store ?r [0x80] (Input c)) = b1"
      using False r64 c(2,3) by (simp add: store_def b1_def)
    have n: "120 - ?r - 1 - (64 - ?r - 1) = 56" using False r64 by simp
    have s0: "store 0 (replicate 56 0) b1 = replicate 56 0 @ drop 56 b1"
      by (simp add: store_def)
    define F where "F = md5_put_length ((md5_transform_input (c\<lparr>Input := b1\<rparr>))\<lparr>Input := replicate 56 0 @ drop 56 b1\<rparr>)"
    have F: "Buf F = md5_block (Buf c) b1" "Input F = b2"
      using l by (simp_all add: F_def put b2_def c(4,5))
    have "fst (MD5Final c) = md5_digest (Buf (md5_transform_input F))"
      by (simp add: MD5Final_def Let_def r False F_def n [simplified] i [simplified] s0)
    then show ?thesis unfolding spec p two [OF l] by (simp add: F)
  qed
qed

section \<open>The contract of a chunked hash, and the MACs proved against it\<close>

locale chunked_hash =
  fixes init :: "'c" and update :: "'c \<Rightarrow> byte list \<Rightarrow> 'c" and final :: "'c \<Rightarrow> byte list"
    and represents :: "byte list \<Rightarrow> 'c \<Rightarrow> bool" and hash :: "byte list \<Rightarrow> byte list" and limit :: nat
  assumes represents_init: "represents [] init"
    and represents_update: "represents m c \<Longrightarrow> length d < limit \<Longrightarrow> represents (m @ d) (update c d)"
    and final_hash: "represents m c \<Longrightarrow> final c = hash m"
begin

lemma represents_chunks:
  "represents m c \<Longrightarrow> \<forall>d \<in> set ds. length d < limit \<Longrightarrow> represents (m @ concat ds) (foldl update c ds)"
proof (induction ds arbitrary: m c)
  case (Cons d ds)
  from Cons.prems have "represents (m @ d) (update c d)" by (simp add: represents_update)
  from Cons.IH [OF this] Cons.prems(2) show ?case by simp
qed simp

lemma digest_chunks:
  "\<forall>d \<in> set ds. length d < limit \<Longrightarrow> final (foldl update init ds) = hash (concat ds)"
  using represents_chunks [OF represents_init, of ds] by (simp add: final_hash)

lemma digest_resplit:
  assumes "concat ds = concat es" "\<forall>d \<in> set ds \<union> set es. length d < limit"
  shows "final (foldl update init ds) = final (foldl update init es)"
  using assms by (simp add: digest_chunks)

end

lemma md5_wipe_input [simp]: "Input (md5_wipe c) = Input c"
  by (simp add: md5_wipe_def split: prod.split)

lemma md5_put_length_input: "length (Input c) = 64 \<Longrightarrow> length (Input (md5_put_length c)) = 64"
  by (simp add: md5_put_length_def)

lemma md5_final_input: "md5_repr m c \<Longrightarrow> length (Input (snd (MD5Final c))) = 64"
proof -
  assume m: "md5_repr m c"
  have r: "unat (drop_bit 3 (LenInBitCount0 c) AND 0x3f) = length m mod 64" by (rule md5_buffered(2) [OF m])
  have "length (Input c) = 64" "length m mod 64 < 64" using m by (simp_all add: md5_repr_def)
  then show ?thesis
    by (simp add: MD5Final_def Let_def r md5_put_length_input)
qed

lemma length_md5_digest [simp]: "length (md5_digest r) = 16"
  by (simp add: md5_digest_def split: prod.split)

lemma length_md5_spec [simp]: "length (md5_spec m) = 16"
  by (simp add: md5_spec_def)

interpretation md5: chunked_hash "MD5Init md5_stack_ctx" MD5Update "\<lambda>c. fst (MD5Final c)" md5_repr md5_spec "2 ^ 32 - 64"
proof
  show "md5_repr [] (MD5Init md5_stack_ctx)" by (simp add: md5_stack_ctx_def)
qed (simp_all add: md5_repr_update md5_repr_final)

lemma md5_one_shot: "length d < 2 ^ 32 - 64 \<Longrightarrow> fst (MD5Final (MD5Update (MD5Init md5_stack_ctx) d)) = md5_spec d"
  using md5.digest_chunks [of "[d]"] by simp

lemma md5_mac_spec:
  assumes "length key < 2 ^ 32 - 64" "length data < 2 ^ 32 - 64"
  shows "md5_mac key data = md5_spec (key @ data @ key)"
  using md5.digest_chunks [of "[key, data, key]"] assms by (simp add: md5_mac_def)

definition hmac_block_key :: "byte list \<Rightarrow> byte list" where
  "hmac_block_key key = (let k = (if 64 < length key then md5_spec key else key)
     in k @ replicate (64 - length k) 0)"

definition hmac_spec :: "byte list \<Rightarrow> byte list \<Rightarrow> byte list" where
  "hmac_spec key data =
     md5_spec (map (\<lambda>b. b XOR 0x5c) (hmac_block_key key)
       @ md5_spec (map (\<lambda>b. b XOR 0x36) (hmac_block_key key) @ data))"

lemma length_hmac_block_key [simp]: "length (hmac_block_key key) = 64"
  by (simp add: hmac_block_key_def Let_def)

lemma hmac_md5_spec:
  assumes key: "length key < 2 ^ 32 - 64" and data: "length data < 2 ^ 32 - 64"
  shows "hmac_md5 key data = hmac_spec key data"
proof -
  define k where "k = (if 64 < length key then md5_spec key else key)"
  let ?K = "hmac_block_key key"
  let ?i = "map (\<lambda>b. b XOR 0x36) ?K"
  let ?o = "map (\<lambda>b. b XOR 0x5c) ?K"
  let ?c = "MD5Update (MD5Update (MD5Init md5_stack_ctx) ?i) data"
  have tk: "(if 64 < length key then fst (MD5Final (MD5Update (MD5Init md5_stack_ctx) key)) else key) = k"
    using key by (simp add: k_def md5_one_shot)
  have kl: "length k \<le> 64" by (simp add: k_def)
  then have K: "take 64 (store 0 k (replicate 65 0)) = ?K"
    by (simp add: store_def hmac_block_key_def k_def [symmetric] Let_def)
  have c: "md5_repr (?i @ data) ?c"
    using md5.represents_chunks [OF md5.represents_init, of "[?i, data]"] data by simp
  let ?f = "MD5Init (snd (MD5Final ?c))"
  have "md5_repr [] ?f"
    by (simp add: md5_final_input [OF c])
  from md5.represents_chunks [OF this, of "[?o, md5_spec (?i @ data)]"]
  have "md5_repr (?o @ md5_spec (?i @ data)) (MD5Update (MD5Update ?f ?o) (md5_spec (?i @ data)))"
    by simp
  from md5_repr_final [OF this] md5_repr_final [OF c]
  have "fst (MD5Final (MD5Update (MD5Update ?f ?o) (fst (MD5Final ?c)))) = hmac_spec key data"
    by (simp add: hmac_spec_def)
  moreover have "take 64 (map f (take 64 (store 0 k (replicate 65 0))) @ drop 64 (store 0 k (replicate 65 0)))
      = map f ?K" for f :: "byte \<Rightarrow> byte"
    unfolding K by simp
  ultimately show ?thesis
    by (simp only: hmac_md5_def Let_def tk split_beta)
qed

section \<open>RC4\<close>

lemma length_S_SWAP [simp]: "length (S_SWAP S a b) = length S"
  by (simp add: S_SWAP_def Let_def)

lemma mset_S_SWAP: "a < length S \<Longrightarrow> b < length S \<Longrightarrow> mset (S_SWAP S a b) = mset S"
  using mset_swap [of b S a] by (simp add: S_SWAP_def Let_def)

lemma and_0xff_less [simp]: "(n::nat) AND 0xff < 256"
  using take_bit_nat_less_exp [of 8 n] by (simp add: take_bit_eq_mask mask_eq_exp_minus_1)

lemma length_rc4_identity [simp]: "length rc4_identity = 256"
  by (simp only: rc4_identity_def length_map length_upt)

definition rc4_inv :: "byte list \<Rightarrow> byte list \<times> nat \<times> byte \<Rightarrow> bool" where
  "rc4_inv key st \<longleftrightarrow> (case st of (S, j, kpos) \<Rightarrow>
     mset S = mset rc4_identity \<and> j < 256 \<and> unat kpos < length key)"

lemma rc4_ksa_step_inv:
  assumes "i < 256" "key \<noteq> []" "rc4_inv key st"
  shows "rc4_inv key (rc4_ksa_step key i st)"
proof -
  obtain S j kpos where st: "st = (S, j, kpos)" by (cases st)
  have "length S = 256"
    using assms(3) mset_eq_length [of S rc4_identity] by (simp add: rc4_inv_def st)
  then show ?thesis
    using assms by (auto simp: st rc4_inv_def rc4_ksa_step_def Let_def mset_S_SWAP)
qed

lemma rc4_setup_inv:
  "key \<noteq> [] \<Longrightarrow> set is \<subseteq> {0..<256} \<Longrightarrow> rc4_inv key st \<Longrightarrow> rc4_inv key (fold (rc4_ksa_step key) is st)"
  by (induction "is" arbitrary: st) (auto simp: rc4_ksa_step_inv)

lemma rc4_setup_permutation: "key \<noteq> [] \<Longrightarrow> mset (rc4_setup key) = mset rc4_identity"
proof -
  assume key: "key \<noteq> []"
  have "set [0..<256] \<subseteq> {0..<256::nat}" by (simp only: set_upt subset_refl)
  moreover have "rc4_inv key (rc4_identity, 0, 0)" using key by (simp add: rc4_inv_def)
  ultimately have "rc4_inv key (fold (rc4_ksa_step key) [0..<256] (rc4_identity, 0, 0))"
    using key by (intro rc4_setup_inv)
  then show ?thesis unfolding rc4_setup_def rc4_inv_def by (auto split: prod.splits)
qed

lemma length_rc4_apply [simp]: "length (rc4_apply S i j bs) = length bs"
  by (induction bs arbitrary: S i j) (auto simp: Let_def)

lemma rc4_apply_involution: "rc4_apply S i j (rc4_apply S i j bs) = bs"
  by (induction bs arbitrary: S i j) (auto simp: Let_def xor.assoc)

section \<open>The transform against RFC 1321\<close>

text \<open>
  RFC 1321 writes step \<open>i\<close> as \<open>a = b + ((a + F(b,c,d) + X[k] + T[i]) <<< s)\<close>, with a
  rotation, one index function and one shift table per round.
\<close>

definition rfc_fun :: "nat \<Rightarrow> u32 \<Rightarrow> u32 \<Rightarrow> u32 \<Rightarrow> u32" where
  "rfc_fun i x y z =
     (if i < 16 then (x AND y) OR (NOT x AND z)
      else if i < 32 then (x AND z) OR (y AND NOT z)
      else if i < 48 then x XOR y XOR z
      else y XOR (x OR NOT z))"

definition rfc_index :: "nat \<Rightarrow> nat" where
  "rfc_index i = (if i < 16 then i else if i < 32 then (5 * i + 1) mod 16
     else if i < 48 then (3 * i + 5) mod 16 else (7 * i) mod 16)"

definition rfc_shift :: "nat \<Rightarrow> nat" where
  "rfc_shift i = (if i < 16 then [7, 12, 17, 22] else if i < 32 then [5, 9, 14, 20]
     else if i < 48 then [4, 11, 16, 23] else [6, 10, 15, 21]) ! (i mod 4)"

definition rfc_step :: "u32 list \<Rightarrow> nat \<Rightarrow> md5_regs \<Rightarrow> md5_regs" where
  "rfc_step X i r = (case r of (a, b, c, d) \<Rightarrow>
     (d, b + word_rotl (rfc_shift i) (a + rfc_fun i b c d + X ! rfc_index i + MD5Table ! i), b, c))"

definition rfc_transform :: "md5_regs \<Rightarrow> u32 list \<Rightarrow> md5_regs" where
  "rfc_transform h X = (case (h, fold (rfc_step X) [0..<64] h) of
     ((a, b, c, d), (a', b', c', d')) \<Rightarrow> (a + a', b + b', c + c', d + d'))"

lemma and_masks: "(n::nat) AND 3 = n mod 4" "(n::nat) AND 0xf = n mod 16"
  using take_bit_eq_mask [of 2 n] take_bit_eq_mask [of 4 n]
  by (simp_all add: mask_eq_exp_minus_1 take_bit_eq_mod)

lemma CYCLIC_LEFT_SHIFT_rotl: "0 < s \<Longrightarrow> s < 32 \<Longrightarrow> CYCLIC_LEFT_SHIFT w s = word_rotl s w"
proof (rule bit_word_eqI)
  fix n assume s: "0 < s" "s < 32" and "n < LENGTH(32)"
  then have n: "n < 32" by simp
  have m: "(n + (32 - s)) mod 32 = (if n < s then n + (32 - s) else n - s)"
  proof (cases "n < s")
    case False
    then have "n + (32 - s) = n - s + 32" using s by linarith
    then show ?thesis using False n by (simp only: mod_add_self2) simp
  qed (use s in simp)
  have hi: "\<not> bit w (n + 32 - s)" if "\<not> n < s"
    using that s by (auto dest!: bit_imp_le_length)
  have l: "bit (CYCLIC_LEFT_SHIFT w s) n = bit w (if n < s then n + (32 - s) else n - s)"
    using s n hi
    by (cases "n < s") (simp_all add: CYCLIC_LEFT_SHIFT_def bit_or_iff bit_push_bit_iff bit_drop_bit_eq add.commute)
  have r: "bit (word_rotl s w) n = bit w ((n + (32 - s)) mod 32)"
    using s n by (simp only: bit_word_rotl_iff len_num1 len_bit0) simp
  show "bit (CYCLIC_LEFT_SHIFT w s) n = bit (word_rotl s w) n"
    unfolding l r m ..
qed

lemma and_all_ones: "(w :: u32) AND 0xffffffff = w"
proof -
  have "(0xffffffff :: u32) = - 1" by simp
  then show ?thesis by (simp only: and.right_neutral)
qed

lemma rfc_index_arith:
  "(5 * (i mod 16) + 1) mod 16 = (5 * i + 1) mod (16::nat)"
  "(3 * (i mod 16) + 5) mod 16 = (3 * i + 5) mod (16::nat)"
  "(7 * (i mod 16)) mod 16 = (7 * i) mod (16::nat)"
  by (metis mod_add_left_eq mod_mult_right_eq)+

lemma MD5Step_rotl:
  "0 < s \<Longrightarrow> s < 32 \<Longrightarrow> MD5Step f w x y z data t s = x + word_rotl s (w + f x y z + data + t)"
  by (simp add: MD5Step_def Let_def CYCLIC_LEFT_SHIFT_rotl and_all_ones ac_simps)

lemma rfc_loop_body:
  assumes "\<And>x y z. f x y z = rfc_fun i x y z" "mi i = rfc_index i" "LShiftVal ! si i = rfc_shift i"
    "0 < rfc_shift i" "rfc_shift i < 32"
  shows "md5_loop_body f mi si X i r = rfc_step X i r"
  using assms by (cases r) (simp add: md5_loop_body_def rfc_step_def Let_def MD5Step_rotl)

lemma mod4_cases: "i mod 4 = 0 \<or> i mod 4 = 1 \<or> i mod 4 = 2 \<or> i mod 4 = (3::nat)"
  by linarith

lemma rfc_shift_bounds: "0 < rfc_shift i \<and> rfc_shift i < 32"
  using mod4_cases [of i] by (auto simp: rfc_shift_def)

lemma rfc_rounds:
  "i < 16 \<Longrightarrow> md5_loop_body MD5_F1 (\<lambda>i. i) (\<lambda>i. i AND 3) X i r = rfc_step X i r"
  "16 \<le> i \<Longrightarrow> i < 32 \<Longrightarrow> md5_loop_body MD5_F2 (\<lambda>i. (5 * (i AND 0xf) + 1) AND 0xf) (\<lambda>i. 4 + (i AND 3)) X i r = rfc_step X i r"
  "32 \<le> i \<Longrightarrow> i < 48 \<Longrightarrow> md5_loop_body MD5_F3 (\<lambda>i. (3 * (i AND 0xf) + 5) AND 0xf) (\<lambda>i. 8 + (i AND 3)) X i r = rfc_step X i r"
  "48 \<le> i \<Longrightarrow> md5_loop_body MD5_F4 (\<lambda>i. (7 * (i AND 0xf)) AND 0xf) (\<lambda>i. 12 + (i AND 3)) X i r = rfc_step X i r"
  using mod4_cases [of i] rfc_shift_bounds [of i]
  by (auto intro!: rfc_loop_body simp: rfc_fun_def MD5_F1_def MD5_F2_def MD5_F3_def MD5_F4_def rfc_index_def
      rfc_shift_def and_masks rfc_index_arith LShiftVal_def simp del: One_nat_def add_Suc_right)

lemma fold_cong_list: "(\<And>x s. x \<in> set xs \<Longrightarrow> f x s = g x s) \<Longrightarrow> fold f xs s = fold g xs s"
  by (induction xs arbitrary: s) auto

lemma MD5Transform_rfc: "MD5Transform h X = rfc_transform h X"
proof -
  have split: "[0..<64] = [0..<16] @ [16..<32] @ [32..<48] @ [48..<64::nat]"
    using upt_add_eq_append [of 0 16 48] upt_add_eq_append [of 16 32 32] upt_add_eq_append [of 32 48 16] by simp
  have f1: "fold (md5_loop_body MD5_F1 (\<lambda>i. i) (\<lambda>i. i AND 3) X) [0..<16] r = fold (rfc_step X) [0..<16] r" for r
    by (rule fold_cong_list) (simp add: rfc_rounds)
  have f2: "fold (md5_loop_body MD5_F2 (\<lambda>i. (5 * (i AND 0xf) + 1) AND 0xf) (\<lambda>i. 4 + (i AND 3)) X) [16..<32] r = fold (rfc_step X) [16..<32] r" for r
    by (rule fold_cong_list) (rule rfc_rounds; simp only: set_upt atLeastLessThan_iff)
  have f3: "fold (md5_loop_body MD5_F3 (\<lambda>i. (3 * (i AND 0xf) + 5) AND 0xf) (\<lambda>i. 8 + (i AND 3)) X) [32..<48] r = fold (rfc_step X) [32..<48] r" for r
    by (rule fold_cong_list) (rule rfc_rounds; simp only: set_upt atLeastLessThan_iff)
  have f4: "fold (md5_loop_body MD5_F4 (\<lambda>i. (7 * (i AND 0xf)) AND 0xf) (\<lambda>i. 12 + (i AND 3)) X) [48..<64] r = fold (rfc_step X) [48..<64] r" for r
    by (rule fold_cong_list) (rule rfc_rounds; simp only: set_upt atLeastLessThan_iff)
  show ?thesis
    unfolding MD5Transform_def rfc_transform_def split fold_append o_def Let_def f1 f2 f3 f4
    by (auto split: prod.split)
qed

section \<open>Properties\<close>

text \<open>Feeding a message to \<open>MD5Update\<close> in any pieces gives the digest of the whole padded message.\<close>

lemma md5_incremental:
  assumes "\<forall>d \<in> set ds. length d < 2 ^ 32 - 64"
  shows "fst (MD5Final (foldl MD5Update (MD5Init md5_stack_ctx) ds)) = md5_spec (concat ds)"
  using assms by (rule md5.digest_chunks)

lemma md5_incremental_witness:
  "fst (MD5Final (foldl MD5Update (MD5Init md5_stack_ctx) [replicate 63 1, [2], replicate 70 3]))
   = md5_spec (replicate 63 1 @ [2] @ replicate 70 3)"
  using md5_incremental [of "[replicate 63 1, [2], replicate 70 3]"] by simp


text \<open>\<open>hmac_md5\<close> is RFC 2104 over MD5, for keys shorter and longer than a block.\<close>

lemma hmac_md5_is_rfc2104:
  assumes "length key < 2 ^ 32 - 64" "length data < 2 ^ 32 - 64"
  shows "hmac_md5 key data =
    md5_spec (map (\<lambda>b. b XOR 0x5c) (hmac_block_key key)
      @ md5_spec (map (\<lambda>b. b XOR 0x36) (hmac_block_key key) @ data))"
  using hmac_md5_spec [OF assms] by (simp add: hmac_spec_def)

lemma hmac_md5_is_rfc2104_witness:
  "hmac_md5 (replicate 80 0xaa) [1, 2, 3] = md5_spec (map (\<lambda>b. b XOR 0x5c) (hmac_block_key (replicate 80 0xaa))
      @ md5_spec (map (\<lambda>b. b XOR 0x36) (hmac_block_key (replicate 80 0xaa)) @ [1, 2, 3]))"
  using hmac_md5_is_rfc2104 [of "replicate 80 0xaa" "[1, 2, 3]"] by simp

text \<open>With a non-empty key, RC4 permutes its state, keeps the length of the data, and applied
  twice with the same key gives the data back.\<close>

lemma rc4_round_trip:
  assumes "key \<noteq> []"
  shows "mset (rc4_setup key) = mset rc4_identity \<and> length (rc4 buf key) = length buf \<and> rc4 (rc4 buf key) key = buf"
  using rc4_setup_permutation [OF assms] by (simp add: rc4_def rc4_apply_involution)

lemma rc4_round_trip_witness: "rc4 (rc4 [1, 2, 3] [7, 8]) [7, 8] = [1, 2, 3]"
  using rc4_round_trip [of "[7, 8]" "[1, 2, 3]"] by simp

end
