(* ===== verification/Eloop.thy ===== *)
theory Eloop
  imports Prelude "HOL-Library.Multiset"
begin

text \<open>
  \<open>802.1x/eloop.c\<close>: the event loop of the daemon.

  The global \<open>struct eloop_data\<close> is the record \<open>eloop_data\<close>. A function pointer is a tag
  of the type parameter \<open>'h\<close>; a \<open>void *\<close> context is a \<open>'c ctx\<close>: the null pointer, the
  magic \<open>ELOOP_ALL_CTX\<close>, or the address of an object named by a \<open>'c\<close>. The linked list of
  timeouts is the list of its nodes. Times are \<open>struct timeval\<close> with 32-bit signed fields,
  so a deadline computed from a large interval wraps (\<open>s32\<close>).

  The clock, the result of \<open>select\<close> and the allocator are arguments. The lemmas show that
  registration keeps the list sorted by deadline and first-in-first-out among equal
  deadlines, that cancellation removes exactly the matching entries, and that the loop
  calls only handlers that are due.
\<close>

section \<open>Times\<close>

datatype timeval = Timeval (tv_sec: int) (tv_usec: int)

text \<open>The order of \<open>timercmp\<close>.\<close>

instantiation timeval :: linorder
begin

definition less_timeval :: "timeval \<Rightarrow> timeval \<Rightarrow> bool" where
  "less_timeval a b \<longleftrightarrow> (if tv_sec a = tv_sec b then tv_usec a < tv_usec b else tv_sec a < tv_sec b)"

definition less_eq_timeval :: "timeval \<Rightarrow> timeval \<Rightarrow> bool" where
  "less_eq_timeval a b \<longleftrightarrow> (if tv_sec a = tv_sec b then tv_usec a \<le> tv_usec b else tv_sec a < tv_sec b)"

instance
  by standard (auto simp: less_timeval_def less_eq_timeval_def timeval.expand split: if_splits)

end

definition valid_time :: "timeval \<Rightarrow> bool" where
  "valid_time t \<longleftrightarrow> 0 \<le> tv_usec t \<and> tv_usec t < 1000000"

text \<open>The microseconds a time stands for; \<open>timercmp\<close> compares it on valid times.\<close>

definition micros :: "timeval \<Rightarrow> int" where
  "micros t = 1000000 * tv_sec t + tv_usec t"

lemma micros_less: "valid_time a \<Longrightarrow> valid_time b \<Longrightarrow> a < b \<longleftrightarrow> micros a < micros b"
  by (auto simp: less_timeval_def micros_def valid_time_def)

section \<open>The state of the loop\<close>

datatype 'c ctx = NULL_CTX | ELOOP_ALL_CTX | Ctx 'c

record ('h, 'c) eloop_sock =
  sk_sock :: int
  sk_eloop_data :: "'c ctx"
  sk_user_data :: "'c ctx"
  sk_handler :: 'h

record ('h, 'c) eloop_timeout =
  to_time :: timeval
  to_eloop_data :: "'c ctx"
  to_user_data :: "'c ctx"
  to_handler :: 'h

record ('h, 'c) eloop_signal =
  sg_sig :: int
  sg_user_data :: "'c ctx"
  sg_handler :: 'h

record ('h, 'c) eloop_data =
  el_user_data :: "'c ctx"
  max_sock :: int
  readers :: "('h, 'c) eloop_sock list"
  timeouts :: "('h, 'c) eloop_timeout list"
  signals :: "('h, 'c) eloop_signal list"
  terminate :: bool
  reload :: bool

text \<open>\<open>reader_count\<close> and \<open>signal_count\<close> are the lengths of the arrays they bound.\<close>

definition reader_count :: "('h, 'c) eloop_data \<Rightarrow> nat" where
  "reader_count e = length (readers e)"

definition eloop_init :: "'c ctx \<Rightarrow> ('h, 'c) eloop_data" where
  "eloop_init user_data =
     \<lparr>el_user_data = user_data, max_sock = 0, readers = [], timeouts = [], signals = [],
      terminate = False, reload = False\<rparr>"

definition sizeof_eloop_sock :: nat where "sizeof_eloop_sock = 16"
definition sizeof_eloop_timeout :: nat where "sizeof_eloop_timeout = 24"
definition sizeof_eloop_signal :: nat where "sizeof_eloop_signal = 12"

definition eloop_register_read_sock ::
    "allocator \<Rightarrow> int \<Rightarrow> 'h \<Rightarrow> 'c ctx \<Rightarrow> 'c ctx \<Rightarrow> ('h, 'c) eloop_data \<Rightarrow> int \<times> ('h, 'c) eloop_data" where
  "eloop_register_read_sock alloc sock handler eloop_data user_data e =
     (if \<not> alloc ((reader_count e + 1) * sizeof_eloop_sock) then (-1, e)
      else let e = e\<lparr>readers := readers e @ [\<lparr>sk_sock = sock, sk_eloop_data = eloop_data,
                 sk_user_data = user_data, sk_handler = handler\<rparr>]\<rparr>
           in (0, if sock > max_sock e then e\<lparr>max_sock := sock\<rparr> else e))"

text \<open>The loop that carries whole seconds out of \<open>tv_usec\<close>.\<close>

function normalize_usec :: "int \<Rightarrow> int \<Rightarrow> timeval" where
  "normalize_usec sec usec =
     (if 1000000 \<le> usec then normalize_usec (s32 (sec + 1)) (usec - 1000000) else Timeval sec usec)"
  by pat_completeness auto
termination
  by (relation "measure (\<lambda>(s, u). nat u)") auto

declare normalize_usec.simps [simp del]

text \<open>The walk of \<open>eloop_register_timeout\<close>: past every entry that is not later.\<close>

fun insert_timeout :: "('h, 'c) eloop_timeout \<Rightarrow> ('h, 'c) eloop_timeout list \<Rightarrow> ('h, 'c) eloop_timeout list" where
  "insert_timeout t [] = [t]"
| "insert_timeout t (x # xs) = (if to_time t < to_time x then t # x # xs else x # insert_timeout t xs)"

definition eloop_deadline :: "timeval \<Rightarrow> u32 \<Rightarrow> u32 \<Rightarrow> timeval" where
  "eloop_deadline now secs usecs =
     normalize_usec (s32 (tv_sec now + uint secs)) (s32 (tv_usec now + uint usecs))"

definition eloop_register_timeout ::
    "allocator \<Rightarrow> timeval \<Rightarrow> u32 \<Rightarrow> u32 \<Rightarrow> 'h \<Rightarrow> 'c ctx \<Rightarrow> 'c ctx \<Rightarrow> ('h, 'c) eloop_data \<Rightarrow> int \<times> ('h, 'c) eloop_data" where
  "eloop_register_timeout alloc now secs usecs handler eloop_data user_data e =
     (if \<not> alloc sizeof_eloop_timeout then (-1, e)
      else let t = \<lparr>to_time = eloop_deadline now secs usecs, to_eloop_data = eloop_data,
                    to_user_data = user_data, to_handler = handler\<rparr>
           in (0, e\<lparr>timeouts := insert_timeout t (timeouts e)\<rparr>))"

definition timeout_matches :: "'h \<Rightarrow> 'c ctx \<Rightarrow> 'c ctx \<Rightarrow> ('h, 'c) eloop_timeout \<Rightarrow> bool" where
  "timeout_matches handler eloop_data user_data t \<longleftrightarrow>
     to_handler t = handler
     \<and> (to_eloop_data t = eloop_data \<or> eloop_data = ELOOP_ALL_CTX)
     \<and> (to_user_data t = user_data \<or> user_data = ELOOP_ALL_CTX)"

fun cancel_walk :: "(('h, 'c) eloop_timeout \<Rightarrow> bool) \<Rightarrow> ('h, 'c) eloop_timeout list \<Rightarrow> int \<times> ('h, 'c) eloop_timeout list" where
  "cancel_walk p [] = (0, [])"
| "cancel_walk p (t # ts) =
     (case cancel_walk p ts of (removed, ts') \<Rightarrow> if p t then (removed + 1, ts') else (removed, t # ts'))"

definition eloop_cancel_timeout ::
    "'h \<Rightarrow> 'c ctx \<Rightarrow> 'c ctx \<Rightarrow> ('h, 'c) eloop_data \<Rightarrow> int \<times> ('h, 'c) eloop_data" where
  "eloop_cancel_timeout handler eloop_data user_data e =
     (case cancel_walk (timeout_matches handler eloop_data user_data) (timeouts e) of
        (removed, ts) \<Rightarrow> (removed, e\<lparr>timeouts := ts\<rparr>))"

definition eloop_register_signal ::
    "allocator \<Rightarrow> int \<Rightarrow> 'h \<Rightarrow> 'c ctx \<Rightarrow> ('h, 'c) eloop_data \<Rightarrow> int \<times> ('h, 'c) eloop_data" where
  "eloop_register_signal alloc sig handler user_data e =
     (if \<not> alloc ((length (signals e) + 1) * sizeof_eloop_signal) then (-1, e)
      else (0, e\<lparr>signals := signals e @ [\<lparr>sg_sig = sig, sg_user_data = user_data, sg_handler = handler\<rparr>]\<rparr>))"

text \<open>The first registered handler of the signal is called, with the global user data.\<close>

definition eloop_handle_signal ::
    "('h \<Rightarrow> int \<Rightarrow> 'c ctx \<Rightarrow> 'c ctx \<Rightarrow> 's \<Rightarrow> 's run) \<Rightarrow> int \<Rightarrow> ('h, 'c) eloop_data \<Rightarrow> 's \<Rightarrow> 's run" where
  "eloop_handle_signal call sig e s =
     (case find (\<lambda>g. sg_sig g = sig) (signals e) of
        None \<Rightarrow> ret s
      | Some g \<Rightarrow> call (sg_handler g) (sg_sig g) (el_user_data e) (sg_user_data g) s)"

definition eloop_terminate :: "('h, 'c) eloop_data \<Rightarrow> ('h, 'c) eloop_data" where
  "eloop_terminate e = e\<lparr>terminate := True\<rparr>"

definition eloop_reload :: "('h, 'c) eloop_data \<Rightarrow> ('h, 'c) eloop_data" where
  "eloop_reload e = e\<lparr>reload := True\<rparr>"

definition eloop_terminated :: "('h, 'c) eloop_data \<Rightarrow> bool" where
  "eloop_terminated e = terminate e"

text \<open>Every node and both arrays are freed.\<close>

definition eloop_destroy :: "('h, 'c) eloop_data \<Rightarrow> ('h, 'c) eloop_data" where
  "eloop_destroy e = e\<lparr>timeouts := [], readers := [], signals := []\<rparr>"

section \<open>The loop\<close>

text \<open>\<open>timersub\<close>.\<close>

definition timersub :: "timeval \<Rightarrow> timeval \<Rightarrow> timeval" where
  "timersub a b =
     (let sec = tv_sec a - tv_sec b; usec = tv_usec a - tv_usec b
      in if usec < 0 then Timeval (sec - 1) (usec + 1000000) else Timeval sec usec)"

text \<open>The time-out given to \<open>select\<close>: none without a registered timeout.\<close>

definition select_timeout :: "timeval \<Rightarrow> ('h, 'c) eloop_data \<Rightarrow> timeval option" where
  "select_timeout now e =
     (case timeouts e of [] \<Rightarrow> None
      | t # _ \<Rightarrow> Some (if to_time t \<le> now then Timeval 0 0 else timersub (to_time t) now))"

text \<open>What the system answers in one turn of the loop.\<close>

record loop_turn =
  turn_now :: timeval  \<comment> \<open>the clock when \<open>select\<close> returned\<close>
  turn_res :: int      \<comment> \<open>the result of \<open>select\<close>\<close>
  turn_eintr :: bool   \<comment> \<open>\<open>errno == EINTR\<close>\<close>
  turn_ready :: "int \<Rightarrow> bool"  \<comment> \<open>the descriptors set in \<open>rfds\<close>\<close>

text \<open>
  The functions of the loop work on the daemon's state \<open>'s\<close>, of which the loop data are a
  part (\<open>get\<close>, \<open>put\<close>); \<open>call_to\<close> and \<open>call_rd\<close> call a timeout handler and a reader.
\<close>

definition eloop_fire ::
    "('s \<Rightarrow> ('h, 'c) eloop_data) \<Rightarrow> (('h, 'c) eloop_data \<Rightarrow> 's \<Rightarrow> 's)
     \<Rightarrow> ('h \<Rightarrow> 'c ctx \<Rightarrow> 'c ctx \<Rightarrow> 's \<Rightarrow> 's run) \<Rightarrow> timeval \<Rightarrow> 's \<Rightarrow> 's run" where
  "eloop_fire get put call_to now s =
     (case timeouts (get s) of
        [] \<Rightarrow> ret s
      | t # ts \<Rightarrow>
          if to_time t \<le> now
          then call_to (to_handler t) (to_eloop_data t) (to_user_data t) (put ((get s)\<lparr>timeouts := ts\<rparr>) s)
          else ret s)"

text \<open>\<open>for (i = 0; i < eloop.reader_count; i++)\<close>: the bound is read again in every pass.\<close>

partial_function (option) eloop_poll ::
    "('s \<Rightarrow> ('h, 'c) eloop_data) \<Rightarrow> ('h \<Rightarrow> int \<Rightarrow> 'c ctx \<Rightarrow> 'c ctx \<Rightarrow> 's \<Rightarrow> 's run)
     \<Rightarrow> (int \<Rightarrow> bool) \<Rightarrow> nat \<Rightarrow> 's \<Rightarrow> 's run" where
  "eloop_poll get call_rd ready i s =
     (if i < reader_count (get s) then
        run_bind (if ready (sk_sock (readers (get s) ! i))
                  then call_rd (sk_handler (readers (get s) ! i)) (sk_sock (readers (get s) ! i))
                         (sk_eloop_data (readers (get s) ! i)) (sk_user_data (readers (get s) ! i)) s
                  else ret s)
          (\<lambda>s. eloop_poll get call_rd ready (Suc i) s)
      else ret s)"

declare eloop_poll.simps [code]

text \<open>One turn. The flag says whether the loop goes on to another turn.\<close>

definition eloop_turn ::
    "('s \<Rightarrow> ('h, 'c) eloop_data) \<Rightarrow> (('h, 'c) eloop_data \<Rightarrow> 's \<Rightarrow> 's)
     \<Rightarrow> ('h \<Rightarrow> 'c ctx \<Rightarrow> 'c ctx \<Rightarrow> 's \<Rightarrow> 's run) \<Rightarrow> ('h \<Rightarrow> int \<Rightarrow> 'c ctx \<Rightarrow> 'c ctx \<Rightarrow> 's \<Rightarrow> 's run)
     \<Rightarrow> loop_turn \<Rightarrow> 's \<Rightarrow> (bool \<times> 's) run" where
  "eloop_turn get put call_to call_rd t s =
     (if turn_res t < 0 \<and> \<not> turn_eintr t then ret (False, s)
      else run_bind (eloop_fire get put call_to (turn_now t) s)
        (\<lambda>s. if turn_res t \<le> 0 then ret (True, s)
             else run_map (Pair True) (eloop_poll get call_rd (turn_ready t) 0 s)))"

text \<open>The loop over the turns the system grants.\<close>

fun eloop_run ::
    "('s \<Rightarrow> ('h, 'c) eloop_data) \<Rightarrow> (('h, 'c) eloop_data \<Rightarrow> 's \<Rightarrow> 's)
     \<Rightarrow> ('h \<Rightarrow> 'c ctx \<Rightarrow> 'c ctx \<Rightarrow> 's \<Rightarrow> 's run) \<Rightarrow> ('h \<Rightarrow> int \<Rightarrow> 'c ctx \<Rightarrow> 'c ctx \<Rightarrow> 's \<Rightarrow> 's run)
     \<Rightarrow> loop_turn list \<Rightarrow> 's \<Rightarrow> 's run" where
  "eloop_run get put call_to call_rd [] s = ret s"
| "eloop_run get put call_to call_rd (t # ts) s =
     (if \<not> terminate (get s) \<and> (timeouts (get s) \<noteq> [] \<or> reader_count (get s) > 0)
      then run_bind (eloop_turn get put call_to call_rd t s)
             (\<lambda>(go, s). if go then eloop_run get put call_to call_rd ts s else ret s)
      else ret s)"

section \<open>Deadlines\<close>

lemma normalize_usec_spec:
  assumes "0 \<le> usec" "- (2 ^ 31) \<le> sec" "sec + usec div 1000000 < 2 ^ 31"
  shows "normalize_usec sec usec = Timeval (sec + usec div 1000000) (usec mod 1000000)"
  using assms
proof (induction sec usec rule: normalize_usec.induct)
  case (1 sec usec)
  show ?case
  proof (cases "1000000 \<le> usec")
    case True
    have quot: "usec div 1000000 = (usec - 1000000) div 1000000 + 1"
      using div_add_self2 [of 1000000 "usec - 1000000 :: int"] by simp
    have rem: "(usec - 1000000) mod 1000000 = usec mod 1000000"
      using mod_add_self2 [of "usec - 1000000 :: int" 1000000] by simp
    have "0 \<le> (usec - 1000000) div 1000000"
      using True by (simp add: pos_imp_zdiv_nonneg_iff)
    then have "s32 (sec + 1) = sec + 1"
      using 1(3,4) quot by (intro s32_id) linarith+
    then show ?thesis
      using True 1 quot rem by (simp add: normalize_usec.simps [of sec usec])
  next
    case False
    then show ?thesis using 1(2) by (simp add: normalize_usec.simps [of sec usec] div_pos_pos_trivial)
  qed
qed

lemma eloop_deadline_spec:
  assumes "valid_time now" "0 \<le> tv_sec now"
    and "tv_sec now + uint secs + (tv_usec now + uint usecs) div 1000000 < 2 ^ 31"
    and "tv_usec now + uint usecs < 2 ^ 31"
  shows "valid_time (eloop_deadline now secs usecs)"
    and "micros (eloop_deadline now secs usecs) = micros now + 1000000 * uint secs + uint usecs"
proof -
  have u: "0 \<le> tv_usec now" "0 \<le> uint secs" "0 \<le> uint usecs"
    using assms(1) by (simp_all add: valid_time_def)
  have "0 \<le> (tv_usec now + uint usecs) div 1000000"
    using u by (simp add: pos_imp_zdiv_nonneg_iff)
  then have s: "s32 (tv_sec now + uint secs) = tv_sec now + uint secs"
      "s32 (tv_usec now + uint usecs) = tv_usec now + uint usecs"
    using assms u by (intro s32_id; linarith)+
  have e: "eloop_deadline now secs usecs = Timeval (tv_sec now + uint secs + (tv_usec now + uint usecs) div 1000000)
      ((tv_usec now + uint usecs) mod 1000000)"
    unfolding eloop_deadline_def s using assms u by (intro normalize_usec_spec; linarith)
  show "valid_time (eloop_deadline now secs usecs)"
    by (simp add: e valid_time_def)
  show "micros (eloop_deadline now secs usecs) = micros now + 1000000 * uint secs + uint usecs"
    using div_mult_mod_eq [of "tv_usec now + uint usecs" 1000000] by (simp add: e micros_def algebra_simps)
qed

section \<open>The list of timeouts as a timer queue\<close>

text \<open>
  What the rest of the daemon expects of a timer queue: insertion keeps it sorted by
  deadline, adds exactly the new entry, and queues it behind the entries of the same deadline.
\<close>

locale timer_queue =
  fixes deadline :: "'e \<Rightarrow> 't :: linorder"
    and ins :: "'e \<Rightarrow> 'e list \<Rightarrow> 'e list"
  assumes ins_mset: "mset (ins t q) = add_mset t (mset q)"
    and ins_sorted: "sorted (map deadline q) \<Longrightarrow> sorted (map deadline (ins t q))"
    and ins_stable: "sorted (map deadline q) \<Longrightarrow> filter (\<lambda>x. deadline x = d) (ins t q)
      = filter (\<lambda>x. deadline x = d) q @ (if deadline t = d then [t] else [])"
begin

lemma run_sorted: "sorted (map deadline q) \<Longrightarrow> sorted (map deadline (fold ins ts q))"
  by (induction ts arbitrary: q) (auto simp: ins_sorted)

lemma run_mset: "mset (fold ins ts q) = mset q + mset ts"
  by (induction ts arbitrary: q) (auto simp: ins_mset)

lemma run_stable:
  "sorted (map deadline q) \<Longrightarrow>
   filter (\<lambda>x. deadline x = d) (fold ins ts q)
   = filter (\<lambda>x. deadline x = d) q @ filter (\<lambda>x. deadline x = d) ts"
  by (induction ts arbitrary: q) (auto simp: ins_sorted ins_stable)

lemma head_least:
  assumes "sorted (map deadline q)" "fold ins ts q = t # rest"
  shows "\<forall>x \<in> set q \<union> set ts. deadline t \<le> deadline x"
proof -
  have "set (t # rest) = set q \<union> set ts"
    using run_mset [of ts q] assms(2) by (metis set_mset_mset set_mset_union)
  then show ?thesis
    using run_sorted [OF assms(1), of ts] assms(2) by auto
qed

end

lemma insert_timeout_mset: "mset (insert_timeout t ts) = add_mset t (mset ts)"
  by (induction ts) auto

lemma insert_timeout_set [simp]: "set (insert_timeout t ts) = insert t (set ts)"
  using insert_timeout_mset [of t ts] by (metis set_mset_add_mset_insert set_mset_mset)

lemma insert_timeout_sorted: "sorted (map to_time ts) \<Longrightarrow> sorted (map to_time (insert_timeout t ts))"
  by (induction ts) (auto simp: not_less order.strict_implies_order intro: order.strict_implies_order order_trans)

lemma insert_timeout_stable:
  "sorted (map to_time ts) \<Longrightarrow>
   filter (\<lambda>x. to_time x = d) (insert_timeout t ts)
   = filter (\<lambda>x. to_time x = d) ts @ (if to_time t = d then [t] else [])"
proof (induction ts)
  case (Cons x xs)
  then have later: "to_time t < to_time x \<Longrightarrow> filter (\<lambda>y. to_time y = to_time t) (x # xs) = []"
    by (auto simp: filter_empty_conv)
  show ?case using Cons later by (auto simp: not_less)
qed simp

interpretation timers: timer_queue to_time insert_timeout
  by unfold_locales (simp_all add: insert_timeout_mset insert_timeout_sorted insert_timeout_stable)

lemma insert_timeout_split:
  "sorted (map to_time ts) \<Longrightarrow>
   insert_timeout t ts = filter (\<lambda>x. to_time x \<le> to_time t) ts @ t # filter (\<lambda>x. to_time t < to_time x) ts"
proof (induction ts)
  case (Cons x xs)
  then have "to_time t < to_time x \<Longrightarrow> filter (\<lambda>y. to_time y \<le> to_time t) xs = [] \<and> filter (\<lambda>y. to_time t < to_time y) xs = xs"
    by (auto simp: filter_empty_conv filter_id_conv)
  then show ?case using Cons by (auto simp: not_less)
qed simp

lemma cancel_walk_spec: "cancel_walk p ts = (int (length (filter p ts)), filter (\<lambda>t. \<not> p t) ts)"
  by (induction ts) auto

lemma eloop_cancel_sorted:
  "sorted (map to_time (timeouts e)) \<Longrightarrow> sorted (map to_time (timeouts (snd (eloop_cancel_timeout h d u e))))"
  by (simp add: eloop_cancel_timeout_def cancel_walk_spec sorted_filter)

lemma eloop_register_sorted:
  "sorted (map to_time (timeouts e)) \<Longrightarrow>
   sorted (map to_time (timeouts (snd (eloop_register_timeout alloc now s us h d u e))))"
  by (simp add: eloop_register_timeout_def Let_def insert_timeout_sorted)

lemma eloop_cancel_timeouts:
  "timeouts (snd (eloop_cancel_timeout h d u e)) = filter (\<lambda>t. \<not> timeout_matches h d u t) (timeouts e)"
  "fst (eloop_cancel_timeout h d u e) = int (length (filter (timeout_matches h d u) (timeouts e)))"
  by (simp_all add: eloop_cancel_timeout_def cancel_walk_spec)

section \<open>The loop calls what is due\<close>

lemma eloop_fire_head:
  assumes "timeouts (get s) = t # ts" "to_time t \<le> now"
  shows "eloop_fire get put call_to now s
    = call_to (to_handler t) (to_eloop_data t) (to_user_data t) (put ((get s)\<lparr>timeouts := ts\<rparr>) s)"
  using assms by (simp add: eloop_fire_def)

lemma eloop_fire_idle:
  assumes "sorted (map to_time (timeouts (get s)))" "\<forall>t \<in> set (timeouts (get s)). now < to_time t"
  shows "eloop_fire get put call_to now s = ret s"
  using assms by (auto simp: eloop_fire_def split: list.split)

text \<open>
  With readers that do not register readers, the polling loop ends, and calls the ready
  ones in the order of registration.
\<close>

fun poll_list :: "('h \<Rightarrow> int \<Rightarrow> 'c ctx \<Rightarrow> 'c ctx \<Rightarrow> 's \<Rightarrow> 's run) \<Rightarrow> (int \<Rightarrow> bool) \<Rightarrow> ('h, 'c) eloop_sock list \<Rightarrow> 's \<Rightarrow> 's run" where
  "poll_list call_rd ready [] s = ret s"
| "poll_list call_rd ready (r # rs) s =
     run_bind (if ready (sk_sock r) then call_rd (sk_handler r) (sk_sock r) (sk_eloop_data r) (sk_user_data r) s else ret s)
       (poll_list call_rd ready rs)"

lemma eloop_poll_list:
  assumes inv: "\<And>h k c u s. yields (call_rd h k c u s) (\<lambda>s'. readers (get s') = readers (get s))"
    and rs: "readers (get s) = rs"
  shows "eloop_poll get call_rd ready i s = poll_list call_rd ready (drop i rs) s"
  using rs
proof (induction "length rs - i" arbitrary: i s)
  case 0
  then show ?case by (subst eloop_poll.simps) (simp add: reader_count_def)
next
  case (Suc n)
  then have i: "i < length rs" by simp
  let ?r = "rs ! i"
  let ?call = "if ready (sk_sock ?r) then call_rd (sk_handler ?r) (sk_sock ?r) (sk_eloop_data ?r) (sk_user_data ?r) s else ret s"
  have "yields ?call (\<lambda>s'. readers (get s') = rs)"
    using inv Suc.prems by auto
  then have "run_bind ?call (\<lambda>s. eloop_poll get call_rd ready (Suc i) s)
      = run_bind ?call (poll_list call_rd ready (drop (Suc i) rs))"
    using Suc by (cases ?call rule: run_cases) (auto simp: yields_def)
  then show ?case
    using i Suc.prems unfolding eloop_poll.simps [of get call_rd ready i s]
    by (simp only: reader_count_def Cons_nth_drop_Suc [symmetric] poll_list.simps if_True)
qed

section \<open>Properties\<close>

text \<open>Without 32-bit overflow, the deadline of a new timeout is exactly the requested
  interval after the current time, in normal form.\<close>

lemma eloop_deadline_exact:
  assumes "valid_time now" "0 \<le> tv_sec now"
    and "tv_sec now + uint secs + (tv_usec now + uint usecs) div 1000000 < 2 ^ 31"
    and "tv_usec now + uint usecs < 2 ^ 31"
  shows "valid_time (eloop_deadline now secs usecs)
    \<and> micros (eloop_deadline now secs usecs) = micros now + 1000000 * uint secs + uint usecs"
  using eloop_deadline_spec [OF assms] by simp

lemma eloop_deadline_exact_witness:
  "valid_time (eloop_deadline (Timeval 100 999999) 30 1500001)
   \<and> micros (eloop_deadline (Timeval 100 999999) 30 1500001) = micros (Timeval 100 999999) + 31500001"
  using eloop_deadline_exact [of "Timeval 100 999999" 30 1500001] by (simp add: valid_time_def)

text \<open>A timeout registered in a sorted list goes behind every entry that is not later
  and before every later one; nothing else changes.\<close>

lemma eloop_register_timeout_position:
  assumes "sorted (map to_time (timeouts e))" "alloc sizeof_eloop_timeout"
  shows "\<exists>t. to_time t = eloop_deadline now secs usecs \<and> to_handler t = h \<and> to_eloop_data t = d \<and> to_user_data t = u
    \<and> eloop_register_timeout alloc now secs usecs h d u e
      = (0, e\<lparr>timeouts := filter (\<lambda>x. to_time x \<le> to_time t) (timeouts e) @ t
               # filter (\<lambda>x. to_time t < to_time x) (timeouts e)\<rparr>)
    \<and> sorted (map to_time (timeouts (snd (eloop_register_timeout alloc now secs usecs h d u e))))"
  using assms eloop_register_sorted [OF assms(1), of alloc now secs usecs h d u]
  by (intro exI [of _ "\<lparr>to_time = eloop_deadline now secs usecs, to_eloop_data = d, to_user_data = u, to_handler = h\<rparr>"])
     (simp add: eloop_register_timeout_def Let_def insert_timeout_split)

definition sample_loop :: "(nat, nat) eloop_data" where
  "sample_loop = snd (eloop_register_timeout (\<lambda>_. True) (Timeval 5 0) 3 0 1 (Ctx 10) NULL_CTX (eloop_init NULL_CTX))"

lemma sample_loop_sorted: "sorted (map to_time (timeouts sample_loop))"
  by (simp add: sample_loop_def eloop_register_timeout_def eloop_init_def Let_def)

lemma eloop_register_timeout_position_witness:
  "sorted (map to_time (timeouts (snd (eloop_register_timeout (\<lambda>_. True) (Timeval 5 0) 3 0 2 NULL_CTX NULL_CTX sample_loop))))"
  using eloop_register_timeout_position [OF sample_loop_sorted, of "\<lambda>_. True" "Timeval 5 0" 3 0 2 NULL_CTX NULL_CTX]
  by auto

text \<open>Cancellation removes exactly the matching entries, keeps the others in order,
  and returns how many it removed.\<close>

lemma eloop_cancel_timeout_exact:
  "eloop_cancel_timeout h d u e =
     (int (length (timeouts e)) - int (length (filter (\<lambda>t. \<not> timeout_matches h d u t) (timeouts e))),
      e\<lparr>timeouts := filter (\<lambda>t. \<not> timeout_matches h d u t) (timeouts e)\<rparr>)"
  using sum_length_filter_compl [of "timeout_matches h d u" "timeouts e"]
  by (simp add: eloop_cancel_timeout_def cancel_walk_spec)

text \<open>The loop never sleeps past a deadline nor wakes before the first: the time-out of
  \<open>select\<close> is zero when an entry is due, and otherwise ends at the earliest deadline.\<close>

lemma select_timeout_exact:
  assumes "sorted (map to_time (timeouts e))" "valid_time now" "\<forall>t \<in> set (timeouts e). valid_time (to_time t)"
    and "select_timeout now e = Some w"
  shows "valid_time w \<and> 0 \<le> tv_sec w
    \<and> (\<forall>t \<in> set (timeouts e). micros now + micros w \<le> max (micros now) (micros (to_time t)))
    \<and> (\<exists>t \<in> set (timeouts e). max (micros now) (micros (to_time t)) = micros now + micros w)"
proof -
  obtain t ts where e: "timeouts e = t # ts"
    using assms(4) by (auto simp: select_timeout_def split: list.splits)
  have v: "valid_time (to_time t)" and least: "\<forall>x \<in> set ts. to_time t \<le> to_time x \<and> valid_time (to_time x)"
    using assms(1,3) by (auto simp: e)
  have le: "\<forall>x \<in> set ts. micros (to_time t) \<le> micros (to_time x)"
    using least v by (metis micros_less not_less)
  show ?thesis
  proof (cases "to_time t \<le> now")
    case True
    then have "micros (to_time t) \<le> micros now"
      using micros_less [OF assms(2) v] by (simp add: not_less [symmetric])
    then show ?thesis
      using True assms(4) by (auto simp: e select_timeout_def valid_time_def micros_def)
  next
    case False
    then have "micros now < micros (to_time t)"
      using micros_less [OF assms(2) v] by (simp add: not_le)
    moreover have "w = timersub (to_time t) now"
      using False assms(4) by (simp add: e select_timeout_def)
    moreover have "micros (timersub (to_time t) now) = micros (to_time t) - micros now"
      by (simp add: timersub_def Let_def micros_def)
    moreover have "valid_time w \<and> 0 \<le> tv_sec w"
      using False assms(2) v \<open>w = _\<close>
      by (auto simp: timersub_def Let_def valid_time_def not_le less_timeval_def split: if_splits)
    ultimately show ?thesis using le by (auto simp: e)
  qed
qed

lemma select_timeout_exact_witness:
  "\<exists>t \<in> set (timeouts sample_loop). max (micros (Timeval 6 500000)) (micros (to_time t)) = micros (Timeval 6 500000) + 1500000"
proof -
  have e: "timeouts sample_loop = [\<lparr>to_time = Timeval 8 0, to_eloop_data = Ctx 10, to_user_data = NULL_CTX, to_handler = 1\<rparr>]"
    by (simp add: sample_loop_def eloop_register_timeout_def eloop_init_def Let_def eloop_deadline_def normalize_usec.simps)
  have "select_timeout (Timeval 6 500000) sample_loop = Some (Timeval 1 500000)"
    by (simp add: e select_timeout_def less_eq_timeval_def timersub_def Let_def)
  from select_timeout_exact [OF sample_loop_sorted _ _ this] show ?thesis
    by (simp add: e valid_time_def micros_def)
qed

end
