(* ===== verification/RadiusMsg.thy ===== *)
theory RadiusMsg
  imports Md5 Eloop
begin

text \<open>
  \<open>802.1x/radius.c\<close> and \<open>radius.h\<close>: RADIUS messages.

  A \<open>struct radius_msg\<close> is the record \<open>radius_msg\<close>: the allocated buffer as the list of
  its bytes (its length is \<open>buf_size\<close>), the bytes used, and the array of attribute
  pointers as offsets into the buffer, so that the pointer adjustment after \<open>realloc\<close> is
  the identity; \<open>attr_used\<close> is the length of that list. \<open>hdr\<close> is the front of the buffer.
  Sizes stay far below \<open>2 ^ 31\<close> and are naturals; the places where the code computes a
  negative or wrapped size are written out. Reads that the invariant \<open>wf_attrs\<close> keeps
  inside the buffer are plain list accesses; the copies of a fixed length, which an
  attribute may be too short for, go through \<open>mem_read\<close> and \<open>mem_write\<close>.

  The lemmas show that a message is its 20-byte header followed by its attribute-value
  pairs (\<open>avps\<close>), that building and parsing keep this form, and what the authenticators
  and the encrypted attributes are.
\<close>

section \<open>Constants\<close>

definition RADIUS_CODE_ACCESS_REQUEST :: byte where "RADIUS_CODE_ACCESS_REQUEST = 1"
definition RADIUS_CODE_ACCESS_ACCEPT :: byte where "RADIUS_CODE_ACCESS_ACCEPT = 2"
definition RADIUS_CODE_ACCESS_REJECT :: byte where "RADIUS_CODE_ACCESS_REJECT = 3"
definition RADIUS_CODE_ACCESS_CHALLENGE :: byte where "RADIUS_CODE_ACCESS_CHALLENGE = 11"

lemmas radius_codes = RADIUS_CODE_ACCESS_REQUEST_def RADIUS_CODE_ACCESS_ACCEPT_def
  RADIUS_CODE_ACCESS_REJECT_def RADIUS_CODE_ACCESS_CHALLENGE_def

definition RADIUS_ATTR_USER_NAME :: byte where "RADIUS_ATTR_USER_NAME = 1"
definition RADIUS_ATTR_USER_PASSWORD :: byte where "RADIUS_ATTR_USER_PASSWORD = 2"
definition RADIUS_ATTR_NAS_IP_ADDRESS :: byte where "RADIUS_ATTR_NAS_IP_ADDRESS = 4"
definition RADIUS_ATTR_NAS_PORT :: byte where "RADIUS_ATTR_NAS_PORT = 5"
definition RADIUS_ATTR_FRAMED_MTU :: byte where "RADIUS_ATTR_FRAMED_MTU = 12"
definition RADIUS_ATTR_STATE :: byte where "RADIUS_ATTR_STATE = 24"
definition RADIUS_ATTR_VENDOR_SPECIFIC :: byte where "RADIUS_ATTR_VENDOR_SPECIFIC = 26"
definition RADIUS_ATTR_SESSION_TIMEOUT :: byte where "RADIUS_ATTR_SESSION_TIMEOUT = 27"
definition RADIUS_ATTR_IDLE_TIMEOUT :: byte where "RADIUS_ATTR_IDLE_TIMEOUT = 28"
definition RADIUS_ATTR_TERMINATION_ACTION :: byte where "RADIUS_ATTR_TERMINATION_ACTION = 29"
definition RADIUS_ATTR_CALLED_STATION_ID :: byte where "RADIUS_ATTR_CALLED_STATION_ID = 30"
definition RADIUS_ATTR_CALLING_STATION_ID :: byte where "RADIUS_ATTR_CALLING_STATION_ID = 31"
definition RADIUS_ATTR_NAS_IDENTIFIER :: byte where "RADIUS_ATTR_NAS_IDENTIFIER = 32"
definition RADIUS_ATTR_NAS_PORT_TYPE :: byte where "RADIUS_ATTR_NAS_PORT_TYPE = 61"
definition RADIUS_ATTR_CONNECT_INFO :: byte where "RADIUS_ATTR_CONNECT_INFO = 77"
definition RADIUS_ATTR_EAP_MESSAGE :: byte where "RADIUS_ATTR_EAP_MESSAGE = 79"
definition RADIUS_ATTR_MESSAGE_AUTHENTICATOR :: byte where "RADIUS_ATTR_MESSAGE_AUTHENTICATOR = 80"
definition RADIUS_VENDOR_ATTR_MS_MPPE_SEND_KEY :: byte where "RADIUS_VENDOR_ATTR_MS_MPPE_SEND_KEY = 16"
definition RADIUS_VENDOR_ATTR_MS_MPPE_RECV_KEY :: byte where "RADIUS_VENDOR_ATTR_MS_MPPE_RECV_KEY = 17"
definition RADIUS_VENDOR_ID_MICROSOFT :: u32 where "RADIUS_VENDOR_ID_MICROSOFT = 311"
definition RADIUS_TERMINATION_ACTION_DEFAULT :: u32 where "RADIUS_TERMINATION_ACTION_DEFAULT = 0"
definition RADIUS_TERMINATION_ACTION_RADIUS_REQUEST :: u32 where "RADIUS_TERMINATION_ACTION_RADIUS_REQUEST = 1"
definition RADIUS_NAS_PORT_TYPE_IEEE_802_11 :: u32 where "RADIUS_NAS_PORT_TYPE_IEEE_802_11 = 19"

definition RADIUS_MAX_ATTR_LEN :: nat where "RADIUS_MAX_ATTR_LEN = 253"
definition RADIUS_DEFAULT_MSG_SIZE :: nat where "RADIUS_DEFAULT_MSG_SIZE = 1024"
definition RADIUS_DEFAULT_ATTR_COUNT :: nat where "RADIUS_DEFAULT_ATTR_COUNT = 16"
definition MD5_MAC_LEN :: nat where "MD5_MAC_LEN = 16"
definition sizeof_radius_msg :: nat where "sizeof_radius_msg = 28"
definition sizeof_ptr :: nat where "sizeof_ptr = 4"

section \<open>Messages\<close>

record radius_msg =
  rbuf :: "byte list"
  buf_used :: nat
  attrs :: "nat list"
  attr_size :: nat

definition msg_code :: "radius_msg \<Rightarrow> byte" where "msg_code m = rbuf m ! 0"
definition msg_identifier :: "radius_msg \<Rightarrow> byte" where "msg_identifier m = rbuf m ! 1"
definition msg_authenticator :: "radius_msg \<Rightarrow> byte list" where "msg_authenticator m = slice 4 16 (rbuf m)"

definition attr_type :: "radius_msg \<Rightarrow> nat \<Rightarrow> byte" where "attr_type m off = rbuf m ! off"
definition attr_length :: "radius_msg \<Rightarrow> nat \<Rightarrow> nat" where "attr_length m off = unat (rbuf m ! Suc off)"

text \<open>The octets after an attribute header.\<close>

definition attr_value :: "radius_msg \<Rightarrow> nat \<Rightarrow> byte list" where
  "attr_value m off = slice (off + 2) (attr_length m off - 2) (rbuf m)"

definition Radius_msg_initialize :: "allocator \<Rightarrow> nat \<Rightarrow> radius_msg option" where
  "Radius_msg_initialize alloc init_len =
     (if init_len < 20 then None
      else if \<not> alloc init_len then None
      else if \<not> alloc (RADIUS_DEFAULT_ATTR_COUNT * sizeof_ptr) then None
      else Some \<lparr>rbuf = replicate init_len 0, buf_used = 20, attrs = [],
                 attr_size = RADIUS_DEFAULT_ATTR_COUNT\<rparr>)"

definition Radius_msg_set_hdr :: "radius_msg \<Rightarrow> byte \<Rightarrow> byte \<Rightarrow> radius_msg" where
  "Radius_msg_set_hdr msg code identifier = msg\<lparr>rbuf := store 0 [code, identifier] (rbuf msg)\<rparr>"

definition Radius_msg_new :: "allocator \<Rightarrow> byte \<Rightarrow> byte \<Rightarrow> radius_msg option" where
  "Radius_msg_new alloc code identifier =
     (if \<not> alloc sizeof_radius_msg then None
      else case Radius_msg_initialize alloc RADIUS_DEFAULT_MSG_SIZE of
             None \<Rightarrow> None
           | Some msg \<Rightarrow> Some (Radius_msg_set_hdr msg code identifier))"

definition Radius_msg_add_attr_to_array :: "allocator \<Rightarrow> radius_msg \<Rightarrow> nat \<Rightarrow> radius_msg option" where
  "Radius_msg_add_attr_to_array alloc msg attr =
     (if attr_size msg \<le> length (attrs msg) then
        (let nlen = attr_size msg * 2
         in if \<not> alloc (nlen * sizeof_ptr) then None
            else Some (msg\<lparr>attr_size := nlen, attrs := attrs msg @ [attr]\<rparr>))
      else Some (msg\<lparr>attrs := attrs msg @ [attr]\<rparr>))"

text \<open>\<open>while (nlen < buf_needed) nlen *= 2;\<close>\<close>

partial_function (option) grow_size :: "nat \<Rightarrow> nat \<Rightarrow> nat run" where
  "grow_size nlen buf_needed = (if nlen < buf_needed then grow_size (nlen * 2) buf_needed else ret nlen)"

text \<open>\<open>sizeof(*attr) + data_len\<close> in the length octet.\<close>

definition length_octet :: "nat \<Rightarrow> byte" where
  "length_octet n = of_nat (2 + n)"

declare grow_size.simps [code]

text \<open>The result is the offset of the new attribute, \<open>None\<close> for a null pointer, and the message.\<close>

definition Radius_msg_add_attr :: "allocator \<Rightarrow> radius_msg \<Rightarrow> byte \<Rightarrow> byte list \<Rightarrow> (nat option \<times> radius_msg) run" where
  "Radius_msg_add_attr alloc msg type data =
     (if RADIUS_MAX_ATTR_LEN < length data then ret (None, msg)
      else
        let buf_needed = buf_used msg + 2 + length data in
        run_bind
          (if length (rbuf msg) < buf_needed then
             run_bind (grow_size (length (rbuf msg)) buf_needed) (\<lambda>nlen.
               if \<not> alloc nlen then ret None
               else ret (Some (msg\<lparr>rbuf := rbuf msg @ replicate (nlen - length (rbuf msg)) 0\<rparr>)))
           else ret (Some msg))
          (\<lambda>grown. case grown of
             None \<Rightarrow> ret (None, msg)
           | Some msg \<Rightarrow>
               let attr = buf_used msg;
                   msg = msg\<lparr>rbuf := store attr (type # length_octet (length data) # data) (rbuf msg)\<rparr>;
                   msg = msg\<lparr>buf_used := buf_used msg + (2 + length data)\<rparr>
               in case Radius_msg_add_attr_to_array alloc msg attr of
                    None \<Rightarrow> ret (None, msg)
                  | Some msg \<Rightarrow> ret (Some attr, msg)))"

definition Radius_msg_add_attr_int32 :: "allocator \<Rightarrow> radius_msg \<Rightarrow> byte \<Rightarrow> u32 \<Rightarrow> (bool \<times> radius_msg) run" where
  "Radius_msg_add_attr_int32 alloc msg type value =
     run_map (map_prod (\<lambda>r. r \<noteq> None) id) (Radius_msg_add_attr alloc msg type (be32 value))"

text \<open>
  The message is completed. The authenticator is computed into the payload of the attribute
  just added; without one it is written through a null pointer.
\<close>

definition set_length_field :: "radius_msg \<Rightarrow> radius_msg" where
  "set_length_field msg = msg\<lparr>rbuf := store 2 (be16 (of_nat (buf_used msg))) (rbuf msg)\<rparr>"

definition Radius_msg_finish :: "allocator \<Rightarrow> radius_msg \<Rightarrow> byte list option \<Rightarrow> radius_msg run" where
  "Radius_msg_finish alloc msg secret =
     (case secret of
        Some key \<Rightarrow>
          run_bind (Radius_msg_add_attr alloc msg RADIUS_ATTR_MESSAGE_AUTHENTICATOR (replicate 16 0))
            (\<lambda>(attr, msg).
               let msg = set_length_field msg
               in case attr of
                    None \<Rightarrow> fail NullDeref
                  | Some attr \<Rightarrow>
                      ret (msg\<lparr>rbuf := store (attr + 2) (hmac_md5 key (take (buf_used msg) (rbuf msg))) (rbuf msg)\<rparr>))
      | None \<Rightarrow> ret (set_length_field msg))"

section \<open>Parsing\<close>

lemma add_to_array_used:
  "Radius_msg_add_attr_to_array alloc msg a = Some msg' \<Longrightarrow> buf_used msg' = buf_used msg \<and> rbuf msg' = rbuf msg"
  by (auto simp: Radius_msg_add_attr_to_array_def Let_def split: if_splits)

function parse_attrs :: "allocator \<Rightarrow> radius_msg \<Rightarrow> nat \<Rightarrow> radius_msg option" where
  "parse_attrs alloc msg pos =
     (if pos < buf_used msg then
        if buf_used msg - pos < 2 then None
        else if pos + attr_length msg pos > buf_used msg \<or> attr_length msg pos < 2 then None
        else case Radius_msg_add_attr_to_array alloc msg pos of
               None \<Rightarrow> None
             | Some msg' \<Rightarrow> parse_attrs alloc msg' (pos + attr_length msg pos)
      else Some msg)"
  by pat_completeness auto
termination
  by (relation "measure (\<lambda>(a, m, p). buf_used m - p)") (auto dest: add_to_array_used)

declare parse_attrs.simps [simp del]

definition Radius_msg_parse :: "allocator \<Rightarrow> byte list \<Rightarrow> radius_msg option" where
  "Radius_msg_parse alloc data =
     (if length data < 20 then None
      else let msg_len = unat (rd_be16 (slice 2 2 data))
           in if msg_len < 20 \<or> msg_len > length data then None
              else if \<not> alloc sizeof_radius_msg then None
              else case Radius_msg_initialize alloc msg_len of
                     None \<Rightarrow> None
                   | Some msg \<Rightarrow> parse_attrs alloc (msg\<lparr>rbuf := take msg_len data, buf_used := msg_len\<rparr>) 20)"

section \<open>EAP messages\<close>

partial_function (option) Radius_msg_add_eap :: "allocator \<Rightarrow> radius_msg \<Rightarrow> byte list \<Rightarrow> (bool \<times> radius_msg) run" where
  "Radius_msg_add_eap alloc msg data =
     (if data = [] then ret (True, msg)
      else let len = (if length data > RADIUS_MAX_ATTR_LEN then RADIUS_MAX_ATTR_LEN else length data)
           in run_bind (Radius_msg_add_attr alloc msg RADIUS_ATTR_EAP_MESSAGE (take len data))
                (\<lambda>r. if fst r = None then ret (False, snd r)
                     else Radius_msg_add_eap alloc (snd r) (drop len data)))"

declare Radius_msg_add_eap.simps [code]

definition Radius_msg_get_eap :: "allocator \<Rightarrow> radius_msg \<Rightarrow> byte list option" where
  "Radius_msg_get_eap alloc msg =
     (let eap_attrs = filter (\<lambda>a. attr_type msg a = RADIUS_ATTR_EAP_MESSAGE) (attrs msg);
          len = sum_list (map (\<lambda>a. attr_length msg a - 2) eap_attrs)
      in if len = 0 then None
         else if \<not> alloc len then None
         else Some (concat (map (attr_value msg) eap_attrs)))"

section \<open>Verification of responses\<close>

text \<open>
  The search for the Message-Authenticator: \<open>None\<close> when there are several, otherwise
  the attribute found, if any.
\<close>

fun find_message_authenticator :: "radius_msg \<Rightarrow> nat list \<Rightarrow> nat option \<Rightarrow> nat option option" where
  "find_message_authenticator msg [] attr = Some attr"
| "find_message_authenticator msg (a # as) attr =
     (if attr_type msg a = RADIUS_ATTR_MESSAGE_AUTHENTICATOR then
        if attr \<noteq> None then None else find_message_authenticator msg as (Some a)
      else find_message_authenticator msg as attr)"

text \<open>An MD5 digest over several pieces.\<close>

definition md5_pieces :: "byte list list \<Rightarrow> byte list" where
  "md5_pieces ds = fst (MD5Final (foldl MD5Update (MD5Init md5_stack_ctx) ds))"

text \<open>\<open>ResponseAuth = MD5(Code+ID+Length+RequestAuth+Attributes+Secret)\<close>\<close>

definition response_authenticator :: "radius_msg \<Rightarrow> radius_msg \<Rightarrow> byte list \<Rightarrow> byte list" where
  "response_authenticator msg sent_msg secret =
     md5_pieces [slice 0 4 (rbuf msg), msg_authenticator sent_msg,
                 slice 20 (buf_used msg - 20) (rbuf msg), secret]"

text \<open>Zero is success; the message comes back as the function leaves it.\<close>

definition Radius_msg_verify :: "radius_msg \<Rightarrow> byte list \<Rightarrow> radius_msg option \<Rightarrow> (int \<times> radius_msg) run" where
  "Radius_msg_verify msg secret sent =
     (case sent of
        None \<Rightarrow> ret (1, msg)
      | Some sent_msg \<Rightarrow>
          (case find_message_authenticator msg (attrs msg) None of
             None \<Rightarrow> ret (1, msg)
           | Some None \<Rightarrow> ret (1, msg)
           | Some (Some attr) \<Rightarrow>
               run_bind (mem_read (attr + 2) 16 (rbuf msg)) (\<lambda>orig.
               run_bind (mem_write (attr + 2) (replicate 16 0) (rbuf msg)) (\<lambda>buf.
                 let orig_authenticator = slice 4 16 buf;
                     buf = store 4 (msg_authenticator sent_msg) buf;
                     auth = hmac_md5 secret (take (buf_used msg) buf);
                     buf = store (attr + 2) orig buf;
                     buf = store 4 orig_authenticator buf;
                     msg = msg\<lparr>rbuf := buf\<rparr>
                 in if orig \<noteq> auth then ret (1, msg)
                    else if response_authenticator msg sent_msg secret \<noteq> msg_authenticator msg then ret (1, msg)
                    else ret (0, msg)))))"

definition Radius_msg_verify_acct :: "radius_msg \<Rightarrow> byte list \<Rightarrow> radius_msg \<Rightarrow> int" where
  "Radius_msg_verify_acct msg secret sent_msg =
     (let hash = md5_pieces ([slice 0 4 (rbuf msg), msg_authenticator sent_msg]
            @ (if buf_used msg > 20 then [slice 20 (buf_used msg - 20) (rbuf msg)] else []) @ [secret])
      in if hash \<noteq> msg_authenticator msg then 1 else 0)"

section \<open>Attribute access\<close>

definition first_attr :: "radius_msg \<Rightarrow> byte \<Rightarrow> nat option" where
  "first_attr msg type = find (\<lambda>a. attr_type msg a = type) (attrs msg)"

text \<open>1: copied, 0: not present, -1: no memory.\<close>

definition Radius_msg_copy_attr :: "allocator \<Rightarrow> radius_msg \<Rightarrow> radius_msg \<Rightarrow> byte \<Rightarrow> (int \<times> radius_msg) run" where
  "Radius_msg_copy_attr alloc dst src type =
     (case first_attr src type of
        None \<Rightarrow> ret (0, dst)
      | Some attr \<Rightarrow>
          run_map (\<lambda>(r, dst). (if r = None then -1 else 1, dst))
            (Radius_msg_add_attr alloc dst type (attr_value src attr)))"

text \<open>The length of the value, and the octets copied into a buffer of \<open>len\<close> bytes.\<close>

definition Radius_msg_get_attr :: "radius_msg \<Rightarrow> byte \<Rightarrow> nat \<Rightarrow> (nat \<times> byte list) option" where
  "Radius_msg_get_attr msg type len =
     (case first_attr msg type of
        None \<Rightarrow> None
      | Some attr \<Rightarrow>
          let dlen = attr_length msg attr - 2
          in Some (dlen, slice (attr + 2) (if dlen > len then len else dlen) (rbuf msg)))"

definition Radius_msg_get_attr_int32 :: "radius_msg \<Rightarrow> byte \<Rightarrow> u32 option" where
  "Radius_msg_get_attr_int32 msg type =
     (case Radius_msg_get_attr msg type 4 of
        None \<Rightarrow> None
      | Some (dlen, val) \<Rightarrow> if dlen \<noteq> 4 then None else Some (rd_be32 val))"

text \<open>The bytes of the \<open>struct timeval\<close> and of the \<open>long\<close> are hashed as they lie in memory.\<close>

definition Radius_msg_make_authenticator :: "timeval \<Rightarrow> u32 \<Rightarrow> radius_msg \<Rightarrow> byte list \<Rightarrow> radius_msg" where
  "Radius_msg_make_authenticator tv l msg data =
     msg\<lparr>rbuf := store 4 (md5_pieces [le32 (of_int (tv_sec tv)) @ le32 (of_int (tv_usec tv)), data, le32 l]) (rbuf msg)\<rparr>"

section \<open>Microsoft vendor attributes\<close>

text \<open>
  The inner loop over the vendor attributes of one Vendor-Specific attribute: \<open>None\<close> when
  it finds nothing, \<open>Some r\<close> when the function returns \<open>r\<close>. A \<open>vendor_length\<close> of zero does
  not advance the loop; one below two makes \<open>len\<close> wrap.
\<close>

partial_function (option) ms_scan :: "allocator \<Rightarrow> byte list \<Rightarrow> byte \<Rightarrow> nat \<Rightarrow> nat \<Rightarrow> byte list option option run" where
  "ms_scan alloc buf ms_type pos left =
     (if 2 \<le> left then
        if unat (buf ! Suc pos) > left then ret None
        else if buf ! pos \<noteq> ms_type
        then ms_scan alloc buf ms_type (pos + unat (buf ! Suc pos)) (left - unat (buf ! Suc pos))
        else if \<not> alloc (nat ((int (unat (buf ! Suc pos)) - 2) mod 2 ^ 32)) then ret (Some None)
        else run_map (\<lambda>d. Some (Some d)) (mem_read (pos + 2) (nat ((int (unat (buf ! Suc pos)) - 2) mod 2 ^ 32)) buf)
      else ret None)"

declare ms_scan.simps [code]

fun get_ms_attr_loop :: "allocator \<Rightarrow> radius_msg \<Rightarrow> byte \<Rightarrow> nat list \<Rightarrow> byte list option run" where
  "get_ms_attr_loop alloc msg ms_type [] = ret None"
| "get_ms_attr_loop alloc msg ms_type (attr # as) =
     (if attr_type msg attr \<noteq> RADIUS_ATTR_VENDOR_SPECIFIC then get_ms_attr_loop alloc msg ms_type as
      else if attr_length msg attr - 2 < 4 then get_ms_attr_loop alloc msg ms_type as
      else if rd_be32 (slice (attr + 2) 4 (rbuf msg)) \<noteq> RADIUS_VENDOR_ID_MICROSOFT
      then get_ms_attr_loop alloc msg ms_type as
      else run_bind (ms_scan alloc (rbuf msg) ms_type (attr + 6) (attr_length msg attr - 6))
             (\<lambda>r. case r of None \<Rightarrow> get_ms_attr_loop alloc msg ms_type as | Some r \<Rightarrow> ret r))"

definition Radius_msg_get_ms_attr :: "allocator \<Rightarrow> radius_msg \<Rightarrow> byte \<Rightarrow> byte list option run" where
  "Radius_msg_get_ms_attr alloc msg ms_type = get_ms_attr_loop alloc msg ms_type (attrs msg)"

text \<open>
  The blocks of the cipher text. The first pad is hashed from the Request Authenticator and
  the salt, every other one from the cipher block before it.
\<close>

definition xor_block :: "byte list \<Rightarrow> byte list \<Rightarrow> byte list" where
  "xor_block a b = map2 (XOR) a b"

function mppe_blocks :: "byte list \<Rightarrow> byte list list \<Rightarrow> byte list \<Rightarrow> byte list" where
  "mppe_blocks secret feed pos =
     (if pos = [] then []
      else let hash = md5_pieces (secret # feed)
           in xor_block (take 16 pos) hash @ mppe_blocks secret [take 16 pos] (drop 16 pos))"
  by pat_completeness auto
termination
  by (relation "measure (\<lambda>(s, f, p). length p)") auto

declare mppe_blocks.simps [simp del]

definition decrypt_ms_key :: "allocator \<Rightarrow> byte list \<Rightarrow> radius_msg \<Rightarrow> byte list \<Rightarrow> byte list option" where
  "decrypt_ms_key alloc key sent_msg secret =
     (if length key < 2 + 16 then None
      else if (length key - 2) mod 16 \<noteq> 0 then None
      else if \<not> alloc (length key - 2) then None
      else
        let plain = mppe_blocks secret [msg_authenticator sent_msg, take 2 key] (drop 2 key);
            n = unat (plain ! 0)
        in if n > length key - 2 - 1 then None
           else if \<not> alloc n then None
           else Some (slice 1 n plain))"

record radius_ms_mppe_keys =
  mppe_send :: "byte list option"
  mppe_recv :: "byte list option"

definition sizeof_radius_ms_mppe_keys :: nat where "sizeof_radius_ms_mppe_keys = 16"

definition Radius_msg_get_ms_keys ::
    "allocator \<Rightarrow> radius_msg \<Rightarrow> radius_msg option \<Rightarrow> byte list \<Rightarrow> radius_ms_mppe_keys option run" where
  "Radius_msg_get_ms_keys alloc msg sent secret =
     (case sent of
        None \<Rightarrow> ret None
      | Some sent_msg \<Rightarrow>
          if \<not> alloc sizeof_radius_ms_mppe_keys then ret None
          else
            run_bind (Radius_msg_get_ms_attr alloc msg RADIUS_VENDOR_ATTR_MS_MPPE_SEND_KEY) (\<lambda>skey.
            run_bind (Radius_msg_get_ms_attr alloc msg RADIUS_VENDOR_ATTR_MS_MPPE_RECV_KEY) (\<lambda>rkey.
              let dec = (\<lambda>k. case k of None \<Rightarrow> None | Some key \<Rightarrow> decrypt_ms_key alloc key sent_msg secret)
              in ret (Some \<lparr>mppe_send = dec skey, mppe_recv = dec rkey\<rparr>))))"

section \<open>User-Password\<close>

function password_blocks :: "byte list \<Rightarrow> byte list \<Rightarrow> byte list \<Rightarrow> byte list" where
  "password_blocks secret feed buf =
     (if buf = [] then []
      else let c = xor_block (take 16 buf) (md5_pieces [secret, feed])
           in c @ password_blocks secret c (drop 16 buf))"
  by pat_completeness auto
termination
  by (relation "measure (\<lambda>(s, f, p). length p)") auto

declare password_blocks.simps [simp del]

definition Radius_msg_add_attr_user_password ::
    "allocator \<Rightarrow> radius_msg \<Rightarrow> byte list \<Rightarrow> byte list \<Rightarrow> (nat option \<times> radius_msg) run" where
  "Radius_msg_add_attr_user_password alloc msg data secret =
     (if length data > 128 then ret (None, msg)
      else
        let padlen = length data mod 16;
            buf = data @ (if padlen \<noteq> 0 then replicate (16 - padlen) 0 else [])
        in Radius_msg_add_attr alloc msg RADIUS_ATTR_USER_PASSWORD
             (password_blocks secret (msg_authenticator msg) buf))"

section \<open>Messages as attribute-value pairs\<close>

type_synonym avp = "byte \<times> byte list"

definition avp_at :: "byte list \<Rightarrow> nat \<Rightarrow> avp" where
  "avp_at buf off = (buf ! off, slice (off + 2) (unat (buf ! Suc off) - 2) buf)"

definition avps :: "radius_msg \<Rightarrow> avp list" where
  "avps m = map (avp_at (rbuf m)) (attrs m)"

lemma length_avps: "length (avps m) = length (attrs m)"
  by (simp add: avps_def)

definition enc_avp :: "avp \<Rightarrow> byte list" where
  "enc_avp av = fst av # length_octet (length (snd av)) # snd av"

fun enc_avps :: "avp list \<Rightarrow> byte list" where
  "enc_avps [] = []"
| "enc_avps (av # avs) = enc_avp av @ enc_avps avs"

lemma enc_avps_append [simp]: "enc_avps (as @ bs) = enc_avps as @ enc_avps bs"
  by (induction as) auto

lemma unat_length_octet: "n \<le> RADIUS_MAX_ATTR_LEN \<Longrightarrow> unat (length_octet n) = 2 + n"
  unfolding length_octet_def RADIUS_MAX_ATTR_LEN_def by (subst unat_of_nat, rule mod_less) simp

lemma length_octet_unat: "2 + n = unat b \<Longrightarrow> length_octet n = b"
  unfolding length_octet_def by (simp only: of_nat_unat ucast_id)

definition valid_avp :: "avp \<Rightarrow> bool" where
  "valid_avp av \<longleftrightarrow> length (snd av) \<le> RADIUS_MAX_ATTR_LEN"

text \<open>The attributes lie one after the other from \<open>p\<close> to \<open>e\<close>.\<close>

fun chain :: "byte list \<Rightarrow> nat \<Rightarrow> nat list \<Rightarrow> nat \<Rightarrow> bool" where
  "chain buf p [] e \<longleftrightarrow> p = e"
| "chain buf p (a # as) e \<longleftrightarrow> a = p \<and> 2 \<le> unat (buf ! Suc p) \<and> p + unat (buf ! Suc p) \<le> e
     \<and> chain buf (p + unat (buf ! Suc p)) as e"

definition wf_msg :: "radius_msg \<Rightarrow> bool" where
  "wf_msg m \<longleftrightarrow> 20 \<le> buf_used m \<and> buf_used m \<le> length (rbuf m)
     \<and> chain (rbuf m) 20 (attrs m) (buf_used m) \<and> 0 < attr_size m \<and> length (attrs m) \<le> attr_size m"

definition wf_attrs :: "radius_msg \<Rightarrow> bool" where
  "wf_attrs m \<longleftrightarrow> 20 \<le> buf_used m \<and> buf_used m \<le> length (rbuf m)
     \<and> (\<forall>a \<in> set (attrs m). 20 \<le> a \<and> 2 \<le> attr_length m a \<and> a + attr_length m a \<le> buf_used m)"

lemma chain_le: "chain buf p as e \<Longrightarrow> p \<le> e"
  by (induction as arbitrary: p) auto

lemma chain_range:
  "chain buf p as e \<Longrightarrow> a \<in> set as \<Longrightarrow> p \<le> a \<and> 2 \<le> unat (buf ! Suc a) \<and> a + unat (buf ! Suc a) \<le> e"
proof (induction as arbitrary: p)
  case (Cons b as)
  show ?case
  proof (cases "a = b")
    case False
    then have "p + unat (buf ! Suc p) \<le> a \<and> 2 \<le> unat (buf ! Suc a) \<and> a + unat (buf ! Suc a) \<le> e"
      using Cons.IH [of "p + unat (buf ! Suc p)"] Cons.prems by auto
    then show ?thesis by simp
  qed (use Cons.prems in auto)
qed simp

lemma wf_msg_attrs: "wf_msg m \<Longrightarrow> wf_attrs m"
  using chain_range by (fastforce simp: wf_msg_def wf_attrs_def attr_length_def)

lemma slice_split: "m \<le> n \<Longrightarrow> slice p n buf = slice p m buf @ slice (p + m) (n - m) buf"
  by (simp add: slice_def add.commute flip: take_add drop_drop)

lemma slice_two: "p + 2 \<le> length buf \<Longrightarrow> slice p 2 buf = [buf ! p, buf ! Suc p]"
  by (rule nth_equalityI) (auto simp: nth_slice less_Suc_eq numeral_2_eq_2)

lemma avp_at_enc:
  assumes "2 \<le> unat (buf ! Suc p)" "p + unat (buf ! Suc p) \<le> length buf"
  shows "enc_avp (avp_at buf p) = slice p (unat (buf ! Suc p)) buf"
proof -
  define n where "n = unat (buf ! Suc p)"
  have n: "2 \<le> n" "p + n \<le> length buf" using assms by (simp_all add: n_def)
  then have "length_octet (length (slice (p + 2) (n - 2) buf)) = buf ! Suc p"
    by (intro length_octet_unat) (simp add: n_def)
  then show ?thesis
    using n slice_split [of 2 n p buf] slice_two [of p buf]
    by (simp add: enc_avp_def avp_at_def n_def [symmetric])
qed

lemma chain_bytes:
  "chain buf p as e \<Longrightarrow> e \<le> length buf \<Longrightarrow> slice p (e - p) buf = enc_avps (map (avp_at buf) as)"
proof (induction as arbitrary: p)
  case Nil
  then show ?case by (simp add: slice_def)
next
  case (Cons a as)
  define n where "n = unat (buf ! Suc p)"
  have n: "2 \<le> n" "p + n \<le> e" "a = p" "chain buf (p + n) as e"
    using Cons.prems by (simp_all add: n_def)
  then have "slice (p + n) (e - (p + n)) buf = enc_avps (map (avp_at buf) as)"
    using Cons by simp
  moreover have "enc_avp (avp_at buf p) = slice p n buf"
    using n Cons.prems avp_at_enc [of buf p] by (simp add: n_def [symmetric])
  moreover have "slice p (e - p) buf = slice p n buf @ slice (p + n) (e - (p + n)) buf"
    using n slice_split [of n "e - p" p buf] by simp
  ultimately show ?case using n by simp
qed

lemma avp_at_valid: "2 \<le> unat (buf ! Suc p) \<Longrightarrow> valid_avp (avp_at buf p)"
  using unsigned_less [of "buf ! Suc p", where 'a = nat] by (auto simp: valid_avp_def avp_at_def slice_def RADIUS_MAX_ATTR_LEN_def)

lemma wf_msg_valid: "wf_msg m \<Longrightarrow> \<forall>av \<in> set (avps m). valid_avp av"
  using chain_range avp_at_valid by (fastforce simp: wf_msg_def avps_def)

text \<open>A well-formed message is its header followed by its attributes.\<close>

lemma wf_msg_bytes:
  assumes "wf_msg m"
  shows "take (buf_used m) (rbuf m) = take 20 (rbuf m) @ enc_avps (avps m)"
proof -
  have b: "20 \<le> buf_used m" "buf_used m \<le> length (rbuf m)" "chain (rbuf m) 20 (attrs m) (buf_used m)"
    using assms by (simp_all add: wf_msg_def)
  have "take (buf_used m) (rbuf m) = take 20 (rbuf m) @ slice 20 (buf_used m - 20) (rbuf m)"
    using b by (simp add: slice_def take_add [symmetric])
  then show ?thesis using chain_bytes [OF b(3,2)] by (simp add: avps_def)
qed

text \<open>Conversely, bytes of that form are a chain of those attributes.\<close>

fun offsets :: "nat \<Rightarrow> avp list \<Rightarrow> nat list" where
  "offsets p [] = []"
| "offsets p (av # avs) = p # offsets (p + 2 + length (snd av)) avs"

lemma length_offsets [simp]: "length (offsets p avs) = length avs"
  by (induction avs arbitrary: p) auto

lemma enc_avp_length: "length (enc_avp av) = 2 + length (snd av)"
  by (simp add: enc_avp_def)

lemma avp_at_append:
  assumes "p = length pre" "valid_avp av"
  shows "avp_at (pre @ enc_avp av @ post) p = av"
  using assms by (cases av) (simp add: avp_at_def enc_avp_def nth_append slice_def valid_avp_def unat_length_octet)

lemma length_at_append:
  assumes "p = length pre" "valid_avp av"
  shows "unat ((pre @ enc_avp av @ post) ! Suc p) = 2 + length (snd av)"
  using assms by (simp add: enc_avp_def nth_append valid_avp_def unat_length_octet)

lemma offsets_chain:
  assumes "length pre = p" "\<forall>av \<in> set avs. valid_avp av"
  shows "chain (pre @ enc_avps avs @ post) p (offsets p avs) (p + length (enc_avps avs))
    \<and> map (avp_at (pre @ enc_avps avs @ post)) (offsets p avs) = avs"
  using assms
proof (induction avs arbitrary: p pre)
  case (Cons av avs)
  define buf where "buf = pre @ enc_avps (av # avs) @ post"
  define q where "q = p + 2 + length (snd av)"
  have "buf = (pre @ enc_avp av) @ enc_avps avs @ post" by (simp add: buf_def)
  then have "chain buf q (offsets q avs) (q + length (enc_avps avs)) \<and> map (avp_at buf) (offsets q avs) = avs"
    using Cons.IH [of "pre @ enc_avp av" q] Cons.prems by (simp add: enc_avp_length q_def)
  moreover have "avp_at buf p = av" "unat (buf ! Suc p) = 2 + length (snd av)"
    using avp_at_append [of p pre av "enc_avps avs @ post"] length_at_append [of p pre av "enc_avps avs @ post"] Cons.prems
    by (simp_all add: buf_def)
  ultimately show ?case
    unfolding buf_def [symmetric] by (simp add: q_def enc_avp_length add.assoc)
qed simp

lemma chain_unique: "chain buf p as e \<Longrightarrow> chain buf p bs e \<Longrightarrow> as = bs"
proof (induction as arbitrary: p bs)
  case Nil
  then show ?case by (cases bs) auto
next
  case (Cons a as)
  then obtain b bs' where "bs = b # bs'" by (cases bs) auto
  then show ?case using Cons by auto
qed

lemma wf_msg_iff:
  "wf_msg m \<longleftrightarrow> 20 \<le> buf_used m \<and> buf_used m \<le> length (rbuf m) \<and> 0 < attr_size m \<and> length (attrs m) \<le> attr_size m
     \<and> (\<exists>avs. (\<forall>av \<in> set avs. valid_avp av) \<and> take (buf_used m) (rbuf m) = take 20 (rbuf m) @ enc_avps avs
          \<and> attrs m = offsets 20 avs)"
  (is "_ \<longleftrightarrow> ?rhs")
proof
  assume w: "wf_msg m"
  have split: "rbuf m = take 20 (rbuf m) @ enc_avps (avps m) @ drop (buf_used m) (rbuf m)"
    using wf_msg_bytes [OF w] append_take_drop_id [of "buf_used m" "rbuf m"] by (metis append.assoc)
  have "length (take (buf_used m) (rbuf m)) = 20 + length (enc_avps (avps m))"
    using w by (simp add: wf_msg_bytes [OF w] wf_msg_def)
  then have used: "buf_used m = 20 + length (enc_avps (avps m))"
    using w by (simp add: wf_msg_def)
  have "chain (rbuf m) 20 (offsets 20 (avps m)) (buf_used m)"
    using offsets_chain [of "take 20 (rbuf m)" 20 "avps m" "drop (buf_used m) (rbuf m)"] w wf_msg_valid [OF w]
      split [symmetric] used by (simp add: wf_msg_def)
  then have "attrs m = offsets 20 (avps m)"
    using w chain_unique by (auto simp: wf_msg_def)
  then show ?rhs
    using w wf_msg_valid [OF w] wf_msg_bytes [OF w] by (auto simp: wf_msg_def)
next
  assume r: ?rhs
  then obtain avs where v: "\<forall>av \<in> set avs. valid_avp av"
    and b: "take (buf_used m) (rbuf m) = take 20 (rbuf m) @ enc_avps avs" and a: "attrs m = offsets 20 avs"
    by auto
  have split: "rbuf m = take 20 (rbuf m) @ enc_avps avs @ drop (buf_used m) (rbuf m)"
    using b append_take_drop_id [of "buf_used m" "rbuf m"] by (metis append.assoc)
  have "length (take (buf_used m) (rbuf m)) = 20 + length (enc_avps avs)"
    using r by (simp add: b)
  then have used: "buf_used m = 20 + length (enc_avps avs)" using r by simp
  then show "wf_msg m"
    using offsets_chain [of "take 20 (rbuf m)" 20 avs "drop (buf_used m) (rbuf m)"] v r a split [symmetric]
    by (simp add: wf_msg_def)
qed

section \<open>Building\<close>

lemma grow_size_returns: "0 < n \<Longrightarrow> returns (grow_size n need) (\<lambda>k. n \<le> k \<and> need \<le> k \<and> (k = n \<or> k < 2 * need))"
proof (induction "need - n" arbitrary: n rule: less_induct)
  case less
  show ?case
  proof (cases "n < need")
    case True
    then have "returns (grow_size (n * 2) need) (\<lambda>k. n * 2 \<le> k \<and> need \<le> k \<and> (k = n * 2 \<or> k < 2 * need))"
      using less by (intro less.hyps) auto
    then have "returns (grow_size (n * 2) need) (\<lambda>k. n \<le> k \<and> need \<le> k \<and> (k = n \<or> k < 2 * need))"
      using True by (elim returns_mono) auto
    then show ?thesis using True by (simp add: grow_size.simps [of n])
  next
    case False
    then show ?thesis by (simp add: grow_size.simps [of n])
  qed
qed

lemma take_store_before: "k \<le> off \<Longrightarrow> off \<le> length buf \<Longrightarrow> take k (store off ds buf) = take k buf"
  by (simp add: store_def min_def)

lemma take_store_end:
  "off + length ds \<le> length buf \<Longrightarrow> take (off + length ds) (store off ds buf) = take off buf @ ds"
  by (cases ds) (auto simp: store_def min_def)

lemma add_to_array_wf:
  assumes "0 < attr_size m" "length (attrs m) \<le> attr_size m"
  shows "case Radius_msg_add_attr_to_array alloc m a of
      None \<Rightarrow> \<not> alloc (attr_size m * 2 * sizeof_ptr)
    | Some m' \<Rightarrow> m' = m\<lparr>attrs := attrs m @ [a], attr_size := attr_size m'\<rparr>
        \<and> 0 < attr_size m' \<and> length (attrs m') \<le> attr_size m'"
  using assms by (auto simp: Radius_msg_add_attr_to_array_def Let_def)

text \<open>The message after the octets of a new attribute are written behind the used ones.\<close>

definition put_avp :: "radius_msg \<Rightarrow> avp \<Rightarrow> radius_msg" where
  "put_avp m av = m\<lparr>rbuf := store (buf_used m) (enc_avp av) (rbuf m), buf_used := buf_used m + 2 + length (snd av)\<rparr>"

lemma offsets_snoc: "offsets p (avs @ [av]) = offsets p avs @ [p + length (enc_avps avs)]"
  by (induction avs arbitrary: p) (auto simp: enc_avp_length)

lemma wf_avps: "wf_msg m \<Longrightarrow> attrs m = offsets 20 avs \<Longrightarrow> take (buf_used m) (rbuf m) = take 20 (rbuf m) @ enc_avps avs
    \<Longrightarrow> \<forall>av \<in> set avs. valid_avp av \<Longrightarrow> avps m = avs"
proof -
  assume w: "wf_msg m" and a: "attrs m = offsets 20 avs" and v: "\<forall>av \<in> set avs. valid_avp av"
    and b: "take (buf_used m) (rbuf m) = take 20 (rbuf m) @ enc_avps avs"
  have "rbuf m = take 20 (rbuf m) @ enc_avps avs @ drop (buf_used m) (rbuf m)"
    using b append_take_drop_id [of "buf_used m" "rbuf m"] by (metis append.assoc)
  then show ?thesis
    using offsets_chain [of "take 20 (rbuf m)" 20 avs "drop (buf_used m) (rbuf m)"] v w
    by (simp add: avps_def a wf_msg_def)
qed

lemma wf_msg_offsets: "wf_msg m \<Longrightarrow> attrs m = offsets 20 (avps m)"
  using wf_avps by (metis wf_msg_iff)

lemma wf_msg_used: "wf_msg m \<Longrightarrow> buf_used m = 20 + length (enc_avps (avps m))"
proof -
  assume w: "wf_msg m"
  have "length (take (buf_used m) (rbuf m)) = 20 + length (enc_avps (avps m))"
    using w by (simp add: wf_msg_bytes [OF w] wf_msg_def)
  then show ?thesis using w by (simp add: wf_msg_def)
qed

lemma put_avp_wf:
  assumes w: "wf_msg m" and av: "valid_avp av" and room: "buf_used m + 2 + length (snd av) \<le> length (rbuf m)"
    and n: "0 < n" "Suc (length (attrs m)) \<le> n"
  shows "wf_msg ((put_avp m av)\<lparr>attrs := attrs m @ [buf_used m], attr_size := n\<rparr>)"
    and "avps ((put_avp m av)\<lparr>attrs := attrs m @ [buf_used m], attr_size := n\<rparr>) = avps m @ [av]"
    and "take 20 (rbuf (put_avp m av)) = take 20 (rbuf m)"
proof -
  let ?m = "(put_avp m av)\<lparr>attrs := attrs m @ [buf_used m], attr_size := n\<rparr>"
  have u: "20 \<le> buf_used m" "buf_used m \<le> length (rbuf m)" using w by (simp_all add: wf_msg_def)
  have t: "take (buf_used ?m) (rbuf ?m) = take 20 (rbuf m) @ enc_avps (avps m @ [av])"
    using take_store_end [of "buf_used m" "enc_avp av" "rbuf m"] room wf_msg_bytes [OF w]
    by (simp add: put_avp_def enc_avp_length add.assoc)
  show t20: "take 20 (rbuf (put_avp m av)) = take 20 (rbuf m)"
    using u by (simp add: put_avp_def take_store_before)
  have v: "\<forall>a \<in> set (avps m @ [av]). valid_avp a" using wf_msg_valid [OF w] av by simp
  have a: "attrs ?m = offsets 20 (avps m @ [av])"
    using wf_msg_offsets [OF w] wf_msg_used [OF w] by (simp add: offsets_snoc)
  show wf: "wf_msg ?m"
    unfolding wf_msg_iff using v a t t20 u room n
    by (intro conjI exI [of _ "avps m @ [av]"]) (simp_all add: put_avp_def enc_avp_length length_avps)
  show "avps ?m = avps m @ [av]"
    by (rule wf_avps [OF wf a _ v]) (use t t20 in simp)
qed

definition grown :: "radius_msg \<Rightarrow> nat \<Rightarrow> radius_msg" where
  "grown m n = m\<lparr>rbuf := rbuf m @ replicate (n - length (rbuf m)) 0\<rparr>"

lemma avp_at_grow: "2 \<le> unat (buf ! Suc a) \<Longrightarrow> a + unat (buf ! Suc a) \<le> length buf \<Longrightarrow> avp_at (buf @ zs) a = avp_at buf a"
  by (simp add: avp_at_def nth_append)

lemma chain_grow: "chain buf p as e \<Longrightarrow> e \<le> length buf \<Longrightarrow> chain (buf @ zs) p as e"
  by (induction as arbitrary: p) (auto simp: nth_append)

lemma grown_wf:
  assumes "wf_msg m"
  shows "wf_msg (grown m n)" "avps (grown m n) = avps m" "take 20 (rbuf (grown m n)) = take 20 (rbuf m)"
    "buf_used (grown m n) = buf_used m" "attrs (grown m n) = attrs m" "attr_size (grown m n) = attr_size m"
proof -
  have u: "20 \<le> buf_used m" "buf_used m \<le> length (rbuf m)" "chain (rbuf m) 20 (attrs m) (buf_used m)"
    using assms by (simp_all add: wf_msg_def)
  have "avp_at (rbuf m @ zs) a = avp_at (rbuf m) a" if "a \<in> set (attrs m)" for a zs
    using chain_range [OF u(3) that] u by (intro avp_at_grow) auto
  then show "avps (grown m n) = avps m" by (simp add: avps_def grown_def)
  show "wf_msg (grown m n)"
    using assms u by (simp add: grown_def wf_msg_def chain_grow)
qed (use assms in \<open>simp_all add: grown_def wf_msg_def\<close>)

text \<open>The two outcomes of adding an attribute: out of memory, or the attribute at the end.\<close>

definition added :: "radius_msg \<Rightarrow> avp \<Rightarrow> radius_msg \<Rightarrow> bool" where
  "added m av m' \<longleftrightarrow> wf_msg m' \<and> avps m' = avps m @ [av] \<and> take 20 (rbuf m') = take 20 (rbuf m)"

lemma add_attr_finish:
  assumes w: "wf_msg m" and av: "valid_avp av" and room: "buf_used m + 2 + length (snd av) \<le> length (rbuf m)"
  shows "case Radius_msg_add_attr_to_array alloc (put_avp m av) (buf_used m) of
    None \<Rightarrow> alloc \<noteq> no_oom | Some m' \<Rightarrow> added m av m'"
proof -
  have "0 < attr_size (put_avp m av)" "length (attrs (put_avp m av)) \<le> attr_size (put_avp m av)"
    using w by (simp_all add: put_avp_def wf_msg_def)
  from add_to_array_wf [OF this, of alloc "buf_used m"] show ?thesis
  proof (cases "Radius_msg_add_attr_to_array alloc (put_avp m av) (buf_used m)")
    case (Some m')
    with \<open>case _ of None \<Rightarrow> _ | Some m' \<Rightarrow> _\<close> have
      m': "m' = (put_avp m av)\<lparr>attrs := attrs m @ [buf_used m], attr_size := attr_size m'\<rparr>"
      and n: "0 < attr_size m'" "length (attrs m') \<le> attr_size m'"
      by (simp_all add: put_avp_def)
    have "attrs m' = attrs m @ [buf_used m]" by (subst m') simp
    then have "Suc (length (attrs m)) \<le> attr_size m'" using n by simp
    from put_avp_wf [OF w av room n(1) this] have "added m av m'"
      unfolding m' [symmetric] added_def by (subst (2) m') simp
    then show ?thesis using Some by simp
  qed auto
qed

lemma add_attr_spec:
  assumes w: "wf_msg m" and len: "length data \<le> RADIUS_MAX_ATTR_LEN"
  shows "returns (Radius_msg_add_attr alloc m type data) (\<lambda>(r, m').
    (r = None \<and> alloc \<noteq> no_oom) \<or> (r = Some (buf_used m) \<and> added m (type, data) m'))"
proof -
  let ?av = "(type, data)"
  let ?P = "\<lambda>(r, m'). (r = None \<and> alloc \<noteq> no_oom) \<or> (r = Some (buf_used m) \<and> added m ?av m')"
  have v: "valid_avp ?av" using len by (simp add: valid_avp_def)
  have fin: "returns (case Radius_msg_add_attr_to_array alloc (put_avp m' ?av) (buf_used m') of
        None \<Rightarrow> ret (None, put_avp m' ?av) | Some msg \<Rightarrow> ret (Some (buf_used m'), msg)) ?P"
    if "wf_msg m'" "buf_used m' + 2 + length data \<le> length (rbuf m')" "buf_used m' = buf_used m"
       "avps m' = avps m" "take 20 (rbuf m') = take 20 (rbuf m)" for m'
    using add_attr_finish [of m' ?av alloc] that v
    by (cases "Radius_msg_add_attr_to_array alloc (put_avp m' ?av) (buf_used m')") (simp_all add: added_def)
  have pos: "0 < length (rbuf m)" using w by (auto simp: wf_msg_def)
  have put: "buf_used m' + (2 + length data) = buf_used m' + 2 + length (snd ?av)" for m' :: radius_msg
    by simp
  show ?thesis
  proof (cases "length (rbuf m) < buf_used m + 2 + length data")
    case True
    from grow_size_returns [OF pos, of "buf_used m + 2 + length data"] obtain k where
      k: "grow_size (length (rbuf m)) (buf_used m + 2 + length data) = ret k" "buf_used m + 2 + length data \<le> k"
      by (auto simp: returns_def)
    have len_g: "length (rbuf (grown m k)) = k" using True k by (simp add: grown_def)
    have "returns (case Radius_msg_add_attr_to_array alloc (put_avp (grown m k) ?av) (buf_used (grown m k)) of
        None \<Rightarrow> ret (None, put_avp (grown m k) ?av) | Some msg \<Rightarrow> ret (Some (buf_used (grown m k)), msg)) ?P"
      using grown_wf [OF w, of k] len_g k(2) by (intro fin) simp_all
    moreover have "Radius_msg_add_attr alloc m type data =
       (if \<not> alloc k then ret (None, m) else case Radius_msg_add_attr_to_array alloc (put_avp (grown m k) ?av) (buf_used (grown m k)) of
        None \<Rightarrow> ret (None, put_avp (grown m k) ?av) | Some msg \<Rightarrow> ret (Some (buf_used (grown m k)), msg))"
      unfolding Radius_msg_add_attr_def Let_def using True len k(1)
      by (simp add: put_avp_def enc_avp_def grown_def split: option.split)
    ultimately show ?thesis by auto
  next
    case False
    have "Radius_msg_add_attr alloc m type data =
       (case Radius_msg_add_attr_to_array alloc (put_avp m ?av) (buf_used m) of
        None \<Rightarrow> ret (None, put_avp m ?av) | Some msg \<Rightarrow> ret (Some (buf_used m), msg))"
      unfolding Radius_msg_add_attr_def Let_def using len False
      by (simp add: put_avp_def enc_avp_def split: option.split)
    then show ?thesis using fin [OF w] False by simp
  qed
qed

section \<open>Parsing what was built\<close>

lemma chain_snoc:
  "chain buf p as q \<Longrightarrow> 2 \<le> unat (buf ! Suc q) \<Longrightarrow> chain buf p (as @ [q]) (q + unat (buf ! Suc q))"
  by (induction as arbitrary: p) (auto dest: chain_le)

lemma parse_attrs_sound:
  "parse_attrs alloc m pos = Some m' \<Longrightarrow> chain (rbuf m) 20 (attrs m) pos \<Longrightarrow> pos \<le> buf_used m
   \<Longrightarrow> 0 < attr_size m \<Longrightarrow> length (attrs m) \<le> attr_size m
   \<Longrightarrow> rbuf m' = rbuf m \<and> buf_used m' = buf_used m \<and> chain (rbuf m) 20 (attrs m') (buf_used m)
      \<and> 0 < attr_size m' \<and> length (attrs m') \<le> attr_size m'"
proof (induction alloc m pos rule: parse_attrs.induct)
  case (1 alloc msg pos)
  show ?case
  proof (cases "pos < buf_used msg")
    case True
    with 1(2) have ok: "2 \<le> buf_used msg - pos" "pos + attr_length msg pos \<le> buf_used msg" "2 \<le> attr_length msg pos"
      by (auto simp: parse_attrs.simps [of alloc msg pos] split: if_splits)
    with True 1(2) obtain m1 where m1: "Radius_msg_add_attr_to_array alloc msg pos = Some m1"
        "parse_attrs alloc m1 (pos + attr_length msg pos) = Some m'"
      by (auto simp: parse_attrs.simps [of alloc msg pos] split: option.splits)
    from add_to_array_wf [OF 1(5,6), of alloc pos] m1(1)
    have s: "m1 = msg\<lparr>attrs := attrs msg @ [pos], attr_size := attr_size m1\<rparr>" "0 < attr_size m1"
        "length (attrs m1) \<le> attr_size m1"
      by simp_all
    have f: "rbuf m1 = rbuf msg" "buf_used m1 = buf_used msg" "attrs m1 = attrs msg @ [pos]"
      by (subst s, simp)+
    have "rbuf m' = rbuf m1 \<and> buf_used m' = buf_used m1 \<and> chain (rbuf m1) 20 (attrs m') (buf_used m1)
        \<and> 0 < attr_size m' \<and> length (attrs m') \<le> attr_size m'"
      using ok 1(3) m1(2) s(2,3)
      by (intro 1(1) [OF True _ _ m1(1)]) (auto simp: f attr_length_def intro!: chain_snoc)
    then show ?thesis by (simp add: f)
  next
    case False
    then have p: "pos = buf_used msg" using 1(4) by simp
    have "m' = msg" using 1(2) by (simp add: p parse_attrs.simps [of alloc msg "buf_used msg"])
    then show ?thesis using 1 by (simp add: p)
  qed
qed

lemma parse_attrs_complete:
  "chain (rbuf m) pos as (buf_used m) \<Longrightarrow>
   \<exists>m'. parse_attrs no_oom m pos = Some m' \<and> rbuf m' = rbuf m \<and> buf_used m' = buf_used m \<and> attrs m' = attrs m @ as"
proof (induction as arbitrary: m pos)
  case Nil
  then show ?case by (simp add: parse_attrs.simps)
next
  case (Cons a as)
  define n where "n = attr_length m pos"
  have n: "2 \<le> n" "pos + n \<le> buf_used m" "a = pos" "chain (rbuf m) (pos + n) as (buf_used m)"
    using Cons.prems by (simp_all add: n_def attr_length_def)
  have "\<exists>m1. Radius_msg_add_attr_to_array no_oom m pos = Some m1 \<and> rbuf m1 = rbuf m
      \<and> buf_used m1 = buf_used m \<and> attrs m1 = attrs m @ [pos]"
    by (simp add: Radius_msg_add_attr_to_array_def Let_def)
  then obtain m1 where m1: "Radius_msg_add_attr_to_array no_oom m pos = Some m1" "rbuf m1 = rbuf m"
      "buf_used m1 = buf_used m" "attrs m1 = attrs m @ [pos]"
    by blast
  have "\<exists>m'. parse_attrs no_oom m1 (pos + n) = Some m' \<and> rbuf m' = rbuf m1 \<and> buf_used m' = buf_used m1
      \<and> attrs m' = attrs m1 @ as"
    using n m1 by (intro Cons.IH) simp_all
  then show ?case
    using n m1 by (simp add: parse_attrs.simps [of no_oom m pos] n_def [symmetric])
qed

lemma parse_wf:
  assumes "Radius_msg_parse alloc data = Some m"
  shows "wf_msg m" "rbuf m = take (buf_used m) data" "buf_used m = length (rbuf m)"
    "buf_used m = unat (rd_be16 (slice 2 2 data))"
proof -
  define n where "n = unat (rd_be16 (slice 2 2 data))"
  from assms have n: "20 \<le> n" "n \<le> length data"
    by (auto simp: Radius_msg_parse_def Let_def n_def [symmetric] split: if_splits)
  from assms obtain m0 where m0: "Radius_msg_initialize alloc n = Some m0"
      "parse_attrs alloc (m0\<lparr>rbuf := take n data, buf_used := n\<rparr>) 20 = Some m"
    by (auto simp: Radius_msg_parse_def Let_def n_def [symmetric] split: if_splits option.splits)
  have f: "attrs m0 = []" "attr_size m0 = 16"
    using m0(1) by (auto simp: Radius_msg_initialize_def RADIUS_DEFAULT_ATTR_COUNT_def split: if_splits)
  have "rbuf m = take n data \<and> buf_used m = n \<and> chain (take n data) 20 (attrs m) n
      \<and> 0 < attr_size m \<and> length (attrs m) \<le> attr_size m"
    using parse_attrs_sound [OF m0(2)] n f by simp
  then show "wf_msg m" "rbuf m = take (buf_used m) data" "buf_used m = length (rbuf m)"
    "buf_used m = unat (rd_be16 (slice 2 2 data))"
    using n by (simp_all add: wf_msg_def n_def)
qed

lemma chain_take: "chain buf p as e \<Longrightarrow> chain (take e buf) p as e"
  by (induction as arbitrary: p) auto

lemma avp_at_take: "2 \<le> unat (buf ! Suc a) \<Longrightarrow> a + unat (buf ! Suc a) \<le> e \<Longrightarrow> avp_at (take e buf) a = avp_at buf a"
  by (simp add: avp_at_def)

lemma avps_take:
  assumes "chain buf p as e"
  shows "map (avp_at (take e buf)) as = map (avp_at buf) as"
proof (rule map_cong [OF refl])
  fix a assume "a \<in> set as"
  from chain_range [OF assms this] show "avp_at (take e buf) a = avp_at buf a"
    by (intro avp_at_take) auto
qed

lemma parse_complete:
  assumes w: "wf_msg m" and len: "rd_be16 (slice 2 2 (rbuf m)) = of_nat (buf_used m)" "buf_used m < 2 ^ 16"
  shows "\<exists>m'. Radius_msg_parse no_oom (take (buf_used m) (rbuf m) @ extra) = Some m'
    \<and> wf_msg m' \<and> avps m' = avps m \<and> rbuf m' = take (buf_used m) (rbuf m)"
proof -
  let ?d = "take (buf_used m) (rbuf m)"
  have u: "20 \<le> buf_used m" "buf_used m \<le> length (rbuf m)" "chain (rbuf m) 20 (attrs m) (buf_used m)"
    using w by (simp_all add: wf_msg_def)
  have "slice 2 2 (?d @ extra) = slice 2 2 (rbuf m)" using u by simp
  then have n: "unat (rd_be16 (slice 2 2 (?d @ extra))) = buf_used m"
    using len by (simp add: unat_of_nat)
  obtain m0 where m0: "Radius_msg_initialize no_oom (buf_used m) = Some m0" "attrs m0 = []"
    using u by (auto simp: Radius_msg_initialize_def)
  obtain m' where m': "parse_attrs no_oom (m0\<lparr>rbuf := ?d, buf_used := buf_used m\<rparr>) 20 = Some m'"
      "rbuf m' = ?d" "attrs m' = attrs m"
    using parse_attrs_complete [of "m0\<lparr>rbuf := ?d, buf_used := buf_used m\<rparr>" 20 "attrs m"] chain_take [OF u(3)] m0
    by auto
  have p: "Radius_msg_parse no_oom (?d @ extra) = Some m'"
    unfolding Radius_msg_parse_def Let_def n using u m0 m'(1) by simp
  moreover have "avps m' = avps m"
    using m' avps_take [OF u(3)] by (simp add: avps_def)
  ultimately show ?thesis using parse_wf(1) [OF p] m' by blast
qed

section \<open>Editing a message in place\<close>

lemma store_mid: "length pre = off \<Longrightarrow> length ds = length mid \<Longrightarrow> store off ds (pre @ mid @ post) = pre @ ds @ post"
  by (simp add: store_def)

lemma store_front: "off + length ds \<le> length h \<Longrightarrow> store off ds (h @ t) = store off ds h @ t"
  by (simp add: store_def)

lemma slice_mid: "length pre = off \<Longrightarrow> length mid = n \<Longrightarrow> slice off n (pre @ mid @ post) = mid"
  by (simp add: slice_def)

lemma offsets_append: "offsets p (xs @ ys) = offsets p xs @ offsets (p + length (enc_avps xs)) ys"
  by (induction xs arbitrary: p) (auto simp: enc_avp_length add.assoc)

text \<open>A well-formed message, laid out: the four bytes before the authenticator, the
  authenticator, the attributes, the unused rest.\<close>

lemma wf_layout:
  assumes "wf_msg m"
  shows "rbuf m = slice 0 4 (rbuf m) @ msg_authenticator m @ enc_avps (avps m) @ drop (buf_used m) (rbuf m)"
    and "length (slice 0 4 (rbuf m)) = 4" "length (msg_authenticator m) = 16"
proof -
  have u: "20 \<le> buf_used m" "buf_used m \<le> length (rbuf m)" using assms by (simp_all add: wf_msg_def)
  have "rbuf m = take 20 (rbuf m) @ enc_avps (avps m) @ drop (buf_used m) (rbuf m)"
    using wf_msg_bytes [OF assms] append_take_drop_id [of "buf_used m" "rbuf m"] by (metis append.assoc)
  moreover have "take 20 (rbuf m) = slice 0 4 (rbuf m) @ msg_authenticator m"
    using slice_split [of 4 20 0 "rbuf m"] by (simp add: msg_authenticator_def slice_def)
  ultimately show "rbuf m = slice 0 4 (rbuf m) @ msg_authenticator m @ enc_avps (avps m) @ drop (buf_used m) (rbuf m)"
    by simp
  show "length (slice 0 4 (rbuf m)) = 4" "length (msg_authenticator m) = 16"
    using u by (simp_all add: msg_authenticator_def)
qed

lemma wf_msg_of_layout:
  assumes "rbuf m = h @ enc_avps avs @ rest" "length h = 20" "buf_used m = 20 + length (enc_avps avs)"
    "attrs m = offsets 20 avs" "\<forall>av \<in> set avs. valid_avp av" "0 < attr_size m" "length (attrs m) \<le> attr_size m"
  shows "wf_msg m" "avps m = avs"
proof -
  have t: "take (buf_used m) (rbuf m) = take 20 (rbuf m) @ enc_avps avs" using assms(1-3) by simp
  show w: "wf_msg m"
    unfolding wf_msg_iff using assms t by (intro conjI exI [of _ avs]) auto
  show "avps m = avs" by (rule wf_avps [OF w assms(4) t assms(5)])
qed

lemma header_edit:
  assumes w: "wf_msg m" and ds: "off + length ds \<le> 20"
  shows "wf_msg (m\<lparr>rbuf := store off ds (rbuf m)\<rparr>)" "avps (m\<lparr>rbuf := store off ds (rbuf m)\<rparr>) = avps m"
proof -
  let ?h = "slice 0 4 (rbuf m) @ msg_authenticator m" and ?r = "drop (buf_used m) (rbuf m)"
  have "rbuf m = ?h @ enc_avps (avps m) @ ?r" using wf_layout(1) [OF w] by simp
  moreover have h: "length ?h = 20" using wf_layout(2,3) [OF w] by simp
  moreover have "store off ds (?h @ enc_avps (avps m) @ ?r) = store off ds ?h @ enc_avps (avps m) @ ?r"
    using ds h by (intro store_front) simp
  ultimately have "store off ds (rbuf m) = store off ds ?h @ enc_avps (avps m) @ ?r" by simp
  then show "wf_msg (m\<lparr>rbuf := store off ds (rbuf m)\<rparr>)" "avps (m\<lparr>rbuf := store off ds (rbuf m)\<rparr>) = avps m"
    using wf_msg_of_layout [of "m\<lparr>rbuf := store off ds (rbuf m)\<rparr>" "store off ds ?h" "avps m" ?r] w ds h
      wf_msg_offsets [OF w] wf_msg_used [OF w] wf_msg_valid [OF w]
    by (simp_all add: wf_msg_def)
qed

section \<open>Verification\<close>

lemma md5_pieces_spec: "\<forall>d \<in> set ds. length d < 2 ^ 32 - 64 \<Longrightarrow> md5_pieces ds = md5_spec (concat ds)"
  by (simp add: md5_pieces_def md5.digest_chunks)

lemma length_md5_pieces [simp]: "length (md5_pieces ds) = 16"
  by (simp add: md5_pieces_def MD5Final_def Let_def)

lemma length_hmac_md5 [simp]: "length (hmac_md5 k d) = 16"
  by (simp add: hmac_md5_def Let_def MD5Final_def split: prod.split)

lemma attr_types: "map (attr_type m) (attrs m) = map fst (avps m)"
  by (simp add: avps_def attr_type_def avp_at_def)

lemma find_ma_none:
  "RADIUS_ATTR_MESSAGE_AUTHENTICATOR \<notin> set (map (attr_type m) as) \<Longrightarrow>
   find_message_authenticator m (as @ bs) r = find_message_authenticator m bs r"
  by (induction as) auto

lemma find_ma_some:
  "find_message_authenticator m as (Some x) =
     (if RADIUS_ATTR_MESSAGE_AUTHENTICATOR \<in> set (map (attr_type m) as) then None else Some (Some x))"
  by (induction as) auto

lemma find_ma_missing:
  "RADIUS_ATTR_MESSAGE_AUTHENTICATOR \<notin> set (map (attr_type m) as) \<Longrightarrow> find_message_authenticator m as None = Some None"
  using find_ma_none [of m as "[]"] by simp

lemma find_ma_several:
  "2 \<le> length (filter (\<lambda>t. t = RADIUS_ATTR_MESSAGE_AUTHENTICATOR) (map (attr_type m) as)) \<Longrightarrow>
   find_message_authenticator m as None = None"
proof (induction as)
  case (Cons a as)
  show ?case
  proof (cases "attr_type m a = RADIUS_ATTR_MESSAGE_AUTHENTICATOR")
    case True
    then have "filter (\<lambda>t. t = RADIUS_ATTR_MESSAGE_AUTHENTICATOR) (map (attr_type m) as) \<noteq> []"
      using Cons.prems by (cases "filter (\<lambda>t. t = RADIUS_ATTR_MESSAGE_AUTHENTICATOR) (map (attr_type m) as)") simp_all
    then have "RADIUS_ATTR_MESSAGE_AUTHENTICATOR \<in> set (map (attr_type m) as)"
      by (simp only: filter_empty_conv) blast
    then show ?thesis using True by (simp only: find_message_authenticator.simps find_ma_some if_True) simp
  qed (use Cons in simp)
qed simp

text \<open>The only Message-Authenticator lies behind the attributes before it.\<close>

lemma find_ma_unique:
  assumes w: "wf_msg m" and a: "avps m = pre @ (RADIUS_ATTR_MESSAGE_AUTHENTICATOR, mac) # post"
    and u: "RADIUS_ATTR_MESSAGE_AUTHENTICATOR \<notin> fst ` set (pre @ post)"
  shows "find_message_authenticator m (attrs m) None = Some (Some (20 + length (enc_avps pre)))"
proof -
  let ?q = "20 + length (enc_avps pre)"
  have o: "attrs m = offsets 20 pre @ ?q # offsets (?q + 2 + length mac) post"
    using wf_msg_offsets [OF w] by (simp add: a offsets_append)
  have "map (attr_type m) (attrs m) = map fst (pre @ (RADIUS_ATTR_MESSAGE_AUTHENTICATOR, mac) # post)"
    by (simp add: attr_types a)
  then have "map (attr_type m) (offsets 20 pre) = map fst pre \<and> attr_type m ?q = RADIUS_ATTR_MESSAGE_AUTHENTICATOR
      \<and> map (attr_type m) (offsets (?q + 2 + length mac) post) = map fst post"
    by (simp add: o append_eq_append_conv)
  moreover have "RADIUS_ATTR_MESSAGE_AUTHENTICATOR \<notin> set (map fst pre)" "RADIUS_ATTR_MESSAGE_AUTHENTICATOR \<notin> set (map fst post)"
    using u by auto
  ultimately show ?thesis
    unfolding o by (subst find_ma_none) (simp_all only: find_message_authenticator.simps find_ma_some if_True if_False simp_thms option.simps)
qed

lemma verify_layout:
  assumes w: "wf_msg m" and s: "20 \<le> length (rbuf sent)"
    and a: "avps m = pre @ (RADIUS_ATTR_MESSAGE_AUTHENTICATOR, mac) # post"
    and u: "RADIUS_ATTR_MESSAGE_AUTHENTICATOR \<notin> fst ` set (pre @ post)" and mac: "length mac = 16"
  shows "Radius_msg_verify m secret (Some sent) = ret
    (if mac = hmac_md5 secret (slice 0 4 (rbuf m) @ msg_authenticator sent
                @ enc_avps (pre @ (RADIUS_ATTR_MESSAGE_AUTHENTICATOR, replicate 16 0) # post))
        \<and> md5_pieces [slice 0 4 (rbuf m), msg_authenticator sent, enc_avps (avps m), secret] = msg_authenticator m
     then 0 else 1, m)"
proof -
  define q where "q = 20 + length (enc_avps pre)"
  define h where "h = slice 0 4 (rbuf m)"
  define A where "A = msg_authenticator m"
  define R where "R = drop (buf_used m) (rbuf m)"
  let ?t = "RADIUS_ATTR_MESSAGE_AUTHENTICATOR"
  let ?l = "length_octet 16"
  have lay: "rbuf m = (h @ A @ enc_avps pre @ [?t, ?l]) @ mac @ (enc_avps post @ R)"
    using wf_layout(1) [OF w] by (simp add: h_def A_def R_def a enc_avp_def mac)
  have l: "length h = 4" "length A = 16" using wf_layout(2,3) [OF w] by (simp_all add: h_def A_def)
  let ?pre = "h @ A @ enc_avps pre @ [?t, ?l]"
  have lp: "length ?pre = q + 2" using l by (simp add: q_def)
  have S: "length (msg_authenticator sent) = 16" using s by (simp add: msg_authenticator_def)
  have fits: "q + 2 + 16 \<le> length (rbuf m)" by (simp add: lay l q_def mac)
  have rd: "mem_read (q + 2) 16 (rbuf m) = ret mac"
    using fits slice_mid [OF lp mac, of "enc_avps post @ R"] by (simp only: mem_read_ret lay)
  let ?Z = "replicate 16 (0 :: byte)"
  have wr: "mem_write (q + 2) ?Z (rbuf m) = ret (?pre @ ?Z @ enc_avps post @ R)"
    using fits store_mid [OF lp, of ?Z mac "enc_avps post @ R"] mac
    by (simp only: mem_write_ret lay length_replicate)
  have b1: "store 4 (msg_authenticator sent) (?pre @ ?Z @ enc_avps post @ R)
      = h @ msg_authenticator sent @ (enc_avps pre @ [?t, ?l] @ ?Z @ enc_avps post @ R)"
    using store_mid [of h 4 "msg_authenticator sent" A "enc_avps pre @ [?t, ?l] @ ?Z @ enc_avps post @ R"] l S by simp
  have used: "buf_used m = 4 + 16 + length (enc_avps pre) + 2 + 16 + length (enc_avps post)"
    using wf_msg_used [OF w] by (simp add: a enc_avp_def mac)
  have tk: "take (buf_used m) (h @ msg_authenticator sent @ (enc_avps pre @ [?t, ?l] @ ?Z @ enc_avps post @ R))
      = h @ msg_authenticator sent @ enc_avps (pre @ (?t, ?Z) # post)"
    using l S by (simp add: used enc_avp_def numeral_eq_Suc)
  have sl: "slice 4 16 (?pre @ ?Z @ enc_avps post @ R) = A"
    using slice_mid [of h 4 A 16 "enc_avps pre @ [?t, ?l] @ ?Z @ enc_avps post @ R"] l by simp
  have b2: "store (q + 2) mac (h @ msg_authenticator sent @ (enc_avps pre @ [?t, ?l] @ ?Z @ enc_avps post @ R))
      = h @ msg_authenticator sent @ (enc_avps pre @ [?t, ?l] @ mac @ enc_avps post @ R)"
    using store_mid [of "h @ msg_authenticator sent @ enc_avps pre @ [?t, ?l]" "q + 2" mac ?Z "enc_avps post @ R"] l S mac
    by (simp add: q_def)
  have b3: "store 4 A (h @ msg_authenticator sent @ (enc_avps pre @ [?t, ?l] @ mac @ enc_avps post @ R)) = rbuf m"
    using store_mid [of h 4 A "msg_authenticator sent" "enc_avps pre @ [?t, ?l] @ mac @ enc_avps post @ R"] l S
    by (simp add: lay)
  have same: "m\<lparr>rbuf := rbuf m\<rparr> = m" by simp
  have at: "slice 20 (buf_used m - 20) (rbuf m) = enc_avps (avps m)"
    using chain_bytes [of "rbuf m" 20 "attrs m" "buf_used m"] w by (simp add: wf_msg_def avps_def)
  have ra: "response_authenticator m sent secret = md5_pieces [h, msg_authenticator sent, enc_avps (avps m), secret]"
    by (simp add: response_authenticator_def at h_def)
  show ?thesis
    unfolding Radius_msg_verify_def option.case find_ma_unique [OF w a u] q_def [symmetric] rd wr run_bind_ret Let_def
      sl b1 tk b2 b3 same ra A_def [symmetric] h_def [symmetric]
    by (simp split: if_split)
qed

section \<open>EAP fragments\<close>

function chunks :: "nat \<Rightarrow> 'a list \<Rightarrow> 'a list list" where
  "chunks n xs = (if xs = [] \<or> n = 0 then [] else take n xs # chunks n (drop n xs))"
  by pat_completeness auto
termination
  by (relation "measure (\<lambda>(n, xs). length xs)") auto

declare chunks.simps [simp del]

lemma chunks_Nil [simp]: "chunks n [] = []"
  by (simp add: chunks.simps)

lemma concat_chunks: "0 < n \<Longrightarrow> concat (chunks n xs) = xs"
  by (induction n xs rule: chunks.induct) (subst chunks.simps, simp)

definition eap_of :: "avp list \<Rightarrow> byte list" where
  "eap_of avs = concat (map snd (filter (\<lambda>av. fst av = RADIUS_ATTR_EAP_MESSAGE) avs))"

lemma eap_of_append [simp]: "eap_of (xs @ ys) = eap_of xs @ eap_of ys"
  by (simp add: eap_of_def)

lemma eap_of_fragments: "0 < n \<Longrightarrow> eap_of (map (Pair RADIUS_ATTR_EAP_MESSAGE) (chunks n xs)) = xs"
  by (simp add: eap_of_def filter_map o_def concat_chunks)

definition eap_fragments :: "byte list \<Rightarrow> avp list" where
  "eap_fragments data = map (Pair RADIUS_ATTR_EAP_MESSAGE) (chunks RADIUS_MAX_ATTR_LEN data)"

lemma max_attr_pos [simp]: "0 < RADIUS_MAX_ATTR_LEN"
  by (simp add: RADIUS_MAX_ATTR_LEN_def)

lemma eap_fragments_step:
  "data \<noteq> [] \<Longrightarrow> eap_fragments data
   = (RADIUS_ATTR_EAP_MESSAGE, take RADIUS_MAX_ATTR_LEN data) # eap_fragments (drop RADIUS_MAX_ATTR_LEN data)"
  unfolding eap_fragments_def by (subst chunks.simps) (simp add: RADIUS_MAX_ATTR_LEN_def)

lemma add_eap_spec:
  "wf_msg m \<Longrightarrow> returns (Radius_msg_add_eap no_oom m data) (\<lambda>(ok, m').
     ok \<and> wf_msg m' \<and> avps m' = avps m @ eap_fragments data \<and> take 20 (rbuf m') = take 20 (rbuf m))"
proof (induction data arbitrary: m rule: length_induct)
  case (1 data)
  show ?case
  proof (cases "data = []")
    case True
    then show ?thesis using 1 by (simp add: Radius_msg_add_eap.simps eap_fragments_def)
  next
    case False
    define len where "len = (if length data > RADIUS_MAX_ATTR_LEN then RADIUS_MAX_ATTR_LEN else length data)"
    have tk: "take len data = take RADIUS_MAX_ATTR_LEN data" "drop len data = drop RADIUS_MAX_ATTR_LEN data"
      by (simp_all add: len_def)
    have "length (take len data) \<le> RADIUS_MAX_ATTR_LEN" by (simp add: len_def)
    from add_attr_spec [OF 1(2) this, of no_oom RADIUS_ATTR_EAP_MESSAGE] obtain m1 where
      m1: "Radius_msg_add_attr no_oom m RADIUS_ATTR_EAP_MESSAGE (take len data) = ret (Some (buf_used m), m1)"
      and a: "added m (RADIUS_ATTR_EAP_MESSAGE, take len data) m1"
      by (auto simp: returns_def)
    have "length (drop len data) < length data"
      using False by (simp add: tk)
    then have "returns (Radius_msg_add_eap no_oom m1 (drop len data)) (\<lambda>(ok, m').
       ok \<and> wf_msg m' \<and> avps m' = avps m1 @ eap_fragments (drop len data) \<and> take 20 (rbuf m') = take 20 (rbuf m1))"
      using 1(1) [rule_format, of "drop len data" m1] a by (simp only: added_def)
    moreover have "Radius_msg_add_eap no_oom m data = Radius_msg_add_eap no_oom m1 (drop len data)"
      using False m1 by (subst Radius_msg_add_eap.simps) (simp add: Let_def len_def [symmetric])
    ultimately show ?thesis
      using a eap_fragments_step [OF False] by (simp add: added_def tk)
  qed
qed

lemma avp_values:
  assumes "wf_attrs m" "a \<in> set (attrs m)"
  shows "attr_value m a = snd (avp_at (rbuf m) a)" "length (snd (avp_at (rbuf m) a)) = attr_length m a - 2"
  using assms by (auto simp: wf_attrs_def attr_value_def attr_length_def avp_at_def)

lemma get_eap_spec:
  assumes w: "wf_msg m"
  shows "Radius_msg_get_eap no_oom m = (if eap_of (avps m) = [] then None else Some (eap_of (avps m)))"
proof -
  let ?f = "filter (\<lambda>a. attr_type m a = RADIUS_ATTR_EAP_MESSAGE) (attrs m)"
  have v: "map (attr_value m) ?f = map (snd \<circ> avp_at (rbuf m)) ?f"
    using avp_values(1) [OF wf_msg_attrs [OF w]] by auto
  have e: "eap_of (avps m) = concat (map (snd \<circ> avp_at (rbuf m)) ?f)"
    by (simp add: eap_of_def avps_def filter_map o_def attr_type_def avp_at_def)
  have "map (\<lambda>a. attr_length m a - 2) ?f = map (\<lambda>a. length (snd (avp_at (rbuf m) a))) ?f"
    using avp_values(2) [OF wf_msg_attrs [OF w]] by auto
  then have "sum_list (map (\<lambda>a. attr_length m a - 2) ?f) = sum_list (map (\<lambda>a. length (snd (avp_at (rbuf m) a))) ?f)"
    by (rule arg_cong)
  then have "sum_list (map (\<lambda>a. attr_length m a - 2) ?f) = length (eap_of (avps m))"
    by (simp add: e length_concat o_def)
  then show ?thesis
    unfolding Radius_msg_get_eap_def Let_def v e [symmetric] by (simp add: e)
qed

section \<open>The encrypted attributes\<close>

lemma length_xor_block [simp]: "length (xor_block a b) = min (length a) (length b)"
  by (simp add: xor_block_def)

lemma xor_block_twice: "length a \<le> length b \<Longrightarrow> xor_block (xor_block a b) b = a"
  by (rule nth_equalityI) (auto simp: xor_block_def xor.assoc)

text \<open>RFC 2548: the cipher text of the key field under the pads the code computes.\<close>

function mppe_encrypt :: "byte list \<Rightarrow> byte list list \<Rightarrow> byte list \<Rightarrow> byte list" where
  "mppe_encrypt secret feed pos =
     (if pos = [] then []
      else let c = xor_block (take 16 pos) (md5_pieces (secret # feed))
           in c @ mppe_encrypt secret [c] (drop 16 pos))"
  by pat_completeness auto
termination
  by (relation "measure (\<lambda>(s, f, p). length p)") auto

declare mppe_encrypt.simps [simp del]

lemma length_mppe_encrypt [simp]: "length (mppe_encrypt s f p) = length p"
  by (induction s f p rule: mppe_encrypt.induct) (subst mppe_encrypt.simps, simp add: Let_def min_def)

lemma mppe_round_trip: "16 dvd length p \<Longrightarrow> mppe_blocks s f (mppe_encrypt s f p) = p"
proof (induction s f p rule: mppe_encrypt.induct)
  case (1 s f p)
  show ?case
  proof (cases "p = []")
    case True
    then show ?thesis by (simp add: mppe_encrypt.simps mppe_blocks.simps)
  next
    case False
    with 1(2) have l: "16 \<le> length p" by (simp add: dvd_imp_le)
    define c where "c = xor_block (take 16 p) (md5_pieces (s # f))"
    have c: "length c = 16" using l by (simp add: c_def)
    have "xor_block c (md5_pieces (s # f)) = take 16 p"
      unfolding c_def by (rule xor_block_twice) simp
    moreover have "mppe_blocks s [c] (mppe_encrypt s [c] (drop 16 p)) = drop 16 p"
      using 1 False l by (simp add: c_def dvd_diff_nat)
    moreover have "mppe_encrypt s f p = c @ mppe_encrypt s [c] (drop 16 p)"
      using False by (subst mppe_encrypt.simps) (simp add: Let_def c_def)
    moreover have "c \<noteq> []" using c by auto
    ultimately show ?thesis
      using c by (subst mppe_blocks.simps) (simp add: Let_def)
  qed
qed

text \<open>RFC 2865, 5.2: the password is recovered block by block.\<close>

function password_decrypt :: "byte list \<Rightarrow> byte list \<Rightarrow> byte list \<Rightarrow> byte list" where
  "password_decrypt secret feed buf =
     (if buf = [] then []
      else xor_block (take 16 buf) (md5_pieces [secret, feed]) @ password_decrypt secret (take 16 buf) (drop 16 buf))"
  by pat_completeness auto
termination
  by (relation "measure (\<lambda>(s, f, p). length p)") auto

declare password_decrypt.simps [simp del]

lemma password_as_mppe: "password_blocks s f p = mppe_encrypt s [f] p"
  by (induction s f p rule: password_blocks.induct)
     (subst password_blocks.simps, subst mppe_encrypt.simps, simp add: Let_def)

lemma decrypt_as_mppe: "password_decrypt s f p = mppe_blocks s [f] p"
  by (induction s f p rule: password_decrypt.induct)
     (subst password_decrypt.simps, subst mppe_blocks.simps, simp add: Let_def)

lemma password_round_trip: "16 dvd length p \<Longrightarrow> password_decrypt s f (password_blocks s f p) = p"
  by (simp add: password_as_mppe decrypt_as_mppe mppe_round_trip)

section \<open>The scan for vendor attributes\<close>

text \<open>The vendor attributes have the layout of attributes; the scan finds the first of a type.\<close>

definition first_value :: "byte \<Rightarrow> avp list \<Rightarrow> byte list option" where
  "first_value ty vs = map_option snd (find (\<lambda>v. fst v = ty) vs)"

lemma nat_vendor_len: "2 \<le> n \<Longrightarrow> n < 256 \<Longrightarrow> nat ((int n - 2) mod 2 ^ 32) = n - 2"
  by (simp add: mod_pos_pos_trivial nat_diff_distrib)

lemma ms_scan_finds:
  assumes "\<forall>v \<in> set vs. valid_avp v"
  shows "ms_scan no_oom (pre @ enc_avps vs @ post) ty (length pre) (length (enc_avps vs))
    = ret (map_option Some (first_value ty vs))"
  using assms
proof (induction vs arbitrary: pre)
  case Nil
  then show ?case by (simp add: ms_scan.simps first_value_def)
next
  case (Cons v vs)
  let ?buf = "pre @ enc_avp v @ enc_avps vs @ post"
  have v: "valid_avp v" using Cons.prems by simp
  have ty: "?buf ! length pre = fst v" by (simp add: enc_avp_def nth_append)
  have len: "unat (?buf ! Suc (length pre)) = 2 + length (snd v)" by (rule length_at_append [OF refl v])
  have n: "2 + length (snd v) < 256" using v by (simp add: valid_avp_def RADIUS_MAX_ATTR_LEN_def)
  have vl: "nat ((int (2 + length (snd v)) - 2) mod 2 ^ 32) = length (snd v)"
    using nat_vendor_len [of "2 + length (snd v)"] n by simp
  have sl: "slice (length pre + 2) (length (snd v)) ?buf = snd v"
    by (simp add: enc_avp_def slice_def)
  have tail: "ms_scan no_oom ?buf ty (length pre + (2 + length (snd v))) (length (enc_avps vs))
      = ret (map_option Some (first_value ty vs))"
    using Cons.IH [of "pre @ enc_avp v"] Cons.prems by (simp add: enc_avp_length)
  have fit: "length pre + 2 + length (snd v) \<le> length ?buf" by (simp add: enc_avp_length)
  show ?case
  proof (cases "fst v = ty")
    case True
    then have "ms_scan no_oom ?buf ty (length pre) (2 + length (snd v) + length (enc_avps vs)) = ret (Some (Some (snd v)))"
      using fit by (subst ms_scan.simps) (simp only: ty len vl mem_read_ret sl, simp)
    then show ?thesis using True by (simp add: enc_avp_length first_value_def)
  next
    case False
    then have "ms_scan no_oom ?buf ty (length pre) (2 + length (snd v) + length (enc_avps vs))
        = ret (map_option Some (first_value ty vs))"
      using tail by (subst ms_scan.simps) (simp only: ty len, simp)
    then show ?thesis using False by (simp add: enc_avp_length first_value_def)
  qed
qed

text \<open>An entry of length zero and of another type stops the scan from ever advancing.\<close>

lemma ms_scan_advances:
  assumes "ms_scan alloc buf ty pos left = Some r"
  shows "\<not> (2 \<le> left \<and> buf ! Suc pos = 0 \<and> buf ! pos \<noteq> ty)"
proof (induction alloc buf ty pos left r rule: ms_scan.raw_induct)
  case (1 scan alloc buf ty pos left r)
  then show ?case by (auto split: if_splits)
qed (rule assms)

lemma ms_scan_hangs:
  assumes "2 \<le> left" "buf ! Suc pos = 0" "buf ! pos \<noteq> ty"
  shows "ms_scan alloc buf ty pos left = None"
  using ms_scan_advances assms by (cases "ms_scan alloc buf ty pos left") auto

section \<open>Finishing a message\<close>

lemma set_length_spec:
  assumes w: "wf_msg m"
  shows "wf_msg (set_length_field m)" "avps (set_length_field m) = avps m" "buf_used (set_length_field m) = buf_used m"
    "slice 0 2 (rbuf (set_length_field m)) = slice 0 2 (rbuf m)"
    "slice 2 2 (rbuf (set_length_field m)) = be16 (of_nat (buf_used m))"
    "msg_authenticator (set_length_field m) = msg_authenticator m"
proof -
  have "20 \<le> length (rbuf m)" using w by (auto simp: wf_msg_def)
  then show "slice 0 2 (rbuf (set_length_field m)) = slice 0 2 (rbuf m)"
    "slice 2 2 (rbuf (set_length_field m)) = be16 (of_nat (buf_used m))"
    "msg_authenticator (set_length_field m) = msg_authenticator m"
    using slice_store_same [of 2 "be16 (of_nat (buf_used m))" "rbuf m"]
    by (simp_all add: set_length_field_def msg_authenticator_def)
qed (use header_edit [OF w, of 2 "be16 (of_nat (buf_used m))"] in \<open>simp_all add: set_length_field_def\<close>)

lemma slice_take20: "take 20 b = take 20 c \<Longrightarrow> off + n \<le> 20 \<Longrightarrow> slice off n b = slice off n c"
  by (metis slice_take)

lemma replace_last:
  assumes w: "wf_msg m" and a: "avps m = avs @ [(t, v)]" and v': "length v' = length v"
  shows "wf_msg (m\<lparr>rbuf := store (20 + length (enc_avps avs) + 2) v' (rbuf m)\<rparr>)"
    "avps (m\<lparr>rbuf := store (20 + length (enc_avps avs) + 2) v' (rbuf m)\<rparr>) = avs @ [(t, v')]"
    "take 20 (store (20 + length (enc_avps avs) + 2) v' (rbuf m)) = take 20 (rbuf m)"
proof -
  let ?h = "slice 0 4 (rbuf m) @ msg_authenticator m" and ?R = "drop (buf_used m) (rbuf m)"
  let ?pre = "?h @ enc_avps avs @ [t, length_octet (length v)]"
  let ?m = "m\<lparr>rbuf := store (20 + length (enc_avps avs) + 2) v' (rbuf m)\<rparr>"
  have h: "length ?h = 20" using wf_layout(2,3) [OF w] by simp
  have lay: "rbuf m = ?pre @ v @ ?R"
    using wf_layout(1) [OF w] by (simp add: a enc_avp_def)
  have lp: "length ?pre = 20 + length (enc_avps avs) + 2" using h by simp
  have "store (20 + length (enc_avps avs) + 2) v' (?pre @ v @ ?R) = ?pre @ v' @ ?R"
    by (rule store_mid [OF lp v'])
  then have st: "store (20 + length (enc_avps avs) + 2) v' (rbuf m) = ?h @ enc_avps (avs @ [(t, v')]) @ ?R"
    using lay v' by (simp add: enc_avp_def)
  have o: "attrs m = offsets 20 (avs @ [(t, v')])"
    using wf_msg_offsets [OF w] by (simp add: a offsets_snoc)
  have vl: "\<forall>av \<in> set (avs @ [(t, v')]). valid_avp av"
    using wf_msg_valid [OF w] v' by (auto simp: a valid_avp_def)
  have used: "buf_used m = 20 + length (enc_avps (avs @ [(t, v')]))"
    using wf_msg_used [OF w] v' by (simp add: a enc_avp_def)
  show "wf_msg ?m" "avps ?m = avs @ [(t, v')]"
    using wf_msg_of_layout [of ?m ?h "avs @ [(t, v')]" ?R] st h o vl used w by (simp_all add: wf_msg_def)
  show "take 20 (store (20 + length (enc_avps avs) + 2) v' (rbuf m)) = take 20 (rbuf m)"
    unfolding st using h lay by (metis append_eq_conv_conj append.assoc)
qed

lemma finish_spec:
  assumes w: "wf_msg m"
  shows "\<exists>m1. Radius_msg_finish no_oom m (Some key) = ret m1 \<and> wf_msg m1
    \<and> slice 0 2 (rbuf m1) = slice 0 2 (rbuf m) \<and> msg_authenticator m1 = msg_authenticator m
    \<and> slice 2 2 (rbuf m1) = be16 (of_nat (buf_used m1))
    \<and> avps m1 = avps m @ [(RADIUS_ATTR_MESSAGE_AUTHENTICATOR,
         hmac_md5 key (slice 0 4 (rbuf m1) @ msg_authenticator m
           @ enc_avps (avps m @ [(RADIUS_ATTR_MESSAGE_AUTHENTICATOR, replicate 16 0)])))]"
proof -
  let ?t = RADIUS_ATTR_MESSAGE_AUTHENTICATOR and ?Z = "replicate 16 (0 :: byte)"
  obtain m' where add: "Radius_msg_add_attr no_oom m ?t ?Z = ret (Some (buf_used m), m')" and
    m': "added m (?t, ?Z) m'"
    using add_attr_spec [OF w, of ?Z no_oom ?t] by (auto simp: returns_def RADIUS_MAX_ATTR_LEN_def)
  define n where "n = set_length_field m'"
  have n: "wf_msg n" "avps n = avps m @ [(?t, ?Z)]" "buf_used n = buf_used m'" "slice 0 2 (rbuf n) = slice 0 2 (rbuf m')"
    "slice 2 2 (rbuf n) = be16 (of_nat (buf_used m'))" "msg_authenticator n = msg_authenticator m'"
    using set_length_spec [of m'] m' by (simp_all add: n_def added_def)
  define mac where "mac = hmac_md5 key (take (buf_used n) (rbuf n))"
  define m1 where "m1 = n\<lparr>rbuf := store (buf_used m + 2) mac (rbuf n)\<rparr>"
  have lm: "length mac = length ?Z" by (simp add: mac_def)
  have off: "20 + length (enc_avps (avps m)) + 2 = buf_used m + 2" using wf_msg_used [OF w] by simp
  have m1: "wf_msg m1" "avps m1 = avps m @ [(?t, mac)]" "take 20 (rbuf m1) = take 20 (rbuf n)"
    using replace_last [OF n(1,2) lm] unfolding off by (simp_all add: m1_def)
  have t20: "take 20 (rbuf m') = take 20 (rbuf m)" using m' by (simp add: added_def)
  have "take 20 (rbuf n) = slice 0 4 (rbuf n) @ msg_authenticator n"
    using slice_split [of 4 20 0 "rbuf n"] by (simp add: slice_def msg_authenticator_def)
  then have "take (buf_used n) (rbuf n) = slice 0 4 (rbuf m1) @ msg_authenticator m @ enc_avps (avps m @ [(?t, ?Z)])"
    using wf_msg_bytes [OF n(1)] n slice_take20 [OF m1(3), of 0 4] slice_take20 [OF t20, of 4 16]
    by (simp add: msg_authenticator_def)
  then have "mac = hmac_md5 key (slice 0 4 (rbuf m1) @ msg_authenticator m @ enc_avps (avps m @ [(?t, ?Z)]))"
    by (simp only: mac_def)
  moreover have "Radius_msg_finish no_oom m (Some key) = ret m1"
    using add by (simp add: Radius_msg_finish_def Let_def m1_def mac_def n_def [symmetric])
  moreover have "buf_used m1 = buf_used m'" by (simp add: m1_def n)
  moreover have "slice 0 2 (rbuf m1) = slice 0 2 (rbuf m)" "msg_authenticator m1 = msg_authenticator m"
    "slice 2 2 (rbuf m1) = be16 (of_nat (buf_used m'))"
    using slice_take20 [OF m1(3), of 0 2] slice_take20 [OF m1(3), of 4 16] slice_take20 [OF m1(3), of 2 2] n
      slice_take20 [OF t20, of 0 2] slice_take20 [OF t20, of 4 16]
    by (simp_all add: msg_authenticator_def)
  ultimately show ?thesis using m1 by auto
qed

section \<open>Properties\<close>

definition sample_request :: radius_msg where
  "sample_request = \<lparr>rbuf = store 0 [1, 7] (replicate 1024 0), buf_used = 20, attrs = [], attr_size = 16\<rparr>"

lemma sample_request: "wf_msg sample_request" "avps sample_request = []" "20 \<le> length (rbuf sample_request)"
    "buf_used sample_request = 20" "attrs sample_request = []"
  by (simp_all add: sample_request_def wf_msg_def avps_def)

lemma new_spec:
  "Radius_msg_new alloc code ident = Some m \<Longrightarrow> wf_msg m \<and> avps m = [] \<and> msg_code m = code \<and> msg_identifier m = ident"
  by (auto simp: Radius_msg_new_def Radius_msg_initialize_def Radius_msg_set_hdr_def wf_msg_def avps_def
      RADIUS_DEFAULT_MSG_SIZE_def RADIUS_DEFAULT_ATTR_COUNT_def msg_code_def msg_identifier_def store_def
      split: if_splits)

text \<open>Adding an attribute to a well-formed message returns; it either reports that memory ran
  out, or appends exactly that attribute, leaves the header and the others as they are, and
  keeps the message well formed, whatever growing of the buffer and of the array it takes.\<close>

lemma Radius_msg_add_attr_appends:
  assumes "wf_msg m" "length data \<le> RADIUS_MAX_ATTR_LEN"
  shows "\<exists>r m'. Radius_msg_add_attr alloc m type data = ret (r, m')
    \<and> (r = None \<longrightarrow> alloc \<noteq> no_oom)
    \<and> (r \<noteq> None \<longrightarrow> wf_msg m' \<and> avps m' = avps m @ [(type, data)] \<and> take 20 (rbuf m') = take 20 (rbuf m))"
  using add_attr_spec [OF assms, of alloc type] by (auto simp: returns_def added_def)

lemma Radius_msg_add_attr_appends_witness:
  "\<exists>r m'. Radius_msg_add_attr no_oom sample_request 1 [97, 98] = ret (r, m') \<and> (r \<noteq> None \<longrightarrow> avps m' = [(1, [97, 98])])"
  using Radius_msg_add_attr_appends [OF sample_request(1), of "[97, 98]" no_oom 1] sample_request(2)
  by (auto simp: RADIUS_MAX_ATTR_LEN_def)

text \<open>C20. The parser accepts exactly the datagrams whose length field fits and whose bytes behind the
  header are a sequence of attributes, and it yields those attributes.\<close>

theorem Radius_msg_parse_exact:
  fixes data :: "byte list"
  defines "n \<equiv> unat (rd_be16 (slice 2 2 data))"
  shows "(\<exists>m. Radius_msg_parse no_oom data = Some m \<and> avps m = avs) \<longleftrightarrow>
    20 \<le> n \<and> n \<le> length data \<and> (\<forall>av \<in> set avs. valid_avp av) \<and> slice 20 (n - 20) data = enc_avps avs"
proof
  assume "\<exists>m. Radius_msg_parse no_oom data = Some m \<and> avps m = avs"
  then obtain m where m: "Radius_msg_parse no_oom data = Some m" "avps m = avs" by blast
  note p = parse_wf [OF m(1)]
  have u: "20 \<le> buf_used m" "chain (rbuf m) 20 (attrs m) (buf_used m)" using p(1) by (simp_all add: wf_msg_def)
  have "n \<le> length data" using p(2,3,4) unfolding n_def by (metis length_take min.absorb_iff2 min.commute)
  moreover have "slice 20 (n - 20) (rbuf m) = enc_avps avs"
    using chain_bytes [OF u(2)] p(3,4) m(2) by (simp add: avps_def n_def)
  moreover have "slice 20 (n - 20) (rbuf m) = slice 20 (n - 20) data"
    using u(1) p(2,4) by (metis le_add_diff_inverse n_def order_refl slice_take)
  ultimately show "20 \<le> n \<and> n \<le> length data \<and> (\<forall>av \<in> set avs. valid_avp av) \<and> slice 20 (n - 20) data = enc_avps avs"
    using u(1) p(4) wf_msg_valid [OF p(1)] m(2) by (simp add: n_def)
next
  assume r: "20 \<le> n \<and> n \<le> length data \<and> (\<forall>av \<in> set avs. valid_avp av) \<and> slice 20 (n - 20) data = enc_avps avs"
  define m where "m = \<lparr>rbuf = take n data, buf_used = n, attrs = offsets 20 avs, attr_size = Suc (length avs)\<rparr>"
  have "take n data = take 20 data @ enc_avps avs"
    using r take_add [of 20 "n - 20" data] by (simp add: slice_def)
  moreover have "n = 20 + length (enc_avps avs)"
    using r length_slice [of 20 "n - 20" data] by simp
  ultimately have w: "wf_msg m" "avps m = avs"
    using wf_msg_of_layout [of m "take 20 data" avs "[]"] r by (simp_all add: m_def)
  have "\<exists>m'. Radius_msg_parse no_oom (take (buf_used m) (rbuf m) @ drop n data) = Some m'
      \<and> wf_msg m' \<and> avps m' = avps m \<and> rbuf m' = take (buf_used m) (rbuf m)"
    using r unsigned_less [of "rd_be16 (slice 2 2 data)", where 'a = nat]
    by (intro parse_complete [OF w(1)]) (simp_all add: m_def n_def)
  then show "\<exists>m. Radius_msg_parse no_oom data = Some m \<and> avps m = avs"
    using w(2) by (auto simp: m_def)
qed

definition sample_datagram :: "byte list" where
  "sample_datagram = [2, 7, 0, 22] @ replicate 16 0 @ [80, 2]"

theorem Radius_msg_parse_exact_witness:
  "\<exists>m. Radius_msg_parse no_oom sample_datagram = Some m \<and> avps m = [(80, [])]"
  unfolding Radius_msg_parse_exact by code_simp

text \<open>C21. A message that was built and finished is parsed back, from its own bytes followed by any
  others: the header fields and the attributes are the ones it was built with, with the
  Message-Authenticator at the end.\<close>

theorem Radius_msg_finish_parse:
  assumes "wf_msg m" "buf_used m + 18 < 2 ^ 16"
  shows "\<exists>m1 m2. Radius_msg_finish no_oom m (Some key) = ret m1
    \<and> Radius_msg_parse no_oom (take (buf_used m1) (rbuf m1) @ extra) = Some m2
    \<and> slice 0 2 (rbuf m2) = slice 0 2 (rbuf m) \<and> msg_authenticator m2 = msg_authenticator m
    \<and> avps m2 = avps m @ [(RADIUS_ATTR_MESSAGE_AUTHENTICATOR,
         hmac_md5 key (slice 0 4 (rbuf m2) @ msg_authenticator m
           @ enc_avps (avps m @ [(RADIUS_ATTR_MESSAGE_AUTHENTICATOR, replicate 16 0)])))]"
proof -
  obtain m1 where m1: "Radius_msg_finish no_oom m (Some key) = ret m1" "wf_msg m1"
    "slice 0 2 (rbuf m1) = slice 0 2 (rbuf m)" "msg_authenticator m1 = msg_authenticator m"
    "slice 2 2 (rbuf m1) = be16 (of_nat (buf_used m1))"
    and a: "avps m1 = avps m @ [(RADIUS_ATTR_MESSAGE_AUTHENTICATOR,
         hmac_md5 key (slice 0 4 (rbuf m1) @ msg_authenticator m
           @ enc_avps (avps m @ [(RADIUS_ATTR_MESSAGE_AUTHENTICATOR, replicate 16 0)])))]"
    using finish_spec [OF assms(1), of key] by blast
  have "buf_used m1 = buf_used m + 18"
    using wf_msg_used [OF m1(2)] wf_msg_used [OF assms(1)] by (simp add: a enc_avp_def)
  then obtain m2 where m2: "Radius_msg_parse no_oom (take (buf_used m1) (rbuf m1) @ extra) = Some m2"
      "avps m2 = avps m1" "rbuf m2 = take (buf_used m1) (rbuf m1)"
    using parse_complete [OF m1(2), of extra] m1(5) assms(2) by auto
  have "20 \<le> buf_used m1" using m1(2) by (simp add: wf_msg_def)
  then show ?thesis
    using m1 m2 a by (intro exI [of _ m1] exI [of _ m2]) (simp add: msg_authenticator_def)
qed

theorem Radius_msg_finish_parse_witness:
  "\<exists>m1 m2. Radius_msg_finish no_oom sample_request (Some [115]) = ret m1
    \<and> Radius_msg_parse no_oom (take (buf_used m1) (rbuf m1)) = Some m2 \<and> length (avps m2) = 1"
  using Radius_msg_finish_parse [OF sample_request(1), of "[115]" "[]"] sample_request(2,4) by auto

text \<open>An EAP packet of any length put into a message is got back from it.\<close>

lemma Radius_msg_eap_round_trip:
  assumes "wf_msg m" "eap_of (avps m) = []" "data \<noteq> []"
  shows "\<exists>m'. Radius_msg_add_eap no_oom m data = ret (True, m') \<and> wf_msg m'
    \<and> Radius_msg_get_eap no_oom m' = Some data"
proof -
  obtain m' where "Radius_msg_add_eap no_oom m data = ret (True, m')" "wf_msg m'" "avps m' = avps m @ eap_fragments data"
    using add_eap_spec [OF assms(1), of data] by (auto simp: returns_def)
  then show ?thesis
    using get_eap_spec [of m'] assms(2,3) by (simp add: eap_fragments_def eap_of_fragments)
qed

lemma Radius_msg_eap_round_trip_witness:
  "\<exists>m'. Radius_msg_add_eap no_oom sample_request (replicate 600 5) = ret (True, m')
    \<and> Radius_msg_get_eap no_oom m' = Some (replicate 600 5)"
  using Radius_msg_eap_round_trip [OF sample_request(1), of "replicate 600 5"] sample_request(2)
  by (auto simp: eap_of_def)


definition sample_response :: radius_msg where
  "sample_response = \<lparr>rbuf = [2, 7, 0, 38] @ replicate 16 9 @ [80, 18] @ replicate 16 3, buf_used = 38, attrs = [20], attr_size = 16\<rparr>"

lemma sample_response: "wf_msg sample_response" "avps sample_response = [(80, replicate 16 3)]"
    "buf_used sample_response = 38"
  by code_simp+


text \<open>A response finished and signed with the secret is accepted, and it is well formed.\<close>

lemma signed_response:
  assumes "wf_msg m" "wf_msg sent" "RADIUS_ATTR_MESSAGE_AUTHENTICATOR \<notin> fst ` set (avps m)"
    and "msg_authenticator m = msg_authenticator sent"
  shows "\<exists>m1. Radius_msg_finish no_oom m (Some secret) = ret m1
    \<and> (let signed = m1\<lparr>rbuf := store 4 (response_authenticator m1 sent secret) (rbuf m1)\<rparr>
       in Radius_msg_verify signed secret (Some sent) = ret (0, signed) \<and> wf_msg signed
         \<and> msg_code signed = msg_code m \<and> msg_identifier signed = msg_identifier m \<and> butlast (avps signed) = avps m)"
proof -
  let ?t = RADIUS_ATTR_MESSAGE_AUTHENTICATOR
  obtain m1 where m1: "Radius_msg_finish no_oom m (Some secret) = ret m1" "wf_msg m1"
    and h: "slice 0 2 (rbuf m1) = slice 0 2 (rbuf m)"
    and a: "avps m1 = avps m @ [(?t, hmac_md5 secret (slice 0 4 (rbuf m1) @ msg_authenticator m
           @ enc_avps (avps m @ [(?t, replicate 16 0)])))]"
    using finish_spec [OF assms(1), of secret] by blast
  define ra where "ra = response_authenticator m1 sent secret"
  define s where "s = m1\<lparr>rbuf := store 4 ra (rbuf m1)\<rparr>"
  have ra: "length ra = 16" by (simp add: ra_def response_authenticator_def)
  have b: "20 \<le> length (rbuf m1)" using m1(2) by (auto simp: wf_msg_def)
  have s: "wf_msg s" "avps s = avps m1"
    using header_edit [OF m1(2), of 4 ra] ra by (simp_all add: s_def)
  have f: "slice 0 4 (rbuf s) = slice 0 4 (rbuf m1)" "msg_authenticator s = ra"
    using b ra slice_store_same [of 4 ra "rbuf m1"] by (simp_all add: s_def msg_authenticator_def)
  have at: "slice 20 (buf_used m1 - 20) (rbuf m1) = enc_avps (avps m1)"
    using chain_bytes [of "rbuf m1" 20 "attrs m1" "buf_used m1"] m1(2) by (simp add: wf_msg_def avps_def)
  have "Radius_msg_verify s secret (Some sent) = ret (0, s)"
    using verify_layout [OF s(1), of sent "avps m" "hmac_md5 secret (slice 0 4 (rbuf m1) @ msg_authenticator m
           @ enc_avps (avps m @ [(?t, replicate 16 0)]))" "[]" secret] assms(2,3,4) s(2) a f
    by (auto simp: wf_msg_def ra_def response_authenticator_def at)
  moreover have "msg_code s = msg_code m" "msg_identifier s = msg_identifier m"
  proof -
    have "store 4 ra (rbuf m1) ! n = rbuf m1 ! n" if "n < 2" for n using b ra that by (subst nth_store) auto
    then show "msg_code s = msg_code m" "msg_identifier s = msg_identifier m"
      using h nth_take [of _ 2 "rbuf m1"] nth_take [of _ 2 "rbuf m"]
      by (simp_all add: s_def msg_code_def msg_identifier_def slice_def)
  qed
  ultimately show ?thesis using m1(1) s a by (auto simp: s_def ra_def Let_def)
qed

text \<open>C26. A response that a server with the same secret builds for the request, finishes, and signs with
  the Response Authenticator is accepted.\<close>

theorem Radius_msg_verify_accepts:
  assumes "wf_msg m" "wf_msg sent" "RADIUS_ATTR_MESSAGE_AUTHENTICATOR \<notin> fst ` set (avps m)"
    and "msg_authenticator m = msg_authenticator sent"
  shows "\<exists>m1. Radius_msg_finish no_oom m (Some secret) = ret m1
    \<and> (let signed = m1\<lparr>rbuf := store 4 (response_authenticator m1 sent secret) (rbuf m1)\<rparr>
       in Radius_msg_verify signed secret (Some sent) = ret (0, signed))"
  using signed_response [OF assms, of secret] by (auto simp: Let_def)

theorem Radius_msg_verify_accepts_witness:
  "\<exists>m1. Radius_msg_finish no_oom sample_request (Some [115]) = ret m1
    \<and> Radius_msg_verify (m1\<lparr>rbuf := store 4 (response_authenticator m1 sample_request [115]) (rbuf m1)\<rparr>) [115] (Some sample_request)
      = ret (0, m1\<lparr>rbuf := store 4 (response_authenticator m1 sample_request [115]) (rbuf m1)\<rparr>)"
  using Radius_msg_verify_accepts [OF sample_request(1) sample_request(1), of "[115]"] sample_request(2)
  by (simp add: Let_def)

text \<open>The verifier does not look at the length of the Message-Authenticator: a datagram that ends
  with an empty one is parsed, and its verification reads behind the end of the buffer.\<close>

lemma Radius_msg_verify_overread:
  "\<exists>m. Radius_msg_parse no_oom sample_datagram = Some m
    \<and> (\<forall>secret sent. Radius_msg_verify m secret (Some sent) = fail OutOfBounds)"
proof -
  have p: "Radius_msg_parse no_oom sample_datagram
      = Some \<lparr>rbuf = sample_datagram, buf_used = 22, attrs = [20], attr_size = 16\<rparr>"
    by code_simp
  have "find_message_authenticator \<lparr>rbuf = sample_datagram, buf_used = 22, attrs = [20], attr_size = 16\<rparr> [20] None = Some (Some 20)"
    by code_simp
  moreover have "mem_read (20 + 2) 16 sample_datagram = fail OutOfBounds"
    by (simp add: mem_read_def sample_datagram_def)
  ultimately show ?thesis using p by (simp add: Radius_msg_verify_def)
qed

text \<open>An Access-Accept that carries a Microsoft vendor attribute of length zero and of another type
  makes the search for the MPPE keys run forever.\<close>

definition hanging_datagram :: "byte list" where
  "hanging_datagram = [2, 7, 0, 28] @ replicate 16 0 @ [26, 8, 0, 0, 1, 55, 1, 0]"

lemma Radius_msg_get_ms_keys_hangs:
  "\<exists>m. Radius_msg_parse no_oom hanging_datagram = Some m
    \<and> (\<forall>sent secret. Radius_msg_get_ms_keys no_oom m (Some sent) secret = None)"
proof -
  let ?m = "\<lparr>rbuf = hanging_datagram, buf_used = 28, attrs = [20], attr_size = 16\<rparr>"
  have p: "Radius_msg_parse no_oom hanging_datagram = Some ?m"
    by code_simp
  have f: "attr_type ?m 20 = RADIUS_ATTR_VENDOR_SPECIFIC" "attr_length ?m 20 = 8"
    "rd_be32 (slice (20 + 2) 4 (rbuf ?m)) = RADIUS_VENDOR_ID_MICROSOFT"
    by code_simp+
  have e: "hanging_datagram ! Suc 26 = 0" "hanging_datagram ! 26 \<noteq> RADIUS_VENDOR_ATTR_MS_MPPE_SEND_KEY"
    by code_simp+
  have "ms_scan alloc hanging_datagram RADIUS_VENDOR_ATTR_MS_MPPE_SEND_KEY 26 2 = None" for alloc
    using e by (intro ms_scan_hangs) simp_all
  then have "Radius_msg_get_ms_attr alloc ?m RADIUS_VENDOR_ATTR_MS_MPPE_SEND_KEY = None" for alloc
    using f by (simp add: Radius_msg_get_ms_attr_def)
  then show ?thesis using p by (auto simp: Radius_msg_get_ms_keys_def)
qed

text \<open>C35. A MPPE key encrypted as RFC 2548 says, with its length in front and padded to whole
  blocks, is decrypted.\<close>

theorem decrypt_ms_key_round_trip:
  assumes "length salt = 2" "n = of_nat (length key)" "length key < 256" "16 dvd length (n # key @ pad)"
  shows "decrypt_ms_key no_oom (salt @ mppe_encrypt secret [msg_authenticator sent, salt] (n # key @ pad)) sent secret = Some key"
proof -
  let ?p = "n # key @ pad"
  have l: "16 \<le> length ?p" using assms(4) by (intro dvd_imp_le) simp_all
  have n: "unat n = length key" using assms(2,3) by (simp add: unat_of_nat)
  have "mppe_blocks secret [msg_authenticator sent, salt] (mppe_encrypt secret [msg_authenticator sent, salt] ?p) = ?p"
    by (rule mppe_round_trip [OF assms(4)])
  moreover have "slice 1 (length key) ?p = key" by (simp add: slice_def)
  moreover have "length ?p mod 16 = 0" using assms(4) by (simp only: dvd_eq_mod_eq_0)
  ultimately show ?thesis
    using assms(1) l n by (simp add: decrypt_ms_key_def Let_def)
qed

theorem decrypt_ms_key_round_trip_witness:
  "decrypt_ms_key no_oom ([128, 1] @ mppe_encrypt [115] [msg_authenticator sample_request, [128, 1]] (32 # replicate 32 7 @ replicate 15 0))
     sample_request [115] = Some (replicate 32 7)"
  by (rule decrypt_ms_key_round_trip) simp_all

text \<open>A User-Password of up to 128 octets is added as one attribute that the decryption of RFC 2865
  turns back into the password padded with zeros to whole blocks.\<close>

lemma user_password_spec:
  assumes "wf_msg m" "length data \<le> 128"
  shows "\<exists>m' c k. Radius_msg_add_attr_user_password no_oom m data secret = ret (Some (buf_used m), m')
    \<and> wf_msg m' \<and> avps m' = avps m @ [(RADIUS_ATTR_USER_PASSWORD, c)] \<and> take 20 (rbuf m') = take 20 (rbuf m) \<and> k < 16 \<and> 16 dvd length c
    \<and> password_decrypt secret (msg_authenticator m) c = data @ replicate k 0"
proof -
  define k where "k = (if length data mod 16 = 0 then 0 else 16 - length data mod 16)"
  define c where "c = password_blocks secret (msg_authenticator m) (data @ replicate k 0)"
  have b: "data @ (if length data mod 16 \<noteq> 0 then replicate (16 - length data mod 16) 0 else []) = data @ replicate k 0"
    by (simp add: k_def)
  have "(length data + k) mod 16 = 0"
    unfolding k_def using mod_less_divisor [of 16 "length data"] mod_add_left_eq [of "length data" 16 "16 - length data mod 16"]
    by (auto simp del: mod_less_divisor)
  then have d: "16 dvd length (data @ replicate k 0)" by (simp add: mod_eq_0_iff_dvd)
  have k: "k < 16" by (simp add: k_def)
  have lc: "length c = length data + k" by (simp add: c_def password_as_mppe)
  have "length c \<le> RADIUS_MAX_ATTR_LEN" using lc k assms(2) by (simp add: RADIUS_MAX_ATTR_LEN_def)
  from add_attr_spec [OF assms(1) this, of no_oom RADIUS_ATTR_USER_PASSWORD] obtain m' where
    "Radius_msg_add_attr no_oom m RADIUS_ATTR_USER_PASSWORD c = ret (Some (buf_used m), m')"
    "added m (RADIUS_ATTR_USER_PASSWORD, c) m'"
    by (auto simp: returns_def)
  moreover have "Radius_msg_add_attr_user_password no_oom m data secret = Radius_msg_add_attr no_oom m RADIUS_ATTR_USER_PASSWORD c"
    using assms(2) by (simp only: Radius_msg_add_attr_user_password_def Let_def b c_def) simp
  ultimately show ?thesis
    using password_round_trip [OF d, of secret "msg_authenticator m"] k d lc
    by (auto simp: added_def c_def [symmetric])
qed

end
