(* ===== verification/EapolSm.thy ===== *)
theory EapolSm
  imports Prelude
begin

text \<open>
  \<open>802.1x/eapol_sm.c\<close> and \<open>eapol_sm.h\<close>: the state machines of IEEE 802.1X for one
  station, and the loop that runs them to a fixed point.

  The structures are the records of the same names; fields that have the same name in
  several structures carry a prefix (\<open>pae_state\<close>, \<open>be_state\<close>, \<open>rt_state\<close>, \<open>kt_state\<close>). A
  \<open>unsigned int\<close> is a \<open>u32\<close>, the four timers are \<open>int\<close> objects. The calls a state entry
  makes into \<open>ieee802_1x.c\<close> do not touch the state machine; they are appended to
  \<open>acts\<close>, with the only field they read (\<open>authSuccess\<close>), and the daemon runs them in
  that order. Debug output is not modelled.

  The lemmas give an invariant of the machines between two runs and a measure that every
  pass of the loop lowers, so that \<open>eapol_sm_step\<close> returns; and what the machines promise:
  the port is opened only after a success of the back end.
\<close>

section \<open>The data\<close>

datatype PortTypes = ForceUnauthorized | ForceAuthorized | Auto
datatype PortState = Unauthorized | Authorized
datatype EAPMsgType = EAPRequestIdentity

datatype pae_state = AUTH_PAE_INITIALIZE | AUTH_PAE_DISCONNECTED | AUTH_PAE_CONNECTING
  | AUTH_PAE_AUTHENTICATING | AUTH_PAE_AUTHENTICATED | AUTH_PAE_ABORTING | AUTH_PAE_HELD
  | AUTH_PAE_FORCE_AUTH | AUTH_PAE_FORCE_UNAUTH

datatype be_state = BE_AUTH_REQUEST | BE_AUTH_RESPONSE | BE_AUTH_SUCCESS | BE_AUTH_FAIL
  | BE_AUTH_TIMEOUT | BE_AUTH_IDLE | BE_AUTH_INITIALIZE

datatype rt_state = REAUTH_TIMER_INITIALIZE | REAUTH_TIMER_REAUTHENTICATE

datatype kt_state = AUTH_KEY_TX_NO_KEY_TRANSMIT | AUTH_KEY_TX_KEY_TRANSMIT

definition AUTH_PAE_DEFAULT_reAuthMax :: u32 where "AUTH_PAE_DEFAULT_reAuthMax = 2"
definition AUTH_PAE_DEFAULT_txPeriod :: u32 where "AUTH_PAE_DEFAULT_txPeriod = 30"
definition BE_AUTH_DEFAULT_suppTimeout :: u32 where "BE_AUTH_DEFAULT_suppTimeout = 30"
definition BE_AUTH_DEFAULT_serverTimeout :: u32 where "BE_AUTH_DEFAULT_serverTimeout = 30"
definition BE_AUTH_DEFAULT_maxReq :: u32 where "BE_AUTH_DEFAULT_maxReq = 2"
definition REAUTH_TIMER_DEFAULT_reAuthPeriod :: u32 where "REAUTH_TIMER_DEFAULT_reAuthPeriod = 3600"
definition REAUTH_TIMER_DEFAULT_reAuthEnabled :: bool where "REAUTH_TIMER_DEFAULT_reAuthEnabled = True"

record eapol_auth_pae_sm =
  eapLogoff :: bool
  eapStart :: bool
  portMode :: PortTypes
  reAuthCount :: u32
  rxInitialRsp :: bool
  quietPeriod :: u32
  initialEAPMsg :: EAPMsgType
  reAuthMax :: u32
  txPeriod :: u32
  authEntersConnecting :: u32
  authEapLogoffsWhileConnecting :: u32
  authEntersAuthenticating :: u32
  authAuthSuccessesWhileAuthenticating :: u32
  authAuthTimeoutsWhileAuthenticating :: u32
  authAuthFailWhileAuthenticating :: u32
  authAuthReauthsWhileAuthenticating :: u32
  authAuthEapStartsWhileAuthenticating :: u32
  authAuthEapLogoffWhileAuthenticating :: u32
  authAuthReauthsWhileAuthenticated :: u32
  authAuthEapStartsWhileAuthenticated :: u32
  authAuthEapLogoffWhileAuthenticated :: u32
  pae_state :: pae_state

record eapol_backend_auth_sm =
  reqCount :: u32
  rxResp :: bool
  aSuccess :: bool
  aFail :: bool
  aReq :: bool
  idFromServer :: byte
  suppTimeout :: u32
  serverTimeout :: u32
  maxReq :: u32
  backendResponses :: u32
  backendAccessChallenges :: u32
  backendOtherRequestsToSupplicant :: u32
  backendNonNakResponsesFromSupplicant :: u32
  backendAuthSuccesses :: u32
  backendAuthFails :: u32
  be_state :: be_state

record eapol_reauth_timer_sm =
  reAuthPeriod :: u32
  reAuthEnabled :: bool
  rt_state :: rt_state

record eapol_auth_key_tx =
  kt_state :: kt_state

text \<open>The calls into \<open>ieee802_1x.c\<close>, by the macros of \<open>eapol_sm.c\<close>.\<close>

datatype eapol_act =
    SetPortUnauthorized
  | SetPortAuthorized bool  \<comment> \<open>\<open>authSuccess\<close> when it is called\<close>
  | TxCannedFail byte
  | TxCannedSuccess byte
  | TxInitialMsg byte
  | TxReq byte
  | SendRespToServer
  | TxKey byte

record eapol_state_machine =
  aWhile :: int
  quietWhile :: int
  reAuthWhen :: int
  txWhen :: int
  authAbort :: bool
  authFail :: bool
  authStart :: bool
  authTimeout :: bool
  authSuccess :: bool
  currentId :: byte
  initialize :: bool
  keyAvailable :: bool
  keyTxEnabled :: bool
  portControl :: PortTypes
  portEnabled :: bool
  portStatus :: PortState
  portValid :: bool
  reAuthenticate :: bool
  auth_pae :: eapol_auth_pae_sm
  be_auth :: eapol_backend_auth_sm
  reauth_timer :: eapol_reauth_timer_sm
  auth_key_tx :: eapol_auth_key_tx
  acts :: "eapol_act list"

abbreviation act :: "eapol_act \<Rightarrow> eapol_state_machine \<Rightarrow> eapol_state_machine" where
  "act a sm \<equiv> sm\<lparr>acts := acts sm @ [a]\<rparr>"

abbreviation pae :: "eapol_state_machine \<Rightarrow> pae_state" where "pae sm \<equiv> pae_state (auth_pae sm)"
abbreviation be :: "eapol_state_machine \<Rightarrow> be_state" where "be sm \<equiv> be_state (be_auth sm)"
abbreviation rt :: "eapol_state_machine \<Rightarrow> rt_state" where "rt sm \<equiv> rt_state (reauth_timer sm)"
abbreviation kt :: "eapol_state_machine \<Rightarrow> kt_state" where "kt sm \<equiv> kt_state (auth_key_tx sm)"

text \<open>An \<open>unsigned int\<close> stored in an \<open>int\<close>, and a counter that is incremented under a condition.\<close>

definition to_int :: "u32 \<Rightarrow> int" where
  "to_int w = s32 (uint w)"

definition count_if :: "bool \<Rightarrow> u32 \<Rightarrow> u32" where
  "count_if b c = (if b then c + 1 else c)"

section \<open>Authenticator PAE\<close>

definition sm_AUTH_PAE_INITIALIZE_Enter :: "eapol_state_machine \<Rightarrow> eapol_state_machine" where
  "sm_AUTH_PAE_INITIALIZE_Enter sm =
     sm\<lparr>auth_pae := (auth_pae sm)\<lparr>pae_state := AUTH_PAE_INITIALIZE, portMode := Auto\<rparr>, currentId := 1\<rparr>"

definition sm_AUTH_PAE_DISCONNECTED_Enter :: "eapol_state_machine \<Rightarrow> eapol_state_machine" where
  "sm_AUTH_PAE_DISCONNECTED_Enter sm =
     (let from_initialize = (pae sm = AUTH_PAE_INITIALIZE);
          p = auth_pae sm;
          p = p\<lparr>authEapLogoffsWhileConnecting :=
                 count_if (pae_state p = AUTH_PAE_CONNECTING \<and> eapLogoff p) (authEapLogoffsWhileConnecting p)\<rparr>;
          p = p\<lparr>pae_state := AUTH_PAE_DISCONNECTED, eapLogoff := False, reAuthCount := 0\<rparr>;
          sm = act SetPortUnauthorized (sm\<lparr>auth_pae := p, portStatus := Unauthorized\<rparr>)
      in if \<not> from_initialize
         then (act (TxCannedFail (currentId sm)) sm)\<lparr>currentId := currentId sm + 1\<rparr>
         else sm)"

definition sm_AUTH_PAE_CONNECTING_Enter :: "eapol_state_machine \<Rightarrow> eapol_state_machine" where
  "sm_AUTH_PAE_CONNECTING_Enter sm =
     (let p = auth_pae sm;
          was = (pae_state p = AUTH_PAE_AUTHENTICATED);
          p = p\<lparr>authEntersConnecting := count_if (pae_state p \<noteq> AUTH_PAE_CONNECTING) (authEntersConnecting p),
                authAuthReauthsWhileAuthenticated :=
                  count_if (was \<and> reAuthenticate sm) (authAuthReauthsWhileAuthenticated p),
                authAuthEapStartsWhileAuthenticated :=
                  count_if (was \<and> eapStart p) (authAuthEapStartsWhileAuthenticated p),
                authAuthEapLogoffWhileAuthenticated :=
                  count_if (was \<and> eapLogoff p) (authAuthEapLogoffWhileAuthenticated p)\<rparr>;
          p = p\<lparr>pae_state := AUTH_PAE_CONNECTING, eapStart := False, rxInitialRsp := False,
                reAuthCount := reAuthCount p + 1\<rparr>
      in act (TxInitialMsg (currentId sm))
           (sm\<lparr>auth_pae := p, reAuthenticate := False, txWhen := to_int (txPeriod p)\<rparr>))"

definition sm_AUTH_PAE_HELD_Enter :: "eapol_state_machine \<Rightarrow> eapol_state_machine" where
  "sm_AUTH_PAE_HELD_Enter sm =
     (let p = auth_pae sm;
          p = p\<lparr>authAuthFailWhileAuthenticating :=
                 count_if (pae_state p = AUTH_PAE_AUTHENTICATING \<and> authFail sm) (authAuthFailWhileAuthenticating p)\<rparr>;
          p = p\<lparr>pae_state := AUTH_PAE_HELD, eapLogoff := False\<rparr>
      in (act SetPortUnauthorized (sm\<lparr>auth_pae := p, portStatus := Unauthorized\<rparr>))
           \<lparr>quietWhile := to_int (quietPeriod p), currentId := currentId sm + 1\<rparr>)"

definition sm_AUTH_PAE_AUTHENTICATED_Enter :: "eapol_state_machine \<Rightarrow> eapol_state_machine" where
  "sm_AUTH_PAE_AUTHENTICATED_Enter sm =
     (let p = auth_pae sm;
          p = p\<lparr>authAuthSuccessesWhileAuthenticating :=
                 count_if (pae_state p = AUTH_PAE_AUTHENTICATING \<and> authSuccess sm) (authAuthSuccessesWhileAuthenticating p)\<rparr>;
          p = p\<lparr>pae_state := AUTH_PAE_AUTHENTICATED, reAuthCount := 0\<rparr>
      in (act (SetPortAuthorized (authSuccess sm)) (sm\<lparr>auth_pae := p, portStatus := Authorized\<rparr>))
           \<lparr>currentId := currentId sm + 1\<rparr>)"

definition sm_AUTH_PAE_AUTHENTICATING_Enter :: "eapol_state_machine \<Rightarrow> eapol_state_machine" where
  "sm_AUTH_PAE_AUTHENTICATING_Enter sm =
     (let p = auth_pae sm;
          p = p\<lparr>authEntersAuthenticating :=
                 count_if (pae_state p = AUTH_PAE_CONNECTING \<and> rxInitialRsp p) (authEntersAuthenticating p)\<rparr>;
          p = p\<lparr>pae_state := AUTH_PAE_AUTHENTICATING\<rparr>
      in sm\<lparr>auth_pae := p, authSuccess := False, authFail := False, authTimeout := False, authStart := True\<rparr>)"

definition sm_AUTH_PAE_ABORTING_Enter :: "eapol_state_machine \<Rightarrow> eapol_state_machine" where
  "sm_AUTH_PAE_ABORTING_Enter sm =
     (let p = auth_pae sm;
          was = (pae_state p = AUTH_PAE_AUTHENTICATING);
          p = p\<lparr>authAuthTimeoutsWhileAuthenticating :=
                  count_if (was \<and> authTimeout sm) (authAuthTimeoutsWhileAuthenticating p),
                authAuthReauthsWhileAuthenticating :=
                  count_if (was \<and> reAuthenticate sm) (authAuthReauthsWhileAuthenticating p),
                authAuthEapStartsWhileAuthenticating :=
                  count_if (was \<and> eapStart p) (authAuthEapStartsWhileAuthenticating p),
                authAuthEapLogoffWhileAuthenticating :=
                  count_if (was \<and> eapLogoff p) (authAuthEapLogoffWhileAuthenticating p)\<rparr>;
          p = p\<lparr>pae_state := AUTH_PAE_ABORTING\<rparr>
      in sm\<lparr>auth_pae := p, authAbort := True, currentId := currentId sm + 1\<rparr>)"

definition sm_AUTH_PAE_FORCE_AUTH_Enter :: "eapol_state_machine \<Rightarrow> eapol_state_machine" where
  "sm_AUTH_PAE_FORCE_AUTH_Enter sm =
     (let p = (auth_pae sm)\<lparr>pae_state := AUTH_PAE_FORCE_AUTH, portMode := ForceAuthorized, eapStart := False\<rparr>;
          sm = act (SetPortAuthorized (authSuccess sm)) (sm\<lparr>auth_pae := p, portStatus := Authorized\<rparr>)
      in (act (TxCannedSuccess (currentId sm)) sm)\<lparr>currentId := currentId sm + 1\<rparr>)"

definition sm_AUTH_PAE_FORCE_UNAUTH_Enter :: "eapol_state_machine \<Rightarrow> eapol_state_machine" where
  "sm_AUTH_PAE_FORCE_UNAUTH_Enter sm =
     (let p = (auth_pae sm)\<lparr>pae_state := AUTH_PAE_FORCE_UNAUTH, portMode := ForceUnauthorized, eapStart := False\<rparr>;
          sm = act SetPortUnauthorized (sm\<lparr>auth_pae := p, portStatus := Unauthorized\<rparr>)
      in (act (TxCannedFail (currentId sm)) sm)\<lparr>currentId := currentId sm + 1\<rparr>)"

definition sm_AUTH_PAE_Step :: "eapol_state_machine \<Rightarrow> eapol_state_machine" where
  "sm_AUTH_PAE_Step sm =
     (let p = auth_pae sm in
      if (portControl sm = Auto \<and> portMode p \<noteq> portControl sm) \<or> initialize sm \<or> \<not> portEnabled sm
      then sm_AUTH_PAE_INITIALIZE_Enter sm
      else if portControl sm = ForceAuthorized \<and> portMode p \<noteq> portControl sm \<and> \<not> (initialize sm \<or> \<not> portEnabled sm)
      then sm_AUTH_PAE_FORCE_AUTH_Enter sm
      else if portControl sm = ForceUnauthorized \<and> portMode p \<noteq> portControl sm \<and> \<not> (initialize sm \<or> \<not> portEnabled sm)
      then sm_AUTH_PAE_FORCE_UNAUTH_Enter sm
      else case pae_state p of
        AUTH_PAE_INITIALIZE \<Rightarrow> sm_AUTH_PAE_DISCONNECTED_Enter sm
      | AUTH_PAE_DISCONNECTED \<Rightarrow> sm_AUTH_PAE_CONNECTING_Enter sm
      | AUTH_PAE_HELD \<Rightarrow> if quietWhile sm = 0 then sm_AUTH_PAE_CONNECTING_Enter sm else sm
      | AUTH_PAE_CONNECTING \<Rightarrow>
          if eapLogoff p \<or> reAuthCount p > reAuthMax p then sm_AUTH_PAE_DISCONNECTED_Enter sm
          else if rxInitialRsp p \<and> reAuthCount p \<le> reAuthMax p then sm_AUTH_PAE_AUTHENTICATING_Enter sm
          else if (txWhen sm = 0 \<or> eapStart p \<or> reAuthenticate sm) \<and> reAuthCount p \<le> reAuthMax p
          then sm_AUTH_PAE_CONNECTING_Enter sm
          else sm
      | AUTH_PAE_AUTHENTICATED \<Rightarrow>
          if eapStart p \<or> reAuthenticate sm then sm_AUTH_PAE_CONNECTING_Enter sm
          else if eapLogoff p \<or> \<not> portValid sm then sm_AUTH_PAE_DISCONNECTED_Enter sm
          else sm
      | AUTH_PAE_AUTHENTICATING \<Rightarrow>
          if authSuccess sm \<and> portValid sm then sm_AUTH_PAE_AUTHENTICATED_Enter sm
          else if authFail sm then sm_AUTH_PAE_HELD_Enter sm
          else if reAuthenticate sm \<or> eapStart p \<or> eapLogoff p \<or> authTimeout sm
          then sm_AUTH_PAE_ABORTING_Enter sm
          else sm
      | AUTH_PAE_ABORTING \<Rightarrow>
          if eapLogoff p \<and> \<not> authAbort sm then sm_AUTH_PAE_DISCONNECTED_Enter sm
          else if \<not> eapLogoff p \<and> \<not> authAbort sm then sm_AUTH_PAE_CONNECTING_Enter sm
          else sm
      | AUTH_PAE_FORCE_AUTH \<Rightarrow> if eapStart p then sm_AUTH_PAE_FORCE_AUTH_Enter sm else sm
      | AUTH_PAE_FORCE_UNAUTH \<Rightarrow> if eapStart p then sm_AUTH_PAE_FORCE_UNAUTH_Enter sm else sm)"

section \<open>Backend Authentication\<close>

definition sm_BE_AUTH_INITIALIZE_Enter :: "eapol_state_machine \<Rightarrow> eapol_state_machine" where
  "sm_BE_AUTH_INITIALIZE_Enter sm =
     sm\<lparr>be_auth := (be_auth sm)\<lparr>be_state := BE_AUTH_INITIALIZE\<rparr>, authAbort := False\<rparr>"

definition sm_BE_AUTH_REQUEST_Enter :: "eapol_state_machine \<Rightarrow> eapol_state_machine" where
  "sm_BE_AUTH_REQUEST_Enter sm =
     (let b = (be_auth sm)\<lparr>be_state := BE_AUTH_REQUEST,
                backendOtherRequestsToSupplicant := backendOtherRequestsToSupplicant (be_auth sm) + 1,
                reqCount := reqCount (be_auth sm) + 1\<rparr>
      in act (TxReq (idFromServer b))
           (sm\<lparr>be_auth := b, currentId := idFromServer b, aWhile := to_int (suppTimeout b)\<rparr>))"

definition sm_BE_AUTH_RESPONSE_Enter :: "eapol_state_machine \<Rightarrow> eapol_state_machine" where
  "sm_BE_AUTH_RESPONSE_Enter sm =
     (let b = (be_auth sm)\<lparr>be_state := BE_AUTH_RESPONSE, aReq := False, aSuccess := False,
                rxResp := False, aFail := False, reqCount := 0,
                backendResponses := backendResponses (be_auth sm) + 1\<rparr>
      in act SendRespToServer
           (sm\<lparr>be_auth := b, authTimeout := False, aWhile := to_int (serverTimeout b)\<rparr>))"

definition sm_BE_AUTH_SUCCESS_Enter :: "eapol_state_machine \<Rightarrow> eapol_state_machine" where
  "sm_BE_AUTH_SUCCESS_Enter sm =
     (let b = (be_auth sm)\<lparr>be_state := BE_AUTH_SUCCESS\<rparr>
      in (act (TxReq (idFromServer b)) (sm\<lparr>be_auth := b, currentId := idFromServer b\<rparr>))\<lparr>authSuccess := True\<rparr>)"

definition sm_BE_AUTH_FAIL_Enter :: "eapol_state_machine \<Rightarrow> eapol_state_machine" where
  "sm_BE_AUTH_FAIL_Enter sm =
     (let b = (be_auth sm)\<lparr>be_state := BE_AUTH_FAIL\<rparr>
      in (act (TxReq (idFromServer b)) (sm\<lparr>be_auth := b, currentId := idFromServer b\<rparr>))\<lparr>authFail := True\<rparr>)"

definition sm_BE_AUTH_TIMEOUT_Enter :: "eapol_state_machine \<Rightarrow> eapol_state_machine" where
  "sm_BE_AUTH_TIMEOUT_Enter sm =
     (let sm = sm\<lparr>be_auth := (be_auth sm)\<lparr>be_state := BE_AUTH_TIMEOUT\<rparr>\<rparr>;
          sm = (if portStatus sm = Unauthorized then act (TxCannedFail (currentId sm)) sm else sm)
      in sm\<lparr>authTimeout := True\<rparr>)"

definition sm_BE_AUTH_IDLE_Enter :: "eapol_state_machine \<Rightarrow> eapol_state_machine" where
  "sm_BE_AUTH_IDLE_Enter sm =
     sm\<lparr>be_auth := (be_auth sm)\<lparr>be_state := BE_AUTH_IDLE, reqCount := 0\<rparr>, authStart := False\<rparr>"

definition sm_BE_AUTH_Step :: "eapol_state_machine \<Rightarrow> eapol_state_machine" where
  "sm_BE_AUTH_Step sm =
     (let b = be_auth sm in
      if portControl sm \<noteq> Auto \<or> initialize sm \<or> authAbort sm then sm_BE_AUTH_INITIALIZE_Enter sm
      else case be_state b of
        BE_AUTH_INITIALIZE \<Rightarrow> sm_BE_AUTH_IDLE_Enter sm
      | BE_AUTH_REQUEST \<Rightarrow>
          if aWhile sm = 0 \<and> reqCount b \<noteq> maxReq b then sm_BE_AUTH_REQUEST_Enter sm
          else if rxResp b then sm_BE_AUTH_RESPONSE_Enter sm
          else if aWhile sm = 0 \<and> reqCount b \<ge> maxReq b then sm_BE_AUTH_TIMEOUT_Enter sm
          else sm
      | BE_AUTH_RESPONSE \<Rightarrow>
          if aReq b then
            sm_BE_AUTH_REQUEST_Enter (sm\<lparr>be_auth := b\<lparr>backendAccessChallenges := backendAccessChallenges b + 1\<rparr>\<rparr>)
          else if aWhile sm = 0 then sm_BE_AUTH_TIMEOUT_Enter sm
          else if aFail b then
            sm_BE_AUTH_FAIL_Enter (sm\<lparr>be_auth := b\<lparr>backendAuthFails := backendAuthFails b + 1\<rparr>\<rparr>)
          else if aSuccess b then
            sm_BE_AUTH_SUCCESS_Enter (sm\<lparr>be_auth := b\<lparr>backendAuthSuccesses := backendAuthSuccesses b + 1\<rparr>\<rparr>)
          else sm
      | BE_AUTH_SUCCESS \<Rightarrow> sm_BE_AUTH_IDLE_Enter sm
      | BE_AUTH_FAIL \<Rightarrow> sm_BE_AUTH_IDLE_Enter sm
      | BE_AUTH_TIMEOUT \<Rightarrow> sm_BE_AUTH_IDLE_Enter sm
      | BE_AUTH_IDLE \<Rightarrow> if authStart sm then sm_BE_AUTH_RESPONSE_Enter sm else sm)"

section \<open>Reauthentication Timer\<close>

definition sm_REAUTH_TIMER_INITIALIZE_Enter :: "eapol_state_machine \<Rightarrow> eapol_state_machine" where
  "sm_REAUTH_TIMER_INITIALIZE_Enter sm =
     sm\<lparr>reauth_timer := (reauth_timer sm)\<lparr>rt_state := REAUTH_TIMER_INITIALIZE\<rparr>,
        reAuthWhen := to_int (reAuthPeriod (reauth_timer sm))\<rparr>"

definition sm_REAUTH_TIMER_REAUTHENTICATE_Enter :: "eapol_state_machine \<Rightarrow> eapol_state_machine" where
  "sm_REAUTH_TIMER_REAUTHENTICATE_Enter sm =
     sm\<lparr>reauth_timer := (reauth_timer sm)\<lparr>rt_state := REAUTH_TIMER_REAUTHENTICATE\<rparr>, reAuthenticate := True\<rparr>"

definition sm_REAUTH_TIMER_Step :: "eapol_state_machine \<Rightarrow> eapol_state_machine" where
  "sm_REAUTH_TIMER_Step sm =
     (if portControl sm \<noteq> Auto \<or> initialize sm \<or> portStatus sm = Unauthorized \<or> \<not> reAuthEnabled (reauth_timer sm)
      then sm_REAUTH_TIMER_INITIALIZE_Enter sm
      else case rt sm of
        REAUTH_TIMER_INITIALIZE \<Rightarrow> if reAuthWhen sm = 0 then sm_REAUTH_TIMER_REAUTHENTICATE_Enter sm else sm
      | REAUTH_TIMER_REAUTHENTICATE \<Rightarrow> sm_REAUTH_TIMER_INITIALIZE_Enter sm)"

section \<open>Authenticator Key Transmit\<close>

definition sm_AUTH_KEY_TX_NO_KEY_TRANSMIT_Enter :: "eapol_state_machine \<Rightarrow> eapol_state_machine" where
  "sm_AUTH_KEY_TX_NO_KEY_TRANSMIT_Enter sm =
     sm\<lparr>auth_key_tx := (auth_key_tx sm)\<lparr>kt_state := AUTH_KEY_TX_NO_KEY_TRANSMIT\<rparr>\<rparr>"

definition sm_AUTH_KEY_TX_KEY_TRANSMIT_Enter :: "eapol_state_machine \<Rightarrow> eapol_state_machine" where
  "sm_AUTH_KEY_TX_KEY_TRANSMIT_Enter sm =
     (act (TxKey (currentId sm)) (sm\<lparr>auth_key_tx := (auth_key_tx sm)\<lparr>kt_state := AUTH_KEY_TX_KEY_TRANSMIT\<rparr>\<rparr>))
       \<lparr>keyAvailable := False\<rparr>"

definition sm_AUTH_KEY_TX_Step :: "eapol_state_machine \<Rightarrow> eapol_state_machine" where
  "sm_AUTH_KEY_TX_Step sm =
     (if initialize sm \<or> portControl sm \<noteq> Auto then sm_AUTH_KEY_TX_NO_KEY_TRANSMIT_Enter sm
      else case kt sm of
        AUTH_KEY_TX_NO_KEY_TRANSMIT \<Rightarrow>
          if keyTxEnabled sm \<and> keyAvailable sm \<and> authSuccess sm then sm_AUTH_KEY_TX_KEY_TRANSMIT_Enter sm else sm
      | AUTH_KEY_TX_KEY_TRANSMIT \<Rightarrow>
          if \<not> keyTxEnabled sm \<or> authFail sm \<or> eapLogoff (auth_pae sm) then sm_AUTH_KEY_TX_NO_KEY_TRANSMIT_Enter sm
          else if keyAvailable sm then sm_AUTH_KEY_TX_KEY_TRANSMIT_Enter sm
          else sm)"

section \<open>The loop over the machines\<close>

definition sm_states :: "eapol_state_machine \<Rightarrow> pae_state \<times> be_state \<times> rt_state \<times> kt_state" where
  "sm_states sm = (pae sm, be sm, rt sm, kt sm)"

definition eapol_sm_pass :: "eapol_state_machine \<Rightarrow> eapol_state_machine" where
  "eapol_sm_pass sm = sm_AUTH_KEY_TX_Step (sm_REAUTH_TIMER_Step (sm_BE_AUTH_Step (sm_AUTH_PAE_Step sm)))"

partial_function (option) eapol_sm_step :: "eapol_state_machine \<Rightarrow> eapol_state_machine run" where
  "eapol_sm_step sm =
     (if sm_states (eapol_sm_pass sm) \<noteq> sm_states sm then eapol_sm_step (eapol_sm_pass sm)
      else ret (eapol_sm_pass sm))"

declare eapol_sm_step.simps [code]

text \<open>\<open>eapol_sm_initialize\<close>; the daemon registers the tick (\<open>sta_sm_alloc\<close> in \<open>Ieee8021xTx\<close>).\<close>

definition eapol_sm_initialize :: "eapol_state_machine \<Rightarrow> eapol_state_machine run" where
  "eapol_sm_initialize sm =
     run_bind (eapol_sm_step (sm\<lparr>initialize := True\<rparr>)) (\<lambda>sm. eapol_sm_step (sm\<lparr>initialize := False\<rparr>))"

text \<open>The block \<open>memset\<close> leaves, and the defaults set on it.\<close>

definition eapol_sm_zero :: eapol_state_machine where
  "eapol_sm_zero = \<lparr>aWhile = 0, quietWhile = 0, reAuthWhen = 0, txWhen = 0, authAbort = False, authFail = False,
     authStart = False, authTimeout = False, authSuccess = False, currentId = 0, initialize = False,
     keyAvailable = False, keyTxEnabled = False, portControl = ForceUnauthorized, portEnabled = False,
     portStatus = Unauthorized, portValid = False, reAuthenticate = False,
     auth_pae = \<lparr>eapLogoff = False, eapStart = False, portMode = ForceUnauthorized, reAuthCount = 0,
       rxInitialRsp = False, quietPeriod = 0, initialEAPMsg = EAPRequestIdentity, reAuthMax = 0, txPeriod = 0,
       authEntersConnecting = 0, authEapLogoffsWhileConnecting = 0, authEntersAuthenticating = 0,
       authAuthSuccessesWhileAuthenticating = 0, authAuthTimeoutsWhileAuthenticating = 0,
       authAuthFailWhileAuthenticating = 0, authAuthReauthsWhileAuthenticating = 0,
       authAuthEapStartsWhileAuthenticating = 0, authAuthEapLogoffWhileAuthenticating = 0,
       authAuthReauthsWhileAuthenticated = 0, authAuthEapStartsWhileAuthenticated = 0,
       authAuthEapLogoffWhileAuthenticated = 0, pae_state = AUTH_PAE_INITIALIZE\<rparr>,
     be_auth = \<lparr>reqCount = 0, rxResp = False, aSuccess = False, aFail = False, aReq = False, idFromServer = 0,
       suppTimeout = 0, serverTimeout = 0, maxReq = 0, backendResponses = 0, backendAccessChallenges = 0,
       backendOtherRequestsToSupplicant = 0, backendNonNakResponsesFromSupplicant = 0,
       backendAuthSuccesses = 0, backendAuthFails = 0, be_state = BE_AUTH_REQUEST\<rparr>,
     reauth_timer = \<lparr>reAuthPeriod = 0, reAuthEnabled = False, rt_state = REAUTH_TIMER_INITIALIZE\<rparr>,
     auth_key_tx = \<lparr>kt_state = AUTH_KEY_TX_NO_KEY_TRANSMIT\<rparr>,
     acts = []\<rparr>"

definition eapol_sm_defaults :: "u32 \<Rightarrow> bool \<Rightarrow> u32 \<Rightarrow> eapol_state_machine" where
  "eapol_sm_defaults quiet_interval session_timeout_set session_timeout_interval =
     eapol_sm_zero\<lparr>
       auth_pae := (auth_pae eapol_sm_zero)\<lparr>pae_state := AUTH_PAE_INITIALIZE, quietPeriod := quiet_interval,
         initialEAPMsg := EAPRequestIdentity, reAuthMax := AUTH_PAE_DEFAULT_reAuthMax,
         txPeriod := AUTH_PAE_DEFAULT_txPeriod\<rparr>,
       be_auth := (be_auth eapol_sm_zero)\<lparr>be_state := BE_AUTH_INITIALIZE, suppTimeout := BE_AUTH_DEFAULT_suppTimeout,
         serverTimeout := BE_AUTH_DEFAULT_serverTimeout, maxReq := BE_AUTH_DEFAULT_maxReq\<rparr>,
       reauth_timer := (if session_timeout_set
         then \<lparr>reAuthPeriod = session_timeout_interval, reAuthEnabled = True, rt_state = REAUTH_TIMER_INITIALIZE\<rparr>
         else \<lparr>reAuthPeriod = REAUTH_TIMER_DEFAULT_reAuthPeriod, reAuthEnabled = REAUTH_TIMER_DEFAULT_reAuthEnabled,
                rt_state = REAUTH_TIMER_INITIALIZE\<rparr>),
       portEnabled := False, portControl := Auto, currentId := 1, keyAvailable := False, keyTxEnabled := True,
       portValid := True\<rparr>"

definition sizeof_eapol_state_machine :: nat where "sizeof_eapol_state_machine = 248"

definition eapol_sm_alloc :: "allocator \<Rightarrow> u32 \<Rightarrow> bool \<Rightarrow> u32 \<Rightarrow> eapol_state_machine option run" where
  "eapol_sm_alloc alloc quiet_interval session_timeout_set session_timeout_interval =
     (if \<not> alloc sizeof_eapol_state_machine then ret None
      else run_map Some (eapol_sm_initialize
             (eapol_sm_defaults quiet_interval session_timeout_set session_timeout_interval)))"

text \<open>The body of \<open>eapol_port_timers_tick\<close> before it registers itself again.\<close>

definition count_down :: "int \<Rightarrow> int" where
  "count_down t = (if t > 0 then t - 1 else t)"

definition eapol_port_timers_tick :: "eapol_state_machine \<Rightarrow> eapol_state_machine run" where
  "eapol_port_timers_tick st =
     eapol_sm_step (st\<lparr>aWhile := count_down (aWhile st), quietWhile := count_down (quietWhile st),
       reAuthWhen := count_down (reAuthWhen st), txWhen := count_down (txWhen st)\<rparr>)"

section \<open>The invariant\<close>

lemmas enter_defs =
  sm_AUTH_PAE_INITIALIZE_Enter_def sm_AUTH_PAE_DISCONNECTED_Enter_def sm_AUTH_PAE_CONNECTING_Enter_def
  sm_AUTH_PAE_HELD_Enter_def sm_AUTH_PAE_AUTHENTICATED_Enter_def sm_AUTH_PAE_AUTHENTICATING_Enter_def
  sm_AUTH_PAE_ABORTING_Enter_def sm_AUTH_PAE_FORCE_AUTH_Enter_def sm_AUTH_PAE_FORCE_UNAUTH_Enter_def
  sm_BE_AUTH_INITIALIZE_Enter_def sm_BE_AUTH_REQUEST_Enter_def sm_BE_AUTH_RESPONSE_Enter_def
  sm_BE_AUTH_SUCCESS_Enter_def sm_BE_AUTH_FAIL_Enter_def sm_BE_AUTH_TIMEOUT_Enter_def sm_BE_AUTH_IDLE_Enter_def
  sm_REAUTH_TIMER_INITIALIZE_Enter_def sm_REAUTH_TIMER_REAUTHENTICATE_Enter_def
  sm_AUTH_KEY_TX_NO_KEY_TRANSMIT_Enter_def sm_AUTH_KEY_TX_KEY_TRANSMIT_Enter_def

text \<open>What the configuration fixes once the port is enabled, and where the PAE may be.\<close>

definition sm_config :: "eapol_state_machine \<Rightarrow> bool" where
  "sm_config sm \<longleftrightarrow> portControl sm = Auto \<and> \<not> initialize sm \<and> portEnabled sm \<and> portValid sm
     \<and> 1 \<le> unat (reAuthMax (auth_pae sm)) \<and> unat (reAuthMax (auth_pae sm)) < 2 ^ 31
     \<and> to_int (txPeriod (auth_pae sm)) \<noteq> 0 \<and> to_int (serverTimeout (be_auth sm)) \<noteq> 0"

definition pae_inv :: "eapol_state_machine \<Rightarrow> bool" where
  "pae_inv sm \<longleftrightarrow> portMode (auth_pae sm) = Auto
     \<and> pae sm \<noteq> AUTH_PAE_FORCE_AUTH \<and> pae sm \<noteq> AUTH_PAE_FORCE_UNAUTH
     \<and> (pae sm \<in> {AUTH_PAE_INITIALIZE, AUTH_PAE_DISCONNECTED, AUTH_PAE_HELD} \<longrightarrow> portStatus sm = Unauthorized)
     \<and> (pae sm = AUTH_PAE_AUTHENTICATED \<longrightarrow> portStatus sm = Authorized)
     \<and> (pae sm = AUTH_PAE_DISCONNECTED \<longrightarrow> reAuthCount (auth_pae sm) = 0)
     \<and> unat (reAuthCount (auth_pae sm)) \<le> unat (reAuthMax (auth_pae sm)) + (if pae sm = AUTH_PAE_CONNECTING then 1 else 0)"

definition sm_inv :: "eapol_state_machine \<Rightarrow> bool" where
  "sm_inv sm \<longleftrightarrow> sm_config sm \<and> pae_inv sm \<and> \<not> authAbort sm"

text \<open>The measure: what only an event of the environment brings back comes first.\<close>

definition pending :: "eapol_state_machine \<Rightarrow> bool" where
  "pending sm \<longleftrightarrow> txWhen sm = 0 \<or> eapStart (auth_pae sm) \<or> reAuthenticate sm"

definition top_rank :: "eapol_state_machine \<Rightarrow> nat" where
  "top_rank sm =
     8 * (if pae sm = AUTH_PAE_CONNECTING \<and> rxInitialRsp (auth_pae sm) then 2
          else if pae sm = AUTH_PAE_AUTHENTICATING then 1 else 0)
     + 4 * of_bool (pae sm = AUTH_PAE_AUTHENTICATED)
     + 2 * of_bool (portStatus sm = Authorized)
     + of_bool (eapLogoff (auth_pae sm))"

definition pae_rank :: "eapol_state_machine \<Rightarrow> nat" where
  "pae_rank sm =
     (let c = unat (reAuthCount (auth_pae sm)); M = unat (reAuthMax (auth_pae sm)) in
      if portStatus sm = Unauthorized then
        (case pae sm of
           AUTH_PAE_CONNECTING \<Rightarrow> if c > M then 3 else if pending sm then 4 else 1
         | AUTH_PAE_DISCONNECTED \<Rightarrow> 2
         | AUTH_PAE_AUTHENTICATING \<Rightarrow> 0
         | AUTH_PAE_AUTHENTICATED \<Rightarrow> 0
         | _ \<Rightarrow> 5)
      else
        (case pae sm of
           AUTH_PAE_CONNECTING \<Rightarrow> 3 * (M + 1 - c) + (if pending sm then 1 else 2)
         | AUTH_PAE_ABORTING \<Rightarrow> 3 * (M + 1 - c) + 5
         | _ \<Rightarrow> if reAuthenticate sm then 1 else 2))"

definition rt_rank :: "eapol_state_machine \<Rightarrow> nat" where
  "rt_rank sm = of_bool (rt sm = REAUTH_TIMER_REAUTHENTICATE)"

definition be_rank :: "eapol_state_machine \<Rightarrow> nat" where
  "be_rank sm =
     (case be sm of
        BE_AUTH_INITIALIZE \<Rightarrow> 7
      | BE_AUTH_IDLE \<Rightarrow> if authStart sm then 6 else 0
      | BE_AUTH_RESPONSE \<Rightarrow> if aReq (be_auth sm) \<or> aWhile sm = 0 \<or> aFail (be_auth sm) \<or> aSuccess (be_auth sm) then 5 else 2
      | BE_AUTH_REQUEST \<Rightarrow> if rxResp (be_auth sm) then 4 else 3
      | _ \<Rightarrow> 1)"

definition kt_rank :: "eapol_state_machine \<Rightarrow> nat" where
  "kt_rank sm = 2 * of_bool (keyAvailable sm) + of_bool (kt sm = AUTH_KEY_TX_KEY_TRANSMIT)"

definition hi_less :: "eapol_state_machine \<Rightarrow> eapol_state_machine \<Rightarrow> bool" where
  "hi_less s' s \<longleftrightarrow> top_rank s' < top_rank s \<or> top_rank s' = top_rank s \<and> pae_rank s' < pae_rank s"

definition hi_le :: "eapol_state_machine \<Rightarrow> eapol_state_machine \<Rightarrow> bool" where
  "hi_le s' s \<longleftrightarrow> top_rank s' < top_rank s \<or> top_rank s' = top_rank s \<and> pae_rank s' \<le> pae_rank s"

lemma hi_le_refl [simp]: "hi_le s s" by (simp add: hi_le_def)
lemma hi_less_le: "hi_less s' s \<Longrightarrow> hi_le s'' s' \<Longrightarrow> hi_less s'' s" by (auto simp: hi_less_def hi_le_def)

lemmas rank_defs = hi_less_def hi_le_def top_rank_def pae_rank_def pending_def Let_def

text \<open>The PAE cannot move: nothing is pending in the state it is in.\<close>

definition pae_quiet :: "eapol_state_machine \<Rightarrow> bool" where
  "pae_quiet sm \<longleftrightarrow> pae sm \<noteq> AUTH_PAE_ABORTING
     \<and> (pae sm = AUTH_PAE_CONNECTING \<longrightarrow> \<not> pending sm)
     \<and> (pae sm \<in> {AUTH_PAE_AUTHENTICATED, AUTH_PAE_AUTHENTICATING} \<longrightarrow> \<not> reAuthenticate sm)"

lemma unat_Suc_word: "unat (c :: u32) < 2 ^ 32 - 1 \<Longrightarrow> unat (c + 1) = Suc (unat c)"
  by (subst unat_plus_if_size) (simp add: word_size)

text \<open>Entering a state keeps the invariant and lowers the rank, one state at a time.\<close>

lemma connecting_step:
  assumes "sm_config s" "pae_inv s" "unat (reAuthCount (auth_pae s)) \<le> unat (reAuthMax (auth_pae s))"
  shows "sm_config (sm_AUTH_PAE_CONNECTING_Enter s)" "pae_inv (sm_AUTH_PAE_CONNECTING_Enter s)"
    and "unat (reAuthCount (auth_pae (sm_AUTH_PAE_CONNECTING_Enter s))) = Suc (unat (reAuthCount (auth_pae s)))"
proof -
  have c: "unat (reAuthCount (auth_pae s) + 1) = Suc (unat (reAuthCount (auth_pae s)))"
    using assms by (intro unat_Suc_word) (simp add: sm_config_def)
  show "sm_config (sm_AUTH_PAE_CONNECTING_Enter s)" "pae_inv (sm_AUTH_PAE_CONNECTING_Enter s)"
    "unat (reAuthCount (auth_pae (sm_AUTH_PAE_CONNECTING_Enter s))) = Suc (unat (reAuthCount (auth_pae s)))"
    using assms c by (auto simp: sm_config_def pae_inv_def enter_defs Let_def)
qed

lemma connecting_view:
  "pae (sm_AUTH_PAE_CONNECTING_Enter s) = AUTH_PAE_CONNECTING"
  "\<not> rxInitialRsp (auth_pae (sm_AUTH_PAE_CONNECTING_Enter s))"
  "portStatus (sm_AUTH_PAE_CONNECTING_Enter s) = portStatus s"
  "eapLogoff (auth_pae (sm_AUTH_PAE_CONNECTING_Enter s)) = eapLogoff (auth_pae s)"
  "reAuthMax (auth_pae (sm_AUTH_PAE_CONNECTING_Enter s)) = reAuthMax (auth_pae s)"
  "authAbort (sm_AUTH_PAE_CONNECTING_Enter s) = authAbort s"
  "pending (sm_AUTH_PAE_CONNECTING_Enter s) \<longleftrightarrow> to_int (txPeriod (auth_pae s)) = 0"
  by (simp_all add: enter_defs Let_def pending_def)

lemma pae_step:
  assumes inv: "sm_inv s"
  defines "s' \<equiv> sm_AUTH_PAE_Step s"
  shows "sm_config s'" "pae_inv s'" "s' = s \<and> pae_quiet s \<or> hi_less s' s"
proof -
  have cfg: "sm_config s" and pinv: "pae_inv s" and ab: "\<not> authAbort s" using inv by (simp_all add: sm_inv_def)
  have tx: "\<not> pending (sm_AUTH_PAE_CONNECTING_Enter s)" using cfg by (simp add: connecting_view sm_config_def)
  have max: "1 \<le> unat (reAuthMax (auth_pae s))" using cfg by (simp add: sm_config_def)
  note c = connecting_step [OF cfg pinv]
  have "sm_config s' \<and> pae_inv s' \<and> (s' = s \<and> pae_quiet s \<or> hi_less s' s)"
  proof (cases "pae s")
    case AUTH_PAE_INITIALIZE
    then show ?thesis
      using cfg pinv by (auto simp: s'_def sm_AUTH_PAE_Step_def enter_defs Let_def sm_config_def pae_inv_def rank_defs)
  next
    case AUTH_PAE_DISCONNECTED
    then have "s' = sm_AUTH_PAE_CONNECTING_Enter s" "reAuthCount (auth_pae s) = 0" "portStatus s = Unauthorized"
      using cfg pinv by (simp_all add: s'_def sm_AUTH_PAE_Step_def sm_config_def pae_inv_def)
    then show ?thesis
      using AUTH_PAE_DISCONNECTED c tx max by (simp add: hi_less_def top_rank_def pae_rank_def connecting_view Let_def)
  next
    case AUTH_PAE_CONNECTING
    have step: "s' = (if eapLogoff (auth_pae s) \<or> unat (reAuthCount (auth_pae s)) > unat (reAuthMax (auth_pae s))
         then sm_AUTH_PAE_DISCONNECTED_Enter s
       else if rxInitialRsp (auth_pae s) then sm_AUTH_PAE_AUTHENTICATING_Enter s
       else if pending s then sm_AUTH_PAE_CONNECTING_Enter s else s)"
      using AUTH_PAE_CONNECTING cfg pinv
      by (auto simp: s'_def sm_AUTH_PAE_Step_def sm_config_def pae_inv_def pending_def word_less_nat_alt word_le_nat_alt)
    consider "eapLogoff (auth_pae s) \<or> unat (reAuthCount (auth_pae s)) > unat (reAuthMax (auth_pae s))"
      | "\<not> eapLogoff (auth_pae s)" "unat (reAuthCount (auth_pae s)) \<le> unat (reAuthMax (auth_pae s))" "rxInitialRsp (auth_pae s)"
      | "\<not> eapLogoff (auth_pae s)" "unat (reAuthCount (auth_pae s)) \<le> unat (reAuthMax (auth_pae s))" "\<not> rxInitialRsp (auth_pae s)" "pending s"
      | "\<not> eapLogoff (auth_pae s)" "unat (reAuthCount (auth_pae s)) \<le> unat (reAuthMax (auth_pae s))" "\<not> rxInitialRsp (auth_pae s)" "\<not> pending s"
      by (meson not_le)
    then show ?thesis
    proof cases
      case 1
      then have "s' = sm_AUTH_PAE_DISCONNECTED_Enter s" by (simp add: step)
      with 1 show ?thesis using cfg pinv AUTH_PAE_CONNECTING
        by (cases "portStatus s") (auto simp: enter_defs Let_def sm_config_def pae_inv_def hi_less_def top_rank_def pae_rank_def)
    next
      case 2
      then have "s' = sm_AUTH_PAE_AUTHENTICATING_Enter s" by (simp add: step)
      with 2 show ?thesis using cfg pinv AUTH_PAE_CONNECTING
        by (auto simp: enter_defs Let_def sm_config_def pae_inv_def hi_less_def top_rank_def)
    next
      case 3
      then have "s' = sm_AUTH_PAE_CONNECTING_Enter s" by (simp add: step)
      moreover have "hi_less (sm_AUTH_PAE_CONNECTING_Enter s) s" using 3 c tx AUTH_PAE_CONNECTING
        by (simp add: hi_less_def top_rank_def pae_rank_def connecting_view Let_def Suc_diff_le)
      ultimately show ?thesis using 3 c by simp
    next
      case 4
      then show ?thesis using cfg pinv AUTH_PAE_CONNECTING by (simp add: step pae_quiet_def)
    qed
  next
    case AUTH_PAE_AUTHENTICATING
    then show ?thesis
      using cfg pinv by (auto simp: s'_def sm_AUTH_PAE_Step_def enter_defs Let_def sm_config_def pae_inv_def rank_defs pae_quiet_def)
  next
    case AUTH_PAE_AUTHENTICATED
    then have bound: "unat (reAuthCount (auth_pae s)) \<le> unat (reAuthMax (auth_pae s))" and st: "portStatus s = Authorized"
      using pinv by (simp_all add: pae_inv_def)
    have step: "s' = (if eapStart (auth_pae s) \<or> reAuthenticate s then sm_AUTH_PAE_CONNECTING_Enter s
       else if eapLogoff (auth_pae s) then sm_AUTH_PAE_DISCONNECTED_Enter s else s)"
      using AUTH_PAE_AUTHENTICATED cfg pinv by (simp add: s'_def sm_AUTH_PAE_Step_def sm_config_def pae_inv_def)
    consider "eapStart (auth_pae s) \<or> reAuthenticate s"
      | "\<not> (eapStart (auth_pae s) \<or> reAuthenticate s)" "eapLogoff (auth_pae s)"
      | "\<not> (eapStart (auth_pae s) \<or> reAuthenticate s)" "\<not> eapLogoff (auth_pae s)"
      by blast
    then show ?thesis
    proof cases
      case 1
      then have "s' = sm_AUTH_PAE_CONNECTING_Enter s" unfolding step by (rule if_P)
      then show ?thesis using c [OF bound] AUTH_PAE_AUTHENTICATED
        by (simp add: hi_less_def top_rank_def connecting_view)
    next
      case 2
      then have "s' = sm_AUTH_PAE_DISCONNECTED_Enter s" unfolding step by (simp only: if_False if_True)
      then show ?thesis using cfg pinv AUTH_PAE_AUTHENTICATED st
        by (auto simp: enter_defs Let_def sm_config_def pae_inv_def hi_less_def top_rank_def)
    next
      case 3
      then show ?thesis using cfg pinv AUTH_PAE_AUTHENTICATED by (simp add: step pae_quiet_def)
    qed
  next
    case AUTH_PAE_ABORTING
    then have bound: "unat (reAuthCount (auth_pae s)) \<le> unat (reAuthMax (auth_pae s))"
      using pinv by (simp add: pae_inv_def)
    show ?thesis
    proof (cases "eapLogoff (auth_pae s)")
      case True
      then have "s' = sm_AUTH_PAE_DISCONNECTED_Enter s"
        using AUTH_PAE_ABORTING cfg pinv ab by (simp add: s'_def sm_AUTH_PAE_Step_def sm_config_def pae_inv_def)
      then show ?thesis using True cfg pinv AUTH_PAE_ABORTING
        by (auto simp: enter_defs Let_def sm_config_def pae_inv_def hi_less_def top_rank_def)
    next
      case False
      then have "s' = sm_AUTH_PAE_CONNECTING_Enter s"
        using AUTH_PAE_ABORTING cfg pinv ab by (simp add: s'_def sm_AUTH_PAE_Step_def sm_config_def pae_inv_def)
      then show ?thesis using c [OF bound] tx AUTH_PAE_ABORTING bound
        by (simp add: hi_less_def top_rank_def pae_rank_def connecting_view Let_def Suc_diff_le)
    qed
  next
    case AUTH_PAE_HELD
    then have bound: "unat (reAuthCount (auth_pae s)) \<le> unat (reAuthMax (auth_pae s))" and st: "portStatus s = Unauthorized"
      using pinv by (simp_all add: pae_inv_def)
    show ?thesis
    proof (cases "quietWhile s = 0")
      case True
      then have "s' = sm_AUTH_PAE_CONNECTING_Enter s"
        using AUTH_PAE_HELD cfg pinv by (simp add: s'_def sm_AUTH_PAE_Step_def sm_config_def pae_inv_def)
      then show ?thesis using c [OF bound] tx st AUTH_PAE_HELD
        by (simp add: hi_less_def top_rank_def pae_rank_def connecting_view Let_def)
    next
      case False
      then show ?thesis
        using AUTH_PAE_HELD cfg pinv by (simp add: s'_def sm_AUTH_PAE_Step_def sm_config_def pae_inv_def pae_quiet_def)
    qed
  qed (use pinv in \<open>simp_all add: pae_inv_def\<close>)
  then show "sm_config s'" "pae_inv s'" "s' = s \<and> pae_quiet s \<or> hi_less s' s" by simp_all
qed

text \<open>The back end leaves what the ranks above it read as it is.\<close>

lemma be_frame:
  "auth_pae (sm_BE_AUTH_Step s) = auth_pae s" "portStatus (sm_BE_AUTH_Step s) = portStatus s"
  "txWhen (sm_BE_AUTH_Step s) = txWhen s" "reAuthenticate (sm_BE_AUTH_Step s) = reAuthenticate s"
  "reauth_timer (sm_BE_AUTH_Step s) = reauth_timer s" "auth_key_tx (sm_BE_AUTH_Step s) = auth_key_tx s"
  "keyAvailable (sm_BE_AUTH_Step s) = keyAvailable s" "reAuthWhen (sm_BE_AUTH_Step s) = reAuthWhen s"
  "portControl (sm_BE_AUTH_Step s) = portControl s" "initialize (sm_BE_AUTH_Step s) = initialize s"
  "portEnabled (sm_BE_AUTH_Step s) = portEnabled s" "portValid (sm_BE_AUTH_Step s) = portValid s"
  "serverTimeout (be_auth (sm_BE_AUTH_Step s)) = serverTimeout (be_auth s)"
  "quietWhile (sm_BE_AUTH_Step s) = quietWhile s"
  by (cases "be_state (be_auth s)"; simp add: sm_BE_AUTH_Step_def enter_defs Let_def)+

lemma be_keeps:
  assumes "sm_config s" "pae_inv s"
  shows "sm_inv (sm_BE_AUTH_Step s)" "top_rank (sm_BE_AUTH_Step s) = top_rank s"
    "pae_rank (sm_BE_AUTH_Step s) = pae_rank s" "pae_quiet (sm_BE_AUTH_Step s) = pae_quiet s"
    "rt_rank (sm_BE_AUTH_Step s) = rt_rank s" "kt_rank (sm_BE_AUTH_Step s) = kt_rank s"
proof -
  have "\<not> authAbort (sm_BE_AUTH_Step s)"
    by (cases "be_state (be_auth s)") (simp_all add: sm_BE_AUTH_Step_def enter_defs Let_def)
  then show "sm_inv (sm_BE_AUTH_Step s)"
    using assms by (simp add: sm_inv_def sm_config_def pae_inv_def be_frame)
qed (simp_all only: top_rank_def pae_rank_def pae_quiet_def pending_def rt_rank_def kt_rank_def be_frame)

lemma be_step:
  assumes "sm_inv s"
  shows "be (sm_BE_AUTH_Step s) = be s \<and> be_rank (sm_BE_AUTH_Step s) \<le> be_rank s
    \<or> be_rank (sm_BE_AUTH_Step s) < be_rank s"
proof -
  have c: "portControl s = Auto" "\<not> initialize s" "\<not> authAbort s" "to_int (serverTimeout (be_auth s)) \<noteq> 0"
    using assms by (simp_all add: sm_inv_def sm_config_def)
  then show ?thesis
    by (cases "be_state (be_auth s)")
       (simp_all add: sm_BE_AUTH_Step_def enter_defs Let_def be_rank_def split: if_split)
qed

lemma rt_frame:
  "auth_pae (sm_REAUTH_TIMER_Step s) = auth_pae s" "portStatus (sm_REAUTH_TIMER_Step s) = portStatus s"
  "txWhen (sm_REAUTH_TIMER_Step s) = txWhen s" "be_auth (sm_REAUTH_TIMER_Step s) = be_auth s"
  "auth_key_tx (sm_REAUTH_TIMER_Step s) = auth_key_tx s" "authAbort (sm_REAUTH_TIMER_Step s) = authAbort s"
  "keyAvailable (sm_REAUTH_TIMER_Step s) = keyAvailable s" "aWhile (sm_REAUTH_TIMER_Step s) = aWhile s"
  "authStart (sm_REAUTH_TIMER_Step s) = authStart s"
  "portControl (sm_REAUTH_TIMER_Step s) = portControl s" "initialize (sm_REAUTH_TIMER_Step s) = initialize s"
  "portEnabled (sm_REAUTH_TIMER_Step s) = portEnabled s" "portValid (sm_REAUTH_TIMER_Step s) = portValid s"
  by (cases "rt_state (reauth_timer s)"; simp add: sm_REAUTH_TIMER_Step_def enter_defs Let_def)+

lemma rt_keeps:
  assumes "sm_inv s"
  shows "sm_inv (sm_REAUTH_TIMER_Step s)" "be_rank (sm_REAUTH_TIMER_Step s) = be_rank s"
    "kt_rank (sm_REAUTH_TIMER_Step s) = kt_rank s" "top_rank (sm_REAUTH_TIMER_Step s) = top_rank s"
  using assms unfolding sm_inv_def sm_config_def pae_inv_def be_rank_def kt_rank_def top_rank_def rt_frame by auto

lemma rt_cases:
  "reAuthenticate (sm_REAUTH_TIMER_Step s) = reAuthenticate s \<and> rt (sm_REAUTH_TIMER_Step s) = rt s
   \<or> reAuthenticate (sm_REAUTH_TIMER_Step s) = reAuthenticate s \<and> rt s = REAUTH_TIMER_REAUTHENTICATE
      \<and> rt (sm_REAUTH_TIMER_Step s) = REAUTH_TIMER_INITIALIZE
   \<or> reAuthenticate (sm_REAUTH_TIMER_Step s) \<and> portStatus s = Authorized"
  by (cases "rt_state (reauth_timer s)"; cases "portStatus s")
     (simp_all add: sm_REAUTH_TIMER_Step_def enter_defs Let_def)

lemma rt_step:
  assumes "sm_inv s"
  shows "pae_rank (sm_REAUTH_TIMER_Step s) \<le> pae_rank s"
    and "pae_quiet s \<Longrightarrow> pae_rank (sm_REAUTH_TIMER_Step s) < pae_rank s
      \<or> pae_rank (sm_REAUTH_TIMER_Step s) = pae_rank s
        \<and> (rt (sm_REAUTH_TIMER_Step s) = rt s \<or> rt_rank (sm_REAUTH_TIMER_Step s) < rt_rank s)"
proof -
  have inv: "pae_inv s" using assms by (simp add: sm_inv_def)
  have eq: "pae_rank (sm_REAUTH_TIMER_Step s) = pae_rank s"
    if "reAuthenticate (sm_REAUTH_TIMER_Step s) = reAuthenticate s"
    unfolding pae_rank_def pending_def rt_frame that by (rule refl)
  have raise: "pae_rank (sm_REAUTH_TIMER_Step s) \<le> pae_rank s \<and> (pae_quiet s \<longrightarrow> pae_rank (sm_REAUTH_TIMER_Step s) < pae_rank s)"
    if "reAuthenticate (sm_REAUTH_TIMER_Step s)" "portStatus s = Authorized"
    using that inv by (cases "pae s") (auto simp: pae_rank_def pae_quiet_def pending_def pae_inv_def rt_frame Let_def)
  show "pae_rank (sm_REAUTH_TIMER_Step s) \<le> pae_rank s"
    using rt_cases [of s] eq raise by auto
  show "pae_quiet s \<Longrightarrow> pae_rank (sm_REAUTH_TIMER_Step s) < pae_rank s
      \<or> pae_rank (sm_REAUTH_TIMER_Step s) = pae_rank s
        \<and> (rt (sm_REAUTH_TIMER_Step s) = rt s \<or> rt_rank (sm_REAUTH_TIMER_Step s) < rt_rank s)"
    using rt_cases [of s] eq raise by (auto simp: rt_rank_def)
qed

lemma kt_frame:
  "auth_pae (sm_AUTH_KEY_TX_Step s) = auth_pae s" "portStatus (sm_AUTH_KEY_TX_Step s) = portStatus s"
  "txWhen (sm_AUTH_KEY_TX_Step s) = txWhen s" "be_auth (sm_AUTH_KEY_TX_Step s) = be_auth s"
  "reauth_timer (sm_AUTH_KEY_TX_Step s) = reauth_timer s" "authAbort (sm_AUTH_KEY_TX_Step s) = authAbort s"
  "aWhile (sm_AUTH_KEY_TX_Step s) = aWhile s" "reAuthenticate (sm_AUTH_KEY_TX_Step s) = reAuthenticate s"
  "authStart (sm_AUTH_KEY_TX_Step s) = authStart s"
  "portControl (sm_AUTH_KEY_TX_Step s) = portControl s" "initialize (sm_AUTH_KEY_TX_Step s) = initialize s"
  "portEnabled (sm_AUTH_KEY_TX_Step s) = portEnabled s" "portValid (sm_AUTH_KEY_TX_Step s) = portValid s"
  by (cases "kt_state (auth_key_tx s)"; simp add: sm_AUTH_KEY_TX_Step_def enter_defs Let_def)+

lemma kt_step:
  assumes "sm_inv s"
  shows "sm_inv (sm_AUTH_KEY_TX_Step s)" "top_rank (sm_AUTH_KEY_TX_Step s) = top_rank s"
    "pae_rank (sm_AUTH_KEY_TX_Step s) = pae_rank s" "rt_rank (sm_AUTH_KEY_TX_Step s) = rt_rank s"
    "be_rank (sm_AUTH_KEY_TX_Step s) = be_rank s"
    "kt (sm_AUTH_KEY_TX_Step s) = kt s \<or> kt_rank (sm_AUTH_KEY_TX_Step s) < kt_rank s"
proof -
  have "portControl s = Auto" "\<not> initialize s" using assms by (simp_all add: sm_inv_def sm_config_def)
  then show "kt (sm_AUTH_KEY_TX_Step s) = kt s \<or> kt_rank (sm_AUTH_KEY_TX_Step s) < kt_rank s"
    by (cases "kt_state (auth_key_tx s)") (auto simp: sm_AUTH_KEY_TX_Step_def enter_defs kt_rank_def)
  show "sm_inv (sm_AUTH_KEY_TX_Step s)"
    using assms unfolding sm_inv_def sm_config_def pae_inv_def kt_frame .
qed (simp_all only: top_rank_def pae_rank_def pending_def rt_rank_def be_rank_def kt_frame)

section \<open>The loop ends\<close>

definition sm_measure :: "(eapol_state_machine \<times> eapol_state_machine) set" where
  "sm_measure = inv_image (less_than <*lex*> less_than <*lex*> less_than <*lex*> less_than <*lex*> less_than)
     (\<lambda>s. (top_rank s, pae_rank s, rt_rank s, be_rank s, kt_rank s))"

lemma wf_sm_measure: "wf sm_measure"
  by (auto simp: sm_measure_def)

lemma pass_step:
  assumes inv: "sm_inv s"
  shows "sm_inv (eapol_sm_pass s)"
    and "sm_states (eapol_sm_pass s) \<noteq> sm_states s \<Longrightarrow> (eapol_sm_pass s, s) \<in> sm_measure"
proof -
  define p where "p = sm_AUTH_PAE_Step s"
  define b where "b = sm_BE_AUTH_Step p"
  define r where "r = sm_REAUTH_TIMER_Step b"
  define k where "k = sm_AUTH_KEY_TX_Step r"
  have k: "eapol_sm_pass s = k" by (simp add: eapol_sm_pass_def k_def r_def b_def p_def)
  note P = pae_step [OF inv, folded p_def]
  note B = be_keeps [OF P(1,2), folded b_def]
  note R = rt_keeps [OF B(1), folded r_def]
  note K = kt_step [OF R(1), folded k_def]
  show "sm_inv (eapol_sm_pass s)" using K(1) by (simp add: k)
  assume ch: "sm_states (eapol_sm_pass s) \<noteq> sm_states s"
  show "(eapol_sm_pass s, s) \<in> sm_measure"
  proof (cases "p = s \<and> pae_quiet s")
    case False
    then have "hi_less p s" using P(3) by blast
    moreover have "top_rank k = top_rank p" "pae_rank k \<le> pae_rank p"
      using K(2,3) R(4) B(2,3) rt_step(1) [OF B(1)] by (simp_all add: r_def)
    ultimately show ?thesis by (auto simp: k sm_measure_def hi_less_def)
  next
    case True
    then have ps: "p = s" and q: "pae_quiet b" using B(4) by simp_all
    have pae: "pae k = pae s" by (simp add: k_def r_def b_def ps kt_frame rt_frame be_frame)
    have top: "top_rank k = top_rank s" "pae_rank k = pae_rank r" "pae_rank b = pae_rank s"
      using K(2,3) R(4) B(2,3) by (simp_all add: ps)
    have rts: "rt k = rt r" "rt_rank k = rt_rank r" "rt b = rt s" "rt_rank b = rt_rank s"
      using K(4) B(5) by (simp_all add: k_def b_def ps kt_frame be_frame)
    have bes: "be k = be b" "be_rank k = be_rank b"
      using K(5) R(2) by (simp_all add: k_def r_def kt_frame rt_frame)
    have be: "be b = be s \<and> be_rank b \<le> be_rank s \<or> be_rank b < be_rank s"
      using be_step [OF inv] by (simp add: b_def ps)
    have kts: "kt r = kt s" "kt_rank r = kt_rank s"
      using R(3) B(6) by (simp_all add: r_def b_def ps rt_frame be_frame)
    from rt_step(2) [OF B(1) q, folded r_def] have rts2: "pae_rank r < pae_rank s
      \<or> pae_rank r = pae_rank s \<and> (rt r = rt s \<or> rt_rank r < rt_rank s)"
      by (simp only: top rts)
    have rtr: "rt r = rt s \<Longrightarrow> rt_rank r = rt_rank s" by (simp only: rt_rank_def)
    have d1: "pae_rank k < pae_rank s \<or> pae_rank k = pae_rank s
        \<and> (rt k = rt s \<and> rt_rank k = rt_rank s \<or> rt_rank k < rt_rank s)"
      using rts2 rtr unfolding top(2) rts(1,2) by blast
    have d2: "be k = be s \<and> be_rank k \<le> be_rank s \<or> be_rank k < be_rank s"
      using be unfolding bes .
    have d3: "kt k = kt s \<or> kt_rank k < kt_rank s"
      using K(6) unfolding kts .
    have d4: "be k \<noteq> be s \<or> rt k \<noteq> rt s \<or> kt k \<noteq> kt s"
      using ch pae unfolding k sm_states_def by blast
    show ?thesis
      using d1 d2 d3 d4 top(1) unfolding k sm_measure_def by (auto simp only: in_inv_image in_lex_prod less_than_iff le_less)
  qed
qed

lemma eapol_sm_step_returns_inv:
  "sm_inv s \<Longrightarrow> returns (eapol_sm_step s) sm_inv"
proof (induction s rule: wf_induct_rule [OF wf_sm_measure])
  case (1 s)
  show ?case
  proof (cases "sm_states (eapol_sm_pass s) = sm_states s")
    case True
    then show ?thesis using pass_step(1) [OF 1(2)] by (simp add: eapol_sm_step.simps [of s])
  next
    case False
    then show ?thesis using 1 pass_step [OF 1(2)] by (simp add: eapol_sm_step.simps [of s])
  qed
qed

section \<open>Starting the machines\<close>

text \<open>While \<open>initialize\<close> is asserted, or before the port is enabled, one pass reaches the
  initial states and the next one changes nothing.\<close>

lemma to_int_small: "uint w < 2 ^ 31 \<Longrightarrow> to_int w = uint w"
  unfolding to_int_def by (rule s32_id) (use uint_ge_0 [of w] in linarith)+

lemma step_settles:
  assumes "sm_states (eapol_sm_pass (eapol_sm_pass s)) = sm_states (eapol_sm_pass s)"
  shows "eapol_sm_step s = ret (if sm_states (eapol_sm_pass s) = sm_states s then eapol_sm_pass s
    else eapol_sm_pass (eapol_sm_pass s))"
proof -
  have "eapol_sm_step (eapol_sm_pass s) = ret (eapol_sm_pass (eapol_sm_pass s))"
    by (subst eapol_sm_step.simps) (simp only: assms simp_thms if_False)
  then show ?thesis by (subst eapol_sm_step.simps) simp
qed

text \<open>The machine before it has a port: \<open>sm_idle\<close>.\<close>

definition sm_idle :: "eapol_state_machine \<Rightarrow> bool" where
  "sm_idle s \<longleftrightarrow> portControl s = Auto \<and> \<not> initialize s \<and> portValid s \<and> \<not> authAbort s \<and> portStatus s = Unauthorized
     \<and> pae s = AUTH_PAE_INITIALIZE \<and> portMode (auth_pae s) = Auto \<and> reAuthCount (auth_pae s) = 0
     \<and> reAuthMax (auth_pae s) = AUTH_PAE_DEFAULT_reAuthMax \<and> txPeriod (auth_pae s) = AUTH_PAE_DEFAULT_txPeriod
     \<and> serverTimeout (be_auth s) = BE_AUTH_DEFAULT_serverTimeout \<and> be s = BE_AUTH_IDLE
     \<and> \<not> authSuccess s \<and> \<not> aSuccess (be_auth s) \<and> \<not> authStart s \<and> acts s = []
     \<and> kt s = AUTH_KEY_TX_NO_KEY_TRANSMIT"

lemma eapol_sm_initialize_defaults:
  "\<exists>s. eapol_sm_initialize (eapol_sm_defaults q b t) = ret s \<and> sm_idle s \<and> \<not> portEnabled s"
proof -
  let ?s = "(eapol_sm_defaults q b t)\<lparr>initialize := True\<rparr>"
  let ?i = "eapol_sm_pass ?s"
  note d = eapol_sm_defaults_def eapol_sm_zero_def eapol_sm_pass_def sm_AUTH_PAE_Step_def sm_BE_AUTH_Step_def
    sm_REAUTH_TIMER_Step_def sm_AUTH_KEY_TX_Step_def enter_defs Let_def sm_states_def
  have i: "sm_states ?i = sm_states ?s" by (simp add: d)
  then have e: "eapol_sm_step ?s = ret ?i" by (subst eapol_sm_step.simps) (simp only: simp_thms if_False)
  let ?j = "?i\<lparr>initialize := False\<rparr>"
  have "sm_states (eapol_sm_pass (eapol_sm_pass ?j)) = sm_states (eapol_sm_pass ?j)" "sm_states (eapol_sm_pass ?j) \<noteq> sm_states ?j"
    by (simp_all add: d)
  then have "eapol_sm_step ?j = ret (eapol_sm_pass (eapol_sm_pass ?j))" by (simp only: step_settles simp_thms if_False)
  moreover have "sm_idle (eapol_sm_pass (eapol_sm_pass ?j))" "\<not> portEnabled (eapol_sm_pass (eapol_sm_pass ?j))"
    by (simp_all add: d sm_idle_def)
  ultimately show ?thesis unfolding eapol_sm_initialize_def e run_bind_ret by blast
qed

lemma sm_idle_enabled: "sm_idle s \<Longrightarrow> portEnabled s \<Longrightarrow> sm_inv s"
  by (simp add: sm_idle_def sm_inv_def sm_config_def pae_inv_def to_int_small
      AUTH_PAE_DEFAULT_reAuthMax_def AUTH_PAE_DEFAULT_txPeriod_def BE_AUTH_DEFAULT_serverTimeout_def)

lemma eapol_sm_alloc_spec:
  "\<exists>r. eapol_sm_alloc alloc q b t = ret r \<and> (alloc = no_oom \<longrightarrow> r \<noteq> None)
     \<and> (\<forall>s. r = Some s \<longrightarrow> sm_idle s \<and> \<not> portEnabled s)"
  using eapol_sm_initialize_defaults [of q b t] by (auto simp: eapol_sm_alloc_def)

section \<open>What happens to a machine\<close>

text \<open>
  The events of a station's machine, as the callers in \<open>ieee802_1x.c\<close> make them: they set
  fields and run the machines. A server message may carry an EAP identifier.
\<close>

datatype eapol_event =
    Tick
  | RxStart
  | RxLogoff
  | RxIdentity
  | RxResponse bool
  | RxOther
  | SrvAccept "u32 option" bool "byte option"
  | SrvReject "byte option"
  | SrvChallenge "u32 option" "byte option"

definition set_id_from_server :: "byte option \<Rightarrow> eapol_state_machine \<Rightarrow> eapol_state_machine" where
  "set_id_from_server i s = (case i of None \<Rightarrow> s | Some i \<Rightarrow> s\<lparr>be_auth := (be_auth s)\<lparr>idFromServer := i\<rparr>\<rparr>)"

fun eapol_flags :: "eapol_event \<Rightarrow> eapol_state_machine \<Rightarrow> eapol_state_machine" where
  "eapol_flags Tick s = s\<lparr>aWhile := count_down (aWhile s), quietWhile := count_down (quietWhile s),
       reAuthWhen := count_down (reAuthWhen s), txWhen := count_down (txWhen s)\<rparr>"
| "eapol_flags RxStart s = s\<lparr>auth_pae := (auth_pae s)\<lparr>eapStart := True\<rparr>\<rparr>"
| "eapol_flags RxLogoff s = s\<lparr>auth_pae := (auth_pae s)\<lparr>eapLogoff := True\<rparr>\<rparr>"
| "eapol_flags RxIdentity s = s\<lparr>auth_pae := (auth_pae s)\<lparr>rxInitialRsp := True\<rparr>\<rparr>"
| "eapol_flags (RxResponse nak) s = s\<lparr>be_auth := (be_auth s)\<lparr>rxResp := True,
       backendNonNakResponsesFromSupplicant := count_if (\<not> nak) (backendNonNakResponsesFromSupplicant (be_auth s))\<rparr>\<rparr>"
| "eapol_flags RxOther s = s"
| "eapol_flags (SrvAccept p keys i) s =
     set_id_from_server i (s\<lparr>reauth_timer := (case p of None \<Rightarrow> reauth_timer s | Some p \<Rightarrow> (reauth_timer s)\<lparr>reAuthPeriod := p\<rparr>),
       be_auth := (be_auth s)\<lparr>aSuccess := True\<rparr>, keyAvailable := keyAvailable s \<or> keys\<rparr>)"
| "eapol_flags (SrvReject i) s = set_id_from_server i (s\<lparr>be_auth := (be_auth s)\<lparr>aFail := True\<rparr>\<rparr>)"
| "eapol_flags (SrvChallenge t i) s =
     set_id_from_server i (s\<lparr>be_auth := (be_auth s)\<lparr>aReq := True,
       suppTimeout := (case t of None \<Rightarrow> suppTimeout (be_auth s) | Some t \<Rightarrow> t)\<rparr>\<rparr>)"

definition eapol_event :: "eapol_event \<Rightarrow> eapol_state_machine \<Rightarrow> eapol_state_machine run" where
  "eapol_event ev s =
     run_bind (eapol_sm_step (eapol_flags ev s))
       (\<lambda>s. if ev = RxStart \<or> ev = RxLogoff then eapol_sm_step s else ret s)"

fun eapol_events :: "eapol_event list \<Rightarrow> eapol_state_machine \<Rightarrow> eapol_state_machine run" where
  "eapol_events [] s = ret s"
| "eapol_events (ev # evs) s = run_bind (eapol_event ev s) (eapol_events evs)"

lemma set_id_inv: "sm_inv s \<Longrightarrow> sm_inv (set_id_from_server i s)"
  by (cases i) (simp_all add: set_id_from_server_def sm_inv_def sm_config_def pae_inv_def)

lemma eapol_flags_inv:
  assumes "sm_inv s"
  shows "sm_inv (eapol_flags ev s)"
proof -
  note d = sm_inv_def sm_config_def pae_inv_def
  show ?thesis
  proof (cases ev)
    case (SrvAccept p keys i)
    have "sm_inv (s\<lparr>reauth_timer := r, be_auth := (be_auth s)\<lparr>aSuccess := True\<rparr>, keyAvailable := k\<rparr>)" for r k
      using assms by (simp add: d)
    then show ?thesis unfolding SrvAccept eapol_flags.simps by (intro set_id_inv)
  next
    case (SrvChallenge p i)
    have "sm_inv (s\<lparr>be_auth := (be_auth s)\<lparr>aReq := True, suppTimeout := t\<rparr>\<rparr>)" for t
      using assms by (simp add: d)
    then show ?thesis unfolding SrvChallenge eapol_flags.simps by (intro set_id_inv)
  next
    case (SrvReject i)
    have "sm_inv (s\<lparr>be_auth := (be_auth s)\<lparr>aFail := True\<rparr>\<rparr>)"
      using assms by (simp add: d)
    then show ?thesis unfolding SrvReject eapol_flags.simps by (intro set_id_inv)
  qed (use assms in \<open>simp_all add: d\<close>)
qed

lemma eapol_event_inv: "sm_inv s \<Longrightarrow> returns (eapol_event ev s) sm_inv"
proof -
  assume "sm_inv s"
  then have "returns (eapol_sm_step (eapol_flags ev s)) sm_inv"
    by (intro eapol_sm_step_returns_inv eapol_flags_inv)
  then show ?thesis
    unfolding eapol_event_def returns_bind by (rule returns_mono) (auto intro: eapol_sm_step_returns_inv)
qed

lemma eapol_events_inv: "sm_inv s \<Longrightarrow> returns (eapol_events evs s) sm_inv"
proof (induction evs arbitrary: s)
  case (Cons ev evs)
  then show ?case
    unfolding eapol_events.simps returns_bind
    by (intro returns_mono [OF eapol_event_inv [OF Cons.prems]]) (rule Cons.IH)
qed simp

section \<open>What the machines promise\<close>

text \<open>Whatever every pass preserves holds when the loop ends, and it ends with a pass that
  changes no state.\<close>

lemma eapol_sm_step_rule:
  assumes "eapol_sm_step s = ret s'" "I s" "\<And>s. I s \<Longrightarrow> I (eapol_sm_pass s)"
  shows "\<exists>t. I t \<and> s' = eapol_sm_pass t \<and> sm_states s' = sm_states t"
proof -
  have "I s \<longrightarrow> (\<exists>t. I t \<and> r = Inr (eapol_sm_pass t) \<and> sm_states (eapol_sm_pass t) = sm_states t)"
    if "eapol_sm_step s = Some r" for s r
  proof (induction s r rule: eapol_sm_step.raw_induct)
    case (1 f s r)
    then show ?case
      using assms(3) by (auto simp: ret_def split: if_splits)
  qed (rule that)
  from this [of s "Inr s'"] show ?thesis using assms(1,2) by (auto simp: ret_def)
qed

text \<open>The server has not accepted the station.\<close>

definition not_accepted :: "eapol_state_machine \<Rightarrow> bool" where
  "not_accepted s \<longleftrightarrow> portControl s = Auto \<and> portStatus s = Unauthorized \<and> \<not> authSuccess s \<and> \<not> aSuccess (be_auth s)
     \<and> be s \<noteq> BE_AUTH_SUCCESS \<and> pae s \<noteq> AUTH_PAE_FORCE_AUTH \<and> pae s \<noteq> AUTH_PAE_AUTHENTICATED
     \<and> (\<forall>b. SetPortAuthorized b \<notin> set (acts s)) \<and> (\<forall>i. TxKey i \<notin> set (acts s)) \<and> kt s = AUTH_KEY_TX_NO_KEY_TRANSMIT"

lemma not_accepted_pae: "not_accepted s \<Longrightarrow> not_accepted (sm_AUTH_PAE_Step s)"
  by (cases "pae s") (simp_all add: not_accepted_def sm_AUTH_PAE_Step_def enter_defs Let_def)

lemma not_accepted_be: "not_accepted s \<Longrightarrow> not_accepted (sm_BE_AUTH_Step s)"
  by (cases "be s") (simp_all add: not_accepted_def sm_BE_AUTH_Step_def enter_defs Let_def)

lemma not_accepted_rt: "not_accepted s \<Longrightarrow> not_accepted (sm_REAUTH_TIMER_Step s)"
  by (simp add: not_accepted_def sm_REAUTH_TIMER_Step_def enter_defs)

lemma not_accepted_kt: "not_accepted s \<Longrightarrow> not_accepted (sm_AUTH_KEY_TX_Step s)"
  by (simp add: not_accepted_def sm_AUTH_KEY_TX_Step_def enter_defs)

lemma not_accepted_step: "not_accepted s \<Longrightarrow> yields (eapol_sm_step s) not_accepted"
  using eapol_sm_step_rule [of s _ not_accepted]
  by (auto simp: yields_def eapol_sm_pass_def not_accepted_pae not_accepted_be not_accepted_rt not_accepted_kt)

lemma not_accepted_flags:
  assumes "\<forall>p k i. ev \<noteq> SrvAccept p k i" "not_accepted s"
  shows "not_accepted (eapol_flags ev s)"
proof (cases ev)
  case (SrvReject i)
  then show ?thesis using assms(2) by (cases i) (simp_all add: not_accepted_def set_id_from_server_def)
next
  case (SrvChallenge t i)
  then show ?thesis using assms(2) by (cases i) (simp_all add: not_accepted_def set_id_from_server_def)
qed (use assms in \<open>simp_all add: not_accepted_def\<close>)

lemma not_accepted_event:
  "\<forall>p k i. ev \<noteq> SrvAccept p k i \<Longrightarrow> not_accepted s \<Longrightarrow> yields (eapol_event ev s) not_accepted"
  unfolding eapol_event_def yields_bind
  by (rule yields_mono [OF not_accepted_step [OF not_accepted_flags]]) (auto intro: not_accepted_step)

lemma not_accepted_events:
  "\<forall>p k i. SrvAccept p k i \<notin> set evs \<Longrightarrow> not_accepted s \<Longrightarrow> yields (eapol_events evs s) not_accepted"
proof (induction evs arbitrary: s)
  case (Cons ev evs)
  then have "yields (eapol_event ev s) not_accepted" by (intro not_accepted_event) auto
  then show ?case
    unfolding eapol_events.simps yields_bind by (rule yields_mono) (use Cons in auto)
qed simp

text \<open>A logoff is pending, or it was carried out and nothing can open the port again.\<close>

definition logging_off :: "eapol_state_machine \<Rightarrow> bool" where
  "logging_off s \<longleftrightarrow> sm_inv s \<and> (eapLogoff (auth_pae s) \<or>
     portStatus s = Unauthorized \<and> pae s \<notin> {AUTH_PAE_AUTHENTICATING, AUTH_PAE_AUTHENTICATED, AUTH_PAE_ABORTING}
     \<and> \<not> (pae s = AUTH_PAE_CONNECTING \<and> rxInitialRsp (auth_pae s)))"

lemma logging_off_pae:
  assumes "logging_off s"
  shows "eapLogoff (auth_pae (sm_AUTH_PAE_Step s)) \<or>
     portStatus (sm_AUTH_PAE_Step s) = Unauthorized
     \<and> pae (sm_AUTH_PAE_Step s) \<notin> {AUTH_PAE_AUTHENTICATING, AUTH_PAE_AUTHENTICATED, AUTH_PAE_ABORTING}
     \<and> \<not> (pae (sm_AUTH_PAE_Step s) = AUTH_PAE_CONNECTING \<and> rxInitialRsp (auth_pae (sm_AUTH_PAE_Step s)))"
  using assms
  by (cases "pae s")
     (auto simp: logging_off_def sm_inv_def sm_config_def pae_inv_def sm_AUTH_PAE_Step_def enter_defs Let_def not_less)

lemma logging_off_pass: "logging_off s \<Longrightarrow> logging_off (eapol_sm_pass s)"
  using logging_off_pae [of s] pass_step(1) [of s]
  by (simp add: logging_off_def eapol_sm_pass_def kt_frame rt_frame be_frame)

text \<open>When no state changes, a pending logoff waits in a state whose port is closed.\<close>

lemma logging_off_end:
  assumes "logging_off s" "sm_states (eapol_sm_pass s) = sm_states s"
  shows "portStatus (eapol_sm_pass s) = Unauthorized"
proof (cases "eapLogoff (auth_pae s)")
  case True
  have "pae (sm_AUTH_PAE_Step s) = pae s"
    using assms(2) by (simp add: sm_states_def eapol_sm_pass_def kt_frame rt_frame be_frame)
  then have "portStatus (sm_AUTH_PAE_Step s) = Unauthorized"
    using assms(1) True
    by (cases "pae s")
       (auto simp: logging_off_def sm_inv_def sm_config_def pae_inv_def sm_AUTH_PAE_Step_def enter_defs Let_def split: if_splits)
  then show ?thesis by (simp add: eapol_sm_pass_def kt_frame rt_frame be_frame)
next
  case False
  then have "portStatus (sm_AUTH_PAE_Step s) = Unauthorized"
    using assms(1)
    by (cases "pae s")
       (simp_all add: logging_off_def sm_inv_def sm_config_def pae_inv_def sm_AUTH_PAE_Step_def enter_defs Let_def)
  then show ?thesis by (simp add: eapol_sm_pass_def kt_frame rt_frame be_frame)
qed

section \<open>Properties\<close>

text \<open>C7. Running the machines always ends: from a new machine whose port is enabled, through any
  sequence of timer ticks, frames of the supplicant and answers of the server, every call of
  \<open>eapol_sm_step\<close> returns, and the invariant holds at the end.\<close>

theorem eapol_sm_step_terminates:
  "\<exists>s. eapol_sm_alloc no_oom quiet session_set session_interval = ret (Some s)
    \<and> returns (eapol_events evs (s\<lparr>portEnabled := True\<rparr>)) sm_inv"
proof -
  obtain s where s: "eapol_sm_alloc no_oom quiet session_set session_interval = ret (Some s)" "sm_idle s"
    using eapol_sm_alloc_spec [of no_oom quiet session_set session_interval] by auto
  have "sm_inv (s\<lparr>portEnabled := True\<rparr>)" using s(2) by (intro sm_idle_enabled) (simp_all add: sm_idle_def)
  then show ?thesis using s(1) eapol_events_inv by blast
qed

text \<open>C15. Without an acceptance by the server the port never opens: whatever ticks, frames and other
  server messages happen, the port stays unauthorized, and neither the driver is told to open it
  nor are keys sent to the station.\<close>

theorem no_accept_no_port:
  assumes "\<forall>p k i. SrvAccept p k i \<notin> set evs"
  shows "\<exists>s s'. eapol_sm_alloc no_oom quiet session_set session_interval = ret (Some s)
    \<and> eapol_events evs (s\<lparr>portEnabled := True\<rparr>) = ret s'
    \<and> portStatus s' = Unauthorized \<and> (\<forall>b. SetPortAuthorized b \<notin> set (acts s')) \<and> (\<forall>i. TxKey i \<notin> set (acts s'))"
proof -
  obtain s where s: "eapol_sm_alloc no_oom quiet session_set session_interval = ret (Some s)" "sm_idle s"
    using eapol_sm_alloc_spec [of no_oom quiet session_set session_interval] by auto
  let ?s = "s\<lparr>portEnabled := True\<rparr>"
  have "sm_inv ?s" using s(2) by (intro sm_idle_enabled) (simp_all add: sm_idle_def)
  then obtain s' where s': "eapol_events evs ?s = ret s'"
    using eapol_events_inv by (auto simp: returns_def)
  have "not_accepted ?s" using s by (simp add: not_accepted_def sm_idle_def)
  then have "not_accepted s'" using not_accepted_events [OF assms] s' by (simp add: yields_def)
  then show ?thesis using s(1) s' by (auto simp: not_accepted_def)
qed

theorem no_accept_no_port_witness:
  "\<exists>s s'. eapol_sm_alloc no_oom 60 False 0 = ret (Some s)
    \<and> eapol_events [RxStart, RxIdentity, SrvChallenge None (Some 4), RxResponse False, SrvReject (Some 5), Tick] (s\<lparr>portEnabled := True\<rparr>) = ret s'
    \<and> portStatus s' = Unauthorized"
  using no_accept_no_port [of "[RxStart, RxIdentity, SrvChallenge None (Some 4), RxResponse False, SrvReject (Some 5), Tick]" 60 False 0]
  by auto

text \<open>C16. An EAPOL-Logoff closes the port: whatever the machines were doing, they come to rest with the
  port unauthorized.\<close>

theorem logoff_closes_port:
  assumes "sm_inv s"
  shows "\<exists>s'. eapol_event RxLogoff s = ret s' \<and> sm_inv s' \<and> portStatus s' = Unauthorized"
proof -
  have close: "\<exists>s'. eapol_sm_step s = ret s' \<and> logging_off s' \<and> portStatus s' = Unauthorized" if l: "logging_off s" for s
  proof -
    obtain s' where s': "eapol_sm_step s = ret s'"
      using l eapol_sm_step_returns_inv [of s] by (auto simp: logging_off_def returns_def)
    from eapol_sm_step_rule [OF s', of logging_off] l show ?thesis
      using s' logging_off_pass logging_off_end by auto
  qed
  have "logging_off (eapol_flags RxLogoff s)"
    using eapol_flags_inv [OF assms, of RxLogoff] by (simp add: logging_off_def)
  from close [OF this] obtain s1 where s1: "eapol_sm_step (eapol_flags RxLogoff s) = ret s1" "logging_off s1" by blast
  from close [OF s1(2)] obtain s2 where "eapol_sm_step s1 = ret s2" "logging_off s2" "portStatus s2 = Unauthorized" by blast
  then show ?thesis using s1(1) by (simp add: eapol_event_def logging_off_def)
qed

lemma step_next: "sm_states (eapol_sm_pass s) \<noteq> sm_states s \<Longrightarrow> eapol_sm_step s = eapol_sm_step (eapol_sm_pass s)"
  by (subst eapol_sm_step.simps) (rule if_P)

lemma step_last: "sm_states (eapol_sm_pass s) = sm_states s \<Longrightarrow> eapol_sm_step s = ret (eapol_sm_pass s)"
  by (subst eapol_sm_step.simps) (simp only: simp_thms if_False)

text \<open>A station that is being authenticated, waiting for the answer of the server.\<close>

definition waiting_for_server :: "eapol_state_machine \<Rightarrow> bool" where
  "waiting_for_server s \<longleftrightarrow> sm_inv s \<and> pae s = AUTH_PAE_AUTHENTICATING \<and> be s = BE_AUTH_RESPONSE
     \<and> rt s = REAUTH_TIMER_INITIALIZE \<and> kt s = AUTH_KEY_TX_NO_KEY_TRANSMIT \<and> portStatus s = Unauthorized
     \<and> \<not> authSuccess s \<and> \<not> authFail s \<and> \<not> authTimeout s \<and> \<not> reAuthenticate s \<and> \<not> authStart s
     \<and> \<not> eapStart (auth_pae s) \<and> \<not> eapLogoff (auth_pae s) \<and> aWhile s \<noteq> 0 \<and> \<not> aReq (be_auth s)
     \<and> \<not> aFail (be_auth s) \<and> \<not> aSuccess (be_auth s) \<and> keyTxEnabled s \<and> \<not> keyAvailable s"

lemmas pass_defs = eapol_sm_pass_def sm_AUTH_PAE_Step_def sm_BE_AUTH_Step_def sm_REAUTH_TIMER_Step_def
  sm_AUTH_KEY_TX_Step_def enter_defs Let_def sm_states_def

definition sample_waiting :: eapol_state_machine where
  "sample_waiting = (eapol_sm_defaults 60 False 0)\<lparr>portEnabled := True, aWhile := 30,
     auth_pae := (auth_pae (eapol_sm_defaults 60 False 0))\<lparr>portMode := Auto, pae_state := AUTH_PAE_AUTHENTICATING\<rparr>,
     be_auth := (be_auth (eapol_sm_defaults 60 False 0))\<lparr>be_state := BE_AUTH_RESPONSE\<rparr>\<rparr>"

lemma sample_waiting: "waiting_for_server sample_waiting"
  by (simp add: sample_waiting_def eapol_sm_defaults_def eapol_sm_zero_def waiting_for_server_def sm_inv_def
      sm_config_def pae_inv_def to_int_small AUTH_PAE_DEFAULT_reAuthMax_def AUTH_PAE_DEFAULT_txPeriod_def
      BE_AUTH_DEFAULT_serverTimeout_def)

theorem logoff_closes_port_witness:
  "\<exists>s'. eapol_event RxLogoff sample_waiting = ret s' \<and> portStatus s' = Unauthorized"
  using logoff_closes_port [of sample_waiting] sample_waiting by (auto simp: waiting_for_server_def)

text \<open>C17. When the server accepts a station that waits for it, with a reauthentication period other than
  zero, the EAP packet of the server is sent to the station, then the keys if there are any, then
  the port is opened; nothing else happens, and the station is authenticated.\<close>

theorem accept_opens_port:
  assumes "waiting_for_server s"
    and "to_int (case p of None \<Rightarrow> reAuthPeriod (reauth_timer s) | Some p \<Rightarrow> p) \<noteq> 0"
  shows "\<exists>s'. eapol_event (SrvAccept p keys (Some i)) s = ret s'
    \<and> pae s' = AUTH_PAE_AUTHENTICATED \<and> be s' = BE_AUTH_IDLE \<and> portStatus s' = Authorized
    \<and> acts s' = acts s @ [TxReq i] @ (if keys then [TxKey i] else []) @ [SetPortAuthorized True]"
proof -
  let ?s = "eapol_flags (SrvAccept p keys (Some i)) s"
  define s1 where "s1 = eapol_sm_pass ?s"
  define s2 where "s2 = eapol_sm_pass s1"
  define s3 where "s3 = eapol_sm_pass s2"
  note w = assms(1) [unfolded waiting_for_server_def sm_inv_def sm_config_def pae_inv_def]
  define R where "R = (case p of None \<Rightarrow> reauth_timer s | Some p \<Rightarrow> (reauth_timer s)\<lparr>reAuthPeriod := p\<rparr>)"
  have R: "rt_state R = REAUTH_TIMER_INITIALIZE" "to_int (reAuthPeriod R) \<noteq> 0"
    using w assms(2) by (auto simp: R_def split: option.splits)
  have s: "?s = s\<lparr>reauth_timer := R, be_auth := (be_auth s)\<lparr>aSuccess := True, idFromServer := i\<rparr>, keyAvailable := keyAvailable s \<or> keys\<rparr>"
    by (simp add: R_def set_id_from_server_def)
  let ?b = "(be_auth s)\<lparr>aSuccess := True, idFromServer := i, backendAuthSuccesses := backendAuthSuccesses (be_auth s) + 1,
     be_state := BE_AUTH_SUCCESS\<rparr>"
  define b1 where "b1 = s\<lparr>reauth_timer := R, be_auth := ?b, keyAvailable := keys, currentId := i,
     acts := acts s @ [TxReq i], authSuccess := True\<rparr>"
  define r1 where "r1 = b1\<lparr>reAuthWhen := to_int (reAuthPeriod R)\<rparr>"
  have "sm_AUTH_PAE_Step ?s = ?s"
    unfolding s using w by (simp add: sm_AUTH_PAE_Step_def Let_def)
  moreover have "sm_BE_AUTH_Step ?s = b1"
    unfolding s b1_def using w by (simp add: sm_BE_AUTH_Step_def Let_def sm_BE_AUTH_SUCCESS_Enter_def)
  moreover have "sm_REAUTH_TIMER_Step b1 = r1"
    unfolding r1_def b1_def using w R
    by (cases R) (simp add: sm_REAUTH_TIMER_Step_def sm_REAUTH_TIMER_INITIALIZE_Enter_def)
  moreover have "sm_AUTH_KEY_TX_Step r1 = (if keys then sm_AUTH_KEY_TX_KEY_TRANSMIT_Enter r1 else r1)"
    unfolding r1_def b1_def using w by (simp add: sm_AUTH_KEY_TX_Step_def)
  ultimately have pass1: "s1 = (if keys then sm_AUTH_KEY_TX_KEY_TRANSMIT_Enter r1 else r1)"
    by (simp only: s1_def eapol_sm_pass_def)
  note act_key = sm_AUTH_KEY_TX_KEY_TRANSMIT_Enter_def r1_def b1_def
  have 1: "sm_states s1 = (AUTH_PAE_AUTHENTICATING, BE_AUTH_SUCCESS, REAUTH_TIMER_INITIALIZE,
        if keys then AUTH_KEY_TX_KEY_TRANSMIT else AUTH_KEY_TX_NO_KEY_TRANSMIT)" "portControl s1 = Auto"
    "acts s1 = acts s @ [TxReq i] @ (if keys then [TxKey i] else [])" "authSuccess s1" "\<not> authFail s1" "\<not> keyAvailable s1"
    "portMode (auth_pae s1) = Auto" "\<not> initialize s1" "portEnabled s1" "portValid s1" "\<not> authAbort s1" "\<not> authStart s1"
    "\<not> reAuthenticate s1" "\<not> eapStart (auth_pae s1)" "\<not> eapLogoff (auth_pae s1)" "keyTxEnabled s1" "reAuthWhen s1 \<noteq> 0"
    "to_int (reAuthPeriod (reauth_timer s1)) \<noteq> 0"
    unfolding pass1 using w R by (simp_all add: sm_states_def act_key)
  have 2: "sm_states s2 = (AUTH_PAE_AUTHENTICATED, BE_AUTH_IDLE, REAUTH_TIMER_INITIALIZE,
        if keys then AUTH_KEY_TX_KEY_TRANSMIT else AUTH_KEY_TX_NO_KEY_TRANSMIT)" "portControl s2 = Auto"
    "acts s2 = acts s1 @ [SetPortAuthorized True]" "portStatus s2 = Authorized"
    "portMode (auth_pae s2) = Auto" "\<not> initialize s2" "portEnabled s2" "portValid s2" "\<not> authAbort s2" "\<not> authStart s2"
    "\<not> reAuthenticate s2" "\<not> eapStart (auth_pae s2)" "\<not> eapLogoff (auth_pae s2)" "keyTxEnabled s2" "\<not> keyAvailable s2"
    "\<not> authFail s2" "reAuthWhen s2 \<noteq> 0"
    using 1 by (auto simp: s2_def pass_defs split: if_splits)
  have 3: "sm_states s3 = sm_states s2" "acts s3 = acts s2" "portStatus s3 = Authorized"
    using 2 by (auto simp: s3_def pass_defs split: if_splits)
  have 0: "sm_states ?s = (AUTH_PAE_AUTHENTICATING, BE_AUTH_RESPONSE, REAUTH_TIMER_INITIALIZE, AUTH_KEY_TX_NO_KEY_TRANSMIT)"
    unfolding s using w R by (simp add: sm_states_def)
  have "eapol_sm_step ?s = eapol_sm_step s1"
    unfolding s1_def by (rule step_next) (simp only: s1_def [symmetric] 0 1(1), simp)
  also have "\<dots> = eapol_sm_step s2"
    unfolding s2_def by (rule step_next) (simp only: s2_def [symmetric] 1(1) 2(1), simp)
  also have "\<dots> = ret s3"
    unfolding s3_def by (rule step_last) (simp only: s3_def [symmetric] 3(1))
  finally have "eapol_sm_step ?s = ret s3" .
  then show ?thesis
    using 1(3) 2(1,3) 3 by (simp add: eapol_event_def sm_states_def del: eapol_flags.simps)
qed

theorem accept_opens_port_witness:
  "\<exists>s'. eapol_event (SrvAccept None True (Some 5)) sample_waiting = ret s'
    \<and> portStatus s' = Authorized \<and> acts s' = [TxReq 5, TxKey 5, SetPortAuthorized True]"
  using accept_opens_port [OF sample_waiting, of None True 5]
  by (auto simp: sample_waiting_def eapol_sm_defaults_def eapol_sm_zero_def to_int_small REAUTH_TIMER_DEFAULT_reAuthPeriod_def)

text \<open>With a reauthentication period of zero the timer machine never rests while the port is open.\<close>

definition zero_period :: "eapol_state_machine \<Rightarrow> bool" where
  "zero_period s \<longleftrightarrow> sm_inv s \<and> reAuthPeriod (reauth_timer s) = 0 \<and> reAuthEnabled (reauth_timer s)
     \<and> (portStatus s = Authorized \<longrightarrow> rt s = REAUTH_TIMER_INITIALIZE \<longrightarrow> reAuthWhen s = 0)
     \<and> (pae s = AUTH_PAE_AUTHENTICATING \<longrightarrow> authSuccess s \<longrightarrow> rt s = REAUTH_TIMER_INITIALIZE \<longrightarrow> reAuthWhen s = 0)"

lemma pae_opens:
  "sm_inv s \<Longrightarrow> portStatus (sm_AUTH_PAE_Step s) = Authorized \<Longrightarrow>
   portStatus s = Authorized \<or> pae s = AUTH_PAE_AUTHENTICATING \<and> authSuccess s"
  by (cases "pae s")
     (auto simp: sm_inv_def sm_config_def pae_inv_def sm_AUTH_PAE_Step_def enter_defs Let_def split: if_splits)

lemma pae_keeps_reauth:
  "reauth_timer (sm_AUTH_PAE_Step s) = reauth_timer s" "reAuthWhen (sm_AUTH_PAE_Step s) = reAuthWhen s"
  by (cases "pae s"; simp add: sm_AUTH_PAE_Step_def enter_defs Let_def)+

lemma kt_keeps_when: "reAuthWhen (sm_AUTH_KEY_TX_Step s) = reAuthWhen s"
  by (cases "kt s") (simp_all add: sm_AUTH_KEY_TX_Step_def enter_defs)

lemma to_int_0 [simp]: "to_int 0 = 0"
  by (simp add: to_int_small)

lemma rt_zero:
  assumes p: "reAuthPeriod (reauth_timer s) = 0" and e: "reAuthEnabled (reauth_timer s)"
    and w: "portStatus s = Authorized \<longrightarrow> rt s = REAUTH_TIMER_INITIALIZE \<longrightarrow> reAuthWhen s = 0"
  shows "reAuthPeriod (reauth_timer (sm_REAUTH_TIMER_Step s)) = 0 \<and> reAuthEnabled (reauth_timer (sm_REAUTH_TIMER_Step s))
    \<and> (rt (sm_REAUTH_TIMER_Step s) = REAUTH_TIMER_INITIALIZE \<longrightarrow> reAuthWhen (sm_REAUTH_TIMER_Step s) = 0)
    \<and> (portControl s = Auto \<and> \<not> initialize s \<and> portStatus s = Authorized \<longrightarrow> rt (sm_REAUTH_TIMER_Step s) \<noteq> rt s)"
proof (cases "portControl s \<noteq> Auto \<or> initialize s \<or> portStatus s = Unauthorized")
  case True
  then have "sm_REAUTH_TIMER_Step s = sm_REAUTH_TIMER_INITIALIZE_Enter s"
    by (auto simp: sm_REAUTH_TIMER_Step_def)
  then show ?thesis using p e True by (auto simp: sm_REAUTH_TIMER_INITIALIZE_Enter_def)
next
  case False
  then have st: "portStatus s = Authorized" by (cases "portStatus s") auto
  show ?thesis
  proof (cases "rt s")
    case REAUTH_TIMER_INITIALIZE
    then have "sm_REAUTH_TIMER_Step s = sm_REAUTH_TIMER_REAUTHENTICATE_Enter s"
      using False e w st by (simp add: sm_REAUTH_TIMER_Step_def)
    then show ?thesis using p e REAUTH_TIMER_INITIALIZE by (simp add: sm_REAUTH_TIMER_REAUTHENTICATE_Enter_def)
  next
    case REAUTH_TIMER_REAUTHENTICATE
    then have "sm_REAUTH_TIMER_Step s = sm_REAUTH_TIMER_INITIALIZE_Enter s"
      using False e by (simp add: sm_REAUTH_TIMER_Step_def)
    then show ?thesis using p e REAUTH_TIMER_REAUTHENTICATE by (simp add: sm_REAUTH_TIMER_INITIALIZE_Enter_def)
  qed
qed

lemma zero_period_pass:
  assumes z: "zero_period s"
  shows "zero_period (eapol_sm_pass s)"
    and "sm_states (eapol_sm_pass s) = sm_states s \<Longrightarrow> portStatus (eapol_sm_pass s) = Unauthorized"
proof -
  let ?b = "sm_BE_AUTH_Step (sm_AUTH_PAE_Step s)"
  have inv: "sm_inv s" using z by (simp add: zero_period_def)
  have binv: "sm_inv ?b" by (rule be_keeps(1) [OF pae_step(1,2) [OF inv]])
  have p: "reAuthPeriod (reauth_timer ?b) = 0" "reAuthEnabled (reauth_timer ?b)"
    using z by (simp_all add: be_frame pae_keeps_reauth zero_period_def)
  have w: "portStatus ?b = Authorized \<longrightarrow> rt ?b = REAUTH_TIMER_INITIALIZE \<longrightarrow> reAuthWhen ?b = 0"
    using z pae_opens [OF inv] by (auto simp: be_frame pae_keeps_reauth zero_period_def)
  note r = rt_zero [OF p w]
  show "zero_period (eapol_sm_pass s)"
    using pass_step(1) [OF inv] r by (simp add: zero_period_def eapol_sm_pass_def kt_frame kt_keeps_when)
  assume "sm_states (eapol_sm_pass s) = sm_states s"
  then have "rt (sm_REAUTH_TIMER_Step ?b) = rt ?b"
    by (simp add: sm_states_def eapol_sm_pass_def kt_frame be_frame pae_keeps_reauth)
  then have "portStatus ?b \<noteq> Authorized"
    using r binv by (auto simp: sm_inv_def sm_config_def)
  then show "portStatus (eapol_sm_pass s) = Unauthorized"
    by (cases "portStatus ?b") (simp_all add: eapol_sm_pass_def kt_frame rt_frame)
qed

text \<open>An acceptance that asks for reauthentication after zero seconds (a Session-Timeout of zero with
  the Termination-Action RADIUS-Request) never leaves the port open: it is opened and closed again
  in the same run of the machines.\<close>

lemma accept_zero_period_closes:
  assumes "waiting_for_server s" "reAuthEnabled (reauth_timer s)"
  shows "\<exists>s'. eapol_event (SrvAccept (Some 0) keys i) s = ret s' \<and> portStatus s' = Unauthorized"
proof -
  let ?s = "eapol_flags (SrvAccept (Some 0) keys i) s"
  have inv: "sm_inv ?s" using assms(1) by (intro eapol_flags_inv) (simp add: waiting_for_server_def)
  have "zero_period ?s"
    using inv assms by (cases i) (auto simp: zero_period_def waiting_for_server_def set_id_from_server_def)
  moreover obtain s' where s': "eapol_sm_step ?s = ret s'"
    using eapol_sm_step_returns_inv [OF inv] by (auto simp: returns_def)
  ultimately have "portStatus s' = Unauthorized"
    using eapol_sm_step_rule [OF s', of zero_period] zero_period_pass by auto
  then show ?thesis using s' by (simp add: eapol_event_def)
qed

lemma accept_zero_period_closes_witness:
  "\<exists>s'. eapol_event (SrvAccept (Some 0) True (Some 5)) sample_waiting = ret s' \<and> portStatus s' = Unauthorized"
  using accept_zero_period_closes [OF sample_waiting, of True "Some 5"]
  by (simp add: sample_waiting_def eapol_sm_defaults_def eapol_sm_zero_def REAUTH_TIMER_DEFAULT_reAuthEnabled_def)

end
