(* ===== verification/Rtapd.thy ===== *)
theory Rtapd
  imports RadiusMsg EapolSm
begin

text \<open>
  The data the parts of the daemon share: \<open>802.1x/rtdot1x.h\<close> (\<open>struct apd_data\<close>),
  \<open>config.h\<close>, \<open>ap.h\<close>, \<open>radius_client.h\<close> and the structures of \<open>ieee802_11_auth.c\<close>.

  The one \<open>rtapd\<close> of the process and the global event loop are the record \<open>rtapd\<close>. Stations
  are objects of a heap (\<open>stas\<close>): a \<open>struct sta_info *\<close> is the number of its object, the
  lists linked by \<open>next\<close> and \<open>hnext\<close> are lists of such numbers, and \<open>free\<close> removes the
  object, so that a stale pointer is a \<open>UseAfterFree\<close>. The numbers are never used again: an
  access that \<open>malloc\<close> would make hit a new object at an old address counts as stale.

  The record \<open>env\<close> is the system: the allocator, the clock, random numbers, and the
  answers to the calls, which may depend on everything sent before (\<open>sent\<close>, the log of
  the calls). All calls made by one handler of the event loop see one clock. \<open>DBGPRINT\<close>
  and \<open>perror\<close> are not modelled.
\<close>

section \<open>Constants\<close>

definition MAC_ADDR_LEN :: nat where "MAC_ADDR_LEN = 6"
definition MAX_MBSSID_NUM :: nat where "MAX_MBSSID_NUM = 8"
definition WEP8021X_KEY_LEN :: nat where "WEP8021X_KEY_LEN = 13"
definition MAX_STA_COUNT :: int where "MAX_STA_COUNT = 1024"
definition STA_HASH_SIZE :: nat where "STA_HASH_SIZE = 256"

definition ETH_P_PAE :: u16 where "ETH_P_PAE = 0x888E"
definition ETH_P_PRE_AUTH :: u16 where "ETH_P_PRE_AUTH = 0x88C7"
definition ETH_P_VLAN :: u16 where "ETH_P_VLAN = 0x8100"

definition OID_GET_SET_TOGGLE :: nat where "OID_GET_SET_TOGGLE = 0x8000"
definition OID_802_DOT1X_CONFIGURATION :: nat where "OID_802_DOT1X_CONFIGURATION = 0x0540"
definition OID_802_DOT1X_QUERY_STA_AID :: nat where "OID_802_DOT1X_QUERY_STA_AID = 0x0549"
definition RT_OID_802_DOT1X_PMKID_CACHE :: nat where "RT_OID_802_DOT1X_PMKID_CACHE = 0x8541"
definition RT_OID_802_DOT1X_RADIUS_DATA :: nat where "RT_OID_802_DOT1X_RADIUS_DATA = 0x8542"
definition RT_OID_802_DOT1X_WPA_KEY :: nat where "RT_OID_802_DOT1X_WPA_KEY = 0x8543"
definition RT_OID_802_DOT1X_STATIC_WEP_COPY :: nat where "RT_OID_802_DOT1X_STATIC_WEP_COPY = 0x8544"
definition RT_OID_802_DOT1X_IDLE_TIMEOUT :: nat where "RT_OID_802_DOT1X_IDLE_TIMEOUT = 0x8545"
definition RT_OID_802_DOT1X_RADIUS_ACL_NEW_CACHE :: nat where "RT_OID_802_DOT1X_RADIUS_ACL_NEW_CACHE = 0x8546"
definition RT_OID_802_DOT1X_RADIUS_ACL_DEL_CACHE :: nat where "RT_OID_802_DOT1X_RADIUS_ACL_DEL_CACHE = 0x8547"
definition RT_OID_802_DOT1X_RADIUS_ACL_CLEAR_CACHE :: nat where "RT_OID_802_DOT1X_RADIUS_ACL_CLEAR_CACHE = 0x8548"

section \<open>Configuration\<close>

text \<open>\<open>shared_secret\<close> is the block of \<open>shared_secret_len\<close> bytes.\<close>

record hostapd_radius_server =
  srv_addr :: u32
  srv_port :: int
  shared_secret :: "byte list"

text \<open>Arrays over the BSSs are lists of \<open>MAX_MBSSID_NUM\<close> elements; \<open>auth_server\<close> is the index
  of the element of \<open>auth_servers\<close> it points to; \<open>num_auth_servers\<close> is the length.\<close>

record rtapd_config =
  SsidNum :: int
  Ssid :: "byte list list"
  SsidLen :: "int list"
  AclCacheTimeout :: "u32 list"
  RadiusAclEnable :: "byte list"
  DefaultKeyID :: "int list"
  individual_wep_key_len :: "int list"
  individual_wep_key_idx :: "int list"
  IEEE8021X_ikey :: "byte list list"
  own_ip_addr :: u32
  auth_servers :: "hostapd_radius_server list"
  auth_server :: "nat option"
  num_eap_if :: int
  eap_if_name :: "byte list list"
  num_preauth_if :: int
  preauth_if_name :: "byte list list"
  radius_retry_primary_interval :: int
  session_timeout_set :: int
  session_timeout_interval :: int
  quiet_interval :: int
  nasId :: "byte list list"
  nasId_len :: "int list"

definition num_auth_servers :: "rtapd_config \<Rightarrow> nat" where
  "num_auth_servers c = length (auth_servers c)"

section \<open>The RADIUS client\<close>

datatype RadiusRxResult = RADIUS_RX_PROCESSED | RADIUS_RX_QUEUED | RADIUS_RX_UNKNOWN
  | RADIUS_RX_INVALID_AUTHENTICATOR

text \<open>An entry of the retransmit list. \<open>rm_msg\<close> is \<open>None\<close> when the entry points to a
  message that was freed. \<open>msg_type\<close> has the one value \<open>RADIUS_AUTH\<close>.\<close>

record radius_msg_list =
  rm_msg :: "radius_msg option"
  first_try :: int
  next_try :: int
  attempts :: int
  next_wait :: int
  rm_secret :: "byte list"
  rm_ApIdx :: byte

datatype rx_handler = H_ieee802_1x_receive_auth | H_hostapd_acl_recv_radius

text \<open>\<open>num_auth_handlers\<close> is the length of \<open>auth_handlers\<close>; their \<open>data\<close> is null.\<close>

record radius_client_data =
  auth_serv_sock :: int
  auth_handlers :: "rx_handler list"
  msgs :: "radius_msg_list list"
  num_msgs :: u32
  next_radius_identifier :: byte

section \<open>Stations\<close>

text \<open>The fields the daemon uses. A buffer and its length are one \<open>byte list option\<close>.\<close>

record sta_info =
  sta_addr :: "byte list"
  aid :: u16
  eapol_sm :: "eapol_state_machine option"
  radius_identifier :: int
  last_recv_radius :: "radius_msg option"
  last_eap_supp :: "byte list option"
  last_eap_radius :: "byte list option"
  identity :: "byte list option"
  eapol_key_sign :: "byte list option"
  eapol_key_crypt :: "byte list option"
  ApIdx :: byte
  ethertype :: u16
  SockNum :: int

section \<open>Access control lists\<close>

record hostapd_cached_radius_acl =
  ac_timestamp :: int
  ac_addr :: "byte list"
  accepted :: int
  ac_session_timeout :: u32
  acct_interim_interval :: u32
  vlan_id :: int
  ac_apIdx :: byte

record hostapd_acl_query_data =
  aq_timestamp :: int
  radius_id :: byte
  aq_addr :: "byte list"
  aq_apIdx :: byte

section \<open>The daemon and its system\<close>

text \<open>The functions registered with the event loop, and the objects their contexts point to.\<close>

datatype handler = H_Radius_client_timer | H_Radius_retry_primary_timer | H_Ap_handle_session_timer
  | H_hostapd_acl_expire | H_eapol_port_timers_tick | H_Radius_client_receive | H_Handle_read
  | H_Handle_term | H_Handle_usr1

datatype obj = Apd | Interfaces | Sta nat | Sm nat

text \<open>The calls into the system.\<close>

datatype sys_call =
    Ioctl int "byte list" nat "byte list"  \<comment> \<open>socket, interface name, flags, data\<close>
  | SendTo int u32 int "byte list"         \<comment> \<open>socket, address, port, data\<close>
  | Send int "byte list"                   \<comment> \<open>\<open>send\<close> without an address\<close>
  | Socket
  | IfReq int nat "byte list"              \<comment> \<open>another \<open>ioctl\<close>: socket, request, interface name\<close>
  | Bind int "byte list"                   \<comment> \<open>socket, interface index\<close>

record rtapd =
  conf :: rtapd_config
  prefix_wlan_name :: "byte list"
  wlan_sock :: "int list"
  eth_sock :: "int list"
  ioctl_sock :: int
  own_addr :: "byte list list"
  num_sta :: int
  sta_list :: "nat list"
  sta_hash :: "nat list list"
  radius :: "radius_client_data option"
  acl_cache :: "hostapd_cached_radius_acl list"
  acl_queries :: "hostapd_acl_query_data list"
  stas :: "nat \<Rightarrow> sta_info option"
  next_sta :: nat
  eloop :: "(handler, obj) eloop_data"
  sent :: "sys_call list"

record env =
  env_alloc :: allocator
  env_now :: timeval
  env_ioctl :: "sys_call list \<Rightarrow> sys_call \<Rightarrow> int \<times> byte list"  \<comment> \<open>result, and the bytes it fills in\<close>
  env_send :: "sys_call list \<Rightarrow> sys_call \<Rightarrow> int"                 \<comment> \<open>also the result of \<open>bind\<close>\<close>
  env_socket :: "sys_call list \<Rightarrow> int"
  env_rand :: "sys_call list \<Rightarrow> nat \<Rightarrow> byte list option"       \<comment> \<open>\<open>hostapd_get_rand\<close>\<close>
  env_stack :: "sys_call list \<Rightarrow> nat \<Rightarrow> byte list"              \<comment> \<open>what an uninitialised array holds\<close>
  env_random :: "sys_call list \<Rightarrow> u32"                         \<comment> \<open>\<open>random()\<close>\<close>
  env_ptr :: "nat option \<Rightarrow> byte list"                         \<comment> \<open>the bytes of a station pointer\<close>

definition log_call :: "sys_call \<Rightarrow> rtapd \<Rightarrow> rtapd" where
  "log_call c w = w\<lparr>sent := sent w @ [c]\<rparr>"

text \<open>\<open>%d\<close> of an \<open>unsigned char\<close>.\<close>

definition dec_u8 :: "byte \<Rightarrow> byte list" where
  "dec_u8 b = (let n = unat b; d = (\<lambda>k. of_nat (48 + k))
     in if n < 10 then [d n] else if n < 100 then [d (n div 10), d (n mod 10)]
        else [d (n div 100), d (n div 10 mod 10), d (n mod 10)])"

text \<open>The buffer after a call that filled in the bytes \<open>new\<close> from its start.\<close>

definition filled :: "byte list \<Rightarrow> byte list \<Rightarrow> byte list" where
  "filled new buf = take (length buf) (new @ drop (length new) buf)"

lemma length_filled [simp]: "length (filled new buf) = length buf"
  by (simp add: filled_def)

definition RT_ioctl :: "env \<Rightarrow> byte list \<Rightarrow> byte \<Rightarrow> nat \<Rightarrow> rtapd \<Rightarrow> (int \<times> byte list) \<times> rtapd" where
  "RT_ioctl e data apidx flags w =
     (let c = Ioctl (ioctl_sock w) (prefix_wlan_name w @ dec_u8 apidx) flags data
      in case env_ioctl e (sent w) c of (res, new) \<Rightarrow> ((res, filled new data), log_call c w))"

text \<open>\<open>send\<close> and \<open>sendto\<close>.\<close>

definition sys_send :: "env \<Rightarrow> sys_call \<Rightarrow> rtapd \<Rightarrow> int \<times> rtapd" where
  "sys_send e c w = (env_send e (sent w) c, log_call c w)"

text \<open>An element of an array over the BSSs.\<close>

definition ap_arr :: "'a list \<Rightarrow> byte \<Rightarrow> 'a run" where
  "ap_arr xs i = (if unat i < length xs then ret (xs ! unat i) else fail OutOfBounds)"

lemma ap_arr_ret [simp, run_simps]: "unat i < length xs \<Longrightarrow> ap_arr xs i = ret (xs ! unat i)"
  by (simp add: ap_arr_def)

text \<open>The object a station pointer points to, and its update.\<close>

definition get_sta :: "nat \<Rightarrow> rtapd \<Rightarrow> sta_info run" where
  "get_sta k w = (case stas w k of None \<Rightarrow> fail UseAfterFree | Some s \<Rightarrow> ret s)"

definition put_sta :: "nat \<Rightarrow> sta_info \<Rightarrow> rtapd \<Rightarrow> rtapd" where
  "put_sta k s w = w\<lparr>stas := (stas w)(k := Some s)\<rparr>"

lemma get_sta_ret [simp, run_simps]: "stas w k = Some s \<Longrightarrow> get_sta k w = ret s"
  by (simp add: get_sta_def)

lemma stas_put_sta [simp]: "stas (put_sta k s w) = (stas w)(k := Some s)"
  by (simp add: put_sta_def)

text \<open>The client of the daemon; a null \<open>rtapd->radius\<close> is dereferenced by every user but two.\<close>

definition get_radius :: "rtapd \<Rightarrow> radius_client_data run" where
  "get_radius w = (case radius w of None \<Rightarrow> fail NullDeref | Some r \<Rightarrow> ret r)"

lemma get_radius_ret [simp, run_simps]: "radius w = Some r \<Longrightarrow> get_radius w = ret r"
  by (simp add: get_radius_def)

definition put_radius :: "radius_client_data \<Rightarrow> rtapd \<Rightarrow> rtapd" where
  "put_radius r w = w\<lparr>radius := Some r\<rparr>"

lemma radius_put_radius [simp]: "radius (put_radius r w) = Some r"
  by (simp add: put_radius_def)

text \<open>Registration and cancellation in the loop of the daemon.\<close>

definition add_timeout :: "env \<Rightarrow> u32 \<Rightarrow> handler \<Rightarrow> obj ctx \<Rightarrow> obj ctx \<Rightarrow> rtapd \<Rightarrow> rtapd" where
  "add_timeout e secs h d u w =
     w\<lparr>eloop := snd (eloop_register_timeout (env_alloc e) (env_now e) secs 0 h d u (eloop w))\<rparr>"

definition del_timeout :: "handler \<Rightarrow> obj ctx \<Rightarrow> obj ctx \<Rightarrow> rtapd \<Rightarrow> rtapd" where
  "del_timeout h d u w = w\<lparr>eloop := snd (eloop_cancel_timeout h d u (eloop w))\<rparr>"

text \<open>A world to evaluate on: one BSS, one server, no station.\<close>

definition sample_conf :: rtapd_config where
  "sample_conf = \<lparr>SsidNum = 1, Ssid = replicate 8 [], SsidLen = replicate 8 0, AclCacheTimeout = replicate 8 30,
     RadiusAclEnable = replicate 8 0, DefaultKeyID = replicate 8 0, individual_wep_key_len = replicate 8 13,
     individual_wep_key_idx = replicate 8 3, IEEE8021X_ikey = replicate 8 (replicate 13 0), own_ip_addr = 1,
     auth_servers = [\<lparr>srv_addr = 2, srv_port = 1812, shared_secret = [115]\<rparr>, \<lparr>srv_addr = 3, srv_port = 1812, shared_secret = [115]\<rparr>],
     auth_server = Some 0, num_eap_if = 1, eap_if_name = replicate 8 (replicate 16 0), num_preauth_if = 1,
     preauth_if_name = replicate 8 (replicate 16 0), radius_retry_primary_interval = 0, session_timeout_set = 0,
     session_timeout_interval = 0, quiet_interval = 60, nasId = replicate 8 (replicate 32 0), nasId_len = replicate 8 0\<rparr>"

definition sample_radius :: radius_client_data where
  "sample_radius = \<lparr>auth_serv_sock = 5, auth_handlers = [H_ieee802_1x_receive_auth, H_hostapd_acl_recv_radius],
     msgs = [], num_msgs = 0, next_radius_identifier = 0\<rparr>"

definition sample_world :: rtapd where
  "sample_world = \<lparr>conf = sample_conf, prefix_wlan_name = [114, 97], wlan_sock = replicate 8 (-1),
     eth_sock = replicate 8 (-1), ioctl_sock = 3, own_addr = replicate 8 [0, 1, 2, 3, 4, 5], num_sta = 0, sta_list = [],
     sta_hash = replicate 256 [], radius = Some sample_radius, acl_cache = [], acl_queries = [], stas = Map.empty,
     next_sta = 0, eloop = eloop_init NULL_CTX, sent = []\<rparr>"

definition sample_env :: env where
  "sample_env = \<lparr>env_alloc = no_oom, env_now = Timeval 1000 0, env_ioctl = (\<lambda>l c. (0, [])), env_send = (\<lambda>l c. 0),
     env_socket = (\<lambda>l. 5), env_rand = (\<lambda>l n. Some (replicate n 0)), env_stack = (\<lambda>l n. replicate n 0), env_random = (\<lambda>l. 0),
     env_ptr = (\<lambda>p. replicate 4 0)\<rparr>"

lemmas sample_defs = sample_conf_def sample_radius_def sample_world_def sample_env_def

end
