(* ===== verification/RadiusClient.thy ===== *)
theory RadiusClient
  imports Rtapd
begin

text \<open>
  \<open>802.1x/radius_client.c\<close>: the client that sends the requests of the daemon to the
  current RADIUS server, keeps them in a list and sends them again with a growing interval
  until they are answered, and dispatches the answers to the registered handlers.

  The build defines no \<open>MULTIPLE_RADIUS\<close>: one server list, one socket. The retransmit list is
  the list \<open>msgs\<close>, newest entry first. A handler of received messages is a function of the
  message, the request it answers and the secret; it may change the message
  (\<open>Radius_msg_verify\<close> does) and the daemon. The locale \<open>rx_handlers\<close> says what the client
  expects of one.

  The lemmas give the bounds of the list and of the back-off, what one run of the timer
  does, the dispatch of an answer, and what happens to the list when an identifier is
  used again.
\<close>

definition RADIUS_CLIENT_FIRST_WAIT :: int where "RADIUS_CLIENT_FIRST_WAIT = 1"
definition RADIUS_CLIENT_MAX_WAIT :: int where "RADIUS_CLIENT_MAX_WAIT = 120"
definition RADIUS_CLIENT_MAX_RETRIES :: int where "RADIUS_CLIENT_MAX_RETRIES = 10"
definition RADIUS_CLIENT_MAX_ENTRIES :: u32 where "RADIUS_CLIENT_MAX_ENTRIES = 30"
definition RADIUS_CLIENT_NUM_FAILOVER :: int where "RADIUS_CLIENT_NUM_FAILOVER = 4"

definition sizeof_radius_rx_handler :: nat where "sizeof_radius_rx_handler = 8"
definition sizeof_radius_msg_list :: nat where "sizeof_radius_msg_list = 40"
definition sizeof_radius_client_data :: nat where "sizeof_radius_client_data = 24"

section \<open>The operations\<close>

text \<open>The entry's message is freed with it.\<close>

definition Radius_client_msg_free :: "radius_msg_list \<Rightarrow> unit run" where
  "Radius_client_msg_free req = (case rm_msg req of None \<Rightarrow> fail UseAfterFree | Some m \<Rightarrow> ret ())"

definition Radius_client_register :: "env \<Rightarrow> rx_handler \<Rightarrow> rtapd \<Rightarrow> (int \<times> rtapd) run" where
  "Radius_client_register e handler w =
     run_bind (get_radius w) (\<lambda>r.
       if \<not> env_alloc e ((length (auth_handlers r) + 1) * sizeof_radius_rx_handler) then ret (-1, w)
       else ret (0, put_radius (r\<lparr>auth_handlers := auth_handlers r @ [handler]\<rparr>) w))"

text \<open>\<open>time(&now)\<close>.\<close>

definition env_time :: "env \<Rightarrow> int" where
  "env_time e = tv_sec (env_now e)"

definition Radius_client_retransmit ::
    "env \<Rightarrow> radius_msg_list \<Rightarrow> int \<Rightarrow> rtapd \<Rightarrow> (bool \<times> radius_msg_list \<times> rtapd) run" where
  "Radius_client_retransmit e entry now w =
     run_bind (get_radius w) (\<lambda>r.
     case rm_msg entry of None \<Rightarrow> fail UseAfterFree | Some m \<Rightarrow>
     run_bind (mem_read 0 (buf_used m) (rbuf m)) (\<lambda>data.
       let entry = entry\<lparr>attempts := attempts entry + 1\<rparr>;
           w = snd (sys_send e (Send (auth_serv_sock r) data) w);
           entry = entry\<lparr>next_try := s32 (now + next_wait entry), next_wait := next_wait entry * 2\<rparr>;
           entry = (if next_wait entry > RADIUS_CLIENT_MAX_WAIT then entry\<lparr>next_wait := RADIUS_CLIENT_MAX_WAIT\<rparr> else entry)
       in ret (attempts entry \<ge> RADIUS_CLIENT_MAX_RETRIES, entry, w)))"

definition Radius_client_flush :: "rtapd \<Rightarrow> rtapd run" where
  "Radius_client_flush w =
     (case radius w of None \<Rightarrow> ret w
      | Some r \<Rightarrow>
          let w = del_timeout H_Radius_client_timer (Ctx Apd) NULL_CTX w;
              w = put_radius (r\<lparr>msgs := [], num_msgs := 0\<rparr>) w
          in run_map (\<lambda>_. w) (foldr (\<lambda>x m. run_bind (Radius_client_msg_free x) (\<lambda>_. m)) (msgs r) (ret ())))"

text \<open>The element of \<open>auth_servers\<close> a pointer points to.\<close>

definition server_at :: "rtapd \<Rightarrow> nat option \<Rightarrow> hostapd_radius_server run" where
  "server_at w p = (case p of None \<Rightarrow> fail NullDeref
     | Some i \<Rightarrow> if i < num_auth_servers (conf w) then ret (auth_servers (conf w) ! i) else fail OutOfBounds)"

text \<open>The retry counters for a new server.\<close>

definition reset_entry :: "radius_msg_list \<Rightarrow> radius_msg_list" where
  "reset_entry x = x\<lparr>next_try := s32 (first_try x + RADIUS_CLIENT_FIRST_WAIT), attempts := 0,
     next_wait := RADIUS_CLIENT_FIRST_WAIT * 2\<rparr>"

definition Radius_change_server :: "env \<Rightarrow> nat option \<Rightarrow> nat option \<Rightarrow> rtapd \<Rightarrow> rtapd run" where
  "Radius_change_server e nserv oserv w =
     run_bind (case oserv of None \<Rightarrow> ret True
               | Some _ \<Rightarrow> run_bind (server_at w nserv) (\<lambda>n. run_bind (server_at w oserv)
                   (\<lambda>old. ret (shared_secret n \<noteq> shared_secret old)))) (\<lambda>drop.
     if drop then Radius_client_flush w
     else run_bind (get_radius w) (\<lambda>r.
       let w = put_radius (r\<lparr>msgs := map reset_entry (msgs r)\<rparr>) w
       in ret (if msgs r \<noteq> []
               then add_timeout e (of_int RADIUS_CLIENT_FIRST_WAIT) H_Radius_client_timer (Ctx Apd) NULL_CTX
                      (del_timeout H_Radius_client_timer (Ctx Apd) NULL_CTX w)
               else w)))"

text \<open>The walk of the timer: the entries that stay, the number that are on their fifth or a
  later attempt, the earliest of their deadlines, and the number of entries removed.\<close>

fun timer_walk ::
    "env \<Rightarrow> int \<Rightarrow> radius_msg_list list \<Rightarrow> nat \<Rightarrow> int \<Rightarrow> rtapd \<Rightarrow> (radius_msg_list list \<times> nat \<times> int \<times> nat \<times> rtapd) run" where
  "timer_walk e now [] auth_failover first w = ret ([], auth_failover, first, 0, w)"
| "timer_walk e now (entry # rest) auth_failover first w =
     run_bind (if now \<ge> next_try entry then Radius_client_retransmit e entry now w else ret (False, entry, w))
       (\<lambda>(remove, entry, w).
         if remove then run_map (\<lambda>(ms, fo, first, k, w). (ms, fo, first, Suc k, w)) (timer_walk e now rest auth_failover first w)
         else run_map (\<lambda>(ms, fo, first, k, w). (entry # ms, fo, first, k, w))
           (timer_walk e now rest
             (if attempts entry > RADIUS_CLIENT_NUM_FAILOVER then Suc auth_failover else auth_failover)
             (if first = 0 \<or> next_try entry < first then next_try entry else first) w))"

definition Radius_client_timer :: "env \<Rightarrow> rtapd \<Rightarrow> rtapd run" where
  "Radius_client_timer e w =
     run_bind (get_radius w) (\<lambda>r.
     if msgs r = [] then ret w
     else let now = env_time e in
       run_bind (timer_walk e now (msgs r) 0 0 w) (\<lambda>(ms, auth_failover, first, k, w).
         let w = put_radius (r\<lparr>msgs := ms, num_msgs := num_msgs r - of_nat k\<rparr>) w;
             w = (if ms \<noteq> []
                  then add_timeout e (of_int ((if first < now then now else first) - now))
                         H_Radius_client_timer (Ctx Apd) NULL_CTX w
                  else w)
         in if auth_failover > 0 \<and> num_auth_servers (conf w) > 1
            then case auth_server (conf w) of None \<Rightarrow> fail NullDeref
              | Some old \<Rightarrow>
                  let nxt = (if old + 1 > num_auth_servers (conf w) - 1 then 0 else old + 1)
                  in Radius_change_server e (Some nxt) (Some old) (w\<lparr>conf := (conf w)\<lparr>auth_server := Some nxt\<rparr>\<rparr>)
            else ret w))"

text \<open>The flag says whether the message is now owned by the list; otherwise it was freed.\<close>

definition Radius_client_list_add :: "env \<Rightarrow> radius_msg \<Rightarrow> byte list \<Rightarrow> byte \<Rightarrow> rtapd \<Rightarrow> (bool \<times> rtapd) run" where
  "Radius_client_list_add e msg secret apidx w =
     (if eloop_terminated (eloop w) \<or> \<not> env_alloc e sizeof_radius_msg_list then ret (False, w)
      else run_bind (get_radius w) (\<lambda>r.
        let entry = \<lparr>rm_msg = Some msg, first_try = env_time e,
              next_try = s32 (env_time e + RADIUS_CLIENT_FIRST_WAIT), attempts = 1,
              next_wait = RADIUS_CLIENT_FIRST_WAIT * 2, rm_secret = secret, rm_ApIdx = apidx\<rparr>;
            w = (if msgs r = []
                 then add_timeout e (of_int RADIUS_CLIENT_FIRST_WAIT) H_Radius_client_timer (Ctx Apd) NULL_CTX w
                 else w);
            ms = entry # msgs r
        in if num_msgs r \<ge> RADIUS_CLIENT_MAX_ENTRIES then
             if msgs r \<noteq> []
             then run_bind (Radius_client_msg_free (last ms)) (\<lambda>_. ret (True, put_radius (r\<lparr>msgs := butlast ms\<rparr>) w))
             else ret (True, put_radius (r\<lparr>msgs := ms\<rparr>) w)
           else ret (True, put_radius (r\<lparr>msgs := ms, num_msgs := num_msgs r + 1\<rparr>) w)))"

text \<open>The result of \<open>sendto\<close>, and whether the list owns the message.\<close>

definition Radius_client_send :: "env \<Rightarrow> radius_msg \<Rightarrow> byte \<Rightarrow> rtapd \<Rightarrow> (int \<times> bool \<times> rtapd) run" where
  "Radius_client_send e msg apidx w =
     run_bind (server_at w (auth_server (conf w))) (\<lambda>serv.
     run_bind (get_radius w) (\<lambda>r.
     run_bind (Radius_msg_finish (env_alloc e) msg (Some (shared_secret serv))) (\<lambda>msg.
     run_bind (mem_read 0 (buf_used msg) (rbuf msg)) (\<lambda>data.
     case sys_send e (SendTo (auth_serv_sock r) (srv_addr serv) (take_bit 16 (srv_port serv)) data) w of (res, w) \<Rightarrow>
     run_map (Pair res) (Radius_client_list_add e msg (shared_secret serv) apidx w)))))"

text \<open>The entry with the identifier, between the entries before and after it.\<close>

fun find_req :: "byte \<Rightarrow> radius_msg_list list \<Rightarrow> (radius_msg_list list \<times> radius_msg_list \<times> radius_msg_list list) option run" where
  "find_req i [] = ret None"
| "find_req i (x # xs) =
     (case rm_msg x of None \<Rightarrow> fail UseAfterFree
      | Some m \<Rightarrow> if msg_identifier m = i then ret (Some ([], x, xs))
          else run_map (map_option (\<lambda>(pre, y, post). (x # pre, y, post))) (find_req i xs))"

text \<open>The loop over the handlers, until one processes or queues the message.\<close>

fun rx_dispatch ::
    "(rx_handler \<Rightarrow> radius_msg \<Rightarrow> radius_msg \<Rightarrow> byte list \<Rightarrow> rtapd \<Rightarrow> (RadiusRxResult \<times> radius_msg \<times> rtapd) run)
     \<Rightarrow> rx_handler list \<Rightarrow> radius_msg \<Rightarrow> radius_msg \<Rightarrow> byte list \<Rightarrow> rtapd \<Rightarrow> (RadiusRxResult option \<times> rtapd) run" where
  "rx_dispatch call [] msg req secret w = ret (None, w)"
| "rx_dispatch call (h # hs) msg req secret w =
     run_bind (call h msg req secret w) (\<lambda>(res, msg, w).
       if res = RADIUS_RX_PROCESSED \<or> res = RADIUS_RX_QUEUED then ret (Some res, w)
       else rx_dispatch call hs msg req secret w)"

text \<open>\<open>len\<close> is the result of \<open>recv\<close> into the array \<open>buf\<close> of 3000 bytes.\<close>

definition Radius_client_receive ::
    "(rx_handler \<Rightarrow> radius_msg \<Rightarrow> radius_msg \<Rightarrow> byte list \<Rightarrow> rtapd \<Rightarrow> (RadiusRxResult \<times> radius_msg \<times> rtapd) run)
     \<Rightarrow> env \<Rightarrow> int \<Rightarrow> byte list \<Rightarrow> rtapd \<Rightarrow> rtapd run" where
  "Radius_client_receive call e len buf w =
     (if len < 0 \<or> len = 3000 then ret w
      else case Radius_msg_parse (env_alloc e) (take (nat len) buf) of None \<Rightarrow> ret w
      | Some msg \<Rightarrow>
          run_bind (get_radius w) (\<lambda>r.
          run_bind (find_req (msg_identifier msg) (msgs r)) (\<lambda>found.
          case found of None \<Rightarrow> ret w
          | Some (pre, req, post) \<Rightarrow>
              (case rm_msg req of None \<Rightarrow> fail UseAfterFree
               | Some reqm \<Rightarrow>
                   run_map snd (rx_dispatch call (auth_handlers r) msg reqm (rm_secret req)
                     (put_radius (r\<lparr>msgs := pre @ post, num_msgs := num_msgs r - 1\<rparr>) w))))))"

text \<open>The walk of \<open>Radius_client_get_id\<close>. \<open>stale\<close> says that \<open>prev\<close> points to an entry that
  the previous pass freed: the next removal writes its \<open>next\<close> field.\<close>

fun get_id_walk :: "byte \<Rightarrow> bool \<Rightarrow> radius_msg_list list \<Rightarrow> radius_msg_list list run" where
  "get_id_walk i stale [] = ret []"
| "get_id_walk i stale (x # xs) =
     (case rm_msg x of None \<Rightarrow> fail UseAfterFree
      | Some m \<Rightarrow>
          if msg_identifier m = i
          then if stale then fail UseAfterFree else get_id_walk i True xs
          else run_map (Cons x) (get_id_walk i False xs))"

definition Radius_client_get_id :: "rtapd \<Rightarrow> (byte \<times> rtapd) run" where
  "Radius_client_get_id w =
     run_bind (get_radius w) (\<lambda>r.
       let i = next_radius_identifier r; r = r\<lparr>next_radius_identifier := i + 1\<rparr>
       in run_map (\<lambda>ms. (i, put_radius (r\<lparr>msgs := ms\<rparr>) w)) (get_id_walk i False (msgs r)))"

definition Radius_retry_primary_timer :: "env \<Rightarrow> rtapd \<Rightarrow> rtapd run" where
  "Radius_retry_primary_timer e w =
     run_bind (get_radius w) (\<lambda>r.
     run_bind (if auth_serv_sock r \<ge> 0 \<and> auth_servers (conf w) \<noteq> [] \<and> auth_server (conf w) \<noteq> Some 0
               then Radius_change_server e (Some 0) (auth_server (conf w)) (w\<lparr>conf := (conf w)\<lparr>auth_server := Some 0\<rparr>\<rparr>)
               else ret w) (\<lambda>w.
       ret (if radius_retry_primary_interval (conf w) \<noteq> 0
            then add_timeout e (of_int (radius_retry_primary_interval (conf w))) H_Radius_retry_primary_timer (Ctx Apd) NULL_CTX w
            else w)))"

definition Radius_client_init_auth :: "env \<Rightarrow> rtapd \<Rightarrow> (int \<times> rtapd) run" where
  "Radius_client_init_auth e w =
     run_bind (get_radius w) (\<lambda>r.
       let s = env_socket e (sent w);
           w = put_radius (r\<lparr>auth_serv_sock := s\<rparr>) (log_call Socket w)
       in if s < 0 then ret (-1, w)
          else run_bind (Radius_change_server e (auth_server (conf w)) None w) (\<lambda>w.
            case eloop_register_read_sock (env_alloc e) s H_Radius_client_receive (Ctx Apd) NULL_CTX (eloop w) of
              (res, el) \<Rightarrow> ret (if res \<noteq> 0 then -1 else 0, w\<lparr>eloop := el\<rparr>)))"

definition Radius_client_init :: "env \<Rightarrow> rtapd \<Rightarrow> (int \<times> rtapd) run" where
  "Radius_client_init e w =
     (if radius w = None \<and> \<not> env_alloc e sizeof_radius_client_data then ret (-1, w)
      else
        let r = (case radius w of Some r \<Rightarrow> r
                 | None \<Rightarrow> \<lparr>auth_serv_sock = -1, auth_handlers = [], msgs = [], num_msgs = 0, next_radius_identifier = 0\<rparr>);
            w = put_radius r w
        in if auth_serv_sock r < 0 then
             run_bind (if auth_server (conf w) \<noteq> None then Radius_client_init_auth e w else ret (0, w)) (\<lambda>(res, w).
               if res \<noteq> 0 then ret (-1, w)
               else ret (0, if radius_retry_primary_interval (conf w) \<noteq> 0
                 then add_timeout e (of_int (radius_retry_primary_interval (conf w))) H_Radius_retry_primary_timer (Ctx Apd) NULL_CTX w
                 else w))
           else ret (0, w))"

definition Radius_client_deinit :: "rtapd \<Rightarrow> rtapd run" where
  "Radius_client_deinit w =
     (case radius w of None \<Rightarrow> ret w
      | Some _ \<Rightarrow> run_map (\<lambda>w. w\<lparr>radius := None\<rparr>)
          (Radius_client_flush (del_timeout H_Radius_retry_primary_timer (Ctx Apd) NULL_CTX w)))"

section \<open>The invariant of the list\<close>

text \<open>An entry: its message is alive and inside its buffer; it has not used up its attempts;
  its next waiting time is between two seconds and the maximum.\<close>

definition entry_ok :: "radius_msg_list \<Rightarrow> bool" where
  "entry_ok x \<longleftrightarrow> (case rm_msg x of None \<Rightarrow> False | Some m \<Rightarrow> buf_used m \<le> length (rbuf m))
     \<and> 0 \<le> attempts x \<and> attempts x < RADIUS_CLIENT_MAX_RETRIES
     \<and> 2 \<le> next_wait x \<and> next_wait x \<le> RADIUS_CLIENT_MAX_WAIT"

text \<open>The identifier of the request of an entry.\<close>

definition ident :: "radius_msg_list \<Rightarrow> byte" where
  "ident x = msg_identifier (the (rm_msg x))"

definition client_ok :: "radius_client_data \<Rightarrow> bool" where
  "client_ok r \<longleftrightarrow> (\<forall>x \<in> set (msgs r). entry_ok x) \<and> distinct (map ident (msgs r)) \<and> length (msgs r) \<le> unat (num_msgs r)
     \<and> num_msgs r \<le> RADIUS_CLIENT_MAX_ENTRIES"

text \<open>The current server is an element of the list, and a client, if there is one, is in order.\<close>

definition conf_ok :: "rtapd_config \<Rightarrow> bool" where
  "conf_ok c \<longleftrightarrow> (case auth_server c of None \<Rightarrow> auth_servers c = [] | Some i \<Rightarrow> i < num_auth_servers c)"

definition client_inv :: "rtapd \<Rightarrow> bool" where
  "client_inv w \<longleftrightarrow> conf_ok (conf w) \<and> (case radius w of None \<Rightarrow> True | Some r \<Rightarrow> client_ok r)"

lemmas client_consts = RADIUS_CLIENT_FIRST_WAIT_def RADIUS_CLIENT_MAX_WAIT_def RADIUS_CLIENT_MAX_RETRIES_def
  RADIUS_CLIENT_MAX_ENTRIES_def RADIUS_CLIENT_NUM_FAILOVER_def

lemma entry_okD:
  assumes "entry_ok x"
  obtains m where "rm_msg x = Some m" "buf_used m \<le> length (rbuf m)"
  using assms by (cases "rm_msg x") (auto simp: entry_ok_def)

lemma msg_free_ok [simp]: "entry_ok x \<Longrightarrow> Radius_client_msg_free x = ret ()"
  by (auto simp: Radius_client_msg_free_def elim: entry_okD)

lemma eloop_frame [simp]:
  "radius (add_timeout e s h d u w) = radius w" "conf (add_timeout e s h d u w) = conf w"
  "sent (add_timeout e s h d u w) = sent w" "stas (add_timeout e s h d u w) = stas w"
  "radius (del_timeout h d u w) = radius w" "conf (del_timeout h d u w) = conf w"
  "sent (del_timeout h d u w) = sent w" "stas (del_timeout h d u w) = stas w"
  "conf (put_radius r w) = conf w" "sent (put_radius r w) = sent w" "eloop (put_radius r w) = eloop w"
  "stas (put_radius r w) = stas w"
  "radius (log_call c w) = radius w" "conf (log_call c w) = conf w" "eloop (log_call c w) = eloop w"
  "stas (log_call c w) = stas w" "sent (log_call c w) = sent w @ [c]"
  "snd (sys_send e c w) = log_call c w"
  by (simp_all add: add_timeout_def del_timeout_def put_radius_def log_call_def sys_send_def)

lemma client_inv_frame [simp]:
  "client_inv (add_timeout e s h d u w) \<longleftrightarrow> client_inv w" "client_inv (del_timeout h d u w) \<longleftrightarrow> client_inv w"
  "client_inv (log_call c w) \<longleftrightarrow> client_inv w"
  "client_inv (put_radius r w) \<longleftrightarrow> conf_ok (conf w) \<and> client_ok r"
  by (simp_all add: client_inv_def)

lemma client_invD: "client_inv w \<Longrightarrow> radius w = Some r \<Longrightarrow> client_ok r" "client_inv w \<Longrightarrow> conf_ok (conf w)"
  by (simp_all add: client_inv_def)

section \<open>One retransmission\<close>

text \<open>What the timer makes of an entry, and the datagram it sends for it.\<close>

definition due :: "int \<Rightarrow> radius_msg_list \<Rightarrow> bool" where
  "due now x \<longleftrightarrow> next_try x \<le> now"

definition retry :: "int \<Rightarrow> radius_msg_list \<Rightarrow> radius_msg_list" where
  "retry now x = (if due now x
     then x\<lparr>attempts := attempts x + 1, next_try := s32 (now + next_wait x),
            next_wait := min (next_wait x * 2) RADIUS_CLIENT_MAX_WAIT\<rparr>
     else x)"

definition datagram :: "int \<Rightarrow> radius_msg_list \<Rightarrow> sys_call" where
  "datagram s x = Send s (take (buf_used (the (rm_msg x))) (rbuf (the (rm_msg x))))"

lemma retransmit_spec:
  assumes "entry_ok x" "radius w = Some r" "due now x"
  shows "Radius_client_retransmit e x now w
    = ret (attempts (retry now x) \<ge> RADIUS_CLIENT_MAX_RETRIES, retry now x, log_call (datagram (auth_serv_sock r) x) w)"
  using assms(1)
proof (rule entry_okD)
  fix m assume m: "rm_msg x = Some m" "buf_used m \<le> length (rbuf m)"
  then show ?thesis using assms(2,3)
    by (simp add: Radius_client_retransmit_def retry_def datagram_def Let_def slice_def min_def)
qed

lemma retry_keeps [simp]:
  "rm_msg (retry now x) = rm_msg x" "first_try (retry now x) = first_try x" "rm_secret (retry now x) = rm_secret x"
  by (simp_all add: retry_def)

lemma retry_ok: "entry_ok x \<Longrightarrow> attempts (retry now x) < RADIUS_CLIENT_MAX_RETRIES \<Longrightarrow> entry_ok (retry now x)"
  by (auto simp: entry_ok_def retry_def client_consts split: option.splits if_splits)

lemma retry_not_due: "\<not> due now x \<Longrightarrow> retry now x = x"
  by (simp add: retry_def)

section \<open>The timer\<close>

abbreviation unspent :: "radius_msg_list \<Rightarrow> bool" where
  "unspent x \<equiv> attempts x < RADIUS_CLIENT_MAX_RETRIES"

definition earliest :: "int \<Rightarrow> radius_msg_list \<Rightarrow> int" where
  "earliest first x = (if first = 0 \<or> next_try x < first then next_try x else first)"

text \<open>The entries that stay, and the registration of the timer for them.\<close>

definition kept :: "int \<Rightarrow> radius_msg_list list \<Rightarrow> radius_msg_list list" where
  "kept now ms = filter unspent (map (retry now) ms)"

definition arm_timer :: "env \<Rightarrow> radius_msg_list list \<Rightarrow> rtapd \<Rightarrow> rtapd" where
  "arm_timer e ms w = (if ms = [] then w
     else add_timeout e (of_int (max (env_time e) (foldl earliest 0 ms) - env_time e)) H_Radius_client_timer (Ctx Apd) NULL_CTX w)"

lemma arm_timer_frame [simp]:
  "radius (arm_timer e ms w) = radius w" "conf (arm_timer e ms w) = conf w" "sent (arm_timer e ms w) = sent w"
  "stas (arm_timer e ms w) = stas w" "client_inv (arm_timer e ms w) = client_inv w"
  by (simp_all add: arm_timer_def)

lemma kept_simps [simp]:
  "kept now [] = []"
  "kept now (x # xs) = (if unspent (retry now x) then retry now x # kept now xs else kept now xs)"
  by (simp_all add: kept_def)

lemma length_kept: "length (kept now ms) \<le> length ms"
  by (induction ms) auto

lemma timer_walk_spec:
  assumes "\<forall>x \<in> set ms. entry_ok x" "radius w = Some r"
  shows "timer_walk e now ms fo first w =
     ret (kept now ms, fo + length (filter (\<lambda>x. attempts x > RADIUS_CLIENT_NUM_FAILOVER) (kept now ms)),
       foldl earliest first (kept now ms), length ms - length (kept now ms),
       w\<lparr>sent := sent w @ map (datagram (auth_serv_sock r)) (filter (due now) ms)\<rparr>)"
  using assms
proof (induction ms arbitrary: fo first w)
  case (Cons x xs)
  have ok: "entry_ok x" and xs: "\<forall>y \<in> set xs. entry_ok y" using Cons.prems by auto
  have len: "length (kept now xs) \<le> length xs" by (rule length_kept)
  have un: "unspent x" using ok by (simp add: entry_ok_def)
  show ?case
  proof (cases "due now x")
    case True
    have r: "radius (log_call (datagram (auth_serv_sock r) x) w) = Some r" using Cons.prems by simp
    note ih = Cons.IH [OF xs r] retransmit_spec [OF ok Cons.prems(2) True]
    show ?thesis
      using True len by (simp add: due_def [symmetric] ih not_less earliest_def [symmetric]) (auto simp: log_call_def Suc_diff_le)
  next
    case False
    then show ?thesis using un len
      by (simp add: due_def [symmetric] Cons.IH [OF xs Cons.prems(2)] retry_not_due earliest_def [symmetric])
  qed
qed simp

section \<open>The operations keep the invariant\<close>

definition flushed :: "rtapd \<Rightarrow> rtapd" where
  "flushed w = (case radius w of None \<Rightarrow> w
     | Some r \<Rightarrow> put_radius (r\<lparr>msgs := [], num_msgs := 0\<rparr>) (del_timeout H_Radius_client_timer (Ctx Apd) NULL_CTX w))"

lemma free_all: "\<forall>x \<in> set ms. entry_ok x \<Longrightarrow> foldr (\<lambda>x m. run_bind (Radius_client_msg_free x) (\<lambda>_. m)) ms (ret ()) = ret ()"
  by (induction ms) simp_all

lemma flush_spec: "client_inv w \<Longrightarrow> Radius_client_flush w = ret (flushed w)"
  by (auto simp: Radius_client_flush_def flushed_def client_inv_def client_ok_def free_all Let_def split: option.split)

lemma flushed_inv [simp]: "client_inv w \<Longrightarrow> client_inv (flushed w)"
  by (auto simp: flushed_def client_inv_def client_ok_def client_consts split: option.split)

lemma flushed_conf [simp]: "conf (flushed w) = conf w" "stas (flushed w) = stas w" "sent (flushed w) = sent w"
  by (simp_all add: flushed_def split: option.split)

lemma reset_ok: "entry_ok x \<Longrightarrow> entry_ok (reset_entry x)"
  by (auto simp: entry_ok_def reset_entry_def client_consts)

lemma ident_reset [simp]: "ident (reset_entry x) = ident x"
  by (simp add: ident_def reset_entry_def)

lemma ident_retry [simp]: "ident (retry now x) = ident x"
  by (simp add: ident_def)

lemma server_at_ret [simp]: "i < num_auth_servers (conf w) \<Longrightarrow> server_at w (Some i) = ret (auth_servers (conf w) ! i)"
  by (simp add: server_at_def)

lemma change_server_spec:
  assumes "client_inv w" "radius w = Some r" "i < num_auth_servers (conf w)"
    and "case oserv of None \<Rightarrow> True | Some j \<Rightarrow> j < num_auth_servers (conf w)"
  shows "Radius_change_server e (Some i) oserv w = ret
    (if (case oserv of None \<Rightarrow> True
         | Some j \<Rightarrow> shared_secret (auth_servers (conf w) ! i) \<noteq> shared_secret (auth_servers (conf w) ! j))
     then flushed w
     else let w = put_radius (r\<lparr>msgs := map reset_entry (msgs r)\<rparr>) w in
       if msgs r = [] then w
       else add_timeout e 1 H_Radius_client_timer (Ctx Apd) NULL_CTX (del_timeout H_Radius_client_timer (Ctx Apd) NULL_CTX w))"
  using assms by (auto simp: Radius_change_server_def flush_spec RADIUS_CLIENT_FIRST_WAIT_def Let_def split: option.split)

lemma change_server_inv:
  assumes "client_inv w" "radius w \<noteq> None" "i < num_auth_servers (conf w)"
    and "case oserv of None \<Rightarrow> True | Some j \<Rightarrow> j < num_auth_servers (conf w)"
  shows "returns (Radius_change_server e (Some i) oserv w) client_inv"
proof -
  from assms(2) obtain r where r: "radius w = Some r" by auto
  have "client_ok r" using assms(1) r by (rule client_invD)
  then have "client_ok (r\<lparr>msgs := map reset_entry (msgs r)\<rparr>)"
    by (auto simp: client_ok_def reset_ok comp_def)
  then have "client_inv (put_radius (r\<lparr>msgs := map reset_entry (msgs r)\<rparr>) w)"
    using assms(1) by (simp add: client_invD(2))
  then show ?thesis
    using assms(1) unfolding change_server_spec [OF assms(1) r assms(3,4)] Let_def by (cases "msgs r = []") simp_all
qed

lemma kept_ok: "\<forall>x \<in> set ms. entry_ok x \<Longrightarrow> \<forall>x \<in> set (kept now ms). entry_ok x"
  by (auto simp: kept_def intro: retry_ok)

lemma kept_ident: "map ident (kept now ms) = map ident (filter (\<lambda>x. unspent (retry now x)) ms)"
  by (induction ms) simp_all

lemma kept_distinct: "distinct (map ident ms) \<Longrightarrow> distinct (map ident (kept now ms))"
  by (simp add: kept_ident distinct_map_filter)

lemma unat_minus_of_nat: "k \<le> unat (n :: u32) \<Longrightarrow> unat (n - of_nat k) = unat n - k"
proof -
  assume k: "k \<le> unat n"
  moreover have "unat n < 2 ^ LENGTH(32)" by (rule unsigned_less)
  ultimately have "k < 2 ^ 32" by simp
  then have u: "unat (of_nat k :: u32) = k" by (simp add: unat_of_nat take_bit_nat_eq_self)
  then have "(of_nat k :: u32) \<le> n" using k by (simp add: word_le_nat_alt)
  then show ?thesis using u by (simp add: unat_sub)
qed

definition timed_client :: "int \<Rightarrow> radius_client_data \<Rightarrow> radius_client_data" where
  "timed_client now r = r\<lparr>msgs := kept now (msgs r), num_msgs := num_msgs r - of_nat (length (msgs r) - length (kept now (msgs r)))\<rparr>"

lemma timed_client_simps [simp]:
  "msgs (timed_client now r) = kept now (msgs r)" "auth_serv_sock (timed_client now r) = auth_serv_sock r"
  by (simp_all add: timed_client_def)

lemma timed_client_ok:
  assumes "client_ok r"
  shows "client_ok (timed_client now r)"
proof -
  let ?k = "length (msgs r) - length (kept now (msgs r))"
  have len: "length (kept now (msgs r)) \<le> length (msgs r)" by (rule length_kept)
  have "length (msgs r) \<le> unat (num_msgs r)" using assms by (simp add: client_ok_def)
  then have n: "unat (num_msgs r - of_nat ?k) = unat (num_msgs r) - ?k"
    by (intro unat_minus_of_nat) linarith
  have "unat (num_msgs r) \<le> 30" using assms by (simp add: client_ok_def client_consts word_le_nat_alt)
  then show ?thesis
    using assms n len kept_ok [of "msgs r" now]
    by (simp add: kept_distinct client_ok_def timed_client_def client_consts word_le_nat_alt del: of_nat_diff) linarith
qed

text \<open>The timer without the change of server.\<close>

definition timer_resent :: "env \<Rightarrow> radius_client_data \<Rightarrow> rtapd \<Rightarrow> rtapd" where
  "timer_resent e r w = arm_timer e (kept (env_time e) (msgs r)) (put_radius (timed_client (env_time e) r)
     (w\<lparr>sent := sent w @ map (datagram (auth_serv_sock r)) (filter (due (env_time e)) (msgs r))\<rparr>))"

definition failing_over :: "env \<Rightarrow> radius_client_data \<Rightarrow> bool" where
  "failing_over e r \<longleftrightarrow> (\<exists>x \<in> set (kept (env_time e) (msgs r)). attempts x > RADIUS_CLIENT_NUM_FAILOVER)"

lemma timer_resent_simps [simp]:
  "conf (timer_resent e r w) = conf w" "radius (timer_resent e r w) = Some (timed_client (env_time e) r)"
  "sent (timer_resent e r w) = sent w @ map (datagram (auth_serv_sock r)) (filter (due (env_time e)) (msgs r))"
  by (simp_all add: timer_resent_def)

lemma timer_resent_inv: "client_inv w \<Longrightarrow> radius w = Some r \<Longrightarrow> client_inv (timer_resent e r w)"
  by (simp add: client_inv_def timed_client_ok)

lemma timer_spec:
  assumes "client_inv w" "radius w = Some r" "msgs r \<noteq> []"
  shows "Radius_client_timer e w =
    (let v = timer_resent e r w in
     if failing_over e r \<and> num_auth_servers (conf w) > 1
     then case auth_server (conf w) of None \<Rightarrow> fail NullDeref
       | Some old \<Rightarrow> let nxt = Suc old mod num_auth_servers (conf w)
           in Radius_change_server e (Some nxt) (Some old) (v\<lparr>conf := (conf w)\<lparr>auth_server := Some nxt\<rparr>\<rparr>)
     else ret v)"
proof -
  have ok: "\<forall>x \<in> set (msgs r). entry_ok x" using assms by (auto simp: client_inv_def client_ok_def)
  let ?now = "env_time e"
  let ?fo = "length (filter (\<lambda>x. attempts x > RADIUS_CLIENT_NUM_FAILOVER) (kept ?now (msgs r)))"
  have fo: "0 < ?fo \<longleftrightarrow> failing_over e r"
    unfolding failing_over_def length_greater_0_conv filter_empty_conv by blast
  have nxt: "(if old + 1 > n - 1 then 0 else old + 1) = Suc old mod n" if "old < n" for old n :: nat
    using that by (cases "Suc old = n") auto
  have conf: "auth_server (conf w) = Some old \<Longrightarrow> old < num_auth_servers (conf w)" for old
    using client_invD(2) [OF assms(1)] by (simp add: conf_ok_def)
  have mx: "(if f < now then now else f) = max now f" for f now :: int by simp
  have arm: "(if ms \<noteq> [] then add_timeout e (of_int ((if foldl earliest 0 ms < ?now then ?now else foldl earliest 0 ms) - ?now))
      H_Radius_client_timer (Ctx Apd) NULL_CTX v else v) = arm_timer e ms v" for ms v
    by (simp add: arm_timer_def max_def)
  have walk: "timer_walk e ?now (msgs r) 0 0 w = ret (kept ?now (msgs r), ?fo, foldl earliest 0 (kept ?now (msgs r)),
      length (msgs r) - length (kept ?now (msgs r)),
      w\<lparr>sent := sent w @ map (datagram (auth_serv_sock r)) (filter (due ?now) (msgs r))\<rparr>)"
    using timer_walk_spec [OF ok assms(2), of e ?now 0 0] by simp
  have "Radius_client_timer e w =
    (if 0 < ?fo \<and> num_auth_servers (conf w) > 1
     then case auth_server (conf w) of None \<Rightarrow> fail NullDeref
       | Some old \<Rightarrow> let nxt = (if old + 1 > num_auth_servers (conf w) - 1 then 0 else old + 1)
           in Radius_change_server e (Some nxt) (Some old) ((timer_resent e r w)\<lparr>conf := (conf w)\<lparr>auth_server := Some nxt\<rparr>\<rparr>)
     else ret (timer_resent e r w))"
    unfolding Radius_client_timer_def get_radius_ret [OF assms(2)] run_bind_ret Let_def walk prod.case arm
      timed_client_def [symmetric] timer_resent_def [symmetric] timer_resent_simps using assms(3) by simp
  then show ?thesis
    unfolding fo Let_def using conf nxt by (auto split: option.split)
qed

lemma timer_inv: "client_inv w \<Longrightarrow> radius w \<noteq> None \<Longrightarrow> returns (Radius_client_timer e w) client_inv"
proof -
  assume inv: "client_inv w" and "radius w \<noteq> None"
  then obtain r where r: "radius w = Some r" by auto
  show ?thesis
  proof (cases "msgs r = []")
    case True
    then show ?thesis using inv r by (simp add: Radius_client_timer_def)
  next
    case False
    note spec = timer_spec [OF inv r False, of e]
    note v = timer_resent_inv [OF inv r, of e]
    show ?thesis
    proof (cases "failing_over e r \<and> num_auth_servers (conf w) > 1")
      case False
      then show ?thesis unfolding spec Let_def using v by (simp only: if_not_P if_False returns_ret)
    next
      case True
      have "auth_servers (conf w) \<noteq> []" using True by (auto simp: num_auth_servers_def)
      then obtain old where old: "auth_server (conf w) = Some old" "old < num_auth_servers (conf w)"
        using client_invD(2) [OF inv] by (auto simp: conf_ok_def split: option.splits)
      let ?nxt = "Suc old mod num_auth_servers (conf w)"
      let ?v = "timer_resent e r w\<lparr>conf := (conf w)\<lparr>auth_server := Some ?nxt\<rparr>\<rparr>"
      have lt: "?nxt < num_auth_servers (conf w)" using True by simp
      have n: "num_auth_servers (conf ?v) = num_auth_servers (conf w)" by (simp add: num_auth_servers_def)
      have "client_inv ?v" using v lt by (simp add: client_inv_def conf_ok_def num_auth_servers_def)
      then have "returns (Radius_change_server e (Some ?nxt) (Some old) ?v) client_inv"
        using lt old n by (intro change_server_inv) simp_all
      then show ?thesis using spec True old by (simp add: Let_def)
    qed
  qed
qed

section \<open>Adding a request\<close>

text \<open>The entry of a request sent at time \<open>t\<close>.\<close>

definition new_entry :: "int \<Rightarrow> radius_msg \<Rightarrow> byte list \<Rightarrow> byte \<Rightarrow> radius_msg_list" where
  "new_entry t msg secret apidx = \<lparr>rm_msg = Some msg, first_try = t, next_try = s32 (t + 1), attempts = 1,
     next_wait = 2, rm_secret = secret, rm_ApIdx = apidx\<rparr>"

lemma new_entry_ok: "buf_used msg \<le> length (rbuf msg) \<Longrightarrow> entry_ok (new_entry t msg secret apidx)"
  by (simp add: entry_ok_def new_entry_def client_consts)

lemma ident_new_entry [simp]: "ident (new_entry t msg secret apidx) = msg_identifier msg"
  by (simp add: ident_def new_entry_def)

definition added_client :: "radius_msg_list \<Rightarrow> radius_client_data \<Rightarrow> radius_client_data" where
  "added_client x r =
     (if num_msgs r \<ge> RADIUS_CLIENT_MAX_ENTRIES
      then r\<lparr>msgs := x # butlast (msgs r)\<rparr>
      else r\<lparr>msgs := x # msgs r, num_msgs := num_msgs r + 1\<rparr>)"

lemma list_add_spec:
  assumes "client_inv w" "radius w = Some r" "\<not> eloop_terminated (eloop w)" "env_alloc e sizeof_radius_msg_list"
  shows "Radius_client_list_add e msg secret apidx w = ret (True,
    put_radius (added_client (new_entry (env_time e) msg secret apidx) r)
      (if msgs r = [] then add_timeout e 1 H_Radius_client_timer (Ctx Apd) NULL_CTX w else w))"
proof -
  have ok: "\<forall>x \<in> set (msgs r). entry_ok x" using assms by (auto simp: client_inv_def client_ok_def)
  then have last: "msgs r \<noteq> [] \<Longrightarrow> Radius_client_msg_free (last (msgs r)) = ret ()"
    using last_in_set [of "msgs r"] by simp
  show ?thesis
    using assms(2-4) last
    by (cases "msgs r = []") (simp_all add: Radius_client_list_add_def Let_def added_client_def new_entry_def RADIUS_CLIENT_FIRST_WAIT_def)
qed

lemma unat_incr: "n < (30 :: u32) \<Longrightarrow> unat (n + 1) = unat n + 1"
  by (simp add: word_less_nat_alt unat_word_ariths take_bit_nat_eq_self)

lemma added_client_ok:
  assumes "client_ok r" "entry_ok x" "ident x \<notin> ident ` set (msgs r)"
  shows "client_ok (added_client x r)"
proof (cases "num_msgs r \<ge> RADIUS_CLIENT_MAX_ENTRIES")
  case True
  have b: "set (butlast (msgs r)) \<subseteq> set (msgs r)" by (auto dest: in_set_butlastD)
  have d: "distinct (map ident (butlast (msgs r)))"
    using assms(1) by (simp add: client_ok_def map_butlast distinct_butlast)
  have i: "ident x \<notin> ident ` set (butlast (msgs r))" using assms(3) b by blast
  have n: "unat (num_msgs r) = 30" using assms(1) True by (simp add: client_ok_def client_consts)
  show ?thesis
    using True assms(1,2) b d i n by (auto simp: client_ok_def added_client_def client_consts)
next
  case False
  then have n: "num_msgs r < 30" by (simp add: client_consts)
  then have "num_msgs r + 1 \<le> 30" using unat_incr [OF n] by (simp add: word_le_nat_alt word_less_nat_alt)
  then show ?thesis
    using False assms n by (auto simp: client_ok_def added_client_def client_consts unat_incr)
qed

lemma list_add_inv:
  assumes "client_inv w" "radius w = Some r" "buf_used msg \<le> length (rbuf msg)"
    and "msg_identifier msg \<notin> ident ` set (msgs r)"
  shows "returns (Radius_client_list_add e msg secret apidx w) (\<lambda>(owned, w'). client_inv w')"
proof (cases "\<not> eloop_terminated (eloop w) \<and> env_alloc e sizeof_radius_msg_list")
  case True
  have "client_ok r" using assms(1,2) by (rule client_invD)
  then have "client_ok (added_client (new_entry (env_time e) msg secret apidx) r)"
    using assms(3,4) by (intro added_client_ok new_entry_ok) simp_all
  moreover have "conf_ok (conf w)" using assms(1) by (rule client_invD)
  ultimately show ?thesis
    using True by (simp add: list_add_spec [OF assms(1,2)])
next
  case False
  then show ?thesis using assms(1) by (auto simp: Radius_client_list_add_def)
qed

section \<open>Identifiers\<close>

lemma get_id_walk_none: "\<forall>x \<in> set ms. entry_ok x \<Longrightarrow> i \<notin> ident ` set ms \<Longrightarrow> get_id_walk i s ms = ret ms"
  by (induction ms arbitrary: s) (auto simp: ident_def elim!: entry_okD)

lemma get_id_walk_spec:
  "\<forall>x \<in> set ms. entry_ok x \<Longrightarrow> distinct (map ident ms) \<Longrightarrow>
   get_id_walk i False ms = ret (filter (\<lambda>x. ident x \<noteq> i) ms)"
proof (induction ms)
  case (Cons x xs)
  obtain m where m: "rm_msg x = Some m" using Cons.prems by (auto elim: entry_okD)
  show ?case
  proof (cases "ident x = i")
    case True
    then have "i \<notin> ident ` set xs" using Cons.prems by auto
    moreover from this have "filter (\<lambda>x. ident x \<noteq> i) xs = xs" by (auto simp: filter_id_conv)
    ultimately show ?thesis
      using True m Cons.prems by (simp add: get_id_walk_none ident_def)
  next
    case False
    then show ?thesis using m Cons by (simp add: ident_def)
  qed
qed simp

definition got_id :: "byte \<Rightarrow> radius_client_data \<Rightarrow> radius_client_data" where
  "got_id i r = r\<lparr>next_radius_identifier := i + 1, msgs := filter (\<lambda>x. ident x \<noteq> i) (msgs r)\<rparr>"

lemma get_id_spec:
  assumes "client_inv w" "radius w = Some r"
  shows "Radius_client_get_id w = ret (next_radius_identifier r, put_radius (got_id (next_radius_identifier r) r) w)"
proof -
  have "client_ok r" using assms by (rule client_invD)
  then have "get_id_walk (next_radius_identifier r) False (msgs r)
      = ret (filter (\<lambda>x. ident x \<noteq> next_radius_identifier r) (msgs r))"
    by (intro get_id_walk_spec) (simp_all add: client_ok_def)
  then show ?thesis using assms(2) by (simp add: Radius_client_get_id_def Let_def got_id_def)
qed

lemma got_id_ok: "client_ok r \<Longrightarrow> client_ok (got_id i r)"
proof -
  assume "client_ok r"
  moreover have "length (filter (\<lambda>x. ident x \<noteq> i) (msgs r)) \<le> length (msgs r)" by (rule length_filter_le)
  ultimately show ?thesis
    by (auto simp: client_ok_def got_id_def distinct_map_filter intro: order_trans [OF length_filter_le])
qed

lemma get_id_inv: "client_inv w \<Longrightarrow> radius w \<noteq> None \<Longrightarrow> returns (Radius_client_get_id w) (\<lambda>(i, w'). client_inv w')"
  by (auto simp: get_id_spec client_inv_def got_id_ok)

section \<open>Dispatch of an answer\<close>

lemma find_req_spec:
  "\<forall>x \<in> set ms. entry_ok x \<Longrightarrow> find_req i ms = ret
     (case find (\<lambda>x. ident x = i) ms of None \<Rightarrow> None
      | Some y \<Rightarrow> Some (takeWhile (\<lambda>x. ident x \<noteq> i) ms, y, tl (dropWhile (\<lambda>x. ident x \<noteq> i) ms)))"
proof (induction ms)
  case (Cons x xs)
  obtain m where m: "rm_msg x = Some m" using Cons.prems by (auto elim: entry_okD)
  then show ?case using Cons by (auto simp: ident_def split: option.split)
qed simp

lemma around_eq_filter:
  assumes "distinct (map ident ms)" "i \<in> ident ` set ms"
  shows "takeWhile (\<lambda>x. ident x \<noteq> i) ms @ tl (dropWhile (\<lambda>x. ident x \<noteq> i) ms) = filter (\<lambda>x. ident x \<noteq> i) ms"
  using assms
proof (induction ms)
  case (Cons x xs)
  show ?case
  proof (cases "ident x = i")
    case True
    then have "i \<notin> ident ` set xs" using Cons.prems by auto
    then have "filter (\<lambda>x. ident x \<noteq> i) xs = xs" by (auto simp: filter_id_conv)
    then show ?thesis using True by simp
  next
    case False
    then show ?thesis using Cons by auto
  qed
qed simp

text \<open>The list without the answered request.\<close>

definition answered :: "byte \<Rightarrow> radius_client_data \<Rightarrow> radius_client_data" where
  "answered i r = r\<lparr>msgs := filter (\<lambda>x. ident x \<noteq> i) (msgs r), num_msgs := num_msgs r - 1\<rparr>"

lemma filter_ident_length:
  "distinct (map ident ms) \<Longrightarrow> i \<in> ident ` set ms \<Longrightarrow> length (filter (\<lambda>x. ident x \<noteq> i) ms) = length ms - 1"
proof (induction ms)
  case (Cons x xs)
  show ?case
  proof (cases "ident x = i")
    case True
    then have "i \<notin> ident ` set xs" using Cons.prems by auto
    then have "filter (\<lambda>x. ident x \<noteq> i) xs = xs" by (auto simp: filter_id_conv)
    then show ?thesis using True by simp
  next
    case False
    then have "i \<in> ident ` set xs" using Cons.prems by auto
    then have "xs \<noteq> []" by auto
    with False Cons show ?thesis by (cases xs) auto
  qed
qed simp

lemma answered_ok:
  assumes "client_ok r" "i \<in> ident ` set (msgs r)"
  shows "client_ok (answered i r)"
proof -
  have len: "length (filter (\<lambda>x. ident x \<noteq> i) (msgs r)) = length (msgs r) - 1"
    using assms by (intro filter_ident_length) (simp_all add: client_ok_def)
  have pos: "0 < length (msgs r)" using assms(2) by auto
  have "1 \<le> unat (num_msgs r)" using assms(1) pos unfolding client_ok_def by linarith
  then have "unat (num_msgs r - 1) = unat (num_msgs r) - 1"
    using unat_minus_of_nat [of 1 "num_msgs r"] by simp
  then show ?thesis
    using assms(1) len by (simp add: client_ok_def answered_def client_consts word_le_nat_alt distinct_map_filter) linarith
qed

text \<open>
  What the client expects of its handlers: on a message, a request and a secret that satisfy \<open>M\<close> they
  keep the invariant \<open>I\<close> of the daemon, and \<open>M\<close> of the message for the handlers after them; and \<open>I\<close> does not
  see the removal of an answered request.
\<close>

locale rx_handlers =
  fixes call :: "rx_handler \<Rightarrow> radius_msg \<Rightarrow> radius_msg \<Rightarrow> byte list \<Rightarrow> rtapd \<Rightarrow> (RadiusRxResult \<times> radius_msg \<times> rtapd) run"
    and I :: "rtapd \<Rightarrow> bool" and M :: "radius_msg \<Rightarrow> radius_msg \<Rightarrow> byte list \<Rightarrow> bool"
  assumes handler_keeps: "I w \<Longrightarrow> M msg req secret \<Longrightarrow> yields (call h msg req secret w) (\<lambda>(res, msg', w'). M msg' req secret \<and> I w')"
    and client: "I w \<Longrightarrow> client_inv w"
    and answer: "I w \<Longrightarrow> radius w = Some r \<Longrightarrow> i \<in> ident ` set (msgs r) \<Longrightarrow> I (put_radius (answered i r) w)"
begin

lemma dispatch_keeps: "I w \<Longrightarrow> M msg req secret \<Longrightarrow> yields (rx_dispatch call hs msg req secret w) (\<lambda>(res, w'). I w')"
proof (induction hs arbitrary: msg w)
  case (Cons h hs)
  show ?case
    unfolding rx_dispatch.simps yields_bind
    by (rule yields_mono [OF handler_keeps [OF Cons.prems]]) (auto intro: Cons.IH)
qed simp

end

lemma receive_unanswered:
  "len < 0 \<or> len = 3000 \<or> Radius_msg_parse (env_alloc e) (take (nat len) buf) = None
   \<Longrightarrow> Radius_client_receive call e len buf w = ret w"
  by (auto simp: Radius_client_receive_def)

lemma receive_spec:
  assumes inv: "client_inv w" and r: "radius w = Some r" and len: "0 \<le> len" "len \<noteq> 3000"
    and parse: "Radius_msg_parse (env_alloc e) (take (nat len) buf) = Some msg"
  shows "Radius_client_receive call e len buf w =
    (case find (\<lambda>x. ident x = msg_identifier msg) (msgs r) of
       None \<Rightarrow> ret w
     | Some x \<Rightarrow> run_map snd (rx_dispatch call (auth_handlers r) msg (the (rm_msg x)) (rm_secret x)
         (put_radius (answered (msg_identifier msg) r) w)))"
proof -
  have ok: "client_ok r" using inv r by (rule client_invD)
  then have oks: "\<forall>x \<in> set (msgs r). entry_ok x" and d: "distinct (map ident (msgs r))" by (simp_all add: client_ok_def)
  show ?thesis
  proof (cases "find (\<lambda>x. ident x = msg_identifier msg) (msgs r)")
    case None
    then show ?thesis using len parse r by (simp add: Radius_client_receive_def find_req_spec [OF oks])
  next
    case (Some x)
    then have x: "x \<in> set (msgs r)" "ident x = msg_identifier msg" by (auto simp: find_Some_iff)
    then obtain m where m: "rm_msg x = Some m" using oks by (auto elim: entry_okD)
    have "msg_identifier msg \<in> ident ` set (msgs r)" using x by (metis imageI)
    note around = around_eq_filter [OF d this]
    show ?thesis
      using Some len parse r m around by (simp add: Radius_client_receive_def find_req_spec [OF oks] answered_def)
  qed
qed

context rx_handlers
begin

lemma receive_keeps:
  assumes "I w"
    and M: "\<And>msg r x. Radius_msg_parse (env_alloc e) (take (nat len) buf) = Some msg \<Longrightarrow> radius w = Some r \<Longrightarrow> x \<in> set (msgs r)
      \<Longrightarrow> ident x = msg_identifier msg \<Longrightarrow> M msg (the (rm_msg x)) (rm_secret x)"
  shows "yields (Radius_client_receive call e len buf w) I"
proof (cases "len < 0 \<or> len = 3000 \<or> Radius_msg_parse (env_alloc e) (take (nat len) buf) = None")
  case True
  then show ?thesis using assms(1) by (simp add: receive_unanswered)
next
  case False
  then obtain msg where len: "0 \<le> len" "len \<noteq> 3000" and parse: "Radius_msg_parse (env_alloc e) (take (nat len) buf) = Some msg"
    by auto
  show ?thesis
  proof (cases "radius w")
    case None
    then show ?thesis using len parse by (simp add: Radius_client_receive_def get_radius_def)
  next
    case (Some r)
    note spec = receive_spec [OF client [OF assms(1)] Some len parse]
    show ?thesis
    proof (cases "find (\<lambda>x. ident x = msg_identifier msg) (msgs r)")
      case None
      then show ?thesis using spec assms(1) by simp
    next
      case found: (Some x)
      then have x: "x \<in> set (msgs r)" "ident x = msg_identifier msg" by (auto simp: find_Some_iff)
      then have "msg_identifier msg \<in> ident ` set (msgs r)" by (metis imageI)
      then have "I (put_radius (answered (msg_identifier msg) r) w)"
        by (rule answer [OF assms(1) Some])
      from dispatch_keeps [OF this M [OF parse Some x]] show ?thesis
        unfolding spec found run_map_def option.case yields_bind by (rule yields_mono) auto
    qed
  qed
qed

end

section \<open>Properties\<close>

definition sample_msg :: "byte \<Rightarrow> radius_msg" where
  "sample_msg i = \<lparr>rbuf = [1, i, 0, 20] @ replicate 16 0, buf_used = 20, attrs = [], attr_size = 0\<rparr>"

definition sample_waiting_world :: "radius_msg_list list \<Rightarrow> rtapd" where
  "sample_waiting_world ms = sample_world\<lparr>radius := Some (sample_radius\<lparr>msgs := ms, num_msgs := of_nat (length ms)\<rparr>)\<rparr>"

lemma sample_waiting_inv:
  "client_inv (sample_waiting_world [])" "client_inv (sample_waiting_world [new_entry t (sample_msg i) s a])"
  by (simp_all add: client_inv_def sample_waiting_world_def sample_defs conf_ok_def num_auth_servers_def client_ok_def
      new_entry_ok sample_msg_def client_consts)

lemma sample_waiting_simps:
  "radius (sample_waiting_world ms) = Some (sample_radius\<lparr>msgs := ms, num_msgs := of_nat (length ms)\<rparr>)"
  "conf (sample_waiting_world ms) = sample_conf" "eloop (sample_waiting_world ms) = eloop_init NULL_CTX"
  "sent (sample_waiting_world ms) = []"
  by (simp_all add: sample_waiting_world_def sample_world_def)

text \<open>The retransmit list is bounded and its entries are sound, whatever the operations: an
  entry points to a live message, has fewer than ten attempts behind it and waits between 2 and
  120 seconds, the entries have distinct identifiers, and the list is never longer than the
  count \<open>num_msgs\<close>, which is at most 30. The timer, a flush, the choice of an identifier and the
  addition of a request with a fresh identifier all return and keep this.\<close>

lemma radius_client_bounded:
  assumes "client_inv w" "radius w = Some r"
  shows "returns (Radius_client_timer e w) client_inv
    \<and> returns (Radius_client_flush w) client_inv
    \<and> returns (Radius_client_get_id w) (\<lambda>(i, w'). client_inv w')
    \<and> (buf_used msg \<le> length (rbuf msg) \<and> msg_identifier msg \<notin> ident ` set (msgs r) \<longrightarrow>
        returns (Radius_client_list_add e msg secret apidx w) (\<lambda>(owned, w'). client_inv w'))"
  using assms by (simp add: timer_inv flush_spec get_id_inv list_add_inv)

lemma radius_client_bounded_witness:
  "returns (Radius_client_timer sample_env (sample_waiting_world [])) client_inv
   \<and> returns (Radius_client_list_add sample_env (sample_msg 7) [] 0 (sample_waiting_world [])) (\<lambda>(owned, w'). client_inv w')"
  using radius_client_bounded [OF sample_waiting_inv(1) sample_waiting_simps(1), of sample_env "sample_msg 7" "[]" 0]
  by (simp add: sample_msg_def)

lemma foldl_earliest: "x > 0 \<Longrightarrow> \<forall>y \<in> set ys. next_try y > 0 \<Longrightarrow> foldl earliest x ys = Min (insert x (next_try ` set ys))"
proof (induction ys arbitrary: x)
  case (Cons y ys)
  have "earliest x y = min x (next_try y)" using Cons.prems by (auto simp: earliest_def)
  moreover have "0 < min x (next_try y)" using Cons.prems by simp
  ultimately have "foldl earliest x (y # ys) = Min (insert (min x (next_try y)) (next_try ` set ys))"
    using Cons by simp
  also have "\<dots> = Min (insert x (insert (next_try y) (next_try ` set ys)))"
    by (cases "ys = []") (simp_all add: min.assoc)
  finally show ?case by simp
qed simp

lemma foldl_earliest_0:
  assumes "ys \<noteq> []" "\<forall>y \<in> set ys. next_try y > 0"
  shows "foldl earliest 0 ys = Min (next_try ` set ys)"
proof (cases ys)
  case (Cons y zs)
  have "foldl earliest 0 ys = foldl earliest (next_try y) zs" by (simp add: Cons earliest_def)
  also have "\<dots> = Min (insert (next_try y) (next_try ` set zs))" using assms Cons by (intro foldl_earliest) auto
  finally show ?thesis by (simp add: Cons)
qed (use assms in simp)

lemma kept_later:
  assumes "\<forall>x \<in> set ms. entry_ok x" "0 \<le> now" "now < 2 ^ 31 - 121"
  shows "\<forall>x \<in> set (kept now ms). now < next_try x"
proof
  fix y assume "y \<in> set (kept now ms)"
  then obtain x where x: "x \<in> set ms" "y = retry now x" by (auto simp: kept_def)
  then have "2 \<le> next_wait x" "next_wait x \<le> 120" using assms(1) by (auto simp: entry_ok_def client_consts)
  then have "s32 (now + next_wait x) = now + next_wait x" using assms by (intro s32_id) linarith+
  then show "now < next_try y"
    using x \<open>2 \<le> next_wait x\<close> by (simp add: retry_def due_def)
qed

lemma deadline_after:
  assumes "valid_time now" "0 \<le> tv_sec now" "tv_sec now \<le> t" "t < 2 ^ 31"
  shows "eloop_deadline now (of_int (t - tv_sec now)) 0 = Timeval t (tv_usec now)"
proof -
  have u: "uint (of_int (t - tv_sec now) :: u32) = t - tv_sec now"
    using assms by (simp add: unsigned_of_int take_bit_int_eq_self del: of_int_diff)
  have "s32 t = t" "s32 (tv_usec now) = tv_usec now" using assms by (auto simp: valid_time_def)
  then show ?thesis
    using assms by (simp add: eloop_deadline_def u valid_time_def normalize_usec.simps del: of_int_diff)
qed

text \<open>C37. A run of the timer that does not change the server: it sends every request whose
  deadline has come once more, in the order of the list and by \<open>send\<close> on the socket, drops those
  that have now had ten attempts, leaves the others untouched, and every deadline left is in the
  future. If requests are left and the timeout can be allocated, the timer is registered for
  the earliest of their deadlines.\<close>

theorem Radius_client_timer_exact:
  assumes inv: "client_inv w" and r: "radius w = Some r" and ne: "msgs r \<noteq> []"
    and one: "num_auth_servers (conf w) = 1 \<or> \<not> failing_over e r"
    and clock: "valid_time (env_now e)" "0 \<le> env_time e" "env_time e < 2 ^ 31 - 121"
    and early: "\<forall>x \<in> set (msgs r). next_try x < 2 ^ 31"
  shows "\<exists>w' r'. Radius_client_timer e w = ret w' \<and> radius w' = Some r' \<and> conf w' = conf w
    \<and> sent w' = sent w @ map (datagram (auth_serv_sock r)) (filter (due (env_time e)) (msgs r))
    \<and> msgs r' = filter unspent (map (retry (env_time e)) (msgs r))
    \<and> (\<forall>x \<in> set (msgs r'). env_time e < next_try x)
    \<and> (env_alloc e sizeof_eloop_timeout \<and> msgs r' \<noteq> [] \<longrightarrow>
        timeouts (eloop w') = insert_timeout
          \<lparr>to_time = Timeval (Min (next_try ` set (msgs r'))) (tv_usec (env_now e)), to_eloop_data = Ctx Apd,
           to_user_data = NULL_CTX, to_handler = H_Radius_client_timer\<rparr> (timeouts (eloop w)))"
proof -
  let ?now = "env_time e" and ?v = "timer_resent e r w"
  let ?k = "kept ?now (msgs r)"
  have run: "Radius_client_timer e w = ret ?v"
    unfolding timer_spec [OF inv r ne] Let_def using one by auto
  have oks: "\<forall>x \<in> set (msgs r). entry_ok x" using client_invD(1) [OF inv r] by (simp add: client_ok_def)
  note later = kept_later [OF oks clock(2,3)]
  have arm: "timeouts (eloop ?v) = insert_timeout
          \<lparr>to_time = Timeval (Min (next_try ` set ?k)) (tv_usec (env_now e)), to_eloop_data = Ctx Apd,
           to_user_data = NULL_CTX, to_handler = H_Radius_client_timer\<rparr> (timeouts (eloop w))"
    if al: "env_alloc e sizeof_eloop_timeout" and ne: "?k \<noteq> []"
  proof -
    let ?t = "Min (next_try ` set ?k)"
    have first: "foldl earliest 0 ?k = ?t"
      using ne later clock(2) by (intro foldl_earliest_0) force+
    have t_in: "?t \<in> next_try ` set ?k" using ne by (intro Min_in) auto
    then have gt: "?now < ?t" using later by auto
    have lt: "?t < 2 ^ 31"
    proof -
      obtain y where y: "y \<in> set (msgs r)" "?t = next_try (retry ?now y)" using t_in by (auto simp: kept_def)
      then show ?thesis
        using early s32_range(2) [of "?now + next_wait y"] by (simp add: retry_def)
    qed
    have mx: "max ?now ?t - ?now = ?t - tv_sec (env_now e)" using gt by (simp add: env_time_def)
    have dl: "eloop_deadline (env_now e) (of_int (max ?now ?t - ?now)) 0 = Timeval ?t (tv_usec (env_now e))"
      unfolding mx using clock gt lt by (intro deadline_after) (auto simp: env_time_def)
    show ?thesis
      using ne al unfolding timer_resent_def arm_timer_def add_timeout_def first
      by (simp add: eloop_register_timeout_def Let_def dl del: of_int_diff)
  qed
  show ?thesis
    using run later arm by (intro exI [of _ ?v] exI [of _ "timed_client ?now r"]) (simp add: kept_def)
qed

theorem Radius_client_timer_exact_witness:
  "\<exists>w'. Radius_client_timer sample_env (sample_waiting_world [new_entry 999 (sample_msg 7) [] 0]) = ret w'
    \<and> sent w' = [Send 5 (rbuf (sample_msg 7))]"
proof -
  let ?w = "sample_waiting_world [new_entry 999 (sample_msg 7) [] 0]"
  have nf: "\<not> failing_over sample_env (sample_radius\<lparr>msgs := [new_entry 999 (sample_msg 7) [] 0], num_msgs := 1\<rparr>)"
    by (simp add: failing_over_def retry_def due_def new_entry_def env_time_def sample_defs client_consts)
  have "\<exists>w' r'. Radius_client_timer sample_env ?w = ret w' \<and> radius w' = Some r' \<and> conf w' = conf ?w
    \<and> sent w' = sent ?w @ map (datagram 5) (filter (due 1000) [new_entry 999 (sample_msg 7) [] 0]) \<and> True"
    using Radius_client_timer_exact [OF sample_waiting_inv(2), of 999 7 "[]" 0, OF sample_waiting_simps(1), of sample_env] nf
    by (fastforce simp: sample_env_def sample_radius_def env_time_def valid_time_def new_entry_def)
  then show ?thesis
    by (auto simp: sample_waiting_simps datagram_def due_def new_entry_def sample_msg_def)
qed

text \<open>The retransmissions of one entry, each at the entry's own deadline: the times, whether the
  last one asks for the removal of the entry, the entry and the world.\<close>

fun retransmit_run :: "env \<Rightarrow> nat \<Rightarrow> radius_msg_list \<Rightarrow> rtapd \<Rightarrow> (int list \<times> bool \<times> radius_msg_list \<times> rtapd) run" where
  "retransmit_run e 0 x w = ret ([], False, x, w)"
| "retransmit_run e (Suc n) x w =
     run_bind (Radius_client_retransmit e x (next_try x) w) (\<lambda>(remove, y, w).
       if n = 0 then ret ([next_try x], remove, y, w)
       else run_map (\<lambda>(ts, remove, z, w). (next_try x # ts, remove, z, w)) (retransmit_run e n y w))"

definition backoff_entry :: "radius_msg \<Rightarrow> int \<Rightarrow> int \<Rightarrow> int \<Rightarrow> int \<Rightarrow> byte list \<Rightarrow> byte \<Rightarrow> radius_msg_list" where
  "backoff_entry m t0 nt k wt s a = \<lparr>rm_msg = Some m, first_try = t0, next_try = nt, attempts = k, next_wait = wt, rm_secret = s, rm_ApIdx = a\<rparr>"

lemma backoff_step:
  assumes "radius w = Some r" "buf_used m \<le> length (rbuf m)" "0 \<le> nt" "nt + wt < 2 ^ 31" "0 \<le> wt"
  shows "Radius_client_retransmit e (backoff_entry m t0 nt k wt s a) nt w
    = ret (k + 1 \<ge> 10, backoff_entry m t0 (nt + wt) (k + 1) (min (wt * 2) 120) s a,
        log_call (Send (auth_serv_sock r) (take (buf_used m) (rbuf m))) w)"
  using assms by (simp add: Radius_client_retransmit_def backoff_entry_def slice_def client_consts Let_def min_def)

lemma backoff_next [simp]: "next_try (backoff_entry m t0 nt k wt s a) = nt"
  by (simp add: backoff_entry_def)

text \<open>The schedule of an unanswered request: a request queued at time \<open>t\<close> is sent again
  \<open>1, 3, 7, 15, 31, 63, 127, 247\<close> and \<open>367\<close> seconds later, and the ninth retransmission, its tenth
  attempt, asks for its removal; no earlier one does.\<close>

lemma retransmit_schedule:
  assumes "client_inv w" "radius w = Some r" "\<not> eloop_terminated (eloop w)" "env_alloc e sizeof_radius_msg_list"
    and "buf_used msg \<le> length (rbuf msg)" "0 \<le> env_time e" "env_time e < 2 ^ 31 - 1000" "radius v \<noteq> None"
  shows "\<exists>w' r'. Radius_client_list_add e msg secret apidx w = ret (True, w') \<and> radius w' = Some r'
    \<and> (\<exists>x v'. retransmit_run e' 9 (hd (msgs r')) v
         = ret (map (\<lambda>d. env_time e + d) [1, 3, 7, 15, 31, 63, 127, 247, 367], True, x, v'))
    \<and> (\<forall>n < 9. \<exists>ts x v'. retransmit_run e' n (hd (msgs r')) v = ret (ts, False, x, v'))"
proof -
  let ?t = "env_time e"
  from assms(8) obtain q where q: "radius v = Some q" by auto
  let ?b = "\<lambda>d k wt. backoff_entry msg ?t (?t + d) k wt secret apidx"
  let ?c = "Send (auth_serv_sock q) (take (buf_used msg) (rbuf msg))"
  have head: "hd (msgs (added_client (new_entry ?t msg secret apidx) r)) = ?b 1 1 2"
    using assms(6,7) by (simp add: added_client_def new_entry_def backoff_entry_def)
  have step: "Radius_client_retransmit e' (?b d k wt) (?t + d) u = ret (k + 1 \<ge> 10, ?b (d + wt) (k + 1) (min (wt * 2) 120), log_call ?c u)"
    if "radius u = Some q" "0 \<le> d" "d \<le> 367" "0 \<le> wt" "wt \<le> 120" for d k wt u
    using backoff_step [OF that(1) assms(5), of "?t + d" wt e' ?t k secret apidx] that assms(6,7) by (simp add: algebra_simps)
  have ns: "(9::nat) = Suc (Suc (Suc (Suc (Suc (Suc (Suc (Suc (Suc 0))))))))" by simp
  have nine: "\<exists>x v'. retransmit_run e' 9 (?b 1 1 2) v = ret (map (\<lambda>d. ?t + d) [1, 3, 7, 15, 31, 63, 127, 247, 367], True, x, v')"
    unfolding ns by (simp add: step q)
  have less: "\<exists>ts x v'. retransmit_run e' n (?b 1 1 2) v = ret (ts, False, x, v')" if "n < 9" for n
  proof -
    have "n \<in> {0, 1, 2, 3, 4, 5, 6, 7, 8}" using that by auto
    then show ?thesis by (elim insertE) (simp_all add: step q numeral_eq_Suc)
  qed
  show ?thesis
    unfolding list_add_spec [OF assms(1-4)] using nine less by (simp add: head)
qed

lemma retransmit_schedule_witness:
  "\<exists>w' r'. Radius_client_list_add sample_env (sample_msg 7) [] 0 (sample_waiting_world []) = ret (True, w') \<and> radius w' = Some r'
    \<and> (\<exists>x v'. retransmit_run sample_env 9 (hd (msgs r')) sample_world
         = ret ([1001, 1003, 1007, 1015, 1031, 1063, 1127, 1247, 1367], True, x, v'))"
proof -
  have "\<not> eloop_terminated (eloop (sample_waiting_world []))" "env_alloc sample_env n" "env_time sample_env = 1000"
    "radius sample_world \<noteq> None" "buf_used (sample_msg 7) \<le> length (rbuf (sample_msg 7))" for n
    by (simp_all add: sample_waiting_simps eloop_terminated_def eloop_init_def sample_env_def env_time_def sample_world_def
        sample_msg_def no_oom_def)
  then show ?thesis
    using retransmit_schedule [OF sample_waiting_inv(1) sample_waiting_simps(1), of sample_env "sample_msg 7" sample_world "[]" 0 sample_env]
    by simp blast
qed

text \<open>Dispatch of a received datagram. What is too long for the buffer, cannot be received or
  does not parse changes nothing. Otherwise the request with the identifier of the answer is looked
  up; without one the answer is dropped and nothing changes; with one, the request leaves the list and its
  count before any handler runs, and the handlers are called in the order of registration with
  the request's message and secret until one processes or queues the answer.\<close>

lemma Radius_client_receive_exact:
  assumes "client_inv w" "radius w = Some r"
  shows "Radius_client_receive call e len buf w =
    (if len < 0 \<or> len = 3000 then ret w
     else case Radius_msg_parse (env_alloc e) (take (nat len) buf) of None \<Rightarrow> ret w
     | Some msg \<Rightarrow> (case find (\<lambda>x. ident x = msg_identifier msg) (msgs r) of None \<Rightarrow> ret w
         | Some x \<Rightarrow> run_map snd (rx_dispatch call (auth_handlers r) msg (the (rm_msg x)) (rm_secret x)
             (put_radius (r\<lparr>msgs := filter (\<lambda>y. ident y \<noteq> msg_identifier msg) (msgs r), num_msgs := num_msgs r - 1\<rparr>) w))))"
proof (cases "len < 0 \<or> len = 3000 \<or> Radius_msg_parse (env_alloc e) (take (nat len) buf) = None")
  case True
  then show ?thesis by (auto simp: receive_unanswered)
next
  case False
  then obtain msg where "0 \<le> len" "len \<noteq> 3000" "Radius_msg_parse (env_alloc e) (take (nat len) buf) = Some msg" by auto
  from receive_spec [OF assms this] this show ?thesis by (simp add: answered_def split: option.split)
qed

lemma Radius_client_receive_exact_witness:
  "Radius_client_receive (\<lambda>h msg req secret w. ret (RADIUS_RX_PROCESSED, msg, w)) sample_env 20 (rbuf (sample_msg 7))
      (sample_waiting_world [new_entry 999 (sample_msg 7) [] 0])
    = ret (put_radius (sample_radius\<lparr>msgs := [], num_msgs := 0\<rparr>) (sample_waiting_world [new_entry 999 (sample_msg 7) [] 0]))"
proof -
  have "msg_identifier m = 7" if "Radius_msg_parse (env_alloc sample_env) (take (nat 20) (rbuf (sample_msg 7))) = Some m" for m
    using that by (auto simp: Radius_msg_parse_def Radius_msg_initialize_def parse_attrs.simps Let_def sample_msg_def sample_env_def
        msg_identifier_def store_def split: if_splits option.splits)
  moreover have "rd_be16 (slice 2 2 (1 # 7 # 0 # 20 # replicate 16 0)) = 20"
    using rd_be16_be16 [of 20] by (simp add: slice_def be16_def)
  then have "Radius_msg_parse (env_alloc sample_env) (take (nat 20) (rbuf (sample_msg 7))) \<noteq> None"
    by (simp add: Radius_msg_parse_def Radius_msg_initialize_def parse_attrs.simps Let_def sample_msg_def sample_env_def no_oom_def)
  ultimately obtain m where "Radius_msg_parse (env_alloc sample_env) (take (nat 20) (rbuf (sample_msg 7))) = Some m" "msg_identifier m = 7"
    by blast
  then show ?thesis
    using Radius_client_receive_exact [OF sample_waiting_inv(2) sample_waiting_simps(1),
      of "\<lambda>h msg req secret w. ret (RADIUS_RX_PROCESSED, msg, w)" sample_env 20 "rbuf (sample_msg 7)" 999 7 "[]" 0]
    by (simp add: ident_def new_entry_def sample_msg_def msg_identifier_def sample_radius_def)
qed

text \<open>A new identifier. \<open>Radius_client_get_id\<close> returns the next value of an eight-bit counter and
  removes the entry that still uses it, so that no late answer can be taken for one to the new
  request; with distinct identifiers it never touches a freed entry. But it does not count
  the removal: \<open>num_msgs\<close> keeps its value while the list gets shorter, so that every such removal
  costs the list one of its 30 places until the next flush.\<close>

lemma Radius_client_get_id_exact:
  assumes "client_inv w" "radius w = Some r"
  shows "\<exists>w' r'. Radius_client_get_id w = ret (next_radius_identifier r, w') \<and> radius w' = Some r'
    \<and> next_radius_identifier r' = next_radius_identifier r + 1
    \<and> msgs r' = filter (\<lambda>x. ident x \<noteq> next_radius_identifier r) (msgs r)
    \<and> next_radius_identifier r \<notin> ident ` set (msgs r')
    \<and> num_msgs r' = num_msgs r
    \<and> (next_radius_identifier r \<in> ident ` set (msgs r) \<longrightarrow>
        unat (num_msgs r') - length (msgs r') = Suc (unat (num_msgs r) - length (msgs r)))"
proof -
  have ok: "client_ok r" using assms by (rule client_invD)
  let ?ms = "filter (\<lambda>x. ident x \<noteq> next_radius_identifier r) (msgs r)"
  have "unat (num_msgs r) - length ?ms = Suc (unat (num_msgs r) - length (msgs r))"
    if "next_radius_identifier r \<in> ident ` set (msgs r)"
  proof -
    have "length ?ms = length (msgs r) - 1" "0 < length (msgs r)" "length (msgs r) \<le> unat (num_msgs r)"
      using ok that filter_ident_length [of "msgs r"] by (auto simp: client_ok_def)
    then show ?thesis by linarith
  qed
  then show ?thesis
    by (auto simp: get_id_spec [OF assms] got_id_def)
qed

lemma Radius_client_get_id_exact_witness:
  "\<exists>w' r'. Radius_client_get_id (sample_waiting_world [new_entry 999 (sample_msg 0) [] 0]) = ret (0, w')
    \<and> radius w' = Some r' \<and> msgs r' = [] \<and> num_msgs r' = 1"
  using Radius_client_get_id_exact [OF sample_waiting_inv(2) sample_waiting_simps(1), of 999 0 "[]" 0]
  by (auto simp: sample_radius_def sample_msg_def msg_identifier_def)

text \<open>Fail-over. When a request that stays in the list has had more than four attempts and there is a
  second server, the timer makes the next server of the list, cyclically, the current one. With the same
  shared secret the requests that stay keep waiting with their counters reset; with another secret all of
  them are dropped and the timer is cancelled.\<close>

lemma failover_rotates:
  assumes inv: "client_inv w" and r: "radius w = Some r" and fo: "failing_over e r" and many: "num_auth_servers (conf w) > 1"
    and old: "auth_server (conf w) = Some old"
  shows "\<exists>w' r'. Radius_client_timer e w = ret w' \<and> radius w' = Some r'
    \<and> auth_server (conf w') = Some (Suc old mod num_auth_servers (conf w)) \<and> auth_servers (conf w') = auth_servers (conf w)
    \<and> (if shared_secret (auth_servers (conf w) ! (Suc old mod num_auth_servers (conf w))) = shared_secret (auth_servers (conf w) ! old)
       then msgs r' = map reset_entry (filter unspent (map (retry (env_time e)) (msgs r)))
       else msgs r' = [] \<and> num_msgs r' = 0
         \<and> (\<forall>t \<in> set (timeouts (eloop w')). \<not> timeout_matches H_Radius_client_timer (Ctx Apd) NULL_CTX t))"
proof -
  let ?nxt = "Suc old mod num_auth_servers (conf w)"
  let ?v = "(timer_resent e r w)\<lparr>conf := (conf w)\<lparr>auth_server := Some ?nxt\<rparr>\<rparr>"
  have ne: "msgs r \<noteq> []" using fo by (auto simp: failing_over_def)
  have lt: "old < num_auth_servers (conf w)" using client_invD(2) [OF inv] old by (simp add: conf_ok_def)
  have run: "Radius_client_timer e w = Radius_change_server e (Some ?nxt) (Some old) ?v"
    using timer_spec [OF inv r ne, of e] fo many old by (simp add: Let_def)
  have n: "num_auth_servers (conf ?v) = num_auth_servers (conf w)" by (simp add: num_auth_servers_def)
  have "client_inv (timer_resent e r w)" using inv r by (rule timer_resent_inv)
  moreover have "?nxt < num_auth_servers (conf w)" using many by simp
  ultimately have vinv: "client_inv ?v" by (simp add: client_inv_def conf_ok_def num_auth_servers_def)
  have vr: "radius ?v = Some (timed_client (env_time e) r)" by simp
  have knz: "kept (env_time e) (msgs r) \<noteq> []" using fo by (auto simp: failing_over_def)
  have lts: "?nxt < num_auth_servers (conf ?v)" "case Some old of None \<Rightarrow> True | Some j \<Rightarrow> j < num_auth_servers (conf ?v)"
    using many lt n by simp_all
  show ?thesis
  proof (cases "shared_secret (auth_servers (conf w) ! ?nxt) = shared_secret (auth_servers (conf w) ! old)")
    case True
    then show ?thesis
      unfolding run change_server_spec [OF vinv vr lts] Let_def using knz by (simp add: kept_def)
  next
    case False
    then show ?thesis
      unfolding run change_server_spec [OF vinv vr lts]
      by (simp add: flushed_def del_timeout_def eloop_cancel_timeouts)
  qed
qed

definition sample_stuck_entry :: radius_msg_list where
  "sample_stuck_entry = (new_entry 999 (sample_msg 7) [] 0)\<lparr>attempts := 5\<rparr>"

lemma failover_rotates_witness:
  "\<exists>w' r'. Radius_client_timer sample_env (sample_waiting_world [sample_stuck_entry]) = ret w' \<and> radius w' = Some r'
    \<and> auth_server (conf w') = Some 1 \<and> length (msgs r') = 1"
proof -
  let ?w = "sample_waiting_world [sample_stuck_entry]"
  let ?r = "sample_radius\<lparr>msgs := [sample_stuck_entry], num_msgs := 1\<rparr>"
  have inv: "client_inv ?w"
    by (simp add: sample_stuck_entry_def entry_ok_def new_entry_def client_inv_def sample_waiting_world_def sample_defs conf_ok_def
        num_auth_servers_def client_ok_def sample_msg_def client_consts)
  have fo: "failing_over sample_env ?r"
    by (simp add: sample_stuck_entry_def failing_over_def retry_def due_def new_entry_def env_time_def sample_defs client_consts)
  have c: "num_auth_servers (conf ?w) > 1" "auth_server (conf ?w) = Some 0" "radius ?w = Some ?r"
    by (simp_all add: sample_waiting_simps sample_conf_def num_auth_servers_def)
  show ?thesis
    using failover_rotates [OF inv c(3) fo c(1,2)]
    by (simp add: sample_waiting_simps sample_conf_def num_auth_servers_def sample_stuck_entry_def retry_def due_def new_entry_def
        client_consts env_time_def sample_env_def) (metis length_Cons list.size(3))
qed

end
