(* ===== verification/StaTable.thy ===== *)
theory StaTable
  imports RadiusClient
begin

text \<open>
  The table of stations of \<open>802.1x/sta_info.c\<close>: the list headed by \<open>sta_list\<close>, the 256
  chains of \<open>sta_hash\<close>, and the counter \<open>num_sta\<close>. The walks over the chains read the
  stations they pass, so that a chain through a freed station is a fault.

  \<open>table_inv\<close> says that the three agree with the stations that are allocated, and that no two of
  them have the same address. Under it the walks are the operations of a finite map from addresses to
  stations: the locale \<open>station_map\<close> states that contract, and is interpreted on the table.
\<close>

definition sta_hash_of :: "byte list \<Rightarrow> nat" where
  "sta_hash_of a = unat (a ! 5)"

text \<open>The walk of \<open>Ap_get_sta\<close> along a chain.\<close>

fun chain_find :: "byte list \<Rightarrow> nat list \<Rightarrow> rtapd \<Rightarrow> nat option run" where
  "chain_find sa [] w = ret None"
| "chain_find sa (k # ks) w =
     run_bind (get_sta k w) (\<lambda>s. if sta_addr s = sa then ret (Some k) else chain_find sa ks w)"

definition sta_lookup :: "byte list \<Rightarrow> rtapd \<Rightarrow> nat option run" where
  "sta_lookup sa w = chain_find sa (sta_hash w ! sta_hash_of sa) w"

fun radius_id_walk :: "byte \<Rightarrow> nat list \<Rightarrow> rtapd \<Rightarrow> nat option run" where
  "radius_id_walk i [] w = ret None"
| "radius_id_walk i (k # ks) w =
     run_bind (get_sta k w) (\<lambda>s.
       if radius_identifier s \<ge> 0 \<and> radius_identifier s = uint i then ret (Some k) else radius_id_walk i ks w)"

definition Ap_get_sta_radius_identifier :: "rtapd \<Rightarrow> byte \<Rightarrow> nat option run" where
  "Ap_get_sta_radius_identifier w i = radius_id_walk i (sta_list w) w"

text \<open>The list without the first occurrence of a station; its \<open>next\<close> field and those of the stations
  before it are read.\<close>

fun unlink :: "nat \<Rightarrow> nat list \<Rightarrow> rtapd \<Rightarrow> nat list run" where
  "unlink k [] w = ret []"
| "unlink k (x # xs) w =
     run_bind (get_sta x w) (\<lambda>_. if x = k then ret xs else run_map (Cons x) (unlink k xs w))"

definition Ap_sta_list_del :: "nat \<Rightarrow> rtapd \<Rightarrow> rtapd run" where
  "Ap_sta_list_del k w = run_map (\<lambda>l. w\<lparr>sta_list := l\<rparr>) (unlink k (sta_list w) w)"

definition Ap_sta_hash_add :: "nat \<Rightarrow> rtapd \<Rightarrow> rtapd run" where
  "Ap_sta_hash_add k w =
     run_bind (get_sta k w) (\<lambda>s.
       let h = sta_hash_of (sta_addr s) in ret (w\<lparr>sta_hash := (sta_hash w)[h := k # sta_hash w ! h]\<rparr>))"

text \<open>The chain without the first station with the address.\<close>

fun hash_unlink :: "byte list \<Rightarrow> nat list \<Rightarrow> rtapd \<Rightarrow> nat list run" where
  "hash_unlink a [] w = ret []"
| "hash_unlink a (x # xs) w =
     run_bind (get_sta x w) (\<lambda>s. if sta_addr s = a then ret xs else run_map (Cons x) (hash_unlink a xs w))"

definition Ap_sta_hash_del :: "nat \<Rightarrow> rtapd \<Rightarrow> rtapd run" where
  "Ap_sta_hash_del k w =
     run_bind (get_sta k w) (\<lambda>s.
       let h = sta_hash_of (sta_addr s)
       in run_map (\<lambda>c. w\<lparr>sta_hash := (sta_hash w)[h := c]\<rparr>) (hash_unlink (sta_addr s) (sta_hash w ! h) w))"

section \<open>The invariant of the table\<close>

definition sta_addr_of :: "rtapd \<Rightarrow> nat \<Rightarrow> byte list" where
  "sta_addr_of w k = (case stas w k of None \<Rightarrow> [] | Some s \<Rightarrow> sta_addr s)"

definition table_inv :: "rtapd \<Rightarrow> bool" where
  "table_inv w \<longleftrightarrow>
     distinct (sta_list w) \<and> set (sta_list w) = dom (stas w)
     \<and> num_sta w = int (length (sta_list w)) \<and> num_sta w \<le> MAX_STA_COUNT
     \<and> (\<forall>k \<in> dom (stas w). k < next_sta w \<and> length (sta_addr_of w k) = 6)
     \<and> inj_on (sta_addr_of w) (dom (stas w))
     \<and> length (sta_hash w) = STA_HASH_SIZE
     \<and> (\<forall>h < STA_HASH_SIZE. distinct (sta_hash w ! h)
          \<and> set (sta_hash w ! h) = {k \<in> dom (stas w). sta_hash_of (sta_addr_of w k) = h})"

lemma hash_less [simp]: "sta_hash_of a < STA_HASH_SIZE"
proof -
  have "unat (a ! 5) < 2 ^ LENGTH(8)" by (rule unsigned_less)
  then show ?thesis by (simp add: sta_hash_of_def STA_HASH_SIZE_def)
qed

lemma table_invD:
  assumes "table_inv w"
  shows "distinct (sta_list w)" "set (sta_list w) = dom (stas w)" "num_sta w = int (length (sta_list w))"
    "num_sta w \<le> MAX_STA_COUNT" "k \<in> dom (stas w) \<Longrightarrow> k < next_sta w" "k \<in> dom (stas w) \<Longrightarrow> length (sta_addr_of w k) = 6"
    "inj_on (sta_addr_of w) (dom (stas w))" "length (sta_hash w) = STA_HASH_SIZE"
    "h < STA_HASH_SIZE \<Longrightarrow> distinct (sta_hash w ! h)"
    "h < STA_HASH_SIZE \<Longrightarrow> set (sta_hash w ! h) = {k \<in> dom (stas w). sta_hash_of (sta_addr_of w k) = h}"
  using assms by (simp_all add: table_inv_def)

text \<open>The invariant sees of the world only the table and the addresses.\<close>

lemma table_inv_cong:
  assumes "sta_list w' = sta_list w" "sta_hash w' = sta_hash w" "num_sta w' = num_sta w" "next_sta w' = next_sta w"
    "dom (stas w') = dom (stas w)" "\<And>k. k \<in> dom (stas w) \<Longrightarrow> sta_addr_of w' k = sta_addr_of w k"
  shows "table_inv w' \<longleftrightarrow> table_inv w"
proof -
  have "inj_on (sta_addr_of w') (dom (stas w)) = inj_on (sta_addr_of w) (dom (stas w))"
    using assms(6) by (rule inj_on_cong)
  moreover have "{k \<in> dom (stas w). sta_hash_of (sta_addr_of w' k) = h} = {k \<in> dom (stas w). sta_hash_of (sta_addr_of w k) = h}" for h
    by (rule Collect_cong) (use assms(6) in force)
  ultimately show ?thesis
    unfolding table_inv_def assms(1-5) using assms(6) by (simp cong: ball_cong)
qed

lemma sta_addr_of_simp [simp]: "stas w k = Some s \<Longrightarrow> sta_addr_of w k = sta_addr s"
  by (simp add: sta_addr_of_def)

lemma table_inv_put:
  assumes "table_inv w" "stas w k = Some s" "sta_addr s' = sta_addr s"
  shows "table_inv (put_sta k s' w)"
  using assms(1)
  by (subst table_inv_cong [of _ w]) (use assms(2,3) in \<open>auto simp: put_sta_def sta_addr_of_def\<close>)

section \<open>The walks\<close>

lemma chain_find_spec:
  "set c \<subseteq> dom (stas w) \<Longrightarrow> chain_find sa c w = ret (find (\<lambda>k. sta_addr_of w k = sa) c)"
  by (induction c) auto

lemma radius_id_walk_spec:
  "set c \<subseteq> dom (stas w) \<Longrightarrow> radius_id_walk i c w = ret (find (\<lambda>k. radius_identifier (the (stas w k)) = uint i) c)"
  by (induction c) auto

lemma unlink_spec: "set c \<subseteq> dom (stas w) \<Longrightarrow> unlink k c w = ret (remove1 k c)"
  by (induction c) auto

lemma hash_unlink_spec:
  "set c \<subseteq> dom (stas w) \<Longrightarrow> inj_on (sta_addr_of w) (dom (stas w)) \<Longrightarrow> stas w k = Some s \<Longrightarrow>
   hash_unlink (sta_addr s) c w = ret (remove1 k c)"
proof (induction c)
  case (Cons x xs)
  then obtain t where t: "stas w x = Some t" by auto
  have "sta_addr t = sta_addr s \<longleftrightarrow> x = k"
    using Cons.prems t inj_onD [of "sta_addr_of w" "dom (stas w)" x k] by auto
  then show ?case using Cons t by auto
qed simp

lemma find_unique:
  assumes "inj_on (sta_addr_of w) (dom (stas w))" "set c \<subseteq> dom (stas w)" "k \<in> set c"
  shows "find (\<lambda>j. sta_addr_of w j = sta_addr_of w k) c = Some k"
  using assms(2,3)
proof (induction c)
  case (Cons x xs)
  show ?case
  proof (cases "x = k")
    case False
    then have "sta_addr_of w x \<noteq> sta_addr_of w k" using Cons.prems assms(1) by (auto dest: inj_onD)
    then show ?thesis using Cons False by auto
  qed simp
qed simp

text \<open>The map the table implements.\<close>

definition sta_at :: "byte list \<Rightarrow> rtapd \<Rightarrow> nat option" where
  "sta_at sa w = find (\<lambda>k. sta_addr_of w k = sa) (sta_hash w ! sta_hash_of sa)"

lemma sta_lookup_spec: "table_inv w \<Longrightarrow> sta_lookup sa w = ret (sta_at sa w)"
  unfolding sta_lookup_def sta_at_def by (rule chain_find_spec) (auto simp: table_invD(10))

lemma sta_at_iff: "table_inv w \<Longrightarrow> sta_at sa w = Some k \<longleftrightarrow> k \<in> dom (stas w) \<and> sta_addr_of w k = sa"
proof
  assume inv: "table_inv w" and "sta_at sa w = Some k"
  then have k: "k \<in> set (sta_hash w ! sta_hash_of sa)" "sta_addr_of w k = sa" by (auto simp: sta_at_def find_Some_iff)
  from k(1) have "k \<in> dom (stas w)" unfolding table_invD(10) [OF inv hash_less] by simp
  with k(2) show "k \<in> dom (stas w) \<and> sta_addr_of w k = sa" by blast
next
  assume inv: "table_inv w" and k: "k \<in> dom (stas w) \<and> sta_addr_of w k = sa"
  then have "k \<in> set (sta_hash w ! sta_hash_of (sta_addr_of w k))"
    unfolding table_invD(10) [OF inv hash_less] by auto
  then have "find (\<lambda>j. sta_addr_of w j = sta_addr_of w k) (sta_hash w ! sta_hash_of (sta_addr_of w k)) = Some k"
    by (intro find_unique table_invD(7) [OF inv]) (auto simp: table_invD(10) [OF inv])
  with k show "sta_at sa w = Some k" by (simp add: sta_at_def)
qed

lemma sta_at_None: "table_inv w \<Longrightarrow> sta_at sa w = None \<longleftrightarrow> (\<forall>k \<in> dom (stas w). sta_addr_of w k \<noteq> sa)"
  using sta_at_iff [of w sa] by (metis not_None_eq)

section \<open>Insertion and removal\<close>

text \<open>What \<open>Ap_get_sta\<close> and \<open>Ap_free_sta\<close> do to the table.\<close>

definition table_add :: "sta_info \<Rightarrow> rtapd \<Rightarrow> rtapd" where
  "table_add s w =
     (let k = next_sta w; h = sta_hash_of (sta_addr s)
      in w\<lparr>stas := (stas w)(k := Some s), next_sta := Suc k, sta_list := k # sta_list w, num_sta := num_sta w + 1,
           sta_hash := (sta_hash w)[h := k # sta_hash w ! h]\<rparr>)"

definition table_unlink :: "nat \<Rightarrow> rtapd \<Rightarrow> rtapd" where
  "table_unlink k w =
     (let h = sta_hash_of (sta_addr_of w k)
      in w\<lparr>sta_list := remove1 k (sta_list w), num_sta := num_sta w - 1, sta_hash := (sta_hash w)[h := remove1 k (sta_hash w ! h)]\<rparr>)"

definition table_del :: "nat \<Rightarrow> rtapd \<Rightarrow> rtapd" where
  "table_del k w = (table_unlink k w)\<lparr>stas := (stas w)(k := None)\<rparr>"

definition table_room :: "rtapd \<Rightarrow> bool" where
  "table_room w \<longleftrightarrow> num_sta w < MAX_STA_COUNT"

lemma table_add_simps [simp]:
  "stas (table_add s w) = (stas w)(next_sta w := Some s)" "next_sta (table_add s w) = Suc (next_sta w)"
  "sta_list (table_add s w) = next_sta w # sta_list w" "num_sta (table_add s w) = num_sta w + 1"
  "sta_hash (table_add s w) = (sta_hash w)[sta_hash_of (sta_addr s) := next_sta w # sta_hash w ! sta_hash_of (sta_addr s)]"
  "conf (table_add s w) = conf w" "radius (table_add s w) = radius w" "sent (table_add s w) = sent w" "eloop (table_add s w) = eloop w"
  by (simp_all add: table_add_def Let_def)

lemma table_del_simps [simp]:
  "stas (table_del k w) = (stas w)(k := None)" "next_sta (table_del k w) = next_sta w"
  "sta_list (table_del k w) = remove1 k (sta_list w)" "num_sta (table_del k w) = num_sta w - 1"
  "sta_hash (table_del k w) = (sta_hash w)[sta_hash_of (sta_addr_of w k) := remove1 k (sta_hash w ! sta_hash_of (sta_addr_of w k))]"
  "conf (table_del k w) = conf w" "radius (table_del k w) = radius w" "sent (table_del k w) = sent w" "eloop (table_del k w) = eloop w"
  by (simp_all add: table_del_def table_unlink_def Let_def)

lemma next_sta_free: "table_inv w \<Longrightarrow> next_sta w \<notin> dom (stas w)"
  by (metis less_irrefl table_invD(5))

lemma sta_addr_of_add: "sta_addr_of (table_add s w) k = (if k = next_sta w then sta_addr s else sta_addr_of w k)"
  by (simp add: sta_addr_of_def)

lemma sta_addr_of_del: "sta_addr_of (table_del k w) j = (if j = k then [] else sta_addr_of w j)"
  by (simp add: sta_addr_of_def)

lemma table_add_inv:
  assumes inv: "table_inv w" and a: "length (sta_addr s) = 6" "sta_at (sta_addr s) w = None" and room: "table_room w"
  shows "table_inv (table_add s w)"
proof -
  let ?k = "next_sta w" and ?w = "table_add s w"
  note D = table_invD [OF inv]
  have k: "?k \<notin> dom (stas w)" using inv by (rule next_sta_free)
  have fresh: "sta_addr_of w j \<noteq> sta_addr s" if "j \<in> dom (stas w)" for j
    using a(2) that inv by (auto simp: sta_at_None)
  have dom: "dom (stas ?w) = insert ?k (dom (stas w))" by auto
  have addr: "j \<in> dom (stas w) \<Longrightarrow> sta_addr_of ?w j = sta_addr_of w j" "sta_addr_of ?w ?k = sta_addr s" for j
    using k by (auto simp: sta_addr_of_add)
  have inj: "inj_on (sta_addr_of ?w) (dom (stas ?w))"
    unfolding dom inj_on_insert
  proof
    show "inj_on (sta_addr_of ?w) (dom (stas w))" by (rule inj_on_cong [THEN iffD2, OF _ D(7)]) (rule addr(1))
    show "sta_addr_of ?w ?k \<notin> sta_addr_of ?w ` (dom (stas w) - {?k})" proof
      assume "sta_addr_of ?w ?k \<in> sta_addr_of ?w ` (dom (stas w) - {?k})"
      then obtain j where j: "sta_addr_of ?w ?k = sta_addr_of ?w j" "j \<in> dom (stas w)" by blast
      show False using j(1) fresh [OF j(2)] unfolding addr(1) [OF j(2)] addr(2) by simp
    qed
  qed
  have chains: "distinct (sta_hash ?w ! h) \<and> set (sta_hash ?w ! h) = {j \<in> dom (stas ?w). sta_hash_of (sta_addr_of ?w j) = h}"
    if h: "h < STA_HASH_SIZE" for h
  proof -
    have old: "{j \<in> dom (stas w). sta_hash_of (sta_addr_of ?w j) = h} = set (sta_hash w ! h)"
      unfolding D(10) [OF h] by (rule Collect_cong) (use addr(1) in force)
    have "{j \<in> dom (stas ?w). sta_hash_of (sta_addr_of ?w j) = h}
        = (if sta_hash_of (sta_addr s) = h then {?k} else {}) \<union> set (sta_hash w ! h)"
      unfolding dom old [symmetric] using addr(2) by (auto split: if_splits)
    moreover have "?k \<notin> set (sta_hash w ! h)" unfolding D(10) [OF h] using k by blast
    ultimately show ?thesis using D(8,9) h by (simp add: nth_list_update)
  qed
  show ?thesis
    unfolding table_inv_def
  proof (intro conjI ballI allI impI)
    show "distinct (sta_list ?w)" using D(1,2) k by simp
    show "set (sta_list ?w) = dom (stas ?w)" using D(2) by auto
    show "num_sta ?w = int (length (sta_list ?w))" using D(3) by simp
    show "num_sta ?w \<le> MAX_STA_COUNT" using room by (simp add: table_room_def)
    show "inj_on (sta_addr_of ?w) (dom (stas ?w))" by (rule inj)
    show "length (sta_hash ?w) = STA_HASH_SIZE" using D(8) by simp
    show "j < next_sta ?w" if "j \<in> dom (stas ?w)" for j
      using that D(5) [of j] unfolding dom by (auto simp del: domIff simp: less_Suc_eq)
    show "length (sta_addr_of ?w j) = 6" if "j \<in> dom (stas ?w)" for j
      using that D(6) [of j] a(1) by (auto simp: sta_addr_of_add split: if_splits)
    show "distinct (sta_hash ?w ! h)" if "h < STA_HASH_SIZE" for h using chains [OF that] by blast
    show "set (sta_hash ?w ! h) = {j \<in> dom (stas ?w). sta_hash_of (sta_addr_of ?w j) = h}" if "h < STA_HASH_SIZE" for h
      using chains [OF that] by blast
  qed
qed

lemma table_add_at:
  assumes "table_inv w" "length (sta_addr s) = 6" "sta_at (sta_addr s) w = None" "table_room w"
  shows "sta_at b (table_add s w) = (if b = sta_addr s then Some (next_sta w) else sta_at b w)"
proof -
  note inv' = table_add_inv [OF assms]
  have k: "next_sta w \<notin> dom (stas w)" using assms(1) by (rule next_sta_free)
  show ?thesis
  proof (cases "b = sta_addr s")
    case True
    then show ?thesis using sta_at_iff [OF inv', of b "next_sta w"] by (simp add: sta_addr_of_add)
  next
    case False
    then have "sta_at b (table_add s w) = Some j \<longleftrightarrow> sta_at b w = Some j" for j
      unfolding sta_at_iff [OF inv'] sta_at_iff [OF assms(1)] using k by (auto simp: sta_addr_of_add)
    then show ?thesis using False by (metis not_None_eq)
  qed
qed

lemma table_del_inv:
  assumes inv: "table_inv w" and k: "k \<in> dom (stas w)"
  shows "table_inv (table_del k w)"
proof -
  let ?w = "table_del k w" and ?hk = "sta_hash_of (sta_addr_of w k)"
  note D = table_invD [OF inv]
  have dom: "dom (stas ?w) = dom (stas w) - {k}" by auto
  have addr: "j \<in> dom (stas ?w) \<Longrightarrow> sta_addr_of ?w j = sta_addr_of w j" for j
    by (auto simp: sta_addr_of_del split: if_splits)
  have inj: "inj_on (sta_addr_of ?w) (dom (stas ?w))"
    using D(7) addr by (metis Diff_subset dom inj_on_cong inj_on_subset)
  have chains: "distinct (sta_hash ?w ! h) \<and> set (sta_hash ?w ! h) = {j \<in> dom (stas ?w). sta_hash_of (sta_addr_of ?w j) = h}"
    if h: "h < STA_HASH_SIZE" for h
  proof -
    have "{j \<in> dom (stas ?w). sta_hash_of (sta_addr_of ?w j) = h} = set (sta_hash w ! h) - {k}"
      unfolding D(10) [OF h] using addr unfolding dom by auto
    moreover have "k \<notin> set (sta_hash w ! h)" if "h \<noteq> ?hk" unfolding D(10) [OF h] using that by auto
    ultimately show ?thesis using D(8,9) h by (auto simp: nth_list_update)
  qed
  have len: "length (sta_list w) = Suc (length (remove1 k (sta_list w)))"
    using D(2) k by (metis One_nat_def Suc_pred length_pos_if_in_set length_remove1)
  show ?thesis
    unfolding table_inv_def
  proof (intro conjI ballI allI impI)
    show "distinct (sta_list ?w)" using D(1) by simp
    show "set (sta_list ?w) = dom (stas ?w)" using D(1,2) unfolding dom by simp
    show "num_sta ?w = int (length (sta_list ?w))" using D(3) len by simp
    show "num_sta ?w \<le> MAX_STA_COUNT" using D(4) by simp
    show "inj_on (sta_addr_of ?w) (dom (stas ?w))" by (rule inj)
    show "length (sta_hash ?w) = STA_HASH_SIZE" using D(8) by simp
    show "j < next_sta ?w" if "j \<in> dom (stas ?w)" for j using that D(5) [of j] unfolding dom by simp
    show "length (sta_addr_of ?w j) = 6" if "j \<in> dom (stas ?w)" for j
      using D(6) [of j] addr [OF that] that unfolding dom by simp
    show "distinct (sta_hash ?w ! h)" if "h < STA_HASH_SIZE" for h using chains [OF that] by blast
    show "set (sta_hash ?w ! h) = {j \<in> dom (stas ?w). sta_hash_of (sta_addr_of ?w j) = h}" if "h < STA_HASH_SIZE" for h
      using chains [OF that] by blast
  qed
qed

lemma table_del_at:
  assumes "table_inv w" "sta_at a w = Some k"
  shows "sta_at b (table_del k w) = (if b = a then None else sta_at b w)"
proof -
  have k: "k \<in> dom (stas w)" "sta_addr_of w k = a" using assms sta_at_iff by blast+
  note inv' = table_del_inv [OF assms(1) k(1)]
  show ?thesis
  proof (cases "b = a")
    case True
    have "sta_addr_of w j \<noteq> a" if "j \<in> dom (stas w)" "j \<noteq> k" for j
      using that k table_invD(7) [OF assms(1)] by (auto dest: inj_onD)
    then show ?thesis using True inv' by (auto simp: sta_at_None sta_addr_of_del)
  next
    case False
    then have "sta_at b (table_del k w) = Some j \<longleftrightarrow> sta_at b w = Some j" for j
      unfolding sta_at_iff [OF inv'] sta_at_iff [OF assms(1)] using k by (auto simp: sta_addr_of_del)
    then show ?thesis using False by (metis not_None_eq)
  qed
qed

section \<open>The table as a finite map\<close>

locale station_map =
  fixes inv :: "'w \<Rightarrow> bool" and at :: "'a \<Rightarrow> 'w \<Rightarrow> 'k option" and add :: "'s \<Rightarrow> 'w \<Rightarrow> 'w" and del :: "'k \<Rightarrow> 'w \<Rightarrow> 'w"
    and addr :: "'s \<Rightarrow> 'a" and valid :: "'a \<Rightarrow> bool" and fresh :: "'w \<Rightarrow> 'k" and room :: "'w \<Rightarrow> bool"
  assumes add_inv: "inv w \<Longrightarrow> valid (addr s) \<Longrightarrow> at (addr s) w = None \<Longrightarrow> room w \<Longrightarrow> inv (add s w)"
    and add_at: "inv w \<Longrightarrow> valid (addr s) \<Longrightarrow> at (addr s) w = None \<Longrightarrow> room w \<Longrightarrow>
      at b (add s w) = (if b = addr s then Some (fresh w) else at b w)"
    and del_inv: "inv w \<Longrightarrow> at a w = Some k \<Longrightarrow> inv (del k w)"
    and del_at: "inv w \<Longrightarrow> at a w = Some k \<Longrightarrow> at b (del k w) = (if b = a then None else at b w)"
begin

text \<open>A station joins (a frame of it arrives), or leaves.\<close>

definition join :: "'s \<Rightarrow> 'w \<Rightarrow> 'w" where
  "join s w = (if at (addr s) w = None \<and> room w then add s w else w)"

definition leave :: "'a \<Rightarrow> 'w \<Rightarrow> 'w" where
  "leave a w = (case at a w of None \<Rightarrow> w | Some k \<Rightarrow> del k w)"

definition change :: "'s + 'a \<Rightarrow> 'w \<Rightarrow> 'w" where
  "change c w = (case c of Inl s \<Rightarrow> join s w | Inr a \<Rightarrow> leave a w)"

lemma join_inv: "inv w \<Longrightarrow> valid (addr s) \<Longrightarrow> inv (join s w)"
  by (simp add: join_def add_inv)

lemma leave_inv: "inv w \<Longrightarrow> inv (leave a w)"
  by (auto simp: leave_def del_inv split: option.split)

lemma change_inv: "inv w \<Longrightarrow> \<forall>s. c = Inl s \<longrightarrow> valid (addr s) \<Longrightarrow> inv (change c w)"
  by (cases c) (simp_all add: change_def join_inv leave_inv)

lemma change_at:
  assumes "inv w" "\<forall>s. c = Inl s \<longrightarrow> valid (addr s)"
  shows "at b (change c w) = (case c of
      Inl s \<Rightarrow> if b = addr s \<and> at b w = None \<and> room w then Some (fresh w) else at b w
    | Inr a \<Rightarrow> if b = a then None else at b w)"
  using assms by (cases c) (auto simp: change_def join_def leave_def add_at del_at split: option.split)

lemma changes_inv: "inv w \<Longrightarrow> \<forall>s. Inl s \<in> set cs \<longrightarrow> valid (addr s) \<Longrightarrow> inv (fold change cs w)"
  by (induction cs arbitrary: w) (simp_all add: change_inv)

text \<open>A station keeps its object as long as it does not leave, whoever else comes and goes.\<close>

lemma keeps_object:
  "inv w \<Longrightarrow> \<forall>s. Inl s \<in> set cs \<longrightarrow> valid (addr s) \<Longrightarrow> Inr a \<notin> set cs \<Longrightarrow> at a w = Some k \<Longrightarrow> at a (fold change cs w) = Some k"
proof (induction cs arbitrary: w)
  case (Cons c cs)
  have step: "inv (change c w)" "at a (change c w) = Some k"
    using Cons.prems by (auto simp: change_inv change_at split: sum.split)
  then show ?case using Cons by simp
qed simp

text \<open>A station that left is not found until it joins again.\<close>

lemma stays_away:
  "inv w \<Longrightarrow> \<forall>s. Inl s \<in> set cs \<longrightarrow> valid (addr s) \<and> addr s \<noteq> a \<Longrightarrow> at a (fold change cs (leave a w)) = None"
proof -
  have away: "inv w \<Longrightarrow> at a w = None \<Longrightarrow> \<forall>s. Inl s \<in> set cs \<longrightarrow> valid (addr s) \<and> addr s \<noteq> a \<Longrightarrow> at a (fold change cs w) = None" for w cs
  proof (induction cs arbitrary: w)
    case (Cons c cs)
    have "inv (change c w)" "at a (change c w) = None"
      using Cons.prems by (auto simp: change_inv change_at split: sum.split)
    then show ?case using Cons by simp
  qed simp
  assume "inv w" "\<forall>s. Inl s \<in> set cs \<longrightarrow> valid (addr s) \<and> addr s \<noteq> a"
  then show ?thesis
    by (intro away leave_inv) (auto simp: leave_def del_at split: option.split)
qed

end

interpretation stations: station_map table_inv sta_at table_add table_del sta_addr "\<lambda>a. length a = 6" next_sta table_room
proof
  show "table_inv (table_del k w)" if "table_inv w" "sta_at a w = Some k" for w a k
    using that by (auto simp: sta_at_iff intro: table_del_inv)
qed (auto simp: table_add_inv table_add_at table_del_at)

section \<open>The code's walks are the operations of the map\<close>

lemma hash_del_spec:
  assumes "table_inv w" "stas w k = Some s"
  shows "Ap_sta_hash_del k w = ret (w\<lparr>sta_hash := (sta_hash w)[sta_hash_of (sta_addr s) := remove1 k (sta_hash w ! sta_hash_of (sta_addr s))]\<rparr>)"
proof -
  have "hash_unlink (sta_addr s) (sta_hash w ! sta_hash_of (sta_addr s)) w = ret (remove1 k (sta_hash w ! sta_hash_of (sta_addr s)))"
    using assms by (intro hash_unlink_spec table_invD(7)) (auto simp: table_invD(10) [OF assms(1)])
  then show ?thesis using assms(2) by (simp add: Ap_sta_hash_del_def Let_def)
qed

lemma list_del_spec: "set (sta_list w) \<subseteq> dom (stas w) \<Longrightarrow> Ap_sta_list_del k w = ret (w\<lparr>sta_list := remove1 k (sta_list w)\<rparr>)"
  by (simp add: Ap_sta_list_del_def unlink_spec)

lemma unlink_table_spec:
  assumes "table_inv w" "k \<in> dom (stas w)"
  shows "run_bind (Ap_sta_hash_del k w) (\<lambda>w. run_map (\<lambda>w. w\<lparr>num_sta := num_sta w - 1\<rparr>) (Ap_sta_list_del k w)) = ret (table_unlink k w)"
proof -
  obtain s where s: "stas w k = Some s" using assms(2) by auto
  show ?thesis
    using table_invD(2) [OF assms(1)] s
    by (simp add: hash_del_spec [OF assms(1) s] list_del_spec table_unlink_def Let_def)
qed

lemma radius_identifier_spec:
  "table_inv w \<Longrightarrow> Ap_get_sta_radius_identifier w i = ret (find (\<lambda>k. radius_identifier (the (stas w k)) = uint i) (sta_list w))"
  unfolding Ap_get_sta_radius_identifier_def by (rule radius_id_walk_spec) (simp add: table_invD(2))

end
