(* ===== verification/Ieee8021xTx.thy ===== *)
theory Ieee8021xTx
  imports StaTable
begin

text \<open>
  The sending half of \<open>802.1x/ieee802_1x.c\<close>: the frames to the station, the EAPOL-Key
  frames and the keys given to the driver, the requests to the RADIUS server; and what
  connects the state machines of a station to them (\<open>eapol_sm.c\<close>: allocation, the tick of one
  second, \<open>eapol_sm_free\<close>).

  A state machine does not read what its calls into \<open>ieee802_1x.c\<close> write, so \<open>eapol_sm_step\<close>
  is run first, and its calls (\<open>acts\<close>) are carried out in their order afterwards.

  The lemmas give the layout of the frames, that a key frame is signed and encrypted with the keys of
  the station, and that nothing in this half touches the table of stations.
\<close>

definition EAPOL_VERSION :: byte where "EAPOL_VERSION = 1"
definition EAPOL_VERSION_2 :: byte where "EAPOL_VERSION_2 = 2"
definition LENGTH_8021X_HDR :: nat where "LENGTH_8021X_HDR = 4"
definition IEEE802_1X_TYPE_EAP_PACKET :: byte where "IEEE802_1X_TYPE_EAP_PACKET = 0"
definition IEEE802_1X_TYPE_EAPOL_START :: byte where "IEEE802_1X_TYPE_EAPOL_START = 1"
definition IEEE802_1X_TYPE_EAPOL_LOGOFF :: byte where "IEEE802_1X_TYPE_EAPOL_LOGOFF = 2"
definition IEEE802_1X_TYPE_EAPOL_KEY :: byte where "IEEE802_1X_TYPE_EAPOL_KEY = 3"
definition EAP_CODE_REQUEST :: byte where "EAP_CODE_REQUEST = 1"
definition EAP_CODE_RESPONSE :: byte where "EAP_CODE_RESPONSE = 2"
definition EAP_CODE_SUCCESS :: byte where "EAP_CODE_SUCCESS = 3"
definition EAP_CODE_FAILURE :: byte where "EAP_CODE_FAILURE = 4"
definition EAP_TYPE_IDENTITY :: byte where "EAP_TYPE_IDENTITY = 1"
definition EAP_TYPE_NAK :: byte where "EAP_TYPE_NAK = 3"
definition EAPOL_KEY_TYPE_RC4 :: byte where "EAPOL_KEY_TYPE_RC4 = 1"
definition JAN_1970 :: u32 where "JAN_1970 = 0x83aa7e80"

definition sizeof_ieee8023_hdr :: nat where "sizeof_ieee8023_hdr = 14"
definition sizeof_ieee802_1x_eapol_key :: nat where "sizeof_ieee802_1x_eapol_key = 44"
definition sizeof_NDIS_802_11_KEY :: nat where "sizeof_NDIS_802_11_KEY = 84"

section \<open>Frames to the station\<close>

text \<open>The buffer of \<open>ieee802_1x_send\<close>: two of the bytes it allocates are left zero at the end.\<close>

definition eapol_frame :: "byte list \<Rightarrow> byte list \<Rightarrow> u16 \<Rightarrow> byte \<Rightarrow> byte list \<Rightarrow> byte list" where
  "eapol_frame dst src etype type data =
     dst @ src @ be16 (if etype = ETH_P_PRE_AUTH then ETH_P_PRE_AUTH else ETH_P_PAE)
     @ [if etype = ETH_P_PRE_AUTH then EAPOL_VERSION_2 else EAPOL_VERSION, type]
     @ be16 (of_nat (length data)) @ data @ [0, 0]"

definition ieee802_1x_send :: "env \<Rightarrow> nat \<Rightarrow> byte \<Rightarrow> byte list \<Rightarrow> rtapd \<Rightarrow> rtapd run" where
  "ieee802_1x_send e k type data w =
     (if \<not> env_alloc e (sizeof_ieee8023_hdr + 2 + LENGTH_8021X_HDR + length data) then ret w
      else run_bind (get_sta k w) (\<lambda>sta.
      run_bind (ap_arr (own_addr w) (ApIdx sta)) (\<lambda>src.
        let buf = eapol_frame (sta_addr sta) src (ethertype sta) type data
        in ret (if ethertype sta = ETH_P_PRE_AUTH
                then snd (sys_send e (Send (SockNum sta) buf) w)
                else snd (RT_ioctl e buf (ApIdx sta) RT_OID_802_DOT1X_RADIUS_DATA w)))))"

text \<open>Whether a key buffer has length zero: it also has when it was never set.\<close>

definition no_bytes :: "byte list option \<Rightarrow> bool" where
  "no_bytes b \<longleftrightarrow> (case b of None \<Rightarrow> True | Some x \<Rightarrow> x = [])"

definition ieee802_1x_set_sta_authorized :: "env \<Rightarrow> nat \<Rightarrow> bool \<Rightarrow> bool \<Rightarrow> rtapd \<Rightarrow> rtapd run" where
  "ieee802_1x_set_sta_authorized e k authorized auth_success w =
     (if \<not> authorized then ret w
      else run_bind (get_sta k w) (\<lambda>sta.
        if eapol_sm sta = None then fail NullDeref
        else if auth_success \<and> no_bytes (eapol_key_sign sta) \<and> no_bytes (eapol_key_crypt sta)
        then ret (snd (RT_ioctl e (sta_addr sta) (ApIdx sta) RT_OID_802_DOT1X_STATIC_WEP_COPY w))
        else ret w))"

definition ieee802_1x_new_auth_session :: "nat \<Rightarrow> rtapd \<Rightarrow> rtapd run" where
  "ieee802_1x_new_auth_session k w =
     run_bind (get_sta k w) (\<lambda>sta. ret (put_sta k (sta\<lparr>last_recv_radius := None\<rparr>) w))"

definition ieee802_1x_request_identity :: "env \<Rightarrow> nat \<Rightarrow> byte \<Rightarrow> rtapd \<Rightarrow> rtapd run" where
  "ieee802_1x_request_identity e k i w =
     run_bind (ieee802_1x_new_auth_session k w) (\<lambda>w.
       if \<not> env_alloc e 5 then ret w
       else ieee802_1x_send e k IEEE802_1X_TYPE_EAP_PACKET ([EAP_CODE_REQUEST, i] @ be16 5 @ [EAP_TYPE_IDENTITY]) w)"

definition ieee802_1x_tx_canned_eap :: "env \<Rightarrow> nat \<Rightarrow> byte \<Rightarrow> bool \<Rightarrow> rtapd \<Rightarrow> rtapd run" where
  "ieee802_1x_tx_canned_eap e k i success w =
     ieee802_1x_send e k IEEE802_1X_TYPE_EAP_PACKET ([if success then EAP_CODE_SUCCESS else EAP_CODE_FAILURE, i] @ be16 4) w"

definition ieee802_1x_tx_req :: "env \<Rightarrow> nat \<Rightarrow> byte \<Rightarrow> rtapd \<Rightarrow> rtapd run" where
  "ieee802_1x_tx_req e k i w =
     run_bind (get_sta k w) (\<lambda>sta.
       case last_eap_radius sta of None \<Rightarrow> ret w
       | Some eap \<Rightarrow>
           run_bind (mem_write 1 [i] eap) (\<lambda>eap.
             ieee802_1x_send e k IEEE802_1X_TYPE_EAP_PACKET eap (put_sta k (sta\<lparr>last_eap_radius := Some eap\<rparr>) w)))"

section \<open>EAPOL-Key frames\<close>

text \<open>\<open>struct ieee802_1x_eapol_key\<close> and the key after it.\<close>

definition eapol_key :: "u16 \<Rightarrow> byte list \<Rightarrow> byte list \<Rightarrow> byte \<Rightarrow> byte list \<Rightarrow> byte list \<Rightarrow> byte list" where
  "eapol_key key_length replay_counter key_iv key_index key_signature key =
     [EAPOL_KEY_TYPE_RC4] @ be16 key_length @ replay_counter @ key_iv @ [key_index] @ key_signature @ key"

text \<open>The time as an NTP time stamp, in 32-bit arithmetic.\<close>

definition ntp_stamp :: "timeval \<Rightarrow> byte list" where
  "ntp_stamp now =
     (let sec = (of_int (tv_sec now) :: u32); usec = (of_int (tv_usec now) :: u32)
      in be32 (sec + JAN_1970) @ be32 (4295 * usec - drop_bit 5 usec - drop_bit 9 usec))"

definition ieee802_1x_tx_key_one :: "env \<Rightarrow> nat \<Rightarrow> int \<Rightarrow> bool \<Rightarrow> byte list \<Rightarrow> rtapd \<Rightarrow> rtapd run" where
  "ieee802_1x_tx_key_one e k index broadcast key_data w =
     (let len = sizeof_ieee802_1x_eapol_key + length key_data in
      if \<not> env_alloc e (LENGTH_8021X_HDR + len) then ret w
      else case env_rand e (sent w) 16 of None \<Rightarrow> ret w
      | Some iv \<Rightarrow>
          run_bind (get_sta k w) (\<lambda>sta.
          case eapol_key_crypt sta of None \<Rightarrow> fail NullDeref | Some crypt \<Rightarrow>
          if \<not> env_alloc e (16 + length crypt) then ret w
          else case eapol_key_sign sta of None \<Rightarrow> fail NullDeref | Some sign \<Rightarrow>
            let key_index = of_int index OR (if broadcast then 0 else 0x80);
                ekey = rc4 key_data (iv @ crypt);
                body = (\<lambda>sig. eapol_key (of_nat (length key_data)) (ntp_stamp (env_now e)) iv key_index sig ekey);
                hdr = [EAPOL_VERSION, IEEE802_1X_TYPE_EAPOL_KEY] @ be16 (of_nat len);
                sig = hmac_md5 sign (hdr @ body (replicate 16 0))
            in ieee802_1x_send e k IEEE802_1X_TYPE_EAPOL_KEY (body sig) w))"

text \<open>The bytes of a \<open>NDIS_802_11_KEY\<close> whose \<open>Length\<close> is zero.\<close>

definition ndis_key :: "byte list \<Rightarrow> u32 \<Rightarrow> u32 \<Rightarrow> byte list \<Rightarrow> byte list" where
  "ndis_key addr index len material =
     le32 0 @ addr @ [0, 0] @ le32 index @ le32 len @ store 0 material (replicate 64 0)"

text \<open>The key is for the pre-authentication cache or for the driver's key table. The flag says
  whether the driver took it.\<close>

definition give_key :: "env \<Rightarrow> sta_info \<Rightarrow> byte list \<Rightarrow> rtapd \<Rightarrow> bool \<times> rtapd" where
  "give_key e sta key w =
     (case (if ethertype sta = ETH_P_PRE_AUTH then RT_ioctl e key 0 RT_OID_802_DOT1X_PMKID_CACHE w
            else RT_ioctl e key (ApIdx sta) RT_OID_802_DOT1X_WPA_KEY w) of
        ((res, _), w) \<Rightarrow> (res = 0, w))"

definition ieee802_1x_tx_key :: "env \<Rightarrow> nat \<Rightarrow> rtapd \<Rightarrow> rtapd run" where
  "ieee802_1x_tx_key e k w =
     run_bind (get_sta k w) (\<lambda>sta.
     if eapol_key_sign sta = None \<or> eapol_key_crypt sta = None then ret w
     else
     run_bind (ap_arr (DefaultKeyID (conf w)) (ApIdx sta)) (\<lambda>group_idx.
     run_bind (ap_arr (individual_wep_key_idx (conf w)) (ApIdx sta)) (\<lambda>unicast_idx.
     run_bind (ap_arr (individual_wep_key_len (conf w)) (ApIdx sta)) (\<lambda>key_len.
     run_bind (ap_arr (IEEE8021X_ikey (conf w)) (ApIdx sta)) (\<lambda>ikey.
     run_bind (mem_read 0 (nat key_len) ikey) (\<lambda>group_key.
     run_bind (ieee802_1x_tx_key_one e k group_idx True group_key w) (\<lambda>w.
     case give_key e sta (ndis_key (sta_addr sta) (0x80000000 OR of_int group_idx) (of_int key_len) group_key) w of
       (ok, w) \<Rightarrow>
     if \<not> ok then ret w
     else
     run_bind (mem_read 0 (nat key_len)
        (case env_rand e (sent w) (nat key_len) of Some r \<Rightarrow> r | None \<Rightarrow> env_stack e (sent w) WEP8021X_KEY_LEN)) (\<lambda>unicast_key.
     run_bind (ieee802_1x_tx_key_one e k unicast_idx False unicast_key w) (\<lambda>w.
       ret (snd (give_key e sta (ndis_key (sta_addr sta) (of_int unicast_idx) (of_int key_len) unicast_key) w)))))))))))"

section \<open>Requests to the server\<close>

text \<open>\<open>%02X\<close> and \<open>%02x\<close>, and the two formats of an address.\<close>

definition hex_digit :: "byte \<Rightarrow> nat \<Rightarrow> byte" where
  "hex_digit ten n = (if n < 10 then of_nat (48 + n) else ten + of_nat (n - 10))"

definition hex2 :: "byte \<Rightarrow> byte \<Rightarrow> byte list" where
  "hex2 ten b = [hex_digit ten (unat b div 16), hex_digit ten (unat b mod 16)]"

definition RADIUS_802_1X_ADDR_FORMAT :: "byte list \<Rightarrow> byte list" where
  "RADIUS_802_1X_ADDR_FORMAT a = butlast (concat (map (\<lambda>b. hex2 65 b @ [45]) a))"

definition RADIUS_ADDR_FORMAT :: "byte list \<Rightarrow> byte list" where
  "RADIUS_ADDR_FORMAT a = concat (map (hex2 97) a)"

text \<open>An attribute; \<open>None\<close> for the jump to \<open>fail\<close>.\<close>

type_synonym attr_step = "radius_msg \<Rightarrow> radius_msg option run"

definition put_attr :: "env \<Rightarrow> byte \<Rightarrow> byte list \<Rightarrow> attr_step" where
  "put_attr e type data msg =
     run_map (\<lambda>(pos, msg). if pos = None then None else Some msg) (Radius_msg_add_attr (env_alloc e) msg type data)"

definition put_attr32 :: "env \<Rightarrow> byte \<Rightarrow> u32 \<Rightarrow> attr_step" where
  "put_attr32 e type v msg = run_map (\<lambda>(ok, msg). if ok then Some msg else None) (Radius_msg_add_attr_int32 (env_alloc e) msg type v)"

definition put_eap :: "env \<Rightarrow> byte list \<Rightarrow> attr_step" where
  "put_eap e eap msg = run_map (\<lambda>(ok, msg). if ok then Some msg else None) (Radius_msg_add_eap (env_alloc e) msg eap)"

definition put_copy :: "env \<Rightarrow> radius_msg \<Rightarrow> byte \<Rightarrow> attr_step" where
  "put_copy e src type msg = run_map (\<lambda>(res, msg). if res < 0 then None else Some msg) (Radius_msg_copy_attr (env_alloc e) msg src type)"

fun put_attrs :: "attr_step list \<Rightarrow> attr_step" where
  "put_attrs [] msg = ret (Some msg)"
| "put_attrs (f # fs) msg = run_bind (f msg) (\<lambda>r. case r of None \<Rightarrow> ret None | Some msg \<Rightarrow> put_attrs fs msg)"

text \<open>The NAS-Identifier of the BSS, when it has one.\<close>

definition nas_identifier :: "env \<Rightarrow> rtapd_config \<Rightarrow> byte \<Rightarrow> attr_step list run" where
  "nas_identifier e c apidx =
     run_bind (ap_arr (nasId_len c) apidx) (\<lambda>n.
       if n > 0 then run_bind (ap_arr (nasId c) apidx) (\<lambda>s.
         run_map (\<lambda>s. [put_attr e RADIUS_ATTR_NAS_IDENTIFIER s]) (mem_read 0 (nat n) s))
       else ret [])"

text \<open>The bytes of the \<open>next\<close> pointer of a station: \<open>sizeof(sta)\<close> is that of a pointer, so
  these are what \<open>Radius_msg_make_authenticator\<close> is given.\<close>

definition next_station :: "nat \<Rightarrow> rtapd \<Rightarrow> nat option" where
  "next_station k w = (case dropWhile (\<lambda>x. x \<noteq> k) (sta_list w) of _ # n # _ \<Rightarrow> Some n | _ \<Rightarrow> None)"

text \<open>The request, before it is completed; \<open>None\<close> when it cannot be built.\<close>

definition access_request :: "env \<Rightarrow> nat \<Rightarrow> byte list option \<Rightarrow> byte \<Rightarrow> sta_info \<Rightarrow> rtapd \<Rightarrow> radius_msg option run" where
  "access_request e k eap i sta w =
     (case Radius_msg_new (env_alloc e) RADIUS_CODE_ACCESS_REQUEST i of None \<Rightarrow> ret None
     | Some msg \<Rightarrow>
     run_bind (nas_identifier e (conf w) (ApIdx sta)) (\<lambda>nas.
     run_bind (ap_arr (own_addr w) (ApIdx sta)) (\<lambda>bssid.
     put_attrs
        ((case identity sta of None \<Rightarrow> [] | Some name \<Rightarrow> [put_attr e RADIUS_ATTR_USER_NAME name])
         @ [put_attr e RADIUS_ATTR_NAS_IP_ADDRESS (le32 (own_ip_addr (conf w)))]
         @ nas
         @ [put_attr32 e RADIUS_ATTR_NAS_PORT (ucast (aid sta)),
            put_attr e RADIUS_ATTR_CALLED_STATION_ID (RADIUS_802_1X_ADDR_FORMAT bssid),
            put_attr e RADIUS_ATTR_CALLING_STATION_ID (RADIUS_802_1X_ADDR_FORMAT (sta_addr sta)),
            put_attr32 e RADIUS_ATTR_FRAMED_MTU 1400,
            put_attr32 e RADIUS_ATTR_NAS_PORT_TYPE RADIUS_NAS_PORT_TYPE_IEEE_802_11]
         @ (case eap of None \<Rightarrow> [] | Some d \<Rightarrow> [put_eap e d])
         @ (case last_recv_radius sta of None \<Rightarrow> []
            | Some prev \<Rightarrow> if msg_code prev = RADIUS_CODE_ACCESS_CHALLENGE then [put_copy e prev RADIUS_ATTR_STATE] else []))
        (Radius_msg_make_authenticator (env_now e) (env_random e (sent w)) msg (env_ptr e (next_station k w))))))"

definition ieee802_1x_encapsulate_radius :: "env \<Rightarrow> nat \<Rightarrow> byte list option \<Rightarrow> rtapd \<Rightarrow> rtapd run" where
  "ieee802_1x_encapsulate_radius e k eap w =
     run_bind (Radius_client_get_id w) (\<lambda>(i, w).
     run_bind (get_sta k w) (\<lambda>sta.
     let sta = sta\<lparr>radius_identifier := uint i\<rparr>; w = put_sta k sta w in
     run_bind (access_request e k eap i sta w) (\<lambda>done.
     case done of None \<Rightarrow> ret w
     | Some msg \<Rightarrow> run_map (\<lambda>(res, owned, w). w) (Radius_client_send e msg (ApIdx sta) w))))"

definition ieee802_1x_send_resp_to_server :: "env \<Rightarrow> nat \<Rightarrow> rtapd \<Rightarrow> rtapd run" where
  "ieee802_1x_send_resp_to_server e k w =
     run_bind (get_sta k w) (\<lambda>sta. ieee802_1x_encapsulate_radius e k (last_eap_supp sta) w)"

section \<open>The state machines of a station\<close>

definition run_act :: "env \<Rightarrow> nat \<Rightarrow> eapol_act \<Rightarrow> rtapd \<Rightarrow> rtapd run" where
  "run_act e k a w =
     (case a of
        SetPortUnauthorized \<Rightarrow> ieee802_1x_set_sta_authorized e k False False w
      | SetPortAuthorized s \<Rightarrow> ieee802_1x_set_sta_authorized e k True s w
      | TxCannedFail i \<Rightarrow> ieee802_1x_tx_canned_eap e k i False w
      | TxCannedSuccess i \<Rightarrow> ieee802_1x_tx_canned_eap e k i True w
      | TxInitialMsg i \<Rightarrow> ieee802_1x_request_identity e k i w
      | TxReq i \<Rightarrow> ieee802_1x_tx_req e k i w
      | SendRespToServer \<Rightarrow> ieee802_1x_send_resp_to_server e k w
      | TxKey i \<Rightarrow> ieee802_1x_tx_key e k w)"

fun run_acts :: "env \<Rightarrow> nat \<Rightarrow> eapol_act list \<Rightarrow> rtapd \<Rightarrow> rtapd run" where
  "run_acts e k [] w = ret w"
| "run_acts e k (a # as) w = run_bind (run_act e k a w) (run_acts e k as)"

text \<open>A function of \<open>eapol_sm.c\<close> on the machines of a station, and the calls it makes.\<close>

definition sm_exec :: "(eapol_state_machine \<Rightarrow> eapol_state_machine run) \<Rightarrow> env \<Rightarrow> nat \<Rightarrow> rtapd \<Rightarrow> rtapd run" where
  "sm_exec f e k w =
     run_bind (get_sta k w) (\<lambda>sta.
       case eapol_sm sta of None \<Rightarrow> fail NullDeref
       | Some sm \<Rightarrow> run_bind (f (sm\<lparr>acts := []\<rparr>)) (\<lambda>sm.
           run_acts e k (acts sm) (put_sta k (sta\<lparr>eapol_sm := Some (sm\<lparr>acts := []\<rparr>)\<rparr>) w)))"

definition sta_sm_step :: "env \<Rightarrow> nat \<Rightarrow> rtapd \<Rightarrow> rtapd run" where
  "sta_sm_step = sm_exec eapol_sm_step"

definition tick_ctx :: "nat \<Rightarrow> obj ctx" where
  "tick_ctx k = Ctx (Sm k)"

text \<open>\<open>eapol_sm_alloc\<close> for a station: allocation, the two runs of \<open>eapol_sm_initialize\<close>, the tick.
  The station's \<open>eapol_sm\<close> is assigned by the caller, after the call.\<close>

definition sta_sm_alloc :: "env \<Rightarrow> nat \<Rightarrow> rtapd \<Rightarrow> (eapol_state_machine option \<times> rtapd) run" where
  "sta_sm_alloc e k w =
     run_bind (eapol_sm_alloc (env_alloc e) (of_int (quiet_interval (conf w))) (session_timeout_set (conf w) = 1)
        (of_int (session_timeout_interval (conf w)))) (\<lambda>r.
     case r of None \<Rightarrow> ret (None, w)
     | Some sm \<Rightarrow>
         run_bind (run_acts e k (acts sm) w) (\<lambda>w.
           ret (Some (sm\<lparr>acts := []\<rparr>),
             add_timeout e 1 H_eapol_port_timers_tick (Ctx Apd) (tick_ctx k)
               (del_timeout H_eapol_port_timers_tick (Ctx Apd) (tick_ctx k) w))))"

definition eapol_sm_free :: "nat \<Rightarrow> rtapd \<Rightarrow> rtapd" where
  "eapol_sm_free k w = del_timeout H_eapol_port_timers_tick (Ctx Apd) (tick_ctx k) w"

text \<open>The timeout handler: the state machine it is given may have been freed.\<close>

definition sta_port_timers_tick :: "env \<Rightarrow> nat \<Rightarrow> rtapd \<Rightarrow> rtapd run" where
  "sta_port_timers_tick e k w =
     (case stas w k of None \<Rightarrow> fail UseAfterFree
      | Some sta \<Rightarrow> if eapol_sm sta = None then fail UseAfterFree
          else run_map (add_timeout e 1 H_eapol_port_timers_tick (Ctx Apd) (tick_ctx k))
                 (sm_exec eapol_port_timers_tick e k w))"

definition ieee802_1x_new_station :: "env \<Rightarrow> nat \<Rightarrow> rtapd \<Rightarrow> rtapd run" where
  "ieee802_1x_new_station e k w =
     run_bind (get_sta k w) (\<lambda>sta.
     case eapol_sm sta of
       Some sm \<Rightarrow> sta_sm_step e k (put_sta k (sta\<lparr>eapol_sm := Some (sm\<lparr>portEnabled := True\<rparr>)\<rparr>) w)
     | None \<Rightarrow>
         run_bind (sta_sm_alloc e k w) (\<lambda>(r, w).
         run_bind (get_sta k w) (\<lambda>sta.
           ret (put_sta k (sta\<lparr>eapol_sm := map_option (\<lambda>sm. sm\<lparr>portEnabled := True\<rparr>) r\<rparr>) w))))"

definition ieee802_1x_free_station :: "nat \<Rightarrow> rtapd \<Rightarrow> rtapd run" where
  "ieee802_1x_free_station k w =
     run_bind (get_sta k w) (\<lambda>sta.
       let w = (if eapol_sm sta = None then w else eapol_sm_free k w)
       in ret (put_sta k (sta\<lparr>last_recv_radius := None, last_eap_supp := None, last_eap_radius := None, identity := None,
                 eapol_key_sign := None, eapol_key_crypt := None, eapol_sm := None\<rparr>) w))"

section \<open>A request keeps its identifier\<close>

text \<open>The message is inside its buffer and carries the identifier \<open>i\<close>.\<close>

definition req_ok :: "byte \<Rightarrow> radius_msg \<Rightarrow> bool" where
  "req_ok i m \<longleftrightarrow> 20 \<le> buf_used m \<and> buf_used m \<le> length (rbuf m) \<and> msg_identifier m = i"

lemma req_okD: "req_ok i m \<Longrightarrow> buf_used m \<le> length (rbuf m)" "req_ok i m \<Longrightarrow> msg_identifier m = i"
  by (simp_all add: req_ok_def)

lemma nth_store_low: "n < off \<Longrightarrow> off \<le> length buf \<Longrightarrow> store off ds buf ! n = buf ! n"
  by (simp add: store_def nth_append)

lemma req_ok_store:
  assumes "req_ok i m" "1 < off" "off + length ds \<le> length (rbuf m)"
  shows "req_ok i (m\<lparr>rbuf := store off ds (rbuf m)\<rparr>)"
  using assms by (simp add: req_ok_def msg_identifier_def nth_store_low)

lemma new_req_ok: "Radius_msg_new alloc code i = Some m \<Longrightarrow> req_ok i m"
  using new_spec [of alloc code i m] by (auto simp: req_ok_def wf_msg_def)

lemma add_attr_req_ok:
  assumes m: "req_ok i m"
  shows "yields (Radius_msg_add_attr alloc m type data)
    (\<lambda>(r, m'). req_ok i m' \<and> (case r of None \<Rightarrow> True | Some a \<Rightarrow> 20 \<le> a \<and> a + 2 + length data = buf_used m'))"
proof -
  have grown: "req_ok i (m\<lparr>rbuf := rbuf m @ replicate n 0\<rparr>)" for n
    using m by (auto simp: req_ok_def msg_identifier_def nth_append)
  have put: "req_ok i (g\<lparr>rbuf := store (buf_used g) (type # length_octet (length data) # data) (rbuf g), buf_used := buf_used g + (2 + length data)\<rparr>)"
    if "req_ok i g" "buf_used g + (2 + length data) \<le> length (rbuf g)" for g
    using that by (simp add: req_ok_def msg_identifier_def nth_store_low)
  have arr: "req_ok i g' \<and> buf_used g' = buf_used g" if "Radius_msg_add_attr_to_array alloc g a = Some g'" "req_ok i g" for g g' a
    using that add_to_array_used [OF that(1)] by (simp add: req_ok_def msg_identifier_def)
  have room: "yields (if length (rbuf m) < buf_used m + 2 + length data then
             run_bind (grow_size (length (rbuf m)) (buf_used m + 2 + length data)) (\<lambda>nlen.
               if \<not> alloc nlen then ret None
               else ret (Some (m\<lparr>rbuf := rbuf m @ replicate (nlen - length (rbuf m)) 0\<rparr>)))
           else ret (Some m))
     (\<lambda>r. case r of None \<Rightarrow> True | Some g \<Rightarrow> req_ok i g \<and> buf_used g = buf_used m \<and> buf_used m + (2 + length data) \<le> length (rbuf g))"
  proof (cases "length (rbuf m) < buf_used m + 2 + length data")
    case True
    have "0 < length (rbuf m)" using m by (auto simp: req_ok_def)
    from returns_yields [OF grow_size_returns [OF this, of "buf_used m + 2 + length data"]]
    show ?thesis using True grown by (simp add: yields_bind) (erule yields_mono, auto)
  qed (use m in simp)
  show ?thesis
  proof (cases "RADIUS_MAX_ATTR_LEN < length data")
    case True
    then show ?thesis using m by (simp add: Radius_msg_add_attr_def)
  next
    case False
    show ?thesis
      unfolding Radius_msg_add_attr_def Let_def if_not_P [OF False] yields_bind
    proof (rule yields_mono [OF room])
      fix r
      assume r: "case r of None \<Rightarrow> True
        | Some g \<Rightarrow> req_ok i g \<and> buf_used g = buf_used m \<and> buf_used m + (2 + length data) \<le> length (rbuf g)"
      show "yields (case r of None \<Rightarrow> ret (None, m)
           | Some msg \<Rightarrow> case Radius_msg_add_attr_to_array alloc
                  (msg\<lparr>rbuf := store (buf_used msg) (type # length_octet (length data) # data) (rbuf msg),
                    buf_used := buf_used (msg\<lparr>rbuf := store (buf_used msg) (type # length_octet (length data) # data) (rbuf msg)\<rparr>) + (2 + length data)\<rparr>)
                  (buf_used msg) of
                None \<Rightarrow> ret (None, msg\<lparr>rbuf := store (buf_used msg) (type # length_octet (length data) # data) (rbuf msg),
                    buf_used := buf_used (msg\<lparr>rbuf := store (buf_used msg) (type # length_octet (length data) # data) (rbuf msg)\<rparr>) + (2 + length data)\<rparr>)
              | Some msg' \<Rightarrow> ret (Some (buf_used msg), msg'))
         (\<lambda>(r, m'). req_ok i m' \<and> (case r of None \<Rightarrow> True | Some a \<Rightarrow> 20 \<le> a \<and> a + 2 + length data = buf_used m'))"
      proof (cases r)
        case None
        then show ?thesis using m by simp
      next
        case (Some g)
        let ?p = "g\<lparr>rbuf := store (buf_used g) (type # length_octet (length data) # data) (rbuf g), buf_used := buf_used g + (2 + length data)\<rparr>"
        have g: "req_ok i g" "buf_used g = buf_used m" "buf_used g + (2 + length data) \<le> length (rbuf g)" using r Some by simp_all
        have p: "req_ok i ?p" by (rule put [OF g(1,3)])
        have used: "20 \<le> buf_used g" using g(1) by (simp add: req_ok_def)
        show ?thesis
        proof (cases "Radius_msg_add_attr_to_array alloc ?p (buf_used g)")
          case None
          then show ?thesis using Some p by simp
        next
          case (Some p')
          then show ?thesis using \<open>r = Some g\<close> arr [OF Some p] used by simp
        qed
      qed
    qed
  qed
qed

lemma finish_req_ok:
  assumes "req_ok i m"
  shows "yields (Radius_msg_finish alloc m (Some key)) (req_ok i)"
  unfolding Radius_msg_finish_def option.case yields_bind
proof (rule yields_mono [OF add_attr_req_ok [OF assms]], clarify)
  fix r m'
  assume m': "req_ok i m'" "case r of None \<Rightarrow> True | Some a \<Rightarrow> 20 \<le> a \<and> a + 2 + length (replicate 16 (0 :: byte)) = buf_used m'"
  have n: "req_ok i (set_length_field m')" unfolding set_length_field_def
    using m'(1) by (intro req_ok_store) (simp_all add: req_ok_def)
  show "yields (let msg = set_length_field m' in case r of None \<Rightarrow> fail NullDeref
      | Some attr \<Rightarrow> ret (msg\<lparr>rbuf := store (attr + 2) (hmac_md5 key (take (buf_used msg) (rbuf msg))) (rbuf msg)\<rparr>)) (req_ok i)"
  proof (cases r)
    case (Some a)
    have "buf_used (set_length_field m') = buf_used m'" by (simp add: set_length_field_def)
    then have "a + 2 + 16 \<le> length (rbuf (set_length_field m'))" using m'(2) Some n by (simp add: req_ok_def)
    then show ?thesis using Some n by (simp add: Let_def) (rule req_ok_store, simp_all)
  qed (simp add: Let_def)
qed

lemma make_authenticator_req_ok: "req_ok i m \<Longrightarrow> req_ok i (Radius_msg_make_authenticator tv l m d)"
  unfolding Radius_msg_make_authenticator_def by (rule req_ok_store) (simp_all add: req_ok_def)

lemma add_eap_req_ok: "req_ok i m \<Longrightarrow> yields (Radius_msg_add_eap alloc m data) (\<lambda>(ok, m'). req_ok i m')"
proof -
  have "req_ok i m \<longrightarrow> (case r of Inl f \<Rightarrow> True | Inr (ok, m') \<Rightarrow> req_ok i m')" if "Radius_msg_add_eap alloc m data = Some r" for m data r
  proof (induction alloc m data r rule: Radius_msg_add_eap.raw_induct)
    case (1 f alloc m data r)
    note ih = 1(1) and body = 1(2)
    show ?case
    proof
      assume m: "req_ok i m"
      show "case r of Inl f \<Rightarrow> True | Inr (ok, m') \<Rightarrow> req_ok i m'"
      proof (cases "data = []")
        case True
        then show ?thesis using body m by (auto simp: ret_def)
      next
        case False
        let ?len = "if length data > RADIUS_MAX_ATTR_LEN then RADIUS_MAX_ATTR_LEN else length data"
        have "run_bind (Radius_msg_add_attr alloc m RADIUS_ATTR_EAP_MESSAGE (take ?len data))
            (\<lambda>q. if fst q = None then ret (False, snd q) else f alloc (snd q) (drop ?len data)) = Some r"
          using body False by (simp add: Let_def)
        then consider q where "Radius_msg_add_attr alloc m RADIUS_ATTR_EAP_MESSAGE (take ?len data) = ret q"
            "(if fst q = None then ret (False, snd q) else f alloc (snd q) (drop ?len data)) = Some r" | e where "r = Inl e"
          by (cases "Radius_msg_add_attr alloc m RADIUS_ATTR_EAP_MESSAGE (take ?len data)" rule: run_cases) (auto, auto simp: fail_def)
        then show ?thesis
        proof cases
          case 1
          have "req_ok i (snd q)"
            using add_attr_req_ok [OF m, of alloc RADIUS_ATTR_EAP_MESSAGE "take ?len data"] unfolding 1(1) by (auto split: prod.splits)
          then show ?thesis using 1(2) ih [of alloc "snd q" "drop ?len data" r]
            by (cases "fst q = None") (auto simp: ret_def)
        qed simp
      qed
    qed
  qed (rule that)
  then show "req_ok i m \<Longrightarrow> yields (Radius_msg_add_eap alloc m data) (\<lambda>(ok, m'). req_ok i m')"
    by (force simp: yields_def ret_def)
qed

lemmas req_ok_steps = add_attr_req_ok add_eap_req_ok

definition keeps_id :: "attr_step \<Rightarrow> bool" where
  "keeps_id f \<longleftrightarrow> (\<forall>i m. req_ok i m \<longrightarrow> yields (f m) (\<lambda>r. case r of None \<Rightarrow> True | Some m' \<Rightarrow> req_ok i m'))"

lemma put_keeps_id [simp]:
  "keeps_id (put_attr e t d)" "keeps_id (put_attr32 e t v)" "keeps_id (put_eap e d)" "keeps_id (put_copy e src t)"
proof -
  have map_yields: "yields (run_map g m) P \<longleftrightarrow> yields m (\<lambda>x. P (g x))" for g :: "'a \<Rightarrow> 'b" and m P
    by (simp add: run_map_def yields_bind)
  note a = yields_mono [OF add_attr_req_ok] and b = yields_mono [OF add_eap_req_ok]
  show "keeps_id (put_attr e t d)" unfolding keeps_id_def put_attr_def run_map_def yields_bind by (auto intro!: a)
  show "keeps_id (put_attr32 e t v)" unfolding keeps_id_def put_attr32_def Radius_msg_add_attr_int32_def run_map_def yields_bind
    by (auto intro!: a)
  show "keeps_id (put_eap e d)" unfolding keeps_id_def put_eap_def run_map_def yields_bind by (auto intro!: b)
  show "keeps_id (put_copy e src t)" unfolding keeps_id_def put_copy_def Radius_msg_copy_attr_def run_map_def yields_bind
    by (auto intro!: a split: option.split if_splits simp: run_map_def yields_bind)
qed

lemma put_attrs_req_ok:
  "\<forall>f \<in> set fs. keeps_id f \<Longrightarrow> req_ok i m \<Longrightarrow> yields (put_attrs fs m) (\<lambda>r. case r of None \<Rightarrow> True | Some m' \<Rightarrow> req_ok i m')"
proof (induction fs arbitrary: m)
  case (Cons f fs)
  then have "yields (f m) (\<lambda>r. case r of None \<Rightarrow> True | Some m' \<Rightarrow> req_ok i m')" by (simp add: keeps_id_def)
  then show ?case
    unfolding put_attrs.simps yields_bind by (rule yields_mono) (use Cons in \<open>auto split: option.splits\<close>)
qed simp

section \<open>What sending leaves alone\<close>

text \<open>Fields of a station no function of this theory but the state machines writes.\<close>

definition sta_same :: "sta_info \<Rightarrow> sta_info \<Rightarrow> bool" where
  "sta_same s s' \<longleftrightarrow> sta_addr s' = sta_addr s \<and> aid s' = aid s \<and> eapol_sm s' = eapol_sm s \<and> identity s' = identity s
     \<and> last_eap_supp s' = last_eap_supp s \<and> eapol_key_sign s' = eapol_key_sign s \<and> eapol_key_crypt s' = eapol_key_crypt s
     \<and> ApIdx s' = ApIdx s \<and> ethertype s' = ethertype s \<and> SockNum s' = SockNum s"

text \<open>The table, the configuration, the access lists and the other stations are the same, and the client
  stays in order. The calls made are added to the log.\<close>

definition tx_frame :: "nat \<Rightarrow> rtapd \<Rightarrow> rtapd \<Rightarrow> bool" where
  "tx_frame k w w' \<longleftrightarrow> conf w' = conf w \<and> own_addr w' = own_addr w \<and> prefix_wlan_name w' = prefix_wlan_name w
     \<and> sta_list w' = sta_list w \<and> sta_hash w' = sta_hash w \<and> num_sta w' = num_sta w \<and> next_sta w' = next_sta w
     \<and> acl_cache w' = acl_cache w \<and> acl_queries w' = acl_queries w
     \<and> (\<forall>j. j \<noteq> k \<longrightarrow> stas w' j = stas w j) \<and> rel_option sta_same (stas w k) (stas w' k)
     \<and> (client_inv w \<longrightarrow> client_inv w') \<and> (\<exists>cs. sent w' = sent w @ cs)"

lemma sta_same_refl [simp]: "sta_same s s"
  by (simp add: sta_same_def)

lemma sta_same_trans: "sta_same a b \<Longrightarrow> sta_same b c \<Longrightarrow> sta_same a c"
  by (simp add: sta_same_def)

lemma tx_frame_refl [simp]: "tx_frame k w w"
  by (cases "stas w k") (simp_all add: tx_frame_def)

lemma tx_frame_trans:
  assumes "tx_frame k w w'" "tx_frame k w' w''"
  shows "tx_frame k w w''"
proof -
  have "rel_option sta_same (stas w k) (stas w'' k)"
    using assms by (cases "stas w k"; cases "stas w' k"; cases "stas w'' k") (auto simp: tx_frame_def intro: sta_same_trans)
  moreover have "\<exists>cs. sent w'' = sent w @ cs"
    using assms by (auto simp: tx_frame_def)
  ultimately show ?thesis using assms unfolding tx_frame_def by simp
qed

lemma tx_frame_inv:
  assumes "tx_frame k w w'"
  shows "client_inv w \<Longrightarrow> client_inv w'" "table_inv w \<Longrightarrow> table_inv w'"
proof -
  show "client_inv w \<Longrightarrow> client_inv w'" using assms by (simp add: tx_frame_def)
  have same: "stas w' j = None \<longleftrightarrow> stas w j = None" "sta_addr_of w' j = sta_addr_of w j" for j
    using assms by (cases "j = k"; cases "stas w k"; cases "stas w' k"; force simp: tx_frame_def sta_addr_of_def sta_same_def)+
  then have "dom (stas w') = dom (stas w)" by (auto simp: dom_def)
  then have "table_inv w' \<longleftrightarrow> table_inv w"
    using assms same by (intro table_inv_cong) (simp_all add: tx_frame_def)
  then show "table_inv w \<Longrightarrow> table_inv w'" by simp
qed

lemma yields_frame_step:
  assumes "tx_frame k w w'" "yields m (tx_frame k w')"
  shows "yields m (tx_frame k w)"
  using assms(2) by (rule yields_mono) (rule tx_frame_trans [OF assms(1)])

lemma yields_frame:
  assumes "yields m (tx_frame k w)" "\<And>w'. tx_frame k w w' \<Longrightarrow> yields (f w') (tx_frame k w')"
  shows "yields (run_bind m f) (tx_frame k w)"
  unfolding yields_bind by (rule yields_mono [OF assms(1)]) (rule yields_frame_step [OF _ assms(2)])

lemma log_frame [simp]: "tx_frame k w (log_call c w)"
  by (cases "stas w k") (simp_all add: tx_frame_def log_call_def client_inv_def)

lemma sys_frame [simp]:
  "tx_frame k w (snd (sys_send e c w))" "tx_frame k w (snd (RT_ioctl e d i fl w))" "tx_frame k w (snd (give_key e sta key w))"
proof -
  show ioctl: "tx_frame k w (snd (RT_ioctl e d i fl w))" for d i fl by (simp add: RT_ioctl_def Let_def split: prod.split)
  show "tx_frame k w (snd (give_key e sta key w))"
    using ioctl [of key 0 RT_OID_802_DOT1X_PMKID_CACHE] ioctl [of key "ApIdx sta" RT_OID_802_DOT1X_WPA_KEY]
    by (auto simp: give_key_def split: prod.split)
qed (simp)

lemma put_frame:
  "stas w k = Some s \<Longrightarrow> sta_same s s' \<Longrightarrow> tx_frame k w (put_sta k s' w)"
  by (simp add: tx_frame_def put_sta_def client_inv_def)

lemma get_sta_eq [simp]: "get_sta k w = ret s \<longleftrightarrow> stas w k = Some s"
  by (cases "stas w k") (simp_all add: get_sta_def)

lemma send_frame: "yields (ieee802_1x_send e k t d w) (tx_frame k w)"
  unfolding ieee802_1x_send_def by (auto simp: Let_def intro!: yields_run_any)

lemma authorized_frame: "yields (ieee802_1x_set_sta_authorized e k a s w) (tx_frame k w)"
  unfolding ieee802_1x_set_sta_authorized_def by (auto intro!: yields_run_any)

lemma new_session_frame: "yields (ieee802_1x_new_auth_session k w) (tx_frame k w)"
  unfolding ieee802_1x_new_auth_session_def by (auto intro!: yields_run_any put_frame simp: sta_same_def)

lemma request_identity_frame: "yields (ieee802_1x_request_identity e k i w) (tx_frame k w)"
  unfolding ieee802_1x_request_identity_def by (rule yields_frame [OF new_session_frame]) (simp add: send_frame)

lemma canned_frame: "yields (ieee802_1x_tx_canned_eap e k i s w) (tx_frame k w)"
  unfolding ieee802_1x_tx_canned_eap_def by (rule send_frame)

lemma tx_req_frame: "yields (ieee802_1x_tx_req e k i w) (tx_frame k w)"
  unfolding ieee802_1x_tx_req_def
  by (auto intro!: yields_run_any yields_frame_step [OF put_frame send_frame] simp: sta_same_def split: option.split)

lemma key_one_frame: "yields (ieee802_1x_tx_key_one e k i b d w) (tx_frame k w)"
  unfolding ieee802_1x_tx_key_one_def Let_def by (auto intro!: yields_run_any send_frame split: option.split)

lemma tx_key_frame: "yields (ieee802_1x_tx_key e k w) (tx_frame k w)"
proof -
  have give: "yields (case give_key e sta key v of (ok, w) \<Rightarrow> if \<not> ok then ret w else f w) (tx_frame k v)"
    if "\<And>w. yields (f w) (tx_frame k w)" for sta key v f
    using sys_frame(3) [of k v e sta key] that
    by (cases "give_key e sta key v") (auto intro: yields_frame_step)
  show ?thesis
    unfolding ieee802_1x_tx_key_def
    by (auto intro!: yields_run_any yields_frame [OF key_one_frame] give)
qed

text \<open>A request is queued under the identifier just taken, so the identifiers stay distinct.\<close>

lemma client_send_frame:
  assumes "radius w = Some r" "req_ok i m" "client_inv w \<longrightarrow> i \<notin> ident ` set (msgs r)"
  shows "yields (Radius_client_send e m a w) (\<lambda>(res, owned, w'). tx_frame k w w')"
proof -
  have add: "yields (Radius_client_list_add e m' s a v) (\<lambda>(owned, w'). tx_frame k w w')"
    if m': "req_ok i m'" and v: "v = log_call c w" for m' s v c
  proof -
    have inv: "yields (Radius_client_list_add e m' s a v) (\<lambda>(owned, w'). client_inv w \<longrightarrow> client_inv w')"
    proof (cases "client_inv w")
      case True
      then have "yields (Radius_client_list_add e m' s a v) (\<lambda>(owned, w'). client_inv w')"
        using assms m' v by (intro returns_yields list_add_inv) (auto simp: req_ok_def)
      then show ?thesis using True by simp
    qed (auto simp: yields_def)
    have rest: "yields (Radius_client_list_add e m' s a v) (\<lambda>(owned, w'). (client_inv w \<longrightarrow> client_inv w') \<longrightarrow> tx_frame k w w')"
      unfolding Radius_client_list_add_def Let_def v
      by (cases "stas w k") (auto intro!: yields_run_any simp: tx_frame_def put_radius_def add_timeout_def log_call_def)
    show ?thesis using inv rest by (auto simp: yields_def)
  qed
  show ?thesis
    unfolding Radius_client_send_def run_map_def
  proof (rule yields_run_any, rule yields_run_any, unfold yields_bind, rule yields_mono [OF finish_req_ok [OF assms(2)]])
    fix serv r' m' assume "req_ok i m'"
    then show "yields (mem_read 0 (buf_used m') (rbuf m')) (\<lambda>x. yields (case sys_send e (SendTo (auth_serv_sock r') (srv_addr serv) (take_bit 16 (srv_port serv)) x) w of
          (res, w) \<Rightarrow> run_bind (Radius_client_list_add e m' (shared_secret serv) a w) (\<lambda>x. ret (res, x)))
         (\<lambda>(res, owned, w'). tx_frame k w w'))"
      using add [OF \<open>req_ok i m'\<close> refl] unfolding sys_send_def prod.case yields_bind
      by (auto simp: yields_def split: prod.splits)
  qed
qed

lemma get_id_walk_gone: "get_id_walk i s ms = ret ms' \<Longrightarrow> i \<notin> ident ` set ms'"
proof (induction ms arbitrary: s ms')
  case (Cons x xs)
  then obtain m where m: "rm_msg x = Some m" by (cases "rm_msg x") auto
  show ?case
  proof (cases "msg_identifier m = i")
    case True
    then show ?thesis using Cons m by (cases s) auto
  next
    case False
    then obtain ms where "get_id_walk i False xs = ret ms" "ms' = x # ms"
      using Cons.prems m by (auto simp: run_map_def run_bind_eq_ret)
    moreover have "ident x \<noteq> i" using False m by (simp add: ident_def)
    ultimately show ?thesis using Cons.IH by auto
  qed
qed simp

lemma get_id_frame:
  assumes "Radius_client_get_id w = ret (i, w')"
  shows "tx_frame k w w' \<and> (\<exists>r. radius w' = Some r \<and> i \<notin> ident ` set (msgs r))"
proof -
  obtain r where r: "radius w = Some r"
    using assms by (cases "radius w") (auto simp: Radius_client_get_id_def get_radius_def)
  then obtain ms where ms: "get_id_walk (next_radius_identifier r) False (msgs r) = ret ms"
      "i = next_radius_identifier r" "w' = put_radius (r\<lparr>next_radius_identifier := i + 1, msgs := ms\<rparr>) w"
    using assms by (auto simp: Radius_client_get_id_def Let_def run_map_def run_bind_eq_ret)
  have "client_inv w \<longrightarrow> client_inv w'"
    using get_id_inv [of w] assms r by auto
  then have "tx_frame k w w'"
    using ms(3) by (cases "stas w k") (simp_all add: tx_frame_def put_radius_def)
  moreover have "radius w' = Some (r\<lparr>next_radius_identifier := i + 1, msgs := ms\<rparr>)" "i \<notin> ident ` set ms"
    using ms get_id_walk_gone by simp_all
  ultimately show ?thesis by auto
qed

lemma nas_keeps_id: "nas_identifier e c a = ret fs \<Longrightarrow> \<forall>f \<in> set fs. keeps_id f"
  by (auto simp: nas_identifier_def run_bind_eq_ret run_map_def split: if_splits)

lemma access_request_ok:
  "yields (access_request e k eap i sta w) (\<lambda>r. case r of None \<Rightarrow> True | Some m \<Rightarrow> req_ok i m)"
proof (cases "Radius_msg_new (env_alloc e) RADIUS_CODE_ACCESS_REQUEST i")
  case (Some m)
  show ?thesis
    unfolding access_request_def Some option.case
    by (rule yields_run_any, drule nas_keeps_id, rule yields_run_any,
        rule put_attrs_req_ok [OF _ make_authenticator_req_ok [OF new_req_ok [OF Some]]])
      (auto split: option.splits)
qed (simp add: access_request_def)

lemma encapsulate_frame: "yields (ieee802_1x_encapsulate_radius e k eap w) (tx_frame k w)"
proof (cases "Radius_client_get_id w" rule: run_cases)
  case (ret p)
  then obtain i w1 where got: "Radius_client_get_id w = ret (i, w1)" by (cases p) auto
  then obtain r where f1: "tx_frame k w w1" and r: "radius w1 = Some r" "i \<notin> ident ` set (msgs r)"
    using get_id_frame by blast
  show ?thesis
  proof (cases "stas w1 k")
    case None
    then show ?thesis using got by (simp add: ieee802_1x_encapsulate_radius_def get_sta_def)
  next
    case (Some sta)
    let ?sta = "sta\<lparr>radius_identifier := uint i\<rparr>"
    let ?w = "put_sta k ?sta w1"
    have f2: "tx_frame k w ?w" by (rule tx_frame_trans [OF f1 put_frame [OF Some]]) (simp add: sta_same_def)
    have send: "yields (case done of None \<Rightarrow> ret ?w | Some msg \<Rightarrow> run_map (\<lambda>(res, owned, w). w) (Radius_client_send e msg a ?w)) (tx_frame k w)"
      if "case done of None \<Rightarrow> True | Some m \<Rightarrow> req_ok i m" for "done" a
    proof (cases "done")
      case None
      then show ?thesis using f2 by simp
    next
      case (Some m)
      have "yields (Radius_client_send e m a ?w) (\<lambda>(res, owned, w'). tx_frame k ?w w')"
        using that Some r by (intro client_send_frame [of _ r i]) (simp_all add: put_sta_def)
      then show ?thesis
        using Some tx_frame_trans [OF f2] by (auto simp: run_map_def yields_bind elim!: yields_mono)
    qed
    show ?thesis
      unfolding ieee802_1x_encapsulate_radius_def got run_bind_ret prod.case Let_def get_sta_ret [OF Some] yields_bind
      by (rule yields_mono [OF access_request_ok]) (rule send)
  qed
qed (simp_all add: ieee802_1x_encapsulate_radius_def)

lemma resp_frame: "yields (ieee802_1x_send_resp_to_server e k w) (tx_frame k w)"
  unfolding ieee802_1x_send_resp_to_server_def by (auto intro!: yields_run_any encapsulate_frame)

section \<open>The state machines and the world\<close>

lemma run_act_frame: "yields (run_act e k a w) (tx_frame k w)"
  by (cases a) (simp_all add: run_act_def authorized_frame canned_frame request_identity_frame tx_req_frame resp_frame tx_key_frame)

lemma run_acts_frame: "yields (run_acts e k as w) (tx_frame k w)"
proof (induction as arbitrary: w)
  case (Cons a as)
  show ?case unfolding run_acts.simps by (rule yields_frame [OF run_act_frame Cons.IH])
qed simp

text \<open>A run of a station's machines leaves the machines as the run leaves them; its calls do not
  touch them.\<close>

lemma sm_exec_spec:
  assumes "stas w k = Some sta" "eapol_sm sta = Some sm"
  shows "yields (sm_exec f e k w) (\<lambda>w'. \<exists>sm'. f (sm\<lparr>acts := []\<rparr>) = ret sm'
    \<and> tx_frame k (put_sta k (sta\<lparr>eapol_sm := Some (sm'\<lparr>acts := []\<rparr>)\<rparr>) w) w')"
  unfolding sm_exec_def get_sta_ret [OF assms(1)] run_bind_ret assms(2) option.case
  by (rule yields_run_any, rule yields_mono [OF run_acts_frame]) auto

text \<open>The invariants of the table and of the client together.\<close>

definition daemon_inv :: "rtapd \<Rightarrow> bool" where
  "daemon_inv w \<longleftrightarrow> table_inv w \<and> client_inv w"

lemma tx_frame_daemon: "tx_frame k w w' \<Longrightarrow> daemon_inv w \<Longrightarrow> daemon_inv w'"
  using tx_frame_inv by (auto simp: daemon_inv_def)

lemma put_sta_daemon:
  "daemon_inv w \<Longrightarrow> stas w k = Some s \<Longrightarrow> sta_addr s' = sta_addr s \<Longrightarrow> daemon_inv (put_sta k s' w)"
  by (auto simp: daemon_inv_def put_sta_def client_inv_def intro: table_inv_put [unfolded put_sta_def])

lemma table_same:
  assumes "stas w' = stas w" "sta_list w' = sta_list w" "sta_hash w' = sta_hash w" "num_sta w' = num_sta w" "next_sta w' = next_sta w"
  shows "table_inv w' \<longleftrightarrow> table_inv w"
  using assms by (intro table_inv_cong) (simp_all add: sta_addr_of_def)

lemma timeout_table [simp]:
  "table_inv (add_timeout e s h d u w) \<longleftrightarrow> table_inv w" "table_inv (del_timeout h d u w) \<longleftrightarrow> table_inv w"
  "table_inv (log_call c w) \<longleftrightarrow> table_inv w" "table_inv (put_radius r w) \<longleftrightarrow> table_inv w"
  by (rule table_same; simp add: add_timeout_def del_timeout_def log_call_def put_radius_def)+

lemma timeout_daemon [simp]:
  "daemon_inv (add_timeout e s h d u w) \<longleftrightarrow> daemon_inv w" "daemon_inv (del_timeout h d u w) \<longleftrightarrow> daemon_inv w"
  "daemon_inv (log_call c w) \<longleftrightarrow> daemon_inv w"
  by (simp_all add: daemon_inv_def)

lemma sm_exec_daemon: "daemon_inv w \<Longrightarrow> yields (sm_exec f e k w) daemon_inv"
proof -
  assume inv: "daemon_inv w"
  show ?thesis
  proof (cases "stas w k")
    case None
    then show ?thesis by (simp add: sm_exec_def get_sta_def)
  next
    case sta: (Some sta)
    show ?thesis
    proof (cases "eapol_sm sta")
      case None
      then show ?thesis using sta by (simp add: sm_exec_def)
    next
      case (Some sm)
      show ?thesis
        by (rule yields_mono [OF sm_exec_spec [OF sta Some]]) (elim exE conjE, rule tx_frame_daemon, assumption, rule put_sta_daemon [OF inv sta], simp)
    qed
  qed
qed

lemma tick_daemon: "daemon_inv w \<Longrightarrow> yields (sta_port_timers_tick e k w) daemon_inv"
  by (auto simp: sta_port_timers_tick_def run_map_def yields_bind sm_exec_daemon split: option.split)

lemma sm_alloc_daemon: "daemon_inv w \<Longrightarrow> yields (sta_sm_alloc e k w) (\<lambda>(r, w'). daemon_inv w')"
proof -
  assume inv: "daemon_inv w"
  have acts: "yields (run_acts e k as w) daemon_inv" for as
    by (rule yields_mono [OF run_acts_frame]) (rule tx_frame_daemon [OF _ inv])
  show ?thesis
    unfolding sta_sm_alloc_def
  proof (rule yields_run_any)
    fix r
    show "yields (case r of None \<Rightarrow> ret (None, w) | Some sm \<Rightarrow> run_bind (run_acts e k (acts sm) w) (\<lambda>w.
           ret (Some (sm\<lparr>acts := []\<rparr>), add_timeout e 1 H_eapol_port_timers_tick (Ctx Apd) (tick_ctx k)
               (del_timeout H_eapol_port_timers_tick (Ctx Apd) (tick_ctx k) w)))) (\<lambda>(r, w'). daemon_inv w')"
      using inv acts by (cases r) (simp_all add: yields_bind)
  qed
qed


section \<open>The frames on the wire\<close>

lemma eapol_frame_fields:
  assumes "length dst = 6" "length src = 6" "length data < 2 ^ 16"
  shows "length (eapol_frame dst src et type data) = length data + 20"
    "slice 0 6 (eapol_frame dst src et type data) = dst"
    "slice 6 6 (eapol_frame dst src et type data) = src"
    "rd_be16 (slice 12 2 (eapol_frame dst src et type data)) = (if et = ETH_P_PRE_AUTH then ETH_P_PRE_AUTH else ETH_P_PAE)"
    "eapol_frame dst src et type data ! 14 = (if et = ETH_P_PRE_AUTH then EAPOL_VERSION_2 else EAPOL_VERSION)"
    "eapol_frame dst src et type data ! 15 = type"
    "unat (rd_be16 (slice 16 2 (eapol_frame dst src et type data))) = length data"
    "slice 18 (length data) (eapol_frame dst src et type data) = data"
  using assms by (simp_all add: eapol_frame_def slice_def nth_append unat_of_nat)

lemma eapol_frame_tail:
  "length dst = 6 \<Longrightarrow> length src = 6 \<Longrightarrow> drop (18 + length data) (eapol_frame dst src et type data) = [0, 0]"
  by (simp add: eapol_frame_def be16_def drop_Cons')

definition frame_call :: "sta_info \<Rightarrow> byte list \<Rightarrow> rtapd \<Rightarrow> sys_call" where
  "frame_call sta buf w =
     (if ethertype sta = ETH_P_PRE_AUTH then Send (SockNum sta) buf
      else Ioctl (ioctl_sock w) (prefix_wlan_name w @ dec_u8 (ApIdx sta)) RT_OID_802_DOT1X_RADIUS_DATA buf)"

lemma ieee802_1x_send_spec:
  assumes "stas w k = Some sta" "unat (ApIdx sta) < length (own_addr w)"
    "env_alloc e (sizeof_ieee8023_hdr + 2 + LENGTH_8021X_HDR + length data)"
  shows "ieee802_1x_send e k type data w
    = ret (log_call (frame_call sta (eapol_frame (sta_addr sta) (own_addr w ! unat (ApIdx sta)) (ethertype sta) type data) w) w)"
  using assms
  by (simp add: ieee802_1x_send_def Let_def sys_send_def RT_ioctl_def frame_call_def split: prod.split)

text \<open>A frame to a station is one call: \<open>send\<close> on the socket the station was heard on when it
  pre-authenticates, else the private ioctl of the BSS of the station. Its buffer is an Ethernet frame from that BSS to the
  station with the Ethernet type and the EAPOL version of the kind of station, the packet type, the length of the body in network
  order, the body, and two zero bytes that no length covers. Nothing else of the daemon changes.\<close>

lemma ieee802_1x_send_frame:
  assumes sta: "stas w k = Some sta" and own: "unat (ApIdx sta) < length (own_addr w)" "length (own_addr w ! unat (ApIdx sta)) = 6"
    and "length (sta_addr sta) = 6" "length data < 2 ^ 16" and mem: "env_alloc e (20 + length data)"
  shows "\<exists>buf. ieee802_1x_send e k type data w = ret (log_call (frame_call sta buf w) w)
    \<and> length buf = 20 + length data
    \<and> slice 0 6 buf = sta_addr sta \<and> slice 6 6 buf = own_addr w ! unat (ApIdx sta)
    \<and> rd_be16 (slice 12 2 buf) = (if ethertype sta = ETH_P_PRE_AUTH then ETH_P_PRE_AUTH else ETH_P_PAE)
    \<and> buf ! 14 = (if ethertype sta = ETH_P_PRE_AUTH then EAPOL_VERSION_2 else EAPOL_VERSION) \<and> buf ! 15 = type
    \<and> unat (rd_be16 (slice 16 2 buf)) = length data \<and> slice 18 (length data) buf = data \<and> drop (18 + length data) buf = [0, 0]"
proof -
  have "env_alloc e (sizeof_ieee8023_hdr + 2 + LENGTH_8021X_HDR + length data)"
    using mem by (simp add: sizeof_ieee8023_hdr_def LENGTH_8021X_HDR_def)
  from ieee802_1x_send_spec [OF sta own(1) this, of type] show ?thesis
    using assms by (intro exI conjI) (assumption, simp_all add: eapol_frame_fields eapol_frame_tail del: drop_append)
qed

definition sample_sta :: sta_info where
  "sample_sta = \<lparr>sta_addr = [2, 0, 0, 0, 0, 1], aid = 1, eapol_sm = None, radius_identifier = -1, last_recv_radius = None,
     last_eap_supp = None, last_eap_radius = None, identity = Some [98, 111, 98], eapol_key_sign = Some [1], eapol_key_crypt = Some [2],
     ApIdx = 0, ethertype = ETH_P_PAE, SockNum = 4\<rparr>"

definition sample_sta_world :: rtapd where
  "sample_sta_world = sample_world\<lparr>num_sta := 1, sta_list := [0], sta_hash := (replicate 256 [])[1 := [0]],
     stas := [0 \<mapsto> sample_sta], next_sta := 1\<rparr>"

lemma sample_sta_simps:
  "stas sample_sta_world 0 = Some sample_sta" "own_addr sample_sta_world = replicate 8 [0, 1, 2, 3, 4, 5]"
  "ApIdx sample_sta = 0" "sta_addr sample_sta = [2, 0, 0, 0, 0, 1]" "ethertype sample_sta = ETH_P_PAE"
  "eapol_key_sign sample_sta = Some [1]" "eapol_key_crypt sample_sta = Some [2]"
  "identity sample_sta = Some [98, 111, 98]" "last_recv_radius sample_sta = None"
  "conf sample_sta_world = sample_conf" "radius sample_sta_world = Some sample_radius" "sent sample_sta_world = []"
  "eloop sample_sta_world = eloop_init NULL_CTX"
  by (simp_all add: sample_sta_world_def sample_sta_def sample_world_def)

lemma ieee802_1x_send_frame_witness:
  "\<exists>buf. ieee802_1x_send sample_env 0 0 [3, 7, 0, 4] sample_sta_world = ret (log_call (frame_call sample_sta buf sample_sta_world) sample_sta_world)
    \<and> length buf = 24 \<and> slice 18 4 buf = [3, 7, 0, 4]"
proof -
  have "env_alloc sample_env (20 + length [3 :: byte, 7, 0, 4])" by (simp add: sample_env_def no_oom_def)
  from ieee802_1x_send_frame [OF sample_sta_simps(1) _ _ _ _ this, of 0]
  obtain buf where "ieee802_1x_send sample_env 0 0 [3, 7, 0, 4] sample_sta_world = ret (log_call (frame_call sample_sta buf sample_sta_world) sample_sta_world)"
    "length buf = 20 + length [3 :: byte, 7, 0, 4]" "slice 18 (length [3 :: byte, 7, 0, 4]) buf = [3, 7, 0, 4]"
    by (auto simp: sample_sta_simps)
  then show ?thesis
    by (intro exI [of _ buf]) (simp add: eval_nat_numeral)
qed

lemma eapol_key_fields:
  assumes "length ts = 8" "length iv = 16" "length sig = 16"
  shows "eapol_key n ts iv idx sig key = take 28 (eapol_key n ts iv idx sig key) @ sig @ key"
    "length (eapol_key n ts iv idx sig key) = 44 + length key"
    "take 28 (eapol_key n ts iv idx sig key) = [EAPOL_KEY_TYPE_RC4] @ be16 n @ ts @ iv @ [idx]"
    "slice 1 2 (eapol_key n ts iv idx sig key) = be16 n"
    "slice 11 16 (eapol_key n ts iv idx sig key) = iv" "eapol_key n ts iv idx sig key ! 27 = idx"
    "slice 28 16 (eapol_key n ts iv idx sig key) = sig" "drop 44 (eapol_key n ts iv idx sig key) = key"
  using assms by (simp_all add: eapol_key_def slice_def nth_append be16_def)

lemma length_ntp_stamp [simp]: "length (ntp_stamp now) = 8"
  by (simp add: ntp_stamp_def Let_def)

text \<open>A key frame can be used by its station, and by nobody else: the signature in it is the HMAC, with the
  signing key of the station, of the frame from its EAPOL version octet (1) on with a zero signature; the key in it,
  decrypted by RC4 under the IV in it and the encryption key of the station, is the key that was to be sent; and
  its index has the top bit set exactly when the key is unicast. But the version octet on the wire is the one that
  is signed only for a station that does not pre-authenticate.\<close>

lemma ieee802_1x_tx_key_one_frame:
  assumes sta: "stas w k = Some sta" and own: "unat (ApIdx sta) < length (own_addr w)"
    and addrs: "length (own_addr w ! unat (ApIdx sta)) = 6" "length (sta_addr sta) = 6"
    and keys: "eapol_key_crypt sta = Some crypt" "eapol_key_sign sta = Some sign"
    and rand: "env_rand e (sent w) 16 = Some iv" "length iv = 16"
    and key: "length key < 2 ^ 16 - 44" and mem: "env_alloc e = no_oom" and index: "0 \<le> index" "index < 4"
  shows "\<exists>buf body. ieee802_1x_tx_key_one e k index broadcast key w = ret (log_call (frame_call sta buf w) w)
    \<and> buf = eapol_frame (sta_addr sta) (own_addr w ! unat (ApIdx sta)) (ethertype sta) IEEE802_1X_TYPE_EAPOL_KEY body
    \<and> (slice 14 4 buf = [EAPOL_VERSION, IEEE802_1X_TYPE_EAPOL_KEY] @ be16 (of_nat (length body)) \<longleftrightarrow> ethertype sta \<noteq> ETH_P_PRE_AUTH)
    \<and> length body = 44 + length key
    \<and> unat (rd_be16 (slice 1 2 body)) = length key
    \<and> slice 28 16 body = hmac_md5 sign ([EAPOL_VERSION, IEEE802_1X_TYPE_EAPOL_KEY] @ be16 (of_nat (length body))
         @ take 28 body @ replicate 16 0 @ drop 44 body)
    \<and> rc4 (drop 44 body) (slice 11 16 body @ crypt) = key
    \<and> uint (body ! 27) = (if broadcast then index else 128 + index)"
proof -
  define idx :: byte where "idx = of_int index OR (if broadcast then 0 else 0x80)"
  define ekey where "ekey = rc4 key (iv @ crypt)"
  define body where "body = (\<lambda>sig. eapol_key (of_nat (length key)) (ntp_stamp (env_now e)) iv idx sig ekey)"
  define sig where "sig = hmac_md5 sign (([EAPOL_VERSION, IEEE802_1X_TYPE_EAPOL_KEY] @ be16 (of_nat (44 + length key))) @ body (replicate 16 0))"
  have ekey: "length ekey = length key" "rc4 ekey (iv @ crypt) = key"
    by (simp_all add: ekey_def rc4_def rc4_apply_involution)
  have sig: "length sig = 16" by (simp add: sig_def)
  note fields = eapol_key_fields [of "ntp_stamp (env_now e)" iv _ "of_nat (length key)" idx ekey, simplified, OF rand(2)]
  have idx_cases: "uint idx = (if broadcast then index else 128 + index)"
  proof -
    have "index \<in> {0, 1, 2, 3}" using index by auto
    then show ?thesis unfolding idx_def by auto
  qed
  let ?buf = "eapol_frame (sta_addr sta) (own_addr w ! unat (ApIdx sta)) (ethertype sta) IEEE802_1X_TYPE_EAPOL_KEY (body sig)"
  have hdr: "slice 14 4 ?buf = [EAPOL_VERSION, IEEE802_1X_TYPE_EAPOL_KEY] @ be16 (of_nat (length (body sig))) \<longleftrightarrow> ethertype sta \<noteq> ETH_P_PRE_AUTH"
    using addrs by (simp add: eapol_frame_def slice_def EAPOL_VERSION_def EAPOL_VERSION_2_def)
  have send: "ieee802_1x_send e k IEEE802_1X_TYPE_EAPOL_KEY (body sig) w
      = ret (log_call (frame_call sta ?buf w) w)"
    by (rule ieee802_1x_send_spec [OF sta own]) (simp add: mem no_oom_def)
  have one: "ieee802_1x_tx_key_one e k index broadcast key w = ret (log_call (frame_call sta ?buf w) w)"
    unfolding send [symmetric] using sta keys rand mem
    by (simp add: ieee802_1x_tx_key_one_def Let_def no_oom_def sizeof_ieee802_1x_eapol_key_def idx_def ekey_def body_def sig_def)
  have zero: "body (replicate 16 0) = take 28 (body sig) @ replicate 16 0 @ drop 44 (body sig)"
    unfolding body_def by (subst fields(1)) (simp_all add: sig fields(3,8))
  have len: "length (body sig) = 44 + length key" using sig ekey by (simp add: body_def fields(2))
  have parts: "slice 28 16 (body sig) = sig" "drop 44 (body sig) = ekey" "slice 11 16 (body sig) = iv" "body sig ! 27 = idx"
      "slice 1 2 (body sig) = be16 (of_nat (length key))"
    using sig by (simp_all add: body_def fields(4-8))
  have signed: "slice 28 16 (body sig) = hmac_md5 sign ([EAPOL_VERSION, IEEE802_1X_TYPE_EAPOL_KEY] @ be16 (of_nat (length (body sig)))
         @ take 28 (body sig) @ replicate 16 0 @ drop 44 (body sig))"
    unfolding zero [symmetric] len parts(1) by (simp add: sig_def)
  have klen: "unat (rd_be16 (slice 1 2 (body sig))) = length key"
    using key unfolding parts by (simp add: unat_of_nat)
  have "rc4 (drop 44 (body sig)) (slice 11 16 (body sig) @ crypt) = key"
    unfolding parts by (rule ekey(2))
  then show ?thesis
    using one hdr len klen signed idx_cases by - (rule exI [of _ ?buf], rule exI [of _ "body sig"], simp only: parts(4) simp_thms)
qed

lemma ieee802_1x_tx_key_one_frame_witness:
  "\<exists>buf body. ieee802_1x_tx_key_one sample_env 0 3 False [9, 8, 7] sample_sta_world
      = ret (log_call (frame_call sample_sta buf sample_sta_world) sample_sta_world)
    \<and> buf = eapol_frame [2, 0, 0, 0, 0, 1] [0, 1, 2, 3, 4, 5] ETH_P_PAE IEEE802_1X_TYPE_EAPOL_KEY body
    \<and> rc4 (drop 44 body) (slice 11 16 body @ [2]) = [9, 8, 7] \<and> uint (body ! 27) = 131"
proof -
  have "env_rand sample_env (sent sample_sta_world) 16 = Some (replicate 16 0)" "env_alloc sample_env = no_oom"
    by (simp_all add: sample_env_def)
  from ieee802_1x_tx_key_one_frame [OF sample_sta_simps(1) _ _ _ sample_sta_simps(7,6) this(1) _ _ this(2), of "[9, 8, 7]" 3 False]
  show ?thesis by (auto simp: sample_sta_simps)
qed


section \<open>The request on the wire\<close>

text \<open>The arrays over the BSSs have their eight elements, addresses their six octets; the lengths kept
  beside an array are inside it.\<close>

definition bss_ok :: "rtapd \<Rightarrow> bool" where
  "bss_ok w \<longleftrightarrow> length (own_addr w) = MAX_MBSSID_NUM \<and> (\<forall>a \<in> set (own_addr w). length a = MAC_ADDR_LEN)
     \<and> length (nasId (conf w)) = MAX_MBSSID_NUM \<and> (\<forall>s \<in> set (nasId (conf w)). length s = 32)
     \<and> length (nasId_len (conf w)) = MAX_MBSSID_NUM \<and> (\<forall>n \<in> set (nasId_len (conf w)). n \<le> 32)
     \<and> length (DefaultKeyID (conf w)) = MAX_MBSSID_NUM \<and> length (individual_wep_key_idx (conf w)) = MAX_MBSSID_NUM
     \<and> length (individual_wep_key_len (conf w)) = MAX_MBSSID_NUM \<and> (\<forall>n \<in> set (individual_wep_key_len (conf w)). n \<le> int WEP8021X_KEY_LEN)
     \<and> length (IEEE8021X_ikey (conf w)) = MAX_MBSSID_NUM \<and> (\<forall>k \<in> set (IEEE8021X_ikey (conf w)). length k = WEP8021X_KEY_LEN)"

lemma bss_okD:
  assumes "bss_ok w" "n < MAX_MBSSID_NUM"
  shows "n < length (own_addr w)" "length (own_addr w ! n) = 6"
    "n < length (nasId (conf w))" "length (nasId (conf w) ! n) = 32" "n < length (nasId_len (conf w))" "nasId_len (conf w) ! n \<le> 32"
    "n < length (DefaultKeyID (conf w))" "n < length (individual_wep_key_idx (conf w))"
    "n < length (individual_wep_key_len (conf w))" "individual_wep_key_len (conf w) ! n \<le> 13"
    "n < length (IEEE8021X_ikey (conf w))" "length (IEEE8021X_ikey (conf w) ! n) = 13"
  using assms by (simp_all add: bss_ok_def MAC_ADDR_LEN_def WEP8021X_KEY_LEN_def)

definition sta_ok :: "sta_info \<Rightarrow> bool" where
  "sta_ok s \<longleftrightarrow> length (sta_addr s) = MAC_ADDR_LEN \<and> unat (ApIdx s) < MAX_MBSSID_NUM
     \<and> (case last_recv_radius s of None \<Rightarrow> True | Some m \<Rightarrow> wf_msg m)
     \<and> (case last_eap_radius s of None \<Rightarrow> True | Some d \<Rightarrow> 4 \<le> length d)"

lemma sta_okD:
  "sta_ok s \<Longrightarrow> length (sta_addr s) = 6" "sta_ok s \<Longrightarrow> unat (ApIdx s) < MAX_MBSSID_NUM"
  "sta_ok s \<Longrightarrow> last_recv_radius s = Some m \<Longrightarrow> wf_msg m" "sta_ok s \<Longrightarrow> last_eap_radius s = Some d \<Longrightarrow> 4 \<le> length d"
  by (simp_all add: sta_ok_def MAC_ADDR_LEN_def)

text \<open>The attributes of a request, in order.\<close>

definition state_avps :: "radius_msg option \<Rightarrow> avp list" where
  "state_avps prev = (case prev of None \<Rightarrow> [] | Some p \<Rightarrow>
     if msg_code p = RADIUS_CODE_ACCESS_CHALLENGE then take 1 (filter (\<lambda>av. fst av = RADIUS_ATTR_STATE) (avps p)) else [])"

definition nas_avps :: "rtapd_config \<Rightarrow> nat \<Rightarrow> avp list" where
  "nas_avps c n = (if nasId_len c ! n > 0 then [(RADIUS_ATTR_NAS_IDENTIFIER, take (nat (nasId_len c ! n)) (nasId c ! n))] else [])"

definition request_avps :: "rtapd \<Rightarrow> sta_info \<Rightarrow> byte list option \<Rightarrow> avp list" where
  "request_avps w sta eap =
     (case identity sta of None \<Rightarrow> [] | Some name \<Rightarrow> [(RADIUS_ATTR_USER_NAME, name)])
     @ [(RADIUS_ATTR_NAS_IP_ADDRESS, le32 (own_ip_addr (conf w)))]
     @ nas_avps (conf w) (unat (ApIdx sta))
     @ [(RADIUS_ATTR_NAS_PORT, be32 (ucast (aid sta))),
        (RADIUS_ATTR_CALLED_STATION_ID, RADIUS_802_1X_ADDR_FORMAT (own_addr w ! unat (ApIdx sta))),
        (RADIUS_ATTR_CALLING_STATION_ID, RADIUS_802_1X_ADDR_FORMAT (sta_addr sta)),
        (RADIUS_ATTR_FRAMED_MTU, be32 1400),
        (RADIUS_ATTR_NAS_PORT_TYPE, be32 RADIUS_NAS_PORT_TYPE_IEEE_802_11)]
     @ (case eap of None \<Rightarrow> [] | Some d \<Rightarrow> eap_fragments d)
     @ state_avps (last_recv_radius sta)"

definition adds :: "attr_step \<Rightarrow> avp list \<Rightarrow> bool" where
  "adds f avs \<longleftrightarrow> (\<forall>m. wf_msg m \<longrightarrow> (\<exists>m'. f m = ret (Some m') \<and> wf_msg m' \<and> avps m' = avps m @ avs
     \<and> take 20 (rbuf m') = take 20 (rbuf m)))"

lemma add_attr_ok:
  "wf_msg m \<Longrightarrow> length d \<le> RADIUS_MAX_ATTR_LEN \<Longrightarrow>
   \<exists>m'. Radius_msg_add_attr no_oom m t d = ret (Some (buf_used m), m') \<and> added m (t, d) m'"
  using add_attr_spec [of m d no_oom t] by (auto simp: returns_def)

lemma put_attr_adds: "length d \<le> RADIUS_MAX_ATTR_LEN \<Longrightarrow> env_alloc e = no_oom \<Longrightarrow> adds (put_attr e t d) [(t, d)]"
  unfolding adds_def put_attr_def using add_attr_ok [of _ d t] by (fastforce simp: added_def)

lemma put_attr32_adds: "env_alloc e = no_oom \<Longrightarrow> adds (put_attr32 e t v) [(t, be32 v)]"
  unfolding adds_def put_attr32_def Radius_msg_add_attr_int32_def
  using add_attr_ok [of _ "be32 v" t] by (fastforce simp: added_def RADIUS_MAX_ATTR_LEN_def)

lemma put_eap_adds: "env_alloc e = no_oom \<Longrightarrow> adds (put_eap e d) (eap_fragments d)"
  unfolding adds_def put_eap_def using add_eap_spec [of _ d] by (fastforce simp: returns_def)

lemma find_take1: "(case find P xs of None \<Rightarrow> [] | Some x \<Rightarrow> [x]) = take 1 (filter P xs)"
  by (induction xs) auto

lemma put_copy_adds:
  assumes "wf_msg p" "env_alloc e = no_oom"
  shows "adds (put_copy e p t) (take 1 (filter (\<lambda>av. fst av = t) (avps p)))"
proof -
  have f: "take 1 (filter (\<lambda>av. fst av = t) (avps p)) = (case first_attr p t of None \<Rightarrow> [] | Some a \<Rightarrow> [avp_at (rbuf p) a])"
  proof -
    have "find (\<lambda>av. fst av = t) (map (avp_at (rbuf p)) as) = map_option (avp_at (rbuf p)) (find (\<lambda>a. attr_type p a = t) as)" for as
      by (induction as) (simp_all add: attr_type_def avp_at_def)
    then show ?thesis unfolding find_take1 [symmetric] first_attr_def avps_def by (simp split: option.split)
  qed
  show ?thesis
  proof (cases "first_attr p t")
    case None
    then show ?thesis unfolding f by (simp add: adds_def put_copy_def Radius_msg_copy_attr_def)
  next
    case (Some a)
    then have a: "a \<in> set (attrs p)" "attr_type p a = t"
      by (auto simp: first_attr_def find_Some_iff)
    have v: "attr_value p a = snd (avp_at (rbuf p) a)" "valid_avp (avp_at (rbuf p) a)"
      using avp_values(1) [OF wf_msg_attrs [OF assms(1)] a(1)] wf_msg_valid [OF assms(1)] a(1) by (auto simp: avps_def)
    have l: "length (attr_value p a) \<le> RADIUS_MAX_ATTR_LEN" using v by (simp add: valid_avp_def)
    have "avp_at (rbuf p) a = (t, attr_value p a)" using a v by (simp add: prod_eq_iff attr_type_def avp_at_def)
    then show ?thesis
      unfolding f adds_def put_copy_def Radius_msg_copy_attr_def
      using add_attr_ok [OF _ l, of _ t] Some by (fastforce simp: assms(2) added_def)
  qed
qed

lemma adds_nil: "adds (put_attrs []) []"
  by (simp add: adds_def)

lemma adds_bind:
  assumes "adds f xs" "adds g ys"
  shows "adds (\<lambda>m. run_bind (f m) (\<lambda>r. case r of None \<Rightarrow> ret None | Some m \<Rightarrow> g m)) (xs @ ys)"
  unfolding adds_def
proof (intro allI impI)
  fix m assume "wf_msg m"
  then obtain m1 where 1: "f m = ret (Some m1)" "wf_msg m1" "avps m1 = avps m @ xs" "take 20 (rbuf m1) = take 20 (rbuf m)"
    using assms(1) by (auto simp: adds_def)
  then obtain m2 where "g m1 = ret (Some m2)" "wf_msg m2" "avps m2 = avps m1 @ ys" "take 20 (rbuf m2) = take 20 (rbuf m1)"
    using assms(2) by (auto simp: adds_def)
  then show "\<exists>m'. run_bind (f m) (\<lambda>r. case r of None \<Rightarrow> ret None | Some m \<Rightarrow> g m) = ret (Some m') \<and> wf_msg m'
      \<and> avps m' = avps m @ xs @ ys \<and> take 20 (rbuf m') = take 20 (rbuf m)"
    using 1 by simp
qed

lemma put_attrs_append:
  "put_attrs (fs @ gs) = (\<lambda>m. run_bind (put_attrs fs m) (\<lambda>r. case r of None \<Rightarrow> ret None | Some m \<Rightarrow> put_attrs gs m))"
proof
  show "put_attrs (fs @ gs) m = run_bind (put_attrs fs m) (\<lambda>r. case r of None \<Rightarrow> ret None | Some m \<Rightarrow> put_attrs gs m)" for m
    by (induction fs arbitrary: m) (auto simp: run_bind_assoc intro!: arg_cong [where f = "run_bind _"] split: option.split)
qed

lemma adds_append: "adds (put_attrs fs) xs \<Longrightarrow> adds (put_attrs gs) ys \<Longrightarrow> adds (put_attrs (fs @ gs)) (xs @ ys)"
  unfolding put_attrs_append by (rule adds_bind)

lemma adds_cons: "adds f xs \<Longrightarrow> adds (put_attrs fs) ys \<Longrightarrow> adds (put_attrs (f # fs)) (xs @ ys)"
  unfolding put_attrs.simps [abs_def] by (rule adds_bind)

lemma adds_single: "adds f xs \<Longrightarrow> adds (put_attrs [f]) xs"
  using adds_cons [OF _ adds_nil] by simp

lemma length_addr_format: "length (RADIUS_802_1X_ADDR_FORMAT a) = 3 * length a - 1"
  by (simp add: RADIUS_802_1X_ADDR_FORMAT_def length_concat o_def hex2_def sum_list_triv)

lemma access_request_spec:
  assumes mem: "env_alloc e = no_oom" and bss: "bss_ok w" and sta: "sta_ok sta"
    and name: "\<forall>n. identity sta = Some n \<longrightarrow> length n \<le> RADIUS_MAX_ATTR_LEN"
  shows "\<exists>m. access_request e k eap i sta w = ret (Some m) \<and> wf_msg m \<and> avps m = request_avps w sta eap
    \<and> msg_code m = RADIUS_CODE_ACCESS_REQUEST \<and> msg_identifier m = i"
proof -
  note ap = bss_okD [OF bss sta_okD(2) [OF sta]]
  have small: "length (le32 v) \<le> RADIUS_MAX_ATTR_LEN" "length a = 6 \<Longrightarrow> length (RADIUS_802_1X_ADDR_FORMAT a) \<le> RADIUS_MAX_ATTR_LEN" for v a
    by (simp_all add: RADIUS_MAX_ATTR_LEN_def length_addr_format)
  obtain m0 where m0: "Radius_msg_new (env_alloc e) RADIUS_CODE_ACCESS_REQUEST i = Some m0"
    by (auto simp: mem Radius_msg_new_def Radius_msg_initialize_def no_oom_def RADIUS_DEFAULT_MSG_SIZE_def)
  let ?nas = "if nasId_len (conf w) ! unat (ApIdx sta) > 0
     then [put_attr e RADIUS_ATTR_NAS_IDENTIFIER (take (nat (nasId_len (conf w) ! unat (ApIdx sta))) (nasId (conf w) ! unat (ApIdx sta)))] else []"
  have nas: "nas_identifier e (conf w) (ApIdx sta) = ret ?nas"
    using ap(3-6) by (simp add: nas_identifier_def slice_def)
  have addn: "adds (put_attrs ?nas) (nas_avps (conf w) (unat (ApIdx sta)))"
    using ap(3-6) by (simp add: nas_avps_def adds_nil) (intro impI adds_single put_attr_adds mem; simp add: RADIUS_MAX_ATTR_LEN_def)
  have add1: "adds (put_attrs (case identity sta of None \<Rightarrow> [] | Some name \<Rightarrow> [put_attr e RADIUS_ATTR_USER_NAME name]))
     (case identity sta of None \<Rightarrow> [] | Some name \<Rightarrow> [(RADIUS_ATTR_USER_NAME, name)])"
    using name by (auto simp: adds_nil split: option.split intro!: adds_single put_attr_adds mem)
  have add2: "adds (put_attrs [put_attr e RADIUS_ATTR_NAS_IP_ADDRESS (le32 v)]) [(RADIUS_ATTR_NAS_IP_ADDRESS, le32 v)]" for v
    by (intro adds_single put_attr_adds mem small)
  have add3: "adds (put_attrs [put_attr32 e RADIUS_ATTR_NAS_PORT a, put_attr e RADIUS_ATTR_CALLED_STATION_ID (RADIUS_802_1X_ADDR_FORMAT (own_addr w ! unat (ApIdx sta))),
            put_attr e RADIUS_ATTR_CALLING_STATION_ID (RADIUS_802_1X_ADDR_FORMAT (sta_addr sta)),
            put_attr32 e RADIUS_ATTR_FRAMED_MTU c, put_attr32 e RADIUS_ATTR_NAS_PORT_TYPE d])
     ([(RADIUS_ATTR_NAS_PORT, be32 a)] @ [(RADIUS_ATTR_CALLED_STATION_ID, RADIUS_802_1X_ADDR_FORMAT (own_addr w ! unat (ApIdx sta)))]
       @ [(RADIUS_ATTR_CALLING_STATION_ID, RADIUS_802_1X_ADDR_FORMAT (sta_addr sta))]
       @ [(RADIUS_ATTR_FRAMED_MTU, be32 c)] @ [(RADIUS_ATTR_NAS_PORT_TYPE, be32 d)])" for a c d
    using ap(2) sta_okD(1) [OF sta] by (intro adds_cons adds_single put_attr_adds put_attr32_adds mem small)
  have add4: "adds (put_attrs (case eap of None \<Rightarrow> [] | Some d \<Rightarrow> [put_eap e d])) (case eap of None \<Rightarrow> [] | Some d \<Rightarrow> eap_fragments d)"
    by (auto simp: adds_nil split: option.split intro!: adds_single put_eap_adds mem)
  have add5: "adds (put_attrs (case last_recv_radius sta of None \<Rightarrow> []
      | Some prev \<Rightarrow> if msg_code prev = RADIUS_CODE_ACCESS_CHALLENGE then [put_copy e prev RADIUS_ATTR_STATE] else []))
     (state_avps (last_recv_radius sta))"
    using sta_okD(3) [OF sta]
    by (cases "last_recv_radius sta") (auto simp: adds_nil state_avps_def simp del: One_nat_def intro!: adds_single put_copy_adds mem)
  let ?fs = "(case identity sta of None \<Rightarrow> [] | Some name \<Rightarrow> [put_attr e RADIUS_ATTR_USER_NAME name])
         @ [put_attr e RADIUS_ATTR_NAS_IP_ADDRESS (le32 (own_ip_addr (conf w)))] @ ?nas
         @ [put_attr32 e RADIUS_ATTR_NAS_PORT (ucast (aid sta)),
            put_attr e RADIUS_ATTR_CALLED_STATION_ID (RADIUS_802_1X_ADDR_FORMAT (own_addr w ! unat (ApIdx sta))),
            put_attr e RADIUS_ATTR_CALLING_STATION_ID (RADIUS_802_1X_ADDR_FORMAT (sta_addr sta)),
            put_attr32 e RADIUS_ATTR_FRAMED_MTU 1400, put_attr32 e RADIUS_ATTR_NAS_PORT_TYPE RADIUS_NAS_PORT_TYPE_IEEE_802_11]
         @ (case eap of None \<Rightarrow> [] | Some d \<Rightarrow> [put_eap e d])
         @ (case last_recv_radius sta of None \<Rightarrow> []
            | Some prev \<Rightarrow> if msg_code prev = RADIUS_CODE_ACCESS_CHALLENGE then [put_copy e prev RADIUS_ATTR_STATE] else [])"
  have all: "adds (put_attrs ?fs) (request_avps w sta eap)"
    using adds_append [OF add1 adds_append [OF add2 [of "own_ip_addr (conf w)"] adds_append [OF addn
        adds_append [OF add3 [of "ucast (aid sta)" 1400 RADIUS_NAS_PORT_TYPE_IEEE_802_11] adds_append [OF add4 add5]]]]]
    by (simp only: request_avps_def append_Cons append_Nil)
  let ?m = "Radius_msg_make_authenticator (env_now e) (env_random e (sent w)) m0 (env_ptr e (next_station k w))"
  have m: "wf_msg ?m" "avps ?m = []" "msg_code ?m = RADIUS_CODE_ACCESS_REQUEST" "msg_identifier ?m = i"
    using new_spec [OF m0] header_edit [of m0 4] 
    by (auto simp: Radius_msg_make_authenticator_def msg_code_def msg_identifier_def nth_store_low wf_msg_def)
  from all [unfolded adds_def, rule_format, OF m(1)] obtain m' where m': "put_attrs ?fs ?m = ret (Some m')"
    "wf_msg m'" "avps m' = request_avps w sta eap" "take 20 (rbuf m') = take 20 (rbuf ?m)"
    by (auto simp only: m(2) append_Nil)
  have same: "rbuf m' ! n = rbuf ?m ! n" if "n < 20" for n
    using m'(4) that by (metis nth_take)
  show ?thesis
    unfolding access_request_def m0 option.case nas run_bind_ret ap_arr_ret [OF ap(1)]
    using m' m(3,4) same by (intro exI [of _ m']) (simp add: msg_code_def msg_identifier_def)
qed

lemma request_avps_same:
  "conf w' = conf w \<Longrightarrow> own_addr w' = own_addr w \<Longrightarrow> request_avps w' (sta\<lparr>radius_identifier := i\<rparr>) eap = request_avps w sta eap"
  by (simp add: request_avps_def)

text \<open>What the client sends and keeps of a message: one datagram, parsed back with the attributes of the message and a
  Message-Authenticator, and an entry at the head of the list.\<close>

lemma client_send_spec:
  assumes inv: "client_inv w" and r: "radius w = Some r" and wf: "wf_msg m0" and mem: "env_alloc e = no_oom"
    and run: "\<not> eloop_terminated (eloop w)" and srv: "auth_server (conf w) = Some j"
    and size: "38 + length (enc_avps (avps m0)) < 2 ^ 16"
  defines "s \<equiv> auth_servers (conf w) ! j"
  shows "\<exists>data m m1. let c = SendTo (auth_serv_sock r) (srv_addr s) (take_bit 16 (srv_port s)) data in
      Radius_client_send e m0 a w = ret (env_send e (sent w) c, True,
        put_radius (added_client (new_entry (env_time e) m1 (shared_secret s) a) r)
          (if msgs r = [] then add_timeout e 1 H_Radius_client_timer (Ctx Apd) NULL_CTX (log_call c w) else log_call c w))
    \<and> Radius_msg_parse no_oom data = Some m \<and> msg_code m = msg_code m0 \<and> msg_identifier m = msg_identifier m0
    \<and> msg_authenticator m = msg_authenticator m0
    \<and> avps m = avps m0 @ [(RADIUS_ATTR_MESSAGE_AUTHENTICATOR, hmac_md5 (shared_secret s)
         (take 20 data @ enc_avps (avps m0 @ [(RADIUS_ATTR_MESSAGE_AUTHENTICATOR, replicate 16 0)])))]
    \<and> msg_identifier m1 = msg_identifier m0 \<and> data = take (buf_used m1) (rbuf m1)"
proof -
  obtain m1 where fin: "Radius_msg_finish no_oom m0 (Some (shared_secret s)) = ret m1" and m1: "wf_msg m1"
    "slice 0 2 (rbuf m1) = slice 0 2 (rbuf m0)" "slice 2 2 (rbuf m1) = be16 (of_nat (buf_used m1))"
    "msg_authenticator m1 = msg_authenticator m0"
    "avps m1 = avps m0 @ [(RADIUS_ATTR_MESSAGE_AUTHENTICATOR,
         hmac_md5 (shared_secret s) (slice 0 4 (rbuf m1) @ msg_authenticator m0
           @ enc_avps (avps m0 @ [(RADIUS_ATTR_MESSAGE_AUTHENTICATOR, replicate 16 0)])))]"
    using finish_spec [OF wf] by blast
  define data where "data = take (buf_used m1) (rbuf m1)"
  have used: "20 \<le> buf_used m1" "buf_used m1 \<le> length (rbuf m1)" "buf_used m1 < 2 ^ 16"
    using m1(1) wf_msg_used [OF m1(1)] size by (simp_all add: wf_msg_def m1(5) enc_avp_length)
  have head: "take 20 data = slice 0 4 (rbuf m1) @ msg_authenticator m0"
    using used slice_split [of 4 20 0 "rbuf m1"] unfolding m1(4) [symmetric] unfolding msg_authenticator_def by (simp add: data_def slice_def)
  obtain m where m: "Radius_msg_parse no_oom data = Some m" "avps m = avps m1" "rbuf m = data"
    using parse_complete [OF m1(1) _ used(3), of "[]"] m1(3) by (auto simp: data_def)
  have hdr: "rbuf m1 ! 0 = rbuf m0 ! 0" "rbuf m1 ! 1 = rbuf m0 ! 1"
    using m1(2) nth_take [of _ 2 "rbuf m1"] nth_take [of _ 2 "rbuf m0"] by (simp_all add: slice_def)
  have codes: "msg_code m = msg_code m0" "msg_identifier m = msg_identifier m0" "msg_identifier m1 = msg_identifier m0"
    using m(3) hdr used by (simp_all add: msg_code_def msg_identifier_def data_def)
  have auth: "msg_authenticator m = msg_authenticator m0"
    using m(3) m1(4) used by (simp add: msg_authenticator_def data_def)
  have serv: "server_at w (auth_server (conf w)) = ret s"
    using client_invD(2) [OF inv] srv by (simp add: s_def server_at_def conf_ok_def num_auth_servers_def)
  have read: "mem_read 0 (buf_used m1) (rbuf m1) = ret data" using used by (simp add: data_def slice_def)
  let ?c = "SendTo (auth_serv_sock r) (srv_addr s) (take_bit 16 (srv_port s)) data"
  have add: "Radius_client_list_add e m1 (shared_secret s) a (log_call ?c w) = ret (True,
    put_radius (added_client (new_entry (env_time e) m1 (shared_secret s) a) r)
      (if msgs r = [] then add_timeout e 1 H_Radius_client_timer (Ctx Apd) NULL_CTX (log_call ?c w) else log_call ?c w))"
    using inv r run mem by (intro list_add_spec) (simp_all add: log_call_def no_oom_def client_inv_def)
  have send: "Radius_client_send e m0 a w = ret (env_send e (sent w) ?c, True,
        put_radius (added_client (new_entry (env_time e) m1 (shared_secret s) a) r)
          (if msgs r = [] then add_timeout e 1 H_Radius_client_timer (Ctx Apd) NULL_CTX (log_call ?c w) else log_call ?c w))"
    by (simp add: Radius_client_send_def serv r mem fin read sys_send_def add)
  show ?thesis
    unfolding Let_def using send m codes auth m1(5) head
    by (intro exI [of _ data] exI [of _ m] exI [of _ m1] conjI) (simp_all add: data_def)
qed

text \<open>C38. What the server gets. For a known station and with memory, a request is exactly one datagram to the current
  server, which the parser of the server accepts: an Access-Request under the next identifier, with the User-Name, the
  attributes of the access point and of the station, the EAP packet in fragments, the State of the challenge it
  answers, and a Message-Authenticator under the shared secret over all of it. The station
  remembers the identifier, and the same bytes wait at the head of the retransmission list.\<close>

theorem ieee802_1x_encapsulate_radius_sends:
  assumes inv: "client_inv w" and r: "radius w = Some r" and sta: "stas w k = Some sta" "sta_ok sta" and bss: "bss_ok w"
    and mem: "env_alloc e = no_oom" and run: "\<not> eloop_terminated (eloop w)" and srv: "auth_server (conf w) = Some j"
    and name: "\<forall>n. identity sta = Some n \<longrightarrow> length n \<le> RADIUS_MAX_ATTR_LEN"
    and size: "38 + length (enc_avps (request_avps w sta eap)) < 2 ^ 16"
  shows "\<exists>w' r' data m. ieee802_1x_encapsulate_radius e k eap w = ret w'
    \<and> sent w' = sent w @ [SendTo (auth_serv_sock r) (srv_addr (auth_servers (conf w) ! j)) (take_bit 16 (srv_port (auth_servers (conf w) ! j))) data]
    \<and> Radius_msg_parse no_oom data = Some m \<and> msg_code m = RADIUS_CODE_ACCESS_REQUEST \<and> msg_identifier m = next_radius_identifier r
    \<and> avps m = request_avps w sta eap @ [(RADIUS_ATTR_MESSAGE_AUTHENTICATOR, hmac_md5 (shared_secret (auth_servers (conf w) ! j))
         (take 20 data @ enc_avps (request_avps w sta eap @ [(RADIUS_ATTR_MESSAGE_AUTHENTICATOR, replicate 16 0)])))]
    \<and> stas w' k = Some (sta\<lparr>radius_identifier := uint (next_radius_identifier r)\<rparr>)
    \<and> radius w' = Some r' \<and> ident (hd (msgs r')) = next_radius_identifier r \<and> datagram s (hd (msgs r')) = Send s data"
proof -
  let ?i = "next_radius_identifier r"
  let ?sta = "sta\<lparr>radius_identifier := uint ?i\<rparr>"
  let ?r = "got_id ?i r"
  let ?w = "put_sta k ?sta (put_radius ?r w)"
  let ?s = "auth_servers (conf w) ! j"
  have frame: "conf ?w = conf w" "own_addr ?w = own_addr w" "eloop ?w = eloop w" "sent ?w = sent w" "radius ?w = Some ?r"
    by (simp_all add: put_sta_def put_radius_def)
  have inv': "client_inv ?w"
    using inv r client_invD(1) [OF inv r] by (simp add: client_inv_def put_sta_def put_radius_def got_id_ok)
  have "bss_ok ?w" "sta_ok ?sta" using bss sta by (simp_all add: bss_ok_def sta_ok_def put_sta_def put_radius_def)
  from access_request_spec [OF mem this, where eap = eap and i = ?i and k = k] name obtain m0 where m0:
    "access_request e k eap ?i ?sta ?w = ret (Some m0)" "wf_msg m0" "avps m0 = request_avps w sta eap"
    "msg_code m0 = RADIUS_CODE_ACCESS_REQUEST" "msg_identifier m0 = ?i"
    by (auto simp: request_avps_same [OF frame(1,2)])
  have size': "38 + length (enc_avps (avps m0)) < 2 ^ 16" and srv': "auth_server (conf ?w) = Some j" "\<not> eloop_terminated (eloop ?w)"
    using size srv run by (simp_all add: m0(3) frame)
  obtain data m m1 where send: "Radius_client_send e m0 (ApIdx sta) ?w = ret (env_send e (sent ?w) (SendTo (auth_serv_sock ?r) (srv_addr ?s) (take_bit 16 (srv_port ?s)) data), True,
        put_radius (added_client (new_entry (env_time e) m1 (shared_secret ?s) (ApIdx sta)) ?r)
          (if msgs ?r = [] then add_timeout e 1 H_Radius_client_timer (Ctx Apd) NULL_CTX
             (log_call (SendTo (auth_serv_sock ?r) (srv_addr ?s) (take_bit 16 (srv_port ?s)) data) ?w)
           else log_call (SendTo (auth_serv_sock ?r) (srv_addr ?s) (take_bit 16 (srv_port ?s)) data) ?w))"
      "Radius_msg_parse no_oom data = Some m" "msg_code m = msg_code m0" "msg_identifier m = msg_identifier m0"
      "avps m = avps m0 @ [(RADIUS_ATTR_MESSAGE_AUTHENTICATOR, hmac_md5 (shared_secret ?s)
         (take 20 data @ enc_avps (avps m0 @ [(RADIUS_ATTR_MESSAGE_AUTHENTICATOR, replicate 16 0)])))]"
      "msg_identifier m1 = msg_identifier m0" "data = take (buf_used m1) (rbuf m1)"
    using client_send_spec [OF inv' frame(5) m0(2) mem srv'(2,1) size', of "ApIdx sta"] unfolding Let_def frame(1) by blast
  define x where "x = new_entry (env_time e) m1 (shared_secret ?s) (ApIdx sta)"
  define w' where "w' = put_radius (added_client x ?r)
      (if msgs ?r = [] then add_timeout e 1 H_Radius_client_timer (Ctx Apd) NULL_CTX (log_call (SendTo (auth_serv_sock ?r) (srv_addr ?s) (take_bit 16 (srv_port ?s)) data) ?w)
       else log_call (SendTo (auth_serv_sock ?r) (srv_addr ?s) (take_bit 16 (srv_port ?s)) data) ?w)"
  have got: "get_sta k (put_radius ?r w) = ret sta" using sta by (simp add: put_radius_def)
  have enc: "ieee802_1x_encapsulate_radius e k eap w = ret w'"
    unfolding ieee802_1x_encapsulate_radius_def get_id_spec [OF inv r] run_bind_ret prod.case Let_def
    using m0(1) got by (simp add: send(1) w'_def x_def)
  have sent: "sent w' = sent w @ [SendTo (auth_serv_sock r) (srv_addr ?s) (take_bit 16 (srv_port ?s)) data]" "stas w' k = Some ?sta"
    by (simp_all add: w'_def put_radius_def add_timeout_def log_call_def put_sta_def got_id_def)
  have queue: "radius w' = Some (added_client x ?r)" "ident (hd (msgs (added_client x ?r))) = ?i"
    "datagram s (hd (msgs (added_client x ?r))) = Send s data"
    using send(6,7) m0(5) by (simp_all add: w'_def added_client_def datagram_def x_def new_entry_def ident_def)
  show ?thesis
    using enc sent send(2-5) m0(3-5) queue by (intro exI [of _ w'] exI [of _ "added_client x ?r"] exI [of _ data] exI [of _ m]) simp
qed

lemma sample_sta_ok: "bss_ok sample_sta_world" "sta_ok sample_sta" "client_inv sample_sta_world"
  by (simp_all add: bss_ok_def sta_ok_def sample_sta_simps sample_conf_def sample_sta_def WEP8021X_KEY_LEN_def MAC_ADDR_LEN_def MAX_MBSSID_NUM_def
      client_inv_def conf_ok_def num_auth_servers_def sample_radius_def client_ok_def)

theorem ieee802_1x_encapsulate_radius_sends_witness:
  "\<exists>w' data m. ieee802_1x_encapsulate_radius sample_env 0 (Some [2, 1, 0, 5, 1]) sample_sta_world = ret w'
    \<and> sent w' = [SendTo 5 2 1812 data] \<and> Radius_msg_parse no_oom data = Some m \<and> msg_code m = RADIUS_CODE_ACCESS_REQUEST
    \<and> hd (avps m) = (RADIUS_ATTR_USER_NAME, [98, 111, 98])"
proof -
  have "length (enc_avps (request_avps sample_sta_world sample_sta (Some [2, 1, 0, 5, 1]))) = 74"
    by (simp add: request_avps_def sample_sta_simps nas_avps_def sample_conf_def state_avps_def eap_fragments_step eap_fragments_def
        chunks.simps enc_avp_length length_addr_format RADIUS_MAX_ATTR_LEN_def)
  then have size: "38 + length (enc_avps (request_avps sample_sta_world sample_sta (Some [2, 1, 0, 5, 1]))) < 2 ^ 16" by simp
  have pre: "env_alloc sample_env = no_oom" "\<not> eloop_terminated (eloop sample_sta_world)" "auth_server (conf sample_sta_world) = Some 0"
    by (simp_all add: sample_env_def sample_sta_simps sample_conf_def eloop_terminated_def eloop_init_def)
  have name: "\<forall>n. identity sample_sta = Some n \<longrightarrow> length n \<le> RADIUS_MAX_ATTR_LEN"
    by (simp add: sample_sta_simps RADIUS_MAX_ATTR_LEN_def)
  have user: "hd (request_avps sample_sta_world sample_sta (Some [2, 1, 0, 5, 1]) @ z) = (RADIUS_ATTR_USER_NAME, [98, 111, 98])" for z
    by (simp add: request_avps_def sample_sta_simps)
  have serv: "auth_serv_sock sample_radius = 5" "srv_addr (auth_servers (conf sample_sta_world) ! 0) = 2"
      "take_bit 16 (srv_port (auth_servers (conf sample_sta_world) ! 0)) = 1812" "sent sample_sta_world = []"
    by (simp_all add: sample_sta_simps sample_conf_def sample_radius_def)
  show ?thesis
    using ieee802_1x_encapsulate_radius_sends [OF sample_sta_ok(3) sample_sta_simps(11,1) sample_sta_ok(2,1) pre name size, of 0]
    unfolding serv by (elim exE conjE, intro exI conjI) (assumption | simp add: user)+
qed

end
