(* ===== verification/StaInfo.thy ===== *)
theory StaInfo
  imports Ieee8021xTx
begin

text \<open>
  The rest of \<open>802.1x/sta_info.c\<close>: a station is looked up or created (\<open>Ap_get_sta\<close>), freed
  (\<open>Ap_free_sta\<close>, \<open>Apd_free_stas\<close>), and its session timer is set, cancelled and handled.

  The lemmas show that these are the operations of the map of \<open>StaTable\<close> (\<open>stations\<close>), and that they
  keep the invariants of the daemon; and that a session timer that is not cancelled when its
  station is freed reads freed memory.
\<close>

definition sizeof_sta_info :: nat where "sizeof_sta_info = 128"

text \<open>The fields \<open>Ap_get_sta\<close> sets; \<open>memset\<close> made the others zero.\<close>

definition new_sta_info :: "byte list \<Rightarrow> u16 \<Rightarrow> byte \<Rightarrow> u16 \<Rightarrow> int \<Rightarrow> sta_info" where
  "new_sta_info sa aid_value apidx etype sock =
     \<lparr>sta_addr = sa, aid = aid_value, eapol_sm = None, radius_identifier = -1, last_recv_radius = None,
      last_eap_supp = None, last_eap_radius = None, identity = None, eapol_key_sign = None, eapol_key_crypt = None,
      ApIdx = apidx, ethertype = etype, SockNum = sock\<rparr>"

text \<open>The query of the association identifier: a packed structure of the address and a 32-bit integer, which the driver fills in.\<close>

definition query_aid :: "env \<Rightarrow> byte list \<Rightarrow> byte \<Rightarrow> rtapd \<Rightarrow> u16 \<times> rtapd" where
  "query_aid e sa apidx w =
     (case RT_ioctl e (sa @ le32 0) apidx OID_802_DOT1X_QUERY_STA_AID w of
        ((res, q), w) \<Rightarrow> (ucast (rd_le32 (drop 6 q)), w))"

definition Ap_get_sta :: "env \<Rightarrow> byte list \<Rightarrow> byte \<Rightarrow> u16 \<Rightarrow> int \<Rightarrow> rtapd \<Rightarrow> (nat option \<times> rtapd) run" where
  "Ap_get_sta e sa apidx etype sock w =
     run_bind (sta_lookup sa w) (\<lambda>s.
     case s of Some k \<Rightarrow> ret (Some k, w)
     | None \<Rightarrow>
         if num_sta w \<ge> MAX_STA_COUNT then ret (None, w)
         else if \<not> env_alloc e sizeof_sta_info then ret (None, w)
         else
           let ap = (if SsidNum (conf w) > 1 then apidx else 0);
               k = next_sta w
           in case query_aid e sa ap w of (a, w) \<Rightarrow>
             run_bind (Ap_sta_hash_add k
                (w\<lparr>stas := (stas w)(k := Some (new_sta_info sa a ap etype sock)), next_sta := Suc k,
                   sta_list := k # sta_list w, num_sta := num_sta w + 1\<rparr>)) (\<lambda>w.
             run_map (Pair (Some k)) (ieee802_1x_new_station e k w)))"

definition Ap_free_sta :: "nat \<Rightarrow> rtapd \<Rightarrow> rtapd run" where
  "Ap_free_sta k w =
     run_bind (Ap_sta_hash_del k w) (\<lambda>w.
     run_bind (Ap_sta_list_del k w) (\<lambda>w.
     run_map (\<lambda>w. w\<lparr>stas := (stas w)(k := None)\<rparr>)
       (ieee802_1x_free_station k (w\<lparr>num_sta := num_sta w - 1\<rparr>))))"

fun free_stas_walk :: "nat list \<Rightarrow> rtapd \<Rightarrow> rtapd run" where
  "free_stas_walk [] w = ret w"
| "free_stas_walk (k # ks) w = run_bind (get_sta k w) (\<lambda>_. run_bind (Ap_free_sta k w) (free_stas_walk ks))"

definition Apd_free_stas :: "rtapd \<Rightarrow> rtapd run" where
  "Apd_free_stas w = free_stas_walk (sta_list w) w"

text \<open>The timeout handler: a deauthentication is asked for with a frame of type 0.\<close>

definition Ap_handle_session_timer :: "env \<Rightarrow> nat \<Rightarrow> rtapd \<Rightarrow> rtapd run" where
  "Ap_handle_session_timer e k w =
     (if \<not> env_alloc e (sizeof_ieee8023_hdr + 2) then ret w
      else run_bind (get_sta k w) (\<lambda>sta.
      run_bind (ap_arr (own_addr w) (ApIdx sta)) (\<lambda>src.
        ret (snd (RT_ioctl e (sta_addr sta @ src @ [0, 0] @ [0, 0]) (ApIdx sta) RT_OID_802_DOT1X_RADIUS_DATA w)))))"

definition Ap_sta_no_session_timeout :: "nat \<Rightarrow> rtapd \<Rightarrow> rtapd" where
  "Ap_sta_no_session_timeout k w = del_timeout H_Ap_handle_session_timer (Ctx Apd) (Ctx (Sta k)) w"

definition Ap_sta_session_timeout :: "env \<Rightarrow> nat \<Rightarrow> u32 \<Rightarrow> rtapd \<Rightarrow> rtapd" where
  "Ap_sta_session_timeout e k session_timeout w =
     add_timeout e session_timeout H_Ap_handle_session_timer (Ctx Apd) (Ctx (Sta k))
       (del_timeout H_Ap_handle_session_timer (Ctx Apd) (Ctx (Sta k)) w)"

section \<open>The operations on the map\<close>

lemma add_code_spec:
  assumes "table_inv w" "query_aid e sa ap w = (a, v)" "s = new_sta_info sa a ap etype sock"
  shows "Ap_sta_hash_add (next_sta w) (v\<lparr>stas := (stas v)(next_sta w := Some s), next_sta := Suc (next_sta w),
       sta_list := next_sta w # sta_list v, num_sta := num_sta v + 1\<rparr>) = ret (table_add s v)"
    "stas v = stas w" "sta_list v = sta_list w" "num_sta v = num_sta w" "sta_hash v = sta_hash w" "next_sta v = next_sta w"
    "conf v = conf w" "radius v = radius w" "own_addr v = own_addr w" "eloop v = eloop w" "\<exists>c. v = log_call c w"
proof -
  obtain c where v: "v = log_call c w"
    using assms(2) by (auto simp: query_aid_def RT_ioctl_def Let_def split: prod.splits)
  then show "stas v = stas w" "sta_list v = sta_list w" "num_sta v = num_sta w" "sta_hash v = sta_hash w" "next_sta v = next_sta w"
    "conf v = conf w" "radius v = radius w" "own_addr v = own_addr w" "eloop v = eloop w" "\<exists>c. v = log_call c w"
    by (auto simp: log_call_def)
  then show "Ap_sta_hash_add (next_sta w) (v\<lparr>stas := (stas v)(next_sta w := Some s), next_sta := Suc (next_sta w),
       sta_list := next_sta w # sta_list v, num_sta := num_sta v + 1\<rparr>) = ret (table_add s v)"
    by (simp add: Ap_sta_hash_add_def table_add_def Let_def)
qed

text \<open>The machines of a station that has none yet: they are allocated and wait for their port.\<close>

lemma new_station_spec:
  assumes "stas w k = Some sta" "eapol_sm sta = None"
  shows "\<exists>sm w'. ieee802_1x_new_station e k w = ret (put_sta k (sta\<lparr>eapol_sm := sm\<rparr>) w')
    \<and> (env_alloc e = no_oom \<longrightarrow> sm \<noteq> None) \<and> (\<forall>s. sm = Some s \<longrightarrow> sm_idle s \<and> portEnabled s)
    \<and> (if sm = None then w' = w else w' = add_timeout e 1 H_eapol_port_timers_tick (Ctx Apd) (tick_ctx k)
         (del_timeout H_eapol_port_timers_tick (Ctx Apd) (tick_ctx k) w))"
proof -
  obtain r where r: "eapol_sm_alloc (env_alloc e) (of_int (quiet_interval (conf w))) (session_timeout_set (conf w) = 1)
        (of_int (session_timeout_interval (conf w))) = ret r" "env_alloc e = no_oom \<longrightarrow> r \<noteq> None"
      "\<forall>s. r = Some s \<longrightarrow> sm_idle s \<and> \<not> portEnabled s"
    using eapol_sm_alloc_spec [of "env_alloc e"] by blast
  show ?thesis
  proof (cases r)
    case None
    then show ?thesis using r assms
      by (intro exI [of _ None] exI [of _ w]) (auto simp: ieee802_1x_new_station_def sta_sm_alloc_def)
  next
    case (Some s)
    then have s: "sm_idle s" using r by blast
    let ?s = "s\<lparr>acts := [], portEnabled := True\<rparr>"
    let ?w = "add_timeout e 1 H_eapol_port_timers_tick (Ctx Apd) (tick_ctx k) (del_timeout H_eapol_port_timers_tick (Ctx Apd) (tick_ctx k) w)"
    have a: "acts s = []" using s by (simp add: sm_idle_def)
    have idle: "sm_idle ?s" using s by (simp add: sm_idle_def)
    have "sta_sm_alloc e k w = ret (Some (s\<lparr>acts := []\<rparr>), ?w)"
      unfolding sta_sm_alloc_def r(1) Some run_bind_ret option.case a by simp
    moreover have "get_sta k ?w = ret sta" using assms(1) by (simp add: add_timeout_def del_timeout_def)
    ultimately have "ieee802_1x_new_station e k w = ret (put_sta k (sta\<lparr>eapol_sm := Some ?s\<rparr>) ?w)"
      unfolding ieee802_1x_new_station_def get_sta_ret [OF assms(1)] run_bind_ret assms(2) by simp
    then show ?thesis
      using idle by (intro exI [of _ "Some ?s"] exI [of _ ?w]) simp
  qed
qed

text \<open>Worlds that differ outside the table, or in the contents of stations other than the address.\<close>

definition table_eq :: "rtapd \<Rightarrow> rtapd \<Rightarrow> bool" where
  "table_eq w v \<longleftrightarrow> sta_list w = sta_list v \<and> sta_hash w = sta_hash v \<and> num_sta w = num_sta v \<and> next_sta w = next_sta v
     \<and> dom (stas w) = dom (stas v) \<and> (\<forall>k \<in> dom (stas v). sta_addr_of w k = sta_addr_of v k)"

text \<open>The map from addresses to stations.\<close>

definition sta_map :: "rtapd \<Rightarrow> byte list \<rightharpoonup> nat" where
  "sta_map w = (\<lambda>sa. sta_at sa w)"

lemma table_eqD:
  assumes "table_eq w v"
  shows "dom (stas w) = dom (stas v)" "k \<in> dom (stas v) \<Longrightarrow> sta_addr_of w k = sta_addr_of v k"
  using assms by (simp_all add: table_eq_def)

lemma table_eq_inv: "table_eq w v \<Longrightarrow> table_inv w \<longleftrightarrow> table_inv v"
  unfolding table_eq_def by (intro table_inv_cong) auto

lemma table_eq_map: "table_eq w v \<Longrightarrow> table_inv v \<Longrightarrow> sta_map w = sta_map v"
proof
  fix sa assume eq: "table_eq w v" and inv: "table_inv v"
  then have "table_inv w" by (simp add: table_eq_inv)
  then have "sta_at sa w = Some k \<longleftrightarrow> sta_at sa v = Some k" for k
    unfolding sta_at_iff [OF \<open>table_inv w\<close>] sta_at_iff [OF inv] using table_eqD [OF eq] by metis
  then show "sta_map w sa = sta_map v sa" unfolding sta_map_def by (metis not_None_eq)
qed

lemma table_eq_room: "table_eq w v \<Longrightarrow> table_room w \<longleftrightarrow> table_room v" "table_eq w v \<Longrightarrow> num_sta w = num_sta v" "table_eq w v \<Longrightarrow> next_sta w = next_sta v"
  by (simp_all add: table_eq_def table_room_def)

lemma table_eq_refl [simp]: "table_eq w w"
  by (simp add: table_eq_def)

lemma table_eq_put:
  assumes "table_eq w v" "stas w k = Some s" "sta_addr s' = sta_addr s"
  shows "table_eq (put_sta k s' w) v"
proof -
  have "sta_addr_of (put_sta k s' w) j = sta_addr_of w j" for j using assms(2,3) by (simp add: sta_addr_of_def)
  moreover have "dom (stas (put_sta k s' w)) = dom (stas w)" using assms(2) by auto
  ultimately show ?thesis using assms(1) by (simp add: table_eq_def put_sta_def)
qed

lemma table_eq_timeout [simp]:
  "table_eq (add_timeout e t h d u w) v \<longleftrightarrow> table_eq w v" "table_eq (del_timeout h d u w) v \<longleftrightarrow> table_eq w v" "table_eq (log_call c w) v \<longleftrightarrow> table_eq w v"
  by (simp_all add: table_eq_def add_timeout_def del_timeout_def log_call_def sta_addr_of_def)

lemma table_eq_add: "table_eq w v \<Longrightarrow> table_inv v \<Longrightarrow> sta_addr s = sta_addr s' \<Longrightarrow> table_eq (table_add s w) (table_add s' v)"
  by (auto simp: table_eq_def sta_addr_of_add table_invD(5) simp del: domIff)

lemma table_eq_del: "table_eq w v \<Longrightarrow> k \<in> dom (stas v) \<Longrightarrow> table_eq (table_del k w) (table_del k v)"
  by (auto simp: table_eq_def sta_addr_of_del simp del: domIff)

lemma get_sta_found: "table_inv w \<Longrightarrow> sta_map w sa = Some k \<Longrightarrow> Ap_get_sta e sa ap etype sock w = ret (Some k, w)"
  by (simp add: Ap_get_sta_def sta_lookup_spec sta_map_def)

lemma get_sta_refused:
  "table_inv w \<Longrightarrow> sta_map w sa = None \<Longrightarrow> \<not> (table_room w \<and> env_alloc e sizeof_sta_info) \<Longrightarrow> Ap_get_sta e sa ap etype sock w = ret (None, w)"
  by (auto simp: Ap_get_sta_def sta_lookup_spec sta_map_def table_room_def)

text \<open>A new station: its object, and its machines.\<close>

lemma get_sta_created:
  assumes inv: "table_inv w" and none: "sta_map w sa = None" and room: "table_room w" "env_alloc e sizeof_sta_info"
  shows "\<exists>a sm w'. Ap_get_sta e sa ap etype sock w = ret (Some (next_sta w), w')
    \<and> stas w' = (stas w)(next_sta w := Some ((new_sta_info sa a (if SsidNum (conf w) > 1 then ap else 0) etype sock)\<lparr>eapol_sm := sm\<rparr>))
    \<and> (env_alloc e = no_oom \<longrightarrow> sm \<noteq> None) \<and> (\<forall>s. sm = Some s \<longrightarrow> sm_inv s)
    \<and> table_eq w' (table_add (new_sta_info sa a (if SsidNum (conf w) > 1 then ap else 0) etype sock) w)
    \<and> conf w' = conf w \<and> radius w' = radius w \<and> own_addr w' = own_addr w \<and> acl_cache w' = acl_cache w \<and> acl_queries w' = acl_queries w"
proof -
  let ?k = "next_sta w" and ?ap = "if SsidNum (conf w) > 1 then ap else 0"
  obtain a v where q: "query_aid e sa ?ap w = (a, v)" by (cases "query_aid e sa ?ap w")
  let ?s = "new_sta_info sa a ?ap etype sock"
  note v = add_code_spec [OF inv q refl [of ?s]]
  then obtain c where c: "v = log_call c w" by blast
  have s: "stas (table_add ?s v) ?k = Some ?s" "eapol_sm ?s = None"
    using v(6) by (simp_all add: new_sta_info_def)
  obtain sm w' where w': "ieee802_1x_new_station e ?k (table_add ?s v) = ret (put_sta ?k (?s\<lparr>eapol_sm := sm\<rparr>) w')"
      "env_alloc e = no_oom \<longrightarrow> sm \<noteq> None" "\<forall>s. sm = Some s \<longrightarrow> sm_inv s"
      "if sm = None then w' = table_add ?s v else w' = add_timeout e 1 H_eapol_port_timers_tick (Ctx Apd) (tick_ctx ?k)
         (del_timeout H_eapol_port_timers_tick (Ctx Apd) (tick_ctx ?k) (table_add ?s v))"
    using new_station_spec [OF s, of e] sm_idle_enabled by blast
  have run: "Ap_get_sta e sa ap etype sock w = ret (Some ?k, put_sta ?k (?s\<lparr>eapol_sm := sm\<rparr>) w')"
    unfolding Ap_get_sta_def sta_lookup_spec [OF inv] run_bind_ret none [unfolded sta_map_def] option.case Let_def q prod.case v(1) w'(1)
    using room by (simp add: table_room_def)
  have eq: "table_eq (put_sta ?k (?s\<lparr>eapol_sm := sm\<rparr>) w') (table_add ?s w)"
  proof (rule table_eq_put)
    have "table_eq (table_add ?s v) (table_add ?s w)" by (rule table_eq_add) (simp_all add: c inv)
    then show "table_eq w' (table_add ?s w)" using w'(4) by (simp split: if_splits)
    show "stas w' ?k = Some ?s" using w'(4) s(1) by (auto simp: add_timeout_def del_timeout_def split: if_splits)
  qed simp
  have "stas w' = (stas w)(?k := Some ?s) \<and> conf w' = conf w \<and> radius w' = radius w \<and> own_addr w' = own_addr w
      \<and> acl_cache w' = acl_cache w \<and> acl_queries w' = acl_queries w"
    using w'(4) c by (auto simp: add_timeout_def del_timeout_def log_call_def table_add_def Let_def split: if_splits)
  then show ?thesis
    using run eq w'(2,3) by (intro exI [of _ a] exI [of _ sm] exI [of _ "put_sta ?k (?s\<lparr>eapol_sm := sm\<rparr>) w'"]) (simp add: put_sta_def)
qed


lemma table_eq_trans: "table_eq u v \<Longrightarrow> table_eq v w \<Longrightarrow> table_eq u w"
  unfolding table_eq_def by simp

lemma free_sta_spec:
  assumes inv: "table_inv w" and sta: "stas w k = Some s"
  shows "Ap_free_sta k w = ret (table_del k (if eapol_sm s = None then w else eapol_sm_free k w))"
proof -
  let ?w = "table_unlink k w"
  have k: "k \<in> dom (stas w)" using sta by auto
  have un: "run_bind (Ap_sta_hash_del k w) (\<lambda>w. run_bind (Ap_sta_list_del k w) (\<lambda>w. f (w\<lparr>num_sta := num_sta w - 1\<rparr>))) = f ?w" for f :: "rtapd \<Rightarrow> 'a run"
    using table_invD(2) [OF inv] sta
    by (simp add: hash_del_spec [OF inv sta] list_del_spec table_unlink_def Let_def) (rule arg_cong [where f = f], simp)
  have st: "stas ?w k = Some s" using sta by (simp add: table_unlink_def Let_def)
  have upd: "((stas v)(k := x))(k := None) = (stas v)(k := None)" for v :: rtapd and x by simp
  show ?thesis
    unfolding Ap_free_sta_def un [of "\<lambda>w. run_map (\<lambda>w. w\<lparr>stas := (stas w)(k := None)\<rparr>) (ieee802_1x_free_station k w)"]
    using st by (simp add: ieee802_1x_free_station_def Let_def put_sta_def table_del_def table_unlink_def eapol_sm_free_def del_timeout_def sta_addr_of_def)
qed

lemma free_sta_table:
  assumes "table_inv w" "stas w k = Some s"
  shows "\<exists>w'. Ap_free_sta k w = ret w' \<and> table_eq w' (table_del k w) \<and> table_inv w'
    \<and> stas w' = (stas w)(k := None) \<and> conf w' = conf w \<and> radius w' = radius w \<and> own_addr w' = own_addr w \<and> sent w' = sent w
    \<and> acl_cache w' = acl_cache w \<and> acl_queries w' = acl_queries w"
proof -
  let ?v = "if eapol_sm s = None then w else eapol_sm_free k w"
  have "table_eq ?v w" by (simp add: eapol_sm_free_def)
  then have eq: "table_eq (table_del k ?v) (table_del k w)" by (rule table_eq_del) (use assms(2) in auto)
  moreover have "table_inv (table_del k w)" using assms by (intro table_del_inv) auto
  ultimately have "table_inv (table_del k ?v)" by (simp add: table_eq_inv)
  then show ?thesis
    using free_sta_spec [OF assms] eq
    by (intro exI [of _ "table_del k ?v"]) (auto simp: eapol_sm_free_def del_timeout_def table_del_def table_unlink_def Let_def)
qed

lemma free_stas_walk_spec:
  "table_inv w \<Longrightarrow> sta_list w = ks \<Longrightarrow> \<exists>w'. free_stas_walk ks w = ret w' \<and> table_inv w' \<and> stas w' = Map.empty \<and> num_sta w' = 0
     \<and> conf w' = conf w \<and> radius w' = radius w \<and> own_addr w' = own_addr w \<and> sent w' = sent w"
proof (induction ks arbitrary: w)
  case Nil
  then have "dom (stas w) = {}" "num_sta w = 0" using table_invD(2,3) [OF Nil(1)] by auto
  then show ?case using Nil by auto
next
  case (Cons k ks)
  then obtain s where s: "stas w k = Some s" using table_invD(2) [OF Cons.prems(1)] by auto
  obtain w1 where w1: "Ap_free_sta k w = ret w1" "table_eq w1 (table_del k w)" "table_inv w1"
      "conf w1 = conf w" "radius w1 = radius w" "own_addr w1 = own_addr w" "sent w1 = sent w"
    using free_sta_table [OF Cons.prems(1) s] by auto
  have "sta_list w1 = ks" using w1(2) Cons.prems(2) by (simp add: table_eq_def)
  from Cons.IH [OF w1(3) this] show ?case using s w1 by (auto simp: get_sta_def)
qed

text \<open>What the daemon does with the table: a frame of a station arrives, or a station is freed.\<close>

fun sta_op :: "env \<Rightarrow> (byte list \<times> byte \<times> u16 \<times> int) + byte list \<Rightarrow> rtapd \<Rightarrow> rtapd run" where
  "sta_op e (Inl (sa, ap, etype, sock)) w = run_map snd (Ap_get_sta e sa ap etype sock w)"
| "sta_op e (Inr sa) w = run_bind (sta_lookup sa w) (\<lambda>s. case s of None \<Rightarrow> ret w | Some k \<Rightarrow> Ap_free_sta k w)"

fun sta_ops :: "env \<Rightarrow> ((byte list \<times> byte \<times> u16 \<times> int) + byte list) list \<Rightarrow> rtapd \<Rightarrow> rtapd run" where
  "sta_ops e [] w = ret w"
| "sta_ops e (c # cs) w = run_bind (sta_op e c w) (sta_ops e cs)"

text \<open>The same on the map.\<close>

fun abs_op :: "(byte list \<times> byte \<times> u16 \<times> int) + byte list \<Rightarrow> sta_info + byte list" where
  "abs_op (Inl (sa, ap, etype, sock)) = Inl (new_sta_info sa 0 ap etype sock)"
| "abs_op (Inr sa) = Inr sa"

definition op_ok :: "(byte list \<times> byte \<times> u16 \<times> int) + byte list \<Rightarrow> bool" where
  "op_ok c \<longleftrightarrow> (case c of Inl (sa, _) \<Rightarrow> length sa = 6 | Inr _ \<Rightarrow> True)"

lemma new_sta_addr [simp]: "sta_addr (new_sta_info sa a ap et so) = sa"
  by (simp add: new_sta_info_def)

lemma sta_op_simulates:
  assumes eq: "table_eq w v" and inv: "table_inv v" and mem: "env_alloc e = no_oom" and ok: "op_ok c"
  shows "\<exists>w'. sta_op e c w = ret w' \<and> table_eq w' (stations.change (abs_op c) v) \<and> table_inv (stations.change (abs_op c) v)"
proof -
  have inv': "table_inv w" using inv eq by (simp add: table_eq_inv)
  have map: "sta_map w = sta_map v" using eq inv by (rule table_eq_map)
  have nxt: "table_inv (stations.change (abs_op c) v)"
    using ok inv by (intro stations.change_inv) (auto simp: op_ok_def split: sum.splits)
  show ?thesis
  proof (cases c)
    case (Inl p)
    obtain sa ap et so where p: "p = (sa, ap, et, so)" by (cases p)
    consider (found) k where "sta_map w sa = Some k" | (full) "sta_map w sa = None" "\<not> table_room w" | (new) "sta_map w sa = None" "table_room w"
      by blast
    then show ?thesis
    proof cases
      case found
      then show ?thesis using eq inv' nxt map
        by (auto simp: Inl p get_sta_found stations.change_def stations.join_def sta_map_def fun_eq_iff)
    next
      case full
      then show ?thesis using eq inv' nxt map table_eq_room(1) [OF eq]
        by (auto simp: Inl p get_sta_refused stations.change_def stations.join_def sta_map_def fun_eq_iff)
    next
      case new
      obtain a k w' where w': "Ap_get_sta e sa ap et so w = ret (Some k, w')"
          "table_eq w' (table_add (new_sta_info sa a (if SsidNum (conf w) > 1 then ap else 0) et so) w)"
        using get_sta_created [OF inv' new, of e ap et so] mem by (auto simp: no_oom_def)
      have "table_eq (table_add (new_sta_info sa a (if SsidNum (conf w) > 1 then ap else 0) et so) w) (table_add (new_sta_info sa 0 ap et so) v)"
        by (rule table_eq_add [OF eq inv]) simp
      then have "table_eq w' (table_add (new_sta_info sa 0 ap et so) v)"
        using w'(2) table_eq_trans by blast
      moreover have "stations.change (abs_op c) v = table_add (new_sta_info sa 0 ap et so) v"
        using new map table_eq_room(1) [OF eq] by (simp add: Inl p stations.change_def stations.join_def sta_map_def fun_eq_iff)
      ultimately show ?thesis using w'(1) nxt by (simp add: Inl p)
    qed
  next
    case (Inr sa)
    show ?thesis
    proof (cases "sta_map w sa")
      case None
      then show ?thesis using eq nxt map inv' by (auto simp: Inr sta_lookup_spec stations.change_def stations.leave_def sta_map_def fun_eq_iff)
    next
      case (Some k)
      then have k: "k \<in> dom (stas w)" using sta_at_iff [OF inv'] by (simp add: sta_map_def)
      then obtain s where "stas w k = Some s" by auto
      from free_sta_table [OF inv' this] obtain w' where w': "Ap_free_sta k w = ret w'" "table_eq w' (table_del k w)" by blast
      have "table_eq (table_del k w) (table_del k v)" using eq k by (intro table_eq_del) (auto simp: table_eq_def)
      then have "table_eq w' (table_del k v)" using w'(2) table_eq_trans by blast
      then show ?thesis using Some w'(1) nxt map inv'
        by (auto simp: Inr sta_lookup_spec stations.change_def stations.leave_def sta_map_def fun_eq_iff)
    qed
  qed
qed

lemma sta_ops_simulates:
  "table_eq w v \<Longrightarrow> table_inv v \<Longrightarrow> env_alloc e = no_oom \<Longrightarrow> \<forall>c \<in> set cs. op_ok c \<Longrightarrow>
   \<exists>w'. sta_ops e cs w = ret w' \<and> table_eq w' (fold stations.change (map abs_op cs) v) \<and> table_inv (fold stations.change (map abs_op cs) v)"
proof (induction cs arbitrary: w v)
  case (Cons c cs)
  from sta_op_simulates [OF Cons.prems(1-3), of c] Cons.prems(4) obtain w1 where
    w1: "sta_op e c w = ret w1" "table_eq w1 (stations.change (abs_op c) v)" "table_inv (stations.change (abs_op c) v)" by auto
  from Cons.IH [OF w1(2,3) Cons.prems(3)] Cons.prems(4) show ?case by (simp add: w1(1))
qed simp


section \<open>What the table promises\<close>

lemma sample_table_inv: "table_inv sample_sta_world"
proof -
  have "sta_hash_of [2, 0, 0, 0, 0, 1] = 1" by (simp add: sta_hash_of_def)
  moreover have "sta_addr_of sample_sta_world 0 = [2, 0, 0, 0, 0, 1]" by (simp add: sample_sta_simps)
  moreover have "dom (stas sample_sta_world) = {0}" by (simp add: sample_sta_world_def)
  ultimately show ?thesis
    by (auto simp: table_inv_def sample_sta_world_def sample_world_def STA_HASH_SIZE_def MAX_STA_COUNT_def nth_list_update)
qed

lemma sample_sta_map: "sta_map sample_sta_world [2, 0, 0, 0, 0, 1] = Some 0"
  using sta_at_iff [OF sample_table_inv, of "[2, 0, 0, 0, 0, 1]" 0]
  by (simp add: sta_map_def sample_sta_simps domIff)

text \<open>\<open>Ap_get_sta\<close> is a lookup with insertion. It always returns. A known address gives its station, and nothing
  changes. An unknown one is refused, without any change, when 1024 stations are known or memory is out; else it gets the next
  object, which is the only change of the map, and which starts with no identifier outstanding, no
  data, the kind of frame and the socket it was heard on, the BSS zero unless there are several, and
  machines that wait for the first event.\<close>

lemma Ap_get_sta_exact:
  assumes inv: "table_inv w" and len: "length sa = 6"
  shows "\<exists>r w'. Ap_get_sta e sa ap etype sock w = ret (r, w') \<and> table_inv w' \<and> sta_map w' sa = r
    \<and> (if sta_map w sa \<noteq> None \<or> num_sta w \<ge> MAX_STA_COUNT \<or> \<not> env_alloc e sizeof_sta_info then w' = w
       else r = Some (next_sta w) \<and> sta_map w' = (sta_map w)(sa \<mapsto> next_sta w) \<and> num_sta w' = num_sta w + 1
         \<and> (\<forall>k. k \<noteq> next_sta w \<longrightarrow> stas w' k = stas w k)
         \<and> (\<exists>a sm. stas w' (next_sta w) = Some \<lparr>sta_addr = sa, aid = a, eapol_sm = sm, radius_identifier = -1, last_recv_radius = None,
               last_eap_supp = None, last_eap_radius = None, identity = None, eapol_key_sign = None, eapol_key_crypt = None,
               ApIdx = (if SsidNum (conf w) > 1 then ap else 0), ethertype = etype, SockNum = sock\<rparr>
             \<and> (\<forall>s. sm = Some s \<longrightarrow> sm_inv s) \<and> (env_alloc e = no_oom \<longrightarrow> sm \<noteq> None)))"
proof (cases "sta_map w sa")
  case (Some k)
  then show ?thesis using inv by (simp add: get_sta_found)
next
  case None
  show ?thesis
  proof (cases "table_room w \<and> env_alloc e sizeof_sta_info")
    case False
    then show ?thesis using inv None by (auto simp: get_sta_refused table_room_def)
  next
    case True
    let ?s = "\<lambda>a. new_sta_info sa a (if SsidNum (conf w) > 1 then ap else 0) etype sock"
    obtain a sm w' where w': "Ap_get_sta e sa ap etype sock w = ret (Some (next_sta w), w')"
        "stas w' = (stas w)(next_sta w := Some ((?s a)\<lparr>eapol_sm := sm\<rparr>))"
        "env_alloc e = no_oom \<longrightarrow> sm \<noteq> None" "\<forall>s. sm = Some s \<longrightarrow> sm_inv s" "table_eq w' (table_add (?s a) w)"
      using get_sta_created [OF inv None, of e ap etype sock] True by blast
    have ok: "length (sta_addr (?s a)) = 6" "sta_at (sta_addr (?s a)) w = None" "table_room w"
      using len None True by (simp_all add: sta_map_def)
    have inv2: "table_inv (table_add (?s a) w)" using inv ok by (rule table_add_inv)
    have inv': "table_inv w'" using w'(5) inv2 by (simp add: table_eq_inv)
    have map: "sta_map w' = (sta_map w)(sa \<mapsto> next_sta w)"
      unfolding table_eq_map [OF w'(5) inv2] using table_add_at [OF inv ok] by (auto simp: sta_map_def)
    show ?thesis
      using w' inv' map None True table_eq_room(2) [OF w'(5)]
      by (intro exI [of _ "Some (next_sta w)"] exI [of _ w']) (auto simp: table_room_def new_sta_info_def)
  qed
qed

lemma Ap_get_sta_exact_witness:
  "\<exists>w'. Ap_get_sta sample_env [2, 0, 0, 0, 0, 1] 0 ETH_P_PAE 4 sample_sta_world = ret (Some 0, sample_sta_world)
    \<and> Ap_get_sta sample_env [2, 0, 0, 0, 0, 2] 0 ETH_P_PAE 4 sample_sta_world = ret (sta_map w' [2, 0, 0, 0, 0, 2], w')"
  using Ap_get_sta_exact [OF sample_table_inv, of "[2, 0, 0, 0, 0, 1]" sample_env 0 ETH_P_PAE 4]
    Ap_get_sta_exact [OF sample_table_inv, of "[2, 0, 0, 0, 0, 2]" sample_env 0 ETH_P_PAE 4]
  by (auto simp: sample_sta_map)

text \<open>C39. The table of stations is a finite map. Any sequence of frames from stations and removals of stations, run by the
  code on the list, the hash chains and the counter, returns, and leaves the same map
  as the same sequence of insertions and deletions on the map itself; the table stays well formed.\<close>

theorem station_ops_refine:
  assumes "table_inv w" "env_alloc e = no_oom" "\<forall>c \<in> set cs. op_ok c"
  shows "\<exists>w'. sta_ops e cs w = ret w' \<and> table_inv w'
    \<and> sta_map w' = sta_map (fold stations.change (map abs_op cs) w) \<and> num_sta w' = num_sta (fold stations.change (map abs_op cs) w)"
  using sta_ops_simulates [OF table_eq_refl assms] table_eq_map table_eq_inv table_eq_room(2) by blast

theorem station_ops_refine_witness:
  "\<exists>w'. sta_ops sample_env [Inl ([2, 0, 0, 0, 0, 2], 0, ETH_P_PAE, 4), Inr [2, 0, 0, 0, 0, 1]] sample_sta_world = ret w' \<and> table_inv w'
    \<and> sta_map w' [2, 0, 0, 0, 0, 1] = None"
proof -
  let ?cs = "[Inl ([2, 0, 0, 0, 0, 2], 0, ETH_P_PAE, 4), Inr [2, 0, 0, 0, 0, 1]]"
  have pre: "env_alloc sample_env = no_oom" "\<forall>c \<in> set ?cs. op_ok c" by (simp_all add: sample_env_def op_ok_def)
  have "table_inv (stations.change (abs_op (hd ?cs)) sample_sta_world)"
    by (rule stations.change_inv [OF sample_table_inv]) simp
  then have "sta_map (fold stations.change (map abs_op ?cs) sample_sta_world) [2, 0, 0, 0, 0, 1] = None"
    by (simp add: sta_map_def stations.change_at)
  then show ?thesis using station_ops_refine [OF sample_table_inv pre] by auto
qed

lemma abs_op_cases:
  "abs_op c = Inl s \<Longrightarrow> \<exists>p. c = Inl (sta_addr s, p)" "abs_op c = Inr sa \<longleftrightarrow> c = Inr sa"
  by (cases c rule: abs_op.cases; auto)+

lemma abs_ops:
  "Inl s \<in> set (map abs_op cs) \<Longrightarrow> \<exists>p. Inl (sta_addr s, p) \<in> set cs" "Inr sa \<in> set (map abs_op cs) \<longleftrightarrow> Inr sa \<in> set cs"
proof -
  show "Inl s \<in> set (map abs_op cs) \<Longrightarrow> \<exists>p. Inl (sta_addr s, p) \<in> set cs"
    using abs_op_cases(1) [of _ s] by (fastforce simp: image_iff)
  have "abs_op c = Inr sa \<longleftrightarrow> c = Inr sa" for c by (rule abs_op_cases(2))
  then show "Inr sa \<in> set (map abs_op cs) \<longleftrightarrow> Inr sa \<in> set cs"
    by (induction cs) (simp, simp only: list.map list.set insert_iff eq_commute [of "Inr sa"])
qed

text \<open>A station keeps its object, with its machines, as long as it is not freed itself: whatever frames of whatever stations
  arrive and whichever other stations are freed, its address still leads to it; and once freed it is not
  found until a frame of it arrives.\<close>

lemma station_keeps_object:
  assumes "table_inv w" "env_alloc e = no_oom" "\<forall>c \<in> set cs. op_ok c" "sta_map w sa = Some k"
  shows "(Inr sa \<notin> set cs \<longrightarrow> (\<exists>w'. sta_ops e cs w = ret w' \<and> sta_map w' sa = Some k))
    \<and> ((\<forall>p. Inl (sa, p) \<notin> set cs) \<longrightarrow> (\<exists>w'. sta_ops e (Inr sa # cs) w = ret w' \<and> sta_map w' sa = None))"
proof -
  have valid: "\<forall>s. Inl s \<in> set (map abs_op cs) \<longrightarrow> length (sta_addr s) = 6"
  proof (intro allI impI)
    fix s assume "Inl s \<in> set (map abs_op cs)"
    then obtain p where "Inl (sta_addr s, p) \<in> set cs" using abs_ops(1) by blast
    then show "length (sta_addr s) = 6" using assms(3) by (cases p) (force simp: op_ok_def)
  qed
  obtain w1 where w1: "sta_ops e cs w = ret w1" "sta_map w1 = sta_map (fold stations.change (map abs_op cs) w)"
    using sta_ops_simulates [OF table_eq_refl assms(1-3)] table_eq_map by blast
  have "\<forall>c \<in> set (Inr sa # cs). op_ok c" using assms(3) by (simp add: op_ok_def)
  then obtain w2 where w2: "sta_ops e (Inr sa # cs) w = ret w2"
      "sta_map w2 = sta_map (fold stations.change (map abs_op (Inr sa # cs)) w)"
    using sta_ops_simulates [OF table_eq_refl assms(1,2)] table_eq_map by blast
  have away: "sta_at sa (fold stations.change (map abs_op cs) (stations.leave sa w)) = None" if "\<forall>p. Inl (sa, p) \<notin> set cs"
  proof (rule stations.stays_away [OF assms(1)], intro allI impI conjI)
    fix s assume s: "Inl s \<in> set (map abs_op cs)"
    then show "length (sta_addr s) = 6" using valid by blast
    show "sta_addr s \<noteq> sa" using abs_ops(1) [OF s] that by auto
  qed
  have kept: "sta_map w1 sa = Some k" if "Inr sa \<notin> set cs"
    using stations.keeps_object [OF assms(1) valid, of sa k] assms(4) that
    unfolding w1(2) abs_ops(2) by (simp add: sta_map_def)
  have "sta_map w2 sa = None" if "\<forall>p. Inl (sa, p) \<notin> set cs"
    using away [OF that] unfolding w2(2) by (simp add: sta_map_def stations.change_def)
  then show ?thesis using kept w1(1) w2(1) by blast
qed

lemma station_keeps_object_witness:
  "\<exists>w'. sta_ops sample_env [Inl ([2, 0, 0, 0, 0, 2], 0, ETH_P_PAE, 4)] sample_sta_world = ret w' \<and> sta_map w' [2, 0, 0, 0, 0, 1] = Some 0"
  using station_keeps_object [OF sample_table_inv _ _ sample_sta_map, of sample_env "[Inl ([2, 0, 0, 0, 0, 2], 0, ETH_P_PAE, 4)]"]
  by (simp add: sample_env_def op_ok_def del: sta_ops.simps)


text \<open>\<open>Apd_free_stas\<close> frees every station: it returns, the table is empty and well formed, and
  every address is unknown. The client, the configuration and the log are as before.\<close>

lemma Apd_free_stas_empties:
  assumes "table_inv w"
  shows "\<exists>w'. Apd_free_stas w = ret w' \<and> table_inv w' \<and> stas w' = Map.empty \<and> num_sta w' = 0 \<and> sta_list w' = []
    \<and> sta_map w' = Map.empty \<and> (\<forall>h < STA_HASH_SIZE. sta_hash w' ! h = [])
    \<and> conf w' = conf w \<and> radius w' = radius w \<and> sent w' = sent w"
proof -
  obtain w' where w': "free_stas_walk (sta_list w) w = ret w'" "table_inv w'" "stas w' = Map.empty" "num_sta w' = 0"
      "conf w' = conf w" "radius w' = radius w" "sent w' = sent w"
    using free_stas_walk_spec [OF assms refl] by blast
  have "sta_list w' = []" using table_invD(2) [OF w'(2)] w'(3) by simp
  moreover have "sta_map w' = Map.empty" using sta_at_None [OF w'(2)] w'(3) by (auto simp: sta_map_def)
  moreover have "\<forall>h < STA_HASH_SIZE. sta_hash w' ! h = []" using table_invD(10) [OF w'(2)] w'(3) by simp
  ultimately show ?thesis using w' by (auto simp: Apd_free_stas_def)
qed

lemma Apd_free_stas_empties_witness:
  "\<exists>w'. Apd_free_stas sample_sta_world = ret w' \<and> num_sta w' = 0 \<and> sta_map w' [2, 0, 0, 0, 0, 1] = None"
  using Apd_free_stas_empties [OF sample_table_inv] by auto

text \<open>The timers registered for a station.\<close>

definition timer_for :: "handler \<Rightarrow> obj \<Rightarrow> rtapd \<Rightarrow> bool" where
  "timer_for h x w \<longleftrightarrow> (\<exists>t \<in> set (timeouts (eloop w)). timeout_matches h (Ctx Apd) (Ctx x) t)"

lemma timer_for_add [simp]:
  "timer_for h x (add_timeout e s h' d u w) \<longleftrightarrow>
     timer_for h x w \<or> (env_alloc e sizeof_eloop_timeout \<and> h' = h \<and> d = Ctx Apd \<and> u = Ctx x)"
  by (auto simp: timer_for_def add_timeout_def eloop_register_timeout_def Let_def timeout_matches_def)

lemma timer_for_del [simp]:
  "timer_for h x (del_timeout h' (Ctx Apd) (Ctx y) w) \<longleftrightarrow> timer_for h x w \<and> \<not> (h = h' \<and> x = y)"
  by (auto simp: timer_for_def del_timeout_def eloop_cancel_timeout_def cancel_walk_spec timeout_matches_def)

lemma stas_timeout [simp]: "stas (add_timeout e s h d u w) = stas w" "stas (del_timeout h d u w) = stas w"
  by (simp_all add: add_timeout_def del_timeout_def)

lemma timer_for_table_del [simp]: "timer_for h x (table_del k w) \<longleftrightarrow> timer_for h x w"
  by (simp add: timer_for_def)

text \<open>The timers of a station that is freed. The tick of its machines is cancelled with them. Its session timer is not: when a
  session was limited in time, the timer is still registered after the station is gone, and the
  handler then reads the freed station.\<close>

lemma session_timer_outlives_station:
  assumes inv: "table_inv w" and sta: "stas w k = Some s" and mem: "env_alloc e = no_oom"
    and clean: "eapol_sm s = None \<longrightarrow> \<not> timer_for H_eapol_port_timers_tick (Sm k) w"
  shows "\<exists>w'. Ap_free_sta k (Ap_sta_session_timeout e k t w) = ret w' \<and> stas w' k = None
    \<and> \<not> timer_for H_eapol_port_timers_tick (Sm k) w'
    \<and> timer_for H_Ap_handle_session_timer (Sta k) w'
    \<and> Ap_handle_session_timer e k w' = fail UseAfterFree
    \<and> \<not> timer_for H_Ap_handle_session_timer (Sta k) (Ap_sta_no_session_timeout k (Ap_sta_session_timeout e k t w))"
proof -
  let ?w = "Ap_sta_session_timeout e k t w"
  have timed: "table_inv ?w" "stas ?w k = Some s" "timer_for H_Ap_handle_session_timer (Sta k) ?w"
    "timer_for H_eapol_port_timers_tick (Sm k) ?w \<longleftrightarrow> timer_for H_eapol_port_timers_tick (Sm k) w"
    using inv sta mem by (simp_all add: Ap_sta_session_timeout_def no_oom_def)
  note free = free_sta_spec [OF timed(1,2)]
  have gone: "Ap_handle_session_timer e k w' = fail UseAfterFree" if "stas w' k = None" for w'
    using that mem by (simp add: Ap_handle_session_timer_def get_sta_def no_oom_def)
  show ?thesis
    unfolding free using timed(3,4) clean gone
    by - (intro exI conjI, rule refl, auto simp: eapol_sm_free_def tick_ctx_def Ap_sta_no_session_timeout_def)
qed

lemma session_timer_outlives_station_witness:
  "\<exists>w'. Ap_free_sta 0 (Ap_sta_session_timeout sample_env 0 600 sample_sta_world) = ret w'
    \<and> timer_for H_Ap_handle_session_timer (Sta 0) w' \<and> Ap_handle_session_timer sample_env 0 w' = fail UseAfterFree"
  using session_timer_outlives_station [OF sample_table_inv sample_sta_simps(1), of sample_env 600]
  by (auto simp: sample_env_def timer_for_def sample_sta_simps eloop_init_def)

section \<open>The invariants of the daemon\<close>

lemma get_sta_daemon:
  assumes "daemon_inv w" "length sa = 6"
  shows "returns (Ap_get_sta e sa ap etype sock w) (\<lambda>(r, w'). daemon_inv w' \<and> sta_map w' sa = r)"
proof (cases "sta_map w sa = None \<and> table_room w \<and> env_alloc e sizeof_sta_info")
  case False
  have inv: "table_inv w" using assms by (simp add: daemon_inv_def)
  then show ?thesis
    using False assms by (cases "sta_map w sa") (auto simp: get_sta_found get_sta_refused)
next
  case True
  have inv: "table_inv w" using assms by (simp add: daemon_inv_def)
  let ?s = "\<lambda>a. new_sta_info sa a (if SsidNum (conf w) > 1 then ap else 0) etype sock"
  obtain a w' where w': "Ap_get_sta e sa ap etype sock w = ret (Some (next_sta w), w')"
      "table_eq w' (table_add (?s a) w)" "conf w' = conf w" "radius w' = radius w"
    using get_sta_created [OF inv, of sa e ap etype sock] True by metis
  have ok: "length (sta_addr (?s a)) = 6" "sta_at (sta_addr (?s a)) w = None" "table_room w"
    using True assms by (simp_all add: sta_map_def)
  note added = table_add_inv [OF inv ok]
  have "table_inv w'" "sta_map w' sa = Some (next_sta w)"
    using table_eq_inv [OF w'(2)] table_eq_map [OF w'(2) added] table_add_at [OF inv ok, of sa] added by (simp_all add: sta_map_def)
  then show ?thesis using assms w' by (simp add: daemon_inv_def client_inv_def)
qed

lemma free_sta_daemon:
  "daemon_inv w \<Longrightarrow> stas w k = Some s \<Longrightarrow> returns (Ap_free_sta k w) daemon_inv"
  using free_sta_table [of w k s] by (auto simp: daemon_inv_def client_inv_def)

lemma free_sta_daemon_any: "daemon_inv w \<Longrightarrow> yields (Ap_free_sta k w) daemon_inv"
  using free_sta_daemon [of w k]
  by (cases "stas w k") (auto simp: Ap_free_sta_def Ap_sta_hash_del_def get_sta_def intro: returns_yields)

lemma session_timer_daemon: "daemon_inv w \<Longrightarrow> yields (Ap_handle_session_timer e k w) daemon_inv"
  unfolding Ap_handle_session_timer_def
  by (auto intro!: yields_run_any simp: RT_ioctl_def Let_def split: prod.split)

end
