(* ===== verification/Ieee8021x.thy ===== *)
theory Ieee8021x
  imports StaInfo
begin

text \<open>
  The receiving half of \<open>802.1x/ieee802_1x.c\<close>: the EAPOL frames of the supplicants
  (\<open>ieee802_1x_receive\<close>, \<open>handle_eap\<close>, \<open>handle_eap_response\<close>) and the answers of the RADIUS server
  (\<open>ieee802_1x_receive_auth\<close> with \<open>ieee802_1x_decapsulate_radius\<close> and \<open>ieee802_1x_get_keys\<close>).

  A received frame lies in an array of the caller: \<open>buf\<close> is what the array holds from the pointer on, and the
  length is a separate argument, so that a read behind the frame but inside the array
  gives the stale bytes there, and a read behind the array is a fault.

  The lemmas relate the handlers to the events of the state machines (\<open>eapol_event\<close>), and keep the
  invariants of the daemon.
\<close>

definition DEFAULT_IDLE_INTERVAL :: u32 where "DEFAULT_IDLE_INTERVAL = 60"
definition LENGTH_802_1_H :: nat where "LENGTH_802_1_H = 8"
definition LENGTH_EAP_HDR :: nat where "LENGTH_EAP_HDR = 4"

text \<open>\<open>RTMPCompareMemory\<close>: bytes are compared as \<open>char\<close>, which is signed here.\<close>

fun RTMPCompareMemory :: "byte list \<Rightarrow> byte list \<Rightarrow> nat" where
  "RTMPCompareMemory (x # xs) (y # ys) =
     (if sint x > sint y then 1 else if sint x < sint y then 2 else RTMPCompareMemory xs ys)"
| "RTMPCompareMemory _ _ = 0"

text \<open>Assigning fields of the machines of a station.\<close>

definition with_sm :: "(eapol_state_machine \<Rightarrow> eapol_state_machine) \<Rightarrow> nat \<Rightarrow> rtapd \<Rightarrow> rtapd run" where
  "with_sm f k w =
     run_bind (get_sta k w) (\<lambda>sta.
       case eapol_sm sta of None \<Rightarrow> fail NullDeref
       | Some sm \<Rightarrow> ret (put_sta k (sta\<lparr>eapol_sm := Some (f sm)\<rparr>) w))"

section \<open>Frames of the supplicant\<close>

text \<open>\<open>buf\<close> starts at the EAP header, \<open>len\<close> counts the octets after it. The \<open>assert\<close> is a fault. The printable
  form of the identity is built and thrown away in the code.\<close>

definition handle_eap_response :: "env \<Rightarrow> nat \<Rightarrow> byte list \<Rightarrow> nat \<Rightarrow> rtapd \<Rightarrow> rtapd run" where
  "handle_eap_response e k buf len w =
     run_bind (get_sta k w) (\<lambda>sta.
     case eapol_sm sta of None \<Rightarrow> fail NullDeref
     | Some sm \<Rightarrow>
     run_bind (mem_read 0 LENGTH_EAP_HDR buf) (\<lambda>eap.
       if eap ! 1 \<noteq> currentId sm then ret w
       else if len < 1 then ret w
       else if \<not> env_alloc e (LENGTH_EAP_HDR + len) then ret (put_sta k (sta\<lparr>last_eap_supp := None\<rparr>) w)
       else run_bind (mem_read LENGTH_EAP_HDR len buf) (\<lambda>data.
         let sta = sta\<lparr>last_eap_supp := Some (eap @ data)\<rparr>; type = hd data; data = tl data
         in ret (put_sta k
              (if type = EAP_TYPE_IDENTITY
               then sta\<lparr>eapol_sm := Some (sm\<lparr>auth_pae := (auth_pae sm)\<lparr>rxInitialRsp := True\<rparr>\<rparr>),
                      identity := (if env_alloc e (length data) then Some data else None)\<rparr>
               else sta\<lparr>eapol_sm := Some (sm\<lparr>be_auth := (be_auth sm)\<lparr>rxResp := True,
                      backendNonNakResponsesFromSupplicant :=
                        count_if (type \<noteq> EAP_TYPE_NAK) (backendNonNakResponsesFromSupplicant (be_auth sm))\<rparr>\<rparr>)\<rparr>) w))))"

definition handle_eap :: "env \<Rightarrow> nat \<Rightarrow> byte list \<Rightarrow> nat \<Rightarrow> rtapd \<Rightarrow> rtapd run" where
  "handle_eap e k buf len w =
     (if len < LENGTH_EAP_HDR then ret w
      else run_bind (mem_read 0 LENGTH_EAP_HDR buf) (\<lambda>eap.
        let eap_len = unat (rd_be16 (drop 2 eap))
        in if eap_len < LENGTH_EAP_HDR then ret w
           else if eap_len > len then ret w
           else if eap ! 0 = EAP_CODE_RESPONSE then handle_eap_response e k buf (eap_len - LENGTH_8021X_HDR) w
           else ret w))"

text \<open>\<open>len - sizeof( *hdr)\<close> is computed in \<open>size_t\<close>, and the eight octets of a SNAP header are skipped without
  being taken off \<open>len\<close>.\<close>

definition SNAP_802_1H :: "byte list" where "SNAP_802_1H = [0xaa, 0xaa, 0x03, 0x00, 0x00, 0x00]"

definition payload_len :: "nat \<Rightarrow> int" where
  "payload_len len = (int len - int LENGTH_8021X_HDR) mod 2 ^ 32"

definition ensure_sm :: "env \<Rightarrow> nat \<Rightarrow> rtapd \<Rightarrow> (bool \<times> rtapd) run" where
  "ensure_sm e k w =
     run_bind (get_sta k w) (\<lambda>sta.
     if eapol_sm sta \<noteq> None then ret (True, w)
     else run_bind (sta_sm_alloc e k w) (\<lambda>(r, w).
       run_bind (get_sta k w) (\<lambda>sta. ret (r \<noteq> None, put_sta k (sta\<lparr>eapol_sm := r\<rparr>) w))))"

text \<open>The switch over the type of the frame; \<open>buf\<close> is what follows its header.\<close>

definition receive_switch :: "env \<Rightarrow> nat \<Rightarrow> byte \<Rightarrow> byte list \<Rightarrow> nat \<Rightarrow> rtapd \<Rightarrow> rtapd run" where
  "receive_switch e k type buf datalen w =
     (if type = IEEE802_1X_TYPE_EAP_PACKET then handle_eap e k buf datalen w
      else if type = IEEE802_1X_TYPE_EAPOL_START
      then run_bind (with_sm (\<lambda>sm. sm\<lparr>auth_pae := (auth_pae sm)\<lparr>eapStart := True\<rparr>\<rparr>) k w) (sta_sm_step e k)
      else if type = IEEE802_1X_TYPE_EAPOL_LOGOFF
      then run_bind (with_sm (\<lambda>sm. sm\<lparr>auth_pae := (auth_pae sm)\<lparr>eapLogoff := True\<rparr>\<rparr>) k w) (sta_sm_step e k)
      else ret w)"

definition ieee802_1x_receive :: "env \<Rightarrow> byte list \<Rightarrow> byte \<Rightarrow> byte list \<Rightarrow> nat \<Rightarrow> u16 \<Rightarrow> int \<Rightarrow> rtapd \<Rightarrow> rtapd run" where
  "ieee802_1x_receive e sa apidx buf len etype sock w =
     run_bind (Ap_get_sta e sa apidx etype sock w) (\<lambda>(s, w).
     case s of None \<Rightarrow> ret w
     | Some k \<Rightarrow>
     run_bind (mem_read 0 6 buf) (\<lambda>snap.
     let buf = (if RTMPCompareMemory snap SNAP_802_1H = 0 then drop LENGTH_802_1_H buf else buf) in
     run_bind (mem_read 0 LENGTH_8021X_HDR buf) (\<lambda>hdr.
     let datalen = unat (rd_be16 (drop 2 hdr)) in
     if payload_len len < int datalen then ret w
     else run_bind (ensure_sm e k w) (\<lambda>(ok, w).
       if \<not> ok then ret w
       else if etype \<noteq> ETH_P_PAE \<and> etype \<noteq> ETH_P_PRE_AUTH then ret w
       else if hdr ! 0 \<noteq> EAPOL_VERSION \<and> hdr ! 0 \<noteq> EAPOL_VERSION_2 then ret w
       else run_bind (receive_switch e k (hdr ! 1) (drop LENGTH_8021X_HDR buf) datalen w) (sta_sm_step e k)))))"

section \<open>Answers of the server\<close>

definition ieee802_1x_decapsulate_radius :: "env \<Rightarrow> nat \<Rightarrow> rtapd \<Rightarrow> rtapd run" where
  "ieee802_1x_decapsulate_radius e k w =
     run_bind (get_sta k w) (\<lambda>sta.
     case last_recv_radius sta of None \<Rightarrow> ret w
     | Some msg \<Rightarrow>
         (case Radius_msg_get_eap (env_alloc e) msg of
            None \<Rightarrow> ret (put_sta k (sta\<lparr>last_eap_radius := None\<rparr>) w)
          | Some eap \<Rightarrow>
              if length eap < LENGTH_EAP_HDR then ret w
              else (case eapol_sm sta of None \<Rightarrow> fail NullDeref
                | Some sm \<Rightarrow> ret (put_sta k (sta\<lparr>eapol_sm := Some (sm\<lparr>be_auth := (be_auth sm)\<lparr>idFromServer := eap ! 1\<rparr>\<rparr>),
                    last_eap_radius := Some eap\<rparr>) w))))"

text \<open>The key given to the driver: the whole receive key only when it has 32 octets, else one octet of it; with
  the send key after it for a station that does not pre-authenticate, when both have 32 octets.\<close>

definition driver_key :: "sta_info \<Rightarrow> byte list \<Rightarrow> byte list option \<Rightarrow> byte list" where
  "driver_key sta recv send =
     (let material = take (if length recv = 32 then 32 else 1) recv in
      case send of
        Some s \<Rightarrow> if ethertype sta \<noteq> ETH_P_PRE_AUTH \<and> length recv = 32 \<and> length s = 32
                  then ndis_key (sta_addr sta) 0 (of_nat (length recv + length s)) (material @ s)
                  else ndis_key (sta_addr sta) 0 (of_nat (length recv)) material
      | None \<Rightarrow> ndis_key (sta_addr sta) 0 (of_nat (length recv)) material)"

definition ieee802_1x_get_keys :: "env \<Rightarrow> nat \<Rightarrow> radius_msg \<Rightarrow> radius_msg option \<Rightarrow> byte list \<Rightarrow> rtapd \<Rightarrow> rtapd run" where
  "ieee802_1x_get_keys e k msg req secret w =
     run_bind (Radius_msg_get_ms_keys (env_alloc e) msg req secret) (\<lambda>keys.
     case keys of None \<Rightarrow> ret w
     | Some ks \<Rightarrow>
       (case mppe_recv ks of None \<Rightarrow> ret w
        | Some recv \<Rightarrow>
          if recv = [] then ret w
          else run_bind (get_sta k w) (\<lambda>sta.
            case give_key e sta (driver_key sta recv (mppe_send ks)) w of (ok, w) \<Rightarrow>
            if \<not> ok then ret w
            else (case mppe_send ks of None \<Rightarrow> ret w
              | Some send \<Rightarrow> run_bind (get_sta k w) (\<lambda>sta.
                  with_sm (\<lambda>sm. sm\<lparr>keyAvailable := True\<rparr>) k
                    (put_sta k (sta\<lparr>eapol_key_sign := Some send, eapol_key_crypt := Some recv\<rparr>) w))))))"

definition dot1x_set_IdleTimeoutAction :: "env \<Rightarrow> nat \<Rightarrow> u32 \<Rightarrow> rtapd \<Rightarrow> rtapd run" where
  "dot1x_set_IdleTimeoutAction e k idle_timeout w =
     run_bind (get_sta k w) (\<lambda>sta.
       let t = (if idle_timeout < DEFAULT_IDLE_INTERVAL then DEFAULT_IDLE_INTERVAL else idle_timeout)
       in ret (snd (RT_ioctl e (sta_addr sta @ le32 t) (ApIdx sta) RT_OID_802_DOT1X_IDLE_TIMEOUT w)))"

text \<open>What an Access-Accept does with the session timeouts of the server and of the configuration;
  the flag is \<open>free_flag\<close>.\<close>

definition accept_timeouts :: "env \<Rightarrow> nat \<Rightarrow> u32 option \<Rightarrow> u32 \<Rightarrow> rtapd \<Rightarrow> (bool \<times> rtapd) run" where
  "accept_timeouts e k session_timeout termination_action w =
     (let configured = (session_timeout_set (conf w) = 1); interval = (of_int (session_timeout_interval (conf w)) :: u32) in
      case session_timeout of
        Some t \<Rightarrow>
          if termination_action = RADIUS_TERMINATION_ACTION_RADIUS_REQUEST
          then run_map (Pair False) (with_sm (\<lambda>sm. sm\<lparr>reauth_timer := (reauth_timer sm)\<lparr>reAuthPeriod := t\<rparr>\<rparr>) k w)
          else if configured then ret (False, Ap_sta_session_timeout e k (if t < interval then t else interval) w)
          else ret (False, Ap_sta_session_timeout e k t w)
      | None \<Rightarrow> if configured then ret (False, Ap_sta_session_timeout e k interval w) else ret (True, w))"

definition ieee802_1x_accept :: "env \<Rightarrow> nat \<Rightarrow> radius_msg \<Rightarrow> radius_msg option \<Rightarrow> byte list \<Rightarrow> rtapd \<Rightarrow> (bool \<times> rtapd) run" where
  "ieee802_1x_accept e k msg req secret w =
     run_bind (accept_timeouts e k (Radius_msg_get_attr_int32 msg RADIUS_ATTR_SESSION_TIMEOUT)
       (case Radius_msg_get_attr_int32 msg RADIUS_ATTR_TERMINATION_ACTION of
          None \<Rightarrow> RADIUS_TERMINATION_ACTION_DEFAULT | Some a \<Rightarrow> a) w) (\<lambda>(free_flag, w).
     run_bind (with_sm (\<lambda>sm. sm\<lparr>be_auth := (be_auth sm)\<lparr>aSuccess := True\<rparr>\<rparr>) k w) (\<lambda>w.
     run_bind (case Radius_msg_get_attr_int32 msg RADIUS_ATTR_IDLE_TIMEOUT of
         None \<Rightarrow> ret w | Some t \<Rightarrow> dot1x_set_IdleTimeoutAction e k t w) (\<lambda>w.
     run_map (Pair free_flag) (ieee802_1x_get_keys e k msg req secret w))))"

definition ieee802_1x_challenge :: "nat \<Rightarrow> radius_msg \<Rightarrow> rtapd \<Rightarrow> rtapd run" where
  "ieee802_1x_challenge k msg w =
     with_sm (\<lambda>sm. sm\<lparr>be_auth := (be_auth sm)\<lparr>aReq := True,
       suppTimeout := (case Radius_msg_get_attr_int32 msg RADIUS_ATTR_SESSION_TIMEOUT of None \<Rightarrow> suppTimeout (be_auth sm) | Some t \<Rightarrow> t)\<rparr>\<rparr>) k w"

text \<open>An Access-Reject without the two attributes is not verified.\<close>

definition unverified_reject :: "radius_msg \<Rightarrow> bool" where
  "unverified_reject msg \<longleftrightarrow> msg_code msg = RADIUS_CODE_ACCESS_REJECT
     \<and> Radius_msg_get_attr msg RADIUS_ATTR_MESSAGE_AUTHENTICATOR 0 = None \<and> Radius_msg_get_attr msg RADIUS_ATTR_EAP_MESSAGE 0 = None"

text \<open>The switch over the code of an accepted message, and what follows it; the message is already the
  station's \<open>last_recv_radius\<close>.\<close>

definition auth_switch :: "env \<Rightarrow> nat \<Rightarrow> radius_msg \<Rightarrow> radius_msg option \<Rightarrow> byte list \<Rightarrow> rtapd \<Rightarrow> rtapd run" where
  "auth_switch e k msg req secret w =
     run_bind
       (if msg_code msg = RADIUS_CODE_ACCESS_ACCEPT then ieee802_1x_accept e k msg req secret w
        else if msg_code msg = RADIUS_CODE_ACCESS_REJECT
        then run_map (Pair False) (with_sm (\<lambda>sm. sm\<lparr>be_auth := (be_auth sm)\<lparr>aFail := True\<rparr>\<rparr>) k w)
        else run_map (Pair False) (ieee802_1x_challenge k msg w)) (\<lambda>(free_flag, w).
     run_bind (ieee802_1x_decapsulate_radius e k w) (\<lambda>w.
     run_bind (sta_sm_step e k w) (\<lambda>w.
       if free_flag then Ap_free_sta k w else ret w)))"

definition ieee802_1x_receive_auth ::
    "env \<Rightarrow> radius_msg \<Rightarrow> radius_msg option \<Rightarrow> byte list \<Rightarrow> rtapd \<Rightarrow> (RadiusRxResult \<times> radius_msg \<times> rtapd) run" where
  "ieee802_1x_receive_auth e msg req secret w =
     run_bind (Ap_get_sta_radius_identifier w (msg_identifier msg)) (\<lambda>s.
     case s of None \<Rightarrow> ret (RADIUS_RX_UNKNOWN, msg, w)
     | Some k \<Rightarrow>
     run_bind (if unverified_reject msg then ret (0, msg) else Radius_msg_verify msg secret req) (\<lambda>(bad, msg).
     if bad \<noteq> 0 then ret (RADIUS_RX_UNKNOWN, msg, w)
     else if msg_code msg \<noteq> RADIUS_CODE_ACCESS_ACCEPT \<and> msg_code msg \<noteq> RADIUS_CODE_ACCESS_REJECT \<and> msg_code msg \<noteq> RADIUS_CODE_ACCESS_CHALLENGE
     then ret (RADIUS_RX_UNKNOWN, msg, w)
     else run_bind (get_sta k w) (\<lambda>sta.
       run_map (\<lambda>w. (RADIUS_RX_QUEUED, msg, w))
         (auth_switch e k msg req secret (put_sta k (sta\<lparr>radius_identifier := -1, last_recv_radius := Some msg\<rparr>) w)))))"

definition ieee802_1x_init :: "env \<Rightarrow> rtapd \<Rightarrow> (int \<times> rtapd) run" where
  "ieee802_1x_init e w =
     run_map (\<lambda>(res, w). (if res \<noteq> 0 then -1 else 0, w)) (Radius_client_register e H_ieee802_1x_receive_auth w)"

section \<open>What every handler keeps\<close>

declare yields_map [run_simps]

lemma tx_frame_sta: "tx_frame k w w' \<Longrightarrow> stas w k = Some s \<Longrightarrow> \<exists>s'. stas w' k = Some s' \<and> sta_same s s'"
  by (cases "stas w' k") (simp_all add: tx_frame_def)

text \<open>The machine differs in no field the decision about its port depends on.\<close>

definition same_verdict :: "eapol_state_machine \<Rightarrow> eapol_state_machine \<Rightarrow> bool" where
  "same_verdict s s' \<longleftrightarrow> portControl s' = portControl s \<and> portStatus s' = portStatus s \<and> authSuccess s' = authSuccess s
     \<and> aSuccess (be_auth s') = aSuccess (be_auth s) \<and> be s' = be s \<and> pae s' = pae s \<and> acts s' = acts s \<and> kt s' = kt s"

text \<open>
  The interface between an invariant of the daemon and its handlers. \<open>I\<close> is the invariant, \<open>R\<close> the
  changes of a station's machines that it admits. It must not see the calls a handler makes
  (\<open>tx_frame\<close>), and it must admit the runs of the machines, new machines, and the inputs that are not an
  Access-Accept. An Access-Accept is admitted where \<open>R\<close> admits everything.
\<close>

locale daemon_invariant =
  fixes I :: "rtapd \<Rightarrow> bool" and R :: "eapol_state_machine option \<Rightarrow> eapol_state_machine option \<Rightarrow> bool"
  assumes frame: "tx_frame k w w' \<Longrightarrow> I w \<Longrightarrow> I w'"
    and put: "I w \<Longrightarrow> stas w k = Some s \<Longrightarrow> sta_addr s' = sta_addr s \<Longrightarrow> R (eapol_sm s) (eapol_sm s') \<Longrightarrow> I (put_sta k s' w)"
    and same: "R a a"
    and steps: "eapol_sm_step (m\<lparr>acts := []\<rparr>) = ret m' \<Longrightarrow> R (Some m) (Some (m'\<lparr>acts := []\<rparr>))"
    and ticks: "eapol_port_timers_tick (m\<lparr>acts := []\<rparr>) = ret m' \<Longrightarrow> R (Some m) (Some (m'\<lparr>acts := []\<rparr>))"
    and fresh: "r = None \<or> (\<exists>m. r = Some m \<and> sm_idle m) \<Longrightarrow> R None r"
    and inputs: "same_verdict m m' \<Longrightarrow> R (Some m) (Some m')"
    and lookup: "I w \<Longrightarrow> length sa = 6 \<Longrightarrow> yields (Ap_get_sta e sa ap etype sock w) (\<lambda>(found, w'). I w')"
    and remove: "I w \<Longrightarrow> yields (Ap_free_sta k w) I"
begin

lemma put_same: "I w \<Longrightarrow> stas w k = Some s \<Longrightarrow> sta_addr s' = sta_addr s \<Longrightarrow> eapol_sm s' = eapol_sm s \<Longrightarrow> I (put_sta k s' w)"
  using put same by metis

lemma framed: "I w \<Longrightarrow> yields m (tx_frame k w) \<Longrightarrow> yields m I"
  by (erule yields_mono) (rule frame)

lemma timeout_frame: "tx_frame k w (add_timeout e s h d u w)" "tx_frame k w (del_timeout h d u w)"
  by (cases "stas w k"; simp add: tx_frame_def add_timeout_def del_timeout_def client_inv_def)+

lemma timeouts [simp]: "I w \<Longrightarrow> I (add_timeout e s h d u w)" "I w \<Longrightarrow> I (del_timeout h d u w)"
  using frame timeout_frame by blast+

lemma calls [simp]: "I w \<Longrightarrow> I (snd (RT_ioctl e d i fl w))" "I w \<Longrightarrow> I (snd (give_key e sta key w))" "I w \<Longrightarrow> I (snd (sys_send e c w))"
  using frame sys_frame by blast+

lemma session_timeout [simp]: "I w \<Longrightarrow> I (Ap_sta_session_timeout e k t w)"
  by (simp add: Ap_sta_session_timeout_def)

lemma with_sm_keeps: "I w \<Longrightarrow> (\<And>s. R (Some s) (Some (f s))) \<Longrightarrow> yields (with_sm f k w) I"
  unfolding with_sm_def by (rule yields_run_any) (auto split: option.split intro: put)

lemma exec_keeps:
  assumes "I w" "\<And>s s'. f (s\<lparr>acts := []\<rparr>) = ret s' \<Longrightarrow> R (Some s) (Some (s'\<lparr>acts := []\<rparr>))"
  shows "yields (sm_exec f e k w) I"
  unfolding sm_exec_def
proof (rule yields_run_any, clarsimp split: option.split, rule yields_run_any, goal_cases)
  case (1 sta sm sm')
  then have "I (put_sta k (sta\<lparr>eapol_sm := Some (sm'\<lparr>acts := []\<rparr>)\<rparr>) w)"
    using assms by (auto intro: put)
  then show ?case by (rule framed [OF _ run_acts_frame])
qed

lemma step_keeps: "I w \<Longrightarrow> yields (sta_sm_step e k w) I"
  unfolding sta_sm_step_def by (rule exec_keeps [OF _ steps])

lemma tick_keeps: "I w \<Longrightarrow> yields (sta_port_timers_tick e k w) I"
  unfolding sta_port_timers_tick_def
  by (auto simp: yields_map split: option.split intro!: yields_mono [OF exec_keeps [OF _ ticks]])

lemma session_timer_keeps: "I w \<Longrightarrow> yields (Ap_handle_session_timer e k w) I"
  unfolding Ap_handle_session_timer_def by (auto intro!: yields_run_any)

lemma eap_response_keeps: "I w \<Longrightarrow> yields (handle_eap_response e k buf len w) I"
  unfolding handle_eap_response_def Let_def
  by (rule yields_run_any, auto intro!: yields_run_any split: option.split)
    (erule (1) put, simp, simp add: same inputs same_verdict_def)+

lemma handle_eap_keeps: "I w \<Longrightarrow> yields (handle_eap e k buf len w) I"
  unfolding handle_eap_def Let_def by (auto intro!: yields_run_any eap_response_keeps)

lemma switch_keeps: "I w \<Longrightarrow> yields (receive_switch e k type buf n w) I"
  unfolding receive_switch_def
  by (auto intro!: handle_eap_keeps yields_then [OF with_sm_keeps] step_keeps inputs simp: same_verdict_def)

lemma ensure_keeps: "I w \<Longrightarrow> yields (ensure_sm e k w) (\<lambda>(ok, w'). I w')"
proof -
  assume inv: "I w"
  have "yields (sta_sm_alloc e k w) (\<lambda>(r, w'). tx_frame k w w' \<and> (r = None \<or> (\<exists>s. r = Some s \<and> sm_idle s)))"
    unfolding sta_sm_alloc_def
  proof (rule yields_run_any, clarsimp split: option.split simp: yields_bind, goal_cases)
    case (1 sm)
    then have "sm_idle sm"
      using eapol_sm_alloc_spec [of "env_alloc e" "of_int (quiet_interval (conf w))" "session_timeout_set (conf w) = 1"
          "of_int (session_timeout_interval (conf w))"] by simp
    then have idle: "sm_idle (sm\<lparr>acts := []\<rparr>)" by (simp add: sm_idle_def)
    show ?case
      by (rule yields_mono [OF run_acts_frame]) (intro conjI idle tx_frame_trans [OF _ tx_frame_trans [OF timeout_frame(2) timeout_frame(1)]], simp)
  qed
  then have alloc: "yields (run_bind (sta_sm_alloc e k w) (\<lambda>(r, w). run_bind (get_sta k w) (\<lambda>sta. ret (r \<noteq> None, put_sta k (sta\<lparr>eapol_sm := r\<rparr>) w))))
      (\<lambda>(ok, w'). I w')" if sta: "stas w k = Some sta" "eapol_sm sta = None" for sta
    unfolding yields_bind
  proof (rule yields_mono, clarsimp, goal_cases)
    case (1 r w')
    then obtain sta' where s: "stas w' k = Some sta'" "eapol_sm sta' = None"
      using tx_frame_sta [OF 1(2) sta(1)] sta(2) by (auto simp: sta_same_def)
    then show ?case using frame [OF 1(2) inv] fresh [OF 1(3)] by (auto intro: put)
  qed
  show ?thesis
    unfolding ensure_sm_def by (rule yields_run_any) (use inv alloc in auto)
qed

lemma receive_keeps:
  assumes "I w" "length sa = 6"
  shows "yields (ieee802_1x_receive e sa ap buf len etype sock w) I"
  unfolding ieee802_1x_receive_def Let_def
proof (rule yields_then2 [OF lookup [OF assms]], clarsimp split: option.split, goal_cases)
  case (1 v k)
  show ?case
    by (rule yields_run_any, rule yields_run_any)
      (use 1 in \<open>auto intro!: yields_then2 [OF ensure_keeps] yields_then [OF switch_keeps] step_keeps\<close>)
qed

lemma decapsulate_keeps: "I w \<Longrightarrow> yields (ieee802_1x_decapsulate_radius e k w) I"
  unfolding ieee802_1x_decapsulate_radius_def
  by (rule yields_run_any, auto split: option.split)
    (erule (1) put, simp, simp add: same inputs same_verdict_def)+

lemma idle_keeps: "I w \<Longrightarrow> yields (dot1x_set_IdleTimeoutAction e k t w) I"
  unfolding dot1x_set_IdleTimeoutAction_def Let_def by (auto intro!: yields_run_any)

lemma challenge_keeps: "I w \<Longrightarrow> yields (ieee802_1x_challenge k msg w) I"
  unfolding ieee802_1x_challenge_def by (auto intro!: with_sm_keeps inputs simp: same_verdict_def)

lemma get_keys_keeps:
  assumes "I w" "\<And>a b. R a b"
  shows "yields (ieee802_1x_get_keys e k msg req secret w) I"
  unfolding ieee802_1x_get_keys_def
proof (rule yields_run_any, goal_cases)
  case (1 keys)
  have given: "yields (case give_key e sta key w of (ok, w) \<Rightarrow> if \<not> ok then ret w
      else case send of None \<Rightarrow> ret w | Some send \<Rightarrow> run_bind (get_sta k w) (\<lambda>sta. with_sm f k (put_sta k (g send sta) w))) I"
    if "\<And>s sta. sta_addr (g s sta) = sta_addr sta" for sta key send f g
  proof -
    obtain ok v where v: "give_key e sta key w = (ok, v)" by fastforce
    then have "I v" using calls(2) [OF assms(1), of e sta key] by simp
    then show ?thesis unfolding v using that
      by (cases send) (auto intro!: yields_run_any with_sm_keeps assms(2) intro: put)
  qed
  show ?case
    using assms(1) by (auto intro!: yields_run_any given split: option.split)
qed

lemma accept_timeouts_keeps: "I w \<Longrightarrow> yields (accept_timeouts e k st ta w) (\<lambda>(f, w'). I w')"
  by (auto simp: accept_timeouts_def Let_def yields_map same_verdict_def split: option.split intro!: with_sm_keeps inputs)

lemma accept_keeps:
  assumes "I w" "\<And>a b. R a b"
  shows "yields (ieee802_1x_accept e k msg req secret w) (\<lambda>(f, w'). I w')"
proof -
  have idle: "yields (case t of None \<Rightarrow> ret v | Some t \<Rightarrow> dot1x_set_IdleTimeoutAction e k t v) I" if "I v" for t v
    using that by (cases t) (simp_all add: idle_keeps)
  show ?thesis
    unfolding ieee802_1x_accept_def
    by (rule yields_then2 [OF accept_timeouts_keeps [OF assms(1)]])
      (auto simp: yields_map assms(2) intro!: yields_then [OF with_sm_keeps] yields_then [OF idle] get_keys_keeps)
qed

lemma auth_switch_keeps:
  assumes "I w" "msg_code msg = RADIUS_CODE_ACCESS_ACCEPT \<Longrightarrow> (\<And>a b. R a b)"
  shows "yields (auth_switch e k msg req secret w) I"
proof -
  have verdict: "yields (if msg_code msg = RADIUS_CODE_ACCESS_ACCEPT then ieee802_1x_accept e k msg req secret w
      else if msg_code msg = RADIUS_CODE_ACCESS_REJECT
      then run_map (Pair False) (with_sm (\<lambda>sm. sm\<lparr>be_auth := (be_auth sm)\<lparr>aFail := True\<rparr>\<rparr>) k w)
      else run_map (Pair False) (ieee802_1x_challenge k msg w)) (\<lambda>(f, w'). I w')"
    using assms accept_keeps by (auto simp: yields_map same_verdict_def intro!: with_sm_keeps inputs challenge_keeps)
  show ?thesis
    unfolding auth_switch_def
    by (rule yields_then2 [OF verdict]) (auto intro!: yields_then [OF decapsulate_keeps] yields_then [OF step_keeps] remove)
qed

end


section \<open>The two invariants\<close>

interpretation intact: daemon_invariant daemon_inv "\<lambda>a b. True"
  by unfold_locales
    (auto intro: tx_frame_daemon put_sta_daemon free_sta_daemon_any yields_mono [OF returns_yields [OF get_sta_daemon]])

text \<open>No station has been accepted by the server.\<close>

definition unaccepted :: "rtapd \<Rightarrow> bool" where
  "unaccepted w \<longleftrightarrow> (\<forall>k s sm. stas w k = Some s \<longrightarrow> eapol_sm s = Some sm \<longrightarrow> not_accepted (sm\<lparr>acts := []\<rparr>))"

definition keeps_shut :: "eapol_state_machine option \<Rightarrow> eapol_state_machine option \<Rightarrow> bool" where
  "keeps_shut a b \<longleftrightarrow> ((\<forall>s. a = Some s \<longrightarrow> not_accepted (s\<lparr>acts := []\<rparr>)) \<longrightarrow> (\<forall>s. b = Some s \<longrightarrow> not_accepted (s\<lparr>acts := []\<rparr>)))"

lemma tx_frame_unaccepted:
  assumes "tx_frame k w w'" "unaccepted w"
  shows "unaccepted w'"
proof -
  have "\<exists>t. stas w j = Some t \<and> eapol_sm t = eapol_sm s" if "stas w' j = Some s" for j s
    using assms(1) that by (cases "j = k"; cases "stas w k") (auto simp: tx_frame_def sta_same_def)
  then show ?thesis using assms(2) by (fastforce simp: unaccepted_def)
qed

lemma put_unaccepted:
  "unaccepted w \<Longrightarrow> stas w k = Some s \<Longrightarrow> keeps_shut (eapol_sm s) (eapol_sm s') \<Longrightarrow> unaccepted (put_sta k s' w)"
  by (auto simp: unaccepted_def keeps_shut_def)

lemma not_accepted_clear: "not_accepted s \<Longrightarrow> not_accepted (s\<lparr>acts := []\<rparr>)"
  by (simp add: not_accepted_def)

lemma not_accepted_tick:
  assumes "not_accepted s"
  shows "yields (eapol_port_timers_tick s) not_accepted"
proof -
  have "not_accepted (eapol_flags Tick s)" by (rule not_accepted_flags [OF _ assms]) simp
  then show ?thesis using not_accepted_step by (simp add: eapol_port_timers_tick_def)
qed

lemma keeps_shut_run:
  assumes "\<And>s. not_accepted s \<Longrightarrow> yields (f s) not_accepted" "f (s\<lparr>acts := []\<rparr>) = ret s'"
  shows "keeps_shut (Some s) (Some (s'\<lparr>acts := []\<rparr>))"
  using assms(1) [of "s\<lparr>acts := []\<rparr>"] assms(2) by (auto simp: keeps_shut_def yields_def not_accepted_clear)

lemma keeps_shut_same: "same_verdict s s' \<Longrightarrow> keeps_shut (Some s) (Some s')"
  by (auto simp: keeps_shut_def same_verdict_def not_accepted_def)

lemma sm_idle_not_accepted: "sm_idle s \<Longrightarrow> not_accepted s"
  by (simp add: sm_idle_def not_accepted_def)

lemma keeps_shut_refl: "keeps_shut a a" "r = None \<or> (\<exists>m. r = Some m \<and> sm_idle m) \<Longrightarrow> keeps_shut None r"
  by (auto simp: keeps_shut_def intro: not_accepted_clear sm_idle_not_accepted)

lemma get_sta_unaccepted:
  assumes "unaccepted w"
  shows "yields (Ap_get_sta e sa ap etype sock w) (\<lambda>(r, w'). unaccepted w')"
proof -
  have create: "yields (run_bind (Ap_sta_hash_add k v) (\<lambda>w. run_map (Pair (Some k)) (ieee802_1x_new_station e k w)))
      (\<lambda>(r, w'). unaccepted w')" if k: "unaccepted v" "stas v k = Some s" "eapol_sm s = None" for k s v
  proof (rule yields_run_any, goal_cases)
    case (1 v')
    then have v': "stas v' = stas v" "conf v' = conf v"
      by (auto simp: Ap_sta_hash_add_def Let_def run_bind_eq_ret)
    then have un: "unaccepted v'" using k(1) by (simp add: unaccepted_def)
    obtain sm w' where w': "ieee802_1x_new_station e k v' = ret (put_sta k (s\<lparr>eapol_sm := sm\<rparr>) w')"
        "\<forall>m. sm = Some m \<longrightarrow> sm_idle m" "stas w' = stas v'"
      using new_station_spec [of v' k s e] k(2,3) v'(1) by (auto split: if_splits)
    then show ?case using un by (auto simp: unaccepted_def sm_idle_not_accepted not_accepted_clear)
  qed
  have query: "yields (case query_aid e sa ap w of (a, v) \<Rightarrow> run_bind (Ap_sta_hash_add k
        (v\<lparr>stas := (stas v)(k := Some (new_sta_info sa a ap etype sock)), next_sta := Suc k, sta_list := k # sta_list v, num_sta := num_sta v + 1\<rparr>))
      (\<lambda>w. run_map (Pair (Some k)) (ieee802_1x_new_station e k w))) (\<lambda>(r, w'). unaccepted w')" for ap k
  proof (cases "query_aid e sa ap w")
    case (Pair a v)
    then have "stas v = stas w" by (auto simp: query_aid_def RT_ioctl_def log_call_def Let_def split: prod.splits)
    then show ?thesis using assms
      by (simp add: Pair) (rule create, auto simp: unaccepted_def new_sta_info_def)
  qed
  show ?thesis
    unfolding Ap_get_sta_def Let_def
    by (rule yields_run_any) (auto intro!: query split: option.split simp: assms)
qed

lemma free_sta_unaccepted:
  assumes "unaccepted w"
  shows "yields (Ap_free_sta k w) unaccepted"
  unfolding Ap_free_sta_def
proof (rule yields_run_any, rule yields_run_any, goal_cases)
  case (1 w1 w2)
  then have "stas w2 = stas w"
    by (auto simp: Ap_sta_hash_del_def Ap_sta_list_del_def Let_def run_bind_eq_ret run_map_def)
  then show ?case using assms
    by (auto simp: yields_map ieee802_1x_free_station_def eapol_sm_free_def del_timeout_def unaccepted_def Let_def intro!: yields_run_any)
qed

interpretation shut: daemon_invariant "\<lambda>w. daemon_inv w \<and> unaccepted w" keeps_shut
proof (unfold_locales, goal_cases)
  case (1 k w w')
  then show ?case by (blast intro: tx_frame_daemon tx_frame_unaccepted)
next
  case (2 w k s s')
  then show ?case by (blast intro: put_sta_daemon put_unaccepted)
next
  case (4 m m')
  then show ?case by (rule keeps_shut_run [rotated, of eapol_sm_step]) (rule not_accepted_step)
next
  case (5 m m')
  then show ?case by (rule keeps_shut_run [rotated, of eapol_port_timers_tick]) (rule not_accepted_tick)
next
  case (8 w sa e ap etype sock)
  then have "yields (Ap_get_sta e sa ap etype sock w) (\<lambda>(r, w'). daemon_inv w')"
    by (blast intro: yields_mono [OF returns_yields [OF get_sta_daemon]])
  then show ?case using get_sta_unaccepted [of w e sa ap etype sock] 8 by (auto simp: yields_def)
next
  case (9 w k)
  then show ?case using free_sta_daemon_any [of w k] free_sta_unaccepted [of w k] by (auto simp: yields_def)
qed (fact keeps_shut_refl keeps_shut_same)+


section \<open>Properties\<close>

lemma compare_equal: "length xs = length ys \<Longrightarrow> RTMPCompareMemory xs ys = 0 \<longleftrightarrow> xs = ys"
proof (induction xs ys rule: RTMPCompareMemory.induct)
  case (1 x xs y ys)
  have "sint x = sint y \<longleftrightarrow> x = y" by (metis word_eq_iff_signed)
  then show ?case using 1 by auto
qed auto

lemma be16_small: "int (unat (rd_be16 b)) < 65536"
proof -
  have "unat (rd_be16 b) < 2 ^ LENGTH(16)" by (rule unsigned_less)
  then have "unat (rd_be16 b) < 65536" by simp
  then show ?thesis by linarith
qed

lemma short_payload: "len < LENGTH_8021X_HDR \<Longrightarrow> int (unat (rd_be16 b)) \<le> payload_len len"
proof -
  assume "len < LENGTH_8021X_HDR"
  then have "payload_len len = int len - 4 + 2 ^ 32"
    using mod_add_self2 [of "int len - 4" "2 ^ 32 :: int"] by (simp add: payload_len_def LENGTH_8021X_HDR_def mod_pos_pos_trivial)
  then have "65536 \<le> payload_len len" by simp
  then show ?thesis by (rule order_trans [OF less_imp_le [OF be16_small]])
qed

lemma long_payload: "LENGTH_8021X_HDR \<le> len \<Longrightarrow> len < 2 ^ 32 \<Longrightarrow> payload_len len = int (len - LENGTH_8021X_HDR)"
  by (simp add: payload_len_def of_nat_diff)




section \<open>Verification decides\<close>

lemma find_ma_in: "find_message_authenticator m as a0 = Some (Some a) \<Longrightarrow> a \<in> set as \<or> a0 = Some a"
  by (induction as arbitrary: a0) (auto split: if_splits)

lemma verify_restores:
  assumes "wf_msg m" "Radius_msg_verify m secret req = ret (b, m')"
  shows "m' = m"
proof (cases req)
  case (Some sent)
  show ?thesis
  proof (cases "\<exists>a. find_message_authenticator m (attrs m) None = Some (Some a)")
    case False
    then show ?thesis using assms(2) Some by (auto simp: Radius_msg_verify_def split: option.splits)
  next
    case True
    then obtain a where a: "find_message_authenticator m (attrs m) None = Some (Some a)" by blast
    then have "a \<in> set (attrs m)" using find_ma_in [OF a] by simp
    then have low: "20 \<le> a" using assms(1) chain_range [of "rbuf m" 20 "attrs m" "buf_used m" a] by (simp add: wf_msg_def)
    have len: "a + 2 + 16 \<le> length (rbuf m)"
      using assms(2) a Some by (auto simp: Radius_msg_verify_def run_bind_eq_ret mem_read_def split: if_splits)
    let ?q = "msg_authenticator sent" and ?z = "store (a + 2) (replicate 16 0) (rbuf m)"
    have q: "length ?q \<le> 16" by (simp add: msg_authenticator_def slice_def)
    have z: "slice 4 16 ?z = slice 4 16 (rbuf m)" using low len by simp
    have "store 4 (slice 4 16 ?z) (store (a + 2) (slice (a + 2) 16 (rbuf m)) (store 4 ?q ?z)) = rbuf m"
      unfolding z using low len q
      by (intro nth_equalityI, auto simp: nth_store nth_slice) (rule arg_cong [where f = "nth (rbuf m)"], simp)
    then have "m\<lparr>rbuf := store 4 (slice 4 16 ?z) (store (a + 2) (slice (a + 2) 16 (rbuf m)) (store 4 ?q ?z))\<rparr> = m" by simp
    then show ?thesis
      using assms(2) a Some len by (simp add: Radius_msg_verify_def Let_def split: if_splits)
  qed
qed (use assms in \<open>simp add: Radius_msg_verify_def\<close>)

text \<open>An Access-Accept of a server that has the secret, for this request.\<close>

definition genuine_accept :: "radius_msg \<Rightarrow> radius_msg option \<Rightarrow> byte list \<Rightarrow> bool" where
  "genuine_accept msg req secret \<longleftrightarrow> msg_code msg = RADIUS_CODE_ACCESS_ACCEPT \<and> Radius_msg_verify msg secret req = ret (0, msg)"

context daemon_invariant
begin

lemma receive_auth_keeps:
  assumes "I w" "wf_msg msg" "genuine_accept msg req secret \<Longrightarrow> (\<And>a b. R a b)"
  shows "yields (ieee802_1x_receive_auth e msg req secret w) (\<lambda>(res, msg', w'). msg' = msg \<and> I w')"
proof -
  have checked: "yields (if bad \<noteq> 0 then ret (RADIUS_RX_UNKNOWN, m, w)
      else if msg_code m \<noteq> RADIUS_CODE_ACCESS_ACCEPT \<and> msg_code m \<noteq> RADIUS_CODE_ACCESS_REJECT \<and> msg_code m \<noteq> RADIUS_CODE_ACCESS_CHALLENGE
      then ret (RADIUS_RX_UNKNOWN, m, w)
      else run_bind (get_sta k w) (\<lambda>sta. run_map (\<lambda>w. (RADIUS_RX_QUEUED, m, w))
        (auth_switch e k m req secret (put_sta k (sta\<lparr>radius_identifier := -1, last_recv_radius := Some m\<rparr>) w))))
    (\<lambda>(res, msg', w'). msg' = msg \<and> I w')"
    if gate: "(if unverified_reject msg then ret (0, msg) else Radius_msg_verify msg secret req) = ret (bad, m)" for bad m k
  proof -
    have m: "m = msg" using verify_restores [OF assms(2)] gate by (auto split: if_splits)
    have genuine: "genuine_accept msg req secret" if "bad = 0" "msg_code msg = RADIUS_CODE_ACCESS_ACCEPT"
      using gate that by (auto simp: genuine_accept_def unverified_reject_def m split: if_splits
          simp: RADIUS_CODE_ACCESS_ACCEPT_def RADIUS_CODE_ACCESS_REJECT_def)
    have "yields (run_bind (get_sta k w) (\<lambda>sta. run_map (\<lambda>w. (RADIUS_RX_QUEUED, msg, w))
        (auth_switch e k msg req secret (put_sta k (sta\<lparr>radius_identifier := -1, last_recv_radius := Some msg\<rparr>) w))))
      (\<lambda>(res, m, w'). m = msg \<and> I w')" if "bad = 0"
      unfolding run_map_def
    proof (rule yields_run_any, simp only: yields_bind yields_ret prod.case simp_thms, rule auth_switch_keeps, goal_cases)
      case (1 sta)
      then show ?case using put_same [OF assms(1)] by simp
    next
      case (2 sta a b)
      then show ?case using assms(3) genuine that by blast
    qed
    then show ?thesis using assms(1) by (simp add: m)
  qed
  show ?thesis
    unfolding ieee802_1x_receive_auth_def
  proof (rule yields_run_any, goal_cases)
    case (1 s)
    show ?case
    proof (cases s)
      case None
      then show ?thesis using assms(1) by simp
    next
      case (Some k)
      show ?thesis
        unfolding Some option.case by (rule yields_run_any, simp only: split_paired_all prod.case, rule checked)
    qed
  qed
qed

end

end
