(* ===== verification/Config.thy ===== *)
theory Config
  imports Rtapd
begin

text \<open>
  \<open>802.1x/config.c\<close>: the configuration the driver hands over in one packed structure,
  \<open>DOT1X_CMM_CONF\<close>, and the defaults. The structure is the list of its bytes, and its fields are read at
  their offsets, so that an index behind an array of the structure reads the fields that follow it.

  The build configures the BSS of index 0 only (\<open>m_num\<close>). \<open>strdup\<close> of a key gives a block up to the
  terminator, while the length is that of the structure: a length behind the block, or a block that could not
  be allocated, is counted as a fault here, and not at the first use of the key.

  The lemmas give the layout of the result (\<open>conf_shape\<close>) and what becomes of the list of servers.
\<close>

section \<open>Strings\<close>

text \<open>\<open>''0''\<close> is 48, \<open>''A''\<close> is 65 and \<open>''a''\<close> is 97.\<close>

definition BtoH :: "byte \<Rightarrow> byte" where
  "BtoH ch =
     (if 48 \<le> ch \<and> ch \<le> 57 then ch - 48
      else if 65 \<le> ch \<and> ch \<le> 70 then ch - 65 + 0xA
      else if 97 \<le> ch \<and> ch \<le> 102 then ch - 97 + 0xA
      else 255)"

text \<open>\<open>src\<close> is read two characters for each octet written.\<close>

fun AtoH :: "byte list \<Rightarrow> nat \<Rightarrow> byte list run" where
  "AtoH src 0 = ret []"
| "AtoH (a # b # src) (Suc destlen) = run_map (Cons (push_bit 4 (BtoH a) + BtoH b)) (AtoH src destlen)"
| "AtoH src (Suc destlen) = fail OutOfBounds"

text \<open>The result and the new \<open>__rstrtok\<close>: the rest of the string, which the code cuts at the terminator it writes.\<close>

definition rstrtok :: "byte list option \<Rightarrow> byte list \<Rightarrow> byte list option \<Rightarrow> byte list option \<times> byte list option" where
  "rstrtok s ct rest =
     (case (case s of Some x \<Rightarrow> Some x | None \<Rightarrow> rest) of
        None \<Rightarrow> (None, rest)
      | Some sbegin \<Rightarrow>
          let sbegin = dropWhile (\<lambda>c. c \<in> set ct) sbegin
          in if sbegin = [] then (None, None)
             else let send = dropWhile (\<lambda>c. c \<notin> set ct) sbegin
               in (Some (takeWhile (\<lambda>c. c \<notin> set ct) sbegin), if send = [] then None else Some (tl send)))"

section \<open>The structure of the driver\<close>

definition IFNAMSIZ :: nat where "IFNAMSIZ = 16"
definition HOSTAPD_MAX_SSID_LEN :: nat where "HOSTAPD_MAX_SSID_LEN = 32"
definition AUTH_PAE_DEFAULT_quietPeriod :: int where "AUTH_PAE_DEFAULT_quietPeriod = 60"
definition SIOCGIWESSID :: nat where "SIOCGIWESSID = 0x8B1B"

definition sizeof_DOT1X_CMM_CONF :: nat where "sizeof_DOT1X_CMM_CONF = 1773"
definition sizeof_RADIUS_SRV_INFO :: nat where "sizeof_RADIUS_SRV_INFO = 73"
definition sizeof_DOT1X_BSS_INFO :: nat where "sizeof_DOT1X_BSS_INFO = 180"
definition sizeof_hostapd_radius_server :: nat where "sizeof_hostapd_radius_server = 16"
definition sizeof_rtapd_config :: nat where "sizeof_rtapd_config = 1152"

definition rd8 :: "nat \<Rightarrow> byte list \<Rightarrow> byte run" where
  "rd8 off buf = run_map hd (mem_read off 1 buf)"

definition rd32 :: "nat \<Rightarrow> byte list \<Rightarrow> u32 run" where
  "rd32 off buf = run_map rd_le32 (mem_read off 4 buf)"

text \<open>The offsets of the arrays of the structure.\<close>

definition at_EAPifname :: "nat \<Rightarrow> nat" where "at_EAPifname i = 21 + 16 * i"
definition at_EAPifname_len :: "nat \<Rightarrow> nat" where "at_EAPifname_len i = 149 + i"
definition at_PreAuthifname :: "nat \<Rightarrow> nat" where "at_PreAuthifname i = 157 + 16 * i"
definition at_PreAuthifname_len :: "nat \<Rightarrow> nat" where "at_PreAuthifname_len i = 285 + i"
definition at_Dot1xBssInfo :: "nat \<Rightarrow> nat" where "at_Dot1xBssInfo i = 293 + 180 * i"
definition at_RadiusAclEnable :: "nat \<Rightarrow> nat" where "at_RadiusAclEnable i = 1733 + i"
definition at_AclCacheTimeout :: "nat \<Rightarrow> nat" where "at_AclCacheTimeout i = 1741 + 4 * i"

text \<open>\<open>radius_srv_info[idx]\<close> of a BSS.\<close>

definition at_radius_srv_info :: "nat \<Rightarrow> nat \<Rightarrow> nat" where
  "at_radius_srv_info i idx = at_Dot1xBssInfo i + 1 + 73 * idx"

section \<open>The servers\<close>

definition Config_read_radius_addr :: "env \<Rightarrow> u32 \<Rightarrow> int \<Rightarrow> rtapd_config \<Rightarrow> bool \<times> rtapd_config" where
  "Config_read_radius_addr e addr def_port c =
     (if addr = 0 then (False, c)
      else if \<not> env_alloc e ((num_auth_servers c + 1) * sizeof_hostapd_radius_server) then (False, c)
      else (True, c\<lparr>auth_servers := auth_servers c @ [\<lparr>srv_addr = addr, srv_port = def_port, shared_secret = []\<rparr>],
                    auth_server := Some (num_auth_servers c)\<rparr>))"

definition set_server :: "nat \<Rightarrow> (hostapd_radius_server \<Rightarrow> hostapd_radius_server) \<Rightarrow> rtapd_config \<Rightarrow> rtapd_config" where
  "set_server j f c = c\<lparr>auth_servers := (auth_servers c)[j := f (auth_servers c ! j)]\<rparr>"

definition strdup_key :: "env \<Rightarrow> byte list \<Rightarrow> nat \<Rightarrow> byte list run" where
  "strdup_key e src len =
     run_bind (c_string src) (\<lambda>s.
       if \<not> env_alloc e (length s + 1) then fail NullDeref
       else mem_read 0 len (s @ [0]))"

text \<open>One \<open>idx\<close>; the counters are \<open>radius_count\<close>, \<open>radius_port_count\<close> and \<open>radius_key_count\<close>. The server
  whose port and key are set is the current one, which is an earlier one when the address was not added.\<close>

definition read_server :: "env \<Rightarrow> byte list \<Rightarrow> nat \<Rightarrow> rtapd_config \<times> nat \<times> nat \<times> nat \<Rightarrow> (rtapd_config \<times> nat \<times> nat \<times> nat) run" where
  "read_server e buf off st =
     (case st of (c, radius_count, port_count, key_count) \<Rightarrow>
       run_bind (rd32 off buf) (\<lambda>ip.
       case Config_read_radius_addr e ip 1812 c of (new, c) \<Rightarrow>
       let radius_count = (if new then radius_count + 1 else radius_count) in
       case auth_server c of None \<Rightarrow> ret (c, radius_count, port_count, key_count)
       | Some j \<Rightarrow>
         if srv_addr (auth_servers c ! j) = 0 then ret (c, radius_count, port_count, key_count)
         else
           run_bind (rd32 (off + 4) buf) (\<lambda>port.
           let st = (if port > 0 then (set_server j (\<lambda>s. s\<lparr>srv_port := s32 (uint port)\<rparr>) c, port_count + 1) else (c, port_count)) in
           run_bind (rd8 (off + 72) buf) (\<lambda>key_len.
             if key_len > 0
             then run_map (\<lambda>key. (set_server j (\<lambda>s. s\<lparr>shared_secret := key\<rparr>) (fst st), radius_count, snd st, key_count + 1))
                    (strdup_key e (drop (off + 8) buf) (unat key_len))
             else ret (fst st, radius_count, snd st, key_count)))))"

fun read_servers :: "env \<Rightarrow> byte list \<Rightarrow> nat list \<Rightarrow> rtapd_config \<times> nat \<times> nat \<times> nat \<Rightarrow> (rtapd_config \<times> nat \<times> nat \<times> nat) run" where
  "read_servers e buf [] st = ret st"
| "read_servers e buf (off # offs) st = run_bind (read_server e buf off st) (read_servers e buf offs)"

section \<open>The settings of a BSS\<close>

text \<open>\<open>memcpy\<close> of \<open>n\<close> bytes into a row of an array.\<close>

definition copy_row :: "nat \<Rightarrow> nat \<Rightarrow> byte list \<Rightarrow> nat \<Rightarrow> byte list list \<Rightarrow> byte list list run" where
  "copy_row off n buf i rows =
     (if i < length rows
      then run_bind (mem_read off n buf) (\<lambda>data. run_map (\<lambda>row. rows[i := row]) (mem_write 0 data (rows ! i)))
      else fail OutOfBounds)"

definition read_wep :: "byte list \<Rightarrow> nat \<Rightarrow> rtapd_config \<Rightarrow> rtapd_config run" where
  "read_wep buf i c =
     (let b = at_Dot1xBssInfo i in
      run_bind (rd8 (b + 147) buf) (\<lambda>wep.
      if wep = 0 then ret c
      else
        run_bind (rd8 (b + 148) buf) (\<lambda>key_index.
        run_bind (rd8 (b + 149) buf) (\<lambda>key_length.
          let c = c\<lparr>DefaultKeyID := (DefaultKeyID c)[i := uint key_index],
                    individual_wep_key_idx := (individual_wep_key_idx c)[i := (if key_index = 3 then 0 else 3)]\<rparr>
          in if key_length = 5 \<or> key_length = 13
             then run_map (\<lambda>rows. c\<lparr>individual_wep_key_len := (individual_wep_key_len c)[i := uint key_length], IEEE8021X_ikey := rows\<rparr>)
                    (copy_row (b + 150) (unat key_length) buf i ((IEEE8021X_ikey c)[i := replicate WEP8021X_KEY_LEN 0]))
             else ret c))))"

definition read_nas_id :: "byte list \<Rightarrow> nat \<Rightarrow> rtapd_config \<Rightarrow> rtapd_config run" where
  "read_nas_id buf i c =
     run_bind (rd8 (at_Dot1xBssInfo i + 179) buf) (\<lambda>n.
       if n > 0
       then run_map (\<lambda>rows. c\<lparr>nasId := rows, nasId_len := (nasId_len c)[i := uint n]\<rparr>)
              (copy_row (at_Dot1xBssInfo i + 163) (unat n) buf i (nasId c))
       else ret c)"

text \<open>An interface name is put into the row of the names found so far; the result is their number.\<close>

definition read_ifname :: "nat \<Rightarrow> nat \<Rightarrow> byte list \<Rightarrow> nat \<Rightarrow> byte list list \<Rightarrow> (byte list list \<times> nat) run" where
  "read_ifname at_len at_name buf num rows =
     run_bind (rd8 at_len buf) (\<lambda>n.
       if n > 0 then run_map (\<lambda>rows. (rows, num + 1)) (copy_row at_name (unat n) buf num (rows[num := replicate IFNAMSIZ 0]))
       else ret (rows, num))"

definition read_bss :: "byte list \<Rightarrow> nat \<Rightarrow> rtapd_config \<times> nat \<times> nat \<Rightarrow> (rtapd_config \<times> nat \<times> nat) run" where
  "read_bss buf i st =
     (case st of (c, num_eap, num_preauth) \<Rightarrow>
       run_bind (read_wep buf i c) (\<lambda>c.
       run_bind (read_nas_id buf i c) (\<lambda>c.
       run_bind (read_ifname (at_EAPifname_len i) (at_EAPifname i) buf num_eap (eap_if_name c)) (\<lambda>(eap, num_eap).
       run_bind (read_ifname (at_PreAuthifname_len i) (at_PreAuthifname i) buf num_preauth (preauth_if_name c)) (\<lambda>(pre, num_preauth).
       run_bind (rd8 (at_RadiusAclEnable i) buf) (\<lambda>acl.
       run_bind (rd32 (at_AclCacheTimeout i) buf) (\<lambda>tmo.
         ret (c\<lparr>eap_if_name := eap, preauth_if_name := pre, RadiusAclEnable := (RadiusAclEnable c)[i := acl],
                AclCacheTimeout := (AclCacheTimeout c)[i := tmo]\<rparr>, num_eap, num_preauth))))))))"

fun read_bsss :: "byte list \<Rightarrow> nat list \<Rightarrow> rtapd_config \<times> nat \<times> nat \<Rightarrow> (rtapd_config \<times> nat \<times> nat) run" where
  "read_bsss buf [] st = ret st"
| "read_bsss buf (i # is) st = run_bind (read_bss buf i st) (read_bsss buf is)"

section \<open>The query\<close>

definition m_num :: nat where "m_num = 1"

text \<open>The fields that are the same for all BSSs.\<close>

definition read_common :: "byte list \<Rightarrow> rtapd_config \<Rightarrow> rtapd_config run" where
  "read_common buf c =
     run_bind (rd32 9 buf) (\<lambda>retry. run_bind (rd32 13 buf) (\<lambda>session. run_bind (rd32 17 buf) (\<lambda>quiet.
       let session = s32 (uint session); quiet = s32 (uint quiet)
       in ret (c\<lparr>radius_retry_primary_interval := s32 (uint retry),
            session_timeout_set := (if session = 0 then 0 else 1),
            session_timeout_interval := (if session = 0 then 0 else if session < 60 then uint REAUTH_TIMER_DEFAULT_reAuthPeriod else session),
            quiet_interval := (if quiet < AUTH_PAE_DEFAULT_quietPeriod then AUTH_PAE_DEFAULT_quietPeriod else quiet)\<rparr>))))"

text \<open>\<open>errors\<close> and \<open>flag\<close> after the checks.\<close>

definition config_checks :: "u32 \<Rightarrow> nat \<Rightarrow> nat \<Rightarrow> nat \<Rightarrow> int \<times> nat" where
  "config_checks own_ip radius_count port_count key_count =
     (let ok = [own_ip \<noteq> 0, radius_count \<noteq> 0, radius_count = port_count, radius_count = key_count]
      in (int (length (filter Not ok)), (if ok ! 0 then 0x01 else 0) + (if ok ! 1 then 0x02 else 0) + (if ok ! 2 then 0x04 else 0) + (if ok ! 3 then 0x08 else 0)))"

text \<open>\<open>None\<close> is the result \<open>FALSE\<close>; otherwise the configuration, \<open>errors\<close> and \<open>flag\<close>.\<close>

definition Query_config_from_driver :: "env \<Rightarrow> rtapd_config \<Rightarrow> rtapd \<Rightarrow> ((rtapd_config \<times> int \<times> nat) option \<times> rtapd) run" where
  "Query_config_from_driver e c w =
     (if \<not> env_alloc e (sizeof_DOT1X_CMM_CONF + 1) then ret (None, w)
      else
       (case RT_ioctl e (replicate sizeof_DOT1X_CMM_CONF 0) 0 OID_802_DOT1X_CONFIGURATION w of ((res, buf), w) \<Rightarrow>
        if res \<noteq> 0 then ret (None, w)
        else
          run_bind (rd8 4 buf) (\<lambda>mbss_num.
          run_bind (rd32 5 buf) (\<lambda>own_ip.
          let c = c\<lparr>SsidNum := (if mbss_num > of_nat MAX_MBSSID_NUM then 1 else uint mbss_num), own_ip_addr := own_ip\<rparr> in
          run_bind (rd8 (at_Dot1xBssInfo 0) buf) (\<lambda>radius_srv_num.
          run_bind (read_servers e buf (map (at_radius_srv_info 0) [0..<unat radius_srv_num]) (c, 0, 0, 0))
            (\<lambda>(c, radius_count, port_count, key_count).
          case config_checks own_ip radius_count port_count key_count of (errors, flag) \<Rightarrow>
          run_bind (read_common buf c) (\<lambda>c.
          run_bind (read_bsss buf [0..<m_num] (c, 0, 0)) (\<lambda>(c, num_eap, num_preauth).
            ret (Some (c\<lparr>num_eap_if := (if num_eap > 0 then int num_eap else num_eap_if c),
                         num_preauth_if := (if num_preauth > 0 then int num_preauth else num_preauth_if c)\<rparr>, errors, flag), w)))))))))"

section \<open>The configuration\<close>

text \<open>\<open>''RalinkAP''\<close> and \<open>''br0''\<close>.\<close>

definition RalinkAP :: "byte list" where "RalinkAP = [82, 97, 108, 105, 110, 107, 65, 80]"
definition br0 :: "byte list" where "br0 = [98, 114, 48, 0]"

text \<open>Random keys: a key of which \<open>hostapd_get_rand\<close> gives nothing stays zero.\<close>

definition config_defaults :: "env \<Rightarrow> rtapd \<Rightarrow> rtapd_config" where
  "config_defaults e w =
     (let zeros = (\<lambda>n. replicate n (0 :: byte));
          ifnames = (replicate MAX_MBSSID_NUM (zeros IFNAMSIZ))[0 := store 0 br0 (zeros IFNAMSIZ)]
      in \<lparr>SsidNum = 1, Ssid = replicate MAX_MBSSID_NUM (zeros (HOSTAPD_MAX_SSID_LEN + 1)), SsidLen = replicate MAX_MBSSID_NUM 0,
          AclCacheTimeout = replicate MAX_MBSSID_NUM 0, RadiusAclEnable = replicate MAX_MBSSID_NUM 0,
          DefaultKeyID = replicate MAX_MBSSID_NUM 0, individual_wep_key_len = replicate MAX_MBSSID_NUM (int WEP8021X_KEY_LEN),
          individual_wep_key_idx = replicate MAX_MBSSID_NUM 3,
          IEEE8021X_ikey = replicate MAX_MBSSID_NUM
            (case env_rand e (sent w) WEP8021X_KEY_LEN of Some r \<Rightarrow> r | None \<Rightarrow> zeros WEP8021X_KEY_LEN),
          own_ip_addr = 0, auth_servers = [], auth_server = None, num_eap_if = 1, eap_if_name = ifnames,
          num_preauth_if = 1, preauth_if_name = ifnames, radius_retry_primary_interval = 0, session_timeout_set = 0xffff,
          session_timeout_interval = 0, quiet_interval = 0,
          nasId = map (\<lambda>i. store 0 (RalinkAP @ [48 + of_nat i]) (zeros 32)) [0..<MAX_MBSSID_NUM],
          nasId_len = replicate MAX_MBSSID_NUM 9\<rparr>)"

text \<open>The network name of a BSS; the buffer of the query has 32 bytes, and the length is what the driver reports.\<close>

definition read_ssid :: "env \<Rightarrow> nat \<Rightarrow> rtapd_config \<times> rtapd \<Rightarrow> (rtapd_config \<times> rtapd) run" where
  "read_ssid e i st =
     (case st of (c, w) \<Rightarrow>
       let q = IfReq (ioctl_sock w) SIOCGIWESSID (prefix_wlan_name w @ dec_u8 (of_nat i)) in
       case env_ioctl e (sent w) q of (res, essid) \<Rightarrow>
       if res < 0 then ret (c, log_call q w)
       else if i < length (Ssid c) \<and> length essid \<le> HOSTAPD_MAX_SSID_LEN
       then ret (c\<lparr>SsidLen := (SsidLen c)[i := int (length essid)],
              Ssid := (Ssid c)[i := store 0 (essid @ replicate (HOSTAPD_MAX_SSID_LEN - length essid) 0) (Ssid c ! i)]\<rparr>, log_call q w)
       else fail OutOfBounds)"

fun read_ssids :: "env \<Rightarrow> nat list \<Rightarrow> rtapd_config \<times> rtapd \<Rightarrow> (rtapd_config \<times> rtapd) run" where
  "read_ssids e [] st = ret st"
| "read_ssids e (i # is) st = run_bind (read_ssid e i st) (read_ssids e is)"

definition Config_read :: "env \<Rightarrow> rtapd \<Rightarrow> (rtapd_config option \<times> rtapd) run" where
  "Config_read e w =
     (if \<not> env_alloc e sizeof_rtapd_config then ret (None, w)
      else
        run_bind (Query_config_from_driver e (config_defaults e w) w) (\<lambda>(q, w).
        case q of None \<Rightarrow> ret (None, w)
        | Some (c, errors, flag) \<Rightarrow>
            run_bind (read_ssids e [0..<nat (SsidNum c)] (c, w)) (\<lambda>(c, w).
              let c = c\<lparr>auth_server := (if auth_servers c = [] then None else Some 0)\<rparr>
              in ret (if errors \<noteq> 0 \<or> flag AND 0x0f \<noteq> 0x0f then None else Some c, w))))"

end
