(* ===== verification/Acl.thy ===== *)
theory Acl
  imports Ieee8021x Config
begin

text \<open>
  \<open>802.1x/ieee802_11_auth.c\<close>: the access control of addresses by the RADIUS server. The driver asks
  about an address; a request goes to the server and waits in \<open>acl_queries\<close>; the answer is put into
  \<open>acl_cache\<close> and told to the driver; entries of both lists expire.

  The lists are newest first, as the code links them. The build does not look into its cache before it asks
  (\<open>hostapd_acl_cache_get\<close> is compiled and not called).
\<close>

definition HOSTAPD_ACL_REJECT :: int where "HOSTAPD_ACL_REJECT = 0"
definition HOSTAPD_ACL_ACCEPT :: int where "HOSTAPD_ACL_ACCEPT = 1"
definition HOSTAPD_ACL_PENDING :: int where "HOSTAPD_ACL_PENDING = 2"
definition HOSTAPD_ACL_ACCEPT_TIMEOUT :: int where "HOSTAPD_ACL_ACCEPT_TIMEOUT = 3"
definition RADIUS_ATTR_ACCT_INTERIM_INTERVAL :: byte where "RADIUS_ATTR_ACCT_INTERIM_INTERVAL = 85"

definition sizeof_hostapd_acl_query_data :: nat where "sizeof_hostapd_acl_query_data = 24"
definition sizeof_hostapd_cached_radius_acl :: nat where "sizeof_hostapd_cached_radius_acl = 36"

section \<open>Expiry\<close>

text \<open>The age of an entry, a \<open>long\<close>, is compared with the unsigned timeout of its BSS.\<close>

definition older_than :: "int \<Rightarrow> int \<Rightarrow> u32 \<Rightarrow> bool" where
  "older_than now stamp timeout \<longleftrightarrow> (of_int (now - stamp) :: u32) > timeout"

text \<open>The result and the three outputs, when the address is found.\<close>

fun hostapd_acl_cache_get ::
    "int \<Rightarrow> byte list \<Rightarrow> byte \<Rightarrow> u32 list \<Rightarrow> hostapd_cached_radius_acl list \<Rightarrow> (int \<times> (u32 option \<times> u32 \<times> int) option) run" where
  "hostapd_acl_cache_get now addr apIdx tmo [] = ret (-1, None)"
| "hostapd_acl_cache_get now addr apIdx tmo (x # xs) =
     (if ac_addr x = addr \<and> ac_apIdx x = apIdx
      then run_bind (ap_arr tmo (ac_apIdx x)) (\<lambda>t.
        if older_than now (ac_timestamp x) t then ret (-1, None)
        else ret (accepted x, Some (if accepted x = HOSTAPD_ACL_ACCEPT_TIMEOUT then Some (ac_session_timeout x) else None,
               acct_interim_interval x, vlan_id x)))
      else hostapd_acl_cache_get now addr apIdx tmo xs)"

text \<open>The entries that stay, and the world after the calls to the driver.\<close>

fun expire_cache_walk :: "env \<Rightarrow> int \<Rightarrow> hostapd_cached_radius_acl list \<Rightarrow> rtapd \<Rightarrow> (hostapd_cached_radius_acl list \<times> rtapd) run" where
  "expire_cache_walk e now [] w = ret ([], w)"
| "expire_cache_walk e now (x # xs) w =
     run_bind (ap_arr (AclCacheTimeout (conf w)) (ac_apIdx x)) (\<lambda>t.
       if older_than now (ac_timestamp x) t
       then expire_cache_walk e now xs (snd (RT_ioctl e (ac_addr x) (ac_apIdx x) RT_OID_802_DOT1X_RADIUS_ACL_DEL_CACHE w))
       else run_map (\<lambda>(ys, w). (x # ys, w)) (expire_cache_walk e now xs w))"

definition hostapd_acl_expire_cache :: "env \<Rightarrow> int \<Rightarrow> rtapd \<Rightarrow> rtapd run" where
  "hostapd_acl_expire_cache e now w = run_map (\<lambda>(xs, w). w\<lparr>acl_cache := xs\<rparr>) (expire_cache_walk e now (acl_cache w) w)"

fun expire_queries_walk :: "int \<Rightarrow> u32 list \<Rightarrow> hostapd_acl_query_data list \<Rightarrow> hostapd_acl_query_data list run" where
  "expire_queries_walk now tmo [] = ret []"
| "expire_queries_walk now tmo (q # qs) =
     run_bind (ap_arr tmo (aq_apIdx q)) (\<lambda>t.
       if older_than now (aq_timestamp q) t then expire_queries_walk now tmo qs
       else run_map (Cons q) (expire_queries_walk now tmo qs))"

definition hostapd_acl_expire_queries :: "int \<Rightarrow> rtapd \<Rightarrow> rtapd run" where
  "hostapd_acl_expire_queries now w =
     run_map (\<lambda>qs. w\<lparr>acl_queries := qs\<rparr>) (expire_queries_walk now (AclCacheTimeout (conf w)) (acl_queries w))"

definition hostapd_acl_expire :: "env \<Rightarrow> rtapd \<Rightarrow> rtapd run" where
  "hostapd_acl_expire e w =
     run_bind (hostapd_acl_expire_cache e (env_time e) w) (\<lambda>w.
       run_map (add_timeout e 10 H_hostapd_acl_expire (Ctx Apd) NULL_CTX) (hostapd_acl_expire_queries (env_time e) w))"

section \<open>The request\<close>

text \<open>\<open>buf\<close> has 128 bytes.\<close>

definition snprintf128 :: "byte list \<Rightarrow> byte list" where
  "snprintf128 s = take 127 s"

text \<open>A password that cannot be added is left out.\<close>

definition put_password :: "env \<Rightarrow> byte list \<Rightarrow> byte list \<Rightarrow> attr_step" where
  "put_password e data secret msg =
     run_map (\<lambda>(pos, msg). Some msg) (Radius_msg_add_attr_user_password (env_alloc e) msg data secret)"

definition CONNECT_11Mbps :: "byte list" where
  "CONNECT_11Mbps = [67, 79, 78, 78, 69, 67, 84, 32, 49, 49, 77, 98, 112, 115, 32, 56, 48, 50, 46, 49, 49, 98]"

definition acl_request :: "env \<Rightarrow> byte list \<Rightarrow> byte \<Rightarrow> rtapd \<Rightarrow> radius_msg \<Rightarrow> radius_msg option run" where
  "acl_request e addr apidx w msg =
     run_bind (server_at w (auth_server (conf w))) (\<lambda>serv.
     run_bind (nas_identifier e (conf w) apidx) (\<lambda>nas.
     run_bind (ap_arr (own_addr w) apidx) (\<lambda>bssid.
     run_bind (ap_arr (Ssid (conf w)) apidx) (\<lambda>ssid.
     run_bind (c_string ssid) (\<lambda>ssid.
       put_attrs
         ([put_attr e RADIUS_ATTR_USER_NAME (RADIUS_ADDR_FORMAT addr),
           put_password e (RADIUS_ADDR_FORMAT addr) (shared_secret serv),
           put_attr e RADIUS_ATTR_NAS_IP_ADDRESS (le32 (own_ip_addr (conf w)))]
          @ nas
          @ [put_attr e RADIUS_ATTR_CALLED_STATION_ID (snprintf128 (RADIUS_802_1X_ADDR_FORMAT bssid @ [58] @ ssid)),
             put_attr e RADIUS_ATTR_CALLING_STATION_ID (RADIUS_802_1X_ADDR_FORMAT addr),
             put_attr32 e RADIUS_ATTR_NAS_PORT_TYPE RADIUS_NAS_PORT_TYPE_IEEE_802_11,
             put_attr e RADIUS_ATTR_CONNECT_INFO CONNECT_11Mbps])
         (Radius_msg_make_authenticator (env_now e) (env_random e (sent w)) msg addr))))))"

text \<open>When the datagram cannot be sent, the message is freed although \<open>Radius_client_list_add\<close> has taken it:
  an entry at the head of the list is left with a freed message, or a freed message is freed again.\<close>

definition free_head :: "radius_client_data \<Rightarrow> radius_client_data" where
  "free_head r = r\<lparr>msgs := (case msgs r of [] \<Rightarrow> [] | x # xs \<Rightarrow> x\<lparr>rm_msg := None\<rparr> # xs)\<rparr>"

definition hostapd_radius_acl_query ::
    "env \<Rightarrow> byte list \<Rightarrow> hostapd_acl_query_data \<Rightarrow> rtapd \<Rightarrow> (int \<times> hostapd_acl_query_data \<times> rtapd) run" where
  "hostapd_radius_acl_query e addr query w =
     run_bind (Radius_client_get_id w) (\<lambda>(i, w).
     let query = query\<lparr>radius_id := i\<rparr> in
     case Radius_msg_new (env_alloc e) RADIUS_CODE_ACCESS_REQUEST i of None \<Rightarrow> ret (-1, query, w)
     | Some msg \<Rightarrow>
         run_bind (acl_request e addr (aq_apIdx query) w msg) (\<lambda>built.
         case built of None \<Rightarrow> ret (-1, query, w)
         | Some msg \<Rightarrow>
             run_bind (Radius_client_send e msg (aq_apIdx query) w) (\<lambda>(res, owned, w).
               if res < 0 then
                 (if owned then run_map (\<lambda>r. (-1, query, put_radius (free_head r) w)) (get_radius w) else fail UseAfterFree)
               else ret (0, query, w))))"

text \<open>The three outputs are set to zero, and nothing else writes them.\<close>

definition hostapd_allowed_address :: "env \<Rightarrow> byte list \<Rightarrow> byte \<Rightarrow> rtapd \<Rightarrow> (int \<times> rtapd) run" where
  "hostapd_allowed_address e addr apIdx w =
     (if \<exists>q \<in> set (acl_queries w). aq_addr q = addr then ret (HOSTAPD_ACL_PENDING, w)
      else if auth_server (conf w) = None then ret (HOSTAPD_ACL_REJECT, w)
      else if \<not> env_alloc e sizeof_hostapd_acl_query_data then ret (HOSTAPD_ACL_REJECT, w)
      else run_bind (hostapd_radius_acl_query e addr
              \<lparr>aq_timestamp = env_time e, radius_id = 0, aq_addr = addr, aq_apIdx = apIdx\<rparr> w) (\<lambda>(res, query, w).
        if res \<noteq> 0 then ret (HOSTAPD_ACL_REJECT, w)
        else ret (HOSTAPD_ACL_PENDING, w\<lparr>acl_queries := query # acl_queries w\<rparr>)))"

section \<open>The answer\<close>

fun find_query :: "byte \<Rightarrow> hostapd_acl_query_data list
    \<Rightarrow> (hostapd_acl_query_data list \<times> hostapd_acl_query_data \<times> hostapd_acl_query_data list) option" where
  "find_query i [] = None"
| "find_query i (q # qs) =
     (if radius_id q = i then Some ([], q, qs) else map_option (\<lambda>(pre, x, post). (q # pre, x, post)) (find_query i qs))"

definition acl_entry :: "env \<Rightarrow> radius_msg \<Rightarrow> hostapd_acl_query_data \<Rightarrow> hostapd_cached_radius_acl" where
  "acl_entry e msg query =
     (let blank = \<lparr>ac_timestamp = env_time e, ac_addr = aq_addr query, accepted = HOSTAPD_ACL_REJECT, ac_session_timeout = 0,
            acct_interim_interval = 0, vlan_id = 0, ac_apIdx = aq_apIdx query\<rparr>
      in if msg_code msg = RADIUS_CODE_ACCESS_ACCEPT then
           (case Radius_msg_get_attr_int32 msg RADIUS_ATTR_SESSION_TIMEOUT of
              Some t \<Rightarrow> blank\<lparr>accepted := HOSTAPD_ACL_ACCEPT_TIMEOUT, ac_session_timeout := t\<rparr>
            | None \<Rightarrow> blank\<lparr>accepted := HOSTAPD_ACL_ACCEPT\<rparr>)
           \<lparr>acct_interim_interval := (case Radius_msg_get_attr_int32 msg RADIUS_ATTR_ACCT_INTERIM_INTERVAL of
              Some i \<Rightarrow> if i < 60 then 0 else i | None \<Rightarrow> 0)\<rparr>
         else blank)"

definition driver_acl_entry :: "hostapd_cached_radius_acl \<Rightarrow> byte list" where
  "driver_acl_entry c = ac_addr c @ [of_int (accepted c), of_int (accepted c div 256)]"

definition hostapd_acl_recv_radius ::
    "env \<Rightarrow> radius_msg \<Rightarrow> radius_msg option \<Rightarrow> byte list \<Rightarrow> rtapd \<Rightarrow> (RadiusRxResult \<times> radius_msg \<times> rtapd) run" where
  "hostapd_acl_recv_radius e msg req secret w =
     (case find_query (msg_identifier msg) (acl_queries w) of None \<Rightarrow> ret (RADIUS_RX_UNKNOWN, msg, w)
      | Some (pre, query, post) \<Rightarrow>
          run_bind (Radius_msg_verify msg secret req) (\<lambda>(bad, msg).
          if bad \<noteq> 0 then ret (RADIUS_RX_INVALID_AUTHENTICATOR, msg, w)
          else if msg_code msg \<noteq> RADIUS_CODE_ACCESS_ACCEPT \<and> msg_code msg \<noteq> RADIUS_CODE_ACCESS_REJECT then ret (RADIUS_RX_UNKNOWN, msg, w)
          else
            let w = (if \<not> env_alloc e sizeof_hostapd_cached_radius_acl then w
                     else let cache = acl_entry e msg query
                       in snd (RT_ioctl e (driver_acl_entry cache) (ac_apIdx cache) RT_OID_802_DOT1X_RADIUS_ACL_NEW_CACHE
                                (w\<lparr>acl_cache := cache # acl_cache w\<rparr>)))
            in ret (RADIUS_RX_PROCESSED, msg, w\<lparr>acl_queries := pre @ post\<rparr>)))"

definition hostapd_acl_init :: "env \<Rightarrow> rtapd \<Rightarrow> (int \<times> rtapd) run" where
  "hostapd_acl_init e w =
     run_map (\<lambda>(res, w). if res \<noteq> 0 then (-1, w) else (0, add_timeout e 10 H_hostapd_acl_expire (Ctx Apd) NULL_CTX w))
       (Radius_client_register e H_hostapd_acl_recv_radius w)"

text \<open>The lists are freed; the pointers to their first elements stay, and nothing follows them before the
  daemon exits.\<close>

definition hostapd_acl_deinit :: "rtapd \<Rightarrow> rtapd" where
  "hostapd_acl_deinit w =
     (del_timeout H_hostapd_acl_expire (Ctx Apd) NULL_CTX w)\<lparr>acl_cache := [], acl_queries := []\<rparr>"


section \<open>Lemmas on requests\<close>

lemma enc_avps_bound: "\<forall>av \<in> set avs. valid_avp av \<Longrightarrow> length (enc_avps avs) \<le> 255 * length avs"
  by (induction avs) (auto simp: enc_avp_length valid_avp_def RADIUS_MAX_ATTR_LEN_def)

lemma length_plain_format: "length (RADIUS_ADDR_FORMAT a) = 2 * length a"
  by (simp add: RADIUS_ADDR_FORMAT_def length_concat o_def hex2_def sum_list_triv)

text \<open>The attributes of a request for an address, with the encrypted password \<open>c\<close>.\<close>

definition acl_avps :: "rtapd \<Rightarrow> byte list \<Rightarrow> nat \<Rightarrow> byte list \<Rightarrow> avp list" where
  "acl_avps w addr n c =
     [(RADIUS_ATTR_USER_NAME, RADIUS_ADDR_FORMAT addr), (RADIUS_ATTR_USER_PASSWORD, c),
      (RADIUS_ATTR_NAS_IP_ADDRESS, le32 (own_ip_addr (conf w)))]
     @ nas_avps (conf w) n
     @ [(RADIUS_ATTR_CALLED_STATION_ID, snprintf128 (RADIUS_802_1X_ADDR_FORMAT (own_addr w ! n) @ [58] @ takeWhile (\<lambda>c. c \<noteq> 0) (Ssid (conf w) ! n))),
        (RADIUS_ATTR_CALLING_STATION_ID, RADIUS_802_1X_ADDR_FORMAT addr),
        (RADIUS_ATTR_NAS_PORT_TYPE, be32 RADIUS_NAS_PORT_TYPE_IEEE_802_11),
        (RADIUS_ATTR_CONNECT_INFO, CONNECT_11Mbps)]"

lemma acl_request_spec:
  assumes mem: "env_alloc e = no_oom" and bss: "bss_ok w" and n: "unat ap < MAX_MBSSID_NUM" and addr: "length addr = 6"
    and ssid: "unat ap < length (Ssid (conf w))" "0 \<in> set (Ssid (conf w) ! unat ap)"
    and serv: "server_at w (auth_server (conf w)) = ret s" and m0: "Radius_msg_new (env_alloc e) RADIUS_CODE_ACCESS_REQUEST i = Some m0"
  shows "\<exists>m c k. acl_request e addr ap w m0 = ret (Some m) \<and> wf_msg m \<and> avps m = acl_avps w addr (unat ap) c
    \<and> msg_code m = RADIUS_CODE_ACCESS_REQUEST \<and> msg_identifier m = i \<and> k < 16
    \<and> password_decrypt (shared_secret s) (msg_authenticator m) c = RADIUS_ADDR_FORMAT addr @ replicate k 0"
proof -
  note ap = bss_okD [OF bss n]
  let ?name = "RADIUS_ADDR_FORMAT addr"
  let ?called = "snprintf128 (RADIUS_802_1X_ADDR_FORMAT (own_addr w ! unat ap) @ [58] @ takeWhile (\<lambda>c. c \<noteq> 0) (Ssid (conf w) ! unat ap))"
  have small: "length ?name \<le> RADIUS_MAX_ATTR_LEN" "length (le32 v) \<le> RADIUS_MAX_ATTR_LEN" "length ?called \<le> RADIUS_MAX_ATTR_LEN"
    "length (RADIUS_802_1X_ADDR_FORMAT addr) \<le> RADIUS_MAX_ATTR_LEN" "length CONNECT_11Mbps \<le> RADIUS_MAX_ATTR_LEN" for v
    using addr by (simp_all add: RADIUS_MAX_ATTR_LEN_def length_addr_format length_plain_format snprintf128_def CONNECT_11Mbps_def)
  let ?nas = "if nasId_len (conf w) ! unat ap > 0
     then [put_attr e RADIUS_ATTR_NAS_IDENTIFIER (take (nat (nasId_len (conf w) ! unat ap)) (nasId (conf w) ! unat ap))] else []"
  have nas: "nas_identifier e (conf w) ap = ret ?nas"
    using ap(3-6) by (simp add: nas_identifier_def slice_def)
  have addn: "adds (put_attrs ?nas) (nas_avps (conf w) (unat ap))"
    using ap(3-6) by (simp add: nas_avps_def adds_nil) (intro impI adds_single put_attr_adds mem; simp add: RADIUS_MAX_ATTR_LEN_def)
  have add2: "adds (put_attrs [put_attr e RADIUS_ATTR_NAS_IP_ADDRESS (le32 (own_ip_addr (conf w)))])
      [(RADIUS_ATTR_NAS_IP_ADDRESS, le32 (own_ip_addr (conf w)))]"
    by (intro adds_single put_attr_adds mem small)
  have add3: "adds (put_attrs [put_attr e RADIUS_ATTR_CALLED_STATION_ID ?called, put_attr e RADIUS_ATTR_CALLING_STATION_ID (RADIUS_802_1X_ADDR_FORMAT addr),
        put_attr32 e RADIUS_ATTR_NAS_PORT_TYPE v, put_attr e RADIUS_ATTR_CONNECT_INFO CONNECT_11Mbps])
     ([(RADIUS_ATTR_CALLED_STATION_ID, ?called)] @ [(RADIUS_ATTR_CALLING_STATION_ID, RADIUS_802_1X_ADDR_FORMAT addr)]
       @ [(RADIUS_ATTR_NAS_PORT_TYPE, be32 v)] @ [(RADIUS_ATTR_CONNECT_INFO, CONNECT_11Mbps)])" for v
    by (intro adds_cons adds_single put_attr_adds put_attr32_adds mem small)
  note rest = adds_append [OF add2 adds_append [OF addn add3 [of RADIUS_NAS_PORT_TYPE_IEEE_802_11]]]
  let ?m = "Radius_msg_make_authenticator (env_now e) (env_random e (sent w)) m0 addr"
  have m: "wf_msg ?m" "avps ?m = []" "msg_code ?m = RADIUS_CODE_ACCESS_REQUEST" "msg_identifier ?m = i"
    using new_spec [OF m0] header_edit [of m0 4]
    by (auto simp: Radius_msg_make_authenticator_def msg_code_def msg_identifier_def nth_store_low wf_msg_def)
  obtain m1 where m1: "put_attr e RADIUS_ATTR_USER_NAME ?name ?m = ret (Some m1)" "wf_msg m1" "avps m1 = [(RADIUS_ATTR_USER_NAME, ?name)]"
      "take 20 (rbuf m1) = take 20 (rbuf ?m)"
    using put_attr_adds [OF small(1) mem, of RADIUS_ATTR_USER_NAME] m(1,2) by (auto simp: adds_def)
  obtain m2 c k where m2: "put_password e ?name (shared_secret s) m1 = ret (Some m2)" "wf_msg m2"
      "avps m2 = avps m1 @ [(RADIUS_ATTR_USER_PASSWORD, c)]" "take 20 (rbuf m2) = take 20 (rbuf m1)" "k < 16"
      "password_decrypt (shared_secret s) (msg_authenticator m1) c = ?name @ replicate k 0"
    using user_password_spec [OF m1(2), of ?name "shared_secret s"] addr by (auto simp: put_password_def mem length_plain_format)
  obtain m3 where m3: "put_attrs ([put_attr e RADIUS_ATTR_NAS_IP_ADDRESS (le32 (own_ip_addr (conf w)))] @ ?nas
        @ [put_attr e RADIUS_ATTR_CALLED_STATION_ID ?called, put_attr e RADIUS_ATTR_CALLING_STATION_ID (RADIUS_802_1X_ADDR_FORMAT addr),
        put_attr32 e RADIUS_ATTR_NAS_PORT_TYPE RADIUS_NAS_PORT_TYPE_IEEE_802_11, put_attr e RADIUS_ATTR_CONNECT_INFO CONNECT_11Mbps]) m2 = ret (Some m3)"
      "wf_msg m3" "avps m3 = acl_avps w addr (unat ap) c" "take 20 (rbuf m3) = take 20 (rbuf m2)"
    using rest [unfolded adds_def, rule_format, OF m2(2)] m2(3) m1(3) by (auto simp: acl_avps_def)
  have same: "rbuf m3 ! j = rbuf ?m ! j" if "j < 20" for j
    using m3(4) m2(4) m1(4) that by (metis nth_take)
  have auth: "msg_authenticator m3 = msg_authenticator m1"
  proof -
    have "msg_authenticator x = drop 4 (take 20 (rbuf x))" for x by (simp add: msg_authenticator_def slice_def drop_take)
    then show ?thesis using m3(4) m2(4) by simp
  qed
  have "acl_request e addr ap w m0 = ret (Some m3)"
    using ssid m1(1) m2(1) m3(1) ap(1)
    by (simp add: acl_request_def serv nas c_string_def)
  then show ?thesis
    using m3(2,3) m(3,4) same auth m2(5,6) by (intro exI [of _ m3] exI [of _ c] exI [of _ k]) (simp add: msg_code_def msg_identifier_def)
qed

section \<open>Properties\<close>

text \<open>A question to the server about an address is one datagram to the current server, which the parser of the server
  accepts: an Access-Request under the next identifier whose name is the address, whose password decrypts to the
  address, with the attributes of the access point and a Message-Authenticator. When the system refuses the
  datagram the question fails, but the message was already put into the list of the client and is freed there: the
  next operation that frees the list, such as a change of the server, frees it again.\<close>

lemma hostapd_radius_acl_query_sends:
  assumes inv: "client_inv w" and r: "radius w = Some r" and bss: "bss_ok w" and mem: "env_alloc e = no_oom"
    and run: "\<not> eloop_terminated (eloop w)" and srv: "auth_server (conf w) = Some j"
    and n: "unat (aq_apIdx q) < MAX_MBSSID_NUM" and addr: "length addr = 6"
    and ssid: "unat (aq_apIdx q) < length (Ssid (conf w))" "0 \<in> set (Ssid (conf w) ! unat (aq_apIdx q))"
  defines "s \<equiv> auth_servers (conf w) ! j" and "i \<equiv> next_radius_identifier r"
  shows "\<exists>w' data m c k. let call = SendTo (auth_serv_sock r) (srv_addr s) (take_bit 16 (srv_port s)) data; res = env_send e (sent w) call in
      hostapd_radius_acl_query e addr q w = ret (if res < 0 then -1 else 0, q\<lparr>radius_id := i\<rparr>, w')
    \<and> sent w' = sent w @ [call] \<and> Radius_msg_parse no_oom data = Some m
    \<and> msg_code m = RADIUS_CODE_ACCESS_REQUEST \<and> msg_identifier m = i
    \<and> butlast (avps m) = acl_avps w addr (unat (aq_apIdx q)) c \<and> fst (last (avps m)) = RADIUS_ATTR_MESSAGE_AUTHENTICATOR
    \<and> password_decrypt (shared_secret s) (msg_authenticator m) c = RADIUS_ADDR_FORMAT addr @ replicate k 0
    \<and> (if res < 0 then Radius_client_flush w' = fail UseAfterFree else client_inv w')"
proof -
  let ?r = "got_id i r" and ?ap = "aq_apIdx q"
  let ?w = "put_radius ?r w"
  have frame: "conf ?w = conf w" "own_addr ?w = own_addr w" "eloop ?w = eloop w" "sent ?w = sent w" "radius ?w = Some ?r"
    by (simp_all add: put_radius_def)
  have inv': "client_inv ?w" using client_invD [OF inv] r by (simp add: got_id_ok)
  have bss': "bss_ok ?w" using bss by (simp add: bss_ok_def put_radius_def)
  have serv: "server_at ?w (auth_server (conf ?w)) = ret s"
    using client_invD(2) [OF inv] srv by (simp add: s_def server_at_def conf_ok_def num_auth_servers_def)
  obtain m0 where m0: "Radius_msg_new (env_alloc e) RADIUS_CODE_ACCESS_REQUEST i = Some m0"
    by (auto simp: mem Radius_msg_new_def Radius_msg_initialize_def no_oom_def RADIUS_DEFAULT_MSG_SIZE_def)
  obtain m1 c k where m1: "acl_request e addr ?ap ?w m0 = ret (Some m1)" "wf_msg m1" "avps m1 = acl_avps ?w addr (unat ?ap) c"
      "msg_code m1 = RADIUS_CODE_ACCESS_REQUEST" "msg_identifier m1 = i"
      "password_decrypt (shared_secret s) (msg_authenticator m1) c = RADIUS_ADDR_FORMAT addr @ replicate k 0"
    using acl_request_spec [OF mem bss' n addr _ _ serv m0] ssid unfolding frame(1) by blast
  have same: "acl_avps ?w addr (unat ?ap) c = acl_avps w addr (unat ?ap) c" by (simp add: acl_avps_def put_radius_def)
  have "length (avps m1) \<le> 8" by (simp add: m1(3) acl_avps_def nas_avps_def)
  then have size: "38 + length (enc_avps (avps m1)) < 2 ^ 16"
    using enc_avps_bound [OF wf_msg_valid [OF m1(2)]] by simp
  obtain data m m2 where send: "let d = SendTo (auth_serv_sock ?r) (srv_addr s) (take_bit 16 (srv_port s)) data in
      Radius_client_send e m1 ?ap ?w = ret (env_send e (sent w) d, True,
        put_radius (added_client (new_entry (env_time e) m2 (shared_secret s) ?ap) ?r)
          (if msgs ?r = [] then add_timeout e 1 H_Radius_client_timer (Ctx Apd) NULL_CTX (log_call d ?w) else log_call d ?w))
      \<and> Radius_msg_parse no_oom data = Some m \<and> msg_code m = RADIUS_CODE_ACCESS_REQUEST \<and> msg_identifier m = i
      \<and> msg_authenticator m = msg_authenticator m1
      \<and> (\<exists>mac. avps m = acl_avps w addr (unat ?ap) c @ [(RADIUS_ATTR_MESSAGE_AUTHENTICATOR, mac)])"
    using client_send_spec [OF inv' frame(5) m1(2) mem _ _ size, of j ?ap] run srv
    unfolding frame m1(3-5) same s_def [symmetric] Let_def by blast
  define call where "call = SendTo (auth_serv_sock r) (srv_addr s) (take_bit 16 (srv_port s)) data"
  have c: "SendTo (auth_serv_sock ?r) (srv_addr s) (take_bit 16 (srv_port s)) data = call" by (simp add: call_def got_id_def)
  note send = send [unfolded Let_def c]
  define x where "x = new_entry (env_time e) m2 (shared_secret s) ?ap"
  define v where "v = put_radius (added_client x ?r)
          (if msgs ?r = [] then add_timeout e 1 H_Radius_client_timer (Ctx Apd) NULL_CTX (log_call call ?w) else log_call call ?w)"
  have sent: "Radius_client_send e m1 ?ap ?w = ret (env_send e (sent w) call, True, v)" "sent v = sent w @ [call]" "radius v = Some (added_client x ?r)"
    using send by (simp_all add: v_def x_def)
  have run': "hostapd_radius_acl_query e addr q w = ret (if env_send e (sent w) call < 0 then -1 else 0, q\<lparr>radius_id := i\<rparr>,
      if env_send e (sent w) call < 0 then put_radius (free_head (added_client x ?r)) v else v)"
    using m0 m1(1) sent(1,3) by (simp add: hostapd_radius_acl_query_def get_id_spec [OF inv r, folded i_def] Let_def)
  have flush: "Radius_client_flush (put_radius (free_head (added_client x ?r)) v) = fail UseAfterFree"
    by (simp add: Radius_client_flush_def free_head_def added_client_def Radius_client_msg_free_def run_map_def)
  have keep: "client_inv v"
  proof -
    have "req_ok i m1" using m1(2,5) by (simp add: req_ok_def wf_msg_def)
    moreover have "i \<notin> ident ` set (msgs ?r)" by (auto simp: got_id_def)
    ultimately have "tx_frame 0 ?w v"
      using client_send_frame [OF frame(5), of i m1 e ?ap 0] sent(1) by (simp add: yields_def)
    then show ?thesis using inv' by (simp add: tx_frame_def)
  qed
  obtain mac where avps: "avps m = acl_avps w addr (unat ?ap) c @ [(RADIUS_ATTR_MESSAGE_AUTHENTICATOR, mac)]" using send by blast
  have "sent (put_radius (free_head (added_client x ?r)) v) = sent w @ [call]" using sent(2) by simp
  then show ?thesis
    unfolding Let_def
    by (intro exI [of _ "if env_send e (sent w) call < 0 then put_radius (free_head (added_client x ?r)) v else v"]
        exI [of _ data] exI [of _ m] exI [of _ c] exI [of _ k]) (use run' sent(2) send m1(6) flush keep avps in \<open>simp add: call_def [symmetric]\<close>)
qed

lemma sample_acl_world:
  defines "w \<equiv> sample_world\<lparr>conf := sample_conf\<lparr>Ssid := replicate 8 [0]\<rparr>\<rparr>"
  shows "client_inv w" "radius w = Some sample_radius" "bss_ok w" "\<not> eloop_terminated (eloop w)" "auth_server (conf w) = Some 0"
    "0 < length (Ssid (conf w))" "0 \<in> set (Ssid (conf w) ! 0)" "sent w = []"
  by (simp_all add: w_def client_inv_def conf_ok_def num_auth_servers_def client_ok_def bss_ok_def sample_defs MAX_MBSSID_NUM_def MAC_ADDR_LEN_def
      WEP8021X_KEY_LEN_def eloop_terminated_def eloop_init_def)

lemma hostapd_radius_acl_query_sends_witness:
  "\<exists>q w' data m. hostapd_radius_acl_query (sample_env\<lparr>env_send := (\<lambda>l c. -1)\<rparr>) [2, 0, 0, 0, 0, 1]
       \<lparr>aq_timestamp = 0, radius_id = 0, aq_addr = [2, 0, 0, 0, 0, 1], aq_apIdx = 0\<rparr>
       (sample_world\<lparr>conf := sample_conf\<lparr>Ssid := replicate 8 [0]\<rparr>\<rparr>) = ret (-1, q, w')
     \<and> sent w' = [SendTo 5 2 1812 data] \<and> Radius_msg_parse no_oom data = Some m \<and> msg_code m = RADIUS_CODE_ACCESS_REQUEST
     \<and> Radius_client_flush w' = fail UseAfterFree"
proof -
  let ?q = "\<lparr>aq_timestamp = 0, radius_id = 0, aq_addr = [2, 0, 0, 0, 0, 1], aq_apIdx = 0\<rparr>"
  have pre: "env_alloc (sample_env\<lparr>env_send := (\<lambda>l c. -1)\<rparr>) = no_oom" "unat (aq_apIdx ?q) < MAX_MBSSID_NUM" "length [2, 0, 0, 0, 0, 1 :: byte] = 6"
      "unat (aq_apIdx ?q) = 0"
    by (simp_all add: sample_env_def MAX_MBSSID_NUM_def)
  have serv: "auth_serv_sock sample_radius = 5" "srv_addr (auth_servers (conf (sample_world\<lparr>conf := sample_conf\<lparr>Ssid := replicate 8 [0]\<rparr>\<rparr>)) ! 0) = 2"
      "take_bit 16 (srv_port (auth_servers (conf (sample_world\<lparr>conf := sample_conf\<lparr>Ssid := replicate 8 [0]\<rparr>\<rparr>)) ! 0)) = 1812"
      "env_send (sample_env\<lparr>env_send := (\<lambda>l c. -1)\<rparr>) = (\<lambda>l c. -1)"
    by (simp_all add: sample_defs)
  show ?thesis
    using hostapd_radius_acl_query_sends [OF sample_acl_world(1-3) pre(1) sample_acl_world(4,5) pre(2,3)] sample_acl_world(6-8)
    unfolding serv pre(4) Let_def by auto
qed

lemma find_query_Some:
  "find_query i qs = Some (pre, q, post) \<Longrightarrow> qs = pre @ q # post \<and> radius_id q = i"
  by (induction qs arbitrary: pre) (auto split: if_splits option.splits)

text \<open>C28. The answer of the server about an address decides. It only counts when a question with its identifier waits and
  it verifies against the secret and the request; then the question is settled, and the only entry that is new in
  the cache is one for the address and the BSS of that question, which admits the address exactly when the answer is an
  Access-Accept; the driver is told this entry and nothing else. Any other message changes nothing.\<close>

theorem hostapd_acl_recv_radius_decides:
  assumes "wf_msg msg" "hostapd_acl_recv_radius e msg req secret w = ret (res, msg', w')"
  shows "msg' = msg \<and>
    (if res = RADIUS_RX_PROCESSED
     then \<exists>pre q post. acl_queries w = pre @ q # post \<and> acl_queries w' = pre @ post \<and> radius_id q = msg_identifier msg
       \<and> Radius_msg_verify msg secret req = ret (0, msg) \<and> msg_code msg \<in> {RADIUS_CODE_ACCESS_ACCEPT, RADIUS_CODE_ACCESS_REJECT}
       \<and> (acl_cache w' = acl_cache w \<and> sent w' = sent w \<and> env_alloc e \<noteq> no_oom
          \<or> (\<exists>c. acl_cache w' = c # acl_cache w \<and> ac_addr c = aq_addr q \<and> ac_apIdx c = aq_apIdx q
              \<and> (accepted c = HOSTAPD_ACL_REJECT \<longleftrightarrow> msg_code msg = RADIUS_CODE_ACCESS_REJECT)
              \<and> sent w' = sent w @ [Ioctl (ioctl_sock w) (prefix_wlan_name w @ dec_u8 (aq_apIdx q)) RT_OID_802_DOT1X_RADIUS_ACL_NEW_CACHE (driver_acl_entry c)]))
     else w' = w)"
proof (cases "find_query (msg_identifier msg) (acl_queries w)")
  case None
  then show ?thesis using assms(2) by (auto simp: hostapd_acl_recv_radius_def)
next
  case (Some found)
  obtain pre q post where found: "found = (pre, q, post)" by (metis prod.exhaust)
  then have q: "acl_queries w = pre @ q # post" "radius_id q = msg_identifier msg"
    using find_query_Some Some by blast+
  obtain bad m where v: "Radius_msg_verify msg secret req = ret (bad, m)"
    using assms(2) Some found by (cases "Radius_msg_verify msg secret req" rule: run_cases) (auto simp: hostapd_acl_recv_radius_def)
  then have m: "m = msg" using verify_restores [OF assms(1)] by blast
  have codes: "RADIUS_CODE_ACCESS_ACCEPT \<noteq> RADIUS_CODE_ACCESS_REJECT"
    by (simp add: RADIUS_CODE_ACCESS_ACCEPT_def RADIUS_CODE_ACCESS_REJECT_def)
  let ?c = "acl_entry e msg q"
  have entry: "ac_addr ?c = aq_addr q" "ac_apIdx ?c = aq_apIdx q"
    "accepted ?c = HOSTAPD_ACL_REJECT \<longleftrightarrow> msg_code msg \<noteq> RADIUS_CODE_ACCESS_ACCEPT"
    by (auto simp: acl_entry_def HOSTAPD_ACL_REJECT_def HOSTAPD_ACL_ACCEPT_def HOSTAPD_ACL_ACCEPT_TIMEOUT_def Let_def split: option.split)
  have run: "msg' = msg \<and> (if res = RADIUS_RX_PROCESSED
      then bad = 0 \<and> msg_code msg \<in> {RADIUS_CODE_ACCESS_ACCEPT, RADIUS_CODE_ACCESS_REJECT} \<and> acl_queries w' = pre @ post
        \<and> (if env_alloc e sizeof_hostapd_cached_radius_acl
            then acl_cache w' = ?c # acl_cache w
              \<and> sent w' = sent w @ [Ioctl (ioctl_sock w) (prefix_wlan_name w @ dec_u8 (aq_apIdx q)) RT_OID_802_DOT1X_RADIUS_ACL_NEW_CACHE (driver_acl_entry ?c)]
            else acl_cache w' = acl_cache w \<and> sent w' = sent w)
      else w' = w)"
    using assms(2) Some found v entry(2) unfolding m
    by (auto simp: hostapd_acl_recv_radius_def RT_ioctl_def Let_def log_call_def split: if_splits prod.splits)
  show ?thesis
  proof (cases "res = RADIUS_RX_PROCESSED")
    case True
    have accept: "accepted ?c = HOSTAPD_ACL_REJECT \<longleftrightarrow> msg_code msg = RADIUS_CODE_ACCESS_REJECT"
      using run True entry(3) codes by auto
    have cache: "acl_cache w' = acl_cache w \<and> sent w' = sent w \<and> env_alloc e \<noteq> no_oom
          \<or> (\<exists>c. acl_cache w' = c # acl_cache w \<and> ac_addr c = aq_addr q \<and> ac_apIdx c = aq_apIdx q
              \<and> (accepted c = HOSTAPD_ACL_REJECT \<longleftrightarrow> msg_code msg = RADIUS_CODE_ACCESS_REJECT)
              \<and> sent w' = sent w @ [Ioctl (ioctl_sock w) (prefix_wlan_name w @ dec_u8 (aq_apIdx q)) RT_OID_802_DOT1X_RADIUS_ACL_NEW_CACHE (driver_acl_entry c)])"
    proof (cases "env_alloc e sizeof_hostapd_cached_radius_acl")
      case False
      then have "env_alloc e \<noteq> no_oom" by (auto simp: no_oom_def)
      then show ?thesis using run True False by simp
    next
      case alloc: True
      show ?thesis
        by (rule disjI2, rule exI [of _ ?c]) (use run True alloc entry(1,2) accept in simp)
    qed
    have "Radius_msg_verify msg secret req = ret (0, msg)" using v m run True by simp
    then show ?thesis
      unfolding if_P [OF True]
      using run True q cache by (intro conjI exI [of _ pre] exI [of _ q] exI [of _ post]) simp_all
  qed (use run in simp)
qed

text \<open>An answer of a server that has the secret, to the question with the identifier 7.\<close>

theorem hostapd_acl_recv_radius_decides_witness:
  "\<exists>msg req w' c. hostapd_acl_recv_radius sample_env msg (Some req) [115]
       (sample_world\<lparr>acl_queries := [\<lparr>aq_timestamp = 0, radius_id = 7, aq_addr = [2, 0, 0, 0, 0, 1], aq_apIdx = 0\<rparr>]\<rparr>)
     = ret (RADIUS_RX_PROCESSED, msg, w') \<and> acl_queries w' = [] \<and> acl_cache w' = [c] \<and> ac_addr c = [2, 0, 0, 0, 0, 1]
     \<and> accepted c \<noteq> HOSTAPD_ACL_REJECT"
proof -
  let ?w = "sample_world\<lparr>acl_queries := [\<lparr>aq_timestamp = 0, radius_id = 7, aq_addr = [2, 0, 0, 0, 0, 1], aq_apIdx = 0\<rparr>]\<rparr>"
  obtain m where m: "Radius_msg_new no_oom RADIUS_CODE_ACCESS_ACCEPT 7 = Some m"
    by (auto simp: Radius_msg_new_def Radius_msg_initialize_def no_oom_def RADIUS_DEFAULT_MSG_SIZE_def)
  note new = new_spec [OF m]
  obtain s where s: "Radius_msg_verify s [115] (Some m) = ret (0, s)" "wf_msg s" "msg_code s = RADIUS_CODE_ACCESS_ACCEPT" "msg_identifier s = 7"
    using signed_response [of m m "[115]"] new by (auto simp: Let_def)
  obtain w' where run: "hostapd_acl_recv_radius sample_env s (Some m) [115] ?w = ret (RADIUS_RX_PROCESSED, s, w')"
    using s by (simp add: hostapd_acl_recv_radius_def Let_def)
  have mem: "env_alloc sample_env = no_oom" "acl_cache ?w = []" "acl_queries ?w = [\<lparr>aq_timestamp = 0, radius_id = 7, aq_addr = [2, 0, 0, 0, 0, 1], aq_apIdx = 0\<rparr>]"
    by (simp_all add: sample_defs)
  have "RADIUS_CODE_ACCESS_ACCEPT \<noteq> RADIUS_CODE_ACCESS_REJECT"
    by (simp add: RADIUS_CODE_ACCESS_ACCEPT_def RADIUS_CODE_ACCESS_REJECT_def)
  then show ?thesis
    using hostapd_acl_recv_radius_decides [OF s(2) run] run s(3) unfolding mem
    by (intro exI [of _ s] exI [of _ m] exI [of _ w']) (auto simp: Cons_eq_append_conv)
qed

end
