(* ===== verification/ConfigShape.thy ===== *)
theory ConfigShape
  imports Acl
begin

text \<open>
  What a configuration that \<open>Config_read\<close> returns looks like: the arrays over the BSSs have their sizes, the lengths
  kept beside an array are inside it, the numbers are in their ranges and there is a current server. The other
  parts of the daemon assume as much (\<open>bss_ok\<close>, \<open>conf_ok\<close>).
\<close>

section \<open>The shape\<close>

definition rows_of :: "nat \<Rightarrow> byte list list \<Rightarrow> bool" where
  "rows_of k rows \<longleftrightarrow> length rows = MAX_MBSSID_NUM \<and> (\<forall>r \<in> set rows. length r = k)"

definition conf_shape :: "rtapd_config \<Rightarrow> bool" where
  "conf_shape c \<longleftrightarrow> rows_of 33 (Ssid c) \<and> (\<forall>s \<in> set (Ssid c). s ! 32 = 0)
     \<and> rows_of 13 (IEEE8021X_ikey c) \<and> rows_of 32 (nasId c) \<and> rows_of 16 (eap_if_name c) \<and> rows_of 16 (preauth_if_name c)
     \<and> length (SsidLen c) = MAX_MBSSID_NUM \<and> length (AclCacheTimeout c) = MAX_MBSSID_NUM \<and> length (RadiusAclEnable c) = MAX_MBSSID_NUM
     \<and> length (DefaultKeyID c) = MAX_MBSSID_NUM \<and> length (individual_wep_key_len c) = MAX_MBSSID_NUM
     \<and> length (individual_wep_key_idx c) = MAX_MBSSID_NUM \<and> length (nasId_len c) = MAX_MBSSID_NUM
     \<and> (\<forall>n \<in> set (nasId_len c). 0 \<le> n \<and> n \<le> 32) \<and> (\<forall>n \<in> set (individual_wep_key_len c). n = 5 \<or> n = 13)
     \<and> (\<forall>n \<in> set (individual_wep_key_idx c). n = 0 \<or> n = 3)"

lemma run_map_fail [simp]: "run_map f (fail e) = fail e"
  by (simp add: run_map_def)

declare yields_True [simp]

lemma rows_update: "rows_of k rows \<Longrightarrow> length row = k \<Longrightarrow> rows_of k (rows[i := row])"
  by (auto simp: rows_of_def dest: set_update_subset_insert [THEN subsetD])

lemma copy_row_shape: "rows_of k rows \<Longrightarrow> yields (copy_row off n buf i rows) (\<lambda>rows'. rows_of k rows' \<and> n \<le> k)"
proof -
  assume rows: "rows_of k rows"
  have row: "length (rows ! i) = k" if "i < length rows" using rows that by (simp add: rows_of_def)
  have "rows_of k (rows[i := store 0 (slice off n buf) (rows ! i)])" if "i < length rows" "off + n \<le> length buf" "n \<le> k"
    using that row by (intro rows_update [OF rows]) simp
  then show ?thesis using row by (simp add: copy_row_def mem_read_def mem_write_def)
qed

lemma all_update: "\<forall>x \<in> set xs. P x \<Longrightarrow> P y \<Longrightarrow> \<forall>x \<in> set (xs[i := y]). P x"
  by (auto dest: set_update_subset_insert [THEN subsetD])


section \<open>What the steps of the query keep\<close>

text \<open>The fields a step does not touch keep the shape with it.\<close>

lemma defaults_shape:
  assumes "\<forall>l n r. env_rand e l n = Some r \<longrightarrow> length r = n"
  shows "conf_shape (config_defaults e w)"
proof -
  have key: "length (case env_rand e (sent w) WEP8021X_KEY_LEN of Some r \<Rightarrow> r | None \<Rightarrow> replicate WEP8021X_KEY_LEN 0) = 13"
    using assms by (auto simp: WEP8021X_KEY_LEN_def split: option.split)
  have "rows_of 16 ((replicate MAX_MBSSID_NUM (replicate IFNAMSIZ 0))[0 := store 0 br0 (replicate IFNAMSIZ 0)])"
    by (intro rows_update) (simp_all add: rows_of_def IFNAMSIZ_def br0_def)
  moreover have "rows_of 32 (map (\<lambda>i. store 0 (RalinkAP @ [48 + of_nat i]) (replicate 32 0)) [0..<MAX_MBSSID_NUM])"
    by (auto simp: rows_of_def RalinkAP_def)
  ultimately show ?thesis
    using key by (simp add: conf_shape_def config_defaults_def Let_def rows_of_def HOSTAPD_MAX_SSID_LEN_def WEP8021X_KEY_LEN_def)
qed

definition bare :: "rtapd_config \<Rightarrow> rtapd_config" where
  "bare c = c\<lparr>SsidNum := 0, own_ip_addr := 0, auth_servers := [], auth_server := None, num_eap_if := 0, num_preauth_if := 0,
     radius_retry_primary_interval := 0, session_timeout_set := 0, session_timeout_interval := 0, quiet_interval := 0\<rparr>"

lemma shape_bare: "conf_shape (bare c) \<longleftrightarrow> conf_shape c"
  by (simp add: bare_def conf_shape_def)

lemma bare_simps [simp]:
  "bare (c\<lparr>SsidNum := i\<rparr>) = bare c" "bare (c\<lparr>own_ip_addr := u\<rparr>) = bare c" "bare (c\<lparr>auth_servers := ss\<rparr>) = bare c"
  "bare (c\<lparr>auth_server := j\<rparr>) = bare c" "bare (c\<lparr>num_eap_if := i\<rparr>) = bare c" "bare (c\<lparr>num_preauth_if := i\<rparr>) = bare c"
  "bare (c\<lparr>radius_retry_primary_interval := i\<rparr>) = bare c" "bare (c\<lparr>session_timeout_set := i\<rparr>) = bare c"
  "bare (c\<lparr>session_timeout_interval := i\<rparr>) = bare c" "bare (c\<lparr>quiet_interval := i\<rparr>) = bare c" "bare (set_server k f c) = bare c"
  by (simp_all add: bare_def set_server_def)

text \<open>What the servers' part of the structure leaves alone, and how many servers it adds.\<close>

definition servers_read :: "rtapd_config \<times> nat \<Rightarrow> rtapd_config \<times> nat \<Rightarrow> bool" where
  "servers_read s s' \<longleftrightarrow> bare (fst s') = bare (fst s) \<and> SsidNum (fst s') = SsidNum (fst s) \<and> own_ip_addr (fst s') = own_ip_addr (fst s)
     \<and> length (auth_servers (fst s')) + snd s = length (auth_servers (fst s)) + snd s'
     \<and> ((\<forall>x \<in> set (auth_servers (fst s)). srv_addr x \<noteq> 0) \<longrightarrow> (\<forall>x \<in> set (auth_servers (fst s')). srv_addr x \<noteq> 0))"

lemma servers_read_refl [simp]: "servers_read s s"
  by (simp add: servers_read_def)

lemma servers_read_trans: "servers_read a b \<Longrightarrow> servers_read b c \<Longrightarrow> servers_read a c"
  unfolding servers_read_def by (elim conjE, intro conjI) (metis | linarith | blast)+

lemma servers_read_set:
  assumes "servers_read s (c, n)" "\<And>x. srv_addr (f x) = srv_addr x"
  shows "servers_read s (set_server j f c, n)"
proof -
  have eqs: "bare (set_server j f c) = bare c" "SsidNum (set_server j f c) = SsidNum c" "own_ip_addr (set_server j f c) = own_ip_addr c"
    "length (auth_servers (set_server j f c)) = length (auth_servers c)"
    by simp_all (simp_all add: set_server_def)
  have addr: "\<forall>x \<in> set (auth_servers (set_server j f c)). srv_addr x \<noteq> 0" if "\<forall>x \<in> set (auth_servers c). srv_addr x \<noteq> 0"
  proof (cases "j < length (auth_servers c)")
    case True
    then show ?thesis using that assms(2) by (simp add: set_server_def) (rule all_update, auto)
  qed (use that in \<open>simp add: set_server_def list_update_beyond\<close>)
  show ?thesis using assms(1) addr unfolding servers_read_def fst_conv snd_conv eqs by blast
qed

lemma read_server_kept: "yields (read_server e buf off (c, a, b, d)) (\<lambda>(c', a', b', d'). servers_read (c, a) (c', a'))"
proof -
  have port: "servers_read s (set_server j (\<lambda>x. x\<lparr>srv_port := p\<rparr>) c, n)" if "servers_read s (c, n)" for s j p c n
    by (rule servers_read_set [OF that]) simp
  have key: "servers_read s (set_server j (\<lambda>x. x\<lparr>shared_secret := k\<rparr>) c, n)" if "servers_read s (c, n)" for s j k c n
    by (rule servers_read_set [OF that]) simp
  have keyed: "yields (run_map (\<lambda>k. (set_server j (\<lambda>x. x\<lparr>shared_secret := k\<rparr>) c', n, b', d')) m) (\<lambda>(c', a', b', d'). servers_read (c, a) (c', a'))"
    if "servers_read (c, a) (c', n)" for j c' n b' d' m
    unfolding yields_map by (auto simp: yields_def intro: key that)
  show ?thesis
    unfolding read_server_def prod.case
  proof (rule yields_run_any, goal_cases)
    case (1 ip)
    obtain new c1 where c1: "Config_read_radius_addr e ip 1812 c = (new, c1)" by fastforce
    then have kept: "servers_read (c, a) (c1, if new then a + 1 else a)"
      by (auto simp: Config_read_radius_addr_def servers_read_def split: if_splits)
    show ?case
      unfolding c1 prod.case Let_def
      using kept by (cases "auth_server c1") (auto intro!: yields_run_any keyed port)
  qed
qed

lemma read_servers_kept: "yields (read_servers e buf offs (c, a, b, d)) (\<lambda>(c', a', b', d'). servers_read (c, a) (c', a'))"
proof (induction offs arbitrary: c a b d)
  case (Cons x offs)
  show ?case unfolding read_servers.simps
    by (rule yields_then [OF read_server_kept], clarsimp, rule yields_mono [OF Cons.IH]) (auto intro: servers_read_trans)
qed simp

lemma read_common_bare: "yields (read_common buf c) (\<lambda>c'. bare c' = bare c \<and> auth_servers c' = auth_servers c \<and> SsidNum c' = SsidNum c
    \<and> own_ip_addr c' = own_ip_addr c \<and> 60 \<le> quiet_interval c' \<and> (session_timeout_set c' = 1 \<longrightarrow> 60 \<le> session_timeout_interval c'))"
  unfolding read_common_def
  by (auto simp: Let_def AUTH_PAE_DEFAULT_quietPeriod_def REAUTH_TIMER_DEFAULT_reAuthPeriod_def intro!: yields_run_any)

lemma read_wep_shape: "conf_shape c \<Longrightarrow> yields (read_wep buf i c) conf_shape"
  unfolding read_wep_def Let_def
proof (rule yields_run_any, clarsimp, rule yields_run_any, rule yields_run_any, goal_cases)
  case (1 wep idx len)
  let ?c = "c\<lparr>DefaultKeyID := (DefaultKeyID c)[i := uint idx], individual_wep_key_idx := (individual_wep_key_idx c)[i := (if idx = 3 then 0 else 3)]\<rparr>"
  have c: "conf_shape ?c" using 1(1) by (auto simp: conf_shape_def intro: all_update dest: set_update_subset_insert [THEN subsetD])
  have "rows_of 13 ((IEEE8021X_ikey c)[i := replicate WEP8021X_KEY_LEN 0])"
    using 1(1) by (intro rows_update) (simp_all add: conf_shape_def WEP8021X_KEY_LEN_def)
  note copy = copy_row_shape [OF this]
  have "\<forall>n \<in> set ((individual_wep_key_len c)[i := uint len]). n = 5 \<or> n = 13" if "len = 5 \<or> len = 13"
    using 1(1) that by (intro all_update) (auto simp: conf_shape_def)
  then have "conf_shape (?c\<lparr>individual_wep_key_len := (individual_wep_key_len c)[i := uint len], IEEE8021X_ikey := rows\<rparr>)"
    if "rows_of 13 rows" "len = 5 \<or> len = 13" for rows
    using c that by (simp add: conf_shape_def)
  then show ?case using c by (auto simp: yields_map intro!: yields_mono [OF copy])
qed


lemma read_nas_shape: "conf_shape c \<Longrightarrow> yields (read_nas_id buf i c) conf_shape"
  unfolding read_nas_id_def
proof (rule yields_run_any, goal_cases)
  case (1 n)
  have rows: "rows_of 32 (nasId c)" using 1(1) by (simp add: conf_shape_def)
  have "\<forall>m \<in> set ((nasId_len c)[i := uint n]). 0 \<le> m \<and> m \<le> 32" if "unat n \<le> 32"
  proof -
    have "int (unat n) \<le> 32" using that by linarith
    then have "uint n \<le> 32" by simp
    then show ?thesis using 1(1) by (intro all_update) (auto simp: conf_shape_def)
  qed
  then have "conf_shape (c\<lparr>nasId := rows, nasId_len := (nasId_len c)[i := uint n]\<rparr>)" if "rows_of 32 rows" "unat n \<le> 32" for rows
    using 1(1) that by (simp add: conf_shape_def)
  then show ?case using 1(1) by (auto simp: yields_map intro!: yields_mono [OF copy_row_shape [OF rows]])
qed

lemma read_ifname_shape:
  "rows_of 16 rows \<Longrightarrow> yields (read_ifname at_len at_name buf num rows) (\<lambda>(rows', num'). rows_of 16 rows' \<and> num' \<le> num + 1)"
proof -
  assume rows: "rows_of 16 rows"
  have "rows_of 16 (rows[num := replicate IFNAMSIZ 0])" by (rule rows_update [OF rows]) (simp add: IFNAMSIZ_def)
  note copy = copy_row_shape [OF this]
  show ?thesis
    unfolding read_ifname_def
    by (rule yields_run_any) (auto simp: rows yields_map intro!: yields_mono [OF copy])
qed

lemma read_bss_shape:
  assumes "conf_shape c"
  shows "yields (read_bss buf i (c, a, b)) (\<lambda>(c', a', b'). conf_shape c')"
  unfolding read_bss_def prod.case
proof (rule yields_then [OF read_wep_shape [OF assms]], rule yields_then [OF read_nas_shape], assumption, goal_cases)
  case (1 c1 c2)
  have rows: "rows_of 16 (eap_if_name c2)" "rows_of 16 (preauth_if_name c2)" using 1(2) by (simp_all add: conf_shape_def)
  have final: "conf_shape (c2\<lparr>eap_if_name := eap, preauth_if_name := pre, RadiusAclEnable := (RadiusAclEnable c2)[i := acl],
                AclCacheTimeout := (AclCacheTimeout c2)[i := tmo]\<rparr>)" if "rows_of 16 eap" "rows_of 16 pre" for eap pre acl tmo
    using 1(2) that by (simp add: conf_shape_def)
  show ?case
    by (rule yields_then [OF read_ifname_shape [OF rows(1)]], clarsimp, rule yields_then [OF read_ifname_shape [OF rows(2)]], clarsimp)
      (auto intro!: yields_run_any final)
qed

text \<open>The whole of what a configuration satisfies that \<open>Config_read\<close> accepts.\<close>

definition conf_ready :: "rtapd_config \<Rightarrow> bool" where
  "conf_ready c \<longleftrightarrow> conf_shape c \<and> 0 \<le> SsidNum c \<and> SsidNum c \<le> int MAX_MBSSID_NUM \<and> own_ip_addr c \<noteq> 0
     \<and> auth_servers c \<noteq> [] \<and> auth_server c = Some 0 \<and> (\<forall>s \<in> set (auth_servers c). srv_addr s \<noteq> 0) \<and> 60 \<le> quiet_interval c
     \<and> (session_timeout_set c = 1 \<longrightarrow> 60 \<le> session_timeout_interval c)"

definition query_ok :: "rtapd_config \<times> int \<times> nat \<Rightarrow> bool" where
  "query_ok r \<longleftrightarrow> (case r of (c, errors, flag) \<Rightarrow> errors = 0 \<longrightarrow> conf_ready (c\<lparr>auth_server := Some 0\<rparr>))"

lemma SsidNum_range: "0 \<le> (if n > of_nat MAX_MBSSID_NUM then 1 else uint n)" "(if n > of_nat MAX_MBSSID_NUM then 1 else uint n) \<le> int MAX_MBSSID_NUM"
  for n :: byte
  by (auto simp: MAX_MBSSID_NUM_def not_less word_le_def)

text \<open>What the settings of a BSS leave alone.\<close>

definition core :: "rtapd_config \<Rightarrow> int \<times> u32 \<times> hostapd_radius_server list \<times> int \<times> int \<times> int" where
  "core c = (SsidNum c, own_ip_addr c, auth_servers c, quiet_interval c, session_timeout_set c, session_timeout_interval c)"

lemma read_bss_core: "yields (read_bss buf i (c, a, b)) (\<lambda>(c', a', b'). core c' = core c)"
proof -
  have wep: "yields (read_wep buf i c) (\<lambda>c'. core c' = core c)"
    unfolding read_wep_def Let_def by (auto simp: core_def yields_map intro!: yields_run_any [of "rd8 _ _"])
  have nas: "yields (read_nas_id buf i c) (\<lambda>c'. core c' = core c)" for c
    unfolding read_nas_id_def by (auto simp: core_def yields_map intro!: yields_run_any [of "rd8 _ _"])
  show ?thesis
    unfolding read_bss_def prod.case
    by (rule yields_then [OF wep], rule yields_then [OF nas], rule yields_run_any, clarsimp, rule yields_run_any, clarsimp,
        rule yields_run_any, rule yields_run_any) (simp add: core_def)
qed

lemma read_bss_both:
  "conf_shape c \<Longrightarrow> yields (read_bsss buf [0..<m_num] (c, 0, 0)) (\<lambda>(c', a, b). conf_shape c' \<and> core c' = core c)"
proof -
  assume c: "conf_shape c"
  have "run_bind m ret = m" for m :: "(rtapd_config \<times> nat \<times> nat) run" by (cases m rule: run_cases) auto
  moreover have "read_bsss buf [] = ret" by (rule ext) simp
  ultimately have one: "read_bsss buf [0..<m_num] (c, 0, 0) = read_bss buf 0 (c, 0, 0)" by (simp add: m_num_def)
  show ?thesis
    using yields_conj [OF read_bss_shape [OF c, of buf 0 0 0] read_bss_core [of buf 0 c 0 0]] unfolding one by (rule yields_mono) auto
qed

lemma query_shape:
  assumes "conf_shape c" "auth_servers c = []"
  shows "yields (Query_config_from_driver e c w) (\<lambda>(q, w'). \<forall>r. q = Some r \<longrightarrow> query_ok r)"
proof -
  obtain res buf v where io: "RT_ioctl e (replicate sizeof_DOT1X_CMM_CONF 0) 0 OID_802_DOT1X_CONFIGURATION w = ((res, buf), v)"
    by (metis prod.exhaust)
  have bare: "conf_shape c2" if "bare c2 = bare c1" "conf_shape c1" for c1 c2
    using that shape_bare by metis
  have common: "yields (run_bind (read_common buf c1) (\<lambda>c. run_bind (read_bsss buf [0..<m_num] (c, 0, 0)) (\<lambda>(c, num_eap, num_preauth).
      ret (Some (c\<lparr>num_eap_if := (if num_eap > 0 then int num_eap else num_eap_if c),
                         num_preauth_if := (if num_preauth > 0 then int num_preauth else num_preauth_if c)\<rparr>, chk), v))))
      (\<lambda>(q, w'). \<forall>r. q = Some r \<longrightarrow> query_ok r)"
    if c1: "conf_shape c1" and ok: "fst chk = 0 \<Longrightarrow> 0 \<le> SsidNum c1 \<and> SsidNum c1 \<le> int MAX_MBSSID_NUM \<and> own_ip_addr c1 \<noteq> 0 \<and> auth_servers c1 \<noteq> []
      \<and> (\<forall>s \<in> set (auth_servers c1). srv_addr s \<noteq> 0)" for c1 and chk :: "int \<times> nat"
  proof (rule yields_then [OF read_common_bare], elim conjE, rule yields_then [OF read_bss_both], erule bare [OF _ c1], clarsimp, goal_cases)
    case (1 c2 c3 n m)
    then show ?case using ok by (auto simp: query_ok_def conf_ready_def conf_shape_def core_def split: prod.split)
  qed
  have servers: "yields (read_servers e buf offs (c1, 0, 0, 0)) (\<lambda>(c', n, b, d). conf_shape c' \<and> servers_read (c1, 0) (c', n))"
    if c1: "conf_shape c1" for offs c1
    by (rule yields_mono [OF read_servers_kept]) (use bare [OF _ c1] in \<open>auto simp: servers_read_def\<close>)
  have first: "conf_shape (c\<lparr>SsidNum := n, own_ip_addr := ip\<rparr>)" for n ip
    using assms by (simp add: conf_shape_def)
  have checks: "own_ip \<noteq> 0 \<and> n \<noteq> 0" if "fst (config_checks own_ip n p k) = 0" for own_ip n p k
    using that by (auto simp: config_checks_def Let_def split: if_splits)
  have rest: "yields (run_bind (read_servers e buf offs (c\<lparr>SsidNum := (if mb > of_nat MAX_MBSSID_NUM then 1 else uint mb), own_ip_addr := own_ip\<rparr>, 0, 0, 0))
      (\<lambda>(c, n, p, k). case config_checks own_ip n p k of (errors, flag) \<Rightarrow>
          run_bind (read_common buf c) (\<lambda>c. run_bind (read_bsss buf [0..<m_num] (c, 0, 0)) (\<lambda>(c, num_eap, num_preauth).
            ret (Some (c\<lparr>num_eap_if := (if num_eap > 0 then int num_eap else num_eap_if c),
                         num_preauth_if := (if num_preauth > 0 then int num_preauth else num_preauth_if c)\<rparr>, errors, flag), v)))))
      (\<lambda>(q, w'). \<forall>r. q = Some r \<longrightarrow> query_ok r)" for offs and mb :: byte and own_ip
  proof (rule yields_then [OF servers [OF first]], clarsimp simp: split_beta, goal_cases)
    case (1 c1 n p k)
    show ?case
      using common [OF 1(1), of "config_checks own_ip n p k"] 1(2) checks [of own_ip n p k] SsidNum_range [of mb] assms(2)
      by (auto simp: servers_read_def split_beta)
  qed
  show ?thesis
    unfolding Query_config_from_driver_def io prod.case Let_def
    using rest by (auto intro!: yields_run_any [of "rd8 _ _"] yields_run_any [of "rd32 _ _"])
qed

text \<open>Reading the names of the networks keeps the rest of the configuration, and every name stays a string.\<close>

lemma store_shape: "length xs \<le> length row \<Longrightarrow> length (store 0 xs row) = length row \<and> (\<forall>k. length xs \<le> k \<longrightarrow> store 0 xs row ! k = row ! k)"
  by (simp add: store_def nth_append)

lemma read_ssid_shape: "conf_shape c \<Longrightarrow> yields (read_ssid e i (c, w)) (\<lambda>(c', w'). conf_shape c' \<and> core c' = core c)"
proof -
  assume c: "conf_shape c"
  have "conf_shape (c\<lparr>SsidLen := (SsidLen c)[i := n], Ssid := (Ssid c)[i := store 0 xs (Ssid c ! i)]\<rparr>)"
    if "i < length (Ssid c)" "length xs = 32" for n xs
  proof -
    have row: "length (Ssid c ! i) = 33" "Ssid c ! i ! 32 = 0" using c that(1) by (simp_all add: conf_shape_def rows_of_def)
    have "rows_of 33 ((Ssid c)[i := store 0 xs (Ssid c ! i)])"
      using c row that(2) store_shape [of xs "Ssid c ! i"] by (intro rows_update) (auto simp: conf_shape_def)
    moreover have "\<forall>s \<in> set ((Ssid c)[i := store 0 xs (Ssid c ! i)]). s ! 32 = 0"
      using c row that(2) store_shape [of xs "Ssid c ! i"] by (intro all_update) (auto simp: conf_shape_def)
    ultimately show ?thesis using c by (simp add: conf_shape_def)
  qed
  then show ?thesis
    using c by (auto simp: read_ssid_def Let_def core_def HOSTAPD_MAX_SSID_LEN_def split: prod.split)
qed

lemma read_ssids_shape: "conf_shape c \<Longrightarrow> yields (read_ssids e is (c, w)) (\<lambda>(c', w'). conf_shape c' \<and> core c' = core c)"
proof (induction "is" arbitrary: c w)
  case (Cons i "is")
  show ?case unfolding read_ssids.simps
    by (rule yields_then [OF read_ssid_shape [OF Cons.prems]], clarsimp, rule yields_mono [OF Cons.IH]) auto
qed simp

end
