(* ===== verification/Daemon.thy ===== *)
theory Daemon
  imports Acl
begin

text \<open>
  \<open>802.1x/rtdot1x.c\<close>: the daemon. It reads the configuration, opens its sockets, registers its handlers
  with the event loop and runs it; the handlers are the packet sockets' \<open>Handle_read\<close>, the client's socket, the
  timers and the signals.

  What arrives on a socket is the result of \<open>recv\<close> and the array it filled. One daemon serves one card
  (\<open>interfaces.count\<close> is one). Closing a socket, \<open>fork\<close>, the options and the log are not modelled.
\<close>

definition sizeof_priv_rec :: int where "sizeof_priv_rec = 15"
definition DOT1X_DISCONNECT_ENTRY :: byte where "DOT1X_DISCONNECT_ENTRY = 0"
definition DOT1X_RELOAD_CONFIG :: byte where "DOT1X_RELOAD_CONFIG = 1"
definition DOT1X_ACL_ENTRY :: byte where "DOT1X_ACL_ENTRY = 2"
definition RT_SET_APD_PID :: nat where "RT_SET_APD_PID = 0x0405"
definition ARPHRD_ETHER :: u16 where "ARPHRD_ETHER = 1"
definition SIOCGIFINDEX :: nat where "SIOCGIFINDEX = 0x8933"
definition SIOCGIFHWADDR :: nat where "SIOCGIFHWADDR = 0x8927"
definition SIGHUP :: int where "SIGHUP = 1"
definition SIGINT :: int where "SIGINT = 2"
definition SIGTERM :: int where "SIGTERM = 15"
definition SIGUSR1 :: int where "SIGUSR1 = 16"  \<comment> \<open>on MIPS\<close>

section \<open>Reload and termination\<close>

definition Handle_reload_config :: "env \<Rightarrow> rtapd \<Rightarrow> rtapd run" where
  "Handle_reload_config e w =
     run_bind (Config_read e w) (\<lambda>(newconf, w).
     case newconf of None \<Rightarrow> ret w
     | Some c \<Rightarrow>
         run_bind (Radius_client_flush w) (\<lambda>w.
         run_bind (Apd_free_stas (w\<lparr>conf := c\<rparr>)) (\<lambda>w.
         run_bind (get_radius w) (\<lambda>r.
           run_map snd (Radius_client_init e (put_radius (r\<lparr>auth_serv_sock := -1\<rparr>) w))))))"

text \<open>The handler of the signal does the same for every card.\<close>

definition Handle_usr1 :: "env \<Rightarrow> rtapd \<Rightarrow> rtapd run" where
  "Handle_usr1 e w =
     run_bind (Config_read e w) (\<lambda>(newconf, w).
     case newconf of None \<Rightarrow> ret w
     | Some c \<Rightarrow>
         run_bind (Radius_client_flush w) (\<lambda>w.
         run_bind (Apd_free_stas (w\<lparr>conf := c\<rparr>)) (\<lambda>w.
         run_bind (get_radius w) (\<lambda>r.
           run_map snd (Radius_client_init e (put_radius (r\<lparr>auth_serv_sock := -1\<rparr>) w))))))"

definition Handle_term :: "rtapd \<Rightarrow> rtapd" where
  "Handle_term w = w\<lparr>eloop := eloop_terminate (eloop w)\<rparr>"

section \<open>Received frames\<close>

definition RalinkIe :: "byte list" where "RalinkIe = [221, 7, 0x00, 0x0c, 0x43, 0x00, 0x00, 0x00, 0x00]"

text \<open>The index of the BSS with the address.\<close>

definition find_bss :: "byte list \<Rightarrow> rtapd \<Rightarrow> nat option run" where
  "find_bss da w =
     (let n = nat (SsidNum (conf w)) in
      if n \<le> length (own_addr w) then ret (find (\<lambda>i. own_addr w ! i = da) [0..<n]) else fail OutOfBounds)"

text \<open>A command of the driver, in the guise of a frame of the station.\<close>

definition internal_command :: "env \<Rightarrow> byte \<Rightarrow> byte list \<Rightarrow> byte \<Rightarrow> rtapd \<Rightarrow> rtapd run" where
  "internal_command e icmd sa apidx w =
     (if icmd = DOT1X_DISCONNECT_ENTRY
      then run_bind (sta_lookup sa w) (\<lambda>s. case s of Some k \<Rightarrow> Ap_free_sta k w | None \<Rightarrow> ret w)
      else if icmd = DOT1X_RELOAD_CONFIG then Handle_reload_config e w
      else if icmd = DOT1X_ACL_ENTRY then run_map snd (hostapd_allowed_address e sa apidx w)
      else ret w)"

text \<open>\<open>left\<close> is a \<open>size_t\<close>: the test \<open>left <= 0\<close> is a test for zero.\<close>

definition frame_left :: "int \<Rightarrow> u32" where
  "frame_left len = of_int (len - sizeof_priv_rec + 1)"

text \<open>The type of the frame behind a VLAN tag, and whether a tag has to be skipped.\<close>

definition vlan_type :: "byte list \<Rightarrow> u32 \<Rightarrow> u16 \<times> bool" where
  "vlan_type buf left =
     (let t = rd_be16 (slice 12 2 buf) in
      if t = ETH_P_VLAN
      then let t = (if left \<ge> 4 then rd_be16 (slice 16 2 buf) else t) in (t, t = ETH_P_PRE_AUTH \<or> t = ETH_P_PAE)
      else (t, False))"

definition Handle_read :: "env \<Rightarrow> int \<Rightarrow> int \<Rightarrow> byte list \<Rightarrow> rtapd \<Rightarrow> rtapd run" where
  "Handle_read e sock len buf w =
     (if len < 0 then ret (Handle_term w)
      else
        let left = frame_left len in
        if left = 0 then ret w
        else
          let da = slice 0 6 buf; sa = slice 6 6 buf in
          case vlan_type buf left of (etype, is_vlan) \<Rightarrow>
          if etype \<noteq> ETH_P_PRE_AUTH \<and> etype \<noteq> ETH_P_PAE then ret w
          else run_bind (find_bss da w) (\<lambda>i.
            case i of None \<Rightarrow> ret w
            | Some i \<Rightarrow>
                let apidx = of_nat i; pos = (if is_vlan then 18 else 14); left = (if is_vlan then left - 4 else left)
                in if left = of_nat (length RalinkIe) \<and> RTMPCompareMemory (slice pos 5 buf) (take 5 RalinkIe) = 0
                   then internal_command e (buf ! (pos + 5)) sa apidx w
                   else ieee802_1x_receive e sa apidx (drop pos buf) (unat left) etype sock w))"

section \<open>Startup\<close>

text \<open>A raw socket on an interface: opened, registered, bound. The result is the socket, or \<open>None\<close>.\<close>

definition open_packet_socket :: "env \<Rightarrow> byte list \<Rightarrow> (int \<Rightarrow> rtapd \<Rightarrow> rtapd) \<Rightarrow> rtapd \<Rightarrow> bool \<times> rtapd" where
  "open_packet_socket e ifname keep w =
     (let s = env_socket e (sent w); w = keep s (log_call Socket w) in
      if s < 0 then (False, w)
      else case eloop_register_read_sock (env_alloc e) s H_Handle_read (Ctx Apd) NULL_CTX (eloop w) of (res, el) \<Rightarrow>
        let w = w\<lparr>eloop := el\<rparr> in
        if res \<noteq> 0 then (False, w)
        else
          let q = IfReq s SIOCGIFINDEX ifname in
          case env_ioctl e (sent w) q of (res, index) \<Rightarrow>
            let w = log_call q w in
            if res \<noteq> 0 then (False, w)
            else let b = Bind s index in (\<not> env_send e (sent w) b < 0, log_call b w))"

text \<open>\<open>strcpy\<close> of an interface name into an array of \<open>IFNAMSIZ\<close>.\<close>

definition ifname_of :: "byte list list \<Rightarrow> nat \<Rightarrow> byte list run" where
  "ifname_of names i =
     (if i < length names
      then run_bind (c_string (concat (drop i names))) (\<lambda>s. if length s < IFNAMSIZ then ret s else fail OutOfBounds)
      else fail OutOfBounds)"

fun open_packet_sockets ::
    "env \<Rightarrow> (rtapd_config \<Rightarrow> byte list list) \<Rightarrow> (nat \<Rightarrow> int \<Rightarrow> rtapd \<Rightarrow> rtapd) \<Rightarrow> nat list \<Rightarrow> rtapd \<Rightarrow> (bool \<times> rtapd) run" where
  "open_packet_sockets e names keep [] w = ret (True, w)"
| "open_packet_sockets e names keep (i # is) w =
     run_bind (ifname_of (names (conf w)) i) (\<lambda>name.
       case open_packet_socket e name (keep i) w of (ok, w) \<Rightarrow>
         if ok then open_packet_sockets e names keep is w else ret (False, w))"

text \<open>The reply has the family of the address, and the address.\<close>

fun read_own_addrs :: "env \<Rightarrow> nat list \<Rightarrow> rtapd \<Rightarrow> (bool \<times> rtapd) run" where
  "read_own_addrs e [] w = ret (True, w)"
| "read_own_addrs e (i # is) w =
     (let s = env_socket e (sent w); w = log_call Socket w in
      if s < 0 then ret (False, w)
      else let q = IfReq s SIOCGIFHWADDR (prefix_wlan_name w @ dec_u8 (of_nat i)) in
        case env_ioctl e (sent w) q of (res, reply) \<Rightarrow>
          let w = log_call q w; reply = filled reply (replicate 8 0) in
          if res \<noteq> 0 then ret (False, w)
          else if ucast (reply ! 0) OR push_bit 8 (ucast (reply ! 1)) \<noteq> ARPHRD_ETHER then ret (False, w)
          else if i < length (own_addr w) then read_own_addrs e is (w\<lparr>own_addr := (own_addr w)[i := drop 2 reply]\<rparr>)
          else fail OutOfBounds)"

definition Apd_init_sockets :: "env \<Rightarrow> rtapd \<Rightarrow> (bool \<times> rtapd) run" where
  "Apd_init_sockets e w =
     run_bind (open_packet_sockets e preauth_if_name (\<lambda>i s w. w\<lparr>eth_sock := (eth_sock w)[i := s]\<rparr>) [0..<nat (num_preauth_if (conf w))] w)
       (\<lambda>(ok, w). if \<not> ok then ret (False, w) else
     run_bind (open_packet_sockets e eap_if_name (\<lambda>i s w. w\<lparr>wlan_sock := (wlan_sock w)[i := s]\<rparr>) [0..<nat (num_eap_if (conf w))] w)
       (\<lambda>(ok, w). if \<not> ok then ret (False, w) else
     read_own_addrs e [0..<nat (SsidNum (conf w))] w))"

definition Apd_setup_interface :: "env \<Rightarrow> rtapd \<Rightarrow> (int \<times> rtapd) run" where
  "Apd_setup_interface e w =
     run_bind (Apd_init_sockets e w) (\<lambda>(ok, w). if \<not> ok then ret (-1, w) else
     run_bind (Radius_client_init e w) (\<lambda>(res, w). if res \<noteq> 0 then ret (-1, w) else
     run_bind (ieee802_1x_init e w) (\<lambda>(res, w). if res \<noteq> 0 then ret (-1, w) else
     run_map (\<lambda>(res, w). (if res \<noteq> 0 then -1 else 0, w)) (hostapd_acl_init e w))))"

text \<open>The \<open>rtapd\<close> that \<open>memset\<close> leaves, in a process whose loop and log are given; the configuration stands for
  none yet.\<close>

definition zero_rtapd :: "rtapd_config \<Rightarrow> (handler, obj) eloop_data \<Rightarrow> sys_call list \<Rightarrow> rtapd" where
  "zero_rtapd c el log =
     \<lparr>conf = c, prefix_wlan_name = [], wlan_sock = replicate MAX_MBSSID_NUM 0, eth_sock = replicate MAX_MBSSID_NUM 0, ioctl_sock = 0,
      own_addr = replicate MAX_MBSSID_NUM (replicate MAC_ADDR_LEN 0), num_sta = 0, sta_list = [],
      sta_hash = replicate STA_HASH_SIZE [], radius = None, acl_cache = [], acl_queries = [], stas = Map.empty, next_sta = 0,
      eloop = el, sent = log\<rparr>"

definition sizeof_rtapd :: nat where "sizeof_rtapd = 2192"

text \<open>\<open>None\<close> for the null pointer.\<close>

definition Apd_init :: "env \<Rightarrow> byte list \<Rightarrow> rtapd \<Rightarrow> rtapd option run" where
  "Apd_init e prefix_name w =
     (if \<not> env_alloc e sizeof_rtapd then ret None
      else if \<not> env_alloc e (length prefix_name + 1) then ret None
      else
        let s = env_socket e (sent w); w = log_call Socket (w\<lparr>prefix_wlan_name := prefix_name, ioctl_sock := s\<rparr>) in
        if s < 0 then ret None
        else run_map (\<lambda>(c, w). map_option (\<lambda>c. w\<lparr>conf := c, wlan_sock := replicate MAX_MBSSID_NUM (-1), eth_sock := replicate MAX_MBSSID_NUM (-1)\<rparr>) c)
               (Config_read e w))"

definition register_signals :: "env \<Rightarrow> (handler, obj) eloop_data \<Rightarrow> (handler, obj) eloop_data" where
  "register_signals e el =
     foldl (\<lambda>el (sig, h). snd (eloop_register_signal (env_alloc e) sig h NULL_CTX el)) el
       [(SIGINT, H_Handle_term), (SIGTERM, H_Handle_term), (SIGUSR1, H_Handle_usr1), (SIGHUP, H_Handle_usr1)]"

text \<open>\<open>main\<close> up to \<open>eloop_run\<close>; the result says whether the loop is entered.\<close>

definition daemon_start :: "env \<Rightarrow> byte list \<Rightarrow> u32 \<Rightarrow> rtapd \<Rightarrow> (bool \<times> rtapd option) run" where
  "daemon_start e prefix_name auth_pid w =
     (let w = w\<lparr>eloop := register_signals e (eloop_init (Ctx Interfaces))\<rparr> in
      run_bind (Apd_init e prefix_name w) (\<lambda>r.
      case r of None \<Rightarrow> ret (False, None)
      | Some w \<Rightarrow>
          run_bind (Apd_setup_interface e w) (\<lambda>(res, w).
            if res \<noteq> 0 then ret (False, Some w)
            else ret (True, Some (snd (RT_ioctl e (le32 auth_pid) 0 (RT_SET_APD_PID OR OID_GET_SET_TOGGLE) w))))))"

definition Apd_cleanup :: "rtapd \<Rightarrow> rtapd run" where
  "Apd_cleanup w = Radius_client_deinit w"

fun clear_driver_cache :: "env \<Rightarrow> u32 \<Rightarrow> nat list \<Rightarrow> rtapd \<Rightarrow> rtapd" where
  "clear_driver_cache e auth_pid [] w = w"
| "clear_driver_cache e auth_pid (i # is) w =
     clear_driver_cache e auth_pid is (snd (RT_ioctl e (le32 auth_pid) (of_nat i) RT_OID_802_DOT1X_RADIUS_ACL_CLEAR_CACHE w))"

text \<open>\<open>main\<close> after \<open>eloop_run\<close>, up to \<open>closelog\<close>.\<close>

definition daemon_stop :: "env \<Rightarrow> u32 \<Rightarrow> rtapd \<Rightarrow> rtapd run" where
  "daemon_stop e auth_pid w =
     (let w = clear_driver_cache e auth_pid [0..<nat (SsidNum (conf w))] (hostapd_acl_deinit w) in
      run_bind (Apd_free_stas w) (\<lambda>w.
      run_map (\<lambda>w. w\<lparr>eloop := eloop_destroy (eloop w)\<rparr>) (Apd_cleanup w)))"

section \<open>The loop of the daemon\<close>

text \<open>The registered functions, for the contexts they are registered with.\<close>

definition call_rx :: "env \<Rightarrow> rx_handler \<Rightarrow> radius_msg \<Rightarrow> radius_msg \<Rightarrow> byte list \<Rightarrow> rtapd \<Rightarrow> (RadiusRxResult \<times> radius_msg \<times> rtapd) run" where
  "call_rx e h msg req secret w =
     (case h of H_ieee802_1x_receive_auth \<Rightarrow> ieee802_1x_receive_auth e msg (Some req) secret w
      | H_hostapd_acl_recv_radius \<Rightarrow> hostapd_acl_recv_radius e msg (Some req) secret w)"

text \<open>A handler that is called with a context it was not registered with has no meaning here.\<close>

fun call_timeout :: "env \<Rightarrow> handler \<Rightarrow> obj ctx \<Rightarrow> obj ctx \<Rightarrow> rtapd \<Rightarrow> rtapd run" where
  "call_timeout e H_Radius_client_timer d u w = Radius_client_timer e w"
| "call_timeout e H_Radius_retry_primary_timer d u w = Radius_retry_primary_timer e w"
| "call_timeout e H_hostapd_acl_expire d u w = hostapd_acl_expire e w"
| "call_timeout e H_Ap_handle_session_timer d (Ctx (Sta k)) w = Ap_handle_session_timer e k w"
| "call_timeout e H_eapol_port_timers_tick d (Ctx (Sm k)) w = sta_port_timers_tick e k w"
| "call_timeout e h d u w = fail NullDeref"

text \<open>\<open>rx\<close> gives what \<open>recv\<close> returns for a socket, and the array after it.\<close>

fun call_reader :: "env \<Rightarrow> (int \<Rightarrow> int \<times> byte list) \<Rightarrow> handler \<Rightarrow> int \<Rightarrow> obj ctx \<Rightarrow> obj ctx \<Rightarrow> rtapd \<Rightarrow> rtapd run" where
  "call_reader e rx H_Radius_client_receive sock d u w = Radius_client_receive (call_rx e) e (fst (rx sock)) (snd (rx sock)) w"
| "call_reader e rx H_Handle_read sock d u w = Handle_read e sock (fst (rx sock)) (snd (rx sock)) w"
| "call_reader e rx h sock d u w = fail NullDeref"

fun call_signal :: "env \<Rightarrow> handler \<Rightarrow> int \<Rightarrow> obj ctx \<Rightarrow> obj ctx \<Rightarrow> rtapd \<Rightarrow> rtapd run" where
  "call_signal e H_Handle_term sig d u w = ret (Handle_term w)"
| "call_signal e H_Handle_usr1 sig d u w = Handle_usr1 e w"
| "call_signal e h sig d u w = fail NullDeref"

text \<open>One turn of the loop, or one signal.\<close>

definition daemon_turn :: "env \<Rightarrow> (int \<Rightarrow> int \<times> byte list) \<Rightarrow> loop_turn \<Rightarrow> rtapd \<Rightarrow> (bool \<times> rtapd) run" where
  "daemon_turn e rx t = eloop_turn eloop (\<lambda>l w. w\<lparr>eloop := l\<rparr>) (call_timeout e) (call_reader e rx) t"

definition daemon_signal :: "env \<Rightarrow> int \<Rightarrow> rtapd \<Rightarrow> rtapd run" where
  "daemon_signal e sig w = eloop_handle_signal (call_signal e) sig (eloop w) w"

end
