(* ===== verification/DaemonInv.thy ===== *)
theory DaemonInv
  imports Daemon
begin

text \<open>
  What every handler of the daemon keeps. An invariant of the stations and of the client, given with the
  locale \<open>daemon_invariant\<close>, is kept by every function the event loop calls, and so by every turn of the loop and
  by every signal. The locale \<open>daemon_handlers\<close> adds what an invariant has to allow for: the client, the
  configuration, the access lists and the loop change outside the stations.
\<close>

section \<open>What the client and the access lists leave alone\<close>

definition table_part :: "rtapd \<Rightarrow> (nat \<Rightarrow> sta_info option) \<times> nat list \<times> nat list list \<times> int \<times> nat" where
  "table_part w = (stas w, sta_list w, sta_hash w, num_sta w, next_sta w)"

lemma table_part_simps [simp]:
  "table_part (put_radius r w) = table_part w" "table_part (log_call c w) = table_part w"
  "table_part (add_timeout e s h d x w) = table_part w" "table_part (del_timeout h d x w) = table_part w"
  "table_part (w\<lparr>conf := co\<rparr>) = table_part w" "table_part (w\<lparr>eloop := el\<rparr>) = table_part w"
  "table_part (w\<lparr>sent := cs\<rparr>) = table_part w" "table_part (w\<lparr>acl_cache := ca\<rparr>) = table_part w"
  "table_part (w\<lparr>acl_queries := qs\<rparr>) = table_part w" "table_part (w\<lparr>radius := ra\<rparr>) = table_part w"
  by (simp_all add: table_part_def put_radius_def log_call_def add_timeout_def del_timeout_def)

lemma ioctl_same [simp]:
  "table_part (snd (RT_ioctl e d i fl w)) = table_part w" "client_inv (snd (RT_ioctl e d i fl w)) \<longleftrightarrow> client_inv w"
  "conf (snd (RT_ioctl e d i fl w)) = conf w" "radius (snd (RT_ioctl e d i fl w)) = radius w"
  by (auto simp: RT_ioctl_def Let_def split: prod.split)

lemma flush_same: "yields (Radius_client_flush w) (\<lambda>w'. table_part w' = table_part w)"
  by (auto simp: Radius_client_flush_def Let_def run_map_def split: option.split intro!: yields_run_any)

lemma change_server_same: "yields (Radius_change_server e n old w) (\<lambda>w'. table_part w' = table_part w)"
  unfolding Radius_change_server_def Let_def by (rule yields_run_any) (auto intro!: yields_run_any flush_same)

lemma retransmit_same: "yields (Radius_client_retransmit e x now w) (\<lambda>(rm, x', w'). table_part w' = table_part w)"
  unfolding Radius_client_retransmit_def Let_def by (auto intro!: yields_run_any split: option.split)

lemma timer_walk_same: "yields (timer_walk e now ms fo first w) (\<lambda>(ms', fo', first', k, w'). table_part w' = table_part w)"
proof (induction ms arbitrary: fo first w)
  case (Cons x xs)
  have step: "yields (if now \<ge> next_try x then Radius_client_retransmit e x now w else ret (False, x, w)) (\<lambda>(rm, x', w'). table_part w' = table_part w)"
    using retransmit_same by auto
  show ?case
    unfolding timer_walk.simps yields_bind
  proof (rule yields_mono [OF step], clarify)
    fix rm x' w' assume s: "table_part w' = table_part w"
    have walk: "yields (timer_walk e now xs fo' first' w') (\<lambda>x. table_part (snd (snd (snd (snd x)))) = table_part w)" for fo' first'
      using Cons.IH [of fo' first' w'] s by (simp add: case_prod_beta)
    show "yields (if rm then run_map (\<lambda>(ms, fo, first, k, w). (ms, fo, first, Suc k, w)) (timer_walk e now xs fo first w')
        else run_map (\<lambda>(ms, fo, first, k, w). (x' # ms, fo, first, k, w))
          (timer_walk e now xs (if attempts x' > RADIUS_CLIENT_NUM_FAILOVER then Suc fo else fo)
            (if first = 0 \<or> next_try x' < first then next_try x' else first) w'))
      (\<lambda>(ms', fo', first', k, v). table_part v = table_part w)"
      by (cases rm) (simp_all only: if_True if_False yields_map case_prod_beta fst_conv snd_conv walk)
  qed
qed simp

lemma timer_same: "yields (Radius_client_timer e w) (\<lambda>w'. table_part w' = table_part w)"
  unfolding Radius_client_timer_def Let_def
proof (rule yields_run_any, goal_cases)
  case (1 r)
  have change: "yields (Radius_change_server e n old u) (\<lambda>w'. table_part w' = table_part w)" if "table_part u = table_part w" for n old u
    using change_server_same [of e n old u] that by simp
  show ?case
    by (cases "msgs r = []")
      (auto simp: yields_bind split: option.split intro!: change yields_mono [OF timer_walk_same])
qed

lemma retry_timer_same: "yields (Radius_retry_primary_timer e w) (\<lambda>w'. table_part w' = table_part w)"
  unfolding Radius_retry_primary_timer_def
proof (rule yields_run_any, goal_cases)
  case (1 r)
  have change: "yields (Radius_change_server e n old (w\<lparr>conf := c\<rparr>)) (\<lambda>w'. table_part w' = table_part w)" for n old c
    using change_server_same [of e n old "w\<lparr>conf := c\<rparr>"] by simp
  show ?case by (auto simp: yields_bind intro!: yields_mono [OF change])
qed

lemma client_init_same: "yields (Radius_client_init e w) (\<lambda>(res, w'). table_part w' = table_part w)"
proof -
  have auth: "yields (Radius_client_init_auth e v) (\<lambda>(res, w'). table_part w' = table_part w)" if v: "table_part v = table_part w" for v
    unfolding Radius_client_init_auth_def Let_def
  proof (rule yields_run_any, goal_cases)
    case (1 r)
    have change: "yields (Radius_change_server e n old (put_radius r' (log_call Socket v))) (\<lambda>w'. table_part w' = table_part w)" for n old r'
      using change_server_same [of e n old "put_radius r' (log_call Socket v)"] v by simp
    show ?case using v by (auto simp: yields_bind split: prod.split intro!: yields_mono [OF change])
  qed
  show ?thesis
    unfolding Radius_client_init_def Let_def
    by (auto simp: yields_bind intro!: yields_mono [OF auth])
qed


lemma retry_timer_inv: "client_inv w \<Longrightarrow> yields (Radius_retry_primary_timer e w) client_inv"
  unfolding Radius_retry_primary_timer_def
proof (rule yields_run_any, goal_cases)
  case (1 r)
  let ?v = "w\<lparr>conf := (conf w)\<lparr>auth_server := Some 0\<rparr>\<rparr>"
  have change: "yields (Radius_change_server e (Some 0) (auth_server (conf w)) ?v) client_inv" if ne: "auth_servers (conf w) \<noteq> []"
  proof -
    obtain j where j: "auth_server (conf w) = Some j" "j < num_auth_servers (conf w)"
      using client_invD(2) [OF 1(1)] ne by (auto simp: conf_ok_def split: option.splits)
    have "client_inv ?v" "radius ?v \<noteq> None" "0 < num_auth_servers (conf ?v)" "j < num_auth_servers (conf ?v)"
      using 1 ne j by (auto simp: client_inv_def conf_ok_def num_auth_servers_def get_radius_def split: option.splits)
    then show ?thesis using j by (auto intro!: returns_yields change_server_inv)
  qed
  show ?case using 1 by (auto simp: yields_bind intro!: yields_mono [OF change])
qed

lemma client_init_inv: "client_inv w \<Longrightarrow> yields (Radius_client_init e w) (\<lambda>(res, w'). client_inv w')"
proof -
  assume inv: "client_inv w"
  have auth: "yields (Radius_client_init_auth e v) (\<lambda>(res, w'). client_inv w')" if v: "client_inv v" "auth_server (conf v) = Some i" for v i
    unfolding Radius_client_init_auth_def Let_def
  proof (rule yields_run_any, goal_cases)
    case (1 r)
    then have r: "radius v = Some r" by (auto simp: get_radius_def split: option.splits)
    have ok: "client_inv (put_radius (r\<lparr>auth_serv_sock := s\<rparr>) (log_call Socket v))" for s
      using client_invD [OF v(1)] r by (simp add: client_ok_def)
    have i: "i < num_auth_servers (conf v)" using client_invD(2) [OF v(1)] v(2) by (simp add: conf_ok_def)
    have change: "yields (Radius_change_server e (auth_server (conf v)) None (put_radius (r\<lparr>auth_serv_sock := s\<rparr>) (log_call Socket v))) client_inv" for s
      unfolding v(2) using i by (intro returns_yields change_server_inv ok) simp_all
    show ?case using ok
      by (auto simp: yields_bind client_inv_def split: prod.split intro!: yields_mono [OF change])
  qed
  have blank: "client_ok \<lparr>auth_serv_sock = -1, auth_handlers = [], msgs = [], num_msgs = 0, next_radius_identifier = 0\<rparr>"
    by (simp add: client_ok_def client_consts)
  show ?thesis
    unfolding Radius_client_init_def Let_def
    using inv blank client_invD [OF inv]
    by (cases "radius w") (auto simp: yields_bind split: option.split intro!: yields_mono [OF auth])
qed


section \<open>The requests of the access lists\<close>

text \<open>No datagram is refused. When one is, \<open>hostapd_radius_acl_query\<close> frees a message that waits in the list of
  the client, and the client is out of order.\<close>

definition sends_ok :: "env \<Rightarrow> bool" where
  "sends_ok e \<longleftrightarrow> (\<forall>l s a p d. 0 \<le> env_send e l (SendTo s a p d))"

lemma put_password_keeps_id: "keeps_id (put_password e d s)"
  unfolding keeps_id_def put_password_def Radius_msg_add_attr_user_password_def Let_def yields_map
  by (auto intro!: yields_mono [OF add_attr_req_ok])

lemma acl_request_ok:
  assumes "req_ok i m"
  shows "yields (acl_request e addr ap w m) (\<lambda>r. case r of None \<Rightarrow> True | Some m' \<Rightarrow> req_ok i m')"
  unfolding acl_request_def
  by (rule yields_run_any, rule yields_run_any, drule nas_keeps_id, rule yields_run_any, rule yields_run_any, rule yields_run_any,
      rule put_attrs_req_ok [OF _ make_authenticator_req_ok [OF assms]]) (auto simp: put_password_keeps_id)

lemma client_send_result:
  "yields (Radius_client_send e m a w) (\<lambda>(res, owned, w'). sends_ok e \<longrightarrow> 0 \<le> res)"
  unfolding Radius_client_send_def
  by (rule yields_run_any, rule yields_run_any, rule yields_run_any, rule yields_run_any)
    (auto simp: sys_send_def yields_def sends_ok_def run_bind_eq_ret run_map_def)

lemma acl_query_frame:
  assumes "sends_ok e" "client_inv w"
  shows "yields (hostapd_radius_acl_query e addr q w) (\<lambda>(res, q', w'). tx_frame k w w')"
  unfolding hostapd_radius_acl_query_def
proof (rule yields_run_any, clarify, goal_cases)
  case (1 i w1)
  then obtain r where f: "tx_frame k w w1" and r: "radius w1 = Some r" "i \<notin> ident ` set (msgs r)"
    using get_id_frame [of w i w1 k] by blast
  have send: "yields (Radius_client_send e m a w1) (\<lambda>(res, owned, w'). tx_frame k w w' \<and> 0 \<le> res)" if "req_ok i m" for m a
  proof -
    have "yields (Radius_client_send e m a w1) (\<lambda>(res, owned, w'). tx_frame k w1 w')"
      using client_send_frame [OF r(1) that, of e a k] r(2) by simp
    then show ?thesis
      using client_send_result [of e m a w1] assms(1) tx_frame_trans [OF f] by (fastforce simp: yields_def)
  qed
  have sent: "yields (run_bind (Radius_client_send e m a w1) (\<lambda>(res, owned, w). if res < 0 then X res owned w else ret (0, q', w)))
      (\<lambda>(res, q', w'). tx_frame k w w')" if "req_ok i m" for m a X and q' :: hostapd_acl_query_data
    unfolding yields_bind by (rule yields_mono [OF send [OF that]]) auto
  show ?case
    using f by (auto simp: Let_def yields_bind [of "acl_request e addr ap w1 m" for ap m] split: option.split
        intro!: yields_mono [OF acl_request_ok [OF new_req_ok]] sent)
qed

lemma expire_cache_walk_same:
  "yields (expire_cache_walk e now xs w) (\<lambda>(ys, w'). table_part w' = table_part w \<and> (client_inv w' \<longleftrightarrow> client_inv w))"
proof (induction xs arbitrary: w)
  case (Cons x xs)
  have later: "yields (expire_cache_walk e now xs v) (\<lambda>(ys, w'). table_part w' = table_part w \<and> (client_inv w' \<longleftrightarrow> client_inv w))"
    if "table_part v = table_part w" "client_inv v \<longleftrightarrow> client_inv w" for v
    using Cons.IH [of v] that by simp
  have kept: "yields (run_map (\<lambda>(ys, w). (x # ys, w)) (expire_cache_walk e now xs w))
      (\<lambda>(ys, w'). table_part w' = table_part w \<and> (client_inv w' \<longleftrightarrow> client_inv w))"
    unfolding yields_map by (rule yields_mono [OF Cons.IH]) auto
  show ?case
    unfolding expire_cache_walk.simps
    by (rule yields_run_any) (use kept in \<open>auto intro!: later\<close>)
qed simp


section \<open>The configuration\<close>

text \<open>Reading the configuration only calls the driver.\<close>

definition only_calls :: "rtapd \<Rightarrow> rtapd \<Rightarrow> bool" where
  "only_calls w w' \<longleftrightarrow> (\<exists>cs. w' = w\<lparr>sent := cs\<rparr>)"

lemma only_callsD: "only_calls w w' \<Longrightarrow> table_part w' = table_part w \<and> radius w' = radius w \<and> conf w' = conf w"
  by (auto simp: only_calls_def)

lemma only_calls_simps [simp]:
  "only_calls w w" "only_calls w (log_call c v) \<longleftrightarrow> only_calls w v" "only_calls w (snd (RT_ioctl e d i fl v)) \<longleftrightarrow> only_calls w v"
proof -
  show log: "only_calls w (log_call c v) \<longleftrightarrow> only_calls w v" for c v
  proof
    assume "only_calls w (log_call c v)"
    then obtain cs where "log_call c v = w\<lparr>sent := cs\<rparr>" by (auto simp: only_calls_def)
    then have "v = w\<lparr>sent := sent v\<rparr>" by (cases v; cases w) (simp add: log_call_def)
    then show "only_calls w v" by (auto simp: only_calls_def)
  qed (auto simp: only_calls_def log_call_def)
  show "only_calls w w" by (auto simp: only_calls_def intro: exI [of _ "sent w"])
  show "only_calls w (snd (RT_ioctl e d i fl v)) \<longleftrightarrow> only_calls w v"
    by (simp add: RT_ioctl_def Let_def log split: prod.split)
qed

lemma read_ssids_same:
  "only_calls u w \<Longrightarrow> yields (read_ssids e is (c, w)) (\<lambda>(c', w'). only_calls u w' \<and> auth_servers c' = auth_servers c)"
proof (induction "is" arbitrary: c w)
  case (Cons i "is")
  have "yields (read_ssid e i (c, w)) (\<lambda>(c', w'). only_calls u w' \<and> auth_servers c' = auth_servers c)"
    using Cons.prems by (simp add: read_ssid_def Let_def split: prod.split)
  then show ?case
    unfolding read_ssids.simps yields_bind
    by (rule yields_mono) (use Cons.IH in \<open>fastforce simp: yields_def\<close>)
qed simp

lemma query_same: "yields (Query_config_from_driver e c w) (\<lambda>(q, w'). only_calls w w')"
proof -
  obtain res buf v where io: "RT_ioctl e (replicate sizeof_DOT1X_CMM_CONF 0) 0 OID_802_DOT1X_CONFIGURATION w = ((res, buf), v)"
    by (metis prod.exhaust)
  have v: "only_calls w v"
    using only_calls_simps(3) [of w e "replicate sizeof_DOT1X_CMM_CONF 0" 0 OID_802_DOT1X_CONFIGURATION w] by (simp add: io)
  show ?thesis
    unfolding Query_config_from_driver_def io prod.case Let_def
    using v by (auto intro!: yields_run_any)
qed

lemma Config_read_same:
  "yields (Config_read e w) (\<lambda>(q, w'). only_calls w w' \<and> (\<forall>c. q = Some c \<longrightarrow> conf_ok c))"
  unfolding Config_read_def Let_def
  by (auto simp: conf_ok_def num_auth_servers_def yields_bind split: option.split
      intro!: yields_mono [OF query_same] yields_mono [OF read_ssids_same])

section \<open>The handlers\<close>

lemma client_part [simp]:
  "client_inv (w\<lparr>acl_queries := qs\<rparr>) \<longleftrightarrow> client_inv w" "client_inv (w\<lparr>acl_cache := cs\<rparr>) \<longleftrightarrow> client_inv w"
  "client_inv (w\<lparr>eloop := el\<rparr>) \<longleftrightarrow> client_inv w"
  by (simp_all add: client_inv_def)

locale daemon_handlers = daemon_invariant +
  assumes known: "I w \<Longrightarrow> daemon_inv w"
    and outside: "I w \<Longrightarrow> table_part w' = table_part w \<Longrightarrow> client_inv w' \<Longrightarrow> I w'"
begin

lemma clientD: "I w \<Longrightarrow> client_inv w"
  using known by (simp add: daemon_inv_def)

lemma outside_keeps: "I w \<Longrightarrow> yields m (\<lambda>w'. table_part w' = table_part w) \<Longrightarrow> yields m client_inv \<Longrightarrow> yields m I"
  using outside by (auto simp: yields_def)

lemma lists_keep: "I w \<Longrightarrow> I (w\<lparr>acl_queries := qs\<rparr>)" "I w \<Longrightarrow> I (w\<lparr>acl_cache := cs\<rparr>)"
  by (rule outside [of w], assumption, simp, simp add: clientD)+

lemma timer_keeps: "I w \<Longrightarrow> yields (Radius_client_timer e w) I"
proof (rule outside_keeps [OF _ timer_same])
  assume "I w"
  then show "yields (Radius_client_timer e w) client_inv"
    using timer_inv [OF clientD, of w e] by (cases "radius w") (simp_all add: Radius_client_timer_def get_radius_def returns_yields)
qed

lemma retry_timer_keeps: "I w \<Longrightarrow> yields (Radius_retry_primary_timer e w) I"
  by (rule outside_keeps [OF _ retry_timer_same retry_timer_inv [OF clientD]])

lemma expire_keeps: "I w \<Longrightarrow> yields (hostapd_acl_expire e w) I"
proof -
  assume inv: "I w"
  have cache: "yields (hostapd_acl_expire_cache e t w) I" for t
    unfolding hostapd_acl_expire_cache_def yields_map
    by (rule yields_mono [OF expire_cache_walk_same])
      (use clientD [OF inv] in \<open>auto intro!: outside [OF inv] simp: client_inv_def\<close>)
  have queries: "yields (hostapd_acl_expire_queries t v) I" if "I v" for v t
    unfolding hostapd_acl_expire_queries_def run_map_def
    by (rule yields_run_any) (use clientD [OF that] in \<open>auto intro!: outside [OF that] simp: client_inv_def\<close>)
  show ?thesis
    unfolding hostapd_acl_expire_def
    by (rule yields_then [OF cache]) (auto simp: yields_map intro!: yields_mono [OF queries])
qed

lemma allowed_address_keeps: "I w \<Longrightarrow> sends_ok e \<Longrightarrow> yields (hostapd_allowed_address e addr ap w) (\<lambda>(res, w'). I w')"
proof -
  assume inv: "I w" and sends: "sends_ok e"
  have "yields (hostapd_radius_acl_query e addr q w) (\<lambda>(res, q', w'). I w')" for q
    by (rule yields_mono [OF acl_query_frame [OF sends clientD [OF inv], of _ _ 0]]) (auto intro: frame [OF _ inv])
  then have "yields (run_bind (hostapd_radius_acl_query e addr q w) (\<lambda>(res, query, w).
        if res \<noteq> 0 then ret (HOSTAPD_ACL_REJECT, w)
        else ret (HOSTAPD_ACL_PENDING, w\<lparr>acl_queries := query # acl_queries w\<rparr>))) (\<lambda>(res, w'). I w')" for q
    unfolding yields_bind by (rule yields_mono) (auto intro: lists_keep)
  then show ?thesis using inv by (auto simp: hostapd_allowed_address_def)
qed

lemma acl_recv_keeps:
  assumes "I w" "wf_msg msg"
  shows "yields (hostapd_acl_recv_radius e msg req secret w) (\<lambda>(res, msg', w'). msg' = msg \<and> I w')"
proof -
  show ?thesis
    unfolding hostapd_acl_recv_radius_def Let_def
    using assms(1)
    by (auto split: option.split intro!: yields_run_any lists_keep calls dest!: verify_restores [OF assms(2)])
qed

lemma client_init_keeps: "I w \<Longrightarrow> yields (Radius_client_init e w) (\<lambda>(res, w'). I w')"
  using client_init_inv [OF clientD, of w e] client_init_same [of e w] outside by (fastforce simp: yields_def)

lemma free_stas_keeps: "I w \<Longrightarrow> yields (Apd_free_stas w) I"
proof -
  have "I w \<Longrightarrow> yields (free_stas_walk ks w) I" for ks
    by (induction ks arbitrary: w) (auto intro!: yields_run_any [of "get_sta _ _"] yields_then [OF remove])
  then show "I w \<Longrightarrow> yields (Apd_free_stas w) I" by (simp add: Apd_free_stas_def)
qed

lemma reload_keeps: "I w \<Longrightarrow> yields (Handle_reload_config e w) I"
proof -
  assume inv: "I w"
  have init: "yields (run_bind (get_radius v) (\<lambda>r. run_map snd (Radius_client_init e (put_radius (r\<lparr>auth_serv_sock := -1\<rparr>) v)))) I"
    if v: "I v" for v
  proof (rule yields_run_any, goal_cases)
    case (1 r)
    then have "radius v = Some r" by (cases "radius v") (auto simp: get_radius_def)
    then have ready: "I (put_radius (r\<lparr>auth_serv_sock := -1\<rparr>) v)"
      using client_invD [OF clientD [OF v]] by (intro outside [OF v]) (auto simp: client_ok_def)
    show ?case unfolding yields_map by (rule yields_mono [OF client_init_keeps [OF ready]]) auto
  qed
  have flush: "yields (Radius_client_flush v) I" if "I v" for v
    using flush_same [of v] outside [OF that] by (simp add: flush_spec [OF clientD [OF that]] clientD [OF that])
  have renew: "yields (run_bind (Radius_client_flush v) (\<lambda>w. run_bind (Apd_free_stas (w\<lparr>conf := c\<rparr>)) (\<lambda>w.
      run_bind (get_radius w) (\<lambda>r. run_map snd (Radius_client_init e (put_radius (r\<lparr>auth_serv_sock := -1\<rparr>) w)))))) I"
    if v: "I v" "conf_ok c" for v c
  proof (rule yields_then [OF flush [OF v(1)]])
    fix u assume u: "I u"
    then have "I (u\<lparr>conf := c\<rparr>)"
      using v(2) clientD [OF u] by (intro outside [OF u]) (auto simp: client_inv_def)
    from free_stas_keeps [OF this] show "yields (run_bind (Apd_free_stas (u\<lparr>conf := c\<rparr>)) (\<lambda>w.
      run_bind (get_radius w) (\<lambda>r. run_map snd (Radius_client_init e (put_radius (r\<lparr>auth_serv_sock := -1\<rparr>) w))))) I"
      by (rule yields_then) (rule init)
  qed
  have "I w'" if "only_calls w w'" for w'
    using only_callsD [OF that] clientD [OF inv] by (intro outside [OF inv]) (simp_all add: client_inv_def)
  then show ?thesis
    unfolding Handle_reload_config_def yields_bind [of "Config_read e w"]
    by (intro yields_mono [OF Config_read_same]) (auto split: option.split intro!: renew)
qed

lemma usr1_keeps: "I w \<Longrightarrow> yields (Handle_usr1 e w) I"
  using reload_keeps [of w e] by (simp add: Handle_usr1_def Handle_reload_config_def)

lemma term_keeps [simp]: "I w \<Longrightarrow> I (Handle_term w)"
  by (rule outside [of w]) (simp_all add: Handle_term_def clientD)

lemma command_keeps: "I w \<Longrightarrow> sends_ok e \<Longrightarrow> yields (internal_command e icmd sa ap w) I"
  by (auto simp: internal_command_def yields_map split: option.split
      intro!: yields_run_any [of "sta_lookup _ _"] remove reload_keeps yields_mono [OF allowed_address_keeps])

lemma Handle_read_keeps:
  assumes "I w" "sends_ok e" "12 \<le> length buf"
  shows "yields (Handle_read e sock len buf w) I"
proof -
  have "length (slice 6 6 buf) = 6" using assms(3) by simp
  then show ?thesis
    using assms(1,2) by (auto simp: Handle_read_def Let_def split: prod.split option.split
      intro!: yields_run_any [of "find_bss _ _"] command_keeps receive_keeps)
qed

end


section \<open>The messages of the server\<close>

text \<open>What is required of a message that is handed to the handlers: it is well-formed, and if it is an Access-Accept
  that verifies against the request and the secret, the invariant allows for it.\<close>

definition acceptable :: "(eapol_state_machine option \<Rightarrow> eapol_state_machine option \<Rightarrow> bool)
    \<Rightarrow> radius_msg \<Rightarrow> radius_msg \<Rightarrow> byte list \<Rightarrow> bool" where
  "acceptable R msg req secret \<longleftrightarrow> wf_msg msg \<and> (genuine_accept msg (Some req) secret \<longrightarrow> (\<forall>a b. R a b))"

text \<open>Nothing that comes from the client's socket is an Access-Accept that verifies against a waiting request.\<close>

definition no_accept :: "env \<Rightarrow> (int \<Rightarrow> int \<times> byte list) \<Rightarrow> rtapd \<Rightarrow> bool" where
  "no_accept e rx w \<longleftrightarrow> (\<forall>sock msg r. Radius_msg_parse (env_alloc e) (take (nat (fst (rx sock))) (snd (rx sock))) = Some msg
     \<longrightarrow> radius w = Some r \<longrightarrow> (\<forall>x \<in> set (msgs r). ident x = msg_identifier msg \<longrightarrow> \<not> genuine_accept msg (Some (the (rm_msg x))) (rm_secret x)))"

context daemon_handlers
begin

lemma call_rx_keeps:
  assumes "I w" "acceptable R msg req secret"
  shows "yields (call_rx e h msg req secret w) (\<lambda>(res, msg', w'). acceptable R msg' req secret \<and> I w')"
proof (cases h)
  case H_ieee802_1x_receive_auth
  have "yields (ieee802_1x_receive_auth e msg (Some req) secret w) (\<lambda>(res, msg', w'). msg' = msg \<and> I w')"
    using assms(2) by (intro receive_auth_keeps [OF assms(1)]) (auto simp: acceptable_def)
  then show ?thesis using assms(2) by (auto simp: call_rx_def H_ieee802_1x_receive_auth elim: yields_mono)
next
  case H_hostapd_acl_recv_radius
  have "yields (hostapd_acl_recv_radius e msg (Some req) secret w) (\<lambda>(res, msg', w'). msg' = msg \<and> I w')"
    using assms(2) by (intro acl_recv_keeps [OF assms(1)]) (auto simp: acceptable_def)
  then show ?thesis using assms(2) by (auto simp: call_rx_def H_hostapd_acl_recv_radius elim: yields_mono)
qed

lemma answer_keeps:
  "I w \<Longrightarrow> radius w = Some r \<Longrightarrow> i \<in> ident ` set (msgs r) \<Longrightarrow> I (put_radius (answered i r) w)"
  by (rule outside [of w]) (use client_invD [OF clientD [of w]] answered_ok in auto)

lemma rx_contract: "rx_handlers (call_rx e) I (acceptable R)"
  by unfold_locales (blast intro: call_rx_keeps clientD answer_keeps)+

lemma reader_keeps:
  assumes inv: "I w" and sends: "sends_ok e" and buf: "\<And>s. length (snd (rx s)) = 3000"
    and quiet: "(\<forall>a b. R a b) \<or> no_accept e rx w"
  shows "yields (call_reader e rx h sock d u w) I"
proof (cases h)
  case H_Radius_client_receive
  have "yields (Radius_client_receive (call_rx e) e (fst (rx sock)) (snd (rx sock)) w) I"
  proof (rule rx_handlers.receive_keeps [OF rx_contract inv], goal_cases)
    case (1 msg r x)
    then show ?case
      using quiet parse_wf(1) [OF 1(1)] by (auto simp: acceptable_def no_accept_def)
  qed
  then show ?thesis by (simp add: H_Radius_client_receive)
next
  case H_Handle_read
  then show ?thesis using Handle_read_keeps [OF inv sends] buf by simp
qed simp_all

lemma timeout_keeps: "I w \<Longrightarrow> yields (call_timeout e h d u w) I"
  by (induction e h d u w rule: call_timeout.induct)
    (simp_all add: timer_keeps retry_timer_keeps expire_keeps session_timer_keeps tick_keeps)

lemma signal_keeps: "I w \<Longrightarrow> yields (call_signal e h sig d u w) I"
  by (cases h) (simp_all add: usr1_keeps)

lemma loop_part: "I (w\<lparr>eloop := el\<rparr>) \<longleftrightarrow> I w"
proof
  show "I w \<Longrightarrow> I (w\<lparr>eloop := el\<rparr>)" by (rule outside [of w]) (simp_all add: clientD)
  assume inv: "I (w\<lparr>eloop := el\<rparr>)"
  show "I w" by (rule outside [OF inv]) (use clientD [OF inv] in simp_all)
qed

lemma fire_keeps: "I w \<Longrightarrow> yields (eloop_fire eloop (\<lambda>l w. w\<lparr>eloop := l\<rparr>) (call_timeout e) now w) I"
  unfolding eloop_fire_def by (auto intro: timeout_keeps simp: loop_part split: list.split)

lemma handle_signal_keeps: "I w \<Longrightarrow> yields (daemon_signal e sig w) I"
  by (simp add: daemon_signal_def eloop_handle_signal_def signal_keeps split: option.split)

end


section \<open>The invariants and the contract of the handlers\<close>

lemma daemon_outside:
  assumes "table_part w' = table_part w"
  shows "daemon_inv w \<Longrightarrow> client_inv w' \<Longrightarrow> daemon_inv w'" "unaccepted w \<Longrightarrow> unaccepted w'"
proof -
  have same: "stas w' = stas w" "sta_list w' = sta_list w" "sta_hash w' = sta_hash w" "num_sta w' = num_sta w" "next_sta w' = next_sta w"
    using assms by (simp_all add: table_part_def)
  then show "daemon_inv w \<Longrightarrow> client_inv w' \<Longrightarrow> daemon_inv w'"
    using table_same [OF same] by (simp add: daemon_inv_def)
  show "unaccepted w \<Longrightarrow> unaccepted w'" using same by (simp add: unaccepted_def)
qed

interpretation intact_handlers: daemon_handlers daemon_inv "\<lambda>a b. True"
  by unfold_locales (auto intro: daemon_outside)

interpretation shut_handlers: daemon_handlers "\<lambda>w. daemon_inv w \<and> unaccepted w" keeps_shut
  by unfold_locales (auto intro: daemon_outside)

interpretation intact_rx: rx_handlers "call_rx e" daemon_inv "acceptable (\<lambda>a b. True)" for e
  by (rule intact_handlers.rx_contract)

interpretation shut_rx: rx_handlers "call_rx e" "\<lambda>w. daemon_inv w \<and> unaccepted w" "acceptable keeps_shut" for e
  by (rule shut_handlers.rx_contract)

end
