(* ===== verification/Startup.thy ===== *)
theory Startup
  imports ConfigShape DaemonInv
begin

text \<open>
  What the configuration holds once it is read, and the start of the daemon evaluated on a concrete driver: one BSS, one
  server with the key \<open>"s"\<close>, everything else zero.
\<close>

definition sample_driver_conf :: "byte list" where
  "sample_driver_conf = [0, 0, 0, 0, 1, 1, 0, 0, 127] @ replicate 284 0 @ [1, 2, 0, 0, 10, 0x14, 7, 0, 0, 115] @ replicate 63 0 @ [1] @ replicate 1406 0"

definition startup_env :: env where
  "startup_env = sample_env\<lparr>env_ioctl := (\<lambda>l c. case c of
       Ioctl s n f d \<Rightarrow> (0, if f = OID_802_DOT1X_CONFIGURATION then sample_driver_conf else [])
     | IfReq s r n \<Rightarrow> (0, if r = SIOCGIFHWADDR then [1, 0, 2, 0, 0, 0, 0, 9] else [])
     | _ \<Rightarrow> (0, []))\<rparr>"

lemma sample_driver_length: "length sample_driver_conf = 1773"
  by (simp add: sample_driver_conf_def)

lemma pieces:
  assumes "length a = 9" "length b = 284" "length c = 10" "length d = 63" "length f = 1" "length g = 1406"
  shows "off + n \<le> 9 \<Longrightarrow> slice off n (a @ b @ c @ d @ f @ g) = slice off n a"
    "9 \<le> off \<Longrightarrow> off + n \<le> 293 \<Longrightarrow> slice off n (a @ b @ c @ d @ f @ g) = slice (off - 9) n b"
    "293 \<le> off \<Longrightarrow> off + n \<le> 303 \<Longrightarrow> slice off n (a @ b @ c @ d @ f @ g) = slice (off - 293) n c"
    "slice 366 1 (a @ b @ c @ d @ f @ g) = f"
    "367 \<le> off \<Longrightarrow> slice off n (a @ b @ c @ d @ f @ g) = slice (off - 367) n g"
    "drop 302 (a @ b @ c @ d @ f @ g) = drop 9 c @ d @ f @ g"
  using assms by (simp_all add: slice_append_back)

lemma sample_driver_slice:
  "off + n \<le> 9 \<Longrightarrow> slice off n sample_driver_conf = slice off n [0, 0, 0, 0, 1, 1, 0, 0, 127]"
  "9 \<le> off \<Longrightarrow> off + n \<le> 293 \<Longrightarrow> slice off n sample_driver_conf = replicate n 0"
  "293 \<le> off \<Longrightarrow> off + n \<le> 303 \<Longrightarrow> slice off n sample_driver_conf = slice (off - 293) n [1, 2, 0, 0, 10, 0x14, 7, 0, 0, 115]"
  "slice 366 (Suc 0) sample_driver_conf = [1]"
  "367 \<le> off \<Longrightarrow> off + n \<le> 1773 \<Longrightarrow> slice off n sample_driver_conf = replicate n 0"
  "drop 302 sample_driver_conf = 115 # replicate 63 0 @ [1] @ replicate 1406 0"
  unfolding sample_driver_conf_def
       apply (rule pieces(1), simp_all)[1]
      apply (rule trans [OF pieces(2)], simp_all add: slice_def)[1]
     apply (rule pieces(3), simp_all)[1]
    apply (rule pieces(4) [unfolded One_nat_def], simp_all)[1]
   apply (rule trans [OF pieces(5)], simp_all add: slice_def)[1]
  apply (rule trans [OF pieces(6)], simp_all)[1]
  done

definition started_conf :: rtapd_config where
  "started_conf = (config_defaults startup_env sample_world)\<lparr>SsidNum := 1\<rparr>"

lemma sample_rd:
  "rd8 4 sample_driver_conf = ret 1" "rd32 5 sample_driver_conf = ret 0x7F000001" "rd8 293 sample_driver_conf = ret 1"
  "rd32 294 sample_driver_conf = ret 0x0A000002" "rd32 298 sample_driver_conf = ret 1812" "rd8 366 sample_driver_conf = ret 1"
  by (simp_all add: rd8_def rd32_def sample_driver_length sample_driver_slice mem_read_def) (simp_all add: slice_def rd_le32_def)

lemma sample_rd0:
  "9 \<le> off \<Longrightarrow> off < 293 \<or> 367 \<le> off \<and> off < 1773 \<Longrightarrow> rd8 off sample_driver_conf = ret 0"
  "9 \<le> off \<Longrightarrow> off + 4 \<le> 293 \<or> 367 \<le> off \<and> off + 4 \<le> 1773 \<Longrightarrow> rd32 off sample_driver_conf = ret 0"
  by (auto simp: rd8_def rd32_def sample_driver_length sample_driver_slice) (simp_all add: numeral_eq_Suc rd_le32_def)

lemma startup_simps [simp]:
  "env_alloc startup_env = no_oom" "env_socket startup_env = (\<lambda>l. 5)" "env_send startup_env = (\<lambda>l c. 0)" "env_now startup_env = Timeval 1000 0"
  "env_rand startup_env = (\<lambda>l n. Some (replicate n 0))"
  by (simp_all add: startup_env_def sample_env_def)

lemma startup_ioctl:
  "RT_ioctl startup_env d i f w = ((0, filled (if f = OID_802_DOT1X_CONFIGURATION then sample_driver_conf else []) d),
     log_call (Ioctl (ioctl_sock w) (prefix_wlan_name w @ dec_u8 i) f d) w)"
  "env_ioctl startup_env l (IfReq s r n) = (0, if r = SIOCGIFHWADDR then [1, 0, 2, 0, 0, 0, 0, 9] else [])"
  by (simp_all add: RT_ioctl_def startup_env_def)

lemma startup_filled: "filled sample_driver_conf (replicate sizeof_DOT1X_CMM_CONF 0) = sample_driver_conf"
  by (simp add: filled_def sizeof_DOT1X_CMM_CONF_def sample_driver_length)

definition sample_server :: hostapd_radius_server where
  "sample_server = \<lparr>srv_addr = 0x0A000002, srv_port = 1812, shared_secret = [115]\<rparr>"

lemma sample_servers:
  assumes "auth_servers c = []"
  shows "read_servers startup_env sample_driver_conf [294] (c, 0, 0, 0)
    = ret (c\<lparr>auth_server := Some 0, auth_servers := [sample_server]\<rparr>, 1, 1, 1)"
  using assms
  by (simp add: read_server_def sample_rd Config_read_radius_addr_def num_auth_servers_def set_server_def sample_server_def
      strdup_key_def sample_driver_slice c_string_def slice_def s32_def signed_take_bit_int_eq_self)

lemma sample_common:
  "read_common sample_driver_conf c = ret (c\<lparr>radius_retry_primary_interval := 0, session_timeout_set := 0, session_timeout_interval := 0,
     quiet_interval := AUTH_PAE_DEFAULT_quietPeriod\<rparr>)"
  by (simp add: read_common_def sample_rd0 s32_def AUTH_PAE_DEFAULT_quietPeriod_def)

lemma sample_bss:
  "read_bsss sample_driver_conf [0] (c, 0, 0)
    = ret (c\<lparr>RadiusAclEnable := (RadiusAclEnable c)[0 := 0], AclCacheTimeout := (AclCacheTimeout c)[0 := 0]\<rparr>, 0, 0)"
  by (simp add: read_bss_def read_wep_def read_nas_id_def read_ifname_def at_Dot1xBssInfo_def at_EAPifname_len_def at_PreAuthifname_len_def
      at_RadiusAclEnable_def at_AclCacheTimeout_def sample_rd0 Let_def)

lemma sample_query:
  assumes "auth_servers c = []" "SsidNum c = 1"
  shows "\<exists>c' w'. Query_config_from_driver startup_env c w = ret (Some (c', 0, 15), w')
    \<and> SsidNum c' = 1 \<and> auth_servers c' = [sample_server] \<and> num_eap_if c' = num_eap_if c \<and> num_preauth_if c' = num_preauth_if c
    \<and> eap_if_name c' = eap_if_name c \<and> preauth_if_name c' = preauth_if_name c \<and> Ssid c' = Ssid c \<and> radius_retry_primary_interval c' = 0
    \<and> only_calls w w'"
  using assms
  by (simp add: Query_config_from_driver_def startup_ioctl startup_filled sample_rd at_Dot1xBssInfo_def at_radius_srv_info_def
      sample_servers sample_common m_num_def sample_bss config_checks_def Let_def MAX_MBSSID_NUM_def
      del: read_servers.simps read_bsss.simps)

lemma sample_config:
  "\<exists>c w'. Config_read startup_env w = ret (Some c, w') \<and> SsidNum c = 1 \<and> auth_servers c = [sample_server] \<and> auth_server c = Some 0
    \<and> num_eap_if c = 1 \<and> num_preauth_if c = 1 \<and> eap_if_name c = eap_if_name (config_defaults startup_env w)
    \<and> preauth_if_name c = eap_if_name (config_defaults startup_env w) \<and> radius_retry_primary_interval c = 0 \<and> only_calls w w'"
proof -
  obtain c w' where "Query_config_from_driver startup_env (config_defaults startup_env w) w = ret (Some (c, 0, 15), w')"
      "SsidNum c = 1" "auth_servers c = [sample_server]" "num_eap_if c = 1" "num_preauth_if c = 1"
      "eap_if_name c = eap_if_name (config_defaults startup_env w)" "preauth_if_name c = eap_if_name (config_defaults startup_env w)"
      "Ssid c = replicate 8 (replicate 33 0)" "radius_retry_primary_interval c = 0" "only_calls w w'"
    using sample_query [of "config_defaults startup_env w" w]
    by (auto simp: config_defaults_def Let_def MAX_MBSSID_NUM_def HOSTAPD_MAX_SSID_LEN_def)
  then show ?thesis
    by (simp add: Config_read_def read_ssid_def startup_ioctl SIOCGIWESSID_def SIOCGIFHWADDR_def HOSTAPD_MAX_SSID_LEN_def Let_def)
qed

lemma replicate_unroll: "replicate (numeral k) x = x # replicate (pred_numeral k) x"
  by (simp add: numeral_eq_Suc)

lemma sample_ifname: "ifname_of (eap_if_name (config_defaults startup_env w)) 0 = ret [98, 114, 48]"
proof -
  have "eap_if_name (config_defaults startup_env w) = (br0 @ replicate 12 0) # replicate 7 (replicate 16 0)"
    by (simp add: config_defaults_def Let_def MAX_MBSSID_NUM_def IFNAMSIZ_def replicate_unroll [of "Num.Bit0 (Num.Bit0 (Num.Bit0 Num.One))"] store_def br0_def)
  then show ?thesis by (simp add: ifname_of_def c_string_def br0_def IFNAMSIZ_def)
qed

lemma sample_setup:
  assumes "num_eap_if (conf u) = 1" "num_preauth_if (conf u) = 1" "SsidNum (conf u) = 1" "radius u = None" "length (own_addr u) = 8"
    and "ifname_of (eap_if_name (conf u)) 0 = ret n" "ifname_of (preauth_if_name (conf u)) 0 = ret n" "auth_servers (conf u) = [s]"
    and "auth_server (conf u) = Some 0" "radius_retry_primary_interval (conf u) = 0"
  shows "\<exists>v. Apd_setup_interface startup_env u = ret (0, v) \<and> own_addr v = (own_addr u)[0 := [2, 0, 0, 0, 0, 9]] \<and> conf v = conf u
    \<and> \<lparr>sk_sock = 5, sk_eloop_data = Ctx Apd, sk_user_data = NULL_CTX, sk_handler = H_Handle_read\<rparr> \<in> set (readers (eloop v))"
  using assms
  by (simp add: Apd_setup_interface_def Apd_init_sockets_def open_packet_socket_def startup_ioctl eloop_register_read_sock_def reader_count_def
      Let_def Radius_client_init_def Radius_client_init_auth_def Radius_change_server_def num_auth_servers_def server_at_def
      ieee802_1x_init_def hostapd_acl_init_def Radius_client_register_def Radius_client_flush_def filled_def ARPHRD_ETHER_def SIOCGIFHWADDR_def SIOCGIFINDEX_def
      log_call_def put_radius_def add_timeout_def del_timeout_def eloop_cancel_timeout_def eloop_register_timeout_def split: prod.split)

lemma sample_start: "\<exists>w. daemon_start startup_env [114, 97] 77 (zero_rtapd sample_conf (eloop_init NULL_CTX) []) = ret (True, Some w)
  \<and> length (own_addr w) = 8 \<and> own_addr w ! 0 = [2, 0, 0, 0, 0, 9] \<and> SsidNum (conf w) = 1
  \<and> \<lparr>sk_sock = 5, sk_eloop_data = Ctx Apd, sk_user_data = NULL_CTX, sk_handler = H_Handle_read\<rparr> \<in> set (readers (eloop w))"
proof -
  let ?z = "(zero_rtapd sample_conf (eloop_init NULL_CTX) [])\<lparr>eloop := register_signals startup_env (eloop_init (Ctx Interfaces))\<rparr>"
  let ?y = "log_call Socket (?z\<lparr>prefix_wlan_name := [114, 97], ioctl_sock := 5\<rparr>)"
  obtain c w where c: "Config_read startup_env ?y = ret (Some c, w)"
      "SsidNum c = 1" "auth_servers c = [sample_server]" "auth_server c = Some 0" "num_eap_if c = 1" "num_preauth_if c = 1"
      "eap_if_name c = eap_if_name (config_defaults startup_env ?y)" "preauth_if_name c = eap_if_name (config_defaults startup_env ?y)"
      "radius_retry_primary_interval c = 0" "only_calls ?y w"
    using sample_config [of ?y] by blast
  let ?u = "w\<lparr>conf := c, wlan_sock := replicate MAX_MBSSID_NUM (-1), eth_sock := replicate MAX_MBSSID_NUM (-1)\<rparr>"
  have init: "Apd_init startup_env [114, 97] ?z = ret (Some ?u)"
    using c(1) by (simp add: Apd_init_def Let_def)
  have u: "radius ?u = None" "length (own_addr ?u) = 8"
    using c(10) by (auto simp: only_calls_def zero_rtapd_def MAX_MBSSID_NUM_def log_call_def)
  obtain v where v: "Apd_setup_interface startup_env ?u = ret (0, v)" "own_addr v = (own_addr ?u)[0 := [2, 0, 0, 0, 0, 9]]" "conf v = c"
      "\<lparr>sk_sock = 5, sk_eloop_data = Ctx Apd, sk_user_data = NULL_CTX, sk_handler = H_Handle_read\<rparr> \<in> set (readers (eloop v))"
    using sample_setup [of ?u "[98, 114, 48]" sample_server] u c sample_ifname by auto
  have "own_addr v ! 0 = [2, 0, 0, 0, 0, 9]" "length (own_addr v) = 8" unfolding v(2) using u(2) by simp_all
  then show ?thesis
    using init v(1,3,4) c(2) by (simp add: daemon_start_def Let_def startup_ioctl log_call_def)
qed




end
