(* ===== verification/Reachable.thy ===== *)
theory Reachable
  imports Startup
begin

text \<open>
  The runs of the daemon: it starts (\<open>daemon_start\<close>), and from then on the event loop calls one handler after
  the other, for a timeout that is due, a socket or a signal. \<open>callback\<close> is one such call, \<open>reachable\<close> a world after
  any number of them, and a turn of the loop (\<open>daemon_turn\<close>) is a sequence of them. What the locale
  \<open>daemon_handlers\<close> shows of the handlers gives the invariants of the whole program.
\<close>


section \<open>Startup\<close>

lemma startup_part [simp]:
  "table_part (w\<lparr>eth_sock := es\<rparr>) = table_part w" "client_inv (w\<lparr>eth_sock := es\<rparr>) \<longleftrightarrow> client_inv w" "radius (w\<lparr>eth_sock := es\<rparr>) = radius w"
  "table_part (w\<lparr>wlan_sock := es\<rparr>) = table_part w" "client_inv (w\<lparr>wlan_sock := es\<rparr>) \<longleftrightarrow> client_inv w" "radius (w\<lparr>wlan_sock := es\<rparr>) = radius w"
  "table_part (w\<lparr>own_addr := oa\<rparr>) = table_part w" "client_inv (w\<lparr>own_addr := oa\<rparr>) \<longleftrightarrow> client_inv w" "radius (w\<lparr>own_addr := oa\<rparr>) = radius w"
  by (simp_all add: table_part_def client_inv_def)

definition kept_outside :: "rtapd \<Rightarrow> rtapd \<Rightarrow> bool" where
  "kept_outside w w' \<longleftrightarrow> table_part w' = table_part w \<and> (client_inv w \<longrightarrow> client_inv w')"

lemma kept_outside_simps [simp]:
  "kept_outside w w" "kept_outside u (log_call c w) \<longleftrightarrow> kept_outside u w" "kept_outside u (w\<lparr>eloop := el\<rparr>) \<longleftrightarrow> kept_outside u w"
  "kept_outside u (add_timeout e s h d x w) \<longleftrightarrow> kept_outside u w" "kept_outside u (snd (RT_ioctl e bs i fl w)) \<longleftrightarrow> kept_outside u w"
  "kept_outside u (w\<lparr>eth_sock := es\<rparr>) \<longleftrightarrow> kept_outside u w" "kept_outside u (w\<lparr>wlan_sock := es\<rparr>) \<longleftrightarrow> kept_outside u w"
  "kept_outside u (w\<lparr>own_addr := oa\<rparr>) \<longleftrightarrow> kept_outside u w"
  by (simp_all add: kept_outside_def)

lemma open_packet_socket_same:
  assumes "\<And>s w. kept_outside u (keep s w) \<longleftrightarrow> kept_outside u w"
  shows "kept_outside u (snd (open_packet_socket e name keep w)) \<longleftrightarrow> kept_outside u w"
  by (simp add: open_packet_socket_def Let_def assms split: prod.split)

lemma open_packet_sockets_same:
  assumes "\<And>i s u w. kept_outside u (keep i s w) \<longleftrightarrow> kept_outside u w"
  shows "kept_outside u w \<Longrightarrow> yields (open_packet_sockets e names keep is w) (\<lambda>(ok, w'). kept_outside u w')"
proof (induction "is" arbitrary: w)
  case (Cons i "is")
  have step: "kept_outside u (snd (open_packet_socket e name (keep i) w))" for name
    using open_packet_socket_same [of u "keep i" e name w] assms Cons.prems by blast
  have rest: "yields (case open_packet_socket e name (keep i) w of (ok, w) \<Rightarrow>
      if ok then open_packet_sockets e names keep is w else ret (False, w)) (\<lambda>(ok, w'). kept_outside u w')" for name
    using step [of name] Cons.IH by (cases "open_packet_socket e name (keep i) w") simp
  show ?case unfolding open_packet_sockets.simps by (rule yields_run_any) (rule rest)
qed simp

lemma read_own_addrs_same:
  "kept_outside u w \<Longrightarrow> yields (read_own_addrs e is w) (\<lambda>(ok, w'). kept_outside u w')"
proof (induction "is" arbitrary: w)
  case (Cons i "is")
  then show ?case by (auto simp: Let_def split: prod.split intro!: Cons.IH)
qed simp

lemma register_same: "kept_outside u w \<Longrightarrow> yields (Radius_client_register e h w) (\<lambda>(res, w'). kept_outside u w')"
proof (cases "radius w")
  case (Some r)
  assume "kept_outside u w"
  then show ?thesis
    using Some by (auto simp: Radius_client_register_def kept_outside_def client_inv_def client_ok_def)
qed (simp add: Radius_client_register_def get_radius_def)

lemma client_init_kept: "kept_outside u w \<Longrightarrow> yields (Radius_client_init e w) (\<lambda>(res, w'). kept_outside u w')"
  using client_init_inv [of w e] client_init_same [of e w] by (fastforce simp: yields_def kept_outside_def)

lemma setup_same: "yields (Apd_setup_interface e w) (\<lambda>(res, w'). kept_outside w w')"
proof -
  have sockets: "yields (Apd_init_sockets e v) (\<lambda>(ok, w'). kept_outside w w')" if v: "kept_outside w v" for v
    unfolding Apd_init_sockets_def
    by (rule yields_then2 [OF open_packet_sockets_same [OF _ v]], simp, simp, intro conjI impI,
        rule yields_then2 [OF open_packet_sockets_same], simp, assumption, auto intro: read_own_addrs_same)
  have init: "yields (ieee802_1x_init e v) (\<lambda>(res, w'). kept_outside w w')" "yields (hostapd_acl_init e v) (\<lambda>(res, w'). kept_outside w w')"
    if "kept_outside w v" for v
    unfolding ieee802_1x_init_def hostapd_acl_init_def yields_map
    by (rule yields_mono [OF register_same [OF that]], auto split: if_splits)+
  have acl: "yields (run_map (\<lambda>(res, w). (if res \<noteq> 0 then -1 else 0, w)) (hostapd_acl_init e v)) (\<lambda>(res, w'). kept_outside w w')"
    if "kept_outside w v" for v
    unfolding yields_map by (rule yields_mono [OF init(2) [OF that]]) auto
  have auth: "yields (run_bind (ieee802_1x_init e v) (\<lambda>(res, w). if res \<noteq> 0 then ret (-1, w) else
      run_map (\<lambda>(res, w). (if res \<noteq> 0 then -1 else 0, w)) (hostapd_acl_init e w))) (\<lambda>(res, w'). kept_outside w w')"
    if "kept_outside w v" for v
    by (rule yields_then2 [OF init(1) [OF that]]) (auto intro: acl)
  have client: "yields (run_bind (Radius_client_init e v) (\<lambda>(res, w). if res \<noteq> 0 then ret (-1, w) else
      run_bind (ieee802_1x_init e w) (\<lambda>(res, w). if res \<noteq> 0 then ret (-1, w) else
      run_map (\<lambda>(res, w). (if res \<noteq> 0 then -1 else 0, w)) (hostapd_acl_init e w)))) (\<lambda>(res, w'). kept_outside w w')"
    if "kept_outside w v" for v
    by (rule yields_then2 [OF client_init_kept [OF that]]) (auto intro: auth)
  show ?thesis
    unfolding Apd_setup_interface_def
    by (rule yields_then2 [OF sockets]) (auto intro: client)
qed

lemma empty_table: "table_inv (zero_rtapd c el log)"
  by (simp add: table_inv_def zero_rtapd_def MAX_STA_COUNT_def)

lemma start_spec:
  assumes "daemon_start e name pid (zero_rtapd c el log) = ret (True, Some w)"
  shows "daemon_inv w" "stas w = Map.empty" "table_part w = table_part (zero_rtapd c el log)"
proof -
  have table: "table_part v = table_part (zero_rtapd c el log) \<Longrightarrow> table_inv v \<and> stas v = Map.empty" for v
    using empty_table [of c el log] table_same [of v "zero_rtapd c el log"] by (simp add: table_part_def zero_rtapd_def)
  have init: "yields (Apd_init e name v) (\<lambda>r. case r of None \<Rightarrow> True | Some w \<Rightarrow> table_part w = table_part v \<and> client_inv w)"
    if v: "radius v = None" for v
  proof -
    let ?u = "log_call Socket (v\<lparr>prefix_wlan_name := name, ioctl_sock := env_socket e (sent v)\<rparr>)"
    have "table_part ?u = table_part v" by (simp add: table_part_def log_call_def)
    moreover have "yields (Config_read e ?u) (\<lambda>(q, w'). table_part w' = table_part ?u \<and> radius w' = None \<and> (\<forall>c. q = Some c \<longrightarrow> conf_ok c))"
      by (rule yields_mono [OF Config_read_same]) (use v in \<open>auto dest: only_callsD\<close>)
    ultimately show ?thesis
      unfolding Apd_init_def Let_def
      by (auto simp: yields_map client_inv_def elim!: yields_mono split: option.split)
  qed
  obtain u v where u: "Apd_init e name ((zero_rtapd c el log)\<lparr>eloop := register_signals e (eloop_init (Ctx Interfaces))\<rparr>) = ret (Some u)"
      "Apd_setup_interface e u = ret (0, v)" "w = snd (RT_ioctl e (le32 pid) 0 (RT_SET_APD_PID OR OID_GET_SET_TOGGLE) v)"
    using assms by (auto simp: daemon_start_def Let_def run_bind_eq_ret split: option.splits if_splits)
  have "radius ((zero_rtapd c el log)\<lparr>eloop := ev\<rparr>) = None" for ev by (simp add: zero_rtapd_def)
  from init [OF this [of "register_signals e (eloop_init (Ctx Interfaces))"], unfolded u(1)]
  have "table_part u = table_part (zero_rtapd c el log)" "client_inv u" by simp_all
  moreover have "kept_outside u v" using setup_same [of e u] u(2) by (simp add: yields_def)
  ultimately have part: "table_part w = table_part (zero_rtapd c el log)" and "client_inv w"
    using u(3) by (simp_all add: kept_outside_def)
  then show "daemon_inv w" "stas w = Map.empty" using table [of w] by (simp_all add: daemon_inv_def)
  show "table_part w = table_part (zero_rtapd c el log)" by (rule part)
qed

section \<open>The runs of the daemon\<close>

text \<open>One call of the event loop: for the timeout at the head of the list, a registered reader or a signal.\<close>

inductive callback :: "env \<Rightarrow> (int \<Rightarrow> int \<times> byte list) \<Rightarrow> rtapd \<Rightarrow> rtapd \<Rightarrow> bool" for e rx where
  fire: "eloop_fire eloop (\<lambda>l w. w\<lparr>eloop := l\<rparr>) (call_timeout e) now w = ret w' \<Longrightarrow> callback e rx w w'"
| read: "s \<in> set (readers (eloop w)) \<Longrightarrow>
    call_reader e rx (sk_handler s) (sk_sock s) (sk_eloop_data s) (sk_user_data s) w = ret w' \<Longrightarrow> callback e rx w w'"
| signal: "daemon_signal e sig w = ret w' \<Longrightarrow> callback e rx w w'"

text \<open>The worlds the daemon gets to when every call is made with a system and an input that satisfy \<open>Q\<close>.\<close>

inductive reachable :: "(env \<Rightarrow> (int \<Rightarrow> int \<times> byte list) \<Rightarrow> rtapd \<Rightarrow> bool) \<Rightarrow> rtapd \<Rightarrow> bool" for Q where
  start: "daemon_start e name pid (zero_rtapd c el log) = ret (True, Some w) \<Longrightarrow> reachable Q w"
| call: "reachable Q w \<Longrightarrow> Q e rx w \<Longrightarrow> callback e rx w w' \<Longrightarrow> reachable Q w'"

text \<open>Every datagram is sent, and the arrays have their sizes.\<close>

definition fair :: "env \<Rightarrow> (int \<Rightarrow> int \<times> byte list) \<Rightarrow> rtapd \<Rightarrow> bool" where
  "fair e rx w \<longleftrightarrow> sends_ok e \<and> (\<forall>s. length (snd (rx s)) = 3000)"

context daemon_handlers
begin

lemma callback_keeps:
  assumes "callback e rx w w'" "I w" "fair e rx w" "(\<forall>a b. R a b) \<or> no_accept e rx w"
  shows "I w'"
  using assms(1)
proof cases
  case (fire now)
  then show ?thesis using fire_keeps [OF assms(2), of e now] by (simp add: yields_def)
next
  case (read s)
  then show ?thesis
    using reader_keeps [OF assms(2), of e rx "sk_handler s" "sk_sock s" "sk_eloop_data s" "sk_user_data s"] assms(3,4) by (simp add: yields_def fair_def)
next
  case (signal sig)
  then show ?thesis using handle_signal_keeps [OF assms(2), of e sig] by (simp add: yields_def)
qed

lemma reachable_keeps:
  assumes "reachable Q w" "\<And>w. daemon_inv w \<Longrightarrow> stas w = Map.empty \<Longrightarrow> I w"
    and "\<And>e rx w. Q e rx w \<Longrightarrow> fair e rx w \<and> ((\<forall>a b. R a b) \<or> no_accept e rx w)"
  shows "I w"
  using assms(1)
proof induction
  case (start e name pid c el log w)
  then show ?case using start_spec(1,2) assms(2) by blast
next
  case (call w e rx w')
  then show ?case using callback_keeps assms(3) by blast
qed

end

lemma poll_invariant:
  assumes "I w" "\<And>s w. I w \<Longrightarrow> s \<in> set (readers (get w)) \<Longrightarrow> yields (call_rd (sk_handler s) (sk_sock s) (sk_eloop_data s) (sk_user_data s) w) I"
  shows "yields (eloop_poll get call_rd ready i w) I"
proof -
  have "I w \<longrightarrow> (\<forall>s w. I w \<longrightarrow> s \<in> set (readers (get w)) \<longrightarrow> yields (call_rd (sk_handler s) (sk_sock s) (sk_eloop_data s) (sk_user_data s) w) I)
      \<longrightarrow> (\<forall>w'. r = Inr w' \<longrightarrow> I w')"
    if "eloop_poll get call_rd ready i w = Some r" for r
  proof (induction get call_rd ready i w r rule: eloop_poll.raw_induct)
    case (1 poll get call_rd ready i w r)
    show ?case
    proof (intro impI)
      assume I: "I w" and calls: "\<forall>s w. I w \<longrightarrow> s \<in> set (readers (get w))
        \<longrightarrow> yields (call_rd (sk_handler s) (sk_sock s) (sk_eloop_data s) (sk_user_data s) w) I"
      let ?s = "readers (get w) ! i"
      let ?call = "if ready (sk_sock ?s) then call_rd (sk_handler ?s) (sk_sock ?s) (sk_eloop_data ?s) (sk_user_data ?s) w else ret w"
      show "\<forall>w'. r = Inr w' \<longrightarrow> I w'"
      proof (cases "i < reader_count (get w)")
        case True
        then have call: "yields ?call I" using I calls by (simp add: reader_count_def)
        have bound: "run_bind ?call (poll get call_rd ready (Suc i)) = Some r" using 1(2) True by simp
        show ?thesis
        proof (intro allI impI)
          fix w' assume r: "r = Inr w'"
          obtain x where x: "?call = ret x" "poll get call_rd ready (Suc i) x = ret w'"
            using bound [unfolded r, folded ret_def] unfolding run_bind_eq_ret by blast
          have "I x" using call x(1) by (simp only: yields_ret)
          then show "I w'"
            using 1(1) [of get call_rd ready "Suc i" x "Inr w'"] x(2) calls by (simp only: ret_def simp_thms sum.inject)
        qed
      qed (use 1(2) I in \<open>auto simp: ret_def\<close>)
    qed
  qed (rule that)
  then show ?thesis using assms by (auto simp: yields_def ret_def)
qed

lemma poll_callbacks:
  "yields (eloop_poll eloop (call_reader e rx) ready i w) ((callback e rx)\<^sup>*\<^sup>* w)"
  by (rule poll_invariant) (auto simp: yields_def intro: rtranclp.rtrancl_into_rtrancl callback.read)

lemma turn_callbacks:
  "yields (daemon_turn e rx t w) (\<lambda>(go, w'). (callback e rx)\<^sup>*\<^sup>* w w')"
proof -
  have fire: "yields (eloop_fire eloop (\<lambda>l w. w\<lparr>eloop := l\<rparr>) (call_timeout e) now w) ((callback e rx)\<^sup>*\<^sup>* w)" for now
    by (auto simp: yields_def intro: callback.fire)
  show ?thesis
    unfolding daemon_turn_def eloop_turn_def
    by (auto simp: yields_bind yields_map intro!: yields_mono [OF fire] yields_mono [OF poll_callbacks] elim: rtranclp_trans)
qed

lemma reachable_star:
  assumes "(callback e rx)\<^sup>*\<^sup>* w w'" "reachable Q w" "\<And>w. Q e rx w"
  shows "reachable Q w'"
  using assms(1) by induction (use assms(2,3) in \<open>auto intro: reachable.call\<close>)

text \<open>A frame of a station: its header announces more than there is, so that it only makes the station known.\<close>

definition sample_rx :: "int \<Rightarrow> int \<times> byte list" where
  "sample_rx sock = (18, [2, 0, 0, 0, 0, 9, 2, 0, 0, 0, 0, 1, 0x88, 0x8E, 1, 1, 255, 255] @ replicate 2982 0)"

lemma sample_rx_length: "length (snd (sample_rx s)) = 3000"
  by (simp add: sample_rx_def)

lemma sample_frame:
  assumes "length (own_addr w) = 8" "own_addr w ! 0 = [2, 0, 0, 0, 0, 9]" "SsidNum (conf w) = 1"
  shows "call_reader startup_env sample_rx H_Handle_read 5 d u w = run_map snd (Ap_get_sta startup_env [2, 0, 0, 0, 0, 1] 0 ETH_P_PAE 5 w)"
proof -
  define buf where "buf = snd (sample_rx 5)"
  define body where "body = [1, 1, 255, 255] @ replicate 2982 (0 :: byte)"
  have buf: "slice 0 6 buf = [2, 0, 0, 0, 0, 9]" "slice 6 6 buf = [2, 0, 0, 0, 0, 1]" "rd_be16 (slice 12 2 buf) = ETH_P_PAE" "drop 14 buf = body"
    by (simp_all add: slice_def rd_be16_def ETH_P_PAE_def buf_def sample_rx_def body_def)
  have bss: "find_bss [2, 0, 0, 0, 0, 9] w = ret (Some 0)"
    using assms by (simp add: find_bss_def)
  have type: "vlan_type buf n = (ETH_P_PAE, False)" for n
    unfolding vlan_type_def buf by (simp add: ETH_P_VLAN_def ETH_P_PAE_def)
  have left: "frame_left 18 = 4" by (simp add: frame_left_def sizeof_priv_rec_def)
  have receive: "ieee802_1x_receive startup_env [2, 0, 0, 0, 0, 1] 0 body 4 ETH_P_PAE 5 w
      = run_map snd (Ap_get_sta startup_env [2, 0, 0, 0, 0, 1] 0 ETH_P_PAE 5 w)"
  proof -
    have body: "mem_read 0 6 body = ret [1, 1, 255, 255, 0, 0]" "mem_read 0 LENGTH_8021X_HDR body = ret [1, 1, 255, 255]"
      by (simp_all add: mem_read_def slice_def body_def LENGTH_8021X_HDR_def numeral_eq_Suc)
    have pl: "payload_len 4 < 65535" by (simp add: payload_len_def LENGTH_8021X_HDR_def)
    show ?thesis
      unfolding ieee802_1x_receive_def run_map_def body run_bind_ret
      by (rule arg_cong [where f = "run_bind _"]) (auto simp: fun_eq_iff rd_be16_def SNAP_802_1H_def body pl Let_def split: option.split)
  qed
  have "Handle_read startup_env 5 18 buf w = ieee802_1x_receive startup_env [2, 0, 0, 0, 0, 1] 0 body 4 ETH_P_PAE 5 w"
    by (simp add: Handle_read_def buf type bss left RalinkIe_def Let_def ETH_P_PAE_def ETH_P_PRE_AUTH_def)
  then show ?thesis using receive by (simp add: buf_def sample_rx_def)
qed

lemma sample_station:
  assumes Q: "\<And>w. Q startup_env sample_rx w"
  shows "\<exists>w s sm. reachable Q w \<and> stas w 0 = Some s \<and> eapol_sm s = Some sm"
proof -
  obtain w where w: "daemon_start startup_env [114, 97] 77 (zero_rtapd sample_conf (eloop_init NULL_CTX) []) = ret (True, Some w)"
      "length (own_addr w) = 8" "own_addr w ! 0 = [2, 0, 0, 0, 0, 9]" "SsidNum (conf w) = 1"
      "\<lparr>sk_sock = 5, sk_eloop_data = Ctx Apd, sk_user_data = NULL_CTX, sk_handler = H_Handle_read\<rparr> \<in> set (readers (eloop w))"
    using sample_start by blast
  note start = start_spec [OF w(1)]
  have empty: "sta_list w = []" "next_sta w = 0" "sta_hash w = replicate STA_HASH_SIZE []" "num_sta w = 0"
    using start(3) by (simp_all add: table_part_def zero_rtapd_def)
  have none: "sta_map w [2, 0, 0, 0, 0, 1] = None" by (simp add: sta_map_def sta_at_def empty)
  have room: "table_room w" "env_alloc startup_env sizeof_sta_info" "table_inv w"
    using start by (simp_all add: daemon_inv_def table_room_def empty MAX_STA_COUNT_def no_oom_def)
  obtain a sm w' where w': "Ap_get_sta startup_env [2, 0, 0, 0, 0, 1] 0 ETH_P_PAE 5 w = ret (Some (next_sta w), w')"
      "stas w' (next_sta w) = Some ((new_sta_info [2, 0, 0, 0, 0, 1] a (if SsidNum (conf w) > 1 then 0 else 0) ETH_P_PAE 5)\<lparr>eapol_sm := sm\<rparr>)" "sm \<noteq> None"
    using get_sta_created [OF room(3) none room(1,2), of 0 ETH_P_PAE 5] by auto
  have "callback startup_env sample_rx w w'"
    using callback.read [OF w(5), of startup_env sample_rx w'] sample_frame [OF w(2-4), of "Ctx Apd" NULL_CTX] w'(1) by simp
  then have "reachable Q w'" using reachable.start [OF w(1), of Q] Q [of w] by (blast intro: reachable.call)
  then show ?thesis using w'(2,3) empty(2) by auto
qed

lemma sample_quiet: "fair startup_env sample_rx w" "no_accept startup_env sample_rx w"
proof -
  show "fair startup_env sample_rx w" by (simp add: fair_def sends_ok_def sample_rx_length)
  have "Radius_msg_parse no_oom (take 18 (snd (sample_rx s))) = None" for s
    by (simp add: Radius_msg_parse_def sample_rx_def)
  then show "no_accept startup_env sample_rx w" by (simp add: no_accept_def sample_rx_def)
qed

end
