(* ===== verification/ProxyBase.thy ===== *)
theory ProxyBase
  imports Prelude
begin

text \<open>
  The data of the multicast proxy \<open>igmpproxy/src\<close>: the structures and constants of \<open>defs.h\<close>, \<open>rttable.c\<close>,
  \<open>callout.c\<close>, \<open>request.c\<close>, \<open>config.c\<close> and \<open>ralink.h\<close>, its global variables as one record, and the operating
  system it runs on.

  The program is modelled as it is built for the router: \<open>RT3052_SUPPORT\<close> is defined and \<open>ralink.o\<close>, \<open>rt3052.o\<close> and
  \<open>rt3052_reg.o\<close> are linked (\<open>igmpproxy/src/Makefile\<close>), without a WAN port of the switch, without special tags, without the
  multicast acceleration and without the wireless snooping. \<open>short\<close> and \<open>int\<close> values are integers, unsigned ones are words.
  An IPv4 address is kept as the program keeps it, in network byte order in a little-endian word.

  Objects from \<open>malloc\<close> whose address is kept live in partial maps from addresses; an access to an address that is not
  mapped is a use after free. A call of \<open>log\<close> with a severity of \<open>LOG_ERR\<close> ends the process.
\<close>

named_theorems proxy_simps "updates of the record of the proxy"

section \<open>Constants\<close>

definition MAX_MC_VIFS :: nat where "MAX_MC_VIFS = 32"
definition RECV_BUF_SIZE :: nat where "RECV_BUF_SIZE = 8192"
definition MIN_IP_HEADER_LEN :: nat where "MIN_IP_HEADER_LEN = 20"
definition MAX_IF :: nat where "MAX_IF = 40"
definition IFF_LOOPBACK :: u16 where "IFF_LOOPBACK = 8"
definition DEFAULT_ROBUSTNESS :: u32 where "DEFAULT_ROBUSTNESS = 2"
definition DEFAULT_THRESHOLD :: byte where "DEFAULT_THRESHOLD = 1"
definition DEFAULT_RATELIMIT :: u32 where "DEFAULT_RATELIMIT = 0"
definition INTERVAL_QUERY :: u32 where "INTERVAL_QUERY = 125"
definition INTERVAL_QUERY_RESPONSE :: u32 where "INTERVAL_QUERY_RESPONSE = 10"

datatype if_state = IF_STATE_DISABLED | IF_STATE_UPSTREAM | IF_STATE_DOWNSTREAM

datatype route_state = ROUTESTATE_NOTJOINED | ROUTESTATE_JOINED | ROUTESTATE_CHECK_LAST_MEMBER

section \<open>Byte order and bits\<close>

text \<open>\<open>ntohl\<close> and \<open>htonl\<close> on a little-endian machine.\<close>

definition ntohl :: "u32 \<Rightarrow> u32" where
  "ntohl w = rd_be32 (le32 w)"

lemma le32_rd_be32: "le32 (rd_be32 [a, b, c, d]) = [d, c, b, a]"
  unfolding le32_def rd_be32_def list.inject
  by (intro conjI bit_word_eqI) (auto simp: bit_simps not_le not_less dest: bit_imp_le_length)

lemma ntohl_ntohl [simp]: "ntohl (ntohl w) = w"
proof -
  have "ntohl (ntohl w) = rd_be32 (rev (le32 w))"
    by (simp add: ntohl_def le32_def [of w] le32_rd_be32)
  also have "\<dots> = rd_le32 (le32 w)"
    by (simp add: rd_be32_def rd_le32_def le32_def or.commute or.left_commute)
  finally show ?thesis by simp
qed

lemma ntohl_inject [simp]: "ntohl a = ntohl b \<longleftrightarrow> a = b"
  by (metis ntohl_ntohl)

definition IN_MULTICAST :: "u32 \<Rightarrow> bool" where
  "IN_MULTICAST a \<longleftrightarrow> a AND 0xF0000000 = 0xE0000000"

text \<open>\<open>1 << n\<close>. A count above 31 is undefined in C; the shift instruction of the machine takes the count modulo 32.\<close>

definition one_shl :: "u32 \<Rightarrow> u32" where
  "one_shl n = push_bit (unat n mod 32) 1"

definition BIT_SET :: "u32 \<Rightarrow> u32 \<Rightarrow> u32" where
  "BIT_SET x n = x OR one_shl n"

definition BIT_TST :: "u32 \<Rightarrow> u32 \<Rightarrow> bool" where
  "BIT_TST x n \<longleftrightarrow> x AND one_shl n \<noteq> 0"

lemma bit_one_shl: "n < 32 \<Longrightarrow> bit (one_shl m) n \<longleftrightarrow> n = unat m mod 32"
  by (auto simp: one_shl_def bit_simps)

lemma BIT_TST_bit: "BIT_TST x n \<longleftrightarrow> bit x (unat n mod 32)"
proof -
  have "unat n mod 32 < 32" by simp
  then have "x AND one_shl n = (if bit x (unat n mod 32) then one_shl n else 0)"
    by (intro bit_word_eqI) (auto simp: bit_simps one_shl_def)
  moreover have "one_shl n \<noteq> 0"
    using bit_one_shl [of "unat n mod 32" n] by (metis \<open>unat n mod 32 < 32\<close> bit_0_eq bot_apply bot_bool_def)
  ultimately show ?thesis by (simp add: BIT_TST_def)
qed

lemma BIT_SET_bit: "n < 32 \<Longrightarrow> bit (BIT_SET x m) n \<longleftrightarrow> bit x n \<or> n = unat m mod 32"
  by (auto simp: BIT_SET_def bit_simps bit_one_shl)

section \<open>Structures\<close>

record SubnetList =
  subnet_addr :: u32
  subnet_mask :: u32

record IfDesc =
  if_Name :: string
  InAdr :: u32
  if_Flags :: u16
  if_state :: if_state
  allowednets :: "SubnetList list"
  if_robustness :: u32
  if_threshold :: byte
  if_ratelimit :: u32
  if_index :: u32

record Config =
  robustnessValue :: u32
  queryInterval :: u32
  queryResponseInterval :: u32
  startupQueryInterval :: u32
  startupQueryCount :: u32
  lastMemberQueryInterval :: u32
  lastMemberQueryCount :: u32
  fastUpstreamLeave :: bool

record vifconfig =
  vc_name :: string
  vc_state :: if_state
  vc_ratelimit :: int
  vc_threshold :: int
  vc_allowednets :: "SubnetList list"

record RouteTable =
  nextroute :: "nat option"
  prevroute :: "nat option"
  rt_group :: u32
  originAddr :: u32
  vifBits :: u32
  upstrState :: route_state
  ageVifBits :: u32
  ageValue :: int
  ageActivity :: int

record GroupVifDesc =
  gv_group :: u32
  gv_vifAddr :: u32
  gv_started :: bool

text \<open>The functions that are given to the timer.\<close>

datatype action = SendGroupSpecificMemberQuery | SendGeneralMembershipQuery | AgeActiveRoutes

record timeOutQueue =
  to_id :: int
  to_func :: action
  to_data :: "nat option"
  to_time :: int

record group_member =
  gm_ip_addr :: u32
  gm_a0 :: byte
  gm_port_num :: int
  has_report :: bool
  gm_next :: "nat option"

record group_entry =
  ge_a1 :: byte
  ge_a2 :: byte
  ge_a3 :: byte
  ge_port_map :: byte
  ge_members :: "nat option"

record mac_table =
  mt_mac1 :: u32
  mt_mac2 :: u16
  mt_vidx :: byte
  mt_port_map :: byte

section \<open>The operating system\<close>

text \<open>The calls of the program that the rest of the system sees. The socket of the mrouted interface is implicit; the calls on
  the socket for memberships carry it.\<close>

datatype kcall =
    SetHdrIncl | SetRcvbuf int | SetTtl byte | SetLoop byte | SetIf u32
  | MrtInit | MrtDone | AddVif nat byte u32 u32 | AddMfc u32 u32 u16 "byte list" | DelMfc u32 u32 u16
  | AddMembership int u32 u32 | DropMembership int u32 u32
  | IgmpSocket | UdpSocket | UdpConnect int | SendPacket "byte list" u32
  | Command string
  | EswRead u32 | EswWrite u32 u32 | EswSocket | PhysRead u32 | PhysWrite u32 u32
  | ArpRead | ArpProbe string

text \<open>What the system answers may depend on everything that was asked before: \<open>answer\<close> is the result of a call (0 for success, an
  \<open>errno\<close> for a failure, a descriptor for a socket), \<open>reg_value\<close> the value a register read returns and \<open>arp_file\<close> the lines of
  \<open>/proc/net/arp\<close>, if it can be opened. \<open>p_block n\<close> is the size of the block that a request for \<open>n\<close> bytes gets. \<open>if_conf\<close> is the list of the interfaces with their addresses (\<open>None\<close> for another
  family), and the other fields are the attributes the system has of an interface; a failing \<open>ioctl\<close> is \<open>None\<close>.\<close>

record penv =
  p_alloc :: "nat \<Rightarrow> bool"
  p_block :: "nat \<Rightarrow> nat"
  answer :: "kcall list \<Rightarrow> kcall \<Rightarrow> int"
  reg_value :: "kcall list \<Rightarrow> u32 \<Rightarrow> u32"
  arp_file :: "kcall list \<Rightarrow> string list option"
  if_conf :: "(string \<times> u32 option) list option"
  if_netmask :: "string \<Rightarrow> u32 option"
  if_ifindex :: "string \<Rightarrow> int option"
  if_flags :: "string \<Rightarrow> u16 option"

section \<open>Global variables\<close>

record proxy =
  IfDescVc :: "IfDesc list"
  upStreamVif :: int
  vifconf :: "vifconfig list"
  commonConfig :: Config
  routes :: "nat \<Rightarrow> RouteTable option"
  next_route_addr :: nat
  routing_table :: "nat option"
  mcGroupSock :: int
  callout_queue :: "timeOutQueue list"
  callout_id :: int
  gvdescs :: "nat \<Rightarrow> GroupVifDesc option"
  next_gvdesc :: nat
  VifDescVc :: "nat option list"
  curttl :: int
  send_buf :: "byte list"
  snooping_enabled :: bool
  group_list :: "nat list"
  groups :: "nat \<Rightarrow> group_entry option"
  members :: "nat \<Rightarrow> group_member option"
  group_count :: int
  next_group_addr :: nat
  next_member_addr :: nat
  internal_mac_table :: "mac_table list"
  esw_fd :: int
  calls :: "kcall list"

definition do_call :: "penv \<Rightarrow> kcall \<Rightarrow> proxy \<Rightarrow> int \<times> proxy" where
  "do_call e c w = (answer e (calls w) c, w\<lparr>calls := calls w @ [c]\<rparr>)"

text \<open>A call whose failure is logged as an error, which ends the process; one whose failure is only logged.\<close>

definition must_call :: "penv \<Rightarrow> kcall \<Rightarrow> proxy \<Rightarrow> proxy run" where
  "must_call e c w = (case do_call e c w of (r, w) \<Rightarrow> if r = 0 then ret w else fail ProcessExit)"

definition try_call :: "penv \<Rightarrow> kcall \<Rightarrow> proxy \<Rightarrow> proxy" where
  "try_call e c w = snd (do_call e c w)"

text \<open>Only the log of the calls differs.\<close>

definition same_but_calls :: "proxy \<Rightarrow> proxy \<Rightarrow> bool" where
  "same_but_calls w w' \<longleftrightarrow> (\<exists>cs. w' = w\<lparr>calls := calls w @ cs\<rparr>)"

lemma same_but_calls_refl [simp]: "same_but_calls w w"
  unfolding same_but_calls_def by (intro exI [of _ "[]"]) simp

lemma same_but_calls_trans: "same_but_calls u v \<Longrightarrow> same_but_calls v w \<Longrightarrow> same_but_calls u w"
  by (auto simp: same_but_calls_def)

lemma try_call_simps [simp, proxy_simps]: "try_call e c w = w\<lparr>calls := calls w @ [c]\<rparr>"
  by (simp add: try_call_def do_call_def)

lemma must_call_yields: "yields (must_call e c w) (\<lambda>w'. w' = w\<lparr>calls := calls w @ [c]\<rparr>)"
  by (simp add: must_call_def do_call_def)

text \<open>The commands given to the shell.\<close>

definition commands_of :: "kcall list \<Rightarrow> string list" where
  "commands_of cs = concat (map (\<lambda>c. case c of Command s \<Rightarrow> [s] | _ \<Rightarrow> []) cs)"

lemma commands_of_simps [simp]: "commands_of [] = []" "commands_of (xs @ ys) = commands_of xs @ commands_of ys"
  "commands_of (c # cs) = (case c of Command s \<Rightarrow> [s] | _ \<Rightarrow> []) @ commands_of cs"
  by (simp_all add: commands_of_def)

lemma commands_of_replicate: "commands_of [c] = [] \<Longrightarrow> commands_of (replicate n c) = []"
  by (induction n) simp_all

section \<open>Text\<close>

text \<open>A number in decimal, and an address as \<open>inetFmt\<close> prints it: its bytes in the order of memory.\<close>

fun dec_digits :: "nat \<Rightarrow> string" where
  "dec_digits n = (if n < 10 then [char_of (48 + n)] else dec_digits (n div 10) @ [char_of (48 + n mod 10)])"

declare dec_digits.simps [simp del]

definition inetFmt :: "u32 \<Rightarrow> string" where
  "inetFmt addr = (case le32 addr of [a, b, c, d] \<Rightarrow>
     dec_digits (unat a) @ ''.'' @ dec_digits (unat b) @ ''.'' @ dec_digits (unat c) @ ''.'' @ dec_digits (unat d))"

lemma dec_byte_length: "n < 256 \<Longrightarrow> length (dec_digits n) \<le> 3"
  by (subst dec_digits.simps, subst dec_digits.simps, subst dec_digits.simps) (auto split: if_splits)

lemma inetFmt_length: "length (inetFmt a) \<le> 15"
proof -
  have "length (dec_digits (unat b)) \<le> 3" for b :: byte
    by (rule dec_byte_length) (use unsigned_less [of b, where ?'a = nat] in simp)
  note this [of "ucast a"] this [of "ucast (drop_bit 8 a)"] this [of "ucast (drop_bit 16 a)"] this [of "ucast (drop_bit 24 a)"]
  then show ?thesis by (simp add: inetFmt_def le32_def)
qed

end
