(* ===== verification/Callout.thy ===== *)
theory Callout
  imports ProxyBase
begin

text \<open>
  The timer of the multicast proxy, \<open>igmpproxy/src/callout.c\<close>. The queue holds for every entry the seconds between it and the
  entry before it. The nodes are allocated, linked and freed here and no other code keeps their addresses, so the queue is the
  list of the nodes; the data an entry carries belongs to \<open>request.c\<close> and is an address.

  \<open>agenda\<close> gives every entry its time from now. The operations are those of an agenda ordered by time, in which
  entries of the same time keep the order they were made in: the locale \<open>agenda_queue\<close> states that contract and is interpreted on the model.
\<close>

definition sizeof_timeOutQueue :: nat where "sizeof_timeOutQueue = 20"

section \<open>The operations\<close>

definition callout_init :: "proxy \<Rightarrow> proxy" where
  "callout_init w = w\<lparr>callout_queue := []\<rparr>"

definition free_all_callouts :: "proxy \<Rightarrow> proxy" where
  "free_all_callouts w = w\<lparr>callout_queue := []\<rparr>"

text \<open>The walk of \<open>timer_setTimer\<close>: the delay is what is left behind the entries passed.\<close>

fun insert_node :: "int \<Rightarrow> timeOutQueue \<Rightarrow> timeOutQueue list \<Rightarrow> timeOutQueue list" where
  "insert_node delay node [] = [node\<lparr>to_time := delay\<rparr>]"
| "insert_node delay node (p # ps) =
     (if delay < to_time p then node\<lparr>to_time := delay\<rparr> # p\<lparr>to_time := s32 (to_time p - delay)\<rparr> # ps
      else p # insert_node (s32 (delay - to_time p)) node ps)"

definition timer_setTimer :: "penv \<Rightarrow> int \<Rightarrow> action \<Rightarrow> nat option \<Rightarrow> proxy \<Rightarrow> int \<times> proxy" where
  "timer_setTimer e delay action data w =
     (if \<not> p_alloc e sizeof_timeOutQueue then (-1, w)
      else
        let i = s32 (callout_id w + 1);
            node = \<lparr>to_id = i, to_func = action, to_data = data, to_time = delay\<rparr>
        in (i, w\<lparr>callout_id := i, callout_queue := insert_node delay node (callout_queue w)\<rparr>))"

definition timer_nextTimer :: "proxy \<Rightarrow> int" where
  "timer_nextTimer w =
     (case callout_queue w of [] \<Rightarrow> -1 | p # ps \<Rightarrow> if to_time p < 0 then 0 else to_time p)"

fun left_walk :: "int \<Rightarrow> int \<Rightarrow> timeOutQueue list \<Rightarrow> int" where
  "left_walk timer_id left [] = -1"
| "left_walk timer_id left (p # ps) =
     (let left = s32 (left + to_time p) in if to_id p = timer_id then left else left_walk timer_id left ps)"

definition timer_leftTimer :: "int \<Rightarrow> proxy \<Rightarrow> int" where
  "timer_leftTimer timer_id w = (if timer_id = 0 then -1 else left_walk timer_id 0 (callout_queue w))"

text \<open>The walk of \<open>timer_clearTimer\<close>: the queue without the entry, and its data, which is freed.\<close>

fun clear_walk :: "int \<Rightarrow> timeOutQueue list \<Rightarrow> (timeOutQueue list \<times> nat option) option" where
  "clear_walk timer_id [] = None"
| "clear_walk timer_id (p # ps) =
     (if to_id p = timer_id
      then Some (case ps of [] \<Rightarrow> [] | q # qs \<Rightarrow> q\<lparr>to_time := s32 (to_time q + to_time p)\<rparr> # qs, to_data p)
      else map_option (\<lambda>(l, d). (p # l, d)) (clear_walk timer_id ps))"

definition timer_clearTimer :: "int \<Rightarrow> proxy \<Rightarrow> (int \<times> proxy) run" where
  "timer_clearTimer timer_id w =
     (if timer_id = 0 then ret (0, w)
      else case clear_walk timer_id (callout_queue w) of
        None \<Rightarrow> ret (0, w)
      | Some (q, None) \<Rightarrow> ret (1, w\<lparr>callout_queue := q\<rparr>)
      | Some (q, Some k) \<Rightarrow>
          if gvdescs w k = None then fail UseAfterFree
          else ret (1, w\<lparr>callout_queue := q, gvdescs := (gvdescs w)(k := None)\<rparr>))"

text \<open>The first loop of \<open>age_callout_queue\<close>: the entries that are due, and the queue that is left.\<close>

fun split_due :: "int \<Rightarrow> timeOutQueue list \<Rightarrow> timeOutQueue list \<times> timeOutQueue list" where
  "split_due elapsed [] = ([], [])"
| "split_due elapsed (p # ps) =
     (if to_time p > elapsed then ([], p\<lparr>to_time := s32 (to_time p - elapsed)\<rparr> # ps)
      else case split_due (s32 (elapsed - to_time p)) ps of (due, rest) \<Rightarrow> (p # due, rest))"

text \<open>The second loop: the function of every entry is called, \<open>fire\<close> being the call through the pointer.\<close>

fun run_due :: "(action \<Rightarrow> nat option \<Rightarrow> proxy \<Rightarrow> proxy run) \<Rightarrow> timeOutQueue list \<Rightarrow> proxy \<Rightarrow> proxy run" where
  "run_due fire [] w = ret w"
| "run_due fire (p # ps) w = run_bind (fire (to_func p) (to_data p) w) (run_due fire ps)"

definition age_callout_queue ::
    "(action \<Rightarrow> nat option \<Rightarrow> proxy \<Rightarrow> proxy run) \<Rightarrow> int \<Rightarrow> proxy \<Rightarrow> proxy run" where
  "age_callout_queue fire elapsed w =
     (case split_due elapsed (callout_queue w) of (due, rest) \<Rightarrow> run_due fire due (w\<lparr>callout_queue := rest\<rparr>))"

section \<open>The agenda\<close>

text \<open>What an entry is for: its identifier, its function and its data.\<close>

type_synonym job = "int \<times> action \<times> nat option"

definition job_of :: "timeOutQueue \<Rightarrow> job" where
  "job_of p = (to_id p, to_func p, to_data p)"

fun agenda_from :: "int \<Rightarrow> timeOutQueue list \<Rightarrow> (int \<times> job) list" where
  "agenda_from t [] = []"
| "agenda_from t (p # ps) = (t + to_time p, job_of p) # agenda_from (t + to_time p) ps"

definition agenda :: "proxy \<Rightarrow> (int \<times> job) list" where
  "agenda w = agenda_from 0 (callout_queue w)"

text \<open>No entry is before the one in front of it, and the last one is within the range of an \<open>int\<close>.\<close>

definition queue_ok :: "timeOutQueue list \<Rightarrow> bool" where
  "queue_ok q \<longleftrightarrow> (\<forall>p \<in> set q. 0 \<le> to_time p) \<and> sum_list (map to_time q) < 2 ^ 31"

lemma queue_ok_Nil [simp]: "queue_ok []"
  by (simp add: queue_ok_def)

lemma queue_ok_Cons: "queue_ok (p # ps) \<longleftrightarrow> 0 \<le> to_time p \<and> queue_ok ps \<and> to_time p + sum_list (map to_time ps) < 2 ^ 31"
proof -
  have "sum_list (map to_time ps) \<ge> 0" if "\<forall>p \<in> set ps. 0 \<le> to_time p"
    using that by (intro sum_list_nonneg) auto
  then show ?thesis by (fastforce simp: queue_ok_def)
qed

lemma queue_ok_sum: "queue_ok q \<Longrightarrow> 0 \<le> sum_list (map to_time q)"
  by (intro sum_list_nonneg) (auto simp: queue_ok_def)

lemma agenda_from_shift: "agenda_from (s + t) q = map (\<lambda>(d, j). (s + d, j)) (agenda_from t q)"
  by (induction q arbitrary: t) (simp_all add: add.assoc)

lemma agenda_from_le: "queue_ok q \<Longrightarrow> (d, j) \<in> set (agenda_from t q) \<Longrightarrow> t \<le> d"
proof (induction q arbitrary: t)
  case (Cons p ps)
  then show ?case by (fastforce simp: queue_ok_Cons)
qed simp

lemma agenda_from_sorted: "queue_ok q \<Longrightarrow> sorted (map fst (agenda_from t q))"
  by (induction q arbitrary: t) (auto simp: queue_ok_Cons dest: agenda_from_le)

text \<open>Insertion puts the job behind everything that is not later.\<close>

definition agenda_insert :: "int \<Rightarrow> job \<Rightarrow> (int \<times> job) list \<Rightarrow> (int \<times> job) list" where
  "agenda_insert d j a = takeWhile (\<lambda>x. fst x \<le> d) a @ (d, j) # dropWhile (\<lambda>x. fst x \<le> d) a"

lemma queue_ok_head:
  assumes "queue_ok (p # ps)"
  shows "0 \<le> to_time p" "queue_ok ps" "0 \<le> sum_list (map to_time ps)" "to_time p + sum_list (map to_time ps) < 2 ^ 31"
    "0 \<le> d \<Longrightarrow> d < to_time p \<Longrightarrow> s32 (to_time p - d) = to_time p - d"
    "d < 2 ^ 31 \<Longrightarrow> \<not> d < to_time p \<Longrightarrow> s32 (d - to_time p) = d - to_time p"
  using assms queue_ok_sum [of ps] by (auto simp: queue_ok_Cons intro!: s32_id)

lemma insert_node_agenda:
  assumes "queue_ok q" "0 \<le> delay" "delay < 2 ^ 31"
  shows "agenda_from t (insert_node delay node q) = agenda_insert (t + delay) (job_of node) (agenda_from t q)
    \<and> queue_ok (insert_node delay node q) \<and> sum_list (map to_time (insert_node delay node q)) = max delay (sum_list (map to_time q))"
  using assms
proof (induction q arbitrary: delay t)
  case Nil
  then show ?case by (simp add: agenda_insert_def job_of_def queue_ok_def)
next
  case (Cons p ps)
  note p = queue_ok_head [OF Cons.prems(1)]
  show ?case
  proof (cases "delay < to_time p")
    case True
    then show ?thesis using p(1-4) p(5) [OF Cons.prems(2) True] Cons.prems(2)
      by (simp add: agenda_insert_def job_of_def queue_ok_Cons)
  next
    case False
    then show ?thesis
      using p(1-4) p(6) [OF Cons.prems(3) False] Cons.prems(3) Cons.IH [of "delay - to_time p" "t + to_time p"]
      by (auto simp: agenda_insert_def queue_ok_Cons max_def)
  qed
qed

lemma split_due_agenda:
  assumes "queue_ok q" "0 \<le> elapsed" "elapsed < 2 ^ 31"
  shows "map job_of (fst (split_due elapsed q)) = map snd (takeWhile (\<lambda>x. fst x \<le> t + elapsed) (agenda_from t q))
    \<and> agenda_from (t + elapsed) (snd (split_due elapsed q)) = dropWhile (\<lambda>x. fst x \<le> t + elapsed) (agenda_from t q)
    \<and> queue_ok (snd (split_due elapsed q))"
  using assms
proof (induction q arbitrary: elapsed t)
  case (Cons p ps)
  note p = queue_ok_head [OF Cons.prems(1)]
  show ?case
  proof (cases "elapsed < to_time p")
    case True
    then show ?thesis using p(1-4) p(5) [OF Cons.prems(2) True] Cons.prems(2) by (simp add: job_of_def queue_ok_Cons)
  next
    case False
    then show ?thesis
      using p(1-4) p(6) [OF Cons.prems(3) False] Cons.prems(3) Cons.IH [of "elapsed - to_time p" "t + to_time p"]
      by (simp add: split_beta)
  qed
qed simp

text \<open>Removal leaves the time of the other entries alone.\<close>

lemma merge_head:
  assumes "queue_ok (p # q # qs)" and q': "q' = q\<lparr>to_time := s32 (to_time q + to_time p)\<rparr>"
  shows "agenda_from t (q' # qs) = agenda_from (t + to_time p) (q # qs)" "queue_ok (q' # qs)"
    "sum_list (map to_time (q' # qs)) = sum_list (map to_time (p # q # qs))"
proof -
  note p = queue_ok_head [OF assms(1)]
  have s32: "s32 (to_time q + to_time p) = to_time q + to_time p"
    by (rule s32_id) (use p queue_ok_head [OF p(2)] in auto)
  show "agenda_from t (q' # qs) = agenda_from (t + to_time p) (q # qs)"
    unfolding q' s32 by (simp add: job_of_def add.assoc add.commute [of "to_time q"])
  show "queue_ok (q' # qs)" "sum_list (map to_time (q' # qs)) = sum_list (map to_time (p # q # qs))"
    unfolding q' s32 using p queue_ok_head [OF p(2)] by (simp_all add: queue_ok_Cons)
qed

lemma clear_walk_agenda:
  assumes "queue_ok q"
  shows "case clear_walk i q of
      None \<Rightarrow> \<forall>(d, j) \<in> set (agenda_from t q). fst j \<noteq> i
    | Some (q', data) \<Rightarrow> queue_ok q' \<and> sum_list (map to_time q') \<le> sum_list (map to_time q)
        \<and> (\<exists>xs d f ys. agenda_from t q = xs @ (d, i, f, data) # ys \<and> (\<forall>(d, j) \<in> set xs. fst j \<noteq> i) \<and> agenda_from t q' = xs @ ys)"
  using assms
proof (induction q arbitrary: t)
  case (Cons p ps)
  note p = queue_ok_head [OF Cons.prems]
  consider (only) "to_id p = i" "ps = []" | (first) q qs where "to_id p = i" "ps = q # qs" | (later) "to_id p \<noteq> i"
    by (cases ps) auto
  then show ?case
  proof cases
    case only
    then show ?thesis using p by (auto simp: job_of_def intro!: exI [of _ "[]"])
  next
    case first
    note m = merge_head(1) [OF Cons.prems [unfolded first(2)] refl, of t] merge_head(2,3) [OF Cons.prems [unfolded first(2)] refl]
    then show ?thesis using first by (auto simp: job_of_def intro!: exI [of _ "[]"])
  next
    case later
    show ?thesis
    proof (cases "clear_walk i ps")
      case None
      then show ?thesis using later Cons.IH [OF p(2), of "t + to_time p"] by (auto simp: job_of_def)
    next
      case (Some r)
      then obtain q' data where r: "clear_walk i ps = Some (q', data)" by (cases r) auto
      then obtain xs d f ys where split: "queue_ok q'" "sum_list (map to_time q') \<le> sum_list (map to_time ps)"
          "agenda_from (t + to_time p) ps = xs @ (d, i, f, data) # ys" "\<forall>(d, j) \<in> set xs. fst j \<noteq> i"
          "agenda_from (t + to_time p) q' = xs @ ys"
        using Cons.IH [OF p(2), of "t + to_time p"] by auto
      have "queue_ok (p # q')" using p(1,4) split(1,2) by (simp add: queue_ok_Cons)
      moreover have "agenda_from t (p # ps) = ((t + to_time p, job_of p) # xs) @ (d, i, f, data) # ys"
        "\<forall>(d, j) \<in> set ((t + to_time p, job_of p) # xs). fst j \<noteq> i" "agenda_from t (p # q') = ((t + to_time p, job_of p) # xs) @ ys"
        using split later by (auto simp: job_of_def)
      ultimately show ?thesis using later r split(2)
        by (simp del: agenda_from.simps, intro exI [of _ "(t + to_time p, job_of p) # xs"] exI [of _ d] exI [of _ f] exI [of _ ys]) simp
    qed
  qed
qed simp

text \<open>What \<open>timer_leftTimer\<close> finds, and when the next entry is due.\<close>

lemma left_walk_agenda:
  assumes "queue_ok q" "0 \<le> t" "t + sum_list (map to_time q) < 2 ^ 31"
  shows "left_walk i t q = (case find (\<lambda>(d, j). fst j = i) (agenda_from t q) of None \<Rightarrow> -1 | Some (d, j) \<Rightarrow> d)"
  using assms
proof (induction q arbitrary: t)
  case (Cons p ps)
  note p = queue_ok_head [OF Cons.prems(1)]
  have "s32 (t + to_time p) = t + to_time p" by (rule s32_id) (use p Cons.prems in auto)
  then show ?case using p Cons.prems Cons.IH [of "t + to_time p"] by (simp add: job_of_def add.assoc)
qed simp

section \<open>The contract\<close>

text \<open>A queue of jobs that keeps its agenda: what the rest of the program relies on.\<close>

lemma takeWhile_filter: "sorted (map fst xs) \<Longrightarrow> takeWhile (\<lambda>x. fst x \<le> (t :: int)) xs = filter (\<lambda>x. fst x \<le> t) xs"
proof (induction xs)
  case (Cons x xs)
  then have "\<not> fst x \<le> t \<Longrightarrow> filter (\<lambda>x. fst x \<le> t) xs = []" by (auto simp: filter_empty_conv)
  then show ?case using Cons by auto
qed simp

locale agenda_queue =
  fixes jobs :: "'q \<Rightarrow> (int \<times> 'j) list" and ok :: "'q \<Rightarrow> bool" and add :: "int \<Rightarrow> 'j \<Rightarrow> 'q \<Rightarrow> 'q"
    and due :: "int \<Rightarrow> 'q \<Rightarrow> 'j list" and rest :: "int \<Rightarrow> 'q \<Rightarrow> 'q"
  assumes add_ok: "ok q \<Longrightarrow> 0 \<le> d \<Longrightarrow> d < 2 ^ 31 \<Longrightarrow> ok (add d j q)"
    and add_jobs: "ok q \<Longrightarrow> 0 \<le> d \<Longrightarrow> d < 2 ^ 31 \<Longrightarrow>
      jobs (add d j q) = takeWhile (\<lambda>x. fst x \<le> d) (jobs q) @ (d, j) # dropWhile (\<lambda>x. fst x \<le> d) (jobs q)"
    and rest_ok: "ok q \<Longrightarrow> 0 \<le> t \<Longrightarrow> t < 2 ^ 31 \<Longrightarrow> ok (rest t q)"
    and due_jobs: "ok q \<Longrightarrow> 0 \<le> t \<Longrightarrow> t < 2 ^ 31 \<Longrightarrow> due t q = map snd (takeWhile (\<lambda>x. fst x \<le> t) (jobs q))"
    and rest_jobs: "ok q \<Longrightarrow> 0 \<le> t \<Longrightarrow> t < 2 ^ 31 \<Longrightarrow>
      map (\<lambda>x. (t + fst x, snd x)) (jobs (rest t q)) = dropWhile (\<lambda>x. fst x \<le> t) (jobs q)"
    and jobs_sorted: "ok q \<Longrightarrow> sorted (map fst (jobs q))"
begin

text \<open>No job is lost or duplicated: what is there is due or stays.\<close>

lemma add_set: "ok q \<Longrightarrow> 0 \<le> d \<Longrightarrow> d < 2 ^ 31 \<Longrightarrow> set (jobs (add d j q)) = insert (d, j) (set (jobs q))"
  by (simp add: add_jobs) (metis set_append takeWhile_dropWhile_id)

lemma due_or_rest:
  "ok q \<Longrightarrow> 0 \<le> t \<Longrightarrow> t < 2 ^ 31 \<Longrightarrow> map snd (jobs q) = due t q @ map snd (jobs (rest t q))"
proof -
  assume q: "ok q" "0 \<le> t" "t < 2 ^ 31"
  have "map snd (jobs (rest t q)) = map snd (dropWhile (\<lambda>x. fst x \<le> t) (jobs q))"
    unfolding rest_jobs [OF q, symmetric] by simp
  then show ?thesis unfolding due_jobs [OF q] by (simp flip: map_append)
qed

text \<open>Exactly the jobs whose time has come are due.\<close>

lemma due_iff: "ok q \<Longrightarrow> 0 \<le> t \<Longrightarrow> t < 2 ^ 31 \<Longrightarrow> set (due t q) = snd ` {x \<in> set (jobs q). fst x \<le> t}"
proof -
  assume q: "ok q" "0 \<le> t" "t < 2 ^ 31"
  show ?thesis unfolding due_jobs [OF q] takeWhile_filter [OF jobs_sorted [OF q(1)]] by simp
qed

end

text \<open>The model keeps the contract.\<close>

definition node_of :: "job \<Rightarrow> timeOutQueue" where
  "node_of j = (case j of (i, f, d) \<Rightarrow> \<lparr>to_id = i, to_func = f, to_data = d, to_time = 0\<rparr>)"

lemma job_node [simp]: "job_of (node_of j) = j"
  by (simp add: job_of_def node_of_def split: prod.split)

interpretation callouts: agenda_queue "agenda_from 0" queue_ok "\<lambda>d j. insert_node d (node_of j)"
  "\<lambda>t q. map job_of (fst (split_due t q))" "\<lambda>t q. snd (split_due t q)"
proof (unfold_locales, goal_cases)
  case (2 q d j)
  then show ?case using insert_node_agenda [OF 2, of 0 "node_of j"] by (simp add: agenda_insert_def)
next
  case (5 q t)
  then show ?case
    using split_due_agenda [OF 5, of 0] agenda_from_shift [of t 0 "snd (split_due t q)"] by (simp add: split_beta)
qed (use insert_node_agenda split_due_agenda [of _ _ 0] agenda_from_sorted in auto)


section \<open>The timer\<close>

lemma setTimer_spec:
  assumes "queue_ok (callout_queue w)" "0 \<le> delay" "delay < 2 ^ 31" "p_alloc e sizeof_timeOutQueue"
  shows "timer_setTimer e delay f data w = (s32 (callout_id w + 1),
      w\<lparr>callout_id := s32 (callout_id w + 1), callout_queue := callout_queue (snd (timer_setTimer e delay f data w))\<rparr>)"
    and "agenda (snd (timer_setTimer e delay f data w)) = agenda_insert delay (s32 (callout_id w + 1), f, data) (agenda w)"
    and "queue_ok (callout_queue (snd (timer_setTimer e delay f data w)))"
  using assms insert_node_agenda [OF assms(1-3), of 0]
  by (simp_all add: timer_setTimer_def agenda_def Let_def job_of_def)

text \<open>The jobs are called one after the other, the first due one first.\<close>

fun run_jobs :: "(action \<Rightarrow> nat option \<Rightarrow> proxy \<Rightarrow> proxy run) \<Rightarrow> job list \<Rightarrow> proxy \<Rightarrow> proxy run" where
  "run_jobs fire [] w = ret w"
| "run_jobs fire ((i, f, d) # js) w = run_bind (fire f d w) (run_jobs fire js)"

lemma run_due_jobs: "run_due fire ps = run_jobs fire (map job_of ps)"
  by (induction ps) (auto simp: job_of_def)

text \<open>C25. The queue of differences is an agenda. In a queue without negative entries whose length fits an \<open>int\<close>: a new timer is
  queued behind every entry that is not later than it and before the others, whose times do not change; the time to wait for is that
  of the first entry; the time left for an identifier is that of its first entry; clearing a timer takes exactly that
  entry out; and when seconds have passed, the entries whose time has come are called, first come first, on a queue that holds exactly the others, which are that much nearer.\<close>
theorem callout_refines_agenda:
  assumes "queue_ok (callout_queue w)" "0 \<le> n" "n < 2 ^ 31" "p_alloc e sizeof_timeOutQueue" "i \<noteq> 0"
  shows "agenda (snd (timer_setTimer e n f data w))
      = takeWhile (\<lambda>x. fst x \<le> n) (agenda w) @ (n, fst (timer_setTimer e n f data w), f, data) # dropWhile (\<lambda>x. fst x \<le> n) (agenda w)
    \<and> timer_nextTimer w = (case agenda w of [] \<Rightarrow> -1 | x # xs \<Rightarrow> fst x)
    \<and> timer_leftTimer i w = (case find (\<lambda>(d, j). fst j = i) (agenda w) of None \<Rightarrow> -1 | Some (d, j) \<Rightarrow> d)
    \<and> (case timer_clearTimer i w of
         None \<Rightarrow> False
       | Some (Inl flt) \<Rightarrow> \<exists>d f k. (d, i, f, Some k) \<in> set (agenda w) \<and> gvdescs w k = None
       | Some (Inr (r, w')) \<Rightarrow>
           if r = 0 then w' = w \<and> (\<forall>(d, j) \<in> set (agenda w). fst j \<noteq> i)
           else \<exists>xs x ys. agenda w = xs @ x # ys \<and> fst (snd x) = i \<and> (\<forall>(d, j) \<in> set xs. fst j \<noteq> i) \<and> agenda w' = xs @ ys)
    \<and> (\<exists>q. age_callout_queue fire n w = run_jobs fire (map snd (takeWhile (\<lambda>x. fst x \<le> n) (agenda w))) (w\<lparr>callout_queue := q\<rparr>)
         \<and> queue_ok q \<and> map (\<lambda>x. (n + fst x, snd x)) (agenda (w\<lparr>callout_queue := q\<rparr>)) = dropWhile (\<lambda>x. fst x \<le> n) (agenda w))"
proof (intro conjI, goal_cases)
  case 1
  show ?case using setTimer_spec(1,2) [OF assms(1-4)] by (metis agenda_insert_def fst_conv)
next
  case 2
  show ?case using assms(1) by (auto simp: timer_nextTimer_def agenda_def queue_ok_Cons split: list.split)
next
  case 3
  show ?case using left_walk_agenda [OF assms(1), of 0 i] assms(1,5) by (simp add: timer_leftTimer_def agenda_def queue_ok_def)
next
  case 4
  show ?case
  proof (cases "clear_walk i (callout_queue w)")
    case None
    then show ?thesis using clear_walk_agenda [OF assms(1), of 0 i] assms(5) by (simp add: timer_clearTimer_def agenda_def ret_def)
  next
    case (Some r)
    then obtain q data where r: "clear_walk i (callout_queue w) = Some (q, data)" by (cases r) auto
    then obtain xs d f ys where "agenda w = xs @ (d, i, f, data) # ys" "\<forall>(d, j) \<in> set xs. fst j \<noteq> i" "agenda_from 0 q = xs @ ys"
      using clear_walk_agenda [OF assms(1), of 0 i] by (auto simp: agenda_def)
    then show ?thesis
      using r assms(5) by (cases data) (auto simp: timer_clearTimer_def agenda_def ret_def fail_def intro!: exI [of _ xs])
  qed
next
  case 5
  show ?case
    using split_due_agenda [OF assms(1-3), of 0] callouts.rest_jobs [OF assms(1-3)]
    by (intro exI [of _ "snd (split_due n (callout_queue w))"])
      (simp add: age_callout_queue_def split_beta agenda_def run_due_jobs)
qed

text \<open>Two timers, of which the second one set is due first.\<close>

definition sample_proxy :: proxy where
  "sample_proxy = \<lparr>IfDescVc = [], upStreamVif = -1, vifconf = [],
     commonConfig = \<lparr>robustnessValue = 2, queryInterval = 125, queryResponseInterval = 10, startupQueryInterval = 31, startupQueryCount = 2,
       lastMemberQueryInterval = 10, lastMemberQueryCount = 2, fastUpstreamLeave = False\<rparr>,
     routes = (\<lambda>k. None), next_route_addr = 0, routing_table = None, mcGroupSock = 0, callout_queue = [], callout_id = 0,
     gvdescs = (\<lambda>k. None), next_gvdesc = 0, VifDescVc = replicate 32 None, curttl = 0, send_buf = [], snooping_enabled = False,
     group_list = [], groups = (\<lambda>k. None), members = (\<lambda>k. None), group_count = 0, next_group_addr = 0, next_member_addr = 0,
     internal_mac_table = [], esw_fd = -1, calls = []\<rparr>"

definition sample_penv :: penv where
  "sample_penv = \<lparr>p_alloc = no_oom, p_block = (\<lambda>n. n), answer = (\<lambda>l c. 0), reg_value = (\<lambda>l r. 0), arp_file = (\<lambda>l. Some []),
     if_conf = Some [], if_netmask = (\<lambda>n. None), if_ifindex = (\<lambda>n. None), if_flags = (\<lambda>n. None)\<rparr>"

definition two_timers :: proxy where
  "two_timers = snd (timer_setTimer sample_penv 3 AgeActiveRoutes None (snd (timer_setTimer sample_penv 10 SendGeneralMembershipQuery None sample_proxy)))"

theorem callout_refines_agenda_witness:
  "agenda two_timers = [(3, 2, AgeActiveRoutes, None), (10, 1, SendGeneralMembershipQuery, None)]
   \<and> agenda (snd (timer_setTimer sample_penv 3 AgeActiveRoutes None two_timers))
      = [(3, 2, AgeActiveRoutes, None), (3, 3, AgeActiveRoutes, None), (10, 1, SendGeneralMembershipQuery, None)]"
proof -
  have q: "queue_ok (callout_queue two_timers)" "p_alloc sample_penv n" for n
    by (simp_all add: two_timers_def timer_setTimer_def sample_penv_def sample_proxy_def Let_def queue_ok_def no_oom_def)
  have a: "agenda two_timers = [(3, 2, AgeActiveRoutes, None), (10, 1, SendGeneralMembershipQuery, None)]"
    "fst (timer_setTimer sample_penv 3 AgeActiveRoutes None two_timers) = 3"
    by (simp_all add: two_timers_def timer_setTimer_def sample_penv_def sample_proxy_def Let_def agenda_def job_of_def)
  show ?thesis
    using callout_refines_agenda [OF q(1) _ _ q(2), of 3 1 AgeActiveRoutes None "\<lambda>f d w. ret w"] a by simp
qed

end
