(* ===== verification/IfVc.thy ===== *)
theory IfVc
  imports Callout
begin

text \<open>
  The interfaces of the multicast proxy and its way to the kernel: \<open>igmpproxy/src/ifvc.c\<close>, \<open>mroute-api.c\<close>, \<open>mcgroup.c\<close>,
  \<open>udpsock.c\<close> and \<open>kern.c\<close>. An interface is its place in the array \<open>IfDescVc\<close>; the list is the part of the array in front
  of \<open>IfDescEp\<close>.
\<close>

section \<open>Interfaces\<close>

definition sizeof_SubnetList :: nat where "sizeof_SubnetList = 12"

text \<open>A slot of the static array that has not been written.\<close>

definition zero_if :: IfDesc where
  "zero_if = \<lparr>if_Name = [], InAdr = 0, if_Flags = 0, if_state = IF_STATE_DISABLED, allowednets = [], if_robustness = 0, if_threshold = 0,
     if_ratelimit = 0, if_index = 0\<rparr>"

definition build_if :: "penv \<Rightarrow> string \<times> u32 option \<Rightarrow> IfDesc run" where
  "build_if e i =
     (case i of (name, None) \<Rightarrow> ret (zero_if\<lparr>if_Name := name, if_index := - 1\<rparr>)
      | (name, Some addr) \<Rightarrow>
          (case (if_netmask e name, if_ifindex e name, if_flags e name) of
             (Some netmask, Some ix, Some flags) \<Rightarrow>
               if \<not> p_alloc e sizeof_SubnetList then fail ProcessExit
               else ret \<lparr>if_Name = name, InAdr = addr, if_Flags = flags, if_state = IF_STATE_DOWNSTREAM,
                      allowednets = [\<lparr>subnet_addr = addr AND netmask, subnet_mask = netmask\<rparr>], if_robustness = DEFAULT_ROBUSTNESS,
                      if_threshold = DEFAULT_THRESHOLD, if_ratelimit = DEFAULT_RATELIMIT, if_index = - 1\<rparr>
           | _ \<Rightarrow> fail ProcessExit))"

fun build_ifs :: "penv \<Rightarrow> (string \<times> u32 option) list \<Rightarrow> IfDesc list run" where
  "build_ifs e [] = ret []"
| "build_ifs e (i # is) = run_bind (build_if e i) (\<lambda>d. run_map (Cons d) (build_ifs e is))"

text \<open>The kernel fills the buffer of \<open>MAX_IF\<close> requests and no more.\<close>

definition buildIfVc :: "penv \<Rightarrow> proxy \<Rightarrow> proxy run" where
  "buildIfVc e w =
     (case do_call e UdpSocket w of (sock, w) \<Rightarrow>
        if sock < 0 then fail ProcessExit
        else case if_conf e of None \<Rightarrow> fail ProcessExit
          | Some is \<Rightarrow> run_map (\<lambda>ds. w\<lparr>IfDescVc := IfDescVc w @ ds\<rparr>) (build_ifs e (take MAX_IF is)))"

fun name_walk :: "string \<Rightarrow> nat \<Rightarrow> IfDesc list \<Rightarrow> nat option" where
  "name_walk n k [] = None"
| "name_walk n k (d # ds) = (if if_Name d = n then Some k else name_walk n (Suc k) ds)"

definition getIfByName :: "string \<Rightarrow> proxy \<Rightarrow> nat option" where
  "getIfByName n w = name_walk n 0 (IfDescVc w)"

definition getIfByIx :: "int \<Rightarrow> proxy \<Rightarrow> IfDesc option" where
  "getIfByIx ix w = (if ix < 0 then None else if nat ix < length (IfDescVc w) then Some (IfDescVc w ! nat ix) else None)"

definition in_subnet :: "u32 \<Rightarrow> SubnetList \<Rightarrow> bool" where
  "in_subnet ipaddr s \<longleftrightarrow> ipaddr AND subnet_mask s = subnet_addr s"

definition wildcard :: "SubnetList \<Rightarrow> bool" where
  "wildcard s \<longleftrightarrow> subnet_addr s AND subnet_mask s = 0"

text \<open>The walk of \<open>getIfByAddress\<close> over the nets of an interface: \<open>Inl\<close> when it returns from the function, \<open>Inr\<close> with the fall-back.\<close>

fun net_walk :: "u32 \<Rightarrow> IfDesc \<Rightarrow> SubnetList list \<Rightarrow> IfDesc option \<Rightarrow> IfDesc + IfDesc option" where
  "net_walk ipaddr d [] dp = Inr dp"
| "net_walk ipaddr d (s # ss) dp =
     (if wildcard s then net_walk ipaddr d ss (Some d)
      else if in_subnet ipaddr s then Inl d else net_walk ipaddr d ss dp)"

fun if_walk :: "u32 \<Rightarrow> IfDesc list \<Rightarrow> IfDesc option \<Rightarrow> IfDesc option" where
  "if_walk ipaddr [] dp = dp"
| "if_walk ipaddr (d # ds) dp =
     (case net_walk ipaddr d (allowednets d) dp of Inl d \<Rightarrow> Some d | Inr dp \<Rightarrow> if_walk ipaddr ds dp)"

definition getIfByAddress :: "u32 \<Rightarrow> proxy \<Rightarrow> IfDesc option" where
  "getIfByAddress ipaddr w = if_walk ipaddr (IfDescVc w) None"

definition getIfByVifIndex :: "u32 \<Rightarrow> proxy \<Rightarrow> IfDesc option" where
  "getIfByVifIndex vifindex w = (if vifindex > 0 then find (\<lambda>d. if_index d = vifindex) (IfDescVc w) else None)"

definition isAdressValidForIf :: "IfDesc \<Rightarrow> u32 \<Rightarrow> bool" where
  "isAdressValidForIf d ipaddr \<longleftrightarrow> list_ex (in_subnet ipaddr) (allowednets d)"

text \<open>\<open>Dp->InAdr.s_addr && ! (Dp->Flags & IFF_LOOPBACK)\<close>\<close>

definition usable :: "IfDesc \<Rightarrow> bool" where
  "usable d \<longleftrightarrow> InAdr d \<noteq> 0 \<and> if_Flags d AND IFF_LOOPBACK = 0"

section \<open>The kernel\<close>

text \<open>The search of \<open>k_set_rcvbuf\<close> for a size the kernel accepts.\<close>

partial_function (option) rcvbuf_walk :: "penv \<Rightarrow> int \<Rightarrow> int \<Rightarrow> proxy \<Rightarrow> (int \<times> proxy) run" where
  "rcvbuf_walk e bufsize delta w =
     (let delta = (if delta > 1 then delta div 2 else delta) in
      case do_call e (SetRcvbuf bufsize) w of (r, w) \<Rightarrow>
        if r \<noteq> 0 then rcvbuf_walk e (s32 (bufsize - delta)) delta w
        else if delta < 1024 then ret (bufsize, w)
        else rcvbuf_walk e (s32 (bufsize + delta)) delta w)"

definition k_set_rcvbuf :: "penv \<Rightarrow> int \<Rightarrow> int \<Rightarrow> proxy \<Rightarrow> proxy run" where
  "k_set_rcvbuf e bufsize minsize w =
     (case do_call e (SetRcvbuf bufsize) w of (r, w) \<Rightarrow>
        if r = 0 then ret w
        else run_bind (rcvbuf_walk e (s32 (bufsize - bufsize div 2)) (bufsize div 2) w) (\<lambda>(size, w).
          if size < minsize then fail ProcessExit else ret w))"

definition k_hdr_include :: "penv \<Rightarrow> proxy \<Rightarrow> proxy run" where
  "k_hdr_include e = must_call e SetHdrIncl"

definition k_set_ttl :: "penv \<Rightarrow> int \<Rightarrow> proxy \<Rightarrow> proxy run" where
  "k_set_ttl e t w = run_map (\<lambda>w. w\<lparr>curttl := t\<rparr>) (must_call e (SetTtl (of_int t)) w)"

definition k_set_loop :: "penv \<Rightarrow> byte \<Rightarrow> proxy \<Rightarrow> proxy run" where
  "k_set_loop e l = must_call e (SetLoop l)"

definition k_set_if :: "penv \<Rightarrow> u32 \<Rightarrow> proxy \<Rightarrow> proxy run" where
  "k_set_if e ifa = must_call e (SetIf ifa)"

definition openUdpSocket :: "penv \<Rightarrow> proxy \<Rightarrow> (int \<times> proxy) run" where
  "openUdpSocket e w =
     (case do_call e UdpSocket w of (sock, w) \<Rightarrow>
        if sock < 0 then fail ProcessExit
        else run_map (Pair sock) (must_call e (UdpConnect sock) w))"

definition joinMcGroup :: "penv \<Rightarrow> int \<Rightarrow> IfDesc \<Rightarrow> u32 \<Rightarrow> proxy \<Rightarrow> int \<times> proxy" where
  "joinMcGroup e sock d mcastaddr w =
     (case do_call e (AddMembership sock mcastaddr (InAdr d)) w of (r, w) \<Rightarrow> (if r = 0 then 0 else 1, w))"

definition leaveMcGroup :: "penv \<Rightarrow> int \<Rightarrow> IfDesc \<Rightarrow> u32 \<Rightarrow> proxy \<Rightarrow> int \<times> proxy" where
  "leaveMcGroup e sock d mcastaddr w =
     (case do_call e (DropMembership sock mcastaddr (InAdr d)) w of (r, w) \<Rightarrow> (if r = 0 then 0 else 1, w))"

definition enableMRouter :: "penv \<Rightarrow> proxy \<Rightarrow> (int \<times> proxy) run" where
  "enableMRouter e w =
     (case do_call e IgmpSocket w of (fd, w) \<Rightarrow> if fd < 0 then fail ProcessExit else ret (do_call e MrtInit w))"

definition disableMRouter :: "penv \<Rightarrow> proxy \<Rightarrow> proxy run" where
  "disableMRouter e = must_call e MrtDone"

text \<open>The first free slot of \<open>VifDescVc\<close>.\<close>

fun free_slot :: "nat option list \<Rightarrow> nat" where
  "free_slot [] = 0"
| "free_slot (v # vs) = (if v = None then 0 else Suc (free_slot vs))"

definition addVIF :: "penv \<Rightarrow> nat \<Rightarrow> proxy \<Rightarrow> proxy run" where
  "addVIF e ix w =
     (let k = free_slot (VifDescVc w) in
      if k \<ge> length (VifDescVc w) then fail ProcessExit
      else if ix \<ge> length (IfDescVc w) then fail OutOfBounds
      else let d = IfDescVc w ! ix in
        must_call e (AddVif k (if_threshold d) (if_ratelimit d) (InAdr d))
          (w\<lparr>VifDescVc := (VifDescVc w)[k := Some ix], IfDescVc := (IfDescVc w)[ix := d\<lparr>if_index := of_nat k\<rparr>]\<rparr>))"

fun vif_walk :: "nat \<Rightarrow> int \<Rightarrow> nat option list \<Rightarrow> int" where
  "vif_walk ix k [] = - 1"
| "vif_walk ix k (v # vs) = (if v = Some ix then k else vif_walk ix (k + 1) vs)"

definition getVifIx :: "nat \<Rightarrow> proxy \<Rightarrow> int" where
  "getVifIx ix w = vif_walk ix 0 (VifDescVc w)"

text \<open>A route of the kernel; \<open>mr_InVif\<close> is copied into the 16-bit field \<open>mfcc_parent\<close>.\<close>

record MRouteDesc =
  mr_OriginAdr :: u32
  mr_McAdr :: u32
  mr_InVif :: u16
  mr_TtlVc :: "byte list"

definition addMRoute :: "penv \<Rightarrow> MRouteDesc \<Rightarrow> proxy \<Rightarrow> proxy" where
  "addMRoute e d = try_call e (AddMfc (mr_OriginAdr d) (mr_McAdr d) (mr_InVif d) (mr_TtlVc d))"

definition delMRoute :: "penv \<Rightarrow> MRouteDesc \<Rightarrow> proxy \<Rightarrow> proxy" where
  "delMRoute e d = try_call e (DelMfc (mr_OriginAdr d) (mr_McAdr d) (mr_InVif d))"

end
