(* ===== verification/Switch.thy ===== *)
theory Switch
  imports IfVc
begin

text \<open>
  The embedded Ethernet switch as the multicast proxy drives it: \<open>igmpproxy/src/rt3052.c\<close> and \<open>rt3052_reg.c\<close>. The registers are
  read and written through the driver; what a read returns is up to the hardware. \<open>internal_mac_table\<close> is the copy of the
  address table of the switch. No port of the switch is a WAN port in this build (\<open>WANPORT = 0\<close>), and the network of the LAN has the index 0.
\<close>

definition END_OF_MAC_TABLE :: u32 where "END_OF_MAC_TABLE = 0xFFFFFFFF"
definition REG_ESW_TABLE_SEARCH :: u32 where "REG_ESW_TABLE_SEARCH = 0x24"
definition REG_ESW_TABLE_STATUS0 :: u32 where "REG_ESW_TABLE_STATUS0 = 0x28"
definition REG_ESW_TABLE_STATUS1 :: u32 where "REG_ESW_TABLE_STATUS1 = 0x2C"
definition REG_ESW_TABLE_STATUS2 :: u32 where "REG_ESW_TABLE_STATUS2 = 0x30"
definition REG_ESW_WT_MAC_AD0 :: u32 where "REG_ESW_WT_MAC_AD0 = 0x34"
definition REG_ESW_WT_MAC_AD1 :: u32 where "REG_ESW_WT_MAC_AD1 = 0x38"
definition REG_ESW_WT_MAC_AD2 :: u32 where "REG_ESW_WT_MAC_AD2 = 0x3C"
definition WANPORT :: byte where "WANPORT = 0"
definition LAN_VLAN_IDX :: nat where "LAN_VLAN_IDX = 0"
definition WAN_VLAN_IDX :: nat where "WAN_VLAN_IDX = 1"

text \<open>How \<open>updateMacTable\<close> treats a group without ports.\<close>

datatype delay_delete = DELETED | ZEROED

section \<open>Registers\<close>

definition reg_read :: "penv \<Rightarrow> u32 \<Rightarrow> proxy \<Rightarrow> (u32 \<times> proxy) run" where
  "reg_read e off w =
     (case do_call e (EswRead off) w of (r, w') \<Rightarrow>
        if r = - 1 then fail ProcessExit else ret (reg_value e (calls w) off, w'))"

definition reg_write :: "penv \<Rightarrow> u32 \<Rightarrow> u32 \<Rightarrow> proxy \<Rightarrow> proxy run" where
  "reg_write e off v w = (case do_call e (EswWrite off v) w of (r, w) \<Rightarrow> if r = - 1 then fail ProcessExit else ret w)"

text \<open>\<open>rareg\<close>: physical registers through \<open>/dev/mem\<close>.\<close>

definition phys_read :: "penv \<Rightarrow> u32 \<Rightarrow> proxy \<Rightarrow> (u32 \<times> proxy) run" where
  "phys_read e addr w =
     (case do_call e (PhysRead addr) w of (r, w') \<Rightarrow>
        if r < 0 then fail ProcessExit else ret (reg_value e (calls w) addr, w'))"

definition phys_write :: "penv \<Rightarrow> u32 \<Rightarrow> u32 \<Rightarrow> proxy \<Rightarrow> proxy run" where
  "phys_write e addr v w = (case do_call e (PhysWrite addr v) w of (r, w) \<Rightarrow> if r < 0 then fail ProcessExit else ret w)"

fun wait_switch_done :: "nat \<Rightarrow> penv \<Rightarrow> proxy \<Rightarrow> proxy run" where
  "wait_switch_done 0 e w = ret w"
| "wait_switch_done (Suc n) e w =
     run_bind (reg_read e REG_ESW_WT_MAC_AD0 w) (\<lambda>(value, w). if value AND 2 \<noteq> 0 then ret w else wait_switch_done n e w)"

text \<open>A command to the address table, and the wait of at most 20 reads for its end.\<close>

definition mac_cmd :: "penv \<Rightarrow> u32 \<Rightarrow> proxy \<Rightarrow> proxy run" where
  "mac_cmd e v w = run_bind (reg_write e REG_ESW_WT_MAC_AD0 v w) (wait_switch_done 20 e)"

section \<open>Hexadecimal text\<close>

definition xdigit :: "nat \<Rightarrow> char" where
  "xdigit n = (if n < 10 then char_of (48 + n) else char_of (87 + n))"

text \<open>\<open>%02x\<close> of a byte.\<close>

definition hex02 :: "byte \<Rightarrow> string" where
  "hex02 b = [xdigit (unat b div 16), xdigit (unat b mod 16)]"

definition hex_value :: "char \<Rightarrow> nat option" where
  "hex_value ch =
     (let n = of_char ch :: nat in
      if 48 \<le> n \<and> n \<le> 57 then Some (n - 48)
      else if 97 \<le> n \<and> n \<le> 102 then Some (n - 87)
      else if 65 \<le> n \<and> n \<le> 70 then Some (n - 55)
      else None)"

text \<open>\<open>strtoul\<close>, \<open>strtoll\<close> and \<open>strtol\<close> to the base 16 of text without blanks, sign and prefix: the digits it starts with.\<close>

fun strtoul16 :: "nat \<Rightarrow> string \<Rightarrow> nat" where
  "strtoul16 n [] = n"
| "strtoul16 n (ch # s) = (case hex_value ch of None \<Rightarrow> n | Some d \<Rightarrow> strtoul16 (16 * n + d) s)"

lemma hex_value_digit: "n < 16 \<Longrightarrow> hex_value (xdigit n) = Some n"
  by (auto simp: xdigit_def hex_value_def Let_def)

lemma strtoul16_hex02: "strtoul16 n (hex02 b @ s) = strtoul16 (256 * n + unat b) s"
proof -
  have "unat b < 256" using unsigned_less [of b, where ?'a = nat] by simp
  then have "unat b div 16 < 16" by simp
  then show ?thesis by (simp add: hex02_def hex_value_digit algebra_simps)
qed

section \<open>The address table\<close>

definition set_mac :: "nat \<Rightarrow> (mac_table \<Rightarrow> mac_table) \<Rightarrow> proxy \<Rightarrow> proxy run" where
  "set_mac i f w =
     (if i < length (internal_mac_table w)
      then ret (w\<lparr>internal_mac_table := (internal_mac_table w)[i := f (internal_mac_table w ! i)]\<rparr>)
      else fail OutOfBounds)"

definition get_mac :: "nat \<Rightarrow> proxy \<Rightarrow> mac_table run" where
  "get_mac i w = (if i < length (internal_mac_table w) then ret (internal_mac_table w ! i) else fail OutOfBounds)"

definition end_table :: "nat \<Rightarrow> proxy \<Rightarrow> proxy run" where
  "end_table i = set_mac i (\<lambda>m. m\<lparr>mt_mac1 := END_OF_MAC_TABLE\<rparr>)"

definition table_entry :: "u32 \<Rightarrow> u32 \<Rightarrow> u32 \<Rightarrow> mac_table" where
  "table_entry value mac1 mac2 =
     \<lparr>mt_mac1 = mac1, mt_mac2 = ucast (mac2 AND 0xFFFF), mt_vidx = ucast (drop_bit 7 value AND 0xF),
      mt_port_map = ucast (drop_bit 12 (value AND 0x7F000))\<rparr>"

partial_function (option) sync_walk :: "penv \<Rightarrow> nat \<Rightarrow> proxy \<Rightarrow> proxy run" where
  "sync_walk e i w =
     (if i < 0x3FE then
        run_bind (reg_read e REG_ESW_TABLE_STATUS0 w) (\<lambda>(value, w).
        if value AND 1 \<noteq> 0 then
          if value AND 0x70 = 0 then run_bind (reg_write e REG_ESW_TABLE_SEARCH 2 w) (sync_walk e i)
          else
            run_bind (reg_read e REG_ESW_TABLE_STATUS2 w) (\<lambda>(mac1, w).
            run_bind (reg_read e REG_ESW_TABLE_STATUS1 w) (\<lambda>(mac2, w).
            run_bind (set_mac i (\<lambda>m. table_entry value mac1 mac2) w) (\<lambda>w.
            if value AND 2 \<noteq> 0 then end_table (i + 1) w
            else run_bind (reg_write e REG_ESW_TABLE_SEARCH 2 w) (sync_walk e (i + 1)))))
        else if value AND 2 \<noteq> 0 then end_table i w
        else sync_walk e i w)
      else end_table i w)"

definition sync_internal_mac_table :: "penv \<Rightarrow> proxy \<Rightarrow> proxy run" where
  "sync_internal_mac_table e w = run_bind (reg_write e REG_ESW_TABLE_SEARCH 1 w) (sync_walk e 0)"

text \<open>The port of an entry; \<open>None\<close> is the entry of the processor only, behind which the search goes on.\<close>

definition port_of_map :: "byte \<Rightarrow> int option" where
  "port_of_map m = (if m = 0x1 then Some 0 else if m = 0x2 then Some 1 else if m = 0x4 then Some 2 else if m = 0x8 then Some 3
     else if m = 0x10 then Some 4 else if m = 0x40 then None else Some (- 1))"

function port_walk :: "nat \<Rightarrow> nat \<Rightarrow> nat \<Rightarrow> proxy \<Rightarrow> int run" where
  "port_walk mac1 mac2 i w =
     (if i < 0x3FE then
        run_bind (get_mac i w) (\<lambda>m.
        if mt_mac1 m = END_OF_MAC_TABLE then ret (- 1)
        else if unat (mt_vidx m) \<noteq> LAN_VLAN_IDX then port_walk mac1 mac2 (Suc i) w
        else if unat (mt_mac1 m) = mac1 \<and> unat (mt_mac2 m) = mac2 then
          (case port_of_map (mt_port_map m) of Some p \<Rightarrow> ret p | None \<Rightarrow> port_walk mac1 mac2 (Suc i) w)
        else port_walk mac1 mac2 (Suc i) w)
      else ret (- 1))"
  by pat_completeness auto
termination by (relation "measure (\<lambda>(m1, m2, i, w). 0x3FE - i)") auto

declare port_walk.simps [simp del]

text \<open>The address is copied as text of 8 and of 4 digits; text shorter than 8 digits leaves the second copy to what the buffer held.\<close>

definition portLookUpByMac :: "penv \<Rightarrow> string \<Rightarrow> proxy \<Rightarrow> (int \<times> proxy) run" where
  "portLookUpByMac e mac w =
     run_bind (sync_internal_mac_table e w) (\<lambda>w.
       if length mac < 8 then fail UninitRead
       else run_map (\<lambda>p. (p, w)) (port_walk (strtoul16 0 (take 8 mac)) (strtoul16 0 (take 4 (drop 8 mac))) 0 w))"

section \<open>Entries of groups\<close>

definition group_mac :: "group_entry \<Rightarrow> string" where
  "group_mac g = ''01005e'' @ hex02 (ge_a1 g) @ hex02 (ge_a2 g) @ hex02 (ge_a3 g)"

definition updateMacTable :: "penv \<Rightarrow> group_entry \<Rightarrow> delay_delete \<Rightarrow> proxy \<Rightarrow> proxy run" where
  "updateMacTable e g delay_delete w =
     run_bind (reg_write e REG_ESW_WT_MAC_AD2 (of_nat (strtoul16 0 (take 8 (group_mac g)))) w) (\<lambda>w.
     run_bind (reg_write e REG_ESW_WT_MAC_AD1 (of_nat (strtoul16 0 (take 4 (drop 8 (group_mac g))))) w) (\<lambda>w.
     if ge_port_map g \<noteq> 0 then
       run_bind (mac_cmd e (((push_bit 18 1 OR push_bit 12 (ucast (ge_port_map g AND 0x7F))) + push_bit 4 7)
           + push_bit 7 (of_nat LAN_VLAN_IDX) + 1) w) (\<lambda>w.
       if WANPORT \<noteq> 0
       then mac_cmd e (push_bit 12 (ucast WANPORT) OR push_bit 18 1 OR push_bit 4 7 OR push_bit 7 (of_nat WAN_VLAN_IDX) OR 1) w
       else ret w)
     else case delay_delete of
         ZEROED \<Rightarrow> mac_cmd e (push_bit 4 7 OR 1) w
       | DELETED \<Rightarrow>
           run_bind (mac_cmd e (1 OR push_bit 7 (of_nat LAN_VLAN_IDX)) w) (\<lambda>w.
             mac_cmd e (push_bit 7 (of_nat WAN_VLAN_IDX) OR 1) w)))"

text \<open>\<open>rt_switch_init\<close> and \<open>rt_switch_fini\<close>: snooping is switched on in the registers of the switch, and off.\<close>

definition rt_switch_init :: "penv \<Rightarrow> proxy \<Rightarrow> proxy run" where
  "rt_switch_init e w =
     run_bind (phys_read e 0x1011009C w) (\<lambda>(value, w).
     run_bind (phys_write e 0x1011009C (value AND 0xE7FFFFFF) w) (\<lambda>w.
     run_bind (phys_read e 0x10110014 w) (\<lambda>(value, w).
     run_bind (phys_write e 0x10110014 (value OR 0x00800000) w) (\<lambda>w.
     case do_call e EswSocket w of (fd, w) \<Rightarrow>
       if fd < 0 then fail ProcessExit
       else sync_internal_mac_table e (w\<lparr>esw_fd := fd\<rparr>)))))"

definition rt_switch_fini :: "penv \<Rightarrow> proxy \<Rightarrow> proxy run" where
  "rt_switch_fini e w =
     run_bind (phys_read e 0x10110014 w) (\<lambda>(value, w). phys_write e 0x10110014 (value AND 0xFF7FFFFF) w)"

section \<open>What the commands of the switch leave alone\<close>

lemma reg_write_keeps: "yields (reg_write e off v w) (\<lambda>w'. w' = w\<lparr>calls := calls w @ [EswWrite off v]\<rparr>)"
  by (simp add: reg_write_def do_call_def)

lemma reg_read_keeps: "yields (reg_read e off w) (\<lambda>(v, w'). w' = w\<lparr>calls := calls w @ [EswRead off]\<rparr>)"
  by (simp add: reg_read_def do_call_def)

lemma wait_keeps: "yields (wait_switch_done n e w) (\<lambda>w'. \<exists>k. w' = w\<lparr>calls := calls w @ replicate k (EswRead REG_ESW_WT_MAC_AD0)\<rparr>)"
proof (induction n arbitrary: w)
  case 0
  show ?case by (simp, rule exI [of _ 0]) simp
next
  case (Suc n)
  have one: "\<exists>k. w\<lparr>calls := calls w @ [EswRead REG_ESW_WT_MAC_AD0]\<rparr> = w\<lparr>calls := calls w @ replicate k (EswRead REG_ESW_WT_MAC_AD0)\<rparr>"
    by (rule exI [of _ 1]) simp
  have more: "\<exists>k. w' = w\<lparr>calls := calls w @ replicate k (EswRead REG_ESW_WT_MAC_AD0)\<rparr>"
    if "\<exists>k. w' = (w\<lparr>calls := calls w @ [EswRead REG_ESW_WT_MAC_AD0]\<rparr>)\<lparr>calls := calls (w\<lparr>calls := calls w @ [EswRead REG_ESW_WT_MAC_AD0]\<rparr>)
      @ replicate k (EswRead REG_ESW_WT_MAC_AD0)\<rparr>" for w'
    using that by (auto intro: exI [of _ "Suc _"])
  show ?case
    unfolding wait_switch_done.simps yields_bind
    by (rule yields_mono [OF reg_read_keeps]) (auto intro!: one yields_mono [OF Suc.IH] more)
qed

end
