(* ===== verification/Snoop.thy ===== *)
theory Snoop
  imports Switch
begin

text \<open>
  IGMP snooping on the switch: \<open>igmpproxy/src/ralink.c\<close>. Every multicast group that a host of the LAN has reported has an entry with
  the hosts that reported it and the ports of the switch they are at. \<open>group_list\<close> is the list of the addresses of the entries in
  the order of their links; the members of a group are linked through \<open>gm_next\<close>, because the code unlinks and frees them while it walks.

  Addresses in this file are in host byte order. A group is found by the 23 bits of its address that its Ethernet address keeps; a
  member records the five bits between these and the class (\<open>gm_a0\<close>).
\<close>

definition MAX_MULTICASTS_GROUP :: int where "MAX_MULTICASTS_GROUP = 256"
definition sizeof_group :: nat where "sizeof_group = 12"
definition sizeof_group_member :: nat where "sizeof_group_member = 12"

text \<open>\<open>0x5f & ~(WANPORT)\<close>, all the ports of the LAN.\<close>

definition LAN_PORTS :: byte where "LAN_PORTS = 0x5F AND NOT WANPORT"

section \<open>Addresses\<close>

definition IP_GET_LOST_MAPPING :: "u32 \<Rightarrow> byte" where
  "IP_GET_LOST_MAPPING mip = ucast (drop_bit 23 (mip AND 0x0F800000))"

definition IP_MULTICAST_A0 :: "byte \<Rightarrow> u32" where
  "IP_MULTICAST_A0 a0 = drop_bit 1 (ucast a0) OR 0xE0"

definition IP_MULTICAST_A1 :: "byte \<Rightarrow> byte \<Rightarrow> u32" where
  "IP_MULTICAST_A1 a0 a1 = push_bit 7 (ucast a0 AND 1) OR ucast a1"

definition ip_a1 :: "u32 \<Rightarrow> byte" where "ip_a1 ip = ucast (drop_bit 16 (ip AND 0x007F0000))"
definition ip_a2 :: "u32 \<Rightarrow> byte" where "ip_a2 ip = ucast (drop_bit 8 (ip AND 0x0000FF00))"
definition ip_a3 :: "u32 \<Rightarrow> byte" where "ip_a3 ip = ucast (ip AND 0x000000FF)"

text \<open>The address \<open>sweap_no_report_members\<close> makes up for a member, in network byte order.\<close>

definition craft_mip :: "byte \<Rightarrow> group_entry \<Rightarrow> u32" where
  "craft_mip a0 g = IP_MULTICAST_A0 a0 OR push_bit 8 (IP_MULTICAST_A1 a0 (ge_a1 g)) OR push_bit 16 (ucast (ge_a2 g))
     OR push_bit 24 (ucast (ge_a3 g))"

section \<open>Hosts\<close>

text \<open>\<open>sscanf\<close> with \<open>%ns\<close>: blanks are skipped, then at most \<open>n\<close> other characters are taken.\<close>

definition is_blank :: "char \<Rightarrow> bool" where
  "is_blank ch \<longleftrightarrow> ch \<in> {CHR '' '', CHR 0x09, CHR 0x0A, CHR 0x0B, CHR 0x0C, CHR 0x0D}"

definition scan_word :: "nat \<Rightarrow> string \<Rightarrow> string \<times> string" where
  "scan_word n s = (let s = dropWhile is_blank s; word = take n (takeWhile (\<lambda>ch. \<not> is_blank ch) s) in (word, drop (length word) s))"

fun scan_words :: "nat list \<Rightarrow> string \<Rightarrow> string list" where
  "scan_words [] s = []"
| "scan_words (n # ns) s = (case scan_word n s of (word, s) \<Rightarrow> if word = [] then [] else word # scan_words ns s)"

text \<open>The lines of the table of the kernel. A line without the fields that are compared or copied would leave them to what the
  stack holds.\<close>

fun arp_walk :: "string \<Rightarrow> string list \<Rightarrow> string option run" where
  "arp_walk ip [] = ret None"
| "arp_walk ip (line # ls) =
     (let ws = scan_words [31, 7, 7, 31] line in
      if ws = [] then fail UninitRead
      else if ws ! 0 = ip then
        (if length ws < 4 then fail UninitRead
         else if ws ! 3 = ''00:00:00:00:00:00'' then ret None else ret (Some (ws ! 3)))
      else arp_walk ip ls)"

definition arpLookUp :: "penv \<Rightarrow> string \<Rightarrow> proxy \<Rightarrow> (string option \<times> proxy) run" where
  "arpLookUp e ip w =
     (case arp_file e (calls w) of None \<Rightarrow> fail ProcessExit
      | Some ls \<Rightarrow> run_map (\<lambda>r. (r, try_call e ArpRead w)) (arp_walk ip ls))"

definition strip_mac :: "string \<Rightarrow> string" where
  "strip_mac mac = filter (\<lambda>ch. ch \<noteq> CHR '':'') mac"

text \<open>A failing \<open>sendUDP\<close> is only logged.\<close>

definition portLookUpByIP :: "penv \<Rightarrow> string \<Rightarrow> proxy \<Rightarrow> (int \<times> proxy) run" where
  "portLookUpByIP e ip w =
     run_bind (arpLookUp e ip w) (\<lambda>(mac, w).
     run_bind (case mac of Some m \<Rightarrow> ret (Some m, w) | None \<Rightarrow> arpLookUp e ip (try_call e (ArpProbe ip) w)) (\<lambda>(mac, w).
     case mac of None \<Rightarrow> ret (- 1, w) | Some m \<Rightarrow> portLookUpByMac e (strip_mac m) w))"

section \<open>Lookup\<close>

definition get_group :: "nat \<Rightarrow> proxy \<Rightarrow> group_entry run" where
  "get_group g w = (case groups w g of None \<Rightarrow> fail UseAfterFree | Some x \<Rightarrow> ret x)"

definition get_member :: "nat \<Rightarrow> proxy \<Rightarrow> group_member run" where
  "get_member k w = (case members w k of None \<Rightarrow> fail UseAfterFree | Some m \<Rightarrow> ret m)"

definition put_group :: "nat \<Rightarrow> group_entry \<Rightarrow> proxy \<Rightarrow> proxy" where
  "put_group g x w = w\<lparr>groups := (groups w)(g \<mapsto> x)\<rparr>"

definition put_member :: "nat \<Rightarrow> group_member \<Rightarrow> proxy \<Rightarrow> proxy" where
  "put_member k m w = w\<lparr>members := (members w)(k \<mapsto> m)\<rparr>"

definition free_member :: "nat \<Rightarrow> proxy \<Rightarrow> proxy run" where
  "free_member k w = (if members w k = None then fail UseAfterFree else ret (w\<lparr>members := (members w)(k := None)\<rparr>))"

fun entry_walk :: "u32 \<Rightarrow> nat list \<Rightarrow> proxy \<Rightarrow> nat option run" where
  "entry_walk ip [] w = ret None"
| "entry_walk ip (g # gs) w =
     run_bind (get_group g w) (\<lambda>x.
       if ge_a1 x = ip_a1 ip \<and> ge_a2 x = ip_a2 ip \<and> ge_a3 x = ip_a3 ip then ret (Some g) else entry_walk ip gs w)"

definition find_entry :: "u32 \<Rightarrow> proxy \<Rightarrow> nat option run" where
  "find_entry ip w = entry_walk ip (group_list w) w"

text \<open>The walks along the members: the first one with the address and the bits, and the one in front of it.\<close>

partial_function (option) member_walk :: "u32 \<Rightarrow> byte \<Rightarrow> nat option \<Rightarrow> proxy \<Rightarrow> nat option run" where
  "member_walk u a0 p w =
     (case p of None \<Rightarrow> ret None
      | Some k \<Rightarrow> run_bind (get_member k w) (\<lambda>m.
          if gm_ip_addr m = u \<and> gm_a0 m = a0 then ret (Some k) else member_walk u a0 (gm_next m) w))"

definition lookup_member :: "group_entry \<Rightarrow> u32 \<Rightarrow> u32 \<Rightarrow> proxy \<Rightarrow> nat option run" where
  "lookup_member x m_ip_addr u_ip_addr w = member_walk u_ip_addr (IP_GET_LOST_MAPPING m_ip_addr) (ge_members x) w"

section \<open>The ports of a group\<close>

text \<open>\<open>new_portmap | (0x1 << port)\<close> in a byte; a negative count goes modulo 32 and leaves the byte.\<close>

definition port_bit :: "int \<Rightarrow> byte" where
  "port_bit p = push_bit (nat (p mod 32)) 1"

partial_function (option) port_map_walk :: "byte \<Rightarrow> nat option \<Rightarrow> proxy \<Rightarrow> byte run" where
  "port_map_walk pm p w =
     (case p of None \<Rightarrow> ret pm
      | Some k \<Rightarrow> run_bind (get_member k w) (\<lambda>m.
          if gm_port_num m = - 1 then ret LAN_PORTS
          else port_map_walk (pm OR port_bit (gm_port_num m)) (gm_next m) w))"

definition update_group_port_map :: "penv \<Rightarrow> nat \<Rightarrow> proxy \<Rightarrow> proxy run" where
  "update_group_port_map e g w =
     run_bind (get_group g w) (\<lambda>x.
     run_bind (port_map_walk 0 (ge_members x) w) (\<lambda>pm.
       if ge_port_map x \<noteq> pm
       then let x = x\<lparr>ge_port_map := pm\<rparr> in updateMacTable e x ZEROED (put_group g x w)
       else ret w))"

section \<open>Members that leave\<close>

text \<open>The loop that unlinks behind the head: \<open>Some\<close> the address of the unlinked member.\<close>

partial_function (option) unlink_walk :: "u32 \<Rightarrow> byte \<Rightarrow> nat \<Rightarrow> proxy \<Rightarrow> (nat option \<times> proxy) run" where
  "unlink_walk u a0 k w =
     run_bind (get_member k w) (\<lambda>m.
     case gm_next m of None \<Rightarrow> ret (None, w)
     | Some n \<Rightarrow> run_bind (get_member n w) (\<lambda>x.
         if gm_ip_addr x = u \<and> gm_a0 x = a0 then ret (Some n, put_member k (m\<lparr>gm_next := gm_next x\<rparr>) w)
         else unlink_walk u a0 n w))"

definition remove_member :: "penv \<Rightarrow> u32 \<Rightarrow> u32 \<Rightarrow> proxy \<Rightarrow> proxy run" where
  "remove_member e m_ip_addr u_ip_addr w =
     (if \<not> snooping_enabled w then ret w
      else run_bind (find_entry m_ip_addr w) (\<lambda>g.
      case g of None \<Rightarrow> ret w
      | Some g \<Rightarrow> run_bind (get_group g w) (\<lambda>x.
      case ge_members x of None \<Rightarrow> ret w
      | Some k \<Rightarrow>
          let a0 = IP_GET_LOST_MAPPING m_ip_addr in
          run_bind (get_member k w) (\<lambda>m.
          run_bind (if gm_ip_addr m = u_ip_addr \<and> gm_a0 m = a0
                    then ret (Some k, put_group g (x\<lparr>ge_members := gm_next m\<rparr>) w)
                    else unlink_walk u_ip_addr a0 k w) (\<lambda>(del, w).
          run_bind (case del of None \<Rightarrow> ret w | Some d \<Rightarrow> free_member d w) (update_group_port_map e g))))))"

text \<open>The inner loop of \<open>sweap_no_report_members\<close>: the member behind a removed one is kept, unless there is none.\<close>

partial_function (option) sweep_walk :: "penv \<Rightarrow> nat \<Rightarrow> nat option \<Rightarrow> proxy \<Rightarrow> proxy run" where
  "sweep_walk e g p w =
     (case p of None \<Rightarrow> ret w
      | Some k \<Rightarrow> run_bind (get_member k w) (\<lambda>m.
          if has_report m then sweep_walk e g (gm_next m) w
          else run_bind (get_group g w) (\<lambda>x.
               run_bind (remove_member e (ntohl (craft_mip (gm_a0 m) x)) (gm_ip_addr m) w) (\<lambda>w.
               case gm_next m of
                 Some n \<Rightarrow> sweep_walk e g (Some n) w
               | None \<Rightarrow> run_bind (get_member k w) (\<lambda>m. sweep_walk e g (gm_next m) w)))))"

fun sweep_groups :: "penv \<Rightarrow> nat list \<Rightarrow> proxy \<Rightarrow> proxy run" where
  "sweep_groups e [] w = ret w"
| "sweep_groups e (g # gs) w =
     run_bind (get_group g w) (\<lambda>x. run_bind (sweep_walk e g (ge_members x) w) (sweep_groups e gs))"

definition sweap_no_report_members :: "penv \<Rightarrow> proxy \<Rightarrow> proxy run" where
  "sweap_no_report_members e w = (if \<not> snooping_enabled w then ret w else sweep_groups e (group_list w) w)"

partial_function (option) clear_reports :: "nat option \<Rightarrow> proxy \<Rightarrow> proxy run" where
  "clear_reports p w =
     (case p of None \<Rightarrow> ret w
      | Some k \<Rightarrow> run_bind (get_member k w) (\<lambda>m. clear_reports (gm_next m) (put_member k (m\<lparr>has_report := False\<rparr>) w)))"

fun clear_groups :: "nat list \<Rightarrow> proxy \<Rightarrow> proxy run" where
  "clear_groups [] w = ret w"
| "clear_groups (g # gs) w = run_bind (get_group g w) (\<lambda>x. run_bind (clear_reports (ge_members x) w) (clear_groups gs))"

definition clear_all_entries_report :: "proxy \<Rightarrow> proxy run" where
  "clear_all_entries_report w = (if \<not> snooping_enabled w then ret w else clear_groups (group_list w) w)"

section \<open>Groups that go\<close>

text \<open>The loop at the head of \<open>remove_multicast_ip\<close>, and the one behind it, which frees the member after the one it unlinks.\<close>

partial_function (option) drop_head :: "byte \<Rightarrow> nat option \<Rightarrow> proxy \<Rightarrow> (nat option \<times> proxy) run" where
  "drop_head a0 p w =
     (case p of None \<Rightarrow> ret (None, w)
      | Some k \<Rightarrow> run_bind (get_member k w) (\<lambda>m.
          if gm_a0 m = a0 then run_bind (free_member k w) (drop_head a0 (gm_next m)) else ret (Some k, w)))"

partial_function (option) drop_rest :: "byte \<Rightarrow> byte \<Rightarrow> nat option \<Rightarrow> proxy \<Rightarrow> (byte \<times> proxy) run" where
  "drop_rest a0 pm p w =
     (case p of None \<Rightarrow> ret (pm, w)
      | Some k \<Rightarrow> run_bind (get_member k w) (\<lambda>m.
          run_bind (case gm_next m of None \<Rightarrow> ret None
                    | Some n \<Rightarrow> run_map (\<lambda>x. if gm_a0 x = a0 then Some x else None) (get_member n w)) (\<lambda>hit.
          case hit of
            Some x \<Rightarrow>
              run_bind (case gm_next x of None \<Rightarrow> ret (put_member k (m\<lparr>gm_next := None\<rparr>) w)
                        | Some f \<Rightarrow> free_member f (put_member k (m\<lparr>gm_next := Some f\<rparr>) w))
                (drop_rest a0 pm (gm_next x))
          | None \<Rightarrow> drop_rest a0 (pm OR port_bit (gm_port_num m)) (gm_next m) w)))"

definition remove_multicast_ip :: "penv \<Rightarrow> u32 \<Rightarrow> proxy \<Rightarrow> proxy run" where
  "remove_multicast_ip e m_ip_addr w =
     run_bind (find_entry m_ip_addr w) (\<lambda>g.
     if \<not> snooping_enabled w then ret w
     else case g of None \<Rightarrow> ret w
     | Some g \<Rightarrow>
         let a0 = IP_GET_LOST_MAPPING m_ip_addr in
         run_bind (get_group g w) (\<lambda>x.
         run_bind (drop_head a0 (ge_members x) w) (\<lambda>(hd, w).
         let x = x\<lparr>ge_members := hd\<rparr>; w = put_group g x w in
         run_bind (drop_rest a0 0 hd w) (\<lambda>(pm, w).
         if hd = None \<or> pm = 0 then
           let x = x\<lparr>ge_port_map := 0\<rparr>; w = w\<lparr>group_list := remove1 g (group_list w)\<rparr> in
           run_map (\<lambda>w. w\<lparr>groups := (groups w)(g := None)\<rparr>) (updateMacTable e x DELETED (put_group g x w))
         else if ge_port_map x \<noteq> pm then update_group_port_map e g (put_group g (x\<lparr>ge_port_map := pm\<rparr>) w)
         else ret w))))"

partial_function (option) free_members :: "nat option \<Rightarrow> proxy \<Rightarrow> proxy run" where
  "free_members p w =
     (case p of None \<Rightarrow> ret w
      | Some k \<Rightarrow> run_bind (get_member k w) (\<lambda>m. run_bind (free_member k w) (free_members (gm_next m))))"

definition remove_all_members :: "nat \<Rightarrow> proxy \<Rightarrow> proxy run" where
  "remove_all_members g w =
     run_bind (get_group g w) (\<lambda>x.
       if \<not> snooping_enabled w then ret w
       else run_map (put_group g (x\<lparr>ge_members := None\<rparr>)) (free_members (ge_members x) w))"

fun remove_groups :: "penv \<Rightarrow> nat list \<Rightarrow> proxy \<Rightarrow> proxy run" where
  "remove_groups e [] w = ret w"
| "remove_groups e (g # gs) w =
     run_bind (get_group g w) (\<lambda>x.
     let x = x\<lparr>ge_port_map := 0\<rparr> in
     run_bind (updateMacTable e x DELETED (put_group g x w)) (\<lambda>w.
     run_bind (remove_all_members g w) (\<lambda>w.
     remove_groups e gs (w\<lparr>groups := (groups w)(g := None)\<rparr>))))"

definition remove_all_groups :: "penv \<Rightarrow> proxy \<Rightarrow> proxy run" where
  "remove_all_groups e w =
     (if \<not> snooping_enabled w then ret w
      else run_map (\<lambda>w. w\<lparr>group_list := []\<rparr>) (remove_groups e (group_list w) w))"

section \<open>Reports\<close>

text \<open>\<open>build_entry\<close> counts its calls and never counts down.\<close>

definition build_entry :: "penv \<Rightarrow> u32 \<Rightarrow> proxy \<Rightarrow> nat option \<times> proxy" where
  "build_entry e m_ip_addr w =
     (let full = group_count w > MAX_MULTICASTS_GROUP; w = w\<lparr>group_count := s32 (group_count w + 1)\<rparr> in
      if full then (None, w)
      else if ip_a1 m_ip_addr = 0 \<and> ip_a2 m_ip_addr = 0 \<and> ip_a3 m_ip_addr = 1 then (None, w)
      else if \<not> p_alloc e sizeof_group then (None, w)
      else let g = next_group_addr w in
        (Some g, put_group g \<lparr>ge_a1 = ip_a1 m_ip_addr, ge_a2 = ip_a2 m_ip_addr, ge_a3 = ip_a3 m_ip_addr, ge_port_map = 0, ge_members = None\<rparr>
           (w\<lparr>next_group_addr := Suc g\<rparr>)))"

definition insert_member :: "penv \<Rightarrow> nat \<Rightarrow> u32 \<Rightarrow> u32 \<Rightarrow> proxy \<Rightarrow> proxy run" where
  "insert_member e g m_ip_addr u_ip_addr w =
     run_bind (get_group g w) (\<lambda>x.
     run_bind (lookup_member x m_ip_addr u_ip_addr w) (\<lambda>found.
     case found of
       Some k \<Rightarrow>
         run_bind (portLookUpByIP e (inetFmt (ntohl u_ip_addr)) w) (\<lambda>(p, w).
         run_map (\<lambda>m. put_member k (m\<lparr>gm_port_num := p, has_report := True\<rparr>) w) (get_member k w))
     | None \<Rightarrow>
         if \<not> p_alloc e sizeof_group_member then ret w
         else run_map (\<lambda>(p, w).
           let k = next_member_addr w in
           put_group g (x\<lparr>ge_members := Some k\<rparr>)
             (put_member k \<lparr>gm_ip_addr = u_ip_addr, gm_a0 = IP_GET_LOST_MAPPING m_ip_addr, gm_port_num = p, has_report = True,
                gm_next = ge_members x\<rparr> (w\<lparr>next_member_addr := Suc k\<rparr>)))
           (portLookUpByIP e (inetFmt (ntohl u_ip_addr)) w)))"

definition insert_multicast_ip :: "penv \<Rightarrow> u32 \<Rightarrow> u32 \<Rightarrow> proxy \<Rightarrow> proxy run" where
  "insert_multicast_ip e m_ip_addr u_ip_addr w =
     run_bind (find_entry m_ip_addr w) (\<lambda>g.
     if \<not> snooping_enabled w then ret w
     else case (case g of Some g \<Rightarrow> (Some g, w)
                | None \<Rightarrow> (case build_entry e m_ip_addr w of
                    (None, w) \<Rightarrow> (None, w) | (Some g, w) \<Rightarrow> (Some g, w\<lparr>group_list := g # group_list w\<rparr>))) of
       (None, w) \<Rightarrow> ret w
     | (Some g, w) \<Rightarrow> run_bind (insert_member e g m_ip_addr u_ip_addr w) (update_group_port_map e g))"

section \<open>Start and end\<close>

definition all_hosts_entry :: "byte \<Rightarrow> group_entry" where
  "all_hosts_entry pm = \<lparr>ge_a1 = 0, ge_a2 = 0, ge_a3 = 1, ge_port_map = pm, ge_members = None\<rparr>"

definition create_all_hosts_rule :: "penv \<Rightarrow> proxy \<Rightarrow> proxy run" where
  "create_all_hosts_rule e = updateMacTable e (all_hosts_entry LAN_PORTS) ZEROED"

definition destory_all_hosts_rule :: "penv \<Rightarrow> proxy \<Rightarrow> proxy run" where
  "destory_all_hosts_rule e = updateMacTable e (all_hosts_entry 0) DELETED"

definition rt_init :: "penv \<Rightarrow> bool \<Rightarrow> proxy \<Rightarrow> proxy run" where
  "rt_init e se w =
     (let w = w\<lparr>snooping_enabled := se\<rparr> in
      if \<not> se then ret w else run_bind (rt_switch_init e w) (create_all_hosts_rule e))"

definition rt_fini :: "penv \<Rightarrow> proxy \<Rightarrow> proxy run" where
  "rt_fini e w =
     (if \<not> snooping_enabled w then ret w
      else run_bind (destory_all_hosts_rule e w) (\<lambda>w. run_bind (remove_all_groups e w) (rt_switch_fini e)))"

end
