(* ===== verification/RouteTab.thy ===== *)
theory RouteTab
  imports Snoop
begin

text \<open>
  The routing table of the multicast proxy: \<open>igmpproxy/src/rttable.c\<close>. The routes are linked in both directions and
  kept in the order of their groups (as numbers in network byte order). The links are modelled as they are, as addresses in the
  partial map \<open>routes\<close>, because \<open>internAgeRoute\<close> goes on with a route after \<open>removeRoute\<close> has freed it.

  \<open>route_list\<close> says that a list of addresses is the content of the table; \<open>table_ok\<close> is the invariant.
\<close>

definition sizeof_RouteTable :: nat where "sizeof_RouteTable = 40"

definition ALLROUTERS_GROUP :: u32 where "ALLROUTERS_GROUP = ntohl 0xE0000002"

section \<open>Access\<close>

definition get_route :: "nat \<Rightarrow> proxy \<Rightarrow> RouteTable run" where
  "get_route k w = (case routes w k of None \<Rightarrow> fail UseAfterFree | Some r \<Rightarrow> ret r)"

definition upd_route :: "nat \<Rightarrow> (RouteTable \<Rightarrow> RouteTable) \<Rightarrow> proxy \<Rightarrow> proxy run" where
  "upd_route k f w = run_map (\<lambda>r. w\<lparr>routes := (routes w)(k \<mapsto> f r)\<rparr>) (get_route k w)"

definition upd_link :: "nat option \<Rightarrow> (RouteTable \<Rightarrow> RouteTable) \<Rightarrow> proxy \<Rightarrow> proxy run" where
  "upd_link p f w = (case p of None \<Rightarrow> ret w | Some k \<Rightarrow> upd_route k f w)"

section \<open>The kernel's side of a route\<close>

definition getMcGroupSock :: "penv \<Rightarrow> proxy \<Rightarrow> (int \<times> proxy) run" where
  "getMcGroupSock e w =
     (if mcGroupSock w \<noteq> 0 then ret (mcGroupSock w, w)
      else run_map (\<lambda>(s, w). (s, w\<lparr>mcGroupSock := s\<rparr>)) (openUdpSocket e w))"

text \<open>The loop of \<open>initRouteTable\<close> over the downstream interfaces.\<close>

fun join_walk :: "penv \<Rightarrow> IfDesc list \<Rightarrow> proxy \<Rightarrow> proxy run" where
  "join_walk e [] w = ret w"
| "join_walk e (d # ds) w =
     (if usable d \<and> if_state d = IF_STATE_DOWNSTREAM
      then run_bind (getMcGroupSock e w) (\<lambda>(s, w). join_walk e ds (snd (joinMcGroup e s d ALLROUTERS_GROUP w)))
      else join_walk e ds w)"

definition initRouteTable :: "penv \<Rightarrow> proxy \<Rightarrow> proxy run" where
  "initRouteTable e w = join_walk e (IfDescVc w) (w\<lparr>routing_table := None\<rparr>)"

text \<open>The commands for the packet filter, printed into a buffer of 200 bytes.\<close>

definition iptables_cmd :: "string \<Rightarrow> string \<Rightarrow> u32 \<Rightarrow> string" where
  "iptables_cmd opt name gr =
     ''iptables -t filter '' @ opt @ '' FORWARD -i '' @ name @ '' -d '' @ inetFmt gr @ '' -j ACCEPT 2>/dev/null'' @ [CHR 0x0A]"

definition run_command :: "penv \<Rightarrow> string \<Rightarrow> proxy \<Rightarrow> proxy run" where
  "run_command e cmd w = (if length cmd < 200 then ret (try_call e (Command cmd) w) else fail OutOfBounds)"

definition sendJoinLeaveUpstream :: "penv \<Rightarrow> nat \<Rightarrow> bool \<Rightarrow> proxy \<Rightarrow> proxy run" where
  "sendJoinLeaveUpstream e k join w =
     (case getIfByIx (upStreamVif w) w of None \<Rightarrow> ret w
      | Some d \<Rightarrow>
          run_bind (get_route k w) (\<lambda>r.
          if join then
            if vifBits r > 0 then
              run_bind (getMcGroupSock e w) (\<lambda>(s, w).
              run_bind (upd_route k (\<lambda>r. r\<lparr>upstrState := ROUTESTATE_JOINED\<rparr>) (snd (joinMcGroup e s d (rt_group r) w)))
                (run_command e (iptables_cmd ''-I'' (if_Name d) (rt_group r))))
            else ret w
          else
            if upstrState r \<noteq> ROUTESTATE_NOTJOINED then
              run_bind (getMcGroupSock e w) (\<lambda>(s, w).
              run_bind (upd_route k (\<lambda>r. r\<lparr>upstrState := ROUTESTATE_NOTJOINED\<rparr>) (snd (leaveMcGroup e s d (rt_group r) w)))
                (run_command e (iptables_cmd ''-D'' (if_Name d) (rt_group r))))
            else ret w))"

text \<open>The loop of \<open>internUpdateKernelRoute\<close>: the input interface and the thresholds of the others; a threshold is stored at the
  index of the interface.\<close>

fun ttl_walk :: "u32 \<Rightarrow> IfDesc list \<Rightarrow> u16 \<times> byte list \<Rightarrow> (u16 \<times> byte list) run" where
  "ttl_walk bits [] st = ret st"
| "ttl_walk bits (d # ds) (vif, ttls) =
     (if if_state d = IF_STATE_UPSTREAM then ttl_walk bits ds (ucast (if_index d), ttls)
      else if BIT_TST bits (if_index d)
      then run_bind (mem_write (unat (if_index d)) [if_threshold d] ttls) (\<lambda>ttls. ttl_walk bits ds (vif, ttls))
      else ttl_walk bits ds (vif, ttls))"

definition internUpdateKernelRoute :: "penv \<Rightarrow> nat \<Rightarrow> bool \<Rightarrow> proxy \<Rightarrow> proxy run" where
  "internUpdateKernelRoute e k activate w =
     run_bind (get_route k w) (\<lambda>r.
       if originAddr r > 0 then
         run_map (\<lambda>(vif, ttls).
           let d = \<lparr>mr_OriginAdr = originAddr r, mr_McAdr = rt_group r, mr_InVif = vif, mr_TtlVc = ttls\<rparr>
           in if activate then addMRoute e d w else delMRoute e d w)
           (ttl_walk (vifBits r) (IfDescVc w) (0, replicate MAX_MC_VIFS 0))
       else ret w)"

section \<open>The table\<close>

partial_function (option) route_walk :: "u32 \<Rightarrow> nat option \<Rightarrow> proxy \<Rightarrow> nat option run" where
  "route_walk gr p w =
     (case p of None \<Rightarrow> ret None
      | Some k \<Rightarrow> run_bind (get_route k w) (\<lambda>r. if rt_group r = gr then ret (Some k) else route_walk gr (nextroute r) w))"

definition findRoute :: "u32 \<Rightarrow> proxy \<Rightarrow> nat option run" where
  "findRoute gr w = route_walk gr (routing_table w) w"

partial_function (option) clear_walk_routes :: "penv \<Rightarrow> nat option \<Rightarrow> proxy \<Rightarrow> proxy run" where
  "clear_walk_routes e p w =
     (case p of None \<Rightarrow> ret w
      | Some k \<Rightarrow>
          run_bind (get_route k w) (\<lambda>r.
          run_bind (internUpdateKernelRoute e k False w) (\<lambda>w.
          run_bind (sendJoinLeaveUpstream e k False w) (\<lambda>w.
          clear_walk_routes e (nextroute r) (w\<lparr>routes := (routes w)(k := None)\<rparr>)))))"

definition clearAllRoutes :: "penv \<Rightarrow> proxy \<Rightarrow> proxy run" where
  "clearAllRoutes e w = run_map (\<lambda>w. w\<lparr>routing_table := None\<rparr>) (clear_walk_routes e (routing_table w) w)"

text \<open>The route that a new one goes behind.\<close>

partial_function (option) place_walk :: "u32 \<Rightarrow> nat \<Rightarrow> proxy \<Rightarrow> nat run" where
  "place_walk gr k w =
     run_bind (get_route k w) (\<lambda>r.
     case nextroute r of None \<Rightarrow> ret k
     | Some n \<Rightarrow> run_bind (get_route n w) (\<lambda>x. if rt_group x > gr then ret k else place_walk gr n w))"

text \<open>The new route is put into the table: \<open>k\<close> is its address.\<close>

definition link_route :: "nat \<Rightarrow> u32 \<Rightarrow> proxy \<Rightarrow> proxy run" where
  "link_route k gr w =
     (case routing_table w of None \<Rightarrow> ret (w\<lparr>routing_table := Some k\<rparr>)
      | Some h \<Rightarrow>
          run_bind (get_route h w) (\<lambda>r.
          if rt_group r > gr then
            run_bind (upd_route k (\<lambda>x. x\<lparr>nextroute := Some h, prevroute := None\<rparr>) w) (\<lambda>w.
            upd_route h (\<lambda>x. x\<lparr>prevroute := Some k\<rparr>) (w\<lparr>routing_table := Some k\<rparr>))
          else
            run_bind (place_walk gr h w) (\<lambda>p.
            run_bind (get_route p w) (\<lambda>r.
            run_bind (upd_route k (\<lambda>x. x\<lparr>nextroute := nextroute r, prevroute := Some p\<rparr>) w) (\<lambda>w.
            run_bind (upd_link (nextroute r) (\<lambda>x. x\<lparr>prevroute := Some k\<rparr>) w) (\<lambda>w.
            upd_route p (\<lambda>x. x\<lparr>nextroute := Some k\<rparr>) w))))))"

definition new_route :: "u32 \<Rightarrow> int \<Rightarrow> proxy \<Rightarrow> RouteTable" where
  "new_route gr ifx w =
     \<lparr>nextroute = None, prevroute = None, rt_group = gr, originAddr = 0,
      vifBits = (if ifx \<ge> 0 then BIT_SET 0 (of_int ifx) else 0), upstrState = ROUTESTATE_NOTJOINED, ageVifBits = 0,
      ageValue = s32 (uint (robustnessValue (commonConfig w))), ageActivity = 0\<rparr>"

definition insertRoute :: "penv \<Rightarrow> u32 \<Rightarrow> int \<Rightarrow> proxy \<Rightarrow> (int \<times> proxy) run" where
  "insertRoute e gr ifx w =
     (if \<not> IN_MULTICAST (ntohl gr) then ret (0, w)
      else if ifx \<ge> int MAX_MC_VIFS then ret (0, w)
      else run_bind (findRoute gr w) (\<lambda>found.
        run_bind (case found of
            None \<Rightarrow>
              if \<not> p_alloc e sizeof_RouteTable then fail NullDeref
              else let k = next_route_addr w in
                run_map (Pair k) (link_route k gr (w\<lparr>next_route_addr := Suc k, routes := (routes w)(k \<mapsto> new_route gr ifx w)\<rparr>))
          | Some k \<Rightarrow>
              if ifx \<ge> 0 then
                run_bind (upd_route k (\<lambda>r. r\<lparr>vifBits := BIT_SET (vifBits r) (of_int ifx), ageVifBits := BIT_SET (ageVifBits r) (of_int ifx)\<rparr>) w)
                  (\<lambda>w. run_bind (get_route k w) (\<lambda>r.
                   if originAddr r \<noteq> 0 then run_map (Pair k) (internUpdateKernelRoute e k True w) else ret (k, w)))
              else ret (k, w)) (\<lambda>(k, w).
        run_bind (get_route k w) (\<lambda>r.
          if upstrState r \<noteq> ROUTESTATE_JOINED then run_map (Pair 1) (sendJoinLeaveUpstream e k True w) else ret (1, w)))))"

definition activateRoute :: "penv \<Rightarrow> u32 \<Rightarrow> u32 \<Rightarrow> proxy \<Rightarrow> (int \<times> proxy) run" where
  "activateRoute e gr origin w =
     run_bind (findRoute gr w) (\<lambda>found.
     run_bind (case found of
         None \<Rightarrow> run_bind (insertRoute e gr (- 1) w) (\<lambda>(r, w). run_map (\<lambda>k. (k, w)) (findRoute gr w))
       | Some k \<Rightarrow> ret (Some k, w)) (\<lambda>(found, w).
     case found of None \<Rightarrow> ret (0, w)
     | Some k \<Rightarrow>
         run_bind (if origin > 0 then upd_route k (\<lambda>r. r\<lparr>originAddr := origin\<rparr>) w else ret w) (\<lambda>w.
         run_bind (get_route k w) (\<lambda>r.
           if vifBits r > 0 then run_map (Pair 1) (internUpdateKernelRoute e k True w) else ret (0, w)))))"

definition removeRoute :: "penv \<Rightarrow> nat option \<Rightarrow> proxy \<Rightarrow> (int \<times> proxy) run" where
  "removeRoute e p w =
     (case p of None \<Rightarrow> ret (0, w)
      | Some k \<Rightarrow>
          run_bind (internUpdateKernelRoute e k False w) (\<lambda>w.
          run_bind (get_route k w) (\<lambda>r.
          run_bind (if upstrState r = ROUTESTATE_JOINED
                      \<or> upstrState r = ROUTESTATE_CHECK_LAST_MEMBER \<and> \<not> fastUpstreamLeave (commonConfig w)
                    then sendJoinLeaveUpstream e k False w else ret w) (\<lambda>w.
          run_bind (case prevroute r of
              None \<Rightarrow> run_map (\<lambda>w. w\<lparr>routing_table := nextroute r\<rparr>) (upd_link (nextroute r) (\<lambda>x. x\<lparr>prevroute := None\<rparr>) w)
            | Some p \<Rightarrow>
                run_bind (upd_route p (\<lambda>x. x\<lparr>nextroute := nextroute r\<rparr>) w)
                  (upd_link (nextroute r) (\<lambda>x. x\<lparr>prevroute := prevroute r\<rparr>))) (\<lambda>w.
          ret (1, w\<lparr>routes := (routes w)(k := None)\<rparr>))))))"

section \<open>Aging\<close>

text \<open>The counters and bits of a route in a round.\<close>

definition age_round :: "Config \<Rightarrow> RouteTable \<Rightarrow> RouteTable" where
  "age_round c r =
     (let r = r\<lparr>ageValue := s32 (ageValue r - 1)\<rparr> in
      if ageVifBits r > 0 \<and> ageActivity r = 0 then
        if vifBits r = ageVifBits r then r\<lparr>ageValue := s32 (uint (robustnessValue c))\<rparr>
        else r\<lparr>ageActivity := s32 (ageActivity r + 1), vifBits := ageVifBits r\<rparr>
      else if ageActivity r > 0 then
        if vifBits r \<noteq> ageVifBits r then r\<lparr>vifBits := vifBits r OR ageVifBits r, ageActivity := s32 (ageActivity r + 1)\<rparr>
        else r
      else r)"

definition internAgeRoute :: "penv \<Rightarrow> nat \<Rightarrow> proxy \<Rightarrow> (int \<times> proxy) run" where
  "internAgeRoute e k w =
     run_bind (upd_route k (age_round (commonConfig w)) w) (\<lambda>w.
     run_bind (get_route k w) (\<lambda>r.
     run_bind (if ageValue r = 0 then
         if ageActivity r > 0 then
           run_bind (internUpdateKernelRoute e k True w) (\<lambda>w.
           run_map (Pair 1) (upd_route k (\<lambda>r. r\<lparr>ageValue := ageActivity r, ageActivity := 0\<rparr>) w))
         else
           run_bind (removeRoute e (Some k) w) (\<lambda>(_, w).
           run_bind (get_route k w) (\<lambda>r.
           if vifBits r > 0 then run_map (Pair 1) (remove_multicast_ip e (ntohl (rt_group r)) w) else ret (1, w)))
       else ret (0, w)) (\<lambda>(result, w).
     run_map (Pair result) (upd_route k (\<lambda>r. r\<lparr>ageVifBits := 0\<rparr>) w))))"

partial_function (option) age_walk :: "penv \<Rightarrow> nat option \<Rightarrow> proxy \<Rightarrow> proxy run" where
  "age_walk e p w =
     (case p of None \<Rightarrow> ret w
      | Some k \<Rightarrow>
          run_bind (get_route k w) (\<lambda>r.
          run_bind (if upstrState r \<noteq> ROUTESTATE_CHECK_LAST_MEMBER then run_map snd (internAgeRoute e k w) else ret w)
            (age_walk e (nextroute r))))"

definition ageActiveRoutes :: "penv \<Rightarrow> proxy \<Rightarrow> proxy run" where
  "ageActiveRoutes e w = run_bind (sweap_no_report_members e w) (\<lambda>w. age_walk e (routing_table w) w)"

definition setRouteLastMemberMode :: "penv \<Rightarrow> u32 \<Rightarrow> proxy \<Rightarrow> proxy run" where
  "setRouteLastMemberMode e gr w =
     run_bind (findRoute gr w) (\<lambda>found.
     case found of None \<Rightarrow> ret w
     | Some k \<Rightarrow>
         run_bind (get_route k w) (\<lambda>r.
         run_bind (if upstrState r = ROUTESTATE_JOINED \<and> fastUpstreamLeave (commonConfig w)
                   then sendJoinLeaveUpstream e k False w else ret w)
           (upd_route k (\<lambda>r. r\<lparr>upstrState := ROUTESTATE_CHECK_LAST_MEMBER,
              ageValue := s32 (uint (lastMemberQueryCount (commonConfig w)))\<rparr>))))"

definition lastMemberGroupAge :: "penv \<Rightarrow> u32 \<Rightarrow> proxy \<Rightarrow> (bool \<times> proxy) run" where
  "lastMemberGroupAge e gr w =
     run_bind (findRoute gr w) (\<lambda>found.
     case found of None \<Rightarrow> ret (False, w)
     | Some k \<Rightarrow>
         run_bind (get_route k w) (\<lambda>r.
           if upstrState r = ROUTESTATE_CHECK_LAST_MEMBER then run_map (\<lambda>(res, w). (res = 0, w)) (internAgeRoute e k w)
           else ret (False, w)))"

end
