(* ===== verification/Igmp.thy ===== *)
theory Igmp
  imports RouteTab
begin

text \<open>
  Building and sending IGMP messages: \<open>igmpproxy/src/igmp.c\<close> and the checksum of \<open>lib.c\<close>. The packet is built in
  \<open>send_buf\<close>, whose fixed fields \<open>initIgmp\<close> writes once.
\<close>

definition IGMP_MINLEN :: nat where "IGMP_MINLEN = 8"
definition IGMP_MEMBERSHIP_QUERY :: byte where "IGMP_MEMBERSHIP_QUERY = 0x11"
definition IGMP_V1_MEMBERSHIP_REPORT :: byte where "IGMP_V1_MEMBERSHIP_REPORT = 0x12"
definition IGMP_DVMRP :: byte where "IGMP_DVMRP = 0x13"
definition IGMP_V2_MEMBERSHIP_REPORT :: byte where "IGMP_V2_MEMBERSHIP_REPORT = 0x16"
definition IGMP_V2_LEAVE_GROUP :: byte where "IGMP_V2_LEAVE_GROUP = 0x17"
definition IGMP_TIMER_SCALE :: u32 where "IGMP_TIMER_SCALE = 10"
definition IPPROTO_IGMP :: byte where "IPPROTO_IGMP = 2"
definition MAXTTL :: byte where "MAXTTL = 255"
definition ENETDOWN :: int where "ENETDOWN = 100"

definition allhosts_group :: u32 where "allhosts_group = ntohl 0xE0000001"

section \<open>The checksum\<close>

definition rd_le16 :: "byte \<Rightarrow> byte \<Rightarrow> u16" where
  "rd_le16 a b = ucast a OR push_bit 8 (ucast b)"

definition le16 :: "u16 \<Rightarrow> byte list" where
  "le16 w = [ucast w, ucast (drop_bit 8 w)]"

text \<open>The loop of \<open>inetChksum\<close> over the 16-bit words in the order of the machine, and the odd byte.\<close>

fun chk_sum :: "int \<Rightarrow> byte list \<Rightarrow> int" where
  "chk_sum acc (a # b # bs) = chk_sum (s32 (acc + uint (rd_le16 a b))) bs"
| "chk_sum acc [a] = s32 (acc + uint (rd_le16 a 0))"
| "chk_sum acc [] = acc"

definition inetChksum :: "byte list \<Rightarrow> u16" where
  "inetChksum bs =
     (let acc = chk_sum 0 bs;
          acc = acc div 2 ^ 16 + acc mod 2 ^ 16;
          acc = acc + acc div 2 ^ 16
      in NOT (of_int acc))"

section \<open>Messages\<close>

fun writes :: "(nat \<times> byte list) list \<Rightarrow> byte list \<Rightarrow> byte list run" where
  "writes [] buf = ret buf"
| "writes ((off, bs) # ws) buf = run_bind (mem_write off bs buf) (writes ws)"

definition initIgmp :: "penv \<Rightarrow> proxy \<Rightarrow> proxy run" where
  "initIgmp e w =
     run_bind (k_hdr_include e w) (\<lambda>w.
     run_bind (k_set_rcvbuf e (256 * 1024) (48 * 1024) w) (\<lambda>w.
     run_bind (k_set_ttl e 1 w) (\<lambda>w.
     run_bind (k_set_loop e 0 w) (\<lambda>w.
     if \<not> p_alloc e RECV_BUF_SIZE then fail NullDeref
     else run_map (\<lambda>b. w\<lparr>send_buf := b\<rparr>)
       (writes [(0, replicate 20 0), (0, [0x45]), (1, [0xC0]), (8, [MAXTTL]), (9, [IPPROTO_IGMP])] (replicate RECV_BUF_SIZE 0))))))"

definition buildIgmp :: "u32 \<Rightarrow> u32 \<Rightarrow> byte \<Rightarrow> byte \<Rightarrow> u32 \<Rightarrow> nat \<Rightarrow> proxy \<Rightarrow> proxy run" where
  "buildIgmp src dst type code gr datalen w =
     run_bind (writes [(12, le32 src), (16, le32 dst), (2, be16 (of_nat (MIN_IP_HEADER_LEN + IGMP_MINLEN + datalen))),
         (8, [if IN_MULTICAST (ntohl dst) then of_int (curttl w) else MAXTTL]),
         (20, [type]), (21, [code]), (24, le32 gr), (22, [0, 0])] (send_buf w)) (\<lambda>buf.
     run_bind (mem_read 20 (IGMP_MINLEN + datalen) buf) (\<lambda>msg.
     run_map (\<lambda>buf. w\<lparr>send_buf := buf\<rparr>) (mem_write 22 (le16 (inetChksum msg)) buf)))"

definition sendIgmp :: "penv \<Rightarrow> u32 \<Rightarrow> u32 \<Rightarrow> byte \<Rightarrow> byte \<Rightarrow> u32 \<Rightarrow> nat \<Rightarrow> proxy \<Rightarrow> proxy run" where
  "sendIgmp e src dst type code gr datalen w =
     run_bind (buildIgmp src dst type code gr datalen w) (\<lambda>w.
     let mc = IN_MULTICAST (ntohl dst); setloop = (mc \<and> (type \<noteq> IGMP_DVMRP \<or> dst = allhosts_group)) in
     run_bind (if mc then k_set_if e src w else ret w) (\<lambda>w.
     run_bind (if setloop then k_set_loop e 1 w else ret w) (\<lambda>w.
     run_bind (mem_read 0 (MIN_IP_HEADER_LEN + IGMP_MINLEN + datalen) (send_buf w)) (\<lambda>pkt.
     case do_call e (SendPacket pkt dst) w of (r, w) \<Rightarrow>
       if r = ENETDOWN then fail ProcessExit
       else if mc then run_bind (if setloop then k_set_loop e 0 w else ret w) (k_set_if e 0)
       else ret w))))"

end
