(* ===== verification/Requests.thy ===== *)
theory Requests
  imports Igmp
begin

text \<open>
  What the multicast proxy does on reports, leave messages and timers: \<open>igmpproxy/src/request.c\<close>, and the dispatch of a
  received packet, \<open>acceptIgmp\<close> of \<open>igmp.c\<close>.
\<close>

definition sizeof_GroupVifDesc :: nat where "sizeof_GroupVifDesc = 12"

section \<open>Reports\<close>

definition acceptGroupReport :: "penv \<Rightarrow> u32 \<Rightarrow> u32 \<Rightarrow> proxy \<Rightarrow> proxy run" where
  "acceptGroupReport e src gr w =
     (if \<not> IN_MULTICAST (ntohl gr) then ret w
      else case getIfByAddress src w of None \<Rightarrow> ret w
      | Some d \<Rightarrow>
          if InAdr d = src then ret w
          else if if_state d = IF_STATE_DOWNSTREAM then
            run_bind (insert_multicast_ip e (ntohl gr) (ntohl src) w) (\<lambda>w.
            run_map snd (insertRoute e gr (s32 (uint (if_index d))) w))
          else ret w)"

section \<open>Queries\<close>

definition get_gvdesc :: "nat \<Rightarrow> proxy \<Rightarrow> GroupVifDesc run" where
  "get_gvdesc k w = (case gvdescs w k of None \<Rightarrow> fail UseAfterFree | Some g \<Rightarrow> ret g)"

definition sendGroupSpecificMemberQuery :: "penv \<Rightarrow> nat \<Rightarrow> proxy \<Rightarrow> proxy run" where
  "sendGroupSpecificMemberQuery e k w =
     run_bind (get_gvdesc k w) (\<lambda>g.
     run_bind (if gv_started g then lastMemberGroupAge e (gv_group g) w
               else ret (True, w\<lparr>gvdescs := (gvdescs w)(k \<mapsto> g\<lparr>gv_started := True\<rparr>)\<rparr>)) (\<lambda>(go, w).
     if \<not> go then ret w
     else let interval = lastMemberQueryInterval (commonConfig w) in
       run_map (\<lambda>w. snd (timer_setTimer e (s32 (uint interval)) SendGroupSpecificMemberQuery (Some k) w))
         (sendIgmp e (gv_vifAddr g) (gv_group g) IGMP_MEMBERSHIP_QUERY (ucast (interval * IGMP_TIMER_SCALE)) (gv_group g) 0 w)))"

definition acceptLeaveMessage :: "penv \<Rightarrow> u32 \<Rightarrow> u32 \<Rightarrow> proxy \<Rightarrow> proxy run" where
  "acceptLeaveMessage e src gr w =
     (if \<not> IN_MULTICAST (ntohl gr) then ret w
      else run_bind (remove_member e (ntohl gr) (ntohl src) w) (\<lambda>w.
      case getIfByAddress src w of None \<Rightarrow> ret w
      | Some d \<Rightarrow>
          if if_state d = IF_STATE_DOWNSTREAM then
            run_bind (setRouteLastMemberMode e gr w) (\<lambda>w.
            if \<not> p_alloc e sizeof_GroupVifDesc then fail NullDeref
            else let k = next_gvdesc w in
              sendGroupSpecificMemberQuery e k
                (w\<lparr>next_gvdesc := Suc k,
                   gvdescs := (gvdescs w)(k \<mapsto> \<lparr>gv_group = gr, gv_vifAddr = InAdr d, gv_started = False\<rparr>)\<rparr>))
          else ret w))"

fun query_walk :: "penv \<Rightarrow> byte \<Rightarrow> IfDesc list \<Rightarrow> proxy \<Rightarrow> proxy run" where
  "query_walk e code [] w = ret w"
| "query_walk e code (d # ds) w =
     (if usable d \<and> if_state d = IF_STATE_DOWNSTREAM
      then run_bind (sendIgmp e (InAdr d) allhosts_group IGMP_MEMBERSHIP_QUERY code 0 0 w) (query_walk e code ds)
      else query_walk e code ds w)"

definition sendGeneralMembershipQuery :: "penv \<Rightarrow> proxy \<Rightarrow> proxy run" where
  "sendGeneralMembershipQuery e w =
     run_bind (clear_all_entries_report w) (\<lambda>w.
     run_map (\<lambda>w.
       let w = snd (timer_setTimer e (s32 (uint (queryResponseInterval (commonConfig w)))) AgeActiveRoutes None w); c = commonConfig w in
       if startupQueryCount c > 0 then
         (let w = snd (timer_setTimer e (s32 (uint (startupQueryInterval c))) SendGeneralMembershipQuery None w)
          in w\<lparr>commonConfig := c\<lparr>startupQueryCount := startupQueryCount c - 1\<rparr>\<rparr>)
       else snd (timer_setTimer e (s32 (uint (queryInterval c))) SendGeneralMembershipQuery None w))
       (query_walk e (ucast (queryResponseInterval (commonConfig w) * IGMP_TIMER_SCALE)) (IfDescVc w) w))"

section \<open>Received packets\<close>

text \<open>\<open>acceptIgmp\<close> on the receive buffer and the number of bytes received. A packet of the protocol 0 is a request of the kernel
  for a route.\<close>

definition activation_request :: "penv \<Rightarrow> u32 \<Rightarrow> u32 \<Rightarrow> proxy \<Rightarrow> proxy run" where
  "activation_request e src dst w =
     (if src = 0 \<or> dst = 0 then ret w
      else case getIfByIx (upStreamVif w) w of None \<Rightarrow> ret w
        | Some d \<Rightarrow>
            if src = InAdr d then ret w
            else if \<not> isAdressValidForIf d src then ret w
            else run_map snd (activateRoute e dst src w))"

definition acceptIgmp :: "penv \<Rightarrow> byte list \<Rightarrow> int \<Rightarrow> proxy \<Rightarrow> proxy run" where
  "acceptIgmp e buf recvlen w =
     (if recvlen < 20 then ret w
      else
        run_bind (mem_read 0 20 buf) (\<lambda>ip.
        let src = rd_le32 (drop 12 ip); dst = rd_le32 (drop 16 ip) in
        if ip ! 9 = 0 then activation_request e src dst w
        else
          let iphdrlen = unat (ip ! 0 AND 0xF) * 4; ipdatalen = uint (rd_be16 (drop 2 ip)) - int iphdrlen in
          if int iphdrlen + ipdatalen \<noteq> recvlen then ret w
          else
            run_bind (mem_read iphdrlen IGMP_MINLEN buf) (\<lambda>igmp.
            let gr = rd_le32 (drop 4 igmp) in
            if ipdatalen - int IGMP_MINLEN < 0 then ret w
            else if igmp ! 0 = IGMP_V1_MEMBERSHIP_REPORT \<or> igmp ! 0 = IGMP_V2_MEMBERSHIP_REPORT then acceptGroupReport e src gr w
            else if igmp ! 0 = IGMP_V2_LEAVE_GROUP then acceptLeaveMessage e src gr w
            else ret w)))"

section \<open>Timers\<close>

text \<open>The call through the pointer of a timer.\<close>

definition fire :: "penv \<Rightarrow> action \<Rightarrow> nat option \<Rightarrow> proxy \<Rightarrow> proxy run" where
  "fire e f d w =
     (case f of
        SendGeneralMembershipQuery \<Rightarrow> sendGeneralMembershipQuery e w
      | AgeActiveRoutes \<Rightarrow> ageActiveRoutes e w
      | SendGroupSpecificMemberQuery \<Rightarrow>
          (case d of None \<Rightarrow> fail NullDeref | Some k \<Rightarrow> sendGroupSpecificMemberQuery e k w))"

end
