(* ===== verification/ProxyConfig.thy ===== *)
theory ProxyConfig
  imports Requests
begin

text \<open>
  The configuration of the multicast proxy: the reader of tokens \<open>igmpproxy/src/confread.c\<close> and the parser \<open>config.c\<close>. The file is read in
  pieces of 512 characters into \<open>iBuffer\<close>; a token is at most 29 characters long.

  \<open>inet_addr\<close> is the one of the C library of the router: four decimal numbers with points between them. \<open>atoi\<close> saturates.
\<close>

definition READ_BUFFER_SIZE :: nat where "READ_BUFFER_SIZE = 512"
definition MAX_TOKEN_LENGTH :: nat where "MAX_TOKEN_LENGTH = 30"
definition sizeof_ifr_name :: nat where "sizeof_ifr_name = 16"
definition sizeof_vifconfig :: nat where "sizeof_vifconfig = 24"

section \<open>Tokens\<close>

text \<open>The rest of the file, the buffer (of \<open>readSize\<close> characters), the position in it and the token that is valid.\<close>

record reader =
  cr_file :: string
  iBuffer :: string
  bufPtr :: nat
  cToken :: "string option"

definition openConfigFile :: "penv \<Rightarrow> string option \<Rightarrow> reader option" where
  "openConfigFile e content =
     (case content of None \<Rightarrow> None
      | Some s \<Rightarrow> if p_alloc e READ_BUFFER_SIZE then Some \<lparr>cr_file = s, iBuffer = [], bufPtr = 0, cToken = None\<rparr> else None)"

definition ends_token :: "char \<Rightarrow> bool" where
  "ends_token ch \<longleftrightarrow> ch \<in> {CHR 0x0A, CHR 0x0D, CHR 0x09, CHR '' ''}"

text \<open>One character: the token, whether a comment is open, and whether the token is finished.\<close>

definition read_char :: "char \<Rightarrow> string \<Rightarrow> bool \<Rightarrow> string \<times> bool \<times> bool" where
  "read_char ch tok comment =
     (let (tok', comment', finished) =
        (if comment then (tok, ch \<noteq> CHR 0x0A, False)
         else if ch = CHR ''#'' then (tok, True, False)
         else if ends_token ch then (tok, False, tok \<noteq> [])
         else (tok @ [ch], False, False))
      in (tok', comment', finished \<or> length tok' = MAX_TOKEN_LENGTH - 1))"

text \<open>The inner loop over what is left of the buffer: the number of characters read, and what \<open>read_char\<close> leaves. It stops at a
  null character without reading it.\<close>

fun char_loop :: "string \<Rightarrow> string \<Rightarrow> bool \<Rightarrow> nat \<times> string \<times> bool \<times> bool" where
  "char_loop [] tok comment = (0, tok, comment, False)"
| "char_loop (ch # s) tok comment =
     (if ch = CHR 0x00 then (0, tok, comment, False)
      else case read_char ch tok comment of (tok, comment, finished) \<Rightarrow>
        if finished then (1, tok, comment, True)
        else case char_loop s tok comment of (n, r) \<Rightarrow> (Suc n, r))"

partial_function (option) token_loop :: "string \<Rightarrow> bool \<Rightarrow> reader \<Rightarrow> (string option \<times> reader) run" where
  "token_loop tok comment r =
     (let r = (if bufPtr r = length (iBuffer r)
               then r\<lparr>iBuffer := take READ_BUFFER_SIZE (cr_file r), cr_file := drop READ_BUFFER_SIZE (cr_file r), bufPtr := 0\<rparr> else r) in
      if iBuffer r = [] then ret (None, r)
      else case char_loop (drop (bufPtr r) (iBuffer r)) tok comment of (n, tok, comment, finished) \<Rightarrow>
        let r = r\<lparr>bufPtr := bufPtr r + n\<rparr> in
        if length (iBuffer r) < READ_BUFFER_SIZE \<and> bufPtr r = length (iBuffer r) then ret (None, r)
        else if finished then ret (Some tok, r\<lparr>cToken := Some tok\<rparr>)
        else token_loop tok comment r)"

definition nextConfigToken :: "reader \<Rightarrow> (string option \<times> reader) run" where
  "nextConfigToken r = token_loop [] False (r\<lparr>cToken := None\<rparr>)"

definition getCurrentConfigToken :: "reader \<Rightarrow> string option" where
  "getCurrentConfigToken r = cToken r"

section \<open>Numbers and addresses\<close>

definition digit_value :: "char \<Rightarrow> nat option" where
  "digit_value ch = (let n = of_char ch :: nat in if 48 \<le> n \<and> n \<le> 57 then Some (n - 48) else None)"

fun number :: "nat \<Rightarrow> string \<Rightarrow> nat \<times> string" where
  "number n [] = (n, [])"
| "number n (ch # s) = (case digit_value ch of None \<Rightarrow> (n, ch # s) | Some d \<Rightarrow> number (10 * n + d) s)"

definition atoi :: "string \<Rightarrow> int" where
  "atoi s =
     (let s = dropWhile is_blank s in
      case s of [] \<Rightarrow> 0
      | ch # s' \<Rightarrow>
          if ch = CHR ''-'' then max (- int (fst (number 0 s'))) (- (2 ^ 31))
          else min (int (fst (number 0 (if ch = CHR ''+'' then s' else s)))) (2 ^ 31 - 1))"

text \<open>A part of an address: a number up to 255, and the rest.\<close>

definition addr_part :: "string \<Rightarrow> (nat \<times> string) option" where
  "addr_part s =
     (case s of [] \<Rightarrow> None
      | ch # _ \<Rightarrow> if digit_value ch = None then None
          else case number 0 s of (n, rest) \<Rightarrow> if n > 255 then None else Some (n, rest))"

definition point :: "string \<Rightarrow> string option" where
  "point s = (case s of [] \<Rightarrow> None | ch # s \<Rightarrow> if ch = CHR ''.'' then Some s else None)"

text \<open>The address in network byte order; \<open>None\<close> is the result -1.\<close>

definition inet_addr :: "string \<Rightarrow> u32 option" where
  "inet_addr s =
     do { (a, s) \<leftarrow> addr_part s; s \<leftarrow> point s; (b, s) \<leftarrow> addr_part s; s \<leftarrow> point s; (c, s) \<leftarrow> addr_part s; s \<leftarrow> point s;
          (d, s) \<leftarrow> addr_part s;
          if s \<noteq> [] \<and> \<not> is_blank (hd s) then None
          else let v = rd_le32 [of_nat a, of_nat b, of_nat c, of_nat d] in if v = - 1 then None else Some v }"

text \<open>\<open>strtok\<close> with \<open>"/"\<close>: the next part, and what is behind it.\<close>

definition strtok_slash :: "string \<Rightarrow> string option \<times> string" where
  "strtok_slash s =
     (let s = dropWhile (\<lambda>ch. ch = CHR ''/'') s; part = takeWhile (\<lambda>ch. ch \<noteq> CHR ''/'') s
      in (if part = [] then None else Some part, drop (Suc (length part)) s))"

definition parseSubnetAddress :: "penv \<Rightarrow> string option \<Rightarrow> SubnetList option run" where
  "parseSubnetAddress e addrstr =
     (case addrstr of None \<Rightarrow> fail NullDeref
      | Some s \<Rightarrow>
          (case strtok_slash s of
             (None, _) \<Rightarrow> fail NullDeref
           | (Some a, rest) \<Rightarrow>
               let addr = inet_addr a; bits = map_option atoi (fst (strtok_slash rest)) in
               if (case bits of None \<Rightarrow> False | Some n \<Rightarrow> n < 0 \<or> n > 32) then ret None
               else let m = (case bits of None \<Rightarrow> - 1 | Some n \<Rightarrow> if n = 0 then 0 else push_bit (nat (32 - n)) (- 1)) :: u32 in
               case addr of None \<Rightarrow> ret None
               | Some v \<Rightarrow>
                   if \<not> p_alloc e sizeof_SubnetList then fail NullDeref
                   else ret (Some \<lparr>subnet_addr = v, subnet_mask = ntohl m\<rparr>)))"

section \<open>Interfaces\<close>

text \<open>The loop over the words of an interface; the result is \<open>None\<close> after an error in a value.\<close>

partial_function (option) phyint_loop :: "penv \<Rightarrow> string option \<Rightarrow> vifconfig \<Rightarrow> reader \<Rightarrow> (vifconfig option \<times> reader) run" where
  "phyint_loop e token c r =
     (case token of None \<Rightarrow> ret (Some c, r)
      | Some t \<Rightarrow>
          if t = ''altnet'' then
            run_bind (nextConfigToken r) (\<lambda>(v, r).
            run_bind (parseSubnetAddress e v) (\<lambda>net.
            case net of None \<Rightarrow> ret (None, r)
            | Some n \<Rightarrow> run_bind (nextConfigToken r) (\<lambda>(token, r).
                phyint_loop e token (c\<lparr>vc_allowednets := vc_allowednets c @ [n]\<rparr>) r)))
          else if t = ''upstream'' then
            run_bind (nextConfigToken r) (\<lambda>(token, r). phyint_loop e token (c\<lparr>vc_state := IF_STATE_UPSTREAM\<rparr>) r)
          else if t = ''downstream'' then
            run_bind (nextConfigToken r) (\<lambda>(token, r). phyint_loop e token (c\<lparr>vc_state := IF_STATE_DOWNSTREAM\<rparr>) r)
          else if t = ''disabled'' then
            run_bind (nextConfigToken r) (\<lambda>(token, r). phyint_loop e token (c\<lparr>vc_state := IF_STATE_DISABLED\<rparr>) r)
          else if t = ''ratelimit'' then
            run_bind (nextConfigToken r) (\<lambda>(v, r).
            case v of None \<Rightarrow> fail NullDeref
            | Some v \<Rightarrow>
                if atoi v < 0 then ret (None, r)
                else run_bind (nextConfigToken r) (\<lambda>(token, r). phyint_loop e token (c\<lparr>vc_ratelimit := atoi v\<rparr>) r))
          else if t = ''threshold'' then
            run_bind (nextConfigToken r) (\<lambda>(v, r).
            case v of None \<Rightarrow> fail NullDeref
            | Some v \<Rightarrow>
                if atoi v \<le> 0 \<or> atoi v > 255 then ret (None, r)
                else run_bind (nextConfigToken r) (\<lambda>(token, r). phyint_loop e token (c\<lparr>vc_threshold := atoi v\<rparr>) r))
          else ret (Some c, r))"

text \<open>The name is copied with its null character into a block requested for the length of the name.\<close>

definition parsePhyintToken :: "penv \<Rightarrow> reader \<Rightarrow> (vifconfig option \<times> reader) run" where
  "parsePhyintToken e r =
     run_bind (nextConfigToken r) (\<lambda>(token, r).
     case token of None \<Rightarrow> ret (None, r)
     | Some n \<Rightarrow>
         if length n \<ge> sizeof_ifr_name then ret (None, r)
         else if \<not> p_alloc e sizeof_vifconfig \<or> \<not> p_alloc e (length n) then fail ProcessExit
         else if p_block e (length n) < length n + 1 then fail OutOfBounds
         else run_bind (nextConfigToken r) (\<lambda>(token, r).
           phyint_loop e token
             \<lparr>vc_name = n, vc_state = IF_STATE_DOWNSTREAM, vc_ratelimit = 0, vc_threshold = 1, vc_allowednets = []\<rparr> r))"

definition initCommonConfig :: "Config" where
  "initCommonConfig =
     \<lparr>robustnessValue = DEFAULT_ROBUSTNESS, queryInterval = INTERVAL_QUERY, queryResponseInterval = INTERVAL_QUERY_RESPONSE,
      startupQueryInterval = INTERVAL_QUERY div 4, startupQueryCount = DEFAULT_ROBUSTNESS,
      lastMemberQueryInterval = INTERVAL_QUERY_RESPONSE, lastMemberQueryCount = DEFAULT_ROBUSTNESS, fastUpstreamLeave = False\<rparr>"

text \<open>The loop of \<open>loadConfig\<close>; the result is \<open>False\<close> after an unknown word.\<close>

partial_function (option) load_loop :: "penv \<Rightarrow> string option \<Rightarrow> reader \<Rightarrow> proxy \<Rightarrow> (bool \<times> proxy) run" where
  "load_loop e token r w =
     (case token of None \<Rightarrow> ret (True, w)
      | Some t \<Rightarrow>
          if t = ''phyint'' then
            run_bind (parsePhyintToken e r) (\<lambda>(c, r).
            case c of None \<Rightarrow> ret (False, w)
            | Some c \<Rightarrow> load_loop e (getCurrentConfigToken r) r (w\<lparr>vifconf := vifconf w @ [c]\<rparr>))
          else if t = ''quickleave'' then
            run_bind (nextConfigToken r) (\<lambda>(token, r).
              load_loop e token r (w\<lparr>commonConfig := (commonConfig w)\<lparr>fastUpstreamLeave := True\<rparr>\<rparr>))
          else ret (False, w))"

definition loadConfig :: "penv \<Rightarrow> string option \<Rightarrow> proxy \<Rightarrow> (bool \<times> proxy) run" where
  "loadConfig e content w =
     (case openConfigFile e content of None \<Rightarrow> fail ProcessExit
      | Some r \<Rightarrow> run_bind (nextConfigToken r) (\<lambda>(token, r).
          if token = None then fail ProcessExit
          else load_loop e token r (w\<lparr>commonConfig := initCommonConfig\<rparr>)))"

text \<open>The first configuration of the name of an interface is applied to it.\<close>

definition configure_if :: "vifconfig list \<Rightarrow> IfDesc \<Rightarrow> IfDesc" where
  "configure_if cs d =
     (if usable d then
        (case find (\<lambda>c. vc_name c = if_Name d) cs of None \<Rightarrow> d
         | Some c \<Rightarrow> d\<lparr>if_state := vc_state c, if_threshold := of_int (vc_threshold c), if_ratelimit := of_int (vc_ratelimit c),
             allowednets := allowednets d @ vc_allowednets c\<rparr>)
      else d)"

definition configureVifs :: "proxy \<Rightarrow> proxy" where
  "configureVifs w = w\<lparr>IfDescVc := map (configure_if (vifconf w)) (IfDescVc w)\<rparr>"

end
