(* ===== verification/ProxyRun.thy ===== *)
theory ProxyRun
  imports ProxyConfig
begin

text \<open>
  The multicast proxy as a whole: \<open>igmpproxy/src/igmpproxy.c\<close>. \<open>igmpProxyInit\<close> sets it up, \<open>proxy_turn\<close> is a turn of the loop of
  \<open>igmpProxyRun\<close>, and \<open>igmpProxyCleanUp\<close> is the end. The options of the command line, the detaching from the terminal and the
  registration of the signals are not modelled.
\<close>

section \<open>Setup\<close>

text \<open>The loop over the interfaces: \<open>log\<close> ends the process when a second one is upstream.\<close>

fun vif_setup :: "penv \<Rightarrow> nat \<Rightarrow> nat \<Rightarrow> proxy \<Rightarrow> proxy run" where
  "vif_setup e 0 ix w = ret w"
| "vif_setup e (Suc n) ix w =
     (if ix \<ge> length (IfDescVc w) then ret w
      else let d = IfDescVc w ! ix in
        if usable d then
          if if_state d = IF_STATE_UPSTREAM then
            if upStreamVif w = - 1 then run_bind (addVIF e ix (w\<lparr>upStreamVif := int ix\<rparr>)) (vif_setup e n (Suc ix))
            else fail ProcessExit
          else run_bind (addVIF e ix w) (vif_setup e n (Suc ix))
        else vif_setup e n (Suc ix) w)"

definition igmpProxyInit :: "penv \<Rightarrow> proxy \<Rightarrow> proxy run" where
  "igmpProxyInit e w =
     run_bind (buildIfVc e w) (\<lambda>w.
     run_bind (enableMRouter e (configureVifs w)) (\<lambda>(err, w).
     if err \<noteq> 0 then fail ProcessExit
     else
       run_bind (vif_setup e (length (IfDescVc w)) 0 (w\<lparr>upStreamVif := - 1\<rparr>)) (\<lambda>w.
       run_bind (initIgmp e w) (\<lambda>w.
       run_map callout_init (initRouteTable e w)))))"

definition igmpProxyCleanUp :: "penv \<Rightarrow> proxy \<Rightarrow> proxy run" where
  "igmpProxyCleanUp e w = run_bind (clearAllRoutes e (free_all_callouts w)) (disableMRouter e)"

section \<open>The loop\<close>

text \<open>What the loop keeps between two turns, and what a turn gets from the system: the result of \<open>select\<close>, the receive buffer and
  the result of \<open>recvfrom\<close> (a negative one is an error, \<open>interrupted\<close> if it is \<open>EINTR\<close>), and the times \<open>gettimeofday\<close> gives one
  after the other.\<close>

record loop_state =
  last_sec :: int
  last_usec :: int
  diff_usec :: int

record turn_input =
  in_select :: int
  in_packet :: "byte list"
  in_recvlen :: int
  interrupted :: bool
  in_clock :: "nat \<Rightarrow> int \<times> int"

text \<open>The normalisation of the difference.\<close>

function carry_usec :: "int \<Rightarrow> int \<Rightarrow> int \<times> int" where
  "carry_usec sec usec = (if usec > 1000000 then carry_usec (sec + 1) (usec - 1000000) else (sec, usec))"
  by pat_completeness auto
termination by (relation "measure (\<lambda>(s, u). nat u)") auto

declare carry_usec.simps [simp del]

definition norm_diff :: "int \<Rightarrow> int \<Rightarrow> int \<times> int" where
  "norm_diff sec usec = (case carry_usec sec usec of (sec, usec) \<Rightarrow> if usec < 0 then (sec - 1, usec + 1000000) else (sec, usec))"

text \<open>The inner loop. \<open>timed\<close> holds in the first round after \<open>select\<close> has timed out: the time is then the last one plus the time-out.\<close>

partial_function (option) time_walk ::
    "penv \<Rightarrow> bool \<Rightarrow> int \<Rightarrow> nat \<Rightarrow> (nat \<Rightarrow> int \<times> int) \<Rightarrow> loop_state \<Rightarrow> proxy \<Rightarrow> (loop_state \<times> proxy) run" where
  "time_walk e timed secs k clock l w =
     (let (cur_sec, cur_usec) = (if timed then (last_sec l + secs, last_usec l) else clock k);
          (dsec, dusec) = norm_diff (cur_sec - last_sec l) (diff_usec l + (cur_usec - last_usec l));
          l = \<lparr>last_sec = cur_sec, last_usec = cur_usec, diff_usec = dusec\<rparr>
      in run_bind (if secs = 0 \<or> dsec > 0 then age_callout_queue (fire e) dsec w else ret w) (\<lambda>w.
           if dsec > 0 then time_walk e False (- 1) (if timed then k else Suc k) clock l w else ret (l, w)))"

definition proxy_turn :: "penv \<Rightarrow> turn_input \<Rightarrow> loop_state \<times> proxy \<Rightarrow> (loop_state \<times> proxy) run" where
  "proxy_turn e i st =
     (case st of (l, w) \<Rightarrow>
        let secs = timer_nextTimer w in
        if in_select i < 0 then ret (l, w)
        else if in_select i = 0 then time_walk e True secs 0 (in_clock i) l w
        else if in_recvlen i < 0 then if interrupted i then ret (l, w) else fail ProcessExit
        else run_bind (acceptIgmp e (in_packet i) (in_recvlen i) w) (time_walk e False secs 0 (in_clock i) l))"

text \<open>The way of \<open>main\<close> to the loop: \<open>content\<close> is the configuration file, \<open>snooping\<close> the option \<open>-f\<close>, \<open>now\<close> the time.\<close>

definition proxy_start :: "penv \<Rightarrow> string option \<Rightarrow> bool \<Rightarrow> int \<times> int \<Rightarrow> proxy \<Rightarrow> (loop_state \<times> proxy) run" where
  "proxy_start e content snooping now w =
     run_bind (loadConfig e content w) (\<lambda>(ok, w).
     if \<not> ok then fail ProcessExit
     else
       run_bind (igmpProxyInit e w) (\<lambda>w.
       run_bind (rt_init e snooping w) (\<lambda>w.
       run_map (Pair \<lparr>last_sec = fst now, last_usec = snd now, diff_usec = 0\<rparr>) (sendGeneralMembershipQuery e w))))"

end
