(* ===== verification/ProxyTokens.thy ===== *)
theory ProxyTokens
  imports ProxyConfig
begin

text \<open>
  The reader of tokens of \<open>confread.c\<close> against its reference: \<open>scan\<close> finds the next token in the text that has not been read, without
  buffers. The pieces of 512 characters do not matter, but for the end of the file: a token is lost when its terminator is the last
  character of a last piece that is not full, and a null character stops the reader from ever returning.
\<close>

section \<open>The reference\<close>

fun scan :: "string \<Rightarrow> string \<Rightarrow> bool \<Rightarrow> (string \<times> string) option" where
  "scan [] tok comment = None"
| "scan (ch # s) tok comment =
     (case read_char ch tok comment of (tok, comment, finished) \<Rightarrow> if finished then Some (tok, s) else scan s tok comment)"

definition unread :: "reader \<Rightarrow> string" where
  "unread r = drop (bufPtr r) (iBuffer r) @ cr_file r"

definition reader_ok :: "reader \<Rightarrow> bool" where
  "reader_ok r \<longleftrightarrow> bufPtr r \<le> length (iBuffer r) \<and> length (iBuffer r) \<le> READ_BUFFER_SIZE
     \<and> (cr_file r \<noteq> [] \<longrightarrow> iBuffer r = [] \<or> length (iBuffer r) = READ_BUFFER_SIZE)"

text \<open>The last piece of the file is not full.\<close>

definition short_end :: "reader \<Rightarrow> bool" where
  "short_end r \<longleftrightarrow> length (iBuffer r @ cr_file r) mod READ_BUFFER_SIZE \<noteq> 0"

lemma char_loop_scan:
  "CHR 0x00 \<notin> set b \<Longrightarrow> case char_loop b tok c of (n, tok', c', fin) \<Rightarrow> n \<le> length b \<and>
     (if fin then 0 < n \<and> scan (b @ f) tok c = Some (tok', drop n b @ f) else n = length b \<and> scan (b @ f) tok c = scan f tok' c')"
proof (induction b arbitrary: tok c)
  case (Cons ch b)
  obtain tok1 c1 fin1 where one: "read_char ch tok c = (tok1, c1, fin1)" by (metis prod_cases3)
  obtain n tok' c' fin where rest: "char_loop b tok1 c1 = (n, tok', c', fin)" by (metis prod_cases4)
  have "ch \<noteq> CHR 0x00" "CHR 0x00 \<notin> set b" using Cons.prems by auto
  then show ?case using Cons.IH [of tok1 c1] one rest by auto
qed simp

lemma char_loop_null: "CHR 0x00 \<notin> set a \<Longrightarrow> char_loop (a @ CHR 0x00 # b) tok c = char_loop a tok c"
  by (induction a arbitrary: tok c) (auto split: prod.split)

text \<open>Filling the buffer.\<close>

definition refill :: "reader \<Rightarrow> reader" where
  "refill r = (if bufPtr r = length (iBuffer r)
     then r\<lparr>iBuffer := take READ_BUFFER_SIZE (cr_file r), cr_file := drop READ_BUFFER_SIZE (cr_file r), bufPtr := 0\<rparr> else r)"

lemma refill_ok:
  assumes "reader_ok r"
  shows "reader_ok (refill r)" "unread (refill r) = unread r" "iBuffer (refill r) = [] \<Longrightarrow> unread r = []"
    "iBuffer (refill r) \<noteq> [] \<Longrightarrow> bufPtr (refill r) < length (iBuffer (refill r))" "unread r \<noteq> [] \<Longrightarrow> short_end (refill r) = short_end r"
    "cToken (refill r) = cToken r"
proof -
  show "reader_ok (refill r)" using assms by (auto simp: reader_ok_def refill_def READ_BUFFER_SIZE_def)
  show "unread (refill r) = unread r" using assms by (auto simp: reader_ok_def refill_def unread_def)
  show "iBuffer (refill r) = [] \<Longrightarrow> unread r = []"
    using assms by (auto simp: reader_ok_def refill_def unread_def READ_BUFFER_SIZE_def split: if_splits)
  show "iBuffer (refill r) \<noteq> [] \<Longrightarrow> bufPtr (refill r) < length (iBuffer (refill r))"
    using assms by (auto simp: reader_ok_def refill_def READ_BUFFER_SIZE_def split: if_splits)
  show "unread r \<noteq> [] \<Longrightarrow> short_end (refill r) = short_end r"
  proof -
    have "min l 512 + (l - 512) = l" for l :: nat by simp
    then show "unread r \<noteq> [] \<Longrightarrow> short_end (refill r) = short_end r"
      using assms by (auto simp: reader_ok_def refill_def unread_def short_end_def READ_BUFFER_SIZE_def split: if_splits)
  qed
  show "cToken (refill r) = cToken r" by (simp add: refill_def)
qed

lemma token_loop_refill:
  "token_loop tok comment r =
     (let r = refill r in
      if iBuffer r = [] then ret (None, r)
      else case char_loop (drop (bufPtr r) (iBuffer r)) tok comment of (n, tok, comment, finished) \<Rightarrow>
        let r = r\<lparr>bufPtr := bufPtr r + n\<rparr> in
        if length (iBuffer r) < READ_BUFFER_SIZE \<and> bufPtr r = length (iBuffer r) then ret (None, r)
        else if finished then ret (Some tok, r\<lparr>cToken := Some tok\<rparr>)
        else token_loop tok comment r)"
  unfolding refill_def by (subst token_loop.simps) (rule refl)

section \<open>The reader finds the tokens of the reference\<close>

lemma token_loop_scan:
  assumes "reader_ok r" "CHR 0x00 \<notin> set (unread r)"
  shows "\<exists>r'. reader_ok r' \<and> (case scan (unread r) tok c of
      None \<Rightarrow> token_loop tok c r = ret (None, r') \<and> cToken r' = cToken r
    | Some (t, s) \<Rightarrow>
        if s = [] \<and> short_end r then token_loop tok c r = ret (None, r') \<and> cToken r' = cToken r
        else token_loop tok c r = ret (Some t, r') \<and> cToken r' = Some t \<and> unread r' = s \<and> (s \<noteq> [] \<longrightarrow> short_end r' = short_end r))"
  using assms
proof (induction "length (unread r)" arbitrary: r tok c rule: less_induct)
  case less
  let ?r = "refill r"
  note ok = refill_ok [OF less.prems(1)]
  show ?case
  proof (cases "iBuffer ?r = []")
    case True
    then have "unread r = []" "token_loop tok c r = ret (None, ?r)" using ok(3) by (auto simp: token_loop_refill [of tok c r])
    then show ?thesis using ok(1,6) by (intro exI [of _ ?r]) simp
  next
    case False
    let ?b = "drop (bufPtr ?r) (iBuffer ?r)"
    have u: "unread r = ?b @ cr_file ?r" using ok(2) by (simp add: unread_def)
    then have b: "?b \<noteq> []" "CHR 0x00 \<notin> set ?b" "unread r \<noteq> []" using ok(4) [OF False] less.prems(2) by auto
    obtain n tok' c' fin where l: "char_loop ?b tok c = (n, tok', c', fin)" by (metis prod_cases4)
    let ?r2 = "?r\<lparr>bufPtr := bufPtr ?r + n\<rparr>"
    have n: "n \<le> length ?b" "fin \<Longrightarrow> 0 < n \<and> scan (unread r) tok c = Some (tok', drop n ?b @ cr_file ?r)"
      "\<not> fin \<Longrightarrow> n = length ?b \<and> scan (unread r) tok c = scan (cr_file ?r) tok' c'"
      using char_loop_scan [where f = "cr_file ?r" and tok = tok and c = c, OF b(2)] l u by auto
    have ok2: "reader_ok ?r2" using ok(1) n(1) by (auto simp: reader_ok_def)
    have u2: "unread ?r2 = drop n ?b @ cr_file ?r" by (simp add: unread_def add.commute)
    have step: "token_loop tok c r =
        (if length (iBuffer ?r) < READ_BUFFER_SIZE \<and> bufPtr ?r + n = length (iBuffer ?r) then ret (None, ?r2)
         else if fin then ret (Some tok', ?r2\<lparr>cToken := Some tok'\<rparr>) else token_loop tok' c' ?r2)"
      using False l by (simp add: token_loop_refill [of tok c r] Let_def)
    have full: "length (iBuffer ?r) < READ_BUFFER_SIZE \<Longrightarrow> cr_file ?r = []" using ok(1) False by (auto simp: reader_ok_def)
    have short: "cr_file ?r = [] \<Longrightarrow> short_end r \<longleftrightarrow> length (iBuffer ?r) < READ_BUFFER_SIZE"
    proof -
      assume "cr_file ?r = []"
      moreover have "0 < length (iBuffer ?r)" "length (iBuffer ?r) \<le> READ_BUFFER_SIZE" using False ok(1) by (auto simp: reader_ok_def)
      ultimately have "short_end ?r \<longleftrightarrow> length (iBuffer ?r) < READ_BUFFER_SIZE"
        by (cases "length (iBuffer ?r) = READ_BUFFER_SIZE") (auto simp: short_end_def)
      then show ?thesis using ok(5) [OF b(3)] by simp
    qed
    have at_end: "bufPtr ?r + n = length (iBuffer ?r) \<longleftrightarrow> drop n ?b = []" using n(1) ok(4) [OF False] by auto
    show ?thesis
    proof (cases fin)
      case True
      then have s: "scan (unread r) tok c = Some (tok', drop n ?b @ cr_file ?r)" using n(2) by simp
      show ?thesis
      proof (cases "drop n ?b @ cr_file ?r = [] \<and> short_end r")
        case True
        then have "token_loop tok c r = ret (None, ?r2)" using step short at_end by simp
        then show ?thesis using True s ok2 ok(6) by (intro exI [of _ ?r2]) simp
      next
        case False
        then have "\<not> (length (iBuffer ?r) < READ_BUFFER_SIZE \<and> bufPtr ?r + n = length (iBuffer ?r))"
          using full short at_end by auto
        then have "token_loop tok c r = ret (Some tok', ?r2\<lparr>cToken := Some tok'\<rparr>)" using step \<open>fin\<close> by simp
        moreover have "short_end (?r2\<lparr>cToken := Some tok'\<rparr>) = short_end r" using ok(5) [OF b(3)] by (simp add: short_end_def)
        moreover have "reader_ok (?r2\<lparr>cToken := Some tok'\<rparr>)" "unread (?r2\<lparr>cToken := Some tok'\<rparr>) = drop n ?b @ cr_file ?r"
          using ok2 u2 by (simp_all add: reader_ok_def unread_def)
        ultimately show ?thesis using False s by (intro exI [of _ "?r2\<lparr>cToken := Some tok'\<rparr>"]) auto
      qed
    next
      case False
      then have s: "n = length ?b" "scan (unread r) tok c = scan (cr_file ?r) tok' c'" using n(3) by auto
      show ?thesis
      proof (cases "length (iBuffer ?r) < READ_BUFFER_SIZE")
        case True
        then have "token_loop tok c r = ret (None, ?r2)" using step at_end s(1) by simp
        then show ?thesis using full [OF True] s(2) ok2 ok(6) by (intro exI [of _ ?r2]) simp
      next
        case nt: False
        then have e: "token_loop tok c r = token_loop tok' c' ?r2" using step False by simp
        have u3: "unread ?r2 = cr_file ?r" using u2 s(1) by simp
        have "length (unread ?r2) < length (unread r)" using u u3 b(1) by simp
        moreover have "CHR 0x00 \<notin> set (unread ?r2)" using u3 u less.prems(2) by simp
        ultimately have ih: "\<exists>r'. reader_ok r' \<and> (case scan (unread ?r2) tok' c' of
            None \<Rightarrow> token_loop tok' c' ?r2 = ret (None, r') \<and> cToken r' = cToken ?r2
          | Some (t, s) \<Rightarrow>
              if s = [] \<and> short_end ?r2 then token_loop tok' c' ?r2 = ret (None, r') \<and> cToken r' = cToken ?r2
              else token_loop tok' c' ?r2 = ret (Some t, r') \<and> cToken r' = Some t \<and> unread r' = s \<and> (s \<noteq> [] \<longrightarrow> short_end r' = short_end ?r2))"
          by (rule less.hyps [OF _ ok2])
        have sh: "short_end ?r2 = short_end r" using ok(5) [OF b(3)] by (simp add: short_end_def)
        have ct: "cToken ?r2 = cToken r" using ok(6) by simp
        show ?thesis using ih unfolding e s(2) u3 sh ct .
      qed
    qed
  qed
qed


text \<open>C29. On text without null characters the reader always returns, and what it returns does not depend on the pieces in which the file is
  read: the next token of the unread text, with the text behind it left to be read, and nothing when there is no more token; but
  a token whose terminator is the last character of the file is lost unless the last piece of the file is full.\<close>

theorem nextConfigToken_exact:
  assumes "reader_ok r" "CHR 0x00 \<notin> set (unread r)"
  shows "\<exists>r'. reader_ok r' \<and> (case scan (unread r) [] False of
      None \<Rightarrow> nextConfigToken r = ret (None, r') \<and> getCurrentConfigToken r' = None
    | Some (t, s) \<Rightarrow>
        if s = [] \<and> short_end r then nextConfigToken r = ret (None, r') \<and> getCurrentConfigToken r' = None
        else nextConfigToken r = ret (Some t, r') \<and> getCurrentConfigToken r' = Some t \<and> unread r' = s)"
proof -
  have "reader_ok (r\<lparr>cToken := None\<rparr>)" "unread (r\<lparr>cToken := None\<rparr>) = unread r" "short_end (r\<lparr>cToken := None\<rparr>) = short_end r"
    using assms(1) by (simp_all add: reader_ok_def unread_def short_end_def)
  then show ?thesis
    using token_loop_scan [of "r\<lparr>cToken := None\<rparr>" "[]" False] assms(2)
    by (fastforce simp: nextConfigToken_def getCurrentConfigToken_def split: option.splits prod.splits if_splits)
qed

text \<open>The text \<open>disabled\<close> with its newline at the end of a short file.\<close>

definition last_line :: reader where
  "last_line = \<lparr>cr_file = ''disabled'' @ [CHR 0x0A], iBuffer = [], bufPtr = 0, cToken = None\<rparr>"

theorem nextConfigToken_exact_witness:
  "\<exists>r'. nextConfigToken last_line = ret (None, r') \<and> scan (unread last_line) [] False = Some (''disabled'', [])"
proof -
  have "reader_ok last_line" "CHR 0x00 \<notin> set (unread last_line)" "short_end last_line" "scan (unread last_line) [] False = Some (''disabled'', [])"
    by (simp_all add: last_line_def reader_ok_def unread_def short_end_def READ_BUFFER_SIZE_def read_char_def ends_token_def MAX_TOKEN_LENGTH_def)
  then show ?thesis using nextConfigToken_exact [of last_line] by auto
qed

section \<open>Null characters\<close>

definition stuck :: "string \<Rightarrow> bool \<Rightarrow> reader \<Rightarrow> bool" where
  "stuck tok c r \<longleftrightarrow> reader_ok r \<and> (\<exists>a b. unread r = a @ CHR 0x00 # b \<and> CHR 0x00 \<notin> set a \<and> scan a tok c = None)"

lemma stuck_goes_on:
  assumes "stuck tok c r"
  shows "\<exists>n tok' c'. iBuffer (refill r) \<noteq> [] \<and> char_loop (drop (bufPtr (refill r)) (iBuffer (refill r))) tok c = (n, tok', c', False)
    \<and> \<not> (length (iBuffer (refill r)) < READ_BUFFER_SIZE \<and> bufPtr (refill r) + n = length (iBuffer (refill r)))
    \<and> stuck tok' c' ((refill r)\<lparr>bufPtr := bufPtr (refill r) + n\<rparr>)"
proof -
  obtain a b where r: "reader_ok r" "unread r = a @ CHR 0x00 # b" "CHR 0x00 \<notin> set a" "scan a tok c = None" using assms by (auto simp: stuck_def)
  let ?r = "refill r"
  note ok = refill_ok [OF r(1)]
  have ne: "iBuffer ?r \<noteq> []" using ok(3) r(2) by auto
  let ?b = "drop (bufPtr ?r) (iBuffer ?r)"
  have u: "?b @ cr_file ?r = a @ CHR 0x00 # b" using ok(2) r(2) by (simp add: unread_def)
  have moved: "reader_ok (?r\<lparr>bufPtr := bufPtr ?r + n\<rparr>)" "unread (?r\<lparr>bufPtr := bufPtr ?r + n\<rparr>) = drop n ?b @ cr_file ?r" if "n \<le> length ?b" for n
    using ok(1) that by (auto simp: reader_ok_def unread_def add.commute)
  show ?thesis
  proof (cases "length ?b \<le> length a")
    case True
    then obtain a' where a': "a = ?b @ a'" "cr_file ?r = a' @ CHR 0x00 # b" using u by (auto simp: append_eq_append_conv_if) (metis append_take_drop_id)
    obtain n tok' c' fin where l: "char_loop ?b tok c = (n, tok', c', fin)" by (metis prod_cases4)
    have "CHR 0x00 \<notin> set ?b" using r(3) a'(1) by (metis Un_iff set_append)
    then have n: "\<not> fin" "n = length ?b" "scan a' tok' c' = None"
      using char_loop_scan [where f = a' and tok = tok and c = c and b = ?b] l r(4) a'(1) by (auto split: if_splits)
    have "length (iBuffer ?r) = READ_BUFFER_SIZE" using ok(1) a'(2) ne by (auto simp: reader_ok_def)
    moreover have "stuck tok' c' (?r\<lparr>bufPtr := bufPtr ?r + n\<rparr>)"
    proof -
      have "unread (?r\<lparr>bufPtr := bufPtr ?r + n\<rparr>) = a' @ CHR 0x00 # b" "CHR 0x00 \<notin> set a'" using moved(2) [of n] n(2) a' r(3) by auto
      then show ?thesis unfolding stuck_def using moved(1) [of n] n(2,3) by blast
    qed
    ultimately show ?thesis using ne l n(1) by auto
  next
    case False
    then obtain b' where b': "?b = a @ CHR 0x00 # b'" "b = b' @ cr_file ?r"
    proof -
      obtain us where us: "?b = a @ us" "us @ cr_file ?r = CHR 0x00 # b"
        using u False by (auto simp: append_eq_append_conv2)
      then have "us \<noteq> []" using False by auto
      then show ?thesis using us that by (cases us) auto
    qed
    obtain n tok' c' fin where l: "char_loop a tok c = (n, tok', c', fin)" by (metis prod_cases4)
    have n: "\<not> fin" "n = length a" "scan [] tok' c' = None"
      using char_loop_scan [where f = "[]" and tok = tok and c = c, OF r(3)] l r(4) by (auto split: if_splits)
    have "length ?b > n" using b'(1) n(2) by simp
    then have "bufPtr ?r + n < length (iBuffer ?r)" by simp
    moreover have "stuck tok' c' (?r\<lparr>bufPtr := bufPtr ?r + n\<rparr>)"
    proof -
      have "unread (?r\<lparr>bufPtr := bufPtr ?r + n\<rparr>) = [] @ CHR 0x00 # b" "CHR 0x00 \<notin> set []" using moved(2) [of n] n(2) b' by auto
      moreover have "n \<le> length ?b" using n(2) b'(1) by simp
      ultimately show ?thesis unfolding stuck_def using moved(1) [of n] n(3) by blast
    qed
    moreover have "char_loop ?b tok c = (n, tok', c', False)" using l n(1) char_loop_null [OF r(3)] b'(1) by simp
    ultimately show ?thesis using ne by auto
  qed
qed

lemma stuck_hangs: "stuck tok c r \<Longrightarrow> token_loop tok c r = None"
proof (cases "token_loop tok c r")
  case (Some y)
  have "\<not> stuck tok c r"
  proof (induction tok c r y rule: token_loop.raw_induct)
    case (1 f tok c r y)
    show ?case
    proof
      assume "stuck tok c r"
      then obtain n tok' c' where s: "iBuffer (refill r) \<noteq> []" "char_loop (drop (bufPtr (refill r)) (iBuffer (refill r))) tok c = (n, tok', c', False)"
        "\<not> (length (iBuffer (refill r)) < READ_BUFFER_SIZE \<and> bufPtr (refill r) + n = length (iBuffer (refill r)))"
        "stuck tok' c' ((refill r)\<lparr>bufPtr := bufPtr (refill r) + n\<rparr>)" using stuck_goes_on by blast
      have "f tok' c' ((refill r)\<lparr>bufPtr := bufPtr (refill r) + n\<rparr>) = Some y"
        using 1(2) s(1-3) unfolding refill_def [symmetric] by (auto simp: Let_def split: if_splits)
      then show False using 1(1) s(4) by blast
    qed
  qed (rule Some)
  then show "stuck tok c r \<Longrightarrow> ?thesis" by simp
qed simp

text \<open>A null character in the configuration file stops the program from ever starting: when no token ends in the text before it, the reader
  never returns.\<close>

lemma nextConfigToken_hangs_on_null:
  assumes "reader_ok r" "unread r = a @ CHR 0x00 # b" "CHR 0x00 \<notin> set a" "scan a [] False = None"
  shows "nextConfigToken r = None"
proof -
  have "stuck [] False (r\<lparr>cToken := None\<rparr>)"
    using assms by (auto simp: stuck_def reader_ok_def unread_def)
  then show ?thesis unfolding nextConfigToken_def by (rule stuck_hangs)
qed

lemma nextConfigToken_hangs_on_null_witness:
  "nextConfigToken \<lparr>cr_file = ''phy'' @ [CHR 0x00], iBuffer = [], bufPtr = 0, cToken = None\<rparr> = None"
  by (rule nextConfigToken_hangs_on_null [where a = "''phy''" and b = "[]"])
    (simp_all add: reader_ok_def unread_def read_char_def ends_token_def MAX_TOKEN_LENGTH_def)

end
