(* ===== verification/RouteInv.thy ===== *)
theory RouteInv
  imports RouteTab
begin

text \<open>
  What the operations on the routing table of the multicast proxy keep and do. \<open>linked h p ks n\<close> says that the list of
  addresses \<open>ks\<close> is linked in both directions in the heap \<open>h\<close>, between \<open>p\<close> and \<open>n\<close>; \<open>route_list\<close> that a list is the content
  of the table, in the order of the groups, and that no other route is allocated.
\<close>

section \<open>Doubly linked lists\<close>

fun first_of :: "nat list \<Rightarrow> nat option \<Rightarrow> nat option" where
  "first_of [] n = n"
| "first_of (k # ks) n = Some k"

definition last_of :: "nat option \<Rightarrow> nat list \<Rightarrow> nat option" where
  "last_of p ks = (if ks = [] then p else Some (List.last ks))"

lemma last_of_simps [simp]: "last_of p [] = p" "last_of p (k # ks) = last_of (Some k) ks" "last_of p (ks @ [k]) = Some k"
  by (simp_all add: last_of_def)

lemma first_of_append [simp]: "first_of (xs @ ys) n = first_of xs (first_of ys n)"
  by (cases xs) simp_all

fun linked :: "(nat \<Rightarrow> RouteTable option) \<Rightarrow> nat option \<Rightarrow> nat list \<Rightarrow> nat option \<Rightarrow> bool" where
  "linked h p [] n \<longleftrightarrow> True"
| "linked h p (k # ks) n \<longleftrightarrow> (\<exists>r. h k = Some r \<and> prevroute r = p \<and> nextroute r = first_of ks n \<and> linked h (Some k) ks n)"

lemma linked_append: "linked h p (xs @ ys) n \<longleftrightarrow> linked h p xs (first_of ys n) \<and> linked h (last_of p xs) ys n"
  by (induction xs arbitrary: p) auto

text \<open>The links of a route; everything else is its payload.\<close>

definition links :: "RouteTable \<Rightarrow> nat option \<times> nat option" where
  "links r = (prevroute r, nextroute r)"

definition payload :: "RouteTable \<Rightarrow> RouteTable" where
  "payload r = r\<lparr>nextroute := None, prevroute := None\<rparr>"

lemma payload_simps [simp]:
  "rt_group (payload r) = rt_group r" "originAddr (payload r) = originAddr r" "vifBits (payload r) = vifBits r"
  "upstrState (payload r) = upstrState r" "ageVifBits (payload r) = ageVifBits r" "ageValue (payload r) = ageValue r"
  "ageActivity (payload r) = ageActivity r" "payload (r\<lparr>nextroute := x\<rparr>) = payload r" "payload (r\<lparr>prevroute := x\<rparr>) = payload r"
  "payload (payload r) = payload r"
  by (simp_all add: payload_def)

lemma payload_eq_group: "payload r = payload s \<Longrightarrow> rt_group r = rt_group s"
  by (metis payload_simps(1))

lemma linked_cong: "(\<And>k. k \<in> set ks \<Longrightarrow> map_option links (h' k) = map_option links (h k)) \<Longrightarrow> linked h' p ks n = linked h p ks n"
proof (induction ks arbitrary: p)
  case (Cons k ks)
  have "map_option links (h' k) = map_option links (h k)" using Cons.prems by simp
  then have "(\<exists>r. h' k = Some r \<and> prevroute r = p \<and> nextroute r = first_of ks n) = (\<exists>r. h k = Some r \<and> prevroute r = p \<and> nextroute r = first_of ks n)"
    by (cases "h k"; cases "h' k") (auto simp: links_def)
  then show ?case using Cons by auto
qed simp

lemma linked_frame [simp]: "k \<notin> set ks \<Longrightarrow> linked (h(k := x)) p ks n = linked h p ks n"
  by (rule linked_cong) auto

lemma linked_in: "linked h p ks n \<Longrightarrow> k \<in> set ks \<Longrightarrow> \<exists>r. h k = Some r"
  by (induction ks arbitrary: p) auto

lemma linked_at:
  "linked h p (xs @ k # ys) n \<Longrightarrow> h k = Some r \<Longrightarrow> prevroute r = last_of p xs \<and> nextroute r = first_of ys n"
  by (auto simp: linked_append)

lemma linked_set_prev:
  "linked h p (k # ks) n \<Longrightarrow> k \<notin> set ks \<Longrightarrow> h k = Some r \<Longrightarrow> linked (h(k \<mapsto> r\<lparr>prevroute := q\<rparr>)) q (k # ks) n"
  by simp

lemma linked_set_next:
  "linked h p (ks @ [k]) n \<Longrightarrow> k \<notin> set ks \<Longrightarrow> h k = Some r \<Longrightarrow> linked (h(k \<mapsto> r\<lparr>nextroute := m\<rparr>)) p (ks @ [k]) m"
  by (simp add: linked_append)

section \<open>The table\<close>

definition group_at :: "proxy \<Rightarrow> nat \<Rightarrow> u32" where
  "group_at w k = (case routes w k of None \<Rightarrow> 0 | Some r \<Rightarrow> rt_group r)"

lemma group_at_simp [simp]: "routes w k = Some r \<Longrightarrow> group_at w k = rt_group r"
  by (simp add: group_at_def)

definition route_list :: "proxy \<Rightarrow> nat list \<Rightarrow> bool" where
  "route_list w ks \<longleftrightarrow> routing_table w = first_of ks None \<and> linked (routes w) None ks None \<and> distinct ks \<and> set ks = dom (routes w)
     \<and> sorted_wrt (<) (map (group_at w) ks)"

text \<open>An interface that is not used keeps the index -1, and a shift by it is one by 31: the last bit of a route stands for no interface.\<close>

definition bits_ok :: "RouteTable \<Rightarrow> bool" where
  "bits_ok r \<longleftrightarrow> \<not> bit (vifBits r) 31 \<and> \<not> bit (ageVifBits r) 31"

lemma bits_ok_payload [simp]: "bits_ok (payload r) = bits_ok r"
  by (simp add: bits_ok_def)

definition table_ok :: "proxy \<Rightarrow> bool" where
  "table_ok w \<longleftrightarrow> (\<exists>ks. route_list w ks)
     \<and> (\<forall>k r. routes w k = Some r \<longrightarrow> k < next_route_addr w \<and> IN_MULTICAST (ntohl (rt_group r)) \<and> bits_ok r)"

lemma table_ok_bits: "table_ok w \<Longrightarrow> routes w k = Some r \<Longrightarrow> bits_ok r"
  by (simp add: table_ok_def)

lemma route_list_cong:
  assumes "routing_table w' = routing_table w" "\<And>k. map_option links (routes w' k) = map_option links (routes w k)"
    "\<And>k. group_at w' k = group_at w k"
  shows "route_list w' ks = route_list w ks"
proof -
  have "linked (routes w') None ks None = linked (routes w) None ks None" by (rule linked_cong) (rule assms(2))
  moreover have "dom (routes w') = dom (routes w)" using assms(2) by (metis (no_types, lifting) domIff map_option_is_None subsetI subset_antisym)
  moreover have "group_at w' = group_at w" using assms(3) by (rule ext)
  ultimately show ?thesis unfolding route_list_def assms(1) by simp
qed

text \<open>A strictly ascending list finds every group at most once.\<close>

lemma route_list_unique:
  assumes "route_list w ks" "j \<in> set ks" "k \<in> set ks" "group_at w j = group_at w k"
  shows "j = k"
proof -
  have "distinct (map (group_at w) ks)" using assms(1) by (simp add: route_list_def strict_sorted_iff)
  then show ?thesis using assms(2-4) by (simp add: distinct_map inj_on_def)
qed

section \<open>The walks\<close>

lemma route_walk_find:
  assumes "linked (routes w) p ks None"
  shows "route_walk gr (first_of ks None) w = ret (find (\<lambda>k. group_at w k = gr) ks)"
  using assms
proof (induction ks arbitrary: p)
  case Nil
  show ?case by (subst route_walk.simps) simp
next
  case (Cons k ks)
  then show ?case by (subst route_walk.simps) (auto simp: get_route_def group_at_def)
qed

lemma findRoute_find: "route_list w ks \<Longrightarrow> findRoute gr w = ret (find (\<lambda>k. group_at w k = gr) ks)"
  unfolding findRoute_def route_list_def by (metis route_walk_find)

lemma findRoute_None: "route_list w ks \<Longrightarrow> findRoute gr w = ret None \<longleftrightarrow> (\<forall>k \<in> dom (routes w). group_at w k \<noteq> gr)"
  unfolding findRoute_find by (simp add: find_None_iff route_list_def Ball_def)

lemma findRoute_Some:
  assumes "route_list w ks"
  shows "findRoute gr w = ret (Some k) \<longleftrightarrow> (\<exists>r. routes w k = Some r \<and> rt_group r = gr)"
proof
  assume "findRoute gr w = ret (Some k)"
  then have "k \<in> set ks" "group_at w k = gr"
    using assms by (auto simp: findRoute_find find_Some_iff)
  then show "\<exists>r. routes w k = Some r \<and> rt_group r = gr" using assms by (auto simp: route_list_def dom_def)
next
  assume "\<exists>r. routes w k = Some r \<and> rt_group r = gr"
  then have k: "k \<in> set ks" "group_at w k = gr" using assms by (auto simp: route_list_def)
  obtain j where j: "find (\<lambda>k. group_at w k = gr) ks = Some j" using k by (metis (mono_tags) find_None_iff not_Some_eq)
  then have "j \<in> set ks" "group_at w j = gr" by (auto simp: find_Some_iff)
  then have "j = k" using route_list_unique [OF assms] k by simp
  then show "findRoute gr w = ret (Some k)" using j assms by (simp add: findRoute_find)
qed

lemma findRoute_cases:
  assumes "route_list w ks"
  obtains "findRoute gr w = ret None" "\<And>k r. routes w k = Some r \<Longrightarrow> rt_group r \<noteq> gr"
  | k r where "findRoute gr w = ret (Some k)" "routes w k = Some r" "rt_group r = gr"
proof (cases "find (\<lambda>k. group_at w k = gr) ks")
  case None
  then have "findRoute gr w = ret None" using findRoute_find [OF assms] by simp
  moreover have "\<And>k r. routes w k = Some r \<Longrightarrow> rt_group r \<noteq> gr" using calculation findRoute_None [OF assms] by force
  ultimately show ?thesis using that(1) by blast
next
  case (Some k)
  then have "findRoute gr w = ret (Some k)" using findRoute_find [OF assms] by simp
  then show ?thesis using that(2) findRoute_Some [OF assms] by blast
qed


section \<open>Linking and unlinking\<close>

lemma upd_route_ret [simp]: "routes w k = Some r \<Longrightarrow> upd_route k f w = ret (w\<lparr>routes := (routes w)(k \<mapsto> f r)\<rparr>)"
  by (simp add: upd_route_def get_route_def)

lemma get_route_ret [simp]: "routes w k = Some r \<Longrightarrow> get_route k w = ret r"
  by (simp add: get_route_def)

lemma place_walk_spec:
  assumes "linked (routes w) p (k # ks) None"
  shows "place_walk gr k w = ret (List.last (k # takeWhile (\<lambda>j. group_at w j \<le> gr) ks))"
  using assms
proof (induction ks arbitrary: k p)
  case Nil
  then show ?case by (subst place_walk.simps) auto
next
  case (Cons j ks)
  obtain r x where r: "routes w k = Some r" "nextroute r = Some j" "routes w j = Some x" "linked (routes w) (Some k) (j # ks) None"
    using Cons.prems by auto
  then show ?case
    using Cons.IH [OF r(4)] by (subst place_walk.simps) (auto simp: not_less)
qed

text \<open>The payloads of two heaps agree.\<close>

definition same_payloads :: "(nat \<Rightarrow> RouteTable option) \<Rightarrow> (nat \<Rightarrow> RouteTable option) \<Rightarrow> bool" where
  "same_payloads h h' \<longleftrightarrow> (\<forall>k. map_option payload (h' k) = map_option payload (h k))"

lemma same_payloads_refl [simp]: "same_payloads h h"
  by (simp add: same_payloads_def)

lemma same_payloads_upd: "same_payloads h h' \<Longrightarrow> h' k = Some r \<Longrightarrow> payload (f r) = payload r \<Longrightarrow> same_payloads h (h'(k \<mapsto> f r))"
  by (auto simp: same_payloads_def) (metis option.map(2))

lemma same_payloads_dom: "same_payloads h h' \<Longrightarrow> dom h' = dom h"
  by (auto simp: same_payloads_def dom_def) (metis map_option_is_None not_None_eq)+

lemma same_payloads_group: "same_payloads (routes w) h' \<Longrightarrow> group_at (w\<lparr>routes := h'\<rparr>) = group_at w"
proof (rule ext)
  fix k
  assume "same_payloads (routes w) h'"
  then have "map_option payload (h' k) = map_option payload (routes w k)" by (simp add: same_payloads_def)
  then show "group_at (w\<lparr>routes := h'\<rparr>) k = group_at w k"
    by (cases "h' k"; cases "routes w k") (auto simp: group_at_def dest: payload_eq_group)
qed

lemma insert_linked:
  assumes "linked h None (zs @ p # ys) None" "distinct (k # zs @ p # ys)" "h k = Some r" "h p = Some rp"
    "h1 = h(k \<mapsto> r\<lparr>nextroute := first_of ys None, prevroute := Some p\<rparr>)"
    "h2 = (case ys of [] \<Rightarrow> h1 | y # _ \<Rightarrow> h1(y \<mapsto> (the (h y))\<lparr>prevroute := Some k\<rparr>))"
  shows "linked (h2(p \<mapsto> rp\<lparr>nextroute := Some k\<rparr>)) None (zs @ p # k # ys) None"
  using assms by (cases ys) (auto simp: linked_append)

lemma link_route_spec:
  assumes "linked (routes w) None ks None" "routing_table w = first_of ks None" "distinct (k # ks)"
    and "routes w k = Some r" "links r = (None, None)" "sorted_wrt (<) (map (group_at w) ks)" "\<forall>j \<in> set ks. group_at w j \<noteq> gr"
    and xs: "xs = takeWhile (\<lambda>j. group_at w j \<le> gr) ks" and ys: "ys = dropWhile (\<lambda>j. group_at w j \<le> gr) ks"
  shows "\<exists>h'. link_route k gr w = ret (w\<lparr>routes := h', routing_table := first_of (xs @ k # ys) None\<rparr>)
    \<and> linked h' None (xs @ k # ys) None \<and> same_payloads (routes w) h'"
proof -
  have ks: "ks = xs @ ys" by (simp add: xs ys)
  consider (empty) "ks = []" | (front) y ys' where "xs = []" "ys = y # ys'" "ks = y # ys'" | (inside) zs p where "xs = zs @ [p]"
    by (metis append_Nil ks list.exhaust rev_exhaust)
  then show ?thesis
  proof cases
    case empty
    then show ?thesis using assms(2,4,5) ks by (auto simp: link_route_def links_def intro!: exI [of _ "routes w"])
  next
    case front
    then have "takeWhile (\<lambda>j. group_at w j \<le> gr) (y # ys') = []" using xs by simp
    then have y: "gr < group_at w y" by (simp split: if_splits)
    obtain ry where ry: "routes w y = Some ry" "prevroute ry = None" "nextroute ry = first_of ys' None" "linked (routes w) (Some y) ys' None"
      using assms(1) front by auto
    have yk: "y \<noteq> k" "k \<notin> set ys'" "y \<notin> set ys'" using assms(3) front by auto
    let ?h = "(routes w)(k \<mapsto> r\<lparr>nextroute := Some y, prevroute := None\<rparr>, y \<mapsto> ry\<lparr>prevroute := Some k\<rparr>)"
    have "link_route k gr w = ret (w\<lparr>routes := ?h, routing_table := Some k\<rparr>)"
      using assms(2,4) front y ry yk by (simp add: link_route_def)
    moreover have "linked ?h None (k # ys) None" using front ry yk by simp
    moreover have "same_payloads (routes w) ?h" using assms(4) ry yk by (auto simp: same_payloads_def)
    ultimately show ?thesis using front by auto
  next
    case inside
    obtain f fs where f: "routing_table w = Some f" "f \<in> set xs" "ks = f # fs"
      using inside ks assms(2) by (cases zs) auto
    obtain rf where rf: "routes w f = Some rf" using f assms(1) ks linked_in [OF assms(1), of f] by auto
    have "\<forall>j \<in> set xs. group_at w j \<le> gr" unfolding xs by (auto dest: set_takeWhileD)
    then have "\<not> rt_group rf > gr" using f(2) rf by auto
    moreover have "place_walk gr f w = ret p"
    proof -
      have "f # takeWhile (\<lambda>j. group_at w j \<le> gr) fs = xs"
        using \<open>\<not> rt_group rf > gr\<close> rf unfolding xs f(3) by simp
      then show ?thesis using place_walk_spec [of w None f fs gr] f(3) assms(1) inside by simp
    qed
    moreover obtain rp where rp: "routes w p = Some rp" "nextroute rp = first_of ys None"
      using assms(1) linked_in [OF assms(1), of p] linked_at [of "routes w" None zs p ys None] ks inside by auto
    moreover have np: "p \<noteq> k" using assms(3) ks inside by auto
    moreover have "linked (routes w) None (zs @ p # ys) None" "distinct (k # zs @ p # ys)" using assms(1,3) ks inside by auto
    note ins = insert_linked [OF this assms(4) rp(1) refl refl]
    show ?thesis
    proof (cases ys)
      case Nil
      let ?h = "(routes w)(k \<mapsto> r\<lparr>nextroute := None, prevroute := Some p\<rparr>, p \<mapsto> rp\<lparr>nextroute := Some k\<rparr>)"
      have "link_route k gr w = ret (w\<lparr>routes := ?h, routing_table := Some f\<rparr>)"
        using f(1) rf \<open>\<not> rt_group rf > gr\<close> \<open>place_walk gr f w = ret p\<close> rp np assms(4) Nil
        by (simp add: link_route_def upd_link_def)
      moreover have "same_payloads (routes w) ?h" using assms(4) rp np by (auto simp: same_payloads_def)
      moreover have "first_of (xs @ k # ys) None = Some f" using f(1) assms(2) ks inside by (cases zs) auto
      ultimately show ?thesis using ins inside Nil by auto
    next
      case (Cons y ys')
      obtain ry where ry: "routes w y = Some ry" using linked_in [OF assms(1), of y] ks Cons by auto
      have ny: "y \<noteq> k" "y \<noteq> p" using assms(3) ks inside Cons by auto
      let ?h = "(routes w)(k \<mapsto> r\<lparr>nextroute := Some y, prevroute := Some p\<rparr>, y \<mapsto> ry\<lparr>prevroute := Some k\<rparr>, p \<mapsto> rp\<lparr>nextroute := Some k\<rparr>)"
      have "link_route k gr w = ret (w\<lparr>routes := ?h, routing_table := Some f\<rparr>)"
        using f(1) rf \<open>\<not> rt_group rf > gr\<close> \<open>place_walk gr f w = ret p\<close> rp np assms(4) Cons ry ny
        by (simp add: link_route_def upd_link_def)
      moreover have "same_payloads (routes w) ?h" using assms(4) rp np ry ny by (auto simp: same_payloads_def)
      moreover have "first_of (xs @ k # ys) None = Some f" using f(1) assms(2) ks inside by (cases zs) auto
      ultimately show ?thesis using ins inside Cons ry by auto
    qed
  qed
qed


section \<open>What the kernel gets\<close>

lemma getMcGroupSock_yields:
  "yields (getMcGroupSock e w) (\<lambda>(s, w'). \<exists>cs. w' = w\<lparr>calls := calls w @ cs, mcGroupSock := s\<rparr> \<and> commands_of cs = [])"
proof (cases "mcGroupSock w = 0")
  case True
  then show ?thesis
    by (auto simp: getMcGroupSock_def openUdpSocket_def do_call_def must_call_def yields_map yields_bind
      intro!: exI [of _ "[UdpSocket, UdpConnect _]"])
next
  case False
  then show ?thesis by (auto simp: getMcGroupSock_def intro!: exI [of _ "[]"])
qed

text \<open>What joining or leaving does to a route and which commands it runs.\<close>

definition upstr_after :: "bool \<Rightarrow> proxy \<Rightarrow> RouteTable \<Rightarrow> RouteTable" where
  "upstr_after join w r =
     (if getIfByIx (upStreamVif w) w = None then r
      else if join then (if vifBits r > 0 then r\<lparr>upstrState := ROUTESTATE_JOINED\<rparr> else r)
      else r\<lparr>upstrState := ROUTESTATE_NOTJOINED\<rparr>)"

definition send_cmds :: "bool \<Rightarrow> proxy \<Rightarrow> RouteTable \<Rightarrow> string list" where
  "send_cmds join w r =
     (case getIfByIx (upStreamVif w) w of None \<Rightarrow> []
      | Some d \<Rightarrow>
          if join then (if vifBits r > 0 then [iptables_cmd ''-I'' (if_Name d) (rt_group r)] else [])
          else if upstrState r \<noteq> ROUTESTATE_NOTJOINED then [iptables_cmd ''-D'' (if_Name d) (rt_group r)] else [])"

definition kernel_step :: "proxy \<Rightarrow> string list \<Rightarrow> (nat \<Rightarrow> RouteTable option) \<Rightarrow> proxy \<Rightarrow> bool" where
  "kernel_step w cmds h w' \<longleftrightarrow> (\<exists>cs s. w' = w\<lparr>calls := calls w @ cs, mcGroupSock := s, routes := h\<rparr> \<and> commands_of cs = cmds)"

lemma kernel_step_refl: "kernel_step w [] (routes w) w"
  unfolding kernel_step_def by (intro exI [of _ "[]"] exI [of _ "mcGroupSock w"]) simp

lemma kernel_step_trans:
  "kernel_step u a h v \<Longrightarrow> kernel_step v b h' w \<Longrightarrow> kernel_step u (a @ b) h' w"
  unfolding kernel_step_def by (elim exE conjE, hypsubst) (auto intro!: exI)

lemma kernel_stepD:
  assumes "kernel_step w cmds h w'"
  shows "routes w' = h" "routing_table w' = routing_table w" "next_route_addr w' = next_route_addr w" "IfDescVc w' = IfDescVc w"
    "upStreamVif w' = upStreamVif w" "commonConfig w' = commonConfig w" "commands_of (calls w') = commands_of (calls w) @ cmds"
    "callout_queue w' = callout_queue w" "gvdescs w' = gvdescs w" "next_gvdesc w' = next_gvdesc w" "send_buf w' = send_buf w"
    "curttl w' = curttl w" "snooping_enabled w' = snooping_enabled w" "callout_id w' = callout_id w"
    "groups w' = groups w" "group_list w' = group_list w" "members w' = members w"
    "next_group_addr w' = next_group_addr w" "next_member_addr w' = next_member_addr w"
  using assms by (auto simp: kernel_step_def)

lemma kernel_step_if: "kernel_step w cmds h w' \<Longrightarrow> getIfByIx i w' = getIfByIx i w"
  by (auto simp: kernel_step_def getIfByIx_def)

lemma run_command_yields: "yields (run_command e cmd w) (\<lambda>w'. kernel_step w [cmd] (routes w) w')"
  unfolding run_command_def kernel_step_def
  by (auto intro!: exI [of _ "[Command cmd]"] exI [of _ "mcGroupSock w"])

lemma sent:
  assumes "kernel_step (u\<lparr>routes := h\<rparr>) [cmd] h w'" "u = v\<lparr>calls := calls v @ [c]\<rparr>" "\<And>s. c \<noteq> Command s"
    "v = w\<lparr>calls := calls w @ cs, mcGroupSock := s\<rparr>" "commands_of cs = []"
  shows "kernel_step w [cmd] h w'"
proof -
  have "commands_of [c] = []" using assms(3) by (cases c) auto
  then have "kernel_step w [] h (u\<lparr>routes := h\<rparr>)"
    unfolding kernel_step_def assms(2,4) using assms(5) by (intro exI [of _ "cs @ [c]"] exI [of _ s]) simp
  then show ?thesis using kernel_step_trans [of w "[]" h _ "[cmd]" h w'] assms(1) by simp
qed

lemma send_body:
  assumes r: "routes w k = Some r" and f: "\<And>s v. snd (f s v) = v\<lparr>calls := calls v @ [c s]\<rparr>" "\<And>s t. c s \<noteq> Command t"
  shows "yields (run_bind (getMcGroupSock e w) (\<lambda>(s, w). run_bind (upd_route k g (snd (f s w))) (run_command e cmd)))
    (kernel_step w [cmd] ((routes w)(k \<mapsto> g r)))"
proof (rule yields_then [OF getMcGroupSock_yields])
  fix p
  assume "case p of (s, w') \<Rightarrow> \<exists>cs. w' = w\<lparr>calls := calls w @ cs, mcGroupSock := s\<rparr> \<and> commands_of cs = []"
  then obtain s w' cs where p: "p = (s, w')" "w' = w\<lparr>calls := calls w @ cs, mcGroupSock := s\<rparr>" "commands_of cs = []" by (cases p) auto
  have "routes (snd (f s w')) = routes w" using f(1) p(2) by simp
  then have "run_bind (upd_route k g (snd (f s w'))) (run_command e cmd) = run_command e cmd ((snd (f s w'))\<lparr>routes := (routes w)(k \<mapsto> g r)\<rparr>)"
    using r by simp
  moreover have "yields (run_command e cmd ((snd (f s w'))\<lparr>routes := (routes w)(k \<mapsto> g r)\<rparr>)) (kernel_step w [cmd] ((routes w)(k \<mapsto> g r)))"
    by (rule yields_mono [OF run_command_yields]) (rule sent [OF _ f(1) f(2) p(2,3)], simp)
  ultimately show "yields (case p of (s, w) \<Rightarrow> run_bind (upd_route k g (snd (f s w))) (run_command e cmd)) (kernel_step w [cmd] ((routes w)(k \<mapsto> g r)))"
    using p(1) by simp
qed

lemma joinMcGroup_call: "snd (joinMcGroup e s d g v) = v\<lparr>calls := calls v @ [AddMembership s g (InAdr d)]\<rparr>"
  by (simp add: joinMcGroup_def do_call_def)

lemma leaveMcGroup_call: "snd (leaveMcGroup e s d g v) = v\<lparr>calls := calls v @ [DropMembership s g (InAdr d)]\<rparr>"
  by (simp add: leaveMcGroup_def do_call_def)

lemma send_yields:
  assumes r: "routes w k = Some r"
  shows "yields (sendJoinLeaveUpstream e k join w) (kernel_step w (send_cmds join w r) ((routes w)(k \<mapsto> upstr_after join w r)))"
proof -
  have same: "(routes w)(k \<mapsto> r) = routes w" using r by auto
  have leave: "(routes w)(k \<mapsto> r\<lparr>upstrState := ROUTESTATE_NOTJOINED\<rparr>) = routes w" if "upstrState r = ROUTESTATE_NOTJOINED"
    using that same by (cases r) auto
  have up: "yields (run_bind (getMcGroupSock e w) (\<lambda>(s, w). run_bind (upd_route k g (snd (joinMcGroup e s d x w))) (run_command e cmd)))
      (kernel_step w [cmd] ((routes w)(k \<mapsto> g r)))"
    "yields (run_bind (getMcGroupSock e w) (\<lambda>(s, w). run_bind (upd_route k g (snd (leaveMcGroup e s d x w))) (run_command e cmd)))
      (kernel_step w [cmd] ((routes w)(k \<mapsto> g r)))" for d x g cmd
    by (rule send_body [OF r joinMcGroup_call], simp) (rule send_body [OF r leaveMcGroup_call], simp)
  show ?thesis
  proof (cases "getIfByIx (upStreamVif w) w")
    case None
    then show ?thesis using same kernel_step_refl [of w] by (simp add: sendJoinLeaveUpstream_def send_cmds_def upstr_after_def)
  next
    case (Some d)
    show ?thesis
    proof (cases join)
      case True
      then show ?thesis using Some same kernel_step_refl [of w] r up(1) [of "\<lambda>r. r\<lparr>upstrState := ROUTESTATE_JOINED\<rparr>"]
        by (simp add: sendJoinLeaveUpstream_def send_cmds_def upstr_after_def)
    next
      case False
      then show ?thesis using Some same kernel_step_refl [of w] r up(2) [of "\<lambda>r. r\<lparr>upstrState := ROUTESTATE_NOTJOINED\<rparr>"]
        by (cases "upstrState r = ROUTESTATE_NOTJOINED") (simp_all add: leave sendJoinLeaveUpstream_def send_cmds_def upstr_after_def)
    qed
  qed
qed


section \<open>When the operations return\<close>

text \<open>What the properties need of the system and of the interfaces: the sockets open and the allocator gives memory; names fit into the
  structures of the kernel, and the index of an interface is its virtual one, or -1 when it has none.\<close>

definition kernel_ok :: "penv \<Rightarrow> bool" where
  "kernel_ok e \<longleftrightarrow> (\<forall>cs. answer e cs UdpSocket \<ge> 0) \<and> (\<forall>cs s. answer e cs (UdpConnect s) = 0) \<and> (\<forall>n. p_alloc e n)"

definition ifs_ok :: "IfDesc list \<Rightarrow> bool" where
  "ifs_ok ds \<longleftrightarrow> (\<forall>d \<in> set ds. length (if_Name d) < 16 \<and> (unat (if_index d) < MAX_MC_VIFS - 1 \<or> if_index d = - 1))"

lemma returns_both: "returns m (\<lambda>x. True) \<Longrightarrow> yields m P \<Longrightarrow> returns m P"
  by (auto simp: returns_def yields_def)

lemma returns_thenI: "returns m P \<Longrightarrow> (\<And>x. P x \<Longrightarrow> returns (f x) Q) \<Longrightarrow> returns (run_bind m f) Q"
  by (auto simp: returns_def)

lemma iptables_cmd_fits: "length opt = 2 \<Longrightarrow> length name < 16 \<Longrightarrow> length (iptables_cmd opt name gr) < 200"
  using inetFmt_length [of gr] by (simp add: iptables_cmd_def)

lemma getIfByIx_in: "getIfByIx i w = Some d \<Longrightarrow> d \<in> set (IfDescVc w)"
  by (auto simp: getIfByIx_def split: if_splits)

lemma getMcGroupSock_returns: "kernel_ok e \<Longrightarrow> returns (getMcGroupSock e w) (\<lambda>(s, w'). routes w' = routes w)"
  by (auto simp: getMcGroupSock_def openUdpSocket_def do_call_def must_call_def kernel_ok_def not_less [symmetric])

lemma send_returns:
  assumes "kernel_ok e" "ifs_ok (IfDescVc w)" "routes w k = Some r"
  shows "returns (sendJoinLeaveUpstream e k join w) (kernel_step w (send_cmds join w r) ((routes w)(k \<mapsto> upstr_after join w r)))"
proof (rule returns_both [OF _ send_yields [OF assms(3)]])
  have cmd: "run_command e (iptables_cmd opt (if_Name d) gr) v = ret (try_call e (Command (iptables_cmd opt (if_Name d) gr)) v)"
    if "getIfByIx (upStreamVif w) w = Some d" "length opt = 2" for d opt gr v
    using that getIfByIx_in assms(2) iptables_cmd_fits [OF that(2)] unfolding run_command_def ifs_ok_def by auto
  have body: "returns (run_bind (getMcGroupSock e w) (\<lambda>(s, w'). run_bind (upd_route k g (snd (f s w')))
      (run_command e (iptables_cmd opt (if_Name d) gr)))) (\<lambda>x. True)"
    if "getIfByIx (upStreamVif w) w = Some d" "length opt = 2" "\<And>s v. routes (snd (f s v)) = routes v" for d opt gr f g
  proof (rule returns_thenI [OF getMcGroupSock_returns [OF assms(1)]])
    fix p :: "int \<times> proxy"
    assume "case p of (s, w') \<Rightarrow> routes w' = routes w"
    then show "returns (case p of (s, w') \<Rightarrow> run_bind (upd_route k g (snd (f s w'))) (run_command e (iptables_cmd opt (if_Name d) gr))) (\<lambda>x. True)"
      using that(3) assms(3) cmd [OF that(1,2)] by (cases p) simp
  qed
  show "returns (sendJoinLeaveUpstream e k join w) (\<lambda>x. True)"
  proof (cases "getIfByIx (upStreamVif w) w")
    case None
    then show ?thesis by (simp add: sendJoinLeaveUpstream_def)
  next
    case (Some d)
    have "routes (snd (joinMcGroup e s d gr v)) = routes v" "routes (snd (leaveMcGroup e s d gr v)) = routes v" for s gr v
      by (simp_all add: joinMcGroup_call leaveMcGroup_call)
    then show ?thesis using Some assms(3)
        body [of d "''-I''" "\<lambda>s. joinMcGroup e s d (rt_group r)" "\<lambda>r. r\<lparr>upstrState := ROUTESTATE_JOINED\<rparr>" "rt_group r"]
        body [of d "''-D''" "\<lambda>s. leaveMcGroup e s d (rt_group r)" "\<lambda>r. r\<lparr>upstrState := ROUTESTATE_NOTJOINED\<rparr>" "rt_group r"]
      by (simp add: sendJoinLeaveUpstream_def)
  qed
qed

section \<open>The entry of the kernel\<close>

text \<open>The input interface is the last upstream one, and the thresholds are those of the other interfaces of the route.\<close>

fun upstream_vif :: "IfDesc list \<Rightarrow> u16 \<Rightarrow> u16" where
  "upstream_vif [] v = v"
| "upstream_vif (d # ds) v = upstream_vif ds (if if_state d = IF_STATE_UPSTREAM then ucast (if_index d) else v)"

fun ttls_of :: "u32 \<Rightarrow> IfDesc list \<Rightarrow> byte list \<Rightarrow> byte list" where
  "ttls_of bits [] t = t"
| "ttls_of bits (d # ds) t =
     ttls_of bits ds (if if_state d \<noteq> IF_STATE_UPSTREAM \<and> BIT_TST bits (if_index d) then t[unat (if_index d) := if_threshold d] else t)"

lemma store_one: "i < length xs \<Longrightarrow> store i [x] xs = xs[i := x]"
  by (simp add: store_def upd_conv_take_nth_drop)

lemma ttl_walk_spec:
  "ifs_ok ds \<Longrightarrow> \<not> bit bits 31 \<Longrightarrow> length t = MAX_MC_VIFS \<Longrightarrow> ttl_walk bits ds (v, t) = ret (upstream_vif ds v, ttls_of bits ds t)"
proof (induction ds arbitrary: v t)
  case (Cons d ds)
  have "BIT_TST bits (if_index d) \<Longrightarrow> unat (if_index d) < length t" "ifs_ok ds"
    using Cons.prems by (auto simp: ifs_ok_def MAX_MC_VIFS_def BIT_TST_bit unsigned_minus_1_eq_mask mask_eq_exp_minus_1)
  then show ?case using Cons by (auto simp: mem_write_def store_one Suc_le_eq)
qed simp

lemma length_ttls_of [simp]: "length (ttls_of bits ds t) = length t"
  by (induction ds arbitrary: t) simp_all

definition mfc_call :: "bool \<Rightarrow> IfDesc list \<Rightarrow> RouteTable \<Rightarrow> kcall list" where
  "mfc_call activate ds r =
     (if originAddr r > 0 then
        [if activate then AddMfc (originAddr r) (rt_group r) (upstream_vif ds 0) (ttls_of (vifBits r) ds (replicate MAX_MC_VIFS 0))
         else DelMfc (originAddr r) (rt_group r) (upstream_vif ds 0)]
      else [])"

lemma internUpdateKernelRoute_eq:
  assumes "ifs_ok (IfDescVc w)" "routes w k = Some r" "bits_ok r"
  shows "internUpdateKernelRoute e k activate w = ret (w\<lparr>calls := calls w @ mfc_call activate (IfDescVc w) r\<rparr>)"
  using assms by (simp add: internUpdateKernelRoute_def ttl_walk_spec mfc_call_def addMRoute_def delMRoute_def bits_ok_def)

lemma mfc_call_no_command [simp]: "commands_of (mfc_call activate ds r) = []"
  by (simp add: mfc_call_def)

lemma mfc_kernel_step: "kernel_step w [] (routes w) (w\<lparr>calls := calls w @ mfc_call activate ds r\<rparr>)"
  unfolding kernel_step_def by (intro exI [of _ "mfc_call activate ds r"] exI [of _ "mcGroupSock w"]) simp


section \<open>The table as a finite map\<close>

definition table :: "proxy \<Rightarrow> u32 \<Rightarrow> RouteTable option" where
  "table w gr = (case findRoute gr w of Some (Inr (Some k)) \<Rightarrow> map_option payload (routes w k) | _ \<Rightarrow> None)"

lemma table_Some:
  assumes "route_list w ks"
  shows "table w gr = Some p \<longleftrightarrow> (\<exists>k r. routes w k = Some r \<and> rt_group r = gr \<and> payload r = p)"
proof (rule findRoute_cases [OF assms, of gr])
  assume none: "findRoute gr w = ret None" "\<And>k r. routes w k = Some r \<Longrightarrow> rt_group r \<noteq> gr"
  then have "table w gr = None" by (simp add: table_def ret_def)
  then show ?thesis using none(2) by auto
next
  fix k r
  assume found: "findRoute gr w = ret (Some k)" "routes w k = Some r" "rt_group r = gr"
  then have "table w gr = Some (payload r)" by (simp add: table_def ret_def)
  moreover have "j = k" if "routes w j = Some s" "rt_group s = gr" for j s
  proof -
    have "findRoute gr w = ret (Some j)" using findRoute_Some [OF assms] that by blast
    then show ?thesis using found(1) by simp
  qed
  ultimately show ?thesis using found(2,3) by (metis option.inject)
qed

lemma table_at: "route_list w ks \<Longrightarrow> routes w k = Some r \<Longrightarrow> table w (rt_group r) = Some (payload r)"
  using table_Some by blast

lemma table_update:
  assumes l: "route_list w ks" "route_list w' ks'"
    and h: "\<And>j. j \<noteq> k \<Longrightarrow> map_option payload (routes w' j) = map_option payload (routes w j)" "routes w' k = Some r'"
      "\<And>r. routes w k = Some r \<Longrightarrow> rt_group r = rt_group r'"
  shows "table w' = (table w)(rt_group r' \<mapsto> payload r')"
proof (rule ext)
  fix gr
  show "table w' gr = ((table w)(rt_group r' \<mapsto> payload r')) gr"
  proof (cases "gr = rt_group r'")
    case True
    then show ?thesis using table_at [OF l(2) h(2)] by simp
  next
    case False
    have "(\<exists>j s. routes w' j = Some s \<and> rt_group s = gr \<and> payload s = p) \<longleftrightarrow> (\<exists>j s. routes w j = Some s \<and> rt_group s = gr \<and> payload s = p)" for p
    proof -
      have "(\<exists>s. routes w' j = Some s \<and> rt_group s = gr \<and> payload s = p) \<longleftrightarrow> (\<exists>s. routes w j = Some s \<and> rt_group s = gr \<and> payload s = p)" for j
      proof (cases "j = k")
        case True
        then show ?thesis using h(2,3) False by auto
      next
        case j: False
        show ?thesis
          using h(1) [OF j] by (cases "routes w' j"; cases "routes w j") (auto dest: payload_eq_group)
      qed
      then show ?thesis by simp
    qed
    then have "table w' gr = Some p \<longleftrightarrow> table w gr = Some p" for p by (simp add: table_Some [OF l(1)] table_Some [OF l(2)])
    then show ?thesis using False by (metis fun_upd_apply option.exhaust)
  qed
qed

text \<open>A change of a route that leaves its links and its group alone.\<close>

definition keeps_place :: "(RouteTable \<Rightarrow> RouteTable) \<Rightarrow> bool" where
  "keeps_place f \<longleftrightarrow> (\<forall>r. links (f r) = links r \<and> rt_group (f r) = rt_group r \<and> payload (f r) = f (payload r) \<and> (bits_ok r \<longrightarrow> bits_ok (f r)))"

lemma keeps_placeI: "(\<And>r. prevroute (f r) = prevroute r) \<Longrightarrow> (\<And>r. nextroute (f r) = nextroute r) \<Longrightarrow> (\<And>r. rt_group (f r) = rt_group r) \<Longrightarrow>
   (\<And>r. payload (f r) = f (payload r)) \<Longrightarrow> (\<And>r. bits_ok r \<Longrightarrow> bits_ok (f r)) \<Longrightarrow> keeps_place f"
  by (simp add: keeps_place_def links_def)

lemma table_ok_update:
  assumes "table_ok w" "routes w k = Some r" "keeps_place f" and w': "routes w' = (routes w)(k \<mapsto> f r)" "routing_table w' = routing_table w"
    "next_route_addr w' = next_route_addr w"
  shows "table_ok w' \<and> table w' = (table w)(rt_group r \<mapsto> f (payload r))"
proof -
  obtain ks where ks: "route_list w ks" using assms(1) by (auto simp: table_ok_def)
  have f: "links (f r) = links r" "rt_group (f r) = rt_group r" "payload (f r) = f (payload r)" "bits_ok (f r)"
    using assms(3) table_ok_bits [OF assms(1,2)] by (auto simp: keeps_place_def)
  have "route_list w' ks = route_list w ks"
    by (rule route_list_cong) (use w' assms(2) f in \<open>auto simp: group_at_def\<close>)
  then have ks': "route_list w' ks" using ks by simp
  have "table_ok w'" using assms(1,2) ks' f w' by (auto simp: table_ok_def split: if_splits)
  moreover have "table w' = (table w)(rt_group (f r) \<mapsto> payload (f r))"
    by (rule table_update [OF ks ks', of k]) (use w' assms(2) f in auto)
  ultimately show ?thesis using f by simp
qed


text \<open>What an operation on the table does: the new content, the commands for the packet filter, and nothing outside the table.\<close>

definition route_frame :: "proxy \<Rightarrow> proxy \<Rightarrow> bool" where
  "route_frame w w' \<longleftrightarrow> (\<exists>cs s h t n. w' = w\<lparr>calls := cs, mcGroupSock := s, routes := h, routing_table := t, next_route_addr := n\<rparr>)"

definition route_outcome :: "proxy \<Rightarrow> (u32 \<Rightarrow> RouteTable option) \<Rightarrow> string list \<Rightarrow> proxy \<Rightarrow> bool" where
  "route_outcome w m cmds w' \<longleftrightarrow>
     table_ok w' \<and> table w' = m \<and> commands_of (calls w') = commands_of (calls w) @ cmds \<and> route_frame w w'"

lemma route_frameI:
  "w' = w\<lparr>calls := calls w', mcGroupSock := mcGroupSock w', routes := routes w', routing_table := routing_table w',
     next_route_addr := next_route_addr w'\<rparr> \<Longrightarrow> route_frame w w'"
  unfolding route_frame_def by blast

lemma route_frame_refl [simp]: "route_frame w w"
  unfolding route_frame_def
  by (intro exI [of _ "calls w"] exI [of _ "mcGroupSock w"] exI [of _ "routes w"] exI [of _ "routing_table w"] exI [of _ "next_route_addr w"]) simp

lemma route_frame_trans: "route_frame u v \<Longrightarrow> route_frame v w \<Longrightarrow> route_frame u w"
  unfolding route_frame_def by (elim exE, hypsubst) (auto intro!: exI)

lemma route_frameD:
  assumes "route_frame w w'"
  shows "IfDescVc w' = IfDescVc w" "upStreamVif w' = upStreamVif w" "commonConfig w' = commonConfig w" "getIfByIx i w' = getIfByIx i w"
    "groups w' = groups w" "group_list w' = group_list w" "members w' = members w" "callout_queue w' = callout_queue w"
  using assms by (auto simp: route_frame_def getIfByIx_def)

lemma kernel_step_frame: "kernel_step w cmds h w' \<Longrightarrow> route_frame w w'"
  unfolding kernel_step_def route_frame_def
  by (elim exE conjE, hypsubst) (intro exI [of _ "calls w @ _"] exI [of _ h] exI [of _ "routing_table w"] exI [of _ "next_route_addr w"] exI, simp)

lemma route_outcome_refl: "table_ok w \<Longrightarrow> route_outcome w (table w) [] w"
  by (simp add: route_outcome_def)

lemma route_outcome_trans: "route_outcome u m a v \<Longrightarrow> route_outcome v m' b w \<Longrightarrow> route_outcome u m' (a @ b) w"
  by (auto simp: route_outcome_def intro: route_frame_trans)

lemma kernel_step_outcome:
  assumes "kernel_step w cmds ((routes w)(k \<mapsto> f r)) w'" "table_ok w" "routes w k = Some r" "keeps_place f"
  shows "route_outcome w ((table w)(rt_group r \<mapsto> f (payload r))) cmds w'"
  using table_ok_update [OF assms(2-4), of w'] kernel_stepD [OF assms(1)] kernel_step_frame [OF assms(1)] by (simp add: route_outcome_def)

lemma route_table_same:
  assumes "routes w' = routes w" "routing_table w' = routing_table w" "next_route_addr w' = next_route_addr w" "table_ok w"
  shows "table_ok w' \<and> table w' = table w"
proof -
  obtain ks where ks: "route_list w ks" using assms(4) by (auto simp: table_ok_def)
  have "group_at w' = group_at w" using assms(1) by (auto simp: group_at_def)
  then have ks': "route_list w' ks" using ks assms by (simp add: route_list_def)
  have "table w' gr = Some p \<longleftrightarrow> table w gr = Some p" for gr p by (simp add: table_Some [OF ks] table_Some [OF ks'] assms(1))
  then have "table w' = table w" by (metis ext option.exhaust)
  then show ?thesis using ks' assms by (auto simp: table_ok_def)
qed

lemma kernel_step_same:
  assumes "kernel_step w cmds (routes w) w'" "table_ok w"
  shows "route_outcome w (table w) cmds w'"
  using route_table_same [of w' w] kernel_stepD [OF assms(1)] kernel_step_frame [OF assms(1)] assms(2) by (simp add: route_outcome_def)

lemma upd_outcome:
  assumes "table_ok w" "routes w k = Some r" "keeps_place f"
  shows "route_outcome w ((table w)(rt_group r \<mapsto> f (payload r))) [] (w\<lparr>routes := (routes w)(k \<mapsto> f r)\<rparr>)"
proof (rule kernel_step_outcome [OF _ assms])
  show "kernel_step w [] ((routes w)(k \<mapsto> f r)) (w\<lparr>routes := (routes w)(k \<mapsto> f r)\<rparr>)"
    unfolding kernel_step_def by (intro exI [of _ "[]"] exI [of _ "mcGroupSock w"]) simp
qed

lemma keeps_place_upstr: "keeps_place (upstr_after join w)"
  by (rule keeps_placeI) (simp_all add: upstr_after_def payload_def bits_ok_def)

lemma send_cmds_payload: "send_cmds join w (payload r) = send_cmds join w r"
  by (cases "getIfByIx (upStreamVif w) w") (simp_all add: send_cmds_def)

lemma send_outcome:
  assumes "kernel_ok e" "ifs_ok (IfDescVc w)" "routes w k = Some r" "table_ok w"
  shows "returns (sendJoinLeaveUpstream e k join w) (\<lambda>w'.
    route_outcome w ((table w)(rt_group r \<mapsto> upstr_after join w (payload r))) (send_cmds join w (payload r)) w'
    \<and> routes w' = (routes w)(k \<mapsto> upstr_after join w r))"
  unfolding send_cmds_payload returns_def
  using send_returns [OF assms(1-3), of join] kernel_step_outcome [OF _ assms(4,3) keeps_place_upstr] kernel_stepD(1)
  unfolding returns_def by blast

lemma update_outcome:
  assumes "ifs_ok (IfDescVc w)" "routes w k = Some r" "table_ok w"
  shows "returns (internUpdateKernelRoute e k activate w) (\<lambda>w'. route_outcome w (table w) [] w' \<and> routes w' = routes w)"
  unfolding internUpdateKernelRoute_eq [OF assms(1,2) table_ok_bits [OF assms(3,2)]] using kernel_step_same [OF mfc_kernel_step assms(3)] by simp

lemma distinct_insert: "distinct (xs @ ys) \<Longrightarrow> k \<notin> set (xs @ ys) \<Longrightarrow> distinct (xs @ k # ys)"
  by auto

lemma new_route_outcome:
  assumes ok: "table_ok w" and gr: "IN_MULTICAST (ntohl gr)" "table w gr = None" and r: "rt_group r = gr" "links r = (None, None)" "payload r = r" "bits_ok r"
    and k: "k = next_route_addr w"
  shows "returns (link_route k gr (w\<lparr>next_route_addr := Suc k, routes := (routes w)(k \<mapsto> r)\<rparr>))
    (\<lambda>w'. route_outcome w ((table w)(gr \<mapsto> r)) [] w' \<and> (\<exists>r'. routes w' k = Some r' \<and> payload r' = r))"
proof -
  obtain ks where ks: "route_list w ks" using ok by (auto simp: table_ok_def)
  let ?w = "w\<lparr>next_route_addr := Suc k, routes := (routes w)(k \<mapsto> r)\<rparr>"
  let ?xs = "takeWhile (\<lambda>j. group_at ?w j \<le> gr) ks" and ?ys = "dropWhile (\<lambda>j. group_at ?w j \<le> gr) ks"
  have "k \<notin> dom (routes w)" using ok k by (auto simp: table_ok_def)
  then have kn: "k \<notin> set ks" "routes w k = None" using ks by (auto simp: route_list_def)
  have l: "linked (routes w) None ks None" "routing_table w = first_of ks None" "distinct ks" "set ks = dom (routes w)"
    "sorted_wrt (<) (map (group_at w) ks)" using ks by (auto simp: route_list_def)
  have ga: "map (group_at ?w) ks = map (group_at w) ks" using kn(1) by (auto simp: group_at_def)
  have gs: "sorted_wrt (<) (map (group_at ?w) ks)" unfolding ga by (rule l(5))
  have ne: "\<forall>j \<in> set ks. group_at ?w j \<noteq> gr"
  proof
    fix j assume j: "j \<in> set ks"
    then obtain s where s: "routes w j = Some s" using l(4) by auto
    have "rt_group s \<noteq> gr" using table_at [OF ks s] gr(2) by auto
    then show "group_at ?w j \<noteq> gr" using s j kn(1) by (auto simp: group_at_def)
  qed
  have ex: "\<exists>h'. link_route k gr ?w = ret (?w\<lparr>routes := h', routing_table := first_of (?xs @ k # ?ys) None\<rparr>)
    \<and> linked h' None (?xs @ k # ?ys) None \<and> same_payloads (routes ?w) h'"
    by (rule link_route_spec [where ks = ks and r = r, OF _ _ _ _ _ gs ne refl refl]) (use l kn r in simp_all)
  then obtain h' where h: "link_route k gr ?w = ret (?w\<lparr>routes := h', routing_table := first_of (?xs @ k # ?ys) None\<rparr>)"
    "linked h' None (?xs @ k # ?ys) None" "same_payloads (routes ?w) h'" by blast
  let ?v = "?w\<lparr>routes := h', routing_table := first_of (?xs @ k # ?ys) None\<rparr>"
  have gv: "group_at ?v = group_at ?w" using same_payloads_group [OF h(3)] by (auto simp: group_at_def fun_eq_iff)
  have "sorted_wrt (<) (map (group_at ?w) (?xs @ k # ?ys))"
  proof -
    have "sorted_wrt (<) (map (group_at ?w) (?xs @ ?ys))" unfolding takeWhile_dropWhile_id by (rule gs)
    moreover have "\<forall>j \<in> set ?xs. group_at ?w j < gr" using ne set_takeWhileD [of _ "\<lambda>j. group_at ?w j \<le> gr" ks] by (metis order_le_less)
    moreover have "\<forall>j \<in> set ?ys. gr < group_at ?w j"
    proof (cases ?ys)
      case (Cons y ys')
      then have "\<not> group_at ?w y \<le> gr" by (metis hd_dropWhile list.distinct(1) list.sel(1))
      moreover have "sorted_wrt (<) (map (group_at ?w) ?ys)" using \<open>sorted_wrt (<) (map (group_at ?w) (?xs @ ?ys))\<close>
        unfolding map_append sorted_wrt_append by blast
      ultimately show ?thesis unfolding Cons by (auto simp: not_le)
    next
      case Nil
      show ?thesis unfolding Nil by simp
    qed
    moreover have "group_at ?w k = gr" using r by (simp add: group_at_def)
    ultimately show ?thesis unfolding map_append list.map sorted_wrt_append sorted_wrt.simps by auto
  qed
  moreover have "dom h' = insert k (set ks)" using same_payloads_dom [OF h(3)] l(4) by simp
  moreover have "set (?xs @ k # ?ys) = insert k (set ks)"
    by (metis Un_insert_right list.simps(15) set_append takeWhile_dropWhile_id)
  moreover have "distinct (?xs @ k # ?ys)" by (rule distinct_insert) (use l(3) kn(1) in simp_all)
  ultimately have ks': "route_list ?v (?xs @ k # ?ys)" using h(2) gv unfolding route_list_def by simp
  have pay: "map_option payload (h' j) = map_option payload (((routes w)(k \<mapsto> r)) j)" for j
    using h(3) by (simp add: same_payloads_def)
  obtain r' where r': "h' k = Some r'" "payload r' = r" using pay [of k] r(3) by auto
  have gr': "rt_group r' = gr" using r' r(1) payload_simps(1) by metis
  have "table ?v = (table w)(rt_group r' \<mapsto> payload r')"
    by (rule table_update [OF ks ks', of k]) (use pay r' kn in auto)
  moreover have "table_ok ?v"
    unfolding table_ok_def
  proof (intro conjI allI impI)
    show "\<exists>ks. route_list ?v ks" using ks' by blast
  next
    fix j s assume "routes ?v j = Some s"
    then have "map_option payload (((routes w)(k \<mapsto> r)) j) = Some (payload s)" using pay [of j] by simp
    then obtain z where z: "((routes w)(k \<mapsto> r)) j = Some z" "payload z = payload s" by blast
    note z(2) [THEN payload_eq_group]
    moreover have "bits_ok z = bits_ok s" using arg_cong [OF z(2), of bits_ok] by simp
    ultimately show "j < next_route_addr ?v" "IN_MULTICAST (ntohl (rt_group s))" "bits_ok s"
      using ok k gr(1) r(1,4) z(1) \<open>rt_group z = rt_group s\<close> [symmetric] unfolding table_ok_def by (auto split: if_splits intro: less_SucI)
  qed
  moreover have "route_frame w ?v"
    by (rule route_frameI) simp
  ultimately show ?thesis unfolding h(1) route_outcome_def using gr' r' by simp
qed


section \<open>The operations\<close>

text \<open>What they do, on the entry of a group: the specification.\<close>

definition listened :: "proxy \<Rightarrow> u32 \<Rightarrow> int \<Rightarrow> RouteTable option \<Rightarrow> RouteTable" where
  "listened w gr ifx ro =
     (case ro of None \<Rightarrow> new_route gr ifx w
      | Some r \<Rightarrow> if ifx \<ge> 0 then r\<lparr>vifBits := BIT_SET (vifBits r) (of_int ifx), ageVifBits := BIT_SET (ageVifBits r) (of_int ifx)\<rparr> else r)"

definition inserted :: "proxy \<Rightarrow> u32 \<Rightarrow> int \<Rightarrow> RouteTable option \<Rightarrow> RouteTable \<times> string list" where
  "inserted w gr ifx ro =
     (let r = listened w gr ifx ro in if upstrState r \<noteq> ROUTESTATE_JOINED then (upstr_after True w r, send_cmds True w r) else (r, []))"

text \<open>The index of an interface that is used, or -1.\<close>

definition vif_index :: "int \<Rightarrow> bool" where
  "vif_index ifx \<longleftrightarrow> ifx < int MAX_MC_VIFS \<and> ifx \<noteq> int MAX_MC_VIFS - 1"

lemma vif_index_word: "vif_index ifx \<Longrightarrow> 0 \<le> ifx \<Longrightarrow> unat (of_int ifx :: u32) mod 32 \<noteq> 31"
proof -
  assume "vif_index ifx" "0 \<le> ifx"
  then obtain n where n: "ifx = int n" "n < 31" by (cases ifx) (auto simp: vif_index_def MAX_MC_VIFS_def)
  then have "unat (of_int ifx :: u32) = n" by (simp add: unsigned_of_nat take_bit_nat_eq_self)
  then show ?thesis using n(2) by simp
qed

lemma keeps_place_listen:
  "unat i mod 32 \<noteq> 31 \<Longrightarrow> keeps_place (\<lambda>r. r\<lparr>vifBits := BIT_SET (vifBits r) i, ageVifBits := BIT_SET (ageVifBits r) i\<rparr>)"
  by (rule keeps_placeI) (simp_all add: payload_def bits_ok_def BIT_SET_bit)

lemma new_route_bits: "vif_index ifx \<Longrightarrow> bits_ok (new_route gr ifx w)"
  using vif_index_word [of ifx] by (simp add: bits_ok_def new_route_def BIT_SET_bit)

lemma table_findRoute:
  assumes "table_ok w"
  obtains "findRoute gr w = ret None" "table w gr = None"
  | k r where "findRoute gr w = ret (Some k)" "routes w k = Some r" "rt_group r = gr" "table w gr = Some (payload r)"
proof -
  obtain ks where ks: "route_list w ks" using assms by (auto simp: table_ok_def)
  show ?thesis
    by (rule findRoute_cases [OF ks, of gr]) (use that table_at [OF ks] in \<open>auto simp: table_def ret_def\<close>)
qed

definition at_route :: "proxy \<Rightarrow> u32 \<Rightarrow> RouteTable \<Rightarrow> nat \<Rightarrow> proxy \<Rightarrow> bool" where
  "at_route w gr p k w' \<longleftrightarrow> route_outcome w ((table w)(gr \<mapsto> p)) [] w' \<and> (\<exists>r. routes w' k = Some r \<and> rt_group r = gr \<and> payload r = p)"

lemma insert_entry:
  assumes ok: "kernel_ok e" "ifs_ok (IfDescVc w)" "table_ok w" and gr: "IN_MULTICAST (ntohl gr)" and ifx: "vif_index ifx"
  shows "returns (run_bind (findRoute gr w) (\<lambda>found. case found of
            None \<Rightarrow>
              if \<not> p_alloc e sizeof_RouteTable then fail NullDeref
              else let k = next_route_addr w in
                run_map (Pair k) (link_route k gr (w\<lparr>next_route_addr := Suc k, routes := (routes w)(k \<mapsto> new_route gr ifx w)\<rparr>))
          | Some k \<Rightarrow>
              if ifx \<ge> 0 then
                run_bind (upd_route k (\<lambda>r. r\<lparr>vifBits := BIT_SET (vifBits r) (of_int ifx), ageVifBits := BIT_SET (ageVifBits r) (of_int ifx)\<rparr>) w)
                  (\<lambda>w. run_bind (get_route k w) (\<lambda>r.
                   if originAddr r \<noteq> 0 then run_map (Pair k) (internUpdateKernelRoute e k True w) else ret (k, w)))
              else ret (k, w))) (\<lambda>(k, w'). at_route w gr (listened w gr ifx (table w gr)) k w')"
proof (rule table_findRoute [OF ok(3), of gr])
  assume none: "findRoute gr w = ret None" "table w gr = None"
  have "returns (link_route (next_route_addr w) gr (w\<lparr>next_route_addr := Suc (next_route_addr w), routes := (routes w)(next_route_addr w \<mapsto> new_route gr ifx w)\<rparr>))
    (\<lambda>w'. route_outcome w ((table w)(gr \<mapsto> new_route gr ifx w)) [] w' \<and> (\<exists>r'. routes w' (next_route_addr w) = Some r' \<and> payload r' = new_route gr ifx w))"
    by (rule new_route_outcome [OF ok(3) gr none(2) _ _ _ new_route_bits [OF ifx]]) (simp_all add: new_route_def links_def payload_def)
  moreover have "rt_group r = gr" if "payload r = new_route gr ifx w" for r
    using that payload_simps(1) [of r] by (simp add: new_route_def)
  ultimately show ?thesis using none ok(1) by (auto simp: listened_def at_route_def kernel_ok_def returns_def Let_def)
next
  fix k r
  assume found: "findRoute gr w = ret (Some k)" "routes w k = Some r" "rt_group r = gr" "table w gr = Some (payload r)"
  show ?thesis
  proof (cases "ifx \<ge> 0")
    case False
    have "(table w)(gr \<mapsto> payload r) = table w" using found(4) by auto
    then have "at_route w gr (payload r) k w" using found(2,3) route_outcome_refl [OF ok(3)] by (simp add: at_route_def)
    then show ?thesis using False found by (simp add: listened_def)
  next
    case True
    define f :: "RouteTable \<Rightarrow> RouteTable" where "f = (\<lambda>r. r\<lparr>vifBits := BIT_SET (vifBits r) (of_int ifx), ageVifBits := BIT_SET (ageVifBits r) (of_int ifx)\<rparr>)"
    let ?w = "w\<lparr>routes := (routes w)(k \<mapsto> f r)\<rparr>"
    have f: "keeps_place f" unfolding f_def by (rule keeps_place_listen) (rule vif_index_word [OF ifx True])
    have o: "route_outcome w ((table w)(gr \<mapsto> f (payload r))) [] ?w" using upd_outcome [OF ok(3) found(2) f] found(3) by simp
    have r: "routes ?w k = Some (f r)" "rt_group (f r) = gr" "payload (f r) = f (payload r)" using f found(3) by (simp_all add: keeps_place_def)
    then have at: "at_route w gr (f (payload r)) k ?w" using o by (simp add: at_route_def)
    have "returns (internUpdateKernelRoute e k True ?w) (\<lambda>w'. at_route w gr (f (payload r)) k w')"
    proof -
      have "ifs_ok (IfDescVc ?w)" "table_ok ?w" "table ?w = (table w)(gr \<mapsto> f (payload r))" using ok(2) o by (simp_all add: route_outcome_def)
      from update_outcome [OF this(1) r(1) this(2), of e True] this(3)
      obtain w' where "internUpdateKernelRoute e k True ?w = ret w'" "route_outcome ?w ((table w)(gr \<mapsto> f (payload r))) [] w'" "routes w' = routes ?w"
        by (auto simp: returns_def)
      then show ?thesis using route_outcome_trans [OF o] r by (auto simp: at_route_def returns_def)
    qed
    moreover have "listened w gr ifx (table w gr) = f (payload r)" using True found(4) by (simp add: listened_def f_def)
    ultimately show ?thesis using True found(1,2) at r(1) by (auto simp: f_def [symmetric] returns_def)
  qed
qed

lemma frame_upstr:
  assumes "route_frame w w'"
  shows "upstr_after join w' = upstr_after join w" "send_cmds join w' = send_cmds join w"
  by (simp_all add: fun_eq_iff upstr_after_def send_cmds_def route_frameD [OF assms])

lemma insertRoute_outcome:
  assumes ok: "kernel_ok e" "ifs_ok (IfDescVc w)" "table_ok w" and gr: "IN_MULTICAST (ntohl gr)" and ifx: "vif_index ifx"
  shows "returns (insertRoute e gr ifx w) (\<lambda>(b, w'). b = 1 \<and>
    (case inserted w gr ifx (table w gr) of (p, cmds) \<Rightarrow> route_outcome w ((table w)(gr \<mapsto> p)) cmds w'))"
proof -
  let ?p = "listened w gr ifx (table w gr)"
  have step: "returns (run_bind (get_route k v) (\<lambda>r. if upstrState r \<noteq> ROUTESTATE_JOINED then run_map (Pair 1) (sendJoinLeaveUpstream e k True v) else ret (1, v)))
      (\<lambda>(b, w'). b = (1 :: int) \<and> (case inserted w gr ifx (table w gr) of (p, cmds) \<Rightarrow> route_outcome w ((table w)(gr \<mapsto> p)) cmds w'))"
    if at: "at_route w gr ?p k v" for k v
  proof -
    obtain r where r: "routes v k = Some r" "rt_group r = gr" "payload r = ?p" and o: "route_outcome w ((table w)(gr \<mapsto> ?p)) [] v"
      using at by (auto simp: at_route_def)
    have up: "upstrState ?p = upstrState r" using r(3) payload_simps(4) [of r] by simp
    have same: "upstr_after True v ?p = upstr_after True w ?p" "send_cmds True v ?p = send_cmds True w ?p"
      using o unfolding route_outcome_def by (simp_all add: frame_upstr [of w v])
    have v: "ifs_ok (IfDescVc v)" "table_ok v" "table v = (table w)(gr \<mapsto> ?p)" using o ok(2) by (auto simp: route_outcome_def route_frameD [of w v])
    show ?thesis
    proof (cases "upstrState r = ROUTESTATE_JOINED")
      case True
      then show ?thesis using o r(1) up by (simp add: inserted_def Let_def)
    next
      case False
      obtain v' where v': "sendJoinLeaveUpstream e k True v = ret v'"
        "route_outcome v ((table w)(gr \<mapsto> upstr_after True w ?p)) (send_cmds True w ?p) v'"
        using send_outcome [OF ok(1) v(1) r(1) v(2), of True] unfolding v(3) r(2,3) same by (auto simp: returns_def)
      then show ?thesis using False r(1) up route_outcome_trans [OF o v'(2)] by (simp add: inserted_def Let_def)
    qed
  qed
  have "\<not> \<not> IN_MULTICAST (ntohl gr)" "\<not> ifx \<ge> int MAX_MC_VIFS" using gr ifx by (simp_all add: vif_index_def)
  note guards = this [THEN if_not_P]
  show ?thesis
    unfolding insertRoute_def guards run_bind_assoc [symmetric]
    by (rule returns_thenI [OF insert_entry [OF ok gr ifx]]) (use step in auto)
qed


section \<open>Removal\<close>

lemma unlink_linked:
  assumes "linked h None (xs @ k # ys) None" "distinct (xs @ k # ys)"
    and h1: "h1 = (case last_of None xs of None \<Rightarrow> h | Some p \<Rightarrow> h(p \<mapsto> (the (h p))\<lparr>nextroute := first_of ys None\<rparr>))"
    and h2: "h2 = (case first_of ys None of None \<Rightarrow> h1 | Some n \<Rightarrow> h1(n \<mapsto> (the (h n))\<lparr>prevroute := last_of None xs\<rparr>))"
  shows "linked h2 None (xs @ ys) None"
proof -
  have l: "linked h None xs (Some k)" "linked h (Some k) ys None" using assms(1) by (auto simp: linked_append)
  have "linked h1 None xs (first_of ys None) \<and> linked h1 (Some k) ys None"
  proof (cases xs rule: rev_cases)
    case Nil
    then show ?thesis using l h1 by simp
  next
    case (snoc zs p)
    then have "\<exists>rp. h p = Some rp" using linked_in [OF l(1), of p] by simp
    moreover have "p \<notin> set ys" "p \<notin> set zs" using assms(2) snoc by auto
    ultimately show ?thesis using l h1 snoc linked_set_next [of h None zs p "Some k"] by auto
  qed
  then show ?thesis
  proof (cases ys)
    case Nil
    then show ?thesis using \<open>linked h1 None xs (first_of ys None) \<and> _\<close> h2 by simp
  next
    case (Cons y ys')
    obtain ry where ry: "h y = Some ry" using l(2) Cons by auto
    have n: "y \<notin> set ys'" "y \<notin> set xs" using assms(2) Cons by auto
    have "h1 y = Some ry" using ry n(2) unfolding h1 by (cases xs rule: rev_cases) auto
    then show ?thesis
      using \<open>linked h1 None xs (first_of ys None) \<and> _\<close> Cons n ry unfolding h2 by (simp add: linked_append)
  qed
qed

lemma some_iff_eq: "(\<And>q. a = Some q \<longleftrightarrow> b = Some q) \<Longrightarrow> a = b"
  by (metis option.exhaust)

lemma payload_partner: "map_option payload a = map_option payload b \<Longrightarrow> a = Some z \<Longrightarrow> \<exists>y. b = Some y \<and> payload y = payload z"
  by (cases b) auto

text \<open>The step of \<open>removeRoute\<close> that takes the route out of the table.\<close>

lemma unlink_outcome:
  assumes ok: "table_ok w" and r: "routes w k = Some r" and l: "links r' = links r"
  shows "returns (run_bind (case prevroute r' of
              None \<Rightarrow> run_map (\<lambda>w. w\<lparr>routing_table := nextroute r'\<rparr>) (upd_link (nextroute r') (\<lambda>x. x\<lparr>prevroute := None\<rparr>) w)
            | Some p \<Rightarrow>
                run_bind (upd_route p (\<lambda>x. x\<lparr>nextroute := nextroute r'\<rparr>) w)
                  (upd_link (nextroute r') (\<lambda>x. x\<lparr>prevroute := prevroute r'\<rparr>))) (\<lambda>w.
          ret (1 :: int, w\<lparr>routes := (routes w)(k := None)\<rparr>)))
    (\<lambda>(b, w'). b = 1 \<and> route_outcome w ((table w)(rt_group r := None)) [] w' \<and> routes w' k = None)"
proof -
  obtain ks where ks: "route_list w ks" using ok by (auto simp: table_ok_def)
  then have "k \<in> set ks" using r by (auto simp: route_list_def)
  then obtain xs ys where s: "ks = xs @ k # ys" by (meson split_list)
  have li: "linked (routes w) None (xs @ k # ys) None" "distinct (xs @ k # ys)" using ks s by (auto simp: route_list_def)
  have pn: "prevroute r' = last_of None xs" "nextroute r' = first_of ys None"
    using linked_at [OF li(1) r] l by (auto simp: links_def)
  define h1 where "h1 = (case last_of None xs of None \<Rightarrow> routes w | Some p \<Rightarrow> (routes w)(p \<mapsto> (the (routes w p))\<lparr>nextroute := first_of ys None\<rparr>))"
  define h2 where "h2 = (case first_of ys None of None \<Rightarrow> h1 | Some n \<Rightarrow> h1(n \<mapsto> (the (routes w n))\<lparr>prevroute := last_of None xs\<rparr>))"
  have l2: "linked h2 None (xs @ ys) None" by (rule unlink_linked [OF li h1_def h2_def])
  have p: "\<exists>rp. routes w p = Some rp" "p \<noteq> k" if "last_of None xs = Some p" for p
    using that li linked_in [OF li(1), of p] by (cases xs rule: rev_cases; auto)+
  have n: "\<exists>rn. routes w n = Some rn" "n \<noteq> k" if "first_of ys None = Some n" for n
    using that li linked_in [OF li(1), of n] by (cases ys; auto)+
  have np: "n \<noteq> p" if "first_of ys None = Some n" "last_of None xs = Some p" for n p
    using that li(2) by (cases xs rule: rev_cases; cases ys; auto)
  let ?w = "w\<lparr>routes := h2(k := None), routing_table := first_of (xs @ ys) None\<rparr>"
  have eq: "run_bind (case prevroute r' of
              None \<Rightarrow> run_map (\<lambda>w. w\<lparr>routing_table := nextroute r'\<rparr>) (upd_link (nextroute r') (\<lambda>x. x\<lparr>prevroute := None\<rparr>) w)
            | Some p \<Rightarrow>
                run_bind (upd_route p (\<lambda>x. x\<lparr>nextroute := nextroute r'\<rparr>) w)
                  (upd_link (nextroute r') (\<lambda>x. x\<lparr>prevroute := prevroute r'\<rparr>))) (\<lambda>w.
          ret (1 :: int, w\<lparr>routes := (routes w)(k := None)\<rparr>)) = ret (1, ?w)"
  proof (cases "last_of None xs")
    case None
    then have "xs = []" by (cases xs rule: rev_cases) auto
    then show ?thesis using None pn n unfolding h2_def h1_def upd_link_def by (cases "first_of ys None") auto
  next
    case (Some p)
    then have t: "first_of (xs @ ys) None = routing_table w" using ks s by (cases xs) (auto simp: route_list_def)
    obtain rp where rp: "routes w p = Some rp" using p Some by blast
    show ?thesis
    proof (cases "first_of ys None")
      case None
      then show ?thesis using Some rp pn t unfolding h2_def h1_def upd_link_def by simp
    next
      case (Some m)
      then obtain rn where "routes w m = Some rn" "m \<noteq> p" using n np \<open>last_of None xs = Some p\<close> by blast
      then show ?thesis using Some \<open>last_of None xs = Some p\<close> rp pn t unfolding h2_def h1_def upd_link_def by simp
    qed
  qed
  have pay: "map_option payload (h2 j) = map_option payload (routes w j)" for j
  proof -
    have "map_option payload (h1 j) = map_option payload (routes w j)"
      using p(1) unfolding h1_def by (cases "last_of None xs") auto
    then show ?thesis using n(1) unfolding h2_def by (cases "first_of ys None") auto
  qed
  have kn: "k \<notin> set (xs @ ys)" using li(2) by auto
  have ga: "group_at ?w j = group_at w j" if "j \<noteq> k" for j
    using pay [of j] that by (cases "h2 j"; cases "routes w j") (auto simp: group_at_def dest: payload_eq_group)
  have dom: "dom h2 = dom (routes w)" using pay by (metis (no_types, lifting) domIff map_option_is_None subsetI subset_antisym)
  have ks': "route_list ?w (xs @ ys)"
  proof -
    have "map (group_at ?w) (xs @ ys) = map (group_at w) (xs @ ys)"
    proof (rule map_cong [OF refl])
      fix x assume "x \<in> set (xs @ ys)"
      then have "x \<noteq> k" using kn by blast
      then show "group_at ?w x = group_at w x" by (rule ga)
    qed
    moreover have "sorted_wrt (<) (map (group_at w) (xs @ ys))" using ks unfolding s route_list_def by (simp add: sorted_wrt_append)
    moreover have "dom (routes w) = insert k (set (xs @ ys))" using ks unfolding s route_list_def by auto
    ultimately have "sorted_wrt (<) (map (group_at ?w) (xs @ ys))" "dom (routes w) = insert k (set (xs @ ys))" by (simp only:)+
    then show ?thesis using l2 kn li(2) dom linked_frame [OF kn, of h2 None None None] unfolding route_list_def by (simp only: simp_thms) auto
  qed
  have t: "table ?w = (table w)(rt_group r := None)"
  proof -
    have "table ?w gr = Some q \<longleftrightarrow> ((table w)(rt_group r := None)) gr = Some q" for gr q
    proof -
      have "(\<exists>j z. routes ?w j = Some z \<and> rt_group z = gr \<and> payload z = q) \<longleftrightarrow>
        gr \<noteq> rt_group r \<and> (\<exists>j z. routes w j = Some z \<and> rt_group z = gr \<and> payload z = q)"
      proof (intro iffI conjI)
        assume "\<exists>j z. routes ?w j = Some z \<and> rt_group z = gr \<and> payload z = q"
        then obtain j z where z: "j \<noteq> k" "h2 j = Some z" "rt_group z = gr" "payload z = q" by (auto split: if_splits)
        then obtain y where y: "routes w j = Some y" "payload y = payload z" using payload_partner [OF pay] by blast
        then show "\<exists>j z. routes w j = Some z \<and> rt_group z = gr \<and> payload z = q" using z payload_eq_group [OF y(2)] y by auto
        show "gr \<noteq> rt_group r"
        proof
          assume "gr = rt_group r"
          then have "group_at w j = group_at w k" using y z r payload_eq_group [OF y(2)] by simp
          moreover have "j \<in> set ks" "k \<in> set ks" using y(1) r ks by (auto simp: route_list_def)
          ultimately show False using route_list_unique [OF ks] z(1) by blast
        qed
      next
        assume "gr \<noteq> rt_group r \<and> (\<exists>j z. routes w j = Some z \<and> rt_group z = gr \<and> payload z = q)"
        then obtain j z where z: "gr \<noteq> rt_group r" "routes w j = Some z" "rt_group z = gr" "payload z = q" by blast
        then have "j \<noteq> k" using r by auto
        moreover obtain y where y: "h2 j = Some y" "payload y = payload z" using payload_partner [OF pay [symmetric] z(2)] by blast
        ultimately show "\<exists>j z. routes ?w j = Some z \<and> rt_group z = gr \<and> payload z = q" using z payload_eq_group [OF y(2)] by auto
      qed
      then show ?thesis unfolding table_Some [OF ks'] by (simp add: table_Some [OF ks])
    qed
    then show ?thesis by (intro ext some_iff_eq)
  qed
  have "table_ok ?w"
    unfolding table_ok_def
  proof (intro conjI allI impI)
    show "\<exists>ks. route_list ?w ks" using ks' by blast
  next
    fix j z assume "routes ?w j = Some z"
    then have "h2 j = Some z" by (auto split: if_splits)
    then obtain y where y: "routes w j = Some y" "payload y = payload z" using payload_partner [OF pay] by blast
    have "bits_ok y = bits_ok z" using arg_cong [OF y(2), of bits_ok] by simp
    then show "j < next_route_addr ?w" "IN_MULTICAST (ntohl (rt_group z))" "bits_ok z"
      using ok y(1) unfolding payload_eq_group [OF y(2), symmetric] by (auto simp: table_ok_def)
  qed
  moreover have "route_frame w ?w" by (rule route_frameI) simp
  ultimately show ?thesis unfolding eq route_outcome_def using t by simp
qed


definition leaves_on_removal :: "Config \<Rightarrow> RouteTable \<Rightarrow> bool" where
  "leaves_on_removal c r \<longleftrightarrow>
     upstrState r = ROUTESTATE_JOINED \<or> upstrState r = ROUTESTATE_CHECK_LAST_MEMBER \<and> \<not> fastUpstreamLeave c"

lemma removeRoute_outcome:
  assumes ok: "kernel_ok e" "ifs_ok (IfDescVc w)" "table_ok w" and r: "routes w k = Some r"
  shows "returns (removeRoute e (Some k) w) (\<lambda>(b, w'). b = 1 \<and> routes w' k = None \<and>
    route_outcome w ((table w)(rt_group r := None)) (if leaves_on_removal (commonConfig w) r then send_cmds False w (payload r) else []) w')"
proof -
  obtain w1 where w1: "internUpdateKernelRoute e k False w = ret w1" "route_outcome w (table w) [] w1" "routes w1 = routes w"
    using update_outcome [OF ok(2) r ok(3), of e False] by (auto simp: returns_def)
  have f1: "route_frame w w1" "table_ok w1" "table w1 = table w" using w1(2) by (auto simp: route_outcome_def)
  have c1: "commonConfig w1 = commonConfig w" "ifs_ok (IfDescVc w1)" using ok(2) route_frameD [OF f1(1)] by simp_all
  have r1: "routes w1 k = Some r" using r w1(3) by simp
  let ?cmds = "if leaves_on_removal (commonConfig w) r then send_cmds False w (payload r) else []"
  obtain w2 r2 where w2: "(if leaves_on_removal (commonConfig w) r then sendJoinLeaveUpstream e k False w1 else ret w1) = ret w2"
    "routes w2 k = Some r2" "links r2 = links r" "rt_group r2 = rt_group r"
    "route_outcome w1 ((table w)(rt_group r \<mapsto> payload r2)) ?cmds w2"
  proof (cases "leaves_on_removal (commonConfig w) r")
    case True
    obtain w2 where s: "sendJoinLeaveUpstream e k False w1 = ret w2" "routes w2 = (routes w1)(k \<mapsto> upstr_after False w r)"
      "route_outcome w1 ((table w)(rt_group r \<mapsto> upstr_after False w (payload r))) (send_cmds False w (payload r)) w2"
      using send_outcome [OF ok(1) c1(2) r1 f1(2), of False] f1(3) frame_upstr [OF f1(1)] by (auto simp: returns_def)
    have "links (upstr_after False w r) = links r" "rt_group (upstr_after False w r) = rt_group r"
      "payload (upstr_after False w r) = upstr_after False w (payload r)"
      using keeps_place_upstr [of False w] by (auto simp: keeps_place_def)
    then show ?thesis using that [of w2 "upstr_after False w r"] True s by simp
  next
    case False
    obtain ks where "route_list w ks" using ok(3) by (auto simp: table_ok_def)
    then have "(table w)(rt_group r \<mapsto> payload r) = table w" using table_at [OF _ r] by auto
    then show ?thesis using that [of w1 r] False r1 route_outcome_refl [OF f1(2)] f1(3) by simp
  qed
  have o2: "table_ok w2" "table w2 = (table w)(rt_group r \<mapsto> payload r2)" using w2(5) by (auto simp: route_outcome_def)
  obtain w3 where w3: "run_bind (case prevroute r of
              None \<Rightarrow> run_map (\<lambda>w. w\<lparr>routing_table := nextroute r\<rparr>) (upd_link (nextroute r) (\<lambda>x. x\<lparr>prevroute := None\<rparr>) w2)
            | Some p \<Rightarrow>
                run_bind (upd_route p (\<lambda>x. x\<lparr>nextroute := nextroute r\<rparr>) w2)
                  (upd_link (nextroute r) (\<lambda>x. x\<lparr>prevroute := prevroute r\<rparr>))) (\<lambda>w.
          ret (1 :: int, w\<lparr>routes := (routes w)(k := None)\<rparr>)) = ret (1, w3)"
    "route_outcome w2 ((table w)(rt_group r := None)) [] w3" "routes w3 k = None"
    using unlink_outcome [OF o2(1) w2(2) w2(3) [symmetric]] o2(2) w2(4) by (auto simp: returns_def)
  have "removeRoute e (Some k) w = ret (1, w3)"
    using w1(1) r1 w2(1) w3(1) c1(1) by (simp add: removeRoute_def leaves_on_removal_def)
  moreover have "route_outcome w ((table w)(rt_group r := None)) ?cmds w3"
    using route_outcome_trans [OF w1(2) route_outcome_trans [OF w2(5) w3(2)]] by simp
  ultimately show ?thesis using w3(3) by simp
qed

section \<open>Aging\<close>

definition dies :: "Config \<Rightarrow> RouteTable \<Rightarrow> bool" where
  "dies c r \<longleftrightarrow> ageValue (age_round c r) = 0 \<and> \<not> ageActivity (age_round c r) > 0"

definition aged :: "Config \<Rightarrow> RouteTable \<Rightarrow> RouteTable" where
  "aged c r =
     (let r = age_round c r
      in (if ageValue r = 0 then r\<lparr>ageValue := ageActivity r, ageActivity := 0\<rparr> else r)\<lparr>ageVifBits := 0\<rparr>)"

lemma keeps_place_age: "keeps_place (age_round c)"
  by (rule keeps_placeI) (simp_all add: age_round_def payload_def Let_def bits_ok_def bit_simps)

lemma age_round_payload: "age_round c (payload r) = payload (age_round c r)"
  using keeps_place_age [of c] by (simp add: keeps_place_def)

lemma dies_payload: "dies c (payload r) = dies c r"
  by (simp add: dies_def age_round_payload)

lemma keeps_place_aged: "keeps_place (aged c)"
proof (rule keeps_placeI)
  fix r
  have a: "links (age_round c r) = links r" "rt_group (age_round c r) = rt_group r" using keeps_place_age [of c] by (auto simp: keeps_place_def)
  then show "prevroute (aged c r) = prevroute r" "nextroute (aged c r) = nextroute r" "rt_group (aged c r) = rt_group r"
    by (auto simp: aged_def links_def Let_def)
  show "payload (aged c r) = aged c (payload r)"
    by (simp add: aged_def age_round_payload Let_def) (simp add: payload_def)
  show "bits_ok r \<Longrightarrow> bits_ok (aged c r)"
    using keeps_place_age [of c] by (auto simp: keeps_place_def aged_def Let_def bits_ok_def)
qed

text \<open>A round over a route: it lives on, or it is removed and read after it is freed.\<close>

lemma internAgeRoute_step:
  assumes ok: "ifs_ok (IfDescVc w)" and r: "routes w k = Some r" "bits_ok r" and c: "c = commonConfig w" and d: "\<not> dies c r"
  shows "returns (internAgeRoute e k w) (\<lambda>(b, w'). b = (if ageValue (age_round c r) = 0 then 1 else 0) \<and>
    kernel_step w [] ((routes w)(k \<mapsto> aged c r)) w')"
proof -
  let ?r = "age_round c r" and ?w = "w\<lparr>routes := (routes w)(k \<mapsto> age_round c r)\<rparr>"
  let ?w' = "\<lambda>cs. w\<lparr>calls := calls w @ cs, routes := (routes w)(k \<mapsto> aged c r)\<rparr>"
  have "\<exists>cs. commands_of cs = [] \<and> internAgeRoute e k w = ret (if ageValue ?r = 0 then 1 else 0, ?w' cs)"
  proof (cases "ageValue ?r = 0")
    case True
    have u: "internUpdateKernelRoute e k True ?w = ret (?w\<lparr>calls := calls w @ mfc_call True (IfDescVc w) ?r\<rparr>)"
      using internUpdateKernelRoute_eq [of ?w k ?r e True] ok keeps_place_age [of c] r(2) by (simp add: keeps_place_def)
    show ?thesis
      using True d r u by (intro exI [of _ "mfc_call True (IfDescVc w) ?r"]) (simp add: internAgeRoute_def dies_def aged_def Let_def c [symmetric])
  next
    case False
    then show ?thesis using r by (intro exI [of _ "[]"]) (simp add: internAgeRoute_def aged_def Let_def c [symmetric])
  qed
  then obtain cs where cs: "commands_of cs = []" "internAgeRoute e k w = ret (if ageValue ?r = 0 then 1 else 0, ?w' cs)" by blast
  have "kernel_step w [] ((routes w)(k \<mapsto> aged c r)) (?w' cs)"
    unfolding kernel_step_def using cs(1) by (intro exI [of _ cs] exI [of _ "mcGroupSock w"]) simp
  then show ?thesis using cs(2) by simp
qed

lemma internAgeRoute_dies:
  assumes ok: "kernel_ok e" "ifs_ok (IfDescVc w)" "table_ok w" and r: "routes w k = Some r" and d: "dies (commonConfig w) r"
  shows "internAgeRoute e k w = fail UseAfterFree"
proof -
  let ?r = "age_round (commonConfig w) r" and ?w = "w\<lparr>routes := (routes w)(k \<mapsto> age_round (commonConfig w) r)\<rparr>"
  have "table_ok ?w" using upd_outcome [OF ok(3) r keeps_place_age] by (simp add: route_outcome_def)
  then obtain w1 where w1: "removeRoute e (Some k) ?w = ret (1, w1)" "routes w1 k = None"
    using removeRoute_outcome [OF ok(1), of ?w k ?r] ok(2) by (auto simp: returns_def)
  then show ?thesis using r d by (simp add: internAgeRoute_def dies_def get_route_def [of k w1])
qed

text \<open>A round over the table: routes in last-member mode are left to the timer of their group.\<close>

definition age_entry :: "Config \<Rightarrow> RouteTable \<Rightarrow> RouteTable" where
  "age_entry c r = (if upstrState r \<noteq> ROUTESTATE_CHECK_LAST_MEMBER then aged c r else r)"

definition ends :: "Config \<Rightarrow> RouteTable \<Rightarrow> bool" where
  "ends c r \<longleftrightarrow> upstrState r \<noteq> ROUTESTATE_CHECK_LAST_MEMBER \<and> dies c r"

lemma keeps_place_entry: "keeps_place (age_entry c)"
  using keeps_place_aged [of c] by (auto simp: keeps_place_def age_entry_def)

lemma ends_payload: "ends c (payload r) = ends c r"
  by (simp add: ends_def dies_payload)

lemma age_one:
  assumes "ifs_ok (IfDescVc w)" "routes w k = Some r" "bits_ok r" "c = commonConfig w" "\<not> ends c r"
  shows "returns (if upstrState r \<noteq> ROUTESTATE_CHECK_LAST_MEMBER then run_map snd (internAgeRoute e k w) else ret w)
    (kernel_step w [] ((routes w)(k \<mapsto> age_entry c r)))"
proof (cases "upstrState r = ROUTESTATE_CHECK_LAST_MEMBER")
  case True
  have "(routes w)(k \<mapsto> r) = routes w" using assms(2) by auto
  then show ?thesis using True kernel_step_refl [of w] by (simp add: age_entry_def)
next
  case False
  then show ?thesis using internAgeRoute_step [OF assms(1-4), of e] assms(5) by (auto simp: ends_def age_entry_def returns_def)
qed

lemma linked_age: "linked h p ks n \<Longrightarrow> h k = Some r \<Longrightarrow> links r' = links r \<Longrightarrow> linked (h(k \<mapsto> r')) p ks n"
  by (rule linked_cong [THEN iffD2]) auto

lemma age_walk_lives:
  assumes "ifs_ok (IfDescVc w)" "linked (routes w) p ks None" "distinct ks" "c = commonConfig w"
    and "\<And>k r. k \<in> set ks \<Longrightarrow> routes w k = Some r \<Longrightarrow> \<not> ends c r \<and> bits_ok r"
  shows "returns (age_walk e (first_of ks None) w)
    (kernel_step w [] (\<lambda>k. if k \<in> set ks then map_option (age_entry c) (routes w k) else routes w k))"
  using assms
proof (induction ks arbitrary: w p)
  case Nil
  show ?case using kernel_step_refl [of w] by (subst age_walk.simps) simp
next
  case (Cons k ks)
  obtain r where r: "routes w k = Some r" "nextroute r = first_of ks None" using Cons.prems(2) by auto
  obtain w1 where w1: "(if upstrState r \<noteq> ROUTESTATE_CHECK_LAST_MEMBER then run_map snd (internAgeRoute e k w) else ret w) = ret w1"
    "kernel_step w [] ((routes w)(k \<mapsto> age_entry c r)) w1"
    using age_one [OF Cons.prems(1) r(1) _ Cons.prems(4), of e] Cons.prems(5) [of k r] r(1) by (auto simp: returns_def)
  have same: "routes w1 = (routes w)(k \<mapsto> age_entry c r)" "IfDescVc w1 = IfDescVc w" "commonConfig w1 = commonConfig w"
    using kernel_stepD [OF w1(2)] by simp_all
  have lw: "linked (routes w1) (Some k) ks None"
    using Cons.prems(2,3) unfolding same by auto
  have ne: "\<not> ends c z \<and> bits_ok z" if "j \<in> set ks" "routes w1 j = Some z" for j z
  proof -
    have "j \<noteq> k" using that(1) Cons.prems(3) by auto
    then show ?thesis using that Cons.prems(5) [of j z] by (simp add: same)
  qed
  have "returns (age_walk e (first_of ks None) w1)
    (kernel_step w1 [] (\<lambda>k. if k \<in> set ks then map_option (age_entry c) (routes w1 k) else routes w1 k))"
    by (rule Cons.IH [OF _ lw _ _ ne]) (use Cons.prems(1,3,4) same in simp_all)
  then obtain w2 where w2: "age_walk e (first_of ks None) w1 = ret w2"
    "kernel_step w1 [] (\<lambda>k. if k \<in> set ks then map_option (age_entry c) (routes w1 k) else routes w1 k) w2"
    by (auto simp: returns_def)
  have "(\<lambda>j. if j \<in> set ks then map_option (age_entry c) (routes w1 j) else routes w1 j)
      = (\<lambda>j. if j \<in> set (k # ks) then map_option (age_entry c) (routes w j) else routes w j)"
    using r(1) Cons.prems(3) by (auto simp: same fun_eq_iff)
  then have "kernel_step w [] (\<lambda>j. if j \<in> set (k # ks) then map_option (age_entry c) (routes w j) else routes w j) w2"
    using kernel_step_trans [OF w1(2) w2(2)] by simp
  moreover have "age_walk e (first_of (k # ks) None) w = ret w2"
    using r w1(1) w2(1) by (subst age_walk.simps) simp
  ultimately show ?case by simp
qed

lemma age_walk_ends:
  assumes "kernel_ok e" "ifs_ok (IfDescVc w)" "table_ok w" "linked (routes w) p ks None" "distinct ks" "c = commonConfig w"
    and "j \<in> set ks" "routes w j = Some rj" "ends c rj"
  shows "age_walk e (first_of ks None) w = fail UseAfterFree"
  using assms(2-)
proof (induction ks arbitrary: w p)
  case (Cons k ks)
  obtain r where r: "routes w k = Some r" "nextroute r = first_of ks None" using Cons.prems(3) by auto
  show ?case
  proof (cases "ends c r")
    case True
    then have "internAgeRoute e k w = fail UseAfterFree"
      using internAgeRoute_dies [OF assms(1) Cons.prems(1,2) r(1)] Cons.prems(5) by (simp add: ends_def)
    then show ?thesis using True r by (subst age_walk.simps) (simp add: ends_def run_map_def)
  next
    case False
    then have j: "j \<in> set ks" "j \<noteq> k" using Cons.prems(4,6,7,8) r by auto
    obtain w1 where w1: "(if upstrState r \<noteq> ROUTESTATE_CHECK_LAST_MEMBER then run_map snd (internAgeRoute e k w) else ret w) = ret w1"
      "kernel_step w [] ((routes w)(k \<mapsto> age_entry c r)) w1"
      using age_one [OF Cons.prems(1) r(1) table_ok_bits [OF Cons.prems(2) r(1)] Cons.prems(5) False, of e] by (auto simp: returns_def)
    have same: "routes w1 = (routes w)(k \<mapsto> age_entry c r)" "IfDescVc w1 = IfDescVc w" "commonConfig w1 = commonConfig w"
      using kernel_stepD [OF w1(2)] by simp_all
    have tw: "table_ok w1"
      using kernel_step_outcome [OF w1(2) Cons.prems(2) r(1) keeps_place_entry] by (simp add: route_outcome_def)
    have lw: "linked (routes w1) (Some k) ks None" using Cons.prems(3,4) unfolding same by auto
    have "age_walk e (first_of ks None) w1 = fail UseAfterFree"
      by (rule Cons.IH [OF _ tw lw _ _ j(1) _ Cons.prems(8)]) (use Cons.prems(1,4,5,7) j(2) same in simp_all)
    then show ?thesis using r w1(1) by (subst age_walk.simps) simp
  qed
qed simp

lemma age_walk_outcome:
  assumes ok: "kernel_ok e" "ifs_ok (IfDescVc w)" "table_ok w" and c: "c = commonConfig w"
  shows "if \<exists>gr r. table w gr = Some r \<and> ends c r then age_walk e (routing_table w) w = fail UseAfterFree
    else returns (age_walk e (routing_table w) w) (route_outcome w (\<lambda>gr. map_option (age_entry c) (table w gr)) [])"
proof -
  obtain ks where ks: "route_list w ks" using ok by (auto simp: table_ok_def)
  then have l: "linked (routes w) None ks None" "routing_table w = first_of ks None" "distinct ks" "set ks = dom (routes w)"
    by (auto simp: route_list_def)
  show ?thesis
  proof (cases "\<exists>gr r. table w gr = Some r \<and> ends c r")
    case True
    then obtain k r where k: "routes w k = Some r" "ends c r" using ends_payload by (auto simp: table_Some [OF ks])
    then have "k \<in> set ks" using l(4) by auto
    then show ?thesis using True age_walk_ends [OF ok l(1,3) c _ k] l(2) by simp
  next
    case False
    have "\<not> ends c r \<and> bits_ok r" if "routes w k = Some r" for k r
      using False table_at [OF ks that] ends_payload [of c r] table_ok_bits [OF ok(3) that] by metis
    then obtain w' where w': "age_walk e (routing_table w) w = ret w'"
      "kernel_step w [] (\<lambda>k. if k \<in> set ks then map_option (age_entry c) (routes w k) else routes w k) w'"
      using age_walk_lives [OF ok(2) l(1,3) c, of e] l(2) by (auto simp: returns_def)
    have h: "routes w' k = map_option (age_entry c) (routes w k)" for k
      using kernel_stepD(1) [OF w'(2)] l(4) by (cases "routes w k") auto
    have p: "links (age_entry c r) = links r" "rt_group (age_entry c r) = rt_group r" "payload (age_entry c r) = age_entry c (payload r)"
      "bits_ok r \<Longrightarrow> bits_ok (age_entry c r)" for r
      using keeps_place_entry [of c] by (auto simp: keeps_place_def)
    have ks': "route_list w' ks"
    proof (rule route_list_cong [THEN iffD2, OF _ _ _ ks])
      show "routing_table w' = routing_table w" using kernel_stepD [OF w'(2)] by simp
      show "map_option links (routes w' k) = map_option links (routes w k)" for k by (cases "routes w k") (simp_all add: h p)
      show "group_at w' k = group_at w k" for k by (cases "routes w k") (simp_all add: group_at_def h p)
    qed
    have "table w' gr = map_option (age_entry c) (table w gr)" for gr
    proof (rule some_iff_eq)
      fix q
      show "table w' gr = Some q \<longleftrightarrow> map_option (age_entry c) (table w gr) = Some q"
        unfolding table_Some [OF ks'] map_option_eq_Some table_Some [OF ks]
      proof
        assume "\<exists>k r. routes w' k = Some r \<and> rt_group r = gr \<and> payload r = q"
        then obtain k z where "routes w k = Some z" "rt_group z = gr" "q = age_entry c (payload z)" by (auto simp: h p)
        then show "\<exists>z. (\<exists>k r. routes w k = Some r \<and> rt_group r = gr \<and> payload r = z) \<and> age_entry c z = q" by blast
      next
        assume "\<exists>z. (\<exists>k r. routes w k = Some r \<and> rt_group r = gr \<and> payload r = z) \<and> age_entry c z = q"
        then obtain k r where "routes w k = Some r" "rt_group r = gr" "age_entry c (payload r) = q" by blast
        then have "routes w' k = Some (age_entry c r)" "rt_group (age_entry c r) = gr" "payload (age_entry c r) = q" by (simp_all add: h p)
        then show "\<exists>k r. routes w' k = Some r \<and> rt_group r = gr \<and> payload r = q" by blast
      qed
    qed
    moreover have "table_ok w'"
      using ks' ok(3) kernel_stepD(3) [OF w'(2)] by (auto simp: table_ok_def h p)
    ultimately have "route_outcome w (\<lambda>gr. map_option (age_entry c) (table w gr)) [] w'"
      using kernel_stepD(7) [OF w'(2)] kernel_step_frame [OF w'(2)] by (simp add: route_outcome_def fun_eq_iff)
    then show ?thesis using False w'(1) by simp
  qed
qed

end
