(* ===== verification/RouteSpec.thy ===== *)
theory RouteSpec
  imports RouteInv
begin

text \<open>
  The routing table against its specification. \<open>route_op\<close> are the operations that the rest of the proxy calls, \<open>exec_op\<close> runs
  them on the linked routes, and \<open>spec_op\<close> says what they mean on a finite map from groups to routes: the new map, the commands
  for the packet filter, and whether a route that has been freed is read.
\<close>

section \<open>The remaining operations\<close>

definition last_member :: "proxy \<Rightarrow> RouteTable \<Rightarrow> RouteTable \<times> string list" where
  "last_member w r =
     (let c = commonConfig w; leaves = upstrState r = ROUTESTATE_JOINED \<and> fastUpstreamLeave c in
      ((if leaves then upstr_after False w r else r)
         \<lparr>upstrState := ROUTESTATE_CHECK_LAST_MEMBER, ageValue := s32 (uint (lastMemberQueryCount c))\<rparr>,
       if leaves then send_cmds False w r else []))"

lemma keeps_place_last_member:
  "keeps_place (\<lambda>r. r\<lparr>upstrState := ROUTESTATE_CHECK_LAST_MEMBER, ageValue := v\<rparr>)"
  by (rule keeps_placeI) (simp_all add: payload_def bits_ok_def)

lemma table_keep: "table_ok w \<Longrightarrow> routes w k = Some r \<Longrightarrow> (table w)(rt_group r \<mapsto> payload r) = table w"
  using table_at by (auto simp: table_ok_def)

lemma setRouteLastMemberMode_outcome:
  assumes ok: "kernel_ok e" "ifs_ok (IfDescVc w)" "table_ok w"
  shows "returns (setRouteLastMemberMode e gr w) (\<lambda>w'. case table w gr of
      None \<Rightarrow> w' = w
    | Some r \<Rightarrow> (case last_member w r of (p, cmds) \<Rightarrow> route_outcome w ((table w)(gr \<mapsto> p)) cmds w'))"
proof (rule table_findRoute [OF ok(3), of gr])
  assume "findRoute gr w = ret None" "table w gr = None"
  then show ?thesis by (simp add: setRouteLastMemberMode_def)
next
  fix k r
  assume found: "findRoute gr w = ret (Some k)" "routes w k = Some r" "rt_group r = gr" "table w gr = Some (payload r)"
  let ?leaves = "upstrState r = ROUTESTATE_JOINED \<and> fastUpstreamLeave (commonConfig w)"
  define f :: "RouteTable \<Rightarrow> RouteTable" where
    "f = (\<lambda>r. r\<lparr>upstrState := ROUTESTATE_CHECK_LAST_MEMBER, ageValue := s32 (uint (lastMemberQueryCount (commonConfig w)))\<rparr>)"
  have f: "keeps_place f" unfolding f_def by (rule keeps_place_last_member)
  obtain w1 r1 where w1: "(if ?leaves then sendJoinLeaveUpstream e k False w else ret w) = ret w1" "routes w1 k = Some r1" "rt_group r1 = gr"
    "payload r1 = (if ?leaves then upstr_after False w (payload r) else payload r)"
    "route_outcome w ((table w)(gr \<mapsto> payload r1)) (if ?leaves then send_cmds False w (payload r) else []) w1"
  proof (cases ?leaves)
    case True
    obtain w1 where s: "sendJoinLeaveUpstream e k False w = ret w1" "routes w1 = (routes w)(k \<mapsto> upstr_after False w r)"
      "route_outcome w ((table w)(gr \<mapsto> upstr_after False w (payload r))) (send_cmds False w (payload r)) w1"
      using send_outcome [OF ok(1,2) found(2) ok(3), of False] found(3) by (auto simp: returns_def)
    have "rt_group (upstr_after False w r) = gr" "payload (upstr_after False w r) = upstr_after False w (payload r)"
      using keeps_place_upstr [of False w] found(3) by (auto simp: keeps_place_def)
    then show ?thesis using that [of w1 "upstr_after False w r"] True s by simp
  next
    case False
    then show ?thesis
      using that [of w r] found(2,3) route_outcome_refl [OF ok(3)] table_keep [OF ok(3) found(2)] by auto
  qed
  have o1: "table_ok w1" "table w1 = (table w)(gr \<mapsto> payload r1)" using w1(5) by (auto simp: route_outcome_def)
  have c1: "commonConfig w1 = commonConfig w" using w1(5) route_frameD(3) by (auto simp: route_outcome_def)
  let ?w2 = "w1\<lparr>routes := (routes w1)(k \<mapsto> f r1)\<rparr>"
  have "setRouteLastMemberMode e gr w = ret ?w2"
    using found(1,2) w1(1,2) by (simp add: setRouteLastMemberMode_def f_def)
  moreover have "route_outcome w1 ((table w)(gr \<mapsto> f (payload r1))) [] ?w2"
    using upd_outcome [OF o1(1) w1(2) f] o1(2) w1(3) by simp
  then have "route_outcome w ((table w)(gr \<mapsto> f (payload r1))) (if ?leaves then send_cmds False w (payload r) else []) ?w2"
    using route_outcome_trans [OF w1(5)] by fastforce
  moreover have "last_member w (payload r) = (f (payload r1), if ?leaves then send_cmds False w (payload r) else [])"
    using w1(4) by (simp add: last_member_def f_def Let_def)
  ultimately show ?thesis using found(4) by simp
qed

lemma lastMemberGroupAge_outcome:
  assumes ok: "kernel_ok e" "ifs_ok (IfDescVc w)" "table_ok w" and c: "c = commonConfig w"
  shows "case table w gr of
      None \<Rightarrow> lastMemberGroupAge e gr w = ret (False, w)
    | Some r \<Rightarrow>
        if upstrState r \<noteq> ROUTESTATE_CHECK_LAST_MEMBER then lastMemberGroupAge e gr w = ret (False, w)
        else if dies c r then lastMemberGroupAge e gr w = fail UseAfterFree
        else returns (lastMemberGroupAge e gr w) (\<lambda>(b, w'). b = (ageValue (age_round c r) \<noteq> 0)
          \<and> route_outcome w ((table w)(gr \<mapsto> aged c r)) [] w')"
proof (rule table_findRoute [OF ok(3), of gr])
  assume "findRoute gr w = ret None" "table w gr = None"
  then show ?thesis by (simp add: lastMemberGroupAge_def)
next
  fix k r
  assume found: "findRoute gr w = ret (Some k)" "routes w k = Some r" "rt_group r = gr" "table w gr = Some (payload r)"
  have age: "ageValue (age_round c (payload r)) = ageValue (age_round c r)" by (simp add: age_round_payload)
  show ?thesis
  proof (cases "upstrState r = ROUTESTATE_CHECK_LAST_MEMBER")
    case False
    then show ?thesis using found by (simp add: lastMemberGroupAge_def)
  next
    case True
    show ?thesis
    proof (cases "dies c r")
      case d: True
      then have "internAgeRoute e k w = fail UseAfterFree" using internAgeRoute_dies [OF ok found(2)] c by simp
      then show ?thesis using found True d by (simp add: lastMemberGroupAge_def dies_payload run_map_def)
    next
      case d: False
      obtain b w' where s: "internAgeRoute e k w = ret (b, w')" "b = (if ageValue (age_round c r) = 0 then 1 else 0)"
        "kernel_step w [] ((routes w)(k \<mapsto> aged c r)) w'"
        using internAgeRoute_step [OF ok(2) found(2) table_ok_bits [OF ok(3) found(2)] c d, of e] by (auto simp: returns_def)
      have "route_outcome w ((table w)(gr \<mapsto> aged c (payload r))) [] w'"
        using kernel_step_outcome [OF s(3) ok(3) found(2) keeps_place_aged] found(3) by simp
      then show ?thesis using found True d s age by (simp add: lastMemberGroupAge_def dies_payload)
    qed
  qed
qed


definition activated :: "proxy \<Rightarrow> u32 \<Rightarrow> u32 \<Rightarrow> RouteTable option \<Rightarrow> RouteTable \<times> string list" where
  "activated w gr origin ro =
     (case (case ro of None \<Rightarrow> inserted w gr (- 1) None | Some r \<Rightarrow> (r, [])) of
        (p, cmds) \<Rightarrow> (if origin > 0 then p\<lparr>originAddr := origin\<rparr> else p, cmds))"

lemma keeps_place_origin: "keeps_place (\<lambda>r. r\<lparr>originAddr := v\<rparr>)"
  by (rule keeps_placeI) (simp_all add: payload_def bits_ok_def)

lemma findRoute_at:
  assumes "table_ok w" "table w gr = Some p"
  obtains k r where "findRoute gr w = ret (Some k)" "routes w k = Some r" "rt_group r = gr" "payload r = p"
  by (rule table_findRoute [OF assms(1), of gr]) (use assms(2) that in auto)

lemma activate_entry:
  assumes ok: "kernel_ok e" "ifs_ok (IfDescVc w)" "table_ok w" and gr: "IN_MULTICAST (ntohl gr)"
    and p: "(case table w gr of None \<Rightarrow> inserted w gr (- 1) None | Some r \<Rightarrow> (r, [])) = (p, cmds)"
  shows "returns (run_bind (findRoute gr w) (\<lambda>found. case found of
         None \<Rightarrow> run_bind (insertRoute e gr (- 1) w) (\<lambda>(r, w). run_map (\<lambda>k. (k, w)) (findRoute gr w))
       | Some k \<Rightarrow> ret (Some k, w))) (\<lambda>(f, v). route_outcome w ((table w)(gr \<mapsto> p)) cmds v \<and>
      (\<exists>k r. f = Some k \<and> routes v k = Some r \<and> rt_group r = gr \<and> payload r = p))"
proof (rule table_findRoute [OF ok(3), of gr])
  assume none: "findRoute gr w = ret None" "table w gr = None"
  then obtain b v where v: "insertRoute e gr (- 1) w = ret (b, v)" "route_outcome w ((table w)(gr \<mapsto> p)) cmds v"
    using insertRoute_outcome [OF ok gr, of "- 1"] p by (auto simp: returns_def vif_index_def MAX_MC_VIFS_def)
  then have "table_ok v" "table v gr = Some p" by (auto simp: route_outcome_def)
  then obtain k r where "findRoute gr v = ret (Some k)" "routes v k = Some r" "rt_group r = gr" "payload r = p"
    by (rule findRoute_at)
  then show ?thesis using none(1) v by simp
next
  fix k r
  assume found: "findRoute gr w = ret (Some k)" "routes w k = Some r" "rt_group r = gr" "table w gr = Some (payload r)"
  then show ?thesis using p route_outcome_refl [OF ok(3)] table_keep [OF ok(3) found(2)] by auto
qed

lemma activateRoute_outcome:
  assumes ok: "kernel_ok e" "ifs_ok (IfDescVc w)" "table_ok w" and gr: "IN_MULTICAST (ntohl gr)"
  shows "returns (activateRoute e gr origin w) (\<lambda>(b, w'). case activated w gr origin (table w gr) of (p, cmds) \<Rightarrow>
    b = (if vifBits p > 0 then 1 else 0) \<and> route_outcome w ((table w)(gr \<mapsto> p)) cmds w')"
proof -
  obtain p cmds where p: "(case table w gr of None \<Rightarrow> inserted w gr (- 1) None | Some r \<Rightarrow> (r, [])) = (p, cmds)"
    by fastforce
  obtain v k r where v: "run_bind (findRoute gr w) (\<lambda>found. case found of
         None \<Rightarrow> run_bind (insertRoute e gr (- 1) w) (\<lambda>(r, w). run_map (\<lambda>k. (k, w)) (findRoute gr w))
       | Some k \<Rightarrow> ret (Some k, w)) = ret (Some k, v)"
    "route_outcome w ((table w)(gr \<mapsto> p)) cmds v" "routes v k = Some r" "rt_group r = gr" "payload r = p"
    using activate_entry [OF ok gr p] by (auto simp: returns_def)
  define f :: "RouteTable \<Rightarrow> RouteTable" where "f = (\<lambda>r. if origin > 0 then r\<lparr>originAddr := origin\<rparr> else r)"
  have f: "keeps_place f" unfolding f_def using keeps_place_origin [of origin] by (auto simp: keeps_place_def)
  have vo: "table_ok v" "table v = (table w)(gr \<mapsto> p)" "route_frame w v" using v(2) by (auto simp: route_outcome_def)
  let ?v = "v\<lparr>routes := (routes v)(k \<mapsto> f r)\<rparr>"
  have same: "(routes v)(k \<mapsto> r) = routes v" using v(3) by auto
  have s1: "(if origin > 0 then upd_route k (\<lambda>r. r\<lparr>originAddr := origin\<rparr>) v else ret v) = ret ?v"
    using v(3) by (simp add: f_def same)
  have o1: "route_outcome v ((table w)(gr \<mapsto> f p)) [] ?v"
    using upd_outcome [OF vo(1) v(3) f] vo(2) v(4,5) by simp
  have o2: "route_outcome w ((table w)(gr \<mapsto> f p)) cmds ?v" using route_outcome_trans [OF v(2) o1] by simp
  have vb: "vifBits (f p) = vifBits (f r)" using v(5) by (auto simp: f_def)
  have act: "activated w gr origin (table w gr) = (f p, cmds)" using p by (simp add: activated_def f_def)
  have ifs: "ifs_ok (IfDescVc ?v)" "table_ok ?v" using ok(2) vo(3) o2 route_frameD(1) by (auto simp: route_outcome_def)
  have eq: "activateRoute e gr origin w = (if vifBits (f r) > 0 then run_map (Pair 1) (internUpdateKernelRoute e k True ?v) else ret (0, ?v))"
    unfolding activateRoute_def run_bind_assoc [symmetric] v(1) using s1 v(3) by simp
  show ?thesis
  proof (cases "vifBits (f r) > 0")
    case True
    obtain w' where "internUpdateKernelRoute e k True ?v = ret w'" "route_outcome ?v (table ?v) [] w'"
      using update_outcome [OF ifs(1) _ ifs(2), of k "f r" e True] by (auto simp: returns_def)
    moreover have "table ?v = (table w)(gr \<mapsto> f p)" using o2 by (simp add: route_outcome_def)
    ultimately show ?thesis using route_outcome_trans [OF o2, of "(table w)(gr \<mapsto> f p)" "[]" w'] True eq act vb by simp
  next
    case False
    then show ?thesis using o2 eq act vb by simp
  qed
qed

lemma not_multicast:
  assumes "table_ok w" "\<not> IN_MULTICAST (ntohl gr)"
  shows "table w gr = None" "findRoute gr w = ret None"
  by (rule table_findRoute [OF assms(1), of gr]; use assms in \<open>auto simp: table_ok_def\<close>)+

lemma activateRoute_refused: "table_ok w \<Longrightarrow> \<not> IN_MULTICAST (ntohl gr) \<Longrightarrow> activateRoute e gr origin w = ret (0, w)"
  using not_multicast [of w gr] by (simp add: activateRoute_def insertRoute_def)

section \<open>Sequences of operations\<close>

text \<open>A report for a group from an interface (\<open>acceptGroupReport\<close>), a packet to it (the upcall of the kernel), its going into last-member mode
  and its timer (\<open>acceptLeaveMessage\<close>, \<open>sendGroupSpecificMemberQuery\<close>), and a round over the table (\<open>ageActiveRoutes\<close>).\<close>

datatype route_op = Report u32 int | Packet u32 u32 | LastMember u32 | LastMemberTimer u32 | AgeRound

text \<open>A report does not come from the interface with the last index of all, which the bit of unused interfaces stands for.\<close>

definition op_ok :: "route_op \<Rightarrow> bool" where
  "op_ok x \<longleftrightarrow> (case x of Report gr ifx \<Rightarrow> ifx \<noteq> int MAX_MC_VIFS - 1 | _ \<Rightarrow> True)"

lemma op_ok_simps [simp]: "op_ok (Report gr ifx) \<longleftrightarrow> ifx \<noteq> 31" "op_ok (Packet gr a)" "op_ok (LastMember gr)" "op_ok (LastMemberTimer gr)" "op_ok AgeRound"
  by (simp_all add: op_ok_def MAX_MC_VIFS_def)

lemma op_ok_timers [simp]: "list_all op_ok (replicate n (LastMemberTimer gr))"
  by (induction n) simp_all

definition exec_op :: "penv \<Rightarrow> route_op \<Rightarrow> proxy \<Rightarrow> proxy run" where
  "exec_op e x w =
     (case x of
        Report gr ifx \<Rightarrow> run_map snd (insertRoute e gr ifx w)
      | Packet gr origin \<Rightarrow> run_map snd (activateRoute e gr origin w)
      | LastMember gr \<Rightarrow> setRouteLastMemberMode e gr w
      | LastMemberTimer gr \<Rightarrow> run_map snd (lastMemberGroupAge e gr w)
      | AgeRound \<Rightarrow> age_walk e (routing_table w) w)"

fun exec_ops :: "penv \<Rightarrow> route_op list \<Rightarrow> proxy \<Rightarrow> proxy run" where
  "exec_ops e [] w = ret w"
| "exec_ops e (x # xs) w = run_bind (exec_op e x w) (exec_ops e xs)"

type_synonym route_map = "u32 \<Rightarrow> RouteTable option"

definition spec_op :: "proxy \<Rightarrow> route_op \<Rightarrow> route_map \<Rightarrow> (route_map \<times> string list) option" where
  "spec_op w x m =
     (case x of
        Report gr ifx \<Rightarrow>
          if IN_MULTICAST (ntohl gr) \<and> ifx < int MAX_MC_VIFS
          then (case inserted w gr ifx (m gr) of (p, cmds) \<Rightarrow> Some (m(gr \<mapsto> p), cmds)) else Some (m, [])
      | Packet gr origin \<Rightarrow>
          if IN_MULTICAST (ntohl gr)
          then (case activated w gr origin (m gr) of (p, cmds) \<Rightarrow> Some (m(gr \<mapsto> p), cmds)) else Some (m, [])
      | LastMember gr \<Rightarrow>
          (case m gr of None \<Rightarrow> Some (m, [])
           | Some r \<Rightarrow> (case last_member w r of (p, cmds) \<Rightarrow> Some (m(gr \<mapsto> p), cmds)))
      | LastMemberTimer gr \<Rightarrow>
          (case m gr of None \<Rightarrow> Some (m, [])
           | Some r \<Rightarrow>
               if upstrState r \<noteq> ROUTESTATE_CHECK_LAST_MEMBER then Some (m, [])
               else if dies (commonConfig w) r then None
               else Some (m(gr \<mapsto> aged (commonConfig w) r), []))
      | AgeRound \<Rightarrow>
          if \<exists>gr r. m gr = Some r \<and> ends (commonConfig w) r then None
          else Some (\<lambda>gr. map_option (age_entry (commonConfig w)) (m gr), []))"

fun spec_ops :: "proxy \<Rightarrow> route_op list \<Rightarrow> route_map \<Rightarrow> (route_map \<times> string list) option" where
  "spec_ops w [] m = Some (m, [])"
| "spec_ops w (x # xs) m =
     (case spec_op w x m of None \<Rightarrow> None
      | Some (m, a) \<Rightarrow> (case spec_ops w xs m of None \<Rightarrow> None | Some (m, b) \<Rightarrow> Some (m, a @ b)))"

definition meets :: "proxy \<Rightarrow> proxy run \<Rightarrow> (route_map \<times> string list) option \<Rightarrow> bool" where
  "meets w run spec \<longleftrightarrow>
     (case spec of None \<Rightarrow> run = fail UseAfterFree | Some (m, cmds) \<Rightarrow> returns run (route_outcome w m cmds))"

lemma exec_op_meets:
  assumes ok: "kernel_ok e" "ifs_ok (IfDescVc w)" "table_ok w" and x: "op_ok x"
  shows "meets w (exec_op e x w) (spec_op w x (table w))"
proof (cases x)
  case (Report gr ifx)
  show ?thesis
  proof (cases "IN_MULTICAST (ntohl gr) \<and> ifx < int MAX_MC_VIFS")
    case True
    moreover have "vif_index ifx" using True x by (simp add: Report vif_index_def MAX_MC_VIFS_def)
    ultimately show ?thesis using insertRoute_outcome [OF ok, of gr ifx]
      by (auto simp: Report meets_def exec_op_def spec_op_def returns_def split: prod.splits)
  next
    case False
    then have "insertRoute e gr ifx w = ret (0, w)" by (auto simp: insertRoute_def)
    moreover have "spec_op w x (table w) = Some (table w, [])" using False by (auto simp: Report spec_op_def)
    ultimately show ?thesis using route_outcome_refl [OF ok(3)] by (simp add: Report meets_def exec_op_def)
  qed
next
  case (Packet gr origin)
  then show ?thesis
    using activateRoute_outcome [OF ok, of gr origin] activateRoute_refused [OF ok(3), of gr e origin] route_outcome_refl [OF ok(3)]
    by (cases "IN_MULTICAST (ntohl gr)") (auto simp: meets_def exec_op_def spec_op_def returns_def split: prod.splits)
next
  case (LastMember gr)
  then show ?thesis
    using setRouteLastMemberMode_outcome [OF ok, of gr] route_outcome_refl [OF ok(3)]
    by (cases "table w gr") (auto simp: meets_def exec_op_def spec_op_def returns_def split: prod.splits)
next
  case (LastMemberTimer gr)
  then show ?thesis
    using lastMemberGroupAge_outcome [OF ok refl, of gr] route_outcome_refl [OF ok(3)]
    by (cases "table w gr") (auto simp: meets_def exec_op_def spec_op_def returns_def run_map_def split: if_splits)
next
  case AgeRound
  then show ?thesis
    using age_walk_outcome [OF ok refl] by (simp add: meets_def exec_op_def spec_op_def split: if_splits)
qed

lemma spec_op_frame:
  assumes "route_frame w w'"
  shows "spec_op w' x m = spec_op w x m"
proof -
  have "inserted w' = inserted w" "activated w' = activated w" "last_member w' = last_member w"
    by (simp_all add: fun_eq_iff inserted_def activated_def last_member_def listened_def new_route_def Let_def
        frame_upstr [OF assms] route_frameD [OF assms] split: option.split)
  then show ?thesis by (cases x) (simp_all add: spec_op_def route_frameD [OF assms] split: option.split)
qed

lemma spec_ops_frame: "route_frame w w' \<Longrightarrow> spec_ops w' xs m = spec_ops w xs m"
  by (induction xs arbitrary: m) (auto simp: spec_op_frame split: option.splits)

lemma exec_ops_meets:
  assumes ok: "kernel_ok e" "ifs_ok (IfDescVc w)" "table_ok w" "list_all op_ok xs"
  shows "meets w (exec_ops e xs w) (spec_ops w xs (table w))"
  using ok(2-)
proof (induction xs arbitrary: w)
  case Nil
  then show ?case using route_outcome_refl by (simp add: meets_def)
next
  case (Cons x xs)
  show ?case
  proof (cases "spec_op w x (table w)")
    case None
    then show ?thesis using exec_op_meets [OF ok(1) Cons.prems(1,2), of x] Cons.prems(3) by (simp add: meets_def)
  next
    case (Some s)
    obtain m a where s: "s = (m, a)" by fastforce
    obtain v where v: "exec_op e x w = ret v" "route_outcome w m a v"
      using exec_op_meets [OF ok(1) Cons.prems(1,2), of x] Cons.prems(3) Some s by (auto simp: meets_def returns_def)
    have f: "route_frame w v" "table_ok v" "table v = m" using v(2) by (auto simp: route_outcome_def)
    have "ifs_ok (IfDescVc v)" using Cons.prems(1) route_frameD(1) [OF f(1)] by simp
    then have "meets v (exec_ops e xs v) (spec_ops w xs m)" using Cons.IH [of v] Cons.prems(3) f spec_ops_frame [OF f(1)] by simp
    then show ?thesis
      using Some s v(1) route_outcome_trans [OF v(2)] by (auto simp: meets_def returns_def split: option.splits)
  qed
qed

section \<open>The table is a finite map\<close>

text \<open>C5. The routing table with its double links and its order implements a finite map from groups to routes: whatever sequence of
  reports, packets, last-member queries, timers and aging rounds runs on a well-formed table, the program does what the
  specification says on the map, runs exactly the commands for the packet filter that it lists, in their order, and keeps the table
  well formed and everything outside it, or it reads a route that is freed, exactly when in the specification a route comes
  to its end. Reports from the virtual interface 31 are left out: its bit also stands for the interfaces that have no index.\<close>

theorem routing_table_refines:
  assumes "kernel_ok e" "ifs_ok (IfDescVc w)" "table_ok w" "list_all op_ok xs"
  shows "case spec_ops w xs (table w) of
      None \<Rightarrow> exec_ops e xs w = fail UseAfterFree
    | Some (m, cmds) \<Rightarrow> returns (exec_ops e xs w) (\<lambda>w'. table_ok w' \<and> table w' = m
        \<and> commands_of (calls w') = commands_of (calls w) @ cmds \<and> route_frame w w')"
  using exec_ops_meets [OF assms] by (cases "spec_ops w xs (table w)") (auto simp: meets_def route_outcome_def returns_def)

text \<open>A router with its LAN on the first and the provider's network on the second interface.\<close>

definition sample_router :: proxy where
  "sample_router = sample_proxy\<lparr>upStreamVif := 1, mcGroupSock := 5, IfDescVc :=
     [\<lparr>if_Name = ''br0'', InAdr = 0x0101A8C0, if_Flags = 0, if_state = IF_STATE_DOWNSTREAM, allowednets = [], if_robustness = 2,
        if_threshold = 1, if_ratelimit = 0, if_index = 0\<rparr>,
      \<lparr>if_Name = ''eth2.2'', InAdr = 0x0200000A, if_Flags = 0, if_state = IF_STATE_UPSTREAM, allowednets = [], if_robustness = 2,
        if_threshold = 1, if_ratelimit = 0, if_index = 1\<rparr>,
      \<lparr>if_Name = ''lo'', InAdr = 0x0100007F, if_Flags = 8, if_state = IF_STATE_DOWNSTREAM, allowednets = [], if_robustness = 2,
        if_threshold = 1, if_ratelimit = 0, if_index = - 1\<rparr>]\<rparr>"

definition sample_group :: u32 where "sample_group = 0x050101E8"

lemma sample_router_ok: "kernel_ok sample_penv" "ifs_ok (IfDescVc sample_router)" "table_ok sample_router" "table sample_router = (\<lambda>gr. None)"
proof -
  have l: "route_list sample_router []" by (simp add: route_list_def sample_router_def sample_proxy_def)
  then show "table_ok sample_router" by (auto simp: table_ok_def sample_router_def sample_proxy_def)
  show "table sample_router = (\<lambda>gr. None)"
    by (intro ext some_iff_eq) (simp add: table_Some [OF l], simp add: sample_router_def sample_proxy_def)
  show "kernel_ok sample_penv" by (simp add: kernel_ok_def sample_penv_def no_oom_def)
  show "ifs_ok (IfDescVc sample_router)" by (simp add: ifs_ok_def sample_router_def MAX_MC_VIFS_def)
qed

lemma sample_op_ok: "list_all op_ok [Report sample_group 0]"
  by simp

lemma sample_group_multicast: "IN_MULTICAST (ntohl sample_group)"
  by (simp add: sample_group_def IN_MULTICAST_def ntohl_def rd_be32_def le32_def)

lemma sample_spec:
  "spec_ops sample_router [Report sample_group 0, LastMember sample_group, Report sample_group 0] (\<lambda>gr. None)
   = Some ((\<lambda>gr. None)(sample_group \<mapsto> \<lparr>nextroute = None, prevroute = None, rt_group = sample_group, originAddr = 0, vifBits = 1,
       upstrState = ROUTESTATE_JOINED, ageVifBits = 1, ageValue = 2, ageActivity = 0\<rparr>),
     [iptables_cmd ''-I'' ''eth2.2'' sample_group, iptables_cmd ''-I'' ''eth2.2'' sample_group])"
  using sample_group_multicast
  by (simp add: spec_op_def inserted_def listened_def new_route_def upstr_after_def send_cmds_def last_member_def Let_def getIfByIx_def
      sample_router_def sample_proxy_def MAX_MC_VIFS_def BIT_SET_def one_shl_def)

theorem routing_table_refines_witness:
  "\<exists>w'. exec_ops sample_penv [Report sample_group 0, LastMember sample_group, Report sample_group 0] sample_router = ret w'
    \<and> map_option vifBits (table w' sample_group) = Some 1 \<and> map_option upstrState (table w' sample_group) = Some ROUTESTATE_JOINED"
  using routing_table_refines [OF sample_router_ok(1-3), of "[Report sample_group 0, LastMember sample_group, Report sample_group 0]",
      unfolded sample_router_ok(4) sample_spec]
  by (auto simp: returns_def simp del: exec_ops.simps)

section \<open>Groups that nobody listens to any more\<close>

text \<open>A route in last-member mode that no report has reached, with \<open>n\<close> rounds to live.\<close>

definition waning :: "int \<Rightarrow> RouteTable \<Rightarrow> bool" where
  "waning n r \<longleftrightarrow> upstrState r = ROUTESTATE_CHECK_LAST_MEMBER \<and> ageValue r = n \<and> ageVifBits r = 0 \<and> ageActivity r = 0"

lemma waning_round:
  assumes "waning n r" "1 \<le> n" "n < 2 ^ 31"
  shows "dies c r \<longleftrightarrow> n = 1" "n \<noteq> 1 \<Longrightarrow> waning (n - 1) (aged c r)"
  using assms by (simp_all add: waning_def dies_def aged_def age_round_def Let_def)

lemma waning_timers:
  assumes "waning (int (Suc n)) r" "m gr = Some r" "Suc n < 2 ^ 31"
  shows "spec_ops w (replicate (Suc n) (LastMemberTimer gr)) m = None"
  using assms
proof (induction n arbitrary: r m)
  case 0
  have "dies (commonConfig w) r" using waning_round(1) [OF 0(1)] by simp
  then show ?case using 0(1,2) by (simp add: spec_op_def waning_def)
next
  case (Suc n)
  have r: "\<not> dies (commonConfig w) r" "waning (int (Suc n)) (aged (commonConfig w) r)"
    using waning_round [OF Suc.prems(1), of "commonConfig w"] Suc.prems(3) by simp_all
  have "spec_op w (LastMemberTimer gr) m = Some (m(gr \<mapsto> aged (commonConfig w) r), [])"
    using Suc.prems(1,2) r(1) by (simp add: spec_op_def waning_def)
  moreover have "spec_ops w (replicate (Suc n) (LastMemberTimer gr)) (m(gr \<mapsto> aged (commonConfig w) r)) = None"
    using Suc.IH [OF r(2)] Suc.prems(3) by simp
  ultimately show ?case unfolding replicate_Suc [of "Suc n"] spec_ops.simps(2) [of w _ "replicate (Suc n) _"]
    by (simp only: option.case prod.case)
qed

text \<open>C23. When the last listener of a group leaves and nobody reports it again, the last of the timer's rounds (as many as the last-member query
  count says) removes the route and then reads the removed route: the program never drops a group in a defined way.\<close>

theorem left_group_read_after_free:
  assumes "kernel_ok e" "ifs_ok (IfDescVc w)" "table_ok w" "table w gr = Some r" "ageVifBits r = 0" "ageActivity r = 0"
    and "lastMemberQueryCount (commonConfig w) = of_nat n" "0 < n" "n < 2 ^ 31"
  shows "exec_ops e (LastMember gr # replicate n (LastMemberTimer gr)) w = fail UseAfterFree"
proof -
  obtain j where j: "n = Suc j" using assms(8) by (cases n) auto
  have "uint (of_nat n :: u32) = int n" using assms(9) by (simp add: unsigned_of_nat take_bit_nat_eq_self)
  then obtain p cmds where p: "last_member w r = (p, cmds)" "waning (int (Suc j)) p"
    using assms(5,6,7,9) j by (auto simp: last_member_def waning_def Let_def upstr_after_def)
  have "spec_ops w (LastMember gr # replicate n (LastMemberTimer gr)) (table w) = None"
    using waning_timers [OF p(2), of "(table w)(gr \<mapsto> p)" gr w] assms(4,9) p(1) j by (simp add: spec_op_def)
  then show ?thesis using exec_ops_meets [OF assms(1-3), of "LastMember gr # replicate n (LastMemberTimer gr)"]
    by (simp add: meets_def)
qed


lemma sample_report:
  "spec_ops sample_router [Report sample_group 0] (\<lambda>gr. None)
   = Some ((\<lambda>gr. None)(sample_group \<mapsto> \<lparr>nextroute = None, prevroute = None, rt_group = sample_group, originAddr = 0, vifBits = 1,
       upstrState = ROUTESTATE_JOINED, ageVifBits = 0, ageValue = 2, ageActivity = 0\<rparr>),
     [iptables_cmd ''-I'' ''eth2.2'' sample_group])"
  using sample_group_multicast
  by (simp add: spec_op_def inserted_def listened_def new_route_def upstr_after_def send_cmds_def Let_def getIfByIx_def
      sample_router_def sample_proxy_def MAX_MC_VIFS_def BIT_SET_def one_shl_def)

theorem left_group_read_after_free_witness:
  "exec_ops sample_penv [Report sample_group 0, LastMember sample_group, LastMemberTimer sample_group, LastMemberTimer sample_group] sample_router
   = fail UseAfterFree"
proof -
  obtain w where w: "exec_op sample_penv (Report sample_group 0) sample_router = ret w" "table_ok w"
    "table w sample_group = Some \<lparr>nextroute = None, prevroute = None, rt_group = sample_group, originAddr = 0, vifBits = 1,
       upstrState = ROUTESTATE_JOINED, ageVifBits = 0, ageValue = 2, ageActivity = 0\<rparr>" "route_frame sample_router w"
    using exec_ops_meets [OF sample_router_ok(1-3) sample_op_ok, unfolded sample_router_ok(4) sample_report]
    by (auto simp: meets_def returns_def route_outcome_def run_bind_eq_ret)
  have "ifs_ok (IfDescVc w)" "lastMemberQueryCount (commonConfig w) = of_nat 2"
    using sample_router_ok(2) route_frameD(1,3) [OF w(4)] by (simp_all add: sample_router_def sample_proxy_def)
  moreover have "replicate 2 x = [x, x]" for x :: route_op by (simp add: numeral_2_eq_2)
  ultimately show ?thesis
    using left_group_read_after_free [OF sample_router_ok(1) _ w(2,3), of 2] w(1) by simp
qed

section \<open>The packet filter\<close>

text \<open>An address is printed in a way that identifies it.\<close>

definition decimal :: "string \<Rightarrow> nat" where
  "decimal = foldl (\<lambda>a x. 10 * a + (of_char x - 48)) 0"

lemma decimal_dec_digits: "decimal (dec_digits n) = n"
proof (induction n rule: dec_digits.induct)
  case (1 n)
  then show ?case by (subst dec_digits.simps) (auto simp: decimal_def)
qed

lemma dec_digits_inject: "dec_digits m = dec_digits n \<longleftrightarrow> m = n"
  by (metis decimal_dec_digits)

lemma dec_digits_no_dot: "CHR ''.'' \<notin> set (dec_digits n)"
proof (induction n rule: dec_digits.induct)
  case (1 n)
  have "CHR ''.'' \<noteq> char_of (48 + m)" if "m < 10" for m :: nat
  proof
    assume "CHR ''.'' = (char_of (48 + m) :: char)"
    then have "of_char CHR ''.'' = (of_char (char_of (48 + m) :: char) :: nat)" by simp
    then show False using that by simp
  qed
  then show ?case using 1 by (subst dec_digits.simps) auto
qed

lemma split_at_dot:
  assumes "a @ CHR ''.'' # b = a' @ CHR ''.'' # b'" "CHR ''.'' \<notin> set a" "CHR ''.'' \<notin> set a'"
  shows "a = a' \<and> b = b'"
proof -
  have "takeWhile (\<lambda>x. x \<noteq> CHR ''.'') (u @ CHR ''.'' # v) = u" if "CHR ''.'' \<notin> set u" for u v
    using that by (subst takeWhile_append2) auto
  then have "a = a'" using assms by metis
  then show ?thesis using assms(1) by simp
qed

lemma byte_eq: "unat a = unat b \<longleftrightarrow> a = (b :: byte)"
  by (metis unsigned_word_eqI)

lemma inetFmt_inject: "inetFmt a = inetFmt b \<longleftrightarrow> a = b"
proof
  assume eq: "inetFmt a = inetFmt b"
  obtain a0 a1 a2 a3 where a: "le32 a = [a0, a1, a2, a3]" by (simp add: le32_def)
  obtain b0 b1 b2 b3 where b: "le32 b = [b0, b1, b2, b3]" by (simp add: le32_def)
  let ?d = "\<lambda>x :: byte. dec_digits (unat x)"
  have "?d a0 @ CHR ''.'' # (?d a1 @ CHR ''.'' # (?d a2 @ CHR ''.'' # ?d a3)) = ?d b0 @ CHR ''.'' # (?d b1 @ CHR ''.'' # (?d b2 @ CHR ''.'' # ?d b3))"
    using eq a b by (simp add: inetFmt_def)
  then have "a0 = b0 \<and> a1 = b1 \<and> a2 = b2 \<and> a3 = b3"
    using split_at_dot [OF _ dec_digits_no_dot dec_digits_no_dot] by (metis dec_digits_inject byte_eq)
  then have "le32 a = le32 b" using a b by simp
  then show "a = b" by (metis rd_le32_le32)
qed simp

lemma iptables_cmd_inject:
  assumes "length opt = length opt'"
  shows "iptables_cmd opt name a = iptables_cmd opt' name b \<longleftrightarrow> opt = opt' \<and> a = b"
  using assms inetFmt_inject [of a b] by (auto simp: iptables_cmd_def)


text \<open>The accepting rules that the commands leave for a group, and the rule that the state of a route asks for.\<close>

definition rule_balance :: "string \<Rightarrow> string list \<Rightarrow> u32 \<Rightarrow> int" where
  "rule_balance name cmds gr = int (count_list cmds (iptables_cmd ''-I'' name gr)) - int (count_list cmds (iptables_cmd ''-D'' name gr))"

definition wanted :: "RouteTable option \<Rightarrow> int" where
  "wanted ro = (case ro of None \<Rightarrow> 0 | Some r \<Rightarrow> if upstrState r = ROUTESTATE_JOINED then 1 else 0)"

definition keyed :: "route_map \<Rightarrow> bool" where
  "keyed m \<longleftrightarrow> (\<forall>gr r. m gr = Some r \<longrightarrow> rt_group r = gr)"

lemma table_keyed: "table_ok w \<Longrightarrow> keyed (table w)"
  by (auto simp: keyed_def table_ok_def table_Some)

lemma rule_balance_simps [simp]:
  "rule_balance name [] gr = 0" "rule_balance name (a @ b) gr = rule_balance name a gr + rule_balance name b gr"
  "rule_balance name [iptables_cmd ''-I'' name gr'] gr = (if gr = gr' then 1 else 0)"
  "rule_balance name [iptables_cmd ''-D'' name gr'] gr = (if gr = gr' then - 1 else 0)"
  by (auto simp: rule_balance_def iptables_cmd_inject)

lemma inserted_balance:
  assumes "getIfByIx (upStreamVif w) w = Some d" "\<And>r. ro = Some r \<Longrightarrow> rt_group r = gr" "inserted w gr ifx ro = (p, cmds)"
  shows "rt_group p = gr" "wanted (Some p) = wanted ro + rule_balance (if_Name d) cmds gr" "gr' \<noteq> gr \<Longrightarrow> rule_balance (if_Name d) cmds gr' = 0"
  using assms by (auto simp: inserted_def listened_def new_route_def upstr_after_def send_cmds_def wanted_def Let_def split: if_splits option.splits)

lemma activated_balance:
  assumes "getIfByIx (upStreamVif w) w = Some d" "\<And>r. ro = Some r \<Longrightarrow> rt_group r = gr" "activated w gr origin ro = (p, cmds)"
  shows "rt_group p = gr" "wanted (Some p) = wanted ro + rule_balance (if_Name d) cmds gr" "gr' \<noteq> gr \<Longrightarrow> rule_balance (if_Name d) cmds gr' = 0"
proof -
  obtain q where q: "(case ro of None \<Rightarrow> inserted w gr (- 1) None | Some r \<Rightarrow> (r, [])) = (q, cmds)" "p = (if origin > 0 then q\<lparr>originAddr := origin\<rparr> else q)"
    using assms(3) by (auto simp: activated_def split: prod.splits)
  have "rt_group q = gr \<and> wanted (Some q) = wanted ro + rule_balance (if_Name d) cmds gr \<and> (gr' \<noteq> gr \<longrightarrow> rule_balance (if_Name d) cmds gr' = 0)"
    using q(1) inserted_balance(1,2) [OF assms(1), of None gr "- 1" q cmds] inserted_balance(3) [OF assms(1), of None gr "- 1" q cmds gr'] assms(2) by (cases ro) auto
  then show "rt_group p = gr" "wanted (Some p) = wanted ro + rule_balance (if_Name d) cmds gr" "gr' \<noteq> gr \<Longrightarrow> rule_balance (if_Name d) cmds gr' = 0"
    using q(2) by (auto simp: wanted_def)
qed

lemma last_member_balance:
  assumes "getIfByIx (upStreamVif w) w = Some d" "fastUpstreamLeave (commonConfig w)" "rt_group r = gr" "last_member w r = (p, cmds)"
  shows "rt_group p = gr" "wanted (Some p) = wanted (Some r) + rule_balance (if_Name d) cmds gr" "gr' \<noteq> gr \<Longrightarrow> rule_balance (if_Name d) cmds gr' = 0"
  using assms by (auto simp: last_member_def upstr_after_def send_cmds_def wanted_def Let_def split: if_splits)

lemma aged_state [simp]: "upstrState (aged c r) = upstrState r" "rt_group (aged c r) = rt_group r"
  by (simp_all add: aged_def age_round_def Let_def)

lemma spec_op_balance:
  assumes up: "getIfByIx (upStreamVif w) w = Some d" "fastUpstreamLeave (commonConfig w)" and m: "keyed m" and s: "spec_op w x m = Some (m', cmds)"
  shows "keyed m' \<and> (\<forall>gr. wanted (m' gr) = wanted (m gr) + rule_balance (if_Name d) cmds gr)"
proof -
  have one: "keyed m' \<and> (\<forall>gr. wanted (m' gr) = wanted (m gr) + rule_balance (if_Name d) cmds gr)"
    if "m' = m(gr \<mapsto> p)" "rt_group p = gr" "wanted (Some p) = wanted (m gr) + rule_balance (if_Name d) cmds gr"
      "\<And>gr'. gr' \<noteq> gr \<Longrightarrow> rule_balance (if_Name d) cmds gr' = 0" for gr p
    using that m by (auto simp: keyed_def)
  have key: "\<And>r. m gr = Some r \<Longrightarrow> rt_group r = gr" for gr using m by (simp add: keyed_def)
  show ?thesis
  proof (cases x)
    case (Report gr ifx)
    then show ?thesis
      using s m one inserted_balance [OF up(1) key] by (auto simp: spec_op_def split: if_splits prod.splits)
  next
    case (Packet gr origin)
    then show ?thesis
      using s m one activated_balance [OF up(1) key] by (auto simp: spec_op_def split: if_splits prod.splits)
  next
    case (LastMember gr)
    show ?thesis
    proof (cases "m gr")
      case None
      then show ?thesis using s m LastMember by (simp add: spec_op_def)
    next
      case (Some r)
      obtain p where p: "last_member w r = (p, cmds)" "m' = m(gr \<mapsto> p)" using s Some LastMember by (auto simp: spec_op_def split: prod.splits)
      then show ?thesis using one [OF p(2)] last_member_balance [OF up key [OF Some] p(1)] Some by simp
    qed
  next
    case (LastMemberTimer gr)
    then show ?thesis
      using s m by (auto simp: spec_op_def keyed_def wanted_def split: if_splits option.splits)
  next
    case AgeRound
    then show ?thesis
      using s m by (auto simp: spec_op_def keyed_def wanted_def age_entry_def split: if_splits option.splits)
  qed
qed

lemma spec_ops_balance:
  assumes "getIfByIx (upStreamVif w) w = Some d" "fastUpstreamLeave (commonConfig w)" "keyed m" "spec_ops w xs m = Some (m', cmds)"
  shows "wanted (m' gr) = wanted (m gr) + rule_balance (if_Name d) cmds gr"
  using assms(3,4)
proof (induction xs arbitrary: m cmds)
  case (Cons x xs)
  obtain m1 a b where s: "spec_op w x m = Some (m1, a)" "spec_ops w xs m1 = Some (m', b)" "cmds = a @ b"
    using Cons.prems(2) by (auto split: option.splits)
  have k: "keyed m1" "wanted (m1 gr) = wanted (m gr) + rule_balance (if_Name d) a gr"
    using spec_op_balance [OF assms(1,2) Cons.prems(1) s(1)] by auto
  have "wanted (m' gr) = wanted (m1 gr) + rule_balance (if_Name d) b gr" by (rule Cons.IH [OF k(1) s(2)])
  then show ?case using k(2) s(3) by simp
qed simp

text \<open>With quick leave, the packet filter follows the routing table: starting from an empty table, after any sequence of operations that
  returns, the commands that were run have inserted one accepting rule more than they have deleted for every group that is joined
  upstream, and as many as they have deleted for every other group.\<close>

lemma packet_filter_follows_table:
  assumes "kernel_ok e" "ifs_ok (IfDescVc w)" "table_ok w" "list_all op_ok xs" "routing_table w = None" "fastUpstreamLeave (commonConfig w)"
    and "getIfByIx (upStreamVif w) w = Some d" "exec_ops e xs w = ret w'"
  shows "\<exists>cmds. commands_of (calls w') = commands_of (calls w) @ cmds \<and>
    (\<forall>gr. rule_balance (if_Name d) cmds gr = (if map_option upstrState (table w' gr) = Some ROUTESTATE_JOINED then 1 else 0))"
proof -
  have "findRoute gr w = ret None" for gr unfolding findRoute_def assms(5) by (subst route_walk.simps) simp
  then have empty: "table w = (\<lambda>gr. None)" by (simp add: table_def ret_def fun_eq_iff)
  have "meets w (ret w') (spec_ops w xs (table w))" using exec_ops_meets [OF assms(1-4)] assms(8) by simp
  then obtain m cmds where s: "spec_ops w xs (table w) = Some (m, cmds)" "table w' = m" "commands_of (calls w') = commands_of (calls w) @ cmds"
    by (auto simp: meets_def route_outcome_def split: option.splits)
  have "rule_balance (if_Name d) cmds gr = (if map_option upstrState (table w' gr) = Some ROUTESTATE_JOINED then 1 else 0)" for gr
    using spec_ops_balance [OF assms(7,6) table_keyed [OF assms(3)] s(1), of gr] empty s(2) by (auto simp: wanted_def split: option.splits if_splits)
  then show ?thesis using s(3) by blast
qed


definition sample_quick :: proxy where
  "sample_quick = sample_router\<lparr>commonConfig := (commonConfig sample_router)\<lparr>fastUpstreamLeave := True\<rparr>\<rparr>"

lemma sample_quick_ok: "ifs_ok (IfDescVc sample_quick)" "table_ok sample_quick" "table sample_quick = (\<lambda>gr. None)"
  using sample_router_ok(2) route_table_same [of sample_quick sample_router] sample_router_ok(3,4) by (simp_all add: sample_quick_def)

lemma sample_router_up: "\<exists>d. getIfByIx (upStreamVif sample_router) sample_router = Some d \<and> if_Name d = ''eth2.2''"
  by (simp add: getIfByIx_def sample_router_def)

lemma sample_quick_up: "\<exists>d. getIfByIx (upStreamVif sample_quick) sample_quick = Some d \<and> if_Name d = ''eth2.2''"
  by (simp add: getIfByIx_def sample_quick_def sample_router_def)

lemma packet_filter_follows_table_witness:
  "\<exists>w' cmds. exec_ops sample_penv [Report sample_group 0, LastMember sample_group, Report sample_group 0] sample_quick = ret w'
    \<and> commands_of (calls w') = commands_of (calls sample_quick) @ cmds \<and> rule_balance ''eth2.2'' cmds sample_group = 1"
proof -
  have "\<exists>m cmds. spec_ops sample_quick [Report sample_group 0, LastMember sample_group, Report sample_group 0] (\<lambda>gr. None) = Some (m, cmds)
    \<and> map_option upstrState (m sample_group) = Some ROUTESTATE_JOINED"
    using sample_group_multicast
    by (simp add: spec_op_def inserted_def listened_def new_route_def upstr_after_def send_cmds_def last_member_def Let_def getIfByIx_def
        sample_quick_def sample_router_def sample_proxy_def MAX_MC_VIFS_def BIT_SET_def one_shl_def)
  then obtain w' where w': "exec_ops sample_penv [Report sample_group 0, LastMember sample_group, Report sample_group 0] sample_quick = ret w'"
    "map_option upstrState (table w' sample_group) = Some ROUTESTATE_JOINED"
    using exec_ops_meets [OF sample_router_ok(1) sample_quick_ok(1,2), of "[Report sample_group 0, LastMember sample_group, Report sample_group 0]"]
    unfolding sample_quick_ok(3) by (auto simp: meets_def returns_def route_outcome_def simp del: exec_ops.simps spec_ops.simps)
  obtain d where d: "getIfByIx (upStreamVif sample_quick) sample_quick = Some d" "if_Name d = ''eth2.2''" using sample_quick_up by blast
  have "routing_table sample_quick = None" "fastUpstreamLeave (commonConfig sample_quick)"
    by (simp_all add: sample_quick_def sample_router_def sample_proxy_def)
  from packet_filter_follows_table [OF sample_router_ok(1) sample_quick_ok(1,2) _ this d(1) w'(1)] w' d(2) show ?thesis by auto
qed

text \<open>Without quick leave it does not: a group that is left and reported again is joined twice, and a second accepting rule is inserted
  while the first one is still there.\<close>

lemma rejoin_duplicates_rule:
  assumes "kernel_ok e" "ifs_ok (IfDescVc w)" "table_ok w" "\<not> fastUpstreamLeave (commonConfig w)" "getIfByIx (upStreamVif w) w = Some d"
    and "table w gr = Some r" "upstrState r = ROUTESTATE_JOINED" "vifBits r > 0" "0 \<le> ifx" "vif_index ifx"
  shows "returns (exec_ops e [LastMember gr, Report gr ifx] w) (\<lambda>w'. commands_of (calls w') = commands_of (calls w) @ [iptables_cmd ''-I'' (if_Name d) gr]
    \<and> map_option upstrState (table w' gr) = Some ROUTESTATE_JOINED)"
proof -
  have k: "rt_group r = gr" using table_keyed [OF assms(3)] assms(6) by (simp add: keyed_def)
  have mc: "IN_MULTICAST (ntohl gr)"
    using not_multicast(1) [OF assms(3)] assms(6) by fastforce
  have nz: "0 < BIT_SET (vifBits r) (of_int ifx)"
  proof -
    have "vifBits r AND BIT_SET (vifBits r) (of_int ifx) = vifBits r" by (simp add: BIT_SET_def bit.conj_disj_distrib)
    then show ?thesis using assms(8) by (metis and_zero_eq word_gt_0)
  qed
  obtain p where p: "last_member w r = (p, [])" "upstrState p = ROUTESTATE_CHECK_LAST_MEMBER" "vifBits p = vifBits r" "rt_group p = gr"
    using assms(4) k by (simp add: last_member_def Let_def)
  have "\<exists>m. spec_ops w [LastMember gr, Report gr ifx] (table w) = Some (m, [iptables_cmd ''-I'' (if_Name d) gr])
    \<and> map_option upstrState (m gr) = Some ROUTESTATE_JOINED"
    using assms(5,6,9,10) p mc nz by (simp add: vif_index_def spec_op_def inserted_def listened_def upstr_after_def send_cmds_def Let_def)
  then show ?thesis
    using exec_ops_meets [OF assms(1-3), of "[LastMember gr, Report gr ifx]"] assms(10)
    by (auto simp: vif_index_def MAX_MC_VIFS_def meets_def returns_def route_outcome_def simp del: exec_ops.simps spec_ops.simps)
qed

lemma rejoin_duplicates_rule_witness:
  "\<exists>w'. exec_ops sample_penv [Report sample_group 0, LastMember sample_group, Report sample_group 0] sample_router = ret w'
    \<and> commands_of (calls w') = [iptables_cmd ''-I'' ''eth2.2'' sample_group, iptables_cmd ''-I'' ''eth2.2'' sample_group]"
proof -
  obtain w where w: "exec_op sample_penv (Report sample_group 0) sample_router = ret w" "table_ok w"
    "table w sample_group = Some \<lparr>nextroute = None, prevroute = None, rt_group = sample_group, originAddr = 0, vifBits = 1,
       upstrState = ROUTESTATE_JOINED, ageVifBits = 0, ageValue = 2, ageActivity = 0\<rparr>" "route_frame sample_router w"
    "commands_of (calls w) = [iptables_cmd ''-I'' ''eth2.2'' sample_group]"
    using exec_ops_meets [OF sample_router_ok(1-3) sample_op_ok, unfolded sample_router_ok(4) sample_report]
    by (auto simp: meets_def returns_def route_outcome_def run_bind_eq_ret sample_router_def sample_proxy_def)
  have c: "ifs_ok (IfDescVc w)" "\<not> fastUpstreamLeave (commonConfig w)"
    using sample_router_ok(2) route_frameD(1,3) [OF w(4)] by (simp_all add: sample_router_def sample_proxy_def)
  obtain d where d: "getIfByIx (upStreamVif w) w = Some d" "if_Name d = ''eth2.2''"
    using route_frameD(2,4) [OF w(4)] sample_router_up by auto
  from rejoin_duplicates_rule [OF sample_router_ok(1) c(1) w(2) c(2) d(1) w(3), of 0] w(1,5) d(2) show ?thesis
    by (auto simp: returns_def vif_index_def MAX_MC_VIFS_def simp del: exec_ops.simps(2) simp add: exec_ops.simps(2) [of _ "Report sample_group 0"])
qed


section \<open>The multicast forwarding cache of the kernel\<close>

lemma ttls_of_nth:
  assumes "ifs_ok ds" "distinct (map if_index (filter (\<lambda>d. if_index d \<noteq> - 1) ds))" "length t = MAX_MC_VIFS" "\<not> bit bits 31" "i < MAX_MC_VIFS"
  shows "ttls_of bits ds t ! i = (case filter (\<lambda>d. unat (if_index d) = i) ds of
      [] \<Rightarrow> t ! i
    | d # _ \<Rightarrow> if if_state d \<noteq> IF_STATE_UPSTREAM \<and> bit bits i then if_threshold d else t ! i)"
  using assms(1-3)
proof (induction ds arbitrary: t)
  case (Cons d ds)
  have ds: "ifs_ok ds" "distinct (map if_index (filter (\<lambda>d. if_index d \<noteq> - 1) ds))" using Cons.prems by (auto simp: ifs_ok_def split: if_splits)
  note ih = Cons.IH [OF ds, of "if if_state d \<noteq> IF_STATE_UPSTREAM \<and> BIT_TST bits (if_index d)
      then t[unat (if_index d) := if_threshold d] else t"]
  show ?case
  proof (cases "if_index d = - 1")
    case True
    have m: "unat (- 1 :: u32) = 2 ^ 32 - 1" by (simp add: unsigned_minus_1_eq_mask mask_eq_exp_minus_1)
    have "\<not> BIT_TST bits (- 1)" using assms(4) m by (simp add: BIT_TST_bit)
    moreover have "unat (if_index d) \<noteq> i" using m True assms(5) by (simp add: MAX_MC_VIFS_def)
    ultimately show ?thesis using ih Cons.prems(3) True by simp
  next
    case used: False
    then have "unat (if_index d) < 32" using Cons.prems(1) by (auto simp: ifs_ok_def MAX_MC_VIFS_def)
    then have tst: "BIT_TST bits (if_index d) \<longleftrightarrow> bit bits (unat (if_index d))" by (simp add: BIT_TST_bit)
    show ?thesis
    proof (cases "unat (if_index d) = i")
      case True
      have "if_index x \<noteq> if_index d" if "x \<in> set ds" for x
      proof
        assume "if_index x = if_index d"
        then have "if_index d \<in> if_index ` {x \<in> set ds. if_index x \<noteq> - 1}" using that used by (intro image_eqI [of _ _ x]) simp_all
        then show False using Cons.prems(2) used by simp
      qed
      then have "filter (\<lambda>d. unat (if_index d) = i) ds = []"
        using True used by (auto simp: filter_empty_conv) (metis unsigned_word_eqI)
      then show ?thesis using ih Cons.prems(3) True tst assms(5) by simp
    next
      case False
      then show ?thesis using ih Cons.prems(3) by (simp split: list.split)
    qed
  qed
qed simp

lemma upstream_vif_filter:
  "upstream_vif ds v = (case rev (filter (\<lambda>d. if_state d = IF_STATE_UPSTREAM) ds) of [] \<Rightarrow> v | d # _ \<Rightarrow> ucast (if_index d))"
  by (induction ds arbitrary: v) (auto split: list.splits)

text \<open>C19. A packet from a source to a group with listeners makes the program hand the kernel exactly one forwarding entry, for this source and
  group, that takes packets from the upstream interface; its thresholds are the configured ones at the interfaces with listeners
  that are not the upstream one, and zero (do not forward) at every other of the 32 places.\<close>

theorem activateRoute_installs_entry:
  assumes "kernel_ok e" "ifs_ok (IfDescVc w)" "table_ok w" "distinct (map if_index (filter (\<lambda>d. if_index d \<noteq> - 1) (IfDescVc w)))"
    and "filter (\<lambda>d. if_state d = IF_STATE_UPSTREAM) (IfDescVc w) = [u]"
    and "table w gr = Some r" "vifBits r > 0" "origin > 0"
  shows "\<exists>w' ttls. activateRoute e gr origin w = ret (1, w') \<and> calls w' = calls w @ [AddMfc origin gr (ucast (if_index u)) ttls]
    \<and> table w' = (table w)(gr \<mapsto> r\<lparr>originAddr := origin\<rparr>) \<and> length ttls = MAX_MC_VIFS
    \<and> (\<forall>i < MAX_MC_VIFS. ttls ! i = (case filter (\<lambda>d. unat (if_index d) = i) (IfDescVc w) of
          [] \<Rightarrow> 0
        | d # _ \<Rightarrow> if if_state d \<noteq> IF_STATE_UPSTREAM \<and> bit (vifBits r) i then if_threshold d else 0))"
proof -
  obtain k s where s: "findRoute gr w = ret (Some k)" "routes w k = Some s" "rt_group s = gr" "payload s = r"
    by (rule findRoute_at [OF assms(3,6)])
  let ?s = "s\<lparr>originAddr := origin\<rparr>" and ?w = "w\<lparr>routes := (routes w)(k \<mapsto> s\<lparr>originAddr := origin\<rparr>)\<rparr>"
  let ?ttls = "ttls_of (vifBits r) (IfDescVc w) (replicate MAX_MC_VIFS 0)"
  have v: "vifBits s = vifBits r" using s(4) by auto
  have call: "mfc_call True (IfDescVc w) ?s = [AddMfc origin gr (ucast (if_index u)) ?ttls]"
    using assms(5,8) s(3) v by (simp add: mfc_call_def upstream_vif_filter)
  have "activateRoute e gr origin w = ret (1, ?w\<lparr>calls := calls w @ [AddMfc origin gr (ucast (if_index u)) ?ttls]\<rparr>)"
    using s(1,2) assms(7,8) v call internUpdateKernelRoute_eq [of ?w k ?s e True] assms(2) table_ok_bits [OF assms(3) s(2)] by (simp add: activateRoute_def bits_ok_def)
  moreover have "table (?w\<lparr>calls := calls w @ [AddMfc origin gr (ucast (if_index u)) ?ttls]\<rparr>) = (table w)(gr \<mapsto> r\<lparr>originAddr := origin\<rparr>)"
    using activateRoute_outcome [OF assms(1-3), of gr origin] calculation assms(6,8) not_multicast(1) [OF assms(3), of gr]
    by (auto simp: returns_def activated_def route_outcome_def)
  moreover have "\<forall>i < MAX_MC_VIFS. ?ttls ! i = (case filter (\<lambda>d. unat (if_index d) = i) (IfDescVc w) of
          [] \<Rightarrow> 0 | d # _ \<Rightarrow> if if_state d \<noteq> IF_STATE_UPSTREAM \<and> bit (vifBits r) i then if_threshold d else 0)"
    using ttls_of_nth [OF assms(2,4), of "replicate MAX_MC_VIFS 0" "vifBits r"] table_ok_bits [OF assms(3) s(2)] v by (simp add: bits_ok_def split: list.split)
  ultimately show ?thesis by simp
qed

theorem activateRoute_installs_entry_witness:
  "\<exists>w w' ttls. exec_op sample_penv (Report sample_group 0) sample_router = ret w \<and> activateRoute sample_penv sample_group 0x0A00000A w = ret (1, w')
    \<and> calls w' = calls w @ [AddMfc 0x0A00000A sample_group 1 ttls] \<and> ttls ! 0 = 1 \<and> ttls ! 1 = 0 \<and> ttls ! 31 = 0"
proof -
  obtain w r where w: "exec_op sample_penv (Report sample_group 0) sample_router = ret w" "table_ok w"
    "table w sample_group = Some r" "route_frame sample_router w" "vifBits r = 1"
    using exec_ops_meets [OF sample_router_ok(1-3) sample_op_ok, unfolded sample_router_ok(4) sample_report]
    by (auto simp: meets_def returns_def route_outcome_def run_bind_eq_ret)
  have i: "IfDescVc w = IfDescVc sample_router" using route_frameD(1) [OF w(4)] .
  then have c: "ifs_ok (IfDescVc w)" "distinct (map if_index (filter (\<lambda>d. if_index d \<noteq> - 1) (IfDescVc w)))" using sample_router_ok(2) by (simp_all add: sample_router_def)
  obtain u where u: "filter (\<lambda>d. if_state d = IF_STATE_UPSTREAM) (IfDescVc w) = [u]" "if_index u = 1"
    unfolding i by (simp add: sample_router_def)
  obtain w' ttls where t: "activateRoute sample_penv sample_group 0x0A00000A w = ret (1, w')"
    "calls w' = calls w @ [AddMfc 0x0A00000A sample_group (ucast (if_index u)) ttls]"
    "\<forall>i < MAX_MC_VIFS. ttls ! i = (case filter (\<lambda>d. unat (if_index d) = i) (IfDescVc w) of
          [] \<Rightarrow> 0 | d # _ \<Rightarrow> if if_state d \<noteq> IF_STATE_UPSTREAM \<and> bit (vifBits r) i then if_threshold d else 0)"
    using activateRoute_installs_entry [where origin = "0x0A00000A", OF sample_router_ok(1) c(1) w(2) c(2) u(1) w(3)] w(5) by fastforce
  have "ttls ! 0 = 1" "ttls ! 1 = 0" "ttls ! 31 = 0"
    using t(3) [rule_format, of 0] t(3) [rule_format, of 1] t(3) [rule_format, of 31] w(5) unfolding i by (simp_all add: sample_router_def MAX_MC_VIFS_def)
  then show ?thesis using w(1) t(1,2) u(2) by auto
qed

end
