(* ===== verification/SnoopInv.thy ===== *)
theory SnoopInv
  imports Snoop
begin

text \<open>
  What the snooping tables of \<open>ralink.c\<close> mean. \<open>chain\<close> says that a list of addresses is the linked list of the members of a group,
  \<open>hosts\<close> is its content, and \<open>snoop_ok\<close> is the invariant of the tables: every group is there once, its members are linked without
  sharing, a host is recorded at most once for an address, and the map of ports is the one of the members.
\<close>

section \<open>What the switch leaves alone\<close>

definition hw_step :: "proxy \<Rightarrow> proxy \<Rightarrow> bool" where
  "hw_step w w' \<longleftrightarrow> (\<exists>cs t fd. w' = w\<lparr>calls := cs, internal_mac_table := t, esw_fd := fd\<rparr>)
     \<and> commands_of (calls w') = commands_of (calls w)"

lemma hw_stepI: "w' = w\<lparr>calls := calls w', internal_mac_table := internal_mac_table w', esw_fd := esw_fd w'\<rparr> \<Longrightarrow>
  commands_of (calls w') = commands_of (calls w) \<Longrightarrow> hw_step w w'"
  unfolding hw_step_def by blast

lemma hw_step_refl [simp]: "hw_step w w"
  by (rule hw_stepI) simp_all

lemma hw_step_trans: "hw_step u v \<Longrightarrow> hw_step v w \<Longrightarrow> hw_step u w"
  unfolding hw_step_def by (elim conjE exE, hypsubst) (auto intro!: exI)

lemma hw_step_calls [simp]: "commands_of cs = [] \<Longrightarrow> hw_step w (w\<lparr>calls := calls w @ cs\<rparr>)" "hw_step w (w\<lparr>internal_mac_table := t\<rparr>)" "hw_step w (w\<lparr>esw_fd := fd\<rparr>)"
  by (rule hw_stepI; simp)+

lemma hw_stepD:
  assumes "hw_step w w'"
  shows "groups w' = groups w" "group_list w' = group_list w" "members w' = members w" "snooping_enabled w' = snooping_enabled w"
    "next_group_addr w' = next_group_addr w" "next_member_addr w' = next_member_addr w" "routes w' = routes w"
    "routing_table w' = routing_table w" "next_route_addr w' = next_route_addr w" "IfDescVc w' = IfDescVc w" "upStreamVif w' = upStreamVif w"
    "commonConfig w' = commonConfig w" "callout_queue w' = callout_queue w" "callout_id w' = callout_id w" "gvdescs w' = gvdescs w"
    "next_gvdesc w' = next_gvdesc w" "group_count w' = group_count w" "send_buf w' = send_buf w"
    "commands_of (calls w') = commands_of (calls w)"
  using assms by (auto simp: hw_step_def)

lemma hw_step_then:
  assumes "yields m (hw_step w)" "\<And>w'. hw_step w w' \<Longrightarrow> yields (f w') (hw_step w')"
  shows "yields (run_bind m f) (hw_step w)"
  by (rule yields_then [OF assms(1)]) (blast intro: yields_mono [OF assms(2)] hw_step_trans)

lemma hw_step_then2:
  assumes "yields m (\<lambda>(v, w'). hw_step w w')" "\<And>v w'. hw_step w w' \<Longrightarrow> yields (f (v, w')) (hw_step w')"
  shows "yields (run_bind m f) (hw_step w)"
  by (rule yields_then2 [OF assms(1)]) (blast intro: yields_mono [OF assms(2)] hw_step_trans)

lemma reg_write_hw: "yields (reg_write e off v w) (hw_step w)"
  by (rule yields_mono [OF reg_write_keeps]) simp

lemma reg_read_hw: "yields (reg_read e off w) (\<lambda>(v, w'). hw_step w w')"
  by (rule yields_mono [OF reg_read_keeps]) auto

lemma mac_cmd_hw: "yields (mac_cmd e v w) (hw_step w)"
  unfolding mac_cmd_def
  by (rule hw_step_then [OF reg_write_hw]) (rule yields_mono [OF wait_keeps], auto simp: commands_of_replicate)

lemma updateMacTable_hw: "yields (updateMacTable e g d w) (hw_step w)"
  unfolding updateMacTable_def WANPORT_def
  by (intro hw_step_then [OF reg_write_hw])
    (auto intro!: mac_cmd_hw hw_step_then [OF mac_cmd_hw] split: delay_delete.split)

lemma set_mac_hw: "yields (set_mac i f w) (hw_step w)"
  by (simp add: set_mac_def)

text \<open>A partial function that returns.\<close>

lemma yields_Some: "yields m P \<longleftrightarrow> (\<forall>r. m = Some r \<longrightarrow> (case r of Inl e \<Rightarrow> True | Inr x \<Rightarrow> P x))"
  by (auto simp: yields_def ret_def split: sum.splits)

lemma sync_walk_hw: "yields (sync_walk e i w) (hw_step w)"
proof -
  have "case r of Inl e \<Rightarrow> True | Inr w' \<Rightarrow> hw_step w w'" if "sync_walk e i w = Some r" for e i w r
  proof (induction e i w r rule: sync_walk.raw_induct)
    case (1 f e i w r)
    have ih: "yields (f e i w) (hw_step w)" for e i w using 1(1) by (simp add: yields_Some)
    have "yields (if i < 0x3FE then
        run_bind (reg_read e REG_ESW_TABLE_STATUS0 w) (\<lambda>(value, w).
        if value AND 1 \<noteq> 0 then
          if value AND 0x70 = 0 then run_bind (reg_write e REG_ESW_TABLE_SEARCH 2 w) (f e i)
          else
            run_bind (reg_read e REG_ESW_TABLE_STATUS2 w) (\<lambda>(mac1, w).
            run_bind (reg_read e REG_ESW_TABLE_STATUS1 w) (\<lambda>(mac2, w).
            run_bind (set_mac i (\<lambda>m. table_entry value mac1 mac2) w) (\<lambda>w.
            if value AND 2 \<noteq> 0 then end_table (i + 1) w
            else run_bind (reg_write e REG_ESW_TABLE_SEARCH 2 w) (f e (i + 1)))))
        else if value AND 2 \<noteq> 0 then end_table i w
        else f e i w)
      else end_table i w) (hw_step w)"
      unfolding end_table_def
      by (auto intro!: set_mac_hw hw_step_then2 [OF reg_read_hw] hw_step_then [OF reg_write_hw] hw_step_then [OF set_mac_hw] ih)
    then show ?case using 1(2) by (auto simp: yields_Some)
  qed (rule that)
  then show ?thesis by (simp add: yields_Some)
qed

lemma portLookUpByMac_hw: "yields (portLookUpByMac e mac w) (\<lambda>(p, w'). hw_step w w')"
proof -
  have s: "yields (sync_internal_mac_table e w) (hw_step w)"
    unfolding sync_internal_mac_table_def by (rule hw_step_then [OF reg_write_hw]) (rule sync_walk_hw)
  show ?thesis
    unfolding portLookUpByMac_def by (rule yields_then [OF s]) (auto simp: yields_map yields_True)
qed

lemma arpLookUp_hw: "yields (arpLookUp e ip w) (\<lambda>(p, w'). hw_step w w')"
  unfolding arpLookUp_def by (auto simp: yields_map yields_True split: option.split)

lemma portLookUpByIP_hw: "yields (portLookUpByIP e ip w) (\<lambda>(p, w'). hw_step w w')"
  unfolding portLookUpByIP_def
proof (rule yields_then2 [OF arpLookUp_hw])
  fix mac w1
  assume w1: "hw_step w w1"
  have "yields (case mac of Some m \<Rightarrow> ret (Some m, w1) | None \<Rightarrow> arpLookUp e ip (try_call e (ArpProbe ip) w1)) (\<lambda>(p, w'). hw_step w w')"
    using w1 hw_step_trans [OF w1 hw_step_trans [OF hw_step_calls(1)], of "[ArpProbe ip]"]
    by (auto split: option.split intro!: yields_mono [OF arpLookUp_hw])
  then show "yields (case (mac, w1) of (mac, w) \<Rightarrow>
     run_bind (case mac of Some m \<Rightarrow> ret (Some m, w) | None \<Rightarrow> arpLookUp e ip (try_call e (ArpProbe ip) w)) (\<lambda>(mac, w).
     case mac of None \<Rightarrow> ret (- 1, w) | Some m \<Rightarrow> portLookUpByMac e (strip_mac m) w)) (\<lambda>(p, w'). hw_step w w')"
    unfolding prod.case
  proof (rule yields_then2)
    fix m2 w2
    assume w2: "hw_step w w2"
    show "yields (case (m2, w2) of (mac, w) \<Rightarrow> case mac of None \<Rightarrow> ret (- 1, w) | Some m \<Rightarrow> portLookUpByMac e (strip_mac m) w) (\<lambda>(p, w'). hw_step w w')"
      using w2 by (auto split: option.split intro: yields_mono [OF portLookUpByMac_hw] hw_step_trans [OF w2])
  qed
qed


section \<open>Members\<close>

fun chain :: "(nat \<Rightarrow> group_member option) \<Rightarrow> nat option \<Rightarrow> nat list \<Rightarrow> bool" where
  "chain h p [] \<longleftrightarrow> p = None"
| "chain h p (k # ks) \<longleftrightarrow> p = Some k \<and> (\<exists>m. h k = Some m \<and> chain h (gm_next m) ks)"

definition host :: "group_member \<Rightarrow> group_member" where
  "host m = m\<lparr>gm_next := None\<rparr>"

lemma host_simps [simp]:
  "gm_ip_addr (host m) = gm_ip_addr m" "gm_a0 (host m) = gm_a0 m" "gm_port_num (host m) = gm_port_num m" "has_report (host m) = has_report m"
  "host (m\<lparr>gm_next := x\<rparr>) = host m" "host (host m) = host m" "host (m\<lparr>has_report := b\<rparr>) = (host m)\<lparr>has_report := b\<rparr>"
  "host (m\<lparr>gm_port_num := q\<rparr>) = (host m)\<lparr>gm_port_num := q\<rparr>" "gm_next (host m) = None"
  by (simp_all add: host_def)

definition hit :: "u32 \<Rightarrow> byte \<Rightarrow> group_member \<Rightarrow> bool" where
  "hit u a0 m \<longleftrightarrow> gm_ip_addr m = u \<and> gm_a0 m = a0"

lemma hit_host [simp]: "hit u a0 (host m) = hit u a0 m"
  by (simp add: hit_def)

definition member :: "proxy \<Rightarrow> nat \<Rightarrow> group_member" where
  "member w k = host (the (members w k))"

lemma member_at [simp]: "members w k = Some m \<Longrightarrow> member w k = host m"
  by (simp add: member_def)

lemma chain_in: "chain h p ks \<Longrightarrow> k \<in> set ks \<Longrightarrow> \<exists>m. h k = Some m"
  by (induction ks arbitrary: p) auto

lemma member_chain_unique: "chain h p ks \<Longrightarrow> chain h p ks' \<Longrightarrow> ks = ks'"
proof (induction ks arbitrary: p ks')
  case Nil
  then show ?case by (cases ks') auto
next
  case (Cons k ks)
  then show ?case by (cases ks') auto
qed

lemma chain_frame: "chain h p ks \<Longrightarrow> (\<And>k. k \<in> set ks \<Longrightarrow> map_option gm_next (h' k) = map_option gm_next (h k)) \<Longrightarrow> chain h' p ks"
proof (induction ks arbitrary: p)
  case (Cons k ks)
  obtain m where m: "h k = Some m" "chain h (gm_next m) ks" "p = Some k" using Cons.prems(1) by auto
  obtain m' where m': "h' k = Some m'" "gm_next m' = gm_next m" using Cons.prems(2) [of k] m by auto
  have "chain h' (gm_next m) ks" using Cons m by auto
  then show ?case using m m' by simp
qed simp

lemma chain_other [simp]: "j \<notin> set ks \<Longrightarrow> chain (h(j := x)) p ks = chain h p ks"
proof -
  assume "j \<notin> set ks"
  then have "k \<noteq> j" if "k \<in> set ks" for k using that by blast
  then show ?thesis using chain_frame [of h p ks "h(j := x)"] chain_frame [of "h(j := x)" p ks h] by auto
qed

lemma get_member_ret [simp]: "members w k = Some m \<Longrightarrow> get_member k w = ret m"
  by (simp add: get_member_def)

lemma get_group_ret [simp]: "groups w g = Some x \<Longrightarrow> get_group g w = ret x"
  by (simp add: get_group_def)

lemma member_walk_find: "chain (members w) p ks \<Longrightarrow> member_walk u a0 p w = ret (find (\<lambda>k. hit u a0 (member w k)) ks)"
proof (induction ks arbitrary: p)
  case Nil
  then show ?case by (subst member_walk.simps) simp
next
  case (Cons k ks)
  then show ?case by (subst member_walk.simps) (auto simp: hit_def)
qed

fun ports_of :: "byte \<Rightarrow> group_member list \<Rightarrow> byte" where
  "ports_of pm [] = pm"
| "ports_of pm (m # ms) = (if gm_port_num m = - 1 then LAN_PORTS else ports_of (pm OR port_bit (gm_port_num m)) ms)"

lemma port_map_walk_ports: "chain (members w) p ks \<Longrightarrow> port_map_walk pm p w = ret (ports_of pm (map (member w) ks))"
proof (induction ks arbitrary: p pm)
  case Nil
  then show ?case by (subst port_map_walk.simps) simp
next
  case (Cons k ks)
  then show ?case by (subst port_map_walk.simps) auto
qed

text \<open>The ports of a group: those of its members, or all of them as soon as the port of one is unknown.\<close>

definition group_ports :: "group_member list \<Rightarrow> byte" where
  "group_ports ms =
     (if \<exists>m \<in> set ms. gm_port_num m = - 1 then LAN_PORTS else foldr (\<lambda>m pm. port_bit (gm_port_num m) OR pm) ms 0)"

lemma ports_of_eq:
  "ports_of pm ms = (if \<exists>m \<in> set ms. gm_port_num m = - 1 then LAN_PORTS else pm OR foldr (\<lambda>m pm. port_bit (gm_port_num m) OR pm) ms 0)"
  by (induction ms arbitrary: pm) (auto simp: or.assoc)

lemma ports_of_zero: "ports_of 0 ms = group_ports ms"
  by (simp add: ports_of_eq group_ports_def)

text \<open>Unlinking behind the head.\<close>

lemma unlink_walk_none:
  "chain (members w) (Some k) (k # ks) \<Longrightarrow> \<forall>j \<in> set ks. \<not> hit u a0 (member w j) \<Longrightarrow> unlink_walk u a0 k w = ret (None, w)"
proof (induction ks arbitrary: k)
  case Nil
  then show ?case by (subst unlink_walk.simps) auto
next
  case (Cons j ks)
  then show ?case by (subst unlink_walk.simps) (auto simp: hit_def)
qed

lemma unlink_walk_hit:
  assumes "chain (members w) (Some k) (k # xs @ d # ys)" "distinct (k # xs @ d # ys)"
    and "\<forall>j \<in> set xs. \<not> hit u a0 (member w j)" "hit u a0 (member w d)"
  shows "\<exists>h. unlink_walk u a0 k w = ret (Some d, w\<lparr>members := h\<rparr>) \<and> chain h (Some k) (k # xs @ ys)
    \<and> (\<forall>j. map_option host (h j) = map_option host (members w j)) \<and> (\<forall>j. j \<notin> set (k # xs) \<longrightarrow> h j = members w j)"
  using assms
proof (induction xs arbitrary: k)
  case Nil
  obtain m x where m: "members w k = Some m" "gm_next m = Some d" "members w d = Some x" "chain (members w) (gm_next x) ys"
    using Nil.prems(1) by auto
  have kd: "k \<noteq> d" "k \<notin> set ys" using Nil.prems(2) by auto
  have "unlink_walk u a0 k w = ret (Some d, w\<lparr>members := (members w)(k \<mapsto> m\<lparr>gm_next := gm_next x\<rparr>)\<rparr>)"
    using m Nil.prems(4) by (subst unlink_walk.simps) (auto simp: hit_def put_member_def)
  moreover have "chain ((members w)(k \<mapsto> m\<lparr>gm_next := gm_next x\<rparr>)) (Some k) (k # ys)" using m kd by simp
  moreover have "\<forall>j. map_option host (((members w)(k \<mapsto> m\<lparr>gm_next := gm_next x\<rparr>)) j) = map_option host (members w j)" using m by auto
  moreover have "\<forall>j. j \<notin> set [k] \<longrightarrow> ((members w)(k \<mapsto> m\<lparr>gm_next := gm_next x\<rparr>)) j = members w j" by auto
  ultimately show ?case unfolding append_Nil by blast
next
  case (Cons j xs)
  obtain m where m: "members w k = Some m" "gm_next m = Some j" "chain (members w) (Some j) (j # xs @ d # ys)"
    using Cons.prems(1) by auto
  obtain x where x: "members w j = Some x" using m(3) by auto
  obtain h where h: "unlink_walk u a0 j w = ret (Some d, w\<lparr>members := h\<rparr>)" "chain h (Some j) (j # xs @ ys)"
    "\<forall>i. map_option host (h i) = map_option host (members w i)" "\<forall>i. i \<notin> set (j # xs) \<longrightarrow> h i = members w i"
    using Cons.IH [OF m(3)] Cons.prems by auto
  have "unlink_walk u a0 k w = ret (Some d, w\<lparr>members := h\<rparr>)"
    using m(1,2) x h(1) Cons.prems(3) by (subst unlink_walk.simps) (auto simp: hit_def)
  moreover have "h k = members w k" using h(4) Cons.prems(2) by auto
  ultimately show ?case using h m(1,2) by (intro exI [of _ h]) auto
qed


section \<open>The invariant\<close>

type_synonym group_key = "byte \<times> byte \<times> byte"

definition key_of :: "group_entry \<Rightarrow> group_key" where
  "key_of x = (ge_a1 x, ge_a2 x, ge_a3 x)"

definition ip_key :: "u32 \<Rightarrow> group_key" where
  "ip_key ip = (ip_a1 ip, ip_a2 ip, ip_a3 ip)"

definition id_of :: "group_member \<Rightarrow> u32 \<times> byte" where
  "id_of m = (gm_ip_addr m, gm_a0 m)"

lemma id_host [simp]: "id_of (host m) = id_of m"
  by (simp add: id_of_def)

lemma hit_id: "hit u a0 m \<longleftrightarrow> id_of m = (u, a0)"
  by (simp add: hit_def id_of_def)

text \<open>\<open>stale\<close> are the groups whose map of ports has not been brought up to date yet.\<close>

definition snoop_rep :: "nat set \<Rightarrow> proxy \<Rightarrow> (nat \<Rightarrow> nat list) \<Rightarrow> bool" where
  "snoop_rep stale w ch \<longleftrightarrow>
     distinct (group_list w) \<and> set (group_list w) = dom (groups w)
     \<and> (\<forall>g x. groups w g = Some x \<longrightarrow> g < next_group_addr w \<and> chain (members w) (ge_members x) (ch g)
          \<and> distinct (map (id_of \<circ> member w) (ch g)) \<and> (g \<notin> stale \<longrightarrow> ge_port_map x = group_ports (map (member w) (ch g))))
     \<and> (\<forall>g x g' x'. groups w g = Some x \<longrightarrow> groups w g' = Some x' \<longrightarrow> g \<noteq> g' \<longrightarrow> key_of x \<noteq> key_of x' \<and> set (ch g) \<inter> set (ch g') = {})
     \<and> (\<forall>k m. members w k = Some m \<longrightarrow> k < next_member_addr w)"

definition snoop_ok :: "proxy \<Rightarrow> bool" where
  "snoop_ok w \<longleftrightarrow> (\<exists>ch. snoop_rep {} w ch)"

text \<open>The hosts of a group, by the 23 bits of its address.\<close>

definition hosts :: "proxy \<Rightarrow> (nat \<Rightarrow> nat list) \<Rightarrow> group_key \<Rightarrow> group_member list option" where
  "hosts w ch key =
     (case find (\<lambda>g. map_option key_of (groups w g) = Some key) (group_list w) of
        None \<Rightarrow> None | Some g \<Rightarrow> Some (map (member w) (ch g)))"

lemma snoop_repD:
  assumes "snoop_rep S w ch"
  shows "distinct (group_list w)" "set (group_list w) = dom (groups w)"
    "groups w g = Some x \<Longrightarrow> g < next_group_addr w" "groups w g = Some x \<Longrightarrow> chain (members w) (ge_members x) (ch g)"
    "groups w g = Some x \<Longrightarrow> distinct (map (id_of \<circ> member w) (ch g))"
    "groups w g = Some x \<Longrightarrow> g \<notin> S \<Longrightarrow> ge_port_map x = group_ports (map (member w) (ch g))"
    "groups w g = Some x \<Longrightarrow> groups w g' = Some x' \<Longrightarrow> g \<noteq> g' \<Longrightarrow> key_of x \<noteq> key_of x'"
    "groups w g = Some x \<Longrightarrow> groups w g' = Some x' \<Longrightarrow> g \<noteq> g' \<Longrightarrow> set (ch g) \<inter> set (ch g') = {}"
    "members w k = Some m \<Longrightarrow> k < next_member_addr w"
  using assms unfolding snoop_rep_def by blast+

lemma snoop_rep_distinct: "snoop_rep S w ch \<Longrightarrow> groups w g = Some x \<Longrightarrow> distinct (ch g)"
  using snoop_repD(5) distinct_map by blast

lemma hosts_Some:
  assumes "snoop_rep S w ch" "groups w g = Some x"
  shows "hosts w ch (key_of x) = Some (map (member w) (ch g))"
proof (cases "find (\<lambda>g. map_option key_of (groups w g) = Some (key_of x)) (group_list w)")
  case None
  have "g \<in> set (group_list w)" using assms snoop_repD(2) by auto
  then show ?thesis using None assms(2) by (auto simp: find_None_iff)
next
  case (Some j)
  then have "map_option key_of (groups w j) = Some (key_of x)" by (auto simp: find_Some_iff)
  then have "j = g" using snoop_repD(7) [OF assms(1) _ assms(2)] by auto
  then show ?thesis using Some by (simp add: hosts_def)
qed

lemma hosts_None: "snoop_rep S w ch \<Longrightarrow> (\<And>g x. groups w g = Some x \<Longrightarrow> key_of x \<noteq> key) \<Longrightarrow> hosts w ch key = None"
proof -
  assume "\<And>g x. groups w g = Some x \<Longrightarrow> key_of x \<noteq> key"
  then have "find (\<lambda>g. map_option key_of (groups w g) = Some key) (group_list w) = None"
    by (auto simp: find_None_iff)
  then show ?thesis by (simp add: hosts_def)
qed

lemma entry_walk_find:
  assumes "\<And>g. g \<in> set gs \<Longrightarrow> \<exists>x. groups w g = Some x"
  shows "entry_walk ip gs w = ret (find (\<lambda>g. map_option key_of (groups w g) = Some (ip_key ip)) gs)"
  using assms
proof (induction gs)
  case (Cons g gs)
  obtain x where "groups w g = Some x" using Cons.prems [of g] by auto
  then show ?case using Cons by (auto simp: key_of_def ip_key_def)
qed simp

lemma find_entry_cases:
  assumes "snoop_rep S w ch"
  obtains "find_entry ip w = ret None" "hosts w ch (ip_key ip) = None" "\<And>g x. groups w g = Some x \<Longrightarrow> key_of x \<noteq> ip_key ip"
  | g x where "find_entry ip w = ret (Some g)" "groups w g = Some x" "key_of x = ip_key ip" "hosts w ch (ip_key ip) = Some (map (member w) (ch g))"
proof -
  have e: "find_entry ip w = ret (find (\<lambda>g. map_option key_of (groups w g) = Some (ip_key ip)) (group_list w))"
    unfolding find_entry_def by (rule entry_walk_find) (use snoop_repD(2) [OF assms] in auto)
  show ?thesis
  proof (cases "find (\<lambda>g. map_option key_of (groups w g) = Some (ip_key ip)) (group_list w)")
    case None
    then have "groups w g = Some x \<Longrightarrow> key_of x \<noteq> ip_key ip" for g x
      using snoop_repD(2) [OF assms] by (auto simp: find_None_iff)
    then show ?thesis using that(1) e None hosts_None [OF assms] by auto
  next
    case (Some g)
    then obtain x where "groups w g = Some x" "key_of x = ip_key ip" by (auto simp: find_Some_iff)
    then show ?thesis using that(2) e Some hosts_Some [OF assms] by metis
  qed
qed

lemma snoop_rep_hw: "hw_step w w' \<Longrightarrow> snoop_rep S w' ch = snoop_rep S w ch"
proof -
  assume "hw_step w w'"
  note d = hw_stepD [OF this]
  have "member w' = member w" by (simp add: fun_eq_iff member_def d)
  then show ?thesis by (simp add: snoop_rep_def d)
qed

lemma hosts_hw: "hw_step w w' \<Longrightarrow> hosts w' ch = hosts w ch"
proof -
  assume "hw_step w w'"
  note d = hw_stepD [OF this]
  have m: "member w' = member w" by (simp add: fun_eq_iff member_def d)
  show ?thesis unfolding hosts_def d m by (rule refl)
qed

text \<open>Only the map of ports of a group changes.\<close>

lemma put_ports:
  assumes "snoop_rep S w ch" "groups w g = Some x" "pm = group_ports (map (member w) (ch g))"
  shows "snoop_rep (S - {g}) (put_group g (x\<lparr>ge_port_map := pm\<rparr>) w) ch \<and> hosts (put_group g (x\<lparr>ge_port_map := pm\<rparr>) w) ch = hosts w ch"
proof -
  let ?w = "put_group g (x\<lparr>ge_port_map := pm\<rparr>) w"
  have m: "member ?w = member w" by (simp add: fun_eq_iff member_def put_group_def)
  have k: "map_option key_of (groups ?w j) = map_option key_of (groups w j)" for j
    using assms(2) by (simp add: put_group_def key_of_def)
  have "dom (groups ?w) = dom (groups w)" using assms(2) by (auto simp: put_group_def)
  then have "snoop_rep (S - {g}) ?w ch"
    using assms snoop_repD [OF assms(1)] unfolding snoop_rep_def m
    by (auto simp: put_group_def key_of_def split: if_splits)
  moreover have "hosts ?w ch = hosts w ch" unfolding hosts_def m k by (simp add: put_group_def)
  ultimately show ?thesis ..
qed

text \<open>What an operation on the tables may change.\<close>

definition snoop_frame :: "proxy \<Rightarrow> proxy \<Rightarrow> bool" where
  "snoop_frame w w' \<longleftrightarrow> (\<exists>gl gs ms gc ga ma cs t fd. w' = w\<lparr>group_list := gl, groups := gs, members := ms, group_count := gc,
     next_group_addr := ga, next_member_addr := ma, internal_mac_table := t, esw_fd := fd, calls := cs\<rparr>)
     \<and> commands_of (calls w') = commands_of (calls w)"

lemma snoop_frameI:
  "w' = w\<lparr>group_list := group_list w', groups := groups w', members := members w', group_count := group_count w',
     next_group_addr := next_group_addr w', next_member_addr := next_member_addr w', internal_mac_table := internal_mac_table w',
     esw_fd := esw_fd w', calls := calls w'\<rparr> \<Longrightarrow> commands_of (calls w') = commands_of (calls w) \<Longrightarrow> snoop_frame w w'"
  unfolding snoop_frame_def by blast

lemma snoop_frame_refl [simp]: "snoop_frame w w"
  by (rule snoop_frameI) simp_all

lemma snoop_frame_trans: "snoop_frame u v \<Longrightarrow> snoop_frame v w \<Longrightarrow> snoop_frame u w"
  unfolding snoop_frame_def by (elim conjE exE, hypsubst) (auto intro!: exI)

lemma hw_snoop_frame: "hw_step w w' \<Longrightarrow> snoop_frame w w'"
  by (rule snoop_frameI) (auto simp: hw_step_def)

lemma snoop_frameD:
  assumes "snoop_frame w w'"
  shows "routes w' = routes w" "routing_table w' = routing_table w" "next_route_addr w' = next_route_addr w" "IfDescVc w' = IfDescVc w"
    "upStreamVif w' = upStreamVif w" "commonConfig w' = commonConfig w" "callout_queue w' = callout_queue w" "callout_id w' = callout_id w"
    "gvdescs w' = gvdescs w" "next_gvdesc w' = next_gvdesc w" "send_buf w' = send_buf w" "snooping_enabled w' = snooping_enabled w"
    "curttl w' = curttl w" "mcGroupSock w' = mcGroupSock w" "commands_of (calls w') = commands_of (calls w)"
  using assms by (auto simp: snoop_frame_def)

definition snoop_outcome :: "proxy \<Rightarrow> (group_key \<Rightarrow> group_member list option) \<Rightarrow> proxy \<Rightarrow> bool" where
  "snoop_outcome w v w' \<longleftrightarrow> snoop_frame w w' \<and> (\<exists>ch. snoop_rep {} w' ch \<and> hosts w' ch = v)"

lemma update_group_port_map_outcome:
  assumes "snoop_rep {g} w ch" "groups w g = Some x"
  shows "yields (update_group_port_map e g w) (snoop_outcome w (hosts w ch))"
proof -
  let ?pm = "group_ports (map (member w) (ch g))" and ?x = "x\<lparr>ge_port_map := group_ports (map (member w) (ch g))\<rparr>"
  have pm: "port_map_walk 0 (ge_members x) w = ret ?pm"
    using port_map_walk_ports [OF snoop_repD(4) [OF assms]] by (simp add: ports_of_zero)
  have put: "snoop_rep {} (put_group g ?x w) ch" "hosts (put_group g ?x w) ch = hosts w ch"
    using put_ports [OF assms refl] by simp_all
  show ?thesis
  proof (cases "ge_port_map x = ?pm")
    case True
    then have "?x = x" by (cases x) auto
    then have "put_group g ?x w = w" using assms(2) by (simp add: put_group_def fun_upd_idem)
    then have "snoop_outcome w (hosts w ch) w" using put by (auto simp: snoop_outcome_def)
    then show ?thesis using True assms(2) pm by (simp add: update_group_port_map_def)
  next
    case False
    have "yields (updateMacTable e ?x ZEROED (put_group g ?x w)) (snoop_outcome w (hosts w ch))"
    proof (rule yields_mono [OF updateMacTable_hw])
      fix w' assume h: "hw_step (put_group g ?x w) w'"
      have "snoop_frame w (put_group g ?x w)" by (rule snoop_frameI) (simp_all add: put_group_def)
      then have "snoop_frame w w'" using hw_snoop_frame [OF h] snoop_frame_trans by blast
      then show "snoop_outcome w (hosts w ch) w'"
        using put snoop_rep_hw [OF h] hosts_hw [OF h] by (auto simp: snoop_outcome_def)
    qed
    then show ?thesis using False assms(2) pm by (simp add: update_group_port_map_def Let_def)
  qed
qed


section \<open>Changes of one group\<close>

lemma rep_change:
  assumes rep: "snoop_rep S w ch" and x: "groups w g = Some x" and x': "key_of x' = key_of x"
    and w': "groups w' = (groups w)(g \<mapsto> x')" "group_list w' = group_list w" "next_group_addr w' = next_group_addr w"
    and ch': "chain (members w') (ge_members x') ks" "distinct (map (id_of \<circ> member w') ks)"
    and ks: "\<And>j. j \<in> set ks \<Longrightarrow> j \<in> set (ch g) \<or> members w j = None"
    and old: "\<And>j. j \<notin> set (ch g) \<Longrightarrow> members w j \<noteq> None \<Longrightarrow> members w' j = members w j"
    and bound: "\<And>j m. members w' j = Some m \<Longrightarrow> j < next_member_addr w'"
  shows "snoop_rep (insert g S) w' (ch(g := ks)) \<and> hosts w' (ch(g := ks)) = (hosts w ch)(key_of x \<mapsto> map (member w') ks)"
proof -
  note d = snoop_repD [OF rep]
  have other: "members w' j = members w j" if "groups w g' = Some y" "g' \<noteq> g" "j \<in> set (ch g')" for g' y j
  proof (rule old)
    show "j \<notin> set (ch g)" using d(8) [OF that(1) x that(2)] that(3) by blast
    show "members w j \<noteq> None" using chain_in [OF d(4) [OF that(1)] that(3)] by auto
  qed
  then have mem: "map (member w') (ch g') = map (member w) (ch g')" if "groups w g' = Some y" "g' \<noteq> g" for g' y
    using that by (auto simp: member_def)
  have ids: "map (id_of \<circ> member w') (ch g') = map (id_of \<circ> member w) (ch g')" if "groups w g' = Some y" "g' \<noteq> g" for g' y
    using mem [OF that] by (metis map_map)
  have ch: "chain (members w') (ge_members y) (ch g')" if "groups w g' = Some y" "g' \<noteq> g" for g' y
    by (rule chain_frame [OF d(4) [OF that(1)]]) (use other [OF that] in simp)
  have disj: "set (ch g') \<inter> set ks = {}" if "groups w g' = Some y" "g' \<noteq> g" for g' y
    using d(8) [OF that(1) x that(2)] ks chain_in [OF d(4) [OF that(1)]] by fastforce
  have keys: "map_option key_of (groups w' j) = map_option key_of (groups w j)" for j using x x' by (simp add: w')
  have "snoop_rep (insert g S) w' (ch(g := ks))"
    unfolding snoop_rep_def
  proof (intro conjI allI impI)
    show "distinct (group_list w')" using d(1) by (simp add: w')
    show "set (group_list w') = dom (groups w')" using d(2) x by (auto simp: w')
  next
    fix j y assume y: "groups w' j = Some y"
    show "j < next_group_addr w'" using y d(3) x by (auto simp: w' split: if_splits)
    show "chain (members w') (ge_members y) ((ch(g := ks)) j)" using y ch ch'(1) by (auto simp: w' split: if_splits)
    show "distinct (map (id_of \<circ> member w') ((ch(g := ks)) j))"
    proof (cases "j = g")
      case True
      then show ?thesis using ch'(2) by simp
    next
      case False
      then have gj: "groups w j = Some y" using y by (simp add: w')
      have "distinct (map (id_of \<circ> member w') (ch j))" unfolding ids [OF gj False] by (rule d(5) [OF gj])
      then show ?thesis using False by simp
    qed
    assume "j \<notin> insert g S"
    then have gj: "groups w j = Some y" "j \<noteq> g" "j \<notin> S" using y by (auto simp: w')
    have "ge_port_map y = group_ports (map (member w') (ch j))" unfolding mem [OF gj(1,2)] by (rule d(6) [OF gj(1,3)])
    then show "ge_port_map y = group_ports (map (member w') ((ch(g := ks)) j))" using gj(2) by simp
  next
    fix j y j' y' assume y: "groups w' j = Some y" "groups w' j' = Some y'" "j \<noteq> j'"
    show "key_of y \<noteq> key_of y'" using y d(7) x x' by (auto simp: w' split: if_splits)
    consider "j = g" "groups w j' = Some y'" "j' \<noteq> g" | "j' = g" "groups w j = Some y" "j \<noteq> g"
      | "groups w j = Some y" "groups w j' = Some y'" "j \<noteq> g" "j' \<noteq> g"
      using y by (auto simp: w' split: if_splits)
    then show "set ((ch(g := ks)) j) \<inter> set ((ch(g := ks)) j') = {}"
    proof cases
      case 1
      then show ?thesis using disj [OF 1(2,3)] by (simp add: Int_commute)
    next
      case 2
      then show ?thesis using disj [OF 2(2,3)] by simp
    next
      case 3
      then show ?thesis using d(8) [OF 3(1,2) y(3)] by simp
    qed
  next
    fix k m assume "members w' k = Some m"
    then show "k < next_member_addr w'" by (rule bound)
  qed
  moreover have "hosts w' (ch(g := ks)) key = ((hosts w ch)(key_of x \<mapsto> map (member w') ks)) key" for key
  proof (cases "key = key_of x")
    case True
    then show ?thesis using hosts_Some [OF calculation, of g x'] x' by (simp add: w')
  next
    case False
    have f: "find (\<lambda>g. map_option key_of (groups w' g) = Some key) (group_list w') = find (\<lambda>g. map_option key_of (groups w g) = Some key) (group_list w)"
      unfolding keys w'(2) by (rule refl)
    show ?thesis
    proof (cases "find (\<lambda>g. map_option key_of (groups w g) = Some key) (group_list w)")
      case None
      then show ?thesis using False f by (simp add: hosts_def)
    next
      case (Some j)
      then obtain y where "groups w j = Some y" "key_of y = key" by (auto simp: find_Some_iff)
      moreover then have "j \<noteq> g" using False x by auto
      ultimately show ?thesis using Some f False mem by (simp add: hosts_def)
    qed
  qed
  ultimately show ?thesis by (simp add: fun_eq_iff)
qed

section \<open>Reports\<close>

text \<open>A report from a host at a port.\<close>

definition reported :: "u32 \<Rightarrow> byte \<Rightarrow> int \<Rightarrow> group_member list \<Rightarrow> group_member list" where
  "reported u a0 p ms =
     (if \<exists>m \<in> set ms. hit u a0 m
      then map (\<lambda>m. if hit u a0 m then m\<lparr>gm_port_num := p, has_report := True\<rparr> else m) ms
      else \<lparr>gm_ip_addr = u, gm_a0 = a0, gm_port_num = p, has_report = True, gm_next = None\<rparr> # ms)"

lemma distinct_hit:
  assumes "distinct (map (id_of \<circ> f) ks)" "k \<in> set ks" "j \<in> set ks" "hit u a0 (f k)" "hit u a0 (f j)"
  shows "j = k"
proof -
  have "(id_of \<circ> f) j = (id_of \<circ> f) k" using assms(4,5) by (simp add: hit_id)
  then show ?thesis using assms(1-3) by (meson distinct_map inj_onD)
qed

lemma insert_member_outcome:
  assumes rep: "snoop_rep S w ch" and x: "groups w g = Some x" and al: "p_alloc e sizeof_group_member"
  shows "yields (insert_member e g m u w) (\<lambda>w'. snoop_frame w w' \<and> (\<exists>p ks x'. snoop_rep (insert g S) w' (ch(g := ks)) \<and> groups w' g = Some x'
    \<and> hosts w' (ch(g := ks)) = (hosts w ch)(key_of x \<mapsto> reported u (IP_GET_LOST_MAPPING m) p (map (member w) (ch g)))))"
proof -
  let ?a0 = "IP_GET_LOST_MAPPING m" and ?look = "portLookUpByIP e (inetFmt (ntohl u)) w"
  let ?k = "next_member_addr w"
  note d = snoop_repD [OF rep]
  have find: "lookup_member x m u w = ret (find (\<lambda>k. hit u ?a0 (member w k)) (ch g))"
    unfolding lookup_member_def by (rule member_walk_find) (rule d(4) [OF x])
  show ?thesis
  proof (cases "find (\<lambda>k. hit u ?a0 (member w k)) (ch g)")
    case None
    then have no: "\<forall>k \<in> set (ch g). \<not> hit u ?a0 (member w k)" by (simp add: find_None_iff)
    have kn: "members w ?k = None" using d(9) [of ?k] by (cases "members w ?k") auto
    then have kc: "?k \<notin> set (ch g)" using chain_in [OF d(4) [OF x]] by force
    have "yields (run_map (\<lambda>(p, w). let k = next_member_addr w in
           put_group g (x\<lparr>ge_members := Some k\<rparr>)
             (put_member k \<lparr>gm_ip_addr = u, gm_a0 = ?a0, gm_port_num = p, has_report = True, gm_next = ge_members x\<rparr>
               (w\<lparr>next_member_addr := Suc k\<rparr>))) ?look) (\<lambda>w'. snoop_frame w w' \<and> (\<exists>p ks x'. snoop_rep (insert g S) w' (ch(g := ks)) \<and> groups w' g = Some x'
    \<and> hosts w' (ch(g := ks)) = (hosts w ch)(key_of x \<mapsto> reported u ?a0 p (map (member w) (ch g)))))"
      unfolding yields_map
    proof (rule yields_mono [OF portLookUpByIP_hw])
      fix r :: "int \<times> proxy"
      assume "case r of (p, w') \<Rightarrow> hw_step w w'"
      then obtain p w1 where r: "r = (p, w1)" "hw_step w w1" by (cases r) auto
      note h = hw_stepD [OF r(2)]
      let ?m = "\<lparr>gm_ip_addr = u, gm_a0 = ?a0, gm_port_num = p, has_report = True, gm_next = ge_members x\<rparr>"
      let ?w = "put_group g (x\<lparr>ge_members := Some ?k\<rparr>) (put_member ?k ?m (w1\<lparr>next_member_addr := Suc ?k\<rparr>))"
      have mem: "members ?w = (members w)(?k \<mapsto> ?m)" "groups ?w = (groups w)(g \<mapsto> x\<lparr>ge_members := Some ?k\<rparr>)"
        by (simp_all add: put_group_def put_member_def h)
      have mw: "map (member ?w) (ch g) = map (member w) (ch g)" using kc by (auto simp: member_def mem)
      then have idw: "map (id_of \<circ> member ?w) (ch g) = map (id_of \<circ> member w) (ch g)" by (metis map_map)
      have new: "member ?w ?k = host ?m" by (simp add: mem)
      have "id_of (host ?m) \<notin> set (map (id_of \<circ> member w) (ch g))" using no by (auto simp: hit_id id_of_def)
      then have "(id_of \<circ> member ?w) ?k \<notin> set (map (id_of \<circ> member ?w) (ch g))" unfolding idw using new by simp
      moreover have "distinct (map (id_of \<circ> member ?w) (ch g))" unfolding idw by (rule d(5) [OF x])
      ultimately have dis: "distinct (map (id_of \<circ> member ?w) (?k # ch g))" by simp
      have "snoop_rep (insert g S) ?w (ch(g := ?k # ch g)) \<and> hosts ?w (ch(g := ?k # ch g)) = (hosts w ch)(key_of x \<mapsto> map (member ?w) (?k # ch g))"
      proof (rule rep_change [OF rep x, where x' = "x\<lparr>ge_members := Some ?k\<rparr>"])
        show "chain (members ?w) (ge_members (x\<lparr>ge_members := Some ?k\<rparr>)) (?k # ch g)" using d(4) [OF x] kc by (simp add: mem)
        show "distinct (map (id_of \<circ> member ?w) (?k # ch g))" by (rule dis)
        show "j < next_member_addr ?w" if "members ?w j = Some y" for j y
          using that d(9) by (auto simp: put_group_def put_member_def h split: if_splits intro: less_SucI)
      qed (use kn in \<open>auto simp: key_of_def put_group_def put_member_def h\<close>)
      moreover have "map (member ?w) (?k # ch g) = reported u ?a0 p (map (member w) (ch g))"
        using no mw new by (simp add: reported_def host_def)
      moreover have "snoop_frame w ?w"
        by (rule snoop_frame_trans [OF hw_snoop_frame [OF r(2)]], rule snoop_frameI) (simp_all add: put_group_def put_member_def)
      ultimately show "case (case r of (p, w) \<Rightarrow> let k = next_member_addr w in
           put_group g (x\<lparr>ge_members := Some k\<rparr>)
             (put_member k \<lparr>gm_ip_addr = u, gm_a0 = ?a0, gm_port_num = p, has_report = True, gm_next = ge_members x\<rparr>
               (w\<lparr>next_member_addr := Suc k\<rparr>))) of w' \<Rightarrow> snoop_frame w w' \<and> (\<exists>p ks x'. snoop_rep (insert g S) w' (ch(g := ks)) \<and> groups w' g = Some x'
    \<and> hosts w' (ch(g := ks)) = (hosts w ch)(key_of x \<mapsto> reported u ?a0 p (map (member w) (ch g))))"
        unfolding r(1) prod.case Let_def h(6) using mem(2) by (intro conjI exI [of _ p] exI [of _ "?k # ch g"] exI [of _ "x\<lparr>ge_members := Some ?k\<rparr>"]) auto
    qed
    then show ?thesis using x find None al by (simp add: insert_member_def)
  next
    case (Some k)
    then have k: "k \<in> set (ch g)" "hit u ?a0 (member w k)" by (auto simp: find_Some_iff)
    obtain mk where mk: "members w k = Some mk" using chain_in [OF d(4) [OF x] k(1)] by blast
    have "yields (run_bind ?look (\<lambda>(p, w). run_map (\<lambda>m. put_member k (m\<lparr>gm_port_num := p, has_report := True\<rparr>) w) (get_member k w)))
      (\<lambda>w'. snoop_frame w w' \<and> (\<exists>p ks x'. snoop_rep (insert g S) w' (ch(g := ks)) \<and> groups w' g = Some x'
    \<and> hosts w' (ch(g := ks)) = (hosts w ch)(key_of x \<mapsto> reported u ?a0 p (map (member w) (ch g)))))"
    proof (rule yields_then2 [OF portLookUpByIP_hw])
      fix p :: int and w1 :: proxy
      assume w1: "hw_step w w1"
      note h = hw_stepD [OF w1]
      let ?w = "put_member k (mk\<lparr>gm_port_num := p, has_report := True\<rparr>) w1"
      have mem: "members ?w = (members w)(k \<mapsto> mk\<lparr>gm_port_num := p, has_report := True\<rparr>)" "groups ?w = (groups w)(g \<mapsto> x)"
        using x by (auto simp: put_member_def h)
      have id: "id_of (member ?w j) = id_of (member w j)" for j using mk by (simp add: member_def mem id_of_def)
      have "snoop_rep (insert g S) ?w (ch(g := ch g)) \<and> hosts ?w (ch(g := ch g)) = (hosts w ch)(key_of x \<mapsto> map (member ?w) (ch g))"
      proof (rule rep_change [OF rep x, where x' = x])
        show "chain (members ?w) (ge_members x) (ch g)" by (rule chain_frame [OF d(4) [OF x]]) (use mk in \<open>auto simp: mem\<close>)
        show "distinct (map (id_of \<circ> member ?w) (ch g))" using d(5) [OF x] id by (simp add: comp_def)
        show "j < next_member_addr ?w" if "members ?w j = Some y" for j y
          using that d(9) mk by (auto simp: put_member_def h split: if_splits)
      qed (use x k in \<open>auto simp: put_member_def h\<close>)
      moreover have rp: "map (member ?w) (ch g) = reported u ?a0 p (map (member w) (ch g))"
      proof -
        have "member ?w j = (if hit u ?a0 (member w j) then (member w j)\<lparr>gm_port_num := p, has_report := True\<rparr> else member w j)" if "j \<in> set (ch g)" for j
          using distinct_hit [OF d(5) [OF x] k(1) that k(2)] k(2) mk by (cases "j = k") (auto simp: member_def mem)
        then show ?thesis using k by (auto simp: reported_def)
      qed
      moreover have "snoop_frame w ?w"
        by (rule snoop_frame_trans [OF hw_snoop_frame [OF w1]], rule snoop_frameI) (simp_all add: put_member_def)
      moreover have rm: "run_map (\<lambda>m. put_member k (m\<lparr>gm_port_num := p, has_report := True\<rparr>) w1) (get_member k w1) = ret ?w"
        using mk by (simp add: h)
      moreover have "groups ?w g = Some x" using mem(2) by simp
      ultimately show "yields (case (p, w1) of (p, w) \<Rightarrow> run_map (\<lambda>m. put_member k (m\<lparr>gm_port_num := p, has_report := True\<rparr>) w) (get_member k w))
        (\<lambda>w'. snoop_frame w w' \<and> (\<exists>p ks x'. snoop_rep (insert g S) w' (ch(g := ks)) \<and> groups w' g = Some x'
    \<and> hosts w' (ch(g := ks)) = (hosts w ch)(key_of x \<mapsto> reported u ?a0 p (map (member w) (ch g)))))"
        unfolding prod.case rm yields_ret rp by blast
    qed
    then show ?thesis using x find Some by (simp add: insert_member_def)
  qed
qed


lemma snoop_outcome_then:
  assumes "snoop_rep S w ch" "snoop_frame u w" "S = {g} \<or> S = {}" "groups w g = Some x"
  shows "yields (update_group_port_map e g w) (snoop_outcome u (hosts w ch))"
proof -
  have "snoop_rep {g} w ch" using assms(1,3) unfolding snoop_rep_def by auto
  from update_group_port_map_outcome [OF this assms(4)] show ?thesis
    by (rule yields_mono) (use assms(2) snoop_frame_trans in \<open>auto simp: snoop_outcome_def\<close>)
qed

text \<open>The group of an address is not recorded when it is new and the count of the groups has passed its limit, or it is the
  address of all hosts.\<close>

definition refused :: "proxy \<Rightarrow> u32 \<Rightarrow> (group_key \<Rightarrow> group_member list option) \<Rightarrow> bool" where
  "refused w m v \<longleftrightarrow> v (ip_key m) = None \<and> (group_count w > MAX_MULTICASTS_GROUP \<or> ip_key m = (0, 0, 1))"

lemma new_group:
  assumes rep: "snoop_rep {} w ch" and new: "\<And>g x. groups w g = Some x \<Longrightarrow> key_of x \<noteq> key_of y" and y: "ge_members y = None" "ge_port_map y = 0"
    and g: "g = next_group_addr w" and w': "w' = (put_group g y (w\<lparr>group_count := n, next_group_addr := Suc g\<rparr>))\<lparr>group_list := g # group_list w\<rparr>"
  shows "snoop_rep {} w' (ch(g := [])) \<and> hosts w' (ch(g := [])) = (hosts w ch)(key_of y \<mapsto> []) \<and> groups w' g = Some y \<and> snoop_frame w w'"
proof -
  note d = snoop_repD [OF rep]
  have gn: "groups w g = None" using d(3) [of g] g by (cases "groups w g") auto
  then have gl: "g \<notin> set (group_list w)" using d(2) by auto
  have mem: "member w' = member w" "members w' = members w" by (simp_all add: fun_eq_iff member_def w' put_group_def)
  have gr: "groups w' = (groups w)(g \<mapsto> y)" "group_list w' = g # group_list w" "next_group_addr w' = Suc g" "next_member_addr w' = next_member_addr w"
    by (simp_all add: w' put_group_def)
  have "snoop_rep {} w' (ch(g := []))"
    unfolding snoop_rep_def mem gr
  proof (intro conjI allI impI)
    show "distinct (g # group_list w)" using gl d(1) by simp
    show "set (g # group_list w) = dom ((groups w)(g \<mapsto> y))" using d(2) by auto
  next
    fix j x assume x: "((groups w)(g \<mapsto> y)) j = Some x"
    show "j < Suc g" using x d(3) g by (auto split: if_splits intro: less_SucI)
    show "chain (members w) (ge_members x) ((ch(g := [])) j)" using x d(4) y by (auto split: if_splits)
    show "distinct (map (id_of \<circ> member w) ((ch(g := [])) j))" using x d(5) by (auto split: if_splits)
    show "ge_port_map x = group_ports (map (member w) ((ch(g := [])) j))" using x d(6) y by (auto simp: group_ports_def split: if_splits)
  next
    fix j x j' x' assume x: "((groups w)(g \<mapsto> y)) j = Some x" "((groups w)(g \<mapsto> y)) j' = Some x'" "j \<noteq> j'"
    show "key_of x \<noteq> key_of x'" using x d(7) new new [symmetric] by (auto split: if_splits)
    show "set ((ch(g := [])) j) \<inter> set ((ch(g := [])) j') = {}" using x d(8) by (auto split: if_splits)
  next
    fix k m assume "members w k = Some m"
    then show "k < next_member_addr w" by (rule d(9))
  qed
  moreover have "hosts w' (ch(g := [])) key = ((hosts w ch)(key_of y \<mapsto> [])) key" for key
  proof (cases "key = key_of y")
    case True
    then show ?thesis by (simp add: hosts_def gr)
  next
    case False
    have f: "find (\<lambda>j. map_option key_of (((groups w)(g \<mapsto> y)) j) = Some key) (group_list w) = find (\<lambda>j. map_option key_of (groups w j) = Some key) (group_list w)"
      by (rule find_cong [OF refl]) (use gl in auto)
    have e: "find (\<lambda>j. map_option key_of (groups w' j) = Some key) (group_list w') = find (\<lambda>j. map_option key_of (groups w j) = Some key) (group_list w)"
      unfolding gr find.simps f using False by simp
    show ?thesis
    proof (cases "find (\<lambda>j. map_option key_of (groups w j) = Some key) (group_list w)")
      case None
      then show ?thesis using False e by (simp add: hosts_def)
    next
      case (Some j)
      then have "j \<in> set (group_list w)" by (auto simp: find_Some_iff)
      then have "j \<noteq> g" using gl by auto
      then show ?thesis using Some e False mem by (simp add: hosts_def)
    qed
  qed
  moreover have "snoop_frame w w'" by (rule snoop_frameI) (simp_all add: w' put_group_def)
  ultimately show ?thesis by (simp add: fun_eq_iff gr)
qed

lemma insert_multicast_ip_outcome:
  assumes rep: "snoop_rep {} w ch" and on: "snooping_enabled w" and al: "\<And>n. p_alloc e n"
  shows "yields (insert_multicast_ip e m u w) (\<lambda>w'.
    if refused w m (hosts w ch) then snoop_outcome w (hosts w ch) w'
    else \<exists>p. snoop_outcome w ((hosts w ch)(ip_key m \<mapsto>
      reported u (IP_GET_LOST_MAPPING m) p (case hosts w ch (ip_key m) of None \<Rightarrow> [] | Some ms \<Rightarrow> ms))) w')"
proof -
  have tail: "yields (run_bind (insert_member e g m u v) (update_group_port_map e g)) (\<lambda>w'. \<exists>p. snoop_outcome w
      ((hosts v ch')(key_of x \<mapsto> reported u (IP_GET_LOST_MAPPING m) p (map (member v) (ch' g)))) w')"
    if v: "snoop_rep {} v ch'" "groups v g = Some x" "snoop_frame w v" for v ch' g x
  proof (rule yields_then [OF insert_member_outcome [OF v(1,2) al]])
    fix w' assume "snoop_frame v w' \<and> (\<exists>p ks x'. snoop_rep {g} w' (ch'(g := ks)) \<and> groups w' g = Some x' \<and>
      hosts w' (ch'(g := ks)) = (hosts v ch')(key_of x \<mapsto> reported u (IP_GET_LOST_MAPPING m) p (map (member v) (ch' g))))"
    then obtain p ks x' where p: "snoop_frame v w'" "snoop_rep {g} w' (ch'(g := ks))" "groups w' g = Some x'"
      "hosts w' (ch'(g := ks)) = (hosts v ch')(key_of x \<mapsto> reported u (IP_GET_LOST_MAPPING m) p (map (member v) (ch' g)))" by blast
    have "yields (update_group_port_map e g w') (snoop_outcome w (hosts w' (ch'(g := ks))))"
      by (rule snoop_outcome_then [OF p(2) snoop_frame_trans [OF v(3) p(1)] _ p(3)]) simp
    then show "yields (update_group_port_map e g w') (\<lambda>w'. \<exists>p. snoop_outcome w
      ((hosts v ch')(key_of x \<mapsto> reported u (IP_GET_LOST_MAPPING m) p (map (member v) (ch' g)))) w')"
      unfolding p(4) by (rule yields_mono) blast
  qed
  show ?thesis
  proof (rule find_entry_cases [OF rep, of m])
    fix g x assume g: "find_entry m w = ret (Some g)" "groups w g = Some x" "key_of x = ip_key m" "hosts w ch (ip_key m) = Some (map (member w) (ch g))"
    have "\<not> refused w m (hosts w ch)" using g(4) by (simp add: refused_def)
    then show ?thesis using tail [OF rep g(2) snoop_frame_refl] g on by (simp add: insert_multicast_ip_def)
  next
    assume none: "find_entry m w = ret None" "hosts w ch (ip_key m) = None" "\<And>g x. groups w g = Some x \<Longrightarrow> key_of x \<noteq> ip_key m"
    show ?thesis
    proof (cases "refused w m (hosts w ch)")
      case True
      let ?w = "w\<lparr>group_count := s32 (group_count w + 1)\<rparr>"
      have "build_entry e m w = (None, ?w)"
        using True al by (auto simp: build_entry_def refused_def ip_key_def Let_def)
      then have "insert_multicast_ip e m u w = ret ?w" using none(1) on by (simp add: insert_multicast_ip_def)
      moreover have "snoop_outcome w (hosts w ch) ?w"
      proof -
        have m: "member ?w = member w" by (simp add: fun_eq_iff member_def)
        have "snoop_rep {} ?w ch" using rep unfolding snoop_rep_def m by simp
        moreover have "hosts ?w ch = hosts w ch" unfolding hosts_def m by simp
        moreover have "snoop_frame w ?w" by (rule snoop_frameI) simp_all
        ultimately show ?thesis by (auto simp: snoop_outcome_def)
      qed
      ultimately show ?thesis using True by simp
    next
      case False
      let ?g = "next_group_addr w"
      let ?y = "\<lparr>ge_a1 = ip_a1 m, ge_a2 = ip_a2 m, ge_a3 = ip_a3 m, ge_port_map = 0, ge_members = None\<rparr>"
      let ?w = "(put_group ?g ?y (w\<lparr>group_count := s32 (group_count w + 1), next_group_addr := Suc ?g\<rparr>))\<lparr>group_list := ?g # group_list w\<rparr>"
      have key: "key_of ?y = ip_key m" by (simp add: key_of_def ip_key_def)
      have n: "snoop_rep {} ?w (ch(?g := []))" "hosts ?w (ch(?g := [])) = (hosts w ch)(ip_key m \<mapsto> [])" "groups ?w ?g = Some ?y" "snoop_frame w ?w"
        using new_group [OF rep _ _ _ refl refl, of ?y "s32 (group_count w + 1)"] none(3) key by auto
      have "build_entry e m w = (Some ?g, put_group ?g ?y (w\<lparr>group_count := s32 (group_count w + 1), next_group_addr := Suc ?g\<rparr>))"
        using False none(2) al by (auto simp: build_entry_def refused_def ip_key_def Let_def)
      then have "insert_multicast_ip e m u w = run_bind (insert_member e ?g m u ?w) (update_group_port_map e ?g)"
        using none(1) on by (simp add: insert_multicast_ip_def put_group_def)
      then show ?thesis using tail [OF n(1,3,4)] False none(2) unfolding key n(2) by simp
    qed
  qed
qed

section \<open>Leaves\<close>

lemma update_group_port_map_members: "yields (update_group_port_map e g w) (\<lambda>w'. members w' = members w)"
  unfolding update_group_port_map_def
  by (rule yields_run_any, rule yields_run_any) (auto simp: Let_def put_group_def dest: hw_stepD(3) intro!: yields_mono [OF updateMacTable_hw])

lemma remove_member_step:
  assumes rep: "snoop_rep {} w ch" and on: "snooping_enabled w"
    and g: "find_entry m w = ret (Some g)" "groups w g = Some x" "key_of x = ip_key m" "hosts w ch (ip_key m) = Some (map (member w) (ch g))"
  shows "yields (remove_member e m u w) (\<lambda>w'. snoop_outcome w ((hosts w ch)(ip_key m \<mapsto>
      filter (\<lambda>x. \<not> hit u (IP_GET_LOST_MAPPING m) x) (map (member w) (ch g)))) w'
    \<and> (\<forall>j \<in> set (ch g). hit u (IP_GET_LOST_MAPPING m) (member w j) \<longrightarrow> members w' j = None))"
proof -
  let ?a0 = "IP_GET_LOST_MAPPING m"
  note d = snoop_repD [OF rep]
  define v where "v = (hosts w ch)(ip_key m \<mapsto> filter (\<lambda>x. \<not> hit u ?a0 x) (map (member w) (ch g)))"
  have "yields (remove_member e m u w) (\<lambda>w'. snoop_outcome w v w' \<and> (\<forall>j \<in> set (ch g). hit u ?a0 (member w j) \<longrightarrow> members w' j = None))"
  proof (cases "ch g")
    case Nil
    then have "ge_members x = None" using d(4) [OF g(2)] by simp
    moreover have "v = hosts w ch" using Nil g(4) by (auto simp: v_def)
    ultimately show ?thesis using on rep g Nil by (auto simp: remove_member_def snoop_outcome_def)
  next
    case (Cons k ks)
    have c: "chain (members w) (Some k) (k # ks)" "ge_members x = Some k" using d(4) [OF g(2)] Cons by auto
    obtain mk where mk: "members w k = Some mk" "chain (members w) (gm_next mk) ks" using c by auto
    have dis: "distinct (map (id_of \<circ> member w) (k # ks))" "distinct (k # ks)" using d(5) [OF g(2)] snoop_rep_distinct [OF rep g(2)] Cons by auto
    note only = distinct_hit [OF dis(1), where u = u and ?a0.0 = ?a0]
    define next_step where "next_step = (if gm_ip_addr mk = u \<and> gm_a0 mk = ?a0 then ret (Some k, put_group g (x\<lparr>ge_members := gm_next mk\<rparr>) w)
      else unlink_walk u ?a0 k w)"
    have rm: "remove_member e m u w = run_bind next_step (\<lambda>(del, w). run_bind (case del of None \<Rightarrow> ret w | Some d \<Rightarrow> free_member d w) (update_group_port_map e g))"
      using on g(1,2) c(2) mk(1) by (simp add: remove_member_def Let_def next_step_def)
    have change: "yields (update_group_port_map e g w1) (\<lambda>w'. snoop_outcome w v w' \<and> (\<forall>j \<in> set (ch g). hit u ?a0 (member w j) \<longrightarrow> members w' j = None))"
      if w1: "groups w1 = (groups w)(g \<mapsto> x1)" "key_of x1 = key_of x" "group_list w1 = group_list w" "next_group_addr w1 = next_group_addr w"
        "next_member_addr w1 = next_member_addr w" "snoop_frame w w1"
        "chain (members w1) (ge_members x1) (filter (\<lambda>j. j \<noteq> q) (k # ks))" "q \<in> set (k # ks)" "hit u ?a0 (member w q)"
        "\<And>j. j \<noteq> q \<Longrightarrow> map_option host (members w1 j) = map_option host (members w j)" "members w1 q = None"
        "\<And>j. j \<notin> set (k # ks) \<Longrightarrow> members w1 j = members w j" for w1 x1 q
    proof -
      let ?ks = "filter (\<lambda>j. j \<noteq> q) (k # ks)"
      have "member w1 j = member w j" if "j \<noteq> q" for j
        using w1(10) [OF that] by (cases "members w1 j"; cases "members w j") (auto simp: member_def)
      then have mem: "map (member w1) ?ks = map (member w) ?ks" by simp
      then have ids: "map (id_of \<circ> member w1) ?ks = map (id_of \<circ> member w) ?ks" by (metis map_map)
      have "snoop_rep (insert g {}) w1 (ch(g := ?ks)) \<and> hosts w1 (ch(g := ?ks)) = (hosts w ch)(key_of x \<mapsto> map (member w1) ?ks)"
      proof (rule rep_change [OF rep g(2) w1(2,1,3,4,7)])
        show "distinct (map (id_of \<circ> member w1) ?ks)" unfolding ids using dis(1) by (rule distinct_map_filter)
        show "j < next_member_addr w1" if "members w1 j = Some y" for j y
          using that d(9) [of j] w1(5,11) w1(10) [of j] by (cases "j = q"; cases "members w j") auto
        show "j \<in> set (ch g) \<or> members w j = None" if "j \<in> set ?ks" for j using that unfolding set_filter Cons by blast
        show "members w1 j = members w j" if "j \<notin> set (ch g)" for j using that w1(12) unfolding Cons by blast
      qed
      moreover have "map (member w) ?ks = filter (\<lambda>x. \<not> hit u ?a0 x) (map (member w) (ch g))"
      proof -
        have "?ks = filter (\<lambda>j. \<not> hit u ?a0 (member w j)) (k # ks)"
          by (rule filter_cong [OF refl]) (use only w1(8,9) in blast)
        then show ?thesis using Cons by (simp add: filter_map comp_def)
      qed
      ultimately have r: "snoop_rep {g} w1 (ch(g := ?ks))" "hosts w1 (ch(g := ?ks)) = v" using mem g(3) by (simp_all add: v_def)
      have "yields (update_group_port_map e g w1) (snoop_outcome w v)"
        unfolding r(2) [symmetric] by (rule snoop_outcome_then [OF r(1) w1(6)]) (use w1(1) in simp_all)
      moreover have "yields (update_group_port_map e g w1) (\<lambda>w'. \<forall>j \<in> set (ch g). hit u ?a0 (member w j) \<longrightarrow> members w' j = None)"
        by (rule yields_mono [OF update_group_port_map_members]) (use only w1(8,9,11) Cons in metis)
      ultimately show ?thesis by (rule yields_conj)
    qed
    show ?thesis
    proof (cases "hit u ?a0 (member w k)")
      case True
      let ?w1 = "(put_group g (x\<lparr>ge_members := gm_next mk\<rparr>) w)\<lparr>members := (members w)(k := None)\<rparr>"
      have "yields (update_group_port_map e g ?w1) (\<lambda>w'. snoop_outcome w v w' \<and> (\<forall>j \<in> set (ch g). hit u ?a0 (member w j) \<longrightarrow> members w' j = None))"
      proof (rule change [where q = k and ?x1.0 = "x\<lparr>ge_members := gm_next mk\<rparr>"])
        show "snoop_frame w ?w1" by (rule snoop_frameI) (simp_all add: put_group_def)
        have "filter (\<lambda>j. j \<noteq> k) (k # ks) = ks" using dis(2) by (auto simp: filter_id_conv)
        then show "chain (members ?w1) (ge_members (x\<lparr>ge_members := gm_next mk\<rparr>)) (filter (\<lambda>j. j \<noteq> k) (k # ks))"
          using mk(2) dis(2) by simp
      qed (use True in \<open>auto simp: put_group_def key_of_def\<close>)
      moreover have "free_member k (put_group g (x\<lparr>ge_members := gm_next mk\<rparr>) w) = ret ?w1" using mk(1) by (simp add: free_member_def put_group_def)
      moreover have "next_step = ret (Some k, put_group g (x\<lparr>ge_members := gm_next mk\<rparr>) w)" using True mk(1) by (simp add: next_step_def hit_def)
      ultimately show ?thesis by (simp add: rm)
    next
      case False
      then have ns: "next_step = unlink_walk u ?a0 k w" using mk(1) by (auto simp: next_step_def hit_def)
      show ?thesis
      proof (cases "\<exists>j \<in> set ks. hit u ?a0 (member w j)")
        case none: False
        then have "next_step = ret (None, w)" using unlink_walk_none [OF c(1)] ns by auto
        moreover have "v = hosts w ch"
        proof -
          have "filter (\<lambda>x. \<not> hit u ?a0 x) (map (member w) (ch g)) = map (member w) (ch g)" using none False Cons by (auto simp: filter_id_conv)
          then show ?thesis using g(4) by (auto simp: v_def)
        qed
        moreover have "\<forall>j \<in> set (ch g). \<not> hit u ?a0 (member w j)" using none False Cons by simp
        ultimately show ?thesis using snoop_outcome_then [OF rep snoop_frame_refl _ g(2), of e] by (simp add: rm)
      next
        case True
        then obtain xs q ys where q: "ks = xs @ q # ys" "hit u ?a0 (member w q)" "\<forall>j \<in> set xs. \<not> hit u ?a0 (member w j)"
          using split_list_first_prop [of ks "\<lambda>j. hit u ?a0 (member w j)"] by blast
        obtain h where h: "unlink_walk u ?a0 k w = ret (Some q, w\<lparr>members := h\<rparr>)" "chain h (Some k) (k # xs @ ys)"
          "\<forall>j. map_option host (h j) = map_option host (members w j)" "\<forall>j. j \<notin> set (k # xs) \<longrightarrow> h j = members w j"
          using unlink_walk_hit [of w k xs q ys u ?a0] c(1) dis(2) q by auto
        let ?w1 = "w\<lparr>members := h(q := None)\<rparr>"
        have qn: "q \<notin> set (k # xs @ ys)" using dis(2) q(1) by auto
        have f: "filter (\<lambda>j. j \<noteq> q) (k # ks) = k # xs @ ys" 
        proof -
          have "filter (\<lambda>j. j \<noteq> q) xs = xs" "filter (\<lambda>j. j \<noteq> q) ys = ys" using qn by (auto simp: filter_id_conv)
          then show ?thesis using qn q(1) by simp
        qed
        have "yields (update_group_port_map e g ?w1) (\<lambda>w'. snoop_outcome w v w' \<and> (\<forall>j \<in> set (ch g). hit u ?a0 (member w j) \<longrightarrow> members w' j = None))"
        proof (rule change [where q = q and ?x1.0 = x])
          show "snoop_frame w ?w1" by (rule snoop_frameI) simp_all
          show "chain (members ?w1) (ge_members x) (filter (\<lambda>j. j \<noteq> q) (k # ks))"
            unfolding f c(2) using h(2) chain_other [OF qn, of h None "Some k"] by simp
        qed (use g(2) q h in auto)
        moreover have "\<exists>y. h q = Some y" using h(4) qn chain_in [OF c(1), of q] q(1) by auto
        then have "free_member q (w\<lparr>members := h\<rparr>) = ret ?w1" by (auto simp: free_member_def)
        ultimately show ?thesis using h(1) ns by (simp add: rm)
      qed
    qed
  qed
  then show ?thesis by (simp add: v_def)
qed

lemma remove_member_outcome:
  assumes rep: "snoop_rep {} w ch" and on: "snooping_enabled w"
  shows "yields (remove_member e m u w) (snoop_outcome w (case hosts w ch (ip_key m) of None \<Rightarrow> hosts w ch
    | Some ms \<Rightarrow> (hosts w ch)(ip_key m \<mapsto> filter (\<lambda>x. \<not> hit u (IP_GET_LOST_MAPPING m) x) ms)))"
proof (rule find_entry_cases [OF rep, of m])
  assume "find_entry m w = ret None" "hosts w ch (ip_key m) = None"
  then show ?thesis using on rep by (auto simp: remove_member_def snoop_outcome_def)
next
  fix g x assume g: "find_entry m w = ret (Some g)" "groups w g = Some x" "key_of x = ip_key m" "hosts w ch (ip_key m) = Some (map (member w) (ch g))"
  show ?thesis using yields_mono [OF remove_member_step [OF rep on g]] g(4) by simp
qed


section \<open>General queries\<close>

definition unreport :: "group_member \<Rightarrow> group_member" where
  "unreport m = m\<lparr>has_report := False\<rparr>"

definition unreport_in :: "nat set \<Rightarrow> (nat \<Rightarrow> group_member option) \<Rightarrow> nat \<Rightarrow> group_member option" where
  "unreport_in K h k = (if k \<in> K then map_option unreport (h k) else h k)"

lemma unreport_simps [simp]: "gm_next (unreport m) = gm_next m" "id_of (unreport m) = id_of m" "gm_port_num (unreport m) = gm_port_num m"
  "unreport (unreport m) = unreport m"
  by (simp_all add: unreport_def id_of_def)

lemma unreport_in_simps: "unreport_in {} h = h" "unreport_in K (unreport_in K' h) = unreport_in (K' \<union> K) h"
  by (auto simp: unreport_in_def fun_eq_iff option.map_comp comp_def)

lemma chain_unreport: "chain h p ks \<Longrightarrow> chain (unreport_in K h) p ks"
  by (erule chain_frame) (auto simp: unreport_in_def option.map_comp comp_def)

lemma clear_reports_eq:
  "chain (members w) p ks \<Longrightarrow> distinct ks \<Longrightarrow> clear_reports p w = ret (w\<lparr>members := unreport_in (set ks) (members w)\<rparr>)"
proof (induction ks arbitrary: p w)
  case Nil
  then show ?case by (subst clear_reports.simps) (simp add: unreport_in_simps)
next
  case (Cons k ks)
  obtain m where m: "p = Some k" "members w k = Some m" "chain (members w) (gm_next m) ks" using Cons.prems(1) by auto
  have one: "put_member k (m\<lparr>has_report := False\<rparr>) w = w\<lparr>members := unreport_in {k} (members w)\<rparr>"
    using m(2) by (auto simp: put_member_def unreport_in_def unreport_def fun_eq_iff intro!: proxy.fold_congs)
  have "clear_reports (gm_next m) (w\<lparr>members := unreport_in {k} (members w)\<rparr>)
    = ret (w\<lparr>members := unreport_in (set ks) (unreport_in {k} (members w))\<rparr>)"
    using Cons.IH [of "w\<lparr>members := unreport_in {k} (members w)\<rparr>" "gm_next m"] chain_unreport [OF m(3)] Cons.prems(2) by simp
  then show ?case using m one by (subst clear_reports.simps) (simp add: unreport_in_simps)
qed

lemma clear_groups_eq:
  assumes "\<And>g. g \<in> set gs \<Longrightarrow> \<exists>x. groups w g = Some x \<and> chain (members w) (ge_members x) (ch g) \<and> distinct (ch g)"
  shows "clear_groups gs w = ret (w\<lparr>members := unreport_in (\<Union>g \<in> set gs. set (ch g)) (members w)\<rparr>)"
  using assms
proof (induction gs arbitrary: w)
  case Nil
  show ?case by (simp add: unreport_in_simps)
next
  case (Cons g gs)
  obtain x where x: "groups w g = Some x" "chain (members w) (ge_members x) (ch g)" "distinct (ch g)" using Cons.prems [of g] by auto
  let ?w = "w\<lparr>members := unreport_in (set (ch g)) (members w)\<rparr>"
  have "clear_groups gs ?w = ret (?w\<lparr>members := unreport_in (\<Union>g \<in> set gs. set (ch g)) (members ?w)\<rparr>)"
  proof (rule Cons.IH)
    fix j assume "j \<in> set gs"
    then obtain y where "groups w j = Some y" "chain (members w) (ge_members y) (ch j)" "distinct (ch j)" using Cons.prems [of j] by auto
    then show "\<exists>x. groups ?w j = Some x \<and> chain (members ?w) (ge_members x) (ch j) \<and> distinct (ch j)" using chain_unreport by simp
  qed
  then show ?case using x clear_reports_eq [OF x(2,3)] by (simp add: unreport_in_simps)
qed

lemma clear_all_entries_report_outcome:
  assumes rep: "snoop_rep {} w ch" and on: "snooping_enabled w"
  shows "returns (clear_all_entries_report w) (snoop_outcome w (\<lambda>key. map_option (map unreport) (hosts w ch key)))"
proof -
  note d = snoop_repD [OF rep]
  let ?K = "\<Union>g \<in> set (group_list w). set (ch g)"
  let ?w = "w\<lparr>members := unreport_in ?K (members w)\<rparr>"
  have "clear_all_entries_report w = ret ?w"
    using on clear_groups_eq [of "group_list w" w ch] d(2,4) snoop_rep_distinct [OF rep] by (force simp: clear_all_entries_report_def)
  moreover have mem: "map (member ?w) (ch g) = map unreport (map (member w) (ch g))" if "groups w g = Some x" for g x
  proof -
    have "member ?w k = unreport (member w k)" if k: "k \<in> set (ch g)" for k
    proof -
      have "k \<in> ?K" using k \<open>groups w g = Some x\<close> d(2) by auto
      moreover obtain m where "members w k = Some m" using chain_in [OF d(4) [OF \<open>groups w g = Some x\<close>] k] by blast
      ultimately show ?thesis by (simp add: member_def unreport_in_def unreport_def)
    qed
    then show ?thesis by simp
  qed
  have ids: "map (id_of \<circ> member ?w) (ch g) = map (id_of \<circ> member w) (ch g)" if "groups w g = Some x" for g x
    using arg_cong [OF mem [OF that], of "map id_of"] by (simp add: comp_def)
  have ports: "group_ports (map unreport ms) = group_ports ms" for ms
    by (simp add: group_ports_def foldr_map comp_def)
  have "snoop_rep {} ?w ch"
    unfolding snoop_rep_def
  proof (intro conjI allI impI)
    show "distinct (group_list ?w)" "set (group_list ?w) = dom (groups ?w)" using d(1,2) by simp_all
  next
    fix j x assume "groups ?w j = Some x"
    then have x: "groups w j = Some x" by simp
    show "j < next_group_addr ?w" using d(3) [OF x] by simp
    show "chain (members ?w) (ge_members x) (ch j)" using chain_unreport [OF d(4) [OF x]] by simp
    show "distinct (map (id_of \<circ> member ?w) (ch j))" unfolding ids [OF x] by (rule d(5) [OF x])
    show "ge_port_map x = group_ports (map (member ?w) (ch j))" unfolding mem [OF x] ports using d(6) [OF x] by simp
  next
    fix j x j' x' assume "groups ?w j = Some x" "groups ?w j' = Some x'" "j \<noteq> j'"
    then show "key_of x \<noteq> key_of x'" "set (ch j) \<inter> set (ch j') = {}" using d(7,8) by simp_all
  next
    fix k m assume "members ?w k = Some m"
    then have "\<exists>m. members w k = Some m" by (auto simp: unreport_in_def split: if_splits)
    then show "k < next_member_addr ?w" using d(9) by auto
  qed
  moreover have "hosts ?w ch = (\<lambda>key. map_option (map unreport) (hosts w ch key))"
  proof (rule ext)
    fix key
    show "hosts ?w ch key = map_option (map unreport) (hosts w ch key)"
    proof (cases "find (\<lambda>g. map_option key_of (groups w g) = Some key) (group_list w)")
      case None
      then show ?thesis by (simp add: hosts_def)
    next
      case (Some g)
      then obtain x where "groups w g = Some x" by (auto simp: find_Some_iff)
      then show ?thesis using Some mem by (simp add: hosts_def)
    qed
  qed
  moreover have "snoop_frame w ?w" by (rule snoop_frameI) simp_all
  ultimately show ?thesis by (auto simp: snoop_outcome_def)
qed

end
