(* ===== verification/SnoopSpec.thy ===== *)
theory SnoopSpec
  imports SnoopInv
begin

text \<open>
  The properties of the snooping tables: the sequence of reports, leave messages and general queries against its specification on
  a finite map, the registers the switch gets, the address that is made up for a member, and the member that is read
  after it has been freed.
\<close>

section \<open>The tables against a finite map\<close>

type_synonym snoop_map = "group_key \<Rightarrow> group_member list option"

definition snoop_view :: "proxy \<Rightarrow> snoop_map \<Rightarrow> bool" where
  "snoop_view w v \<longleftrightarrow> (\<exists>ch. snoop_rep {} w ch \<and> hosts w ch = v)"

text \<open>A report of a host for a group (\<open>acceptGroupReport\<close>), a leave message (\<open>acceptLeaveMessage\<close>), and a general query.\<close>

datatype snoop_op = HostReport u32 u32 | HostLeave u32 u32 | GeneralQuery

definition snoop_exec :: "penv \<Rightarrow> snoop_op \<Rightarrow> proxy \<Rightarrow> proxy run" where
  "snoop_exec e x w =
     (case x of
        HostReport m u \<Rightarrow> insert_multicast_ip e m u w
      | HostLeave m u \<Rightarrow> remove_member e m u w
      | GeneralQuery \<Rightarrow> clear_all_entries_report w)"

fun snoop_execs :: "penv \<Rightarrow> snoop_op list \<Rightarrow> proxy \<Rightarrow> proxy run" where
  "snoop_execs e [] w = ret w"
| "snoop_execs e (x # xs) w = run_bind (snoop_exec e x w) (snoop_execs e xs)"

definition snoop_spec :: "snoop_op \<Rightarrow> snoop_map \<Rightarrow> snoop_map \<Rightarrow> bool" where
  "snoop_spec x v v' \<longleftrightarrow>
     (case x of
        HostReport m u \<Rightarrow>
          (\<exists>p. v' = v(ip_key m \<mapsto> reported u (IP_GET_LOST_MAPPING m) p (case v (ip_key m) of None \<Rightarrow> [] | Some ms \<Rightarrow> ms)))
          \<or> v (ip_key m) = None \<and> v' = v
      | HostLeave m u \<Rightarrow>
          v' = (case v (ip_key m) of None \<Rightarrow> v | Some ms \<Rightarrow> v(ip_key m \<mapsto> filter (\<lambda>x. \<not> hit u (IP_GET_LOST_MAPPING m) x) ms))
      | GeneralQuery \<Rightarrow> v' = (\<lambda>key. map_option (map unreport) (v key)))"

fun snoop_specs :: "snoop_op list \<Rightarrow> snoop_map \<Rightarrow> snoop_map \<Rightarrow> bool" where
  "snoop_specs [] v v' \<longleftrightarrow> v' = v"
| "snoop_specs (x # xs) v v' \<longleftrightarrow> (\<exists>u. snoop_spec x v u \<and> snoop_specs xs u v')"

lemma snoop_exec_meets:
  assumes "snoop_view w v" "snooping_enabled w" "\<And>n. p_alloc e n"
  shows "yields (snoop_exec e x w) (\<lambda>w'. snooping_enabled w' \<and> snoop_frame w w' \<and> (\<exists>v'. snoop_view w' v' \<and> snoop_spec x v v'))"
proof -
  obtain ch where ch: "snoop_rep {} w ch" "hosts w ch = v" using assms(1) by (auto simp: snoop_view_def)
  have out: "snooping_enabled w' \<and> snoop_frame w w' \<and> snoop_view w' v'" if "snoop_outcome w v' w'" for v' w'
    using that assms(2) snoop_frameD(12) by (auto simp: snoop_outcome_def snoop_view_def)
  show ?thesis
  proof (cases x)
    case (HostReport m u)
    show ?thesis
      unfolding snoop_exec_def HostReport snoop_op.case
      by (rule yields_mono [OF insert_multicast_ip_outcome [OF ch(1) assms(2,3)]])
        (auto simp: snoop_spec_def ch(2) refused_def dest!: out split: if_splits)
  next
    case (HostLeave m u)
    show ?thesis
      unfolding snoop_exec_def HostLeave snoop_op.case
      by (rule yields_mono [OF remove_member_outcome [OF ch(1) assms(2), unfolded ch(2)]]) (auto simp: snoop_spec_def dest!: out)
  next
    case GeneralQuery
    show ?thesis
      unfolding snoop_exec_def GeneralQuery snoop_op.case
      by (rule yields_mono [OF returns_yields [OF clear_all_entries_report_outcome [OF ch(1) assms(2)]]])
        (auto simp: snoop_spec_def ch(2) dest!: out)
  qed
qed

lemma snoop_execs_meet:
  assumes "snoop_view w v" "snooping_enabled w" "\<And>n. p_alloc e n"
  shows "yields (snoop_execs e xs w) (\<lambda>w'. snooping_enabled w' \<and> snoop_frame w w' \<and> (\<exists>v'. snoop_view w' v' \<and> snoop_specs xs v v'))"
  using assms(1,2)
proof (induction xs arbitrary: w v)
  case (Cons x xs)
  show ?case
    unfolding snoop_execs.simps
  proof (rule yields_then [OF snoop_exec_meets [OF Cons.prems assms(3)]])
    fix w1 assume "snooping_enabled w1 \<and> snoop_frame w w1 \<and> (\<exists>v'. snoop_view w1 v' \<and> snoop_spec x v v')"
    then obtain v1 where v1: "snooping_enabled w1" "snoop_frame w w1" "snoop_view w1 v1" "snoop_spec x v v1" by blast
    show "yields (snoop_execs e xs w1) (\<lambda>w'. snooping_enabled w' \<and> snoop_frame w w' \<and> (\<exists>v'. snoop_view w' v' \<and> snoop_specs (x # xs) v v'))"
      by (rule yields_mono [OF Cons.IH [OF v1(3,1)]]) (use v1(2,4) snoop_frame_trans in auto)
  qed
qed simp


section \<open>What the switch gets\<close>

lemma group_mac_parts:
  "take 8 (group_mac g) = ''01005e'' @ hex02 (ge_a1 g)" "take 4 (drop 8 (group_mac g)) = hex02 (ge_a2 g) @ hex02 (ge_a3 g)"
  by (simp_all add: group_mac_def hex02_def)

lemma mac_values:
  "strtoul16 0 (take 8 (group_mac g)) = 0x01005E00 + unat (ge_a1 g)"
  "strtoul16 0 (take 4 (drop 8 (group_mac g))) = 256 * unat (ge_a2 g) + unat (ge_a3 g)"
proof -
  have "strtoul16 0 (''01005e'' @ s) = strtoul16 0x01005E s" for s by (simp add: hex_value_def Let_def)
  then show "strtoul16 0 (take 8 (group_mac g)) = 0x01005E00 + unat (ge_a1 g)"
    unfolding group_mac_parts using strtoul16_hex02 [of "0x01005E" "ge_a1 g" "[]"] by simp
  show "strtoul16 0 (take 4 (drop 8 (group_mac g))) = 256 * unat (ge_a2 g) + unat (ge_a3 g)"
    unfolding group_mac_parts using strtoul16_hex02 [of 0 "ge_a2 g" "hex02 (ge_a3 g)"] strtoul16_hex02 [of "unat (ge_a2 g)" "ge_a3 g" "[]"] by simp
qed

text \<open>The registers: the Ethernet address of the group, and the ports with the processor's.\<close>

definition mac_writes :: "group_entry \<Rightarrow> kcall list" where
  "mac_writes g =
     [EswWrite REG_ESW_WT_MAC_AD2 (0x01005E00 + ucast (ge_a1 g)),
      EswWrite REG_ESW_WT_MAC_AD1 (256 * ucast (ge_a2 g) + ucast (ge_a3 g)),
      EswWrite REG_ESW_WT_MAC_AD0
        (if ge_port_map g = 0 then 0x71 else 0x71 + (0x00040000 OR push_bit 12 (ucast (ge_port_map g AND 0x7F))))]"

definition waits :: "proxy \<Rightarrow> kcall list \<Rightarrow> proxy \<Rightarrow> bool" where
  "waits w cs w' \<longleftrightarrow> (\<exists>k. w' = w\<lparr>calls := calls w @ cs @ replicate k (EswRead REG_ESW_WT_MAC_AD0)\<rparr>)"

lemma mac_cmd_waits: "yields (mac_cmd e v w) (waits w [EswWrite REG_ESW_WT_MAC_AD0 v])"
  unfolding mac_cmd_def
  by (rule yields_then [OF reg_write_keeps], hypsubst, rule yields_mono [OF wait_keeps]) (auto simp: waits_def)

lemma updateMacTable_writes: "yields (updateMacTable e g ZEROED w) (waits w (mac_writes g))"
proof -
  have v: "(of_nat (strtoul16 0 (take 8 (group_mac g))) :: u32) = 0x01005E00 + ucast (ge_a1 g)"
    "(of_nat (strtoul16 0 (take 4 (drop 8 (group_mac g)))) :: u32) = 256 * ucast (ge_a2 g) + ucast (ge_a3 g)"
    unfolding mac_values by simp_all
  show ?thesis
    unfolding updateMacTable_def v WANPORT_def LAN_VLAN_IDX_def
    by (auto simp: yields_bind do_call_def reg_write_def mac_writes_def waits_def intro!: yields_mono [OF mac_cmd_waits])
qed

text \<open>C18. When the hosts of a group have changed, the group gets the map of the ports of exactly its hosts (all ports of the LAN when the port of
  one host is unknown), and when this differs from the map before, exactly one entry is written to the switch: the Ethernet address
  01:00:5E of the 23 bits of the group, with these ports and the processor's, or no port at all when no host is left.\<close>

theorem group_ports_reach_switch:
  assumes "groups w g = Some x" "chain (members w) (ge_members x) ks"
  shows "yields (update_group_port_map e g w) (\<lambda>w'.
    let pm = group_ports (map (member w) ks); x' = x\<lparr>ge_port_map := pm\<rparr> in
    groups w' g = Some x' \<and> (if pm = ge_port_map x then w' = w else waits (put_group g x' w) (mac_writes x') w'))"
proof -
  let ?x = "x\<lparr>ge_port_map := group_ports (map (member w) ks)\<rparr>"
  have pm: "port_map_walk 0 (ge_members x) w = ret (group_ports (map (member w) ks))"
    using port_map_walk_ports [OF assms(2)] by (simp add: ports_of_zero)
  show ?thesis
  proof (cases "ge_port_map x = group_ports (map (member w) ks)")
    case True
    then have "?x = x" by (cases x) auto
    then show ?thesis using True assms(1) pm by (simp add: update_group_port_map_def Let_def)
  next
    case False
    have "yields (updateMacTable e ?x ZEROED (put_group g ?x w)) (\<lambda>w'. groups w' g = Some ?x \<and> waits (put_group g ?x w) (mac_writes ?x) w')"
      by (rule yields_mono [OF updateMacTable_writes]) (auto simp: waits_def put_group_def)
    then show ?thesis using False assms(1) pm by (simp add: update_group_port_map_def Let_def)
  qed
qed

section \<open>The address of a member\<close>

text \<open>The 23 bits of a group and the five bits of a member make up the address of the report that the member came from: the sweep asks for
  the removal of the right multicast address.\<close>

lemma craft_mip_round_trip:
  assumes "IN_MULTICAST m" "key_of x = ip_key m"
  shows "ntohl (craft_mip (IP_GET_LOST_MAPPING m) x) = m"
proof -
  have a: "ge_a1 x = ip_a1 m" "ge_a2 x = ip_a2 m" "ge_a3 x = ip_a3 m" using assms(2) by (simp_all add: key_of_def ip_key_def)
  have "bit (m AND 0xF0000000) n = bit (0xE0000000 :: u32) n" for n using assms(1) by (simp add: IN_MULTICAST_def)
  from this [of 28] this [of 29] this [of 30] this [of 31]
  have top: "\<not> bit m 28" "bit m 29" "bit m 30" "bit m 31" by (simp_all add: bit_simps)
  have "craft_mip (IP_GET_LOST_MAPPING m) x = ntohl m"
  proof (rule bit_word_eqI)
    fix n assume "n < LENGTH(32)"
    then have "n < 32" by simp
    then have "n = 0 \<or> n = 1 \<or> n = 2 \<or> n = 3 \<or> n = 4 \<or> n = 5 \<or> n = 6 \<or> n = 7 \<or> n = 8 \<or> n = 9 \<or> n = 10 \<or> n = 11 \<or> n = 12 \<or> n = 13
      \<or> n = 14 \<or> n = 15 \<or> n = 16 \<or> n = 17 \<or> n = 18 \<or> n = 19 \<or> n = 20 \<or> n = 21 \<or> n = 22 \<or> n = 23 \<or> n = 24 \<or> n = 25 \<or> n = 26
      \<or> n = 27 \<or> n = 28 \<or> n = 29 \<or> n = 30 \<or> n = 31" by presburger
    then show "bit (craft_mip (IP_GET_LOST_MAPPING m) x) n = bit (ntohl m) n"
      unfolding craft_mip_def a IP_GET_LOST_MAPPING_def IP_MULTICAST_A0_def IP_MULTICAST_A1_def ip_a1_def ip_a2_def ip_a3_def
          ntohl_def le32_def rd_be32_def
      by (elim disjE) (simp_all add: bit_simps top)
  qed
  then show ?thesis by simp
qed


section \<open>Members that stopped reporting\<close>

text \<open>The driver of the switch answers.\<close>

definition hw_ok :: "penv \<Rightarrow> bool" where
  "hw_ok e \<longleftrightarrow> (\<forall>cs off. answer e cs (EswRead off) \<noteq> - 1) \<and> (\<forall>cs off v. answer e cs (EswWrite off v) \<noteq> - 1)"

lemma reg_read_returns: "hw_ok e \<Longrightarrow> reg_read e off w = ret (reg_value e (calls w) off, w\<lparr>calls := calls w @ [EswRead off]\<rparr>)"
  by (simp add: reg_read_def do_call_def hw_ok_def)

lemma reg_write_returns: "hw_ok e \<Longrightarrow> reg_write e off v w = ret (w\<lparr>calls := calls w @ [EswWrite off v]\<rparr>)"
  by (simp add: reg_write_def do_call_def hw_ok_def)

lemma wait_returns: "hw_ok e \<Longrightarrow> \<exists>w'. wait_switch_done n e w = ret w'"
  by (induction n arbitrary: w) (auto simp: reg_read_returns)

lemma mac_cmd_returns: "hw_ok e \<Longrightarrow> \<exists>w'. mac_cmd e v w = ret w'"
  by (simp add: mac_cmd_def reg_write_returns wait_returns)

lemma updateMacTable_returns:
  assumes "hw_ok e"
  shows "\<exists>w'. updateMacTable e g ZEROED w = ret w'"
proof -
  have "\<exists>w'. run_bind (mac_cmd e v u) ret = ret w'" for v u using mac_cmd_returns [OF assms, of v u] by auto
  then show ?thesis using mac_cmd_returns [OF assms] by (simp add: updateMacTable_def WANPORT_def reg_write_returns [OF assms])
qed

lemma update_group_port_map_returns:
  assumes "hw_ok e" "groups w g = Some x" "chain (members w) (ge_members x) ks"
  shows "\<exists>w'. update_group_port_map e g w = ret w'"
  using assms(2) port_map_walk_ports [OF assms(3)] updateMacTable_returns [OF assms(1)]
  by (simp add: update_group_port_map_def Let_def)

lemma remove_member_returns:
  assumes rep: "snoop_rep {} w ch" and hw: "hw_ok e"
    and g: "find_entry m w = ret (Some g)" "groups w g = Some x"
  shows "\<exists>w'. remove_member e m u w = ret w'"
proof (cases "ch g")
  case Nil
  then have "ge_members x = None" using snoop_repD(4) [OF rep g(2)] by simp
  then show ?thesis using g by (simp add: remove_member_def)
next
  case (Cons k ks)
  let ?a0 = "IP_GET_LOST_MAPPING m"
  have c: "chain (members w) (Some k) (k # ks)" "ge_members x = Some k" using snoop_repD(4) [OF rep g(2)] Cons by auto
  obtain mk where mk: "members w k = Some mk" "chain (members w) (gm_next mk) ks" using c by auto
  have dis: "distinct (k # ks)" using snoop_rep_distinct [OF rep g(2)] Cons by simp
  show ?thesis
  proof (cases "hit u ?a0 mk")
    case True
    let ?w = "(put_group g (x\<lparr>ge_members := gm_next mk\<rparr>) w)\<lparr>members := (members w)(k := None)\<rparr>"
    have "chain (members ?w) (gm_next mk) ks" using mk(2) dis by simp
    then have "\<exists>w'. update_group_port_map e g ?w = ret w'"
      using update_group_port_map_returns [OF hw, of ?w g "x\<lparr>ge_members := gm_next mk\<rparr>" ks] by (simp add: put_group_def)
    then show ?thesis using True g c(2) mk(1) by (simp add: remove_member_def Let_def hit_def free_member_def put_group_def)
  next
    case False
    then have ns: "remove_member e m u w = (if snooping_enabled w then run_bind (unlink_walk u ?a0 k w)
        (\<lambda>(del, w). run_bind (case del of None \<Rightarrow> ret w | Some d \<Rightarrow> free_member d w) (update_group_port_map e g)) else ret w)"
      using g c(2) mk(1) by (auto simp: remove_member_def Let_def hit_def)
    show ?thesis
    proof (cases "\<exists>j \<in> set ks. hit u ?a0 (member w j)")
      case none: False
      then show ?thesis
        using unlink_walk_none [OF c(1)] ns update_group_port_map_returns [OF hw g(2), of "k # ks"] c by simp
    next
      case True
      then obtain xs q ys where q: "ks = xs @ q # ys" "hit u ?a0 (member w q)" "\<forall>j \<in> set xs. \<not> hit u ?a0 (member w j)"
        using split_list_first_prop [of ks "\<lambda>j. hit u ?a0 (member w j)"] by blast
      obtain h where h: "unlink_walk u ?a0 k w = ret (Some q, w\<lparr>members := h\<rparr>)" "chain h (Some k) (k # xs @ ys)"
        "\<forall>j. j \<notin> set (k # xs) \<longrightarrow> h j = members w j"
        using unlink_walk_hit [of w k xs q ys u ?a0] c(1) dis q by auto
      have qn: "q \<notin> set (k # xs @ ys)" using dis q(1) by auto
      then have "\<exists>y. h q = Some y" using h(3) chain_in [OF c(1), of q] q(1) by auto
      then have "free_member q (w\<lparr>members := h\<rparr>) = ret (w\<lparr>members := h(q := None)\<rparr>)" by (auto simp: free_member_def)
      moreover have "chain (h(q := None)) (Some k) (k # xs @ ys)" using h(2) chain_other [OF qn, of h None "Some k"] by simp
      ultimately show ?thesis
        using ns h(1) update_group_port_map_returns [OF hw, of "w\<lparr>members := h(q := None)\<rparr>" g x "k # xs @ ys"] g(2) c(2) by simp
    qed
  qed
qed

lemma sweep_walk_reported:
  "chain (members w) p (ks @ ks') \<Longrightarrow> \<forall>k \<in> set ks. has_report (member w k) \<Longrightarrow>
   sweep_walk e g p w = sweep_walk e g (case ks' of [] \<Rightarrow> None | k # _ \<Rightarrow> Some k) w"
proof (induction ks arbitrary: p)
  case Nil
  then show ?case by (cases ks') auto
next
  case (Cons k ks)
  then show ?case by (subst sweep_walk.simps) auto
qed

lemma sweep_walk_all_reported:
  "chain (members w) p ks \<Longrightarrow> \<forall>k \<in> set ks. has_report (member w k) \<Longrightarrow> sweep_walk e g p w = ret w"
  using sweep_walk_reported [of w p ks "[]" e g] by (simp add: sweep_walk.simps [of e g None])

lemma sweep_groups_reported:
  assumes "\<And>g. g \<in> set gs \<Longrightarrow> \<exists>x. groups w g = Some x \<and> chain (members w) (ge_members x) (ch g)"
    and "\<And>g k. g \<in> set gs \<Longrightarrow> k \<in> set (ch g) \<Longrightarrow> has_report (member w k)"
  shows "sweep_groups e (gs @ gs') w = sweep_groups e gs' w"
  using assms
proof (induction gs)
  case (Cons g gs)
  obtain x where "groups w g = Some x" "chain (members w) (ge_members x) (ch g)" using Cons.prems(1) [of g] by auto
  moreover have "\<forall>k \<in> set (ch g). has_report (member w k)" using Cons.prems(2) [of g] by simp
  moreover have "sweep_groups e (gs @ gs') w = sweep_groups e gs' w" using Cons.prems by (intro Cons.IH) auto
  ultimately show ?case using sweep_walk_all_reported [of w "ge_members x" "ch g" e g] by simp
qed simp

lemma sweep_last_unreported:
  assumes rep: "snoop_rep {} w ch" and on: "snooping_enabled w" and hw: "hw_ok e" and x: "groups w g = Some x" "ch g = ks @ [k]"
    and r: "\<forall>j \<in> set ks. has_report (member w j)" "\<not> has_report (member w k)"
    and m: "IN_MULTICAST m" "key_of x = ip_key m" "gm_a0 (member w k) = IP_GET_LOST_MAPPING m"
  shows "sweep_walk e g (ge_members x) w = fail UseAfterFree"
proof -
  have c: "chain (members w) (ge_members x) (ks @ [k])" using snoop_repD(4) [OF rep x(1)] x(2) by simp
  obtain mk where mk: "members w k = Some mk" using chain_in [OF c, of k] by auto
  have nk: "gm_next mk = None" using c mk by (induction ks arbitrary: x) (auto, metis group_entry.select_convs(5))
  have a: "ntohl (craft_mip (gm_a0 mk) x) = m" using craft_mip_round_trip [OF m(1,2)] m(3) mk by simp
  have f: "find_entry m w = ret (Some g)" "hosts w ch (ip_key m) = Some (map (member w) (ch g))"
  proof -
    have "\<exists>g'. find_entry m w = ret (Some g') \<and> g' = g"
    proof (rule find_entry_cases [OF rep, of m])
      fix j y assume "find_entry m w = ret (Some j)" "groups w j = Some y" "key_of y = ip_key m"
      then show ?thesis using snoop_repD(7) [OF rep, of j y g x] x(1) m(2) by auto
    qed (use x(1) m(2) in auto)
    then show "find_entry m w = ret (Some g)" by blast
    show "hosts w ch (ip_key m) = Some (map (member w) (ch g))" using hosts_Some [OF rep x(1)] m(2) by simp
  qed
  obtain w' where w': "remove_member e m (gm_ip_addr mk) w = ret w'" using remove_member_returns [OF rep hw f(1) x(1)] by blast
  have "yields (remove_member e m (gm_ip_addr mk) w) (\<lambda>w'. members w' k = None)"
    by (rule yields_mono [OF remove_member_step [OF rep on f(1) x(1) m(2) f(2)]]) (use x(2) mk m(3) in \<open>auto simp: hit_def\<close>)
  then have "members w' k = None" using w' by simp
  then have "sweep_walk e g (Some k) w = fail UseAfterFree"
    using mk r(2) nk a w' x(1) by (subst sweep_walk.simps) (simp add: get_member_def)
  then show ?thesis using sweep_walk_reported [OF c r(1)] by simp
qed


text \<open>C24. When the host at the end of the list of a group has sent no report since the last general query, the sweep at the next aging round
  removes and frees it and then reads the link of the freed member, whatever other hosts and groups there are.\<close>

theorem sweep_reads_freed_member:
  assumes "snoop_view w v" "snooping_enabled w" "hw_ok e" "IN_MULTICAST m" "v (ip_key m) = Some (ms @ [h])"
    and "\<not> has_report h" "gm_a0 h = IP_GET_LOST_MAPPING m"
    and "\<forall>key hs x. v key = Some hs \<longrightarrow> x \<in> set hs \<longrightarrow> \<not> has_report x \<longrightarrow> key = ip_key m \<and> x \<notin> set ms"
  shows "sweap_no_report_members e w = fail UseAfterFree"
proof -
  obtain ch where rep: "snoop_rep {} w ch" and v: "hosts w ch = v" using assms(1) by (auto simp: snoop_view_def)
  note d = snoop_repD [OF rep]
  obtain g x where x: "groups w g = Some x" "key_of x = ip_key m" "map (member w) (ch g) = ms @ [h]"
    by (rule find_entry_cases [OF rep, of m]) (use assms(5) v in auto)
  then obtain ks k where k: "ch g = ks @ [k]" "map (member w) ks = ms" "member w k = h" by (auto simp: map_eq_append_conv)
  have rep_old: "has_report (member w j)" if "j \<in> set ks" for j
  proof (rule ccontr)
    assume "\<not> has_report (member w j)"
    moreover have "member w j \<in> set ms" using that k(2) by auto
    ultimately show False using assms(5,8) by fastforce
  qed
  have rep_other: "has_report (member w j)" if "groups w g' = Some y" "g' \<noteq> g" "j \<in> set (ch g')" for g' y j
  proof (rule ccontr)
    assume "\<not> has_report (member w j)"
    moreover have "v (key_of y) = Some (map (member w) (ch g'))" using hosts_Some [OF rep that(1)] v by simp
    ultimately have "key_of y = ip_key m" using assms(8) that(3) by fastforce
    then show False using d(7) [OF that(1) x(1) that(2)] x(2) by simp
  qed
  obtain gs gs' where l: "group_list w = gs @ g # gs'" using x(1) d(2) by (metis domI split_list)
  have gs: "g \<notin> set gs" "\<And>j. j \<in> set gs \<Longrightarrow> \<exists>y. groups w j = Some y" using d(1,2) l by auto
  have "sweep_groups e (gs @ g # gs') w = sweep_groups e (g # gs') w"
  proof (rule sweep_groups_reported)
    fix j assume "j \<in> set gs"
    then show "\<exists>x. groups w j = Some x \<and> chain (members w) (ge_members x) (ch j)" using gs(2) d(4) by blast
  next
    fix j i assume "j \<in> set gs" "i \<in> set (ch j)"
    then show "has_report (member w i)" using gs rep_other by blast
  qed
  moreover have "sweep_walk e g (ge_members x) w = fail UseAfterFree"
    by (rule sweep_last_unreported [OF rep assms(2,3) x(1) k(1) _ _ assms(4) x(2)]) (use rep_old k(3) assms(6,7) in auto)
  ultimately show ?thesis using assms(2) l x(1) by (simp add: sweap_no_report_members_def)
qed

section \<open>Concrete tables\<close>

text \<open>The group 232.1.1.5 with one host, 192.168.1.9 at port 2.\<close>

definition sample_host :: group_member where
  "sample_host = \<lparr>gm_ip_addr = 0xC0A80109, gm_a0 = 16, gm_port_num = 2, has_report = False, gm_next = None\<rparr>"

definition sample_entry :: group_entry where
  "sample_entry = \<lparr>ge_a1 = 1, ge_a2 = 1, ge_a3 = 5, ge_port_map = 4, ge_members = Some 0\<rparr>"

definition sample_snoop :: proxy where
  "sample_snoop = sample_proxy\<lparr>snooping_enabled := True, group_list := [0], groups := (\<lambda>g. None)(0 \<mapsto> sample_entry),
     members := (\<lambda>k. None)(0 \<mapsto> sample_host), group_count := 1, next_group_addr := 1, next_member_addr := 1\<rparr>"

definition sample_map :: snoop_map where
  "sample_map = (\<lambda>key. if key = (1, 1, 5) then Some [sample_host] else None)"

lemma sample_snoop_ok: "snoop_view sample_snoop sample_map" "snooping_enabled sample_snoop" "hw_ok sample_penv" "\<forall>n. p_alloc sample_penv n"
proof -
  have m: "member sample_snoop 0 = sample_host" by (simp add: sample_snoop_def member_def host_def sample_host_def)
  have "snoop_rep {} sample_snoop (\<lambda>g. [0])"
    by (auto simp: snoop_rep_def sample_snoop_def member_def host_def sample_host_def sample_entry_def group_ports_def port_bit_def split: if_splits)
  moreover have "hosts sample_snoop (\<lambda>g. [0]) = sample_map"
    by (auto simp: hosts_def sample_map_def fun_eq_iff m) (auto simp: sample_snoop_def sample_entry_def key_of_def host_def sample_host_def)
  ultimately show "snoop_view sample_snoop sample_map" by (auto simp: snoop_view_def)
qed (simp_all add: sample_snoop_def hw_ok_def sample_penv_def no_oom_def)

lemma sample_address: "IN_MULTICAST 0xE8010105" "ip_key 0xE8010105 = (1, 1, 5)" "IP_GET_LOST_MAPPING 0xE8010105 = 16"
  by (simp_all add: IN_MULTICAST_def ip_key_def ip_a1_def ip_a2_def ip_a3_def IP_GET_LOST_MAPPING_def)

theorem sweep_reads_freed_member_witness: "sweap_no_report_members sample_penv sample_snoop = fail UseAfterFree"
proof -
  have "sample_map (ip_key 0xE8010105) = Some ([] @ [sample_host])" "\<not> has_report sample_host" "gm_a0 sample_host = IP_GET_LOST_MAPPING 0xE8010105"
    "\<forall>key hs x. sample_map key = Some hs \<longrightarrow> x \<in> set hs \<longrightarrow> \<not> has_report x \<longrightarrow> key = ip_key 0xE8010105 \<and> x \<notin> set ([] :: group_member list)"
    by (simp_all add: sample_map_def sample_address sample_host_def)
  then show ?thesis by (rule sweep_reads_freed_member [OF sample_snoop_ok(1-3) sample_address(1)])
qed

lemma craft_mip_round_trip_witness: "ntohl (craft_mip 16 sample_entry) = 0xE8010105"
proof -
  have "key_of sample_entry = ip_key 0xE8010105" by (simp add: sample_address key_of_def sample_entry_def)
  from craft_mip_round_trip [OF sample_address(1) this] show ?thesis by (simp add: sample_address)
qed

theorem group_ports_reach_switch_witness:
  "groups sample_snoop 0 = Some sample_entry \<and> yields (update_group_port_map sample_penv 0 sample_snoop) (\<lambda>w'. w' = sample_snoop)"
proof -
  have x: "groups sample_snoop 0 = Some sample_entry" "chain (members sample_snoop) (ge_members sample_entry) [0]"
    by (simp_all add: sample_snoop_def sample_entry_def sample_host_def)
  have "group_ports (map (member sample_snoop) [0]) = ge_port_map sample_entry"
    by (simp add: sample_snoop_def sample_entry_def sample_host_def member_def host_def group_ports_def port_bit_def)
  then show ?thesis using yields_mono [OF group_ports_reach_switch [OF x, of sample_penv]] x(1) by (simp add: Let_def)
qed


end
