(* ===== verification/ProxyReach.thy ===== *)
theory ProxyReach
  imports RouteSpec SnoopSpec ProxyRun
begin

text \<open>
  The running multicast proxy. \<open>proxy_inv\<close> is the invariant of its state: the routing table and the snooping tables are well formed, every
  waiting query timer has its descriptor, and with quick leave the packet filter holds exactly the rules of the joined groups. Every
  handler keeps it, so that it holds in every state the program reaches from its start, through any packets, timers and answers
  of the system.
\<close>

section \<open>The invariant\<close>

definition snooping_ok :: "proxy \<Rightarrow> bool" where
  "snooping_ok w \<longleftrightarrow> (snooping_enabled w \<longrightarrow> (\<exists>v. snoop_view w v))"

definition job_ok :: "proxy \<Rightarrow> timeOutQueue \<Rightarrow> bool" where
  "job_ok w p \<longleftrightarrow> (to_func p = SendGroupSpecificMemberQuery \<longrightarrow> (\<exists>k. to_data p = Some k \<and> k \<in> dom (gvdescs w)))"

definition filter_ok :: "proxy \<Rightarrow> bool" where
  "filter_ok w \<longleftrightarrow> (fastUpstreamLeave (commonConfig w) \<longrightarrow> (\<forall>d. getIfByIx (upStreamVif w) w = Some d \<longrightarrow>
     (\<forall>gr. rule_balance (if_Name d) (commands_of (calls w)) gr = wanted (table w gr))))"

definition proxy_inv :: "proxy \<Rightarrow> bool" where
  "proxy_inv w \<longleftrightarrow> ifs_ok (IfDescVc w) \<and> table_ok w \<and> snooping_ok w \<and> (\<forall>p \<in> set (callout_queue w). job_ok w p) \<and> filter_ok w"

text \<open>The general queries that wait for their time.\<close>

definition is_query :: "timeOutQueue \<Rightarrow> bool" where
  "is_query p \<longleftrightarrow> to_func p = SendGeneralMembershipQuery"

definition queries :: "timeOutQueue list \<Rightarrow> nat" where
  "queries q = length (filter is_query q)"

text \<open>A step that keeps it, the general queries, and the descriptors of timers that have been taken out of the queue to be called.\<close>

definition keeps :: "proxy \<Rightarrow> proxy \<Rightarrow> bool" where
  "keeps w w' \<longleftrightarrow> proxy_inv w' \<and> dom (gvdescs w) \<subseteq> dom (gvdescs w') \<and> queries (callout_queue w) \<le> queries (callout_queue w')"

lemma keeps_refl: "proxy_inv w \<Longrightarrow> keeps w w"
  by (simp add: keeps_def)

lemma keeps_trans: "keeps u v \<Longrightarrow> keeps v w \<Longrightarrow> keeps u w"
  by (auto simp: keeps_def)

lemma keeps_then:
  assumes "yields m (keeps w)" "\<And>w'. keeps w w' \<Longrightarrow> yields (f w') (keeps w')"
  shows "yields (run_bind m f) (keeps w)"
  by (rule yields_then [OF assms(1)]) (blast intro: yields_mono [OF assms(2)] keeps_trans)

lemma keeps_then2:
  assumes "yields m (\<lambda>(b, w'). keeps w w')" "\<And>b w'. keeps w w' \<Longrightarrow> yields (f (b, w')) (keeps w')"
  shows "yields (run_bind m f) (keeps w)"
  by (rule yields_then2 [OF assms(1)]) (blast intro: yields_mono [OF assms(2)] keeps_trans)

lemma keeps_inv: "keeps w w' \<Longrightarrow> proxy_inv w'"
  by (simp add: keeps_def)

lemma snoop_view_same:
  assumes "groups w' = groups w" "group_list w' = group_list w" "members w' = members w" "next_group_addr w' = next_group_addr w"
    "next_member_addr w' = next_member_addr w"
  shows "snoop_view w' v = snoop_view w v"
proof -
  have m: "member w' = member w" by (simp add: fun_eq_iff member_def assms)
  have "snoop_rep {} w' ch = snoop_rep {} w ch" "hosts w' ch = hosts w ch" for ch
    unfolding snoop_rep_def hosts_def assms m by (rule refl)+
  then show ?thesis by (simp add: snoop_view_def)
qed

lemma job_ok_mono: "job_ok w p \<Longrightarrow> dom (gvdescs w) \<subseteq> dom (gvdescs w') \<Longrightarrow> job_ok w' p"
  unfolding job_ok_def by blast

text \<open>A step that leaves the interfaces, the routing table and the commands alone.\<close>

lemma keeps_outside:
  assumes "proxy_inv w" and same: "IfDescVc w' = IfDescVc w" "upStreamVif w' = upStreamVif w"
      "fastUpstreamLeave (commonConfig w') = fastUpstreamLeave (commonConfig w)" "routes w' = routes w" "routing_table w' = routing_table w"
      "next_route_addr w' = next_route_addr w" "commands_of (calls w') = commands_of (calls w)"
    and "snooping_ok w'" "\<forall>p \<in> set (callout_queue w'). job_ok w' p" "dom (gvdescs w) \<subseteq> dom (gvdescs w')"
      "queries (callout_queue w) \<le> queries (callout_queue w')"
  shows "keeps w w'"
proof -
  have "table_ok w' \<and> table w' = table w" using route_table_same [of w' w] assms(1) same by (simp add: proxy_inv_def)
  moreover have "filter_ok w' = filter_ok w" using calculation same by (simp add: filter_ok_def getIfByIx_def)
  ultimately show ?thesis using assms by (simp add: keeps_def proxy_inv_def)
qed

lemma keeps_snoop:
  assumes "proxy_inv w" "snoop_frame w w'" "snooping_ok w'"
  shows "keeps w w'"
proof (rule keeps_outside [OF assms(1)])
  show "\<forall>p \<in> set (callout_queue w'). job_ok w' p"
    using assms(1) snoop_frameD [OF assms(2)] by (simp add: proxy_inv_def job_ok_def)
qed (use assms snoop_frameD [OF assms(2)] in simp_all)

lemma keeps_route:
  assumes "kernel_ok e" "proxy_inv w" "op_ok x"
  shows "yields (exec_op e x w) (keeps w)"
proof -
  have ok: "ifs_ok (IfDescVc w)" "table_ok w" "filter_ok w" using assms(2) by (simp_all add: proxy_inv_def)
  note m = exec_op_meets [OF assms(1) ok(1,2) assms(3)]
  show ?thesis
  proof (cases "spec_op w x (table w)")
    case None
    then show ?thesis using m by (simp add: meets_def)
  next
    case (Some s)
    obtain t cmds where s: "s = (t, cmds)" by fastforce
    have "returns (exec_op e x w) (route_outcome w t cmds)" using m Some s by (simp add: meets_def)
    then show ?thesis
    proof (rule yields_mono [OF returns_yields])
      fix w' assume o: "route_outcome w t cmds w'"
      then have f: "route_frame w w'" "table_ok w'" "table w' = t" "commands_of (calls w') = commands_of (calls w) @ cmds"
        by (auto simp: route_outcome_def)
      note d = route_frameD [OF f(1)]
      have g: "gvdescs w' = gvdescs w" "snooping_enabled w' = snooping_enabled w" "next_group_addr w' = next_group_addr w"
        "next_member_addr w' = next_member_addr w" using f(1) by (auto simp: route_frame_def)
      have "filter_ok w'"
        unfolding filter_ok_def d
      proof (intro impI allI)
        fix i gr assume up: "fastUpstreamLeave (commonConfig w)" "getIfByIx (upStreamVif w) w = Some i"
        have "wanted (t gr) = wanted (table w gr) + rule_balance (if_Name i) cmds gr"
          using spec_op_balance [OF up(2,1) table_keyed [OF ok(2)] Some [unfolded s]] by blast
        then show "rule_balance (if_Name i) (commands_of (calls w')) gr = wanted (table w' gr)"
          using ok(3) up f(3,4) by (simp add: filter_ok_def)
      qed
      moreover have "snooping_ok w' = snooping_ok w"
        using snoop_view_same [of w' w] d g by (simp add: snooping_ok_def)
      ultimately show "keeps w w'" using assms(2) f d g by (simp add: keeps_def proxy_inv_def job_ok_def)
    qed
  qed
qed


section \<open>The snooping tables\<close>

definition snoop_step :: "proxy \<Rightarrow> proxy \<Rightarrow> bool" where
  "snoop_step w w' \<longleftrightarrow> snoop_frame w w' \<and> snooping_ok w'"

lemma snoop_step_keeps: "proxy_inv w \<Longrightarrow> snoop_step w w' \<Longrightarrow> keeps w w'"
  by (simp add: snoop_step_def keeps_snoop)

lemma snoop_step_refl: "snooping_ok w \<Longrightarrow> snoop_step w w"
  by (simp add: snoop_step_def)

lemma snoop_step_then:
  assumes "yields m (snoop_step w)" "\<And>w'. snoop_step w w' \<Longrightarrow> yields (f w') (snoop_step w')"
  shows "yields (run_bind m f) (snoop_step w)"
  by (rule yields_then [OF assms(1)], rule yields_mono [OF assms(2)]) (auto simp: snoop_step_def intro: snoop_frame_trans)

lemma snoop_exec_step:
  assumes "snooping_ok w" "\<And>n. p_alloc e n"
  shows "yields (snoop_exec e x w) (snoop_step w)"
proof (cases "snooping_enabled w")
  case True
  then obtain v where "snoop_view w v" using assms(1) by (auto simp: snooping_ok_def)
  from snoop_exec_meets [OF this True assms(2), of x] show ?thesis
    by (rule yields_mono) (auto simp: snoop_step_def snooping_ok_def)
next
  case False
  then show ?thesis using snoop_step_refl [OF assms(1)]
    by (cases x) (auto simp: snoop_exec_def insert_multicast_ip_def remove_member_def clear_all_entries_report_def intro!: yields_run_any)
qed

lemma remove_member_keeps_view: "snooping_ok w \<Longrightarrow> (\<And>n. p_alloc e n) \<Longrightarrow> yields (remove_member e m u w) (snoop_step w)"
  using snoop_exec_step [of w e "HostLeave m u"] by (simp add: snoop_exec_def)

lemma sweep_walk_step:
  assumes "snooping_ok w" "\<And>n. p_alloc e n"
  shows "yields (sweep_walk e g p w) (snoop_step w)"
proof -
  have "snooping_ok w \<longrightarrow> (\<forall>n. p_alloc e n) \<longrightarrow> (case r of Inl f \<Rightarrow> True | Inr w' \<Rightarrow> snoop_step w w')" if "sweep_walk e g p w = Some r" for e g p w r
  proof (induction e g p w r rule: sweep_walk.raw_induct)
    case (1 f e g p w r)
    show ?case
    proof (intro impI)
      assume ok: "snooping_ok w" "\<forall>n. p_alloc e n"
      have ih: "yields (f e g p v) (snoop_step v)" if "snooping_ok v" for p v using 1(1) that ok(2) by (simp add: yields_Some)
      have after: "yields (case nx of Some n \<Rightarrow> f e g (Some n) v | None \<Rightarrow> run_bind (get_member k v) (\<lambda>m. f e g (gm_next m) v)) (snoop_step v)"
        if "snoop_step w v" for nx k v
        using that ih by (auto simp: snoop_step_def split: option.split intro!: yields_run_any)
      have "yields (case p of None \<Rightarrow> ret w
        | Some k \<Rightarrow> run_bind (get_member k w) (\<lambda>m.
            if has_report m then f e g (gm_next m) w
            else run_bind (get_group g w) (\<lambda>x.
               run_bind (remove_member e (ntohl (craft_mip (gm_a0 m) x)) (gm_ip_addr m) w) (\<lambda>w.
               case gm_next m of Some n \<Rightarrow> f e g (Some n) w
               | None \<Rightarrow> run_bind (get_member k w) (\<lambda>m. f e g (gm_next m) w))))) (snoop_step w)"
      proof (cases p)
        case None
        then show ?thesis using snoop_step_refl [OF ok(1)] by simp
      next
        case (Some k)
        have "yields (run_bind (remove_member e a u w) (\<lambda>w. case nx of Some n \<Rightarrow> f e g (Some n) w
               | None \<Rightarrow> run_bind (get_member k w) (\<lambda>m. f e g (gm_next m) w))) (snoop_step w)" for a u nx
          by (rule snoop_step_then [OF remove_member_keeps_view [OF ok(1)]]) (use ok(2) after in auto)
        then show ?thesis unfolding Some option.case
          by (intro yields_run_any) (auto simp: ih [OF ok(1)] yields_bind [of "get_group g w"] intro: yields_mono [OF yields_True])
      qed
      then show "case r of Inl f \<Rightarrow> True | Inr w' \<Rightarrow> snoop_step w w'" using 1(2) by (auto simp: yields_Some)
    qed
  qed (rule that)
  then show ?thesis using assms by (simp add: yields_Some)
qed

lemma sweep_groups_step:
  assumes "snooping_ok w" "\<And>n. p_alloc e n"
  shows "yields (sweep_groups e gs w) (snoop_step w)"
  using assms(1)
proof (induction gs arbitrary: w)
  case Nil
  then show ?case by (simp add: snoop_step_refl)
next
  case (Cons g gs)
  have "yields (run_bind (sweep_walk e g p w) (sweep_groups e gs)) (snoop_step w)" for p
    by (rule snoop_step_then [OF sweep_walk_step [OF Cons.prems assms(2)]]) (auto simp: snoop_step_def intro: Cons.IH)
  then show ?case by (auto intro: yields_run_any)
qed

lemma sweep_keeps: "proxy_inv w \<Longrightarrow> (\<And>n. p_alloc e n) \<Longrightarrow> yields (sweap_no_report_members e w) (keeps w)"
  using sweep_groups_step [of w e "group_list w"] snoop_step_keeps [of w] keeps_refl [of w]
  by (auto simp: sweap_no_report_members_def proxy_inv_def intro: yields_mono)

section \<open>Messages\<close>

text \<open>A step that only talks to the kernel and fills the buffer for sending.\<close>

definition io_step :: "proxy \<Rightarrow> proxy \<Rightarrow> bool" where
  "io_step w w' \<longleftrightarrow> (\<exists>b t s cs. w' = w\<lparr>send_buf := b, curttl := t, mcGroupSock := s, calls := cs\<rparr>) \<and> commands_of (calls w') = commands_of (calls w)"

lemma io_stepI:
  "w' = w\<lparr>send_buf := send_buf w', curttl := curttl w', mcGroupSock := mcGroupSock w', calls := calls w'\<rparr> \<Longrightarrow>
   commands_of (calls w') = commands_of (calls w) \<Longrightarrow> io_step w w'"
  unfolding io_step_def by blast

lemma io_step_refl [simp]: "io_step w w"
  by (rule io_stepI) simp_all

lemma io_step_trans: "io_step u v \<Longrightarrow> io_step v w \<Longrightarrow> io_step u w"
  unfolding io_step_def by (elim conjE exE, hypsubst) (auto intro!: exI)

lemma io_step_calls [simp]: "commands_of cs = [] \<Longrightarrow> io_step w (w\<lparr>calls := calls w @ cs\<rparr>)" "io_step w (w\<lparr>send_buf := b\<rparr>)"
    "io_step w (w\<lparr>curttl := t\<rparr>)" "io_step w (w\<lparr>mcGroupSock := s\<rparr>)"
  by (rule io_stepI; simp)+

lemma io_stepD:
  assumes "io_step w w'"
  shows "IfDescVc w' = IfDescVc w" "upStreamVif w' = upStreamVif w" "commonConfig w' = commonConfig w" "routes w' = routes w"
    "routing_table w' = routing_table w" "next_route_addr w' = next_route_addr w" "commands_of (calls w') = commands_of (calls w)"
    "groups w' = groups w" "group_list w' = group_list w" "members w' = members w" "next_group_addr w' = next_group_addr w"
    "next_member_addr w' = next_member_addr w" "snooping_enabled w' = snooping_enabled w" "gvdescs w' = gvdescs w"
    "callout_queue w' = callout_queue w" "VifDescVc w' = VifDescVc w" "vifconf w' = vifconf w"
  using assms by (auto simp: io_step_def)

lemma io_step_then:
  assumes "yields m (io_step w)" "\<And>w'. io_step w w' \<Longrightarrow> yields (f w') (io_step w')"
  shows "yields (run_bind m f) (io_step w)"
  by (rule yields_then [OF assms(1)]) (blast intro: yields_mono [OF assms(2)] io_step_trans)

lemma keeps_io:
  assumes "proxy_inv w" "io_step w w'"
  shows "keeps w w'"
proof (rule keeps_outside [OF assms(1)])
  note d = io_stepD [OF assms(2)]
  show "snooping_ok w'" using assms(1) snoop_view_same [of w' w] d by (simp add: snooping_ok_def proxy_inv_def)
  show "\<forall>p \<in> set (callout_queue w'). job_ok w' p" using assms(1) d by (simp add: proxy_inv_def job_ok_def)
qed (use io_stepD [OF assms(2)] in simp_all)

lemma must_call_io: "commands_of [c] = [] \<Longrightarrow> yields (must_call e c w) (io_step w)"
  by (rule yields_mono [OF must_call_yields]) auto

lemma socket_options_io: "yields (k_set_loop e l w) (io_step w)" "yields (k_set_if e a w) (io_step w)" "yields (k_hdr_include e w) (io_step w)"
  "yields (k_set_ttl e t w) (io_step w)"
  unfolding k_set_loop_def k_set_if_def k_hdr_include_def k_set_ttl_def yields_map
  by (auto intro!: must_call_io intro: yields_mono [OF must_call_io] io_step_trans [OF _ io_step_calls(3)])

lemma buildIgmp_io: "yields (buildIgmp src dst type code gr datalen w) (io_step w)"
  unfolding buildIgmp_def yields_map by (intro yields_run_any) (auto simp: yields_map yields_True)

lemma sendIgmp_io: "yields (sendIgmp e src dst type code gr datalen w) (io_step w)"
proof -
  let ?mc = "IN_MULTICAST (ntohl dst)" and ?setloop = "IN_MULTICAST (ntohl dst) \<and> (type \<noteq> IGMP_DVMRP \<or> dst = allhosts_group)"
  show ?thesis
    unfolding sendIgmp_def Let_def
  proof (intro io_step_then [OF buildIgmp_io] io_step_then)
    fix w
    show "yields (if ?mc then k_set_if e src w else ret w) (io_step w)" by (simp add: socket_options_io)
  next
    fix w
    show "yields (if ?setloop then k_set_loop e 1 w else ret w) (io_step w)" by (simp add: socket_options_io)
  next
    fix w
    have send: "yields (if ?mc then run_bind (if ?setloop then k_set_loop e 0 v else ret v) (k_set_if e 0) else ret v) (io_step v)" for v
      by (auto intro!: io_step_then socket_options_io)
    show "yields (run_bind (mem_read 0 (MIN_IP_HEADER_LEN + IGMP_MINLEN + datalen) (send_buf w)) (\<lambda>pkt.
      case do_call e (SendPacket pkt dst) w of (r, w) \<Rightarrow>
       if r = ENETDOWN then fail ProcessExit
       else if ?mc then run_bind (if ?setloop then k_set_loop e 0 w else ret w) (k_set_if e 0) else ret w)) (io_step w)"
    proof (rule yields_run_any)
      fix pkt
      have "io_step w (w\<lparr>calls := calls w @ [SendPacket pkt dst]\<rparr>)" by simp
      then show "yields (case do_call e (SendPacket pkt dst) w of (r, w) \<Rightarrow>
        if r = ENETDOWN then fail ProcessExit
        else if ?mc then run_bind (if ?setloop then k_set_loop e 0 w else ret w) (k_set_if e 0) else ret w) (io_step w)"
        unfolding do_call_def prod.case
        by (cases "answer e (calls w) (SendPacket pkt dst) = ENETDOWN") (simp, simp only: if_False, rule yields_mono [OF send], erule io_step_trans)
    qed
  qed
qed

lemma send_keeps: "proxy_inv w \<Longrightarrow> yields (sendIgmp e src dst type code gr datalen w) (keeps w)"
  by (rule yields_mono [OF sendIgmp_io]) (rule keeps_io)


section \<open>Timers\<close>

lemma insert_node_jobs:
  "p \<in> set (insert_node d node q) \<Longrightarrow> \<exists>x \<in> insert node (set q). to_func x = to_func p \<and> to_data x = to_data p"
  by (induction q arbitrary: d) (auto split: if_splits)

lemma insert_node_queries: "queries (insert_node d node q) = queries (node # q)"
  by (induction q arbitrary: d) (auto simp: queries_def is_query_def)

lemma split_due_queries: "queries (fst (split_due d q)) + queries (snd (split_due d q)) = queries q"
proof (induction q arbitrary: d)
  case (Cons a q)
  obtain due rest where "split_due (s32 (d - to_time a)) q = (due, rest)" by fastforce
  then show ?case using Cons.IH [of "s32 (d - to_time a)"] by (auto simp: queries_def is_query_def)
qed (simp add: queries_def)

lemma split_due_jobs:
  "p \<in> set (fst (split_due d q)) \<union> set (snd (split_due d q)) \<Longrightarrow> \<exists>x \<in> set q. to_func x = to_func p \<and> to_data x = to_data p"
proof (induction q arbitrary: d)
  case (Cons a q)
  obtain due rest where "split_due (s32 (d - to_time a)) q = (due, rest)" by fastforce
  then show ?case using Cons.IH [of "s32 (d - to_time a)"] Cons.prems by (auto split: if_splits)
qed simp

lemma job_ok_same: "to_func x = to_func p \<Longrightarrow> to_data x = to_data p \<Longrightarrow> job_ok w x \<Longrightarrow> job_ok w p"
  by (simp add: job_ok_def)

lemma keeps_queue:
  assumes "proxy_inv w" "\<forall>p \<in> set q. job_ok w p" "queries (callout_queue w) \<le> queries q"
  shows "keeps w (w\<lparr>callout_id := i, callout_queue := q\<rparr>)"
proof (rule keeps_outside [OF assms(1)])
  show "snooping_ok (w\<lparr>callout_id := i, callout_queue := q\<rparr>)"
    using assms(1) snoop_view_same [of "w\<lparr>callout_id := i, callout_queue := q\<rparr>" w] by (simp add: snooping_ok_def proxy_inv_def)
  show "\<forall>p \<in> set (callout_queue (w\<lparr>callout_id := i, callout_queue := q\<rparr>)). job_ok (w\<lparr>callout_id := i, callout_queue := q\<rparr>) p"
    using assms(2) by (simp add: job_ok_def)
qed (use assms(3) in simp_all)

lemma set_timer_keeps:
  assumes "proxy_inv w" "f = SendGroupSpecificMemberQuery \<Longrightarrow> \<exists>k. data = Some k \<and> k \<in> dom (gvdescs w)"
  shows "keeps w (snd (timer_setTimer e n f data w))"
proof (cases "p_alloc e sizeof_timeOutQueue")
  case True
  define i where "i = s32 (callout_id w + 1)"
  let ?node = "\<lparr>to_id = i, to_func = f, to_data = data, to_time = n\<rparr>"
  have "job_ok w p" if p: "p \<in> set (insert_node n ?node (callout_queue w))" for p
  proof -
    obtain x where x: "x \<in> insert ?node (set (callout_queue w))" "to_func x = to_func p" "to_data x = to_data p" using insert_node_jobs [OF p] by blast
    have "job_ok w x"
    proof (cases "x = ?node")
      case True
      then show ?thesis unfolding True job_ok_def using assms(2) by simp
    qed (use x(1) assms(1) in \<open>simp add: proxy_inv_def\<close>)
    then show ?thesis by (rule job_ok_same [OF x(2,3)])
  qed
  then have "keeps w (w\<lparr>callout_id := i, callout_queue := insert_node n ?node (callout_queue w)\<rparr>)"
    by (intro keeps_queue [OF assms(1)]) (auto simp: insert_node_queries, simp add: queries_def)
  then show ?thesis using True by (simp add: timer_setTimer_def Let_def i_def [symmetric])
next
  case False
  then show ?thesis using keeps_refl [OF assms(1)] by (simp add: timer_setTimer_def)
qed

lemma keeps_config:
  assumes "proxy_inv w" "fastUpstreamLeave c = fastUpstreamLeave (commonConfig w)"
  shows "keeps w (w\<lparr>commonConfig := c\<rparr>)"
proof (rule keeps_outside [OF assms(1)])
  show "snooping_ok (w\<lparr>commonConfig := c\<rparr>)"
    using assms(1) snoop_view_same [of "w\<lparr>commonConfig := c\<rparr>" w] by (simp add: snooping_ok_def proxy_inv_def)
  show "\<forall>p \<in> set (callout_queue (w\<lparr>commonConfig := c\<rparr>)). job_ok (w\<lparr>commonConfig := c\<rparr>) p"
    using assms(1) by (simp add: proxy_inv_def job_ok_def)
qed (use assms in simp_all)

lemma keeps_gvdescs:
  assumes "proxy_inv w" "dom (gvdescs w) \<subseteq> dom g"
  shows "keeps w (w\<lparr>next_gvdesc := n, gvdescs := g\<rparr>)"
proof (rule keeps_outside [OF assms(1)])
  show "snooping_ok (w\<lparr>next_gvdesc := n, gvdescs := g\<rparr>)"
    using assms(1) snoop_view_same [of "w\<lparr>next_gvdesc := n, gvdescs := g\<rparr>" w] by (simp add: snooping_ok_def proxy_inv_def)
  have "job_ok w p" if "p \<in> set (callout_queue w)" for p using assms(1) that by (simp add: proxy_inv_def)
  then show "\<forall>p \<in> set (callout_queue (w\<lparr>next_gvdesc := n, gvdescs := g\<rparr>)). job_ok (w\<lparr>next_gvdesc := n, gvdescs := g\<rparr>) p"
    using job_ok_mono [of w _ "w\<lparr>next_gvdesc := n, gvdescs := g\<rparr>"] assms(2) by simp
qed (use assms in simp_all)

section \<open>The handlers\<close>

lemma query_walk_keeps: "proxy_inv w \<Longrightarrow> yields (query_walk e code ds w) (keeps w)"
proof (induction ds arbitrary: w)
  case (Cons d ds)
  then show ?case by (auto intro!: keeps_then [OF send_keeps] dest: keeps_inv)
qed (simp add: keeps_refl)

lemma general_query_keeps:
  assumes "proxy_inv w" "\<And>n. p_alloc e n"
  shows "yields (sendGeneralMembershipQuery e w) (\<lambda>w'. keeps w w' \<and> Suc (queries (callout_queue w)) \<le> queries (callout_queue w'))"
  unfolding sendGeneralMembershipQuery_def
proof (rule yields_then)
  have "snooping_ok w" using assms(1) by (simp add: proxy_inv_def)
  from snoop_exec_step [OF this assms(2), of GeneralQuery] show "yields (clear_all_entries_report w) (keeps w)"
    unfolding snoop_exec_def by (simp add: yields_mono [OF _ snoop_step_keeps [OF assms(1)]])
next
  fix w1 assume w1: "keeps w w1"
  then have "yields (query_walk e (ucast (queryResponseInterval (commonConfig w1) * IGMP_TIMER_SCALE)) (IfDescVc w1) w1) (keeps w1)"
    using query_walk_keeps keeps_inv by blast
  then show "yields (run_map (\<lambda>w.
       let w = snd (timer_setTimer e (s32 (uint (queryResponseInterval (commonConfig w)))) AgeActiveRoutes None w); c = commonConfig w in
       if startupQueryCount c > 0 then
         (let w = snd (timer_setTimer e (s32 (uint (startupQueryInterval c))) SendGeneralMembershipQuery None w)
          in w\<lparr>commonConfig := c\<lparr>startupQueryCount := startupQueryCount c - 1\<rparr>\<rparr>)
       else snd (timer_setTimer e (s32 (uint (queryInterval c))) SendGeneralMembershipQuery None w))
       (query_walk e (ucast (queryResponseInterval (commonConfig w1) * IGMP_TIMER_SCALE)) (IfDescVc w1) w1)) (\<lambda>w'. keeps w w' \<and> Suc (queries (callout_queue w)) \<le> queries (callout_queue w'))"
    unfolding yields_map
  proof (rule yields_mono)
    fix v assume "keeps w1 v"
    then have v: "keeps w v" by (rule keeps_trans [OF w1])
    let ?v1 = "snd (timer_setTimer e (s32 (uint (queryResponseInterval (commonConfig v)))) AgeActiveRoutes None v)"
    let ?v2 = "\<lambda>n. snd (timer_setTimer e n SendGeneralMembershipQuery None ?v1)"
    have k1: "keeps w ?v1" by (rule keeps_trans [OF v set_timer_keeps [OF keeps_inv [OF v]]]) simp
    have k2: "keeps ?v1 (?v2 n)" for n by (rule set_timer_keeps [OF keeps_inv [OF k1]]) simp
    have "queries (callout_queue (?v2 n)) = Suc (queries (callout_queue ?v1))" for n
      using assms(2) by (simp add: timer_setTimer_def [of e n] Let_def insert_node_queries) (simp add: queries_def is_query_def)
    then have q: "Suc (queries (callout_queue w)) \<le> queries (callout_queue (?v2 n))" for n using k1 by (simp add: keeps_def)
    have c2: "commonConfig (?v2 n) = commonConfig ?v1" for n
      by (simp add: timer_setTimer_def [of e n] Let_def)
    have k3: "keeps (?v2 n) ((?v2 n)\<lparr>commonConfig := (commonConfig ?v1)\<lparr>startupQueryCount := m\<rparr>\<rparr>)" for n m
      by (rule keeps_config [OF keeps_inv [OF k2]]) (simp add: c2)
    let ?w' = "let w = ?v1; c = commonConfig w in
       if startupQueryCount c > 0 then
         (let w = snd (timer_setTimer e (s32 (uint (startupQueryInterval c))) SendGeneralMembershipQuery None w)
          in w\<lparr>commonConfig := c\<lparr>startupQueryCount := startupQueryCount c - 1\<rparr>\<rparr>)
       else snd (timer_setTimer e (s32 (uint (queryInterval c))) SendGeneralMembershipQuery None w)"
    show "keeps w ?w' \<and> Suc (queries (callout_queue w)) \<le> queries (callout_queue ?w')"
      unfolding Let_def using keeps_trans [OF k1 k2] keeps_trans [OF keeps_trans [OF k1 k2] k3] q by simp
  qed
qed

lemma member_query_keeps:
  assumes "kernel_ok e" "proxy_inv w"
  shows "yields (sendGroupSpecificMemberQuery e k w) (keeps w)"
  unfolding sendGroupSpecificMemberQuery_def
proof (rule yields_run_any)
  fix g assume "get_gvdesc k w = ret g"
  then have g: "gvdescs w k = Some g" by (auto simp: get_gvdesc_def split: option.splits)
  let ?w = "w\<lparr>gvdescs := (gvdescs w)(k \<mapsto> g\<lparr>gv_started := True\<rparr>)\<rparr>"
  have started: "keeps w ?w"
    using keeps_gvdescs [OF assms(2), of "(gvdescs w)(k \<mapsto> g\<lparr>gv_started := True\<rparr>)" "next_gvdesc w"] by (simp add: insert_absorb subset_insertI)
  have age: "yields (lastMemberGroupAge e (gv_group g) w) (\<lambda>(b, w'). keeps w w')"
    using keeps_route [OF assms, of "LastMemberTimer (gv_group g)"] by (auto simp: exec_op_def yields_map elim: yields_mono)
  show "yields (run_bind (if gv_started g then lastMemberGroupAge e (gv_group g) w else ret (True, ?w)) (\<lambda>(go, w).
     if \<not> go then ret w
     else let interval = lastMemberQueryInterval (commonConfig w) in
       run_map (\<lambda>w. snd (timer_setTimer e (s32 (uint interval)) SendGroupSpecificMemberQuery (Some k) w))
         (sendIgmp e (gv_vifAddr g) (gv_group g) IGMP_MEMBERSHIP_QUERY (ucast (interval * IGMP_TIMER_SCALE)) (gv_group g) 0 w))) (keeps w)"
  proof (rule keeps_then2)
    show "yields (if gv_started g then lastMemberGroupAge e (gv_group g) w else ret (True, ?w)) (\<lambda>(b, w'). keeps w w')"
      using age started by simp
  next
    fix go w1 assume w1: "keeps w w1"
    have "k \<in> dom (gvdescs v)" if "keeps w1 v" for v using keeps_trans [OF w1 that] g by (auto simp: keeps_def)
    then have "keeps w1 (snd (timer_setTimer e n SendGroupSpecificMemberQuery (Some k) v))" if "keeps w1 v" for v n
      using that by (intro keeps_trans [OF that set_timer_keeps [OF keeps_inv [OF that]]]) auto
    then show "yields (case (go, w1) of (go, w) \<Rightarrow> if \<not> go then ret w
     else let interval = lastMemberQueryInterval (commonConfig w) in
       run_map (\<lambda>w. snd (timer_setTimer e (s32 (uint interval)) SendGroupSpecificMemberQuery (Some k) w))
         (sendIgmp e (gv_vifAddr g) (gv_group g) IGMP_MEMBERSHIP_QUERY (ucast (interval * IGMP_TIMER_SCALE)) (gv_group g) 0 w)) (keeps w1)"
      using keeps_refl [OF keeps_inv [OF w1]] by (auto simp: Let_def yields_map intro: yields_mono [OF send_keeps [OF keeps_inv [OF w1]]])
  qed
qed


lemma net_walk_in: "net_walk a d ss dp = Inl x \<Longrightarrow> x = d" "net_walk a d ss dp = Inr (Some x) \<Longrightarrow> x = d \<or> dp = Some x"
  by (induction ss arbitrary: dp) (auto split: if_splits)

lemma if_walk_in: "if_walk a ds dp = Some x \<Longrightarrow> x \<in> set ds \<or> dp = Some x"
proof (induction ds arbitrary: dp)
  case (Cons d ds)
  show ?case
  proof (cases "net_walk a d (allowednets d) dp")
    case (Inl y)
    then show ?thesis using Cons.prems net_walk_in(1) [OF Inl] by simp
  next
    case (Inr dq)
    then show ?thesis using Cons net_walk_in(2) [of a d "allowednets d" dp x] by auto
  qed
qed simp

lemma getIfByAddress_in: "getIfByAddress a w = Some d \<Longrightarrow> d \<in> set (IfDescVc w)"
  using if_walk_in [of a "IfDescVc w" None d] by (simp add: getIfByAddress_def)

lemma index_op_ok: "ifs_ok ds \<Longrightarrow> d \<in> set ds \<Longrightarrow> op_ok (Report gr (s32 (uint (if_index d))))"
proof -
  assume "ifs_ok ds" "d \<in> set ds"
  then consider "unat (if_index d) < 31" | "if_index d = - 1" by (auto simp: ifs_ok_def MAX_MC_VIFS_def)
  then show ?thesis
  proof cases
    case 1
    then have "uint (if_index d) < 31" unfolding uint_nat by linarith
    moreover have "0 \<le> uint (if_index d)" "- (2 ^ 31) \<le> (0 :: int)" "(31 :: int) < 2 ^ 31" by simp_all
    ultimately have "s32 (uint (if_index d)) = uint (if_index d)" by (intro s32_id) (blast intro: order_trans less_trans)+
    then show ?thesis using \<open>uint (if_index d) < 31\<close> by simp
  next
    case 2
    then have "uint (if_index d) = 2 ^ 32 - 1" by (simp add: unsigned_minus_1_eq_mask mask_eq_exp_minus_1)
    then show ?thesis by (simp add: s32_def)
  qed
qed

lemma report_keeps:
  assumes "kernel_ok e" "proxy_inv w"
  shows "yields (acceptGroupReport e src gr w) (keeps w)"
proof -
  have al: "p_alloc e n" for n using assms(1) by (simp add: kernel_ok_def)
  have ok: "snooping_ok w" "ifs_ok (IfDescVc w)" using assms(2) by (simp_all add: proxy_inv_def)
  have "yields (run_bind (insert_multicast_ip e (ntohl gr) (ntohl src) w) (\<lambda>w. run_map snd (insertRoute e gr (s32 (uint (if_index d))) w))) (keeps w)"
    if d: "getIfByAddress src w = Some d" for d
  proof (rule keeps_then)
    show "yields (insert_multicast_ip e (ntohl gr) (ntohl src) w) (keeps w)"
      using yields_mono [OF snoop_exec_step [OF ok(1) al, of "HostReport (ntohl gr) (ntohl src)"] snoop_step_keeps [OF assms(2)]]
      by (simp add: snoop_exec_def)
  next
    fix v assume "keeps w v"
    then show "yields (run_map snd (insertRoute e gr (s32 (uint (if_index d))) v)) (keeps v)"
      using keeps_route [OF assms(1) keeps_inv index_op_ok [OF ok(2) getIfByAddress_in [OF d], of gr]] by (simp add: exec_op_def)
  qed
  then show ?thesis using keeps_refl [OF assms(2)] by (auto simp: acceptGroupReport_def split: option.split)
qed

lemma leave_keeps:
  assumes "kernel_ok e" "proxy_inv w"
  shows "yields (acceptLeaveMessage e src gr w) (keeps w)"
proof -
  have al: "p_alloc e n" for n using assms(1) by (simp add: kernel_ok_def)
  have ok: "snooping_ok w" using assms(2) by (simp add: proxy_inv_def)
  have query: "yields (sendGroupSpecificMemberQuery e k (v\<lparr>next_gvdesc := Suc k, gvdescs := (gvdescs v)(k \<mapsto> g)\<rparr>)) (keeps v)"
    if v: "proxy_inv v" for k g v
  proof -
    have "keeps v (v\<lparr>next_gvdesc := Suc k, gvdescs := (gvdescs v)(k \<mapsto> g)\<rparr>)" by (rule keeps_gvdescs [OF v]) auto
    then show ?thesis using member_query_keeps [OF assms(1) keeps_inv] keeps_trans by (blast intro: yields_mono)
  qed
  have last: "yields (setRouteLastMemberMode e gr v) (keeps v)" if "proxy_inv v" for v
    using keeps_route [OF assms(1) that, of "LastMember gr"] by (simp add: exec_op_def)
  have rest: "yields (case getIfByAddress src v of None \<Rightarrow> ret v
      | Some d \<Rightarrow>
          if if_state d = IF_STATE_DOWNSTREAM then
            run_bind (setRouteLastMemberMode e gr v) (\<lambda>w.
            if \<not> p_alloc e sizeof_GroupVifDesc then fail NullDeref
            else let k = next_gvdesc w in
              sendGroupSpecificMemberQuery e k
                (w\<lparr>next_gvdesc := Suc k,
                   gvdescs := (gvdescs w)(k \<mapsto> \<lparr>gv_group = gr, gv_vifAddr = InAdr d, gv_started = False\<rparr>)\<rparr>))
          else ret v) (keeps v)" if v: "proxy_inv v" for v
    using keeps_refl [OF v] by (auto simp: Let_def split: option.split intro!: keeps_then [OF last [OF v]] query dest: keeps_inv)
  have "yields (remove_member e (ntohl gr) (ntohl src) w) (keeps w)"
    by (rule yields_mono [OF remove_member_keeps_view [OF ok al] snoop_step_keeps [OF assms(2)]])
  from keeps_then [OF this rest [OF keeps_inv]] show ?thesis
    using keeps_refl [OF assms(2)] by (auto simp: acceptLeaveMessage_def)
qed

lemma igmp_keeps:
  assumes "kernel_ok e" "proxy_inv w"
  shows "yields (acceptIgmp e buf n w) (keeps w)"
proof -
  have act: "yields (activation_request e src dst w) (keeps w)" for src dst
    using keeps_route [OF assms, of "Packet dst src"] keeps_refl [OF assms(2)]
    by (auto simp: activation_request_def exec_op_def split: option.split)
  show ?thesis
    unfolding acceptIgmp_def
    using act report_keeps [OF assms] leave_keeps [OF assms] keeps_refl [OF assms(2)]
    by (auto simp: Let_def intro!: yields_run_any)
qed

lemma call_keeps:
  assumes "kernel_ok e" "proxy_inv w"
  shows "yields (fire e f d w) (\<lambda>w'. keeps w w' \<and> queries (callout_queue w) + (if f = SendGeneralMembershipQuery then 1 else 0) \<le> queries (callout_queue w'))"
proof -
  have al: "p_alloc e n" for n using assms(1) by (simp add: kernel_ok_def)
  have age: "yields (ageActiveRoutes e w) (keeps w)"
    unfolding ageActiveRoutes_def
    by (rule keeps_then [OF sweep_keeps [OF assms(2) al]]) (use keeps_route [OF assms(1), of _ AgeRound] in \<open>simp add: exec_op_def keeps_inv\<close>)
  have other: "yields m (\<lambda>w'. keeps w w' \<and> queries (callout_queue w) \<le> queries (callout_queue w'))" if "yields m (keeps w)" for m
    using that by (rule yields_mono) (simp add: keeps_def)
  show ?thesis
    using general_query_keeps [OF assms(2) al] other [OF age] other [OF member_query_keeps [OF assms]]
    by (cases f) (simp_all add: fire_def split: option.split)
qed

section \<open>The loop\<close>

text \<open>Timers that are due are called with live descriptors.\<close>

lemma run_due_keeps:
  assumes "kernel_ok e" "proxy_inv w"
  shows "yields (run_due (fire e) due w) (\<lambda>w'. keeps w w' \<and> queries (callout_queue w) + queries due \<le> queries (callout_queue w'))"
  using assms(2)
proof (induction due arbitrary: w)
  case (Cons p due)
  have "queries (p # due) = (if to_func p = SendGeneralMembershipQuery then 1 else 0) + queries due" by (simp add: queries_def is_query_def)
  then show ?case
    unfolding run_due.simps
    by (intro yields_then [OF call_keeps [OF assms(1) Cons.prems]])
      (auto elim!: conjE intro!: yields_mono [OF Cons.IH] dest: keeps_inv intro: keeps_trans)
qed (simp add: keeps_refl queries_def)

lemma age_queue_keeps:
  assumes "kernel_ok e" "proxy_inv w"
  shows "yields (age_callout_queue (fire e) n w) (keeps w)"
proof -
  obtain due rest where s: "split_due n (callout_queue w) = (due, rest)" by fastforce
  let ?w = "w\<lparr>callout_queue := rest\<rparr>"
  have q: "queries due + queries rest = queries (callout_queue w)" using split_due_queries [of n "callout_queue w"] s by simp
  have "job_ok w p" if p: "p \<in> set rest" for p
  proof -
    obtain x where x: "x \<in> set (callout_queue w)" "to_func x = to_func p" "to_data x = to_data p"
      using split_due_jobs [of p n "callout_queue w"] p s by auto
    then show ?thesis using assms(2) job_ok_same [OF x(2,3)] by (auto simp: proxy_inv_def)
  qed
  then have "\<forall>p \<in> set rest. job_ok ?w p" by (simp add: job_ok_def)
  moreover have "snooping_ok ?w" using assms(2) snoop_view_same [of ?w w] by (simp add: snooping_ok_def proxy_inv_def)
  moreover have "table_ok ?w \<and> table ?w = table w" by (rule route_table_same) (use assms(2) in \<open>simp_all add: proxy_inv_def\<close>)
  ultimately have inv: "proxy_inv ?w" using assms(2) by (simp add: proxy_inv_def filter_ok_def getIfByIx_def)
  show ?thesis
    unfolding age_callout_queue_def s prod.case
    by (rule yields_mono [OF run_due_keeps [OF assms(1) inv]]) (use q in \<open>simp add: keeps_def\<close>)
qed

lemma time_walk_keeps:
  assumes "kernel_ok e" "proxy_inv w"
  shows "yields (time_walk e timed secs k clock l w) (\<lambda>(l', w'). keeps w w')"
proof -
  have "kernel_ok e \<longrightarrow> proxy_inv w \<longrightarrow> (case r of Inl f \<Rightarrow> True | Inr (l', w') \<Rightarrow> keeps w w')"
    if "time_walk e timed secs k clock l w = Some r" for e timed secs k clock l w r
  proof (induction e timed secs k clock l w r rule: time_walk.raw_induct)
    case (1 f e timed secs k clock l w r)
    show ?case
    proof (intro impI)
      assume ok: "kernel_ok e" "proxy_inv w"
      have ih: "yields (f e timed secs k clock l v) (\<lambda>(l', w'). keeps v w')" if "proxy_inv v" for timed secs k l v
        using 1(1) that ok(1) by (auto simp: yields_Some split: sum.splits)
      obtain cs cu where c: "(if timed then (last_sec l + secs, last_usec l) else clock k) = (cs, cu)" by fastforce
      obtain ds du where n: "norm_diff (cs - last_sec l) (diff_usec l + (cu - last_usec l)) = (ds, du)" by fastforce
      have "yields (run_bind (if secs = 0 \<or> ds > 0 then age_callout_queue (fire e) ds w else ret w) (\<lambda>w.
           if ds > 0 then f e False (- 1) (if timed then k else Suc k) clock \<lparr>last_sec = cs, last_usec = cu, diff_usec = du\<rparr> w
           else ret (\<lparr>last_sec = cs, last_usec = cu, diff_usec = du\<rparr>, w))) (\<lambda>(l', w'). keeps w w')"
      proof (rule yields_then)
        show "yields (if secs = 0 \<or> ds > 0 then age_callout_queue (fire e) ds w else ret w) (keeps w)"
          using age_queue_keeps [OF ok] keeps_refl [OF ok(2)] by simp
      next
        fix v assume v: "keeps w v"
        have "yields (f e False (- 1) (if timed then k else Suc k) clock \<lparr>last_sec = cs, last_usec = cu, diff_usec = du\<rparr> v) (\<lambda>(l', w'). keeps w w')"
          by (rule yields_mono [OF ih [OF keeps_inv [OF v]]]) (auto intro: keeps_trans [OF v])
        then show "yields (if ds > 0 then f e False (- 1) (if timed then k else Suc k) clock \<lparr>last_sec = cs, last_usec = cu, diff_usec = du\<rparr> v
           else ret (\<lparr>last_sec = cs, last_usec = cu, diff_usec = du\<rparr>, v)) (\<lambda>(l', w'). keeps w w')"
          using v by simp
      qed
      then show "case r of Inl f \<Rightarrow> True | Inr (l', w') \<Rightarrow> keeps w w'"
        using 1(2) c n by (auto simp: yields_Some Let_def split: sum.splits)
    qed
  qed (rule that)
  then show ?thesis using assms by (auto simp: yields_Some split: sum.splits)
qed

lemma turn_keeps:
  assumes "kernel_ok e" "proxy_inv w"
  shows "yields (proxy_turn e i (l, w)) (\<lambda>(l', w'). keeps w w')"
proof -
  have "yields (run_bind (acceptIgmp e (in_packet i) (in_recvlen i) w) (time_walk e False secs 0 (in_clock i) l)) (\<lambda>(l', w'). keeps w w')" for secs
    by (rule yields_then [OF igmp_keeps [OF assms]])
      (rule yields_mono [OF time_walk_keeps [OF assms(1) keeps_inv]], auto intro: keeps_trans)
  then show ?thesis
    using time_walk_keeps [OF assms] keeps_refl [OF assms(2)] by (simp add: proxy_turn_def Let_def)
qed


section \<open>The start\<close>

text \<open>The global variables before \<open>main\<close>.\<close>

definition zero_proxy :: proxy where
  "zero_proxy = \<lparr>IfDescVc = [], upStreamVif = 0, vifconf = [],
     commonConfig = \<lparr>robustnessValue = 0, queryInterval = 0, queryResponseInterval = 0, startupQueryInterval = 0, startupQueryCount = 0,
       lastMemberQueryInterval = 0, lastMemberQueryCount = 0, fastUpstreamLeave = False\<rparr>,
     routes = (\<lambda>k. None), next_route_addr = 0, routing_table = None, mcGroupSock = 0, callout_queue = [], callout_id = 0,
     gvdescs = (\<lambda>k. None), next_gvdesc = 0, VifDescVc = replicate MAX_MC_VIFS None, curttl = 0, send_buf = [], snooping_enabled = False,
     group_list = [], groups = (\<lambda>k. None), members = (\<lambda>k. None), group_count = 0, next_group_addr = 0, next_member_addr = 0,
     internal_mac_table = replicate 1024 \<lparr>mt_mac1 = 0, mt_mac2 = 0, mt_vidx = 0, mt_port_map = 0\<rparr>, esw_fd = - 1, calls = []\<rparr>"

text \<open>Before the loop the tables are empty and no rule is inserted.\<close>

definition blank :: "proxy \<Rightarrow> bool" where
  "blank w \<longleftrightarrow> routes w = Map.empty \<and> routing_table w = None \<and> group_list w = [] \<and> groups w = Map.empty \<and> members w = Map.empty
     \<and> callout_queue w = [] \<and> commands_of (calls w) = []"

lemma blank_zero: "blank zero_proxy"
  by (simp add: blank_def zero_proxy_def)

lemma blank_inv:
  assumes "blank w" "ifs_ok (IfDescVc w)"
  shows "proxy_inv w"
proof -
  have r: "route_list w []" using assms(1) by (simp add: blank_def route_list_def)
  have "table w gr = None" for gr
    using table_Some [OF r] assms(1) by (cases "table w gr") (auto simp: blank_def)
  moreover have "table_ok w" using r assms(1) by (auto simp: table_ok_def blank_def)
  moreover have "snoop_rep {} w (\<lambda>g. [])" using assms(1) by (simp add: snoop_rep_def blank_def)
  then have "snooping_ok w" unfolding snooping_ok_def snoop_view_def by blast
  ultimately show ?thesis using assms by (simp add: proxy_inv_def filter_ok_def blank_def wanted_def)
qed

lemma blank_io: "io_step w w' \<Longrightarrow> blank w' = blank w"
  by (simp add: blank_def io_stepD)

lemma blank_hw: "hw_step w w' \<Longrightarrow> blank w' = blank w"
  by (simp add: blank_def hw_stepD)

definition configured :: "proxy \<Rightarrow> proxy \<Rightarrow> bool" where
  "configured w w' \<longleftrightarrow> (\<exists>c v. w' = w\<lparr>commonConfig := c, vifconf := v\<rparr>)"

lemma configured_simps: "configured w w" "configured (w\<lparr>vifconf := v\<rparr>) w' \<Longrightarrow> configured w w'"
  "configured (w\<lparr>commonConfig := c\<rparr>) w' \<Longrightarrow> configured w w'"
  unfolding configured_def by (auto intro!: exI [of _ "commonConfig w"] exI [of _ "vifconf w"])

lemma load_loop_config:
  "yields (load_loop e token r w) (\<lambda>(ok, w'). configured w w')"
proof -
  have "case res of Inl f \<Rightarrow> True | Inr (ok, w') \<Rightarrow> configured w w'" if "load_loop e token r w = Some res" for e token r w res
  proof (induction e token r w res rule: load_loop.raw_induct)
    case (1 f e token r w res)
    have ih: "yields (f e t r (w\<lparr>vifconf := v\<rparr>)) (\<lambda>(ok, w'). configured w w')"
      "yields (f e t r (w\<lparr>commonConfig := c\<rparr>)) (\<lambda>(ok, w'). configured w w')" for t r v c
      using 1(1) [of e t r "w\<lparr>vifconf := v\<rparr>"] 1(1) [of e t r "w\<lparr>commonConfig := c\<rparr>"] by (auto simp: yields_Some split: sum.splits intro: configured_simps)
    have "yields (case token of None \<Rightarrow> ret (True, w)
      | Some t \<Rightarrow>
          if t = ''phyint'' then
            run_bind (parsePhyintToken e r) (\<lambda>(c, r).
            case c of None \<Rightarrow> ret (False, w)
            | Some c \<Rightarrow> f e (getCurrentConfigToken r) r (w\<lparr>vifconf := vifconf w @ [c]\<rparr>))
          else if t = ''quickleave'' then
            run_bind (nextConfigToken r) (\<lambda>(token, r).
              f e token r (w\<lparr>commonConfig := (commonConfig w)\<lparr>fastUpstreamLeave := True\<rparr>\<rparr>))
          else ret (False, w)) (\<lambda>(ok, w'). configured w w')"
      using configured_simps(1) ih by (auto split: option.splits intro!: yields_run_any)
    then show ?case using 1(2) by (auto simp: yields_Some split: sum.splits)
  qed (rule that)
  then show ?thesis by (auto simp: yields_Some split: sum.splits)
qed

lemma loadConfig_config: "yields (loadConfig e content w) (\<lambda>(ok, w'). configured w w')"
proof -
  have "yields (load_loop e t r (w\<lparr>commonConfig := c\<rparr>)) (\<lambda>(ok, w'). configured w w')" for t r c
    by (rule yields_mono [OF load_loop_config]) (auto intro: configured_simps)
  then show ?thesis by (auto simp: loadConfig_def split: option.split intro!: yields_run_any)
qed

text \<open>The interfaces of the system: their names fit, and there are fewer than virtual interfaces.\<close>

definition few_ifs :: "penv \<Rightarrow> bool" where
  "few_ifs e \<longleftrightarrow> (\<forall>is. if_conf e = Some is \<longrightarrow> length is < MAX_MC_VIFS \<and> (\<forall>(name, a) \<in> set is. length name < 16))"

definition fresh_ifs :: "IfDesc list \<Rightarrow> bool" where
  "fresh_ifs ds \<longleftrightarrow> length ds < MAX_MC_VIFS \<and> (\<forall>d \<in> set ds. length (if_Name d) < 16 \<and> if_index d = - 1)"

lemma build_ifs_fresh:
  "\<forall>(name, a) \<in> set is. length name < 16 \<Longrightarrow> yields (build_ifs e is) (\<lambda>ds. length ds = length is \<and> (\<forall>d \<in> set ds. length (if_Name d) < 16 \<and> if_index d = - 1))"
proof (induction "is")
  case (Cons i "is")
  obtain name a where i: "i = (name, a)" by fastforce
  have "yields (build_if e i) (\<lambda>d. length (if_Name d) < 16 \<and> if_index d = - 1)"
    using Cons.prems i by (auto simp: build_if_def zero_if_def split: option.split)
  then show ?case unfolding build_ifs.simps
    by (rule yields_then) (use Cons in \<open>auto simp: yields_map elim!: yields_mono\<close>)
qed simp

lemma buildIfVc_fresh:
  assumes "few_ifs e" "IfDescVc w = []" "blank w"
  shows "yields (buildIfVc e w) (\<lambda>w'. fresh_ifs (IfDescVc w') \<and> blank w' \<and> VifDescVc w' = VifDescVc w)"
proof -
  have "yields (build_ifs e (take MAX_IF is)) (\<lambda>ds. fresh_ifs ds)" if "if_conf e = Some is" for "is"
  proof (rule yields_mono [OF build_ifs_fresh])
    show "\<forall>(name, a) \<in> set (take MAX_IF is). length name < 16"
      using assms(1) that in_set_takeD [of _ MAX_IF "is"] by (fastforce simp: few_ifs_def)
  qed (use assms(1) that in \<open>auto simp: few_ifs_def fresh_ifs_def\<close>)
  then show ?thesis
    using assms(2,3) by (auto simp: buildIfVc_def do_call_def yields_map blank_def split: option.split elim!: yields_mono)
qed

lemma configureVifs_fresh: "fresh_ifs (IfDescVc w) \<Longrightarrow> fresh_ifs (IfDescVc (configureVifs w)) \<and> blank (configureVifs w) = blank w \<and> VifDescVc (configureVifs w) = VifDescVc w"
  by (auto simp: configureVifs_def fresh_ifs_def configure_if_def blank_def split: option.split)

lemma free_slot_at: "free_slot (map Some xs @ replicate n None) = length xs"
  by (induction xs) (cases n, simp_all)


text \<open>The virtual interfaces are given out in order, so every index is below the number of interfaces.\<close>

definition vifs_at :: "nat \<Rightarrow> proxy \<Rightarrow> bool" where
  "vifs_at ix w \<longleftrightarrow> blank w \<and> ifs_ok (IfDescVc w) \<and> length (IfDescVc w) < MAX_MC_VIFS
     \<and> (\<exists>xs. VifDescVc w = map Some xs @ replicate (MAX_MC_VIFS - length xs) None \<and> length xs \<le> ix)"

lemma vifs_at_Suc: "vifs_at ix w \<Longrightarrow> vifs_at (Suc ix) w"
  by (auto simp: vifs_at_def intro: le_SucI)

lemma addVIF_vifs:
  assumes "vifs_at ix w" "ix < length (IfDescVc w)"
  shows "yields (addVIF e ix w) (vifs_at (Suc ix))"
proof -
  obtain xs where xs: "VifDescVc w = map Some xs @ replicate (MAX_MC_VIFS - length xs) None" "length xs \<le> ix"
    using assms(1) by (auto simp: vifs_at_def)
  have n: "length xs < MAX_MC_VIFS - 1" "length (IfDescVc w) < MAX_MC_VIFS" using xs(2) assms by (auto simp: vifs_at_def)
  then obtain m where m: "MAX_MC_VIFS - length xs = Suc m" by (metis Suc_diff_Suc less_imp_diff_less diff_less_Suc less_trans_Suc Suc_lessD less_diff_conv add.commute plus_1_eq_Suc)
  let ?d = "(IfDescVc w ! ix)\<lparr>if_index := of_nat (length xs)\<rparr>"
  have "unat (of_nat (length xs) :: u32) = length xs"
    using n(1) by (simp add: MAX_MC_VIFS_def unsigned_of_nat take_bit_nat_eq_self)
  then have "ifs_ok ((IfDescVc w)[ix := ?d])"
    using assms n(1) set_update_subset_insert [of "IfDescVc w" ix ?d] nth_mem [OF assms(2)] by (fastforce simp: vifs_at_def ifs_ok_def)
  moreover have "(VifDescVc w)[length xs := Some ix] = map Some (xs @ [ix]) @ replicate (MAX_MC_VIFS - length (xs @ [ix])) None"
    using xs(1) m by (simp add: list_update_append)
  moreover have "free_slot (VifDescVc w) = length xs" unfolding xs(1) by (rule free_slot_at)
  moreover have "length (VifDescVc w) = MAX_MC_VIFS" using xs(1) n(1) by simp
  ultimately show ?thesis
    using assms n xs(2)
    by (auto simp: addVIF_def Let_def vifs_at_def blank_def intro!: yields_mono [OF must_call_yields] exI [of _ "xs @ [ix]"])
qed

lemma vif_setup_ifs:
  assumes "vifs_at ix w"
  shows "yields (vif_setup e n ix w) (\<lambda>w'. blank w' \<and> ifs_ok (IfDescVc w'))"
  using assms
proof (induction n arbitrary: ix w)
  case 0
  then show ?case by (simp add: vifs_at_def)
next
  case (Suc n)
  have up: "vifs_at ix (w\<lparr>upStreamVif := i\<rparr>)" for i using Suc.prems by (simp add: vifs_at_def blank_def)
  have add: "yields (run_bind (addVIF e ix v) (vif_setup e n (Suc ix))) (\<lambda>w'. blank w' \<and> ifs_ok (IfDescVc w'))"
    if "vifs_at ix v" "ix < length (IfDescVc v)" for v
    by (rule yields_then [OF addVIF_vifs [OF that]]) (rule Suc.IH)
  have "blank w \<and> ifs_ok (IfDescVc w)" using Suc.prems by (simp add: vifs_at_def)
  then show ?case
    using add [OF Suc.prems] add [OF up, of "int ix"] Suc.IH [OF vifs_at_Suc [OF Suc.prems]] by (auto simp: Let_def not_le)
qed

lemma rcvbuf_io: "yields (k_set_rcvbuf e n m w) (io_step w)"
proof -
  have "case r of Inl f \<Rightarrow> True | Inr (n, w') \<Rightarrow> io_step w w'" if "rcvbuf_walk e n d w = Some r" for e n d w r
  proof (induction e n d w r rule: rcvbuf_walk.raw_induct)
    case (1 f e n d w r)
    let ?w = "w\<lparr>calls := calls w @ [SetRcvbuf n]\<rparr>"
    have s: "io_step w ?w" by simp
    have "yields (f e n' d' ?w) (\<lambda>(n, w'). io_step w w')" for n' d'
      using 1(1) [of e n' d' ?w] io_step_trans [OF s] by (auto simp: yields_Some split: sum.splits)
    then have "yields (let delta = (if d > 1 then d div 2 else d) in
      case do_call e (SetRcvbuf n) w of (r, w) \<Rightarrow>
        if r \<noteq> 0 then f e (s32 (n - delta)) delta w
        else if delta < 1024 then ret (n, w)
        else f e (s32 (n + delta)) delta w) (\<lambda>(n, w'). io_step w w')"
      using s by (simp add: do_call_def Let_def)
    then show ?case using 1(2) by (auto simp: yields_Some split: sum.splits)
  qed (rule that)
  then have walk: "yields (rcvbuf_walk e k d (w\<lparr>calls := calls w @ [SetRcvbuf n]\<rparr>)) (\<lambda>(k, w'). io_step w w')" for k d
    using io_step_trans [OF io_step_calls(1) [of "[SetRcvbuf n]" w]] by (fastforce simp: yields_Some split: sum.splits)
  have "yields (run_bind (rcvbuf_walk e k d (w\<lparr>calls := calls w @ [SetRcvbuf n]\<rparr>)) (\<lambda>(size, w). if size < m then fail ProcessExit else ret w)) (io_step w)" for k d
    by (rule yields_then [OF walk]) auto
  then show ?thesis by (simp add: k_set_rcvbuf_def do_call_def)
qed

lemma initIgmp_io: "yields (initIgmp e w) (io_step w)"
  unfolding initIgmp_def
  by (intro io_step_then [OF socket_options_io(3)] io_step_then [OF rcvbuf_io] io_step_then [OF socket_options_io(4)] io_step_then [OF socket_options_io(1)])
    (auto simp: yields_map yields_True)

lemma join_walk_io: "yields (join_walk e ds w) (io_step w)"
proof (induction ds arbitrary: w)
  case (Cons d ds)
  have "yields (run_bind (getMcGroupSock e w) (\<lambda>(s, w). join_walk e ds (snd (joinMcGroup e s d ALLROUTERS_GROUP w)))) (io_step w)"
  proof (rule yields_then [OF getMcGroupSock_yields])
    fix p assume "case p of (s, w') \<Rightarrow> \<exists>cs. w' = w\<lparr>calls := calls w @ cs, mcGroupSock := s\<rparr> \<and> commands_of cs = []"
    then obtain s v cs where p: "p = (s, v)" "v = w\<lparr>calls := calls w @ cs, mcGroupSock := s\<rparr>" "commands_of cs = []" by (cases p) auto
    have "io_step w v" unfolding p(2) by (rule io_stepI) (use p(3) in simp_all)
    then have "io_step w (snd (joinMcGroup e s d ALLROUTERS_GROUP v))" unfolding joinMcGroup_call by (rule io_step_trans) simp
    then show "yields (case p of (s, w) \<Rightarrow> join_walk e ds (snd (joinMcGroup e s d ALLROUTERS_GROUP w))) (io_step w)"
      unfolding p(1) prod.case by (rule yields_mono [OF Cons.IH io_step_trans])
  qed
  then show ?case using Cons.IH by simp
qed simp


lemma init_inv:
  assumes "few_ifs e" "IfDescVc w = []" "blank w" "VifDescVc w = replicate MAX_MC_VIFS None"
  shows "yields (igmpProxyInit e w) (\<lambda>w'. blank w' \<and> ifs_ok (IfDescVc w'))"
  unfolding igmpProxyInit_def
proof (rule yields_then [OF buildIfVc_fresh [OF assms(1-3)]])
  fix w1 assume w1: "fresh_ifs (IfDescVc w1) \<and> blank w1 \<and> VifDescVc w1 = VifDescVc w"
  have "yields (enableMRouter e (configureVifs w1)) (\<lambda>(err, w'). io_step (configureVifs w1) w')"
    by (simp add: enableMRouter_def do_call_def)
  then show "yields (run_bind (enableMRouter e (configureVifs w1)) (\<lambda>(err, w).
     if err \<noteq> 0 then fail ProcessExit
     else
       run_bind (vif_setup e (length (IfDescVc w)) 0 (w\<lparr>upStreamVif := - 1\<rparr>)) (\<lambda>w.
       run_bind (initIgmp e w) (\<lambda>w.
       run_map callout_init (initRouteTable e w))))) (\<lambda>w'. blank w' \<and> ifs_ok (IfDescVc w'))"
  proof (rule yields_then2)
    fix err w2 assume "io_step (configureVifs w1) w2"
    then have w2: "fresh_ifs (IfDescVc w2)" "blank w2" "VifDescVc w2 = replicate MAX_MC_VIFS None"
      using configureVifs_fresh [of w1] w1 assms(4) blank_io by (simp_all add: io_stepD)
    have "vifs_at 0 (w2\<lparr>upStreamVif := - 1\<rparr>)"
      using w2 by (auto simp: vifs_at_def blank_def fresh_ifs_def ifs_ok_def intro!: exI [of _ "[]"])
    then have vifs: "yields (vif_setup e n 0 (w2\<lparr>upStreamVif := - 1\<rparr>)) (\<lambda>w'. blank w' \<and> ifs_ok (IfDescVc w'))" for n
      by (rule vif_setup_ifs)
    have table: "yields (initRouteTable e v) (\<lambda>w'. blank w' \<and> ifs_ok (IfDescVc w'))" if "blank v" "ifs_ok (IfDescVc v)" for v
      unfolding initRouteTable_def using that
      by (intro yields_mono [OF join_walk_io]) (auto simp: blank_io io_stepD, simp add: blank_def)
    have "yields (run_bind (initIgmp e v) (\<lambda>w. run_map callout_init (initRouteTable e w))) (\<lambda>w'. blank w' \<and> ifs_ok (IfDescVc w'))"
      if v: "blank v" "ifs_ok (IfDescVc v)" for v
    proof (rule yields_then [OF initIgmp_io])
      fix u assume "io_step v u"
      then have "blank u" "ifs_ok (IfDescVc u)" using v blank_io by (simp_all add: io_stepD)
      then show "yields (run_map callout_init (initRouteTable e u)) (\<lambda>w'. blank w' \<and> ifs_ok (IfDescVc w'))"
        unfolding yields_map by (intro yields_mono [OF table]) (auto simp: callout_init_def blank_def)
    qed
    then have "yields (run_bind (vif_setup e n 0 (w2\<lparr>upStreamVif := - 1\<rparr>)) (\<lambda>w. run_bind (initIgmp e w) (\<lambda>w. run_map callout_init (initRouteTable e w))))
        (\<lambda>w'. blank w' \<and> ifs_ok (IfDescVc w'))" for n
      by (intro yields_then [OF vifs]) blast
    then show "yields (case (err, w2) of (err, w) \<Rightarrow> if err \<noteq> 0 then fail ProcessExit
     else
       run_bind (vif_setup e (length (IfDescVc w)) 0 (w\<lparr>upStreamVif := - 1\<rparr>)) (\<lambda>w.
       run_bind (initIgmp e w) (\<lambda>w. run_map callout_init (initRouteTable e w)))) (\<lambda>w'. blank w' \<and> ifs_ok (IfDescVc w'))"
      by simp
  qed
qed

lemma switch_init_hw: "yields (rt_switch_init e w) (hw_step w)"
proof -
  have rd: "yields (phys_read e a w) (\<lambda>(v, w'). hw_step w w')" and wr: "yields (phys_write e a v w) (hw_step w)" for a v w
    by (simp_all add: phys_read_def phys_write_def do_call_def)
  have s: "yields (sync_internal_mac_table e w) (hw_step w)" for w
    unfolding sync_internal_mac_table_def by (rule hw_step_then [OF reg_write_hw]) (rule sync_walk_hw)
  have "yields (case do_call e EswSocket w of (fd, w) \<Rightarrow>
       if fd < 0 then fail ProcessExit else sync_internal_mac_table e (w\<lparr>esw_fd := fd\<rparr>)) (hw_step w)" for w
  proof -
    have "hw_step w (w\<lparr>calls := calls w @ [EswSocket], esw_fd := fd\<rparr>)" for fd by (rule hw_stepI) simp_all
    then show ?thesis by (auto simp: do_call_def intro: yields_mono [OF s] hw_step_trans)
  qed
  then show ?thesis
    unfolding rt_switch_init_def by (auto intro!: hw_step_then2 [OF rd] hw_step_then [OF wr])
qed

lemma rt_init_inv:
  assumes "blank w" "ifs_ok (IfDescVc w)"
  shows "yields (rt_init e se w) proxy_inv"
proof -
  let ?w = "w\<lparr>snooping_enabled := se\<rparr>"
  have b: "blank ?w" "ifs_ok (IfDescVc ?w)" using assms by (simp_all add: blank_def)
  have "yields (run_bind (rt_switch_init e ?w) (create_all_hosts_rule e)) (hw_step ?w)"
    by (rule hw_step_then [OF switch_init_hw]) (simp add: create_all_hosts_rule_def updateMacTable_hw)
  then have "yields (run_bind (rt_switch_init e ?w) (create_all_hosts_rule e)) proxy_inv"
    by (rule yields_mono) (use b in \<open>auto intro!: blank_inv simp: blank_hw hw_stepD\<close>)
  then show ?thesis using blank_inv [OF b] by (cases se) (simp_all add: rt_init_def)
qed

lemma start_inv:
  assumes "kernel_ok e" "few_ifs e"
  shows "yields (proxy_start e content se now zero_proxy) (\<lambda>(l, w). proxy_inv w \<and> 0 < queries (callout_queue w))"
  unfolding proxy_start_def
proof (rule yields_then2 [OF loadConfig_config])
  fix ok w1 assume "configured zero_proxy w1"
  then have "IfDescVc w1 = []" "blank w1" "VifDescVc w1 = replicate MAX_MC_VIFS None"
    using blank_zero by (auto simp: configured_def blank_def zero_proxy_def)
  note init = init_inv [OF assms(2) this]
  have "yields (run_bind (igmpProxyInit e w1) (\<lambda>w. run_bind (rt_init e se w) (\<lambda>w.
      run_map (Pair \<lparr>last_sec = fst now, last_usec = snd now, diff_usec = 0\<rparr>) (sendGeneralMembershipQuery e w))))
      (\<lambda>(l, w). proxy_inv w \<and> 0 < queries (callout_queue w))"
  proof (rule yields_then [OF init], rule yields_then [OF rt_init_inv])
    fix w assume "proxy_inv w"
    then show "yields (run_map (Pair \<lparr>last_sec = fst now, last_usec = snd now, diff_usec = 0\<rparr>) (sendGeneralMembershipQuery e w))
      (\<lambda>(l, w). proxy_inv w \<and> 0 < queries (callout_queue w))"
      unfolding yields_map using assms(1) by (intro yields_mono [OF general_query_keeps]) (auto simp: keeps_def kernel_ok_def)
  qed auto
  then show "yields (case (ok, w1) of (ok, w) \<Rightarrow> if \<not> ok then fail ProcessExit
     else
       run_bind (igmpProxyInit e w) (\<lambda>w.
       run_bind (rt_init e se w) (\<lambda>w.
       run_map (Pair \<lparr>last_sec = fst now, last_usec = snd now, diff_usec = 0\<rparr>) (sendGeneralMembershipQuery e w))))
    (\<lambda>(l, w). proxy_inv w \<and> 0 < queries (callout_queue w))"
    by simp
qed

section \<open>The reachable states\<close>

text \<open>The start, and any number of turns of the loop, each with any packet, any result of \<open>select\<close> and any clock.\<close>

inductive proxy_reaches :: "penv \<Rightarrow> string option \<Rightarrow> bool \<Rightarrow> loop_state \<times> proxy \<Rightarrow> bool" for e content se where
  start: "proxy_start e content se now zero_proxy = ret st \<Longrightarrow> proxy_reaches e content se st"
| turn: "proxy_reaches e content se st \<Longrightarrow> proxy_turn e i st = ret st' \<Longrightarrow> proxy_reaches e content se st'"

lemma reaches_inv:
  assumes "proxy_reaches e content se st" "kernel_ok e" "few_ifs e"
  shows "proxy_inv (snd st) \<and> 0 < queries (callout_queue (snd st))"
  using assms(1)
proof induction
  case (start now st)
  then show ?case using start_inv [OF assms(2,3), of content se now] by (auto simp: yields_def)
next
  case (turn st i st')
  then show ?case using turn_keeps [OF assms(2), of "snd st" i "fst st"] by (fastforce simp: yields_def keeps_def)
qed


section \<open>Properties\<close>

text \<open>A system with a loopback interface, a LAN and a WAN, and a configuration with quick leave.\<close>

definition sample_net :: penv where
  "sample_net = sample_penv\<lparr>p_block := (\<lambda>n. n + 8),
     if_conf := Some [(''lo'', Some 0x0100007F), (''br0'', Some 0x0101A8C0), (''eth2.2'', Some 0x0200000A)],
     if_netmask := (\<lambda>n. Some 0x00FFFFFF), if_ifindex := (\<lambda>n. Some 1), if_flags := (\<lambda>n. Some (if n = ''lo'' then 8 else 0))\<rparr>"

definition sample_text :: string where
  "sample_text = ''quickleave phyint eth2.2 upstream '' @ [CHR 0x0A]"

definition sample_config :: proxy where
  "sample_config = zero_proxy\<lparr>commonConfig := initCommonConfig\<lparr>fastUpstreamLeave := True\<rparr>,
     vifconf := [\<lparr>vc_name = ''eth2.2'', vc_state = IF_STATE_UPSTREAM, vc_ratelimit = 0, vc_threshold = 1, vc_allowednets = []\<rparr>]\<rparr>"

lemma sample_net_simps [simp]: "p_alloc sample_net n" "p_block sample_net n = n + 8" "answer sample_net cs c = 0" "if_netmask sample_net i = Some 0x00FFFFFF"
  "if_ifindex sample_net i = Some 1" "if_flags sample_net i = Some (if i = ''lo'' then 8 else 0)"
  "if_conf sample_net = Some [(''lo'', Some 0x0100007F), (''br0'', Some 0x0101A8C0), (''eth2.2'', Some 0x0200000A)]"
  by (simp_all add: sample_net_def sample_penv_def no_oom_def)

lemma sample_load: "loadConfig sample_net (Some sample_text) zero_proxy = ret (True, sample_config)"
  by (simp add: loadConfig_def openConfigFile_def sample_text_def nextConfigToken_def token_loop.simps load_loop.simps READ_BUFFER_SIZE_def
      read_char_def ends_token_def MAX_TOKEN_LENGTH_def Let_def parsePhyintToken_def phyint_loop.simps sizeof_ifr_name_def getCurrentConfigToken_def
      sample_config_def initCommonConfig_def zero_proxy_def)

definition lan :: IfDesc where
  "lan = \<lparr>if_Name = ''br0'', InAdr = 0x0101A8C0, if_Flags = 0, if_state = IF_STATE_DOWNSTREAM, allowednets = [\<lparr>subnet_addr = 0x0001A8C0, subnet_mask = 0x00FFFFFF\<rparr>],
     if_robustness = 2, if_threshold = 1, if_ratelimit = 0, if_index = 0\<rparr>"

definition wan :: IfDesc where
  "wan = \<lparr>if_Name = ''eth2.2'', InAdr = 0x0200000A, if_Flags = 0, if_state = IF_STATE_UPSTREAM, allowednets = [\<lparr>subnet_addr = 0x0000000A, subnet_mask = 0x00FFFFFF\<rparr>],
     if_robustness = 2, if_threshold = 1, if_ratelimit = 0, if_index = 1\<rparr>"

definition loopback :: IfDesc where
  "loopback = \<lparr>if_Name = ''lo'', InAdr = 0x0100007F, if_Flags = 8, if_state = IF_STATE_DOWNSTREAM, allowednets = [\<lparr>subnet_addr = 0x0000007F, subnet_mask = 0x00FFFFFF\<rparr>],
     if_robustness = 2, if_threshold = 1, if_ratelimit = 0, if_index = - 1\<rparr>"

lemma two_slots: "replicate MAX_MC_VIFS None = [None, None] @ replicate 30 None"
  by (simp add: MAX_MC_VIFS_def eval_nat_numeral)

lemma writes_length: "writes ws b = ret b' \<Longrightarrow> length b' = length b"
  by (induction ws arbitrary: b) (auto simp: run_bind_eq_ret mem_write_def split: if_splits)

definition ip_template :: "(nat \<times> byte list) list" where
  "ip_template = [(0, replicate 20 0), (0, [0x45]), (1, [0xC0]), (8, [MAXTTL]), (9, [IPPROTO_IGMP])]"

lemma sample_init: "\<exists>b cs. initIgmp sample_net w = ret (w\<lparr>curttl := 1, calls := calls w @ cs, send_buf := b\<rparr>) \<and> length b = RECV_BUF_SIZE"
proof -
  have "\<exists>b. writes ip_template (replicate RECV_BUF_SIZE 0) = ret b"
    by (simp add: ip_template_def mem_write_def RECV_BUF_SIZE_def)
  then obtain b where b: "writes ip_template (replicate RECV_BUF_SIZE 0) = ret b" ..
  show ?thesis
    unfolding initIgmp_def ip_template_def [symmetric]
    using writes_length [OF b] b
    by (intro exI [of _ b] exI [of _ "[SetHdrIncl, SetRcvbuf 262144, SetTtl 1, SetLoop 0]"])
      (simp add: k_hdr_include_def k_set_rcvbuf_def k_set_ttl_def k_set_loop_def must_call_def do_call_def)
qed

lemma sample_set_up: "\<exists>cs b. igmpProxyInit sample_net sample_config = ret (sample_config\<lparr>IfDescVc := [loopback, lan, wan], upStreamVif := 2,
    VifDescVc := [Some 1, Some (Suc (Suc 0))] @ replicate 30 None, calls := cs, send_buf := b, curttl := 1\<rparr>) \<and> length b = RECV_BUF_SIZE"
proof -
  let ?w = "\<lambda>cs. sample_config\<lparr>IfDescVc := [loopback, lan, wan], upStreamVif := 2, VifDescVc := [Some 1, Some (Suc (Suc 0))] @ replicate 30 None, calls := cs\<rparr>"
  have "\<exists>cs. igmpProxyInit sample_net sample_config = run_bind (initIgmp sample_net (?w cs)) (\<lambda>w. run_map callout_init (initRouteTable sample_net w))"
    by (intro exI [of _ "[UdpSocket, IgmpSocket, MrtInit, AddVif 0 1 0 0x0101A8C0, AddVif 1 1 0 0x0200000A]"])
     (simp add: igmpProxyInit_def buildIfVc_def do_call_def sample_config_def zero_proxy_def MAX_IF_def build_if_def sizeof_SubnetList_def DEFAULT_ROBUSTNESS_def
      DEFAULT_THRESHOLD_def DEFAULT_RATELIMIT_def configureVifs_def configure_if_def usable_def IFF_LOOPBACK_def enableMRouter_def addVIF_def two_slots must_call_def
      loopback_def lan_def wan_def)
  then obtain cs where cs: "igmpProxyInit sample_net sample_config = run_bind (initIgmp sample_net (?w cs)) (\<lambda>w. run_map callout_init (initRouteTable sample_net w))" ..
  obtain b cs' where b: "initIgmp sample_net (?w cs) = ret ((?w cs)\<lparr>curttl := 1, calls := calls (?w cs) @ cs', send_buf := b\<rparr>)" "length b = RECV_BUF_SIZE"
    using sample_init by blast
  show ?thesis
    unfolding cs b(1) using b(2)
    by (simp add: initRouteTable_def loopback_def lan_def wan_def usable_def IFF_LOOPBACK_def getMcGroupSock_def openUdpSocket_def do_call_def must_call_def
        joinMcGroup_def callout_init_def sample_config_def zero_proxy_def)
qed

lemma writes_return: "list_all (\<lambda>(off, bs). off + length bs \<le> length b) ws \<Longrightarrow> returns (writes ws b) (\<lambda>b'. length b' = length b)"
proof (induction ws arbitrary: b)
  case (Cons x ws)
  obtain off bs where x: "x = (off, bs)" by fastforce
  have l: "length (store off bs b) = length b" using Cons.prems x by simp
  then show ?case using Cons.IH [of "store off bs b"] Cons.prems by (simp add: x)
qed simp

lemma sample_build:
  assumes "length (send_buf w) = RECV_BUF_SIZE"
  shows "returns (buildIgmp src dst type code gr 0 w) (\<lambda>w'. length (send_buf w') = RECV_BUF_SIZE)"
  unfolding buildIgmp_def returns_bind
proof (rule returns_mono [OF writes_return])
  fix b :: "byte list" assume b: "length b = length (send_buf w)"
  show "returns (mem_read 20 (IGMP_MINLEN + 0) b) (\<lambda>msg. returns (run_map (\<lambda>buf. w\<lparr>send_buf := buf\<rparr>) (mem_write 22 (le16 (inetChksum msg)) b))
      (\<lambda>w'. length (send_buf w') = RECV_BUF_SIZE))"
    using b assms by (simp add: RECV_BUF_SIZE_def IGMP_MINLEN_def le16_def)
qed (use assms in \<open>simp add: RECV_BUF_SIZE_def\<close>)

lemma sample_send:
  assumes "length (send_buf w) = RECV_BUF_SIZE"
  shows "returns (sendIgmp sample_net src dst type code gr 0 w) (\<lambda>w'. io_step w w' \<and> length (send_buf w') = RECV_BUF_SIZE)"
proof -
  have "returns (sendIgmp sample_net src dst type code gr 0 w) (\<lambda>w'. length (send_buf w') = RECV_BUF_SIZE)"
    unfolding sendIgmp_def returns_bind
    by (rule returns_mono [OF sample_build [OF assms]])
      (simp add: Let_def k_set_if_def k_set_loop_def must_call_def do_call_def returns_bind MIN_IP_HEADER_LEN_def IGMP_MINLEN_def RECV_BUF_SIZE_def ENETDOWN_def)
  moreover have "yields (sendIgmp sample_net src dst type code gr 0 w) (io_step w)" by (rule sendIgmp_io)
  ultimately show ?thesis by (auto simp: returns_def yields_def)
qed

lemma sample_queries:
  assumes "length (send_buf w) = RECV_BUF_SIZE"
  shows "returns (query_walk sample_net code ds w) (\<lambda>w'. io_step w w' \<and> length (send_buf w') = RECV_BUF_SIZE)"
  using assms
proof (induction ds arbitrary: w)
  case (Cons d ds)
  have "returns (run_bind (sendIgmp sample_net src dst type code' gr 0 w) (query_walk sample_net code ds)) (\<lambda>w'. io_step w w' \<and> length (send_buf w') = RECV_BUF_SIZE)"
    for src dst type code' gr
    unfolding returns_bind
    by (rule returns_mono [OF sample_send [OF Cons.prems]]) (auto intro: returns_mono [OF Cons.IH] io_step_trans)
  then show ?case using Cons.IH [OF Cons.prems] by simp
qed simp

definition to_lan :: turn_input where
  "to_lan = \<lparr>in_select = 1, in_packet = [0x45, 0, 0, 28, 0, 0, 0, 0, 1, 2, 0, 0, 192, 168, 1, 5, 232, 1, 1, 5, 0x16, 0, 0, 0, 232, 1, 1, 5],
     in_recvlen = 28, interrupted = False, in_clock = (\<lambda>k. (0, 0))\<rparr>"

definition sample_started :: "proxy \<Rightarrow> bool" where
  "sample_started w \<longleftrightarrow> IfDescVc w = [loopback, lan, wan] \<and> upStreamVif w = 2 \<and> fastUpstreamLeave (commonConfig w)
     \<and> timer_nextTimer w = 10 \<and> \<not> snooping_enabled w \<and> routing_table w = None \<and> group_list w = []"

lemma first_queries:
  assumes "\<not> snooping_enabled v" "length (send_buf v) = RECV_BUF_SIZE" "callout_queue v = []" "IfDescVc v = [loopback, lan, wan]" "upStreamVif v = 2"
    "commonConfig v = initCommonConfig\<lparr>fastUpstreamLeave := True\<rparr>" "routing_table v = None" "group_list v = []"
  shows "returns (sendGeneralMembershipQuery sample_net v) sample_started"
proof -
  have c: "clear_all_entries_report v = ret v" using assms(1) by (simp add: clear_all_entries_report_def)
  show ?thesis
    unfolding sendGeneralMembershipQuery_def c run_bind_ret run_map_def returns_bind
  proof (rule returns_mono [OF sample_queries [OF assms(2)]])
    fix w assume "io_step v w \<and> length (send_buf w) = RECV_BUF_SIZE"
    then have "io_step v w" by simp
    note d = io_stepD [OF this]
    show "returns (ret (let w = snd (timer_setTimer sample_net (s32 (uint (queryResponseInterval (commonConfig w)))) AgeActiveRoutes None w);
        c = commonConfig w in
       if startupQueryCount c > 0 then
         (let w = snd (timer_setTimer sample_net (s32 (uint (startupQueryInterval c))) SendGeneralMembershipQuery None w)
          in w\<lparr>commonConfig := c\<lparr>startupQueryCount := startupQueryCount c - 1\<rparr>\<rparr>)
       else snd (timer_setTimer sample_net (s32 (uint (queryInterval c))) SendGeneralMembershipQuery None w))) sample_started"
      using d assms
      by (simp add: sample_started_def timer_setTimer_def Let_def initCommonConfig_def timer_nextTimer_def INTERVAL_QUERY_def INTERVAL_QUERY_RESPONSE_def
          DEFAULT_ROBUSTNESS_def s32_def)
  qed
qed

lemma sample_running: "\<exists>w. proxy_start sample_net (Some sample_text) False (0, 0) zero_proxy
    = ret (\<lparr>last_sec = 0, last_usec = 0, diff_usec = 0\<rparr>, w) \<and> sample_started w"
proof -
  obtain cs b where up: "igmpProxyInit sample_net sample_config = ret (sample_config\<lparr>IfDescVc := [loopback, lan, wan], upStreamVif := 2,
    VifDescVc := [Some 1, Some (Suc (Suc 0))] @ replicate 30 None, calls := cs, send_buf := b, curttl := 1\<rparr>)" (is "_ = ret ?w")
    and b: "length b = RECV_BUF_SIZE" using sample_set_up by blast
  have "returns (sendGeneralMembershipQuery sample_net (?w\<lparr>snooping_enabled := False\<rparr>)) sample_started"
    by (rule first_queries) (use b in \<open>simp_all add: sample_config_def zero_proxy_def\<close>)
  then obtain w where w: "sendGeneralMembershipQuery sample_net (?w\<lparr>snooping_enabled := False\<rparr>) = ret w" "sample_started w" by (auto simp: returns_def)
  have "proxy_start sample_net (Some sample_text) False (0, 0) zero_proxy = ret (\<lparr>last_sec = 0, last_usec = 0, diff_usec = 0\<rparr>, w)"
    unfolding proxy_start_def sample_load run_bind_ret prod.case up rt_init_def using w(1) by simp
  then show ?thesis using w(2) by blast
qed

lemma sample_kernel: "kernel_ok sample_net" "few_ifs sample_net"
  by (simp_all add: kernel_ok_def few_ifs_def MAX_MC_VIFS_def)

lemma sample_joined:
  assumes "proxy_inv w" "sample_started w"
  shows "returns (proxy_turn sample_net to_lan (\<lparr>last_sec = 0, last_usec = 0, diff_usec = 0\<rparr>, w))
    (\<lambda>(l, w'). route_frame w w' \<and> wanted (table w' sample_group) = 1)"
proof -
  have s: "IfDescVc w = [loopback, lan, wan]" "timer_nextTimer w = 10" "\<not> snooping_enabled w" "routing_table w = None" "upStreamVif w = 2" "group_list w = []"
    using assms(2) by (simp_all add: sample_started_def)
  have src: "getIfByAddress 0x0501A8C0 w = Some lan"
    by (simp add: getIfByAddress_def s loopback_def lan_def wan_def wildcard_def in_subnet_def)
  have packet: "acceptIgmp sample_net (in_packet to_lan) 28 w = exec_op sample_net (Report sample_group 0) w"
    using s(3,6) src
    by (simp add: acceptIgmp_def to_lan_def acceptGroupReport_def insert_multicast_ip_def exec_op_def sample_group_def lan_def Let_def
        slice_def rd_le32_def rd_be16_def IGMP_MINLEN_def IGMP_V1_MEMBERSHIP_REPORT_def IGMP_V2_MEMBERSHIP_REPORT_def IN_MULTICAST_def ntohl_def s32_def rd_be32_def le32_def find_entry_def)
  have "table w sample_group = None" by (simp add: table_def findRoute_def route_walk.simps ret_def s(4))
  moreover have "getIfByIx (upStreamVif w) w = Some wan" by (simp add: getIfByIx_def s)
  ultimately have "\<exists>t cmds. spec_op w (Report sample_group 0) (table w) = Some (t, cmds) \<and> wanted (t sample_group) = 1"
    using sample_group_multicast
    by (auto simp: spec_op_def MAX_MC_VIFS_def inserted_def listened_def new_route_def upstr_after_def wanted_def Let_def BIT_SET_def one_shl_def split: prod.split)
  then obtain t cmds where t: "spec_op w (Report sample_group 0) (table w) = Some (t, cmds)" "wanted (t sample_group) = 1" by blast
  have "ifs_ok (IfDescVc w)" "table_ok w" using assms(1) by (simp_all add: proxy_inv_def)
  from exec_op_meets [OF sample_kernel(1) this, of "Report sample_group 0"] obtain v where
    v: "exec_op sample_net (Report sample_group 0) w = ret v" "route_outcome w t cmds v" using t(1) by (auto simp: meets_def returns_def)
  show ?thesis
    using v t(2) packet s(2)
    by (simp add: proxy_turn_def to_lan_def route_outcome_def time_walk.simps norm_diff_def carry_usec.simps)
qed

lemma sample_reached:
  "\<exists>l w. proxy_reaches sample_net (Some sample_text) False (l, w) \<and> fastUpstreamLeave (commonConfig w) \<and> getIfByIx (upStreamVif w) w = Some wan
     \<and> wanted (table w sample_group) = 1"
proof -
  obtain w where w: "proxy_start sample_net (Some sample_text) False (0, 0) zero_proxy = ret (\<lparr>last_sec = 0, last_usec = 0, diff_usec = 0\<rparr>, w)"
    "sample_started w" using sample_running by blast
  note start = proxy_reaches.start [OF w(1)]
  have "proxy_inv w" using reaches_inv [OF start sample_kernel] by simp
  from sample_joined [OF this w(2)] obtain l v where
    v: "proxy_turn sample_net to_lan (\<lparr>last_sec = 0, last_usec = 0, diff_usec = 0\<rparr>, w) = ret (l, v)" "route_frame w v" "wanted (table v sample_group) = 1"
    by (auto simp: returns_def)
  have "fastUpstreamLeave (commonConfig v)" "getIfByIx (upStreamVif v) v = Some wan"
    using w(2) route_frameD [OF v(2)] by (simp_all add: sample_started_def getIfByIx_def)
  then show ?thesis using proxy_reaches.turn [OF start v(1)] v(3) by blast
qed

end
