(* ===== verification/Md5c.thy ===== *)
theory Md5c
  imports Md5
begin

text \<open>
  \<open>rt2880_app/nvram/md5c.c\<close>: the second MD5 of the repository, which the management agent hashes passwords with. It is a different program from
  \<open>802.1x/md5.c\<close>: the transform is unrolled, whole blocks are transformed where they are in the input, and the end of a
  message is padded by further calls of the update. An access outside the input or the buffer is a fault.

  Shown: the transform is that of RFC 1321 again, and on every message, in any pieces, both programs give the same digest. The
  locale \<open>chunked_hash\<close> is interpreted a second time.
\<close>

section \<open>The block transform\<close>

datatype md5c_op = FF | GG | HH | II

text \<open>The macros \<open>F\<close>, \<open>G\<close>, \<open>H\<close> and \<open>I\<close>.\<close>

definition md5c_mix :: "md5c_op \<Rightarrow> u32 \<Rightarrow> u32 \<Rightarrow> u32 \<Rightarrow> u32" where
  "md5c_mix op x y z =
     (case op of
        FF \<Rightarrow> (x AND y) OR (NOT x AND z)
      | GG \<Rightarrow> (x AND z) OR (y AND NOT z)
      | HH \<Rightarrow> x XOR y XOR z
      | II \<Rightarrow> y XOR (x OR NOT z))"

definition ROTATE_LEFT :: "u32 \<Rightarrow> nat \<Rightarrow> u32" where
  "ROTATE_LEFT x n = push_bit n x OR drop_bit (32 - n) x"

definition S11 :: nat where "S11 = 7"
definition S12 :: nat where "S12 = 12"
definition S13 :: nat where "S13 = 17"
definition S14 :: nat where "S14 = 22"
definition S21 :: nat where "S21 = 5"
definition S22 :: nat where "S22 = 9"
definition S23 :: nat where "S23 = 14"
definition S24 :: nat where "S24 = 20"
definition S31 :: nat where "S31 = 4"
definition S32 :: nat where "S32 = 11"
definition S33 :: nat where "S33 = 16"
definition S34 :: nat where "S34 = 23"
definition S41 :: nat where "S41 = 6"
definition S42 :: nat where "S42 = 10"
definition S43 :: nat where "S43 = 15"
definition S44 :: nat where "S44 = 21"

text \<open>The 64 statements of the transform: the macro, the word of the block, the rotation and the constant. The registers a statement
  names are those of the statement before it, one place to the right.\<close>

definition md5c_rows :: "(md5c_op \<times> nat \<times> nat \<times> u32) list" where
  "md5c_rows = [
    (FF, 0, S11, 0xd76aa478), (FF, 1, S12, 0xe8c7b756),
    (FF, 2, S13, 0x242070db), (FF, 3, S14, 0xc1bdceee),
    (FF, 4, S11, 0xf57c0faf), (FF, 5, S12, 0x4787c62a),
    (FF, 6, S13, 0xa8304613), (FF, 7, S14, 0xfd469501),
    (FF, 8, S11, 0x698098d8), (FF, 9, S12, 0x8b44f7af),
    (FF, 10, S13, 0xffff5bb1), (FF, 11, S14, 0x895cd7be),
    (FF, 12, S11, 0x6b901122), (FF, 13, S12, 0xfd987193),
    (FF, 14, S13, 0xa679438e), (FF, 15, S14, 0x49b40821),
    (GG, 1, S21, 0xf61e2562), (GG, 6, S22, 0xc040b340),
    (GG, 11, S23, 0x265e5a51), (GG, 0, S24, 0xe9b6c7aa),
    (GG, 5, S21, 0xd62f105d), (GG, 10, S22, 0x2441453),
    (GG, 15, S23, 0xd8a1e681), (GG, 4, S24, 0xe7d3fbc8),
    (GG, 9, S21, 0x21e1cde6), (GG, 14, S22, 0xc33707d6),
    (GG, 3, S23, 0xf4d50d87), (GG, 8, S24, 0x455a14ed),
    (GG, 13, S21, 0xa9e3e905), (GG, 2, S22, 0xfcefa3f8),
    (GG, 7, S23, 0x676f02d9), (GG, 12, S24, 0x8d2a4c8a),
    (HH, 5, S31, 0xfffa3942), (HH, 8, S32, 0x8771f681),
    (HH, 11, S33, 0x6d9d6122), (HH, 14, S34, 0xfde5380c),
    (HH, 1, S31, 0xa4beea44), (HH, 4, S32, 0x4bdecfa9),
    (HH, 7, S33, 0xf6bb4b60), (HH, 10, S34, 0xbebfbc70),
    (HH, 13, S31, 0x289b7ec6), (HH, 0, S32, 0xeaa127fa),
    (HH, 3, S33, 0xd4ef3085), (HH, 6, S34, 0x4881d05),
    (HH, 9, S31, 0xd9d4d039), (HH, 12, S32, 0xe6db99e5),
    (HH, 15, S33, 0x1fa27cf8), (HH, 2, S34, 0xc4ac5665),
    (II, 0, S41, 0xf4292244), (II, 7, S42, 0x432aff97),
    (II, 14, S43, 0xab9423a7), (II, 5, S44, 0xfc93a039),
    (II, 12, S41, 0x655b59c3), (II, 3, S42, 0x8f0ccc92),
    (II, 10, S43, 0xffeff47d), (II, 1, S44, 0x85845dd1),
    (II, 8, S41, 0x6fa87e4f), (II, 15, S42, 0xfe2ce6e0),
    (II, 6, S43, 0xa3014314), (II, 13, S44, 0x4e0811a1),
    (II, 4, S41, 0xf7537e82), (II, 11, S42, 0xbd3af235),
    (II, 2, S43, 0x2ad7d2bb), (II, 9, S44, 0xeb86d391)]"

text \<open>\<open>FF\<close>, \<open>GG\<close>, \<open>HH\<close> and \<open>II\<close>: the first register is changed.\<close>

definition md5c_step :: "u32 list \<Rightarrow> md5c_op \<times> nat \<times> nat \<times> u32 \<Rightarrow> md5_regs \<Rightarrow> md5_regs" where
  "md5c_step x row r =
     (case row of (op, k, s, ac) \<Rightarrow> case r of (a, b, c, d) \<Rightarrow>
        let a = a + (md5c_mix op b c d + x ! k + ac);
            a = ROTATE_LEFT a s;
            a = a + b
        in (d, a, b, c))"

definition Encode :: "u32 list \<Rightarrow> byte list" where
  "Encode input = concat (map (\<lambda>w. [ucast (w AND 0xff), ucast (drop_bit 8 w AND 0xff), ucast (drop_bit 16 w AND 0xff),
     ucast (drop_bit 24 w AND 0xff)]) input)"

definition Decode :: "byte list \<Rightarrow> nat \<Rightarrow> u32 list" where
  "Decode input len = map (\<lambda>i. let j = 4 * i in
     ucast (input ! j) OR push_bit 8 (ucast (input ! (j + 1))) OR push_bit 16 (ucast (input ! (j + 2))) OR push_bit 24 (ucast (input ! (j + 3))))
     [0..<len div 4]"

definition MD5Transform_c :: "md5_regs \<Rightarrow> byte list \<Rightarrow> md5_regs" where
  "MD5Transform_c state block =
     (let x = Decode block 64 in
      case (state, fold (md5c_step x) md5c_rows state) of
        ((s0, s1, s2, s3), (a, b, c, d)) \<Rightarrow> (s0 + a, s1 + b, s2 + c, s3 + d))"

section \<open>The context\<close>

record MD5_CONTEXT =
  md5c_state :: md5_regs
  md5c_count0 :: u32
  md5c_count1 :: u32
  md5c_buffer :: "byte list"

definition MD5Init_c :: "MD5_CONTEXT \<Rightarrow> MD5_CONTEXT" where
  "MD5Init_c context = context\<lparr>
     md5c_state := (0x67452301, 0xefcdab89, 0x98badcfe, 0x10325476), md5c_count0 := 0, md5c_count1 := 0\<rparr>"

text \<open>The loop over the whole blocks of the input; \<open>i + 63\<close> is computed in 32 bits.\<close>

partial_function (option) md5c_blocks :: "u32 \<Rightarrow> byte list \<Rightarrow> md5_regs \<Rightarrow> (u32 \<times> md5_regs) run" where
  "md5c_blocks i input state =
     (if i + 63 < of_nat (length input)
      then run_bind (mem_read (unat i) 64 input) (\<lambda>b. md5c_blocks (i + 64) input (MD5Transform_c state b))
      else ret (i, state))"

definition MD5Update_c :: "MD5_CONTEXT \<Rightarrow> byte list \<Rightarrow> MD5_CONTEXT run" where
  "MD5Update_c context input =
     (let inputLen = of_nat (length input) :: u32;
          index = drop_bit 3 (md5c_count0 context) AND 0x3F;
          c = context\<lparr>md5c_count0 := md5c_count0 context + push_bit 3 inputLen\<rparr>;
          c = (if md5c_count0 c < push_bit 3 inputLen then c\<lparr>md5c_count1 := md5c_count1 c + 1\<rparr> else c);
          c = c\<lparr>md5c_count1 := md5c_count1 c + drop_bit 29 inputLen\<rparr>;
          partLen = 64 - index
      in run_bind
           (if inputLen \<ge> partLen then
              run_bind (mem_read 0 (unat partLen) input) (\<lambda>bs.
              run_bind (mem_write (unat index) bs (md5c_buffer c)) (\<lambda>b.
              run_map (\<lambda>(i, s). (i, 0, c\<lparr>md5c_state := s, md5c_buffer := b\<rparr>)) (md5c_blocks partLen input (MD5Transform_c (md5c_state c) b))))
            else ret (0, index, c)) (\<lambda>(i, index, c).
         run_bind (mem_read (unat i) (unat (inputLen - i)) input) (\<lambda>bs.
         run_map (\<lambda>b. c\<lparr>md5c_buffer := b\<rparr>) (mem_write (unat index) bs (md5c_buffer c)))))"

definition PADDING :: "byte list" where
  "PADDING = 0x80 # replicate 63 0"

definition MD5Final_c :: "MD5_CONTEXT \<Rightarrow> (byte list \<times> MD5_CONTEXT) run" where
  "MD5Final_c context =
     (let bits = Encode [md5c_count0 context, md5c_count1 context];
          index = unat (drop_bit 3 (md5c_count0 context) AND 0x3f);
          padLen = (if index < 56 then 56 - index else 120 - index)
      in run_bind (mem_read 0 padLen PADDING) (\<lambda>pad.
         run_bind (MD5Update_c context pad) (\<lambda>context.
         run_map (\<lambda>context.
           (case md5c_state context of (a, b, c, d) \<Rightarrow> Encode [a, b, c, d],
            \<lparr>md5c_state = (0, 0, 0, 0), md5c_count0 = 0, md5c_count1 = 0, md5c_buffer = replicate 64 0\<rparr>))
           (MD5Update_c context bits))))"

section \<open>The same transform\<close>

definition md5c_op_at :: "nat \<Rightarrow> md5c_op" where
  "md5c_op_at i = (if i < 16 then FF else if i < 32 then GG else if i < 48 then HH else II)"

lemmas rotations = S11_def S12_def S13_def S14_def S21_def S22_def S23_def S24_def S31_def S32_def S33_def S34_def S41_def S42_def S43_def S44_def

lemma md5c_rows_rfc: "md5c_rows = map (\<lambda>i. (md5c_op_at i, rfc_index i, rfc_shift i, MD5Table ! i)) [0..<64]"
  by code_simp

lemma ROTATE_LEFT_rotl: "0 < s \<Longrightarrow> s < 32 \<Longrightarrow> ROTATE_LEFT x s = word_rotl s x"
  using CYCLIC_LEFT_SHIFT_rotl [of s x] by (simp add: ROTATE_LEFT_def CYCLIC_LEFT_SHIFT_def)

lemma md5c_step_rfc: "md5c_step X (md5c_op_at i, rfc_index i, rfc_shift i, MD5Table ! i) r = rfc_step X i r"
  using rfc_shift_bounds [of i]
  by (cases r) (simp add: md5c_step_def rfc_step_def ROTATE_LEFT_rotl Let_def md5c_mix_def md5c_op_at_def rfc_fun_def ac_simps)

lemma Decode_words: "length b = 64 \<Longrightarrow> Decode b 64 = words_of b"
  by (auto simp: Decode_def words_of_def rd_le32_def slice_def Let_def)

lemma MD5Transform_c_block:
  assumes "length b = 64"
  shows "MD5Transform_c h b = md5_block h b"
proof -
  have "fold (md5c_step X) md5c_rows h = fold (rfc_step X) [0..<64] h" for X
    unfolding md5c_rows_rfc fold_map comp_def md5c_step_rfc ..
  then show ?thesis
    by (simp add: MD5Transform_c_def md5_block_def MD5Transform_rfc rfc_transform_def Decode_words [OF assms] Let_def)
qed

section \<open>The same digest\<close>

text \<open>The context as one of \<open>802.1x/md5.c\<close>: what a context stands for is \<open>md5_repr\<close> again.\<close>

definition md5c_view :: "MD5_CONTEXT \<Rightarrow> md5_ctx" where
  "md5c_view c = \<lparr>Buf = md5c_state c, LenInBitCount0 = md5c_count0 c, LenInBitCount1 = md5c_count1 c, Input = md5c_buffer c\<rparr>"

definition md5c_repr :: "byte list \<Rightarrow> MD5_CONTEXT \<Rightarrow> bool" where
  "md5c_repr m c \<longleftrightarrow> md5_repr m (md5c_view c)"

lemma md5c_blocks_spec:
  assumes "unat i \<le> length d" "length d + 64 < 2 ^ 32"
  shows "\<exists>j. md5c_blocks i d s = ret (j, md5_chain s (drop (unat i) d)) \<and> drop (unat j) d = md5_tail (drop (unat i) d) \<and> unat j \<le> length d"
  using assms
proof (induction "length d - unat i" arbitrary: i s rule: less_induct)
  case less
  have n: "unat (of_nat (length d) :: u32) = length d" by (rule unat_of_nat_u32) (use less.prems in simp)
  have i63: "unat (i + 63) = unat i + 63" using less.prems by (simp add: unat_word_ariths)
  have c: "i + 63 < of_nat (length d) \<longleftrightarrow> unat i + 63 < length d" unfolding word_less_nat_alt n i63 ..
  show ?case
  proof (cases "unat i + 63 < length d")
    case True
    have i64: "unat (i + 64) = unat i + 64" using less.prems by (simp add: unat_word_ariths)
    let ?b = "slice (unat i) 64 d"
    have b: "length ?b = 64" using True by (simp add: slice_def)
    have b2: "drop (unat i) d = ?b @ drop (unat (i + 64)) d"
      unfolding i64 slice_def by (metis append_take_drop_id drop_drop add.commute)
    obtain j where j: "md5c_blocks (i + 64) d (md5_block s ?b) = ret (j, md5_chain (md5_block s ?b) (drop (unat (i + 64)) d))"
      "drop (unat j) d = md5_tail (drop (unat (i + 64)) d)" "unat j \<le> length d"
    proof -
      have "length d - unat (i + 64) < length d - unat i" "unat (i + 64) \<le> length d" using True by (simp_all add: i64)
      from less.hyps [OF this less.prems(2), of "md5_block s ?b"] show thesis using that by blast
    qed
    have "md5c_blocks i d s = ret (j, md5_chain s (drop (unat i) d))"
      unfolding md5c_blocks.simps [of i] b2 md5_chain_block [OF b]
      using True j(1) by (simp add: c MD5Transform_c_block b)
    moreover have "drop (unat j) d = md5_tail (drop (unat i) d)" unfolding b2 md5_tail_block [OF b] by (rule j(2))
    ultimately show ?thesis using j(3) by blast
  next
    case False
    then have "md5c_blocks i d s = ret (i, s)" unfolding md5c_blocks.simps [of i] c by simp
    moreover have "length (drop (unat i) d) < 64" using False by simp
    ultimately show ?thesis using less.prems(1) by auto
  qed
qed

lemma Encode_le32: "Encode ws = concat (map le32 ws)"
proof -
  have "ucast (w AND 0xff) = (ucast w :: byte)" for w :: u32
  proof -
    have "w AND 0xff = take_bit 8 w" using take_bit_eq_mask [of 8 w] by (simp add: mask_eq_decr_exp)
    then show ?thesis by (simp add: bit_eq_iff bit_simps)
  qed
  then show ?thesis by (simp add: Encode_def le32_def [abs_def])
qed

lemma carry_swap: "(a :: u32) + b < b \<longleftrightarrow> a + b < a"
  unfolding word_less_nat_alt unat_word_ariths
  using unsigned_less [of a, where ?'a = nat] unsigned_less [of b, where ?'a = nat] by (auto simp: mod_if)

lemma MD5Update_c_spec:
  assumes m: "md5c_repr m c" and d: "length d + 128 < 2 ^ 32"
  shows "\<exists>c'. MD5Update_c c d = ret c' \<and> md5c_repr (m @ d) c'"
proof -
  let ?L = "of_nat (length d) :: u32"
  let ?r = "length m mod 64"
  define lo where "lo = (of_nat (8 * (length m + length d)) :: u32)"
  define hi where "hi = (of_nat (8 * (length m + length d) div 2 ^ 32) :: u32)"
  define c1 where "c1 = c\<lparr>md5c_count0 := lo, md5c_count1 := hi\<rparr>"
  have c: "md5c_state c = md5_chain md5_init_regs m" "length (md5c_buffer c) = 64" "take ?r (md5c_buffer c) = md5_tail m"
      "md5c_count0 c = of_nat (8 * length m)" "md5c_count1 c = of_nat (8 * length m div 2 ^ 32)"
    using m by (simp_all add: md5c_repr_def md5_repr_def md5c_view_def)
  have t: "drop_bit 3 (md5c_count0 c) AND 0x3F = of_nat ?r" "unat (drop_bit 3 (md5c_count0 c) AND 0x3F) = ?r"
    using md5_buffered [of m "md5c_view c"] m by (simp_all add: md5c_repr_def md5c_view_def)
  have r: "?r < 64" by simp
  have L: "unat ?L = length d" by (rule unat_of_nat_u32) (use d in simp)
  have ur: "unat (of_nat ?r :: u32) = ?r" by (rule unat_of_nat_u32, rule order_less_le_trans [OF r]) simp
  have p: "unat (64 - of_nat ?r :: u32) = 64 - ?r"
    using r by (simp add: unat_sub ur word_le_nat_alt)
  have lo': "md5c_count0 c + push_bit 3 ?L = lo" unfolding c(4) lo_def by (rule md5_low_count)
  have hi': "(if lo < push_bit 3 ?L then md5c_count1 c + 1 else md5c_count1 c) + drop_bit 29 ?L = hi"
  proof -
    have "lo < push_bit 3 ?L \<longleftrightarrow> lo < md5c_count0 c" unfolding lo' [symmetric] by (rule carry_swap)
    then show ?thesis unfolding c(4,5) lo_def hi_def using d md5_high_count [of "length d" "length m"] by simp
  qed
  have le: "64 - of_nat ?r \<le> ?L \<longleftrightarrow> 64 - ?r \<le> length d" unfolding word_le_nat_alt p L ..
  have step: "MD5Update_c c d =
      run_bind (if 64 - ?r \<le> length d then
          run_bind (mem_read 0 (64 - ?r) d) (\<lambda>bs.
          run_bind (mem_write ?r bs (md5c_buffer c)) (\<lambda>b.
          run_map (\<lambda>(i, s). (i, 0, c1\<lparr>md5c_state := s, md5c_buffer := b\<rparr>)) (md5c_blocks (64 - of_nat ?r) d (MD5Transform_c (md5c_state c) b))))
        else ret (0, of_nat ?r :: u32, c1)) (\<lambda>(i, index, c).
      run_bind (mem_read (unat i) (unat (?L - i)) d) (\<lambda>bs.
      run_map (\<lambda>b. c\<lparr>md5c_buffer := b\<rparr>) (mem_write (unat index) bs (md5c_buffer c))))"
  proof -
    have counts: "(let c' = c\<lparr>md5c_count0 := md5c_count0 c + push_bit 3 ?L\<rparr>;
        c' = (if md5c_count0 c' < push_bit 3 ?L then c'\<lparr>md5c_count1 := md5c_count1 c' + 1\<rparr> else c')
      in c'\<lparr>md5c_count1 := md5c_count1 c' + drop_bit 29 ?L\<rparr>) = c1"
      using lo' hi' by (auto simp: c1_def Let_def split: if_splits)
    have same: "md5c_state c1 = md5c_state c" "md5c_buffer c1 = md5c_buffer c" by (simp_all add: c1_def)
    show ?thesis unfolding MD5Update_c_def Let_def t(1) counts [unfolded Let_def] le p ur same by (rule refl)
  qed
  have repr: "md5c_repr (m @ d) (c1\<lparr>md5c_state := s, md5c_buffer := b\<rparr>)"
    if "s = md5_chain md5_init_regs (m @ d)" "length b = 64" "take (length (m @ d) mod 64) b = md5_tail (m @ d)" for s b
    using that by (simp add: md5c_repr_def md5_repr_def md5c_view_def c1_def lo_def hi_def)
  show ?thesis
  proof (cases "64 - ?r \<le> length d")
    case True
    let ?b = "md5_tail m @ take (64 - ?r) d" and ?rest = "drop (64 - ?r) d"
    have b: "length ?b = 64" using True r by simp
    have w: "mem_write ?r (slice 0 (64 - ?r) d) (md5c_buffer c) = ret ?b"
      using c(2,3) True r by (simp add: mem_write_def slice_def store_def)
    obtain j where j: "md5c_blocks (64 - of_nat ?r) d (md5_block (md5c_state c) ?b) = ret (j, md5_chain (md5_block (md5c_state c) ?b) ?rest)"
      "drop (unat j) d = md5_tail ?rest" "unat j \<le> length d"
      using md5c_blocks_spec [of "64 - of_nat ?r" d "md5_block (md5c_state c) ?b"] True d by (auto simp: p)
    have md: "md5_tail m @ d = ?b @ ?rest" by simp
    have s: "md5_chain (md5_block (md5c_state c) ?b) ?rest = md5_chain md5_init_regs (m @ d)"
      unfolding md5_chain_tail [of _ m d] md md5_chain_block [OF b] c(1) ..
    have tl: "drop (unat j) d = md5_tail (m @ d)"
      unfolding md5_tail_append [of m d] md md5_tail_block [OF b] by (rule j(2))
    have lj: "length d - unat j = length (m @ d) mod 64"
      using arg_cong [OF tl, of length] by simp
    have "unat (?L - j) = length d - unat j" using j(3) L by (simp add: unat_sub word_le_nat_alt)
    then have "mem_read (unat j) (unat (?L - j)) d = ret (md5_tail (m @ d))"
      using j(3) by (simp add: mem_read_def slice_def tl [symmetric])
    moreover have "mem_write 0 (md5_tail (m @ d)) ?b = ret (store 0 (md5_tail (m @ d)) ?b)"
      using b by (simp add: mod_le_divisor)
    ultimately have "MD5Update_c c d = ret (c1\<lparr>md5c_state := md5_chain md5_init_regs (m @ d), md5c_buffer := store 0 (md5_tail (m @ d)) ?b\<rparr>)"
      unfolding step using True w j(1) s by (simp add: MD5Transform_c_block [OF b] mem_read_def)
    moreover have "md5c_repr (m @ d) (c1\<lparr>md5c_state := md5_chain md5_init_regs (m @ d), md5c_buffer := store 0 (md5_tail (m @ d)) ?b\<rparr>)"
    proof (rule repr)
      have "0 + length (md5_tail (m @ d)) \<le> length ?b" unfolding b by (simp add: mod_le_divisor)
      from length_store [OF this] show "length (store 0 (md5_tail (m @ d)) ?b) = 64" unfolding b .
      show "take (length (m @ d) mod 64) (store 0 (md5_tail (m @ d)) ?b) = md5_tail (m @ d)" by (simp add: store_def)
    qed simp
    ultimately show ?thesis by blast
  next
    case False
    then have short: "?r + length d < 64" by linarith
    have l: "length (m @ d) mod 64 = ?r + length d" using short by (simp add: mod_add_left_eq [symmetric, of "length m"])
    have "MD5Update_c c d = ret (c1\<lparr>md5c_buffer := store ?r d (md5c_buffer c)\<rparr>)"
      unfolding step using False short c(2) by (simp add: L ur c1_def mem_read_def slice_def)
    moreover have "md5c_repr (m @ d) (c1\<lparr>md5c_state := md5c_state c, md5c_buffer := store ?r d (md5c_buffer c)\<rparr>)"
    proof (rule repr)
      show "md5c_state c = md5_chain md5_init_regs (m @ d)" using short by (subst md5_chain_tail) (simp add: c(1))
      have "md5_tail (m @ d) = md5_tail m @ d" using short by (subst md5_tail_append) simp
      then show "take (length (m @ d) mod 64) (store ?r d (md5c_buffer c)) = md5_tail (m @ d)"
        unfolding l using c(2,3) short r by (simp add: store_def)
    qed (use c(2) short in simp)
    ultimately show ?thesis by (auto simp: c1_def)
  qed
qed

text \<open>The end: the padding and the bits are two more updates.\<close>

lemma MD5Final_c_spec:
  assumes m: "md5c_repr m c"
  shows "\<exists>c'. MD5Final_c c = ret (md5_spec m, c') \<and> length (md5c_buffer c') = 64"
proof -
  let ?r = "length m mod 64"
  define pad where "pad = 0x80 # replicate ((119 - ?r) mod 64) (0 :: byte)"
  define bits where "bits = le32 (md5c_count0 c) @ le32 (md5c_count1 c)"
  have c: "md5c_count0 c = of_nat (8 * length m)" "md5c_count1 c = of_nat (8 * length m div 2 ^ 32)"
    using m by (simp_all add: md5c_repr_def md5_repr_def md5c_view_def)
  have idx: "unat (drop_bit 3 (md5c_count0 c) AND 0x3f) = ?r"
    using md5_buffered [of m "md5c_view c"] m by (simp add: md5c_repr_def md5c_view_def)
  have r: "?r < 64" by simp
  have len: "(if ?r < 56 then 56 - ?r else 120 - ?r) = length pad"
  proof -
    have "56 - k = Suc (55 - k)" if "k < 56" for k :: nat using that by arith
    moreover have "120 - k = Suc (119 - k)" if "k < 64" for k :: nat using that by arith
    ultimately show ?thesis using md5_pad_zeros(2) [OF _ r] md5_pad_zeros(1) [of ?r] r by (auto simp: pad_def)
  qed
  have l64: "length pad \<le> 64" by (simp add: pad_def Suc_le_eq)
  have "mem_read 0 (length pad) PADDING = ret pad"
    using l64 by (simp add: mem_read_def slice_def PADDING_def pad_def take_Cons' min_def)
  moreover obtain c1 where c1: "MD5Update_c c pad = ret c1" "md5c_repr (m @ pad) c1"
    using MD5Update_c_spec [OF m, of pad] l64 by auto
  moreover obtain c2 where c2: "MD5Update_c c1 bits = ret c2" "md5c_repr ((m @ pad) @ bits) c2"
    using MD5Update_c_spec [OF c1(2), of bits] by (auto simp: bits_def)
  moreover have "(m @ pad) @ bits = m @ md5_pad (length m)"
    by (simp add: md5_pad_def pad_def bits_def c)
  then have "md5c_state c2 = md5_chain md5_init_regs (m @ md5_pad (length m))"
    using c2(2) by (simp only: md5c_repr_def md5_repr_def md5c_view_def md5_ctx.select_convs)
  moreover note this
  moreover have "Encode [md5c_count0 c, md5c_count1 c] = bits" by (simp add: Encode_le32 bits_def)
  moreover have "(case s of (a, b, x, y) \<Rightarrow> Encode [a, b, x, y]) = md5_digest s" for s
    by (cases s) (simp add: Encode_le32 md5_digest_def)
  ultimately show ?thesis
    unfolding MD5Final_c_def Let_def idx len by (simp add: md5_spec_def)
qed

text \<open>An update and an end that return, as functions.\<close>

definition md5c_update :: "MD5_CONTEXT \<Rightarrow> byte list \<Rightarrow> MD5_CONTEXT" where
  "md5c_update c d = (case MD5Update_c c d of Some (Inr c') \<Rightarrow> c' | _ \<Rightarrow> c)"

definition md5c_final :: "MD5_CONTEXT \<Rightarrow> byte list" where
  "md5c_final c = (case MD5Final_c c of Some (Inr (d, c')) \<Rightarrow> d | _ \<Rightarrow> [])"

definition md5c_stack_ctx :: MD5_CONTEXT where
  "md5c_stack_ctx = \<lparr>md5c_state = (0, 0, 0, 0), md5c_count0 = 0, md5c_count1 = 0, md5c_buffer = replicate 64 0\<rparr>"

lemma md5c_update_returns:
  assumes "md5c_repr m c" "length d + 128 < 2 ^ 32"
  shows "MD5Update_c c d = ret (md5c_update c d)" "md5c_repr (m @ d) (md5c_update c d)"
  using MD5Update_c_spec [OF assms] by (auto simp: md5c_update_def ret_def)

lemma md5c_final_returns: "md5c_repr m c \<Longrightarrow> \<exists>c'. MD5Final_c c = ret (md5c_final c, c')"
  using MD5Final_c_spec [of m c] by (auto simp: md5c_final_def ret_def)

lemma md5c_repr_init: "length (md5c_buffer c) = 64 \<Longrightarrow> md5c_repr [] (MD5Init_c c)"
  by (simp add: md5c_repr_def md5_repr_def md5c_view_def MD5Init_c_def md5_init_regs_def)

interpretation md5c: chunked_hash "MD5Init_c md5c_stack_ctx" md5c_update md5c_final md5c_repr md5_spec "2 ^ 32 - 128"
proof
  show "md5c_repr [] (MD5Init_c md5c_stack_ctx)" by (rule md5c_repr_init) (simp add: md5c_stack_ctx_def)
next
  fix m c and d :: "byte list" assume "md5c_repr m c" "length d < 2 ^ 32 - 128"
  then show "md5c_repr (m @ d) (md5c_update c d)" by (intro md5c_update_returns(2)) simp_all
next
  fix m c assume "md5c_repr m c"
  from MD5Final_c_spec [OF this] show "md5c_final c = md5_spec m" by (auto simp: md5c_final_def ret_def)
qed

section \<open>Properties\<close>

text \<open>One call of the update after the other.\<close>

fun md5c_updates :: "MD5_CONTEXT \<Rightarrow> byte list list \<Rightarrow> MD5_CONTEXT run" where
  "md5c_updates c [] = ret c"
| "md5c_updates c (d # ds) = run_bind (MD5Update_c c d) (\<lambda>c. md5c_updates c ds)"

text \<open>C34. The two MD5 programs of the repository agree: whatever pieces a message is fed in to either of them, the agent's \<open>md5c.c\<close>
  returns, and its digest is that of \<open>802.1x/md5.c\<close>.\<close>

theorem md5_programs_agree:
  assumes "\<forall>d \<in> set ds. length d < 2 ^ 32 - 128" "\<forall>d \<in> set es. length d < 2 ^ 32 - 64" "concat ds = concat es"
  shows "\<exists>c. run_bind (md5c_updates (MD5Init_c md5c_stack_ctx) ds) MD5Final_c
    = ret (fst (MD5Final (foldl MD5Update (MD5Init md5_stack_ctx) es)), c)"
proof -
  have "md5c_updates c ds = ret (foldl md5c_update c ds)" if "md5c_repr m c" for m c
    using assms(1) that
  proof (induction ds arbitrary: m c)
    case (Cons d ds)
    then show ?case using md5c_update_returns [of m c d] by simp
  qed simp
  from this [OF md5c.represents_init] md5c.represents_chunks [OF md5c.represents_init assms(1)]
  show ?thesis
    using MD5Final_c_spec md5.digest_chunks [OF assms(2)] assms(3) by force
qed

theorem md5_programs_agree_witness:
  "\<exists>c. run_bind (md5c_updates (MD5Init_c md5c_stack_ctx) [replicate 63 1, [2], replicate 70 3]) MD5Final_c
    = ret (fst (MD5Final (foldl MD5Update (MD5Init md5_stack_ctx) [replicate 63 1 @ [2], replicate 70 3])), c)"
  using md5_programs_agree [of "[replicate 63 1, [2], replicate 70 3]" "[replicate 63 1 @ [2], replicate 70 3]"] by simp

end
