(* ===== verification/RamaMsg.thy ===== *)
theory RamaMsg
  imports Md5c
begin

text \<open>
  The messages of the management agent: \<open>rt2880_app/nvram/rama.h\<close> and \<open>rmmsg.c\<close>, and the data of \<open>ramad.c\<close>. A message is a header of three
  numbers (length, type and a magic number) and a sequence of TLVs, each with its own length and type in front. The lengths are signed
  and count the headers too. A message is the block of memory it is in; a position in it is an integer, because a length in a TLV may be
  negative, and a read outside the block is a fault.

  The agent is built for the same router as the proxy: \<open>CONFIG_RT_3052_ESW\<close> is set and \<open>CONFIG_ICPLUS_PHY\<close> is not.
\<close>

section \<open>Constants\<close>

definition RM_PORT :: u16 where "RM_PORT = 7654"
definition RM_MAX_MSG_LEN :: nat where "RM_MAX_MSG_LEN = 128"
definition RM_MAX_SSID_LEN :: nat where "RM_MAX_SSID_LEN = 32"
definition RM_NONCE_LEN :: nat where "RM_NONCE_LEN = 8"
definition RM_MAGIC :: u32 where "RM_MAGIC = 0x5241636f"
definition RM_HDR_LEN :: nat where "RM_HDR_LEN = 12"
definition RM_TLV_HDR_LEN :: nat where "RM_TLV_HDR_LEN = 8"
definition RM_QUERY :: u32 where "RM_QUERY = 0x01"
definition RM_Q_ALL :: u32 where "RM_Q_ALL = 0x02"
definition RM_LOGIN :: u32 where "RM_LOGIN = 0x11"
definition RM_L_SID :: u32 where "RM_L_SID = 0x12"
definition RM_CHALLENGE :: u32 where "RM_CHALLENGE = 0x13"
definition RM_L_NONCE :: u32 where "RM_L_NONCE = 0x14"
definition RM_PASSWD :: u32 where "RM_PASSWD = 0x15"
definition RM_L_HASH :: u32 where "RM_L_HASH = 0x16"
definition RM_SET_IP :: u32 where "RM_SET_IP = 0x21"
definition RM_SET_SSID :: u32 where "RM_SET_SSID = 0x22"
definition RM_STATUS :: u32 where "RM_STATUS = 0xA1"
definition RM_S_SUCCESS :: u32 where "RM_S_SUCCESS = 0xA2"
definition RM_S_UNKNOWN_TLV_TYPE :: u32 where "RM_S_UNKNOWN_TLV_TYPE = 0xA3"
definition RM_S_WRONG_PW :: u32 where "RM_S_WRONG_PW = 0xA4"
definition RM_S_UN_LOGIN :: u32 where "RM_S_UN_LOGIN = 0xA5"
definition RM_S_ERROR :: u32 where "RM_S_ERROR = 0xA6"
definition RM_INFO :: u32 where "RM_INFO = 0xB1"
definition RM_I_MAC :: u32 where "RM_I_MAC = 0xB2"
definition RM_I_IP :: u32 where "RM_I_IP = 0xB3"
definition RM_I_SSID :: u32 where "RM_I_SSID = 0xB4"
definition RM_I_CID :: u32 where "RM_I_CID = 0xB5"

lemmas rm_types = RM_QUERY_def RM_Q_ALL_def RM_LOGIN_def RM_L_SID_def RM_CHALLENGE_def RM_L_NONCE_def RM_PASSWD_def RM_L_HASH_def
  RM_SET_IP_def RM_SET_SSID_def RM_STATUS_def RM_S_SUCCESS_def RM_S_UNKNOWN_TLV_TYPE_def RM_S_WRONG_PW_def RM_S_UN_LOGIN_def RM_S_ERROR_def
  RM_INFO_def RM_I_MAC_def RM_I_IP_def RM_I_SSID_def RM_I_CID_def

text \<open>The bytes of a text, without and with the null character behind it.\<close>

definition text_bytes :: "string \<Rightarrow> byte list" where
  "text_bytes s = map of_char s"

definition text_z :: "string \<Rightarrow> byte list" where
  "text_z s = text_bytes s @ [0]"

section \<open>Building\<close>

text \<open>\<open>rm_msg_init\<close>: a block with the header. \<open>None\<close> is the failure of an operation; the message is then only freed.\<close>

definition rm_msg_init :: "allocator \<Rightarrow> u32 \<Rightarrow> byte list option" where
  "rm_msg_init alloc ty = (if alloc RM_HDR_LEN then Some (le32 (of_nat RM_HDR_LEN) @ le32 ty @ le32 RM_MAGIC) else None)"

text \<open>\<open>m->h->len < RM_HDR_LEN\<close> compares unsigned numbers.\<close>

definition rm_msg_check :: "byte list \<Rightarrow> bool run" where
  "rm_msg_check h = run_map (\<lambda>b. rd_le32 (slice 8 4 b) = RM_MAGIC \<and> \<not> rd_le32 b < of_nat RM_HDR_LEN) (mem_read 0 RM_HDR_LEN h)"

text \<open>The sum for \<open>mlen\<close> is unsigned and stored in an \<open>int\<close>.\<close>

definition rm_append_tlv :: "allocator \<Rightarrow> u32 \<Rightarrow> byte list \<Rightarrow> byte list \<Rightarrow> byte list option run" where
  "rm_append_tlv alloc ty val h =
     run_bind (rm_msg_check h) (\<lambda>ok.
     if \<not> ok then ret None
     else
       let len = rd_le32 h; size = len + of_nat RM_TLV_HDR_LEN + of_nat (length val); mlen = sint size in
       if mlen > int RM_MAX_MSG_LEN then ret None
       else if \<not> alloc (unat size) then ret None
       else
         let h = take (unat size) (h @ replicate (unat size - length h) 0) in
         run_bind (mem_write (unat len) (le32 (of_nat (RM_TLV_HDR_LEN + length val)) @ le32 ty @ val) h) (\<lambda>h.
         run_map Some (mem_write 0 (le32 size) h)))"

section \<open>Taking apart\<close>

definition RMM_LEN :: "byte list \<Rightarrow> int" where
  "RMM_LEN h = sint (rd_le32 h - of_nat RM_HDR_LEN)"

text \<open>A number of a TLV, and the bytes of its value.\<close>

definition tlv_word :: "int \<Rightarrow> byte list \<Rightarrow> u32 run" where
  "tlv_word p h = (if p < 0 then fail OutOfBounds else run_map rd_le32 (mem_read (nat p) 4 h))"

definition tlv_value :: "int \<Rightarrow> nat \<Rightarrow> byte list \<Rightarrow> byte list run" where
  "tlv_value p n h = (if p + int RM_TLV_HDR_LEN < 0 then fail OutOfBounds else mem_read (nat (p + int RM_TLV_HDR_LEN)) n h)"

text \<open>The first comparison of \<open>RMT_OK\<close> with the length of the TLV is one of unsigned numbers, the second one of signed ones.\<close>

definition RMT_OK :: "byte list \<Rightarrow> int \<Rightarrow> int \<Rightarrow> bool run" where
  "RMT_OK h p len =
     (if len \<ge> int RM_TLV_HDR_LEN then run_map (\<lambda>l. l \<ge> of_nat RM_TLV_HDR_LEN \<and> sint l \<le> len) (tlv_word p h) else ret False)"

section \<open>The hash of a login\<close>

definition rama_md5_hash :: "allocator \<Rightarrow> byte list \<Rightarrow> string option \<Rightarrow> string option \<Rightarrow> byte list option run" where
  "rama_md5_hash alloc nonce user pw =
     (case (user, pw) of
        (Some user, Some pw) \<Rightarrow>
          let md5in = nonce @ text_bytes user @ text_bytes pw in
          if \<not> alloc (length md5in) then ret None
          else run_bind (MD5Update_c (MD5Init_c md5c_stack_ctx) md5in) (\<lambda>c. run_map (\<lambda>(d, c). Some d) (MD5Final_c c))
      | _ \<Rightarrow> ret None)"

section \<open>The agent and its system\<close>

text \<open>The calls that the rest of the system sees; the log of them is in the state.\<close>

datatype rm_call =
    RmSocket | RmBind u16 | RmBroadcast | RmHwAddr string | RmAddr string | RmEssid
  | RmOpenRandom | RmReadRandom int nat | RmClose int | RmSend u16 "byte list"
  | RmSetAddr string "byte list" | RmAddRoute string | RmSetEssid "byte list"

text \<open>\<open>rm_answer\<close> is the result of a call, \<open>rm_byte\<close> the bytes it stores, \<open>rm_essid\<close> the name the driver stores for \<open>SIOCGIWESSID\<close>, and
  \<open>rm_nvram\<close> the setting the library of the flash memory returns; each may depend on what was asked before.\<close>

record rm_env =
  rm_alloc :: allocator
  rm_answer :: "rm_call list \<Rightarrow> rm_call \<Rightarrow> int"
  rm_byte :: "rm_call list \<Rightarrow> rm_call \<Rightarrow> nat \<Rightarrow> byte"
  rm_essid :: "rm_call list \<Rightarrow> byte list"
  rm_nvram :: "rm_call list \<Rightarrow> string \<Rightarrow> string option"

text \<open>\<open>g_state\<close>, the socket, the receive buffer, the static variable of \<open>getLanIfName\<close> and the log.\<close>

record ramad =
  rs_state :: int
  rs_nonce :: "byte list"
  rs_cid :: "byte list"
  rm_skfd :: int
  rm_h :: "byte list"
  lan_if_name :: string
  rm_calls :: "rm_call list"

definition rm_do :: "rm_env \<Rightarrow> rm_call \<Rightarrow> ramad \<Rightarrow> int \<times> ramad" where
  "rm_do e c w = (rm_answer e (rm_calls w) c, w\<lparr>rm_calls := rm_calls w @ [c]\<rparr>)"

definition rm_data :: "rm_env \<Rightarrow> rm_call \<Rightarrow> nat \<Rightarrow> ramad \<Rightarrow> byte list" where
  "rm_data e c n w = map (rm_byte e (rm_calls w) c) [0..<n]"

end
