(* ===== verification/Ramad.thy ===== *)
theory Ramad
  imports RamaMsg
begin

text \<open>
  The management agent: \<open>rt2880_app/nvram/ramad.c\<close>. A client finds the router (\<open>RM_QUERY\<close>), asks for a challenge (\<open>RM_LOGIN\<close>), answers it
  with the hash of the nonce, the user name and the password (\<open>RM_PASSWD\<close>) and gets an identifier, with which it sets the address or the name
  of the network. There is one state for all clients. The handlers return the state; their results, which nobody uses, are left out.
\<close>

section \<open>The router\<close>

definition getLanIfName :: "rm_env \<Rightarrow> ramad \<Rightarrow> string \<times> ramad" where
  "getLanIfName e w =
     (case rm_nvram e (rm_calls w) ''OperationMode'' of None \<Rightarrow> (lan_if_name w, w)
      | Some mode \<Rightarrow>
          let n = (if mode = ''0'' then ''br0'' else if mode = ''1'' then ''br0'' else if mode = ''2'' then ''eth2''
                   else if mode = ''3'' then ''br0'' else lan_if_name w)
          in (n, w\<lparr>lan_if_name := n\<rparr>))"

text \<open>A question about the interface of the LAN: \<open>None\<close> when the buffer of the caller is left as it is. A socket that got no answer is not
  closed.\<close>

definition ask_if :: "rm_env \<Rightarrow> (string \<Rightarrow> rm_call) \<Rightarrow> nat \<Rightarrow> ramad \<Rightarrow> byte list option \<times> ramad" where
  "ask_if e c n w =
     (case rm_do e RmSocket w of (skfd, w) \<Rightarrow>
        if skfd < 0 then (None, w)
        else case getLanIfName e w of (name, w) \<Rightarrow>
          let bs = rm_data e (c name) n w in
          case rm_do e (c name) w of (r, w) \<Rightarrow>
            if r < 0 then (None, w) else (Some bs, snd (rm_do e (RmClose skfd) w)))"

definition get_my_mac :: "rm_env \<Rightarrow> ramad \<Rightarrow> byte list option \<times> ramad" where
  "get_my_mac e w = ask_if e RmHwAddr 6 w"

definition get_my_ip :: "rm_env \<Rightarrow> ramad \<Rightarrow> byte list option \<times> ramad" where
  "get_my_ip e w = ask_if e RmAddr 4 w"

definition get_ssid :: "rm_env \<Rightarrow> byte list \<Rightarrow> ramad \<Rightarrow> (byte list \<times> ramad) run" where
  "get_ssid e ssid w =
     (let mode = rm_nvram e (rm_calls w) ''OperationMode''; ec = rm_nvram e (rm_calls w) ''ethConvert'' in
      case mode of None \<Rightarrow> fail NullDeref
      | Some mode \<Rightarrow>
        run_bind (if mode = ''2'' then case ec of None \<Rightarrow> fail NullDeref | Some ec \<Rightarrow> ret (ec \<noteq> ''1'') else ret False) (\<lambda>station.
        if station then run_map (\<lambda>s. (s, w)) (mem_write 0 (text_z ''<station>'') ssid)
        else case rm_do e RmSocket w of (skfd, w) \<Rightarrow>
          if skfd < 0 then ret (ssid, w)
          else
            let name = rm_essid e (rm_calls w) in
            case rm_do e RmEssid w of (r, w) \<Rightarrow>
              if r < 0 then ret (ssid, w)
              else run_map (\<lambda>s. (s, snd (rm_do e (RmClose skfd) w))) (mem_write 0 name ssid)))"

section \<open>Replies\<close>

definition send_reply :: "rm_env \<Rightarrow> u16 \<Rightarrow> byte list \<Rightarrow> ramad \<Rightarrow> ramad run" where
  "send_reply e port h w =
     run_bind (rm_msg_check h) (\<lambda>ok.
     if \<not> ok then ret w
     else run_map (\<lambda>pkt. snd (rm_do e (RmSend port pkt) w)) (mem_read 0 (unat (rd_le32 h)) h))"

text \<open>A TLV is appended to the reply, and what follows is done when that succeeds.\<close>

definition append_then :: "rm_env \<Rightarrow> u32 \<Rightarrow> byte list \<Rightarrow> byte list \<Rightarrow> ramad \<Rightarrow> (byte list \<Rightarrow> ramad run) \<Rightarrow> ramad run" where
  "append_then e ty val h w k = run_bind (rm_append_tlv (rm_alloc e) ty val h) (\<lambda>h. case h of None \<Rightarrow> ret w | Some h \<Rightarrow> k h)"

definition reply_with :: "rm_env \<Rightarrow> u16 \<Rightarrow> u32 \<Rightarrow> byte list \<Rightarrow> byte list \<Rightarrow> ramad \<Rightarrow> ramad run" where
  "reply_with e port ty val h w = append_then e ty val h w (\<lambda>h. send_reply e port h w)"

section \<open>Finding the router\<close>

definition handle_query :: "rm_env \<Rightarrow> u16 \<Rightarrow> ramad \<Rightarrow> ramad run" where
  "handle_query e port w =
     (case get_my_mac e w of (mac, w) \<Rightarrow>
      case get_my_ip e w of (ip, w) \<Rightarrow>
      run_bind (get_ssid e (replicate RM_MAX_SSID_LEN 0) w) (\<lambda>(ssid, w).
      case rm_msg_init (rm_alloc e) RM_INFO of None \<Rightarrow> ret w
      | Some r \<Rightarrow>
        run_bind (tlv_word 16 (rm_h w)) (\<lambda>t.
        if t \<noteq> RM_Q_ALL then ret w
        else
          run_bind (RMT_OK (rm_h w) (int RM_HDR_LEN) (RMM_LEN (rm_h w))) (\<lambda>ok.
          if \<not> ok then ret w
          else
            append_then e RM_I_MAC (case mac of None \<Rightarrow> replicate 6 0 | Some m \<Rightarrow> m) r w (\<lambda>r.
            append_then e RM_I_IP (case ip of None \<Rightarrow> replicate 4 0 | Some a \<Rightarrow> a) r w (\<lambda>r.
            run_bind (c_string ssid) (\<lambda>s.
            reply_with e port RM_I_SSID s r w)))))))"

section \<open>Login\<close>

text \<open>\<open>read\<close> into an array: at most as many bytes as asked for.\<close>

definition read_into :: "rm_env \<Rightarrow> int \<Rightarrow> byte list \<Rightarrow> ramad \<Rightarrow> int \<times> byte list \<times> ramad" where
  "read_into e fd buf w =
     (let c = RmReadRandom fd (length buf); bs = rm_data e c (length buf) w in
      case rm_do e c w of (n, w) \<Rightarrow> (n, store 0 (take (nat n) bs) buf, w))"

definition handle_login :: "rm_env \<Rightarrow> u16 \<Rightarrow> ramad \<Rightarrow> ramad run" where
  "handle_login e port w =
     (case rm_msg_init (rm_alloc e) RM_STATUS of None \<Rightarrow> ret w
      | Some r \<Rightarrow>
        run_bind (tlv_word 16 (rm_h w)) (\<lambda>t.
        if t = RM_L_SID then
          run_bind (RMT_OK (rm_h w) (int RM_HDR_LEN) (RMM_LEN (rm_h w))) (\<lambda>ok.
          run_bind (if ok then run_map Some (tlv_value (int RM_HDR_LEN) 6 (rm_h w)) else ret None) (\<lambda>sid.
          case get_my_mac e w of (mac, w) \<Rightarrow>
          (case (sid, mac) of
             (Some sid, Some mac) \<Rightarrow>
               if sid \<noteq> mac then ret w
               else
                 let r = store 4 (le32 RM_CHALLENGE) r in
                 case rm_do e RmOpenRandom w of (fd, w) \<Rightarrow>
                   if fd = - 1 then ret w
                   else case read_into e fd (rs_nonce w) w of (n, nonce, w) \<Rightarrow>
                     let w = w\<lparr>rs_nonce := nonce\<rparr> in
                     if n = - 1 then ret (snd (rm_do e (RmClose fd) w))
                     else
                       run_bind (rm_append_tlv (rm_alloc e) RM_L_NONCE (rs_nonce w) r) (\<lambda>r.
                       case r of None \<Rightarrow> ret (snd (rm_do e (RmClose fd) w))
                       | Some r \<Rightarrow>
                           run_map (\<lambda>w. snd (rm_do e (RmClose fd) w)) (send_reply e port r (w\<lparr>rs_state := 1\<rparr>)))
           | _ \<Rightarrow> fail UninitRead)))
        else reply_with e port RM_S_UNKNOWN_TLV_TYPE (text_z ''Unknown TLV type'') r (w\<lparr>rs_state := 0\<rparr>)))"

definition handle_passwd :: "rm_env \<Rightarrow> u16 \<Rightarrow> ramad \<Rightarrow> ramad run" where
  "handle_passwd e port w =
     (if rs_state w \<noteq> 1 then ret w
      else case rm_msg_init (rm_alloc e) RM_STATUS of None \<Rightarrow> ret w
      | Some r \<Rightarrow>
        run_bind (tlv_word 16 (rm_h w)) (\<lambda>t.
        if t = RM_L_HASH then
          run_bind (RMT_OK (rm_h w) (int RM_HDR_LEN) (RMM_LEN (rm_h w))) (\<lambda>ok.
          if \<not> ok then ret w
          else
            run_bind (rama_md5_hash (rm_alloc e) (rs_nonce w) (rm_nvram e (rm_calls w) ''Login'') (rm_nvram e (rm_calls w) ''Password'')) (\<lambda>hash.
            case hash of None \<Rightarrow> ret w
            | Some hash \<Rightarrow>
                run_bind (tlv_value (int RM_HDR_LEN) 16 (rm_h w)) (\<lambda>v.
                if hash \<noteq> v then reply_with e port RM_S_WRONG_PW (text_z ''Wrong user name or password'') r w
                else
                  let w = w\<lparr>rs_state := 2\<rparr> in
                  append_then e RM_S_SUCCESS [] r w (\<lambda>r.
                  case rm_do e RmOpenRandom w of (fd, w) \<Rightarrow>
                  case read_into e fd (rs_cid w) w of (n, cid, w) \<Rightarrow>
                  let w = w\<lparr>rs_cid := cid\<rparr> in
                  run_bind (rm_append_tlv (rm_alloc e) RM_I_CID (rs_cid w) r) (\<lambda>r.
                  case r of None \<Rightarrow> ret (snd (rm_do e (RmClose fd) w))
                  | Some r \<Rightarrow> run_map (\<lambda>w. snd (rm_do e (RmClose fd) w)) (send_reply e port r w))))))
        else reply_with e port RM_S_UNKNOWN_TLV_TYPE (text_z ''Unknown TLV type'') r w))"

section \<open>Settings\<close>

text \<open>What the variables of the handlers hold is \<open>None\<close> as long as nothing was copied into them.\<close>

definition set_my_ip :: "rm_env \<Rightarrow> byte list option \<Rightarrow> ramad \<Rightarrow> (int \<times> ramad) run" where
  "set_my_ip e ip w =
     (case rm_do e RmSocket w of (skfd, w) \<Rightarrow>
        if skfd < 0 then ret (- 1, w)
        else case getLanIfName e w of (name, w) \<Rightarrow>
          case ip of None \<Rightarrow> fail UninitRead
          | Some ip \<Rightarrow> (case rm_do e (RmSetAddr name ip) w of (r, w) \<Rightarrow> ret (if r < 0 then - 1 else 0, w)))"

definition renew_bcast_route :: "rm_env \<Rightarrow> ramad \<Rightarrow> ramad" where
  "renew_bcast_route e w =
     (case rm_do e RmSocket w of (skfd, w) \<Rightarrow>
        if skfd = - 1 then w
        else case getLanIfName e w of (name, w) \<Rightarrow> snd (rm_do e (RmAddRoute name) w))"

partial_function (option) set_ip_walk ::
    "byte list \<Rightarrow> int \<Rightarrow> int \<Rightarrow> byte list option \<Rightarrow> byte list option \<Rightarrow> (byte list option \<times> byte list option) run" where
  "set_ip_walk h p len cid ip =
     run_bind (RMT_OK h p len) (\<lambda>ok.
     if \<not> ok then ret (cid, ip)
     else
       run_bind (tlv_word (p + 4) h) (\<lambda>t.
       run_bind (if t = RM_I_CID then run_map (\<lambda>v. (Some v, ip)) (tlv_value p 6 h)
                 else if t = RM_I_IP then run_map (\<lambda>v. (cid, Some v)) (tlv_value p 4 h)
                 else ret (cid, ip)) (\<lambda>(cid, ip).
       run_bind (tlv_word p h) (\<lambda>l. set_ip_walk h (p + sint l) (s32 (len - sint l)) cid ip))))"

text \<open>\<open>g_state.state != 2 || memcmp(g_state.cid, r_cid, 6)\<close>.\<close>

definition not_logged_in :: "byte list option \<Rightarrow> ramad \<Rightarrow> bool run" where
  "not_logged_in cid w =
     (if rs_state w \<noteq> 2 then ret True else case cid of None \<Rightarrow> fail UninitRead | Some cid \<Rightarrow> ret (rs_cid w \<noteq> cid))"

definition handle_set_ip :: "rm_env \<Rightarrow> u16 \<Rightarrow> ramad \<Rightarrow> ramad run" where
  "handle_set_ip e port w =
     (case rm_msg_init (rm_alloc e) RM_STATUS of None \<Rightarrow> ret w
      | Some r \<Rightarrow>
        run_bind (set_ip_walk (rm_h w) (int RM_HDR_LEN) (RMM_LEN (rm_h w)) None None) (\<lambda>(cid, ip).
        run_bind (not_logged_in cid w) (\<lambda>refused.
        if refused then reply_with e port RM_S_UN_LOGIN (text_z ''Please login first'') r w
        else
          run_bind (set_my_ip e ip w) (\<lambda>(err, w).
          if err \<noteq> 0 then reply_with e port RM_S_ERROR (text_z ''Server internal error'') r w
          else reply_with e port RM_S_SUCCESS [] r (renew_bcast_route e w)))))"

partial_function (option) set_ssid_walk ::
    "byte list \<Rightarrow> int \<Rightarrow> int \<Rightarrow> byte list option \<Rightarrow> byte list \<Rightarrow> (byte list option \<times> byte list) run" where
  "set_ssid_walk h p len cid ssid =
     run_bind (RMT_OK h p len) (\<lambda>ok.
     if \<not> ok then ret (cid, ssid)
     else
       run_bind (tlv_word (p + 4) h) (\<lambda>t.
       run_bind (tlv_word p h) (\<lambda>l.
       run_bind (if t = RM_I_CID then run_map (\<lambda>v. (Some v, ssid)) (tlv_value p 6 h)
                 else if t = RM_I_SSID then
                   run_bind (tlv_value p (if l - of_nat RM_TLV_HDR_LEN > 32 then 32 else unat (l - of_nat RM_TLV_HDR_LEN)) h) (\<lambda>v.
                   run_map (Pair cid) (mem_write 0 v ssid))
                 else ret (cid, ssid)) (\<lambda>(cid, ssid).
       set_ssid_walk h (p + sint l) (s32 (len - sint l)) cid ssid))))"

definition set_ssid :: "rm_env \<Rightarrow> byte list \<Rightarrow> ramad \<Rightarrow> (int \<times> ramad) run" where
  "set_ssid e ssid w =
     (case rm_do e RmSocket w of (skfd, w) \<Rightarrow>
        if skfd < 0 then ret (- 1, w)
        else
          run_bind (c_string ssid) (\<lambda>s.
          run_bind (mem_write 0 (text_bytes ''SSID='' @ s @ [0]) (replicate 40 0)) (\<lambda>data.
          run_bind (c_string data) (\<lambda>arg.
          case rm_do e (RmSetEssid arg) w of (r, w) \<Rightarrow>
            if r < 0 then ret (- 1, w) else ret (0, snd (rm_do e (RmClose skfd) w))))))"

definition handle_set_ssid :: "rm_env \<Rightarrow> u16 \<Rightarrow> ramad \<Rightarrow> ramad run" where
  "handle_set_ssid e port w =
     (case rm_msg_init (rm_alloc e) RM_STATUS of None \<Rightarrow> ret w
      | Some r \<Rightarrow>
        run_bind (set_ssid_walk (rm_h w) (int RM_HDR_LEN) (RMM_LEN (rm_h w)) None (replicate 33 0)) (\<lambda>(cid, ssid).
        run_bind (not_logged_in cid w) (\<lambda>refused.
        if refused then reply_with e port RM_S_UN_LOGIN (text_z ''Please login first'') r w
        else
          run_bind (set_ssid e ssid w) (\<lambda>(err, w).
          if err \<noteq> 0 then reply_with e port RM_S_ERROR (text_z ''Server internal error'') r w
          else reply_with e port RM_S_SUCCESS [] r w))))"

section \<open>The loop\<close>

definition rm_init_sock :: "rm_env \<Rightarrow> ramad \<Rightarrow> int \<times> ramad" where
  "rm_init_sock e w =
     (case rm_do e RmSocket w of (skfd, w) \<Rightarrow>
        let w = w\<lparr>rm_skfd := skfd\<rparr> in
        if skfd = - 1 then (- 1, w)
        else case rm_do e (RmBind RM_PORT) w of (r, w) \<Rightarrow>
          if r = - 1 then (- 1, snd (rm_do e (RmClose (rm_skfd w)) w))
          else case rm_do e RmBroadcast w of (r, w) \<Rightarrow>
            if r = - 1 then (- 1, snd (rm_do e (RmClose (rm_skfd w)) w)) else (0, w))"

text \<open>\<open>recvfrom\<close> fills the front of the block; what was there before stays behind it. The lengths that the message states are not compared with
  what was received.\<close>

definition ramad_step :: "rm_env \<Rightarrow> u16 \<Rightarrow> byte list \<Rightarrow> ramad \<Rightarrow> ramad run" where
  "ramad_step e port pkt w =
     (let w = w\<lparr>rm_h := store 0 (take RM_MAX_MSG_LEN pkt) (rm_h w)\<rparr> in
      run_bind (rm_msg_check (rm_h w)) (\<lambda>ok.
      if \<not> ok then ret w
      else
        run_bind (mem_read 4 4 (rm_h w)) (\<lambda>b.
        let ty = rd_le32 b in
        if ty = RM_QUERY then handle_query e port w
        else if ty = RM_LOGIN then handle_login e port w
        else if ty = RM_PASSWD then handle_passwd e port w
        else if ty = RM_SET_IP then handle_set_ip e port w
        else if ty = RM_SET_SSID then handle_set_ssid e port w
        else ret w)))"

text \<open>The loop of \<open>ramad_start\<close> over the packets until \<open>recvfrom\<close> fails; \<open>junk\<close> is what the block from \<open>malloc\<close> holds.\<close>

fun ramad_loop :: "rm_env \<Rightarrow> (u16 \<times> byte list) list \<Rightarrow> ramad \<Rightarrow> ramad run" where
  "ramad_loop e [] w = ret w"
| "ramad_loop e ((port, pkt) # ps) w = run_bind (ramad_step e port pkt w) (ramad_loop e ps)"

definition ramad_init :: "rm_env \<Rightarrow> byte list \<Rightarrow> ramad \<Rightarrow> ramad run" where
  "ramad_init e junk w =
     (case rm_init_sock e w of (r, w) \<Rightarrow>
        if r \<noteq> 0 then fail ProcessExit
        else if \<not> rm_alloc e RM_MAX_MSG_LEN then fail ProcessExit
        else ret (w\<lparr>rm_h := junk\<rparr>))"

definition ramad_start :: "rm_env \<Rightarrow> byte list \<Rightarrow> (u16 \<times> byte list) list \<Rightarrow> ramad \<Rightarrow> ramad run" where
  "ramad_start e junk ps w =
     run_bind (ramad_init e junk w) (\<lambda>w. run_map (\<lambda>w. snd (rm_do e (RmClose (rm_skfd w)) w)) (ramad_loop e ps w))"

text \<open>The global variables at the start of the program.\<close>

definition ramad_zero :: ramad where
  "ramad_zero = \<lparr>rs_state = 0, rs_nonce = replicate RM_NONCE_LEN 0, rs_cid = replicate 6 0, rm_skfd = 0, rm_h = [], lan_if_name = ''br0'', rm_calls = []\<rparr>"

end
