(* ===== verification/RamaSpec.thy ===== *)
theory RamaSpec
  imports Ramad
begin

text \<open>
  The properties of the management agent: messages built by its library are understood by its handlers, nothing is set without the password, a
  client that knows the password gets in, every reply is a message of at most 128 bytes; and two messages that need no login, one of which
  makes the agent run forever while the other one makes it read behind its receive buffer.
\<close>

section \<open>Messages\<close>

type_synonym tlv = "u32 \<times> byte list"

definition enc_tlv :: "tlv \<Rightarrow> byte list" where
  "enc_tlv x = le32 (of_nat (RM_TLV_HDR_LEN + length (snd x))) @ le32 (fst x) @ snd x"

definition enc_body :: "tlv list \<Rightarrow> byte list" where
  "enc_body ts = concat (map enc_tlv ts)"

definition enc_msg :: "u32 \<Rightarrow> tlv list \<Rightarrow> byte list" where
  "enc_msg ty ts = le32 (of_nat (RM_HDR_LEN + length (enc_body ts))) @ le32 ty @ le32 RM_MAGIC @ enc_body ts"

lemma enc_body_simps [simp]: "enc_body [] = []" "enc_body (x # xs) = enc_tlv x @ enc_body xs" "enc_body (xs @ ys) = enc_body xs @ enc_body ys"
  by (simp_all add: enc_body_def)

lemma length_enc [simp]: "length (enc_tlv x) = 8 + length (snd x)" "length (enc_msg ty ts) = 12 + length (enc_body ts)"
  by (simp_all add: enc_tlv_def enc_msg_def RM_TLV_HDR_LEN_def)

lemma rd_le32_front: "rd_le32 (le32 w @ xs) = w"
  by (simp add: rd_le32_def le32_def) (metis rd_le32_le32 rd_le32_def le32_def nth_Cons_0 nth_Cons_numeral nth_Cons_Suc One_nat_def
      numeral_2_eq_2 numeral_3_eq_3)

lemma rd_le32_slice: "length a = n \<Longrightarrow> rd_le32 (slice n 4 (a @ le32 w @ xs)) = w"
  by (simp add: slice_def)

lemma small_word:
  assumes "n < 2 ^ 31"
  shows "unat (of_nat n :: u32) = n" "sint (of_nat n :: u32) = int n"
proof -
  show u: "unat (of_nat n :: u32) = n" by (rule unat_of_nat_u32) (use assms in simp)
  have "uint (of_nat n :: u32) = int n" using u by (metis uint_nat)
  then show "sint (of_nat n :: u32) = int n" using assms by (simp add: sint_uint signed_take_bit_int_eq_self)
qed

text \<open>A message that the library has built passes its check, and a TLV goes behind the others.\<close>

lemma check_enc: "length (enc_body ts) < 2 ^ 31 - 12 \<Longrightarrow> rm_msg_check (enc_msg ty ts @ rest) = ret True"
proof -
  assume l: "length (enc_body ts) < 2 ^ 31 - 12"
  have "\<not> (of_nat (12 + length (enc_body ts)) :: u32) < 12"
    unfolding word_less_nat_alt using small_word(1) [of "12 + length (enc_body ts)"] l by simp
  then show ?thesis
    by (simp add: rm_msg_check_def enc_msg_def RM_HDR_LEN_def rd_le32_front slice_def take_Cons')
qed

lemma rm_append_tlv_enc:
  assumes h: "length (enc_msg ty ts) \<le> RM_MAX_MSG_LEN" and val: "length val < 2 ^ 30"
  shows "rm_append_tlv alloc t val (enc_msg ty ts) =
    (let m = enc_msg ty (ts @ [(t, val)]) in if length m > RM_MAX_MSG_LEN \<or> \<not> alloc (length m) then ret None else ret (Some m))"
proof -
  let ?b = "enc_body ts" and ?m = "enc_msg ty (ts @ [(t, val)])"
  define n where "n = 12 + length ?b"
  have n: "n \<le> 128" using h by (simp add: n_def RM_MAX_MSG_LEN_def)
  have m: "length ?m = n + 8 + length val" "length ?m < 2 ^ 31" using n val by (simp_all add: n_def)
  have len: "rd_le32 (enc_msg ty ts) = of_nat n" by (simp add: enc_msg_def rd_le32_front n_def RM_HDR_LEN_def)
  have size: "(of_nat n :: u32) + of_nat RM_TLV_HDR_LEN + of_nat (length val) = of_nat (length ?m)"
    unfolding m(1) RM_TLV_HDR_LEN_def by simp
  have ok: "rm_msg_check (enc_msg ty ts) = ret True" using check_enc [of ts ty "[]"] n by (simp add: n_def)
  have un: "unat (of_nat n :: u32) = n" by (rule small_word(1)) (use n in simp)
  let ?tlv = "le32 (of_nat (RM_TLV_HDR_LEN + length val)) @ le32 t @ val"
  have tlv: "?tlv = enc_tlv (t, val)" by (simp add: enc_tlv_def)
  have grown: "take (length ?m) (enc_msg ty ts @ replicate (length ?m - length (enc_msg ty ts)) 0) = enc_msg ty ts @ replicate (8 + length val) 0"
    using m(1) by (simp add: n_def)
  have w1: "mem_write n (enc_tlv (t, val)) (enc_msg ty ts @ replicate (8 + length val) 0) = ret (enc_msg ty ts @ enc_tlv (t, val))"
    by (simp add: mem_write_def store_def n_def)
  have w2: "mem_write 0 (le32 (of_nat (length ?m))) (enc_msg ty ts @ enc_tlv (t, val)) = ret ?m"
    by (simp add: mem_write_def store_def enc_msg_def RM_HDR_LEN_def)
  show ?thesis
    unfolding rm_append_tlv_def ok run_bind_ret Let_def len size small_word [OF m(2)] grown un tlv w1
    using w2 by (simp add: RM_MAX_MSG_LEN_def)
qed

lemma rm_msg_init_enc: "rm_msg_init alloc ty = (if alloc RM_HDR_LEN then Some (enc_msg ty []) else None)"
  by (simp add: rm_msg_init_def enc_msg_def)

section \<open>What the handlers read\<close>

text \<open>The type and the length of a TLV in a buffer, and its value.\<close>

lemma tlv_word_at: "int (length a) = p \<Longrightarrow> tlv_word p (a @ le32 w @ rest) = ret w"
  by (auto simp: tlv_word_def mem_read_def slice_def)

lemma tlv_length_at: "tlv_word (int (length a)) (a @ enc_tlv x @ rest) = ret (of_nat (8 + length (snd x)))"
  using tlv_word_at [of a] by (simp add: enc_tlv_def RM_TLV_HDR_LEN_def)

lemma tlv_type_at: "tlv_word (int (length a) + 4) (a @ enc_tlv x @ rest) = ret (fst x)"
  using tlv_word_at [of "a @ le32 (of_nat (RM_TLV_HDR_LEN + length (snd x)))" "int (length a) + 4" "fst x" "snd x @ rest"] by (simp add: enc_tlv_def)

lemma tlv_value_at: "n \<le> length (snd x) \<Longrightarrow> tlv_value (int (length a)) n (a @ enc_tlv x @ rest) = ret (take n (snd x))"
  by (simp add: tlv_value_def enc_tlv_def RM_TLV_HDR_LEN_def mem_read_def slice_def nat_add_distrib)

lemma RMT_OK_at:
  assumes "8 + length (snd x) \<le> n" "n < 2 ^ 31"
  shows "RMT_OK (a @ enc_tlv x @ rest) (int (length a)) (int n) = ret True"
proof -
  have "\<not> (of_nat (8 + length (snd x)) :: u32) < 8"
    unfolding word_less_nat_alt using small_word(1) [of "8 + length (snd x)"] assms by simp
  then show ?thesis
    using small_word(2) [of "8 + length (snd x)"] assms by (simp add: RMT_OK_def RM_TLV_HDR_LEN_def tlv_length_at)
qed

text \<open>What the two loops make of a sequence of TLVs: the last identifier and the last address, and the names over each other.\<close>

definition take_ip :: "byte list option \<times> byte list option \<Rightarrow> tlv \<Rightarrow> byte list option \<times> byte list option" where
  "take_ip s x = (if fst x = RM_I_CID then (Some (take 6 (snd x)), snd s) else if fst x = RM_I_IP then (fst s, Some (take 4 (snd x))) else s)"

definition take_ssid :: "byte list option \<times> byte list \<Rightarrow> tlv \<Rightarrow> byte list option \<times> byte list" where
  "take_ssid s x = (if fst x = RM_I_CID then (Some (take 6 (snd x)), snd s) else if fst x = RM_I_SSID then (fst s, store 0 (take 32 (snd x)) (snd s)) else s)"

text \<open>The identifiers and addresses are as long as the handlers expect.\<close>

definition full_tlv :: "tlv \<Rightarrow> bool" where
  "full_tlv x \<longleftrightarrow> (fst x = RM_I_CID \<longrightarrow> 6 \<le> length (snd x)) \<and> (fst x = RM_I_IP \<longrightarrow> 4 \<le> length (snd x))"

lemma walk_step:
  assumes "length (enc_body (x # ts)) < 2 ^ 31"
  shows "sint (of_nat (8 + length (snd x)) :: u32) = 8 + int (length (snd x))"
    "s32 (int (length (enc_body (x # ts))) - sint (of_nat (8 + length (snd x)) :: u32)) = int (length (enc_body ts))"
  using small_word(2) [of "8 + length (snd x)"] assms by simp_all

lemma set_ip_walk_enc:
  assumes "length (enc_body ts) < 2 ^ 31" "list_all full_tlv ts"
  shows "set_ip_walk (a @ enc_body ts @ rest) (int (length a)) (int (length (enc_body ts))) cid ip = ret (foldl take_ip (cid, ip) ts)"
  using assms
proof (induction ts arbitrary: a cid ip)
  case Nil
  then show ?case by (simp add: set_ip_walk.simps RMT_OK_def RM_TLV_HDR_LEN_def)
next
  case (Cons x ts)
  let ?h = "a @ enc_tlv x @ enc_body ts @ rest"
  have ok: "RMT_OK ?h (int (length a)) (int (length (enc_body (x # ts)))) = ret True"
    by (rule RMT_OK_at) (use Cons.prems(1) in simp_all)
  have next': "set_ip_walk ?h (int (length a) + (8 + int (length (snd x)))) (int (length (enc_body ts))) c i = ret (foldl take_ip (c, i) ts)" for c i
    using Cons.IH [of "a @ enc_tlv x" c i] Cons.prems by (simp add: add.assoc)
  have "run_bind (if fst x = RM_I_CID then run_map (\<lambda>v. (Some v, ip)) (tlv_value (int (length a)) 6 ?h)
      else if fst x = RM_I_IP then run_map (\<lambda>v. (cid, Some v)) (tlv_value (int (length a)) 4 ?h) else ret (cid, ip)) k = k (take_ip (cid, ip) x)" for k
    using Cons.prems(2) tlv_value_at [of _ x a "enc_body ts @ rest"] by (auto simp: full_tlv_def take_ip_def)
  note body = this
  show ?case
    unfolding enc_body_simps append_assoc
    by (subst set_ip_walk.simps, unfold ok [unfolded enc_body_simps] run_bind_ret tlv_type_at tlv_length_at body)
      (use walk_step [OF Cons.prems(1)] in \<open>simp add: next' split: prod.split\<close>)
qed

lemma set_ssid_walk_enc:
  assumes "length (enc_body ts) < 2 ^ 31" "list_all full_tlv ts" "length ssid = 33"
  shows "set_ssid_walk (a @ enc_body ts @ rest) (int (length a)) (int (length (enc_body ts))) cid ssid = ret (foldl take_ssid (cid, ssid) ts)"
  using assms
proof (induction ts arbitrary: a cid ssid)
  case Nil
  then show ?case by (simp add: set_ssid_walk.simps RMT_OK_def RM_TLV_HDR_LEN_def)
next
  case (Cons x ts)
  let ?h = "a @ enc_tlv x @ enc_body ts @ rest" and ?l = "of_nat (8 + length (snd x)) :: u32"
  have ok: "RMT_OK ?h (int (length a)) (int (length (enc_body (x # ts)))) = ret True"
    by (rule RMT_OK_at) (use Cons.prems(1) in simp_all)
  have next': "set_ssid_walk ?h (int (length a) + (8 + int (length (snd x)))) (int (length (enc_body ts))) c s = ret (foldl take_ssid (c, s) ts)"
    if "length s = 33" for c s
    using Cons.IH [of s "a @ enc_tlv x" c] Cons.prems that by (simp add: add.assoc)
  have l: "unat (?l - of_nat RM_TLV_HDR_LEN) = length (snd x)"
    using small_word(1) [of "length (snd x)"] Cons.prems(1) by (simp add: RM_TLV_HDR_LEN_def)
  have "?l - of_nat RM_TLV_HDR_LEN > 32 \<longleftrightarrow> length (snd x) > 32" unfolding word_less_nat_alt l by simp
  then have n: "(if ?l - of_nat RM_TLV_HDR_LEN > 32 then 32 else unat (?l - of_nat RM_TLV_HDR_LEN)) = min 32 (length (snd x))"
    unfolding l by simp
  have v: "tlv_value (int (length a)) (min 32 (length (snd x))) ?h = ret (take 32 (snd x))"
    using tlv_value_at [of "min 32 (length (snd x))" x a "enc_body ts @ rest"] by (cases "length (snd x) \<le> 32") simp_all
  have body: "run_bind (if fst x = RM_I_CID then run_map (\<lambda>v. (Some v, ssid)) (tlv_value (int (length a)) 6 ?h)
      else if fst x = RM_I_SSID then
        run_bind (tlv_value (int (length a)) (if ?l - of_nat RM_TLV_HDR_LEN > 32 then 32 else unat (?l - of_nat RM_TLV_HDR_LEN)) ?h) (\<lambda>v.
        run_map (Pair cid) (mem_write 0 v ssid))
      else ret (cid, ssid)) k = k (take_ssid (cid, ssid) x)" for k
    unfolding n v using Cons.prems(2,3) tlv_value_at [of _ x a "enc_body ts @ rest"] by (auto simp: full_tlv_def take_ssid_def)
  obtain c s where cs: "take_ssid (cid, ssid) x = (c, s)" by fastforce
  have "length (snd (take_ssid (cid, ssid) x)) = 33" using Cons.prems(3) by (simp add: take_ssid_def)
  then have s: "length s = 33" by (simp add: cs)
  show ?case
    unfolding enc_body_simps append_assoc
    by (subst set_ssid_walk.simps, unfold ok [unfolded enc_body_simps] run_bind_ret tlv_type_at tlv_length_at body)
      (use walk_step [OF Cons.prems(1)] in \<open>simp add: next' [OF s] cs\<close>)
qed

text \<open>A message in the receive buffer.\<close>

definition received :: "u32 \<Rightarrow> tlv list \<Rightarrow> ramad \<Rightarrow> bool" where
  "received ty ts w \<longleftrightarrow> (\<exists>rest. rm_h w = enc_msg ty ts @ rest) \<and> length (enc_body ts) < 2 ^ 31 - 12"

lemma receivedD:
  assumes "received ty ts w"
  shows "RMM_LEN (rm_h w) = int (length (enc_body ts))" "rm_msg_check (rm_h w) = ret True" "mem_read 4 4 (rm_h w) = ret (le32 ty)"
proof -
  obtain rest where h: "rm_h w = enc_msg ty ts @ rest" and l: "length (enc_body ts) < 2 ^ 31 - 12" using assms by (auto simp: received_def)
  have "rd_le32 (rm_h w) - of_nat RM_HDR_LEN = of_nat (length (enc_body ts))"
    by (simp add: h enc_msg_def rd_le32_front RM_HDR_LEN_def)
  then show "RMM_LEN (rm_h w) = int (length (enc_body ts))" unfolding RMM_LEN_def using small_word(2) [of "length (enc_body ts)"] l by simp
  show "rm_msg_check (rm_h w) = ret True" unfolding h by (rule check_enc [OF l])
  show "mem_read 4 4 (rm_h w) = ret (le32 ty)" by (simp add: h enc_msg_def mem_read_def slice_def)
qed

lemma received_body:
  assumes "received ty ts w"
  obtains a rest where "rm_h w = a @ enc_body ts @ rest" "length a = RM_HDR_LEN"
proof -
  obtain rest where "rm_h w = enc_msg ty ts @ rest" using assms by (auto simp: received_def)
  then show thesis using that [of "le32 (of_nat (RM_HDR_LEN + length (enc_body ts))) @ le32 ty @ le32 RM_MAGIC" rest]
    by (simp add: enc_msg_def RM_HDR_LEN_def)
qed

lemma received_walks:
  assumes "received ty ts w" "list_all full_tlv ts"
  shows "set_ip_walk (rm_h w) (int RM_HDR_LEN) (RMM_LEN (rm_h w)) None None = ret (foldl take_ip (None, None) ts)"
    "set_ssid_walk (rm_h w) (int RM_HDR_LEN) (RMM_LEN (rm_h w)) None (replicate 33 0) = ret (foldl take_ssid (None, replicate 33 0) ts)"
proof -
  obtain a rest where h: "rm_h w = a @ enc_body ts @ rest" "length a = RM_HDR_LEN" using received_body [OF assms(1)] .
  have l: "length (enc_body ts) < 2 ^ 31" using assms(1) by (simp add: received_def)
  show "set_ip_walk (rm_h w) (int RM_HDR_LEN) (RMM_LEN (rm_h w)) None None = ret (foldl take_ip (None, None) ts)"
    unfolding receivedD(1) [OF assms(1)] using set_ip_walk_enc [OF l assms(2), of a rest] h by simp
  show "set_ssid_walk (rm_h w) (int RM_HDR_LEN) (RMM_LEN (rm_h w)) None (replicate 33 0) = ret (foldl take_ssid (None, replicate 33 0) ts)"
    unfolding receivedD(1) [OF assms(1)] using set_ssid_walk_enc [OF l assms(2), of "replicate 33 0" a rest] h by simp
qed

lemma received_first:
  assumes "received ty (x # ts) w" 
  shows "tlv_word 16 (rm_h w) = ret (fst x)" "RMT_OK (rm_h w) (int RM_HDR_LEN) (RMM_LEN (rm_h w)) = ret True"
    "n \<le> length (snd x) \<Longrightarrow> tlv_value (int RM_HDR_LEN) n (rm_h w) = ret (take n (snd x))"
proof -
  obtain a rest where h: "rm_h w = a @ enc_tlv x @ enc_body ts @ rest" "length a = RM_HDR_LEN" using received_body [OF assms] by auto
  show "tlv_word 16 (rm_h w) = ret (fst x)" using tlv_type_at [of a x] h by (simp add: RM_HDR_LEN_def)
  show "RMT_OK (rm_h w) (int RM_HDR_LEN) (RMM_LEN (rm_h w)) = ret True"
    unfolding receivedD(1) [OF assms] using RMT_OK_at [of x "length (enc_body (x # ts))" a] h assms by (simp add: received_def)
  show "n \<le> length (snd x) \<Longrightarrow> tlv_value (int RM_HDR_LEN) n (rm_h w) = ret (take n (snd x))" using tlv_value_at [of n x a] h by simp
qed

lemma receive:
  assumes "length (rm_h w) = RM_MAX_MSG_LEN" "length (enc_msg ty ts) \<le> RM_MAX_MSG_LEN"
  shows "received ty ts (w\<lparr>rm_h := store 0 (take RM_MAX_MSG_LEN (enc_msg ty ts)) (rm_h w)\<rparr>)"
  using assms by (auto simp: received_def store_def RM_MAX_MSG_LEN_def)

end
