(* ===== verification/RamaInv.thy ===== *)
theory RamaInv
  imports RamaSpec
begin

text \<open>
  What the management agent never does: nothing is set without the password, and nothing is sent that is not a message. Each handler is
  described by what it adds to the log of calls and by what it may do to the state of the login.
\<close>

section \<open>The log\<close>

text \<open>A reply as the library builds it, and the calls an agent may make; \<open>s\<close> says whether it may change settings.\<close>

definition is_reply :: "byte list \<Rightarrow> bool" where
  "is_reply h \<longleftrightarrow> (\<exists>ty ts. h = enc_msg ty ts) \<and> length h \<le> RM_MAX_MSG_LEN"

fun proper :: "bool \<Rightarrow> rm_call \<Rightarrow> bool" where
  "proper s (RmSend port h) = is_reply h"
| "proper s (RmSetAddr name ip) = s"
| "proper s (RmSetEssid ssid) = s"
| "proper s c = True"

text \<open>\<open>w'\<close> is \<open>w\<close> after some calls and, possibly, after the name of the interface was read again.\<close>

definition talk :: "bool \<Rightarrow> ramad \<Rightarrow> ramad \<Rightarrow> bool" where
  "talk s w w' \<longleftrightarrow> (\<exists>n cs. w' = w\<lparr>lan_if_name := n, rm_calls := rm_calls w @ cs\<rparr> \<and> list_all (proper s) cs)"

lemma talk_refl [simp, intro]: "talk s w w"
  unfolding talk_def by (rule exI [of _ "lan_if_name w"], rule exI [of _ "[]"]) simp

lemma talk_trans [trans]: "talk s w v \<Longrightarrow> talk s v u \<Longrightarrow> talk s w u"
proof -
  assume "talk s w v" "talk s v u"
  then obtain n cs m ds where "v = w\<lparr>lan_if_name := n, rm_calls := rm_calls w @ cs\<rparr>" "list_all (proper s) cs"
    "u = v\<lparr>lan_if_name := m, rm_calls := rm_calls v @ ds\<rparr>" "list_all (proper s) ds" unfolding talk_def by blast
  then have "u = w\<lparr>lan_if_name := m, rm_calls := rm_calls w @ cs @ ds\<rparr>" "list_all (proper s) (cs @ ds)" by simp_all
  then show ?thesis unfolding talk_def by blast
qed

lemma talk_keeps:
  assumes "talk s w w'"
  shows "rs_state w' = rs_state w" "rs_nonce w' = rs_nonce w" "rs_cid w' = rs_cid w" "rm_h w' = rm_h w"
    "\<exists>cs. rm_calls w' = rm_calls w @ cs \<and> list_all (proper s) cs"
  using assms by (auto simp: talk_def)

lemma talk_do: "proper s c \<Longrightarrow> talk s w (snd (rm_do e c w))"
  unfolding talk_def by (rule exI [of _ "lan_if_name w"], rule exI [of _ "[c]"]) (simp add: rm_do_def)

lemma talk_do' [dest]: "rm_do e c w = (r, w') \<Longrightarrow> proper s c \<Longrightarrow> talk s w w'"
  using talk_do [of s c w e] by simp

lemma talk_name: "talk s w (snd (getLanIfName e w))"
proof -
  have "talk s w (w\<lparr>lan_if_name := n\<rparr>)" for n
    unfolding talk_def by (rule exI [of _ n], rule exI [of _ "[]"]) simp
  then show ?thesis by (simp add: getLanIfName_def Let_def split: option.split)
qed

lemma talk_ask:
  assumes "\<And>n. proper s (c n)"
  shows "talk s w (snd (ask_if e c n w))"
proof -
  obtain k w1 where 1: "rm_do e RmSocket w = (k, w1)" by fastforce
  obtain name w2 where 2: "getLanIfName e w1 = (name, w2)" by fastforce
  obtain r w3 where 3: "rm_do e (c name) w2 = (r, w3)" by fastforce
  have a: "talk s w w1" using 1 by (rule talk_do') simp
  have b: "talk s w1 w2" using talk_name [of s w1 e] 2 by simp
  have c: "talk s w2 w3" using 3 assms by (rule talk_do')
  have d: "talk s w3 (snd (rm_do e (RmClose k) w3))" by (rule talk_do) simp
  note ac = talk_trans [OF talk_trans [OF a b] c]
  show ?thesis using a ac talk_trans [OF ac d] by (simp add: ask_if_def Let_def 1 2 3)
qed

lemma talk_mac: "talk s w (snd (get_my_mac e w))" and talk_ip: "talk s w (snd (get_my_ip e w))"
  by (simp_all add: get_my_mac_def get_my_ip_def talk_ask)

lemma talk_then: "yields m (talk s w) \<Longrightarrow> (\<And>v. talk s w v \<Longrightarrow> yields (f v) P) \<Longrightarrow> yields (run_bind m f) P"
  by (rule yields_then)

lemma talk_ssid:
  "yields (get_ssid e buf w) (\<lambda>(ssid, v). talk s w v \<and> length ssid = length buf)"
proof -
  obtain k w1 where 1: "rm_do e RmSocket w = (k, w1)" by fastforce
  obtain r w2 where 2: "rm_do e RmEssid w1 = (r, w2)" by fastforce
  have a: "talk s w w1" using 1 by (rule talk_do') simp
  have "talk s w1 w2" using 2 by (rule talk_do') simp
  with a have b: "talk s w w2" by (rule talk_trans)
  have c: "talk s w (snd (rm_do e (RmClose k) w2))" using b talk_do [of s "RmClose k" w2 e] by (auto intro: talk_trans)
  have wr: "yields (mem_write 0 xs buf) (\<lambda>b. length b = length buf)" for xs by (simp add: mem_write_def)
  show ?thesis
    by (auto simp: get_ssid_def Let_def 1 2 a b c yields_bind yields_map intro!: yields_mono [OF wr] split: option.split)
qed

section \<open>Replies\<close>

lemma talk_send:
  assumes "is_reply h"
  shows "yields (send_reply e port h w) (talk s w)"
proof -
  obtain ty ts where h: "h = enc_msg ty ts" and l: "length h \<le> RM_MAX_MSG_LEN" using assms by (auto simp: is_reply_def)
  have b: "length (enc_body ts) < 2 ^ 31 - 12" using l by (simp add: h RM_MAX_MSG_LEN_def)
  have "unat (rd_le32 h) = length h"
    using small_word(1) [of "12 + length (enc_body ts)"] b by (simp add: h enc_msg_def rd_le32_front RM_HDR_LEN_def)
  then show ?thesis
    using check_enc [OF b, of ty "[]"] assms by (simp add: send_reply_def h [symmetric] talk_do)
qed

lemma is_reply_init: "rm_msg_init alloc ty = Some r \<Longrightarrow> is_reply r"
  by (auto simp: rm_msg_init_enc is_reply_def RM_MAX_MSG_LEN_def split: if_splits)

lemma is_reply_append:
  assumes "is_reply h" "length val < 2 ^ 30"
  shows "yields (rm_append_tlv alloc t val h) (\<lambda>r. \<forall>h. r = Some h \<longrightarrow> is_reply h)"
proof -
  obtain ty ts where h: "h = enc_msg ty ts" and l: "length h \<le> RM_MAX_MSG_LEN" using assms(1) by (auto simp: is_reply_def)
  show ?thesis
    unfolding h rm_append_tlv_enc [OF l [unfolded h] assms(2)] Let_def
    by (auto simp: is_reply_def simp del: length_enc)
qed

text \<open>What is done with a longer reply, or the state as it is.\<close>

lemma append_then_yields:
  assumes "is_reply h" "length val < 2 ^ 30" "P w" "\<And>h. is_reply h \<Longrightarrow> yields (k h) P"
  shows "yields (append_then e t val h w k) P"
  unfolding append_then_def
  by (rule yields_then [OF is_reply_append [OF assms(1,2)]]) (simp add: assms(3,4) split: option.split)

lemma reply_yields:
  assumes "is_reply h" "length val < 2 ^ 30"
  shows "yields (reply_with e port t val h w) (talk s w)"
  unfolding reply_with_def by (rule append_then_yields [OF assms]) (simp_all add: talk_send)

lemma text_short: "length (text_z s) = length s + 1"
  by (simp add: text_z_def text_bytes_def)

section \<open>The handlers\<close>

lemma c_string_short: "yields (c_string s) (\<lambda>t. length t \<le> length s)"
  by (simp add: c_string_def length_takeWhile_le)

lemma info_talks:
  assumes "is_reply r" "length m < 2 ^ 30" "length a < 2 ^ 30" "length ssid < 2 ^ 30" "talk s w v"
  shows "yields (append_then e RM_I_MAC m r v (\<lambda>r. append_then e RM_I_IP a r v (\<lambda>r.
      run_bind (c_string ssid) (\<lambda>s. reply_with e port RM_I_SSID s r v)))) (talk s w)"
proof (rule append_then_yields [where P = "talk s w", OF assms(1,2,5)], rule append_then_yields [where P = "talk s w", OF _ assms(3,5)], assumption)
  fix r :: "byte list"
  assume r: "is_reply r"
  show "yields (run_bind (c_string ssid) (\<lambda>s. reply_with e port RM_I_SSID s r v)) (talk s w)"
    by (rule yields_then [OF c_string_short], rule yields_mono [OF reply_yields [OF r]]) (use assms(4,5) in \<open>auto intro: talk_trans\<close>)
qed

lemma query_talks: "yields (handle_query e port w) (talk s w)"
proof -
  obtain mac w1 where 1: "get_my_mac e w = (mac, w1)" by fastforce
  obtain ip w2 where 2: "get_my_ip e w1 = (ip, w2)" by fastforce
  have "talk s w w1" "talk s w1 w2" using talk_mac [of s w e] talk_ip [of s w1 e] 1 2 by simp_all
  then have w2: "talk s w w2" by (rule talk_trans)
  have mac: "\<And>m. mac = Some m \<Longrightarrow> length m = 6" using 1
    by (auto simp: get_my_mac_def ask_if_def rm_data_def Let_def split: prod.splits if_splits)
  have ip: "\<And>a. ip = Some a \<Longrightarrow> length a = 4" using 2
    by (auto simp: get_my_ip_def ask_if_def rm_data_def Let_def split: prod.splits if_splits)
  have ss: "yields (get_ssid e (replicate RM_MAX_SSID_LEN 0) w2) (\<lambda>(ssid, v). talk s w v \<and> length ssid = 32)"
    by (rule yields_mono [OF talk_ssid [of e "replicate RM_MAX_SSID_LEN 0" w2 s]]) (auto simp: RM_MAX_SSID_LEN_def intro: talk_trans [OF w2])
  show ?thesis
    unfolding handle_query_def 1 2 prod.case
  proof (rule yields_then [OF ss], clarify)
    fix ssid v
    assume v: "talk s w v" and ssid: "length (ssid :: byte list) = 32"
    then show "yields (case rm_msg_init (rm_alloc e) RM_INFO of None \<Rightarrow> ret v
      | Some r \<Rightarrow>
        run_bind (tlv_word 16 (rm_h v)) (\<lambda>t.
        if t \<noteq> RM_Q_ALL then ret v
        else
          run_bind (RMT_OK (rm_h v) (int RM_HDR_LEN) (RMM_LEN (rm_h v))) (\<lambda>ok.
          if \<not> ok then ret v
          else
            append_then e RM_I_MAC (case mac of None \<Rightarrow> replicate 6 0 | Some m \<Rightarrow> m) r v (\<lambda>r.
            append_then e RM_I_IP (case ip of None \<Rightarrow> replicate 4 0 | Some a \<Rightarrow> a) r v (\<lambda>r.
            run_bind (c_string ssid) (\<lambda>s.
            reply_with e port RM_I_SSID s r v)))))) (talk s w)"
      by (auto simp: is_reply_init mac ip intro!: yields_run_any info_talks split: option.split)
  qed
qed

text \<open>Random bytes go where as many were.\<close>

lemma read_into_talks:
  assumes "read_into e fd buf w = (n, buf', w')"
  shows "talk s w w'" "length buf' = length buf"
  using assms by (auto simp: read_into_def Let_def rm_data_def store_def split: prod.splits dest: talk_do')

text \<open>The three that refuse with a text.\<close>

lemma refuse_talks: "rm_msg_init alloc ty = Some r \<Longrightarrow> length t < 2 ^ 20 \<Longrightarrow> yields (reply_with e port err (text_z t) r w) (talk s w)"
  by (rule reply_yields [OF is_reply_init]) (simp_all add: text_short)

definition same_lengths :: "ramad \<Rightarrow> ramad \<Rightarrow> bool" where
  "same_lengths w w' \<longleftrightarrow> length (rs_nonce w') = length (rs_nonce w) \<and> length (rs_cid w') = length (rs_cid w) \<and> length (rm_h w') = length (rm_h w)"

text \<open>What a handler that never logs anybody in does.\<close>

definition gains :: "bool \<Rightarrow> ramad \<Rightarrow> ramad \<Rightarrow> bool" where
  "gains s w w' \<longleftrightarrow> same_lengths w w' \<and> (\<exists>cs. rm_calls w' = rm_calls w @ cs \<and> list_all (proper s) cs)"

lemma gains_trans: "gains s w v \<Longrightarrow> gains s v u \<Longrightarrow> gains s w u"
  by (auto simp: gains_def same_lengths_def)

lemma talk_gains: "talk s w v \<Longrightarrow> gains s w v"
  using talk_keeps [of s w v] by (auto simp: gains_def same_lengths_def)

text \<open>A handler that leaves the state of the login alone or leaves it behind.\<close>

definition calm :: "bool \<Rightarrow> ramad \<Rightarrow> ramad \<Rightarrow> bool" where
  "calm s w w' \<longleftrightarrow> gains s w w' \<and> (rs_state w' = 2 \<longrightarrow> rs_state w = 2)"

lemma calm_trans [trans]: "calm s w v \<Longrightarrow> calm s v u \<Longrightarrow> calm s w u"
  by (auto simp: calm_def intro: gains_trans)

lemma talk_calm: "talk s w v \<Longrightarrow> calm s w v"
  using talk_gains [of s w v] talk_keeps(1) [of s w v] by (simp add: calm_def)

lemma calm_refl [simp, intro]: "calm s w w"
  by (rule talk_calm) simp

lemma calm_do: "calm s w v \<Longrightarrow> proper s c \<Longrightarrow> calm s w (snd (rm_do e c v))"
  by (rule calm_trans [OF _ talk_calm [OF talk_do]])

lemma calm_state: "calm s w (w\<lparr>rs_state := n\<rparr>)" if "n \<noteq> 2"
  using that by (simp add: calm_def gains_def same_lengths_def)

lemma calm_nonce: "length nonce = length (rs_nonce w) \<Longrightarrow> calm s w (w\<lparr>rs_nonce := nonce\<rparr>)"
  by (simp add: calm_def gains_def same_lengths_def)

lemma calm_cid: "length cid = length (rs_cid w) \<Longrightarrow> gains s w (w\<lparr>rs_cid := cid\<rparr>)"
  by (simp add: gains_def same_lengths_def)

lemma retyped: "rm_msg_init alloc ty = Some r \<Longrightarrow> is_reply (store 4 (le32 t) r)"
  using is_reply_init [of "\<lambda>n. True" t] by (auto simp: rm_msg_init_def store_def split: if_splits)

lemma appended: "rm_append_tlv alloc t val h = ret (Some r) \<Longrightarrow> is_reply h \<Longrightarrow> length val < 2 ^ 30 \<Longrightarrow> is_reply r"
  using is_reply_append [of h val alloc t] by (auto simp: yields_def)

lemma send_close_gains:
  assumes "is_reply r"
  shows "yields (run_map (\<lambda>w. snd (rm_do e (RmClose fd) w)) (send_reply e port r w)) (talk s w)"
  unfolding yields_map by (rule yields_mono [OF talk_send [OF assms]]) (rule talk_trans, assumption, rule talk_do, simp)

lemma login_calm:
  assumes n: "length (rs_nonce w) < 2 ^ 30"
  shows "yields (handle_login e port w) (calm s w)"
proof -
  obtain mac w1 where 1: "get_my_mac e w = (mac, w1)" by fastforce
  obtain fd w2 where 2: "rm_do e RmOpenRandom w1 = (fd, w2)" by fastforce
  obtain k nonce w3 where 3: "read_into e fd (rs_nonce w2) w2 = (k, nonce, w3)" by (metis prod_cases3)
  have t1: "talk s w w1" using talk_mac [of s w e] 1 by simp
  moreover have "talk s w1 w2" using 2 by (rule talk_do') simp
  ultimately have t2: "talk s w w2" by (rule talk_trans)
  moreover have "talk s w2 w3" using 3 by (rule read_into_talks)
  ultimately have t3: "talk s w w3" by (rule talk_trans)
  let ?w = "w3\<lparr>rs_nonce := nonce\<rparr>"
  have len: "length nonce = length (rs_nonce w)" using read_into_talks(2) [OF 3] talk_keeps(2) [OF t2] by simp
  have c3: "calm s w ?w" using calm_trans [OF talk_calm [OF t3] calm_nonce [of nonce w3 s]] len talk_keeps(2) [OF t3] by simp
  have bad: "yields (reply_with e port RM_S_UNKNOWN_TLV_TYPE (text_z ''Unknown TLV type'') r (w\<lparr>rs_state := 0\<rparr>)) (calm s w)"
    if "rm_msg_init alloc ty = Some r" for r alloc ty
    by (rule yields_mono [OF refuse_talks [OF that]]) (auto intro: calm_trans [OF calm_state [of 0 s w]] talk_calm)
  have c1: "calm s w (w3\<lparr>rs_nonce := nonce, rs_state := 1\<rparr>)"
    by (rule calm_trans [OF c3]) (use calm_state [of 1 s "w3\<lparr>rs_nonce := nonce\<rparr>"] in simp)
  have good: "yields (run_map (\<lambda>w. snd (rm_do e (RmClose fd) w)) (send_reply e port r' (w3\<lparr>rs_nonce := nonce, rs_state := 1\<rparr>))) (calm s w)"
    if "rm_append_tlv (rm_alloc e) RM_L_NONCE nonce (store 4 (le32 RM_CHALLENGE) r) = ret (Some r')" "rm_msg_init (rm_alloc e) RM_STATUS = Some r" for r r'
    by (rule yields_mono [OF send_close_gains [OF appended [OF that(1) retyped [OF that(2)]], where s = s]])
      (use n len c1 in \<open>auto intro: talk_calm calm_trans\<close>)
  show ?thesis
    unfolding handle_login_def 1 2 3 prod.case Let_def
    by (auto simp: bad 2 3 talk_calm t1 t2 calm_do c3 intro!: yields_run_any split: option.split) (rule good, assumption, assumption)
qed

section \<open>The password\<close>

definition proves_password :: "rm_env \<Rightarrow> ramad \<Rightarrow> byte list \<Rightarrow> bool" where
  "proves_password e w h \<longleftrightarrow> rs_state w = 1 \<and>
     rama_md5_hash (rm_alloc e) (rs_nonce w) (rm_nvram e (rm_calls w) ''Login'') (rm_nvram e (rm_calls w) ''Password'') = ret (Some (slice 20 16 h))"

lemma client_id_gains:
  assumes "is_reply r" "length (rs_cid w) < 2 ^ 30"
  shows "yields (case rm_do e RmOpenRandom w of (fd, w) \<Rightarrow>
      case read_into e fd (rs_cid w) w of (n, cid, w) \<Rightarrow>
      let w = w\<lparr>rs_cid := cid\<rparr> in
      run_bind (rm_append_tlv (rm_alloc e) RM_I_CID (rs_cid w) r) (\<lambda>r.
      case r of None \<Rightarrow> ret (snd (rm_do e (RmClose fd) w))
      | Some r \<Rightarrow> run_map (\<lambda>w. snd (rm_do e (RmClose fd) w)) (send_reply e port r w))) (gains s w)"
proof -
  obtain fd w2 where 2: "rm_do e RmOpenRandom w = (fd, w2)" by fastforce
  obtain k cid w3 where 3: "read_into e fd (rs_cid w2) w2 = (k, cid, w3)" by (metis prod_cases3)
  have t2: "talk s w w2" using 2 by (rule talk_do') simp
  moreover have "talk s w2 w3" using 3 by (rule read_into_talks)
  ultimately have t3: "talk s w w3" by (rule talk_trans)
  let ?w = "w3\<lparr>rs_cid := cid\<rparr>"
  have len: "length cid = length (rs_cid w)" using read_into_talks(2) [OF 3] talk_keeps(3) [OF t2] by simp
  have c3: "gains s w ?w" using gains_trans [OF talk_gains [OF t3] calm_cid [of cid w3 s]] len talk_keeps(3) [OF t3] by simp
  have close: "gains s w (snd (rm_do e (RmClose fd) ?w))"
    by (rule gains_trans [OF c3 talk_gains [OF talk_do]]) simp
  have send: "yields (run_map (\<lambda>w. snd (rm_do e (RmClose fd) w)) (send_reply e port h ?w)) (gains s w)" if "is_reply h" for h
    by (rule yields_mono [OF send_close_gains [OF that, where s = s]]) (auto intro: gains_trans [OF c3] talk_gains)
  have "length (rs_cid ?w) < 2 ^ 30" using len assms(2) by simp
  from is_reply_append [OF assms(1) this] show ?thesis
    unfolding 2 3 prod.case Let_def
    by (rule yields_then) (simp add: close send split: option.split)
qed

lemma passwd_gains:
  assumes n: "length (rs_cid w) < 2 ^ 30"
  shows "yields (handle_passwd e port w) (\<lambda>w'. gains s w w' \<and> (rs_state w' = 2 \<longrightarrow> rs_state w = 2 \<or> proves_password e w (rm_h w)))"
proof -
  let ?P = "\<lambda>w'. gains s w w' \<and> (rs_state w' = 2 \<longrightarrow> proves_password e w (rm_h w))"
  have refuse: "yields (reply_with e port t (text_z x) r w) ?P" if "rm_msg_init alloc ty = Some r" "length x < 2 ^ 20" "rs_state w = 1" for r alloc ty t x
    by (rule yields_mono [OF refuse_talks [OF that(1,2), where s = s]]) (use that(3) in \<open>auto dest: talk_calm simp: calm_def\<close>)
  have now: "gains s w (w\<lparr>rs_state := 2\<rparr>)" by (simp add: gains_def same_lengths_def)
  have enter: "yields (append_then e RM_S_SUCCESS [] r (w\<lparr>rs_state := 2\<rparr>) (\<lambda>r.
      case rm_do e RmOpenRandom (w\<lparr>rs_state := 2\<rparr>) of (fd, w) \<Rightarrow>
      case read_into e fd (rs_cid w) w of (n, cid, w) \<Rightarrow>
      let w = w\<lparr>rs_cid := cid\<rparr> in
      run_bind (rm_append_tlv (rm_alloc e) RM_I_CID (rs_cid w) r) (\<lambda>r.
      case r of None \<Rightarrow> ret (snd (rm_do e (RmClose fd) w))
      | Some r \<Rightarrow> run_map (\<lambda>w. snd (rm_do e (RmClose fd) w)) (send_reply e port r w)))) (gains s w)"
    if "rm_msg_init alloc ty = Some r" for r alloc ty
  proof (rule append_then_yields [where P = "gains s w", OF is_reply_init [OF that] _ now])
    fix h :: "byte list"
    assume h: "is_reply h"
    show "yields (case rm_do e RmOpenRandom (w\<lparr>rs_state := 2\<rparr>) of (fd, w) \<Rightarrow>
      case read_into e fd (rs_cid w) w of (n, cid, w) \<Rightarrow>
      let w = w\<lparr>rs_cid := cid\<rparr> in
      run_bind (rm_append_tlv (rm_alloc e) RM_I_CID (rs_cid w) h) (\<lambda>r.
      case r of None \<Rightarrow> ret (snd (rm_do e (RmClose fd) w))
      | Some r \<Rightarrow> run_map (\<lambda>w. snd (rm_do e (RmClose fd) w)) (send_reply e port r w))) (gains s w)"
      by (rule yields_mono [OF client_id_gains [OF h]]) (use n now in \<open>auto intro: gains_trans\<close>)
  qed simp
  have hash_at: "tlv_value (int RM_HDR_LEN) 16 (rm_h w) = ret v \<Longrightarrow> v = slice 20 16 (rm_h w)" for v
    by (auto simp: tlv_value_def RM_HDR_LEN_def RM_TLV_HDR_LEN_def mem_read_def split: if_splits)
  have proof_of: "proves_password e w (rm_h w)"
    if "rs_state w = 1" "rama_md5_hash (rm_alloc e) (rs_nonce w) (rm_nvram e (rm_calls w) ''Login'') (rm_nvram e (rm_calls w) ''Password'') = ret (Some v)"
      "tlv_value (int RM_HDR_LEN) 16 (rm_h w) = ret v" for v
    using that by (simp add: proves_password_def hash_at)
  have same: "gains s w w" by (rule talk_gains) simp
  show ?thesis
    unfolding handle_passwd_def Let_def
    by (auto simp: same proof_of intro!: yields_run_any split: option.split)
      (erule refuse, simp, simp, drule enter, simp add: Let_def, erule refuse, simp, simp)
qed

section \<open>The settings\<close>

lemma set_my_ip_talks: "yields (set_my_ip e ip w) (\<lambda>(err, v). talk True w v)"
proof -
  obtain k w1 where 1: "rm_do e RmSocket w = (k, w1)" by fastforce
  obtain name w2 where 2: "getLanIfName e w1 = (name, w2)" by fastforce
  have a: "talk True w w1" using 1 by (rule talk_do') simp
  moreover have "talk True w1 w2" using talk_name [of True w1 e] 2 by simp
  ultimately have b: "talk True w w2" by (rule talk_trans)
  then have "talk True w v" if "rm_do e (RmSetAddr name i) w2 = (r, v)" for i r v
    using that by (auto intro: talk_trans)
  with a show ?thesis by (auto simp: set_my_ip_def 1 2 yields_def split: option.splits prod.splits)
qed

lemma set_ssid_talks: "yields (set_ssid e ssid w) (\<lambda>(err, v). talk True w v)"
proof -
  obtain k w1 where 1: "rm_do e RmSocket w = (k, w1)" by fastforce
  have a: "talk True w w1" using 1 by (rule talk_do') simp
  then have b: "talk True w v" if "rm_do e (RmSetEssid i) w1 = (r, v)" for i r v
    using that by (auto intro: talk_trans)
  then have "talk True w (snd (rm_do e (RmClose k) v))" if "rm_do e (RmSetEssid i) w1 = (r, v)" for i r v
    using talk_do [of True "RmClose k" v e] that by (auto intro: talk_trans)
  with a b show ?thesis by (auto simp: set_ssid_def 1 intro!: yields_run_any split: prod.split)
qed

lemma renew_talks: "talk s w (renew_bcast_route e w)"
proof -
  obtain k w1 where 1: "rm_do e RmSocket w = (k, w1)" by fastforce
  obtain name w2 where 2: "getLanIfName e w1 = (name, w2)" by fastforce
  have a: "talk s w w1" using 1 by (rule talk_do') simp
  moreover have "talk s w1 w2" using talk_name [of s w1 e] 2 by simp
  ultimately have b: "talk s w w2" by (rule talk_trans)
  moreover have "talk s w2 (snd (rm_do e (RmAddRoute name) w2))" by (rule talk_do) simp
  ultimately have "talk s w (snd (rm_do e (RmAddRoute name) w2))" by (rule talk_trans)
  with a show ?thesis by (simp add: renew_bcast_route_def 1 2)
qed

text \<open>The handlers answer, after a setting or without it.\<close>

lemma reply_talks:
  assumes "rm_msg_init alloc ty = Some r" "length t < 2 ^ 30" "talk s w v"
  shows "yields (reply_with e port err t r v) (talk s w)"
  by (rule yields_mono [OF reply_yields [OF is_reply_init [OF assms(1)] assms(2), where s = s]]) (rule talk_trans [OF assms(3)])

lemma not_logged_in_yields: "yields (not_logged_in cid w) (\<lambda>refused. refused \<or> rs_state w = 2)"
  by (simp add: not_logged_in_def split: option.split)

lemma set_ip_talks: "yields (handle_set_ip e port w) (talk (rs_state w = 2) w)"
proof -
  have "yields (run_bind (not_logged_in cid w) (\<lambda>refused.
        if refused then reply_with e port RM_S_UN_LOGIN (text_z ''Please login first'') r w
        else
          run_bind (set_my_ip e ip w) (\<lambda>(err, w).
          if err \<noteq> 0 then reply_with e port RM_S_ERROR (text_z ''Server internal error'') r w
          else reply_with e port RM_S_SUCCESS [] r (renew_bcast_route e w)))) (talk (rs_state w = 2) w)"
    if r: "rm_msg_init (rm_alloc e) RM_STATUS = Some r" for r cid ip
  proof (rule yields_then [OF not_logged_in_yields], clarsimp simp: reply_talks [OF r] text_short)
    assume "rs_state w = 2"
    show "yields (run_bind (set_my_ip e ip w) (\<lambda>(err, w).
          if err \<noteq> 0 then reply_with e port RM_S_ERROR (text_z ''Server internal error'') r w
          else reply_with e port RM_S_SUCCESS [] r (renew_bcast_route e w))) (talk True w)"
      by (rule yields_then2 [OF set_my_ip_talks]) (auto simp: text_short intro!: reply_talks [OF r] intro: talk_trans [OF _ renew_talks])
  qed
  note talks = this
  show ?thesis
    unfolding handle_set_ip_def
    by (auto intro!: yields_run_any [where m = "set_ip_walk h p l c i" for h p l c i] talks split: option.split)
qed

lemma set_essid_talks: "yields (handle_set_ssid e port w) (talk (rs_state w = 2) w)"
proof -
  have "yields (run_bind (not_logged_in cid w) (\<lambda>refused.
        if refused then reply_with e port RM_S_UN_LOGIN (text_z ''Please login first'') r w
        else
          run_bind (set_ssid e ssid w) (\<lambda>(err, w).
          if err \<noteq> 0 then reply_with e port RM_S_ERROR (text_z ''Server internal error'') r w
          else reply_with e port RM_S_SUCCESS [] r w))) (talk (rs_state w = 2) w)"
    if r: "rm_msg_init (rm_alloc e) RM_STATUS = Some r" for r cid ssid
  proof (rule yields_then [OF not_logged_in_yields], clarsimp simp: reply_talks [OF r] text_short)
    assume "rs_state w = 2"
    show "yields (run_bind (set_ssid e ssid w) (\<lambda>(err, w).
          if err \<noteq> 0 then reply_with e port RM_S_ERROR (text_z ''Server internal error'') r w
          else reply_with e port RM_S_SUCCESS [] r w)) (talk True w)"
      by (rule yields_then2 [OF set_ssid_talks]) (auto simp: text_short intro!: reply_talks [OF r])
  qed
  note talks = this
  show ?thesis
    unfolding handle_set_ssid_def
    by (auto intro!: yields_run_any [where m = "set_ssid_walk h p l c i" for h p l c i] talks split: option.split)
qed

section \<open>The daemon\<close>

text \<open>One packet: \<open>p\<close> says whether the settings could change, and only a packet with the hash logs in.\<close>

definition answers_login :: "rm_env \<Rightarrow> ramad \<Rightarrow> byte list \<Rightarrow> bool" where
  "answers_login e w pkt \<longleftrightarrow>
     (let h = store 0 (take RM_MAX_MSG_LEN pkt) (rm_h w) in rd_le32 (slice 4 4 h) = RM_PASSWD \<and> proves_password e w h)"

lemma step_gains:
  assumes n: "length (rs_nonce w) < 2 ^ 30" "length (rs_cid w) < 2 ^ 30" "length (rm_h w) = RM_MAX_MSG_LEN"
  shows "yields (ramad_step e port pkt w)
    (\<lambda>w'. gains (rs_state w = 2) w w' \<and> (rs_state w' = 2 \<longrightarrow> rs_state w = 2 \<or> answers_login e w pkt))"
proof -
  let ?h = "store 0 (take RM_MAX_MSG_LEN pkt) (rm_h w)" and ?s = "rs_state w = 2"
  let ?w = "w\<lparr>rm_h := ?h\<rparr>" and ?P = "\<lambda>w'. gains (rs_state w = 2) w w' \<and> (rs_state w' = 2 \<longrightarrow> rs_state w = 2 \<or> answers_login e w pkt)"
  have h: "gains ?s w ?w" using n(3) by (simp add: gains_def same_lengths_def)
  have talks: "yields m ?P" if "yields m (talk ?s ?w)" for m
    by (rule yields_mono [OF that]) (use talk_keeps(1) in \<open>auto dest!: talk_gains intro: gains_trans [OF h] simp: talk_keeps(1)\<close>)
  have login: "yields (handle_login e port ?w) ?P"
    by (rule yields_mono [OF login_calm [where s = ?s]]) (use n in \<open>auto simp: calm_def intro: gains_trans [OF h]\<close>)
  have passwd: "rd_le32 (slice 4 4 ?h) = RM_PASSWD \<Longrightarrow> yields (handle_passwd e port ?w) ?P"
    by (rule yields_mono [OF passwd_gains [where s = ?s]])
      (use n in \<open>auto simp: answers_login_def proves_password_def Let_def intro: gains_trans [OF h]\<close>)
  have at4: "mem_read 4 4 ?h = ret b \<Longrightarrow> b = slice 4 4 ?h" for b by (auto simp: mem_read_def split: if_splits)
  have set_ip: "yields (handle_set_ip e port ?w) ?P" and set_essid: "yields (handle_set_ssid e port ?w) ?P"
    by (rule talks, use set_ip_talks [of e port ?w] set_essid_talks [of e port ?w] in simp)+
  have types: "distinct [RM_QUERY, RM_LOGIN, RM_PASSWD, RM_SET_IP, RM_SET_SSID]" by (simp add: rm_types)
  show ?thesis
    unfolding ramad_step_def Let_def
    by (rule yields_run_any, simp split: if_split, intro conjI impI yields_run_any, simp_all add: h)
      (use types in \<open>auto dest!: at4 simp: login set_ip set_essid h intro!: talks [OF query_talks] passwd\<close>)
qed

section \<open>Reachability\<close>

text \<open>The states of a daemon that got only packets that \<open>Q\<close> lets pass.\<close>

inductive ramad_reaches :: "rm_env \<Rightarrow> (ramad \<Rightarrow> byte list \<Rightarrow> bool) \<Rightarrow> ramad \<Rightarrow> bool" for e Q where
  begins: "length junk = RM_MAX_MSG_LEN \<Longrightarrow> ramad_init e junk ramad_zero = ret w \<Longrightarrow> ramad_reaches e Q w"
| packet: "ramad_reaches e Q w \<Longrightarrow> Q w pkt \<Longrightarrow> ramad_step e port pkt w = ret w' \<Longrightarrow> ramad_reaches e Q w'"

lemma ramad_init_ret:
  assumes "ramad_init e junk w = ret w'"
  shows "rs_state w' = rs_state w" "rs_nonce w' = rs_nonce w" "rs_cid w' = rs_cid w" "rm_h w' = junk"
    "\<exists>cs. rm_calls w' = rm_calls w @ cs \<and> list_all (proper False) cs"
  using assms by (auto simp: ramad_init_def rm_init_sock_def rm_do_def Let_def split: if_splits)

lemma proper_mono: "list_all (proper s) cs \<Longrightarrow> list_all (proper True) cs"
proof (rule list.pred_mono_strong)
  show "proper s c \<Longrightarrow> proper True c" for c by (cases c) simp_all
qed

text \<open>The buffers keep their lengths, and every reply is a message.\<close>

lemma reaches_lengths:
  assumes "ramad_reaches e Q w"
  shows "length (rs_nonce w) = RM_NONCE_LEN" "length (rs_cid w) = 6" "length (rm_h w) = RM_MAX_MSG_LEN" "list_all (proper True) (rm_calls w)"
proof -
  have "length (rs_nonce w) = RM_NONCE_LEN \<and> length (rs_cid w) = 6 \<and> length (rm_h w) = RM_MAX_MSG_LEN \<and> list_all (proper True) (rm_calls w)"
    using assms
  proof (induction rule: ramad_reaches.induct)
    case (begins junk w)
    show ?case using begins(1) ramad_init_ret [OF begins(2)] proper_mono by (auto simp: ramad_zero_def)
  next
    case (packet w pkt port w')
    have "gains (rs_state w = 2) w w'"
      using step_gains [of w e port pkt] packet.IH packet.hyps(3) by (auto simp: yields_def RM_NONCE_LEN_def)
    then show ?case using packet.IH by (auto simp: gains_def same_lengths_def intro: proper_mono)
  qed
  then show "length (rs_nonce w) = RM_NONCE_LEN" "length (rs_cid w) = 6" "length (rm_h w) = RM_MAX_MSG_LEN" "list_all (proper True) (rm_calls w)"
    by simp_all
qed

lemma start_reaches:
  assumes "ramad_start e junk ps ramad_zero = ret w" "length junk = RM_MAX_MSG_LEN"
  obtains v where "ramad_reaches e (\<lambda>w pkt. True) v" "rm_calls w = rm_calls v @ [RmClose (rm_skfd v)]"
proof -
  have "ramad_loop e ps v = ret u \<Longrightarrow> ramad_reaches e (\<lambda>w pkt. True) v \<Longrightarrow> ramad_reaches e (\<lambda>w pkt. True) u" for v u
    by (induction e ps v rule: ramad_loop.induct) (auto simp: run_bind_eq_ret intro: packet)
  then show thesis using assms that begins [OF assms(2), of e _ "\<lambda>w pkt. True"]
    by (fastforce simp: ramad_start_def run_map_def run_bind_eq_ret rm_do_def)
qed

text \<open>The hash that the client has to know, by the specification of MD5.\<close>

definition login_hash :: "rm_env \<Rightarrow> ramad \<Rightarrow> byte list option" where
  "login_hash e w =
     (case (rm_nvram e (rm_calls w) ''Login'', rm_nvram e (rm_calls w) ''Password'') of
        (Some user, Some pw) \<Rightarrow> Some (md5_spec (rs_nonce w @ text_bytes user @ text_bytes pw)) | _ \<Rightarrow> None)"

definition short_settings :: "rm_env \<Rightarrow> bool" where
  "short_settings e \<longleftrightarrow> (\<forall>cs s v. rm_nvram e cs s = Some v \<longrightarrow> length v < 2 ^ 30)"

lemma rama_md5_hash_spec:
  assumes "length nonce = RM_NONCE_LEN" "length user < 2 ^ 30" "length pw < 2 ^ 30"
  shows "rama_md5_hash alloc nonce (Some user) (Some pw) =
    ret (if alloc (length (nonce @ text_bytes user @ text_bytes pw)) then Some (md5_spec (nonce @ text_bytes user @ text_bytes pw)) else None)"
proof -
  let ?m = "nonce @ text_bytes user @ text_bytes pw"
  have l: "length ?m + 128 < 2 ^ 32" using assms by (simp add: text_bytes_def RM_NONCE_LEN_def)
  from md5c_update_returns [OF md5c.represents_init this]
  have u: "MD5Update_c (MD5Init_c md5c_stack_ctx) ?m = ret (md5c_update (MD5Init_c md5c_stack_ctx) ?m)"
    and r: "md5c_repr ?m (md5c_update (MD5Init_c md5c_stack_ctx) ?m)" by simp_all
  obtain c where "MD5Final_c (md5c_update (MD5Init_c md5c_stack_ctx) ?m) = ret (md5_spec ?m, c)" using MD5Final_c_spec [OF r] by auto
  with u show ?thesis by (simp add: rama_md5_hash_def)
qed

lemma answers_login_hash:
  assumes "answers_login e w pkt" "length (rs_nonce w) = RM_NONCE_LEN" "short_settings e"
  shows "rs_state w = 1" "login_hash e w = Some (slice 20 16 (store 0 (take RM_MAX_MSG_LEN pkt) (rm_h w)))"
proof -
  show "rs_state w = 1" using assms(1) by (simp add: answers_login_def proves_password_def Let_def)
  let ?u = "rm_nvram e (rm_calls w) ''Login''" and ?p = "rm_nvram e (rm_calls w) ''Password''"
  have h: "rama_md5_hash (rm_alloc e) (rs_nonce w) ?u ?p = ret (Some (slice 20 16 (store 0 (take RM_MAX_MSG_LEN pkt) (rm_h w))))"
    using assms(1) by (simp add: answers_login_def proves_password_def Let_def)
  then obtain user pw where up: "?u = Some user" "?p = Some pw"
    by (cases ?u; cases ?p) (auto simp: rama_md5_hash_def)
  then have "length user < 2 ^ 30" "length pw < 2 ^ 30" using assms(3) unfolding short_settings_def by blast+
  from rama_md5_hash_spec [OF assms(2) this, of "rm_alloc e"] h
  show "login_hash e w = Some (slice 20 16 (store 0 (take RM_MAX_MSG_LEN pkt) (rm_h w)))"
    by (auto simp: login_hash_def up split: if_splits)
qed

section \<open>Properties\<close>

text \<open>C9. Nothing is set without the password: as long as no packet carries, in answer to the last challenge, the MD5 digest of the nonce,
  the user name and the password, no client is logged in, and neither the address nor the name of the network has been set, whatever
  messages were received and whatever the calls of the system returned.\<close>

theorem login_required:
  assumes "short_settings e"
    "ramad_reaches e (\<lambda>w pkt. rs_state w = 1 \<longrightarrow> login_hash e w \<noteq> Some (slice 20 16 (store 0 (take RM_MAX_MSG_LEN pkt) (rm_h w)))) w"
  shows "rs_state w \<noteq> 2 \<and> (\<forall>c \<in> set (rm_calls w). \<forall>name ip ssid. c \<noteq> RmSetAddr name ip \<and> c \<noteq> RmSetEssid ssid)"
proof -
  have "rs_state w \<noteq> 2 \<and> list_all (proper False) (rm_calls w)"
    using assms(2)
  proof (induction rule: ramad_reaches.induct)
    case (begins junk w)
    show ?case using ramad_init_ret [OF begins(2)] by (auto simp: ramad_zero_def)
  next
    case (packet w pkt port w')
    note l = reaches_lengths [OF packet.hyps(1)]
    have "\<not> answers_login e w pkt" using answers_login_hash [OF _ l(1) assms(1)] packet.hyps(2) by blast
    then show ?case
      using step_gains [of w e port pkt] l packet.IH packet.hyps(3) by (auto simp: yields_def RM_NONCE_LEN_def gains_def)
  qed
  then show ?thesis by (auto simp: list_all_iff)
qed

text \<open>C31. Whatever the agent sends is a message: a header with the magic number and the length of the message, and TLVs that fill it
  exactly; and no message is longer than the 128 bytes that a receiver has room for.\<close>

theorem replies_are_messages:
  assumes "ramad_start e junk ps ramad_zero = ret w" "length junk = RM_MAX_MSG_LEN" "RmSend port h \<in> set (rm_calls w)"
  shows "\<exists>ty ts. h = enc_msg ty ts \<and> length h \<le> RM_MAX_MSG_LEN"
proof -
  obtain v where "ramad_reaches e (\<lambda>w pkt. True) v" "rm_calls w = rm_calls v @ [RmClose (rm_skfd v)]" using start_reaches [OF assms(1,2)] .
  then show ?thesis using reaches_lengths(4) [of e "\<lambda>w pkt. True" v] assms(3) by (auto simp: list_all_iff is_reply_def)
qed

section \<open>Concrete runs\<close>

text \<open>A router for examples: every call succeeds.\<close>

definition rama_env1 :: rm_env where
  "rama_env1 = \<lparr>rm_alloc = no_oom,
     rm_answer = (\<lambda>log c. case c of RmSocket \<Rightarrow> 3 | RmOpenRandom \<Rightarrow> 4 | RmReadRandom fd n \<Rightarrow> int n | _ \<Rightarrow> 0),
     rm_byte = (\<lambda>log c i. of_nat i), rm_essid = (\<lambda>log. text_z ''ap''),
     rm_nvram = (\<lambda>log s. if s = ''OperationMode'' then Some ''1'' else if s = ''Login'' then Some ''admin'' else if s = ''Password'' then Some ''secret'' else None)\<rparr>"

definition result_ok :: "'a run \<Rightarrow> ('a \<Rightarrow> bool) \<Rightarrow> bool" where
  "result_ok m P = (case m of Some (Inr x) \<Rightarrow> P x | _ \<Rightarrow> False)"

lemma result_okD: "result_ok m P \<Longrightarrow> returns m P"
  by (auto simp: result_ok_def returns_def ret_def split: option.splits sum.splits)

lemma run_query: "result_ok (ramad_start rama_env1 (replicate 128 0) [(9, enc_msg RM_QUERY [(RM_Q_ALL, [])])] ramad_zero) (\<lambda>w.
  RmSend 9 (enc_msg RM_INFO [(RM_I_MAC, [0, 1, 2, 3, 4, 5]), (RM_I_IP, [0, 1, 2, 3]), (RM_I_SSID, text_bytes ''ap'')]) \<in> set (rm_calls w))"
  by code_simp

lemma run_set: "result_ok (ramad_init rama_env1 (replicate 128 0) ramad_zero) (\<lambda>w. rs_state w = 0 \<and> result_ok (ramad_step rama_env1 9 (enc_msg RM_SET_SSID []) w)
   (\<lambda>w. RmSend 9 (enc_msg RM_STATUS [(RM_S_UN_LOGIN, text_z ''Please login first'')]) \<in> set (rm_calls w)))"
  by (code_simp, simp add: set_ssid_walk.simps RMT_OK_def RM_TLV_HDR_LEN_def, code_simp?, simp?)

theorem login_required_witness:
  "\<exists>w. ramad_reaches rama_env1 (\<lambda>w pkt. rs_state w = 1 \<longrightarrow> login_hash rama_env1 w \<noteq> Some (slice 20 16 (store 0 (take RM_MAX_MSG_LEN pkt) (rm_h w)))) w
    \<and> RmSend 9 (enc_msg RM_STATUS [(RM_S_UN_LOGIN, text_z ''Please login first'')]) \<in> set (rm_calls w)
    \<and> rs_state w \<noteq> 2 \<and> (\<forall>c \<in> set (rm_calls w). \<forall>name ip ssid. c \<noteq> RmSetAddr name ip \<and> c \<noteq> RmSetEssid ssid)"
proof -
  let ?Q = "\<lambda>w pkt. rs_state w = 1 \<longrightarrow> login_hash rama_env1 w \<noteq> Some (slice 20 16 (store 0 (take RM_MAX_MSG_LEN pkt) (rm_h w)))"
  obtain w0 w where 0: "ramad_init rama_env1 (replicate 128 0) ramad_zero = ret w0" "rs_state w0 = 0"
    and 1: "ramad_step rama_env1 9 (enc_msg RM_SET_SSID []) w0 = ret w"
      "RmSend 9 (enc_msg RM_STATUS [(RM_S_UN_LOGIN, text_z ''Please login first'')]) \<in> set (rm_calls w)"
    using run_set by (auto dest!: result_okD simp: returns_def)
  have "ramad_reaches rama_env1 ?Q w0" by (rule begins [OF _ 0(1)]) (simp add: RM_MAX_MSG_LEN_def)
  then have r: "ramad_reaches rama_env1 ?Q w" by (rule packet [OF _ _ 1(1)]) (simp add: 0)
  have "short_settings rama_env1" by (simp add: short_settings_def rama_env1_def)
  from login_required [OF this r] show ?thesis using r 1(2) by blast
qed

theorem replies_are_messages_witness:
  "\<exists>ty ts. enc_msg RM_INFO [(RM_I_MAC, [0, 1, 2, 3, 4, 5]), (RM_I_IP, [0, 1, 2, 3]), (RM_I_SSID, text_bytes ''ap'')] = enc_msg ty ts
    \<and> length (enc_msg RM_INFO [(RM_I_MAC, [0, 1, 2, 3, 4, 5]), (RM_I_IP, [0, 1, 2, 3]), (RM_I_SSID, text_bytes ''ap'')]) \<le> RM_MAX_MSG_LEN"
  using replies_are_messages [of rama_env1 "replicate 128 0" "[(9, enc_msg RM_QUERY [(RM_Q_ALL, [])])]" _ 9] result_okD [OF run_query]
  by (auto simp: returns_def RM_MAX_MSG_LEN_def simp del: length_enc)

end
