(* ===== verification/RamaLogin.thy ===== *)
theory RamaLogin
  imports RamaInv
begin

text \<open>
  What the management agent does: a client that knows the password logs in and sets the name of the network, the settings are taken from the
  TLVs of the message whatever else it has; and two messages that need no login, one of which makes the agent run forever while the other one
  makes it read behind its receive buffer.
\<close>

section \<open>A router whose calls succeed\<close>

definition cooperative :: "rm_env \<Rightarrow> byte list \<Rightarrow> string \<Rightarrow> string \<Rightarrow> bool" where
  "cooperative e mac user pw \<longleftrightarrow> rm_alloc e = no_oom \<and> (\<forall>cs c. 0 \<le> rm_answer e cs c)
     \<and> (\<forall>cs fd n. rm_answer e cs (RmReadRandom fd n) = int n) \<and> (\<forall>cs n. map (rm_byte e cs (RmHwAddr n)) [0..<6] = mac)
     \<and> (\<forall>cs. rm_nvram e cs ''Login'' = Some user) \<and> (\<forall>cs. rm_nvram e cs ''Password'' = Some pw)
     \<and> length user < 2 ^ 30 \<and> length pw < 2 ^ 30"

lemma cooperativeD:
  assumes "cooperative e mac user pw"
  shows "rm_alloc e = no_oom" "\<not> fst (rm_do e c w) < 0" "fst (rm_do e c w) \<noteq> - 1" "fst (rm_do e (RmReadRandom fd n) w) = int n" "rm_data e (RmHwAddr name) 6 w = mac"
    "rm_nvram e cs ''Login'' = Some user" "rm_nvram e cs ''Password'' = Some pw" "length mac = 6"
proof -
  have a: "0 \<le> rm_answer e (rm_calls w) c" using assms unfolding cooperative_def by blast
  then show "\<not> fst (rm_do e c w) < 0" "fst (rm_do e c w) \<noteq> - 1" by (simp_all add: rm_do_def)
  show "rm_alloc e = no_oom" "fst (rm_do e (RmReadRandom fd n) w) = int n" "rm_data e (RmHwAddr name) 6 w = mac"
    "rm_nvram e cs ''Login'' = Some user" "rm_nvram e cs ''Password'' = Some pw"
    using assms by (auto simp: cooperative_def rm_do_def rm_data_def)
  have "map (rm_byte e [] (RmHwAddr [])) [0..<6] = mac" using assms unfolding cooperative_def by blast
  then show "length mac = 6" by (metis diff_zero length_map length_upt)
qed

lemma mac_known:
  assumes "cooperative e mac user pw"
  obtains v where "get_my_mac e w = (Some mac, v)" "talk False w v"
proof -
  have "fst (get_my_mac e w) = Some mac"
    using cooperativeD [OF assms] by (auto simp: get_my_mac_def ask_if_def Let_def split: prod.split) (metis fst_conv)+
  then show thesis using talk_mac [of False w e] that by (metis prod.collapse)
qed

text \<open>Replies are built and sent.\<close>

lemma append_ok: "length (enc_msg ty (ts @ [(t, val)])) \<le> RM_MAX_MSG_LEN \<Longrightarrow>
    rm_append_tlv no_oom t val (enc_msg ty ts) = ret (Some (enc_msg ty (ts @ [(t, val)])))"
  using rm_append_tlv_enc [of ty ts val no_oom t] by (simp add: RM_MAX_MSG_LEN_def)

lemma send_ok:
  assumes "length (enc_msg ty ts) \<le> RM_MAX_MSG_LEN"
  shows "send_reply e port (enc_msg ty ts) w = ret (snd (rm_do e (RmSend port (enc_msg ty ts)) w))"
proof -
  have b: "length (enc_body ts) < 2 ^ 31 - 12" using assms by (simp add: RM_MAX_MSG_LEN_def)
  have "unat (rd_le32 (enc_msg ty ts)) = length (enc_msg ty ts)"
    using small_word(1) [of "12 + length (enc_body ts)"] b by (simp add: enc_msg_def rd_le32_front RM_HDR_LEN_def)
  then show ?thesis using check_enc [OF b, of ty "[]"] by (simp add: send_reply_def del: length_enc)
qed

lemma reply_ok: "length (enc_msg ty (ts @ [(t, val)])) \<le> RM_MAX_MSG_LEN \<Longrightarrow> rm_alloc e = no_oom \<Longrightarrow>
    reply_with e port t val (enc_msg ty ts) w = ret (snd (rm_do e (RmSend port (enc_msg ty (ts @ [(t, val)]))) w))"
  by (simp add: reply_with_def append_then_def append_ok send_ok del: length_enc)

lemma init_ok: "rm_msg_init no_oom ty = Some (enc_msg ty [])"
  by (simp add: rm_msg_init_enc)

section \<open>The three steps of a session\<close>

definition new_calls :: "ramad \<Rightarrow> ramad \<Rightarrow> rm_call list" where
  "new_calls w w' = drop (length (rm_calls w)) (rm_calls w')"

lemma new_callsI: "talk s w v \<Longrightarrow> rm_calls w' = rm_calls v @ cs \<Longrightarrow> c \<in> set cs \<Longrightarrow> c \<in> set (new_calls w w')"
  by (auto simp: new_calls_def dest: talk_keeps(5))

lemma new_calls_later: "talk s v u \<Longrightarrow> c \<in> set (new_calls w v) \<Longrightarrow> c \<in> set (new_calls w u)"
  by (auto simp: new_calls_def dest!: talk_keeps(5))

text \<open>The calls that are logged stay logged.\<close>

lemma log_do: "rm_calls (snd (rm_do e c w)) = rm_calls w @ [c]" "rs_state (snd (rm_do e c w)) = rs_state w" "rs_nonce (snd (rm_do e c w)) = rs_nonce w"
    "rs_cid (snd (rm_do e c w)) = rs_cid w" "rm_h (snd (rm_do e c w)) = rm_h w"
  by (simp_all add: rm_do_def)

lemma login_ok:
  assumes c: "cooperative e mac user pw" and m: "received RM_LOGIN [(RM_L_SID, mac)] w" and n: "length (rs_nonce w) = RM_NONCE_LEN"
  shows "\<exists>w'. handle_login e port w = ret w' \<and> rs_state w' = 1 \<and> same_lengths w w' \<and> RmSend port (enc_msg RM_CHALLENGE [(RM_L_NONCE, rs_nonce w')]) \<in> set (new_calls w w')"
proof -
  obtain w1 where 1: "get_my_mac e w = (Some mac, w1)" and t1: "talk False w w1" using mac_known [OF c] .
  obtain fd w2 where 2: "rm_do e RmOpenRandom w1 = (fd, w2)" by fastforce
  obtain k nonce w3 where 3: "read_into e fd (rs_nonce w2) w2 = (k, nonce, w3)" by (metis prod_cases3)
  have "talk False w1 w2" using 2 by (rule talk_do') simp
  with t1 have t2: "talk False w w2" by (rule talk_trans)
  moreover have "talk False w2 w3" using 3 by (rule read_into_talks)
  ultimately have t3: "talk False w w3" by (rule talk_trans)
  have fd: "fd \<noteq> - 1" using cooperativeD(3) [OF c, of RmOpenRandom w1] by (simp add: 2)
  have "fst (rm_do e (RmReadRandom fd (length (rs_nonce w2))) w2) \<noteq> - 1" using cooperativeD(3) [OF c] .
  then have k: "k \<noteq> - 1" using 3 by (auto simp: read_into_def Let_def split: prod.splits)
  have len: "length nonce = 8" using read_into_talks(2) [OF 3] talk_keeps(2) [OF t2] n by (simp add: RM_NONCE_LEN_def)
  have r: "store 4 (le32 RM_CHALLENGE) (enc_msg RM_STATUS []) = enc_msg RM_CHALLENGE []" by (simp add: enc_msg_def store_def)
  have small: "length (enc_msg RM_CHALLENGE [(RM_L_NONCE, nonce)]) \<le> RM_MAX_MSG_LEN" by (simp add: len RM_MAX_MSG_LEN_def)
  let ?w = "snd (rm_do e (RmClose fd) (snd (rm_do e (RmSend port (enc_msg RM_CHALLENGE [(RM_L_NONCE, nonce)])) (w3\<lparr>rs_nonce := nonce, rs_state := 1\<rparr>))))"
  have "handle_login e port w = ret ?w"
    using received_first(1,2) [OF m] received_first(3) [OF m, of 6] cooperativeD(8) [OF c] fd k append_ok [of RM_CHALLENGE "[]" RM_L_NONCE nonce] small
    by (simp add: handle_login_def cooperativeD(1) [OF c] init_ok 1 2 3 Let_def r send_ok)
  then show ?thesis
    using talk_keeps [OF t3] len n new_callsI [OF t3, of ?w "[RmSend port (enc_msg RM_CHALLENGE [(RM_L_NONCE, nonce)]), RmClose fd]"]
    by (simp add: log_do same_lengths_def RM_NONCE_LEN_def)
qed

lemma passwd_ok:
  assumes c: "cooperative e mac user pw" and s: "rs_state w = 1" and n: "length (rs_nonce w) = RM_NONCE_LEN" "length (rs_cid w) = 6"
    and m: "received RM_PASSWD [(RM_L_HASH, md5_spec (rs_nonce w @ text_bytes user @ text_bytes pw))] w"
  shows "\<exists>w'. handle_passwd e port w = ret w' \<and> rs_state w' = 2 \<and> same_lengths w w'
    \<and> RmSend port (enc_msg RM_STATUS [(RM_S_SUCCESS, []), (RM_I_CID, rs_cid w')]) \<in> set (new_calls w w')"
proof -
  let ?w = "w\<lparr>rs_state := 2\<rparr>"
  obtain fd w2 where 2: "rm_do e RmOpenRandom ?w = (fd, w2)" by fastforce
  obtain k cid w3 where 3: "read_into e fd (rs_cid w2) w2 = (k, cid, w3)" by (metis prod_cases3)
  have t2: "talk False ?w w2" using 2 by (rule talk_do') simp
  moreover have "talk False w2 w3" using 3 by (rule read_into_talks)
  ultimately have t3: "talk False ?w w3" by (rule talk_trans)
  have len: "length cid = 6" using read_into_talks(2) [OF 3] talk_keeps(3) [OF t2] n by simp
  have up: "length user < 2 ^ 30" "length pw < 2 ^ 30" using c by (simp_all add: cooperative_def)
  have hash: "rama_md5_hash no_oom (rs_nonce w) (Some user) (Some pw) = ret (Some (md5_spec (rs_nonce w @ text_bytes user @ text_bytes pw)))"
    by (simp add: rama_md5_hash_spec [OF n(1) up] no_oom_def)
  have small: "length (enc_msg RM_STATUS ([] @ [(RM_S_SUCCESS, [])])) \<le> RM_MAX_MSG_LEN"
    "length (enc_msg RM_STATUS ([(RM_S_SUCCESS, [])] @ [(RM_I_CID, cid)])) \<le> RM_MAX_MSG_LEN" by (simp_all add: len RM_MAX_MSG_LEN_def)
  let ?last = "snd (rm_do e (RmClose fd) (snd (rm_do e (RmSend port (enc_msg RM_STATUS [(RM_S_SUCCESS, []), (RM_I_CID, cid)])) (w3\<lparr>rs_cid := cid\<rparr>))))"
  have "handle_passwd e port w = ret ?last"
    using received_first(1,2) [OF m] received_first(3) [OF m, of 16] append_ok [OF small(1)] append_ok [OF small(2)] send_ok [OF small(2)]
    by (simp add: handle_passwd_def s cooperativeD(1,6,7) [OF c] init_ok hash append_then_def Let_def 2 3 del: length_enc)
  then show ?thesis
    using talk_keeps [OF t3] len n new_callsI [OF t3, of ?last "[RmSend port (enc_msg RM_STATUS [(RM_S_SUCCESS, []), (RM_I_CID, cid)]), RmClose fd]"]
    by (simp add: log_do same_lengths_def new_calls_def)
qed

lemma c_string_text: "0 \<notin> set t \<Longrightarrow> c_string (t @ 0 # rest) = ret t"
  by (simp add: c_string_def takeWhile_append)

lemma set_ssid_ok:
  assumes c: "cooperative e mac user pw" and s: "0 \<notin> set name" "length name \<le> 32"
  shows "\<exists>w'. set_ssid e (store 0 name (replicate 33 0)) w = ret (0, w') \<and> talk True w w' \<and> RmSetEssid (text_bytes ''SSID='' @ name) \<in> set (new_calls w w')"
proof -
  obtain k w1 where 1: "rm_do e RmSocket w = (k, w1)" by fastforce
  obtain r w2 where 2: "rm_do e (RmSetEssid (text_bytes ''SSID='' @ name)) w1 = (r, w2)" by fastforce
  have t1: "talk True w w1" using 1 by (rule talk_do') simp
  moreover have "talk True w1 w2" using 2 by (rule talk_do') simp
  moreover have "talk True w2 (snd (rm_do e (RmClose k) w2))" by (rule talk_do) simp
  ultimately have t: "talk True w (snd (rm_do e (RmClose k) w2))" using talk_trans by blast
  have k: "\<not> k < 0" "\<not> r < 0"
    using cooperativeD(2) [OF c, of RmSocket w] cooperativeD(2) [OF c, of "RmSetEssid (text_bytes ''SSID='' @ name)" w1] by (simp_all add: 1 2)
  have z: "replicate (Suc n) (0 :: byte) = 0 # replicate n 0" for n by simp
  have "store 0 name (replicate 33 0) = name @ 0 # replicate (32 - length name) 0"
    using s(2) z [of "32 - length name"] by (simp add: store_def flip: Suc_diff_le)
  then have name: "c_string (store 0 name (replicate 33 0)) = ret name" using c_string_text [OF s(1)] by simp
  have nz: "0 \<notin> set (text_bytes ''SSID='' @ name)" using s(1) by (simp add: text_bytes_def)
  have "mem_write 0 (text_bytes ''SSID='' @ name @ [0]) (replicate 40 0) = ret ((text_bytes ''SSID='' @ name) @ 0 # replicate (34 - length name) 0)"
    using s(2) by (simp add: text_bytes_def store_def)
  then have "set_ssid e (store 0 name (replicate 33 0)) w = ret (0, snd (rm_do e (RmClose k) w2))"
    using c_string_text [OF nz] by (simp add: set_ssid_def 1 2 k name)
  moreover have "rm_calls (snd (rm_do e (RmClose k) w2)) = rm_calls w1 @ [RmSetEssid (text_bytes ''SSID='' @ name), RmClose k]"
    using log_do(1) [of e "RmSetEssid (text_bytes ''SSID='' @ name)" w1] by (simp add: 2 log_do)
  ultimately show ?thesis using t new_callsI [OF t1, of "snd (rm_do e (RmClose k) w2)"] by simp
qed

lemma set_essid_ok:
  assumes c: "cooperative e mac user pw" and s: "rs_state w = 2" and name: "0 \<notin> set name" "length name \<le> 32" "length (rs_cid w) = 6"
    and m: "received RM_SET_SSID [(RM_I_CID, rs_cid w), (RM_I_SSID, name)] w"
  shows "\<exists>w'. handle_set_ssid e port w = ret w' \<and> RmSetEssid (text_bytes ''SSID='' @ name) \<in> set (new_calls w w')
    \<and> RmSend port (enc_msg RM_STATUS [(RM_S_SUCCESS, [])]) \<in> set (new_calls w w')"
proof -
  obtain v where v: "set_ssid e (store 0 name (replicate 33 0)) w = ret (0, v)" "talk True w v" "RmSetEssid (text_bytes ''SSID='' @ name) \<in> set (new_calls w v)"
    using set_ssid_ok [OF c name(1,2)] by blast
  have "list_all full_tlv [(RM_I_CID, rs_cid w), (RM_I_SSID, name)]" using name by (simp add: full_tlv_def rm_types)
  from received_walks(2) [OF m this]
  have walk: "set_ssid_walk (rm_h w) (int RM_HDR_LEN) (RMM_LEN (rm_h w)) None (replicate 33 0) = ret (Some (rs_cid w), store 0 name (replicate 33 0))"
    using name by (simp add: take_ssid_def rm_types)
  have "handle_set_ssid e port w = ret (snd (rm_do e (RmSend port (enc_msg RM_STATUS ([] @ [(RM_S_SUCCESS, [])]))) v))"
    using reply_ok [of RM_STATUS "[]" RM_S_SUCCESS "[]" e port v]
    by (simp add: handle_set_ssid_def cooperativeD(1) [OF c] init_ok walk not_logged_in_def s v(1) RM_MAX_MSG_LEN_def)
  moreover have "talk True v (snd (rm_do e (RmSend port (enc_msg RM_STATUS ([] @ [(RM_S_SUCCESS, [])]))) v))"
    by (rule talk_do) (auto simp: is_reply_def RM_MAX_MSG_LEN_def)
  ultimately show ?thesis
    using new_calls_later [OF _ v(3)] new_callsI [OF v(2) log_do(1)] by auto
qed

text \<open>The loop hands a message to its handler.\<close>

lemma step_handles:
  assumes "length (rm_h w) = RM_MAX_MSG_LEN" "length (enc_msg ty ts) \<le> RM_MAX_MSG_LEN"
  defines "v \<equiv> w\<lparr>rm_h := store 0 (take RM_MAX_MSG_LEN (enc_msg ty ts)) (rm_h w)\<rparr>"
  shows "received ty ts v" "same_lengths w v"
    "ty = RM_LOGIN \<Longrightarrow> ramad_step e port (enc_msg ty ts) w = handle_login e port v"
    "ty = RM_PASSWD \<Longrightarrow> ramad_step e port (enc_msg ty ts) w = handle_passwd e port v"
    "ty = RM_SET_SSID \<Longrightarrow> ramad_step e port (enc_msg ty ts) w = handle_set_ssid e port v"
proof -
  show r: "received ty ts v" unfolding v_def using assms(1,2) by (rule receive)
  show "same_lengths w v" using assms(1,2) by (simp add: v_def same_lengths_def)
  have v: "w\<lparr>rm_h := store 0 (take RM_MAX_MSG_LEN (enc_msg ty ts)) (rm_h w)\<rparr> = v" by (simp add: v_def)
  have ty: "rd_le32 (le32 ty) = ty" using rd_le32_front [of ty "[]"] by simp
  have s: "ramad_step e port (enc_msg ty ts) w = (if ty = RM_QUERY then handle_query e port v else if ty = RM_LOGIN then handle_login e port v
      else if ty = RM_PASSWD then handle_passwd e port v else if ty = RM_SET_IP then handle_set_ip e port v
      else if ty = RM_SET_SSID then handle_set_ssid e port v else ret v)"
    by (simp add: ramad_step_def v Let_def receivedD(2,3) [OF r] ty)
  show "ty = RM_LOGIN \<Longrightarrow> ramad_step e port (enc_msg ty ts) w = handle_login e port v"
    "ty = RM_PASSWD \<Longrightarrow> ramad_step e port (enc_msg ty ts) w = handle_passwd e port v"
    "ty = RM_SET_SSID \<Longrightarrow> ramad_step e port (enc_msg ty ts) w = handle_set_ssid e port v"
    unfolding s by (simp_all add: rm_types)
qed

section \<open>Messages that never end\<close>

text \<open>A TLV of minus eight bytes behind one of eight: the loop goes back and forth between the two.\<close>

definition loop_msg :: "byte list" where
  "loop_msg = le32 28 @ le32 RM_SET_IP @ le32 RM_MAGIC @ le32 8 @ le32 0 @ le32 (- 8) @ le32 0"

definition loops_at :: "byte list \<Rightarrow> int \<Rightarrow> int \<Rightarrow> bool" where
  "loops_at h p len \<longleftrightarrow> (\<exists>rest. h = loop_msg @ rest) \<and> (p = 12 \<and> len = 16 \<or> p = 20 \<and> len = 8)"

lemma loop_words:
  assumes "h = loop_msg @ rest"
  shows "tlv_word 12 h = ret 8" "tlv_word 16 h = ret 0" "tlv_word 20 h = ret (- 8)" "tlv_word 24 h = ret 0"
  unfolding assms loop_msg_def
  using tlv_word_at [of "le32 28 @ le32 RM_SET_IP @ le32 RM_MAGIC" 12 8] tlv_word_at [of "le32 28 @ le32 RM_SET_IP @ le32 RM_MAGIC @ le32 8" 16 0]
    tlv_word_at [of "le32 28 @ le32 RM_SET_IP @ le32 RM_MAGIC @ le32 8 @ le32 0" 20 "- 8"]
    tlv_word_at [of "le32 28 @ le32 RM_SET_IP @ le32 RM_MAGIC @ le32 8 @ le32 0 @ le32 (- 8)" 24 0]
  by simp_all

lemma loop_next:
  assumes "loops_at h p len"
  shows "RMT_OK h p len = ret True" "tlv_word (p + 4) h = ret 0"
    "\<exists>l. tlv_word p h = ret l \<and> loops_at h (p + sint l) (s32 (len - sint l))"
proof -
  obtain rest where h: "h = loop_msg @ rest" using assms by (auto simp: loops_at_def)
  have m8: "sint (- 8 :: u32) = - 8" "sint (8 :: u32) = 8" by simp_all
  show "RMT_OK h p len = ret True" "tlv_word (p + 4) h = ret 0"
    "\<exists>l. tlv_word p h = ret l \<and> loops_at h (p + sint l) (s32 (len - sint l))"
    using assms loop_words [OF h] m8 by (auto simp: loops_at_def h RMT_OK_def RM_TLV_HDR_LEN_def)
qed

lemma set_ip_walk_hangs:
  assumes "loops_at h p len"
  shows "set_ip_walk h p len cid ip = None"
proof (rule ccontr)
  assume "set_ip_walk h p len cid ip \<noteq> None"
  then obtain r where r: "set_ip_walk h p len cid ip = Some r" by blast
  have "\<not> loops_at h p len"
  proof (rule set_ip_walk.raw_induct [OF _ r, where P = "\<lambda>h p len cid ip r. \<not> loops_at h p len"])
    fix walk :: "byte list \<Rightarrow> int \<Rightarrow> int \<Rightarrow> byte list option \<Rightarrow> byte list option \<Rightarrow> (byte list option \<times> byte list option) run"
      and h p len cid ip r
    assume IH: "\<And>h p len cid ip r. walk h p len cid ip = Some r \<Longrightarrow> \<not> loops_at h p len"
      and step: "run_bind (RMT_OK h p len) (\<lambda>ok. if \<not> ok then ret (cid, ip) else
       run_bind (tlv_word (p + 4) h) (\<lambda>t.
       run_bind (if t = RM_I_CID then run_map (\<lambda>v. (Some v, ip)) (tlv_value p 6 h)
                 else if t = RM_I_IP then run_map (\<lambda>v. (cid, Some v)) (tlv_value p 4 h)
                 else ret (cid, ip)) (\<lambda>(cid, ip).
       run_bind (tlv_word p h) (\<lambda>l. walk h (p + sint l) (s32 (len - sint l)) cid ip)))) = Some r"
    show "\<not> loops_at h p len"
    proof
      assume l: "loops_at h p len"
      show False using step loop_next [OF l] IH by (auto simp: rm_types)
    qed
  qed
  with assms show False by blast
qed

text \<open>The loop hands a message to the handler of \<open>RM_SET_IP\<close>, which begins with its TLVs.\<close>

lemma step_set_ip:
  assumes "h = store 0 (take RM_MAX_MSG_LEN pkt) (rm_h w)" "rm_msg_check h = ret True" "mem_read 4 4 h = ret (le32 RM_SET_IP)" "rm_alloc e RM_HDR_LEN"
  shows "set_ip_walk h (int RM_HDR_LEN) (RMM_LEN h) None None = None \<Longrightarrow> ramad_step e port pkt w = None"
    "set_ip_walk h (int RM_HDR_LEN) (RMM_LEN h) None None = fail f \<Longrightarrow> ramad_step e port pkt w = fail f"
  using rd_le32_front [of RM_SET_IP "[]"] assms(2-)
  by (simp_all add: ramad_step_def handle_set_ip_def rm_msg_init_def Let_def rm_types flip: assms(1))

text \<open>A TLV that ends with the buffer, in a message that claims to be longer: the next one is read behind it.\<close>

lemma walk_overread:
  assumes "tlv_word 12 h = ret 116" "tlv_word 16 h = ret 0" "tlv_word 128 h = fail OutOfBounds"
  shows "set_ip_walk h 12 4084 None None = fail OutOfBounds"
  by (subst set_ip_walk.simps, subst set_ip_walk.simps) (simp add: RMT_OK_def RM_TLV_HDR_LEN_def assms rm_types run_map_def)

section \<open>Properties\<close>

text \<open>The library builds a message TLV by TLV.\<close>

fun append_all :: "allocator \<Rightarrow> tlv list \<Rightarrow> byte list \<Rightarrow> byte list option run" where
  "append_all alloc [] h = ret (Some h)"
| "append_all alloc (x # xs) h = run_bind (rm_append_tlv alloc (fst x) (snd x) h) (\<lambda>h. case h of None \<Rightarrow> ret None | Some h \<Rightarrow> append_all alloc xs h)"

lemma append_all_enc: "length (enc_msg ty (ts @ us)) \<le> RM_MAX_MSG_LEN \<Longrightarrow> append_all no_oom us (enc_msg ty ts) = ret (Some (enc_msg ty (ts @ us)))"
proof (induction us arbitrary: ts)
  case (Cons x us)
  then show ?case using append_ok [of ty ts "fst x" "snd x"] Cons.IH [of "ts @ [x]"] by (simp add: RM_MAX_MSG_LEN_def)
qed simp

text \<open>C30. A message that the library builds from any sequence of TLVs that fits is understood by the agent, whatever its buffer held before: it
  passes the check, the handler of \<open>RM_SET_IP\<close> takes the last identifier and the last address from it, and the one of \<open>RM_SET_SSID\<close> the
  last identifier and the names, in their order; types that they do not know are passed over.\<close>

theorem messages_are_understood:
  assumes "length (enc_body ts) + RM_HDR_LEN \<le> RM_MAX_MSG_LEN" "list_all full_tlv ts" "length buf = RM_MAX_MSG_LEN"
  shows "\<exists>h m. rm_msg_init no_oom ty = Some h \<and> append_all no_oom ts h = ret (Some m)
    \<and> (let b = store 0 (take RM_MAX_MSG_LEN m) buf in rm_msg_check b = ret True \<and> mem_read 4 4 b = ret (le32 ty)
      \<and> set_ip_walk b (int RM_HDR_LEN) (RMM_LEN b) None None = ret (foldl take_ip (None, None) ts)
      \<and> set_ssid_walk b (int RM_HDR_LEN) (RMM_LEN b) None (replicate 33 0) = ret (foldl take_ssid (None, replicate 33 0) ts))"
proof -
  have l: "length (enc_msg ty ts) \<le> RM_MAX_MSG_LEN" using assms(1) by (simp add: RM_HDR_LEN_def)
  have r: "received ty ts (ramad_zero\<lparr>rm_h := store 0 (take RM_MAX_MSG_LEN (enc_msg ty ts)) buf\<rparr>)"
    using receive [of "ramad_zero\<lparr>rm_h := buf\<rparr>" ty ts] assms(3) l by simp
  have a: "append_all no_oom ts (enc_msg ty []) = ret (Some (enc_msg ty ts))" using append_all_enc [of ty "[]" ts] l by simp
  have "let b = store 0 (take RM_MAX_MSG_LEN (enc_msg ty ts)) buf in rm_msg_check b = ret True \<and> mem_read 4 4 b = ret (le32 ty)
      \<and> set_ip_walk b (int RM_HDR_LEN) (RMM_LEN b) None None = ret (foldl take_ip (None, None) ts)
      \<and> set_ssid_walk b (int RM_HDR_LEN) (RMM_LEN b) None (replicate 33 0) = ret (foldl take_ssid (None, replicate 33 0) ts)"
    unfolding Let_def using receivedD(2,3) [OF r] received_walks [OF r assms(2)] by simp
  with a show ?thesis using init_ok [of ty] by blast
qed

theorem messages_are_understood_witness:
  "\<exists>h m. rm_msg_init no_oom RM_SET_IP = Some h
    \<and> append_all no_oom [(RM_I_CID, [1, 2, 3, 4, 5, 6]), (7, [0]), (RM_I_IP, [10, 10, 10, 254])] h = ret (Some m)
    \<and> set_ip_walk (store 0 (take RM_MAX_MSG_LEN m) (replicate 128 255)) (int RM_HDR_LEN) (RMM_LEN (store 0 (take RM_MAX_MSG_LEN m) (replicate 128 255))) None None
      = ret (Some [1, 2, 3, 4, 5, 6], Some [10, 10, 10, 254])"
  using messages_are_understood [of "[(RM_I_CID, [1, 2, 3, 4, 5, 6]), (7, [0]), (RM_I_IP, [10, 10, 10, 254])]" "replicate 128 255" RM_SET_IP]
  by (auto simp: RM_HDR_LEN_def RM_MAX_MSG_LEN_def full_tlv_def take_ip_def rm_types Let_def)

text \<open>C10. A client that knows the password is served: in every state the agent can be in, if the calls of the system succeed, the login message
  with the address of the router is answered by a new challenge, the digest of the nonce of that challenge, the user name and the password by
  an identifier, and the message with this identifier and a name sets the name of the network and is answered by success.\<close>

theorem login_session:
  assumes "cooperative e mac user pw" "ramad_reaches e (\<lambda>w pkt. True) w" "0 \<notin> set name" "length name \<le> 32"
  shows "\<exists>w1 w2 w3. ramad_step e port (enc_msg RM_LOGIN [(RM_L_SID, mac)]) w = ret w1
    \<and> RmSend port (enc_msg RM_CHALLENGE [(RM_L_NONCE, rs_nonce w1)]) \<in> set (new_calls w w1)
    \<and> ramad_step e port (enc_msg RM_PASSWD [(RM_L_HASH, md5_spec (rs_nonce w1 @ text_bytes user @ text_bytes pw))]) w1 = ret w2
    \<and> RmSend port (enc_msg RM_STATUS [(RM_S_SUCCESS, []), (RM_I_CID, rs_cid w2)]) \<in> set (new_calls w1 w2)
    \<and> ramad_step e port (enc_msg RM_SET_SSID [(RM_I_CID, rs_cid w2), (RM_I_SSID, name)]) w2 = ret w3
    \<and> RmSetEssid (text_bytes ''SSID='' @ name) \<in> set (new_calls w2 w3)
    \<and> RmSend port (enc_msg RM_STATUS [(RM_S_SUCCESS, [])]) \<in> set (new_calls w2 w3)"
proof -
  note l = reaches_lengths(1-3) [OF assms(2)]
  let ?m1 = "enc_msg RM_LOGIN [(RM_L_SID, mac)]"
  have m1: "length ?m1 \<le> RM_MAX_MSG_LEN" using cooperativeD(8) [OF assms(1)] by (simp add: RM_MAX_MSG_LEN_def)
  note s1 = step_handles [OF l(3) m1]
  obtain w1 where 1: "ramad_step e port ?m1 w = ret w1" "rs_state w1 = 1" "same_lengths w w1"
      "RmSend port (enc_msg RM_CHALLENGE [(RM_L_NONCE, rs_nonce w1)]) \<in> set (new_calls w w1)"
    using login_ok [OF assms(1) s1(1), where port = port] s1(2) s1(3) [where port = port] l by (auto simp: same_lengths_def new_calls_def)
  note l1 = 1(3) [unfolded same_lengths_def l]
  let ?m2 = "enc_msg RM_PASSWD [(RM_L_HASH, md5_spec (rs_nonce w1 @ text_bytes user @ text_bytes pw))]"
  have m2: "length ?m2 \<le> RM_MAX_MSG_LEN" by (simp add: RM_MAX_MSG_LEN_def)
  note s2 = step_handles [OF l1 [THEN conjunct2, THEN conjunct2] m2]
  obtain w2 where 2: "ramad_step e port ?m2 w1 = ret w2" "rs_state w2 = 2" "same_lengths w1 w2"
      "RmSend port (enc_msg RM_STATUS [(RM_S_SUCCESS, []), (RM_I_CID, rs_cid w2)]) \<in> set (new_calls w1 w2)"
    using passwd_ok [OF assms(1), of "w1\<lparr>rm_h := store 0 (take RM_MAX_MSG_LEN ?m2) (rm_h w1)\<rparr>" port] s2(1,2) s2(4) [where port = port] 1(2) l1
    by (auto simp: same_lengths_def new_calls_def)
  note l2 = 2(3) [unfolded same_lengths_def]
  let ?m3 = "enc_msg RM_SET_SSID [(RM_I_CID, rs_cid w2), (RM_I_SSID, name)]"
  have m3: "length ?m3 \<le> RM_MAX_MSG_LEN" using l1 l2 assms(4) by (simp add: RM_MAX_MSG_LEN_def)
  have h2: "length (rm_h w2) = RM_MAX_MSG_LEN" "length (rs_cid w2) = 6" using l1 l2 by simp_all
  note s3 = step_handles [OF h2(1) m3]
  obtain w3 where 3: "ramad_step e port ?m3 w2 = ret w3" "RmSetEssid (text_bytes ''SSID='' @ name) \<in> set (new_calls w2 w3)"
      "RmSend port (enc_msg RM_STATUS [(RM_S_SUCCESS, [])]) \<in> set (new_calls w2 w3)"
    using set_essid_ok [OF assms(1) _ assms(3,4), of "w2\<lparr>rm_h := store 0 (take RM_MAX_MSG_LEN ?m3) (rm_h w2)\<rparr>" port] s3(1) s3(5) [where port = port] 2(2) h2(2)
    by (auto simp: new_calls_def)
  show ?thesis using 1 2 3 by blast
qed

lemma rama_env1_cooperative: "cooperative rama_env1 [0, 1, 2, 3, 4, 5] ''admin'' ''secret''"
  by (simp add: cooperative_def rama_env1_def upt_rec split: rm_call.split)

lemma rama_env1_starts: "\<exists>w. ramad_init rama_env1 (replicate 128 0) ramad_zero = ret w"
  by (simp add: ramad_init_def rm_init_sock_def rm_do_def rama_env1_def)

theorem login_session_witness:
  "\<exists>w w1 w2 w3. ramad_reaches rama_env1 (\<lambda>w pkt. True) w
    \<and> ramad_step rama_env1 9 (enc_msg RM_LOGIN [(RM_L_SID, [0, 1, 2, 3, 4, 5])]) w = ret w1
    \<and> ramad_step rama_env1 9 (enc_msg RM_PASSWD [(RM_L_HASH, md5_spec (rs_nonce w1 @ text_bytes ''admin'' @ text_bytes ''secret''))]) w1 = ret w2
    \<and> ramad_step rama_env1 9 (enc_msg RM_SET_SSID [(RM_I_CID, rs_cid w2), (RM_I_SSID, text_bytes ''home'')]) w2 = ret w3
    \<and> RmSetEssid (text_bytes ''SSID='' @ text_bytes ''home'') \<in> set (new_calls w2 w3)"
proof -
  obtain w where "ramad_init rama_env1 (replicate 128 0) ramad_zero = ret w" using rama_env1_starts by blast
  then have r: "ramad_reaches rama_env1 (\<lambda>w pkt. True) w" by (intro begins) (simp_all add: RM_MAX_MSG_LEN_def)
  have "0 \<notin> set (text_bytes ''home'')" "length (text_bytes ''home'') \<le> 32" by (simp_all add: text_bytes_def)
  from login_session [OF rama_env1_cooperative r this, of 9] show ?thesis using r by blast
qed

text \<open>C32. A message with a TLV of negative length hangs the agent: \<open>RMT_OK\<close> compares that length with the size of a TLV header as an unsigned
  number. Behind a TLV of 8 bytes, one of minus 8 bytes sends the loop of \<open>RM_SET_IP\<close> back to the first one, and so on forever; no login is
  needed for it.\<close>

theorem negative_length_hangs:
  assumes "rm_alloc e RM_HDR_LEN" "length (rm_h w) = RM_MAX_MSG_LEN"
  shows "ramad_step e port loop_msg w = None"
proof -
  let ?h = "store 0 (take RM_MAX_MSG_LEN loop_msg) (rm_h w)"
  have h: "?h = loop_msg @ drop 28 (rm_h w)" using assms(2) by (simp add: loop_msg_def store_def RM_MAX_MSG_LEN_def)
  have len: "rd_le32 (take 12 ?h) = 28" "RMM_LEN ?h = 16" "slice 4 4 ?h = le32 RM_SET_IP" "slice 8 4 (take 12 ?h) = le32 RM_MAGIC"
    unfolding h by (simp_all add: RMM_LEN_def loop_msg_def rd_le32_front RM_HDR_LEN_def slice_def)
  have check: "rm_msg_check ?h = ret True" "mem_read 4 4 ?h = ret (le32 RM_SET_IP)"
    using assms(2) unfolding h
    by (simp_all add: rm_msg_check_def mem_read_def slice_def RM_HDR_LEN_def RM_MAX_MSG_LEN_def loop_msg_def rd_le32_front)
  have "loops_at ?h (int RM_HDR_LEN) (RMM_LEN ?h)" unfolding len(2) by (auto simp: loops_at_def h RM_HDR_LEN_def)
  from step_set_ip(1) [OF refl check assms(1) set_ip_walk_hangs [OF this]] show ?thesis .
qed

theorem negative_length_hangs_witness: "ramad_step rama_env1 9 loop_msg (ramad_zero\<lparr>rm_h := replicate 128 0\<rparr>) = None"
  by (rule negative_length_hangs) (simp_all add: rama_env1_def no_oom_def RM_MAX_MSG_LEN_def)

text \<open>C33. The length that a message states is not compared with what was received: a header of 12 bytes that claims 4096, with a first TLV that
  claims to be as long as the rest of the receive buffer, makes the agent read behind it; no login is needed for it.\<close>

theorem stated_length_overread:
  assumes "rm_alloc e RM_HDR_LEN" "length (rm_h w) = RM_MAX_MSG_LEN"
  shows "ramad_step e port (le32 4096 @ le32 RM_SET_IP @ le32 RM_MAGIC @ le32 116 @ le32 0) w = fail OutOfBounds"
proof -
  let ?m = "le32 4096 @ le32 RM_SET_IP @ le32 RM_MAGIC @ le32 116 @ le32 (0 :: u32)"
  let ?h = "store 0 (take RM_MAX_MSG_LEN ?m) (rm_h w)"
  have h: "?h = ?m @ drop 20 (rm_h w)" using assms(2) by (simp add: store_def RM_MAX_MSG_LEN_def)
  have len: "RMM_LEN ?h = 4084" "length ?h = 128" using assms(2) unfolding h
    by (simp_all add: RMM_LEN_def rd_le32_front RM_HDR_LEN_def RM_MAX_MSG_LEN_def)
  have check: "rm_msg_check ?h = ret True" "mem_read 4 4 ?h = ret (le32 RM_SET_IP)"
    using assms(2) unfolding h
    by (simp_all add: rm_msg_check_def mem_read_def slice_def RM_HDR_LEN_def RM_MAX_MSG_LEN_def rd_le32_front)
  have w: "tlv_word 12 ?h = ret 116" "tlv_word 16 ?h = ret 0" "tlv_word 128 ?h = fail OutOfBounds"
    using tlv_word_at [of "le32 4096 @ le32 RM_SET_IP @ le32 RM_MAGIC" 12 116] tlv_word_at [of "le32 4096 @ le32 RM_SET_IP @ le32 RM_MAGIC @ le32 116" 16 0] len(2)
    unfolding h by (simp_all add: tlv_word_def mem_read_def run_map_def)
  from walk_overread [OF w] have "set_ip_walk ?h (int RM_HDR_LEN) (RMM_LEN ?h) None None = fail OutOfBounds"
    unfolding len(1) RM_HDR_LEN_def of_nat_numeral .
  from step_set_ip(2) [OF refl check assms(1) this] show ?thesis .
qed

theorem stated_length_overread_witness:
  "ramad_step rama_env1 9 (le32 4096 @ le32 RM_SET_IP @ le32 RM_MAGIC @ le32 116 @ le32 0) (ramad_zero\<lparr>rm_h := replicate 128 0\<rparr>) = fail OutOfBounds"
  by (rule stated_length_overread) (simp_all add: rama_env1_def no_oom_def RM_MAX_MSG_LEN_def)

end
