(* ===== verification/NvFile.thy ===== *)
theory NvFile
  imports ProxyConfig
begin

text \<open>
  The settings of the router: \<open>rt2880_app/nvram/ralink_init.c\<close>. \<open>gen_config\<close> writes the settings of the flash memory to the file that the wireless
  driver reads, \<open>renew_nvram\<close> sets them from such a file, and there are commands that get and set one of them.

  The flash memory is behind the library \<open>libnvram\<close>, which is not in this repository: what it returns is a parameter, and what is asked of it goes
  to a log. The switches of the build that the file depends on are \<open>nv_build\<close>; the switches for a second wireless device, for two images, for
  certificates and for a second memory are off.
\<close>

section \<open>The system\<close>

datatype nv_handler = LoadDefaultHandler | DoWPSHandler | DhcpcHandler | TriggerWPS | HotPluglerHandler | QueryWPSStatus

datatype nv_signal = SIGPIPE | SIGUSR1 | SIGUSR2 | SIGTSTP | SIGXFSZ | SIGTTIN | SIGALRM

text \<open>\<open>NvFile path text\<close> is the file that \<open>fclose\<close> leaves. The zones of the memory are numbers.\<close>

datatype nv_call =
    NvInit int | NvClose int | NvBufset int string string | NvCommit int | NvSet int string string | NvBuflist int | NvClear int
  | NvSystem string | NvCreate string | NvFile string string | NvPrint string
  | NvAccess string | NvWscStatus string | NvWscProfile string | NvCurrentWscProfile string
  | NvOpen string | NvLedSet int int int int int int | NvGpioIn int | NvGpioIntr | NvGpioReg int | NvCloseFd int
  | NvTimer int | NvSignal nv_signal | NvUnlink string

text \<open>The library, the calls of the system and the constants of headers that are not in the repository. \<open>nv_index_fn\<close> is the address of the
  function \<open>index\<close> of the C library.\<close>

record nv_env =
  nv_bufget :: "nv_call list \<Rightarrow> int \<Rightarrow> string \<Rightarrow> string option"
  nv_get :: "nv_call list \<Rightarrow> int \<Rightarrow> string \<Rightarrow> string option"
  getNvramIndex :: "string \<Rightarrow> int"
  nv_answer :: "nv_call list \<Rightarrow> nv_call \<Rightarrow> int"
  nv_file :: "nv_call list \<Rightarrow> string \<Rightarrow> string option"
  flash_read_mac :: "nv_call list \<Rightarrow> byte list"
  RT2860_NVRAM :: int
  RTDEV_NVRAM :: int
  CERT_NVRAM :: int
  nv_index_fn :: int
  RALINK_GPIO_NUMBER :: int
  RALINK_GPIO_LED_INFINITY :: int
  wsc_profile :: "nv_call list \<Rightarrow> byte list"
  wsc_configured :: "nv_call list \<Rightarrow> int"

record nv_build =
  mbss16 :: bool
  video_turbine :: bool
  unique_wps :: bool
  lan_wan :: bool
  nf_filter :: bool
  swqos :: bool
  custom_qos :: bool
  hwqos :: bool
  ipv6 :: bool
  nat_hw :: bool

text \<open>The program with its variables: the log, and those of \<open>nvram_daemon.c\<close>. \<open>nv_alarm\<close> is the interval of the timer, 0 when it is off.\<close>

record nvd =
  nv_calls :: "nv_call list"
  wsc_timeout_counter :: int
  g_wps_timer_state :: int
  nv_alarm :: int
  nv_handlers :: "nv_signal \<Rightarrow> nv_handler option"
  saved_pidfile :: "string option"

definition nv_do :: "nv_env \<Rightarrow> nv_call \<Rightarrow> nvd \<Rightarrow> int \<times> nvd" where
  "nv_do e c w = (nv_answer e (nv_calls w) c, w\<lparr>nv_calls := nv_calls w @ [c]\<rparr>)"

definition nv_log :: "nv_call \<Rightarrow> nvd \<Rightarrow> nvd" where
  "nv_log c w = w\<lparr>nv_calls := nv_calls w @ [c]\<rparr>"

definition system :: "string \<Rightarrow> nvd \<Rightarrow> nvd" where
  "system s = nv_log (NvSystem s)"

text \<open>A text from the library that the code uses without testing it.\<close>

definition nv_text :: "string option \<Rightarrow> string run" where
  "nv_text v = (case v of None \<Rightarrow> fail NullDeref | Some s \<Rightarrow> ret s)"

definition dec_int :: "int \<Rightarrow> string" where
  "dec_int i = (if i < 0 then ''-'' @ dec_digits (nat (- i)) else dec_digits (nat i))"

section \<open>The file of the driver\<close>

text \<open>\<open>FPRINT_NUM(x)\<close> and \<open>FPRINT_STR(x)\<close>, a constant line, the number of networks, a value that is repeated for every network, and three
  lines that depend on other settings.\<close>

datatype nv_row =
    FPRINT_NUM string | FPRINT_STR string | FPRINT_CONST string string | BSSIDS | PER_BSSID string | WSC_CONF_STATUS | WSC_PIN | RADIO_ON

definition bss_rows :: "nv_build \<Rightarrow> nv_row list" where
  "bss_rows b =
     [FPRINT_NUM ''CountryRegion'', FPRINT_NUM ''CountryRegionABand'', FPRINT_STR ''CountryCode'', FPRINT_NUM ''BssidNum'', BSSIDS,
      FPRINT_STR ''SSID1'', FPRINT_STR ''SSID2'', FPRINT_STR ''SSID3'', FPRINT_STR ''SSID4'', FPRINT_STR ''SSID5'', FPRINT_STR ''SSID6'',
      FPRINT_STR ''SSID7'', FPRINT_STR ''SSID8'']
     @ (if mbss16 b then [FPRINT_STR ''SSID9'', FPRINT_STR ''SSID10'', FPRINT_STR ''SSID11'', FPRINT_STR ''SSID12'', FPRINT_STR ''SSID13'',
      FPRINT_STR ''SSID14'', FPRINT_STR ''SSID15'', FPRINT_STR ''SSID16''] else [])"

definition radio_rows :: "nv_build \<Rightarrow> nv_row list" where
  "radio_rows b =
     [FPRINT_NUM ''WirelessMode'', FPRINT_STR ''FixedTxMode'', PER_BSSID ''TxRate'', FPRINT_NUM ''Channel'', FPRINT_NUM ''BasicRate'',
      FPRINT_NUM ''BeaconPeriod'', FPRINT_NUM ''DtimPeriod'', FPRINT_NUM ''TxPower'', FPRINT_NUM ''DisableOLBC'',
      FPRINT_NUM ''BGProtection'', FPRINT_CONST ''TxAntenna'' '''', FPRINT_CONST ''RxAntenna'' '''', FPRINT_NUM ''TxPreamble'',
      FPRINT_NUM ''RTSThreshold'', FPRINT_NUM ''FragThreshold'', FPRINT_NUM ''TxBurst'', FPRINT_NUM ''PktAggregate'',
      FPRINT_NUM ''AutoProvisionEn'', FPRINT_NUM ''FreqDelta'', FPRINT_CONST ''TurboRate'' ''0'']
     @ (if video_turbine b then [FPRINT_NUM ''VideoTurbine''] else [])
     @ [PER_BSSID ''WmmCapable'']"

definition station_rows :: "nv_build \<Rightarrow> nv_row list" where
  "station_rows b =
     [FPRINT_STR ''APAifsn'', FPRINT_STR ''APCwmin'', FPRINT_STR ''APCwmax'', FPRINT_STR ''APTxop'', FPRINT_STR ''APACM'',
      FPRINT_STR ''BSSAifsn'', FPRINT_STR ''BSSCwmin'', FPRINT_STR ''BSSCwmax'', FPRINT_STR ''BSSTxop'', FPRINT_STR ''BSSACM'',
      FPRINT_STR ''AckPolicy'', FPRINT_STR ''APSDCapable'', FPRINT_STR ''DLSCapable'', FPRINT_STR ''NoForwarding'',
      FPRINT_NUM ''NoForwardingBTNBSSID'', FPRINT_STR ''HideSSID'', FPRINT_NUM ''ShortSlot'', FPRINT_NUM ''AutoChannelSelect'',
      FPRINT_STR ''IEEE8021X'', FPRINT_NUM ''IEEE80211H'', FPRINT_NUM ''CarrierDetect'', FPRINT_NUM ''ITxBfEn'',
      FPRINT_STR ''PreAntSwitch'', FPRINT_NUM ''PhyRateLimit'', FPRINT_NUM ''DebugFlags'', FPRINT_NUM ''ETxBfEnCond'',
      FPRINT_NUM ''ITxBfTimeout'', FPRINT_NUM ''ETxBfTimeout'', FPRINT_NUM ''ETxBfNoncompress'', FPRINT_NUM ''ETxBfIncapable'',
      FPRINT_NUM ''FineAGC'', FPRINT_NUM ''StreamMode'', FPRINT_STR ''StreamModeMac0'', FPRINT_STR ''StreamModeMac1'',
      FPRINT_STR ''StreamModeMac2'', FPRINT_STR ''StreamModeMac3'', FPRINT_NUM ''CSPeriod'', FPRINT_STR ''RDRegion'',
      FPRINT_NUM ''StationKeepAlive'', FPRINT_NUM ''DfsLowerLimit'', FPRINT_NUM ''DfsUpperLimit'', FPRINT_NUM ''DfsOutdoor'',
      FPRINT_NUM ''SymRoundFromCfg'', FPRINT_NUM ''BusyIdleFromCfg'', FPRINT_NUM ''DfsRssiHighFromCfg'', FPRINT_NUM ''DfsRssiLowFromCfg'',
      FPRINT_NUM ''DFSParamFromConfig'', FPRINT_STR ''FCCParamCh0'', FPRINT_STR ''FCCParamCh1'', FPRINT_STR ''FCCParamCh2'',
      FPRINT_STR ''FCCParamCh3'', FPRINT_STR ''CEParamCh0'', FPRINT_STR ''CEParamCh1'', FPRINT_STR ''CEParamCh2'',
      FPRINT_STR ''CEParamCh3'', FPRINT_STR ''JAPParamCh0'', FPRINT_STR ''JAPParamCh1'', FPRINT_STR ''JAPParamCh2'',
      FPRINT_STR ''JAPParamCh3'', FPRINT_STR ''JAPW53ParamCh0'', FPRINT_STR ''JAPW53ParamCh1'', FPRINT_STR ''JAPW53ParamCh2'',
      FPRINT_STR ''JAPW53ParamCh3'', FPRINT_NUM ''FixDfsLimit'', FPRINT_NUM ''LongPulseRadarTh'', FPRINT_NUM ''AvgRssiReq'',
      FPRINT_NUM ''DFS_R66'', FPRINT_STR ''BlockCh'', FPRINT_NUM ''GreenAP'', FPRINT_STR ''PreAuth'', FPRINT_STR ''AuthMode'',
      FPRINT_STR ''EncrypType'']"

definition security_rows :: "nv_build \<Rightarrow> nv_row list" where
  "security_rows b =
     [FPRINT_STR ''WapiPsk1'', FPRINT_STR ''WapiPsk2'', FPRINT_STR ''WapiPsk3'', FPRINT_STR ''WapiPsk4'', FPRINT_STR ''WapiPsk5'',
      FPRINT_STR ''WapiPsk6'', FPRINT_STR ''WapiPsk7'', FPRINT_STR ''WapiPsk8'']
     @ (if mbss16 b then [FPRINT_STR ''WapiPsk9'', FPRINT_STR ''WapiPsk10'', FPRINT_STR ''WapiPsk11'', FPRINT_STR ''WapiPsk12'', FPRINT_STR ''WapiPsk13'',
      FPRINT_STR ''WapiPsk14'', FPRINT_STR ''WapiPsk15'', FPRINT_STR ''WapiPsk16''] else [])
     @ [FPRINT_STR ''WapiPskType'', FPRINT_STR ''Wapiifname'', FPRINT_STR ''WapiAsCertPath'', FPRINT_STR ''WapiUserCertPath'',
      FPRINT_STR ''WapiAsIpAddr'', FPRINT_STR ''WapiAsPort'', FPRINT_NUM ''BssidNum'', FPRINT_STR ''RekeyMethod'',
      FPRINT_NUM ''RekeyInterval'', FPRINT_STR ''PMKCachePeriod'', FPRINT_NUM ''MeshAutoLink'', FPRINT_STR ''MeshAuthMode'',
      FPRINT_STR ''MeshEncrypType'', FPRINT_NUM ''MeshDefaultkey'', FPRINT_STR ''MeshWEPKEY'', FPRINT_STR ''MeshWPAKEY'',
      FPRINT_STR ''MeshId'', FPRINT_STR ''WPAPSK1'', FPRINT_STR ''WPAPSK2'', FPRINT_STR ''WPAPSK3'', FPRINT_STR ''WPAPSK4'',
      FPRINT_STR ''WPAPSK5'', FPRINT_STR ''WPAPSK6'', FPRINT_STR ''WPAPSK7'', FPRINT_STR ''WPAPSK8'']
     @ (if mbss16 b then [FPRINT_STR ''WPAPSK9'', FPRINT_STR ''WPAPSK10'', FPRINT_STR ''WPAPSK11'', FPRINT_STR ''WPAPSK12'', FPRINT_STR ''WPAPSK13'',
      FPRINT_STR ''WPAPSK14'', FPRINT_STR ''WPAPSK15'', FPRINT_STR ''WPAPSK16''] else [])"

definition key_rows :: "nv_build \<Rightarrow> nv_row list" where
  "key_rows b =
     [FPRINT_STR ''DefaultKeyID'', FPRINT_STR ''Key1Type'', FPRINT_STR ''Key1Str1'', FPRINT_STR ''Key1Str2'', FPRINT_STR ''Key1Str3'',
      FPRINT_STR ''Key1Str4'', FPRINT_STR ''Key1Str5'', FPRINT_STR ''Key1Str6'', FPRINT_STR ''Key1Str7'', FPRINT_STR ''Key1Str8'']
     @ (if mbss16 b then [FPRINT_STR ''Key1Str9'', FPRINT_STR ''Key1Str10'', FPRINT_STR ''Key1Str11'', FPRINT_STR ''Key1Str12'', FPRINT_STR ''Key1Str13'',
      FPRINT_STR ''Key1Str14'', FPRINT_STR ''Key1Str15'', FPRINT_STR ''Key1Str16''] else [])
     @ [FPRINT_STR ''Key2Type'', FPRINT_STR ''Key2Str1'', FPRINT_STR ''Key2Str2'', FPRINT_STR ''Key2Str3'', FPRINT_STR ''Key2Str4'',
      FPRINT_STR ''Key2Str5'', FPRINT_STR ''Key2Str6'', FPRINT_STR ''Key2Str7'', FPRINT_STR ''Key2Str8'']
     @ (if mbss16 b then [FPRINT_STR ''Key2Str9'', FPRINT_STR ''Key2Str10'', FPRINT_STR ''Key2Str11'', FPRINT_STR ''Key2Str12'', FPRINT_STR ''Key2Str13'',
      FPRINT_STR ''Key2Str14'', FPRINT_STR ''Key2Str15'', FPRINT_STR ''Key2Str16''] else [])
     @ [FPRINT_STR ''Key3Type'', FPRINT_STR ''Key3Str1'', FPRINT_STR ''Key3Str2'', FPRINT_STR ''Key3Str3'', FPRINT_STR ''Key3Str4'',
      FPRINT_STR ''Key3Str5'', FPRINT_STR ''Key3Str6'', FPRINT_STR ''Key3Str7'', FPRINT_STR ''Key3Str8'']
     @ (if mbss16 b then [FPRINT_STR ''Key3Str9'', FPRINT_STR ''Key3Str10'', FPRINT_STR ''Key3Str11'', FPRINT_STR ''Key3Str12'', FPRINT_STR ''Key3Str13'',
      FPRINT_STR ''Key3Str14'', FPRINT_STR ''Key3Str15'', FPRINT_STR ''Key3Str16''] else [])
     @ [FPRINT_STR ''Key4Type'', FPRINT_STR ''Key4Str1'', FPRINT_STR ''Key4Str2'', FPRINT_STR ''Key4Str3'', FPRINT_STR ''Key4Str4'',
      FPRINT_STR ''Key4Str5'', FPRINT_STR ''Key4Str6'', FPRINT_STR ''Key4Str7'', FPRINT_STR ''Key4Str8'']
     @ (if mbss16 b then [FPRINT_STR ''Key4Str9'', FPRINT_STR ''Key4Str10'', FPRINT_STR ''Key4Str11'', FPRINT_STR ''Key4Str12'', FPRINT_STR ''Key4Str13'',
      FPRINT_STR ''Key4Str14'', FPRINT_STR ''Key4Str15'', FPRINT_STR ''Key4Str16''] else [])
     @ [FPRINT_NUM ''HSCounter'']"

definition ht_rows :: "nv_build \<Rightarrow> nv_row list" where
  "ht_rows b =
     [FPRINT_NUM ''HT_HTC'', FPRINT_NUM ''HT_RDG'', FPRINT_NUM ''HT_LinkAdapt'', FPRINT_NUM ''HT_OpMode'', FPRINT_NUM ''HT_MpduDensity'',
      FPRINT_NUM ''HT_EXTCHA'', FPRINT_NUM ''HT_BW'', FPRINT_NUM ''HT_AutoBA'', FPRINT_NUM ''HT_BADecline'', FPRINT_NUM ''HT_AMSDU'',
      FPRINT_NUM ''HT_BAWinSize'', FPRINT_NUM ''HT_GI'', FPRINT_NUM ''HT_STBC'', FPRINT_STR ''HT_MCS'', FPRINT_NUM ''HT_TxStream'',
      FPRINT_NUM ''HT_RxStream'', FPRINT_NUM ''HT_PROTECT'', FPRINT_NUM ''HT_DisallowTKIP'', FPRINT_NUM ''HT_BSSCoexistence'',
      FPRINT_NUM ''HT_LDPC'', FPRINT_NUM ''GreenAP'', FPRINT_NUM ''VHT_BW'', FPRINT_NUM ''VHT_STBC'', FPRINT_NUM ''VHT_SGI'',
      FPRINT_NUM ''VHT_BW_SIGNAL'', FPRINT_NUM ''VHT_LDPC'', FPRINT_NUM ''WscConfMode'']"

definition wps_rows :: "nv_build \<Rightarrow> nv_row list" where
  "wps_rows b =
     [WSC_CONF_STATUS, WSC_PIN, FPRINT_NUM ''WCNTest'']
     @ (if unique_wps b then [FPRINT_STR ''WSC_UUID_Str1'', FPRINT_STR ''WSC_UUID_E1''] else [])"

definition access_rows :: "nv_build \<Rightarrow> nv_row list" where
  "access_rows b =
     [FPRINT_NUM ''AccessPolicy0'', FPRINT_STR ''AccessControlList0'', FPRINT_NUM ''AccessPolicy1'', FPRINT_STR ''AccessControlList1'',
      FPRINT_NUM ''AccessPolicy2'', FPRINT_STR ''AccessControlList2'', FPRINT_NUM ''AccessPolicy3'', FPRINT_STR ''AccessControlList3'',
      FPRINT_NUM ''AccessPolicy4'', FPRINT_STR ''AccessControlList4'', FPRINT_NUM ''AccessPolicy5'', FPRINT_STR ''AccessControlList5'',
      FPRINT_NUM ''AccessPolicy6'', FPRINT_STR ''AccessControlList6'', FPRINT_NUM ''AccessPolicy7'', FPRINT_STR ''AccessControlList7'']
     @ (if mbss16 b then [FPRINT_NUM ''AccessPolicy8'', FPRINT_STR ''AccessControlList8'', FPRINT_NUM ''AccessPolicy9'', FPRINT_STR ''AccessControlList9'',
      FPRINT_NUM ''AccessPolicy10'', FPRINT_STR ''AccessControlList10'', FPRINT_NUM ''AccessPolicy11'', FPRINT_STR ''AccessControlList11'',
      FPRINT_NUM ''AccessPolicy12'', FPRINT_STR ''AccessControlList12'', FPRINT_NUM ''AccessPolicy13'', FPRINT_STR ''AccessControlList13'',
      FPRINT_NUM ''AccessPolicy14'', FPRINT_STR ''AccessControlList14'', FPRINT_NUM ''AccessPolicy15'', FPRINT_STR ''AccessControlList15''] else [])"

definition wds_radius_rows :: "nv_build \<Rightarrow> nv_row list" where
  "wds_radius_rows b =
     [FPRINT_NUM ''WdsEnable'', FPRINT_STR ''WdsPhyMode'', FPRINT_STR ''WdsEncrypType'', FPRINT_STR ''WdsList'', FPRINT_STR ''Wds0Key'',
      FPRINT_STR ''Wds1Key'', FPRINT_STR ''Wds2Key'', FPRINT_STR ''Wds3Key'', FPRINT_STR ''RADIUS_Server'', FPRINT_STR ''RADIUS_Port'',
      FPRINT_STR ''RADIUS_Key1'', FPRINT_STR ''RADIUS_Key2'', FPRINT_STR ''RADIUS_Key3'', FPRINT_STR ''RADIUS_Key4'',
      FPRINT_STR ''RADIUS_Key5'', FPRINT_STR ''RADIUS_Key6'', FPRINT_STR ''RADIUS_Key7'', FPRINT_STR ''RADIUS_Key8'']
     @ (if mbss16 b then [FPRINT_STR ''RADIUS_Key9'', FPRINT_STR ''RADIUS_Key10'', FPRINT_STR ''RADIUS_Key11'', FPRINT_STR ''RADIUS_Key12'',
      FPRINT_STR ''RADIUS_Key13'', FPRINT_STR ''RADIUS_Key14'', FPRINT_STR ''RADIUS_Key15'', FPRINT_STR ''RADIUS_Key16''] else [])
     @ [FPRINT_STR ''RADIUS_Acct_Server'', FPRINT_NUM ''RADIUS_Acct_Port'', FPRINT_STR ''RADIUS_Acct_Key'', FPRINT_STR ''own_ip_addr'',
      FPRINT_STR ''Ethifname'', FPRINT_STR ''EAPifname'', FPRINT_STR ''PreAuthifname'', FPRINT_NUM ''session_timeout_interval'',
      FPRINT_NUM ''idle_timeout_interval'', FPRINT_NUM ''WiFiTest'', FPRINT_NUM ''TGnWifiTest'']"

definition apcli_rows :: "nv_build \<Rightarrow> nv_row list" where
  "apcli_rows b =
     [FPRINT_NUM ''ApCliEnable'', FPRINT_STR ''ApCliSsid'', FPRINT_STR ''ApCliBssid'', FPRINT_STR ''ApCliAuthMode'',
      FPRINT_STR ''ApCliEncrypType'', FPRINT_STR ''ApCliWPAPSK'', FPRINT_NUM ''ApCliDefaultKeyID'', FPRINT_NUM ''ApCliKey1Type'',
      FPRINT_STR ''ApCliKey1Str'', FPRINT_NUM ''ApCliKey2Type'', FPRINT_STR ''ApCliKey2Str'', FPRINT_NUM ''ApCliKey3Type'',
      FPRINT_STR ''ApCliKey3Str'', FPRINT_NUM ''ApCliKey4Type'', FPRINT_STR ''ApCliKey4Str'', FPRINT_NUM ''EfuseBufferMode'',
      FPRINT_NUM ''E2pAccessMode'', RADIO_ON, FPRINT_NUM ''BW_Enable'', FPRINT_NUM ''BW_Root'', FPRINT_STR ''BW_Priority'',
      FPRINT_STR ''BW_Guarantee_Rate'', FPRINT_STR ''BW_Maximum_Rate'', FPRINT_CONST ''SSID'' '''', FPRINT_CONST ''WPAPSK'' '''',
      FPRINT_CONST ''Key1Str'' '''', FPRINT_CONST ''Key2Str'' '''', FPRINT_CONST ''Key3Str'' '''', FPRINT_CONST ''Key4Str'' '''']"

definition wifi_rows :: "nv_build \<Rightarrow> nv_row list" where
  "wifi_rows b = bss_rows b @ radio_rows b @ station_rows b @ security_rows b @ key_rows b @ ht_rows b @ wps_rows b @ access_rows b
     @ wds_radius_rows b @ apcli_rows b"

text \<open>\<open>snprintf(buf + strlen(buf), n, ...)\<close> with the text \<open>s\<close>: at most \<open>n - 1\<close> characters of it are stored.\<close>

definition snprintf_end :: "nat \<Rightarrow> string \<Rightarrow> string \<Rightarrow> string" where
  "snprintf_end n s buf = buf @ take (n - 1) s"

fun per_bssid :: "nat \<Rightarrow> string option \<Rightarrow> string \<Rightarrow> string run" where
  "per_bssid 0 v buf = ret buf"
| "per_bssid (Suc n) v buf =
     run_bind (nv_text v) (\<lambda>s. per_bssid n v (snprintf_end 1 '';'' (snprintf_end 1 (dec_int (atoi s)) buf)))"

definition setting_line :: "string \<Rightarrow> string \<Rightarrow> string" where
  "setting_line k v = k @ ''='' @ v @ [CHR 0x0A]"

text \<open>What a row prints, with the number of networks in \<open>ssid_num\<close>.\<close>

definition fprint_row :: "(string \<Rightarrow> string option) \<Rightarrow> (string \<Rightarrow> string option) \<Rightarrow> nv_row \<Rightarrow> int \<Rightarrow> (string \<times> int) run" where
  "fprint_row bufget get r ssid_num =
     (case r of
        FPRINT_NUM k \<Rightarrow> run_map (\<lambda>v. (setting_line k (dec_int (atoi v)), ssid_num)) (nv_text (bufget k))
      | FPRINT_STR k \<Rightarrow> run_map (\<lambda>v. (setting_line k v, ssid_num)) (nv_text (bufget k))
      | FPRINT_CONST k v \<Rightarrow> ret (setting_line k v, ssid_num)
      | BSSIDS \<Rightarrow> run_map (\<lambda>v. ([], let n = atoi v in if n > 16 then 16 else if n < 0 then 0 else n)) (nv_text (get ''BssidNum''))
      | PER_BSSID k \<Rightarrow> run_map (\<lambda>t. (setting_line k t, ssid_num)) (per_bssid (nat ssid_num) (bufget k) [])
      | WSC_CONF_STATUS \<Rightarrow>
          run_map (\<lambda>v. (setting_line ''WscConfStatus'' (if atoi v = 0 then ''1'' else ''2''), ssid_num)) (nv_text (bufget ''WscConfigured''))
      | WSC_PIN \<Rightarrow>
          run_map (\<lambda>v. (if v \<noteq> [] then setting_line ''WscVendorPinCode'' v else [], ssid_num)) (nv_text (bufget ''WscVendorPinCode''))
      | RADIO_ON \<Rightarrow>
          run_map (\<lambda>v. (setting_line ''RadioOn'' (if atoi v = 1 then ''0'' else ''1''), ssid_num)) (nv_text (bufget ''RadioOff'')))"

fun fprint_rows :: "(string \<Rightarrow> string option) \<Rightarrow> (string \<Rightarrow> string option) \<Rightarrow> nv_row list \<Rightarrow> int \<Rightarrow> string run" where
  "fprint_rows bufget get [] n = ret []"
| "fprint_rows bufget get (r # rs) n = run_bind (fprint_row bufget get r n) (\<lambda>(s, n). run_map (append s) (fprint_rows bufget get rs n))"

definition file_header :: string where
  "file_header = ''#The word of '' @ [CHR 0x22] @ ''Default'' @ [CHR 0x22] @ '' must not be removed'' @ [CHR 0x0A] @ ''Default'' @ [CHR 0x0A]"

definition gen_config :: "nv_env \<Rightarrow> nv_build \<Rightarrow> int \<Rightarrow> nvd \<Rightarrow> (int \<times> nvd) run" where
  "gen_config e b mode w =
     (let w = system ''mkdir -p /etc/Wireless/RT2860'' (nv_log (NvInit mode) w) in
      if mode \<noteq> RT2860_NVRAM e then ret (0, w)
      else case nv_do e (NvCreate ''/etc/Wireless/RT2860/RT2860.dat'') w of (fp, w) \<Rightarrow>
        if fp = 0 then ret (0, w)
        else
          run_map (\<lambda>text. (0, nv_log (NvFile ''/etc/Wireless/RT2860/RT2860.dat'' (file_header @ text)) (nv_log (NvClose mode) w)))
            (fprint_rows (nv_bufget e (nv_calls w) mode) (nv_get e (nv_calls w) mode) (wifi_rows b) 1))"

section \<open>Settings from a file\<close>

definition BUFSZ :: nat where "BUFSZ = 1024"

text \<open>\<open>fgets\<close>: at most \<open>n\<close> characters of the file, up to the end of the line; and the C string in the buffer.\<close>

fun fgets :: "nat \<Rightarrow> string \<Rightarrow> string \<times> string" where
  "fgets 0 s = ([], s)"
| "fgets (Suc n) [] = ([], [])"
| "fgets (Suc n) (ch # s) = (if ch = CHR 0x0A then ([ch], s) else case fgets n s of (l, r) \<Rightarrow> (ch # l, r))"

definition c_text :: "string \<Rightarrow> string" where
  "c_text s = takeWhile (\<lambda>ch. ch \<noteq> CHR 0x00) s"

lemma fgets_shorter: "s \<noteq> [] \<Longrightarrow> n > 0 \<Longrightarrow> length (snd (fgets n s)) < length s"
proof (induction n s rule: fgets.induct)
  case (3 n ch s)
  show ?case
  proof (cases "s = [] \<or> n = 0")
    case True
    then show ?thesis by (cases n) auto
  next
    case False
    then show ?thesis using 3 by (auto split: prod.split)
  qed
qed simp_all

lemma fgets_line:
  assumes "(l, r) = fgets (BUFSZ - Suc 0) s" "s \<noteq> []"
  shows "length r < length s"
proof -
  have "0 < BUFSZ - Suc 0" by (simp add: BUFSZ_def)
  from fgets_shorter [OF assms(2) this] show ?thesis by (simp flip: assms(1))
qed

definition skipped :: "string \<Rightarrow> bool" where
  "skipped buf \<longleftrightarrow> buf \<noteq> [] \<and> (hd buf = CHR 0x0A \<or> hd buf = CHR ''#'')"

function find_default :: "string \<Rightarrow> string option" where
  "find_default s =
     (if s = [] then None
      else case fgets (BUFSZ - 1) s of (l, r) \<Rightarrow>
        if skipped (c_text l) then find_default r
        else if take 8 (c_text l) = ''Default'' @ [CHR 0x0A] then Some r
        else find_default r)"
  by auto
termination
  by (relation "measure length") (auto dest: fgets_line)

declare find_default.simps [simp del]

text \<open>The last character of the line is cut off, whatever it is, and the text is divided at the first \<open>=\<close>.\<close>

definition setting_key :: "string \<Rightarrow> string" where
  "setting_key buf = takeWhile (\<lambda>ch. ch \<noteq> CHR ''='') buf"

definition setting_value :: "string \<Rightarrow> string" where
  "setting_value buf = butlast (drop (Suc (length (setting_key buf))) buf)"

text \<open>The settings of the file: the result says that the file was read to its end. \<open>need\<close> is \<open>need_commit\<close>.\<close>

function renew_lines :: "int \<Rightarrow> string \<Rightarrow> bool \<Rightarrow> nvd \<Rightarrow> bool \<times> nvd" where
  "renew_lines mode s need w =
     (if s = [] then (True, w)
      else case fgets (BUFSZ - 1) s of (l, r) \<Rightarrow>
        let buf = c_text l in
        if skipped buf then renew_lines mode r need w
        else if CHR ''='' \<notin> set buf then (False, if need then nv_log (NvCommit mode) w else w)
        else renew_lines mode r True (nv_log (NvBufset mode (setting_key buf) (setting_value buf)) w))"
  by auto
termination
  by (relation "measure (\<lambda>(mode, s, need, w). length s)") (auto dest: fgets_line)

declare renew_lines.simps [simp del]

text \<open>\<open>%0X\<close>: hexadecimal digits without leading zeros.\<close>

definition hex_char :: "nat \<Rightarrow> char" where
  "hex_char n = (if n < 10 then char_of (48 + n) else char_of (55 + n))"

definition hex_byte :: "byte \<Rightarrow> string" where
  "hex_byte x = (if unat x < 16 then [hex_char (unat x)] else [hex_char (unat x div 16), hex_char (unat x mod 16)])"

fun mac_text :: "byte list \<Rightarrow> string" where
  "mac_text [] = [CHR 0x0A]"
| "mac_text [x] = hex_byte x @ [CHR 0x0A]"
| "mac_text (x # xs) = hex_byte x @ '':'' @ mac_text xs"

definition renew_nvram :: "nv_env \<Rightarrow> int \<Rightarrow> string \<Rightarrow> nvd \<Rightarrow> int \<times> nvd" where
  "renew_nvram e mode fname w =
     (case nv_file e (nv_calls w) fname of None \<Rightarrow> (- 1, w)
      | Some s \<Rightarrow>
        case find_default s of None \<Rightarrow> (- 1, w)
        | Some r \<Rightarrow>
          case renew_lines mode r False (nv_log (NvInit mode) w) of (ok, w) \<Rightarrow>
            if \<not> ok then (- 1, w)
            else
              let wan_mac = mac_text (take 6 (flash_read_mac e (nv_calls w)));
                  w = nv_log (NvBufset (RT2860_NVRAM e) ''WAN_MAC_ADDR'' wan_mac) w
              in (0, nv_log (NvClose mode) (nv_log (NvCommit mode) w)))"

section \<open>Commands\<close>

definition nvram_show :: "nv_env \<Rightarrow> int \<Rightarrow> nvd \<Rightarrow> nvd" where
  "nvram_show e mode w = nv_log (NvClose (nv_index_fn e)) (nv_log (NvBuflist mode) (nv_log (NvInit mode) w))"

definition DEFAULT_FLASH_ZONE_NAME :: string where "DEFAULT_FLASH_ZONE_NAME = ''2860''"

definition ra_nv_set :: "nv_env \<Rightarrow> string list \<Rightarrow> nvd \<Rightarrow> int \<times> nvd" where
  "ra_nv_set e argv w =
     (let argc = length argv in
      if argc = 1 \<or> argc > 5 then (- 1, w)
      else
        let (fz, key, value) =
              (if argc = 2 then (DEFAULT_FLASH_ZONE_NAME, argv ! 1, [])
               else if argc = 3 then (DEFAULT_FLASH_ZONE_NAME, argv ! 1, argv ! 2)
               else (argv ! 1, argv ! 2, argv ! 3));
            index = getNvramIndex e fz
        in if index = - 1 then (- 1, w)
           else case nv_do e (NvSet index key value) (nv_log (NvInit index) w) of (rc, w) \<Rightarrow> (rc, nv_log (NvClose index) w))"

text \<open>A missing setting is printed as the C library prints a null pointer, which this model takes for a fault.\<close>

definition ra_nv_get :: "nv_env \<Rightarrow> string list \<Rightarrow> nvd \<Rightarrow> (int \<times> nvd) run" where
  "ra_nv_get e argv w =
     (let argc = length argv in
      if argc \<noteq> 3 \<and> argc \<noteq> 2 then ret (- 1, w)
      else
        let (fz, key) = (if argc = 2 then (DEFAULT_FLASH_ZONE_NAME, argv ! 1) else (argv ! 1, argv ! 2));
            index = getNvramIndex e fz
        in if index = - 1 then ret (- 1, w)
           else
             let w = nv_log (NvInit index) w in
             run_map (\<lambda>v. (0, nv_log (NvClose index) (nv_log (NvPrint (v @ [CHR 0x0A])) w))) (nv_text (nv_bufget e (nv_calls w) index key)))"

text \<open>\<open>strncmp\<close> and \<open>strncasecmp\<close> with one character more than the word has compare the whole word.\<close>

definition lower :: "char \<Rightarrow> char" where
  "lower ch = (let n = of_char ch :: nat in if 65 \<le> n \<and> n \<le> 90 then char_of (n + 32) else ch)"

definition same_word :: "string \<Rightarrow> string \<Rightarrow> bool" where
  "same_word a b \<longleftrightarrow> map lower a = map lower b"

definition base_name :: "string \<Rightarrow> string" where
  "base_name s = rev (takeWhile (\<lambda>ch. ch \<noteq> CHR ''/'') (rev s))"

text \<open>\<open>main\<close>; \<open>usage\<close> ends the program.\<close>

definition is_2860 :: "string \<Rightarrow> bool" where
  "is_2860 s \<longleftrightarrow> s = ''2860'' \<or> same_word s ''rt2860''"

definition ralink_main :: "nv_env \<Rightarrow> nv_build \<Rightarrow> string list \<Rightarrow> nvd \<Rightarrow> (int \<times> nvd) run" where
  "ralink_main e b argv w =
     (let argc = length argv; cmd = base_name (argv ! 0) in
      if argc < 2 then fail ProcessExit
      else if cmd = ''nvram_get'' then ra_nv_get e argv w
      else if cmd = ''nvram_set'' then ret (ra_nv_set e argv w)
      else if argc = 2 then
        if argv ! 1 = ''rt2860_nvram_show'' then ret (0, nvram_show e (RT2860_NVRAM e) w)
        else if argv ! 1 = ''cert_nvram_show'' then ret (0, nvram_show e (CERT_NVRAM e) w)
        else fail ProcessExit
      else if argc = 3 then
        if same_word (argv ! 1) ''gen'' \<or> same_word (argv ! 1) ''make_wireless_config'' then
          if is_2860 (argv ! 2) then run_map (\<lambda>(r, w). (0, w)) (gen_config e b (RT2860_NVRAM e) w) else fail ProcessExit
        else if same_word (argv ! 1) ''show'' then
          if is_2860 (argv ! 2) then ret (0, nvram_show e (RT2860_NVRAM e) w) else fail ProcessExit
        else if same_word (argv ! 1) ''clear'' then
          if is_2860 (argv ! 2) then ret (0, nv_log (NvClear (RT2860_NVRAM e)) w) else fail ProcessExit
        else fail ProcessExit
      else if argc = 4 then
        if same_word (argv ! 1) ''renew'' then
          if is_2860 (argv ! 2) then ret (0, snd (renew_nvram e (RT2860_NVRAM e) (argv ! 3) w)) else ret (0, w)
        else fail ProcessExit
      else fail ProcessExit)"

end
