(* ===== verification/NvDaemon.thy ===== *)
theory NvDaemon
  imports NvFile
begin

text \<open>
  The daemon of the settings: \<open>rt2880_app/nvram/nvram_daemon.c\<close>. It is driven by signals: load the defaults and reboot, new addresses, a storage
  device, and the button of Wi-Fi Protected Setup, which starts a timer that asks the driver for the result and stores the settings of the access
  point. The build is the one with the interface of \<open>lighttpd\<close>, with WPS, with the GPIO driver and with the management agent, for an RT3052.
\<close>

section \<open>Defaults\<close>

definition loadDefault :: "nv_build \<Rightarrow> int \<Rightarrow> nvd \<Rightarrow> nvd" where
  "loadDefault b chip_id w =
     (if chip_id = 2860 then
        system (if lan_wan b then ''ralink_init renew 2860 /etc_ro/Wireless/RT2860AP/RT2860_default_vlan''
                else ''ralink_init renew 2860 /etc_ro/Wireless/RT2860AP/RT2860_default_novlan'')
          (system ''nvram_set factorydefault 1'' (system ''ralink_init clear 2860'' w))
      else if chip_id = 2880 then system ''ralink_init clear rtdev'' w
      else if chip_id = 2561 then
        system ''ralink_init renew rtdev /etc_ro/Wireless/RT61AP/RT2561_default'' (system ''ralink_init clear rtdev'' w)
      else w)"

definition loadDefaultHandler :: "nv_build \<Rightarrow> nvd \<Rightarrow> nvd" where
  "loadDefaultHandler b w = system ''reboot'' (loadDefault b 2860 w)"

section \<open>The LED\<close>

definition WPS_AP_PBC_LED_GPIO :: int where "WPS_AP_PBC_LED_GPIO = 14"

definition gpioLedSet :: "nv_env \<Rightarrow> int \<Rightarrow> int \<Rightarrow> int \<Rightarrow> int \<Rightarrow> int \<Rightarrow> int \<Rightarrow> nvd \<Rightarrow> int \<times> nvd" where
  "gpioLedSet e gpio on off blinks rests reps w =
     (let max = RALINK_GPIO_LED_INFINITY e in
      if gpio < 0 \<or> gpio \<ge> RALINK_GPIO_NUMBER e \<or> on > max \<or> off > max \<or> blinks > max \<or> rests > max \<or> reps > max then (- 1, w)
      else case nv_do e (NvOpen ''/dev/gpio'') w of (fd, w) \<Rightarrow>
        if fd < 0 then (- 1, w)
        else case nv_do e (NvLedSet gpio on off blinks rests reps) w of (r, w) \<Rightarrow>
          (if r < 0 then - 1 else 0, nv_log (NvCloseFd fd) w))"

datatype wps_led = WPS_LED_RESET | WPS_LED_PROGRESS | WPS_LED_ERROR | WPS_LED_SESSION_OVERLAP | WPS_LED_SUCCESS

definition ledWps :: "nv_env \<Rightarrow> int \<Rightarrow> wps_led \<Rightarrow> nvd \<Rightarrow> int \<times> nvd" where
  "ledWps e gpio mode w =
     (case mode of
        WPS_LED_RESET \<Rightarrow> gpioLedSet e gpio 0 1 1 1 (RALINK_GPIO_LED_INFINITY e) w
      | WPS_LED_PROGRESS \<Rightarrow> gpioLedSet e gpio 2 1 1 1 240 w
      | WPS_LED_ERROR \<Rightarrow> gpioLedSet e gpio 6 1 1 1 60 w
      | WPS_LED_SESSION_OVERLAP \<Rightarrow> gpioLedSet e gpio 4 4 10 5 240 w
      | WPS_LED_SUCCESS \<Rightarrow> (0, snd (gpioLedSet e gpio 3000 1 1 1 1 w)))"

definition led :: "nv_env \<Rightarrow> wps_led \<Rightarrow> nvd \<Rightarrow> nvd" where
  "led e mode w = snd (ledWps e WPS_AP_PBC_LED_GPIO mode w)"

section \<open>The result of Wi-Fi Protected Setup\<close>

text \<open>\<open>Profile[0]\<close> of the structure that the driver fills, and what lies behind it: \<open>SSID\<close> is followed by the types, \<open>Key\<close> by its length.\<close>

record wsc_credential =
  wc_auth :: nat
  wc_encr :: nat
  wc_key_mem :: "byte list"
  wc_ssid_mem :: "byte list"
  wc_key_length :: nat
  wc_key_index :: nat

text \<open>The offsets: two counters of four bytes, the length of the name, the name (32), two types, the key (64), its length, an address, the index.\<close>

definition le16_at :: "nat \<Rightarrow> byte list \<Rightarrow> nat" where
  "le16_at n m = unat (m ! n) + 256 * unat (m ! (n + 1))"

definition read_profile :: "byte list \<Rightarrow> wsc_credential" where
  "read_profile m =
     \<lparr>wc_auth = le16_at 44 m, wc_encr = le16_at 46 m, wc_key_mem = drop 48 m,
      wc_ssid_mem = drop 12 m, wc_key_length = le16_at 112 m, wc_key_index = unat (m ! 120)\<rparr>"

text \<open>A C string in memory as the library gets it.\<close>

definition text_at :: "byte list \<Rightarrow> string run" where
  "text_at m = run_map (map (\<lambda>x. char_of (unat x))) (c_string m)"

definition bufset :: "int \<Rightarrow> string \<Rightarrow> string \<Rightarrow> nvd \<Rightarrow> nvd" where
  "bufset z k v = nv_log (NvBufset z k v)"

definition auth_name :: "nat \<Rightarrow> string" where
  "auth_name t =
     (if t = 0x0002 then ''WPAPSK'' else if t = 0x0004 then ''SHARED'' else if t = 0x0008 then ''WPA'' else if t = 0x0010 then ''WPA2''
      else if t = 0x0020 then ''WPA2PSK'' else if t = 0x0022 then ''WPAPSKWPA2PSK'' else ''OPEN'')"

text \<open>The \<open>switch\<close> over the cipher has no \<open>break\<close>: every case goes on into the next one.\<close>

definition case_none :: "int \<Rightarrow> wsc_credential \<Rightarrow> nvd \<Rightarrow> nvd run" where
  "case_none z p w = ret (bufset z ''DefaultKeyID'' ''1'' (bufset z ''EncrypType'' ''NONE'' w))"

definition case_psk :: "string \<Rightarrow> int \<Rightarrow> wsc_credential \<Rightarrow> nvd \<Rightarrow> nvd run" where
  "case_psk cipher z p w =
     (let w = bufset z ''DefaultKeyID'' ''2'' (bufset z ''EncrypType'' cipher w) in
      run_bind (mem_read 0 (wc_key_length p) (wc_key_mem p)) (\<lambda>key.
      run_bind (mem_write 0 key (replicate 65 0)) (\<lambda>temp.
      run_map (\<lambda>t. bufset z ''WPAPSK1'' t w) (text_at temp))))"

definition case_tkipaes :: "int \<Rightarrow> wsc_credential \<Rightarrow> nvd \<Rightarrow> nvd run" where
  "case_tkipaes z p w = run_bind (case_psk ''TKIPAES'' z p w) (case_none z p)"

definition case_aes :: "int \<Rightarrow> wsc_credential \<Rightarrow> nvd \<Rightarrow> nvd run" where
  "case_aes z p w = run_bind (case_psk ''AES'' z p w) (case_tkipaes z p)"

definition case_tkip :: "int \<Rightarrow> wsc_credential \<Rightarrow> nvd \<Rightarrow> nvd run" where
  "case_tkip z p w = run_bind (case_psk ''TKIP'' z p w) (case_aes z p)"

definition wep_key :: "int \<Rightarrow> wsc_credential \<Rightarrow> nvd \<Rightarrow> nvd run" where
  "wep_key z p w =
     (let put = (\<lambda>k n. run_map (\<lambda>t. bufset z ''DefaultKeyID'' n (bufset z k t w)) (text_at (wc_key_mem p))) in
      if wc_key_index p = 1 then put ''Key1Str1'' ''1''
      else if wc_key_index p = 2 then put ''Key2Str1'' ''2''
      else if wc_key_index p = 3 then put ''Key3Str1'' ''3''
      else if wc_key_index p = 4 then put ''Key4Str1'' ''4''
      else ret w)"

definition case_wep :: "int \<Rightarrow> wsc_credential \<Rightarrow> nvd \<Rightarrow> nvd run" where
  "case_wep z p w =
     (let w = bufset z ''EncrypType'' ''WEP'' w;
          t = (if wc_key_length p = 10 \<or> wc_key_length p = 26 then ''0'' else ''1'');
          w = bufset z ''Key4Type'' t (bufset z ''Key3Type'' t (bufset z ''Key2Type'' t (bufset z ''Key1Type'' t w)))
      in run_bind (wep_key z p w) (case_tkip z p))"

definition set_cipher :: "int \<Rightarrow> wsc_credential \<Rightarrow> nvd \<Rightarrow> nvd run" where
  "set_cipher z p w =
     (if wc_encr p = 0x0002 then case_wep z p w
      else if wc_encr p = 0x0004 then case_tkip z p w
      else if wc_encr p = 0x0008 then case_aes z p w
      else if wc_encr p = 0x000C then case_tkipaes z p w
      else case_none z p w)"

text \<open>The block for the profiles is not cleared before the driver fills it; \<open>wsc_profile\<close> is what it holds then.\<close>

definition configAP :: "nv_env \<Rightarrow> allocator \<Rightarrow> string \<Rightarrow> nvd \<Rightarrow> nvd run" where
  "configAP e alloc ifname w =
     (if \<not> alloc 936 then ret w
      else
        let w = nv_log (NvWscProfile ifname) w;
            p = read_profile (wsc_profile e (nv_calls w));
            z = (if ifname = ''ra0'' then RT2860_NVRAM e else RTDEV_NVRAM e);
            w = bufset z ''WscConfigured'' ''1'' (nv_log (NvInit z) w)
        in run_bind (text_at (wc_ssid_mem p)) (\<lambda>ssid.
           let w = bufset z ''AuthMode'' (auth_name (wc_auth p)) (bufset z ''WscSSID'' ssid (bufset z ''SSID1'' ssid w)) in
           run_map (\<lambda>w.
             let w = (if wc_auth p = 0x0002 \<and> wc_encr p = 0x0004
                      then bufset z ''EncrypType'' ''TKIPAES'' (bufset z ''AuthMode'' ''WPAPSKWPA2PSK'' w) else w)
             in nv_log (NvCommit z) (bufset z ''IEEE8021X'' ''0'' w))
             (set_cipher z p w)))"

section \<open>The timer of Wi-Fi Protected Setup\<close>

definition WPS_AP_CATCH_CONFIGURED_TIMER :: int where "WPS_AP_CATCH_CONFIGURED_TIMER = 100"
definition WPS_AP_TIMEOUT_SECS :: int where "WPS_AP_TIMEOUT_SECS = 120000"

definition setTimer :: "int \<Rightarrow> nv_handler \<Rightarrow> nvd \<Rightarrow> nvd" where
  "setTimer microsec h w = nv_log (NvTimer microsec) (w\<lparr>nv_alarm := microsec, nv_handlers := (nv_handlers w)(SIGALRM := Some h)\<rparr>)"

definition stopTimer :: "nvd \<Rightarrow> nvd" where
  "stopTimer w = nv_log (NvTimer 0) (w\<lparr>nv_alarm := 0\<rparr>)"

definition resetTimerAll :: "nvd \<Rightarrow> nvd" where
  "resetTimerAll w = (stopTimer w)\<lparr>g_wps_timer_state := 0\<rparr>"

text \<open>\<open>wsc_configured\<close> is the field of that name in the structure that \<open>getCurrentWscProfile\<close> fills.\<close>

definition queryWPSStatus :: "nv_env \<Rightarrow> allocator \<Rightarrow> nvd \<Rightarrow> nvd run" where
  "queryWPSStatus e alloc w =
     (case nv_do e (NvAccess ''/tmp/rai0'') w of (r, w) \<Rightarrow>
        let iface = (if r = 0 then ''rai0'' else ''ra0'') in
        case nv_do e (NvWscStatus iface) w of (WscStatus, w) \<Rightarrow>
          let w = w\<lparr>wsc_timeout_counter := s32 (wsc_timeout_counter w + WPS_AP_CATCH_CONFIGURED_TIMER)\<rparr> in
          if g_wps_timer_state w = 0 then ret (resetTimerAll w)
          else if wsc_timeout_counter w > WPS_AP_TIMEOUT_SECS then ret (led e WPS_LED_ERROR (resetTimerAll w))
          else if WscStatus = 0x109 then ret (led e WPS_LED_SESSION_OVERLAP (resetTimerAll w))
          else if WscStatus = 34 then
            let w = led e WPS_LED_SUCCESS (resetTimerAll w) in
            if \<not> alloc 105 then ret w
            else
              let w = nv_log (NvCurrentWscProfile iface) w in
              run_bind (nv_text (nv_bufget e (nv_calls w) (RT2860_NVRAM e) ''WCNTest'')) (\<lambda>t.
              if t = ''1'' \<or> wsc_configured e (nv_calls w) = 2 then configAP e alloc iface w else ret w)
          else if WscStatus = 2 \<or> WscStatus = 1 then ret (led e WPS_LED_RESET (resetTimerAll w))
          else ret w)"

definition triggerWPS :: "nv_env \<Rightarrow> nvd \<Rightarrow> nvd" where
  "triggerWPS e w =
     (let w = (resetTimerAll w)\<lparr>wsc_timeout_counter := 0, g_wps_timer_state := 1\<rparr> in
      led e WPS_LED_PROGRESS (setTimer (WPS_AP_CATCH_CONFIGURED_TIMER * 1000) QueryWPSStatus w))"

section \<open>Signals\<close>

definition doWPSHandler :: "nv_env \<Rightarrow> nvd \<Rightarrow> nvd" where
  "doWPSHandler e w = triggerWPS e (system (''/etc_ro/lighttpd/www/cgi-bin/wireless.cgi wps_pbc '' @ dec_int (RT2860_NVRAM e)) w)"

definition dhcpcHandler :: "nv_env \<Rightarrow> nv_build \<Rightarrow> nvd \<Rightarrow> nvd run" where
  "dhcpcHandler e b w =
     (let w = (if nf_filter b then system ''/etc_ro/lighttpd/www/cgi-bin/firewall.cgi init'' w else w);
          w = system ''/sbin/config-igmpproxy.sh'' (system ''/etc_ro/lighttpd/www/cgi-bin/internet.cgi ripd'' w);
          w = (if swqos b then system ''/etc_ro/lighttpd/www/cgi-bin/qos.cgi init'' w
               else if custom_qos b then system ''/sbin/qos_custom.sh'' (system ''/sbin/qos_init.sh'' w) else w);
          w = (if hwqos b then system ''/etc_ro/lighttpd/www/cgi-bin/qos.cgi init'' w else w);
          w = (if ipv6 b then system ''/etc_ro/lighttpd/www/cgi-bin/internet.cgi ipv6'' w else w)
      in if nat_hw b then
           run_map (\<lambda>t. if t = ''1'' then system ''insmod hw_nat'' (system ''rmmod hw_nat'' w) else w)
             (nv_text (nv_bufget e (nv_calls w) (RT2860_NVRAM e) ''hwnatEnabled''))
         else ret w)"

definition hotPluglerHandler :: "nvd \<Rightarrow> nvd" where
  "hotPluglerHandler w = system ''/etc_ro/lighttpd/www/cgi-bin/usb.cgi init'' (system ''/etc_ro/lighttpd/www/cgi-bin/nas.cgi init'' w)"

definition install :: "nv_signal \<Rightarrow> nv_handler option \<Rightarrow> nvd \<Rightarrow> nvd" where
  "install s h w = nv_log (NvSignal s) (w\<lparr>nv_handlers := (nv_handlers w)(s := h)\<rparr>)"

definition signal_handler :: "nvd \<Rightarrow> nvd" where
  "signal_handler w =
     install SIGTTIN (Some HotPluglerHandler) (install SIGXFSZ (Some TriggerWPS) (install SIGTSTP (Some DhcpcHandler)
       (install SIGUSR1 (Some DoWPSHandler) (install SIGUSR2 (Some LoadDefaultHandler) (install SIGPIPE None w)))))"

definition run_handler :: "nv_env \<Rightarrow> nv_build \<Rightarrow> allocator \<Rightarrow> nv_handler \<Rightarrow> nvd \<Rightarrow> nvd run" where
  "run_handler e b alloc h w =
     (case h of
        LoadDefaultHandler \<Rightarrow> ret (loadDefaultHandler b w)
      | DoWPSHandler \<Rightarrow> ret (doWPSHandler e w)
      | DhcpcHandler \<Rightarrow> dhcpcHandler e b w
      | TriggerWPS \<Rightarrow> ret (triggerWPS e w)
      | HotPluglerHandler \<Rightarrow> ret (hotPluglerHandler w)
      | QueryWPSStatus \<Rightarrow> queryWPSStatus e alloc w)"

text \<open>A signal reaches the daemon; that of the timer comes only while the timer is on.\<close>

definition nv_deliver :: "nv_env \<Rightarrow> nv_build \<Rightarrow> allocator \<Rightarrow> nv_signal \<Rightarrow> nvd \<Rightarrow> nvd run" where
  "nv_deliver e b alloc s w =
     (if s = SIGALRM \<and> nv_alarm w = 0 then ret w
      else case nv_handlers w s of None \<Rightarrow> ret w | Some h \<Rightarrow> run_handler e b alloc h w)"

fun nv_deliver_all :: "nv_env \<Rightarrow> nv_build \<Rightarrow> allocator \<Rightarrow> nv_signal list \<Rightarrow> nvd \<Rightarrow> nvd run" where
  "nv_deliver_all e b alloc [] w = ret w"
| "nv_deliver_all e b alloc (s # ss) w = run_bind (nv_deliver e b alloc s w) (nv_deliver_all e b alloc ss)"

section \<open>The start\<close>

definition initGpio :: "nv_env \<Rightarrow> int \<Rightarrow> nvd \<Rightarrow> int \<times> nvd" where
  "initGpio e gpio_num w =
     (case nv_do e (NvOpen ''/dev/gpio'') w of (fd, w) \<Rightarrow>
        if fd < 0 then (- 1, w)
        else
          let close = (\<lambda>r w. (r, nv_log (NvCloseFd fd) w)) in
          case (if gpio_num < 24 then nv_do e (NvGpioIn gpio_num) w else (0, w)) of (r, w) \<Rightarrow>
            if r < 0 then close (- 1) w
            else case nv_do e NvGpioIntr w of (r, w) \<Rightarrow>
              if r < 0 then close (- 1) w
              else case nv_do e (NvGpioReg gpio_num) w of (r, w) \<Rightarrow>
                if r < 0 then close (- 1) w else close 0 w)"

definition pidfile_acquire :: "nv_env \<Rightarrow> string \<Rightarrow> nvd \<Rightarrow> int \<times> nvd" where
  "pidfile_acquire e pidfile w =
     (case nv_do e (NvOpen pidfile) w of (fd, w) \<Rightarrow>
        if fd < 0 then (fd, w) else (fd, w\<lparr>saved_pidfile := Some pidfile\<rparr>))"

definition pidfile_delete :: "nvd \<Rightarrow> nvd" where
  "pidfile_delete w = (case saved_pidfile w of None \<Rightarrow> w | Some p \<Rightarrow> nv_log (NvUnlink p) w)"

text \<open>\<open>fclose\<close> closes the descriptor, which drops the lock, before the code releases the lock and closes the descriptor again.\<close>

definition pidfile_write_release :: "int \<Rightarrow> string \<Rightarrow> nvd \<Rightarrow> nvd" where
  "pidfile_write_release fd pid w =
     (if fd < 0 then w else nv_log (NvCloseFd fd) (nv_log (NvCloseFd fd) (nv_log (NvPrint (pid @ [CHR 0x0A])) w)))"

text \<open>\<open>main\<close> up to the management agent, which does not return. The zone of a second device has no defaults in this build.\<close>

definition nvram_main :: "nv_env \<Rightarrow> nv_build \<Rightarrow> string \<Rightarrow> nvd \<Rightarrow> nvd run" where
  "nvram_main e b pid w =
     run_bind (nv_text (nv_bufget e (nv_calls w) (RT2860_NVRAM e) ''WebInit'')) (\<lambda>t.
     let w = (if t \<noteq> ''1'' then loadDefault b 2860 w else w) in
     run_bind (nv_text (nv_bufget e (nv_calls w) (RTDEV_NVRAM e) ''WebInit'')) (\<lambda>t.
     case initGpio e 10 (nv_log (NvClose (RT2860_NVRAM e)) w) of (r, w) \<Rightarrow>
       if r \<noteq> 0 then fail ProcessExit
       else case initGpio e 0 w of (r, w) \<Rightarrow>
         if r \<noteq> 0 then fail ProcessExit
         else case pidfile_acquire e ''/var/run/nvramd.pid'' (signal_handler w) of (fd, w) \<Rightarrow>
           ret (pidfile_write_release fd pid w)))"

definition nvd_zero :: nvd where
  "nvd_zero = \<lparr>nv_calls = [], wsc_timeout_counter = 0, g_wps_timer_state = 0, nv_alarm = 0, nv_handlers = (\<lambda>s. None), saved_pidfile = None\<rparr>"

end
