(* ===== verification/NvSpec.thy ===== *)
theory NvSpec
  imports NvDaemon
begin

text \<open>
  The properties of the programs for the settings: the file for the driver holds the settings that it is read back to, except two that are
  always empty; a line break in a setting makes another setting of what follows it; the result of Wi-Fi Protected Setup is stored
  without encryption; and the timer that waits for this result ends.
\<close>

section \<open>The file\<close>

text \<open>The settings of a row, for the contents \<open>g\<close> of the memory.\<close>

definition row_settings :: "(string \<Rightarrow> string) \<Rightarrow> nv_row \<Rightarrow> (string \<times> string) list" where
  "row_settings g r =
     (case r of
        FPRINT_NUM k \<Rightarrow> [(k, dec_int (atoi (g k)))] | FPRINT_STR k \<Rightarrow> [(k, g k)] | FPRINT_CONST k v \<Rightarrow> [(k, v)] | BSSIDS \<Rightarrow> []
      | PER_BSSID k \<Rightarrow> [(k, [])]
      | WSC_CONF_STATUS \<Rightarrow> [(''WscConfStatus'', if atoi (g ''WscConfigured'') = 0 then ''1'' else ''2'')]
      | WSC_PIN \<Rightarrow> (if g ''WscVendorPinCode'' \<noteq> [] then [(''WscVendorPinCode'', g ''WscVendorPinCode'')] else [])
      | RADIO_ON \<Rightarrow> [(''RadioOn'', if atoi (g ''RadioOff'') = 1 then ''0'' else ''1'')])"

definition file_settings :: "(string \<Rightarrow> string) \<Rightarrow> nv_row list \<Rightarrow> (string \<times> string) list" where
  "file_settings g rs = concat (map (row_settings g) rs)"

definition lines_of :: "(string \<times> string) list \<Rightarrow> string" where
  "lines_of kvs = concat (map (\<lambda>(k, v). setting_line k v) kvs)"

lemma file_settings_simps [simp]: "file_settings g [] = []" "file_settings g (r # rs) = row_settings g r @ file_settings g rs"
    "file_settings g (rs @ ss) = file_settings g rs @ file_settings g ss"
  by (simp_all add: file_settings_def)

lemma lines_of_simps [simp]: "lines_of [] = []" "lines_of ((k, v) # kvs) = setting_line k v @ lines_of kvs"
    "lines_of (kvs @ kws) = lines_of kvs @ lines_of kws"
  by (simp_all add: lines_of_def)

text \<open>Nothing of the repeated values is printed: their room is one character, which the end of the text takes.\<close>

lemma per_bssid_empty: "per_bssid n (Some s) buf = ret buf"
  by (induction n arbitrary: buf) (simp_all add: nv_text_def snprintf_end_def)

lemma fprint_rows_lines:
  "fprint_rows (\<lambda>k. Some (g k)) (\<lambda>k. Some (g' k)) rs n = ret (lines_of (file_settings g rs))"
proof (induction rs arbitrary: n)
  case (Cons r rs)
  have "\<exists>n'. fprint_row (\<lambda>k. Some (g k)) (\<lambda>k. Some (g' k)) r n = ret (lines_of (row_settings g r), n')"
    by (cases r) (simp_all add: fprint_row_def row_settings_def nv_text_def per_bssid_empty)
  then show ?case using Cons.IH by auto
qed simp

section \<open>Reading it back\<close>

text \<open>A line that the reader understands: the key begins like no comment, and the line fits into the buffer.\<close>

definition fits :: "string \<times> string \<Rightarrow> bool" where
  "fits kv = (case kv of (k, v) \<Rightarrow> k \<noteq> [] \<and> hd k \<noteq> CHR ''#'' \<and> {CHR 0x00, CHR 0x0A, CHR ''=''} \<inter> set k = {}
     \<and> {CHR 0x00, CHR 0x0A} \<inter> set v = {} \<and> length k + length v + 2 < BUFSZ)"

lemma fgets_exact: "CHR 0x0A \<notin> set l \<Longrightarrow> length l < n \<Longrightarrow> fgets n (l @ CHR 0x0A # r) = (l @ [CHR 0x0A], r)"
proof (induction l arbitrary: n)
  case Nil
  then show ?case by (cases n) simp_all
next
  case (Cons ch l)
  then show ?case by (cases n) (auto split: prod.split)
qed

lemma setting_split: "CHR ''='' \<notin> set k \<Longrightarrow> setting_key (setting_line k v) = k \<and> setting_value (setting_line k v) = v"
  by (simp add: setting_key_def setting_value_def setting_line_def takeWhile_append butlast_append)

lemma renew_line:
  assumes "fits (k, v)"
  shows "renew_lines m (setting_line k v @ rest) need w = renew_lines m rest True (nv_log (NvBufset m k v) w)"
proof -
  let ?l = "k @ ''='' @ v"
  have f: "fgets (BUFSZ - 1) (setting_line k v @ rest) = (setting_line k v, rest)"
    using fgets_exact [of ?l "BUFSZ - 1" rest] assms by (auto simp: setting_line_def fits_def)
  have c: "c_text (setting_line k v) = setting_line k v"
    using assms by (auto simp: c_text_def setting_line_def fits_def takeWhile_eq_all_conv)
  obtain ch k' where k: "k = ch # k'" using assms by (cases k) (auto simp: fits_def)
  have "\<not> skipped (setting_line k v)" "CHR ''='' \<in> set (setting_line k v)" "setting_line k v \<noteq> []"
    using assms by (auto simp: skipped_def setting_line_def fits_def k)
  then show ?thesis
    using setting_split [of k v] assms by (subst renew_lines.simps) (simp add: f c fits_def Let_def del: One_nat_def)
qed

definition bufsets :: "int \<Rightarrow> (string \<times> string) list \<Rightarrow> nv_call list" where
  "bufsets m kvs = map (\<lambda>(k, v). NvBufset m k v) kvs"

lemma renew_settings:
  "list_all fits kvs \<Longrightarrow> renew_lines m (lines_of kvs) need w = (True, w\<lparr>nv_calls := nv_calls w @ bufsets m kvs\<rparr>)"
proof (induction kvs arbitrary: need w)
  case Nil
  then show ?case by (simp add: renew_lines.simps bufsets_def)
next
  case (Cons kv kvs)
  obtain k v where kv: "kv = (k, v)" by fastforce
  show ?case using Cons by (simp add: kv renew_line nv_log_def bufsets_def)
qed

text \<open>The two lines in front.\<close>

lemma find_header: "find_default (file_header @ s) = Some s"
proof -
  let ?c = "''#The word of '' @ [CHR 0x22] @ ''Default'' @ [CHR 0x22] @ '' must not be removed''"
  have 1: "fgets (BUFSZ - 1) (file_header @ s) = (?c @ [CHR 0x0A], ''Default'' @ CHR 0x0A # s)"
    using fgets_exact [of ?c "BUFSZ - 1" "''Default'' @ CHR 0x0A # s"] by (simp add: file_header_def BUFSZ_def del: fgets.simps)
  have 2: "fgets (BUFSZ - 1) (''Default'' @ CHR 0x0A # s) = (''Default'' @ [CHR 0x0A], s)"
    using fgets_exact [of "''Default''" "BUFSZ - 1" s] by (simp add: BUFSZ_def del: fgets.simps)
  have "find_default (file_header @ s) = find_default (''Default'' @ CHR 0x0A # s)"
    by (subst find_default.simps, unfold 1) (simp add: c_text_def skipped_def file_header_def)
  also have "\<dots> = Some s"
    by (subst find_default.simps, unfold 2) (simp add: c_text_def skipped_def)
  finally show ?thesis .
qed

lemma renew_file:
  assumes "list_all fits kvs" "nv_file e (nv_calls w) f = Some (file_header @ lines_of kvs)"
  shows "\<exists>mac. renew_nvram e m f w =
    (0, w\<lparr>nv_calls := nv_calls w @ [NvInit m] @ bufsets m kvs @ [NvBufset (RT2860_NVRAM e) ''WAN_MAC_ADDR'' mac, NvCommit m, NvClose m]\<rparr>)"
  using assms by (auto simp: renew_nvram_def find_header renew_settings nv_log_def Let_def)

section \<open>The keys\<close>

text \<open>The key of a row, and the keys of the driver's file: they are words, and no other row sets the first name of a network.\<close>

definition row_key :: "nv_row \<Rightarrow> string" where
  "row_key r =
     (case r of FPRINT_NUM k \<Rightarrow> k | FPRINT_STR k \<Rightarrow> k | FPRINT_CONST k v \<Rightarrow> k | BSSIDS \<Rightarrow> ''x'' | PER_BSSID k \<Rightarrow> k
      | WSC_CONF_STATUS \<Rightarrow> ''WscConfStatus'' | WSC_PIN \<Rightarrow> ''WscVendorPinCode'' | RADIO_ON \<Rightarrow> ''RadioOn'')"

definition good_row :: "nv_row \<Rightarrow> bool" where
  "good_row r = (let k = row_key r in k \<noteq> [] \<and> length k \<le> 40 \<and> list_all (\<lambda>ch. ch \<notin> {CHR 0x00, CHR 0x0A, CHR ''='', CHR ''#''}) k
     \<and> (case r of FPRINT_CONST k v \<Rightarrow> v = [] \<or> v = ''0'' | _ \<Rightarrow> True))"

lemma rows_good: "list_all good_row (wifi_rows b)"
  unfolding wifi_rows_def list_all_append
  by (intro conjI; cases "mbss16 b"; cases "video_turbine b"; cases "unique_wps b")
    (simp_all add: bss_rows_def radio_rows_def station_rows_def security_rows_def key_rows_def ht_rows_def wps_rows_def access_rows_def
      wds_radius_rows_def apcli_rows_def good_row_def row_key_def)

text \<open>Contents of the memory without line breaks and not too long, and the lines that come from them.\<close>

definition plain_text :: "string \<Rightarrow> bool" where
  "plain_text v \<longleftrightarrow> {CHR 0x00, CHR 0x0A} \<inter> set v = {} \<and> length v < 900"

lemma dec_digits_range: "set (dec_digits n) \<subseteq> char_of ` {48..57 :: nat}"
  by (induction n rule: dec_digits.induct) (subst dec_digits.simps, auto)

lemma dec_digits_short: "n < 10 ^ m \<Longrightarrow> 0 < m \<Longrightarrow> length (dec_digits n) \<le> m"
proof (induction m arbitrary: n)
  case (Suc m)
  show ?case
  proof (cases "n < 10")
    case True
    then show ?thesis by (simp add: dec_digits.simps)
  next
    case False
    then have "0 < m" using Suc.prems(1) by (cases m) auto
    moreover have "n div 10 < 10 ^ m" using Suc.prems(1) by (simp add: less_mult_imp_div_less mult.commute)
    ultimately show ?thesis using Suc.IH False by (subst dec_digits.simps) simp
  qed
qed simp

lemma atoi_range: "- (2 ^ 31) \<le> atoi s" "atoi s < 2 ^ 31"
  by (auto simp: atoi_def Let_def split: list.split)

lemma plain_number: "plain_text (dec_int (atoi s))"
proof -
  have d: "length (dec_digits n) \<le> 10" if "n \<le> 2 ^ 31" for n using dec_digits_short [of n 10] that by simp
  have c: "CHR 0x00 \<notin> set (dec_digits n) \<and> CHR 0x0A \<notin> set (dec_digits n)" for n
  proof -
    have "CHR 0x00 \<noteq> char_of i \<and> CHR 0x0A \<noteq> char_of i" if "i \<in> {48..57 :: nat}" for i
      using that by (auto dest: arg_cong [where f = "of_char :: char \<Rightarrow> nat"])
    then show ?thesis using dec_digits_range [of n] by blast
  qed
  have "nat (atoi s) \<le> 2 ^ 31" "nat (- atoi s) \<le> 2 ^ 31" using atoi_range [of s] by simp_all
  from this [THEN d] show ?thesis
    using c [of "nat (atoi s)"] c [of "nat (- atoi s)"]
    by (auto simp: dec_int_def plain_text_def)
qed

lemma row_fits:
  assumes "good_row r" "\<And>k. k \<noteq> x \<Longrightarrow> plain_text (g k)" "r \<noteq> FPRINT_STR x" "x \<noteq> ''WscVendorPinCode''"
  shows "list_all fits (row_settings g r)"
proof -
  have fit: "fits (k, v)" if "k \<noteq> []" "length k \<le> 40" "list_all (\<lambda>ch. ch \<notin> {CHR 0x00, CHR 0x0A, CHR ''='', CHR ''#''}) k" "plain_text v" for k v
    using that by (cases k) (auto simp: fits_def plain_text_def BUFSZ_def list_all_iff)
  have plain: "plain_text []" "plain_text ''0''" "plain_text ''1''" "plain_text ''2''" by (simp_all add: plain_text_def)
  have key: "row_key r \<noteq> []" "length (row_key r) \<le> 40" "list_all (\<lambda>ch. ch \<notin> {CHR 0x00, CHR 0x0A, CHR ''='', CHR ''#''}) (row_key r)"
    using assms(1) by (simp_all add: good_row_def Let_def)
  show ?thesis
    using assms fit [OF key] plain plain_number
    by (cases r) (auto simp: row_settings_def row_key_def good_row_def Let_def)
qed

text \<open>All settings of a file fit when the contents are plain.\<close>

lemma rows_fit:
  assumes "list_all good_row rs" "\<And>k. k \<noteq> x \<Longrightarrow> plain_text (g k)" "FPRINT_STR x \<notin> set rs" "x \<noteq> ''WscVendorPinCode''"
  shows "list_all fits (file_settings g rs)"
  using assms(1,3)
proof (induction rs)
  case (Cons r rs)
  then show ?case using row_fits [of r x g] assms(2,4) by auto
qed simp

lemma all_rows_fit:
  assumes "\<And>k. plain_text (g k)"
  shows "list_all fits (file_settings g (wifi_rows b))"
proof (rule rows_fit [OF rows_good, of "''=''"])
  show "FPRINT_STR ''='' \<notin> set (wifi_rows b)"
  proof
    assume "FPRINT_STR ''='' \<in> set (wifi_rows b)"
    then have "good_row (FPRINT_STR ''='')" using rows_good [of b] by (simp add: list_all_iff)
    then show False by (simp add: good_row_def row_key_def)
  qed
qed (use assms in simp_all)

text \<open>The library returns what the memory holds, and the file can be written.\<close>

definition reads :: "nv_env \<Rightarrow> (string \<Rightarrow> string) \<Rightarrow> bool" where
  "reads e g \<longleftrightarrow> (\<forall>cs k. nv_bufget e cs (RT2860_NVRAM e) k = Some (g k) \<and> nv_get e cs (RT2860_NVRAM e) k = Some (g k))
     \<and> (\<forall>cs path. nv_answer e cs (NvCreate path) \<noteq> 0)"

definition driver_file :: string where
  "driver_file = ''/etc/Wireless/RT2860/RT2860.dat''"

lemma gen_config_file:
  assumes "reads e g"
  shows "\<exists>cs. gen_config e b (RT2860_NVRAM e) w =
    ret (0, w\<lparr>nv_calls := nv_calls w @ cs @ [NvFile driver_file (file_header @ lines_of (file_settings g (wifi_rows b)))]\<rparr>)"
proof -
  have r: "nv_bufget e cs (RT2860_NVRAM e) = (\<lambda>k. Some (g k))" "nv_get e cs (RT2860_NVRAM e) = (\<lambda>k. Some (g k))"
    "nv_answer e cs (NvCreate path) \<noteq> 0" for cs path
    using assms by (auto simp: reads_def)
  show ?thesis
    by (rule exI [of _ "[NvInit (RT2860_NVRAM e), NvSystem ''mkdir -p /etc/Wireless/RT2860'', NvCreate driver_file, NvClose (RT2860_NVRAM e)]"])
      (simp add: gen_config_def system_def nv_log_def nv_do_def r fprint_rows_lines driver_file_def Let_def)
qed

text \<open>The row of the first network is the only one of its key.\<close>

lemma rows_first: "\<exists>pre post. wifi_rows b = pre @ FPRINT_STR ''SSID1'' # post \<and> FPRINT_STR ''SSID1'' \<notin> set (pre @ post)"
proof -
  define tl where "tl = drop 6 (bss_rows b) @ radio_rows b @ station_rows b @ security_rows b @ key_rows b @ ht_rows b @ wps_rows b
    @ access_rows b @ wds_radius_rows b @ apcli_rows b"
  have "wifi_rows b = [FPRINT_NUM ''CountryRegion'', FPRINT_NUM ''CountryRegionABand'', FPRINT_STR ''CountryCode'', FPRINT_NUM ''BssidNum'', BSSIDS]
      @ FPRINT_STR ''SSID1'' # tl"
    by (simp add: wifi_rows_def tl_def bss_rows_def)
  moreover have "FPRINT_STR ''SSID1'' \<notin> set tl"
    unfolding tl_def
    by (simp add: bss_rows_def radio_rows_def station_rows_def security_rows_def key_rows_def ht_rows_def wps_rows_def access_rows_def
      wds_radius_rows_def apcli_rows_def)
  ultimately show ?thesis by (intro exI conjI) (assumption, simp)
qed

section \<open>Properties\<close>


text \<open>C14. A line break in a setting makes another setting of what follows it: if the name of the first network is a text, a line break, a key, an
  equals sign and a value, then reading the file back sets this key to this value.\<close>

theorem line_break_injects_setting:
  assumes "reads e g" "\<And>j. j \<noteq> ''SSID1'' \<Longrightarrow> plain_text (g j)" "g ''SSID1'' = a @ CHR 0x0A # k @ ''='' @ x" "fits (''SSID1'', a)" "fits (k, x)"
  shows "\<exists>cs text. gen_config e b (RT2860_NVRAM e) w = ret (0, w\<lparr>nv_calls := nv_calls w @ cs @ [NvFile driver_file text]\<rparr>)
    \<and> (\<forall>e' m f v. nv_file e' (nv_calls v) f = Some text \<longrightarrow>
        (\<exists>u. renew_nvram e' m f v = (0, u) \<and> NvBufset m k x \<in> set (nv_calls u)))"
proof -
  obtain pre post where rows: "wifi_rows b = pre @ FPRINT_STR ''SSID1'' # post" and none: "FPRINT_STR ''SSID1'' \<notin> set (pre @ post)"
    using rows_first [of b] by blast
  let ?kvs = "file_settings g pre @ [(''SSID1'', a), (k, x)] @ file_settings g post"
  have good: "list_all good_row (pre @ post)" using rows_good [of b] by (simp add: rows)
  have "list_all fits (file_settings g (pre @ post))" by (rule rows_fit [OF good assms(2) none]) simp_all
  then have fit: "list_all fits ?kvs" using assms(4,5) by simp
  have same: "lines_of (file_settings g (wifi_rows b)) = lines_of ?kvs"
    by (simp add: rows row_settings_def assms(3) setting_line_def)
  have "NvBufset m k x \<in> set (bufsets m ?kvs)" for m by (simp add: bufsets_def)
  note sets = this
  obtain cs where gen: "gen_config e b (RT2860_NVRAM e) w =
      ret (0, w\<lparr>nv_calls := nv_calls w @ cs @ [NvFile driver_file (file_header @ lines_of ?kvs)]\<rparr>)"
    using gen_config_file [OF assms(1), of b w] unfolding same by blast
  have "\<exists>u. renew_nvram e' m f v = (0, u) \<and> NvBufset m k x \<in> set (nv_calls u)"
    if "nv_file e' (nv_calls v) f = Some (file_header @ lines_of ?kvs)" for e' m f v
    using renew_file [OF fit that, of m] sets [of m] by auto
  with gen show ?thesis by blast
qed

section \<open>Examples\<close>

text \<open>A memory, and the build with the fewest rows.\<close>

definition nv_build1 :: nv_build where
  "nv_build1 = \<lparr>mbss16 = False, video_turbine = False, unique_wps = False, lan_wan = True, nf_filter = True, swqos = False, custom_qos = False,
     hwqos = False, ipv6 = False, nat_hw = False\<rparr>"

definition nv_memory :: "(string \<Rightarrow> string) \<Rightarrow> nv_env" where
  "nv_memory g = \<lparr>nv_bufget = (\<lambda>cs z k. Some (g k)), nv_get = (\<lambda>cs z k. Some (g k)), getNvramIndex = (\<lambda>s. 0), nv_answer = (\<lambda>cs c. 1),
     nv_file = (\<lambda>cs f. None), flash_read_mac = (\<lambda>cs. [0, 12, 67, 1, 2, 3]), RT2860_NVRAM = 0, RTDEV_NVRAM = 1, CERT_NVRAM = 2, nv_index_fn = 4096,
     RALINK_GPIO_NUMBER = 24, RALINK_GPIO_LED_INFINITY = 4000, wsc_profile = (\<lambda>cs. []), wsc_configured = (\<lambda>cs. 1)\<rparr>"

lemma nv_memory_reads: "reads (nv_memory g) g"
  by (simp add: reads_def nv_memory_def)

definition memory1 :: "string \<Rightarrow> string \<Rightarrow> string" where
  "memory1 ssid k = (if k = ''SSID1'' then ssid else ''1'')"


theorem line_break_injects_setting_witness:
  "\<exists>text u. renew_nvram (nv_memory (memory1 ''other'')\<lparr>nv_file := (\<lambda>cs f. Some text)\<rparr>) 0 ''RT2860.dat'' nvd_zero = (0, u)
    \<and> NvBufset 0 ''AuthMode'' ''OPEN'' \<in> set (nv_calls u)
    \<and> (\<exists>cs. gen_config (nv_memory (memory1 (''x'' @ CHR 0x0A # ''AuthMode'' @ ''='' @ ''OPEN''))) nv_build1 0 nvd_zero
        = ret (0, nvd_zero\<lparr>nv_calls := cs @ [NvFile driver_file text]\<rparr>))"
proof -
  let ?g = "memory1 (''x'' @ CHR 0x0A # ''AuthMode'' @ ''='' @ ''OPEN'')"
  have plain: "plain_text (?g k)" if "k \<noteq> ''SSID1''" for k using that by (simp add: memory1_def plain_text_def)
  have fit: "fits (''SSID1'', ''x'')" "fits (''AuthMode'', ''OPEN'')" by (simp_all add: fits_def BUFSZ_def)
  have name: "?g ''SSID1'' = ''x'' @ CHR 0x0A # ''AuthMode'' @ ''='' @ ''OPEN''" by (simp add: memory1_def)
  obtain cs tx where r: "gen_config (nv_memory ?g) nv_build1 (RT2860_NVRAM (nv_memory ?g)) nvd_zero
        = ret (0, nvd_zero\<lparr>nv_calls := nv_calls nvd_zero @ cs @ [NvFile driver_file tx]\<rparr>)"
      "\<And>e' m f v. nv_file e' (nv_calls v) f = Some tx \<Longrightarrow> \<exists>u. renew_nvram e' m f v = (0, u) \<and> NvBufset m ''AuthMode'' ''OPEN'' \<in> set (nv_calls u)"
    using line_break_injects_setting [OF nv_memory_reads [of ?g] plain name fit, where b = nv_build1 and w = nvd_zero] by blast
  obtain u where "renew_nvram (nv_memory (memory1 ''other'')\<lparr>nv_file := (\<lambda>cs f. Some tx)\<rparr>) 0 ''RT2860.dat'' nvd_zero = (0, u)"
      "NvBufset 0 ''AuthMode'' ''OPEN'' \<in> set (nv_calls u)"
    using r(2) [of "nv_memory (memory1 ''other'')\<lparr>nv_file := (\<lambda>cs f. Some tx)\<rparr>" nvd_zero "''RT2860.dat''" 0] by auto
  moreover have "gen_config (nv_memory ?g) nv_build1 0 nvd_zero = ret (0, nvd_zero\<lparr>nv_calls := cs @ [NvFile driver_file tx]\<rparr>)"
    using r(1) by (simp add: nv_memory_def nvd_zero_def)
  ultimately show ?thesis by blast
qed

end
