(* ===== verification/NvWps.thy ===== *)
theory NvWps
  imports NvSpec
begin

text \<open>
  Wi-Fi Protected Setup in \<open>rt2880_app/nvram/nvram_daemon.c\<close>: what \<open>configAP\<close> leaves in the settings, and when the timer that \<open>triggerWPS\<close>
  starts is stopped.
\<close>

section \<open>What the daemon stores\<close>

text \<open>The last value that a log gives to a setting.\<close>

definition last_set :: "int \<Rightarrow> string \<Rightarrow> nv_call list \<Rightarrow> string option" where
  "last_set z k cs = fold (\<lambda>c r. case c of NvBufset z' k' v \<Rightarrow> if z' = z \<and> k' = k then Some v else r | _ \<Rightarrow> r) cs None"

lemma last_set_log: "last_set z k (cs @ [c]) =
    (case c of NvBufset z' k' v \<Rightarrow> if z' = z \<and> k' = k then Some v else last_set z k cs | _ \<Rightarrow> last_set z k cs)"
  by (simp add: last_set_def split: nv_call.split)

abbreviation set_in :: "int \<Rightarrow> string \<Rightarrow> nvd \<Rightarrow> string option" where
  "set_in z k w \<equiv> last_set z k (nv_calls w)"

lemma set_in_bufset [simp]: "set_in z k (bufset z' k' v w) = (if z' = z \<and> k' = k then Some v else set_in z k w)"
  by (simp add: bufset_def nv_log_def last_set_log)

lemma set_in_commit [simp]: "set_in z k (nv_log (NvCommit z') w) = set_in z k w"
  by (simp add: nv_log_def last_set_log)

text \<open>The profile of the driver is sound if the name, the key and the key with its length fit where the code puts them.\<close>

definition good_profile :: "byte list \<Rightarrow> bool" where
  "good_profile m \<longleftrightarrow> 0 \<in> set (drop 12 m) \<and> 0 \<in> set (drop 48 m) \<and> le16_at 112 m < 65 \<and> 48 + le16_at 112 m \<le> length m"

definition text_of :: "byte list \<Rightarrow> string" where
  "text_of m = map (\<lambda>x. char_of (unat x)) (takeWhile (\<lambda>c. c \<noteq> 0) m)"

lemma text_at_ret: "0 \<in> set m \<Longrightarrow> text_at m = ret (text_of m)"
  by (simp add: text_at_def text_of_def c_string_def)

definition psk_of :: "wsc_credential \<Rightarrow> string" where
  "psk_of p = text_of (take (wc_key_length p) (wc_key_mem p) @ replicate (65 - wc_key_length p) 0)"

lemma case_psk_ret:
  assumes "wc_key_length p < 65" "wc_key_length p \<le> length (wc_key_mem p)"
  shows "case_psk c z p w = ret (bufset z ''WPAPSK1'' (psk_of p) (bufset z ''DefaultKeyID'' ''2'' (bufset z ''EncrypType'' c w)))"
proof -
  let ?k = "take (wc_key_length p) (wc_key_mem p)"
  have "0 \<in> set (?k @ replicate (65 - wc_key_length p) (0 :: byte))" using assms by simp
  from text_at_ret [OF this] have "text_at (?k @ replicate (65 - wc_key_length p) 0) = ret (psk_of p)" by (simp add: psk_of_def)
  moreover have "store 0 ?k (replicate 65 0) = ?k @ replicate (65 - wc_key_length p) 0" using assms by (simp add: store_def min_def)
  ultimately show ?thesis using assms by (simp add: case_psk_def Let_def slice_def)
qed

text \<open>Whatever the cipher is, the switch ends with the lines for an open network.\<close>

definition sets_open :: "int \<Rightarrow> nvd \<Rightarrow> nvd \<Rightarrow> bool" where
  "sets_open z w u \<longleftrightarrow> set_in z ''EncrypType'' u = Some ''NONE'' \<and> set_in z ''DefaultKeyID'' u = Some ''1''
     \<and> set_in z ''AuthMode'' u = set_in z ''AuthMode'' w \<and> set_in z ''SSID1'' u = set_in z ''SSID1'' w"

lemma set_cipher_open:
  assumes "0 \<in> set (wc_key_mem p)" "wc_key_length p < 65" "wc_key_length p \<le> length (wc_key_mem p)"
  shows "\<exists>u. set_cipher z p w = ret u \<and> sets_open z w u
    \<and> (wc_encr p \<in> {2, 4, 8, 12} \<longrightarrow> set_in z ''WPAPSK1'' u = Some (psk_of p))"
proof -
  note psk = case_psk_ret [OF assms(2,3)]
  have none: "\<exists>u. case_none z p w = ret u \<and> sets_open z w u \<and> set_in z ''WPAPSK1'' u = set_in z ''WPAPSK1'' w" for w
    by (simp add: case_none_def sets_open_def)
  have both: "\<exists>u. case_tkipaes z p w = ret u \<and> sets_open z w u \<and> set_in z ''WPAPSK1'' u = Some (psk_of p)" for w
    by (simp add: case_tkipaes_def psk case_none_def sets_open_def)
  have aes: "\<exists>u. case_aes z p w = ret u \<and> sets_open z w u \<and> set_in z ''WPAPSK1'' u = Some (psk_of p)" for w
    by (simp add: case_aes_def case_tkipaes_def psk case_none_def sets_open_def)
  have tkip: "\<exists>u. case_tkip z p w = ret u \<and> sets_open z w u \<and> set_in z ''WPAPSK1'' u = Some (psk_of p)" for w
    by (simp add: case_tkip_def case_aes_def case_tkipaes_def psk case_none_def sets_open_def)
  have wep: "\<exists>u. case_wep z p w = ret u \<and> sets_open z w u \<and> set_in z ''WPAPSK1'' u = Some (psk_of p)" for w
    by (simp add: case_wep_def wep_key_def text_at_ret [OF assms(1)] Let_def case_tkip_def case_aes_def case_tkipaes_def psk case_none_def
        sets_open_def)
  show ?thesis
    using none [of w] both [of w] aes [of w] tkip [of w] wep [of w] unfolding set_cipher_def by (auto split: if_splits)
qed

definition wps_zone :: "nv_env \<Rightarrow> string \<Rightarrow> int" where
  "wps_zone e ifname = (if ifname = ''ra0'' then RT2860_NVRAM e else RTDEV_NVRAM e)"

lemma read_profile_good:
  assumes "good_profile m"
  shows "0 \<in> set (wc_ssid_mem (read_profile m))" "0 \<in> set (wc_key_mem (read_profile m))" "wc_key_length (read_profile m) < 65"
    "wc_key_length (read_profile m) \<le> length (wc_key_mem (read_profile m))"
  using assms by (auto simp: good_profile_def read_profile_def)


text \<open>A network with the newer protocol, its cipher and a pass phrase.\<close>

definition wps_profile1 :: "byte list" where
  "wps_profile1 = replicate 12 0 @ [0x68, 0x6F, 0x6D, 0x65] @ replicate 28 0 @ [0x20, 0, 8, 0]
     @ [0x70, 0x61, 0x73, 0x73, 0x77, 0x6F, 0x72, 0x64] @ replicate 56 0 @ [8, 0] @ replicate 6 0 @ [1] @ replicate 815 0"

definition wps_env1 :: nv_env where
  "wps_env1 = (nv_memory (memory1 ''other''))\<lparr>wsc_profile := (\<lambda>cs. wps_profile1)\<rparr>"


section \<open>The timer\<close>

text \<open>What of the state of the daemon the timer depends on. Nothing but the timer's own operations changes it.\<close>

definition timer_part :: "nvd \<Rightarrow> int \<times> int \<times> int \<times> (nv_signal \<Rightarrow> nv_handler option)" where
  "timer_part w = (wsc_timeout_counter w, g_wps_timer_state w, nv_alarm w, nv_handlers w)"

lemma timer_part_log [simp]: "timer_part (nv_log c w) = timer_part w"
  by (simp add: timer_part_def nv_log_def)

lemma timer_part_bufset [simp]: "timer_part (bufset z k v w) = timer_part w"
  by (simp add: bufset_def)

lemma timer_part_system [simp]: "timer_part (system s w) = timer_part w"
  by (simp add: system_def)

lemma timer_part_gpio: "timer_part (snd (gpioLedSet e gpio on off blinks rests reps w)) = timer_part w"
  by (simp add: gpioLedSet_def Let_def nv_do_def timer_part_def nv_log_def)

lemma timer_part_led [simp]: "timer_part (led e m w) = timer_part w"
  by (simp add: led_def ledWps_def timer_part_gpio split: wps_led.split)

lemma set_cipher_timer:
  assumes "0 \<in> set (wc_key_mem p)" "wc_key_length p < 65" "wc_key_length p \<le> length (wc_key_mem p)"
  shows "\<exists>u. set_cipher z p w = ret u \<and> timer_part u = timer_part w"
  using case_psk_ret [OF assms(2,3)]
  by (simp add: set_cipher_def case_wep_def wep_key_def text_at_ret [OF assms(1)] Let_def case_tkip_def case_aes_def case_tkipaes_def case_none_def)

lemma configAP_timer:
  assumes "\<And>cs. good_profile (wsc_profile e cs)"
  shows "\<exists>u. configAP e alloc ifname w = ret u \<and> timer_part u = timer_part w"
proof -
  let ?p = "read_profile (wsc_profile e (nv_calls w @ [NvWscProfile ifname]))" and ?z = "wps_zone e ifname"
  note good = read_profile_good [OF assms, of "nv_calls w @ [NvWscProfile ifname]"]
  let ?w = "bufset ?z ''AuthMode'' (auth_name (wc_auth ?p)) (bufset ?z ''WscSSID'' (text_of (wc_ssid_mem ?p)) (bufset ?z ''SSID1''
    (text_of (wc_ssid_mem ?p)) (bufset ?z ''WscConfigured'' ''1'' (nv_log (NvInit ?z) (nv_log (NvWscProfile ifname) w)))))"
  obtain u where "set_cipher ?z ?p ?w = ret u" "timer_part u = timer_part w"
    using set_cipher_timer [OF good(2,3,4), of ?z ?w] by auto
  then show ?thesis
    using text_at_ret [OF good(1)] by (simp add: configAP_def Let_def wps_zone_def nv_log_def timer_part_def bufset_def)
qed

text \<open>What the daemon needs of its surroundings so as not to stop: the library knows the settings, and the driver gives sound profiles.\<close>

definition wps_world :: "nv_env \<Rightarrow> bool" where
  "wps_world e \<longleftrightarrow> (\<forall>cs k. nv_bufget e cs (RT2860_NVRAM e) k \<noteq> None) \<and> (\<forall>cs. good_profile (wsc_profile e cs))"

lemma wps_world_text: "wps_world e \<Longrightarrow> \<exists>t. nv_bufget e cs (RT2860_NVRAM e) k = Some t"
  by (auto simp: wps_world_def)

text \<open>The timer has come \<open>n\<close> times, or it is off.\<close>

definition wps_handlers :: "(nv_signal \<Rightarrow> nv_handler option) \<Rightarrow> bool" where
  "wps_handlers h \<longleftrightarrow> h SIGALRM = Some QueryWPSStatus \<and> h SIGPIPE = None \<and> h SIGUSR2 = Some LoadDefaultHandler
     \<and> h SIGTSTP = Some DhcpcHandler \<and> h SIGTTIN = Some HotPluglerHandler"

definition wps_on :: "nat \<Rightarrow> nvd \<Rightarrow> bool" where
  "wps_on n w \<longleftrightarrow> n \<le> 1200 \<and> (\<exists>h. wps_handlers h \<and> timer_part w = (100 * int n, 1, 100000, h))"

definition wps_off :: "nvd \<Rightarrow> bool" where
  "wps_off w \<longleftrightarrow> (\<exists>c h. wps_handlers h \<and> timer_part w = (c, 0, 0, h))"

lemma timer_part_iff: "timer_part w = (c, g, a, h) \<longleftrightarrow>
    wsc_timeout_counter w = c \<and> g_wps_timer_state w = g \<and> nv_alarm w = a \<and> nv_handlers w = h"
  by (simp add: timer_part_def)

lemma trigger_on: "wps_on 0 (triggerWPS e (signal_handler w))"
  by (simp add: wps_on_def triggerWPS_def Let_def, simp add: timer_part_def setTimer_def nv_log_def resetTimerAll_def stopTimer_def
      signal_handler_def install_def WPS_AP_CATCH_CONFIGURED_TIMER_def wps_handlers_def)

lemma reset_off: "timer_part w = (c, g, a, h) \<Longrightarrow> timer_part (resetTimerAll w) = (c, 0, 0, h)"
  by (auto simp: timer_part_def resetTimerAll_def stopTimer_def nv_log_def)

lemma dhcpc_timer:
  assumes "wps_world e"
  shows "\<exists>u. dhcpcHandler e b w = ret u \<and> timer_part u = timer_part w"
proof -
  obtain g where g: "\<And>cs. nv_bufget e cs (RT2860_NVRAM e) ''hwnatEnabled'' = Some (g cs)"
    by (rule that [of "\<lambda>cs. the (nv_bufget e cs (RT2860_NVRAM e) ''hwnatEnabled'')"]) (use assms in \<open>simp add: wps_world_def\<close>)
  have tail: "\<exists>u. (if nat_hw b then run_map (\<lambda>t. if t = ''1'' then system ''insmod hw_nat'' (system ''rmmod hw_nat'' v) else v)
      (nv_text (nv_bufget e (nv_calls v) (RT2860_NVRAM e) ''hwnatEnabled'')) else ret v) = ret u \<and> timer_part u = timer_part v" for v
    by (simp add: g nv_text_def)
  show ?thesis unfolding dhcpcHandler_def Let_def
    by (rule exE [OF tail], rule exI, erule conjE, rule conjI, assumption)
      (cases "nf_filter b"; cases "swqos b"; cases "custom_qos b"; cases "hwqos b"; cases "ipv6 b"; simp)
qed


lemma load_default_timer: "timer_part (loadDefaultHandler b w) = timer_part w"
  by (simp add: loadDefaultHandler_def loadDefault_def)

lemma hot_plug_timer: "timer_part (hotPluglerHandler w) = timer_part w"
  by (simp add: hotPluglerHandler_def)

text \<open>A signal other than that of the timer and those that start it leaves the timer alone.\<close>

lemma deliver_other:
  assumes "wps_world e" "wps_handlers (nv_handlers w)" "s \<notin> {SIGALRM, SIGUSR1, SIGXFSZ}"
  shows "\<exists>u. nv_deliver e b alloc s w = ret u \<and> timer_part u = timer_part w"
  using assms(2,3) dhcpc_timer [OF assms(1), of b w] load_default_timer [of b w] hot_plug_timer [of w]
  by (cases s) (simp_all add: nv_deliver_def wps_handlers_def run_handler_def)

lemma off_part: "wps_off w \<Longrightarrow> timer_part u = timer_part w \<Longrightarrow> wps_off u"
  by (simp add: wps_off_def)

lemma on_part: "wps_on n w \<Longrightarrow> timer_part u = timer_part w \<Longrightarrow> wps_on n u"
  by (simp add: wps_on_def)

text \<open>The answer of the driver that ends the setup.\<close>

definition wps_result :: "int \<Rightarrow> bool" where
  "wps_result s \<longleftrightarrow> s \<in> {0x109, 34, 2, 1}"

lemma configured_timer:
  assumes "wps_world e"
  shows "\<exists>u. (if \<not> alloc 105 then ret v
      else let w = nv_log (NvCurrentWscProfile i) v in
        run_bind (nv_text (nv_bufget e (nv_calls w) (RT2860_NVRAM e) ''WCNTest'')) (\<lambda>t.
        if t = ''1'' \<or> wsc_configured e (nv_calls w) = 2 then configAP e alloc i w else ret w)) = ret u \<and> timer_part u = timer_part v"
proof -
  let ?w = "nv_log (NvCurrentWscProfile i) v"
  obtain t where t: "nv_bufget e (nv_calls ?w) (RT2860_NVRAM e) ''WCNTest'' = Some t"
    using wps_world_text [OF assms] by blast
  obtain u where "configAP e alloc i ?w = ret u" "timer_part u = timer_part v"
    using configAP_timer [of e alloc i ?w] assms by (auto simp: wps_world_def)
  then show ?thesis by (simp add: Let_def nv_text_def t)
qed

lemma query_tick:
  assumes "wps_world e" "wps_on n w"
  shows "\<exists>u. queryWPSStatus e alloc w = ret u \<and> (wps_off u \<or> n < 1200 \<and> wps_on (n + 1) u)
    \<and> ((\<forall>cs i. \<not> wps_result (nv_answer e cs (NvWscStatus i))) \<longrightarrow> n < 1200 \<longrightarrow> wps_on (n + 1) u)"
proof -
  obtain h where h: "wps_handlers h" "n \<le> 1200" "timer_part w = (100 * int n, 1, 100000, h)" using assms(2) by (auto simp: wps_on_def)
  let ?i = "if nv_answer e (nv_calls w) (NvAccess ''/tmp/rai0'') = 0 then ''rai0'' else ''ra0''"
  let ?w1 = "w\<lparr>nv_calls := nv_calls w @ [NvAccess ''/tmp/rai0'']\<rparr>"
  let ?s = "nv_answer e (nv_calls ?w1) (NvWscStatus ?i)"
  let ?w = "w\<lparr>nv_calls := nv_calls ?w1 @ [NvWscStatus ?i], wsc_timeout_counter := 100 * int n + 100\<rparr>"
  have "s32 (100 * int n + 100) = 100 * int n + 100" using h(2) by simp
  then have ctr: "s32 (wsc_timeout_counter w + WPS_AP_CATCH_CONFIGURED_TIMER) = 100 * int n + 100" "g_wps_timer_state w = 1"
    using h(3) by (simp_all add: timer_part_iff WPS_AP_CATCH_CONFIGURED_TIMER_def)
  have part: "timer_part ?w = (100 * int n + 100, 1, 100000, h)" using h(3) by (simp add: timer_part_iff)
  have off: "wps_off u" if "timer_part u = timer_part (resetTimerAll ?w)" for u
    using reset_off [OF part] that h(1) by (auto simp: wps_off_def)
  have on: "wps_on (n + 1) ?w" if "n < 1200" using that h(1) part by (simp add: wps_on_def)
  obtain u where u: "(if \<not> alloc 105 then ret (led e WPS_LED_SUCCESS (resetTimerAll ?w))
      else let w = nv_log (NvCurrentWscProfile ?i) (led e WPS_LED_SUCCESS (resetTimerAll ?w)) in
        run_bind (nv_text (nv_bufget e (nv_calls w) (RT2860_NVRAM e) ''WCNTest'')) (\<lambda>t.
        if t = ''1'' \<or> wsc_configured e (nv_calls w) = 2 then configAP e alloc ?i w else ret w)) = ret u"
      "timer_part u = timer_part (resetTimerAll ?w)"
    using configured_timer [OF assms(1), of alloc "led e WPS_LED_SUCCESS (resetTimerAll ?w)" ?i] by auto
  have step: "queryWPSStatus e alloc w =
      (if 120000 < 100 * int n + 100 then ret (led e WPS_LED_ERROR (resetTimerAll ?w))
       else if ?s = 0x109 then ret (led e WPS_LED_SESSION_OVERLAP (resetTimerAll ?w))
       else if ?s = 34 then ret u
       else if ?s = 2 \<or> ?s = 1 then ret (led e WPS_LED_RESET (resetTimerAll ?w))
       else ret ?w)"
    unfolding u(1) [symmetric] queryWPSStatus_def nv_do_def
    by (simp add: ctr WPS_AP_TIMEOUT_SECS_def Let_def)
  show ?thesis
  proof (cases "120000 < 100 * int n + 100 \<or> wps_result ?s")
    case True
    have "\<exists>u. queryWPSStatus e alloc w = ret u \<and> timer_part u = timer_part (resetTimerAll ?w)"
      using True u(2) unfolding step wps_result_def by auto
    with True off show ?thesis by auto
  next
    case False
    then have "queryWPSStatus e alloc w = ret ?w" "n < 1200" unfolding step wps_result_def by auto
    with on show ?thesis by simp
  qed
qed

lemma query_off:
  assumes "wps_off w" shows "nv_deliver e b alloc SIGALRM w = ret w"
  using assms by (auto simp: wps_off_def nv_deliver_def timer_part_iff)

lemma deliver_tick:
  assumes "wps_world e" "wps_on n w"
  shows "\<exists>u. nv_deliver e b alloc SIGALRM w = ret u \<and> (wps_off u \<or> n < 1200 \<and> wps_on (n + 1) u)
    \<and> ((\<forall>cs i. \<not> wps_result (nv_answer e cs (NvWscStatus i))) \<longrightarrow> n < 1200 \<longrightarrow> wps_on (n + 1) u)"
proof -
  have "nv_alarm w = 100000" "nv_handlers w SIGALRM = Some QueryWPSStatus"
    using assms(2) by (auto simp: wps_on_def wps_handlers_def timer_part_iff)
  with query_tick [OF assms, of alloc] show ?thesis by (simp add: nv_deliver_def run_handler_def)
qed

lemma off_handlers: "wps_off w \<Longrightarrow> wps_handlers (nv_handlers w)"
  by (auto simp: wps_off_def timer_part_iff)

lemma on_handlers: "wps_on n w \<Longrightarrow> wps_handlers (nv_handlers w)"
  by (auto simp: wps_on_def timer_part_iff)

lemma deliver_all_off:
  assumes "wps_world e" "set ss \<inter> {SIGUSR1, SIGXFSZ} = {}" "wps_off w"
  shows "\<exists>u. nv_deliver_all e b alloc ss w = ret u \<and> wps_off u"
  using assms(2,3)
proof (induction ss arbitrary: w)
  case (Cons s ss)
  have "\<exists>u. nv_deliver e b alloc s w = ret u \<and> wps_off u"
  proof (cases "s = SIGALRM")
    case True then show ?thesis using query_off [OF Cons.prems(2), of e b alloc] Cons.prems(2) by simp
  next
    case False
    then have "s \<notin> {SIGALRM, SIGUSR1, SIGXFSZ}" using Cons.prems(1) by auto
    from deliver_other [OF assms(1) off_handlers [OF Cons.prems(2)] this, of b alloc] off_part [OF Cons.prems(2)] show ?thesis by blast
  qed
  then obtain u where "nv_deliver e b alloc s w = ret u" "wps_off u" by blast
  with Cons.IH [of u] Cons.prems(1) show ?case by simp
qed simp

lemma deliver_all_on:
  assumes "wps_world e" "set ss \<inter> {SIGUSR1, SIGXFSZ} = {}" "wps_on n w"
  shows "\<exists>u. nv_deliver_all e b alloc ss w = ret u \<and> (wps_off u \<or> wps_on (n + count_list ss SIGALRM) u)
    \<and> ((\<forall>cs i. \<not> wps_result (nv_answer e cs (NvWscStatus i))) \<longrightarrow> n + count_list ss SIGALRM \<le> 1200 \<longrightarrow> wps_on (n + count_list ss SIGALRM) u)"
  using assms(2,3)
proof (induction ss arbitrary: n w)
  case (Cons s ss)
  note rest = Cons.IH [of "if s = SIGALRM then n + 1 else n"]
  show ?case
  proof (cases "s = SIGALRM")
    case False
    then have "s \<notin> {SIGALRM, SIGUSR1, SIGXFSZ}" using Cons.prems(1) by auto
    then obtain u where "nv_deliver e b alloc s w = ret u" "wps_on n u"
      using deliver_other [OF assms(1) on_handlers [OF Cons.prems(2)], of s b alloc] on_part [OF Cons.prems(2)] by blast
    then show ?thesis using False Cons.prems(1) rest [of u] by simp
  next
    case True
    obtain u where u: "nv_deliver e b alloc SIGALRM w = ret u" "wps_off u \<or> n < 1200 \<and> wps_on (n + 1) u"
        "(\<forall>cs i. \<not> wps_result (nv_answer e cs (NvWscStatus i))) \<longrightarrow> n < 1200 \<longrightarrow> wps_on (n + 1) u"
      using deliver_tick [OF assms(1) Cons.prems(2), of b alloc] by blast
    show ?thesis
    proof (cases "wps_on (n + 1) u")
      case on: True
      with True Cons.prems(1) rest [of u] show ?thesis by (simp add: u(1))
    next
      case False
      with u(2) obtain v where "nv_deliver_all e b alloc ss u = ret v" "wps_off v"
        using deliver_all_off [OF assms(1), of ss u b alloc] Cons.prems(1) by auto
      with u(1,3) False True show ?thesis by auto
    qed
  qed
qed (simp add: wps_on_def)

text \<open>C12. Wi-Fi Protected Setup ends. After \<open>triggerWPS\<close> every sequence of signals that does not start it again is handled without a fault. After
  1201 signals of the timer the timer is off, whatever the driver answered and whatever other signals came between. It is on until then if the driver
  has no result: that is two minutes, and not the 120000 seconds that the name of the limit says.\<close>

theorem wps_timer_ends:
  assumes "wps_world e" "set ss \<inter> {SIGUSR1, SIGXFSZ} = {}"
  shows "\<exists>u. nv_deliver_all e b alloc ss (triggerWPS e (signal_handler w)) = ret u
    \<and> (1201 \<le> count_list ss SIGALRM \<longrightarrow> nv_alarm u = 0 \<and> g_wps_timer_state u = 0)
    \<and> (count_list ss SIGALRM \<le> 1200 \<and> (\<forall>cs i. \<not> wps_result (nv_answer e cs (NvWscStatus i))) \<longrightarrow>
        nv_alarm u = 100000 \<and> g_wps_timer_state u = 1)"
proof -
  obtain u where u: "nv_deliver_all e b alloc ss (triggerWPS e (signal_handler w)) = ret u"
      "wps_off u \<or> wps_on (count_list ss SIGALRM) u"
      "(\<forall>cs i. \<not> wps_result (nv_answer e cs (NvWscStatus i))) \<longrightarrow> count_list ss SIGALRM \<le> 1200 \<longrightarrow> wps_on (count_list ss SIGALRM) u"
    using deliver_all_on [OF assms trigger_on, of b alloc e w] by auto
  have off: "nv_alarm u = 0 \<and> g_wps_timer_state u = 0" if "1201 \<le> count_list ss SIGALRM"
    using u(2) that by (auto simp: wps_on_def wps_off_def timer_part_iff)
  have on: "nv_alarm u = 100000 \<and> g_wps_timer_state u = 1" if "wps_on (count_list ss SIGALRM) u"
    using that by (auto simp: wps_on_def timer_part_iff)
  from u(1,3) off on show ?thesis by blast
qed

theorem wps_timer_ends_witness:
  "\<exists>u. nv_deliver_all wps_env1 nv_build1 (\<lambda>n. True) (replicate 1201 SIGALRM) (triggerWPS wps_env1 (signal_handler nvd_zero)) = ret u
    \<and> nv_alarm u = 0 \<and> g_wps_timer_state u = 0"
proof -
  have prof: "wsc_profile wps_env1 cs = wps_profile1" for cs by (simp add: wps_env1_def)
  have "good_profile wps_profile1" by (simp add: good_profile_def le16_at_def wps_profile1_def nth_append nth_Cons')
  then have "wps_world wps_env1" unfolding wps_world_def prof by (simp add: wps_env1_def nv_memory_def)
  moreover have "set (replicate 1201 SIGALRM) \<inter> {SIGUSR1, SIGXFSZ} = {}" "count_list (replicate 1201 SIGALRM) SIGALRM = 1201"
    by (simp_all add: count_list_eq_length_filter)
  ultimately show ?thesis
    using wps_timer_ends [of wps_env1 "replicate 1201 SIGALRM" nv_build1 "\<lambda>n. True" nvd_zero] by auto
qed

end
