(* ===== verification/Spec2Isabelle.thy ===== *)
theory Spec2Isabelle
  imports Md5 Eloop RadiusMsg EapolSm RadiusClient StaTable Ieee8021xTx StaInfo Ieee8021x Acl Config ConfigShape Startup Daemon DaemonInv Reachable ProxyRun ProxyTokens RouteInv RouteSpec SnoopInv SnoopSpec ProxyReach RamaLogin NvWps
begin

text \<open>
  \<^bold>\<open>What this development is about.\<close> The repository holds the user programs of a wireless router. Four of them are modelled here: the
  authenticator daemon \<open>rt2860apd\<close> of IEEE 802.1X (\<open>802.1x/\<close>), which decides which wireless stations get access; the multicast
  proxy \<open>igmpproxy\<close> (\<open>igmpproxy/src/\<close>), which forwards groups from the upstream interface to the LAN, opens the packet
  filter for them and programs the embedded switch; the management agent (\<open>rt2880_app/nvram/\<close>), through which a client on the LAN
  finds the router, logs in and sets its address and the name of its network; and the programs of the settings in the same directory, which write the file
  of the wireless driver and store the result of Wi-Fi Protected Setup. Most of the rest of the repository is third-party code shipped with its releases.

  \<^bold>\<open>The daemon.\<close> The driver of the access point hands over EAPOL frames of the stations (\<open>Handle_read\<close>). For every station there is an object
  with the state machines of IEEE 802.1X. A frame sets inputs of the machines, these send requests to the station or, through the RADIUS client,
  to the server; an answer of the server (\<open>Handle_radius\<close>) sets other inputs. The event loop calls these handlers and the timers.

  \<^item> \<open>Md5\<close> (\<open>md5.c\<close>): MD5, HMAC-MD5 and RC4. Shown: the transform is that of RFC 1321, hashing in pieces is hashing the whole, HMAC is
    that of RFC 2104, RC4 is its own inverse. The locale \<open>chunked_hash\<close> is the contract of an incremental hash.
  \<^item> \<open>Eloop\<close> (\<open>eloop.c\<close>): sockets, timers, signals and the loop. Shown: the queue of timers is sorted and stable (locale \<open>timer_queue\<close>),
    cancelling removes exactly the timers asked for, \<open>select\<close> waits exactly for the first.
  \<^item> \<open>RadiusMsg\<close> (\<open>radius.c\<close>, \<open>radius.h\<close>): building, parsing, signing and verifying messages. Shown: the parser accepts exactly the well-formed
    datagrams, every builder followed by the parser or the decryption is the identity, verification accepts exactly correct authenticators;
    and two inputs on which the code reads behind its buffer or never returns.
  \<^item> \<open>EapolSm\<close> (\<open>eapol_sm.c\<close>, \<open>eapol_sm.h\<close>): the four state machines. What a machine does to the outside is recorded in \<open>acts\<close> and run by
    \<open>sm_exec\<close> of \<open>Ieee8021xTx\<close>. The loop of \<open>eapol_sm_step\<close> is a \<open>partial_function\<close>; shown: it ends from every state that can be
    reached, the port does not open without an acceptance, opens with one and closes on a logoff.
  \<^item> \<open>Rtapd\<close> (\<open>rtdot1x.h\<close>, \<open>config.h\<close>, \<open>ap.h\<close>): the state of the daemon, one record \<open>rtapd\<close>; stations are objects at addresses.
  \<^item> \<open>RadiusClient\<close> (\<open>radius_client.c\<close>): the requests that wait for an answer, their retransmission and the change of servers. Shown: the
    invariant \<open>client_inv\<close>, the exact effect of the timer and of an answer. The locale \<open>rx_handlers\<close> is what the client asks of the functions
    that get the answers; \<open>DaemonInv\<close> interprets it on those of the daemon.
  \<^item> \<open>StaTable\<close> and \<open>StaInfo\<close> (\<open>sta_info.c\<close>): the list, the hash chains and the objects of the stations implement a finite map (locale
    \<open>station_map\<close>), and a session timer outlives its station.
  \<^item> \<open>Ieee8021xTx\<close> and \<open>Ieee8021x\<close> (\<open>ieee802_1x.c\<close>): the sending and the receiving half. Shown: the exact bytes of frames, keys and requests, and
    in the locale \<open>daemon_invariant\<close>, what every receiving function keeps.
  \<^item> \<open>Acl\<close> (\<open>ieee802_11_auth.c\<close>): addresses the server decides about.
  \<^item> \<open>Config\<close> and \<open>ConfigShape\<close> (\<open>config.c\<close>): the packed structure of the driver, and what an accepted configuration looks like.
  \<^item> \<open>Daemon\<close>, \<open>DaemonInv\<close>, \<open>Startup\<close>, \<open>Reachable\<close> (\<open>rtdot1x.c\<close>): start, handlers, reload, the loop. \<open>daemon_handlers\<close> extends
    \<open>daemon_invariant\<close> to all handlers and is interpreted twice, on the invariant of the data and on the absence of acceptances;
    \<open>reachable\<close> are the worlds that the started daemon gets to. The two properties about them are in this theory.

  \<^bold>\<open>The multicast proxy.\<close> \<open>proxy_start\<close> reads the configuration and sets up the interfaces, the kernel and the switch. \<open>proxy_turn\<close> is a turn of the
  loop of \<open>igmpproxy.c\<close>: a received packet goes to \<open>acceptIgmp\<close>, and what is due in the timer queue is called.

  \<^item> \<open>ProxyBase\<close> (\<open>defs.h\<close>, \<open>lib.c\<close>): all global variables as one record \<open>proxy\<close>, the calls to the system as a log \<open>calls\<close>, and the
    environment \<open>penv\<close>.
  \<^item> \<open>Callout\<close> (\<open>callout.c\<close>): the queue of time differences. Shown: it is an agenda of absolute times (locale \<open>agenda_queue\<close>).
  \<^item> \<open>IfVc\<close> (\<open>ifvc.c\<close>, \<open>mroute-api.c\<close>, \<open>mcgroup.c\<close>, \<open>udpsock.c\<close>, \<open>kern.c\<close>): interfaces, virtual interfaces and the interface of the kernel.
  \<^item> \<open>Switch\<close> (\<open>rt3052.c\<close>, \<open>rt3052_reg.c\<close>), \<open>Snoop\<close> (\<open>ralink.c\<close>): the address table of the switch, and the linked groups and members of
    the hosts of the LAN. \<open>SnoopInv\<close> has their representation \<open>snoop_rep\<close> and what every operation does to it; \<open>SnoopSpec\<close> the refinement of
    a finite map from groups to hosts, the registers that a changed group writes, and a member that is read after it was freed.
  \<^item> \<open>RouteTab\<close> (\<open>rttable.c\<close>): the doubly linked routing table. \<open>RouteInv\<close> has the representation (\<open>linked\<close>, \<open>table_ok\<close>) and the outcome of every
    operation; \<open>RouteSpec\<close> the refinement of a finite map of routes, the forwarding entry the kernel gets, the commands of the packet filter, and
    a route that is read after it was freed.
  \<^item> \<open>Igmp\<close> (\<open>igmp.c\<close>), \<open>Requests\<close> (\<open>request.c\<close>): messages, reports, leave messages and queries.
  \<^item> \<open>ProxyConfig\<close> (\<open>config.c\<close>, \<open>confread.c\<close>): the configuration file; \<open>ProxyTokens\<close> compares its buffered reader with an unbuffered one.
  \<^item> \<open>ProxyRun\<close> and \<open>ProxyReach\<close> (\<open>igmpproxy.c\<close>): the whole program, the invariant \<open>proxy_inv\<close> that every handler keeps, and the states
    that it reaches. The three properties about them are in this theory.

  \<^bold>\<open>The management agent.\<close> \<open>ramad_start\<close> opens the socket, and \<open>ramad_step\<close> is one turn of its loop: a packet is received into a buffer, checked
  and given to the handler of its type. There is one state for all clients: waiting for nothing, for the password, or logged in.

  \<^item> \<open>Md5c\<close> (\<open>md5c.c\<close>): the second MD5 program of the repository. Shown: it interprets \<open>chunked_hash\<close> with the same specification
    \<open>md5_spec\<close>, so the two programs agree on every message in any pieces.
  \<^item> \<open>RamaMsg\<close> (\<open>rmmsg.c\<close>, \<open>rama.h\<close>): messages of TLVs, the hash of a login, the state \<open>ramad\<close> and the log of the calls to the system.
  \<^item> \<open>Ramad\<close> (\<open>ramad.c\<close>): the requests to the system, the handlers and the loop.
  \<^item> \<open>RamaSpec\<close> describes messages as lists of TLVs and what the handlers read from them. \<open>RamaInv\<close> shows for every handler which calls it adds to
    the log (\<open>talk\<close>, \<open>gains\<close>), and from this that nothing is set without the password and that all replies are messages. \<open>RamaLogin\<close> shows that
    a client with the password is served, that the agent takes messages apart as they were built, and the two messages that hang it
    and make it read behind its buffer.

  \<^bold>\<open>The settings.\<close> \<open>ralink_main\<close> is the program with the commands, \<open>nvram_main\<close> the start of the daemon, which then waits for signals
  (\<open>nv_deliver\<close>). Both keep one log of their calls to the library of the flash memory and to the system.

  \<^item> \<open>NvFile\<close> (\<open>ralink_init.c\<close>): \<open>gen_config\<close> prints the rows \<open>wifi_rows\<close> of the build to the file of the driver, \<open>renew_nvram\<close> reads such a file line
    by line, and the commands get, set, show and clear settings.
  \<^item> \<open>NvDaemon\<close> (\<open>nvram_daemon.c\<close>): the defaults, the LED, \<open>configAP\<close>, the timer and the handlers of the signals.
  \<^item> \<open>NvSpec\<close> has the list of settings that a file stands for (\<open>file_settings\<close>), the round trip through the file, and a setting that writes another one.
    \<open>NvWps\<close> shows that Wi-Fi Protected Setup ends, by an invariant that counts the signals of the timer, and that it leaves the network open.

  \<^bold>\<open>How code is modelled.\<close> A function that can commit a fault (an access outside an object, through a null pointer, to a freed object), end the process,
  or run forever has the type \<open>'a run\<close> of \<open>Prelude\<close>; the others are plain functions. The state is passed explicitly. Linked structures
  whose addresses the code keeps (stations, routes, groups, members, descriptors) are objects in a map from addresses, and freeing removes the object, so that
  a later use is the fault \<open>UseAfterFree\<close>; lists that only their own module links are lists. Integers have their width: words, or \<open>int\<close> with
  \<open>s32\<close> where the code has a signed \<open>int\<close>. Loops that may not end are \<open>partial_function (option)\<close>, where \<open>None\<close> is that they do not
  return; no fuel is used. \<open>returns m P\<close> is total correctness, \<open>yields m P\<close> partial correctness: the invariants of the reachable states are
  of the second kind (a fault ends the process, and there is no state behind it), the functional properties of the first.

  \<^bold>\<open>What is a parameter.\<close> The kernel, the driver, the clock, random numbers and the allocator are fields of an environment (\<open>env\<close>, \<open>penv\<close>, \<open>rm_env\<close>, \<open>nv_env\<close>), given as
  functions of what the program has asked so far or of the arguments of the call. \<open>kernel_ok\<close>, \<open>few_ifs\<close>, \<open>hw_ok\<close>, \<open>sends_ok\<close>, \<open>short_settings\<close>, \<open>cooperative\<close>, \<open>reads\<close> and \<open>wps_world\<close> state
  what the properties need of them; the witnesses give environments that have it.

  \<^bold>\<open>What is not modelled.\<close> Logging and debugging output; \<open>fork\<close>, command line options and the detaching from the terminal; the code that the build of
  this router leaves out (\<open>MULTIPLE_RADIUS\<close>, wireless snooping, the special tag of the switch, a second wireless device, the certificates and the GPIO pins of other chips). The third-party programs, the tools that only write
  device registers and the clients of operator clouds are listed with their reasons in the manifest of the components.
\<close>

section \<open>The 802.1X daemon\<close>



text \<open>C2. No access without the server. As long as nothing that comes from the client's socket is an Access-Accept
  that verifies against a waiting request and its secret, no station is authorized: whatever the stations send,
  whatever other messages arrive, and however timers and signals interleave, the port of every station is
  unauthorized and no station is in the state AUTHENTICATED.\<close>

theorem no_access_without_accept:
  assumes "reachable (\<lambda>e rx w. fair e rx w \<and> no_accept e rx w) w" "stas w k = Some s" "eapol_sm s = Some sm"
  shows "portStatus sm = Unauthorized \<and> pae sm \<noteq> AUTH_PAE_AUTHENTICATED \<and> portControl sm = Auto"
proof -
  have "unaccepted w"
    using shut_handlers.reachable_keeps [OF assms(1)] by (auto simp: unaccepted_def)
  then have "not_accepted (sm\<lparr>acts := []\<rparr>)" using assms(2,3) by (simp add: unaccepted_def)
  then show ?thesis by (simp add: not_accepted_def)
qed

theorem no_access_without_accept_witness:
  "\<exists>w s sm. reachable (\<lambda>e rx w. fair e rx w \<and> no_accept e rx w) w \<and> stas w 0 = Some s \<and> eapol_sm s = Some sm \<and> portStatus sm = Unauthorized"
proof -
  obtain w s sm where "reachable (\<lambda>e rx w. fair e rx w \<and> no_accept e rx w) w" "stas w 0 = Some s" "eapol_sm s = Some sm"
    using sample_station [of "\<lambda>e rx w. fair e rx w \<and> no_accept e rx w"] sample_quiet by blast
  then show ?thesis using no_access_without_accept by blast
qed

section \<open>The multicast proxy\<close>

text \<open>C3. In every state the multicast proxy reaches, from its start with the zeroed globals and any configuration file, through any packets, any
  timers and any clock, the routing table is a well-formed doubly linked list of entries with different groups and different addresses;
  with snooping, the heap of group and member entries is the linked representation of a table of groups; and every waiting
  timer of a group-specific query holds the address of a descriptor that has not been freed.\<close>

theorem proxy_reachable_sound:
  assumes "kernel_ok e" "few_ifs e" "proxy_reaches e content se (l, w)"
  shows "table_ok w \<and> (snooping_enabled w \<longrightarrow> (\<exists>v. snoop_view w v)) \<and>
    (\<forall>p \<in> set (callout_queue w). to_func p = SendGroupSpecificMemberQuery \<longrightarrow> (\<exists>k g. to_data p = Some k \<and> gvdescs w k = Some g))"
  using reaches_inv [OF assms(3,1,2)] by (auto simp: proxy_inv_def snooping_ok_def job_ok_def)

lemma proxy_reachable_sound_witness:
  "\<exists>l w. proxy_reaches sample_net (Some sample_text) False (l, w) \<and> wanted (table w sample_group) = 1 \<and> table_ok w"
  using sample_reached proxy_reachable_sound [OF sample_kernel] by blast

text \<open>C4. With quick leave, in every state the proxy reaches the rules that its commands have put into the packet filter of the upstream
  interface are those of the joined groups: for a group that is joined there is one insertion more than there are deletions, and for every other
  group there are as many. The packets of a group get through the filter exactly while somebody downstream listens to it.\<close>

theorem proxy_filter_in_step:
  assumes "kernel_ok e" "few_ifs e" "proxy_reaches e content se (l, w)" "fastUpstreamLeave (commonConfig w)" "getIfByIx (upStreamVif w) w = Some d"
  shows "rule_balance (if_Name d) (commands_of (calls w)) gr = wanted (table w gr)"
  using reaches_inv [OF assms(3,1,2)] assms(4,5) by (simp add: proxy_inv_def filter_ok_def)

lemma proxy_filter_in_step_witness:
  "\<exists>l w. proxy_reaches sample_net (Some sample_text) False (l, w) \<and> rule_balance (if_Name wan) (commands_of (calls w)) sample_group = 1"
proof -
  obtain l w where w: "proxy_reaches sample_net (Some sample_text) False (l, w)" "fastUpstreamLeave (commonConfig w)"
    "getIfByIx (upStreamVif w) w = Some wan" "wanted (table w sample_group) = 1" using sample_reached by blast
  show ?thesis using proxy_filter_in_step [OF sample_kernel w(1-3), of sample_group] w(1,4) by auto
qed

text \<open>C8. The proxy never stops querying: in every state it reaches, a timer for a general query is pending, because the handler of that timer
  sets the next one and no other operation takes one away.\<close>

theorem proxy_keeps_querying:
  assumes "kernel_ok e" "few_ifs e" "proxy_reaches e content se (l, w)"
  shows "\<exists>p \<in> set (callout_queue w). to_func p = SendGeneralMembershipQuery"
  using reaches_inv [OF assms(3,1,2)] by (auto simp: queries_def is_query_def filter_empty_conv)

lemma proxy_keeps_querying_witness:
  "\<exists>l w. proxy_reaches sample_net (Some sample_text) False (l, w) \<and> wanted (table w sample_group) = 1
     \<and> (\<exists>p \<in> set (callout_queue w). to_func p = SendGeneralMembershipQuery)"
  using sample_reached proxy_keeps_querying [OF sample_kernel] by meson

end
